(* ===== verification/GoPrelude.thy ===== *)
theory GoPrelude
  imports
    Complex_Main
    "HOL-Library.List_Lexorder"
    "HOL-Library.Char_ord"
    "HOL-Library.Multiset"
    "HOL-Library.AList"
    "HOL-Library.Sublist"
    "HOL-Library.Signed_Division"
begin

text \<open>
  What the Go program takes from its language and standard library, once, for every
  component: instants and durations of package time, \<open>int64\<close> wrap-around, maps that are
  iterated, \<open>sort.Slice\<close> and the functions of package strings. The lemma collections
  \<open>go_time\<close> (arithmetic of instants) and \<open>go_map\<close> (maps and their accumulation) carry
  the component proofs.
\<close>

named_theorems go_time \<open>unfolding of instants and durations\<close>
named_theorems go_map \<open>look-ups in maps after updates\<close>

section \<open>Numbers\<close>

text \<open>
  A \<open>float64\<close> is modelled by the rational it denotes, with exact arithmetic: rounding, the
  infinities and NaN are not modelled, so a guard that only excludes those is always true.
  An \<open>int64\<close> is an \<open>int\<close>; \<open>wrap64\<close> is written where a product can leave the range.
\<close>

type_synonym f64 = rat

definition wrap64 :: "int \<Rightarrow> int" where
  "wrap64 x = (x + 2 ^ 63) mod 2 ^ 64 - 2 ^ 63"

lemma wrap64_id [simp]: "- (2 ^ 63) \<le> x \<Longrightarrow> x < 2 ^ 63 \<Longrightarrow> wrap64 x = x"
  by (simp add: wrap64_def)

lemma wrap64_add_small [simp]: "\<bar>a\<bar> < 2 ^ 62 \<Longrightarrow> \<bar>b\<bar> < 2 ^ 62 \<Longrightarrow> wrap64 (a + b) = a + b"
  by (rule wrap64_id) auto

lemma wrap64_range: "- (2 ^ 63) \<le> wrap64 x" "wrap64 x < 2 ^ 63"
proof -
  define y where "y = (x + 2 ^ 63) mod (2 ^ 64 :: int)"
  have y: "0 \<le> y" "y < 2 ^ 64" and eq: "wrap64 x = y - 2 ^ 63"
    by (simp_all add: y_def wrap64_def)
  from y show "- (2 ^ 63) \<le> wrap64 x" "wrap64 x < 2 ^ 63"
    unfolding eq by simp_all
qed

text \<open>Wrapping is a congruence: inner wraps of a sum or difference do not show.\<close>

lemma wrap64_eq_mod: "wrap64 a = wrap64 b \<longleftrightarrow> a mod 2 ^ 64 = b mod 2 ^ 64"
proof -
  have "wrap64 a = wrap64 b \<longleftrightarrow> (a + 2 ^ 63) mod 2 ^ 64 = (b + 2 ^ 63) mod 2 ^ 64" by (simp add: wrap64_def)
  also have "\<dots> \<longleftrightarrow> a mod 2 ^ 64 = b mod 2 ^ 64" by (simp only: mod_eq_dvd_iff) simp
  finally show ?thesis .
qed

lemma wrap64_mod: "wrap64 a mod 2 ^ 64 = a mod 2 ^ 64"
  by (simp add: wrap64_def mod_diff_left_eq)

lemma wrap64_add_left: "wrap64 (wrap64 a + b) = wrap64 (a + b)"
  and wrap64_add_right: "wrap64 (a + wrap64 b) = wrap64 (a + b)"
  and wrap64_diff_left: "wrap64 (wrap64 a - b) = wrap64 (a - b)"
  and wrap64_diff_right: "wrap64 (a - wrap64 b) = wrap64 (a - b)"
  unfolding wrap64_eq_mod
  by (metis wrap64_mod mod_add_left_eq, metis wrap64_mod mod_add_right_eq,
      metis wrap64_mod mod_diff_left_eq, metis wrap64_mod mod_diff_right_eq)

lemmas wrap64_push = wrap64_add_left wrap64_add_right wrap64_diff_left wrap64_diff_right

lemma wrap64_telescope: "wrap64 (wrap64 (b - a) + wrap64 (c - b)) = wrap64 (c - a)"
  by (simp only: wrap64_add_left wrap64_add_right) (simp add: algebra_simps)

lemma wrap64_telescope2:
  "wrap64 (wrap64 (wrap64 (b - a) - wrap64 (b' - a')) + wrap64 (wrap64 (c - b) - wrap64 (c' - b'))) =
   wrap64 (wrap64 (c - a) - wrap64 (c' - a'))"
  by (simp only: wrap64_push) (simp add: algebra_simps)

text \<open>The conversion \<open>int(x)\<close> drops the fraction.\<close>

definition int_of :: "f64 \<Rightarrow> int" where
  "int_of x = (if x < 0 then - \<lfloor>- x\<rfloor> else \<lfloor>x\<rfloor>)"

section \<open>Instants and durations\<close>

text \<open>
  A \<open>time.Time\<close> is the number of nanoseconds from the Unix epoch (its location is not
  modelled: \<open>UTC()\<close> is the identity); \<open>zero_time\<close> is January 1 of year 1, the instant for
  which \<open>IsZero\<close> holds. A \<open>time.Duration\<close> is its number of nanoseconds; \<open>Sub\<close> saturates at
  the ends of \<open>int64\<close>.
\<close>

type_synonym time = int
type_synonym duration = int

definition second :: duration where "second = 1000000000"
definition minute :: duration where "minute = 60 * second"
definition hour :: duration where "hour = 60 * minute"

definition zero_time :: time where "zero_time = - (62135596800 * second)"

definition max_duration :: duration where "max_duration = 2 ^ 63 - 1"
definition min_duration :: duration where "min_duration = - (2 ^ 63)"

definition time_sub :: "time \<Rightarrow> time \<Rightarrow> duration" where
  "time_sub t u = max min_duration (min max_duration (t - u))"

text \<open>\<open>Truncate\<close> and \<open>Round\<close> count from the zero time; \<open>Round\<close> takes a half up.\<close>

definition time_truncate :: "time \<Rightarrow> duration \<Rightarrow> time" where
  "time_truncate t d = (if d \<le> 0 then t else t - (t - zero_time) mod d)"

definition time_round :: "time \<Rightarrow> duration \<Rightarrow> time" where
  "time_round t d =
     (if d \<le> 0 then t
      else let r = (t - zero_time) mod d in if r + r < d then t - r else t + (d - r))"

definition unix_seconds :: "time \<Rightarrow> int" where
  "unix_seconds t = t div second"

definition unix_milli :: "time \<Rightarrow> int" where
  "unix_milli t = t div 1000000"

definition of_unix_milli :: "int \<Rightarrow> time" where
  "of_unix_milli ms = ms * 1000000"

definition seconds_of :: "duration \<Rightarrow> f64" where
  "seconds_of d = of_int d / 1000000000"

lemmas time_units = second_def minute_def hour_def
declare time_units [go_time]

lemma second_pos [simp]: "0 < second" and minute_pos [simp]: "0 < minute" and hour_pos [simp]: "0 < hour"
  by (simp_all add: time_units)

text \<open>Two instants are in range of each other when \<open>Sub\<close> does not saturate.\<close>

definition in_range :: "time \<Rightarrow> time \<Rightarrow> bool" where
  "in_range t u \<longleftrightarrow> min_duration \<le> t - u \<and> t - u \<le> max_duration"

lemma time_sub_exact [simp]: "in_range t u \<Longrightarrow> time_sub t u = t - u"
  by (simp add: in_range_def time_sub_def)

lemma time_sub_less_iff:
  "min_duration \<le> d \<Longrightarrow> d < max_duration \<Longrightarrow> d < time_sub t u \<longleftrightarrow> d < t - u"
  by (auto simp: time_sub_def max_duration_def min_duration_def)

lemma time_sub_le_iff:
  "min_duration \<le> d \<Longrightarrow> d < max_duration \<Longrightarrow> time_sub t u \<le> d \<longleftrightarrow> t - u \<le> d"
  by (auto simp: time_sub_def max_duration_def min_duration_def)

lemma time_sub_gt_iff:
  "min_duration < d \<Longrightarrow> d \<le> max_duration \<Longrightarrow> time_sub t u < d \<longleftrightarrow> t - u < d"
  by (auto simp: time_sub_def max_duration_def min_duration_def)

lemma time_truncate_bounds:
  assumes "0 < d"
  shows "time_truncate t d \<le> t" "t < time_truncate t d + d"
  using assms pos_mod_bound[OF assms, of "t - zero_time"] by (simp_all add: time_truncate_def)

lemma time_round_near:
  assumes "0 < d"
  shows "2 * \<bar>time_round t d - t\<bar> \<le> d"
proof -
  define r where "r = (t - zero_time) mod d"
  have "0 \<le> r" "r < d" using assms by (simp_all add: r_def)
  moreover have "time_round t d = (if r + r < d then t - r else t + (d - r))"
    using assms by (simp add: time_round_def Let_def r_def)
  ultimately show ?thesis by (cases "r + r < d") auto
qed

lemma time_round_mono:
  assumes "t \<le> u" shows "time_round t d \<le> time_round u d"
proof (cases "0 < d")
  case False
  with assms show ?thesis by (simp add: time_round_def)
next
  case True
  define q r where "q = (\<lambda>x. (x - zero_time) div d)" and "r = (\<lambda>x. (x - zero_time) mod d)"
  have split: "x = zero_time + d * q x + r x" and r: "0 \<le> r x" "r x < d" for x
    using True by (simp_all add: q_def r_def)
  have round: "time_round x d = zero_time + d * (q x + (if r x + r x < d then 0 else 1))" for x
  proof -
    have "time_round x d = (if r x + r x < d then x - r x else x + (d - r x))"
      using True by (simp add: time_round_def Let_def r_def)
    with split[of x] show ?thesis by (auto simp: distrib_left)
  qed
  have "q t \<le> q u"
    unfolding q_def using assms True by (intro zdiv_mono1) simp_all
  then consider "q t = q u" | "q t + 1 \<le> q u" by linarith
  then show ?thesis
  proof cases
    case 1
    with assms split[of t] split[of u] have "r t \<le> r u" by simp
    with 1 True show ?thesis by (simp add: round)
  next
    case 2
    then have "d * (q t + 1) \<le> d * q u" using True by (intro mult_left_mono) simp_all
    with True 2 show ?thesis by (simp add: round algebra_simps)
  qed
qed

section \<open>Maps\<close>

text \<open>
  A Go map that the code iterates is an association list with distinct keys; the order of
  the list is one order the runtime may iterate in. Reading a missing key gives the zero
  value of the element type.
\<close>

type_synonym ('k, 'v) gomap = "('k \<times> 'v) list"

definition get_or :: "'v \<Rightarrow> ('k, 'v) gomap \<Rightarrow> 'k \<Rightarrow> 'v" where
  "get_or z m k = (case map_of m k of None \<Rightarrow> z | Some v \<Rightarrow> v)"

definition has_key :: "('k, 'v) gomap \<Rightarrow> 'k \<Rightarrow> bool" where
  "has_key m k \<longleftrightarrow> map_of m k \<noteq> None"

abbreviation put :: "'k \<Rightarrow> 'v \<Rightarrow> ('k, 'v) gomap \<Rightarrow> ('k, 'v) gomap" where
  "put \<equiv> AList.update"

abbreviation wf_map :: "('k, 'v) gomap \<Rightarrow> bool" where
  "wf_map m \<equiv> distinct (map fst m)"

text \<open>\<open>m[k] += v\<close>\<close>

definition bump :: "'k \<Rightarrow> 'v::plus \<Rightarrow> 'v \<Rightarrow> ('k, 'v) gomap \<Rightarrow> ('k, 'v) gomap" where
  "bump k v z m = put k (get_or z m k + v) m"

lemma get_or_put [simp, go_map]: "get_or z (put k v m) k' = (if k' = k then v else get_or z m k')"
  by (simp add: get_or_def update_conv')

lemma get_or_Nil [simp, go_map]: "get_or z [] k = z"
  by (simp add: get_or_def)

lemma wf_map_put [simp, intro]: "wf_map m \<Longrightarrow> wf_map (put k v m)"
  by (rule distinct_update)

lemma get_or_bump [simp, go_map]:
  "get_or z (bump k v z m) k' = (if k' = k then get_or z m k + v else get_or z m k')"
  by (simp add: bump_def)

lemma wf_map_bump [simp, intro]: "wf_map m \<Longrightarrow> wf_map (bump k v z m)"
  by (simp add: bump_def)

lemma keys_put [simp]: "fst ` set (put k v m) = insert k (fst ` set m)"
  using dom_update[of k v m] by (simp add: dom_map_of_conv_image_fst)

lemma keys_bump [simp]: "fst ` set (bump k v z m) = insert k (fst ` set m)"
  by (simp add: bump_def)

text \<open>Accumulating a list of amounts: what one key holds, and what all keys hold together.\<close>

lemma get_or_bump_fold:
  fixes g :: "'a \<Rightarrow> 'v::comm_monoid_add"
  shows "get_or 0 (fold (\<lambda>x. bump (f x) (g x) 0) xs m) k
       = get_or 0 m k + sum_list (map g (filter (\<lambda>x. f x = k) xs))"
  by (induction xs arbitrary: m) (auto simp: add.assoc)

lemma wf_map_bump_fold: "wf_map m \<Longrightarrow> wf_map (fold (\<lambda>x. bump (f x) (g x) z) xs m)"
  by (induction xs arbitrary: m) auto

lemma keys_bump_fold:
  "fst ` set (fold (\<lambda>x. bump (f x) (g x) z) xs m) = fst ` set m \<union> f ` set xs"
  by (induction xs arbitrary: m) auto

lemma get_or_mem: "wf_map m \<Longrightarrow> (k, v) \<in> set m \<Longrightarrow> get_or z m k = v"
  by (simp add: get_or_def)

lemma get_or_none: "k \<notin> fst ` set m \<Longrightarrow> get_or z m k = z"
  by (simp add: get_or_def map_of_eq_None_iff[THEN iffD2])

lemma sum_list_map_keys:
  fixes f :: "'k \<Rightarrow> 'v \<Rightarrow> 'b::comm_monoid_add"
  assumes "wf_map m"
  shows "sum_list (map (\<lambda>(k, v). f k v) m) = (\<Sum>k \<in> fst ` set m. f k (get_or z m k))"
  using assms
proof (induction m)
  case Nil
  then show ?case by simp
next
  case (Cons kv m)
  obtain k v where kv: "kv = (k, v)" by (cases kv)
  have "k \<notin> fst ` set m" using Cons.prems kv by auto
  moreover have "(\<Sum>j \<in> fst ` set m. f j (get_or z (kv # m) j)) = (\<Sum>j \<in> fst ` set m. f j (get_or z m j))"
    by (rule sum.cong) (use kv \<open>k \<notin> fst ` set m\<close> in \<open>auto simp: get_or_def\<close>)
  ultimately show ?case using Cons kv by (simp add: get_or_def)
qed

lemma sum_values_put:
  fixes v :: "'v::ab_group_add"
  shows "wf_map m \<Longrightarrow> sum_list (map snd (put k v m)) = sum_list (map snd m) - get_or 0 m k + v"
  by (induction m) (auto simp: get_or_def algebra_simps map_of_eq_None_iff)

lemma sum_values_bump:
  fixes v :: "'v::ab_group_add"
  shows "wf_map m \<Longrightarrow> sum_list (map snd (bump k v 0 m)) = sum_list (map snd m) + v"
  by (simp add: bump_def sum_values_put)

lemma sum_values_bump_fold:
  fixes g :: "'a \<Rightarrow> 'v::ab_group_add"
  shows "wf_map m \<Longrightarrow> sum_list (map snd (fold (\<lambda>x. bump (f x) (g x) 0) xs m))
       = sum_list (map snd m) + sum_list (map g xs)"
proof (induction xs arbitrary: m)
  case Nil
  then show ?case by simp
next
  case (Cons x xs)
  have "wf_map (bump (f x) (g x) 0 m)" using Cons.prems by (rule wf_map_bump)
  from Cons.IH[OF this] Cons.prems show ?case by (simp add: sum_values_bump algebra_simps)
qed

end
