(* ===== verification/GoSort.thy ===== *)
theory GoSort
  imports GoPrelude
begin

text \<open>
  \<open>sort.Slice\<close>, \<open>sort.SliceStable\<close>, \<open>slices.SortFunc\<close> and \<open>slices.SortStableFunc\<close>: all take a
  comparison that must be a strict weak order. \<open>sort_by\<close> is the stable sort; the unstable
  ones may order equivalent elements in any way, and the locale proves that where no two
  elements are equivalent every order of the input gives the same result.
\<close>

fun insert_by :: "('a \<Rightarrow> 'a \<Rightarrow> bool) \<Rightarrow> 'a \<Rightarrow> 'a list \<Rightarrow> 'a list" where
  "insert_by lt x [] = [x]"
| "insert_by lt x (y # ys) = (if lt y x then y # insert_by lt x ys else x # y # ys)"

definition sort_by :: "('a \<Rightarrow> 'a \<Rightarrow> bool) \<Rightarrow> 'a list \<Rightarrow> 'a list" where
  "sort_by lt xs = foldr (insert_by lt) xs []"

lemma sort_by_Nil [simp]: "sort_by lt [] = []"
  by (simp add: sort_by_def)

lemma sort_by_Cons [simp]: "sort_by lt (x # xs) = insert_by lt x (sort_by lt xs)"
  by (simp add: sort_by_def)

lemma mset_insert_by [simp]: "mset (insert_by lt x ys) = add_mset x (mset ys)"
  by (induction ys) auto

lemma mset_sort_by [simp]: "mset (sort_by lt xs) = mset xs"
  by (induction xs) auto

lemma set_sort_by [simp]: "set (sort_by lt xs) = set xs"
  using mset_sort_by by (rule mset_eq_setD)

lemma length_sort_by [simp]: "length (sort_by lt xs) = length xs"
  using mset_sort_by by (rule mset_eq_length)

lemma sort_by_eq_Nil [simp]: "sort_by lt xs = [] \<longleftrightarrow> xs = []"
  by (metis length_0_conv length_sort_by)

lemma sum_list_sort_by [simp]:
  fixes f :: "'a \<Rightarrow> 'b::comm_monoid_add"
  shows "sum_list (map f (sort_by lt xs)) = sum_list (map f xs)"
  by (metis mset_map mset_sort_by sum_mset_sum_list)

lemma insert_by_filter_out [simp]: "\<not> P x \<Longrightarrow> filter P (insert_by lt x ys) = filter P ys"
  by (induction ys) auto

locale strict_weak =
  fixes lt :: "'a \<Rightarrow> 'a \<Rightarrow> bool"
  assumes asym: "lt a b \<Longrightarrow> \<not> lt b a"
    and trans_not: "\<not> lt b a \<Longrightarrow> \<not> lt c b \<Longrightarrow> \<not> lt c a"
begin

text \<open>\<open>before a b\<close>: the order lets a stand in front of b.\<close>

definition before :: "'a \<Rightarrow> 'a \<Rightarrow> bool" where
  "before a b \<longleftrightarrow> \<not> lt b a"

lemma before_total: "before a b \<or> before b a"
  using asym by (auto simp: before_def)

lemma before_refl [simp]: "before a a"
  using before_total by blast

lemma before_trans: "before a b \<Longrightarrow> before b c \<Longrightarrow> before a c"
  unfolding before_def by (rule trans_not)

lemma sorted_insert_by:
  "sorted_wrt before ys \<Longrightarrow> sorted_wrt before (insert_by lt x ys)"
proof (induction ys)
  case Nil
  then show ?case by simp
next
  case (Cons y ys)
  show ?case
  proof (cases "lt y x")
    case True
    have "set (insert_by lt x ys) = insert x (set ys)"
      using mset_insert_by[of lt x ys] by (metis set_mset_add_mset_insert set_mset_mset)
    with True Cons asym show ?thesis by (auto simp: before_def)
  next
    case False
    then have "before x y" by (simp add: before_def)
    with False Cons.prems show ?thesis by (auto intro: before_trans)
  qed
qed

lemma sorted_sort_by: "sorted_wrt before (sort_by lt xs)"
  by (induction xs) (simp_all add: sorted_insert_by)

text \<open>A sorted list is its own sorted form, and sorting is stable.\<close>

lemma insert_by_head: "\<forall>y \<in> set ys. before x y \<Longrightarrow> insert_by lt x ys = x # ys"
  by (cases ys) (auto simp: before_def)

lemma sort_by_sorted: "sorted_wrt before xs \<Longrightarrow> sort_by lt xs = xs"
  by (induction xs) (auto simp: insert_by_head)

lemma filter_insert_by:
  assumes "\<And>y. P y \<Longrightarrow> before x y"
  shows "filter P (insert_by lt x ys) = (if P x then x # filter P ys else filter P ys)"
proof (induction ys)
  case Nil
  then show ?case by simp
next
  case (Cons y ys)
  have "lt y x \<Longrightarrow> \<not> P y" using assms before_def by blast
  with Cons show ?case by auto
qed

lemma sort_by_stable:
  assumes "\<And>y z. P y \<Longrightarrow> P z \<Longrightarrow> before y z"
  shows "filter P (sort_by lt xs) = filter P xs"
proof (induction xs)
  case Nil
  then show ?case by simp
next
  case (Cons x xs)
  show ?case
  proof (cases "P x")
    case True
    with Cons show ?thesis by (simp add: filter_insert_by assms)
  next
    case False
    with Cons show ?thesis by simp
  qed
qed

text \<open>Filtering commutes with sorting.\<close>

lemma filter_sorted_insert:
  assumes "sorted_wrt before ys" "P x"
  shows "filter P (insert_by lt x ys) = insert_by lt x (filter P ys)"
  using assms(1)
proof (induction ys)
  case Nil
  with assms(2) show ?case by simp
next
  case (Cons y ys)
  show ?case
  proof (cases "lt y x")
    case True
    with Cons show ?thesis by auto
  next
    case False
    then have "\<forall>z \<in> set (filter P (y # ys)). before x z"
      using Cons.prems before_trans by (auto simp: before_def)
    with False assms(2) show ?thesis by (simp add: insert_by_head split: if_splits)
  qed
qed

lemma filter_sort_by: "filter P (sort_by lt xs) = sort_by lt (filter P xs)"
proof (induction xs)
  case Nil
  then show ?case by simp
next
  case (Cons x xs)
  then show ?case by (cases "P x") (simp_all add: filter_sorted_insert sorted_sort_by)
qed

text \<open>Where no two different elements are equivalent, the order of the input is irrelevant.\<close>

lemma sorted_unique:
  assumes "sorted_wrt before xs" "sorted_wrt before ys" "mset xs = mset ys"
    and "\<And>a b. a \<in> set xs \<Longrightarrow> b \<in> set xs \<Longrightarrow> before a b \<Longrightarrow> before b a \<Longrightarrow> a = b"
  shows "xs = ys"
  using assms
proof (induction xs arbitrary: ys)
  case Nil
  then show ?case by simp
next
  case (Cons x xs)
  from Cons.prems(3) obtain y ys' where ys: "ys = y # ys'" by (cases ys) auto
  have mem: "x \<in> set ys" "y \<in> set (x # xs)"
    using Cons.prems(3) ys by (metis list.set_intros(1) set_mset_mset)+
  have "before x y" using Cons.prems(1) mem(2) by auto
  moreover have "before y x" using Cons.prems(2) mem(1) ys by auto
  ultimately have "x = y" using Cons.prems(4) mem(2) by auto
  with Cons ys show ?case by auto
qed

lemma sort_by_cong_mset:
  assumes "mset xs = mset ys"
    and "\<And>a b. a \<in> set xs \<Longrightarrow> b \<in> set xs \<Longrightarrow> \<not> lt a b \<Longrightarrow> \<not> lt b a \<Longrightarrow> a = b"
  shows "sort_by lt xs = sort_by lt ys"
  by (rule sorted_unique) (use assms in \<open>auto simp: sorted_sort_by before_def\<close>)

lemma sort_by_least:
  assumes "sort_by lt xs = y # ys" "x \<in> set xs"
  shows "\<not> lt x y"
proof -
  have "x \<in> set (y # ys)" using assms by (metis set_sort_by)
  with sorted_sort_by[of xs] assms(1) show ?thesis by (auto simp: before_def) (use asym in blast)
qed

end

text \<open>Comparing by a key in a linear order, upwards or downwards, and lexicographic refinements.\<close>

lemma strict_weak_key: "strict_weak (\<lambda>a b. (f a :: 'b::linorder) < f b)"
  by unfold_locales auto

lemma strict_weak_key_desc: "strict_weak (\<lambda>a b. (f a :: 'b::linorder) > f b)"
  by unfold_locales auto

lemma sorted_sort_by_key:
  "sorted_wrt (\<lambda>a b. f a \<le> (f b :: 'b::linorder)) (sort_by (\<lambda>a b. f a < f b) xs)"
proof -
  have "strict_weak.before (\<lambda>a b. f a < f b) = (\<lambda>a b. f a \<le> f b)"
    by (intro ext) (simp add: strict_weak.before_def[OF strict_weak_key] not_less)
  with strict_weak.sorted_sort_by[OF strict_weak_key, of f xs] show ?thesis by simp
qed

lemma takeWhile_eq_filter_sorted:
  assumes "sorted_wrt (\<lambda>a b. f a \<le> (f b :: 'b::linorder)) xs"
  shows "takeWhile (\<lambda>x. f x \<le> t) xs = filter (\<lambda>x. f x \<le> t) xs"
  using assms
proof (induction xs)
  case Nil
  then show ?case by simp
next
  case (Cons x xs)
  then have "\<not> f x \<le> t \<Longrightarrow> filter (\<lambda>x. f x \<le> t) xs = []"
    by (force simp: filter_empty_conv)
  with Cons show ?case by auto
qed

lemma last_sorted_max:
  assumes "sorted_wrt (\<lambda>a b. f a \<le> (f b :: 'b::linorder)) xs" "x \<in> set xs"
  shows "f x \<le> f (last xs)"
  using assms by (induction xs) auto

text \<open>The idiom \<open>if k(i) != k(j) { return k(i) < k(j) }; return less(i, j)\<close>.\<close>

definition then_by :: "('a \<Rightarrow> 'b::linorder) \<Rightarrow> ('a \<Rightarrow> 'a \<Rightarrow> bool) \<Rightarrow> 'a \<Rightarrow> 'a \<Rightarrow> bool" where
  "then_by f lt a b = (if f a \<noteq> f b then f a < f b else lt a b)"

definition desc_then_by :: "('a \<Rightarrow> 'b::linorder) \<Rightarrow> ('a \<Rightarrow> 'a \<Rightarrow> bool) \<Rightarrow> 'a \<Rightarrow> 'a \<Rightarrow> bool" where
  "desc_then_by f lt a b = (if f a \<noteq> f b then f a > f b else lt a b)"

lemma strict_weak_then_by:
  assumes "strict_weak lt" shows "strict_weak (then_by f lt)"
proof
  fix a b
  show "then_by f lt a b \<Longrightarrow> \<not> then_by f lt b a"
    using strict_weak.asym[OF assms] by (auto simp: then_by_def split: if_splits)
next
  fix a b c
  show "\<not> then_by f lt b a \<Longrightarrow> \<not> then_by f lt c b \<Longrightarrow> \<not> then_by f lt c a"
    using strict_weak.trans_not[OF assms, of b a c] by (auto simp: then_by_def split: if_splits)
qed

lemma strict_weak_desc_then_by:
  assumes "strict_weak lt" shows "strict_weak (desc_then_by f lt)"
proof
  fix a b
  show "desc_then_by f lt a b \<Longrightarrow> \<not> desc_then_by f lt b a"
    using strict_weak.asym[OF assms] by (auto simp: desc_then_by_def split: if_splits)
next
  fix a b c
  show "\<not> desc_then_by f lt b a \<Longrightarrow> \<not> desc_then_by f lt c b \<Longrightarrow> \<not> desc_then_by f lt c a"
    using strict_weak.trans_not[OF assms, of b a c] by (auto simp: desc_then_by_def split: if_splits)
qed

section \<open>Binary search\<close>

text \<open>
  \<open>sort.Search(n, f)\<close>: the halving loop over \<open>[i, j)\<close>. For an f that stays true once true
  it is the least index where f holds, or n.
\<close>

function search_loop :: "(nat \<Rightarrow> bool) \<Rightarrow> nat \<Rightarrow> nat \<Rightarrow> nat" where
  "search_loop f i j =
     (if i < j then let h = (i + j) div 2 in if \<not> f h then search_loop f (h + 1) j else search_loop f i h
      else i)"
  by pat_completeness auto
termination by (relation "measure (\<lambda>(f, i, j). j - i)") auto

declare search_loop.simps [simp del]

definition sort_Search :: "nat \<Rightarrow> (nat \<Rightarrow> bool) \<Rightarrow> nat" where
  "sort_Search n f = search_loop f 0 n"

lemma search_loop_correct:
  assumes "i \<le> j" "\<And>k l. k \<le> l \<Longrightarrow> l < n \<Longrightarrow> f k \<Longrightarrow> f l" "j \<le> n" "\<And>k. k < i \<Longrightarrow> \<not> f k" "\<And>k. j \<le> k \<Longrightarrow> k < n \<Longrightarrow> f k"
  shows "search_loop f i j \<le> n \<and> (\<forall>k < search_loop f i j. \<not> f k) \<and>
    (\<forall>k. search_loop f i j \<le> k \<longrightarrow> k < n \<longrightarrow> f k)"
  using assms
proof (induction f i j rule: search_loop.induct)
  case (1 f i j)
  show ?case
  proof (cases "i < j")
    case False
    with 1(3,5-7) show ?thesis by (simp add: search_loop.simps)
  next
    case True
    define h where "h = (i + j) div 2"
    have h: "i \<le> h" "h < j" using True by (simp_all add: h_def)
    have unfold: "search_loop f i j = (if \<not> f h then search_loop f (h + 1) j else search_loop f i h)"
      using True by (subst search_loop.simps) (simp add: h_def)
    show ?thesis
    proof (cases "f h")
      case True
      have "\<And>k. h \<le> k \<Longrightarrow> k < n \<Longrightarrow> f k" using 1(4) True by blast
      with 1(2)[OF \<open>i < j\<close> h_def] True h 1(4,5,6) unfold show ?thesis by simp
    next
      case False
      have "\<not> f k" if "k < h + 1" for k using 1(4)[of k h] False that h 1(5) by auto
      with 1(1)[OF \<open>i < j\<close> h_def False] False h 1(4,5,7) unfold show ?thesis by simp
    qed
  qed
qed

lemma sort_Search_least:
  assumes "\<And>k l. k \<le> l \<Longrightarrow> l < n \<Longrightarrow> f k \<Longrightarrow> f l"
  shows "sort_Search n f \<le> n" "k < sort_Search n f \<Longrightarrow> \<not> f k" "sort_Search n f \<le> k \<Longrightarrow> k < n \<Longrightarrow> f k"
  using search_loop_correct[of 0 n n f] assms by (auto simp: sort_Search_def)

text \<open>On a list in the order of a key, the search for a bound drops the elements below it.\<close>

lemma drop_sort_Search:
  fixes g :: "'a \<Rightarrow> 'b::linorder"
  assumes "sorted_wrt (\<lambda>a b. g a \<le> g b) xs"
  shows "drop (sort_Search (length xs) (\<lambda>i. \<not> g (xs ! i) < t)) xs = filter (\<lambda>x. \<not> g x < t) xs"
proof -
  let ?n = "sort_Search (length xs) (\<lambda>i. \<not> g (xs ! i) < t)"
  have mono: "k \<le> l \<Longrightarrow> l < length xs \<Longrightarrow> \<not> g (xs ! k) < t \<Longrightarrow> \<not> g (xs ! l) < t" for k l
    using sorted_wrt_nth_less[OF assms, of k l] by (cases "k = l") force+
  note least = sort_Search_least[of "length xs" "\<lambda>i. \<not> g (xs ! i) < t", OF mono]
  have "filter (\<lambda>x. \<not> g x < t) (take ?n xs) = []"
    using least(2) by (auto simp: filter_empty_conv in_set_conv_nth)
  moreover have "filter (\<lambda>x. \<not> g x < t) (drop ?n xs) = drop ?n xs"
    using least(3) by (auto simp: filter_id_conv in_set_conv_nth)
  ultimately show ?thesis by (metis append_Nil append_take_drop_id filter_append)
qed

end
