(* ===== verification/GoStrings.thy ===== *)
theory GoStrings
  imports GoPrelude
begin

text \<open>
  The functions of package strings the program uses, on byte strings. Case mapping and white
  space are those of ASCII; a byte of a multi-byte UTF-8 character is neither a letter nor a
  space here.
\<close>

definition has_prefix :: "string \<Rightarrow> string \<Rightarrow> bool" where
  "has_prefix s p \<longleftrightarrow> take (length p) s = p"

definition has_suffix :: "string \<Rightarrow> string \<Rightarrow> bool" where
  "has_suffix s p \<longleftrightarrow> length p \<le> length s \<and> drop (length s - length p) s = p"

text \<open>\<open>strings.CutPrefix\<close>: the rest after the prefix, if it is there.\<close>

definition cut_prefix :: "string \<Rightarrow> string \<Rightarrow> string option" where
  "cut_prefix s p = (if has_prefix s p then Some (drop (length p) s) else None)"

fun contains :: "string \<Rightarrow> string \<Rightarrow> bool" where
  "contains [] sub = (sub = [])"
| "contains (c # cs) sub = (has_prefix (c # cs) sub \<or> contains cs sub)"

text \<open>\<open>strings.Cut\<close> at a one-byte separator: before, after, found.\<close>

definition cut_at :: "string \<Rightarrow> char \<Rightarrow> string \<times> string \<times> bool" where
  "cut_at s c = (let b = takeWhile (\<lambda>x. x \<noteq> c) s in
     if length b = length s then (s, [], False) else (b, drop (Suc (length b)) s, True))"

definition lower_char :: "char \<Rightarrow> char" where
  "lower_char c =
     (if CHR ''A'' \<le> c \<and> c \<le> CHR ''Z'' then char_of (of_char c + 32 :: nat) else c)"

definition to_lower :: "string \<Rightarrow> string" where
  "to_lower s = map lower_char s"

definition is_space :: "char \<Rightarrow> bool" where
  "is_space c \<longleftrightarrow> c \<in> {CHR '' '', CHR 0x09, CHR 0x0A, CHR 0x0B, CHR 0x0C, CHR 0x0D}"

definition trim_space :: "string \<Rightarrow> string" where
  "trim_space s = rev (dropWhile is_space (rev (dropWhile is_space s)))"

function Fields :: "string \<Rightarrow> string list" where
  "Fields s =
     (let t = dropWhile is_space s in
      if t = [] then []
      else takeWhile (\<lambda>c. \<not> is_space c) t # Fields (dropWhile (\<lambda>c. \<not> is_space c) t))"
  by pat_completeness auto
termination
proof (relation "measure length", goal_cases)
  case 1
  then show ?case by simp
next
  case (2 s t)
  obtain c cs where t: "t = c # cs" using 2(2) by (meson neq_Nil_conv)
  then have "\<not> is_space c" using 2(1) by (metis dropWhile_eq_Cons_conv)
  then have "length (dropWhile (\<lambda>c. \<not> is_space c) t) \<le> length cs"
    using t by (simp add: length_dropWhile_le)
  moreover have "length t \<le> length s" using 2(1) by (simp add: length_dropWhile_le)
  ultimately show ?case using t by simp
qed

declare Fields.simps [simp del]

fun join :: "string list \<Rightarrow> string \<Rightarrow> string" where
  "join [] sep = []"
| "join [x] sep = x"
| "join (x # y # xs) sep = x @ sep @ join (y # xs) sep"

section \<open>Facts about them\<close>

lemma has_prefix_append [simp]: "has_prefix (p @ s) p"
  by (simp add: has_prefix_def)

lemma has_prefix_iff: "has_prefix s p \<longleftrightarrow> (\<exists>r. s = p @ r)"
  by (metis append_take_drop_id has_prefix_append has_prefix_def)

lemma has_suffix_append [simp]: "has_suffix (s @ p) p"
  by (simp add: has_suffix_def)

lemma has_prefix_Nil [simp]: "has_prefix s []"
  by (simp add: has_prefix_def)

lemma cut_prefix_append [simp]: "cut_prefix (p @ s) p = Some s"
  by (simp add: cut_prefix_def)

lemma cut_prefix_Some: "cut_prefix s p = Some r \<Longrightarrow> s = p @ r"
  by (metis append_take_drop_id cut_prefix_def has_prefix_def option.inject option.simps(3))

lemma contains_Nil [simp]: "contains s []"
  by (cases s) auto

lemma contains_iff: "contains s sub \<longleftrightarrow> (\<exists>a b. s = a @ sub @ b)"
proof (induction s)
  case Nil
  then show ?case by auto
next
  case (Cons c cs)
  show ?case
  proof
    assume "contains (c # cs) sub"
    then consider "has_prefix (c # cs) sub" | "contains cs sub" by auto
    then show "\<exists>a b. c # cs = a @ sub @ b"
    proof cases
      case 1
      then show ?thesis by (metis append_Nil has_prefix_iff)
    next
      case 2
      then obtain a b where "cs = a @ sub @ b" using Cons.IH by blast
      then have "c # cs = (c # a) @ sub @ b" by simp
      then show ?thesis by blast
    qed
  next
    assume "\<exists>a b. c # cs = a @ sub @ b"
    then obtain a b where ab: "c # cs = a @ sub @ b" by blast
    then show "contains (c # cs) sub"
    proof (cases a)
      case Nil
      with ab show ?thesis by (metis append_Nil contains.simps(2) has_prefix_append)
    next
      case (Cons d a')
      with ab have "cs = a' @ sub @ b" by simp
      with Cons.IH show ?thesis by auto
    qed
  qed
qed

lemma cut_at_found: "c \<notin> set b \<Longrightarrow> cut_at (b @ c # a) c = (b, a, True)"
proof -
  assume "c \<notin> set b"
  then have "takeWhile (\<lambda>x. x \<noteq> c) (b @ c # a) = b"
    by (subst takeWhile_append2) auto
  then show ?thesis by (simp add: cut_at_def)
qed

lemma cut_at_none: "c \<notin> set s \<Longrightarrow> cut_at s c = (s, [], False)"
proof -
  assume "c \<notin> set s"
  then have eq: "takeWhile (\<lambda>x. x \<noteq> c) s = s" by (auto simp: takeWhile_eq_all_conv)
  show ?thesis unfolding cut_at_def eq Let_def by simp
qed

lemma cut_at_fst: "fst (cut_at s c) = takeWhile (\<lambda>x. x \<noteq> c) s"
  by (auto simp: cut_at_def Let_def) (metis takeWhile_eq_take take_all order_refl)

definition code_of :: "char \<Rightarrow> nat" where
  "code_of c = of_char c"

lemma code_of_bounds: "CHR ''A'' \<le> c \<and> c \<le> CHR ''Z'' \<longleftrightarrow> 65 \<le> code_of c \<and> code_of c \<le> 90"
  by (simp add: less_eq_char_def code_of_def)

lemma code_of_lower: "65 \<le> code_of c \<and> code_of c \<le> 90 \<Longrightarrow> code_of (lower_char c) = code_of c + 32"
  by (simp add: lower_char_def code_of_bounds) (simp add: code_of_def)

lemma lower_char_other: "\<not> (65 \<le> code_of c \<and> code_of c \<le> 90) \<Longrightarrow> lower_char c = c"
  unfolding lower_char_def code_of_bounds by auto

lemma code_of_space: "is_space c \<Longrightarrow> code_of c \<le> 32"
  by (auto simp: is_space_def code_of_def)

lemma lower_char_idem [simp]: "lower_char (lower_char c) = lower_char c"
proof (cases "65 \<le> code_of c \<and> code_of c \<le> 90")
  case True
  from code_of_lower[OF this] True show ?thesis by (simp add: lower_char_other)
next
  case False
  then show ?thesis by (simp add: lower_char_other)
qed

lemma to_lower_idem [simp]: "to_lower (to_lower s) = to_lower s"
  by (simp add: to_lower_def)

lemma to_lower_append [simp]: "to_lower (a @ b) = to_lower a @ to_lower b"
  by (simp add: to_lower_def)

lemma is_space_lower_char [simp]: "is_space (lower_char c) = is_space c"
proof (cases "65 \<le> code_of c \<and> code_of c \<le> 90")
  case True
  from code_of_lower[OF this] True have "\<not> code_of (lower_char c) \<le> 32" "\<not> code_of c \<le> 32" by linarith+
  then show ?thesis using code_of_space by blast
next
  case False
  then show ?thesis by (simp add: lower_char_other)
qed

lemma fields_Nil [simp]: "Fields [] = []"
  by (simp add: Fields.simps[of "[]"])

lemma fields_word:
  "dropWhile is_space s = t \<Longrightarrow> t \<noteq> [] \<Longrightarrow>
   Fields s = takeWhile (\<lambda>c. \<not> is_space c) t # Fields (dropWhile (\<lambda>c. \<not> is_space c) t)"
  by (subst Fields.simps) (simp add: Let_def del: dropWhile_eq_Nil_conv)

lemma fields_words: "w \<in> set (Fields s) \<Longrightarrow> w \<noteq> [] \<and> (\<forall>c \<in> set w. \<not> is_space c)"
proof (induction s rule: Fields.induct)
  case (1 s)
  define t where "t = dropWhile is_space s"
  show ?case
  proof (cases "t = []")
    case True
    with "1.prems" show ?thesis by (simp add: Fields.simps[of s] t_def)
  next
    case False
    then have hd: "\<not> is_space (hd t)" by (metis hd_dropWhile t_def)
    from False "1.prems" consider "w = takeWhile (\<lambda>c. \<not> is_space c) t"
      | "w \<in> set (Fields (dropWhile (\<lambda>c. \<not> is_space c) t))"
      using fields_word[OF t_def[symmetric] False] by auto
    then show ?thesis
    proof cases
      case 1
      with hd False show ?thesis by (cases t) (auto dest: set_takeWhileD)
    next
      case 2
      with "1.IH"[OF t_def False] show ?thesis by simp
    qed
  qed
qed

lemma fields_word_rest:
  assumes "w \<noteq> []" "\<forall>c \<in> set w. \<not> is_space c"
  shows "Fields (w @ s) = (if s = [] \<or> is_space (hd s) then w # Fields s else Fields (w @ s))"
proof (cases "s = [] \<or> is_space (hd s)")
  case False
  then show ?thesis by auto
next
  case True
  from assms have d: "dropWhile is_space (w @ s) = w @ s" by (cases w) auto
  from assms(2) have "takeWhile (\<lambda>c. \<not> is_space c) (w @ s) = w @ takeWhile (\<lambda>c. \<not> is_space c) s"
    "dropWhile (\<lambda>c. \<not> is_space c) (w @ s) = dropWhile (\<lambda>c. \<not> is_space c) s"
    by (simp_all add: takeWhile_append dropWhile_append)
  with True have "takeWhile (\<lambda>c. \<not> is_space c) (w @ s) = w"
    "dropWhile (\<lambda>c. \<not> is_space c) (w @ s) = s"
    by (cases s; simp)+
  with d assms True show ?thesis by (simp add: Fields.simps[of "w @ s"] Let_def)
qed

lemma fields_space: "is_space c \<Longrightarrow> Fields (c # s) = Fields s"
  by (simp add: Fields.simps[of "c # s"] Fields.simps[of s])

lemma fields_join:
  assumes "\<forall>w \<in> set ws. w \<noteq> [] \<and> (\<forall>c \<in> set w. \<not> is_space c)"
  shows "Fields (join ws '' '') = ws"
  using assms
proof (induction ws "'' ''" rule: join.induct)
  case (3 x y xs)
  have "Fields (x @ '' '' @ join (y # xs) '' '') = x # Fields ('' '' @ join (y # xs) '' '')"
    using 3(2) fields_word_rest[of x "'' '' @ join (y # xs) '' ''"] by (simp add: is_space_def)
  with 3 show ?case by (simp add: fields_space is_space_def)
qed (auto simp: fields_word_rest[of _ "[]", simplified])

lemma fields_map_lower: "Fields (map lower_char s) = map (map lower_char) (Fields s)"
proof (induction s rule: Fields.induct)
  case (1 s)
  have dw: "dropWhile is_space (map lower_char u) = map lower_char (dropWhile is_space u)"
    "dropWhile (\<lambda>c. \<not> is_space c) (map lower_char u) = map lower_char (dropWhile (\<lambda>c. \<not> is_space c) u)"
    "takeWhile (\<lambda>c. \<not> is_space c) (map lower_char u) = map lower_char (takeWhile (\<lambda>c. \<not> is_space c) u)" for u
    by (simp_all add: dropWhile_map takeWhile_map comp_def)
  show ?case
    using "1.IH"[OF refl] by (simp add: Fields.simps[of "map lower_char s"] Fields.simps[of s] dw Let_def)
qed

lemma to_lower_join: "to_lower (join ws '' '') = join (map to_lower ws) '' ''"
  by (induction ws "'' ''" rule: join.induct)
    (simp_all add: to_lower_def, simp add: lower_char_def less_eq_char_def)

end
