(* ===== verification/Accounts.thy ===== *)
theory Accounts
  imports GoSort GoStrings
begin

text \<open>
  \<open>internal/account\<close> and \<open>internal/identity\<close>: the accounts of the pool, the people and
  devices that use them, the plan history of an account, and the timeline of sign-ins that
  attributes usage. SHA-256 is a parameter \<open>sha\<close> (its hex digest), as only its output is
  compared.
\<close>

section \<open>Data\<close>

type_synonym provider = string

definition ProviderAnthropic :: provider where "ProviderAnthropic = ''anthropic''"
definition ProviderOpenAI :: provider where "ProviderOpenAI = ''openai''"
definition ProviderGoogle :: provider where "ProviderGoogle = ''google''"

lemmas provider_defs = ProviderAnthropic_def ProviderOpenAI_def ProviderGoogle_def

record account =
  acc_ID :: string
  acc_Provider :: provider
  acc_ExternalRefHash :: string
  acc_Hint :: string
  acc_Label :: string
  acc_PlanType :: string

record membership =
  ms_AccountID :: string
  ms_PersonID :: string
  ms_ShareWeight :: f64

record person =
  p_ID :: string
  p_DisplayName :: string

record device =
  dev_ID :: string
  dev_PersonID :: string
  dev_Name :: string
  dev_Platform :: string

definition PrecisionConfirmed :: string where "PrecisionConfirmed = ''confirmed''"
definition PrecisionInferred :: string where "PrecisionInferred = ''inferred''"

record plan_interval =
  pi_ID :: string
  pi_AccountID :: string
  pi_PlanType :: string
  pi_EffectiveAt :: time
  pi_EndedAt :: "time option"
  pi_Reason :: string
  pi_Source :: string
  pi_Precision :: string
  pi_CreatedAt :: time

definition zero_interval :: plan_interval where
  "zero_interval = \<lparr>pi_ID = [], pi_AccountID = [], pi_PlanType = [], pi_EffectiveAt = zero_time,
     pi_EndedAt = None, pi_Reason = [], pi_Source = [], pi_Precision = [], pi_CreatedAt = zero_time\<rparr>"

type_synonym app_source = string

definition SourceCLI :: app_source where "SourceCLI = []"
definition SourceClaudeDesktop :: app_source where "SourceClaudeDesktop = ''claude-desktop''"

record observation =
  ob_DeviceID :: string
  ob_Provider :: provider
  ob_Source :: app_source
  ob_ExternalRefHash :: string
  ob_Hint :: string
  ob_PlanType :: string
  ob_ObservedAt :: time

section \<open>Plan intervals\<close>

definition covers :: "plan_interval \<Rightarrow> time \<Rightarrow> bool" where
  "covers i t \<longleftrightarrow> pi_EffectiveAt i \<le> t \<and> (case pi_EndedAt i of None \<Rightarrow> True | Some e \<Rightarrow> t < e)"

fun IntervalAt :: "plan_interval list \<Rightarrow> time \<Rightarrow> plan_interval \<times> bool" where
  "IntervalAt [] t = (zero_interval, False)"
| "IntervalAt (i # is) t =
     (if \<not> t < pi_EffectiveAt i \<and> (case pi_EndedAt i of None \<Rightarrow> True | Some e \<Rightarrow> t < e)
      then (i, True) else IntervalAt is t)"

definition ResolvePlanAt :: "plan_interval list \<Rightarrow> time \<Rightarrow> string" where
  "ResolvePlanAt is t = pi_PlanType (fst (IntervalAt is t))"

text \<open>Two half-open intervals \<open>[effective, ended)\<close> share an instant.\<close>

definition overlaps :: "plan_interval \<Rightarrow> plan_interval \<Rightarrow> bool" where
  "overlaps a b \<longleftrightarrow>
     (case pi_EndedAt b of None \<Rightarrow> True | Some e \<Rightarrow> pi_EffectiveAt a < e) \<and>
     (case pi_EndedAt a of None \<Rightarrow> True | Some e \<Rightarrow> pi_EffectiveAt b < e)"

lemma IntervalAt_True: "IntervalAt is t = (i, True) \<Longrightarrow> i \<in> set is \<and> covers i t"
  by (induction "is") (auto simp: covers_def split: if_splits)

lemma IntervalAt_False: "IntervalAt is t = (i, False) \<longleftrightarrow> i = zero_interval \<and> (\<forall>j \<in> set is. \<not> covers j t)"
  by (induction "is") (auto simp: covers_def split: if_splits)

lemma covers_both_overlap: "covers a t \<Longrightarrow> covers b t \<Longrightarrow> overlaps a b"
  by (auto simp: covers_def overlaps_def split: option.splits)

lemma IntervalAt_unique:
  assumes "\<And>a b. a \<in> set is \<Longrightarrow> b \<in> set is \<Longrightarrow> a \<noteq> b \<Longrightarrow> \<not> overlaps a b"
    and "i \<in> set is" "covers i t"
  shows "IntervalAt is t = (i, True)"
proof (cases "IntervalAt is t")
  case (Pair j found)
  show ?thesis
  proof (cases found)
    case True
    with Pair have "j \<in> set is" "covers j t" using IntervalAt_True by auto
    with assms covers_both_overlap have "j = i" by blast
    with Pair True show ?thesis by simp
  next
    case False
    with Pair assms(2,3) show ?thesis by (simp add: IntervalAt_False)
  qed
qed

section \<open>Account references\<close>

definition HashExternalRef :: "(string \<Rightarrow> string) \<Rightarrow> provider \<Rightarrow> string \<Rightarrow> string" where
  "HashExternalRef sha p ref = sha (p @ '':'' @ ref)"

definition MaskRef :: "string \<Rightarrow> string" where
  "MaskRef ref =
     (let (local, domain, isEmail) = cut_at ref CHR ''@'';
          keep = min 2 (length local);
          masked = take keep local @ ''***''
      in if isEmail then masked @ ''@'' @ domain else masked)"

definition IsMasked :: "string \<Rightarrow> bool" where
  "IsMasked s = (let local = fst (cut_at s CHR ''@'') in length local \<le> 5 \<and> has_suffix local ''***'')"

lemma MaskRef_email:
  "CHR ''@'' \<notin> set l \<Longrightarrow> MaskRef (l @ ''@'' @ d) = take 2 l @ ''***@'' @ d"
  using cut_at_found[of "CHR ''@''" l d] by (simp add: MaskRef_def min_def)

lemma MaskRef_plain: "CHR ''@'' \<notin> set l \<Longrightarrow> MaskRef l = take 2 l @ ''***''"
  using cut_at_none[of "CHR ''@''" l] by (simp add: MaskRef_def min_def)

lemma ref_cases:
  obtains (email) l d where "r = l @ ''@'' @ d" "CHR ''@'' \<notin> set l"
  | (plain) "CHR ''@'' \<notin> set r"
proof (cases "CHR ''@'' \<in> set r")
  case True
  from split_list_first[OF this] email show ?thesis by auto
qed (rule plain)

lemma cut_masked: "CHR ''@'' \<notin> set l \<Longrightarrow> fst (cut_at (take 2 l @ ''***'' @ r) CHR ''@'') =
    take 2 l @ ''***'' @ takeWhile (\<lambda>x. x \<noteq> CHR ''@'') r"
proof -
  assume "CHR ''@'' \<notin> set l"
  then have "\<forall>x \<in> set (take 2 l). x \<noteq> CHR ''@''" by (metis in_set_takeD)
  then show ?thesis by (simp add: cut_at_fst)
qed

text \<open>
  A masked reference has the form the code recognises as masked, whatever the provider
  reported, and shows nothing beyond the first two bytes of the local part and the domain:
  two references that agree on those mask to the same text.
\<close>

theorem MaskRef_is_masked_and_hides:
  "IsMasked (MaskRef ref) \<and>
   MaskRef ref = (let (l, d, e) = cut_at ref CHR ''@'' in take 2 l @ ''***'' @ (if e then ''@'' @ d else ''''))"
proof (cases ref rule: ref_cases)
  case (email l d)
  then show ?thesis
    using cut_masked[OF email(2), of "''@'' @ d"] cut_at_found[OF email(2), of d]
      has_suffix_append[of "take 2 l" "''***''"]
    by (simp add: IsMasked_def MaskRef_email[OF email(2), simplified])
next
  case plain
  then show ?thesis
    using cut_masked[OF plain, of "[]"] cut_at_none[OF plain] has_suffix_append[of "take 2 ref" "''***''"]
    by (simp add: IsMasked_def MaskRef_plain)
qed

text \<open>
  As long as the digest does not collide on the texts in use, references of the three
  providers hash to the same value only if they are the same reference of the same provider:
  the colon between provider and reference keeps them apart.
\<close>

theorem HashExternalRef_injective:
  assumes "inj_on sha {p @ '':'' @ r, q @ '':'' @ s}"
    and "p \<in> {ProviderAnthropic, ProviderOpenAI, ProviderGoogle}"
    and "q \<in> {ProviderAnthropic, ProviderOpenAI, ProviderGoogle}"
    and "HashExternalRef sha p r = HashExternalRef sha q s"
  shows "p = q \<and> r = s"
proof -
  from assms(1,4) have "p @ '':'' @ r = q @ '':'' @ s"
    by (auto simp: HashExternalRef_def dest: inj_onD)
  with assms(2,3) show ?thesis by (auto simp: provider_defs)
qed

theorem HashExternalRef_injective_witness:
  "\<not> (HashExternalRef rev ProviderOpenAI ''org-1'' = HashExternalRef rev ProviderGoogle ''org-1'')"
proof
  assume "HashExternalRef rev ProviderOpenAI ''org-1'' = HashExternalRef rev ProviderGoogle ''org-1''"
  then have "ProviderOpenAI = ProviderGoogle \<and> ''org-1'' = ''org-1''"
    by (intro HashExternalRef_injective[of rev]) auto
  then show False by (simp add: provider_defs)
qed

section \<open>The account a device was using\<close>

fun resolve_loop :: "time \<Rightarrow> observation list \<Rightarrow> string \<times> bool \<Rightarrow> string \<times> bool" where
  "resolve_loop t [] acc = acc"
| "resolve_loop t (o' # os) acc =
     (if ob_ObservedAt o' > t then acc else resolve_loop t os (ob_ExternalRefHash o', True))"

definition ResolveAt :: "observation list \<Rightarrow> provider \<Rightarrow> time \<Rightarrow> string \<times> bool" where
  "ResolveAt obs p t =
     (let matching = filter (\<lambda>x. ob_Provider x = p) obs;
          sorted = sort_by (\<lambda>a b. ob_ObservedAt a < ob_ObservedAt b) matching
      in resolve_loop t sorted ([], False))"

interpretation by_observed: strict_weak "\<lambda>a b. ob_ObservedAt a < ob_ObservedAt b"
  by (rule strict_weak_key)

lemma resolve_loop_last:
  "resolve_loop t os acc =
     (let seen = takeWhile (\<lambda>x. ob_ObservedAt x \<le> t) os in
      if seen = [] then acc else (ob_ExternalRefHash (last seen), True))"
  by (induction os arbitrary: acc) (auto simp: Let_def)

lemma ResolveAt_eq:
  "ResolveAt obs p t =
     (let seen = sort_by (\<lambda>a b. ob_ObservedAt a < ob_ObservedAt b)
            (filter (\<lambda>x. ob_Provider x = p \<and> ob_ObservedAt x \<le> t) obs)
      in if seen = [] then ([], False) else (ob_ExternalRefHash (last seen), True))"
proof -
  let ?lt = "\<lambda>a b. ob_ObservedAt a < ob_ObservedAt b"
  let ?m = "filter (\<lambda>x. ob_Provider x = p) obs"
  from takeWhile_eq_filter_sorted[OF sorted_sort_by_key, of ob_ObservedAt t ?m]
  have "takeWhile (\<lambda>x. ob_ObservedAt x \<le> t) (sort_by ?lt ?m) =
        sort_by ?lt (filter (\<lambda>x. ob_ObservedAt x \<le> t) ?m)"
    by (simp add: by_observed.filter_sort_by)
  moreover have "filter (\<lambda>x. ob_ObservedAt x \<le> t) ?m =
      filter (\<lambda>x. ob_Provider x = p \<and> ob_ObservedAt x \<le> t) obs"
    by (auto simp: conj_commute)
  ultimately show ?thesis by (simp add: ResolveAt_def resolve_loop_last Let_def)
qed

text \<open>
  Usage is attributed to the account of the latest sign-in observed at or before it:
  the answer is that of an observation of the provider which no other observation up to t
  follows, and there is no answer exactly when the provider was not observed by t.
\<close>

theorem ResolveAt_latest:
  "case ResolveAt obs p t of (ref, found) \<Rightarrow>
     (if found
      then \<exists>x \<in> set obs. ob_Provider x = p \<and> ob_ObservedAt x \<le> t \<and> ob_ExternalRefHash x = ref \<and>
             \<not> (\<exists>y \<in> set obs. ob_Provider y = p \<and> ob_ObservedAt x < ob_ObservedAt y \<and> ob_ObservedAt y \<le> t)
      else ref = [] \<and> \<not> (\<exists>x \<in> set obs. ob_Provider x = p \<and> ob_ObservedAt x \<le> t))"
proof -
  let ?lt = "\<lambda>a b. ob_ObservedAt a < ob_ObservedAt b"
  let ?f = "filter (\<lambda>x. ob_Provider x = p \<and> ob_ObservedAt x \<le> t) obs"
  define seen where "seen = sort_by ?lt ?f"
  have set: "set seen = {x \<in> set obs. ob_Provider x = p \<and> ob_ObservedAt x \<le> t}"
    by (simp add: seen_def)
  have "sorted_wrt (\<lambda>a b. ob_ObservedAt a \<le> ob_ObservedAt b) seen"
    unfolding seen_def by (rule sorted_sort_by_key)
  then have max: "x \<in> set seen \<Longrightarrow> ob_ObservedAt x \<le> ob_ObservedAt (last seen)" for x
    by (rule last_sorted_max)
  show ?thesis
  proof (cases "seen = []")
    case True
    with set show ?thesis by (auto simp: ResolveAt_eq seen_def[symmetric])
  next
    case False
    then have "last seen \<in> set seen" by simp
    with set have "last seen \<in> set obs" "ob_Provider (last seen) = p" "ob_ObservedAt (last seen) \<le> t"
      by auto
    moreover have "\<not> (\<exists>y \<in> set obs. ob_Provider y = p \<and> ob_ObservedAt (last seen) < ob_ObservedAt y
        \<and> ob_ObservedAt y \<le> t)"
      using max set by fastforce
    ultimately show ?thesis
      using False by (auto simp: ResolveAt_eq seen_def[symmetric])
  qed
qed

text \<open>
  The timeline is stable: an observation recorded later (one dated after t, or of another
  provider) never changes the account of usage at t.
\<close>

theorem ResolveAt_stable:
  assumes "\<forall>x \<in> set new. ob_Provider x \<noteq> p \<or> t < ob_ObservedAt x"
  shows "ResolveAt (obs @ new) p t = ResolveAt obs p t"
proof -
  have "filter (\<lambda>x. ob_Provider x = p \<and> ob_ObservedAt x \<le> t) new = []"
    using assms by (auto simp: filter_empty_conv)
  then show ?thesis by (simp add: ResolveAt_eq)
qed

definition obs_at :: "time \<Rightarrow> string \<Rightarrow> observation" where
  "obs_at t ref = \<lparr>ob_DeviceID = [], ob_Provider = ProviderAnthropic, ob_Source = SourceCLI,
     ob_ExternalRefHash = ref, ob_Hint = [], ob_PlanType = [], ob_ObservedAt = t\<rparr>"

theorem ResolveAt_stable_witness:
  "ResolveAt ([obs_at 10 ''b'', obs_at 5 ''a''] @ [obs_at 20 ''c'']) ProviderAnthropic 12 = (''b'', True)"
proof -
  have "\<forall>x \<in> set [obs_at 20 ''c'']. ob_Provider x \<noteq> ProviderAnthropic \<or> 12 < ob_ObservedAt x"
    by (simp add: obs_at_def)
  from ResolveAt_stable[OF this, of "[obs_at 10 ''b'', obs_at 5 ''a'']"]
  show ?thesis by (simp add: ResolveAt_def obs_at_def Let_def)
qed

end
