(* ===== verification/Ledger.thy ===== *)
theory Ledger
  imports Accounts
begin

text \<open>
  \<open>internal/usage\<close>: the append-only ledger of coding-agent requests and the limit hits
  logged beside them. Token counters are \<open>int64\<close>; \<open>Add\<close> wraps as Go's addition does.
\<close>

type_synonym product_name = string

definition ProductClaudeCode :: product_name where "ProductClaudeCode = ''claude-code''"
definition ProductCodex :: product_name where "ProductCodex = ''codex''"
definition ProductAntigravity :: product_name where "ProductAntigravity = ''antigravity''"

definition GatewayOpenCodex :: string where "GatewayOpenCodex = ''opencodex''"
definition GatewayOllama :: string where "GatewayOllama = ''ollama''"

record tokens =
  tk_Input :: int
  tk_CachedInput :: int
  tk_CacheWrite :: int
  tk_Output :: int
  tk_ReasoningOutput :: int

definition zero_tokens :: tokens where
  "zero_tokens = \<lparr>tk_Input = 0, tk_CachedInput = 0, tk_CacheWrite = 0, tk_Output = 0, tk_ReasoningOutput = 0\<rparr>"

definition Tokens_Add :: "tokens \<Rightarrow> tokens \<Rightarrow> tokens" where
  "Tokens_Add t o' = \<lparr>tk_Input = wrap64 (tk_Input t + tk_Input o'),
     tk_CachedInput = wrap64 (tk_CachedInput t + tk_CachedInput o'),
     tk_CacheWrite = wrap64 (tk_CacheWrite t + tk_CacheWrite o'),
     tk_Output = wrap64 (tk_Output t + tk_Output o'),
     tk_ReasoningOutput = wrap64 (tk_ReasoningOutput t + tk_ReasoningOutput o')\<rparr>"

text \<open>Counters no larger than \<open>2 ^ 62\<close>, whose sum cannot wrap.\<close>

definition tokens_nonneg :: "tokens \<Rightarrow> bool" where
  "tokens_nonneg t \<longleftrightarrow> 0 \<le> tk_Input t \<and> 0 \<le> tk_CachedInput t \<and> 0 \<le> tk_CacheWrite t \<and>
     0 \<le> tk_Output t \<and> 0 \<le> tk_ReasoningOutput t"

definition tokens_small :: "tokens \<Rightarrow> bool" where
  "tokens_small t \<longleftrightarrow> \<bar>tk_Input t\<bar> < 2 ^ 62 \<and> \<bar>tk_CachedInput t\<bar> < 2 ^ 62 \<and> \<bar>tk_CacheWrite t\<bar> < 2 ^ 62 \<and>
     \<bar>tk_Output t\<bar> < 2 ^ 62 \<and> \<bar>tk_ReasoningOutput t\<bar> < 2 ^ 62"

lemma Tokens_Add_small:
  "tokens_small t \<Longrightarrow> tokens_small u \<Longrightarrow> Tokens_Add t u =
     \<lparr>tk_Input = tk_Input t + tk_Input u, tk_CachedInput = tk_CachedInput t + tk_CachedInput u,
      tk_CacheWrite = tk_CacheWrite t + tk_CacheWrite u, tk_Output = tk_Output t + tk_Output u,
      tk_ReasoningOutput = tk_ReasoningOutput t + tk_ReasoningOutput u\<rparr>"
  by (simp add: Tokens_Add_def tokens_small_def)

record event =
  ev_DedupeKey :: string
  ev_AccountRefHash :: string
  ev_DeviceID :: string
  ev_Provider :: provider
  ev_Product :: product_name
  ev_Originator :: string
  ev_SessionID :: string
  ev_Model :: string
  ev_OccurredAt :: time
  ev_ThirdParty :: bool
  ev_Gateway :: string
  ev_RequestID :: string
  ev_ParentRequestID :: string
  ev_Effort :: string
  ev_Status :: string
  ev_Aggregated :: bool
  ev_Tokens :: tokens

definition zero_event :: event where
  "zero_event = \<lparr>ev_DedupeKey = [], ev_AccountRefHash = [], ev_DeviceID = [], ev_Provider = [],
     ev_Product = [], ev_Originator = [], ev_SessionID = [], ev_Model = [], ev_OccurredAt = zero_time,
     ev_ThirdParty = False, ev_Gateway = [], ev_RequestID = [], ev_ParentRequestID = [],
     ev_Effort = [], ev_Status = [], ev_Aggregated = False, ev_Tokens = zero_tokens\<rparr>"

type_synonym limit_kind = string

definition LimitFiveHour :: limit_kind where "LimitFiveHour = ''5h''"
definition LimitWeekly :: limit_kind where "LimitWeekly = ''weekly''"
definition LimitModelSpecific :: limit_kind where "LimitModelSpecific = ''model-specific''"
definition LimitOverload :: limit_kind where "LimitOverload = ''overload''"
definition LimitProvider429 :: limit_kind where "LimitProvider429 = ''provider429''"
definition LimitAuth :: limit_kind where "LimitAuth = ''auth''"
definition LimitUnknown :: limit_kind where "LimitUnknown = ''unknown''"

lemmas limit_kind_defs = LimitFiveHour_def LimitWeekly_def LimitModelSpecific_def LimitOverload_def
  LimitProvider429_def LimitAuth_def LimitUnknown_def

record limit_event =
  le_DedupeKey :: string
  le_AccountRefHash :: string
  le_DeviceID :: string
  le_PersonID :: string
  le_Provider :: provider
  le_Originator :: string
  le_OccurredAt :: time
  le_ObservedAt :: time
  le_SessionID :: string
  le_RequestID :: string
  le_Kind :: limit_kind
  le_Source :: string
  le_Evidence :: string
  le_HTTPStatus :: int

definition zero_limit_event :: limit_event where
  "zero_limit_event = \<lparr>le_DedupeKey = [], le_AccountRefHash = [], le_DeviceID = [], le_PersonID = [],
     le_Provider = [], le_Originator = [], le_OccurredAt = zero_time, le_ObservedAt = zero_time,
     le_SessionID = [], le_RequestID = [], le_Kind = [], le_Source = [], le_Evidence = [], le_HTTPStatus = 0\<rparr>"

end
