(* ===== verification/Attribution.thy ===== *)
theory Attribution
  imports Ledger
begin

text \<open>
  \<open>internal/attribution\<close>: the API-equivalent cost of a request and the split of a quota
  window among the people who share it. \<open>prices\<close> is the embedded \<open>pricing.json\<close>, in file
  order. Costs and weights come as maps; every theorem holds for any iteration order.
\<close>

section \<open>Cost\<close>

record price =
  pr_Match :: string
  pr_Input :: f64
  pr_CachedInput :: f64
  pr_CacheWrite :: f64
  pr_Output :: f64

definition prices :: "price list" where
  "prices = [
    \<lparr>pr_Match = ''claude-fable'', pr_Input = 10, pr_CachedInput = 1/4, pr_CacheWrite = 25/2, pr_Output = 50\<rparr>,
    \<lparr>pr_Match = ''claude-opus'', pr_Input = 5, pr_CachedInput = 1/2, pr_CacheWrite = 25/4, pr_Output = 25\<rparr>,
    \<lparr>pr_Match = ''claude-sonnet'', pr_Input = 3, pr_CachedInput = 3/10, pr_CacheWrite = 15/4, pr_Output = 15\<rparr>,
    \<lparr>pr_Match = ''claude-haiku'', pr_Input = 1, pr_CachedInput = 1/10, pr_CacheWrite = 5/4, pr_Output = 5\<rparr>,
    \<lparr>pr_Match = ''-pro'', pr_Input = 2, pr_CachedInput = 1/5, pr_CacheWrite = 0, pr_Output = 12\<rparr>,
    \<lparr>pr_Match = ''flash'', pr_Input = 1/2, pr_CachedInput = 1/20, pr_CacheWrite = 0, pr_Output = 3\<rparr>,
    \<lparr>pr_Match = ''mini'', pr_Input = 1/4, pr_CachedInput = 1/40, pr_CacheWrite = 0, pr_Output = 2\<rparr>,
    \<lparr>pr_Match = '''', pr_Input = 5/4, pr_CachedInput = 1/8, pr_CacheWrite = 0, pr_Output = 10\<rparr>]"

definition price_cost :: "price \<Rightarrow> tokens \<Rightarrow> f64" where
  "price_cost p t = (of_int (tk_Input t) * pr_Input p + of_int (tk_CachedInput t) * pr_CachedInput p +
     of_int (tk_CacheWrite t) * pr_CacheWrite p + of_int (tk_Output t) * pr_Output p) / 1000000"

fun cost_loop :: "price list \<Rightarrow> string \<Rightarrow> tokens \<Rightarrow> f64" where
  "cost_loop [] model t = 0"
| "cost_loop (p # ps) model t =
     (if contains model (pr_Match p) then price_cost p t else cost_loop ps model t)"

definition Cost :: "string \<Rightarrow> tokens \<Rightarrow> f64" where
  "Cost model t = cost_loop prices model t"

text \<open>The first entry whose text occurs in the model's name; the last entry matches every name.\<close>

definition price_of :: "string \<Rightarrow> price" where
  "price_of model = the (find (\<lambda>p. contains model (pr_Match p)) prices)"

lemma cost_loop_find:
  "cost_loop ps model t = (case find (\<lambda>p. contains model (pr_Match p)) ps of None \<Rightarrow> 0 | Some p \<Rightarrow> price_cost p t)"
  by (induction ps) auto

lemma price_found: "find (\<lambda>p. contains model (pr_Match p)) prices = Some (price_of model)"
proof -
  have "find (\<lambda>p. contains model (pr_Match p)) prices \<noteq> None"
    by (auto simp: find_None_iff prices_def)
  then show ?thesis by (auto simp: price_of_def)
qed

lemma price_of_mem: "price_of model \<in> set prices"
  using price_found[of model] by (auto simp: find_Some_iff)

lemma Cost_price: "Cost model t = price_cost (price_of model) t"
  by (simp add: Cost_def cost_loop_find price_found)

lemma prices_ordered:
  "p \<in> set prices \<Longrightarrow> 0 \<le> pr_CacheWrite p \<and> 0 < pr_CachedInput p \<and> pr_CachedInput p < pr_Input p \<and> pr_Input p < pr_Output p"
  by (auto simp: prices_def)

lemma Cost_nonneg: "tokens_nonneg t \<Longrightarrow> 0 \<le> Cost model t"
  using prices_ordered[OF price_of_mem, of model]
  by (auto simp: Cost_price price_cost_def tokens_nonneg_def intro!: divide_nonneg_pos add_nonneg_nonneg mult_nonneg_nonneg)

text \<open>Cost is linear in the token counts: the cost of summed rows is the sum of the costs.\<close>

definition sum_tokens :: "tokens list \<Rightarrow> tokens" where
  "sum_tokens ts = \<lparr>tk_Input = sum_list (map tk_Input ts), tk_CachedInput = sum_list (map tk_CachedInput ts),
     tk_CacheWrite = sum_list (map tk_CacheWrite ts), tk_Output = sum_list (map tk_Output ts),
     tk_ReasoningOutput = sum_list (map tk_ReasoningOutput ts)\<rparr>"

lemma Cost_sum_tokens: "Cost model (sum_tokens ts) = sum_list (map (Cost model) ts)"
  by (induction ts) (auto simp: sum_tokens_def Cost_price price_cost_def algebra_simps add_divide_distrib)

text \<open>
  Every model has a price, the first entry of the table that its name contains. So the
  cost of a request is never negative, is linear in its token counts (aggregating a model's
  rows and pricing the sum loses nothing), and a token read from the cache is always cheaper
  than one sent fresh, which is cheaper than one produced.
\<close>

theorem Cost_linear_and_ordered:
  "Cost model (sum_tokens ts) = sum_list (map (Cost model) ts) \<and>
   Cost model (zero_tokens\<lparr>tk_CacheWrite := n\<rparr>) = of_int n * Cost model (zero_tokens\<lparr>tk_CacheWrite := 1\<rparr>) \<and>
   0 < Cost model (zero_tokens\<lparr>tk_CachedInput := 1\<rparr>) \<and>
   Cost model (zero_tokens\<lparr>tk_CachedInput := 1\<rparr>) < Cost model (zero_tokens\<lparr>tk_Input := 1\<rparr>) \<and>
   Cost model (zero_tokens\<lparr>tk_Input := 1\<rparr>) < Cost model (zero_tokens\<lparr>tk_Output := 1\<rparr>)"
  using prices_ordered[OF price_of_mem, of model]
  by (simp add: Cost_sum_tokens) (simp add: Cost_price price_cost_def zero_tokens_def)

section \<open>Splitting a window\<close>

record share =
  sh_AllottedPercent :: f64
  sh_UsedPercent :: f64

definition zero_share :: share where
  "zero_share = \<lparr>sh_AllottedPercent = 0, sh_UsedPercent = 0\<rparr>"

definition allot :: "f64 \<Rightarrow> string \<times> f64 \<Rightarrow> (string, share) gomap \<Rightarrow> (string, share) gomap" where
  "allot totalWeight pw shares =
     (let (person, w) = pw; s = get_or zero_share shares person in
      put person (if totalWeight > 0 then s\<lparr>sh_AllottedPercent := w / totalWeight * 100\<rparr> else s) shares)"

definition charge :: "f64 \<Rightarrow> f64 \<Rightarrow> string \<times> f64 \<Rightarrow> (string, share) gomap \<Rightarrow> (string, share) gomap" where
  "charge usedPercent totalCost pc shares =
     (let (person, c) = pc; s = get_or zero_share shares person in
      put person (s\<lparr>sh_UsedPercent := usedPercent * c / totalCost\<rparr>) shares)"

definition Apportion ::
  "f64 \<Rightarrow> (string, f64) gomap \<Rightarrow> (string, f64) gomap \<Rightarrow> (string, share) gomap \<times> f64" where
  "Apportion usedPercent costs weights =
     (let totalWeight = sum_list (map snd weights);
          shares = fold (allot totalWeight) weights [];
          totalCost = sum_list (map snd costs)
      in if totalCost = 0 then (shares, usedPercent)
         else (fold (charge usedPercent totalCost) costs shares, 0))"

lemma allot_fold:
  "wf_map weights \<Longrightarrow> get_or zero_share (fold (allot tw) weights m) p =
     (let s = get_or zero_share m p in
      if p \<in> fst ` set weights \<and> tw > 0 then s\<lparr>sh_AllottedPercent := get_or 0 weights p / tw * 100\<rparr> else s)"
proof (induction weights arbitrary: m)
  case Nil
  then show ?case by (simp add: Let_def)
next
  case (Cons pw ws)
  obtain q w where pw: "pw = (q, w)" by (cases pw)
  have "q \<notin> fst ` set ws" using Cons.prems pw by auto
  moreover have "get_or zero_share (allot tw pw m) p =
      (if p = q \<and> tw > 0 then (get_or zero_share m p)\<lparr>sh_AllottedPercent := w / tw * 100\<rparr> else get_or zero_share m p)"
    by (auto simp: allot_def pw Let_def)
  ultimately show ?case using Cons pw by (auto simp: Let_def get_or_def)
qed

lemma charge_fold:
  "wf_map costs \<Longrightarrow> get_or zero_share (fold (charge u tc) costs m) p =
     (let s = get_or zero_share m p in
      if p \<in> fst ` set costs then s\<lparr>sh_UsedPercent := u * get_or 0 costs p / tc\<rparr> else s)"
proof (induction costs arbitrary: m)
  case Nil
  then show ?case by (simp add: Let_def)
next
  case (Cons pc cs)
  obtain q c where pc: "pc = (q, c)" by (cases pc)
  have "q \<notin> fst ` set cs" using Cons.prems pc by auto
  moreover have "get_or zero_share (charge u tc pc m) p =
      (if p = q then (get_or zero_share m p)\<lparr>sh_UsedPercent := u * c / tc\<rparr> else get_or zero_share m p)"
    by (auto simp: charge_def pc Let_def)
  ultimately show ?case using Cons pc by (auto simp: Let_def get_or_def)
qed

lemma allot_keys: "wf_map m \<Longrightarrow> wf_map (fold (allot tw) ws m) \<and>
    fst ` set (fold (allot tw) ws m) = fst ` set m \<union> fst ` set ws"
  by (induction ws arbitrary: m) (simp_all add: allot_def case_prod_beta' Let_def)

lemma charge_keys: "wf_map m \<Longrightarrow> wf_map (fold (charge u tc) cs m) \<and>
    fst ` set (fold (charge u tc) cs m) = fst ` set m \<union> fst ` set cs"
  by (induction cs arbitrary: m) (simp_all add: charge_def case_prod_beta' Let_def)

text \<open>What one person gets, as a formula.\<close>

definition share_of :: "f64 \<Rightarrow> (string, f64) gomap \<Rightarrow> (string, f64) gomap \<Rightarrow> string \<Rightarrow> share" where
  "share_of u costs weights p =
     (let tw = sum_list (map snd weights); tc = sum_list (map snd costs) in
      \<lparr>sh_AllottedPercent = (if tw > 0 then get_or 0 weights p / tw * 100 else 0),
       sh_UsedPercent = (if tc = 0 then 0 else u * get_or 0 costs p / tc)\<rparr>)"

lemma Apportion_shares:
  assumes "wf_map costs" "wf_map weights"
  shows "get_or zero_share (fst (Apportion u costs weights)) p = share_of u costs weights p"
proof -
  have zero: "zero_share\<lparr>sh_AllottedPercent := a\<rparr>\<lparr>sh_UsedPercent := b\<rparr> = \<lparr>sh_AllottedPercent = a, sh_UsedPercent = b\<rparr>"
    "zero_share\<lparr>sh_AllottedPercent := a\<rparr> = \<lparr>sh_AllottedPercent = a, sh_UsedPercent = 0\<rparr>"
    "zero_share\<lparr>sh_UsedPercent := b\<rparr> = \<lparr>sh_AllottedPercent = 0, sh_UsedPercent = b\<rparr>" for a b
    by (simp_all add: zero_share_def)
  show ?thesis
    using assms
    by (cases "p \<in> fst ` set weights"; cases "p \<in> fst ` set costs")
      (simp_all add: Apportion_def Let_def allot_fold charge_fold share_of_def zero get_or_none,
        simp_all add: zero_share_def)
qed

lemma Apportion_keys:
  assumes "wf_map costs" "wf_map weights"
  shows "wf_map (fst (Apportion u costs weights)) \<and>
    fst ` set (fst (Apportion u costs weights)) =
      fst ` set weights \<union> (if sum_list (map snd costs) = 0 then {} else fst ` set costs)"
  using allot_keys[of "[]" "sum_list (map snd weights)" weights] charge_keys
  by (auto simp: Apportion_def Let_def)

lemma sum_shares:
  fixes m :: "(string, f64) gomap"
  assumes "wf_map m" "finite A" "fst ` set m \<subseteq> A"
  shows "(\<Sum>p \<in> A. get_or 0 m p) = sum_list (map snd m)"
proof -
  have "(\<Sum>p \<in> A. get_or 0 m p) = (\<Sum>p \<in> fst ` set m. get_or 0 m p)"
    by (rule sum.mono_neutral_right) (use assms in \<open>auto simp: get_or_none\<close>)
  also have "\<dots> = sum_list (map (\<lambda>(k, v). v) m)"
    using sum_list_map_keys[OF assms(1), of "\<lambda>k v. v" 0] by simp
  finally show ?thesis by (simp add: case_prod_beta' comp_def)
qed

lemma Apportion_totals:
  assumes "wf_map costs" "wf_map weights"
  shows "case Apportion u costs weights of (shares, unattributed) \<Rightarrow>
    sum_list (map (sh_UsedPercent \<circ> snd) shares) + unattributed = u \<and>
    (0 < sum_list (map snd weights) \<longrightarrow> sum_list (map (sh_AllottedPercent \<circ> snd) shares) = 100) \<and>
    unattributed = (if sum_list (map snd costs) = 0 then u else 0)"
proof -
  define shares where "shares = fst (Apportion u costs weights)"
  define A where "A = fst ` set shares"
  let ?tc = "sum_list (map snd costs)" and ?tw = "sum_list (map snd weights)"
  have un: "snd (Apportion u costs weights) = (if ?tc = 0 then u else 0)"
    by (simp add: Apportion_def Let_def)
  from Apportion_keys[OF assms] have wf: "wf_map shares"
    and keys: "A = fst ` set weights \<union> (if ?tc = 0 then {} else fst ` set costs)"
    by (auto simp: shares_def A_def)
  have total: "sum_list (map (f \<circ> snd) shares) = (\<Sum>p \<in> A. f (share_of u costs weights p))" for f :: "share \<Rightarrow> f64"
    using sum_list_map_keys[OF wf, of "\<lambda>k. f" zero_share] Apportion_shares[OF assms]
    by (simp add: A_def shares_def case_prod_beta' comp_def)
  have used: "sum_list (map (sh_UsedPercent \<circ> snd) shares) = (if ?tc = 0 then 0 else u)"
  proof (cases "?tc = 0")
    case False
    then have "(\<Sum>p \<in> A. get_or 0 costs p) = ?tc"
      using keys by (intro sum_shares[OF assms(1)]) auto
    with False show ?thesis
      by (simp add: total share_of_def Let_def flip: sum_divide_distrib sum_distrib_left)
  qed (simp add: total share_of_def Let_def)
  have "sum_list (map (sh_AllottedPercent \<circ> snd) shares) = 100" if "0 < ?tw"
  proof -
    have "(\<Sum>p \<in> A. get_or 0 weights p) = ?tw"
      using keys by (intro sum_shares[OF assms(2)]) auto
    with that show ?thesis
      by (simp add: total share_of_def Let_def flip: sum_divide_distrib sum_distrib_right)
  qed
  with un used show ?thesis by (simp add: shares_def case_prod_beta')
qed

text \<open>
  C33. The split of a window conserves it: the members' estimated uses and the unattributed
  rest add up to the percentage the provider reported, and where anyone has weight the
  allotments add up to 100. Nothing is unattributed while someone has a cost, everything is
  when no one has.
\<close>

theorem Apportion_conserves:
  assumes "wf_map costs" "wf_map weights"
  shows "case Apportion u costs weights of (shares, unattributed) \<Rightarrow>
    sum_list (map (sh_UsedPercent \<circ> snd) shares) + unattributed = u \<and>
    (0 < sum_list (map snd weights) \<longrightarrow> sum_list (map (sh_AllottedPercent \<circ> snd) shares) = 100) \<and>
    unattributed = (if sum_list (map snd costs) = 0 then u else 0)"
  using assms by (rule Apportion_totals)

theorem Apportion_conserves_witness:
  "case Apportion 40 [(''ann'', 3), (''bob'', 1)] [(''ann'', 1), (''cy'', 1)] of (shares, unattributed) \<Rightarrow>
    sum_list (map (sh_UsedPercent \<circ> snd) shares) + unattributed = 40 \<and>
    sum_list (map (sh_AllottedPercent \<circ> snd) shares) = 100"
  using Apportion_conserves[of "[(''ann'', 3), (''bob'', 1)]" "[(''ann'', 1), (''cy'', 1)]" 40]
  by (simp add: case_prod_beta')

text \<open>
  What a person gets depends on the maps' contents only, never on the order in which the
  maps are iterated: it is the weight over all weights, and the reported use times the cost
  over all costs. With non-negative costs and weights no part is negative or above the whole.
\<close>

theorem Apportion_share_formula:
  assumes "wf_map costs" "wf_map weights"
    and "\<forall>(p, c) \<in> set costs. 0 \<le> c" and "\<forall>(p, w) \<in> set weights. 0 \<le> w" and "0 \<le> u"
  shows "case get_or zero_share (fst (Apportion u costs weights)) person of s \<Rightarrow>
    s = share_of u costs weights person \<and>
    0 \<le> sh_UsedPercent s \<and> sh_UsedPercent s \<le> u \<and> 0 \<le> sh_AllottedPercent s \<and> sh_AllottedPercent s \<le> 100"
proof -
  have part: "0 \<le> get_or 0 m person \<and> get_or 0 m person \<le> sum_list (map snd m)"
    if "\<forall>(p, c) \<in> set m. 0 \<le> c" for m :: "(string, f64) gomap"
    using that by (induction m) (auto simp: get_or_def sum_list_nonneg add_increasing split: if_splits)
  define c tc w tw where "c = get_or 0 costs person" and "tc = sum_list (map snd costs)"
    and "w = get_or 0 weights person" and "tw = sum_list (map snd weights)"
  have "0 \<le> c" "c \<le> tc" "0 \<le> w" "w \<le> tw"
    using part assms(3,4) by (simp_all add: c_def tc_def w_def tw_def)
  moreover from this have "u * c / tc \<le> u" if "tc \<noteq> 0"
    using that assms(5) mult_left_mono[of c tc u] by (simp add: divide_le_eq mult.commute)
  moreover have "w / tw * 100 \<le> 100" if "tw > 0" using that \<open>w \<le> tw\<close> by (simp add: divide_le_eq)
  ultimately show ?thesis
    using assms(5) Apportion_shares[OF assms(1,2)]
    by (simp add: share_of_def Let_def flip: c_def tc_def w_def tw_def)
qed

theorem Apportion_share_formula_witness:
  "sh_UsedPercent (get_or zero_share (fst (Apportion 40 [(''ann'', 3), (''bob'', 1)] [(''ann'', 1)])) ''bob'') = 10"
proof -
  have "wf_map [(''ann'', 3::f64), (''bob'', 1)]" by simp
  from Apportion_share_formula[OF this, of "[(''ann'', 1)]" 40 "''bob''"]
  show ?thesis by (simp add: share_of_def get_or_def)
qed

end
