(* ===== verification/Quota.thy ===== *)
theory Quota
  imports Ledger
begin

text \<open>
  \<open>internal/quota/quota.go\<close>: limit windows (buckets), the snapshots that report them, and
  \<open>Latest\<close>, which merges the snapshots of an account's devices into each bucket's current
  value. The specification \<open>latest_for\<close> looks at one bucket alone; \<open>Latest\<close> is proved to
  compute it for every bucket.
\<close>

section \<open>Buckets and model families\<close>

type_synonym bucket_key = string

definition BucketFiveHour :: bucket_key where "BucketFiveHour = ''five_hour''"
definition BucketWeekly :: bucket_key where "BucketWeekly = ''weekly''"
definition weeklyModelPrefix :: string where "weeklyModelPrefix = ''weekly_''"
definition fiveHourModelPrefix :: string where "fiveHourModelPrefix = ''five_hour_''"

definition WeeklyModelBucket :: "string \<Rightarrow> bucket_key" where
  "WeeklyModelBucket family = weeklyModelPrefix @ to_lower family"

definition FiveHourModelBucket :: "string \<Rightarrow> bucket_key" where
  "FiveHourModelBucket family = fiveHourModelPrefix @ to_lower family"

definition sharedFamilies :: "(string, string list) gomap" where
  "sharedFamilies = [(''claude'', [''gpt-oss-''])]"

definition InFamily :: "string \<Rightarrow> string \<Rightarrow> bool" where
  "InFamily model family =
     (if has_prefix model (''claude-'' @ family @ ''-'') \<or> has_prefix model (family @ ''-'') then True
      else list_ex (has_prefix model) (get_or [] sharedFamilies family))"

definition ModelFamily :: "bucket_key \<Rightarrow> string" where
  "ModelFamily k =
     (case (case cut_prefix k weeklyModelPrefix of
              None \<Rightarrow> cut_prefix k fiveHourModelPrefix
            | Some family \<Rightarrow> Some family) of
        None \<Rightarrow> []
      | Some family \<Rightarrow> family)"

type_synonym snapshot_source = string

definition SourceCodexRollout :: snapshot_source where "SourceCodexRollout = ''codex-rollout''"
definition SourceCodexRPC :: snapshot_source where "SourceCodexRPC = ''codex-rpc''"
definition SourceClaudeStatusLine :: snapshot_source where "SourceClaudeStatusLine = ''claude-statusline''"
definition SourceClaudeOAuthUsage :: snapshot_source where "SourceClaudeOAuthUsage = ''claude-oauth-usage''"
definition SourceAntigravity :: snapshot_source where "SourceAntigravity = ''antigravity''"

definition FiveHourMinutes :: int where "FiveHourMinutes = 300"
definition WeeklyMinutes :: int where "WeeklyMinutes = 10080"

record bucket =
  bk_Key :: bucket_key
  bk_UsedPercent :: "f64 option"
  bk_ResetsAt :: "time option"
  bk_WindowMinutes :: "int option"

record snapshot =
  sn_AccountRefHash :: string
  sn_AccountHint :: string
  sn_PlanType :: string
  sn_DeviceID :: string
  sn_Provider :: provider
  sn_ObservedAt :: time
  sn_Source :: snapshot_source
  sn_Buckets :: "bucket list"

record observed =
  od_Bucket :: bucket
  od_ObservedAt :: time

abbreviation od_Key :: "observed \<Rightarrow> bucket_key" where
  "od_Key x \<equiv> bk_Key (od_Bucket x)"

text \<open>
  A family's bucket keys name the family again, in lower case, and the two limits on all
  models name none; a model of the family, under its own name or Claude's, draws on it.
\<close>

theorem ModelFamily_roundtrip:
  "ModelFamily (WeeklyModelBucket f) = to_lower f \<and>
   ModelFamily (FiveHourModelBucket f) = to_lower f \<and>
   ModelFamily BucketFiveHour = [] \<and> ModelFamily BucketWeekly = [] \<and>
   InFamily (''claude-'' @ to_lower f @ ''-'' @ v) (ModelFamily (WeeklyModelBucket f)) \<and>
   InFamily (to_lower f @ ''-'' @ v) (ModelFamily (FiveHourModelBucket f)) \<and>
   InFamily (''gpt-oss-'' @ v) (ModelFamily (FiveHourModelBucket ''Claude''))"
proof -
  have wk: "ModelFamily (WeeklyModelBucket g) = to_lower g" for g
    by (simp add: ModelFamily_def WeeklyModelBucket_def)
  have fh: "ModelFamily (FiveHourModelBucket g) = to_lower g" for g
  proof -
    have "cut_prefix (FiveHourModelBucket g) weeklyModelPrefix = None"
      by (simp add: cut_prefix_def has_prefix_def FiveHourModelBucket_def weeklyModelPrefix_def fiveHourModelPrefix_def)
    then show ?thesis by (simp add: ModelFamily_def FiveHourModelBucket_def)
  qed
  have none: "ModelFamily BucketFiveHour = []" "ModelFamily BucketWeekly = []"
    by (simp_all add: ModelFamily_def cut_prefix_def has_prefix_def BucketFiveHour_def BucketWeekly_def
        weeklyModelPrefix_def fiveHourModelPrefix_def)
  have in1: "InFamily (''claude-'' @ g @ ''-'' @ v) g" "InFamily (g @ ''-'' @ v) g" for g
    using has_prefix_append[of "''claude-'' @ g @ ''-''" v] has_prefix_append[of "g @ ''-''" v]
    by (simp_all add: InFamily_def)
  have "to_lower ''Claude'' = ''claude''"
    by code_simp
  then have "InFamily (''gpt-oss-'' @ v) (to_lower ''Claude'')"
    using has_prefix_append[of "''gpt-oss-''" v] by (simp add: InFamily_def sharedFamilies_def get_or_def)
  with wk fh none in1 show ?thesis by simp
qed

section \<open>Merging snapshots\<close>

definition sameWindowSlack :: duration where "sameWindowSlack = minute"

definition statusLineReplaces :: "observed \<Rightarrow> observed \<Rightarrow> bool" where
  "statusLineReplaces next cur =
     (if \<not> od_ObservedAt next > od_ObservedAt cur then False
      else case (bk_ResetsAt (od_Bucket next), bk_ResetsAt (od_Bucket cur),
                 bk_UsedPercent (od_Bucket next), bk_UsedPercent (od_Bucket cur)) of
        (Some nr, Some cr, Some nu, Some cu) \<Rightarrow>
          (let d = time_sub nr cr in
           if d > sameWindowSlack then True
           else if d < - sameWindowSlack then False
           else nu > cu)
      | _ \<Rightarrow> True)"

definition latest_bucket ::
  "snapshot \<Rightarrow> bucket \<Rightarrow> (bucket_key, observed) gomap \<times> observed list \<Rightarrow>
   (bucket_key, observed) gomap \<times> observed list" where
  "latest_bucket s b acc =
     (let (latest, stale) = acc; x = \<lparr>od_Bucket = b, od_ObservedAt = sn_ObservedAt s\<rparr> in
      if sn_Source s = SourceClaudeStatusLine then (latest, stale @ [x])
      else case map_of latest (bk_Key b) of
        None \<Rightarrow> (put (bk_Key b) x latest, stale)
      | Some cur \<Rightarrow> if od_ObservedAt x > od_ObservedAt cur then (put (bk_Key b) x latest, stale) else (latest, stale))"

definition latest_stale :: "observed \<Rightarrow> (bucket_key, observed) gomap \<Rightarrow> (bucket_key, observed) gomap" where
  "latest_stale x latest =
     (case map_of latest (od_Key x) of
        None \<Rightarrow> put (od_Key x) x latest
      | Some cur \<Rightarrow> if statusLineReplaces x cur then put (od_Key x) x latest else latest)"

definition Latest :: "snapshot list \<Rightarrow> (bucket_key, observed) gomap" where
  "Latest snaps =
     (let (latest, stale) = fold (\<lambda>s. fold (latest_bucket s) (sn_Buckets s)) snaps ([], []);
          stale = sort_by (\<lambda>a b. od_ObservedAt a < od_ObservedAt b) stale
      in fold latest_stale stale latest)"

interpretation by_reading: strict_weak "\<lambda>a b. od_ObservedAt a < od_ObservedAt b"
  by (rule strict_weak_key)

subsection \<open>One bucket at a time\<close>

text \<open>The readings of bucket k: those that are current when read, and statusLine's.\<close>

definition observed_of :: "snapshot \<Rightarrow> observed list" where
  "observed_of s = map (\<lambda>b. \<lparr>od_Bucket = b, od_ObservedAt = sn_ObservedAt s\<rparr>) (sn_Buckets s)"

definition direct :: "bucket_key \<Rightarrow> snapshot list \<Rightarrow> observed list" where
  "direct k snaps = filter (\<lambda>x. od_Key x = k)
     (concat (map observed_of (filter (\<lambda>s. sn_Source s \<noteq> SourceClaudeStatusLine) snaps)))"

definition status_line :: "bucket_key \<Rightarrow> snapshot list \<Rightarrow> observed list" where
  "status_line k snaps = filter (\<lambda>x. od_Key x = k)
     (concat (map observed_of (filter (\<lambda>s. sn_Source s = SourceClaudeStatusLine) snaps)))"

definition newer :: "observed \<Rightarrow> observed option \<Rightarrow> observed option" where
  "newer x cur = (case cur of None \<Rightarrow> Some x | Some c \<Rightarrow> if od_ObservedAt x > od_ObservedAt c then Some x else Some c)"

definition replacing :: "observed \<Rightarrow> observed option \<Rightarrow> observed option" where
  "replacing x cur = (case cur of None \<Rightarrow> Some x | Some c \<Rightarrow> if statusLineReplaces x c then Some x else Some c)"

lemma newer_None [simp]: "newer x None = Some x" and replacing_None [simp]: "replacing x None = Some x"
  by (simp_all add: newer_def replacing_def)

definition latest_for :: "bucket_key \<Rightarrow> snapshot list \<Rightarrow> observed option" where
  "latest_for k snaps = fold replacing
     (sort_by (\<lambda>a b. od_ObservedAt a < od_ObservedAt b) (status_line k snaps))
     (fold newer (direct k snaps) None)"

lemma latest_bucket_fst:
  "map_of (fst (latest_bucket s b acc)) k =
     (if bk_Key b = k \<and> sn_Source s \<noteq> SourceClaudeStatusLine
      then newer \<lparr>od_Bucket = b, od_ObservedAt = sn_ObservedAt s\<rparr> (map_of (fst acc) k)
      else map_of (fst acc) k)"
  by (cases acc) (auto simp: latest_bucket_def newer_def Let_def update_conv' split: option.splits)

lemma latest_bucket_snd:
  "snd (latest_bucket s b acc) = snd acc @
     (if sn_Source s = SourceClaudeStatusLine then [\<lparr>od_Bucket = b, od_ObservedAt = sn_ObservedAt s\<rparr>] else [])"
  by (cases acc) (auto simp: latest_bucket_def Let_def split: option.splits)

lemma latest_buckets_fst:
  "map_of (fst (fold (latest_bucket s) bs acc)) k =
     (if sn_Source s \<noteq> SourceClaudeStatusLine
      then fold newer (filter (\<lambda>x. od_Key x = k) (map (\<lambda>b. \<lparr>od_Bucket = b, od_ObservedAt = sn_ObservedAt s\<rparr>) bs))
             (map_of (fst acc) k)
      else map_of (fst acc) k)"
  by (induction bs arbitrary: acc) (auto simp: latest_bucket_fst)

lemma latest_buckets_snd:
  "snd (fold (latest_bucket s) bs acc) = snd acc @
     (if sn_Source s = SourceClaudeStatusLine then map (\<lambda>b. \<lparr>od_Bucket = b, od_ObservedAt = sn_ObservedAt s\<rparr>) bs else [])"
  by (induction bs arbitrary: acc) (auto simp: latest_bucket_snd)

lemma latest_snaps_fst:
  "map_of (fst (fold (\<lambda>s. fold (latest_bucket s) (sn_Buckets s)) snaps acc)) k =
     fold newer (direct k snaps) (map_of (fst acc) k)"
  by (induction snaps arbitrary: acc) (auto simp: latest_buckets_fst direct_def observed_of_def)

lemma latest_snaps_snd:
  "snd (fold (\<lambda>s. fold (latest_bucket s) (sn_Buckets s)) snaps acc) = snd acc @
     concat (map observed_of (filter (\<lambda>s. sn_Source s = SourceClaudeStatusLine) snaps))"
  by (induction snaps arbitrary: acc) (auto simp: latest_buckets_snd observed_of_def)

lemma latest_stale_fold:
  "map_of (fold latest_stale xs m) k = fold replacing (filter (\<lambda>x. od_Key x = k) xs) (map_of m k)"
  by (induction xs arbitrary: m)
    (auto simp: latest_stale_def replacing_def update_conv' split: option.splits)

lemma Latest_for: "map_of (Latest snaps) k = latest_for k snaps"
  by (simp add: Latest_def Let_def case_prod_beta' latest_stale_fold by_reading.filter_sort_by
      latest_snaps_fst latest_snaps_snd latest_for_def status_line_def)

lemma wf_map_Latest: "wf_map (Latest snaps)"
proof -
  have b: "wf_map (fst acc) \<Longrightarrow> wf_map (fst (fold (latest_bucket s) bs acc))" for s bs acc
    by (induction bs arbitrary: acc)
      (auto simp: latest_bucket_def Let_def case_prod_beta' split: option.splits)
  have s: "wf_map (fst acc) \<Longrightarrow> wf_map (fst (fold (\<lambda>s. fold (latest_bucket s) (sn_Buckets s)) snaps acc))" for acc
    by (induction snaps arbitrary: acc) (auto simp: b)
  have "wf_map m \<Longrightarrow> wf_map (fold latest_stale xs m)" for xs m
    by (induction xs arbitrary: m) (auto simp: latest_stale_def split: option.splits)
  with s[of "([], [])"] show ?thesis by (simp add: Latest_def Let_def case_prod_beta')
qed

subsection \<open>What the current value is\<close>

lemma fold_newer_Some: "\<exists>y. fold newer xs (Some c) = Some y \<and> y \<in> set (c # xs) \<and>
    (\<forall>x \<in> set (c # xs). od_ObservedAt x \<le> od_ObservedAt y)"
proof (induction xs arbitrary: c)
  case Nil
  then show ?case by simp
next
  case (Cons x xs)
  show ?case
  proof (cases "od_ObservedAt x > od_ObservedAt c")
    case True
    with Cons[of x] show ?thesis by (force simp: newer_def)
  next
    case False
    with Cons[of c] show ?thesis by (force simp: newer_def)
  qed
qed

lemma fold_newer:
  "fold newer xs None = (if xs = [] then None else fold newer (tl xs) (Some (hd xs)))"
  by (cases xs) (auto simp: newer_def)

lemma fold_replacing_Some: "\<exists>y. fold replacing xs (Some c) = Some y \<and> y \<in> set (c # xs) \<and>
    (y = c \<or> od_ObservedAt c < od_ObservedAt y)"
proof (induction xs arbitrary: c)
  case Nil
  then show ?case by simp
next
  case (Cons x xs)
  show ?case
  proof (cases "statusLineReplaces x c")
    case True
    then have "od_ObservedAt c < od_ObservedAt x" by (auto simp: statusLineReplaces_def split: if_splits)
    with True Cons[of x] show ?thesis by (force simp: replacing_def)
  next
    case False
    with Cons[of c] show ?thesis by (force simp: replacing_def)
  qed
qed

lemma fold_replacing_None:
  "fold replacing xs None = (if xs = [] then None else fold replacing (tl xs) (Some (hd xs)))"
  by (cases xs) (auto simp: replacing_def)

lemma latest_for_current:
  "case latest_for k snaps of
     None \<Rightarrow> direct k snaps = [] \<and> status_line k snaps = []
   | Some y \<Rightarrow> y \<in> set (direct k snaps) \<union> set (status_line k snaps) \<and>
       list_all (\<lambda>x. od_ObservedAt x \<le> od_ObservedAt y) (direct k snaps) \<and>
       (direct k snaps = [] \<or> y \<in> set (direct k snaps) \<or>
        y \<in> set (status_line k snaps) \<and> list_all (\<lambda>x. od_ObservedAt x < od_ObservedAt y) (direct k snaps))"
proof -
  let ?s = "sort_by (\<lambda>a b. od_ObservedAt a < od_ObservedAt b) (status_line k snaps)"
  show ?thesis
  proof (cases "direct k snaps")
    case Nil
    show ?thesis
    proof (cases ?s)
      case Nil
      with \<open>direct k snaps = []\<close> show ?thesis
        by (simp add: latest_for_def)
    next
      case (Cons c cs)
      then have "set (c # cs) = set (status_line k snaps)" by (metis set_sort_by)
      with fold_replacing_Some[of cs c] Cons Nil show ?thesis
        by (auto simp: latest_for_def fold_replacing_None)
    qed
  next
    case (Cons d ds)
    obtain n where n: "fold newer (direct k snaps) None = Some n" "n \<in> set (direct k snaps)"
      "\<forall>x \<in> set (direct k snaps). od_ObservedAt x \<le> od_ObservedAt n"
      using fold_newer_Some[of ds d] Cons by (auto simp: fold_newer)
    obtain y where y: "fold replacing ?s (Some n) = Some y" "y \<in> set (n # ?s)"
      "y = n \<or> od_ObservedAt n < od_ObservedAt y"
      using fold_replacing_Some by blast
    have "latest_for k snaps = Some y" using n(1) y(1) by (simp add: latest_for_def)
    with n y(2,3) show ?thesis by (auto simp: list_all_iff)
  qed
qed

text \<open>
  C34. One pass over the snapshots of every device computes each bucket from its own readings:
  the newest reading that was current when it was read, which the statusLine readings of the
  bucket, oldest first, then replace one by one when they are later and of a later window, or of
  the same window and higher. The value is one of the readings, there is one exactly when any
  device has read the bucket, no reading that was current when it was read is newer than it, and
  where such readings exist the value is the newest of them unless a statusLine reading observed
  strictly later replaced it.
\<close>

theorem Latest_current:
  "map_of (Latest snaps) k =
     fold replacing (sort_by (\<lambda>a b. od_ObservedAt a < od_ObservedAt b) (status_line k snaps)) (fold newer (direct k snaps) None) \<and>
   (case map_of (Latest snaps) k of
     None \<Rightarrow> direct k snaps = [] \<and> status_line k snaps = []
   | Some y \<Rightarrow> y \<in> set (direct k snaps) \<union> set (status_line k snaps) \<and>
       list_all (\<lambda>x. od_ObservedAt x \<le> od_ObservedAt y) (direct k snaps) \<and>
       (direct k snaps = [] \<or> y \<in> set (direct k snaps) \<or>
        y \<in> set (status_line k snaps) \<and> list_all (\<lambda>x. od_ObservedAt x < od_ObservedAt y) (direct k snaps)))"
  using latest_for_current[of k snaps] by (simp add: Latest_for latest_for_def)

lemma fold_newer_max:
  assumes "distinct (map od_ObservedAt xs)" "y \<in> set xs" "\<forall>x \<in> set xs. od_ObservedAt x \<le> od_ObservedAt y"
  shows "fold newer xs None = Some y"
proof -
  from assms(2) obtain c cs where c: "xs = c # cs" by (cases xs) auto
  obtain z where z: "fold newer cs (Some c) = Some z" "z \<in> set xs" "\<forall>x \<in> set xs. od_ObservedAt x \<le> od_ObservedAt z"
    using fold_newer_Some[of cs c] c by auto
  then have "od_ObservedAt z = od_ObservedAt y" using assms(2,3) by (meson order_antisym)
  with assms(1,2) z(2) have "z = y" by (meson distinct_map inj_onD)
  with z c show ?thesis by (simp add: fold_newer)
qed

lemma fold_newer_cong_mset:
  assumes "mset xs = mset ys" "distinct (map od_ObservedAt xs)"
  shows "fold newer xs None = fold newer ys None"
proof (cases xs)
  case Nil
  with assms show ?thesis by simp
next
  case (Cons c cs)
  obtain z where z: "fold newer xs None = Some z" "z \<in> set xs" "\<forall>x \<in> set xs. od_ObservedAt x \<le> od_ObservedAt z"
    using fold_newer_Some[of cs c] Cons by (auto simp: fold_newer)
  have "set xs = set ys" using assms(1) by (rule mset_eq_setD)
  moreover have "distinct (map od_ObservedAt ys)"
    using assms(2) mset_eq_imp_distinct_iff[of "map od_ObservedAt xs" "map od_ObservedAt ys"] assms(1) by simp
  ultimately show ?thesis using z fold_newer_max[of ys z] by simp
qed

lemma mset_concat_map_filter:
  "mset (concat (map f (filter P xs))) = (\<Sum>x \<in># filter_mset P (mset xs). mset (f x))"
proof (induction xs)
  case Nil
  then show ?case by simp
next
  case (Cons x xs)
  then show ?case by (cases "P x") simp_all
qed

lemma readings_mset:
  assumes "mset snaps = mset snaps'"
  shows "mset (direct k snaps) = mset (direct k snaps')" "mset (status_line k snaps) = mset (status_line k snaps')"
proof -
  let ?all = "\<lambda>P snaps. concat (map observed_of (filter P snaps))"
  have "mset (?all P snaps) = mset (?all P snaps')" for P
    by (simp only: mset_concat_map_filter assms)
  then show "mset (direct k snaps) = mset (direct k snaps')" "mset (status_line k snaps) = mset (status_line k snaps')"
    by (simp_all only: direct_def status_line_def mset_filter)
qed

text \<open>
  The merge does not depend on the order the devices' snapshots are given in: as long as
  no two readings of the bucket were observed at the same instant, any permutation gives the
  same current value.
\<close>

theorem Latest_order_independent:
  assumes "mset snaps = mset snaps'"
    and "distinct (map od_ObservedAt (direct k snaps))"
    and "distinct (map od_ObservedAt (status_line k snaps))"
  shows "map_of (Latest snaps) k = map_of (Latest snaps') k"
proof -
  note m = readings_mset[OF assms(1)]
  have "fold newer (direct k snaps) None = fold newer (direct k snaps') None"
    by (rule fold_newer_cong_mset[OF m(1) assms(2)])
  moreover have "sort_by (\<lambda>a b. od_ObservedAt a < od_ObservedAt b) (status_line k snaps) =
      sort_by (\<lambda>a b. od_ObservedAt a < od_ObservedAt b) (status_line k snaps')"
    by (rule by_reading.sort_by_cong_mset[OF m(2)])
      (use assms(3) in \<open>auto simp: distinct_map dest: inj_onD\<close>)
  ultimately show ?thesis by (simp add: Latest_for latest_for_def)
qed

definition snap_at :: "time \<Rightarrow> snapshot_source \<Rightarrow> f64 \<Rightarrow> time \<Rightarrow> snapshot" where
  "snap_at t src u r = \<lparr>sn_AccountRefHash = ''a'', sn_AccountHint = [], sn_PlanType = [], sn_DeviceID = [],
     sn_Provider = ProviderAnthropic, sn_ObservedAt = t, sn_Source = src,
     sn_Buckets = [\<lparr>bk_Key = BucketWeekly, bk_UsedPercent = Some u, bk_ResetsAt = Some r, bk_WindowMinutes = Some 10080\<rparr>]\<rparr>"

theorem Latest_order_independent_witness:
  "map_option (bk_UsedPercent \<circ> od_Bucket) (map_of (Latest
     [snap_at 5 SourceClaudeOAuthUsage 60 100, snap_at 9 SourceClaudeStatusLine 40 100, snap_at 7 SourceClaudeOAuthUsage 55 100])
     BucketWeekly) = Some (Some 55) \<and>
   map_of (Latest
     [snap_at 5 SourceClaudeOAuthUsage 60 100, snap_at 9 SourceClaudeStatusLine 40 100, snap_at 7 SourceClaudeOAuthUsage 55 100])
     BucketWeekly = map_of (Latest
     [snap_at 7 SourceClaudeOAuthUsage 55 100, snap_at 5 SourceClaudeOAuthUsage 60 100, snap_at 9 SourceClaudeStatusLine 40 100])
     BucketWeekly"
proof -
  let ?a = "snap_at 5 SourceClaudeOAuthUsage 60 100" and ?b = "snap_at 9 SourceClaudeStatusLine 40 100"
    and ?c = "snap_at 7 SourceClaudeOAuthUsage 55 100"
  have ne: "SourceClaudeOAuthUsage \<noteq> SourceClaudeStatusLine"
    by (simp add: SourceClaudeOAuthUsage_def SourceClaudeStatusLine_def)
  have d: "direct BucketWeekly [?a, ?b, ?c] = concat (map observed_of [?a, ?c])"
    "status_line BucketWeekly [?a, ?b, ?c] = observed_of ?b"
    using ne by (simp_all add: direct_def status_line_def snap_at_def observed_of_def)
  have "map_of (Latest [?a, ?b, ?c]) BucketWeekly = map_of (Latest [?c, ?a, ?b]) BucketWeekly"
    by (rule Latest_order_independent) (simp_all add: d, simp_all add: observed_of_def snap_at_def)
  moreover have "map_option (bk_UsedPercent \<circ> od_Bucket) (map_of (Latest [?a, ?b, ?c]) BucketWeekly) = Some (Some 55)"
    by (simp add: Latest_for latest_for_def d)
      (simp add: observed_of_def snap_at_def newer_def replacing_def statusLineReplaces_def time_sub_def
        sameWindowSlack_def max_duration_def min_duration_def time_units)
  ultimately show ?thesis by blast
qed

section \<open>The window of a reading\<close>

definition HasReset :: "observed \<Rightarrow> time \<Rightarrow> bool" where
  "HasReset x now = (case bk_ResetsAt (od_Bucket x) of None \<Rightarrow> False | Some r \<Rightarrow> \<not> now < r)"

definition window_length :: "bucket \<Rightarrow> duration" where
  "window_length b = (case bk_WindowMinutes b of None \<Rightarrow> 0 | Some m \<Rightarrow> wrap64 (m * minute))"

definition Window_of :: "observed \<Rightarrow> time \<Rightarrow> time \<times> time" where
  "Window_of x now =
     (let len = window_length (od_Bucket x) in
      case bk_ResetsAt (od_Bucket x) of
        Some r \<Rightarrow> (r - len, if r < now then r else now)
      | None \<Rightarrow> (now - len, now))"

text \<open>
  The span a bucket covers ends no later than now. For a window of a sane length that
  had started by now it is a real span, at most the window's length, that holds every
  instant of the window seen so far; it is over exactly when the window has reset.
\<close>

theorem Window_span:
  assumes "bk_WindowMinutes (od_Bucket x) = Some m" "0 < m" "m \<le> 52560000"
    and "bk_ResetsAt (od_Bucket x) = Some r" "r - m * minute \<le> now"
  shows "case Window_of x now of (start, end) \<Rightarrow>
    start = r - m * minute \<and> start \<le> end \<and> end \<le> now \<and> end - start \<le> m * minute \<and>
    (HasReset x now \<longleftrightarrow> end = r)"
proof -
  define len where "len = m * minute"
  have "wrap64 len = len" using assms(2,3) by (simp add: len_def time_units)
  moreover have "0 < len" unfolding len_def using assms(2) minute_pos by (rule mult_pos_pos)
  ultimately show ?thesis
    using assms by (auto simp: Window_of_def window_length_def HasReset_def Let_def simp flip: len_def)
qed

theorem Window_span_witness:
  "case Window_of \<lparr>od_Bucket = \<lparr>bk_Key = BucketFiveHour, bk_UsedPercent = Some 10,
      bk_ResetsAt = Some (5 * hour), bk_WindowMinutes = Some 300\<rparr>, od_ObservedAt = hour\<rparr> (2 * hour) of
    (start, end) \<Rightarrow> start = 0 \<and> end = 2 * hour"
  using Window_span[of "\<lparr>od_Bucket = \<lparr>bk_Key = BucketFiveHour, bk_UsedPercent = Some 10,
      bk_ResetsAt = Some (5 * hour), bk_WindowMinutes = Some 300\<rparr>, od_ObservedAt = hour\<rparr>" 300 "5 * hour" "2 * hour"]
  by (simp add: Window_of_def window_length_def time_units)

end
