(* ===== verification/Syncapi.thy ===== *)
theory Syncapi
  imports Quota
begin

text \<open>
  \<open>internal/syncapi/syncapi.go\<close>: the wire contract between client and server. The requests of
  a sync and their conversions from and to the domain types, and the report types the server
  fills in. JSON encoding itself is the standard library's and is not modelled; a field left
  out as empty decodes to the zero value it was.
\<close>

section \<open>Sync requests\<close>

definition Version :: int where "Version = 2"

record sync_event =
  se_DedupeKey :: string
  se_AccountRefHash :: string
  se_PreviousAccountRefHash :: string
  se_Provider :: string
  se_Product :: string
  se_Originator :: string
  se_SessionID :: string
  se_Model :: string
  se_OccurredAt :: time
  se_ThirdParty :: bool
  se_Gateway :: string
  se_RequestID :: string
  se_ParentRequestID :: string
  se_Effort :: string
  se_Status :: string
  se_Aggregated :: bool
  se_Input :: int
  se_CachedInput :: int
  se_CacheWrite :: int
  se_Output :: int
  se_ReasoningOutput :: int

record sync_bucket =
  sb_Key :: string
  sb_UsedPercent :: "f64 option"
  sb_ResetsAt :: "time option"
  sb_WindowMinutes :: "int option"

record sync_snapshot =
  ss_AccountRefHash :: string
  ss_PreviousAccountRefHash :: string
  ss_AccountHint :: string
  ss_PlanType :: string
  ss_Provider :: string
  ss_Source :: string
  ss_ObservedAt :: time
  ss_Buckets :: "sync_bucket list"

record sync_observation =
  so_Provider :: string
  so_Source :: string
  so_AccountRefHash :: string
  so_Hint :: string
  so_PlanType :: string
  so_ObservedAt :: time

record sync_limit =
  sl_DedupeKey :: string
  sl_AccountRefHash :: string
  sl_Provider :: string
  sl_OccurredAt :: time
  sl_ObservedAt :: time
  sl_SessionID :: string
  sl_RequestID :: string
  sl_Kind :: string
  sl_Source :: string
  sl_Evidence :: string
  sl_HTTPStatus :: int

record sync_request =
  rq_Version :: int
  rq_Observations :: "sync_observation list"
  rq_Events :: "sync_event list"
  rq_Snapshots :: "sync_snapshot list"
  rq_LimitEvents :: "sync_limit list"

record sync_response =
  rp_Accepted :: int
  rp_Diverged :: int

section \<open>Conversions\<close>

definition FromEvent :: "event \<Rightarrow> sync_event" where
  "FromEvent e =
     \<lparr>se_DedupeKey = ev_DedupeKey e, se_AccountRefHash = ev_AccountRefHash e, se_PreviousAccountRefHash = [],
      se_Provider = ev_Provider e, se_Product = ev_Product e, se_Originator = ev_Originator e,
      se_SessionID = ev_SessionID e, se_Model = ev_Model e, se_OccurredAt = ev_OccurredAt e,
      se_ThirdParty = ev_ThirdParty e, se_Gateway = ev_Gateway e, se_RequestID = ev_RequestID e,
      se_ParentRequestID = ev_ParentRequestID e, se_Effort = ev_Effort e, se_Status = ev_Status e,
      se_Aggregated = ev_Aggregated e, se_Input = tk_Input (ev_Tokens e), se_CachedInput = tk_CachedInput (ev_Tokens e),
      se_CacheWrite = tk_CacheWrite (ev_Tokens e), se_Output = tk_Output (ev_Tokens e),
      se_ReasoningOutput = tk_ReasoningOutput (ev_Tokens e)\<rparr>"

definition Event_ToDomain :: "sync_event \<Rightarrow> event" where
  "Event_ToDomain e =
     \<lparr>ev_DedupeKey = se_DedupeKey e, ev_AccountRefHash = se_AccountRefHash e, ev_DeviceID = [],
      ev_Provider = se_Provider e, ev_Product = se_Product e, ev_Originator = se_Originator e,
      ev_SessionID = se_SessionID e, ev_Model = se_Model e, ev_OccurredAt = se_OccurredAt e,
      ev_ThirdParty = se_ThirdParty e, ev_Gateway = se_Gateway e, ev_RequestID = se_RequestID e,
      ev_ParentRequestID = se_ParentRequestID e, ev_Effort = se_Effort e, ev_Status = se_Status e,
      ev_Aggregated = se_Aggregated e,
      ev_Tokens = \<lparr>tk_Input = se_Input e, tk_CachedInput = se_CachedInput e, tk_CacheWrite = se_CacheWrite e,
        tk_Output = se_Output e, tk_ReasoningOutput = se_ReasoningOutput e\<rparr>\<rparr>"

definition FromLimitEvent :: "limit_event \<Rightarrow> sync_limit" where
  "FromLimitEvent l =
     \<lparr>sl_DedupeKey = le_DedupeKey l, sl_AccountRefHash = le_AccountRefHash l, sl_Provider = le_Provider l,
      sl_OccurredAt = le_OccurredAt l, sl_ObservedAt = le_ObservedAt l, sl_SessionID = le_SessionID l,
      sl_RequestID = le_RequestID l, sl_Kind = le_Kind l, sl_Source = le_Source l,
      sl_Evidence = le_Evidence l, sl_HTTPStatus = le_HTTPStatus l\<rparr>"

definition LimitEvent_ToDomain :: "sync_limit \<Rightarrow> limit_event" where
  "LimitEvent_ToDomain l =
     \<lparr>le_DedupeKey = sl_DedupeKey l, le_AccountRefHash = sl_AccountRefHash l, le_DeviceID = [], le_PersonID = [],
      le_Provider = sl_Provider l, le_Originator = [], le_OccurredAt = sl_OccurredAt l, le_ObservedAt = sl_ObservedAt l,
      le_SessionID = sl_SessionID l, le_RequestID = sl_RequestID l, le_Kind = sl_Kind l, le_Source = sl_Source l,
      le_Evidence = sl_Evidence l, le_HTTPStatus = sl_HTTPStatus l\<rparr>"

definition FromBucket :: "bucket \<Rightarrow> sync_bucket" where
  "FromBucket b = \<lparr>sb_Key = bk_Key b, sb_UsedPercent = bk_UsedPercent b, sb_ResetsAt = bk_ResetsAt b,
     sb_WindowMinutes = bk_WindowMinutes b\<rparr>"

definition Bucket_ToDomain :: "sync_bucket \<Rightarrow> bucket" where
  "Bucket_ToDomain b = \<lparr>bk_Key = sb_Key b, bk_UsedPercent = sb_UsedPercent b, bk_ResetsAt = sb_ResetsAt b,
     bk_WindowMinutes = sb_WindowMinutes b\<rparr>"

definition FromSnapshot :: "snapshot \<Rightarrow> sync_snapshot" where
  "FromSnapshot s =
     \<lparr>ss_AccountRefHash = sn_AccountRefHash s, ss_PreviousAccountRefHash = [], ss_AccountHint = sn_AccountHint s,
      ss_PlanType = sn_PlanType s, ss_Provider = sn_Provider s, ss_Source = sn_Source s,
      ss_ObservedAt = sn_ObservedAt s, ss_Buckets = map FromBucket (sn_Buckets s)\<rparr>"

definition Snapshot_ToDomain :: "sync_snapshot \<Rightarrow> snapshot" where
  "Snapshot_ToDomain s =
     \<lparr>sn_AccountRefHash = ss_AccountRefHash s, sn_AccountHint = ss_AccountHint s, sn_PlanType = ss_PlanType s,
      sn_DeviceID = [], sn_Provider = ss_Provider s, sn_ObservedAt = ss_ObservedAt s, sn_Source = ss_Source s,
      sn_Buckets = map Bucket_ToDomain (ss_Buckets s)\<rparr>"

definition FromObservation :: "observation \<Rightarrow> sync_observation" where
  "FromObservation o' =
     \<lparr>so_Provider = ob_Provider o', so_Source = ob_Source o', so_AccountRefHash = ob_ExternalRefHash o',
      so_Hint = ob_Hint o', so_PlanType = ob_PlanType o', so_ObservedAt = ob_ObservedAt o'\<rparr>"

lemma Bucket_roundtrip: "Bucket_ToDomain (FromBucket b) = b" "FromBucket (Bucket_ToDomain c) = c"
  by (simp_all add: Bucket_ToDomain_def FromBucket_def)

text \<open>
  Nothing is lost on the wire but what only the sending device knows: a request, a limit
  hit or a snapshot converted to its wire form and back is the same without the device (and,
  for a limit hit, the person and the originator); and the wire forms survive the round trip
  through the domain but for the correction they carry.
\<close>

theorem sync_roundtrip:
  "Event_ToDomain (FromEvent e) = e\<lparr>ev_DeviceID := []\<rparr> \<and>
   LimitEvent_ToDomain (FromLimitEvent l) = l\<lparr>le_DeviceID := [], le_PersonID := [], le_Originator := []\<rparr> \<and>
   Snapshot_ToDomain (FromSnapshot s) = s\<lparr>sn_DeviceID := []\<rparr> \<and>
   FromEvent (Event_ToDomain we) = we\<lparr>se_PreviousAccountRefHash := []\<rparr> \<and>
   FromLimitEvent (LimitEvent_ToDomain wl) = wl \<and>
   FromSnapshot (Snapshot_ToDomain ws) = ws\<lparr>ss_PreviousAccountRefHash := []\<rparr>"
  by (simp add: Event_ToDomain_def FromEvent_def LimitEvent_ToDomain_def FromLimitEvent_def
      Snapshot_ToDomain_def FromSnapshot_def Bucket_roundtrip comp_def)

section \<open>Reports\<close>

record usage_totals =
  ut_Input :: int
  ut_CachedInput :: int
  ut_CacheWrite :: int
  ut_Output :: int
  ut_Requests :: int
  ut_CostUSD :: f64

definition zero_totals :: usage_totals where
  "zero_totals = \<lparr>ut_Input = 0, ut_CachedInput = 0, ut_CacheWrite = 0, ut_Output = 0, ut_Requests = 0, ut_CostUSD = 0\<rparr>"

record personal_usage =
  pu_Today :: usage_totals
  pu_Last30Day :: usage_totals

record account_usage =
  au_ID :: string
  au_Provider :: string
  au_Label :: string
  au_Totals :: usage_totals

record model_totals =
  mt_Model :: string
  mt_Gateway :: string
  mt_Totals :: usage_totals

record device_usage =
  du_Name :: string
  du_Totals :: usage_totals

record member_usage =
  mu_PersonID :: string
  mu_Name :: string
  mu_IsYou :: bool
  mu_Period :: string
  mu_Total :: usage_totals
  mu_Accounts :: "account_usage list"
  mu_Models :: "model_totals list"
  mu_ThirdParty :: "model_totals list"
  mu_Devices :: "device_usage list"

record active_user =
  av_PersonID :: string
  av_Name :: string
  av_IsYou :: bool
  av_Devices :: "string list"

record timeline_point =
  tp_Bin :: int
  tp_PersonID :: string
  tp_Model :: string
  tp_ThirdParty :: bool
  tp_Gateway :: string
  tp_Tokens :: int

record timeline =
  tl_Start :: time
  tl_BinMinutes :: int
  tl_Bins :: int
  tl_Points :: "timeline_point list"
  tl_Resets :: "time list"

record model_usage =
  mo_Model :: string
  mo_Gateway :: string
  mo_Requests :: int
  mo_Tokens :: int
  mo_UsedPercent :: f64

record member_device =
  md_Name :: string
  md_UsedPercent :: f64

record member_model =
  mm_Model :: string
  mm_Gateway :: string
  mm_UsedPercent :: f64

record member_share =
  mh_PersonID :: string
  mh_Name :: string
  mh_IsYou :: bool
  mh_ShareWeight :: f64
  mh_AllottedPercent :: f64
  mh_UsedPercent :: f64
  mh_Requests :: int
  mh_Models :: "member_model list"
  mh_Devices :: "member_device list"

record bucket_overview =
  bo_Key :: string
  bo_UsedPercent :: f64
  bo_ResetsAt :: "time option"
  bo_WindowMinutes :: int
  bo_ObservedAt :: time
  bo_Reset :: bool
  bo_UnattributedPercent :: f64
  bo_Members :: "member_share list"
  bo_Models :: "model_usage list"
  bo_ThirdPartyModels :: "model_usage list"
  bo_Timeline :: "timeline option"

record account_overview =
  ao_ID :: string
  ao_Provider :: string
  ao_Label :: string
  ao_PlanType :: string
  ao_Buckets :: "bucket_overview list"
  ao_ActiveUsers :: "active_user list"
  ao_Usage :: "bucket_overview option"

record overview =
  ov_GeneratedAt :: time
  ov_Accounts :: "account_overview list"
  ov_You :: "personal_usage option"
  ov_DashboardPublished :: bool

section \<open>Capacity reports\<close>

definition CapacityReasonUnsupportedProvider :: string where
  "CapacityReasonUnsupportedProvider = ''unsupported_provider''"

record limit_hit =
  lh_At :: time
  lh_Kind :: string
  lh_Evidence :: string
  lh_Plan :: string
  lh_Member :: string

record capacity_demand =
  cd_Tokens :: int
  cd_Requests :: int
  cd_CostUSD :: f64
  cd_RollingPeak :: f64
  cd_RollingPeakAt :: time

record capacity_member =
  cm_PersonID :: string
  cm_Name :: string
  cm_Tokens :: int
  cm_Requests :: int
  cm_CostUSD :: f64
  cm_RollingPeak :: f64

record plan_interval_dto =
  pd_ID :: string
  pd_PlanType :: string
  pd_EffectiveAt :: time
  pd_EndedAt :: "time option"
  pd_Reason :: string
  pd_Source :: string
  pd_Precision :: string

record calibration_row =
  cr_Bucket :: string
  cr_Plan :: string
  cr_Samples :: int
  cr_Rate :: f64
  cr_RateMin :: f64
  cr_RateMax :: f64
  cr_CapacityUSD :: f64

record capacity_multiple =
  mp_Bucket :: string
  mp_Observed :: f64
  mp_Official :: f64

record observed_window =
  ow_Start :: time
  ow_ResetsAt :: time
  ow_Plan :: string
  ow_MaxPercent :: f64
  ow_Saturated :: bool
  ow_FirstFull :: "time option"
  ow_CostUSD :: f64
  ow_PredictedPercent :: "f64 option"
  ow_Excluded :: string
  ow_LimitHit :: bool

record saturation_row =
  sat_Bucket :: string
  sat_Plan :: string
  sat_Windows :: int
  sat_Saturated :: int
  sat_Hits :: int

type_synonym series_pairs = "(f64 \<times> f64) list"

record five_hour_result =
  fh_Basis :: string
  fh_CapacityUSD :: f64
  fh_Fit :: string
  fh_Windows :: int
  fh_HitWindows :: int
  fh_FirstHit :: "time option"
  fh_PeakPercent :: f64
  fh_BlockedPercent :: f64
  fh_RollingPeakPercent :: f64
  fh_RollingP50Percent :: f64
  fh_RollingP95Percent :: f64
  fh_Series :: series_pairs

record weekly_window_dto =
  ww_Start :: time
  ww_End :: time
  ww_PeakPercent :: f64
  ww_HitAt :: "time option"

record weekly_result =
  wk_Basis :: string
  wk_CapacityUSD :: f64
  wk_Fit :: string
  wk_PeakPercent :: f64
  wk_HitWindows :: int
  wk_Windows :: "weekly_window_dto list"
  wk_Series :: series_pairs

record scenario_member =
  sm_PersonID :: string
  sm_Name :: string
  sm_FiveHour :: five_hour_result
  sm_Weekly :: weekly_result

record capacity_scenario =
  sc_ID :: string
  sc_Plan :: string
  sc_Shared :: bool
  sc_FiveHour :: five_hour_result
  sc_Weekly :: weekly_result
  sc_Members :: "scenario_member list"

record capacity_report =
  rt_AccountID :: string
  rt_AccountLabel :: string
  rt_Provider :: string
  rt_CurrentPlan :: string
  rt_Period :: string
  rt_Start :: time
  rt_End :: time
  rt_Reason :: string
  rt_Demand :: capacity_demand
  rt_Members :: "capacity_member list"
  rt_Plans :: "plan_interval_dto list"
  rt_Calibration :: "calibration_row list"
  rt_Multiples :: "capacity_multiple list"
  rt_Windows :: "observed_window list"
  rt_Saturation :: "saturation_row list"
  rt_Scenarios :: "capacity_scenario list"
  rt_Readings :: series_pairs
  rt_BorderlinePercent :: int
  rt_LimitHits :: "limit_hit list"

end
