(* ===== verification/SqlTables.thy ===== *)
theory SqlTables
  imports GoSort
begin

text \<open>
  Tables of the two SQL databases as lists of rows: an update of the rows that satisfy a
  condition, a transaction that handles a list of records one by one and stops at the first
  error, and the locale \<open>kept\<close> of an invariant of a step relation.
\<close>

text \<open>Update the rows that satisfy a condition.\<close>

definition update_where :: "('r \<Rightarrow> bool) \<Rightarrow> ('r \<Rightarrow> 'r) \<Rightarrow> 'r list \<Rightarrow> 'r list" where
  "update_where p f rows = map (\<lambda>r. if p r then f r else r) rows"

text \<open>A fold that stops at the first error.\<close>

fun fold_tx :: "('a \<Rightarrow> 's \<Rightarrow> 'e + 's) \<Rightarrow> 'a list \<Rightarrow> 's \<Rightarrow> 'e + 's" where
  "fold_tx f [] s = Inr s"
| "fold_tx f (x # xs) s = (case f x s of Inl err \<Rightarrow> Inl err | Inr s' \<Rightarrow> fold_tx f xs s')"

lemma map_update_where: "(\<And>r. key (f r) = key r) \<Longrightarrow> map key (update_where p f rows) = map key rows"
  by (simp add: update_where_def)

lemma set_update_where: "set (update_where p f rows) = (\<lambda>r. if p r then f r else r) ` set rows"
  by (simp add: update_where_def)

lemma image_update_where: "(\<And>r. key (f r) = key r) \<Longrightarrow> key ` set (update_where p f rows) = key ` set rows"
  by (metis list.set_map map_update_where)

lemma update_where_id: "(\<And>r. r \<in> set rows \<Longrightarrow> p r \<Longrightarrow> f r = r) \<Longrightarrow> update_where p f rows = rows"
  by (simp add: update_where_def map_idI)

lemma find_update_where:
  assumes "\<And>r. q (f r) = q r"
  shows "find q (update_where p f rows) = map_option (\<lambda>r. if p r then f r else r) (find q rows)"
  using assms by (induction rows) (auto simp: update_where_def)

lemma list_ex_update_where:
  assumes "\<And>r. q (f r) = q r"
  shows "list_ex q (update_where p f rows) = list_ex q rows"
  using assms by (induction rows) (auto simp: update_where_def)

lemma ball_update_where:
  "(\<And>r. r \<in> set rows \<Longrightarrow> q (if p r then f r else r)) \<Longrightarrow> \<forall>r \<in> set (update_where p f rows). q r"
  unfolding set_update_where by blast

lemma fold_tx_keeps_mem:
  assumes "fold_tx f xs st = Inr st'" "I st" "\<And>x st st'. x \<in> set xs \<Longrightarrow> f x st = Inr st' \<Longrightarrow> I st \<Longrightarrow> I st'"
  shows "I st'"
  using assms
proof (induction xs arbitrary: st)
  case Nil
  then show ?case by simp
next
  case (Cons x xs)
  then obtain st1 where st1: "f x st = Inr st1" "fold_tx f xs st1 = Inr st'" by (auto split: sum.splits)
  have "I st1" by (rule Cons.prems(3)[OF _ st1(1) Cons.prems(2)]) simp
  with st1(2) Cons.IH Cons.prems(3) show ?case by (meson list.set_intros(2))
qed

lemma fold_tx_keeps:
  assumes "fold_tx f xs st = Inr st'" "I st" "\<And>x st st'. f x st = Inr st' \<Longrightarrow> I st \<Longrightarrow> I st'"
  shows "I st'"
  using assms(1,2) by (induction xs arbitrary: st) (auto split: sum.splits intro: assms(3))

text \<open>
  A property of the state that holds at first and that every step keeps holds in every state the
  steps reach.
\<close>

locale kept =
  fixes step :: "'s \<Rightarrow> 's \<Rightarrow> bool" and init :: 's and ok :: "'s \<Rightarrow> bool"
  assumes ok_init: "ok init" and ok_step: "ok s \<Longrightarrow> step s t \<Longrightarrow> ok t"
begin

lemma ok_steps: "step\<^sup>*\<^sup>* s t \<Longrightarrow> ok s \<Longrightarrow> ok t"
  by (induction rule: rtranclp_induct) (auto intro: ok_step)

lemma ok_reachable: "step\<^sup>*\<^sup>* init t \<Longrightarrow> ok t"
  using ok_steps ok_init by blast

end

end
