(* ===== verification/ClientStore.thy ===== *)
theory ClientStore
  imports Syncapi SqlTables
begin

text \<open>
  \<open>internal/client/storage/storage.go\<close>, the desktop client's SQLite database: the files already
  scanned, the account timeline, the local copy of the ledger and the outbox of changes the
  server has not accepted yet. Every statement is a function of the tables; a transaction is the
  composition of its statements, which only the disk could make fail. A time column holds whole
  milliseconds. The payload of an outbox row is the value its JSON text encodes, and the text of
  a snapshot's buckets the buckets themselves: equal texts are equal buckets. The order SQLite
  gives rows that tie on the sorted column is the order of the table.
\<close>

section \<open>Tables\<close>

record file_state =
  fs_Size :: int
  fs_ModTime :: time

record local_observation =
  lo_provider :: string
  lo_source :: string
  lo_ref_hash :: string
  lo_hint :: string
  lo_plan_type :: string
  lo_observed_at :: int

record local_event =
  lv_dedupe_key :: string
  lv_account_ref_hash :: string
  lv_provider :: string
  lv_product :: string
  lv_originator :: string
  lv_session_id :: string
  lv_model :: string
  lv_occurred_at :: int
  lv_input :: int
  lv_cached_input :: int
  lv_cache_write :: int
  lv_output :: int
  lv_reasoning_output :: int
  lv_third_party :: bool
  lv_gateway :: string
  lv_request_id :: string
  lv_parent_request_id :: string
  lv_effort :: string
  lv_status :: string
  lv_aggregated :: bool

record local_snapshot =
  lp_provider :: string
  lp_account_ref_hash :: string
  lp_source :: string
  lp_observed_at :: int
  lp_buckets :: "sync_bucket list"
  lp_plan_type :: string
  lp_account_hint :: string

record local_limit =
  lm_dedupe_key :: string
  lm_provider :: string
  lm_account_ref_hash :: string
  lm_occurred_at :: int
  lm_observed_at :: int
  lm_session_id :: string
  lm_request_id :: string
  lm_kind :: string
  lm_source :: string
  lm_evidence :: string
  lm_http_status :: int

definition KindObservation :: string where "KindObservation = ''observation''"
definition KindEvent :: string where "KindEvent = ''event''"
definition KindSnapshot :: string where "KindSnapshot = ''snapshot''"
definition KindLimitEvent :: string where "KindLimitEvent = ''limit_event''"

datatype payload =
    PayloadObservation sync_observation
  | PayloadEvent sync_event
  | PayloadSnapshot sync_snapshot
  | PayloadLimit sync_limit

record outbox_item =
  ox_ID :: int
  ox_Kind :: string
  ox_Payload :: payload

record claude_login =
  cl_RefHash :: string
  cl_Hint :: string
  cl_PlanType :: string

record local_db =
  ld_files :: "(string, file_state) gomap"
  ld_observations :: "local_observation list"
  ld_events :: "local_event list"
  ld_snapshots :: "local_snapshot list"
  ld_limits :: "local_limit list"
  ld_outbox :: "outbox_item list"
  ld_sequence :: int
  ld_reviewed :: bool
  ld_logins :: "claude_login list"

text \<open>\<open>ld_sequence\<close> is the last ID the outbox gave out: \<open>AUTOINCREMENT\<close> never gives one twice.\<close>

definition empty_local :: local_db where
  "empty_local = \<lparr>ld_files = [], ld_observations = [], ld_events = [], ld_snapshots = [], ld_limits = [],
     ld_outbox = [], ld_sequence = 0, ld_reviewed = False, ld_logins = []\<rparr>"

definition enqueue :: "string \<Rightarrow> payload \<Rightarrow> local_db \<Rightarrow> local_db" where
  "enqueue kind p s =
     s\<lparr>ld_outbox := ld_outbox s @ [\<lparr>ox_ID = ld_sequence s + 1, ox_Kind = kind, ox_Payload = p\<rparr>],
       ld_sequence := ld_sequence s + 1\<rparr>"

section \<open>The account timeline\<close>

definition AttributionReviewed :: "local_db \<Rightarrow> bool" where "AttributionReviewed s = ld_reviewed s"

definition MarkAttributionReviewed :: "local_db \<Rightarrow> local_db" where
  "MarkAttributionReviewed s = s\<lparr>ld_reviewed := True\<rparr>"

definition KnownFiles :: "local_db \<Rightarrow> (string, file_state) gomap" where "KnownFiles s = ld_files s"

definition AddObservation :: "observation \<Rightarrow> local_db \<Rightarrow> local_db" where
  "AddObservation o' s =
     (if list_ex (\<lambda>r. lo_provider r = ob_Provider o' \<and> lo_source r = ob_Source o' \<and>
          lo_observed_at r = unix_milli (ob_ObservedAt o')) (ld_observations s) then s
      else let s = s\<lparr>ld_observations := ld_observations s @ [\<lparr>lo_provider = ob_Provider o', lo_source = ob_Source o',
                 lo_ref_hash = ob_ExternalRefHash o', lo_hint = ob_Hint o', lo_plan_type = ob_PlanType o',
                 lo_observed_at = unix_milli (ob_ObservedAt o')\<rparr>]\<rparr>
           in if ob_ExternalRefHash o' = [] then s
              else enqueue KindObservation (PayloadObservation (FromObservation o')) s)"

definition observation_of :: "local_observation \<Rightarrow> observation" where
  "observation_of r = \<lparr>ob_DeviceID = [], ob_Provider = lo_provider r, ob_Source = lo_source r,
     ob_ExternalRefHash = lo_ref_hash r, ob_Hint = lo_hint r, ob_PlanType = lo_plan_type r,
     ob_ObservedAt = of_unix_milli (lo_observed_at r)\<rparr>"

definition Observations :: "string \<Rightarrow> string \<Rightarrow> local_db \<Rightarrow> observation list" where
  "Observations provider source s =
     map observation_of (sort_by (\<lambda>a b. lo_observed_at a < lo_observed_at b)
       (filter (\<lambda>r. lo_provider r = provider \<and> lo_source r = source) (ld_observations s)))"

section \<open>The local ledger\<close>

definition event_row :: "event \<Rightarrow> local_event" where
  "event_row e =
     \<lparr>lv_dedupe_key = ev_DedupeKey e, lv_account_ref_hash = ev_AccountRefHash e, lv_provider = ev_Provider e,
      lv_product = ev_Product e, lv_originator = ev_Originator e, lv_session_id = ev_SessionID e,
      lv_model = ev_Model e, lv_occurred_at = unix_milli (ev_OccurredAt e), lv_input = tk_Input (ev_Tokens e),
      lv_cached_input = tk_CachedInput (ev_Tokens e), lv_cache_write = tk_CacheWrite (ev_Tokens e),
      lv_output = tk_Output (ev_Tokens e), lv_reasoning_output = tk_ReasoningOutput (ev_Tokens e),
      lv_third_party = ev_ThirdParty e, lv_gateway = ev_Gateway e, lv_request_id = ev_RequestID e,
      lv_parent_request_id = ev_ParentRequestID e, lv_effort = ev_Effort e, lv_status = ev_Status e,
      lv_aggregated = ev_Aggregated e\<rparr>"

text \<open>The \<open>WHERE\<close> and the \<open>SET\<close> of the conflict clause; x is the excluded row.\<close>

definition rereads :: "local_event \<Rightarrow> local_event \<Rightarrow> bool" where
  "rereads x u \<longleftrightarrow>
     (lv_account_ref_hash x = lv_account_ref_hash u \<and>
       (lv_output x > lv_output u \<or> (lv_request_id u = [] \<and> lv_request_id x \<noteq> []) \<or>
        (lv_effort u = [] \<and> lv_effort x \<noteq> []))) \<or>
     (lv_account_ref_hash x \<noteq> lv_account_ref_hash u \<and>
       lv_session_id x = lv_session_id u \<and> lv_originator x = lv_originator u)"

definition reread :: "local_event \<Rightarrow> local_event \<Rightarrow> local_event" where
  "reread x u =
     u\<lparr>lv_account_ref_hash := lv_account_ref_hash x, lv_output := max (lv_output u) (lv_output x),
       lv_reasoning_output := max (lv_reasoning_output u) (lv_reasoning_output x),
       lv_request_id := (if lv_request_id u = [] then lv_request_id x else lv_request_id u),
       lv_parent_request_id := (if lv_parent_request_id u = [] then lv_parent_request_id x else lv_parent_request_id u),
       lv_effort := (if lv_effort u = [] then lv_effort x else lv_effort u),
       lv_status := (if lv_status u = [] then lv_status x else lv_status u),
       lv_aggregated := (lv_aggregated u \<or> lv_aggregated x)\<rparr>"

text \<open>The rows after the upsert of x, and whether it inserted or updated one.\<close>

definition upsert_event :: "local_event \<Rightarrow> local_event list \<Rightarrow> local_event list \<times> bool" where
  "upsert_event x rows =
     (if list_ex (\<lambda>u. lv_dedupe_key u = lv_dedupe_key x) rows
      then let applies = (\<lambda>u. lv_dedupe_key u = lv_dedupe_key x \<and> rereads x u) in
        (update_where applies (reread x) rows, list_ex applies rows)
      else (rows @ [x], True))"

text \<open>A request moved to another account says which account it was reported under before.\<close>

definition event_payload :: "event \<Rightarrow> local_event list \<Rightarrow> sync_event" where
  "event_payload e rows =
     (let (previousRef, previousSession, previousOriginator) =
            (case find (\<lambda>u. lv_dedupe_key u = ev_DedupeKey e) rows of
               None \<Rightarrow> ([], [], []) | Some u \<Rightarrow> (lv_account_ref_hash u, lv_session_id u, lv_originator u))
      in if previousRef \<noteq> [] \<and> previousRef \<noteq> ev_AccountRefHash e \<and> previousSession = ev_SessionID e \<and>
            previousOriginator = ev_Originator e
         then (FromEvent e)\<lparr>se_PreviousAccountRefHash := previousRef\<rparr> else FromEvent e)"

definition ingest_local_event :: "event \<Rightarrow> local_db \<times> int \<Rightarrow> local_db \<times> int" where
  "ingest_local_event e acc =
     (let (s, changed) = acc; (rows, affected) = upsert_event (event_row e) (ld_events s)
      in if \<not> affected then (s\<lparr>ld_events := rows\<rparr>, changed)
         else (enqueue KindEvent (PayloadEvent (event_payload e (ld_events s))) (s\<lparr>ld_events := rows\<rparr>), changed + 1))"

definition insertSnapshot :: "snapshot \<Rightarrow> local_db \<Rightarrow> local_db \<times> int" where
  "insertSnapshot sn s =
     (if list_ex (\<lambda>r. lp_provider r = sn_Provider sn \<and> lp_account_ref_hash r = sn_AccountRefHash sn \<and>
          lp_source r = sn_Source sn \<and> lp_observed_at r = unix_milli (sn_ObservedAt sn)) (ld_snapshots s) then (s, 0)
      else let dto = FromSnapshot sn;
               s = s\<lparr>ld_snapshots := ld_snapshots s @ [\<lparr>lp_provider = sn_Provider sn, lp_account_ref_hash = sn_AccountRefHash sn,
                   lp_source = sn_Source sn, lp_observed_at = unix_milli (sn_ObservedAt sn), lp_buckets = ss_Buckets dto,
                   lp_plan_type = sn_PlanType sn, lp_account_hint = sn_AccountHint sn\<rparr>]\<rparr>
           in (enqueue KindSnapshot (PayloadSnapshot dto) s, 1))"

definition insertLimitEvent :: "limit_event \<Rightarrow> local_db \<Rightarrow> local_db \<times> int" where
  "insertLimitEvent l s =
     (if list_ex (\<lambda>r. lm_dedupe_key r = le_DedupeKey l) (ld_limits s) then (s, 0)
      else let s = s\<lparr>ld_limits := ld_limits s @ [\<lparr>lm_dedupe_key = le_DedupeKey l, lm_provider = le_Provider l,
                   lm_account_ref_hash = le_AccountRefHash l, lm_occurred_at = unix_milli (le_OccurredAt l),
                   lm_observed_at = unix_milli (le_ObservedAt l), lm_session_id = le_SessionID l,
                   lm_request_id = le_RequestID l, lm_kind = le_Kind l, lm_source = le_Source l,
                   lm_evidence = le_Evidence l, lm_http_status = le_HTTPStatus l\<rparr>]\<rparr>
           in (enqueue KindLimitEvent (PayloadLimit (FromLimitEvent l)) s, 1))"

definition counted :: "('a \<Rightarrow> local_db \<Rightarrow> local_db \<times> int) \<Rightarrow> 'a \<Rightarrow> local_db \<times> int \<Rightarrow> local_db \<times> int" where
  "counted f x acc = (let (s, n) = f x (fst acc) in (s, snd acc + n))"

definition IngestFile ::
  "string \<Rightarrow> file_state \<Rightarrow> event list \<Rightarrow> snapshot list \<Rightarrow> limit_event list \<Rightarrow> local_db \<Rightarrow> local_db \<times> int" where
  "IngestFile path st events snapshots limits s =
     (let acc = fold ingest_local_event events (s, 0);
          acc = fold (counted insertSnapshot) snapshots acc;
          (s, changed) = fold (counted insertLimitEvent) limits acc
      in (s\<lparr>ld_files := put path st (ld_files s)\<rparr>, changed))"

definition AddSnapshot :: "snapshot \<Rightarrow> local_db \<Rightarrow> local_db" where
  "AddSnapshot sn s = fst (insertSnapshot sn s)"

definition CorrectSnapshot :: "snapshot \<Rightarrow> local_db \<Rightarrow> local_db \<times> bool" where
  "CorrectSnapshot sn s =
     (let at' = unix_milli (sn_ObservedAt sn);
          previousRefs = map lp_account_ref_hash (filter (\<lambda>r. lp_provider r = sn_Provider sn \<and> lp_source r = sn_Source sn \<and>
            lp_observed_at r = at' \<and> lp_buckets r = ss_Buckets (FromSnapshot sn)) (ld_snapshots s))
      in case previousRefs of
           [previousRef] \<Rightarrow>
             if previousRef = sn_AccountRefHash sn then (s, False)
             else let stale = (\<lambda>r. lp_provider r = sn_Provider sn \<and> lp_account_ref_hash r = previousRef \<and>
                        lp_source r = sn_Source sn \<and> lp_observed_at r = at')
                  in if \<not> list_ex stale (ld_snapshots s) then (s, False)
                     else let s = s\<lparr>ld_snapshots := filter (\<lambda>r. \<not> stale r) (ld_snapshots s)\<rparr>;
                              s = enqueue KindSnapshot (PayloadSnapshot ((FromSnapshot sn)\<lparr>ss_PreviousAccountRefHash := previousRef\<rparr>)) s
                          in (fst (insertSnapshot sn s), True)
         | _ \<Rightarrow> (s, False))"

definition EventCount :: "local_db \<Rightarrow> int" where "EventCount s = int (length (ld_events s))"

section \<open>Reading the ledger\<close>

definition SessionOriginatorAt :: "string \<Rightarrow> time \<Rightarrow> local_db \<Rightarrow> string" where
  "SessionOriginatorAt sessionID at' s =
     (case sort_by (\<lambda>a b. lv_occurred_at b < lv_occurred_at a) (filter (\<lambda>e. lv_provider e = ProviderAnthropic \<and>
        lv_session_id e = sessionID \<and> lv_occurred_at e \<le> unix_milli at') (ld_events s)) of
        [] \<Rightarrow> [] | e # _ \<Rightarrow> lv_originator e)"

definition LastUse :: "string \<Rightarrow> string list \<Rightarrow> local_db \<Rightarrow> string \<times> time" where
  "LastUse provider originators s =
     (if originators = [] then ([], zero_time)
      else case sort_by (\<lambda>a b. lv_occurred_at b < lv_occurred_at a) (filter (\<lambda>e. lv_provider e = provider \<and>
        \<not> lv_third_party e \<and> lv_originator e \<in> set originators) (ld_events s)) of
        [] \<Rightarrow> ([], zero_time) | e # _ \<Rightarrow> (lv_account_ref_hash e, of_unix_milli (lv_occurred_at e)))"

definition snapshot_dto :: "local_snapshot \<Rightarrow> sync_snapshot" where
  "snapshot_dto r = \<lparr>ss_AccountRefHash = lp_account_ref_hash r, ss_PreviousAccountRefHash = [],
     ss_AccountHint = lp_account_hint r, ss_PlanType = lp_plan_type r, ss_Provider = lp_provider r,
     ss_Source = lp_source r, ss_ObservedAt = of_unix_milli (lp_observed_at r), ss_Buckets = lp_buckets r\<rparr>"

definition LatestSnapshots :: "time \<Rightarrow> local_db \<Rightarrow> snapshot list" where
  "LatestSnapshots since s =
     map (Snapshot_ToDomain \<circ> snapshot_dto) (sort_by (\<lambda>a b. lp_observed_at b < lp_observed_at a)
       (filter (\<lambda>r. lp_observed_at r \<ge> unix_milli since) (ld_snapshots s)))"

section \<open>The outbox\<close>

definition PendingOutbox :: "nat \<Rightarrow> local_db \<Rightarrow> outbox_item list" where
  "PendingOutbox limit s = take limit (sort_by (\<lambda>a b. ox_ID a < ox_ID b) (ld_outbox s))"

definition OutboxLen :: "local_db \<Rightarrow> int" where "OutboxLen s = int (length (ld_outbox s))"

definition DeleteOutboxThrough :: "int \<Rightarrow> local_db \<Rightarrow> local_db" where
  "DeleteOutboxThrough i s = s\<lparr>ld_outbox := filter (\<lambda>r. \<not> ox_ID r \<le> i) (ld_outbox s)\<rparr>"

definition requeueObservations :: "local_db \<Rightarrow> local_db" where
  "requeueObservations s =
     fold (\<lambda>r. enqueue KindObservation (PayloadObservation (FromObservation (observation_of r))))
       (sort_by (\<lambda>a b. lo_observed_at a < lo_observed_at b) (filter (\<lambda>r. lo_ref_hash r \<noteq> []) (ld_observations s))) s"

definition requeueSnapshots :: "local_db \<Rightarrow> local_db" where
  "requeueSnapshots s =
     fold (\<lambda>r. enqueue KindSnapshot (PayloadSnapshot (snapshot_dto r)))
       (sort_by (\<lambda>a b. lp_observed_at a < lp_observed_at b) (ld_snapshots s)) s"

definition ResetLedger :: "local_db \<Rightarrow> local_db" where
  "ResetLedger s =
     requeueSnapshots (requeueObservations (s\<lparr>ld_events := [], ld_files := [], ld_outbox := [], ld_limits := []\<rparr>))"

section \<open>Sign-ins\<close>

definition AddClaudeLogin :: "claude_login \<Rightarrow> local_db \<Rightarrow> local_db" where
  "AddClaudeLogin l s =
     s\<lparr>ld_logins := (if list_ex (\<lambda>r. cl_RefHash r = cl_RefHash l) (ld_logins s)
        then update_where (\<lambda>r. cl_RefHash r = cl_RefHash l) (\<lambda>r. r\<lparr>cl_Hint := cl_Hint l, cl_PlanType := cl_PlanType l\<rparr>) (ld_logins s)
        else ld_logins s @ [l])\<rparr>"

definition ClaudeLogins :: "local_db \<Rightarrow> claude_login list" where
  "ClaudeLogins s = sort_by (\<lambda>a b. cl_Hint a < cl_Hint b) (ld_logins s)"

definition RemoveClaudeLogin :: "string \<Rightarrow> local_db \<Rightarrow> local_db" where
  "RemoveClaudeLogin refHash s = s\<lparr>ld_logins := filter (\<lambda>r. cl_RefHash r \<noteq> refHash) (ld_logins s)\<rparr>"

section \<open>The invariant\<close>

text \<open>
  The keys of every table are keys, the outbox is in the order of its IDs, all of them given out
  already, and what a row of the outbox holds is of the kind the row says.
\<close>

fun payload_kind :: "payload \<Rightarrow> string" where
  "payload_kind (PayloadObservation _) = KindObservation"
| "payload_kind (PayloadEvent _) = KindEvent"
| "payload_kind (PayloadSnapshot _) = KindSnapshot"
| "payload_kind (PayloadLimit _) = KindLimitEvent"

definition outbox_ok :: "local_db \<Rightarrow> bool" where
  "outbox_ok s \<longleftrightarrow> sorted_wrt (<) (map ox_ID (ld_outbox s)) \<and>
     (\<forall>i \<in> set (ld_outbox s). ox_ID i \<le> ld_sequence s \<and> ox_Kind i = payload_kind (ox_Payload i))"

definition ledger_keys :: "local_db \<Rightarrow> bool" where
  "ledger_keys s \<longleftrightarrow> wf_map (ld_files s) \<and> distinct (map lv_dedupe_key (ld_events s)) \<and>
     distinct (map lm_dedupe_key (ld_limits s)) \<and>
     distinct (map (\<lambda>r. (lp_provider r, lp_account_ref_hash r, lp_source r, lp_observed_at r)) (ld_snapshots s)) \<and>
     distinct (map (\<lambda>r. (lo_provider r, lo_source r, lo_observed_at r)) (ld_observations s)) \<and>
     distinct (map cl_RefHash (ld_logins s))"

definition local_ok :: "local_db \<Rightarrow> bool" where
  "local_ok s \<longleftrightarrow> outbox_ok s \<and> ledger_keys s"

inductive client_step :: "local_db \<Rightarrow> local_db \<Rightarrow> bool" where
  mark_reviewed: "client_step s (MarkAttributionReviewed s)"
| add_observation: "client_step s (AddObservation o' s)"
| ingest_file: "client_step s (fst (IngestFile path st es ss ls s))"
| add_snapshot: "client_step s (AddSnapshot sn s)"
| correct_snapshot: "client_step s (fst (CorrectSnapshot sn s))"
| delete_outbox: "client_step s (DeleteOutboxThrough i s)"
| reset_ledger: "client_step s (ResetLedger s)"
| add_login: "client_step s (AddClaudeLogin l s)"
| remove_login: "client_step s (RemoveClaudeLogin h s)"

lemma outbox_ok_enqueue:
  "outbox_ok s \<Longrightarrow> kind = payload_kind p \<Longrightarrow> outbox_ok (enqueue kind p s)"
  by (fastforce simp: outbox_ok_def enqueue_def sorted_wrt_append)

lemma enqueue_tables [simp]:
  "ld_files (enqueue k p s) = ld_files s" "ld_observations (enqueue k p s) = ld_observations s"
  "ld_events (enqueue k p s) = ld_events s" "ld_snapshots (enqueue k p s) = ld_snapshots s"
  "ld_limits (enqueue k p s) = ld_limits s" "ld_logins (enqueue k p s) = ld_logins s"
  "ld_reviewed (enqueue k p s) = ld_reviewed s"
  by (simp_all add: enqueue_def)

lemma ledger_keys_enqueue [simp]: "ledger_keys (enqueue k p s) = ledger_keys s"
  by (simp add: ledger_keys_def)

lemma outbox_ok_cong:
  "ld_outbox t = ld_outbox s \<Longrightarrow> ld_sequence t = ld_sequence s \<Longrightarrow> outbox_ok t = outbox_ok s"
  by (simp add: outbox_ok_def)

lemma local_ok_enqueue [intro]: "local_ok s \<Longrightarrow> kind = payload_kind p \<Longrightarrow> local_ok (enqueue kind p s)"
  by (simp add: local_ok_def outbox_ok_enqueue)

lemma local_ok_ledger:
  assumes "local_ok s" "ld_outbox t = ld_outbox s" "ld_sequence t = ld_sequence s" "ledger_keys t"
  shows "local_ok t"
  using assms outbox_ok_cong[of t s] by (simp add: local_ok_def)

lemma upsert_event_keys:
  "distinct (map lv_dedupe_key rows) \<Longrightarrow> distinct (map lv_dedupe_key (fst (upsert_event x rows)))"
proof -
  have keys: "map lv_dedupe_key (update_where p (reread x) us) = map lv_dedupe_key us" for p us
    by (rule map_update_where) (simp add: reread_def)
  show "distinct (map lv_dedupe_key rows) \<Longrightarrow> distinct (map lv_dedupe_key (fst (upsert_event x rows)))"
    by (auto simp: upsert_event_def keys Let_def list_ex_iff)
qed

lemma ingest_local_event_ok:
  assumes "local_ok (fst acc)" shows "local_ok (fst (ingest_local_event e acc))"
proof -
  define rows where "rows = fst (upsert_event (event_row e) (ld_events (fst acc)))"
  have "distinct (map lv_dedupe_key rows)"
    using assms upsert_event_keys by (simp add: rows_def local_ok_def ledger_keys_def)
  then have "ledger_keys ((fst acc)\<lparr>ld_events := rows\<rparr>)" using assms by (simp add: local_ok_def ledger_keys_def)
  then have "local_ok ((fst acc)\<lparr>ld_events := rows\<rparr>)" by (intro local_ok_ledger[OF assms]) simp_all
  then show ?thesis
    by (auto simp: ingest_local_event_def case_prod_beta' Let_def simp flip: rows_def)
qed

lemma ledger_keys_add:
  "ledger_keys s \<Longrightarrow> (lp_provider r, lp_account_ref_hash r, lp_source r, lp_observed_at r) \<notin>
     (\<lambda>r. (lp_provider r, lp_account_ref_hash r, lp_source r, lp_observed_at r)) ` set (ld_snapshots s) \<Longrightarrow>
   ledger_keys (s\<lparr>ld_snapshots := ld_snapshots s @ [r]\<rparr>)"
  "ledger_keys s \<Longrightarrow> lm_dedupe_key l \<notin> lm_dedupe_key ` set (ld_limits s) \<Longrightarrow>
   ledger_keys (s\<lparr>ld_limits := ld_limits s @ [l]\<rparr>)"
  "ledger_keys s \<Longrightarrow> (lo_provider o', lo_source o', lo_observed_at o') \<notin>
     (\<lambda>r. (lo_provider r, lo_source r, lo_observed_at r)) ` set (ld_observations s) \<Longrightarrow>
   ledger_keys (s\<lparr>ld_observations := ld_observations s @ [o']\<rparr>)"
  "ledger_keys s \<Longrightarrow> ledger_keys (s\<lparr>ld_snapshots := filter p (ld_snapshots s)\<rparr>)"
  by (auto simp: ledger_keys_def distinct_map_filter)

lemma insertSnapshot_ok: assumes "local_ok s" shows "local_ok (fst (insertSnapshot sn s))"
proof -
  have "ledger_keys s" using assms by (simp add: local_ok_def)
  then show ?thesis unfolding insertSnapshot_def Let_def list_ex_iff
    by (auto intro!: local_ok_enqueue local_ok_ledger[OF assms] ledger_keys_add(1) simp: assms)
qed

lemma insertLimitEvent_ok: assumes "local_ok s" shows "local_ok (fst (insertLimitEvent l s))"
proof -
  have "ledger_keys s" using assms by (simp add: local_ok_def)
  then show ?thesis unfolding insertLimitEvent_def Let_def list_ex_iff
    by (auto intro!: local_ok_enqueue local_ok_ledger[OF assms] ledger_keys_add(2) simp: assms)
qed

lemma AddObservation_ok: assumes "local_ok s" shows "local_ok (AddObservation o' s)"
proof -
  have "ledger_keys s" using assms by (simp add: local_ok_def)
  then show ?thesis unfolding AddObservation_def Let_def list_ex_iff
    by (auto intro!: local_ok_enqueue local_ok_ledger[OF assms] ledger_keys_add(3) simp: assms)
qed

lemma CorrectSnapshot_ok: assumes "local_ok s" shows "local_ok (fst (CorrectSnapshot sn s))"
proof -
  have "local_ok (s\<lparr>ld_snapshots := filter p (ld_snapshots s)\<rparr>)" for p
    using ledger_keys_add(4) by (intro local_ok_ledger[OF assms]) (use assms in \<open>auto simp: local_ok_def\<close>)
  then show ?thesis unfolding CorrectSnapshot_def Let_def
    by (auto intro!: insertSnapshot_ok local_ok_enqueue simp: assms split: list.split)
qed

lemma fold_counted_ok:
  assumes "\<And>x s. local_ok s \<Longrightarrow> local_ok (fst (f x s))" "local_ok (fst acc)"
  shows "local_ok (fst (fold (counted f) xs acc))"
  using assms(2) by (induction xs arbitrary: acc) (simp_all add: counted_def case_prod_beta' Let_def assms(1))

lemma IngestFile_ok: assumes "local_ok s" shows "local_ok (fst (IngestFile path st es ss ls s))"
proof -
  have "local_ok (fst (fold ingest_local_event es (s, 0)))"
    using assms by (induction es rule: rev_induct) (simp_all add: ingest_local_event_ok)
  then have ok: "local_ok (fst (fold (counted insertLimitEvent) ls (fold (counted insertSnapshot) ss (fold ingest_local_event es (s, 0)))))"
    by (intro fold_counted_ok insertSnapshot_ok insertLimitEvent_ok) simp_all
  then show ?thesis unfolding IngestFile_def Let_def case_prod_beta' fst_conv
    by (rule local_ok_ledger) (use ok in \<open>auto simp: local_ok_def ledger_keys_def\<close>)
qed

lemma fold_enqueue_ok:
  assumes "local_ok s" "\<And>r. payload_kind (f r) = k"
  shows "local_ok (fold (\<lambda>r. enqueue k (f r)) rs s)"
  using assms(1) by (induction rs arbitrary: s) (simp_all add: local_ok_enqueue assms(2))

lemma requeue_ok:
  assumes "local_ok s"
  shows "local_ok (requeueObservations s)" "local_ok (requeueSnapshots s)"
  unfolding requeueObservations_def requeueSnapshots_def using assms by (rule fold_enqueue_ok, simp)+

lemma ResetLedger_ok: assumes "local_ok s" shows "local_ok (ResetLedger s)"
  using assms unfolding ResetLedger_def
  by (intro requeue_ok) (simp add: local_ok_def outbox_ok_def ledger_keys_def)

lemma DeleteOutboxThrough_ok: assumes "local_ok s" shows "local_ok (DeleteOutboxThrough i s)"
  using assms by (auto simp: DeleteOutboxThrough_def local_ok_def outbox_ok_def ledger_keys_def sorted_wrt_map sorted_wrt_filter)

lemma logins_ok:
  assumes "local_ok s"
  shows "local_ok (AddClaudeLogin l s)" "local_ok (RemoveClaudeLogin h s)" "local_ok (MarkAttributionReviewed s)"
proof -
  have keys: "map cl_RefHash (update_where p (\<lambda>r. r\<lparr>cl_Hint := a, cl_PlanType := b\<rparr>) rs) = map cl_RefHash rs" for p a b rs
    by (rule map_update_where) simp
  show "local_ok (AddClaudeLogin l s)" "local_ok (RemoveClaudeLogin h s)" "local_ok (MarkAttributionReviewed s)"
    using assms by (auto simp: AddClaudeLogin_def RemoveClaudeLogin_def MarkAttributionReviewed_def local_ok_def outbox_ok_def
        ledger_keys_def keys distinct_map_filter list_ex_iff)
qed

lemma client_step_ok: assumes "local_ok s" "client_step s t" shows "local_ok t"
  using assms(2,1) by (cases rule: client_step.cases)
    (auto intro: AddObservation_ok IngestFile_ok insertSnapshot_ok CorrectSnapshot_ok DeleteOutboxThrough_ok ResetLedger_ok logins_ok
      simp: AddSnapshot_def)

lemma local_ok_empty: "local_ok empty_local"
  by (simp add: local_ok_def outbox_ok_def ledger_keys_def empty_local_def)

interpretation local_db: kept client_step empty_local local_ok
  by unfold_locales (auto intro: local_ok_empty client_step_ok)

section \<open>Reading a file again\<close>

text \<open>A request is settled when its row is there and reading it again would not change it.\<close>

definition settled_event :: "local_event \<Rightarrow> local_event list \<Rightarrow> bool" where
  "settled_event x rows \<longleftrightarrow> list_ex (\<lambda>u. lv_dedupe_key u = lv_dedupe_key x) rows \<and>
     \<not> list_ex (\<lambda>u. lv_dedupe_key u = lv_dedupe_key x \<and> rereads x u) rows"

lemma reread_settles: "\<not> rereads x (reread x u)"
  by (auto simp: rereads_def reread_def)

lemma rereads_refl: "\<not> rereads x x"
  by (simp add: rereads_def)

lemma upsert_settles: "settled_event x (fst (upsert_event x rows))"
proof (cases "list_ex (\<lambda>u. lv_dedupe_key u = lv_dedupe_key x) rows")
  case True
  have key: "list_ex (\<lambda>u. lv_dedupe_key u = lv_dedupe_key x) (update_where p (reread x) rows)" for p
    using True by (subst list_ex_update_where) (simp_all add: reread_def)
  have "\<not> list_ex (\<lambda>u. lv_dedupe_key u = lv_dedupe_key x \<and> rereads x u)
      (update_where (\<lambda>u. lv_dedupe_key u = lv_dedupe_key x \<and> rereads x u) (reread x) rows)"
    by (auto simp: list_ex_iff set_update_where reread_settles)
  with key show ?thesis using True by (simp add: upsert_event_def settled_event_def Let_def)
next
  case False
  then show ?thesis by (auto simp: upsert_event_def settled_event_def list_ex_iff rereads_refl)
qed

lemma upsert_settled: "settled_event x rows \<Longrightarrow> upsert_event x rows = (rows, False)"
  by (auto simp: upsert_event_def settled_event_def Let_def list_ex_iff intro: update_where_id)

lemma upsert_other:
  assumes "settled_event y rows" "lv_dedupe_key x \<noteq> lv_dedupe_key y"
  shows "settled_event y (fst (upsert_event x rows))"
proof -
  have key: "lv_dedupe_key (reread x u) = lv_dedupe_key u" for u by (simp add: reread_def)
  show ?thesis using assms
    by (auto simp: upsert_event_def settled_event_def Let_def list_ex_iff set_update_where key)
qed

lemma ingest_events_settled:
  assumes "distinct (map ev_DedupeKey es)"
  shows "\<forall>e \<in> set es. settled_event (event_row e) (ld_events (fst (fold ingest_local_event es acc)))"
  using assms
proof (induction es rule: rev_induct)
  case Nil
  then show ?case by simp
next
  case (snoc x es)
  let ?acc = "fold ingest_local_event es acc"
  have rows: "ld_events (fst (ingest_local_event x ?acc)) = fst (upsert_event (event_row x) (ld_events (fst ?acc)))"
    by (simp add: ingest_local_event_def case_prod_beta' Let_def)
  have "settled_event (event_row e) (ld_events (fst (ingest_local_event x ?acc)))" if "e \<in> set es" for e
    unfolding rows using snoc that by (intro upsert_other) (auto simp: event_row_def image_iff)
  then show ?case using upsert_settles by (auto simp: rows)
qed

lemma ingest_events_again:
  assumes "\<forall>e \<in> set es. settled_event (event_row e) (ld_events s)"
  shows "fold ingest_local_event es (s, n) = (s, n)"
  using assms by (induction es) (simp_all add: ingest_local_event_def upsert_settled)

lemma counted_tables:
  "ld_events (fst (fold (counted insertSnapshot) ss acc)) = ld_events (fst acc)"
  "ld_events (fst (fold (counted insertLimitEvent) ls acc)) = ld_events (fst acc)"
  "ld_snapshots (fst (fold (counted insertLimitEvent) ls acc)) = ld_snapshots (fst acc)"
proof -
  show "ld_events (fst (fold (counted insertSnapshot) ss acc)) = ld_events (fst acc)"
    by (induction ss arbitrary: acc) (simp_all add: counted_def insertSnapshot_def case_prod_beta' Let_def)
  show "ld_events (fst (fold (counted insertLimitEvent) ls acc)) = ld_events (fst acc)"
    "ld_snapshots (fst (fold (counted insertLimitEvent) ls acc)) = ld_snapshots (fst acc)"
    by (induction ls arbitrary: acc) (simp_all add: counted_def insertLimitEvent_def case_prod_beta' Let_def)
qed

text \<open>A record inserted unless its key is there stays, and inserting it again does nothing.\<close>

lemma fold_counted_again:
  assumes keep: "\<And>x y s. f y s = (s, 0) \<Longrightarrow> f y (fst (f x s)) = (fst (f x s), 0)"
    and self: "\<And>x s. f x (fst (f x s)) = (fst (f x s), 0)"
  shows "\<forall>x \<in> set xs. f x (fst (fold (counted f) xs acc)) = (fst (fold (counted f) xs acc), 0)"
proof (induction xs rule: rev_induct)
  case Nil
  then show ?case by simp
next
  case (snoc y xs)
  let ?s = "fst (fold (counted f) xs acc)"
  have s: "fst (fold (counted f) (xs @ [y]) acc) = fst (f y ?s)" by (simp add: counted_def case_prod_beta' Let_def)
  show ?case unfolding s using snoc keep self by auto
qed

lemma fold_counted_nothing:
  "\<forall>x \<in> set xs. f x s = (s, 0) \<Longrightarrow> fold (counted f) xs (s, n) = (s, n)"
  by (induction xs) (simp_all add: counted_def)

lemma insertSnapshot_again:
  "insertSnapshot y s = (s, 0) \<Longrightarrow> insertSnapshot y (fst (insertSnapshot x s)) = (fst (insertSnapshot x s), 0)"
  "insertSnapshot x (fst (insertSnapshot x s)) = (fst (insertSnapshot x s), 0)"
  by (auto simp: insertSnapshot_def Let_def split: if_splits)

lemma insertLimitEvent_again:
  "insertLimitEvent y s = (s, 0) \<Longrightarrow> insertLimitEvent y (fst (insertLimitEvent x s)) = (fst (insertLimitEvent x s), 0)"
  "insertLimitEvent x (fst (insertLimitEvent x s)) = (fst (insertLimitEvent x s), 0)"
  by (auto simp: insertLimitEvent_def Let_def split: if_splits)

text \<open>Whether a record is there depends on its own table alone.\<close>

lemma insertSnapshot_nothing: "insertSnapshot x s = (s, 0) \<longleftrightarrow>
    list_ex (\<lambda>r. lp_provider r = sn_Provider x \<and> lp_account_ref_hash r = sn_AccountRefHash x \<and>
      lp_source r = sn_Source x \<and> lp_observed_at r = unix_milli (sn_ObservedAt x)) (ld_snapshots s)"
  by (simp add: insertSnapshot_def Let_def)

lemma insertLimitEvent_nothing: "insertLimitEvent x s = (s, 0) \<longleftrightarrow>
    list_ex (\<lambda>r. lm_dedupe_key r = le_DedupeKey x) (ld_limits s)"
  by (simp add: insertLimitEvent_def Let_def)

text \<open>What is queued is what changed.\<close>

definition queued :: "local_db \<Rightarrow> local_db \<times> int \<Rightarrow> bool" where
  "queued s acc \<longleftrightarrow> (\<exists>new. ld_outbox (fst acc) = ld_outbox s @ new \<and> int (length new) = snd acc)"

lemma queued_start: "queued s (s, 0)"
  by (simp add: queued_def)

lemma ingest_local_event_queued: "queued s acc \<Longrightarrow> queued s (ingest_local_event e acc)"
  by (auto simp: queued_def ingest_local_event_def case_prod_beta' Let_def enqueue_def)

lemma counted_queued:
  assumes "\<And>s. queued s (f x s)" "queued s acc" shows "queued s (counted f x acc)"
  using assms(1)[of "fst acc"] assms(2) by (auto simp: queued_def counted_def case_prod_beta' Let_def)

lemma insert_queued: "queued s (insertSnapshot sn s)" "queued s (insertLimitEvent l s)"
  by (auto simp: queued_def insertSnapshot_def insertLimitEvent_def Let_def enqueue_def)

lemma fold_queued:
  assumes "\<And>x acc. queued s acc \<Longrightarrow> queued s (f x acc)" "queued s acc" shows "queued s (fold f xs acc)"
  using assms(2) by (induction xs arbitrary: acc) (simp_all add: assms(1))

lemma IngestFile_queued: "queued s (IngestFile path st es ss ls s)"
proof -
  have "queued s (fold (counted insertLimitEvent) ls (fold (counted insertSnapshot) ss (fold ingest_local_event es (s, 0))))"
    by (intro fold_queued counted_queued insert_queued ingest_local_event_queued queued_start)
  then show ?thesis by (simp add: IngestFile_def Let_def case_prod_beta' queued_def)
qed

lemma put_put_same: "put k v (put k v m) = put k v m"
  by (induction m) auto

text \<open>
  Reading a log again is free: a second pass over the same parsed file changes nothing in
  the local database and queues nothing, and a first pass queues exactly one outbox row for
  every record it reports as changed, behind the rows that were queued before.
\<close>

theorem rescan_is_free:
  assumes "distinct (map ev_DedupeKey es)" "IngestFile path st es ss ls s = (t, n)"
  shows "IngestFile path st es ss ls t = (t, 0) \<and>
    (\<exists>new. ld_outbox t = ld_outbox s @ new \<and> int (length new) = n)"
proof -
  define a1 where "a1 = fold ingest_local_event es (s, 0)"
  define a2 where "a2 = fold (counted insertSnapshot) ss a1"
  define a3 where "a3 = fold (counted insertLimitEvent) ls a2"
  have t: "t = (fst a3)\<lparr>ld_files := put path st (ld_files (fst a3))\<rparr>"
    using assms(2) by (simp add: IngestFile_def Let_def case_prod_beta' a1_def a2_def a3_def)
  have "\<forall>e \<in> set es. settled_event (event_row e) (ld_events t)"
    using ingest_events_settled[OF assms(1), of "(s, 0)"] by (simp add: t a3_def a2_def counted_tables a1_def)
  then have e: "fold ingest_local_event es (t, 0) = (t, 0)" by (rule ingest_events_again)
  have "\<forall>x \<in> set ss. insertSnapshot x (fst a2) = (fst a2, 0)"
    unfolding a2_def by (rule fold_counted_again) (auto simp: insertSnapshot_again)
  then have q: "fold (counted insertSnapshot) ss (t, 0) = (t, 0)"
    by (intro fold_counted_nothing) (simp add: insertSnapshot_nothing t a3_def counted_tables)
  have "\<forall>x \<in> set ls. insertLimitEvent x (fst a3) = (fst a3, 0)"
    unfolding a3_def by (rule fold_counted_again) (auto simp: insertLimitEvent_again)
  then have l: "fold (counted insertLimitEvent) ls (t, 0) = (t, 0)"
    by (intro fold_counted_nothing) (simp add: insertLimitEvent_nothing t)
  have "IngestFile path st es ss ls t = (t, 0)"
    by (simp add: IngestFile_def Let_def e q l) (simp add: t put_put_same)
  then show ?thesis using IngestFile_queued[of s path st es ss ls] assms(2) by (simp add: queued_def)
qed

definition demo_log :: "event list" where
  "demo_log = [zero_event\<lparr>ev_DedupeKey := ''k1'', ev_AccountRefHash := ''r1'', ev_Provider := ProviderAnthropic,
     ev_Tokens := zero_tokens\<lparr>tk_Output := 7\<rparr>\<rparr>, zero_event\<lparr>ev_DedupeKey := ''k2'', ev_AccountRefHash := ''r1'',
     ev_Provider := ProviderAnthropic\<rparr>]"

lemma rescan_is_free_witness:
  "\<exists>t. IngestFile ''a.jsonl'' \<lparr>fs_Size = 9, fs_ModTime = 5\<rparr> demo_log [] [] empty_local = (t, 2) \<and>
     IngestFile ''a.jsonl'' \<lparr>fs_Size = 9, fs_ModTime = 5\<rparr> demo_log [] [] t = (t, 0)"
proof -
  let ?f = "\<lparr>fs_Size = 9, fs_ModTime = 5\<rparr>"
  have "snd (IngestFile ''a.jsonl'' ?f demo_log [] [] empty_local) = 2" "distinct (map ev_DedupeKey demo_log)"
    by code_simp+
  then obtain t where "IngestFile ''a.jsonl'' ?f demo_log [] [] empty_local = (t, 2)" "distinct (map ev_DedupeKey demo_log)"
    by (metis prod.collapse)
  with rescan_is_free[OF this(2,1)] show ?thesis by blast
qed

end
