(* ===== verification/LogFiles.thy ===== *)
theory LogFiles
  imports Ledger
begin

text \<open>
  Reading an append-only log as the provider parsers do: \<open>bufio.Reader.ReadBytes('\n')\<close> until
  \<open>io.EOF\<close>, so that a trailing line without its newline is left for the next read. Decimal
  text is that of \<open>%d\<close>.
\<close>

section \<open>Characters\<close>

definition is_lower :: "char \<Rightarrow> bool" where "is_lower c \<longleftrightarrow> CHR ''a'' \<le> c \<and> c \<le> CHR ''z''"
definition is_digit :: "char \<Rightarrow> bool" where "is_digit c \<longleftrightarrow> CHR ''0'' \<le> c \<and> c \<le> CHR ''9''"
definition is_hex :: "char \<Rightarrow> bool" where "is_hex c \<longleftrightarrow> is_digit c \<or> (CHR ''a'' \<le> c \<and> c \<le> CHR ''f'')"
definition newline :: char where "newline = CHR 0x0A"

section \<open>Complete lines\<close>

text \<open>The lines of a text from a reader that has read \<open>cur\<close> of the line it is in.\<close>

primrec lines_from :: "string \<Rightarrow> string \<Rightarrow> string list" where
  "lines_from cur [] = []"
| "lines_from cur (c # s) =
     (if c = newline then (cur @ [c]) # lines_from [] s else lines_from (cur @ [c]) s)"

definition complete_lines :: "string \<Rightarrow> string list" where "complete_lines = lines_from []"

lemma lines_from_partial: "newline \<notin> set s \<Longrightarrow> lines_from cur s = []"
  by (induction s arbitrary: cur) auto

text \<open>What is appended to a log only adds lines.\<close>

lemma lines_from_append: "\<exists>more. lines_from cur (s @ t) = lines_from cur s @ more"
proof (induction s arbitrary: cur)
  case Nil
  show ?case by simp
next
  case (Cons c s)
  then show ?case by (cases "c = newline") auto
qed

lemma complete_lines_append: "\<exists>more. complete_lines (s @ t) = complete_lines s @ more"
  unfolding complete_lines_def by (rule lines_from_append)

lemma lines_from_line: "newline \<notin> set l \<Longrightarrow> lines_from cur (l @ newline # s) = (cur @ l @ [newline]) # lines_from [] s"
  by (induction l arbitrary: cur) auto

lemma complete_lines_line: "newline \<notin> set l \<Longrightarrow> complete_lines (l @ newline # s) = (l @ [newline]) # complete_lines s"
  by (simp add: complete_lines_def lines_from_line)

section \<open>First occurrences\<close>

text \<open>The distinct values of a list in the order they first appear in.\<close>

definition firsts :: "'a list \<Rightarrow> 'a list" where "firsts xs = rev (remdups (rev xs))"

lemma firsts_Nil [simp]: "firsts [] = []"
  by (simp add: firsts_def)

lemma set_firsts [simp]: "set (firsts xs) = set xs"
  by (simp add: firsts_def)

lemma distinct_firsts [simp, intro]: "distinct (firsts xs)"
  by (simp add: firsts_def)

lemma firsts_snoc [simp]: "firsts (xs @ [x]) = (if x \<in> set xs then firsts xs else firsts xs @ [x])"
  by (simp add: firsts_def)

section \<open>Decimal text\<close>

fun decimal_nat :: "nat \<Rightarrow> string" where
  "decimal_nat n =
     (let d = char_of (48 + n mod 10) in if n < 10 then [d] else decimal_nat (n div 10) @ [d])"

declare decimal_nat.simps [simp del]

definition decimal :: "int \<Rightarrow> string" where
  "decimal i = (if i < 0 then CHR ''-'' # decimal_nat (nat (- i)) else decimal_nat (nat i))"

definition digit_value :: "char \<Rightarrow> nat" where "digit_value c = of_char c - 48"

definition parse_nat :: "string \<Rightarrow> nat" where
  "parse_nat s = fold (\<lambda>c n. 10 * n + digit_value c) s 0"

lemma digit_value_char: "d < 10 \<Longrightarrow> digit_value (char_of (48 + d)) = d"
  by (simp add: digit_value_def)

lemma parse_decimal_nat: "parse_nat (decimal_nat n) = n"
proof (induction n rule: decimal_nat.induct)
  case (1 n)
  have d: "digit_value (char_of (48 + n mod 10)) = n mod 10" by (rule digit_value_char) simp
  show ?case
  proof (cases "n < 10")
    case True
    then show ?thesis using d by (simp add: decimal_nat.simps[of n] parse_nat_def)
  next
    case False
    with 1 have "parse_nat (decimal_nat (n div 10)) = n div 10" by simp
    then show ?thesis using False d by (simp add: decimal_nat.simps[of n] parse_nat_def)
  qed
qed

lemma decimal_nat_digits: "c \<in> set (decimal_nat n) \<Longrightarrow> 48 \<le> (of_char c :: nat) \<and> (of_char c :: nat) \<le> 57"
proof (induction n rule: decimal_nat.induct)
  case (1 n)
  have "(of_char (char_of (48 + n mod 10) :: char) :: nat) = 48 + n mod 10" by simp
  with 1 show ?case by (subst (asm) (2) decimal_nat.simps) (auto simp: Let_def split: if_splits)
qed

lemma decimal_nat_not_Nil [simp]: "decimal_nat n \<noteq> []"
  by (subst decimal_nat.simps) (simp add: Let_def)

lemma decimal_inj: "decimal i = decimal j \<longleftrightarrow> i = j"
proof
  assume eq: "decimal i = decimal j"
  have nodash: "decimal_nat n \<noteq> CHR ''-'' # s" for n s
    using decimal_nat_digits[of "CHR ''-''" n] by force
  have "nat (- i) = nat (- j)" if "i < 0" "j < 0"
    using eq that parse_decimal_nat by (metis decimal_def list.inject)
  moreover have "nat i = nat j" if "\<not> i < 0" "\<not> j < 0"
    using eq that parse_decimal_nat by (metis decimal_def)
  moreover have "i < 0 \<longleftrightarrow> j < 0"
    using eq nodash by (metis decimal_def)
  ultimately show "i = j" by linarith
qed simp

text \<open>\<open>strconv.Atoi\<close>: an optional sign and at least one digit, of an \<open>int64\<close>.\<close>

definition atoi :: "string \<Rightarrow> int option" where
  "atoi s =
     (let neg = has_prefix s ''-''; ds = (if neg \<or> has_prefix s ''+'' then drop 1 s else s);
          n = int (parse_nat ds); i = (if neg then - n else n)
      in if ds = [] \<or> \<not> list_all is_digit ds \<or> i < - (2 ^ 63) \<or> i \<ge> 2 ^ 63 then None else Some i)"

end
