(* ===== verification/Transcripts.thy ===== *)
theory Transcripts
  imports LogFiles
begin

text \<open>
  \<open>internal/provider/anthropic/transcript/transcript.go\<close>: Claude Code's session transcripts as
  usage events and limit events. The parser reads the bytes of a file; what \<open>json.Unmarshal\<close>
  makes of a line is the parameter \<open>decode\<close> (\<open>None\<close> when it reports an error), and the regular
  expressions are the predicates that decide them.
\<close>

section \<open>Lines\<close>

record message_usage =
  mg_InputTokens :: int
  mg_OutputTokens :: int
  mg_CacheReadInputTokens :: int
  mg_CacheCreationInputTokens :: int

text \<open>\<open>cm_Text\<close> are the texts of the content blocks, none when the content is not such a list.\<close>

record claude_message =
  cm_ID :: string
  cm_Model :: string
  cm_Text :: "string list"
  cm_Usage :: "message_usage option"

record claude_line =
  ln_Type :: string
  ln_SessionID :: string
  ln_RequestID :: string
  ln_Timestamp :: time
  ln_Entrypoint :: string
  ln_UUID :: string
  ln_PerTurnEffort :: "string option"
  ln_IsAPIError :: bool
  ln_Error :: string
  ln_APIErrorStatus :: int
  ln_RateLimitType :: "string option"
  ln_Message :: "claude_message option"

record transcript_result =
  tx_Events :: "event list"
  tx_LimitEvents :: "limit_event list"
  tx_BadLines :: int

section \<open>Models and gateways\<close>

definition anthropicModel :: "string \<Rightarrow> bool" where
  "anthropicModel m =
     (case cut_prefix m ''claude-'' of
        None \<Rightarrow> False
      | Some r \<Rightarrow> takeWhile is_lower r \<noteq> [] \<and>
          (case dropWhile is_lower r of dash # d # _ \<Rightarrow> dash = CHR ''-'' \<and> is_digit d | _ \<Rightarrow> False))"

text \<open>Some text, two dashes, some text; a dot matches no line break.\<close>

definition dashed :: "string \<Rightarrow> bool" where
  "dashed r = list_ex (\<lambda>i. newline \<notin> set (take i r) \<and> has_prefix (drop i r) ''--'' \<and>
     (case drop (i + 2) r of c # _ \<Rightarrow> c \<noteq> newline | [] \<Rightarrow> False)) [1..<length r]"

definition openCodexModel :: "string \<Rightarrow> bool" where
  "openCodexModel m = list_ex (\<lambda>p. case cut_prefix m p of None \<Rightarrow> False | Some r \<Rightarrow> dashed r) [''ocx-claude-'', ''claude-ocx-'']"

definition native_name :: "string \<Rightarrow> string \<Rightarrow> string option" where
  "native_name m p = (case cut_prefix m (p @ ''-native--'') of
     Some r \<Rightarrow> if r \<noteq> [] \<and> newline \<notin> set r then Some r else None | None \<Rightarrow> None)"

definition openCodexNative :: "string \<Rightarrow> string option" where
  "openCodexNative m = (case native_name m ''ocx-claude'' of Some r \<Rightarrow> Some r | None \<Rightarrow> native_name m ''claude-ocx'')"

definition hexMessageID :: "nat \<Rightarrow> string \<Rightarrow> bool" where
  "hexMessageID n m = (case cut_prefix m ''msg_'' of None \<Rightarrow> False | Some r \<Rightarrow> length r = n \<and> list_all is_hex r)"

definition openCodexMessageID :: "string \<Rightarrow> bool" where "openCodexMessageID = hexMessageID 32"
definition ollamaMessageID :: "string \<Rightarrow> bool" where "ollamaMessageID = hexMessageID 24"

definition gateway :: "string \<Rightarrow> string \<Rightarrow> string \<Rightarrow> string" where
  "gateway model messageID requestID =
     (if openCodexModel model then GatewayOpenCodex
      else if requestID \<noteq> [] then []
      else if openCodexMessageID messageID then GatewayOpenCodex
      else if ollamaMessageID messageID then GatewayOllama
      else [])"

definition effort :: "string option \<Rightarrow> string" where
  "effort level = (case level of None \<Rightarrow> [] | Some l \<Rightarrow> to_lower (trim_space l))"

section \<open>Limits\<close>

text \<open>The typographic apostrophe, three bytes in UTF-8, as the plain one.\<close>

fun plain_quotes :: "string \<Rightarrow> string" where
  "plain_quotes (a # b # c # s) =
     (if a = CHR 0xE2 \<and> b = CHR 0x80 \<and> c = CHR 0x99 then CHR 0x27 # plain_quotes s else a # plain_quotes (b # c # s))"
| "plain_quotes s = s"

definition classifyLimit :: "string \<Rightarrow> int \<Rightarrow> string \<Rightarrow> string \<Rightarrow> (limit_kind \<times> string) option" where
  "classifyLimit errCode status rateLimitType txt =
     (let txt = plain_quotes txt;
          other = (if status = 529 \<or> contains txt ''Overloaded'' then Some (LimitOverload, ''overloaded'')
                   else if errCode = ''authentication_failed'' \<or> status = 401 \<or> status = 403 then Some (LimitAuth, ''auth'')
                   else None)
      in if errCode = ''rate_limit''
         then if rateLimitType = ''five_hour'' then Some (LimitFiveHour, rateLimitType)
         else if rateLimitType = ''seven_day'' then Some (LimitWeekly, rateLimitType)
         else if has_prefix rateLimitType ''seven_day_'' \<or> has_prefix rateLimitType ''five_hour_'' then Some (LimitModelSpecific, rateLimitType)
         else if rateLimitType \<noteq> [] then Some (LimitUnknown, rateLimitType)
         else if has_prefix txt (''You'' @ [CHR 0x27] @ ''ve hit your session limit'') then Some (LimitFiveHour, ''session_limit'')
         else if has_prefix txt (''You'' @ [CHR 0x27] @ ''ve hit your weekly limit'') then Some (LimitWeekly, ''weekly_limit'')
         else if contains txt ''monthly spend limit'' \<or> contains txt ''out of extra usage'' then Some (LimitUnknown, ''extra_usage'')
         else if contains txt ''not your usage limit'' \<or> contains txt ''Request rejected (429)'' then Some (LimitProvider429, ''gateway'')
         else other
         else other)"

definition LimitSource :: string where "LimitSource = ''claude-transcript''"

definition limitEvent :: "claude_line \<Rightarrow> claude_message \<Rightarrow> limit_event option" where
  "limitEvent l m =
     (let txt = (case cm_Text m of [] \<Rightarrow> [] | t # _ \<Rightarrow> t);
          rateLimitType = (case ln_RateLimitType l of None \<Rightarrow> [] | Some t \<Rightarrow> t)
      in case classifyLimit (ln_Error l) (ln_APIErrorStatus l) rateLimitType txt of
           None \<Rightarrow> None
         | Some (kind, evidence) \<Rightarrow>
             if ln_UUID l = [] then None
             else Some (zero_limit_event\<lparr>le_DedupeKey := ''claude-limit:'' @ ln_UUID l, le_Provider := ProviderAnthropic,
                    le_Originator := ln_Entrypoint l, le_OccurredAt := ln_Timestamp l, le_SessionID := ln_SessionID l,
                    le_RequestID := ln_RequestID l, le_Kind := kind, le_Source := LimitSource, le_Evidence := evidence,
                    le_HTTPStatus := ln_APIErrorStatus l\<rparr>))"

section \<open>Parsing\<close>

definition response_key :: "claude_line \<Rightarrow> claude_message \<Rightarrow> string" where
  "response_key l m = ''claude:'' @ cm_ID m @ '':'' @ ln_RequestID l"

definition response_event :: "claude_line \<Rightarrow> claude_message \<Rightarrow> message_usage \<Rightarrow> event" where
  "response_event l m u =
     (let e = zero_event
          \<lparr>ev_DedupeKey := response_key l m, ev_Provider := ProviderAnthropic, ev_Product := ProductClaudeCode,
           ev_Originator := ln_Entrypoint l, ev_SessionID := ln_SessionID l, ev_RequestID := ln_RequestID l,
           ev_Model := cm_Model m, ev_Effort := effort (ln_PerTurnEffort l), ev_OccurredAt := ln_Timestamp l,
           ev_ThirdParty := (\<not> anthropicModel (cm_Model m) \<or> openCodexModel (cm_Model m)),
           ev_Gateway := gateway (cm_Model m) (cm_ID m) (ln_RequestID l),
           ev_Tokens := zero_tokens\<lparr>tk_Input := mg_InputTokens u, tk_CachedInput := mg_CacheReadInputTokens u,
             tk_CacheWrite := mg_CacheCreationInputTokens u, tk_Output := mg_OutputTokens u\<rparr>\<rparr>
      in case openCodexNative (cm_Model m) of
           Some name \<Rightarrow> e\<lparr>ev_Provider := ProviderOpenAI, ev_Model := name, ev_ThirdParty := False\<rparr>
         | None \<Rightarrow> e)"

record transcript_state =
  ts_Result :: transcript_result
  ts_Index :: "(string, nat) gomap"

definition raise_output :: "int \<Rightarrow> event \<Rightarrow> event" where
  "raise_output n e = (if n > tk_Output (ev_Tokens e) then e\<lparr>ev_Tokens := (ev_Tokens e)\<lparr>tk_Output := n\<rparr>\<rparr> else e)"

definition add_response :: "claude_line \<Rightarrow> claude_message \<Rightarrow> message_usage \<Rightarrow> transcript_state \<Rightarrow> transcript_state" where
  "add_response l m u st =
     (let key = response_key l m; r = ts_Result st; es = tx_Events r in
      case map_of (ts_Index st) key of
        Some i \<Rightarrow> st\<lparr>ts_Result := r\<lparr>tx_Events := es[i := raise_output (mg_OutputTokens u) (es ! i)]\<rparr>\<rparr>
      | None \<Rightarrow> \<lparr>ts_Result = r\<lparr>tx_Events := es @ [response_event l m u]\<rparr>, ts_Index = put key (length es) (ts_Index st)\<rparr>)"

text \<open>The word only lines the parser decodes contain.\<close>

definition assistantMarker :: string where "assistantMarker = [CHR 0x22] @ ''assistant'' @ [CHR 0x22]"

definition parse_line :: "(string \<Rightarrow> claude_line option) \<Rightarrow> string \<Rightarrow> transcript_state \<Rightarrow> transcript_state" where
  "parse_line decode raw st =
     (let r = ts_Result st in
      if \<not> contains raw assistantMarker then st
      else case decode raw of
        None \<Rightarrow> st\<lparr>ts_Result := r\<lparr>tx_BadLines := tx_BadLines r + 1\<rparr>\<rparr>
      | Some l \<Rightarrow> (case ln_Message l of
          None \<Rightarrow> st
        | Some m \<Rightarrow>
            if ln_Type l \<noteq> ''assistant'' then st
            else if ln_IsAPIError l
            then (case limitEvent l m of
                    None \<Rightarrow> st
                  | Some le \<Rightarrow> st\<lparr>ts_Result := r\<lparr>tx_LimitEvents := tx_LimitEvents r @ [le]\<rparr>\<rparr>)
            else (case cm_Usage m of
                    None \<Rightarrow> st
                  | Some u \<Rightarrow>
                      if cm_ID m = [] \<or> cm_Model m = [] \<or> cm_Model m = ''<synthetic>'' then st
                      else add_response l m u st)))"

definition no_result :: transcript_result where
  "no_result = \<lparr>tx_Events = [], tx_LimitEvents = [], tx_BadLines = 0\<rparr>"

text \<open>\<open>Parse\<close> of a file with these bytes; a read that fails before the end is its only error.\<close>

definition Transcript_Parse :: "(string \<Rightarrow> claude_line option) \<Rightarrow> string \<Rightarrow> bool \<Rightarrow> transcript_result option" where
  "Transcript_Parse decode content fails =
     (if fails then None
      else Some (ts_Result (fold (parse_line decode) (complete_lines content) \<lparr>ts_Result = no_result, ts_Index = []\<rparr>)))"

section \<open>One event per response\<close>

text \<open>The answered requests of a transcript, one per line that counts.\<close>

type_synonym response = "claude_line \<times> claude_message \<times> message_usage"

definition response_of :: "claude_line \<Rightarrow> response option" where
  "response_of l = (case ln_Message l of None \<Rightarrow> None | Some m \<Rightarrow>
     (case cm_Usage m of None \<Rightarrow> None | Some u \<Rightarrow>
        if ln_Type l = ''assistant'' \<and> \<not> ln_IsAPIError l \<and> cm_ID m \<noteq> [] \<and> cm_Model m \<notin> {[], ''<synthetic>''}
        then Some (l, m, u) else None))"

definition line_response :: "(string \<Rightarrow> claude_line option) \<Rightarrow> string \<Rightarrow> response option" where
  "line_response decode raw = (if contains raw assistantMarker then Option.bind (decode raw) response_of else None)"

definition responses :: "(string \<Rightarrow> claude_line option) \<Rightarrow> string \<Rightarrow> response list" where
  "responses decode content = List.map_filter (line_response decode) (complete_lines content)"

definition key_of :: "response \<Rightarrow> string" where "key_of = (\<lambda>(l, m, u). response_key l m)"
definition output_of :: "response \<Rightarrow> int" where "output_of = (\<lambda>(l, m, u). mg_OutputTokens u)"
definition event_of :: "response \<Rightarrow> event" where "event_of = (\<lambda>(l, m, u). response_event l m u)"

definition with_output :: "int \<Rightarrow> event \<Rightarrow> event" where
  "with_output n e = e\<lparr>ev_Tokens := (ev_Tokens e)\<lparr>tk_Output := n\<rparr>\<rparr>"

text \<open>What the ledger is to hold of the responses with one key: the first line's event, with the
  largest output count any of them gives.\<close>

definition final_event :: "response list \<Rightarrow> string \<Rightarrow> event" where
  "final_event rs k = (let qs = filter (\<lambda>r. key_of r = k) rs
     in with_output (Max (output_of ` set qs)) (event_of (hd qs)))"

lemma event_of_key [simp]: "ev_DedupeKey (event_of r) = key_of r"
  by (cases r) (simp add: event_of_def key_of_def response_event_def Let_def split: option.split)

lemma event_of_output [simp]: "tk_Output (ev_Tokens (event_of r)) = output_of r"
  by (cases r) (simp add: event_of_def output_of_def response_event_def Let_def split: option.split)

lemma with_output_key [simp]: "ev_DedupeKey (with_output n e) = ev_DedupeKey e"
  by (simp add: with_output_def)

lemma with_output_same [simp]: "with_output (output_of r) (event_of r) = event_of r"
  using event_of_output[of r] by (simp add: with_output_def)

lemma raise_with_output [simp]: "raise_output n (with_output k e) = with_output (max k n) e"
  by (simp add: raise_output_def with_output_def max_def)

lemma final_event_other: "key_of r \<noteq> k \<Longrightarrow> final_event (rs @ [r]) k = final_event rs k"
  by (simp add: final_event_def)

lemma final_event_new: "k \<notin> key_of ` set rs \<Longrightarrow> key_of r = k \<Longrightarrow> final_event (rs @ [r]) k = event_of r"
proof -
  assume k: "k \<notin> key_of ` set rs" "key_of r = k"
  then have "filter (\<lambda>r. key_of r = k) rs = []" by (metis (mono_tags, lifting) filter_empty_conv image_eqI)
  with k show ?thesis by (simp add: final_event_def)
qed

lemma final_event_again:
  assumes "k \<in> key_of ` set rs" "key_of r = k"
  shows "final_event (rs @ [r]) k = raise_output (output_of r) (final_event rs k)"
proof -
  define qs where "qs = filter (\<lambda>r. key_of r = k) rs"
  have "qs \<noteq> []" using assms(1) by (auto simp: qs_def filter_empty_conv)
  then have "Max (output_of ` set (qs @ [r])) = max (Max (output_of ` set qs)) (output_of r)" and "hd (qs @ [r]) = hd qs"
    by (simp_all add: max.commute)
  moreover have "filter (\<lambda>r. key_of r = k) (rs @ [r]) = qs @ [r]" using assms(2) by (simp add: qs_def)
  ultimately show ?thesis by (simp add: final_event_def Let_def flip: qs_def)
qed

text \<open>The invariant of the parse: the events are settled and the index finds each key's.\<close>

definition parse_settled :: "response list \<Rightarrow> transcript_state \<Rightarrow> bool" where
  "parse_settled rs st \<longleftrightarrow> (let ks = firsts (map key_of rs) in
     tx_Events (ts_Result st) = map (final_event rs) ks \<and>
     (\<forall>k i. map_of (ts_Index st) k = Some i \<longleftrightarrow> i < length ks \<and> ks ! i = k))"

lemma final_event_add_response:
  assumes "parse_settled rs st"
  shows "parse_settled (rs @ [(l, m, u)]) (add_response l m u st)"
proof -
  let ?r = "(l, m, u)"
  define ks where "ks = firsts (map key_of rs)"
  define k where "k = key_of ?r"
  have key: "response_key l m = k" and out: "mg_OutputTokens u = output_of ?r" and ev: "response_event l m u = event_of ?r"
    by (simp_all add: k_def key_of_def output_of_def event_of_def)
  have es: "tx_Events (ts_Result st) = map (final_event rs) ks"
    and ix: "\<And>k i. map_of (ts_Index st) k = Some i \<longleftrightarrow> i < length ks \<and> ks ! i = k"
    using assms by (simp_all add: parse_settled_def ks_def Let_def)
  have dks: "distinct ks" and sks: "set ks = key_of ` set rs" by (simp_all add: ks_def)
  show ?thesis
  proof (cases "map_of (ts_Index st) k")
    case (Some i)
    then have i: "i < length ks" "ks ! i = k" using ix by auto
    then have kin: "k \<in> key_of ` set rs" using sks nth_mem by metis
    have "map (final_event (rs @ [?r])) ks = (map (final_event rs) ks)[i := raise_output (output_of ?r) (final_event rs k)]"
    proof (rule nth_equalityI)
      fix j assume "j < length (map (final_event (rs @ [?r])) ks)"
      then have j: "j < length ks" by simp
      show "map (final_event (rs @ [?r])) ks ! j = (map (final_event rs) ks)[i := raise_output (output_of ?r) (final_event rs k)] ! j"
      proof (cases "j = i")
        case True
        then show ?thesis using i final_event_again[OF kin, of ?r] by (simp add: k_def)
      next
        case False
        then have "ks ! j \<noteq> k" using i j dks nth_eq_iff_index_eq by metis
        then have "final_event (rs @ [?r]) (ks ! j) = final_event rs (ks ! j)" by (intro final_event_other) (simp add: k_def)
        then show ?thesis using False j by simp
      qed
    qed simp
    moreover have "add_response l m u st = st\<lparr>ts_Result := (ts_Result st)\<lparr>tx_Events :=
        (map (final_event rs) ks)[i := raise_output (output_of ?r) (final_event rs k)]\<rparr>\<rparr>"
      using Some i by (simp add: add_response_def Let_def key out es)
    moreover have "firsts (map key_of (rs @ [?r])) = ks" using kin by (simp add: ks_def k_def image_iff)
    ultimately show ?thesis using ix by (simp add: parse_settled_def)
  next
    case None
    then have kout: "k \<notin> set ks" using ix by (metis in_set_conv_nth option.distinct(1))
    then have kout': "k \<notin> key_of ` set rs" using sks by simp
    have "map (final_event (rs @ [?r])) ks = map (final_event rs) ks"
      using kout by (intro map_cong refl final_event_other) (auto simp: k_def)
    moreover have "final_event (rs @ [?r]) k = event_of ?r" by (rule final_event_new[OF kout']) (simp add: k_def)
    moreover have "map_of (put k (length ks) (ts_Index st)) k' = Some i \<longleftrightarrow>
        i < length (ks @ [k]) \<and> (ks @ [k]) ! i = k'" for k' i
      using ix[of k' i] kout by (auto simp: update_conv' nth_append less_Suc_eq in_set_conv_nth)
    moreover have "add_response l m u st = \<lparr>ts_Result = (ts_Result st)\<lparr>tx_Events := map (final_event rs) ks @ [event_of ?r]\<rparr>,
        ts_Index = put k (length ks) (ts_Index st)\<rparr>"
      using None by (simp add: add_response_def Let_def key ev es)
    moreover have "firsts (map key_of (rs @ [?r])) = ks @ [k]" using kout' by (simp add: ks_def k_def image_iff)
    ultimately show ?thesis by (simp add: parse_settled_def)
  qed
qed

lemma parse_line_cases:
  "parse_line decode raw st = (case line_response decode raw of
     Some (l, m, u) \<Rightarrow> add_response l m u st
   | None \<Rightarrow> st\<lparr>ts_Result := (ts_Result (parse_line decode raw st))\<lparr>tx_Events := tx_Events (ts_Result st)\<rparr>\<rparr>)"
  by (auto simp: parse_line_def line_response_def response_of_def Let_def split: option.splits if_splits)

lemma final_event_parse_line:
  assumes "parse_settled rs st"
  shows "parse_settled (rs @ List.map_filter (line_response decode) [raw]) (parse_line decode raw st)"
proof (cases "line_response decode raw")
  case None
  then show ?thesis using assms
    by (subst parse_line_cases) (simp add: parse_settled_def Let_def List.map_filter_def)
next
  case (Some r)
  obtain l m u where r: "r = (l, m, u)" by (cases r)
  then show ?thesis using Some final_event_add_response[OF assms]
    by (subst parse_line_cases) (simp add: List.map_filter_def)
qed

lemma final_event_fold:
  "parse_settled rs st \<Longrightarrow> parse_settled (rs @ List.map_filter (line_response decode) raws) (fold (parse_line decode) raws st)"
proof (induction raws arbitrary: rs st)
  case Nil
  then show ?case by (simp add: List.map_filter_def)
next
  case (Cons raw raws)
  have "rs @ List.map_filter (line_response decode) (raw # raws) =
      (rs @ List.map_filter (line_response decode) [raw]) @ List.map_filter (line_response decode) raws"
    by (simp add: List.map_filter_def)
  then show ?case using Cons.IH[OF final_event_parse_line[OF Cons.prems]] by simp
qed

text \<open>
  C9. A transcript gives exactly one usage event per response (message id and request id), in
  the order the responses first appear in: the event of the response's first line, with the
  largest output count any of its lines reports. So partial lines written while streaming
  never count a request twice and never lower its count.
\<close>

theorem Transcript_events:
  "map_option tx_Events (Transcript_Parse decode content False) =
     Some (map (final_event (responses decode content)) (firsts (map key_of (responses decode content))))"
proof -
  have "parse_settled [] \<lparr>ts_Result = no_result, ts_Index = []\<rparr>"
    by (simp add: parse_settled_def no_result_def)
  from final_event_fold[OF this, of decode "complete_lines content"] show ?thesis
    by (simp add: parse_settled_def Transcript_Parse_def responses_def Let_def)
qed

section \<open>Reading a file again\<close>

text \<open>The same event, with an output count no smaller.\<close>

definition outgrows :: "event \<Rightarrow> event \<Rightarrow> bool" where
  "outgrows e e' \<longleftrightarrow> e' = with_output (tk_Output (ev_Tokens e')) e \<and> tk_Output (ev_Tokens e) \<le> tk_Output (ev_Tokens e')"

definition extends_result :: "transcript_result \<Rightarrow> transcript_result \<Rightarrow> bool" where
  "extends_result r r' \<longleftrightarrow> (let n = length (tx_Events r); m = length (tx_LimitEvents r) in
     list_all2 outgrows (tx_Events r) (take n (tx_Events r')) \<and>
     take m (tx_LimitEvents r') = tx_LimitEvents r \<and> tx_BadLines r \<le> tx_BadLines r')"

lemma outgrows_refl [simp]: "outgrows e e"
  by (simp add: outgrows_def with_output_def)

lemma outgrows_raise [simp]: "outgrows e (raise_output n e)"
  by (simp add: outgrows_def raise_output_def with_output_def)

lemma with_output_twice [simp]: "with_output n (with_output k e) = with_output n e"
  by (simp add: with_output_def)

lemma outgrows_trans: "outgrows a b \<Longrightarrow> outgrows b c \<Longrightarrow> outgrows a c"
  unfolding outgrows_def by (metis order_trans with_output_twice)

lemma extends_result_refl [simp]: "extends_result r r"
  by (simp add: extends_result_def list.rel_refl)

lemma extends_result_trans:
  assumes "extends_result a b" "extends_result b c"
  shows "extends_result a c"
proof -
  let ?A = "tx_Events a" and ?B = "tx_Events b" and ?C = "tx_Events c"
  have ab: "list_all2 outgrows ?A (take (length ?A) ?B)" and bc: "list_all2 outgrows ?B (take (length ?B) ?C)"
    and lab: "take (length (tx_LimitEvents a)) (tx_LimitEvents b) = tx_LimitEvents a"
    and lbc: "take (length (tx_LimitEvents b)) (tx_LimitEvents c) = tx_LimitEvents b"
    and n: "tx_BadLines a \<le> tx_BadLines b" "tx_BadLines b \<le> tx_BadLines c"
    using assms by (simp_all add: extends_result_def Let_def)
  have len: "length ?A \<le> length ?B" using list_all2_lengthD[OF ab] by simp
  have llen: "length (tx_LimitEvents a) \<le> length (tx_LimitEvents b)" using arg_cong[OF lab, of length] by simp
  have "list_all2 outgrows (take (length ?A) ?B) (take (length ?A) ?C)"
    using list_all2_takeI[OF bc, of "length ?A"] len by (simp add: min_def)
  with ab have "list_all2 outgrows ?A (take (length ?A) ?C)"
    by (rule list_all2_trans[rotated]) (rule outgrows_trans)
  moreover have "take (length (tx_LimitEvents a)) (tx_LimitEvents c) = tx_LimitEvents a"
    using arg_cong[OF lbc, of "take (length (tx_LimitEvents a))"] lab llen by (simp add: min_def)
  ultimately show ?thesis using n by (simp add: extends_result_def)
qed

lemma extends_add_response: "extends_result (ts_Result st) (ts_Result (add_response l m u st))"
proof (cases "map_of (ts_Index st) (response_key l m)")
  case None
  then show ?thesis by (simp add: add_response_def extends_result_def Let_def list.rel_refl)
next
  case (Some i)
  let ?es = "tx_Events (ts_Result st)"
  have "list_all2 outgrows ?es (?es[i := raise_output (mg_OutputTokens u) (?es ! i)])"
  proof (rule list_all2_all_nthI)
    fix j assume "j < length ?es"
    then show "outgrows (?es ! j) (?es[i := raise_output (mg_OutputTokens u) (?es ! i)] ! j)"
      by (cases "i = j") simp_all
  qed simp
  with Some show ?thesis by (simp add: add_response_def extends_result_def Let_def)
qed

lemma extends_bad_line: "extends_result r (r\<lparr>tx_BadLines := tx_BadLines r + 1\<rparr>)"
  and extends_limit: "extends_result r (r\<lparr>tx_LimitEvents := tx_LimitEvents r @ [le]\<rparr>)"
  by (simp_all add: extends_result_def Let_def list.rel_refl)

lemma extends_parse_line: "extends_result (ts_Result st) (ts_Result (parse_line decode raw st))"
  unfolding parse_line_def Let_def
  by (simp add: extends_add_response extends_bad_line extends_limit split: option.split)

lemma extends_fold: "extends_result (ts_Result st) (ts_Result (fold (parse_line decode) raws st))"
proof (induction raws arbitrary: st)
  case (Cons raw raws)
  show ?case using extends_result_trans[OF extends_parse_line Cons.IH] by simp
qed simp

text \<open>
  Reading a transcript again after Claude Code has appended to it, whatever was appended
  and wherever the earlier read found the end, keeps every event and limit event already
  found, in place and under the same key; only their output counts can rise.
\<close>

theorem Transcript_grows:
  assumes "Transcript_Parse decode content False = Some r"
    and "Transcript_Parse decode (content @ appended) False = Some r'"
  shows "extends_result r r'"
proof -
  obtain ls where "complete_lines (content @ appended) = complete_lines content @ ls"
    using complete_lines_append by metis
  with assms show ?thesis by (auto simp: Transcript_Parse_def extends_fold)
qed

definition demo_reply :: "int \<Rightarrow> claude_line" where
  "demo_reply out = \<lparr>ln_Type = ''assistant'', ln_SessionID = ''s'', ln_RequestID = ''r'', ln_Timestamp = 0, ln_Entrypoint = ''cli'',
     ln_UUID = [], ln_PerTurnEffort = None, ln_IsAPIError = False, ln_Error = [], ln_APIErrorStatus = 0,
     ln_RateLimitType = None, ln_Message = Some \<lparr>cm_ID = ''m'', cm_Model = ''claude-opus-5'', cm_Text = [],
       cm_Usage = Some \<lparr>mg_InputTokens = 1, mg_OutputTokens = out, mg_CacheReadInputTokens = 0, mg_CacheCreationInputTokens = 0\<rparr>\<rparr>\<rparr>"

definition demo_decode :: "string \<Rightarrow> claude_line option" where
  "demo_decode raw = Some (demo_reply (int (length raw)))"

definition demo_result :: "string \<Rightarrow> transcript_result" where
  "demo_result content = ts_Result (fold (parse_line demo_decode) (complete_lines content) \<lparr>ts_Result = no_result, ts_Index = []\<rparr>)"

lemma Transcript_grows_witness:
  "extends_result (demo_result (assistantMarker @ [newline])) (demo_result ((assistantMarker @ [newline]) @ assistantMarker @ '' '' @ [newline])) \<and>
   map (tk_Output \<circ> ev_Tokens) (tx_Events (demo_result (assistantMarker @ [newline]))) = [12] \<and>
   map (tk_Output \<circ> ev_Tokens) (tx_Events (demo_result ((assistantMarker @ [newline]) @ assistantMarker @ '' '' @ [newline]))) = [13]"
proof (intro conjI)
  show "extends_result (demo_result (assistantMarker @ [newline])) (demo_result ((assistantMarker @ [newline]) @ assistantMarker @ '' '' @ [newline]))"
    by (rule Transcript_grows[of demo_decode "assistantMarker @ [newline]" _ "assistantMarker @ '' '' @ [newline]"])
      (simp_all only: Transcript_Parse_def demo_result_def if_False)
qed code_simp+

end
