(* ===== verification/Rollouts.thy ===== *)
theory Rollouts
  imports LogFiles Quota
begin

text \<open>
  \<open>internal/provider/openai/codex/rollout/rollout.go\<close>: Codex's session files as usage events
  and quota snapshots. Newer files carry a record per request; older ones only the session's
  running total, of which each count contributes what it adds. What \<open>json.Unmarshal\<close> makes of a
  line and of its payload (\<open>None\<close> for an error) is the parameter \<open>rollout_json\<close>.
\<close>

section \<open>Lines and payloads\<close>

record token_usage =
  tu_InputTokens :: int
  tu_CachedInputTokens :: int
  tu_CacheWriteInputTokens :: int
  tu_OutputTokens :: int
  tu_ReasoningOutputTokens :: int
  tu_TotalTokens :: int

definition usage_sub :: "token_usage \<Rightarrow> token_usage \<Rightarrow> token_usage" where
  "usage_sub u o' = \<lparr>tu_InputTokens = wrap64 (tu_InputTokens u - tu_InputTokens o'),
     tu_CachedInputTokens = wrap64 (tu_CachedInputTokens u - tu_CachedInputTokens o'),
     tu_CacheWriteInputTokens = wrap64 (tu_CacheWriteInputTokens u - tu_CacheWriteInputTokens o'),
     tu_OutputTokens = wrap64 (tu_OutputTokens u - tu_OutputTokens o'),
     tu_ReasoningOutputTokens = wrap64 (tu_ReasoningOutputTokens u - tu_ReasoningOutputTokens o'),
     tu_TotalTokens = wrap64 (tu_TotalTokens u - tu_TotalTokens o')\<rparr>"

text \<open>OpenAI's convention counts cached input as input.\<close>

definition usage_tokens :: "token_usage \<Rightarrow> tokens" where
  "usage_tokens u = \<lparr>tk_Input = wrap64 (tu_InputTokens u - tu_CachedInputTokens u), tk_CachedInput = tu_CachedInputTokens u,
     tk_CacheWrite = tu_CacheWriteInputTokens u, tk_Output = tu_OutputTokens u,
     tk_ReasoningOutput = tu_ReasoningOutputTokens u\<rparr>"

record rollout_line =
  rn_Timestamp :: time
  rn_Type :: string
  rn_Payload :: string

record session_meta =
  sm_ID :: string
  sm_SessionID :: string
  sm_Originator :: string
  sm_ModelProvider :: string

record usage_record =
  ur_ResponseID :: string
  ur_SessionID :: string
  ur_Usage :: token_usage
  ur_Thread :: token_usage

record limit_window =
  lw_UsedPercent :: f64
  lw_WindowMinutes :: int
  lw_ResetsAt :: int

record rate_limits =
  rt_LimitID :: string
  rt_Primary :: "limit_window option"
  rt_Secondary :: "limit_window option"

record token_info =
  ti_Total :: token_usage
  ti_Last :: token_usage

record event_msg =
  em_Type :: string
  em_Info :: "token_info option"
  em_RateLimits :: "rate_limits option"

record rollout_json =
  rj_line :: "string \<Rightarrow> rollout_line option"
  rj_meta :: "string \<Rightarrow> session_meta option"
  rj_model :: "string \<Rightarrow> string option"
  rj_record :: "string \<Rightarrow> usage_record option"
  rj_event :: "string \<Rightarrow> event_msg option"

section \<open>Quota snapshots\<close>

definition BucketFromWindow :: "f64 \<Rightarrow> int \<Rightarrow> int \<Rightarrow> bucket" where
  "BucketFromWindow usedPercent windowMinutes resetsAtUnix =
     \<lparr>bk_Key = (if windowMinutes = 300 then BucketFiveHour else if windowMinutes = 10080 then BucketWeekly
                else ''window_'' @ decimal windowMinutes @ ''m''),
      bk_UsedPercent = Some usedPercent,
      bk_ResetsAt = (if resetsAtUnix > 0 then Some (resetsAtUnix * second) else None),
      bk_WindowMinutes = Some windowMinutes\<rparr>"

definition limit_buckets :: "rate_limits \<Rightarrow> bucket list" where
  "limit_buckets rl = List.map_filter
     (map_option (\<lambda>w. BucketFromWindow (lw_UsedPercent w) (lw_WindowMinutes w) (lw_ResetsAt w)))
     [rt_Primary rl, rt_Secondary rl]"

definition snapshotFrom :: "rate_limits option \<Rightarrow> time \<Rightarrow> snapshot option" where
  "snapshotFrom limits observedAt = (case limits of None \<Rightarrow> None | Some rl \<Rightarrow>
     if rt_LimitID rl \<noteq> [] \<and> rt_LimitID rl \<noteq> ''codex'' then None
     else if limit_buckets rl = [] then None
     else Some \<lparr>sn_AccountRefHash = [], sn_AccountHint = [], sn_PlanType = [], sn_DeviceID = [],
       sn_Provider = ProviderOpenAI, sn_ObservedAt = observedAt, sn_Source = SourceCodexRollout,
       sn_Buckets = limit_buckets rl\<rparr>)"

section \<open>Parsing\<close>

record rollout_result =
  ro_SessionID :: string
  ro_Skipped :: bool
  ro_Events :: "event list"
  ro_Snapshots :: "snapshot list"
  ro_BadLines :: int

text \<open>The variables of \<open>Parse\<close> while it reads.\<close>

record rollout_state =
  rs_Res :: rollout_result
  rs_Originator :: string
  rs_Model :: string
  rs_Records :: "event list"
  rs_Fallback :: "event list"
  rs_PrevTotal :: "token_usage option"

definition or_else :: "string \<Rightarrow> string \<Rightarrow> string" where "or_else a b = (if a \<noteq> [] then a else b)"

definition count_key :: "string \<Rightarrow> int \<Rightarrow> string" where
  "count_key session n = ''codex:'' @ session @ '':tc:'' @ decimal n"

definition bad_line :: "rollout_state \<Rightarrow> rollout_state" where
  "bad_line st = st\<lparr>rs_Res := (rs_Res st)\<lparr>ro_BadLines := ro_BadLines (rs_Res st) + 1\<rparr>\<rparr>"

definition read_meta :: "session_meta \<Rightarrow> rollout_state \<Rightarrow> rollout_result + rollout_state" where
  "read_meta m st =
     (let st = st\<lparr>rs_Res := (rs_Res st)\<lparr>ro_SessionID := or_else (sm_SessionID m) (sm_ID m)\<rparr>, rs_Originator := sm_Originator m\<rparr>
      in if sm_ModelProvider m \<noteq> [] \<and> sm_ModelProvider m \<noteq> ''openai''
         then Inl \<lparr>ro_SessionID = ro_SessionID (rs_Res st), ro_Skipped = True, ro_Events = [], ro_Snapshots = [], ro_BadLines = 0\<rparr>
         else Inr st)"

definition read_record :: "rollout_line \<Rightarrow> usage_record \<Rightarrow> rollout_state \<Rightarrow> rollout_state" where
  "read_record l rec st =
     (let session = or_else (ur_SessionID rec) (ro_SessionID (rs_Res st)) in
      if ur_ResponseID rec = [] \<and> tu_TotalTokens (ur_Thread rec) \<le> 0 then bad_line st
      else st\<lparr>rs_Records := rs_Records st @ [zero_event
             \<lparr>ev_DedupeKey := (if ur_ResponseID rec = [] then count_key session (tu_TotalTokens (ur_Thread rec))
                               else ''codex:'' @ ur_ResponseID rec),
              ev_SessionID := session, ev_RequestID := ur_ResponseID rec, ev_Model := rs_Model st,
              ev_OccurredAt := rn_Timestamp l, ev_Tokens := usage_tokens (ur_Usage rec)\<rparr>]\<rparr>)"

text \<open>The total a count starts from: the one before it, or, for the first, what the session
  inherited.\<close>

definition base_total :: "token_info \<Rightarrow> token_usage option \<Rightarrow> token_usage" where
  "base_total info prev = (case prev of Some p \<Rightarrow> p | None \<Rightarrow> usage_sub (ti_Total info) (ti_Last info))"

definition read_count :: "rollout_line \<Rightarrow> token_info \<Rightarrow> rollout_state \<Rightarrow> rollout_state" where
  "read_count l info st =
     (let total = ti_Total info; prev = base_total info (rs_PrevTotal st); st = st\<lparr>rs_PrevTotal := Some prev\<rparr> in
      if tu_TotalTokens total \<le> tu_TotalTokens prev then st
      else st\<lparr>rs_Fallback := rs_Fallback st @ [zero_event
             \<lparr>ev_DedupeKey := count_key (ro_SessionID (rs_Res st)) (tu_TotalTokens total),
              ev_SessionID := ro_SessionID (rs_Res st), ev_Aggregated := True, ev_Model := rs_Model st,
              ev_OccurredAt := rn_Timestamp l, ev_Tokens := usage_tokens (usage_sub total prev)\<rparr>],
             rs_PrevTotal := Some total\<rparr>)"

definition read_event :: "rollout_line \<Rightarrow> event_msg \<Rightarrow> rollout_state \<Rightarrow> rollout_state" where
  "read_event l msg st =
     (if em_Type msg \<noteq> ''token_count'' then st
      else let st = (case snapshotFrom (em_RateLimits msg) (rn_Timestamp l) of
                       None \<Rightarrow> st
                     | Some s \<Rightarrow> st\<lparr>rs_Res := (rs_Res st)\<lparr>ro_Snapshots := ro_Snapshots (rs_Res st) @ [s]\<rparr>\<rparr>)
           in case em_Info msg of None \<Rightarrow> st | Some info \<Rightarrow> read_count l info st)"

definition read_line :: "rollout_json \<Rightarrow> string \<Rightarrow> rollout_state \<Rightarrow> rollout_result + rollout_state" where
  "read_line J raw st =
     (let raw = trim_space raw in
      if raw = [] then Inr st
      else case rj_line J raw of
        None \<Rightarrow> Inr (bad_line st)
      | Some l \<Rightarrow>
          if rn_Type l = ''session_meta''
          then (case rj_meta J (rn_Payload l) of None \<Rightarrow> Inr (bad_line st) | Some m \<Rightarrow> read_meta m st)
          else if rn_Type l = ''turn_context''
          then (case rj_model J (rn_Payload l) of
                  None \<Rightarrow> Inr st | Some model \<Rightarrow> Inr (if model \<noteq> [] then st\<lparr>rs_Model := model\<rparr> else st))
          else if rn_Type l = ''token_usage_record''
          then (case rj_record J (rn_Payload l) of None \<Rightarrow> Inr (bad_line st) | Some rec \<Rightarrow> Inr (read_record l rec st))
          else if rn_Type l = ''event_msg''
          then (case rj_event J (rn_Payload l) of None \<Rightarrow> Inr st | Some msg \<Rightarrow> Inr (read_event l msg st))
          else Inr st)"

primrec read_lines :: "rollout_json \<Rightarrow> string list \<Rightarrow> rollout_state \<Rightarrow> rollout_result + rollout_state" where
  "read_lines J [] st = Inr st"
| "read_lines J (raw # raws) st = (case read_line J raw st of Inl r \<Rightarrow> Inl r | Inr st \<Rightarrow> read_lines J raws st)"

definition routedModel :: "string \<Rightarrow> bool" where "routedModel model = contains model ''/''"

definition codex_event :: "string \<Rightarrow> event \<Rightarrow> event" where
  "codex_event originator e =
     (let e = e\<lparr>ev_Provider := ProviderOpenAI, ev_Product := ProductCodex, ev_Originator := originator\<rparr>
      in if routedModel (ev_Model e) then e\<lparr>ev_ThirdParty := True, ev_Gateway := GatewayOpenCodex\<rparr> else e)"

definition rollout_start :: rollout_state where
  "rollout_start = \<lparr>rs_Res = \<lparr>ro_SessionID = [], ro_Skipped = False, ro_Events = [], ro_Snapshots = [], ro_BadLines = 0\<rparr>,
     rs_Originator = [], rs_Model = ''unknown'', rs_Records = [], rs_Fallback = [], rs_PrevTotal = None\<rparr>"

definition finish_rollout :: "rollout_state \<Rightarrow> rollout_result" where
  "finish_rollout st = (rs_Res st)\<lparr>ro_Events :=
     map (codex_event (rs_Originator st)) (if rs_Records st = [] then rs_Fallback st else rs_Records st)\<rparr>"

definition Rollout_Parse :: "rollout_json \<Rightarrow> string \<Rightarrow> bool \<Rightarrow> rollout_result option" where
  "Rollout_Parse J content fails =
     (if fails then None
      else Some (case read_lines J (complete_lines content) rollout_start of Inl r \<Rightarrow> r | Inr st \<Rightarrow> finish_rollout st))"

section \<open>Counts add up\<close>

lemma usage_tokens_telescope:
  "Tokens_Add (usage_tokens (usage_sub prev base)) (usage_tokens (usage_sub new prev)) = usage_tokens (usage_sub new base)"
  by (simp add: Tokens_Add_def usage_tokens_def usage_sub_def wrap64_telescope wrap64_telescope2)

lemma usage_tokens_none: "usage_tokens (usage_sub u u) = zero_tokens"
  by (simp add: usage_tokens_def usage_sub_def zero_tokens_def)

definition all_tokens :: "event list \<Rightarrow> tokens" where
  "all_tokens es = fold (\<lambda>e t. Tokens_Add t (ev_Tokens e)) es zero_tokens"

text \<open>The counts of a session file, the total it starts from and the highest total it reaches.\<close>

definition line_count :: "rollout_json \<Rightarrow> string \<Rightarrow> token_info option" where
  "line_count J raw = (case rj_line J (trim_space raw) of
     Some l \<Rightarrow> if trim_space raw \<noteq> [] \<and> rn_Type l = ''event_msg'' then
         (case rj_event J (rn_Payload l) of
            Some msg \<Rightarrow> if em_Type msg = ''token_count'' then em_Info msg else None
          | None \<Rightarrow> None)
       else None
   | None \<Rightarrow> None)"

definition session_counts :: "rollout_json \<Rightarrow> string \<Rightarrow> token_info list" where
  "session_counts J content = List.map_filter (line_count J) (complete_lines content)"

definition zero_usage :: token_usage where
  "zero_usage = \<lparr>tu_InputTokens = 0, tu_CachedInputTokens = 0, tu_CacheWriteInputTokens = 0, tu_OutputTokens = 0,
     tu_ReasoningOutputTokens = 0, tu_TotalTokens = 0\<rparr>"

definition inherited :: "token_info list \<Rightarrow> token_usage" where
  "inherited infos = (case infos of [] \<Rightarrow> zero_usage | i # _ \<Rightarrow> usage_sub (ti_Total i) (ti_Last i))"

definition reached :: "token_info list \<Rightarrow> token_usage" where
  "reached infos = fold (\<lambda>i p. if tu_TotalTokens (ti_Total i) > tu_TotalTokens p then ti_Total i else p) infos (inherited infos)"

lemma inherited_snoc: "infos \<noteq> [] \<Longrightarrow> inherited (infos @ [i]) = inherited infos"
  by (simp add: inherited_def split: list.split)

lemma reached_snoc: "reached (infos @ [i]) =
   (let p = base_total i (if infos = [] then None else Some (reached infos))
    in if tu_TotalTokens (ti_Total i) > tu_TotalTokens p then ti_Total i else p)"
  by (cases infos) (simp_all add: reached_def inherited_def base_total_def Let_def)

lemma count_key_total: "count_key s n = count_key s' n' \<Longrightarrow> n = n'"
proof -
  have nocolon: "CHR '':'' \<notin> set (decimal i)" for i
    using decimal_nat_digits[of "CHR '':''"] by (auto simp: decimal_def)
  have tail: "takeWhile (\<lambda>c. c \<noteq> CHR '':'') (rev (count_key s i)) = rev (decimal i)" for s i
  proof -
    have "rev (count_key s i) = rev (decimal i) @ CHR '':'' # rev (''codex:'' @ s @ '':tc'')"
      by (simp add: count_key_def)
    moreover have "takeWhile (\<lambda>c. c \<noteq> CHR '':'') (rev (decimal i) @ CHR '':'' # rev (''codex:'' @ s @ '':tc'')) = rev (decimal i)"
      using nocolon[of i] by (subst takeWhile_append2) auto
    ultimately show ?thesis by simp
  qed
  assume "count_key s n = count_key s' n'"
  then have "rev (decimal n) = rev (decimal n')" using tail by metis
  then show "n = n'" by (simp add: decimal_inj)
qed

text \<open>The invariant of \<open>Parse\<close>: the fallback events are the running total so far, each under a
  key of its own; a record is never one of them.\<close>

definition keyed_by :: "event list \<Rightarrow> int list \<Rightarrow> bool" where
  "keyed_by es ns \<longleftrightarrow> list_all2 (\<lambda>e n. ev_Aggregated e \<and> (\<exists>s. ev_DedupeKey e = count_key s n)) es ns \<and> sorted_wrt (<) ns"

definition unrouted :: "event \<Rightarrow> bool" where "unrouted e \<longleftrightarrow> \<not> ev_ThirdParty e \<and> ev_Gateway e = []"

definition tallied :: "token_info list \<Rightarrow> rollout_state \<Rightarrow> bool" where
  "tallied infos st \<longleftrightarrow>
     rs_PrevTotal st = (if infos = [] then None else Some (reached infos)) \<and>
     all_tokens (rs_Fallback st) = usage_tokens (usage_sub (reached infos) (inherited infos)) \<and>
     (\<exists>ns. keyed_by (rs_Fallback st) ns \<and> (\<forall>n\<in>set ns. infos \<noteq> [] \<and> n \<le> tu_TotalTokens (reached infos))) \<and>
     (\<forall>e\<in>set (rs_Records st). \<not> ev_Aggregated e \<and> unrouted e) \<and> (\<forall>e\<in>set (rs_Fallback st). unrouted e) \<and>
     \<not> ro_Skipped (rs_Res st)"

lemma tallied_unchanged:
  "tallied infos st \<Longrightarrow> rs_PrevTotal st' = rs_PrevTotal st \<Longrightarrow> rs_Fallback st' = rs_Fallback st \<Longrightarrow>
   (\<forall>e\<in>set (rs_Records st'). e \<in> set (rs_Records st) \<or> \<not> ev_Aggregated e \<and> unrouted e) \<Longrightarrow>
   ro_Skipped (rs_Res st') = ro_Skipped (rs_Res st) \<Longrightarrow> tallied infos st'"
  unfolding tallied_def by auto

lemma keyed_by_snoc:
  "keyed_by es ns \<Longrightarrow> ev_Aggregated e \<Longrightarrow> ev_DedupeKey e = count_key s n \<Longrightarrow> \<forall>k\<in>set ns. k < n \<Longrightarrow> keyed_by (es @ [e]) (ns @ [n])"
  by (auto simp: keyed_by_def sorted_wrt_append intro!: list_all2_appendI)

lemma keyed_by_distinct:
  assumes "keyed_by es ns"
  shows "distinct (map ev_DedupeKey es)"
proof -
  have "\<forall>i<length es. \<exists>s. ev_DedupeKey (es ! i) = count_key s (ns ! i)" and len: "length es = length ns"
    and "distinct ns"
    using assms by (auto simp: keyed_by_def list_all2_conv_all_nth strict_sorted_iff)
  then show ?thesis
    by (simp add: distinct_conv_nth) (metis count_key_total)
qed

lemma tallied_read_count:
  assumes c: "tallied infos st"
  shows "tallied (infos @ [i]) (read_count l i st)"
proof -
  define p where "p = base_total i (if infos = [] then None else Some (reached infos))"
  have prev: "base_total i (rs_PrevTotal st) = p" and rec: "\<forall>e\<in>set (rs_Records st). \<not> ev_Aggregated e \<and> unrouted e" "\<forall>e\<in>set (rs_Fallback st). unrouted e"
    and sk: "\<not> ro_Skipped (rs_Res st)"
    using c by (simp_all add: tallied_def p_def)
  obtain ns where ns: "keyed_by (rs_Fallback st) ns" "\<forall>n\<in>set ns. infos \<noteq> [] \<and> n \<le> tu_TotalTokens (reached infos)"
    using c by (auto simp: tallied_def)
  have bound: "\<forall>n\<in>set ns. n \<le> tu_TotalTokens p" using ns(2) by (auto simp: p_def base_total_def)
  have sum: "all_tokens (rs_Fallback st) = usage_tokens (usage_sub p (inherited (infos @ [i])))"
  proof (cases "infos = []")
    case True
    with c show ?thesis
      by (simp add: tallied_def p_def base_total_def inherited_def reached_def usage_tokens_none)
  next
    case False
    with c show ?thesis by (simp add: tallied_def p_def base_total_def inherited_snoc)
  qed
  have reach: "reached (infos @ [i]) = (if tu_TotalTokens (ti_Total i) > tu_TotalTokens p then ti_Total i else p)"
    by (simp add: reached_snoc p_def Let_def)
  show ?thesis
  proof (cases "tu_TotalTokens (ti_Total i) \<le> tu_TotalTokens p")
    case True
    then have "reached (infos @ [i]) = p" and "read_count l i st = st\<lparr>rs_PrevTotal := Some p\<rparr>"
      using reach prev by (simp_all add: read_count_def Let_def)
    then show ?thesis using sum ns(1) bound rec sk by (auto simp: tallied_def)
  next
    case False
    then have r: "reached (infos @ [i]) = ti_Total i" using reach by simp
    define e where "e = zero_event\<lparr>ev_DedupeKey := count_key (ro_SessionID (rs_Res st)) (tu_TotalTokens (ti_Total i)),
      ev_SessionID := ro_SessionID (rs_Res st), ev_Aggregated := True, ev_Model := rs_Model st,
      ev_OccurredAt := rn_Timestamp l, ev_Tokens := usage_tokens (usage_sub (ti_Total i) p)\<rparr>"
    have st': "read_count l i st = st\<lparr>rs_PrevTotal := Some (ti_Total i), rs_Fallback := rs_Fallback st @ [e]\<rparr>"
      using False prev by (simp add: read_count_def Let_def e_def)
    have "all_tokens (rs_Fallback st @ [e]) = Tokens_Add (all_tokens (rs_Fallback st)) (ev_Tokens e)"
      by (simp add: all_tokens_def)
    also have "\<dots> = usage_tokens (usage_sub (ti_Total i) (inherited (infos @ [i])))"
      unfolding sum by (simp add: e_def usage_tokens_telescope)
    finally have sum': "all_tokens (rs_Fallback st @ [e]) = usage_tokens (usage_sub (ti_Total i) (inherited (infos @ [i])))" .
    have "keyed_by (rs_Fallback st @ [e]) (ns @ [tu_TotalTokens (ti_Total i)])"
      using ns(1) bound False by (intro keyed_by_snoc) (auto simp: e_def)
    moreover have "\<forall>n\<in>set (ns @ [tu_TotalTokens (ti_Total i)]). infos @ [i] \<noteq> [] \<and> n \<le> tu_TotalTokens (reached (infos @ [i]))"
      using bound False r by auto
    ultimately have "\<exists>ns. keyed_by (rs_Fallback st @ [e]) ns \<and> (\<forall>n\<in>set ns. infos @ [i] \<noteq> [] \<and> n \<le> tu_TotalTokens (reached (infos @ [i])))"
      by blast
    moreover have "unrouted e" by (simp add: e_def unrouted_def zero_event_def)
    ultimately show ?thesis using sum' r rec sk by (simp add: tallied_def st')
  qed
qed

lemma tallied_read_event:
  assumes "tallied infos st"
  shows "tallied (infos @ (if em_Type msg = ''token_count'' then (case em_Info msg of None \<Rightarrow> [] | Some i \<Rightarrow> [i]) else []))
    (read_event l msg st)"
proof (cases "em_Type msg = ''token_count''")
  case True
  define st1 where "st1 = (case snapshotFrom (em_RateLimits msg) (rn_Timestamp l) of None \<Rightarrow> st
     | Some s \<Rightarrow> st\<lparr>rs_Res := (rs_Res st)\<lparr>ro_Snapshots := ro_Snapshots (rs_Res st) @ [s]\<rparr>\<rparr>)"
  have "tallied infos st1"
    by (rule tallied_unchanged[OF assms]) (auto simp: st1_def split: option.split)
  then show ?thesis using True tallied_read_count
    by (simp add: read_event_def flip: st1_def split: option.split)
qed (use assms in \<open>simp add: read_event_def\<close>)

lemma tallied_read_line:
  assumes c: "tallied infos st" and st': "read_line J raw st = Inr st'"
  shows "tallied (infos @ List.map_filter (line_count J) [raw]) st'"
proof -
  note same = tallied_unchanged[OF c]
  have bad: "tallied infos (bad_line st)" by (rule same) (simp_all add: bad_line_def)
  have model: "tallied infos (st\<lparr>rs_Model := m\<rparr>)" for m by (rule same) simp_all
  have "record": "tallied infos (read_record l rec st)" for l rec
    by (rule same) (auto simp: read_record_def bad_line_def Let_def zero_event_def unrouted_def)
  have sess: "tallied infos s" if "read_meta m st = Inr s" for m s
    using that by (intro same) (auto simp: read_meta_def Let_def split: if_splits)
  note ev = tallied_read_event[OF c]
  show ?thesis
  proof (cases "trim_space raw = []")
    case True
    then show ?thesis using c st' by (simp add: read_line_def line_count_def List.map_filter_def split: option.split)
  next
    case raw: False
    show ?thesis
    proof (cases "rj_line J (trim_space raw)")
      case None
      then show ?thesis using raw st' bad by (auto simp: read_line_def line_count_def List.map_filter_def)
    next
      case (Some l)
      show ?thesis
      proof (cases "rn_Type l = ''event_msg''")
        case False
        then have "line_count J raw = None" using Some by (simp add: line_count_def)
        then show ?thesis using False Some raw st' c bad model "record" sess
          by (auto simp: read_line_def List.map_filter_def split: option.splits if_splits)
      next
        case True
        show ?thesis
        proof (cases "rj_event J (rn_Payload l)")
          case None
          then show ?thesis using True Some raw st' c by (simp add: read_line_def line_count_def List.map_filter_def)
        next
          case msg: (Some msg)
          then have "st' = read_event l msg st" using True Some raw st' by (simp add: read_line_def)
          moreover have "line_count J raw = (if em_Type msg = ''token_count'' then em_Info msg else None)"
            using True Some raw msg by (simp add: line_count_def)
          ultimately show ?thesis using ev[of msg l]
            by (cases "em_Info msg") (auto simp: List.map_filter_def split: if_splits)
        qed
      qed
    qed
  qed
qed

lemma tallied_read_lines:
  "tallied infos st \<Longrightarrow> read_lines J raws st = Inr st' \<Longrightarrow> tallied (infos @ List.map_filter (line_count J) raws) st'"
proof (induction raws arbitrary: infos st)
  case Nil
  then show ?case by (simp add: List.map_filter_def)
next
  case (Cons raw raws)
  then obtain st1 where st1: "read_line J raw st = Inr st1" "read_lines J raws st1 = Inr st'"
    by (auto split: sum.splits)
  have "infos @ List.map_filter (line_count J) (raw # raws) =
      (infos @ List.map_filter (line_count J) [raw]) @ List.map_filter (line_count J) raws"
    by (simp add: List.map_filter_def)
  then show ?case using Cons.IH[OF tallied_read_line[OF Cons.prems(1) st1(1)] st1(2)] by simp
qed

lemma tallied_start: "tallied [] rollout_start"
  by (simp add: tallied_def rollout_start_def keyed_by_def all_tokens_def reached_def usage_tokens_none)

lemma skipped_read_lines:
  "read_lines J raws st = Inl r \<Longrightarrow> ro_Skipped r \<and> ro_Events r = [] \<and> ro_Snapshots r = []"
proof (induction raws arbitrary: st)
  case (Cons raw raws)
  have "ro_Skipped r \<and> ro_Events r = [] \<and> ro_Snapshots r = []" if "read_line J raw st = Inl r"
    using that by (auto simp: read_line_def read_meta_def Let_def split: option.splits if_splits)
  with Cons show ?case by (auto split: sum.splits)
qed simp

lemma codex_event_simps [simp]:
  "ev_Aggregated (codex_event org e) = ev_Aggregated e" "ev_DedupeKey (codex_event org e) = ev_DedupeKey e"
  "ev_Tokens (codex_event org e) = ev_Tokens e" "ev_Provider (codex_event org e) = ProviderOpenAI"
  "ev_Product (codex_event org e) = ProductCodex" "ev_Model (codex_event org e) = ev_Model e"
  by (simp_all add: codex_event_def Let_def)

lemma codex_event_routed:
  "unrouted e \<Longrightarrow> ev_ThirdParty (codex_event org e) = routedModel (ev_Model e)"
  "unrouted e \<Longrightarrow> (ev_Gateway (codex_event org e) = GatewayOpenCodex) = routedModel (ev_Model e)"
  by (simp_all add: codex_event_def Let_def unrouted_def GatewayOpenCodex_def)

lemma all_tokens_map: "(\<And>e. ev_Tokens (f e) = ev_Tokens e) \<Longrightarrow> all_tokens (map f es) = all_tokens es"
  by (simp add: all_tokens_def fold_map comp_def)

lemma parsed_session:
  assumes "Rollout_Parse J content False = Some r" "\<not> ro_Skipped r"
  obtains st where "tallied (session_counts J content) st" "r = finish_rollout st"
proof -
  from assms obtain st where "read_lines J (complete_lines content) rollout_start = Inr st" "r = finish_rollout st"
    by (auto simp: Rollout_Parse_def dest: skipped_read_lines split: sum.splits)
  moreover from this have "tallied (session_counts J content) st"
    using tallied_read_lines[OF tallied_start] by (simp add: session_counts_def)
  ultimately show ?thesis using that by blast
qed

text \<open>
  C8. When a session file has no per-request records, the events tallied from its running
  totals add up, in every counter and modulo the width of \<open>int64\<close>, to exactly what the session
  itself used: the highest total it reaches less what it inherited from its parent. Counts
  repeated, out of order or falling behind add nothing, and no two events share a key.
\<close>

theorem Rollout_counts_add_up:
  assumes "Rollout_Parse J content False = Some r" and "\<not> ro_Skipped r" and "list_all ev_Aggregated (ro_Events r)"
  shows "all_tokens (ro_Events r) =
      usage_tokens (usage_sub (reached (session_counts J content)) (inherited (session_counts J content))) \<and>
    distinct (map ev_DedupeKey (ro_Events r))"
proof (intro conjI)
  obtain st where st: "tallied (session_counts J content) st" and r: "r = finish_rollout st"
    using parsed_session[OF assms(1,2)] .
  have "rs_Records st = []"
  proof (rule ccontr)
    assume ne: "rs_Records st \<noteq> []"
    then have "hd (rs_Records st) \<in> set (rs_Records st)" by simp
    moreover from this have "\<not> ev_Aggregated (hd (rs_Records st))" using st by (simp add: tallied_def)
    ultimately show False using assms(3) ne by (auto simp: r finish_rollout_def list_all_iff)
  qed
  then have es: "ro_Events r = map (codex_event (rs_Originator st)) (rs_Fallback st)" by (simp add: r finish_rollout_def)
  show "all_tokens (ro_Events r) =
      usage_tokens (usage_sub (reached (session_counts J content)) (inherited (session_counts J content)))"
    using st by (simp add: es all_tokens_map tallied_def)
  from st obtain ns where "keyed_by (rs_Fallback st) ns" by (auto simp: tallied_def)
  then show "distinct (map ev_DedupeKey (ro_Events r))"
    using keyed_by_distinct by (simp add: es comp_def)
qed

definition demo_total :: "int \<Rightarrow> token_usage" where
  "demo_total n = \<lparr>tu_InputTokens = n, tu_CachedInputTokens = 0, tu_CacheWriteInputTokens = 0, tu_OutputTokens = 2 * n,
     tu_ReasoningOutputTokens = 0, tu_TotalTokens = 3 * n\<rparr>"

text \<open>Lines of \<open>m\<close> introduce the session, lines of \<open>n\<close> letters \<open>c\<close> count \<open>n + 2\<close> with two new.\<close>

definition demo_json :: rollout_json where
  "demo_json = \<lparr>rj_line = (\<lambda>raw. Some \<lparr>rn_Timestamp = 0,
       rn_Type = (if raw = ''m'' then ''session_meta'' else ''event_msg''), rn_Payload = raw\<rparr>),
     rj_meta = (\<lambda>_. Some \<lparr>sm_ID = ''s'', sm_SessionID = [], sm_Originator = ''cli'', sm_ModelProvider = ''openai''\<rparr>),
     rj_model = (\<lambda>_. None), rj_record = (\<lambda>_. None),
     rj_event = (\<lambda>raw. Some \<lparr>em_Type = ''token_count'', em_Info = Some
        \<lparr>ti_Total = demo_total (int (length raw) + 2), ti_Last = demo_total 2\<rparr>, em_RateLimits = None\<rparr>)\<rparr>"

definition demo_session :: string where
  "demo_session = ''m'' @ [newline] @ ''c'' @ [newline] @ ''cccc'' @ [newline] @ ''cc'' @ [newline] @ ''c''"

definition demo_rollout :: rollout_result where
  "demo_rollout = the (Rollout_Parse demo_json demo_session False)"

lemma demo_rollout_parsed: "Rollout_Parse demo_json demo_session False = Some demo_rollout"
  by (simp add: demo_rollout_def Rollout_Parse_def)

lemma Rollout_counts_add_up_witness:
  "all_tokens (ro_Events demo_rollout) =
      usage_tokens (usage_sub (reached (session_counts demo_json demo_session)) (inherited (session_counts demo_json demo_session))) \<and>
   distinct (map ev_DedupeKey (ro_Events demo_rollout)) \<and>
   map (tk_Output \<circ> ev_Tokens) (ro_Events demo_rollout) = [4, 6]"
proof -
  have "\<not> ro_Skipped demo_rollout" by code_simp
  moreover have "list_all ev_Aggregated (ro_Events demo_rollout)" by code_simp
  moreover have "map (tk_Output \<circ> ev_Tokens) (ro_Events demo_rollout) = [4, 6]" by code_simp
  ultimately show ?thesis using Rollout_counts_add_up[OF demo_rollout_parsed] by blast
qed

text \<open>
  A session is tallied either by its per-request records or by its running totals, never by
  both, and always as usage of Codex on the ChatGPT account, third-party exactly when the model
  is one a gateway routed; a session on another provider counts nothing at all.
\<close>

theorem Rollout_counts_once:
  assumes "Rollout_Parse J content False = Some r"
  shows "(list_all ev_Aggregated (ro_Events r) \<or> list_all (\<lambda>e. \<not> ev_Aggregated e) (ro_Events r)) \<and>
    list_all (\<lambda>e. ev_Provider e = ProviderOpenAI \<and> ev_Product e = ProductCodex \<and>
      ev_ThirdParty e = routedModel (ev_Model e) \<and> (ev_Gateway e = GatewayOpenCodex) = routedModel (ev_Model e)) (ro_Events r) \<and>
    (ro_Events r \<noteq> [] \<or> ro_Snapshots r \<noteq> [] \<longrightarrow> \<not> ro_Skipped r)"
proof (cases "ro_Skipped r")
  case True
  with assms have "\<exists>st. read_lines J (complete_lines content) rollout_start = Inl r"
    using tallied_read_lines[OF tallied_start]
    by (auto simp: Rollout_Parse_def finish_rollout_def tallied_def split: sum.splits)
  then show ?thesis using skipped_read_lines by fastforce
next
  case False
  obtain st where st: "tallied (session_counts J content) st" and r: "r = finish_rollout st"
    using parsed_session[OF assms False] .
  have "list_all ev_Aggregated (rs_Fallback st)"
    using st by (auto simp: tallied_def keyed_by_def list_all2_conv_all_nth list_all_length)
  moreover have "list_all (\<lambda>e. \<not> ev_Aggregated e) (rs_Records st)" using st by (simp add: tallied_def list_all_iff)
  moreover have "\<forall>e\<in>set (rs_Fallback st) \<union> set (rs_Records st). unrouted e" using st by (auto simp: tallied_def)
  ultimately show ?thesis using False
    by (auto simp: r finish_rollout_def list_all_iff codex_event_routed)
qed

lemma Rollout_counts_once_witness:
  "list_all ev_Aggregated (ro_Events demo_rollout) \<and> \<not> ro_Skipped demo_rollout \<and> length (ro_Events demo_rollout) = 2"
proof -
  have n: "length (ro_Events demo_rollout) = 2" by code_simp
  have "ev_Aggregated (hd (ro_Events demo_rollout))" by code_simp
  then have "\<not> list_all (\<lambda>e. \<not> ev_Aggregated e) (ro_Events demo_rollout)"
    using n by (cases "ro_Events demo_rollout") auto
  then show ?thesis using n Rollout_counts_once[OF demo_rollout_parsed] by auto
qed

end
