(* ===== verification/Observers.thy ===== *)
theory Observers
  imports Rollouts
begin

text \<open>
  Which account each app is signed into: \<open>provider/anthropic/identity/identity.go\<close> (the answer of
  \<open>claude auth status\<close>), \<open>provider/openai/codex/appserver/appserver.go\<close> (two calls to Codex's app
  server, which also tell its limits) and \<open>Observe\<close> of \<open>provider/google/antigravity/antigravity.go\<close>.
  The processes and files are outside the model: their answers arrive decoded, \<open>None\<close> where the
  code gets an error.
\<close>

definition unknown_observation :: "provider \<Rightarrow> time \<Rightarrow> observation" where
  "unknown_observation p now = \<lparr>ob_DeviceID = [], ob_Provider = p, ob_Source = SourceCLI, ob_ExternalRefHash = [],
     ob_Hint = [], ob_PlanType = [], ob_ObservedAt = now\<rparr>"

section \<open>Claude Code\<close>

record auth_status =
  au_LoggedIn :: bool
  au_AuthMethod :: string
  au_Email :: string
  au_OrgID :: string
  au_SubscriptionType :: string

definition parse_identity :: "(string \<Rightarrow> string) \<Rightarrow> auth_status option \<Rightarrow> time \<Rightarrow> observation option" where
  "parse_identity sha out now = (case out of None \<Rightarrow> None | Some st \<Rightarrow>
     (let ob = unknown_observation ProviderAnthropic now; ref = or_else (au_OrgID st) (au_Email st) in
      if \<not> au_LoggedIn st \<or> au_AuthMethod st \<noteq> ''claude.ai'' \<or> ref = [] then Some ob
      else Some (ob\<lparr>ob_ExternalRefHash := HashExternalRef sha ProviderAnthropic ref,
             ob_Hint := MaskRef (or_else (au_Email st) (au_OrgID st)), ob_PlanType := au_SubscriptionType st\<rparr>)))"

section \<open>Codex\<close>

record codex_account =
  ca_Type :: string
  ca_Email :: string
  ca_PlanType :: string

record codex_window =
  cw_UsedPercent :: f64
  cw_WindowDurationMins :: int
  cw_ResetsAt :: int

record codex_limits =
  cx_AccountID :: "string option"
  cx_Windows :: "(codex_window option \<times> codex_window option) option"

text \<open>The response lines of the server up to the one with the ID of the call: what it waits for.\<close>

datatype rpc_answer = RpcError string | RpcResult string

record rpc_line =
  rp_ID :: "int option"
  rp_Answer :: rpc_answer

fun call :: "int \<Rightarrow> rpc_line option list \<Rightarrow> (string option) \<times> rpc_line option list" where
  "call i [] = (None, [])"
| "call i (l # ls) =
     (case l of
        None \<Rightarrow> call i ls
      | Some r \<Rightarrow> if rp_ID r \<noteq> Some i then call i ls
                  else (case rp_Answer r of RpcError _ \<Rightarrow> (None, ls) | RpcResult payload \<Rightarrow> (Some payload, ls)))"

definition codex_buckets :: "codex_limits \<Rightarrow> bucket list" where
  "codex_buckets limits = (case cx_Windows limits of None \<Rightarrow> [] | Some (primary, secondary) \<Rightarrow>
     List.map_filter (map_option (\<lambda>w. BucketFromWindow (cw_UsedPercent w) (cw_WindowDurationMins w) (cw_ResetsAt w))) [primary, secondary])"

text \<open>\<open>Read\<close> on the lines the server answers with; the decoders are those of the two answers.\<close>

definition codex_read ::
  "(string \<Rightarrow> string) \<Rightarrow> (string \<Rightarrow> codex_account option option) \<Rightarrow> (string \<Rightarrow> codex_limits option) \<Rightarrow>
   rpc_line option list \<Rightarrow> time \<Rightarrow> (observation \<times> snapshot option) option" where
  "codex_read sha decodeAccount decodeLimits answers now =
     (case call 1 answers of
        (None, _) \<Rightarrow> None
      | (Some _, answers) \<Rightarrow> (case call 2 answers of
          (None, _) \<Rightarrow> None
        | (Some rawAccount, answers) \<Rightarrow> (case decodeAccount rawAccount of
            None \<Rightarrow> None
          | Some None \<Rightarrow> Some (unknown_observation ProviderOpenAI now, None)
          | Some (Some acct) \<Rightarrow>
              if ca_Type acct \<noteq> ''chatgpt'' then Some (unknown_observation ProviderOpenAI now, None)
              else (case call 3 answers of
                (None, _) \<Rightarrow> None
              | (Some rawLimits, _) \<Rightarrow> (case decodeLimits rawLimits of
                  None \<Rightarrow> None
                | Some limits \<Rightarrow>
                    (let accountID = (case cx_AccountID limits of None \<Rightarrow> [] | Some a \<Rightarrow> a);
                         ref = or_else accountID (ca_Email acct);
                         ob = unknown_observation ProviderOpenAI now in
                     if ref = [] then Some (ob, None)
                     else let h = HashExternalRef sha ProviderOpenAI ref;
                              ob = ob\<lparr>ob_ExternalRefHash := h, ob_Hint := MaskRef (or_else (ca_Email acct) accountID),
                                      ob_PlanType := ca_PlanType acct\<rparr>;
                              buckets = codex_buckets limits
                          in Some (ob, if buckets = [] then None
                               else Some \<lparr>sn_AccountRefHash = h, sn_AccountHint = [], sn_PlanType = [], sn_DeviceID = [],
                                 sn_Provider = ProviderOpenAI, sn_ObservedAt = now, sn_Source = SourceCodexRPC,
                                 sn_Buckets = buckets\<rparr>)))))))"

section \<open>Antigravity\<close>

text \<open>\<open>google_accounts.json\<close>: missing, unreadable or not JSON, or its active account.\<close>

datatype accounts_file = NoAccountsFile | BadAccountsFile | ActiveAccount string

definition agy_observe :: "(string \<Rightarrow> string) \<Rightarrow> accounts_file \<Rightarrow> time \<Rightarrow> observation option" where
  "agy_observe sha f now =
     (let ob = unknown_observation ProviderGoogle now in
      case f of
        NoAccountsFile \<Rightarrow> Some ob
      | BadAccountsFile \<Rightarrow> None
      | ActiveAccount active \<Rightarrow>
          (let email = trim_space active in
           if email = [] then Some ob
           else Some (ob\<lparr>ob_ExternalRefHash := HashExternalRef sha ProviderGoogle (to_lower email),
                  ob_Hint := MaskRef email\<rparr>)))"

section \<open>What an observer tells\<close>

text \<open>An observation names no device and is of the CLI; a limit snapshot is of the very account the
  observation names, so a reading never goes to another account than the sign-in it came with.\<close>

lemma codex_read_snapshot:
  assumes "codex_read sha decodeAccount decodeLimits answers now = Some (ob, Some sn)"
  shows "sn_AccountRefHash sn = ob_ExternalRefHash ob \<and> sn_Provider sn = ob_Provider ob \<and> sn_ObservedAt sn = ob_ObservedAt ob"
  using assms by (auto simp: codex_read_def Let_def unknown_observation_def split: option.splits prod.splits if_splits)

lemma observers_cli:
  "parse_identity sha out now = Some ob \<Longrightarrow> ob_Provider ob = ProviderAnthropic \<and> ob_Source ob = SourceCLI \<and> ob_ObservedAt ob = now"
  "codex_read sha da dl answers now = Some (ob, sn) \<Longrightarrow> ob_Provider ob = ProviderOpenAI \<and> ob_Source ob = SourceCLI \<and> ob_ObservedAt ob = now"
  "agy_observe sha f now = Some ob \<Longrightarrow> ob_Provider ob = ProviderGoogle \<and> ob_Source ob = SourceCLI \<and> ob_ObservedAt ob = now"
  by (auto simp: parse_identity_def codex_read_def agy_observe_def Let_def unknown_observation_def
      split: option.splits prod.splits if_splits accounts_file.splits)

end
