(* ===== verification/OpenCodexLog.thy ===== *)
theory OpenCodexLog
  imports LogFiles
begin

text \<open>
  \<open>internal/provider/opencodex/opencodex.go\<close> and \<open>internal/client/agent/opencodex.go\<close>: OpenCodex's
  request log, read again only when its size or time changes, and the one record of it that a
  client's request can be. \<open>decode\<close> is what \<open>json.Unmarshal\<close> makes of a line.
\<close>

definition MainChatGPT :: string where "MainChatGPT = ''openai''"

record codex_log_usage =
  ou_InputTokens :: int
  ou_OutputTokens :: int
  ou_CacheReadInputTokens :: int
  ou_CacheCreationInputTokens :: int

record codex_log_line =
  ol_Timestamp :: int
  ol_Provider :: string
  ol_Status :: int
  ol_Usage :: "codex_log_usage option"

record codex_record =
  oc_At :: time
  oc_Provider :: string
  oc_Input :: int
  oc_CacheRead :: int
  oc_CacheWrite :: int
  oc_Output :: int

definition record_of :: "codex_log_line option \<Rightarrow> codex_record option" where
  "record_of decoded = (case decoded of None \<Rightarrow> None | Some l \<Rightarrow>
     (case ol_Usage l of None \<Rightarrow> None | Some u \<Rightarrow>
        if ol_Status l \<noteq> 200 \<or> ol_Provider l = [] then None
        else Some \<lparr>oc_At = of_unix_milli (ol_Timestamp l), oc_Provider = ol_Provider l, oc_Input = ou_InputTokens u,
          oc_CacheRead = ou_CacheReadInputTokens u, oc_CacheWrite = ou_CacheCreationInputTokens u,
          oc_Output = ou_OutputTokens u\<rparr>))"

definition parse_records :: "(string \<Rightarrow> codex_log_line option) \<Rightarrow> string \<Rightarrow> bool \<Rightarrow> codex_record list option" where
  "parse_records decode content fails =
     (if fails then None else Some (List.map_filter (\<lambda>raw. record_of (decode raw)) (complete_lines content)))"

text \<open>What opening a file finds; a file that opens has bytes, and reading them may fail.\<close>

datatype opened = NotThere | CannotOpen | Opened string bool

definition Read_records :: "(string \<Rightarrow> codex_log_line option) \<Rightarrow> opened \<Rightarrow> codex_record list option" where
  "Read_records decode f = (case f of NotThere \<Rightarrow> Some [] | CannotOpen \<Rightarrow> None | Opened content fails \<Rightarrow> parse_records decode content fails)"

definition matchWindow :: duration where "matchWindow = 10 * minute"

definition near :: "codex_record \<Rightarrow> time \<Rightarrow> bool" where
  "near r t \<longleftrightarrow> (let d = time_sub (oc_At r) t in \<not> (d < - matchWindow \<or> d > matchWindow))"

definition same_counts :: "codex_record \<Rightarrow> tokens \<Rightarrow> bool" where
  "same_counts r t \<longleftrightarrow> oc_CacheRead r = tk_CachedInput t \<and> oc_CacheWrite r = tk_CacheWrite t \<and> oc_Output r = tk_Output t \<and>
     (oc_Input r = tk_Input t \<or> wrap64 (oc_Input r - oc_CacheRead r - oc_CacheWrite r) = tk_Input t)"

definition Match :: "codex_record list \<Rightarrow> time \<Rightarrow> tokens \<Rightarrow> codex_record option" where
  "Match records t counts =
     (case filter (\<lambda>r. near r t \<and> same_counts r counts) records of [r] \<Rightarrow> Some r | _ \<Rightarrow> None)"

section \<open>The cached log\<close>

record codex_log =
  cg_size :: int
  cg_modTime :: time
  cg_recs :: "codex_record list"

text \<open>Without a home directory there is no path to look at; without a file its state is an error.\<close>

datatype log_stat = NoPath | NoStat | Stat int time

definition cached_records :: "log_stat \<Rightarrow> codex_record list option \<Rightarrow> codex_log \<Rightarrow> codex_log \<times> codex_record list" where
  "cached_records st content l =
     (case st of
        NoPath \<Rightarrow> (l, [])
      | NoStat \<Rightarrow> (l\<lparr>cg_recs := [], cg_size := 0\<rparr>, [])
      | Stat bytes modTime \<Rightarrow>
          if bytes = cg_size l \<and> modTime = cg_modTime l then (l, cg_recs l)
          else (case content of
                  None \<Rightarrow> (l, cg_recs l)
                | Some recs \<Rightarrow> (\<lparr>cg_size = bytes, cg_modTime = modTime, cg_recs = recs\<rparr>, recs)))"

lemma Match_unique:
  "Match records t counts = Some r \<Longrightarrow> r \<in> set records \<and> near r t \<and> same_counts r counts \<and>
     (\<forall>q \<in> set records. near q t \<and> same_counts q counts \<longrightarrow> q = r)"
proof -
  assume "Match records t counts = Some r"
  then have "filter (\<lambda>r. near r t \<and> same_counts r counts) records = [r]"
    by (auto simp: Match_def split: list.splits)
  then have "set (filter (\<lambda>r. near r t \<and> same_counts r counts) records) = {r}" by simp
  then show ?thesis by auto
qed

lemma cached_records_current:
  "snd (cached_records (Stat n m) (Some recs) l) = (if n = cg_size l \<and> m = cg_modTime l then cg_recs l else recs)"
  by (simp add: cached_records_def)

end
