(* ===== verification/StatusLine.thy ===== *)
theory StatusLine
  imports Quota
begin

text \<open>
  \<open>internal/provider/anthropic/statusline/statusline.go\<close>: the spool of rate limits that Claude
  Code's statusLine shim writes, one file per session, and the agent reads. The spool directory
  is the map of its files; a file holds what its JSON decodes to (\<open>None\<close> when it does not) and
  the time it was last written.
\<close>

record limit_reading =
  lr_UsedPercentage :: f64
  lr_ResetsAt :: int

record session_limits =
  sl_FiveHour :: "limit_reading option"
  sl_SevenDay :: "limit_reading option"

record spool_input =
  si_SessionID :: string
  si_RateLimits :: "session_limits option"

record spool_entry =
  sp_SessionID :: string
  sp_ObservedAt :: time
  sp_RateLimits :: "session_limits option"

record spool_file =
  sf_Entry :: "spool_entry option"
  sf_ModTime :: time

type_synonym spool_dir = "(string, spool_file) gomap"

definition spool_name :: "string \<Rightarrow> string" where "spool_name session = session @ ''.json''"

text \<open>The shim's write: the directory after it and whether it failed.\<close>

definition spool :: "spool_input option \<Rightarrow> time \<Rightarrow> spool_dir \<Rightarrow> spool_dir \<times> bool" where
  "spool decoded now dir = (case decoded of None \<Rightarrow> (dir, True) | Some i \<Rightarrow>
     if si_RateLimits i = None \<or> si_SessionID i = [] \<or> CHR ''/'' \<in> set (si_SessionID i) \<or> CHR 0x5C \<in> set (si_SessionID i)
     then (dir, False)
     else (let name = spool_name (si_SessionID i);
               unchanged = (case map_of dir name of None \<Rightarrow> False
                 | Some f \<Rightarrow> (case sf_Entry f of None \<Rightarrow> False | Some old \<Rightarrow> sp_RateLimits old = si_RateLimits i))
           in if unchanged then (dir, False)
              else (put name \<lparr>sf_Entry = Some \<lparr>sp_SessionID = si_SessionID i, sp_ObservedAt = now,
                      sp_RateLimits = si_RateLimits i\<rparr>, sf_ModTime = now\<rparr> dir, False)))"

definition spool_bucket :: "bucket_key \<Rightarrow> int \<Rightarrow> limit_reading option \<Rightarrow> bucket list" where
  "spool_bucket key minutes w = (case w of None \<Rightarrow> [] | Some w \<Rightarrow>
     [\<lparr>bk_Key = key, bk_UsedPercent = Some (lr_UsedPercentage w),
       bk_ResetsAt = (if lr_ResetsAt w > 0 then Some (lr_ResetsAt w * second) else None), bk_WindowMinutes = Some minutes\<rparr>])"

definition toSnapshot :: "spool_entry \<Rightarrow> session_limits \<Rightarrow> snapshot option" where
  "toSnapshot e limits =
     (let buckets = spool_bucket BucketFiveHour FiveHourMinutes (sl_FiveHour limits) @
                    spool_bucket BucketWeekly WeeklyMinutes (sl_SevenDay limits)
      in if buckets = [] then None
         else Some \<lparr>sn_AccountRefHash = [], sn_AccountHint = [], sn_PlanType = [], sn_DeviceID = [],
           sn_Provider = ProviderAnthropic, sn_ObservedAt = sp_ObservedAt e, sn_Source = SourceClaudeStatusLine,
           sn_Buckets = buckets\<rparr>)"

record spooled =
  sd_SessionID :: string
  sd_Snapshot :: snapshot

definition read_entry :: "string \<times> spool_file \<Rightarrow> spooled option" where
  "read_entry nf = (if \<not> has_suffix (fst nf) ''.json'' then None
     else case sf_Entry (snd nf) of None \<Rightarrow> None | Some e \<Rightarrow> (case sp_RateLimits e of None \<Rightarrow> None | Some limits \<Rightarrow>
       map_option (\<lambda>s. \<lparr>sd_SessionID = sp_SessionID e, sd_Snapshot = s\<rparr>) (toSnapshot e limits)))"

text \<open>The directory is listed in the order of its names.\<close>

definition ReadSpool :: "spool_dir \<Rightarrow> spooled list" where
  "ReadSpool dir = List.map_filter read_entry (sort_by (\<lambda>a b. fst a < fst b) dir)"

definition PruneSpool :: "duration \<Rightarrow> time \<Rightarrow> spool_dir \<Rightarrow> spool_dir" where
  "PruneSpool maxAge now dir = filter (\<lambda>(_, f). \<not> time_sub now (sf_ModTime f) > maxAge) dir"

text \<open>What the shim spools is what the agent reads: the session's limits at that time.\<close>

lemma spool_read:
  assumes "spool (Some i) now dir = (dir', False)" "dir' \<noteq> dir"
    and "si_RateLimits i = Some limits" "toSnapshot e limits = Some s" "sp_ObservedAt e = now"
  shows "\<lparr>sd_SessionID = si_SessionID i, sd_Snapshot = s\<rparr> \<in> set (ReadSpool dir')"
proof -
  let ?f = "\<lparr>sf_Entry = Some \<lparr>sp_SessionID = si_SessionID i, sp_ObservedAt = now, sp_RateLimits = Some limits\<rparr>, sf_ModTime = now\<rparr>"
  have dir': "dir' = put (spool_name (si_SessionID i)) ?f dir"
    using assms(1,2,3) by (auto simp: spool_def Let_def split: if_splits)
  have "map_of dir' (spool_name (si_SessionID i)) = Some ?f" by (simp add: dir' update_conv')
  then have "(spool_name (si_SessionID i), ?f) \<in> set dir'" by (rule map_of_SomeD)
  moreover have "read_entry (spool_name (si_SessionID i), ?f) = Some \<lparr>sd_SessionID = si_SessionID i, sd_Snapshot = s\<rparr>"
    using assms(4,5) by (simp add: read_entry_def spool_name_def toSnapshot_def Let_def split: if_splits)
  ultimately show ?thesis by (force simp: ReadSpool_def List.map_filter_def)
qed

end
