(* ===== verification/AgentIngest.thy ===== *)
theory AgentIngest
  imports ClientStore Transcripts Observers OpenCodexLog StatusLine
begin

text \<open>
  \<open>internal/client/agent/ingest.go\<close>, \<open>observe.go\<close> and the rebuild of \<open>resync.go\<close>, with
  \<open>internal/scan/scan.go\<close> and the entrypoints of \<open>provider/anthropic/desktop/desktop.go\<close>: the agent
  that watches the logs of Claude Code, Codex and Antigravity, decides which pooled account each
  request drew on, and stores it in the local ledger.

  What the computer answers is the record \<open>host\<close>: the session files and their contents, the
  decoders of JSON, the sign-ins observed, the sessions Claude Desktop filed, OpenCodex's log and
  the clock at each file. Logging and the wake-ups of other loops are left out.
\<close>

section \<open>Changed files\<close>

definition Changed :: "(string, file_state) gomap \<Rightarrow> (string, file_state) gomap \<Rightarrow> string list" where
  "Changed known current = map fst (filter (\<lambda>(path, st). case map_of known path of
     None \<Rightarrow> True | Some prev \<Rightarrow> fs_Size prev \<noteq> fs_Size st \<or> fs_ModTime prev \<noteq> fs_ModTime st) current)"

section \<open>The host\<close>

record parsed_log =
  pl_Events :: "event list"
  pl_Limits :: "limit_event list"
  pl_Snapshots :: "snapshot list"
  pl_BadLines :: int

datatype observe_outcome = NotInstalled | ObserveFailed string | Seen observation "snapshot option"

datatype scan_error = ListError | SessionsError | ParseError string

record host =
  ho_Listing :: "provider \<Rightarrow> (string, file_state) gomap option"
  ho_File :: "string \<Rightarrow> opened"
  ho_ClaudeLine :: "string \<Rightarrow> claude_line option"
  ho_CodexJson :: rollout_json
  ho_AgyParse :: "string \<Rightarrow> event list option"
  ho_Observe :: "provider \<Rightarrow> observe_outcome"
  ho_Desktop :: "(string, string) gomap option"
  ho_OpenCodex :: "event \<Rightarrow> codex_record list"
  ho_Clock :: "string \<Rightarrow> time"
  ho_Now :: time
  ho_ErrorText :: "scan_error \<Rightarrow> string"

definition claude_log :: "transcript_result \<Rightarrow> parsed_log" where
  "claude_log r = \<lparr>pl_Events = tx_Events r, pl_Limits = tx_LimitEvents r, pl_Snapshots = [], pl_BadLines = tx_BadLines r\<rparr>"

definition codex_log_of :: "rollout_result \<Rightarrow> parsed_log" where
  "codex_log_of r = \<lparr>pl_Events = ro_Events r, pl_Limits = [], pl_Snapshots = ro_Snapshots r, pl_BadLines = ro_BadLines r\<rparr>"

definition parseFile :: "opened \<Rightarrow> (string \<Rightarrow> bool \<Rightarrow> parsed_log option) \<Rightarrow> parsed_log option" where
  "parseFile f parse = (case f of Opened content fails \<Rightarrow> parse content fails | _ \<Rightarrow> None)"

text \<open>The sources in the order they are scanned, and how each parses a file.\<close>

definition sources :: "provider list" where "sources = [ProviderAnthropic, ProviderOpenAI, ProviderGoogle]"

definition source_parse :: "host \<Rightarrow> provider \<Rightarrow> string \<Rightarrow> parsed_log option" where
  "source_parse h p path =
     (if p = ProviderAnthropic
      then parseFile (ho_File h path) (\<lambda>content fails. map_option claude_log (Transcript_Parse (ho_ClaudeLine h) content fails))
      else if p = ProviderOpenAI
      then parseFile (ho_File h path) (\<lambda>content fails. map_option codex_log_of (Rollout_Parse (ho_CodexJson h) content fails))
      else map_option (\<lambda>es. \<lparr>pl_Events = es, pl_Limits = [], pl_Snapshots = [], pl_BadLines = 0\<rparr>) (ho_AgyParse h path))"

section \<open>Attribution\<close>

definition Entrypoints :: "string list" where "Entrypoints = [''claude-desktop'', ''local-agent'']"
definition FromDesktop :: "string \<Rightarrow> bool" where "FromDesktop entrypoint \<longleftrightarrow> entrypoint \<in> set Entrypoints"
definition DesktopThirdParty :: "string \<Rightarrow> bool" where "DesktopThirdParty entrypoint \<longleftrightarrow> entrypoint = ''claude-desktop-3p''"

record accounts =
  ac_Provider :: provider
  ac_Cli :: "observation list"
  ac_DesktopSeen :: bool
  ac_Desktop :: "(string, string) gomap"
  ac_Since :: time

definition first_seen :: "observation list \<Rightarrow> time" where
  "first_seen obs = (case obs of [] \<Rightarrow> zero_time | x # _ \<Rightarrow> ob_ObservedAt x)"

definition loadAccounts :: "provider \<Rightarrow> local_db \<Rightarrow> accounts" where
  "loadAccounts p s =
     (let cli = Observations p SourceCLI s;
          ac = \<lparr>ac_Provider = p, ac_Cli = cli, ac_DesktopSeen = False, ac_Desktop = [], ac_Since = first_seen cli\<rparr>
      in if p \<noteq> ProviderAnthropic then ac
         else case Observations p SourceClaudeDesktop s of
             [] \<Rightarrow> ac
           | d # _ \<Rightarrow> ac\<lparr>ac_DesktopSeen := True,
                ac_Since := (if ac_Since ac = zero_time \<or> ob_ObservedAt d < ac_Since ac then ob_ObservedAt d else ac_Since ac)\<rparr>)"

definition loadDesktopSessions :: "host \<Rightarrow> accounts \<Rightarrow> accounts option" where
  "loadDesktopSessions h ac =
     (if \<not> ac_DesktopSeen ac then Some ac else map_option (\<lambda>m. ac\<lparr>ac_Desktop := m\<rparr>) (ho_Desktop h))"

definition anyPooled :: "observation list \<Rightarrow> bool" where
  "anyPooled obs = list_ex (\<lambda>x. ob_ExternalRefHash x \<noteq> []) obs"

definition pooled :: "accounts \<Rightarrow> bool" where "pooled ac \<longleftrightarrow> anyPooled (ac_Cli ac) \<or> ac_DesktopSeen ac"

definition resolve :: "(string \<Rightarrow> string) \<Rightarrow> accounts \<Rightarrow> string \<Rightarrow> string \<Rightarrow> time \<Rightarrow> string option" where
  "resolve sha ac sessionID entrypoint t =
     (let cli = (let (ref, ok) = ResolveAt (ac_Cli ac) (ac_Provider ac) t in if ok \<and> ref \<noteq> [] then Some ref else None)
      in if ac_Provider ac \<noteq> ProviderAnthropic then cli
         else if DesktopThirdParty entrypoint then None
         else if FromDesktop entrypoint
         then (case map_of (ac_Desktop ac) sessionID of
                 None \<Rightarrow> None
               | Some org \<Rightarrow> if t < ac_Since ac then None else Some (HashExternalRef sha ProviderAnthropic org))
         else cli)"

text \<open>A request OpenCodex sent to another ChatGPT account than Codex's own is not this quota's.\<close>

definition check_gateway :: "host \<Rightarrow> event \<Rightarrow> event" where
  "check_gateway h e =
     (if ev_Provider e = ProviderOpenAI \<and> ev_Gateway e = GatewayOpenCodex
      then case Match (ho_OpenCodex h e) (ev_OccurredAt e) (ev_Tokens e) of
          Some r \<Rightarrow> if oc_Provider r \<noteq> MainChatGPT then e\<lparr>ev_ThirdParty := True\<rparr> else e
        | None \<Rightarrow> e
      else e)"

definition attribute_event :: "(string \<Rightarrow> string) \<Rightarrow> host \<Rightarrow> provider \<Rightarrow> local_db \<Rightarrow> accounts \<Rightarrow> event \<Rightarrow> event option" where
  "attribute_event sha h p s ac e =
     (let e = check_gateway h e in
      if ev_Provider e \<noteq> p
      then map_option (\<lambda>ref. e\<lparr>ev_AccountRefHash := ref\<rparr>) (resolve sha (loadAccounts (ev_Provider e) s) [] [] (ev_OccurredAt e))
      else let (e, entrypoint) = (if DesktopThirdParty (ev_Originator e) then (e\<lparr>ev_ThirdParty := True\<rparr>, []) else (e, ev_Originator e))
           in map_option (\<lambda>ref. e\<lparr>ev_AccountRefHash := ref\<rparr>) (resolve sha ac (ev_SessionID e) entrypoint (ev_OccurredAt e)))"

definition attribute_snapshot :: "(string \<Rightarrow> string) \<Rightarrow> accounts \<Rightarrow> snapshot \<Rightarrow> snapshot option" where
  "attribute_snapshot sha ac sn = map_option (\<lambda>ref. sn\<lparr>sn_AccountRefHash := ref\<rparr>) (resolve sha ac [] [] (sn_ObservedAt sn))"

definition attribute_limit :: "(string \<Rightarrow> string) \<Rightarrow> accounts \<Rightarrow> time \<Rightarrow> limit_event \<Rightarrow> limit_event option" where
  "attribute_limit sha ac now l =
     map_option (\<lambda>ref. l\<lparr>le_AccountRefHash := ref, le_ObservedAt := now\<rparr>)
       (resolve sha ac (le_SessionID l) (le_Originator l) (le_OccurredAt l))"

section \<open>The agent's store and provider states\<close>

record provider_state =
  ps_Provider :: provider
  ps_Status :: string
  ps_AccountHint :: string
  ps_PlanType :: string
  ps_LastSuccess :: "time option"
  ps_Error :: string

definition StatusOK :: string where "StatusOK = ''ok''"
definition StatusNotInstalled :: string where "StatusNotInstalled = ''not_installed''"
definition StatusNotPooled :: string where "StatusNotPooled = ''not_pooled''"
definition StatusError :: string where "StatusError = ''error''"

record agent =
  ag_Store :: local_db
  ag_Providers :: "(provider, provider_state) gomap"
  ag_Spool :: spool_dir

definition setProvider :: "provider \<Rightarrow> (provider_state \<Rightarrow> provider_state) \<Rightarrow> agent \<Rightarrow> agent" where
  "setProvider p f a = a\<lparr>ag_Providers := map (\<lambda>(q, st). if q = p then (q, f st) else (q, st)) (ag_Providers a)\<rparr>"

definition recordError :: "provider \<Rightarrow> string \<Rightarrow> agent \<Rightarrow> agent" where
  "recordError p msg a = setProvider p (\<lambda>st. st\<lparr>ps_Status := StatusError, ps_Error := msg\<rparr>) a"

definition with_store :: "(local_db \<Rightarrow> local_db) \<Rightarrow> agent \<Rightarrow> agent" where
  "with_store f a = a\<lparr>ag_Store := f (ag_Store a)\<rparr>"

section \<open>Observing sign-ins\<close>

definition observe :: "host \<Rightarrow> provider \<Rightarrow> agent \<Rightarrow> agent" where
  "observe h p a =
     (case ho_Observe h p of
        NotInstalled \<Rightarrow> setProvider p (\<lambda>_. \<lparr>ps_Provider = p, ps_Status = StatusNotInstalled, ps_AccountHint = [],
          ps_PlanType = [], ps_LastSuccess = None, ps_Error = []\<rparr>) a
      | ObserveFailed msg \<Rightarrow> recordError p msg a
      | Seen ob snap \<Rightarrow>
          (let a = (case snap of None \<Rightarrow> a | Some sn \<Rightarrow> with_store (AddSnapshot sn) a);
               a = with_store (AddObservation ob) a
           in setProvider p (\<lambda>st. st\<lparr>ps_Error := [], ps_LastSuccess := Some (ho_Now h), ps_AccountHint := ob_Hint ob,
                ps_PlanType := ob_PlanType ob,
                ps_Status := (if ob_ExternalRefHash ob = [] then StatusNotPooled else StatusOK)\<rparr>) a))"

definition observeDesktop :: "host \<Rightarrow> agent \<Rightarrow> agent" where
  "observeDesktop h a =
     (let (ref, seenAt) = LastUse ProviderAnthropic Entrypoints (ag_Store a);
          ob = \<lparr>ob_DeviceID = [], ob_Provider = ProviderAnthropic, ob_Source = SourceClaudeDesktop,
                ob_ExternalRefHash = ref, ob_Hint = [], ob_PlanType = [], ob_ObservedAt = seenAt\<rparr>
      in if ref \<noteq> [] then with_store (AddObservation ob) a
         else if Observations ProviderAnthropic SourceClaudeDesktop (ag_Store a) \<noteq> [] then a
         else case ho_Desktop h of
             None \<Rightarrow> a
           | Some sessions \<Rightarrow> if sessions = [] then a
               else with_store (AddObservation (ob\<lparr>ob_ObservedAt := ho_Now h\<rparr>)) a)"

definition observeAll :: "host \<Rightarrow> agent \<Rightarrow> agent" where
  "observeAll h a = observeDesktop h (observe h ProviderGoogle (observe h ProviderOpenAI (observe h ProviderAnthropic a)))"

definition lastObservedAt :: "observation list \<Rightarrow> time" where
  "lastObservedAt obs = (if obs = [] then zero_time else ob_ObservedAt (last obs))"

section \<open>Scanning\<close>

definition ingestFile ::
  "(string \<Rightarrow> string) \<Rightarrow> host \<Rightarrow> provider \<Rightarrow> string \<Rightarrow> file_state \<Rightarrow> accounts \<Rightarrow> agent \<Rightarrow> scan_error + agent \<times> int" where
  "ingestFile sha h p path st ac a =
     (case source_parse h p path of
        None \<Rightarrow> Inl (ParseError path)
      | Some res \<Rightarrow>
          (let s = ag_Store a;
               events = List.map_filter (attribute_event sha h p s ac) (pl_Events res);
               snaps = List.map_filter (attribute_snapshot sha ac) (pl_Snapshots res);
               limits = List.map_filter (attribute_limit sha ac (ho_Clock h path)) (pl_Limits res);
               (s, n) = IngestFile path st events snaps limits s
           in Inr (a\<lparr>ag_Store := s\<rparr>, n)))"

definition state_at :: "(string, file_state) gomap \<Rightarrow> string \<Rightarrow> file_state" where
  "state_at current path = get_or \<lparr>fs_Size = 0, fs_ModTime = zero_time\<rparr> current path"

text \<open>The files of a scan one by one; an error keeps what came before it.\<close>

primrec scan_files ::
  "(string \<Rightarrow> string) \<Rightarrow> host \<Rightarrow> provider \<Rightarrow> (string, file_state) gomap \<Rightarrow> accounts \<Rightarrow> string list \<Rightarrow> int \<Rightarrow> agent \<Rightarrow>
   scan_error option \<times> int \<times> agent" where
  "scan_files sha h p current ac [] n a = (None, n, a)"
| "scan_files sha h p current ac (path # paths) n a =
     (case ingestFile sha h p path (state_at current path) ac a of
        Inl err \<Rightarrow> (Some err, n, a)
      | Inr (a, k) \<Rightarrow> scan_files sha h p current ac paths (n + k) a)"

definition scan_paths :: "provider \<Rightarrow> (string, file_state) gomap \<Rightarrow> (string, file_state) gomap \<Rightarrow> local_db \<Rightarrow> string list" where
  "scan_paths p known current s =
     (let paths = Changed known current in
      if p = ProviderAnthropic \<and> \<not> AttributionReviewed s
      then paths @ filter (\<lambda>path. has_key known path \<and> path \<notin> set paths) (map fst current)
      else paths)"

definition mark_reviewed :: "provider \<Rightarrow> agent \<Rightarrow> agent" where
  "mark_reviewed p a = (if p = ProviderAnthropic then with_store MarkAttributionReviewed a else a)"

text \<open>Before a new session is attributed, a sign-in last seen over a minute ago is looked at again.\<close>

definition recheck :: "host \<Rightarrow> provider \<Rightarrow> (string, file_state) gomap \<Rightarrow> string list \<Rightarrow> accounts \<Rightarrow> agent \<Rightarrow> accounts \<times> agent" where
  "recheck h p known paths ac a =
     (if list_ex (\<lambda>path. \<not> has_key known path \<and> time_sub (ho_Clock h path) (lastObservedAt (ac_Cli ac)) > minute) paths
      then let a = observe h p a in (loadAccounts p (ag_Store a), a)
      else (ac, a))"

definition scanSource ::
  "(string \<Rightarrow> string) \<Rightarrow> host \<Rightarrow> provider \<Rightarrow> (string, file_state) gomap \<Rightarrow> agent \<Rightarrow> scan_error option \<times> int \<times> agent" where
  "scanSource sha h p known a =
     (let ac = loadAccounts p (ag_Store a) in
      if \<not> pooled ac then (None, 0, a)
      else case ho_Listing h p of
          None \<Rightarrow> (Some ListError, 0, a)
        | Some current \<Rightarrow>
            (let paths = scan_paths p known current (ag_Store a) in
             if paths = [] then (None, 0, mark_reviewed p a)
             else let (ac, a) = recheck h p known paths ac a in
               case loadDesktopSessions h ac of
                 None \<Rightarrow> (Some SessionsError, 0, a)
               | Some ac \<Rightarrow>
                   (case scan_files sha h p current ac paths 0 a of
                      (Some err, n, a) \<Rightarrow> (Some err, n, a)
                    | (None, n, a) \<Rightarrow> (None, n, mark_reviewed p a))))"

section \<open>The statusLine spool\<close>

definition spoolMaxAge :: duration where "spoolMaxAge = 7 * 24 * hour"

definition ingest_spooled :: "(string \<Rightarrow> string) \<Rightarrow> accounts \<Rightarrow> (int \<Rightarrow> nat) \<Rightarrow> spooled \<Rightarrow> local_db \<times> int \<Rightarrow> local_db \<times> int" where
  "ingest_spooled sha ac readingsAt sp acc =
     (let (s, n) = acc; sn = sd_Snapshot sp; entrypoint = SessionOriginatorAt (sd_SessionID sp) (sn_ObservedAt sn) s in
      if entrypoint = [] then (s, n)
      else case resolve sha ac (sd_SessionID sp) entrypoint (sn_ObservedAt sn) of
          None \<Rightarrow> (s, n)
        | Some ref \<Rightarrow>
            (let sn = sn\<lparr>sn_AccountRefHash := ref\<rparr>;
                 (s, corrected) = (if readingsAt (unix_milli (sn_ObservedAt sn)) = 1 then CorrectSnapshot sn s else (s, False))
             in if corrected then (s, n + 1) else (AddSnapshot sn s, n + 1)))"

definition ingestStatusLine :: "(string \<Rightarrow> string) \<Rightarrow> host \<Rightarrow> agent \<Rightarrow> scan_error option \<times> int \<times> agent" where
  "ingestStatusLine sha h a =
     (let a = a\<lparr>ag_Spool := PruneSpool spoolMaxAge (ho_Now h) (ag_Spool a)\<rparr>; spooled = ReadSpool (ag_Spool a) in
      if spooled = [] then (None, 0, a)
      else case loadDesktopSessions h (loadAccounts ProviderAnthropic (ag_Store a)) of
          None \<Rightarrow> (Some SessionsError, 0, a)
        | Some ac \<Rightarrow>
            (let readingsAt = (\<lambda>ms. length (filter (\<lambda>sp. unix_milli (sn_ObservedAt (sd_Snapshot sp)) = ms) spooled));
                 (s, n) = fold (ingest_spooled sha ac readingsAt) spooled (ag_Store a, 0)
             in (None, n, a\<lparr>ag_Store := s\<rparr>)))"

section \<open>A pass over every source\<close>

definition scan_one :: "(string \<Rightarrow> string) \<Rightarrow> host \<Rightarrow> (string, file_state) gomap \<Rightarrow> provider \<Rightarrow> agent \<Rightarrow> agent" where
  "scan_one sha h known p a =
     (case scanSource sha h p known a of
        (Some err, _, a) \<Rightarrow> recordError p (ho_ErrorText h err) a
      | (None, _, a) \<Rightarrow> a)"

definition scanAll :: "(string \<Rightarrow> string) \<Rightarrow> host \<Rightarrow> agent \<Rightarrow> agent" where
  "scanAll sha h a =
     (let a = fold (scan_one sha h (KnownFiles (ag_Store a))) sources a in
      case ingestStatusLine sha h a of
        (Some err, _, a) \<Rightarrow> recordError ProviderAnthropic (ho_ErrorText h err) a
      | (None, _, a) \<Rightarrow> a)"

text \<open>\<open>Resync\<close>'s rebuild: the ledger is emptied and every log read again, up to the first error.\<close>

fun rescan :: "(string \<Rightarrow> string) \<Rightarrow> host \<Rightarrow> (string, file_state) gomap \<Rightarrow> provider list \<Rightarrow> agent \<Rightarrow> scan_error option \<times> agent" where
  "rescan sha h known [] a = (None, a)"
| "rescan sha h known (p # ps) a =
     (case scanSource sha h p known a of
        (Some err, _, a) \<Rightarrow> (Some err, a)
      | (None, _, a) \<Rightarrow> rescan sha h known ps a)"

definition rebuildLedger :: "(string \<Rightarrow> string) \<Rightarrow> host \<Rightarrow> agent \<Rightarrow> scan_error option \<times> int \<times> agent" where
  "rebuildLedger sha h a =
     (let a = with_store ResetLedger a in
      case rescan sha h (KnownFiles (ag_Store a)) sources a of
        (Some err, a) \<Rightarrow> (Some err, 0, a)
      | (None, a) \<Rightarrow>
          (case ingestStatusLine sha h a of
             (Some err, _, a) \<Rightarrow> (Some err, 0, a)
           | (None, _, a) \<Rightarrow> (None, EventCount (ag_Store a), a)))"

section \<open>What a scan touches\<close>

lemma insert_tables [simp]:
  "ld_files (fst (insertSnapshot sn s)) = ld_files s" "ld_observations (fst (insertSnapshot sn s)) = ld_observations s"
  "ld_events (fst (insertSnapshot sn s)) = ld_events s" "ld_limits (fst (insertSnapshot sn s)) = ld_limits s"
  "ld_files (fst (insertLimitEvent l s)) = ld_files s" "ld_observations (fst (insertLimitEvent l s)) = ld_observations s"
  "ld_files (fst (ingest_local_event e acc)) = ld_files (fst acc)"
  "ld_observations (fst (ingest_local_event e acc)) = ld_observations (fst acc)"
  "ld_limits (fst (ingest_local_event e acc)) = ld_limits (fst acc)"
  "ld_events (fst (ingest_local_event e acc)) = fst (upsert_event (event_row e) (ld_events (fst acc)))"
  by (simp_all add: insertSnapshot_def insertLimitEvent_def ingest_local_event_def Let_def case_prod_beta')

lemma fold_tables:
  assumes "\<And>x acc. t (fst (f x acc)) = t (fst acc)"
  shows "t (fst (fold f xs acc)) = t (fst acc)"
  by (induction xs arbitrary: acc) (simp_all add: assms)

lemma counted_fst: "fst (counted f x acc) = fst (f x (fst acc))"
  by (simp add: counted_def case_prod_beta' Let_def)

lemma ingest_events_rows:
  "ld_events (fst (fold ingest_local_event es acc)) = fold (\<lambda>x rows. fst (upsert_event x rows)) (map event_row es) (ld_events (fst acc))"
  by (induction es arbitrary: acc) simp_all

definition insert_limit_row :: "limit_event \<Rightarrow> local_limit list \<Rightarrow> local_limit list" where
  "insert_limit_row l rows = ld_limits (fst (insertLimitEvent l (empty_local\<lparr>ld_limits := rows\<rparr>)))"

lemma insertLimitEvent_limits [simp]: "ld_limits (fst (insertLimitEvent l s)) = insert_limit_row l (ld_limits s)"
  by (simp add: insert_limit_row_def insertLimitEvent_def Let_def)

lemma fold_limits: "ld_limits (fst (fold (counted insertLimitEvent) ls acc)) = fold insert_limit_row ls (ld_limits (fst acc))"
  by (induction ls arbitrary: acc) (simp_all add: counted_fst)

lemma IngestFile_tables:
  "ld_files (fst (IngestFile path st es ss ls s)) = put path st (ld_files s)"
  "ld_observations (fst (IngestFile path st es ss ls s)) = ld_observations s"
  "ld_events (fst (IngestFile path st es ss ls s)) = fold (\<lambda>x rows. fst (upsert_event x rows)) (map event_row es) (ld_events s)"
  "ld_limits (fst (IngestFile path st es ss ls s)) = fold insert_limit_row ls (ld_limits s)"
  by (simp_all add: IngestFile_def Let_def case_prod_beta' fold_tables counted_fst counted_tables ingest_events_rows fold_limits)

lemma AddObservation_tables [simp]:
  "ld_files (AddObservation ob s) = ld_files s" "ld_events (AddObservation ob s) = ld_events s"
  "ld_limits (AddObservation ob s) = ld_limits s"
  by (simp_all add: AddObservation_def Let_def)

lemma AddSnapshot_tables [simp]:
  "ld_files (AddSnapshot sn s) = ld_files s" "ld_events (AddSnapshot sn s) = ld_events s"
  "ld_limits (AddSnapshot sn s) = ld_limits s" "ld_observations (AddSnapshot sn s) = ld_observations s"
  by (simp_all add: AddSnapshot_def)

lemma AddObservation_grows: "set (ld_observations s) \<subseteq> set (ld_observations (AddObservation ob s))"
  by (auto simp: AddObservation_def Let_def)

lemma store_simps [simp]:
  "ag_Store (setProvider p f a) = ag_Store a" "ag_Store (recordError p msg a) = ag_Store a"
  "ag_Store (with_store g a) = g (ag_Store a)" "ag_Spool (setProvider p f a) = ag_Spool a"
  "ag_Spool (recordError p msg a) = ag_Spool a" "ag_Spool (with_store g a) = ag_Spool a"
  by (simp_all add: setProvider_def recordError_def with_store_def)

lemma observe_store: "ag_Store (observe h p a) = (case ho_Observe h p of
    Seen ob snap \<Rightarrow> AddObservation ob (case snap of None \<Rightarrow> ag_Store a | Some sn \<Rightarrow> AddSnapshot sn (ag_Store a)) | _ \<Rightarrow> ag_Store a)"
  by (simp add: observe_def Let_def split: observe_outcome.split option.split)

text \<open>The tables a scan reads, apart from the snapshots.\<close>

definition ledger_part where "ledger_part s = (ld_files s, ld_events s, ld_limits s)"

lemma observe_tables: "ledger_part (ag_Store (observe h p a)) = ledger_part (ag_Store a)"
    "set (ld_observations (ag_Store a)) \<subseteq> set (ld_observations (ag_Store (observe h p a)))"
    "ag_Spool (observe h p a) = ag_Spool a"
proof -
  show "ledger_part (ag_Store (observe h p a)) = ledger_part (ag_Store a)"
    by (simp add: observe_store ledger_part_def split: observe_outcome.split option.split)
  show "set (ld_observations (ag_Store a)) \<subseteq> set (ld_observations (ag_Store (observe h p a)))"
    using AddObservation_grows by (fastforce simp: observe_store split: observe_outcome.split option.split)
  show "ag_Spool (observe h p a) = ag_Spool a"
    by (simp add: observe_def Let_def split: observe_outcome.split option.split)
qed

section \<open>A second scan\<close>

lemma Observations_set: "set (Observations p src s) = observation_of ` {r \<in> set (ld_observations s). lo_provider r = p \<and> lo_source r = src}"
  by (simp add: Observations_def)

lemma pooled_grows:
  assumes "pooled (loadAccounts p s)" "set (ld_observations s) \<subseteq> set (ld_observations s')"
  shows "pooled (loadAccounts p s')"
proof -
  have sub: "set (Observations q src s) \<subseteq> set (Observations q src s')" for q src
    using assms(2) by (auto simp: Observations_set)
  have cli: "ac_Cli (loadAccounts p t) = Observations p SourceCLI t" for t
    by (simp add: loadAccounts_def Let_def split: list.split)
  have dsk: "ac_DesktopSeen (loadAccounts p t) \<longleftrightarrow> p = ProviderAnthropic \<and> Observations p SourceClaudeDesktop t \<noteq> []" for t
    by (simp add: loadAccounts_def Let_def split: list.split)
  show ?thesis
  proof (cases "anyPooled (Observations p SourceCLI s)")
    case True
    then show ?thesis using sub[of p SourceCLI] by (auto simp: pooled_def cli anyPooled_def list_ex_iff)
  next
    case False
    then have "p = ProviderAnthropic \<and> set (Observations p SourceClaudeDesktop s) \<noteq> {}"
      using assms(1) by (auto simp: pooled_def cli dsk)
    then have "p = ProviderAnthropic \<and> set (Observations p SourceClaudeDesktop s') \<noteq> {}"
      using sub[of p SourceClaudeDesktop] by (metis bot.extremum_uniqueI)
    then have "ac_DesktopSeen (loadAccounts p s')" by (subst dsk) auto
    then show ?thesis by (simp add: pooled_def)
  qed
qed

lemma ingestFile_store:
  assumes "ingestFile sha h p path st ac a = Inr (a', k)"
  obtains es ss ls where "ag_Store a' = fst (IngestFile path st es ss ls (ag_Store a))" "ag_Spool a' = ag_Spool a"
proof -
  from assms show ?thesis
    by (cases "source_parse h p path") (auto simp: ingestFile_def Let_def case_prod_beta' intro: that)
qed

lemma scan_files_tables:
  "scan_files sha h p current ac paths n a = (err, m, a') \<Longrightarrow>
     ld_observations (ag_Store a') = ld_observations (ag_Store a) \<and> ag_Spool a' = ag_Spool a \<and>
     (err = None \<longrightarrow> ld_files (ag_Store a') = fold (\<lambda>path. put path (state_at current path)) paths (ld_files (ag_Store a)))"
proof (induction paths arbitrary: n a)
  case (Cons path paths)
  show ?case
  proof (cases "ingestFile sha h p path (state_at current path) ac a")
    case (Inl e)
    with Cons.prems show ?thesis by auto
  next
    case (Inr ak)
    obtain a1 k where ak: "ak = (a1, k)" by (cases ak)
    obtain es ss ls where a1: "ag_Store a1 = fst (IngestFile path (state_at current path) es ss ls (ag_Store a))" "ag_Spool a1 = ag_Spool a"
      using ingestFile_store Inr unfolding ak by blast
    have "scan_files sha h p current ac paths (n + k) a1 = (err, m, a')" using Cons.prems Inr ak by simp
    from Cons.IH[OF this] show ?thesis by (simp add: a1 IngestFile_tables)
  qed
qed simp

lemma map_of_fold_put:
  "map_of (fold (\<lambda>k. put k (f k)) ks m) k = (if k \<in> set ks then Some (f k) else map_of m k)"
  by (induction ks arbitrary: m) (auto simp: update_conv')

lemma Changed_none:
  "(\<And>path st. (path, st) \<in> set current \<Longrightarrow> map_of known path = Some st) \<Longrightarrow> Changed known current = []"
  by (auto simp: Changed_def filter_empty_conv)

lemma Changed_not:
  assumes "(path, st) \<in> set current" "path \<notin> set (Changed known current)" shows "map_of known path = Some st"
proof (cases "map_of known path")
  case None
  then have "path \<in> set (Changed known current)" using assms(1) by (force simp: Changed_def)
  with assms(2) show ?thesis by simp
next
  case (Some prev)
  have "fs_Size prev = fs_Size st \<and> fs_ModTime prev = fs_ModTime st"
  proof (rule ccontr)
    assume "\<not> (fs_Size prev = fs_Size st \<and> fs_ModTime prev = fs_ModTime st)"
    then have "path \<in> set (Changed known current)" using assms(1) Some by (force simp: Changed_def)
    with assms(2) show False by simp
  qed
  then show ?thesis using Some by simp
qed

text \<open>
  Scanning is idempotent: after a scan of a source that succeeded, a second scan of the same
  logs finds nothing to read and changes nothing, whatever it ingested, even the first time a
  device reviews the attribution of the files it already knew.
\<close>

theorem scanSource_again:
  assumes "scanSource sha h p (KnownFiles (ag_Store a)) a = (None, n, a')"
    and "ho_Listing h p = Some current" and "wf_map current"
  shows "scanSource sha h p (KnownFiles (ag_Store a')) a' = (None, 0, a')"
proof (cases "pooled (loadAccounts p (ag_Store a))")
  case False
  with assms(1) show ?thesis by (simp add: scanSource_def)
next
  case pooled: True
  define known where "known = ld_files (ag_Store a)"
  define paths where "paths = scan_paths p known current (ag_Store a)"
  have marked: "mark_reviewed p (mark_reviewed p b) = mark_reviewed p b" for b
    by (simp add: mark_reviewed_def with_store_def MarkAttributionReviewed_def)
  have rev: "p = ProviderAnthropic \<Longrightarrow> AttributionReviewed (ag_Store (mark_reviewed p b))" for b
    by (simp add: mark_reviewed_def with_store_def MarkAttributionReviewed_def AttributionReviewed_def)
  have mark_tables: "ld_files (ag_Store (mark_reviewed p b)) = ld_files (ag_Store b)"
    "ld_observations (ag_Store (mark_reviewed p b)) = ld_observations (ag_Store b)" for b
    by (simp_all add: mark_reviewed_def with_store_def MarkAttributionReviewed_def)
  have changed: "set (Changed known current) \<subseteq> set paths" by (auto simp: paths_def scan_paths_def Let_def)
  obtain b where a': "a' = mark_reviewed p b"
    and files: "ld_files (ag_Store b) = fold (\<lambda>path. put path (state_at current path)) paths known"
    and obs: "set (ld_observations (ag_Store a)) \<subseteq> set (ld_observations (ag_Store b))"
  proof (cases "paths = []")
    case True
    then have "a' = mark_reviewed p a" using assms(1,2) pooled
      by (simp add: scanSource_def KnownFiles_def flip: known_def paths_def)
    then show ?thesis using that[of a] True by (simp add: known_def)
  next
    case False
    obtain ac1 a1 where re: "recheck h p known paths (loadAccounts p (ag_Store a)) a = (ac1, a1)" by fastforce
    have a1: "ledger_part (ag_Store a1) = ledger_part (ag_Store a)"
        "set (ld_observations (ag_Store a)) \<subseteq> set (ld_observations (ag_Store a1))"
      using re observe_tables(1)[of h p a] observe_tables(2)[of a h p] by (simp_all add: recheck_def Let_def split: if_splits)
    obtain ac2 where "loadDesktopSessions h ac1 = Some ac2"
      and b: "\<exists>b m. scan_files sha h p current ac2 paths 0 a1 = (None, m, b) \<and> a' = mark_reviewed p b"
      using assms(1,2) pooled False re
      by (auto simp: scanSource_def KnownFiles_def simp flip: known_def paths_def split: option.splits prod.splits)
    from b obtain b m where sf: "scan_files sha h p current ac2 paths 0 a1 = (None, m, b)" "a' = mark_reviewed p b" by blast
    show ?thesis using that[OF sf(2)] scan_files_tables[OF sf(1)] a1 by (simp add: ledger_part_def known_def)
  qed
  have "map_of (ld_files (ag_Store b)) path = Some st" if mem: "(path, st) \<in> set current" for path st
  proof (cases "path \<in> set paths")
    case True
    have "state_at current path = st" using get_or_mem[OF assms(3) mem] by (simp add: state_at_def)
    then show ?thesis using True by (simp add: files map_of_fold_put)
  next
    case False
    then have "map_of known path = Some st" using Changed_not[OF mem] changed by blast
    then show ?thesis using False by (simp add: files map_of_fold_put)
  qed
  then have "Changed (KnownFiles (ag_Store a')) current = []"
    by (intro Changed_none) (simp add: a' KnownFiles_def mark_tables)
  then have "scan_paths p (KnownFiles (ag_Store a')) current (ag_Store a') = []"
    using rev[of b] by (auto simp: scan_paths_def a')
  moreover have "pooled (loadAccounts p (ag_Store a'))" using pooled_grows[OF pooled] obs by (simp add: a' mark_tables)
  ultimately show ?thesis using assms(2) by (simp add: scanSource_def a' marked)
qed

end
