(* ===== verification/Antigravity.thy ===== *)
theory Antigravity
  imports AgentIngest "HOL-Library.Word"
begin

text \<open>
  \<open>internal/provider/google/antigravity/antigravity.go\<close>: the conversation databases of
  Google Antigravity's CLI. The rows of a database are given; the messages in them are read by the
  package \<open>protowire\<close>, whose functions are the record \<open>wire\<close>: each returns what it read and how
  many bytes, or \<open>None\<close> where the package reports an error.
\<close>

section \<open>Messages\<close>

type_synonym bytes = "8 word list"

record wire =
  wi_Tag :: "bytes \<Rightarrow> (nat \<times> nat \<times> nat) option"
  wi_Varint :: "bytes \<Rightarrow> (64 word \<times> nat) option"
  wi_Bytes :: "bytes \<Rightarrow> (bytes \<times> nat) option"
  wi_Skip :: "nat \<Rightarrow> nat \<Rightarrow> bytes \<Rightarrow> nat option"

definition VarintType :: nat where "VarintType = 0"
definition BytesType :: nat where "BytesType = 2"

text \<open>The fields \<open>walk\<close> calls its function with, in order; it does not look at those of other types.\<close>

datatype wire_field = VarintField nat "64 word" | BytesField nat bytes

partial_function (option) walk_fields :: "wire \<Rightarrow> bytes \<Rightarrow> wire_field list option" where
  "walk_fields W b =
     (if b = [] then Some []
      else case wi_Tag W b of
          None \<Rightarrow> Some []
        | Some (num, ty, n) \<Rightarrow>
            (let b = drop n b in
             if ty = VarintType then
               (case wi_Varint W b of
                  None \<Rightarrow> Some []
                | Some (v, n) \<Rightarrow> Option.bind (walk_fields W (drop n b)) (\<lambda>fs. Some (VarintField num v # fs)))
             else if ty = BytesType then
               (case wi_Bytes W b of
                  None \<Rightarrow> Some []
                | Some (v, n) \<Rightarrow> Option.bind (walk_fields W (drop n b)) (\<lambda>fs. Some (BytesField num v # fs)))
             else
               (case wi_Skip W num ty b of
                  None \<Rightarrow> Some []
                | Some n \<Rightarrow> walk_fields W (drop n b))))"

declare walk_fields.simps [code]

fun fold_opt :: "('a \<Rightarrow> 's \<Rightarrow> 's option) \<Rightarrow> 'a list \<Rightarrow> 's \<Rightarrow> 's option" where
  "fold_opt f [] s = Some s"
| "fold_opt f (x # xs) s = Option.bind (f x s) (fold_opt f xs)"

definition walk :: "wire \<Rightarrow> bytes \<Rightarrow> (wire_field \<Rightarrow> 's \<Rightarrow> 's option) \<Rightarrow> 's \<Rightarrow> 's option" where
  "walk W b f s = Option.bind (walk_fields W b) (\<lambda>fs. fold_opt f fs s)"

definition text_of :: "bytes \<Rightarrow> string" where "text_of = map (\<lambda>b. char_of (unat b))"

section \<open>One request\<close>

definition usageInputTokens :: nat where "usageInputTokens = 2"
definition usageOutputTokens :: nat where "usageOutputTokens = 3"
definition usageCacheWrite :: nat where "usageCacheWrite = 4"
definition usageCacheRead :: nat where "usageCacheRead = 5"
definition usageThinkingTokens :: nat where "usageThinkingTokens = 9"
definition genResponse :: nat where "genResponse = 1"
definition responseUsage :: nat where "responseUsage = 4"
definition responseModel :: nat where "responseModel = 19"
definition responseLabels :: nat where "responseLabels = 20"
definition labelKey :: nat where "labelKey = 1"
definition labelValue :: nat where "labelValue = 2"
definition stepIndexLabel :: string where "stepIndexLabel = ''last_step_index''"
definition stepMetadataTime :: nat where "stepMetadataTime = 1"

record response_state =
  rs_Stats :: "bytes option"
  rs_Model :: string
  rs_Step :: int

definition label_field :: "wire_field \<Rightarrow> string \<times> string \<Rightarrow> (string \<times> string) option" where
  "label_field f kv = Some (case f of
     BytesField num v \<Rightarrow> if num = labelKey then (text_of v, snd kv) else if num = labelValue then (fst kv, text_of v) else kv
   | VarintField _ _ \<Rightarrow> kv)"

definition response_field :: "wire \<Rightarrow> wire_field \<Rightarrow> response_state \<Rightarrow> response_state option" where
  "response_field W f st = (case f of
     VarintField _ _ \<Rightarrow> Some st
   | BytesField num v \<Rightarrow>
       if num = responseUsage then Some (st\<lparr>rs_Stats := Some v\<rparr>)
       else if num = responseModel then Some (st\<lparr>rs_Model := text_of v\<rparr>)
       else if num = responseLabels then
         Option.bind (walk W v label_field ([], [])) (\<lambda>(key, val).
           Some (if key = stepIndexLabel then (case atoi val of Some n \<Rightarrow> st\<lparr>rs_Step := n\<rparr> | None \<Rightarrow> st) else st))
       else Some st)"

definition generation_field :: "wire \<Rightarrow> wire_field \<Rightarrow> response_state \<Rightarrow> response_state option" where
  "generation_field W f st = (case f of
     BytesField num v \<Rightarrow> if num = genResponse then walk W v (response_field W) st else Some st
   | VarintField _ _ \<Rightarrow> Some st)"

definition usage_field :: "wire_field \<Rightarrow> tokens \<Rightarrow> tokens option" where
  "usage_field f t = Some (case f of
     VarintField num n \<Rightarrow>
       if num = usageInputTokens then t\<lparr>tk_Input := sint n\<rparr>
       else if num = usageOutputTokens then t\<lparr>tk_Output := sint n\<rparr>
       else if num = usageCacheWrite then t\<lparr>tk_CacheWrite := sint n\<rparr>
       else if num = usageCacheRead then t\<lparr>tk_CachedInput := sint n\<rparr>
       else if num = usageThinkingTokens then t\<lparr>tk_ReasoningOutput := sint n\<rparr>
       else t
   | BytesField _ _ \<Rightarrow> t)"

record generation =
  gn_Model :: string
  gn_Step :: int
  gn_Tokens :: tokens

text \<open>\<open>Some None\<close> is a row without a model, a step or usage.\<close>

definition parseGeneration :: "wire \<Rightarrow> bytes \<Rightarrow> generation option option" where
  "parseGeneration W row =
     Option.bind (walk W row (generation_field W) \<lparr>rs_Stats = None, rs_Model = [], rs_Step = -1\<rparr>) (\<lambda>st.
       case rs_Stats st of
         None \<Rightarrow> Some None
       | Some stats \<Rightarrow>
           if rs_Model st = [] \<or> rs_Step st < 0 then Some None
           else Option.bind (walk W stats usage_field zero_tokens) (\<lambda>t.
             Some (if wrap64 (tk_Input t + tk_Output t) > 0
                   then Some \<lparr>gn_Model = rs_Model st, gn_Step = rs_Step st, gn_Tokens = t\<rparr> else None)))"

section \<open>the times of the steps\<close>

definition stamp_field :: "wire_field \<Rightarrow> int \<times> int \<Rightarrow> (int \<times> int) option" where
  "stamp_field f t = Some (case f of
     VarintField num n \<Rightarrow> if num = 1 then (sint n, snd t) else if num = 2 then (fst t, sint n) else t
   | BytesField _ _ \<Rightarrow> t)"

definition step_field :: "wire \<Rightarrow> int \<Rightarrow> wire_field \<Rightarrow> (int, time) gomap \<Rightarrow> (int, time) gomap option" where
  "step_field W idx f created = (case f of
     BytesField num v \<Rightarrow>
       if num = stepMetadataTime
       then Option.bind (walk W v stamp_field (0, 0)) (\<lambda>(secs, nanos).
         Some (if secs > 0 then put idx (secs * second + nanos) created else created))
       else Some created
   | VarintField _ _ \<Rightarrow> Some created)"

definition stepTimes :: "wire \<Rightarrow> (int \<times> bytes) list \<Rightarrow> (int, time) gomap option" where
  "stepTimes W steps = fold_opt (\<lambda>(idx, meta). walk W meta (step_field W idx)) steps []"

section \<open>A conversation\<close>

record agy_db =
  ad_Steps :: "(int \<times> bytes) list"
  ad_Generations :: "(int \<times> bytes) list"

definition base_name :: "string \<Rightarrow> string" where
  "base_name path = rev (takeWhile (\<lambda>c. c \<noteq> CHR ''/'') (rev path))"

definition conversation_of :: "string \<Rightarrow> string" where
  "conversation_of path = (let b = base_name path in if has_suffix b ''.db'' then take (length b - 3) b else b)"

definition agy_key :: "string \<Rightarrow> int \<Rightarrow> string" where
  "agy_key conversation idx = ''antigravity:'' @ conversation @ '':'' @ decimal idx"

definition agy_event :: "string \<Rightarrow> int \<Rightarrow> time \<Rightarrow> generation \<Rightarrow> event" where
  "agy_event conversation idx t g =
     zero_event\<lparr>ev_DedupeKey := agy_key conversation idx, ev_Provider := ProviderGoogle, ev_Product := ProductAntigravity,
       ev_SessionID := conversation, ev_Model := gn_Model g, ev_OccurredAt := t, ev_Tokens := gn_Tokens g\<rparr>"

definition add_generation :: "wire \<Rightarrow> string \<Rightarrow> (int, time) gomap \<Rightarrow> int \<times> bytes \<Rightarrow> event list \<Rightarrow> event list option" where
  "add_generation W conversation created row events =
     Option.bind (parseGeneration W (snd row)) (\<lambda>g.
       Some (case g of
           None \<Rightarrow> events
         | Some g \<Rightarrow> (case map_of created (gn_Step g) of
               None \<Rightarrow> events
             | Some t \<Rightarrow> events @ [agy_event conversation (fst row) t g])))"

text \<open>The rows of \<open>gen_metadata\<close> are read by their index.\<close>

definition agy_parse :: "wire \<Rightarrow> string \<Rightarrow> agy_db \<Rightarrow> event list option" where
  "agy_parse W path db =
     Option.bind (stepTimes W (ad_Steps db)) (\<lambda>created.
       fold_opt (add_generation W (conversation_of path) created) (sort_by (\<lambda>a b. fst a < fst b) (ad_Generations db)) [])"

section \<open>Listing the conversations\<close>

text \<open>What the file system answers for a root and for a path; a file beside the database ends in \<open>-wal\<close>.\<close>

datatype 'a fs_answer = FsMissing | FsError | FsFound 'a

record dir_entry =
  de_Name :: string
  de_IsDir :: bool
  de_Stat :: "file_state fs_answer"
  de_Wal :: "file_state fs_answer"

definition with_wal :: "file_state \<Rightarrow> file_state fs_answer \<Rightarrow> file_state" where
  "with_wal st wal = (case wal of
     FsFound w \<Rightarrow> st\<lparr>fs_Size := fs_Size st + fs_Size w, fs_ModTime := (if fs_ModTime w > fs_ModTime st then fs_ModTime w else fs_ModTime st)\<rparr>
   | _ \<Rightarrow> st)"

definition list_entry :: "string \<Rightarrow> dir_entry \<Rightarrow> (string, file_state) gomap \<Rightarrow> (string, file_state) gomap option" where
  "list_entry dir e files =
     (if de_IsDir e \<or> \<not> has_suffix (de_Name e) ''.db'' then Some files
      else case de_Stat e of
          FsMissing \<Rightarrow> Some files
        | FsError \<Rightarrow> None
        | FsFound st \<Rightarrow> Some (put (dir @ ''/'' @ de_Name e) (with_wal st (de_Wal e)) files))"

definition list_root :: "string \<times> dir_entry list fs_answer \<Rightarrow> (string, file_state) gomap \<Rightarrow> (string, file_state) gomap option" where
  "list_root r files = (case snd r of
     FsMissing \<Rightarrow> Some files | FsError \<Rightarrow> None | FsFound es \<Rightarrow> fold_opt (list_entry (fst r)) es files)"

definition agy_list :: "(string \<times> dir_entry list fs_answer) list \<Rightarrow> (string, file_state) gomap option" where
  "agy_list roots = fold_opt list_root roots []"

text \<open>A request that only reached the WAL changes what the scan compares.\<close>

lemma wal_growth_changes:
  assumes "fs_Size w' \<noteq> fs_Size w"
  shows "Changed [(p, with_wal st (FsFound w))] [(p, with_wal st (FsFound w'))] = [p]"
  using assms by (simp add: Changed_def with_wal_def)

section \<open>What the package does\<close>

text \<open>
  The documented behaviour of \<open>protowire\<close> that reading relies on: a successful call consumes at
  least one byte (a skipped value may be empty) and no more than there are, and bytes beyond
  those it consumed do not change its result.
\<close>

definition wire_ok :: "wire \<Rightarrow> bool" where
  "wire_ok W \<longleftrightarrow>
     (\<forall>b num ty n. wi_Tag W b = Some (num, ty, n) \<longrightarrow> 0 < n \<and> n \<le> length b \<and> (\<forall>c. wi_Tag W (b @ c) = Some (num, ty, n))) \<and>
     (\<forall>b v n. wi_Varint W b = Some (v, n) \<longrightarrow> 0 < n \<and> n \<le> length b \<and> (\<forall>c. wi_Varint W (b @ c) = Some (v, n))) \<and>
     (\<forall>b v n. wi_Bytes W b = Some (v, n) \<longrightarrow> 0 < n \<and> n \<le> length b \<and> (\<forall>c. wi_Bytes W (b @ c) = Some (v, n))) \<and>
     (\<forall>num ty b n. wi_Skip W num ty b = Some n \<longrightarrow> n \<le> length b \<and> (\<forall>c. wi_Skip W num ty (b @ c) = Some n))"

lemma wire_okD:
  assumes "wire_ok W"
  shows "wi_Tag W b = Some (num, ty, n) \<Longrightarrow> 0 < n \<and> n \<le> length b \<and> wi_Tag W (b @ c) = Some (num, ty, n)"
    and "wi_Varint W b = Some (v, n) \<Longrightarrow> n \<le> length b \<and> wi_Varint W (b @ c) = Some (v, n)"
    and "wi_Bytes W b = Some (v', n) \<Longrightarrow> n \<le> length b \<and> wi_Bytes W (b @ c) = Some (v', n)"
    and "wi_Skip W num ty b = Some n \<Longrightarrow> n \<le> length b \<and> wi_Skip W num ty (b @ c) = Some n"
  using assms unfolding wire_ok_def by blast+

text \<open>One step of the loop: it ends, or reads a field (or none) and goes on behind it.\<close>

definition wire_step :: "wire \<Rightarrow> bytes \<Rightarrow> (wire_field list \<times> nat) option" where
  "wire_step W b =
     (if b = [] then None else
      Option.bind (wi_Tag W b) (\<lambda>(num, ty, n).
        if ty = VarintType then map_option (\<lambda>(v, m). ([VarintField num v], n + m)) (wi_Varint W (drop n b))
        else if ty = BytesType then map_option (\<lambda>(v, m). ([BytesField num v], n + m)) (wi_Bytes W (drop n b))
        else map_option (\<lambda>m. ([], n + m)) (wi_Skip W num ty (drop n b))))"

lemma cons_field: "Option.bind r (\<lambda>fs. Some (x # fs)) = map_option ((@) [x]) r"
  by (cases r) auto

lemma walk_fields_step:
  "walk_fields W b = (case wire_step W b of None \<Rightarrow> Some [] | Some (fs, n) \<Rightarrow> map_option ((@) fs) (walk_fields W (drop n b)))"
proof (cases "b = [] \<or> wi_Tag W b = None")
  case True
  then show ?thesis by (auto simp: walk_fields.simps[of W b] wire_step_def)
next
  case False
  then obtain num ty k where tag: "b \<noteq> []" "wi_Tag W b = Some (num, ty, k)" by auto
  have nil: "map_option ((@) []) r = r" for r :: "wire_field list option" by (cases r) auto
  consider "ty = VarintType" | "ty \<noteq> VarintType" "ty = BytesType" | "ty \<noteq> VarintType" "ty \<noteq> BytesType" by blast
  then show ?thesis
  proof cases
    case 1
    then show ?thesis using tag
      by (cases "wi_Varint W (drop k b)") (auto simp: walk_fields.simps[of W b] wire_step_def Let_def cons_field add.commute)
  next
    case 2
    then show ?thesis using tag
      by (cases "wi_Bytes W (drop k b)") (auto simp: walk_fields.simps[of W b] wire_step_def Let_def cons_field add.commute)
  next
    case 3
    then show ?thesis using tag
      by (cases "wi_Skip W num ty (drop k b)") (auto simp: walk_fields.simps[of W b] wire_step_def Let_def nil add.commute)
  qed
qed

lemma wire_step_ok:
  assumes W: "wire_ok W" and s: "wire_step W b = Some (fs, n)"
  shows "0 < n" "n \<le> length b" "wire_step W (b @ c) = Some (fs, n)"
proof -
  obtain num ty k where tag: "wi_Tag W b = Some (num, ty, k)" and b: "b \<noteq> []"
    using s by (auto simp: wire_step_def bind_eq_Some_conv split: if_splits)
  have t: "0 < k" "k \<le> length b" "wi_Tag W (b @ c) = Some (num, ty, k)" using wire_okD(1)[OF W tag] by auto
  have d: "drop k (b @ c) = drop k b @ c" using t by simp
  consider (varint) v m where "ty = VarintType" "wi_Varint W (drop k b) = Some (v, m)" "fs = [VarintField num v]" "n = k + m"
    | (bytes) v m where "ty \<noteq> VarintType" "ty = BytesType" "wi_Bytes W (drop k b) = Some (v, m)" "fs = [BytesField num v]" "n = k + m"
    | (skip) m where "ty \<noteq> VarintType" "ty \<noteq> BytesType" "wi_Skip W num ty (drop k b) = Some m" "fs = []" "n = k + m"
    using s tag b by (auto simp: wire_step_def split: if_splits)
  then have "0 < n \<and> n \<le> length b \<and> wire_step W (b @ c) = Some (fs, n)"
  proof cases
    case varint
    then show ?thesis using wire_okD(2)[OF W varint(2), of c] t b d by (auto simp: wire_step_def)
  next
    case bytes
    then show ?thesis using wire_okD(3)[OF W bytes(3), of c] t b d by (auto simp: wire_step_def)
  next
    case skip
    then show ?thesis using wire_okD(4)[OF W skip(3), of c] t b d by (auto simp: wire_step_def)
  qed
  then show "0 < n" "n \<le> length b" "wire_step W (b @ c) = Some (fs, n)" by blast+
qed

lemma walk_fields_prefix:
  assumes "wire_ok W"
  shows "\<exists>fs rest. walk_fields W b = Some fs \<and> walk_fields W (b @ c) = Some (fs @ rest)"
proof (induction b rule: length_induct)
  case (1 b)
  have ends: "\<exists>fs. walk_fields W b = Some fs" for b
  proof (induction b rule: length_induct)
    case (1 b)
    show ?case
    proof (cases "wire_step W b")
      case (Some r)
      obtain fs n where "r = (fs, n)" by force
      then have "length (drop n b) < length b" using wire_step_ok[OF assms] Some by fastforce
      then show ?thesis using 1 Some \<open>r = (fs, n)\<close> by (subst walk_fields_step) (force)
    qed (simp add: walk_fields_step)
  qed
  show ?case
  proof (cases "wire_step W b")
    case None
    then show ?thesis using ends[of "b @ c"] by (simp add: walk_fields_step)
  next
    case (Some r)
    obtain fs n where r: "r = (fs, n)" by force
    note ok = wire_step_ok[OF assms, of b fs n] Some[unfolded r]
    then have "length (drop n b) < length b" by fastforce
    then obtain gs rest where "walk_fields W (drop n b) = Some gs" "walk_fields W (drop n b @ c) = Some (gs @ rest)"
      using 1 by blast
    then show ?thesis using ok
      by (subst walk_fields_step[of W b], subst walk_fields_step[of W "b @ c"]) simp
  qed
qed

text \<open>
  C27. Reading a message always ends, and a message that was cut off is read partly, never misread:
  the fields found are the first ones of the whole message.
\<close>

theorem walk_truncated:
  assumes "wire_ok W"
  shows "\<exists>fs rest. walk_fields W b = Some fs \<and> walk_fields W (b @ c) = Some (fs @ rest)"
  by (rule walk_fields_prefix[OF assms])

section \<open>Every conversation is read\<close>

text \<open>A parse does not fail on what a message holds: the functions given to \<open>walk\<close> always return.\<close>

lemma fold_opt_total: "(\<And>x s. f x s \<noteq> None) \<Longrightarrow> fold_opt f xs s \<noteq> None"
  by (induction xs arbitrary: s) (auto simp: bind_eq_None_conv)

lemma walk_total:
  assumes "wire_ok W" "\<And>x s. f x s \<noteq> None" shows "walk W b f s \<noteq> None"
proof -
  obtain fs where "walk_fields W b = Some fs" using walk_fields_prefix[OF assms(1), of b "[]"] by blast
  then show ?thesis using fold_opt_total[OF assms(2)] by (simp add: walk_def)
qed

lemma bind_total: "\<exists>y. m = Some y \<Longrightarrow> (\<And>y. \<exists>z. k y = Some z) \<Longrightarrow> \<exists>z. Option.bind m k = Some z"
  by (cases m) auto

lemma response_field_total:
  assumes "wire_ok W" shows "response_field W f st \<noteq> None"
proof -
  have "walk W v label_field ([], []) \<noteq> None" for v by (rule walk_total[OF assms]) (simp add: label_field_def)
  then show ?thesis by (cases f) (auto simp: response_field_def intro!: bind_total split: prod.split)
qed

lemma generation_field_total: "wire_ok W \<Longrightarrow> generation_field W f st \<noteq> None"
  using walk_total[of W "response_field W"] response_field_total by (auto simp: generation_field_def split: wire_field.split)

lemma parseGeneration_total:
  assumes "wire_ok W" shows "parseGeneration W row \<noteq> None"
proof -
  have "walk W row (generation_field W) st \<noteq> None" for st by (rule walk_total[OF assms generation_field_total[OF assms]])
  moreover have "walk W b usage_field t \<noteq> None" for b t by (rule walk_total[OF assms]) (simp add: usage_field_def)
  ultimately have "\<exists>y. parseGeneration W row = Some y" unfolding parseGeneration_def
    by (intro bind_total) (auto intro!: bind_total split: option.split)
  then show ?thesis by simp
qed

lemma stepTimes_total:
  assumes "wire_ok W" shows "stepTimes W steps \<noteq> None"
proof -
  have "walk W b stamp_field t \<noteq> None" for b t by (rule walk_total[OF assms]) (simp add: stamp_field_def)
  then have f: "step_field W idx f t \<noteq> None" for idx f t
    by (cases f) (auto simp: step_field_def intro!: bind_total split: prod.split)
  have "walk W b (step_field W idx) t \<noteq> None" for b idx t by (rule walk_total[OF assms f])
  then show ?thesis unfolding stepTimes_def by (intro fold_opt_total) (auto split: prod.split)
qed

text \<open>The event of a row, if it has one.\<close>

definition row_event :: "wire \<Rightarrow> string \<Rightarrow> (int, time) gomap \<Rightarrow> int \<times> bytes \<Rightarrow> event option" where
  "row_event W conversation created row =
     Option.bind (Option.bind (parseGeneration W (snd row)) id) (\<lambda>g.
       map_option (\<lambda>t. agy_event conversation (fst row) t g) (map_of created (gn_Step g)))"

lemma add_generation_row:
  assumes "wire_ok W"
  shows "add_generation W c created r es = Some (es @ (case row_event W c created r of None \<Rightarrow> [] | Some e \<Rightarrow> [e]))"
proof -
  obtain g where "parseGeneration W (snd r) = Some g" using parseGeneration_total[OF assms] by blast
  then show ?thesis by (auto simp: add_generation_def row_event_def split: option.split)
qed

lemma fold_generations:
  assumes "wire_ok W"
  shows "fold_opt (add_generation W c created) rows es = Some (es @ List.map_filter (row_event W c created) rows)"
  by (induction rows arbitrary: es) (auto simp: add_generation_row[OF assms] map_filter_simps split: option.split)

lemma agy_key_inj: "agy_key c i = agy_key c j \<longleftrightarrow> i = j"
  by (simp add: agy_key_def decimal_inj)

lemma row_event_key: "row_event W c created r = Some e \<Longrightarrow> ev_DedupeKey e = agy_key c (fst r)"
  by (auto simp: row_event_def bind_eq_Some_conv agy_event_def)

lemma distinct_row_keys:
  "distinct (map fst rows) \<Longrightarrow> distinct (map ev_DedupeKey (List.map_filter (row_event W c created) rows))"
proof (induction rows)
  case (Cons r rows)
  show ?case
  proof (cases "row_event W c created r")
    case None
    then show ?thesis using Cons by (simp add: map_filter_simps)
  next
    case (Some e)
    have "ev_DedupeKey e' \<noteq> ev_DedupeKey e" if e': "e' \<in> set (List.map_filter (row_event W c created) rows)" for e'
    proof -
      obtain r' where "r' \<in> set rows" "row_event W c created r' = Some e'" using e' by (auto simp: List.map_filter_def)
      then show ?thesis using row_event_key[OF Some] row_event_key[of W c created r' e'] Cons.prems
        by (force simp: agy_key_inj)
    qed
    then have "ev_DedupeKey e \<notin> ev_DedupeKey ` set (List.map_filter (row_event W c created) rows)" by force
    then show ?thesis using Cons Some by (simp add: map_filter_simps)
  qed
qed (simp add: map_filter_simps)

lemma row_event_counts:
  assumes "row_event W c created r = Some e"
  shows "wrap64 (tk_Input (ev_Tokens e) + tk_Output (ev_Tokens e)) > 0" "ev_Model e \<noteq> []"
proof -
  obtain g where g: "parseGeneration W (snd r) = Some (Some g)" "ev_Tokens e = gn_Tokens g" "ev_Model e = gn_Model g"
    using assms by (auto simp: row_event_def bind_eq_Some_conv agy_event_def)
  then show "wrap64 (tk_Input (ev_Tokens e) + tk_Output (ev_Tokens e)) > 0" "ev_Model e \<noteq> []"
    by (auto simp: parseGeneration_def bind_eq_Some_conv split: option.splits if_splits)
qed

text \<open>
  C28. Every conversation database is read, whatever its messages hold: one event per request that has
  a model, a count and a step whose time is known, in the order of the requests, each under a key of
  its own.
\<close>

theorem agy_parse_events:
  assumes "wire_ok W" "distinct (map fst (ad_Generations db))"
  shows "\<exists>created. stepTimes W (ad_Steps db) = Some created \<and>
    (let es = List.map_filter (row_event W (conversation_of path) created) (sort_by (\<lambda>a b. fst a < fst b) (ad_Generations db))
     in agy_parse W path db = Some es \<and> distinct (map ev_DedupeKey es) \<and>
        (\<forall>e \<in> set es. wrap64 (tk_Input (ev_Tokens e) + tk_Output (ev_Tokens e)) > 0 \<and> ev_Model e \<noteq> []))"
proof -
  obtain created where created: "stepTimes W (ad_Steps db) = Some created" using stepTimes_total[OF assms(1)] by blast
  let ?rows = "sort_by (\<lambda>a b. fst a < fst b) (ad_Generations db)"
  have "distinct (map fst ?rows)"
    using assms(2) by (metis mset_sort_by mset_map mset_eq_imp_distinct_iff)
  then show ?thesis
    using created fold_generations[OF assms(1)] distinct_row_keys row_event_counts
    by (auto simp: agy_parse_def Let_def List.map_filter_def)
qed

text \<open>A wire format for the witnesses: one byte of tag, of a number, and of a length.\<close>

definition short_wire :: wire where
  "short_wire = \<lparr>
     wi_Tag = (\<lambda>b. case b of [] \<Rightarrow> None | x # _ \<Rightarrow> Some (unat x div 8, unat x mod 8, 1)),
     wi_Varint = (\<lambda>b. case b of [] \<Rightarrow> None | x # _ \<Rightarrow> Some (ucast x, 1)),
     wi_Bytes = (\<lambda>b. case b of [] \<Rightarrow> None | x # xs \<Rightarrow> if length xs < unat x then None else Some (take (unat x) xs, Suc (unat x))),
     wi_Skip = (\<lambda>_ _ _. None)\<rparr>"

lemma short_wire_ok: "wire_ok short_wire"
  by (auto simp: wire_ok_def short_wire_def split: list.splits if_splits)

lemma walk_truncated_witness:
  "(\<exists>fs rest. walk_fields short_wire [8, 5, 18, 2, 7] = Some fs \<and> walk_fields short_wire ([8, 5, 18, 2, 7] @ [9]) = Some (fs @ rest)) \<and>
   walk_fields short_wire [8, 5, 18, 2, 7] = Some [VarintField 1 5]"
proof
  show "\<exists>fs rest. walk_fields short_wire [8, 5, 18, 2, 7] = Some fs \<and> walk_fields short_wire ([8, 5, 18, 2, 7] @ [9]) = Some (fs @ rest)"
    by (rule walk_truncated[OF short_wire_ok])
qed code_simp

definition short_tag :: "nat \<Rightarrow> nat \<Rightarrow> 8 word" where "short_tag num ty = of_nat (8 * num + ty)"

text \<open>A message of one bytes field, and a number field.\<close>

definition bytes_field :: "nat \<Rightarrow> bytes \<Rightarrow> bytes" where
  "bytes_field num v = short_tag num BytesType # of_nat (length v) # v"

definition demo_conversation :: agy_db where
  "demo_conversation = \<lparr>
     ad_Steps = [(3, bytes_field 1 [short_tag 1 0, 7])],
     ad_Generations = [(0, bytes_field 1
        (bytes_field 4 [short_tag 2 0, 9, short_tag 3 0, 4] @ bytes_field 19 (map (of_nat \<circ> of_char) ''gemini'') @
         bytes_field 20 (bytes_field 1 (map (of_nat \<circ> of_char) stepIndexLabel) @ bytes_field 2 [51]))),
       (1, [255])]\<rparr>"

lemma demo_conversation_parsed:
  "map_option (map (\<lambda>e. (ev_DedupeKey e, ev_Model e, tk_Input (ev_Tokens e), tk_Output (ev_Tokens e)))) (agy_parse short_wire ''c.db'' demo_conversation) =
   Some [(''antigravity:c:0'', ''gemini'', 9, 4)]"
  by code_simp

lemma agy_parse_events_witness:
  "(\<exists>created. stepTimes short_wire (ad_Steps demo_conversation) = Some created \<and>
    (let es = List.map_filter (row_event short_wire (conversation_of ''c.db'') created) (sort_by (\<lambda>a b. fst a < fst b) (ad_Generations demo_conversation))
     in agy_parse short_wire ''c.db'' demo_conversation = Some es \<and> distinct (map ev_DedupeKey es) \<and>
        list_all (\<lambda>e. wrap64 (tk_Input (ev_Tokens e) + tk_Output (ev_Tokens e)) > 0 \<and> ev_Model e \<noteq> []) es)) \<and>
   map_option (map ev_DedupeKey) (agy_parse short_wire ''c.db'' demo_conversation) = Some [''antigravity:c:0'']"
  using agy_parse_events[OF short_wire_ok, of demo_conversation "''c.db''"] demo_conversation_parsed
  by (auto simp: demo_conversation_def list_all_iff Let_def)

end
