(* ===== verification/ServerStore.thy ===== *)
theory ServerStore
  imports Syncapi SqlTables
begin

text \<open>
  \<open>internal/server/storage/storage.go\<close>, the server's Postgres database: its tables with the
  keys and references of the migrations, and the operations on persons, devices, invites,
  accounts, memberships, plan intervals and settings. A statement that breaks a key, a
  reference or a check fails and rolls its transaction back; a failed operation has no new
  state. \<open>now()\<close> and \<open>time.Now()\<close> are the argument \<open>now\<close>, the random IDs and secrets are
  arguments too, SHA-256 in hex is the parameter \<open>sha\<close> and the order of the database's
  collation the parameter \<open>tlt\<close>. Instants are kept exactly.
\<close>

section \<open>Tables\<close>

datatype store_error =
    ErrNotFound
  | ErrInvalidInvite
  | ErrUnauthorized
  | ErrDuplicate
  | ErrInvalidPlanInterval
  | ErrPlanIntervalOverlap
  | ErrNoRows
  | ErrConstraint

record person_row =
  pr_ID :: string
  pr_DisplayName :: string
  pr_CreatedAt :: time

record device_row =
  dr_ID :: string
  dr_PersonID :: string
  dr_Name :: string
  dr_Platform :: string
  dr_TokenHash :: string
  dr_CreatedAt :: time
  dr_LastSeenAt :: "time option"
  dr_RevokedAt :: "time option"

record invite_row =
  iv_CodeHash :: string
  iv_PersonID :: string
  iv_ExpiresAt :: time
  iv_UsedAt :: "time option"
  iv_DeviceID :: "string option"

record account_row =
  ar_ID :: string
  ar_Provider :: string
  ar_RefHash :: string
  ar_Hint :: string
  ar_Label :: string
  ar_PlanType :: string
  ar_PlanObservedAt :: "time option"
  ar_Position :: "int option"

record observation_row =
  or_DeviceID :: string
  or_AccountID :: string
  or_Source :: string
  or_ObservedAt :: time

record usage_row =
  ur_DedupeKey :: string
  ur_AccountID :: string
  ur_PersonID :: string
  ur_DeviceID :: string
  ur_Product :: string
  ur_Originator :: string
  ur_SessionID :: string
  ur_Model :: string
  ur_OccurredAt :: time
  ur_ThirdParty :: bool
  ur_Gateway :: string
  ur_RequestID :: string
  ur_ParentRequestID :: string
  ur_Effort :: string
  ur_Status :: string
  ur_Aggregated :: bool
  ur_Tokens :: tokens

record snapshot_row =
  qs_AccountID :: string
  qs_DeviceID :: string
  qs_Source :: string
  qs_ObservedAt :: time
  qs_Buckets :: "sync_bucket list"
  qs_PlanType :: string

record limit_row =
  lr_DedupeKey :: string
  lr_AccountID :: string
  lr_PersonID :: string
  lr_DeviceID :: string
  lr_Provider :: string
  lr_OccurredAt :: time
  lr_ObservedAt :: time
  lr_SessionID :: string
  lr_RequestID :: string
  lr_Kind :: string
  lr_Source :: string
  lr_Evidence :: string
  lr_HTTPStatus :: int

record db =
  db_persons :: "person_row list"
  db_devices :: "device_row list"
  db_invites :: "invite_row list"
  db_accounts :: "account_row list"
  db_memberships :: "membership list"
  db_observations :: "observation_row list"
  db_usage :: "usage_row list"
  db_snapshots :: "snapshot_row list"
  db_limits :: "limit_row list"
  db_plans :: "plan_interval list"
  db_settings :: "(string, string) gomap"

definition empty_db :: db where
  "empty_db = \<lparr>db_persons = [], db_devices = [], db_invites = [], db_accounts = [], db_memberships = [],
     db_observations = [], db_usage = [], db_snapshots = [], db_limits = [], db_plans = [], db_settings = []\<rparr>"

type_synonym 'a outcome = "store_error + ('a \<times> db)"

abbreviation person_exists :: "db \<Rightarrow> string \<Rightarrow> bool" where
  "person_exists s i \<equiv> i \<in> pr_ID ` set (db_persons s)"

abbreviation device_exists :: "db \<Rightarrow> string \<Rightarrow> bool" where
  "device_exists s i \<equiv> i \<in> dr_ID ` set (db_devices s)"

abbreviation account_exists :: "db \<Rightarrow> string \<Rightarrow> bool" where
  "account_exists s i \<equiv> i \<in> ar_ID ` set (db_accounts s)"

section \<open>Persons\<close>

definition AddPerson :: "string \<Rightarrow> time \<Rightarrow> string \<Rightarrow> db \<Rightarrow> person outcome" where
  "AddPerson newID now name s =
     (if person_exists s newID \<or> name \<in> pr_DisplayName ` set (db_persons s) then Inl ErrDuplicate
      else Inr (\<lparr>p_ID = newID, p_DisplayName = name\<rparr>,
        s\<lparr>db_persons := db_persons s @ [\<lparr>pr_ID = newID, pr_DisplayName = name, pr_CreatedAt = now\<rparr>]\<rparr>))"

definition person_of_row :: "person_row \<Rightarrow> person" where
  "person_of_row r = \<lparr>p_ID = pr_ID r, p_DisplayName = pr_DisplayName r\<rparr>"

definition Persons :: "db \<Rightarrow> person list" where
  "Persons s = map person_of_row (sort_by (\<lambda>a b. pr_CreatedAt a < pr_CreatedAt b) (db_persons s))"

definition find_person :: "db \<Rightarrow> string \<Rightarrow> person_row option" where
  "find_person s i = find (\<lambda>r. pr_ID r = i) (db_persons s)"

definition Person :: "string \<Rightarrow> db \<Rightarrow> store_error + person" where
  "Person i s = (case find_person s i of None \<Rightarrow> Inl ErrNotFound | Some r \<Rightarrow> Inr (person_of_row r))"

text \<open>Rows that refer to a device keep it from being deleted, and those that refer to a person.\<close>

definition device_referenced :: "db \<Rightarrow> string \<Rightarrow> bool" where
  "device_referenced s i \<longleftrightarrow> Some i \<in> iv_DeviceID ` set (db_invites s) \<or> i \<in> or_DeviceID ` set (db_observations s) \<or>
     i \<in> ur_DeviceID ` set (db_usage s) \<or> i \<in> qs_DeviceID ` set (db_snapshots s) \<or> i \<in> lr_DeviceID ` set (db_limits s)"

definition person_referenced :: "db \<Rightarrow> string \<Rightarrow> bool" where
  "person_referenced s i \<longleftrightarrow> i \<in> dr_PersonID ` set (db_devices s) \<or> i \<in> iv_PersonID ` set (db_invites s) \<or>
     i \<in> ms_PersonID ` set (db_memberships s) \<or> i \<in> ur_PersonID ` set (db_usage s) \<or> i \<in> lr_PersonID ` set (db_limits s)"

definition DeletePerson :: "string \<Rightarrow> db \<Rightarrow> unit outcome" where
  "DeletePerson i s =
     (let devices = map dr_ID (filter (\<lambda>r. dr_PersonID r = i) (db_devices s));
          s = s\<lparr>db_usage := filter (\<lambda>r. \<not> (ur_PersonID r = i \<or> ur_DeviceID r \<in> set devices)) (db_usage s)\<rparr>;
          s = s\<lparr>db_snapshots := filter (\<lambda>r. qs_DeviceID r \<notin> set devices) (db_snapshots s)\<rparr>;
          s = s\<lparr>db_observations := filter (\<lambda>r. or_DeviceID r \<notin> set devices) (db_observations s)\<rparr>;
          s = s\<lparr>db_invites := filter (\<lambda>r. \<not> (iv_PersonID r = i \<or>
                (case iv_DeviceID r of None \<Rightarrow> False | Some d \<Rightarrow> d \<in> set devices))) (db_invites s)\<rparr>;
          s = s\<lparr>db_memberships := filter (\<lambda>r. ms_PersonID r \<noteq> i) (db_memberships s)\<rparr>
      in if list_ex (device_referenced s) devices then Inl ErrConstraint
      else let s = s\<lparr>db_devices := filter (\<lambda>r. dr_PersonID r \<noteq> i) (db_devices s)\<rparr>
      in if \<not> person_exists s i then Inl ErrNotFound
      else if person_referenced s i then Inl ErrConstraint
      else Inr ((), s\<lparr>db_persons := filter (\<lambda>r. pr_ID r \<noteq> i) (db_persons s)\<rparr>))"

section \<open>Invites and devices\<close>

definition InviteTTL :: duration where "InviteTTL = 24 * hour"

definition hashSecret :: "(string \<Rightarrow> string) \<Rightarrow> string \<Rightarrow> string" where
  "hashSecret sha secret = sha secret"

definition CreateInvite ::
  "(string \<Rightarrow> string) \<Rightarrow> string \<Rightarrow> time \<Rightarrow> string \<Rightarrow> duration \<Rightarrow> db \<Rightarrow> (string \<times> time) outcome" where
  "CreateInvite sha code now personID ttl s =
     (let expires = now + ttl in
      if \<not> person_exists s personID \<or> hashSecret sha code \<in> iv_CodeHash ` set (db_invites s) then Inl ErrConstraint
      else Inr ((code, expires),
        s\<lparr>db_invites := db_invites s @ [\<lparr>iv_CodeHash = hashSecret sha code, iv_PersonID = personID,
          iv_ExpiresAt = expires, iv_UsedAt = None, iv_DeviceID = None\<rparr>]\<rparr>))"

record store_device =
  sd_Device :: device
  sd_Person :: person

definition Pair ::
  "(string \<Rightarrow> string) \<Rightarrow> string \<Rightarrow> string \<Rightarrow> time \<Rightarrow> string \<Rightarrow> string \<Rightarrow> string \<Rightarrow> db \<Rightarrow> (store_device \<times> string) outcome" where
  "Pair sha newID token now code deviceName platform s =
     (case find (\<lambda>r. iv_CodeHash r = hashSecret sha code \<and> iv_UsedAt r = None \<and> iv_ExpiresAt r > now) (db_invites s) of
        None \<Rightarrow> Inl ErrInvalidInvite
      | Some invite \<Rightarrow> (case find_person s (iv_PersonID invite) of
          None \<Rightarrow> Inl ErrInvalidInvite
        | Some p \<Rightarrow>
            if device_exists s newID \<or> hashSecret sha token \<in> dr_TokenHash ` set (db_devices s) then Inl ErrConstraint
            else let d = \<lparr>dev_ID = newID, dev_PersonID = pr_ID p, dev_Name = deviceName, dev_Platform = platform\<rparr>;
                     s = s\<lparr>db_devices := db_devices s @ [\<lparr>dr_ID = newID, dr_PersonID = pr_ID p, dr_Name = deviceName,
                           dr_Platform = platform, dr_TokenHash = hashSecret sha token, dr_CreatedAt = now,
                           dr_LastSeenAt = None, dr_RevokedAt = None\<rparr>]\<rparr>;
                     s = s\<lparr>db_invites := update_where (\<lambda>r. iv_CodeHash r = hashSecret sha code)
                           (\<lambda>r. r\<lparr>iv_UsedAt := Some now, iv_DeviceID := Some newID\<rparr>) (db_invites s)\<rparr>
                 in Inr ((\<lparr>sd_Device = d, sd_Person = person_of_row p\<rparr>, token), s)))"

definition device_of_row :: "device_row \<Rightarrow> device" where
  "device_of_row r = \<lparr>dev_ID = dr_ID r, dev_PersonID = dr_PersonID r, dev_Name = dr_Name r, dev_Platform = dr_Platform r\<rparr>"

definition DeviceByToken :: "(string \<Rightarrow> string) \<Rightarrow> time \<Rightarrow> string \<Rightarrow> db \<Rightarrow> store_device outcome" where
  "DeviceByToken sha now token s =
     (let match = (\<lambda>r. dr_TokenHash r = hashSecret sha token \<and> dr_RevokedAt r = None \<and> person_exists s (dr_PersonID r)) in
      case find match (db_devices s) of
        None \<Rightarrow> Inl ErrUnauthorized
      | Some r \<Rightarrow> (case find_person s (dr_PersonID r) of
          None \<Rightarrow> Inl ErrUnauthorized
        | Some p \<Rightarrow> Inr (\<lparr>sd_Device = device_of_row r, sd_Person = person_of_row p\<rparr>,
            s\<lparr>db_devices := update_where match (\<lambda>r. r\<lparr>dr_LastSeenAt := Some now\<rparr>) (db_devices s)\<rparr>)))"

record device_listing =
  dl_Device :: device
  dl_PersonName :: string
  dl_LastSeenAt :: "time option"
  dl_RevokedAt :: "time option"

definition Devices :: "(string \<Rightarrow> string \<Rightarrow> bool) \<Rightarrow> db \<Rightarrow> device_listing list" where
  "Devices tlt s =
     (let joined = concat (map (\<lambda>d. map (\<lambda>p. (p, d)) (filter (\<lambda>p. pr_ID p = dr_PersonID d) (db_persons s))) (db_devices s));
          sorted = sort_by (\<lambda>(p, d) (q, e). tlt (pr_DisplayName p) (pr_DisplayName q) \<or>
                     (\<not> tlt (pr_DisplayName q) (pr_DisplayName p) \<and> dr_CreatedAt d < dr_CreatedAt e)) joined
      in map (\<lambda>(p, d). \<lparr>dl_Device = device_of_row d, dl_PersonName = pr_DisplayName p,
           dl_LastSeenAt = dr_LastSeenAt d, dl_RevokedAt = dr_RevokedAt d\<rparr>) sorted)"

definition RevokeDevice :: "time \<Rightarrow> string \<Rightarrow> db \<Rightarrow> unit outcome" where
  "RevokeDevice now i s =
     (let match = (\<lambda>r. dr_ID r = i \<and> dr_RevokedAt r = None) in
      if list_ex match (db_devices s)
      then Inr ((), s\<lparr>db_devices := update_where match (\<lambda>r. r\<lparr>dr_RevokedAt := Some now\<rparr>) (db_devices s)\<rparr>)
      else Inl ErrNotFound)"

section \<open>Accounts\<close>

definition account_of_row :: "account_row \<Rightarrow> account" where
  "account_of_row r = \<lparr>acc_ID = ar_ID r, acc_Provider = ar_Provider r, acc_ExternalRefHash = ar_RefHash r,
     acc_Hint = ar_Hint r, acc_Label = ar_Label r, acc_PlanType = ar_PlanType r\<rparr>"

text \<open>\<open>ORDER BY position NULLS LAST, provider, label\<close>\<close>

definition account_before :: "(string \<Rightarrow> string \<Rightarrow> bool) \<Rightarrow> account_row \<Rightarrow> account_row \<Rightarrow> bool" where
  "account_before tlt a b =
     (let text = tlt (ar_Provider a) (ar_Provider b) \<or>
            (\<not> tlt (ar_Provider b) (ar_Provider a) \<and> tlt (ar_Label a) (ar_Label b)) in
      case (ar_Position a, ar_Position b) of
        (Some m, Some n) \<Rightarrow> m < n \<or> (m = n \<and> text)
      | (Some _, None) \<Rightarrow> True
      | (None, Some _) \<Rightarrow> False
      | (None, None) \<Rightarrow> text)"

definition Accounts :: "(string \<Rightarrow> string \<Rightarrow> bool) \<Rightarrow> db \<Rightarrow> account list" where
  "Accounts tlt s = map account_of_row (sort_by (account_before tlt) (db_accounts s))"

definition Account :: "string \<Rightarrow> db \<Rightarrow> store_error + account" where
  "Account i s = (case find (\<lambda>r. ar_ID r = i) (db_accounts s) of
     None \<Rightarrow> Inl ErrNotFound | Some r \<Rightarrow> Inr (account_of_row r))"

fun set_positions :: "int \<Rightarrow> string list \<Rightarrow> account_row list \<Rightarrow> account_row list" where
  "set_positions n [] rows = rows"
| "set_positions n (i # ids) rows =
     set_positions (n + 1) ids (update_where (\<lambda>r. ar_ID r = i) (\<lambda>r. r\<lparr>ar_Position := Some n\<rparr>) rows)"

definition SetAccountOrder :: "string list \<Rightarrow> db \<Rightarrow> unit outcome" where
  "SetAccountOrder ids s =
     (let rows = map (\<lambda>r. r\<lparr>ar_Position := None\<rparr>) (db_accounts s)
      in Inr ((), s\<lparr>db_accounts := set_positions 0 ids rows\<rparr>))"

definition SetAccountLabel :: "string \<Rightarrow> string \<Rightarrow> db \<Rightarrow> unit outcome" where
  "SetAccountLabel i label s =
     Inr ((), s\<lparr>db_accounts := update_where (\<lambda>r. ar_ID r = i) (\<lambda>r. r\<lparr>ar_Label := label\<rparr>) (db_accounts s)\<rparr>)"

definition SetShareWeight :: "string \<Rightarrow> string \<Rightarrow> f64 \<Rightarrow> db \<Rightarrow> unit outcome" where
  "SetShareWeight accountID personID weight s =
     (let match = (\<lambda>m. ms_AccountID m = accountID \<and> ms_PersonID m = personID) in
      if weight < 0 then Inl ErrConstraint
      else if list_ex match (db_memberships s)
      then Inr ((), s\<lparr>db_memberships := update_where match (\<lambda>m. m\<lparr>ms_ShareWeight := weight\<rparr>) (db_memberships s)\<rparr>)
      else if \<not> account_exists s accountID \<or> \<not> person_exists s personID then Inl ErrConstraint
      else Inr ((), s\<lparr>db_memberships := db_memberships s @
             [\<lparr>ms_AccountID = accountID, ms_PersonID = personID, ms_ShareWeight = weight\<rparr>]\<rparr>))"

text \<open>Deleting an account row also deletes its limit events and plan intervals (\<open>ON DELETE CASCADE\<close>).\<close>

definition DeleteAccount :: "string \<Rightarrow> db \<Rightarrow> unit outcome" where
  "DeleteAccount i s =
     (let s = s\<lparr>db_usage := filter (\<lambda>r. ur_AccountID r \<noteq> i) (db_usage s)\<rparr>;
          s = s\<lparr>db_snapshots := filter (\<lambda>r. qs_AccountID r \<noteq> i) (db_snapshots s)\<rparr>;
          s = s\<lparr>db_observations := filter (\<lambda>r. or_AccountID r \<noteq> i) (db_observations s)\<rparr>;
          s = s\<lparr>db_memberships := filter (\<lambda>r. ms_AccountID r \<noteq> i) (db_memberships s)\<rparr>
      in if \<not> account_exists s i then Inl ErrNotFound
      else Inr ((), s\<lparr>db_accounts := filter (\<lambda>r. ar_ID r \<noteq> i) (db_accounts s),
             db_limits := filter (\<lambda>r. lr_AccountID r \<noteq> i) (db_limits s),
             db_plans := filter (\<lambda>r. pi_AccountID r \<noteq> i) (db_plans s)\<rparr>))"

record member =
  mem_PersonID :: string
  mem_Name :: string
  mem_ShareWeight :: f64

definition Members :: "(string \<Rightarrow> string \<Rightarrow> bool) \<Rightarrow> string \<Rightarrow> db \<Rightarrow> member list" where
  "Members tlt accountID s =
     (let joined = concat (map (\<lambda>m. map (\<lambda>p. \<lparr>mem_PersonID = pr_ID p, mem_Name = pr_DisplayName p,
              mem_ShareWeight = ms_ShareWeight m\<rparr>) (filter (\<lambda>p. pr_ID p = ms_PersonID m) (db_persons s)))
            (filter (\<lambda>m. ms_AccountID m = accountID) (db_memberships s)))
      in sort_by (\<lambda>a b. tlt (mem_Name a) (mem_Name b)) joined)"

section \<open>Settings\<close>

definition settingPublicDashboard :: string where "settingPublicDashboard = ''public_dashboard''"

definition FormatBool :: "bool \<Rightarrow> string" where
  "FormatBool b = (if b then ''true'' else ''false'')"

definition PublicDashboard :: "db \<Rightarrow> bool" where
  "PublicDashboard s = (case map_of (db_settings s) settingPublicDashboard of None \<Rightarrow> False | Some v \<Rightarrow> v = ''true'')"

definition SetPublicDashboard :: "bool \<Rightarrow> db \<Rightarrow> unit outcome" where
  "SetPublicDashboard on s = Inr ((), s\<lparr>db_settings := put settingPublicDashboard (FormatBool on) (db_settings s)\<rparr>)"

section \<open>Plan intervals\<close>

definition PlanHistory :: "string \<Rightarrow> db \<Rightarrow> plan_interval list" where
  "PlanHistory accountID s =
     sort_by (\<lambda>a b. pi_EffectiveAt a < pi_EffectiveAt b) (filter (\<lambda>r. pi_AccountID r = accountID) (db_plans s))"

definition interval_overlaps :: "plan_interval \<Rightarrow> plan_interval \<Rightarrow> bool" where
  "interval_overlaps a b =
     (let aBeforeBEnd = (case pi_EndedAt b of None \<Rightarrow> True | Some e \<Rightarrow> pi_EffectiveAt a < e);
          bBeforeAEnd = (case pi_EndedAt a of None \<Rightarrow> True | Some e \<Rightarrow> pi_EffectiveAt b < e)
      in aBeforeBEnd \<and> bBeforeAEnd)"

text \<open>The transaction of \<open>SavePlanInterval\<close>, and the checks in front of it.\<close>

definition store_interval :: "string \<Rightarrow> time \<Rightarrow> plan_interval \<Rightarrow> db \<Rightarrow> plan_interval outcome" where
  "store_interval newID now i s =
     (if \<not> account_exists s (pi_AccountID i) then Inl ErrNoRows
      else if list_ex (interval_overlaps i)
           (filter (\<lambda>r. pi_AccountID r = pi_AccountID i \<and> (pi_ID i = [] \<or> pi_ID r \<noteq> pi_ID i)) (db_plans s))
      then Inl ErrPlanIntervalOverlap
      else if pi_ID i = []
      then if newID \<in> pi_ID ` set (db_plans s) then Inl ErrConstraint
           else let i = i\<lparr>pi_ID := newID, pi_CreatedAt := now\<rparr> in Inr (i, s\<lparr>db_plans := db_plans s @ [i]\<rparr>)
      else case find (\<lambda>r. pi_ID r = pi_ID i \<and> pi_AccountID r = pi_AccountID i) (db_plans s) of
        None \<Rightarrow> Inl ErrNotFound
      | Some old \<Rightarrow>
          (let i = i\<lparr>pi_CreatedAt := pi_CreatedAt old\<rparr>
           in Inr (i, s\<lparr>db_plans := update_where (\<lambda>r. pi_ID r = pi_ID i \<and> pi_AccountID r = pi_AccountID i) (\<lambda>r. i) (db_plans s)\<rparr>)))"

definition SavePlanInterval :: "string \<Rightarrow> time \<Rightarrow> plan_interval \<Rightarrow> db \<Rightarrow> plan_interval outcome" where
  "SavePlanInterval newID now i0 s =
     (let i = i0\<lparr>pi_PlanType := trim_space (pi_PlanType i0)\<rparr> in
      if pi_AccountID i = [] \<or> pi_PlanType i = [] then Inl ErrInvalidPlanInterval
      else if (case pi_EndedAt i of None \<Rightarrow> False | Some e \<Rightarrow> \<not> e > pi_EffectiveAt i) then Inl ErrInvalidPlanInterval
      else let i = (if pi_Precision i = [] then i\<lparr>pi_Precision := PrecisionConfirmed\<rparr> else i) in
      store_interval newID now i s)"

definition DeletePlanInterval :: "string \<Rightarrow> string \<Rightarrow> db \<Rightarrow> unit outcome" where
  "DeletePlanInterval accountID intervalID s =
     (let match = (\<lambda>r. pi_ID r = intervalID \<and> pi_AccountID r = accountID) in
      if list_ex match (db_plans s) then Inr ((), s\<lparr>db_plans := filter (\<lambda>r. \<not> match r) (db_plans s)\<rparr>)
      else Inl ErrNotFound)"

section \<open>Reading stored history\<close>

definition HistoricalSnapshots :: "string \<Rightarrow> time \<Rightarrow> time \<Rightarrow> db \<Rightarrow> snapshot list" where
  "HistoricalSnapshots accountID start end s =
     map (\<lambda>r. Snapshot_ToDomain \<lparr>ss_AccountRefHash = [], ss_PreviousAccountRefHash = [], ss_AccountHint = [],
            ss_PlanType = qs_PlanType r, ss_Provider = [], ss_Source = qs_Source r, ss_ObservedAt = qs_ObservedAt r,
            ss_Buckets = qs_Buckets r\<rparr>)
       (sort_by (\<lambda>a b. qs_ObservedAt a < qs_ObservedAt b)
         (filter (\<lambda>r. qs_AccountID r = accountID \<and> qs_ObservedAt r \<ge> start \<and> qs_ObservedAt r < end) (db_snapshots s)))"

record stored_limit =
  st_LimitEvent :: limit_event
  st_PersonName :: string
  st_DeviceName :: string

definition HistoricalLimitEvents :: "string \<Rightarrow> time \<Rightarrow> time \<Rightarrow> db \<Rightarrow> stored_limit list" where
  "HistoricalLimitEvents accountID start end s =
     (let rows = filter (\<lambda>r. lr_AccountID r = accountID \<and> lr_OccurredAt r \<ge> start \<and> lr_OccurredAt r < end) (db_limits s);
          joined = concat (map (\<lambda>r. concat (map (\<lambda>p. map (\<lambda>d. (r, p, d))
              (filter (\<lambda>d. dr_ID d = lr_DeviceID r) (db_devices s)))
            (filter (\<lambda>p. pr_ID p = lr_PersonID r) (db_persons s)))) rows)
      in map (\<lambda>(r, p, d). \<lparr>st_LimitEvent = \<lparr>le_DedupeKey = lr_DedupeKey r, le_AccountRefHash = lr_AccountID r,
             le_DeviceID = lr_DeviceID r, le_PersonID = lr_PersonID r, le_Provider = lr_Provider r, le_Originator = [],
             le_OccurredAt = lr_OccurredAt r, le_ObservedAt = lr_ObservedAt r, le_SessionID = lr_SessionID r,
             le_RequestID = lr_RequestID r, le_Kind = lr_Kind r, le_Source = lr_Source r, le_Evidence = lr_Evidence r,
             le_HTTPStatus = lr_HTTPStatus r\<rparr>, st_PersonName = pr_DisplayName p, st_DeviceName = dr_Name d\<rparr>)
           (sort_by (\<lambda>(r, _) (q, _). lr_OccurredAt r < lr_OccurredAt q) joined))"

record demand_event =
  de_OccurredAt :: time
  de_PersonID :: string
  de_DeviceID :: string
  de_Model :: string
  de_Gateway :: string
  de_ThirdParty :: bool
  de_Tokens :: tokens

definition AccountDemandEvents :: "string \<Rightarrow> time \<Rightarrow> time \<Rightarrow> db \<Rightarrow> demand_event list" where
  "AccountDemandEvents accountID start end s =
     map (\<lambda>r. \<lparr>de_OccurredAt = ur_OccurredAt r, de_PersonID = ur_PersonID r, de_DeviceID = ur_DeviceID r,
            de_Model = ur_Model r, de_Gateway = ur_Gateway r, de_ThirdParty = ur_ThirdParty r, de_Tokens = ur_Tokens r\<rparr>)
       (sort_by (\<lambda>a b. ur_OccurredAt a < ur_OccurredAt b)
         (filter (\<lambda>r. ur_AccountID r = accountID \<and> ur_OccurredAt r \<ge> start \<and> ur_OccurredAt r < end) (db_usage s)))"

end
