(* ===== verification/ServerIngest.thy ===== *)
theory ServerIngest
  imports ServerStore
begin

text \<open>
  \<open>Store.Ingest\<close> and \<open>ensureAccount\<close> of \<open>internal/server/storage/storage.go\<close>: how one sync
  batch reaches the ledger. Every upsert is its statement, column by column; the batch is the
  fold of its records over the state of the transaction (\<open>ingest_state\<close>), and any failure
  rolls the whole batch back. The n-th random ID of the batch is \<open>newID n\<close>.
\<close>

section \<open>Accounts on first sight\<close>

text \<open>SQL \<open>LIKE\<close>: percent stands for any text, underscore for one character, backslash escapes.\<close>

fun like :: "string \<Rightarrow> string \<Rightarrow> bool" where
  "like s [] = (s = [])"
| "like [] (p # ps) = (p = CHR ''%'' \<and> like [] ps)"
| "like (c # s) (p # ps) =
     (if p = CHR ''%'' then like (c # s) ps \<or> like s (p # ps)
      else if p = CHR ''_'' then like s ps
      else if p = CHR 0x5C then (case ps of [] \<Rightarrow> False | q # qs \<Rightarrow> c = q \<and> like s qs)
      else c = p \<and> like s ps)"

text \<open>Comparisons with \<open>NULL\<close> are not true, and \<open>GREATEST\<close> leaves it out.\<close>

definition null_less :: "time option \<Rightarrow> time option \<Rightarrow> bool" where
  "null_less a b = (case (a, b) of (Some t, Some u) \<Rightarrow> t < u | _ \<Rightarrow> False)"

definition null_greatest :: "time option \<Rightarrow> time option \<Rightarrow> time option" where
  "null_greatest a b = (case (a, b) of (Some t, Some u) \<Rightarrow> Some (max t u) | (None, _) \<Rightarrow> b | (_, None) \<Rightarrow> a)"

definition merge_account :: "string \<Rightarrow> string \<Rightarrow> time option \<Rightarrow> account_row \<Rightarrow> account_row" where
  "merge_account hint plan at' r =
     r\<lparr>ar_Hint := (if hint \<noteq> [] then hint else ar_Hint r),
       ar_Label := (if ar_Label r = [] then hint else ar_Label r),
       ar_PlanType := (if plan = [] \<or> null_less at' (ar_PlanObservedAt r) \<or> like (ar_PlanType r) (plan @ '' %'')
         then ar_PlanType r else plan),
       ar_PlanObservedAt := null_greatest (ar_PlanObservedAt r) at'\<rparr>"

definition ensureAccount ::
  "string \<Rightarrow> string \<Rightarrow> string \<Rightarrow> string \<Rightarrow> string \<Rightarrow> time \<Rightarrow> string \<Rightarrow> db \<Rightarrow> string outcome" where
  "ensureAccount newID provider refHash hint plan planAt personID s =
     (let at' = (if plan \<noteq> [] then Some planAt else None);
          match = (\<lambda>r. ar_Provider r = provider \<and> ar_RefHash r = refHash);
          saved = (case find match (db_accounts s) of
            Some r \<Rightarrow> Inr (ar_ID r, s\<lparr>db_accounts := update_where match (merge_account hint plan at') (db_accounts s)\<rparr>)
          | None \<Rightarrow>
              if account_exists s newID then Inl ErrConstraint
              else Inr (newID, s\<lparr>db_accounts := db_accounts s @ [\<lparr>ar_ID = newID, ar_Provider = provider,
                     ar_RefHash = refHash, ar_Hint = hint, ar_Label = hint, ar_PlanType = plan,
                     ar_PlanObservedAt = at', ar_Position = None\<rparr>]\<rparr>))
      in case saved of
           Inl err \<Rightarrow> Inl err
         | Inr (i, s) \<Rightarrow>
             if list_ex (\<lambda>m. ms_AccountID m = i \<and> ms_PersonID m = personID) (db_memberships s) then Inr (i, s)
             else if \<not> person_exists s personID then Inl ErrConstraint
             else Inr (i, s\<lparr>db_memberships := db_memberships s @
                    [\<lparr>ms_AccountID = i, ms_PersonID = personID, ms_ShareWeight = 1\<rparr>]\<rparr>))"

section \<open>The batch\<close>

record ingest_state =
  in_db :: db
  in_accounts :: "(string \<times> string, string) gomap"
  in_calls :: nat
  in_accepted :: int

definition ensure ::
  "(nat \<Rightarrow> string) \<Rightarrow> string \<Rightarrow> string \<Rightarrow> string \<Rightarrow> string \<Rightarrow> string \<Rightarrow> time \<Rightarrow> ingest_state \<Rightarrow>
   store_error + (string \<times> ingest_state)" where
  "ensure newID personID provider refHash hint plan planAt st =
     (case map_of (in_accounts st) (provider, refHash) of
        Some i \<Rightarrow>
          if hint = [] \<and> plan = [] then Inr (i, st)
          else (case ensureAccount (newID (in_calls st)) provider refHash hint plan planAt personID (in_db st) of
              Inl err \<Rightarrow> Inl err
            | Inr (j, s) \<Rightarrow> Inr (j, st\<lparr>in_db := s, in_accounts := put (provider, refHash) j (in_accounts st),
                in_calls := in_calls st + 1\<rparr>))
      | None \<Rightarrow>
          (case ensureAccount (newID (in_calls st)) provider refHash hint plan planAt personID (in_db st) of
              Inl err \<Rightarrow> Inl err
            | Inr (j, s) \<Rightarrow> Inr (j, st\<lparr>in_db := s, in_accounts := put (provider, refHash) j (in_accounts st),
                in_calls := in_calls st + 1\<rparr>)))"

definition ingest_observation ::
  "(nat \<Rightarrow> string) \<Rightarrow> device \<Rightarrow> sync_observation \<Rightarrow> ingest_state \<Rightarrow> store_error + ingest_state" where
  "ingest_observation newID d o' st =
     (if so_AccountRefHash o' = [] then Inr st
      else let plan = (if so_Provider o' = ProviderAnthropic then [] else so_PlanType o') in
      case ensure newID (dev_PersonID d) (so_Provider o') (so_AccountRefHash o') (so_Hint o') plan (so_ObservedAt o') st of
        Inl err \<Rightarrow> Inl err
      | Inr (i, st) \<Rightarrow>
          (let row = \<lparr>or_DeviceID = dev_ID d, or_AccountID = i, or_Source = so_Source o', or_ObservedAt = so_ObservedAt o'\<rparr> in
           if row \<in> set (db_observations (in_db st)) then Inr st
           else if \<not> device_exists (in_db st) (dev_ID d) then Inl ErrConstraint
           else Inr (st\<lparr>in_db := (in_db st)\<lparr>db_observations := db_observations (in_db st) @ [row]\<rparr>,
                  in_accepted := in_accepted st + 1\<rparr>)))"

definition usage_row_of :: "device \<Rightarrow> string \<Rightarrow> sync_event \<Rightarrow> usage_row" where
  "usage_row_of d i e =
     \<lparr>ur_DedupeKey = se_DedupeKey e, ur_AccountID = i, ur_PersonID = dev_PersonID d, ur_DeviceID = dev_ID d,
      ur_Product = se_Product e, ur_Originator = se_Originator e, ur_SessionID = se_SessionID e, ur_Model = se_Model e,
      ur_OccurredAt = se_OccurredAt e, ur_ThirdParty = se_ThirdParty e, ur_Gateway = se_Gateway e,
      ur_RequestID = se_RequestID e, ur_ParentRequestID = se_ParentRequestID e, ur_Effort = se_Effort e,
      ur_Status = se_Status e, ur_Aggregated = se_Aggregated e,
      ur_Tokens = \<lparr>tk_Input = se_Input e, tk_CachedInput = se_CachedInput e, tk_CacheWrite = se_CacheWrite e,
        tk_Output = se_Output e, tk_ReasoningOutput = se_ReasoningOutput e\<rparr>\<rparr>"

text \<open>The \<open>WHERE\<close> and the \<open>SET\<close> of the conflict clause; x is the excluded row.\<close>

definition upsert_applies :: "db \<Rightarrow> sync_event \<Rightarrow> usage_row \<Rightarrow> usage_row \<Rightarrow> bool" where
  "upsert_applies s e x u \<longleftrightarrow>
     ur_PersonID u = ur_PersonID x \<and>
     ((ur_AccountID u = ur_AccountID x \<and>
        (tk_Output (ur_Tokens x) > tk_Output (ur_Tokens u) \<or> (ur_RequestID u = [] \<and> ur_RequestID x \<noteq> []) \<or>
         (ur_Effort u = [] \<and> ur_Effort x \<noteq> []))) \<or>
      (ur_SessionID u = ur_SessionID x \<and> ur_Originator u = ur_Originator x \<and>
       ur_AccountID u \<noteq> ur_AccountID x \<and> se_PreviousAccountRefHash e \<noteq> [] \<and>
       list_ex (\<lambda>a. ar_Provider a = se_Provider e \<and> ar_RefHash a = se_PreviousAccountRefHash e \<and> ar_ID a = ur_AccountID u)
         (db_accounts s)))"

definition upsert_usage :: "usage_row \<Rightarrow> usage_row \<Rightarrow> usage_row" where
  "upsert_usage x u =
     u\<lparr>ur_AccountID := ur_AccountID x,
       ur_Tokens := (ur_Tokens u)\<lparr>tk_Output := max (tk_Output (ur_Tokens u)) (tk_Output (ur_Tokens x)),
         tk_ReasoningOutput := max (tk_ReasoningOutput (ur_Tokens u)) (tk_ReasoningOutput (ur_Tokens x))\<rparr>,
       ur_RequestID := (if ur_RequestID u = [] then ur_RequestID x else ur_RequestID u),
       ur_ParentRequestID := (if ur_ParentRequestID u = [] then ur_ParentRequestID x else ur_ParentRequestID u),
       ur_Effort := (if ur_Effort u = [] then ur_Effort x else ur_Effort u),
       ur_Status := (if ur_Status u = [] then ur_Status x else ur_Status u),
       ur_Aggregated := (ur_Aggregated u \<or> ur_Aggregated x)\<rparr>"

definition save_event :: "device \<Rightarrow> string \<Rightarrow> sync_event \<Rightarrow> db \<Rightarrow> int outcome" where
  "save_event d i e s =
     (let x = usage_row_of d i e in
      if list_ex (\<lambda>u. ur_DedupeKey u = se_DedupeKey e) (db_usage s)
      then let applies = (\<lambda>u. ur_DedupeKey u = se_DedupeKey e \<and> upsert_applies s e x u) in
           Inr (if list_ex applies (db_usage s) then 1 else 0,
             s\<lparr>db_usage := update_where applies (upsert_usage x) (db_usage s)\<rparr>)
      else if \<not> account_exists s i \<or> \<not> person_exists s (dev_PersonID d) \<or> \<not> device_exists s (dev_ID d) then Inl ErrConstraint
      else Inr (1, s\<lparr>db_usage := db_usage s @ [x]\<rparr>))"

definition move_event :: "device \<Rightarrow> string \<Rightarrow> sync_event \<Rightarrow> db \<Rightarrow> db" where
  "move_event d i e s =
     s\<lparr>db_usage := update_where
        (\<lambda>u. ur_DedupeKey u = se_DedupeKey e \<and> ur_DeviceID u = dev_ID d \<and> ur_ThirdParty u \<and> ur_AccountID u \<noteq> i)
        (\<lambda>u. u\<lparr>ur_AccountID := i, ur_Model := se_Model e, ur_Gateway := se_Gateway e, ur_ThirdParty := se_ThirdParty e\<rparr>)
        (db_usage s)\<rparr>"

definition reclassify_event :: "device \<Rightarrow> sync_event \<Rightarrow> db \<Rightarrow> db" where
  "reclassify_event d e s =
     s\<lparr>db_usage := update_where
        (\<lambda>u. ur_DedupeKey u = se_DedupeKey e \<and> ur_PersonID u = dev_PersonID d \<and>
           (ur_ThirdParty u \<noteq> (ur_ThirdParty u \<or> se_ThirdParty e) \<or> (ur_Gateway u = [] \<and> se_Gateway e \<noteq> [])))
        (\<lambda>u. u\<lparr>ur_ThirdParty := (ur_ThirdParty u \<or> se_ThirdParty e),
               ur_Gateway := (if ur_Gateway u = [] then se_Gateway e else ur_Gateway u)\<rparr>)
        (db_usage s)\<rparr>"

definition ingest_event ::
  "(nat \<Rightarrow> string) \<Rightarrow> device \<Rightarrow> sync_event \<Rightarrow> ingest_state \<Rightarrow> store_error + ingest_state" where
  "ingest_event newID d e st =
     (if se_AccountRefHash e = [] \<or> se_DedupeKey e = [] then Inr st
      else case ensure newID (dev_PersonID d) (se_Provider e) (se_AccountRefHash e) [] [] zero_time st of
        Inl err \<Rightarrow> Inl err
      | Inr (i, st) \<Rightarrow> (case save_event d i e (in_db st) of
          Inl err \<Rightarrow> Inl err
        | Inr (n, s) \<Rightarrow>
            (let s = (if se_Gateway e \<noteq> [] then move_event d i e s else s);
                 s = (if se_ThirdParty e \<or> se_Gateway e \<noteq> [] then reclassify_event d e s else s)
             in Inr (st\<lparr>in_db := s, in_accepted := in_accepted st + n\<rparr>))))"

definition count_diverged :: "sync_event list \<Rightarrow> db \<Rightarrow> int" where
  "count_diverged reported s =
     int (length (concat (map (\<lambda>e. concat (map (\<lambda>u. filter (\<lambda>a. ar_ID a = ur_AccountID u \<and>
            (ar_Provider a \<noteq> se_Provider e \<or> ar_RefHash a \<noteq> se_AccountRefHash e)) (db_accounts s))
          (filter (\<lambda>u. ur_DedupeKey u = se_DedupeKey e) (db_usage s)))) reported)))"

definition ingest_snapshot ::
  "(nat \<Rightarrow> string) \<Rightarrow> device \<Rightarrow> sync_snapshot \<Rightarrow> ingest_state \<Rightarrow> store_error + ingest_state" where
  "ingest_snapshot newID d q st =
     (if ss_AccountRefHash q = [] \<or> ss_Buckets q = [] then Inr st
      else case ensure newID (dev_PersonID d) (ss_Provider q) (ss_AccountRefHash q) (ss_AccountHint q) (ss_PlanType q) (ss_ObservedAt q) st of
        Inl err \<Rightarrow> Inl err
      | Inr (i, st) \<Rightarrow>
          (let s = in_db st;
               stale = (\<lambda>r. list_ex (\<lambda>a. ar_Provider a = ss_Provider q \<and> ar_RefHash a = ss_PreviousAccountRefHash q \<and>
                   ar_ID a = qs_AccountID r) (db_accounts s) \<and>
                 qs_DeviceID r = dev_ID d \<and> qs_Source r = ss_Source q \<and> qs_ObservedAt r = ss_ObservedAt q \<and> qs_Buckets r = ss_Buckets q);
               corrects = (ss_PreviousAccountRefHash q \<noteq> [] \<and> ss_PreviousAccountRefHash q \<noteq> ss_AccountRefHash q);
               gone = (if corrects then filter stale (db_snapshots s) else []);
               s = (if corrects then s\<lparr>db_snapshots := filter (\<lambda>r. \<not> stale r) (db_snapshots s)\<rparr> else s);
               same = (\<lambda>r. qs_AccountID r = i \<and> qs_DeviceID r = dev_ID d \<and> qs_Source r = ss_Source q \<and> qs_ObservedAt r = ss_ObservedAt q);
               fills = (\<lambda>r. same r \<and> qs_PlanType r = [] \<and> ss_PlanType q \<noteq> [])
           in if list_ex same (db_snapshots s)
              then Inr (st\<lparr>in_db := s\<lparr>db_snapshots := update_where fills (\<lambda>r. r\<lparr>qs_PlanType := ss_PlanType q\<rparr>) (db_snapshots s)\<rparr>,
                     in_accepted := in_accepted st + int (length gone) + (if list_ex fills (db_snapshots s) then 1 else 0)\<rparr>)
              else if \<not> account_exists s i \<or> \<not> device_exists s (dev_ID d) then Inl ErrConstraint
              else Inr (st\<lparr>in_db := s\<lparr>db_snapshots := db_snapshots s @ [\<lparr>qs_AccountID = i, qs_DeviceID = dev_ID d,
                       qs_Source = ss_Source q, qs_ObservedAt = ss_ObservedAt q, qs_Buckets = ss_Buckets q,
                       qs_PlanType = ss_PlanType q\<rparr>]\<rparr>,
                     in_accepted := in_accepted st + int (length gone) + 1\<rparr>)))"

definition ingest_limit ::
  "(nat \<Rightarrow> string) \<Rightarrow> device \<Rightarrow> sync_limit \<Rightarrow> ingest_state \<Rightarrow> store_error + ingest_state" where
  "ingest_limit newID d l st =
     (if sl_AccountRefHash l = [] \<or> sl_DedupeKey l = [] then Inr st
      else case ensure newID (dev_PersonID d) (sl_Provider l) (sl_AccountRefHash l) [] [] zero_time st of
        Inl err \<Rightarrow> Inl err
      | Inr (i, st) \<Rightarrow>
          (let s = in_db st in
           if sl_DedupeKey l \<in> lr_DedupeKey ` set (db_limits s) then Inr st
           else if \<not> account_exists s i \<or> \<not> person_exists s (dev_PersonID d) \<or> \<not> device_exists s (dev_ID d) then Inl ErrConstraint
           else Inr (st\<lparr>in_db := s\<lparr>db_limits := db_limits s @ [\<lparr>lr_DedupeKey = sl_DedupeKey l, lr_AccountID = i,
                    lr_PersonID = dev_PersonID d, lr_DeviceID = dev_ID d, lr_Provider = sl_Provider l,
                    lr_OccurredAt = sl_OccurredAt l, lr_ObservedAt = sl_ObservedAt l, lr_SessionID = sl_SessionID l,
                    lr_RequestID = sl_RequestID l, lr_Kind = sl_Kind l, lr_Source = sl_Source l,
                    lr_Evidence = sl_Evidence l, lr_HTTPStatus = sl_HTTPStatus l\<rparr>]\<rparr>,
                  in_accepted := in_accepted st + 1\<rparr>)))"

definition Ingest :: "(nat \<Rightarrow> string) \<Rightarrow> device \<Rightarrow> sync_request \<Rightarrow> db \<Rightarrow> sync_response outcome" where
  "Ingest newID d req s =
     (case fold_tx (ingest_observation newID d) (rq_Observations req)
             \<lparr>in_db = s, in_accounts = [], in_calls = 0, in_accepted = 0\<rparr> of
        Inl err \<Rightarrow> Inl err
      | Inr st \<Rightarrow> (case fold_tx (ingest_event newID d) (rq_Events req) st of
          Inl err \<Rightarrow> Inl err
        | Inr st \<Rightarrow>
            (let reported = filter (\<lambda>e. se_AccountRefHash e \<noteq> [] \<and> se_DedupeKey e \<noteq> []) (rq_Events req);
                 diverged = (if reported = [] then 0 else count_diverged reported (in_db st))
             in case fold_tx (ingest_snapshot newID d) (rq_Snapshots req) st of
                  Inl err \<Rightarrow> Inl err
                | Inr st \<Rightarrow> (case fold_tx (ingest_limit newID d) (rq_LimitEvents req) st of
                    Inl err \<Rightarrow> Inl err
                  | Inr st \<Rightarrow> Inr (\<lparr>rp_Accepted = in_accepted st, rp_Diverged = diverged\<rparr>, in_db st)))))"

end
