(* ===== verification/ServerLedger.thy ===== *)
theory ServerLedger
  imports ServerIngest
begin

text \<open>
  What the server's operations keep true of its tables. \<open>server_step\<close> is one successful
  operation; the locale \<open>kept\<close> is the contract of an invariant (it holds of the empty
  database and every step keeps it) and gives it for every reachable database. The
  interpretation proves it for \<open>db_ok\<close>: the keys are unique, every request belongs to the
  owner of the device that sent it and no two plan intervals of an account overlap. \<open>grown\<close>
  relates the ledger before and after a sync batch.
\<close>

section \<open>Steps\<close>

definition authentic :: "device \<Rightarrow> db \<Rightarrow> bool" where
  "authentic d s \<longleftrightarrow> (\<exists>r \<in> set (db_devices s). device_of_row r = d)"

inductive server_step :: "db \<Rightarrow> db \<Rightarrow> bool" where
  add_person: "AddPerson i now name s = Inr (p, t) \<Longrightarrow> server_step s t"
| delete_person: "DeletePerson i s = Inr (u, t) \<Longrightarrow> server_step s t"
| create_invite: "CreateInvite sha code now i ttl s = Inr (c, t) \<Longrightarrow> server_step s t"
| pair: "Pair sha i token now code name platform s = Inr (c, t) \<Longrightarrow> server_step s t"
| device_by_token: "DeviceByToken sha now token s = Inr (sd, t) \<Longrightarrow> server_step s t"
| revoke_device: "RevokeDevice now i s = Inr (u, t) \<Longrightarrow> server_step s t"
| set_account_order: "SetAccountOrder ids s = Inr (u, t) \<Longrightarrow> server_step s t"
| set_account_label: "SetAccountLabel i label s = Inr (u, t) \<Longrightarrow> server_step s t"
| set_share_weight: "SetShareWeight i j w s = Inr (u, t) \<Longrightarrow> server_step s t"
| delete_account: "DeleteAccount i s = Inr (u, t) \<Longrightarrow> server_step s t"
| set_public_dashboard: "SetPublicDashboard b s = Inr (u, t) \<Longrightarrow> server_step s t"
| save_plan_interval: "SavePlanInterval i now v s = Inr (w, t) \<Longrightarrow> server_step s t"
| delete_plan_interval: "DeletePlanInterval i j s = Inr (u, t) \<Longrightarrow> server_step s t"
| ingest: "authentic d s \<Longrightarrow> Ingest newID d req s = Inr (resp, t) \<Longrightarrow> server_step s t"

section \<open>The invariant\<close>

definition account_keys :: "db \<Rightarrow> bool" where
  "account_keys s \<longleftrightarrow> distinct (map ar_ID (db_accounts s)) \<and>
     distinct (map (\<lambda>r. (ar_Provider r, ar_RefHash r)) (db_accounts s))"

definition usage_owned :: "db \<Rightarrow> bool" where
  "usage_owned s \<longleftrightarrow> distinct (map ur_DedupeKey (db_usage s)) \<and> distinct (map dr_ID (db_devices s)) \<and>
     (\<forall>u \<in> set (db_usage s). (ur_DeviceID u, ur_PersonID u) \<in> (\<lambda>r. (dr_ID r, dr_PersonID r)) ` set (db_devices s))"

definition valid_interval :: "plan_interval \<Rightarrow> bool" where
  "valid_interval i \<longleftrightarrow> (case pi_EndedAt i of None \<Rightarrow> True | Some e \<Rightarrow> e > pi_EffectiveAt i)"

definition apart_intervals :: "plan_interval \<Rightarrow> plan_interval \<Rightarrow> bool" where
  "apart_intervals a b \<longleftrightarrow> pi_ID a \<noteq> pi_ID b \<and> (pi_AccountID a = pi_AccountID b \<longrightarrow> \<not> interval_overlaps a b)"

definition plans_apart :: "db \<Rightarrow> bool" where
  "plans_apart s \<longleftrightarrow> sorted_wrt apart_intervals (db_plans s) \<and> list_all valid_interval (db_plans s)"

definition db_ok :: "db \<Rightarrow> bool" where
  "db_ok s \<longleftrightarrow> account_keys s \<and> usage_owned s \<and> plans_apart s"

text \<open>The tables an operation leaves alone, or only changes outside their keys.\<close>

lemma account_keys_cong:
  "map (\<lambda>r. (ar_ID r, ar_Provider r, ar_RefHash r)) (db_accounts t) =
   map (\<lambda>r. (ar_ID r, ar_Provider r, ar_RefHash r)) (db_accounts s) \<Longrightarrow> account_keys t = account_keys s"
proof -
  assume eq: "map (\<lambda>r. (ar_ID r, ar_Provider r, ar_RefHash r)) (db_accounts t) =
    map (\<lambda>r. (ar_ID r, ar_Provider r, ar_RefHash r)) (db_accounts s)"
  from arg_cong[OF eq, of "map fst"] arg_cong[OF eq, of "map snd"] show ?thesis
    by (simp add: account_keys_def comp_def)
qed

lemma usage_owned_cong:
  "map (\<lambda>u. (ur_DedupeKey u, ur_DeviceID u, ur_PersonID u)) (db_usage t) =
   map (\<lambda>u. (ur_DedupeKey u, ur_DeviceID u, ur_PersonID u)) (db_usage s) \<Longrightarrow>
   map (\<lambda>r. (dr_ID r, dr_PersonID r)) (db_devices t) = map (\<lambda>r. (dr_ID r, dr_PersonID r)) (db_devices s) \<Longrightarrow>
   usage_owned t = usage_owned s"
proof -
  assume u: "map (\<lambda>u. (ur_DedupeKey u, ur_DeviceID u, ur_PersonID u)) (db_usage t) =
    map (\<lambda>u. (ur_DedupeKey u, ur_DeviceID u, ur_PersonID u)) (db_usage s)"
    and d: "map (\<lambda>r. (dr_ID r, dr_PersonID r)) (db_devices t) = map (\<lambda>r. (dr_ID r, dr_PersonID r)) (db_devices s)"
  have k: "map ur_DedupeKey (db_usage t) = map ur_DedupeKey (db_usage s)"
    "(\<lambda>u. (ur_DeviceID u, ur_PersonID u)) ` set (db_usage t) = (\<lambda>u. (ur_DeviceID u, ur_PersonID u)) ` set (db_usage s)"
    using arg_cong[OF u, of "map fst"] arg_cong[OF u, of "\<lambda>xs. snd ` set xs"] by (simp_all add: comp_def image_image)
  have e: "map dr_ID (db_devices t) = map dr_ID (db_devices s)"
    "(\<lambda>r. (dr_ID r, dr_PersonID r)) ` set (db_devices t) = (\<lambda>r. (dr_ID r, dr_PersonID r)) ` set (db_devices s)"
    using arg_cong[OF d, of "map fst"] arg_cong[OF d, of set] by (simp_all add: comp_def)
  have sub: "(\<forall>u \<in> set (db_usage x). (ur_DeviceID u, ur_PersonID u) \<in> D) \<longleftrightarrow>
      (\<lambda>u. (ur_DeviceID u, ur_PersonID u)) ` set (db_usage x) \<subseteq> D" for x D by auto
  show ?thesis unfolding usage_owned_def sub k e ..
qed

definition same_shape :: "db \<Rightarrow> db \<Rightarrow> bool" where
  "same_shape s t \<longleftrightarrow>
     map (\<lambda>r. (ar_ID r, ar_Provider r, ar_RefHash r)) (db_accounts t) =
       map (\<lambda>r. (ar_ID r, ar_Provider r, ar_RefHash r)) (db_accounts s) \<and>
     map (\<lambda>u. (ur_DedupeKey u, ur_DeviceID u, ur_PersonID u)) (db_usage t) =
       map (\<lambda>u. (ur_DedupeKey u, ur_DeviceID u, ur_PersonID u)) (db_usage s) \<and>
     map (\<lambda>r. (dr_ID r, dr_PersonID r)) (db_devices t) = map (\<lambda>r. (dr_ID r, dr_PersonID r)) (db_devices s) \<and>
     db_plans t = db_plans s"

lemma same_shape_ok: "same_shape s t \<Longrightarrow> db_ok s \<Longrightarrow> db_ok t"
  using account_keys_cong[of t s] usage_owned_cong[of t s] by (simp add: same_shape_def db_ok_def plans_apart_def)

section \<open>Operations on persons, devices and accounts\<close>

lemma db_ok_empty: "db_ok empty_db"
  by (simp add: db_ok_def account_keys_def usage_owned_def plans_apart_def empty_db_def)

lemma AddPerson_shape: "AddPerson i now name s = Inr (p, t) \<Longrightarrow> same_shape s t"
  by (auto simp: same_shape_def AddPerson_def split: if_splits)

lemma CreateInvite_shape: "CreateInvite sha code now i ttl s = Inr (c, t) \<Longrightarrow> same_shape s t"
  by (auto simp: same_shape_def CreateInvite_def Let_def split: if_splits)

lemma DeviceByToken_shape: "DeviceByToken sha now token s = Inr (sd, t) \<Longrightarrow> same_shape s t"
  by (auto simp: same_shape_def DeviceByToken_def Let_def map_update_where split: if_splits option.splits)

lemma RevokeDevice_shape: "RevokeDevice now i s = Inr (u, t) \<Longrightarrow> same_shape s t"
  by (auto simp: same_shape_def RevokeDevice_def Let_def map_update_where split: if_splits)

lemma SetAccountLabel_shape: "SetAccountLabel i l s = Inr (u, t) \<Longrightarrow> same_shape s t"
  by (auto simp: same_shape_def SetAccountLabel_def map_update_where)

lemma set_positions_keys:
  "map (\<lambda>r. (ar_ID r, ar_Provider r, ar_RefHash r)) (set_positions n ids rows) =
   map (\<lambda>r. (ar_ID r, ar_Provider r, ar_RefHash r)) rows"
  by (induction n ids rows rule: set_positions.induct) (simp_all add: map_update_where)

lemma SetAccountOrder_shape: "SetAccountOrder ids s = Inr (u, t) \<Longrightarrow> same_shape s t"
  by (auto simp: same_shape_def SetAccountOrder_def Let_def set_positions_keys comp_def)

lemma SetShareWeight_shape: "SetShareWeight i j w s = Inr (u, t) \<Longrightarrow> same_shape s t"
  by (auto simp: same_shape_def SetShareWeight_def Let_def split: if_splits)

lemma SetPublicDashboard_shape: "SetPublicDashboard b s = Inr (u, t) \<Longrightarrow> same_shape s t"
  by (auto simp: same_shape_def SetPublicDashboard_def)

lemma Pair_ok: "Pair sha i token now code name platform s = Inr (c, t) \<Longrightarrow> db_ok s \<Longrightarrow> db_ok t"
  by (auto simp: Pair_def Let_def db_ok_def account_keys_def usage_owned_def plans_apart_def
      split: if_splits option.splits)

lemma distinct_map_filter: "distinct (map f xs) \<Longrightarrow> distinct (map f (filter P xs))"
  by (induction xs) auto

lemma DeletePerson_ok:
  assumes "DeletePerson i s = Inr (u, t)" "db_ok s" shows "db_ok t"
proof -
  have t: "db_accounts t = db_accounts s" "db_plans t = db_plans s"
    "db_usage t = filter (\<lambda>r. \<not> (ur_PersonID r = i \<or> ur_DeviceID r \<in> dr_ID ` {r \<in> set (db_devices s). dr_PersonID r = i})) (db_usage s)"
    "db_devices t = filter (\<lambda>r. dr_PersonID r \<noteq> i) (db_devices s)"
    using assms(1) by (auto simp: DeletePerson_def Let_def split: if_splits)
  have "account_keys t" "plans_apart t"
    using assms(2) by (simp_all add: db_ok_def account_keys_def plans_apart_def t)
  moreover have "usage_owned t"
    using assms(2) unfolding db_ok_def usage_owned_def t by (fastforce simp: distinct_map_filter)
  ultimately show ?thesis by (simp add: db_ok_def)
qed

lemma DeleteAccount_ok:
  assumes "DeleteAccount i s = Inr (u, t)" "db_ok s" shows "db_ok t"
proof -
  have t: "db_accounts t = filter (\<lambda>r. ar_ID r \<noteq> i) (db_accounts s)" "db_plans t = filter (\<lambda>r. pi_AccountID r \<noteq> i) (db_plans s)"
    "db_usage t = filter (\<lambda>r. ur_AccountID r \<noteq> i) (db_usage s)" "db_devices t = db_devices s"
    using assms(1) by (auto simp: DeleteAccount_def Let_def split: if_splits)
  show ?thesis
    using assms(2) by (auto simp: db_ok_def account_keys_def usage_owned_def plans_apart_def t distinct_map_filter
        sorted_wrt_filter list_all_iff)
qed

section \<open>Plan intervals\<close>

lemma interval_overlaps_update [simp]:
  "interval_overlaps (a\<lparr>pi_ID := x\<rparr>) b = interval_overlaps a b"
  "interval_overlaps (a\<lparr>pi_CreatedAt := c\<rparr>) b = interval_overlaps a b"
  "interval_overlaps (a\<lparr>pi_PlanType := x\<rparr>) b = interval_overlaps a b"
  "interval_overlaps (a\<lparr>pi_Precision := x\<rparr>) b = interval_overlaps a b"
  by (simp_all add: interval_overlaps_def split: option.split)

lemma interval_overlaps_sym: "interval_overlaps a b = interval_overlaps b a"
  by (auto simp: interval_overlaps_def Let_def)

lemma DeletePlanInterval_ok: "DeletePlanInterval i j s = Inr (u, t) \<Longrightarrow> db_ok s \<Longrightarrow> db_ok t"
  by (auto simp: DeletePlanInterval_def Let_def db_ok_def account_keys_def usage_owned_def plans_apart_def
      sorted_wrt_filter list_all_iff split: if_splits)

text \<open>Replacing one interval, found by its key, by one apart from the others.\<close>

lemma sorted_wrt_replace:
  assumes "sorted_wrt apart_intervals xs"
    "\<forall>x \<in> set xs. pi_ID x \<noteq> pi_ID v \<longrightarrow> pi_AccountID x = pi_AccountID v \<longrightarrow> \<not> interval_overlaps v x"
  shows "sorted_wrt apart_intervals (update_where (\<lambda>r. pi_ID r = pi_ID v \<and> pi_AccountID r = pi_AccountID v) (\<lambda>r. v) xs)"
  using assms
proof (induction xs)
  case (Cons x xs)
  let ?m = "\<lambda>r. pi_ID r = pi_ID v \<and> pi_AccountID r = pi_AccountID v"
  have "apart_intervals (if ?m x then v else x) (if ?m y then v else y)" if "y \<in> set xs" for y
  proof -
    have xy: "pi_ID x \<noteq> pi_ID y" "pi_AccountID x = pi_AccountID y \<longrightarrow> \<not> interval_overlaps x y"
      using Cons.prems(1) that by (simp_all add: apart_intervals_def)
    have x: "pi_ID x \<noteq> pi_ID v \<longrightarrow> pi_AccountID x = pi_AccountID v \<longrightarrow> \<not> interval_overlaps x v"
      using Cons.prems(2) interval_overlaps_sym[of x v] by simp
    have y: "pi_ID y \<noteq> pi_ID v \<longrightarrow> pi_AccountID y = pi_AccountID v \<longrightarrow> \<not> interval_overlaps v y"
      using Cons.prems(2) that by simp
    show ?thesis using xy x y by (cases "?m x"; cases "?m y"; simp add: apart_intervals_def; metis)
  qed
  then have "\<forall>y \<in> set (update_where ?m (\<lambda>r. v) xs). apart_intervals (if ?m x then v else x) y"
    unfolding set_update_where ball_simps by blast
  with Cons show ?case by (simp add: update_where_def)
qed (simp add: update_where_def)

lemma SavePlanInterval_ok:
  assumes "SavePlanInterval newID now i0 s = Inr (v, t)" "db_ok s" shows "db_ok t"
proof -
  obtain i where i: "store_interval newID now i s = Inr (v, t)" "pi_EndedAt i = pi_EndedAt i0" "pi_EffectiveAt i = pi_EffectiveAt i0"
    "valid_interval i0"
    using assms(1) by (auto simp: SavePlanInterval_def Let_def valid_interval_def split: if_splits option.splits)
  have keep: "db_accounts t = db_accounts s" "db_usage t = db_usage s" "db_devices t = db_devices s"
    and v: "pi_EndedAt v = pi_EndedAt i" "pi_EffectiveAt v = pi_EffectiveAt i"
    using i(1) by (auto simp: store_interval_def Let_def split: if_splits option.splits)
  have v: "valid_interval v" using i(2-4) v by (auto simp: valid_interval_def split: option.splits)
  have plans: "(pi_ID v \<notin> pi_ID ` set (db_plans s) \<and> db_plans t = db_plans s @ [v] \<and>
        (\<forall>x \<in> set (db_plans s). pi_AccountID x = pi_AccountID v \<longrightarrow> \<not> interval_overlaps v x)) \<or>
      (db_plans t = update_where (\<lambda>r. pi_ID r = pi_ID v \<and> pi_AccountID r = pi_AccountID v) (\<lambda>r. v) (db_plans s) \<and>
        (\<forall>x \<in> set (db_plans s). pi_ID x \<noteq> pi_ID v \<longrightarrow> pi_AccountID x = pi_AccountID v \<longrightarrow> \<not> interval_overlaps v x))"
    using i(1) by (cases "pi_ID i = []") (auto simp: store_interval_def Let_def list_ex_iff split: if_splits option.splits)
  have old: "sorted_wrt apart_intervals (db_plans s)" "list_all valid_interval (db_plans s)"
    using assms(2) by (simp_all add: db_ok_def plans_apart_def)
  from plans have "plans_apart t"
  proof (elim disjE conjE)
    assume p: "pi_ID v \<notin> pi_ID ` set (db_plans s)" "db_plans t = db_plans s @ [v]"
      "\<forall>x \<in> set (db_plans s). pi_AccountID x = pi_AccountID v \<longrightarrow> \<not> interval_overlaps v x"
    then have "\<forall>x \<in> set (db_plans s). apart_intervals x v"
      by (auto simp: apart_intervals_def interval_overlaps_sym image_iff)
    with p(2) old v show ?thesis by (simp add: plans_apart_def sorted_wrt_append)
  next
    assume p: "db_plans t = update_where (\<lambda>r. pi_ID r = pi_ID v \<and> pi_AccountID r = pi_AccountID v) (\<lambda>r. v) (db_plans s)"
      "\<forall>x \<in> set (db_plans s). pi_ID x \<noteq> pi_ID v \<longrightarrow> pi_AccountID x = pi_AccountID v \<longrightarrow> \<not> interval_overlaps v x"
    with sorted_wrt_replace[OF old(1) p(2)] old(2) v show ?thesis
      by (auto simp: plans_apart_def list_all_iff set_update_where)
  qed
  with keep assms(2) show ?thesis by (simp add: db_ok_def account_keys_def usage_owned_def)
qed

section \<open>A sync batch\<close>

text \<open>
  How a stored request may change while a batch of device d is ingested: who and what it is
  stays, its output only grows, what was once known stays known, only its own device takes it
  back into the quota, and another person's request does not change at all.
\<close>

definition identity_of ::
  "usage_row \<Rightarrow> string \<times> string \<times> string \<times> string \<times> string \<times> string \<times> time \<times> int \<times> int \<times> int" where
  "identity_of u = (ur_DedupeKey u, ur_PersonID u, ur_DeviceID u, ur_Product u, ur_Originator u, ur_SessionID u,
     ur_OccurredAt u, tk_Input (ur_Tokens u), tk_CachedInput (ur_Tokens u), tk_CacheWrite (ur_Tokens u))"

definition sticky :: "string \<Rightarrow> string \<Rightarrow> bool" where
  "sticky a b \<longleftrightarrow> (a \<noteq> [] \<longrightarrow> b = a)"

definition row_grown :: "device \<Rightarrow> usage_row \<Rightarrow> usage_row \<Rightarrow> bool" where
  "row_grown d u v \<longleftrightarrow>
     identity_of v = identity_of u \<and>
     tk_Output (ur_Tokens u) \<le> tk_Output (ur_Tokens v) \<and> tk_ReasoningOutput (ur_Tokens u) \<le> tk_ReasoningOutput (ur_Tokens v) \<and>
     sticky (ur_RequestID u) (ur_RequestID v) \<and> sticky (ur_ParentRequestID u) (ur_ParentRequestID v) \<and>
     sticky (ur_Effort u) (ur_Effort v) \<and> sticky (ur_Status u) (ur_Status v) \<and>
     (ur_Aggregated u \<longrightarrow> ur_Aggregated v) \<and>
     (ur_ThirdParty u \<and> \<not> ur_ThirdParty v \<longrightarrow> ur_DeviceID u = dev_ID d) \<and>
     (ur_PersonID u \<noteq> dev_PersonID d \<longrightarrow> v = u)"

lemma sticky_refl [simp]: "sticky a a" and sticky_trans: "sticky a b \<Longrightarrow> sticky b c \<Longrightarrow> sticky a c"
  by (auto simp: sticky_def)

lemma identity_fields:
  "identity_of v = identity_of u \<Longrightarrow> ur_DedupeKey v = ur_DedupeKey u \<and> ur_PersonID v = ur_PersonID u \<and> ur_DeviceID v = ur_DeviceID u"
  by (simp add: identity_of_def)

definition own_row :: "device \<Rightarrow> usage_row \<Rightarrow> bool" where
  "own_row d v \<longleftrightarrow> ur_PersonID v = dev_PersonID d \<and> ur_DeviceID v = dev_ID d"

definition grown :: "device \<Rightarrow> db \<Rightarrow> db \<Rightarrow> bool" where
  "grown d s t \<longleftrightarrow> db_devices t = db_devices s \<and> db_persons t = db_persons s \<and> db_plans t = db_plans s \<and>
     (\<forall>u \<in> set (db_usage s). \<exists>v \<in> set (db_usage t). row_grown d u v) \<and>
     (\<forall>v \<in> set (db_usage t). own_row d v \<or> (\<exists>u \<in> set (db_usage s). row_grown d u v))"

lemma row_grown_refl [simp]: "row_grown d u u"
  by (simp add: row_grown_def)

lemma row_grown_trans:
  assumes uv: "row_grown d u v" and vw: "row_grown d v w" shows "row_grown d u w"
proof -
  have id: "identity_of v = identity_of u" "identity_of w = identity_of v"
    using uv vw unfolding row_grown_def by blast+
  have same: "ur_DeviceID v = ur_DeviceID u" "ur_PersonID v = ur_PersonID u" using identity_fields[OF id(1)] by simp_all
  show ?thesis
    unfolding row_grown_def
  proof (intro conjI)
    show "identity_of w = identity_of u" using id by simp
    show "tk_Output (ur_Tokens u) \<le> tk_Output (ur_Tokens w)" "tk_ReasoningOutput (ur_Tokens u) \<le> tk_ReasoningOutput (ur_Tokens w)"
      using uv vw unfolding row_grown_def by (blast intro: order_trans)+
    show "sticky (ur_RequestID u) (ur_RequestID w)" "sticky (ur_ParentRequestID u) (ur_ParentRequestID w)"
      "sticky (ur_Effort u) (ur_Effort w)" "sticky (ur_Status u) (ur_Status w)"
      using uv vw unfolding row_grown_def by (blast intro: sticky_trans)+
    show "ur_Aggregated u \<longrightarrow> ur_Aggregated w" using uv vw unfolding row_grown_def by blast
    show "ur_ThirdParty u \<and> \<not> ur_ThirdParty w \<longrightarrow> ur_DeviceID u = dev_ID d"
      using uv vw same unfolding row_grown_def by metis
    show "ur_PersonID u \<noteq> dev_PersonID d \<longrightarrow> w = u" using uv vw same unfolding row_grown_def by metis
  qed
qed

lemma row_grown_own: "row_grown d u v \<Longrightarrow> own_row d u \<Longrightarrow> own_row d v"
  using identity_fields[of v u] by (simp add: row_grown_def own_row_def)

lemma grown_refl: "db_devices t = db_devices s \<Longrightarrow> db_persons t = db_persons s \<Longrightarrow> db_plans t = db_plans s \<Longrightarrow>
    db_usage t = db_usage s \<Longrightarrow> grown d s t"
  unfolding grown_def using row_grown_refl by metis

lemma grown_trans: "grown d s t \<Longrightarrow> grown d t r \<Longrightarrow> grown d s r"
  unfolding grown_def using row_grown_trans row_grown_own by metis

lemma grown_update:
  assumes "\<And>u. u \<in> set (db_usage s) \<Longrightarrow> p u \<Longrightarrow> row_grown d u (f u)"
  shows "grown d s (s\<lparr>db_usage := update_where p f (db_usage s)\<rparr>)"
proof -
  define g where "g = (\<lambda>u. if p u then f u else u)"
  have "row_grown d u (g u)" if "u \<in> set (db_usage s)" for u using assms that by (simp add: g_def)
  moreover have "set (update_where p f (db_usage s)) = g ` set (db_usage s)" by (simp add: set_update_where g_def)
  ultimately show ?thesis by (auto simp: grown_def)
qed

text \<open>Good states of a batch: the invariant holds and the device is a stored one.\<close>

definition batch_ok :: "device \<Rightarrow> db \<Rightarrow> db \<Rightarrow> bool" where
  "batch_ok d s t \<longleftrightarrow> db_ok t \<and> authentic d t \<and> grown d s t"

lemma batch_ok_step:
  assumes "batch_ok d s t" "db_ok r" "grown d t r" shows "batch_ok d s r"
proof -
  have "db_devices r = db_devices t" using assms(3) by (simp add: grown_def)
  with assms grown_trans[of d s t r] show ?thesis by (simp add: batch_ok_def authentic_def)
qed

lemma ensureAccount_shape:
  assumes "ensureAccount newID provider refHash hint plan planAt personID s = Inr (i, t)"
  shows "db_devices t = db_devices s" "db_persons t = db_persons s" "db_plans t = db_plans s" "db_usage t = db_usage s"
    "account_keys s \<Longrightarrow> account_keys t"
proof -
  let ?m = "\<lambda>r. ar_Provider r = provider \<and> ar_RefHash r = refHash"
  let ?at = "if plan \<noteq> [] then Some planAt else None"
  let ?new = "\<lparr>ar_ID = newID, ar_Provider = provider, ar_RefHash = refHash, ar_Hint = hint, ar_Label = hint,
    ar_PlanType = plan, ar_PlanObservedAt = ?at, ar_Position = None\<rparr>"
  have t: "db_devices t = db_devices s \<and> db_persons t = db_persons s \<and> db_plans t = db_plans s \<and> db_usage t = db_usage s \<and>
    (db_accounts t = update_where ?m (merge_account hint plan ?at) (db_accounts s) \<or>
     (db_accounts t = db_accounts s @ [?new] \<and> \<not> account_exists s newID \<and> \<not> list_ex ?m (db_accounts s)))"
  proof (cases "find ?m (db_accounts s)")
    case None
    then have "\<not> list_ex ?m (db_accounts s)" by (simp add: find_None_iff list_ex_iff)
    with assms None show ?thesis by (auto simp: ensureAccount_def Let_def split: if_splits)
  next
    case (Some r)
    with assms show ?thesis by (auto simp: ensureAccount_def Let_def split: if_splits)
  qed
  then show "db_devices t = db_devices s" "db_persons t = db_persons s" "db_plans t = db_plans s" "db_usage t = db_usage s"
    by simp_all
  show "account_keys t" if "account_keys s"
    using t
  proof (elim conjE disjE)
    assume "db_accounts t = update_where ?m (merge_account hint plan ?at) (db_accounts s)"
    with that show ?thesis by (simp add: account_keys_def map_update_where merge_account_def)
  next
    assume "db_accounts t = db_accounts s @ [?new]" "\<not> account_exists s newID" "\<not> list_ex ?m (db_accounts s)"
    with that show ?thesis by (auto simp: account_keys_def list_ex_iff)
  qed
qed

lemma ensure_batch:
  assumes "ensure newID personID provider refHash hint plan planAt st = Inr (i, st')" "batch_ok d s (in_db st)"
  shows "batch_ok d s (in_db st')"
proof -
  consider "st' = st" | id s' where "ensureAccount id provider refHash hint plan planAt personID (in_db st) = Inr (i, s')" "in_db st' = s'"
    using assms(1) by (auto simp: ensure_def split: option.splits if_splits sum.splits)
  then show ?thesis
  proof cases
    case 1
    with assms(2) show ?thesis by simp
  next
    case 2
    note shape = ensureAccount_shape[OF 2(1)]
    have "db_ok s'"
      using shape assms(2) by (simp add: batch_ok_def db_ok_def usage_owned_def plans_apart_def)
    with batch_ok_step[OF assms(2) this] grown_refl[of s' "in_db st" d] shape 2(2) show ?thesis by simp
  qed
qed

text \<open>Changes of the ledger's rows keep the invariant: the key, the person and the device stay.\<close>

lemma update_usage_batch:
  assumes "batch_ok d s t"
    and "\<And>u. ur_DedupeKey (f u) = ur_DedupeKey u \<and> ur_DeviceID (f u) = ur_DeviceID u \<and> ur_PersonID (f u) = ur_PersonID u"
    and "\<And>u. u \<in> set (db_usage t) \<Longrightarrow> p u \<Longrightarrow> row_grown d u (f u)"
  shows "batch_ok d s (t\<lparr>db_usage := update_where p f (db_usage t)\<rparr>)"
proof -
  have "same_shape t (t\<lparr>db_usage := update_where p f (db_usage t)\<rparr>)"
    using assms(2) by (simp add: same_shape_def map_update_where)
  with assms(1) have "db_ok (t\<lparr>db_usage := update_where p f (db_usage t)\<rparr>)"
    using same_shape_ok by (simp add: batch_ok_def)
  from batch_ok_step[OF assms(1) this grown_update[OF assms(3)]] show ?thesis .
qed

lemma own_device_rows:
  assumes "batch_ok d s t" "u \<in> set (db_usage t)" "ur_DeviceID u = dev_ID d"
  shows "ur_PersonID u = dev_PersonID d"
proof -
  have dist: "distinct (map dr_ID (db_devices t))" and ok: "authentic d t"
    and u: "(ur_DeviceID u, ur_PersonID u) \<in> (\<lambda>r. (dr_ID r, dr_PersonID r)) ` set (db_devices t)"
    using assms(1,2) by (auto simp: batch_ok_def db_ok_def usage_owned_def)
  from u obtain r where r: "r \<in> set (db_devices t)" "dr_ID r = ur_DeviceID u" "dr_PersonID r = ur_PersonID u" by auto
  from ok obtain q where q: "q \<in> set (db_devices t)" "device_of_row q = d" by (auto simp: authentic_def)
  have "dr_ID q = dr_ID r" using q(2) r(2) assms(3) by (auto simp: device_of_row_def)
  then have "q = r" using dist q(1) r(1) by (metis distinct_map inj_onD)
  with q(2) r(3) show ?thesis by (auto simp: device_of_row_def)
qed

lemma save_event_batch:
  assumes "save_event d i e t = Inr (n, t')" "batch_ok d s t"
  shows "batch_ok d s t'"
proof -
  let ?x = "usage_row_of d i e"
  show ?thesis
  proof (cases "list_ex (\<lambda>u. ur_DedupeKey u = se_DedupeKey e) (db_usage t)")
    case True
    let ?p = "\<lambda>u. ur_DedupeKey u = se_DedupeKey e \<and> upsert_applies t e ?x u"
    from True assms(1) have t': "t' = t\<lparr>db_usage := update_where ?p (upsert_usage ?x) (db_usage t)\<rparr>"
      by (simp add: save_event_def Let_def)
    have "row_grown d u (upsert_usage ?x u)" if "?p u" for u
    proof -
      have "ur_PersonID u = dev_PersonID d" using that by (simp add: upsert_applies_def usage_row_of_def)
      then show ?thesis by (simp add: row_grown_def identity_of_def sticky_def upsert_usage_def)
    qed
    then show ?thesis unfolding t' by (intro update_usage_batch[OF assms(2)]) (simp_all add: upsert_usage_def)
  next
    case False
    with assms(1) have t': "t' = t\<lparr>db_usage := db_usage t @ [?x]\<rparr>"
      by (auto simp: save_event_def Let_def split: if_splits)
    have fresh: "ur_DedupeKey ?x \<notin> ur_DedupeKey ` set (db_usage t)"
      using False by (auto simp: list_ex_iff usage_row_of_def)
    have "(ur_DeviceID ?x, ur_PersonID ?x) \<in> (\<lambda>r. (dr_ID r, dr_PersonID r)) ` set (db_devices t)"
      using assms(2) by (force simp: batch_ok_def authentic_def device_of_row_def usage_row_of_def)
    with fresh assms(2) have "db_ok t'"
      by (simp add: t' batch_ok_def db_ok_def account_keys_def usage_owned_def plans_apart_def)
    moreover have "grown d t t'"
    proof -
      have "own_row d ?x" by (simp add: own_row_def usage_row_of_def)
      then show ?thesis by (simp add: grown_def t') (metis row_grown_refl)
    qed
    ultimately show ?thesis by (rule batch_ok_step[OF assms(2)])
  qed
qed

lemma move_event_batch:
  assumes "batch_ok d s t" shows "batch_ok d s (move_event d i e t)"
  unfolding move_event_def
proof (rule update_usage_batch[OF assms])
  fix u
  assume u: "u \<in> set (db_usage t)"
    "ur_DedupeKey u = se_DedupeKey e \<and> ur_DeviceID u = dev_ID d \<and> ur_ThirdParty u \<and> ur_AccountID u \<noteq> i"
  then have "ur_PersonID u = dev_PersonID d" using own_device_rows[OF assms] by blast
  with u show "row_grown d u (u\<lparr>ur_AccountID := i, ur_Model := se_Model e, ur_Gateway := se_Gateway e, ur_ThirdParty := se_ThirdParty e\<rparr>)"
    by (simp add: row_grown_def identity_of_def)
qed simp

lemma reclassify_event_batch:
  assumes "batch_ok d s t" shows "batch_ok d s (reclassify_event d e t)"
  unfolding reclassify_event_def
  by (rule update_usage_batch[OF assms]) (auto simp: row_grown_def identity_of_def)

lemma ingest_event_batch:
  assumes "ingest_event newID d e st = Inr st'" "batch_ok d s (in_db st)"
  shows "batch_ok d s (in_db st')"
proof (cases "se_AccountRefHash e = [] \<or> se_DedupeKey e = []")
  case True
  with assms show ?thesis by (auto simp: ingest_event_def)
next
  case False
  with assms(1) obtain i st1 n t where en: "ensure newID (dev_PersonID d) (se_Provider e) (se_AccountRefHash e) [] [] zero_time st = Inr (i, st1)"
    and sv: "save_event d i e (in_db st1) = Inr (n, t)"
    and st': "in_db st' = (let t = (if se_Gateway e \<noteq> [] then move_event d i e t else t) in
        if se_ThirdParty e \<or> se_Gateway e \<noteq> [] then reclassify_event d e t else t)"
    by (auto simp: ingest_event_def Let_def split: sum.splits prod.splits)
  have "batch_ok d s t" using save_event_batch[OF sv ensure_batch[OF en assms(2)]] .
  then show ?thesis unfolding st' Let_def by (simp add: move_event_batch reclassify_event_batch)
qed

text \<open>The other records of a batch leave the ledger's rows, the devices and the plans alone.\<close>

lemma other_tables_batch:
  assumes "batch_ok d s t" "db_accounts t' = db_accounts t" "db_usage t' = db_usage t" "db_devices t' = db_devices t"
    "db_plans t' = db_plans t" "db_persons t' = db_persons t"
  shows "batch_ok d s t'"
proof -
  have "same_shape t t'" using assms(2-5) by (simp add: same_shape_def)
  with assms(1) have "db_ok t'" using same_shape_ok by (simp add: batch_ok_def)
  with batch_ok_step[OF assms(1) this] grown_refl[of t' t d] assms show ?thesis by simp
qed

lemma ingest_observation_batch:
  assumes "ingest_observation newID d o' st = Inr st'" "batch_ok d s (in_db st)"
  shows "batch_ok d s (in_db st')"
proof (cases "so_AccountRefHash o' = []")
  case True
  with assms show ?thesis by (simp add: ingest_observation_def)
next
  case False
  let ?plan = "if so_Provider o' = ProviderAnthropic then [] else so_PlanType o'"
  from False obtain i st1 where
    en: "ensure newID (dev_PersonID d) (so_Provider o') (so_AccountRefHash o') (so_Hint o') ?plan (so_ObservedAt o') st = Inr (i, st1)"
    using assms(1) by (cases "ensure newID (dev_PersonID d) (so_Provider o') (so_AccountRefHash o') (so_Hint o') ?plan (so_ObservedAt o') st")
      (auto simp: ingest_observation_def Let_def)
  with False assms(1) have st': "st' = st1 \<or> (\<exists>x. in_db st' = (in_db st1)\<lparr>db_observations := x\<rparr>)"
    using en by (simp add: ingest_observation_def Let_def split: if_splits) auto
  note ok = ensure_batch[OF en assms(2)]
  from st' show ?thesis by (elim disjE exE) (auto intro: ok other_tables_batch[OF ok])
qed

lemma ingest_limit_batch:
  assumes "ingest_limit newID d l st = Inr st'" "batch_ok d s (in_db st)"
  shows "batch_ok d s (in_db st')"
proof (cases "sl_AccountRefHash l = [] \<or> sl_DedupeKey l = []")
  case True
  with assms show ?thesis by (auto simp: ingest_limit_def)
next
  case False
  then obtain i st1 where
    en: "ensure newID (dev_PersonID d) (sl_Provider l) (sl_AccountRefHash l) [] [] zero_time st = Inr (i, st1)"
    using assms(1) by (cases "ensure newID (dev_PersonID d) (sl_Provider l) (sl_AccountRefHash l) [] [] zero_time st")
      (auto simp: ingest_limit_def)
  with False assms(1) have st': "st' = st1 \<or> (\<exists>x. in_db st' = (in_db st1)\<lparr>db_limits := x\<rparr>)"
    using en by (auto simp: ingest_limit_def Let_def split: if_splits)
  note ok = ensure_batch[OF en assms(2)]
  from st' show ?thesis by (elim disjE exE) (auto intro: ok other_tables_batch[OF ok])
qed

lemma ingest_snapshot_batch:
  assumes "ingest_snapshot newID d q st = Inr st'" "batch_ok d s (in_db st)"
  shows "batch_ok d s (in_db st')"
proof (cases "ss_AccountRefHash q = [] \<or> ss_Buckets q = []")
  case True
  with assms show ?thesis by (auto simp: ingest_snapshot_def)
next
  case False
  then obtain i st1 where
    en: "ensure newID (dev_PersonID d) (ss_Provider q) (ss_AccountRefHash q) (ss_AccountHint q) (ss_PlanType q) (ss_ObservedAt q) st = Inr (i, st1)"
    using assms(1) by (simp add: ingest_snapshot_def Let_def split: sum.splits prod.splits if_splits)
  with False assms(1) have st': "\<exists>x. in_db st' = (in_db st1)\<lparr>db_snapshots := x\<rparr>"
    using en by (auto simp: ingest_snapshot_def Let_def split: if_splits)
  note ok = ensure_batch[OF en assms(2)]
  from st' show ?thesis by (elim exE) (auto intro: other_tables_batch[OF ok])
qed

lemma Ingest_batch:
  assumes "Ingest newID d req s = Inr (resp, t)" "db_ok s" "authentic d s"
  shows "batch_ok d s t"
proof -
  let ?I = "\<lambda>st. batch_ok d s (in_db st)"
  let ?st0 = "\<lparr>in_db = s, in_accounts = [], in_calls = 0, in_accepted = 0\<rparr>"
  obtain st1 st2 st3 st4 where
    f: "fold_tx (ingest_observation newID d) (rq_Observations req) ?st0 = Inr st1"
    "fold_tx (ingest_event newID d) (rq_Events req) st1 = Inr st2"
    "fold_tx (ingest_snapshot newID d) (rq_Snapshots req) st2 = Inr st3"
    "fold_tx (ingest_limit newID d) (rq_LimitEvents req) st3 = Inr st4" "t = in_db st4"
    using assms(1) by (auto simp: Ingest_def Let_def split: sum.splits)
  have "?I ?st0" using assms(2,3) grown_refl[of s s d] by (simp add: batch_ok_def)
  then have "?I st1" using fold_tx_keeps[OF f(1), of ?I] ingest_observation_batch by blast
  then have "?I st2" using fold_tx_keeps[OF f(2), of ?I] ingest_event_batch by blast
  then have "?I st3" using fold_tx_keeps[OF f(3), of ?I] ingest_snapshot_batch by blast
  then have "?I st4" using fold_tx_keeps[OF f(4), of ?I] ingest_limit_batch by blast
  then show ?thesis by (simp add: f(5))
qed

section \<open>Every reachable database\<close>

lemma server_step_ok:
  assumes "db_ok s" "server_step s t" shows "db_ok t"
  using assms(2,1)
proof (cases rule: server_step.cases)
  case ingest
  with assms(1) show ?thesis using Ingest_batch by (auto simp: batch_ok_def)
qed (auto intro: same_shape_ok[OF AddPerson_shape] DeletePerson_ok same_shape_ok[OF CreateInvite_shape] Pair_ok
    same_shape_ok[OF DeviceByToken_shape] same_shape_ok[OF RevokeDevice_shape] same_shape_ok[OF SetAccountOrder_shape]
    same_shape_ok[OF SetAccountLabel_shape] same_shape_ok[OF SetShareWeight_shape] DeleteAccount_ok
    same_shape_ok[OF SetPublicDashboard_shape] SavePlanInterval_ok DeletePlanInterval_ok)

interpretation server: kept server_step empty_db db_ok
  by unfold_locales (fact db_ok_empty, fact server_step_ok)

end
