(* ===== verification/ServerRules.thy ===== *)
theory ServerRules
  imports ServerLedger
begin

text \<open>
  What the server promises its members, over the operations of \<open>ServerStore\<close> and
  \<open>ServerIngest\<close>: the ledger under sync batches and in every reachable database, deleting a
  member, pairing, the plan of an account and re-sent requests. The demonstration database
  \<open>demo_db\<close> is built by the operations themselves.
\<close>

section \<open>A database built by the operations\<close>

definition run :: "db \<Rightarrow> 'a outcome \<Rightarrow> db" where
  "run s r = (case r of Inl _ \<Rightarrow> s | Inr (_, t) \<Rightarrow> t)"

definition demo_sha :: "string \<Rightarrow> string" where "demo_sha x = CHR ''#'' # x"

definition db1 :: db where "db1 = run empty_db (AddPerson ''p1'' 1 ''Ann'' empty_db)"
definition db2 :: db where "db2 = run db1 (CreateInvite demo_sha ''c1'' 2 ''p1'' InviteTTL db1)"
definition db3 :: db where "db3 = run db2 (Pair demo_sha ''d1'' ''t1'' 3 ''c1'' ''laptop'' ''linux'' db2)"

definition demo_device :: device where
  "demo_device = \<lparr>dev_ID = ''d1'', dev_PersonID = ''p1'', dev_Name = ''laptop'', dev_Platform = ''linux''\<rparr>"

definition demo_event :: sync_event where
  "demo_event = FromEvent (zero_event\<lparr>ev_DedupeKey := ''k1'', ev_AccountRefHash := ''r1'', ev_Provider := ProviderOpenAI,
     ev_Model := ''gpt'', ev_OccurredAt := 4, ev_Tokens := zero_tokens\<lparr>tk_Output := 7\<rparr>\<rparr>)"

definition demo_limit :: sync_limit where
  "demo_limit = FromLimitEvent (zero_limit_event\<lparr>le_DedupeKey := ''l1'', le_AccountRefHash := ''r1'',
     le_Provider := ProviderOpenAI, le_OccurredAt := 4, le_Kind := LimitFiveHour\<rparr>)"

definition demo_request :: "sync_limit list \<Rightarrow> sync_request" where
  "demo_request ls = \<lparr>rq_Version = Version, rq_Observations = [], rq_Events = [demo_event], rq_Snapshots = [], rq_LimitEvents = ls\<rparr>"

definition demo_ids :: "nat \<Rightarrow> string" where "demo_ids n = CHR ''a'' # replicate n (CHR ''x'')"

definition db4 :: db where "db4 = run db3 (Ingest demo_ids demo_device (demo_request [demo_limit]) db3)"

definition demo_usage :: usage_row where
  "demo_usage = usage_row_of demo_device ''a'' demo_event"

lemmas demo_defs = db1_def db2_def db3_def db4_def run_def demo_sha_def demo_device_def demo_event_def demo_limit_def
  demo_request_def demo_ids_def demo_usage_def

lemma db1: "AddPerson ''p1'' 1 ''Ann'' empty_db = Inr (\<lparr>p_ID = ''p1'', p_DisplayName = ''Ann''\<rparr>, db1)"
  by (simp add: db1_def run_def AddPerson_def empty_db_def)

lemma db2: "CreateInvite demo_sha ''c1'' 2 ''p1'' InviteTTL db1 = Inr ((''c1'', 2 + InviteTTL), db2)"
  by (simp add: db2_def run_def db1_def CreateInvite_def AddPerson_def empty_db_def Let_def)

lemma db3: "Pair demo_sha ''d1'' ''t1'' 3 ''c1'' ''laptop'' ''linux'' db2 =
    Inr ((\<lparr>sd_Device = demo_device, sd_Person = \<lparr>p_ID = ''p1'', p_DisplayName = ''Ann''\<rparr>\<rparr>, ''t1''), db3)"
  by (simp add: db3_def db2_def db1_def run_def CreateInvite_def AddPerson_def empty_db_def Let_def Pair_def
      InviteTTL_def time_units hashSecret_def demo_sha_def find_person_def person_of_row_def demo_device_def)

lemma db4: "\<exists>resp. Ingest demo_ids demo_device (demo_request [demo_limit]) db3 = Inr (resp, db4)"
proof -
  have "\<not> isl (Ingest demo_ids demo_device (demo_request [demo_limit]) db3)" by code_simp
  then obtain resp t where r: "Ingest demo_ids demo_device (demo_request [demo_limit]) db3 = Inr (resp, t)"
    by (metis isl_def old.sum.exhaust prod.collapse)
  then have "db4 = t" by (simp add: db4_def run_def)
  with r show ?thesis by blast
qed

lemma demo_authentic: "authentic demo_device db3"
  by code_simp

lemma db3_reachable: "server_step\<^sup>*\<^sup>* empty_db db3"
proof -
  have "server_step empty_db db1" using db1 by (rule server_step.add_person)
  moreover have "server_step db1 db2" using db2 by (rule server_step.create_invite)
  moreover have "server_step db2 db3" using db3 by (rule server_step.pair)
  ultimately show ?thesis by (meson converse_rtranclp_into_rtranclp rtranclp.rtrancl_refl)
qed

lemma db4_reachable: "server_step\<^sup>*\<^sup>* empty_db db4"
proof -
  obtain resp where "Ingest demo_ids demo_device (demo_request [demo_limit]) db3 = Inr (resp, db4)" using db4 by blast
  with db3_reachable show ?thesis using server_step.ingest[OF demo_authentic] by (meson rtranclp.rtrancl_into_rtrancl)
qed

lemma db4_usage: "db_usage db4 = [demo_usage] \<and> db_limits db4 \<noteq> []"
  by code_simp

section \<open>The ledger\<close>

text \<open>
  C1. A sync batch of a device keeps every request of the ledger: which request it is, whose
  it is, its device and its input counts stay, its output counts never fall, a request id,
  effort or status once known stays, only its own device takes a third-party request back into
  the quota, and another person's request does not change at all. What the batch adds belongs
  to the device and its person, and the keys stay unique.
\<close>

theorem Ingest_keeps_ledger:
  assumes "server_step\<^sup>*\<^sup>* empty_db s" "authentic d s" "Ingest newID d req s = Inr (resp, t)"
  shows "(\<forall>u \<in> set (db_usage s). \<exists>v \<in> set (db_usage t). row_grown d u v) \<and>
    (\<forall>v \<in> set (db_usage t). (ur_PersonID v = dev_PersonID d \<and> ur_DeviceID v = dev_ID d) \<or>
      (\<exists>u \<in> set (db_usage s). row_grown d u v)) \<and>
    distinct (map ur_DedupeKey (db_usage t))"
proof -
  have "batch_ok d s t" using Ingest_batch[OF assms(3) server.ok_reachable[OF assms(1)] assms(2)] .
  then show ?thesis by (simp add: batch_ok_def grown_def own_row_def db_ok_def usage_owned_def)
qed

theorem Ingest_keeps_ledger_witness:
  "list_all (\<lambda>v. ur_PersonID v = ''p1'' \<or> list_ex (\<lambda>u. row_grown demo_device u v) (db_usage db3)) (db_usage db4)"
proof -
  obtain resp where "Ingest demo_ids demo_device (demo_request [demo_limit]) db3 = Inr (resp, db4)" using db4 by blast
  from Ingest_keeps_ledger[OF db3_reachable demo_authentic this] show ?thesis by (auto simp: demo_device_def list_all_iff list_ex_iff)
qed

lemma sorted_wrt_related:
  "sorted_wrt P xs \<Longrightarrow> x \<in> set xs \<Longrightarrow> y \<in> set xs \<Longrightarrow> x \<noteq> y \<Longrightarrow> P x y \<or> P y x"
  by (induction xs) auto

text \<open>
  C2. In every database the operations can reach, a request is stored once and belongs to the
  owner of the device that sent it, an account reference of a provider has one account, and at
  any instant at most one plan interval of an account applies.
\<close>

theorem reachable_database:
  assumes "server_step\<^sup>*\<^sup>* empty_db s"
  shows "distinct (map ur_DedupeKey (db_usage s)) \<and>
    distinct (map (\<lambda>r. (ar_Provider r, ar_RefHash r)) (db_accounts s)) \<and>
    (\<forall>u \<in> set (db_usage s). \<exists>r \<in> set (db_devices s). dr_ID r = ur_DeviceID u \<and> dr_PersonID r = ur_PersonID u) \<and>
    (\<forall>i \<in> set (db_plans s). \<forall>j \<in> set (db_plans s). \<forall>t.
       pi_AccountID i = pi_AccountID j \<and> covers i t \<and> covers j t \<longrightarrow> i = j)"
proof -
  have ok: "db_ok s" using assms by (rule server.ok_reachable)
  have "i = j" if ij: "i \<in> set (db_plans s)" "j \<in> set (db_plans s)" "pi_AccountID i = pi_AccountID j" "covers i t" "covers j t" for i j t
  proof (rule ccontr)
    assume "i \<noteq> j"
    moreover have "sorted_wrt apart_intervals (db_plans s)" using ok by (simp add: db_ok_def plans_apart_def)
    ultimately have "apart_intervals i j \<or> apart_intervals j i"
      using ij(1,2) by (auto dest: sorted_wrt_related)
    then have "\<not> interval_overlaps i j" using ij(3) interval_overlaps_sym[of i j] by (auto simp: apart_intervals_def)
    with ij(4,5) show False by (auto simp: interval_overlaps_def covers_def split: option.splits)
  qed
  moreover have "\<forall>u \<in> set (db_usage s). \<exists>r \<in> set (db_devices s). dr_ID r = ur_DeviceID u \<and> dr_PersonID r = ur_PersonID u"
    using ok by (fastforce simp: db_ok_def usage_owned_def)
  moreover have "distinct (map ur_DedupeKey (db_usage s))" "distinct (map (\<lambda>r. (ar_Provider r, ar_RefHash r)) (db_accounts s))"
    using ok by (simp_all add: db_ok_def account_keys_def usage_owned_def)
  ultimately show ?thesis by blast
qed

theorem reachable_database_witness:
  "\<exists>r \<in> set (db_devices db4). dr_ID r = ''d1'' \<and> dr_PersonID r = ''p1''"
proof -
  have "demo_usage \<in> set (db_usage db4)" by (simp add: db4_usage)
  with reachable_database[OF db4_reachable]
  have "\<exists>r \<in> set (db_devices db4). dr_ID r = ur_DeviceID demo_usage \<and> dr_PersonID r = ur_PersonID demo_usage" by blast
  then show ?thesis by (simp add: demo_usage_def usage_row_of_def demo_device_def)
qed

section \<open>Deleting a member\<close>

text \<open>
  C40. Deleting a member fails, with everything rolled back, exactly when a limit event of the
  member or of one of their devices is stored: the operation deletes every other kind of
  record but not those, and their references have no cascade. When it succeeds nothing refers to
  the member or their devices any more, and the records of other members are all kept.
\<close>

theorem DeletePerson_blocked_by_limits:
  assumes "person_exists s i"
  shows "(case DeletePerson i s of
      Inl err \<Rightarrow> err = ErrConstraint \<and>
        (\<exists>l \<in> set (db_limits s). lr_PersonID l = i \<or> (\<exists>r \<in> set (db_devices s). dr_PersonID r = i \<and> dr_ID r = lr_DeviceID l))
    | Inr (_, t) \<Rightarrow>
        \<not> (\<exists>l \<in> set (db_limits s). lr_PersonID l = i \<or> (\<exists>r \<in> set (db_devices s). dr_PersonID r = i \<and> dr_ID r = lr_DeviceID l)) \<and>
        \<not> person_exists t i \<and> \<not> person_referenced t i \<and>
        (\<forall>r \<in> set (db_devices s). dr_PersonID r = i \<longrightarrow> \<not> device_referenced t (dr_ID r)) \<and>
        filter (\<lambda>r. ur_PersonID r \<noteq> i \<and> \<not> (\<exists>q \<in> set (db_devices s). dr_PersonID q = i \<and> dr_ID q = ur_DeviceID r)) (db_usage s) = db_usage t)"
proof -
  define ds where "ds = dr_ID ` {r \<in> set (db_devices s). dr_PersonID r = i}"
  have ids: "set (map dr_ID (filter (\<lambda>r. dr_PersonID r = i) (db_devices s))) = ds" by (auto simp: ds_def)
  define blocked where "blocked \<longleftrightarrow> (\<exists>l \<in> set (db_limits s). lr_PersonID l = i \<or> lr_DeviceID l \<in> ds)"
  define t0 where "t0 = s\<lparr>db_usage := filter (\<lambda>r. \<not> (ur_PersonID r = i \<or> ur_DeviceID r \<in> ds)) (db_usage s),
    db_snapshots := filter (\<lambda>r. qs_DeviceID r \<notin> ds) (db_snapshots s),
    db_observations := filter (\<lambda>r. or_DeviceID r \<notin> ds) (db_observations s),
    db_invites := filter (\<lambda>r. \<not> (iv_PersonID r = i \<or> (case iv_DeviceID r of None \<Rightarrow> False | Some d \<Rightarrow> d \<in> ds))) (db_invites s),
    db_memberships := filter (\<lambda>r. ms_PersonID r \<noteq> i) (db_memberships s)\<rparr>"
  define t1 where "t1 = t0\<lparr>db_devices := filter (\<lambda>r. dr_PersonID r \<noteq> i) (db_devices s)\<rparr>"
  define t2 where "t2 = t1\<lparr>db_persons := filter (\<lambda>r. pr_ID r \<noteq> i) (db_persons s)\<rparr>"
  have dev: "list_ex (device_referenced t0) (map dr_ID (filter (\<lambda>r. dr_PersonID r = i) (db_devices s))) \<longleftrightarrow>
      (\<exists>l \<in> set (db_limits s). lr_DeviceID l \<in> ds)"
    unfolding list_ex_iff ids by (auto simp: device_referenced_def t0_def image_iff split: option.splits)
  have per: "person_referenced t1 i \<longleftrightarrow> (\<exists>l \<in> set (db_limits s). lr_PersonID l = i)"
    by (auto simp: person_referenced_def t1_def t0_def image_iff)
  have eq: "DeletePerson i s = (if blocked then Inl ErrConstraint else Inr ((), t2))"
    using dev per assms unfolding DeletePerson_def Let_def ids
    by (simp add: t0_def t1_def t2_def blocked_def)
  have mine: "(\<exists>q \<in> set (db_devices s). dr_PersonID q = i \<and> dr_ID q = x) \<longleftrightarrow> x \<in> ds" for x by (auto simp: ds_def)
  have "\<not> person_exists t2 i" "\<not> blocked \<Longrightarrow> \<not> person_referenced t2 i"
    "filter (\<lambda>r. ur_PersonID r \<noteq> i \<and> \<not> ur_DeviceID r \<in> ds) (db_usage s) = db_usage t2"
    using per by (auto simp: t2_def t1_def t0_def blocked_def person_referenced_def)
  moreover have "\<not> device_referenced t2 (dr_ID r)" if "\<not> blocked" "r \<in> set (db_devices s)" "dr_PersonID r = i" for r
  proof -
    have "dr_ID r \<in> ds" using that by (auto simp: ds_def)
    with that(1) show ?thesis
      by (auto simp: t2_def t1_def t0_def blocked_def device_referenced_def image_iff split: option.splits)
  qed
  ultimately show ?thesis unfolding eq mine blocked_def[symmetric] by (cases blocked) auto
qed

theorem DeletePerson_blocked_by_limits_witness:
  "DeletePerson ''p1'' db4 = Inl ErrConstraint \<and> db_usage db4 = [demo_usage] \<and>
   \<not> isl (DeletePerson ''p1'' db3)"
proof -
  have "person_exists db4 ''p1''" by code_simp
  from DeletePerson_blocked_by_limits[OF this]
  have "DeletePerson ''p1'' db4 = Inl ErrConstraint \<or> \<not> isl (DeletePerson ''p1'' db4)" by (auto split: sum.splits)
  moreover have "isl (DeletePerson ''p1'' db4)" "\<not> isl (DeletePerson ''p1'' db3)" by code_simp+
  ultimately show ?thesis by (simp add: db4_usage)
qed

section \<open>Pairing\<close>

lemma find_append_new: "(\<And>x. x \<in> set xs \<Longrightarrow> \<not> p x) \<Longrightarrow> p y \<Longrightarrow> find p (xs @ [y]) = Some y"
  by (induction xs) auto

lemma find_none: "(\<And>x. x \<in> set xs \<Longrightarrow> \<not> p x) \<Longrightarrow> find p xs = None"
  by (induction xs) auto

lemma find_person_exists: "find_person s i = Some p \<Longrightarrow> pr_ID p = i \<and> person_exists s i"
  by (auto simp: find_person_def find_Some_iff)

text \<open>
  C39. Pairing turns an unused, unexpired invite of a member into exactly one device of that
  member: the token it returns authenticates as that device and that member from then on, the
  same code is refused from then on, and once the device is revoked its token is refused.
\<close>

theorem Pair_token:
  assumes "Pair sha newID token now code name platform s = Inr ((sd, tok), t)"
  shows "(\<exists>r \<in> set (db_invites s). iv_CodeHash r = hashSecret sha code \<and> iv_UsedAt r = None \<and>
      now < iv_ExpiresAt r \<and> iv_PersonID r = p_ID (sd_Person sd)) \<and>
    dev_PersonID (sd_Device sd) = p_ID (sd_Person sd) \<and> authentic (sd_Device sd) t \<and>
    (\<exists>u. DeviceByToken sha later tok t = Inr (sd, u)) \<and>
    Pair sha newID' token' later code name' platform' t = Inl ErrInvalidInvite \<and>
    (\<exists>u. RevokeDevice later newID t = Inr ((), u) \<and> DeviceByToken sha later' tok u = Inl ErrUnauthorized)"
proof -
  obtain inv p where inv: "find (\<lambda>r. iv_CodeHash r = hashSecret sha code \<and> iv_UsedAt r = None \<and> iv_ExpiresAt r > now) (db_invites s) = Some inv"
    and p: "find_person s (iv_PersonID inv) = Some p"
    and fresh: "\<not> device_exists s newID" "hashSecret sha token \<notin> dr_TokenHash ` set (db_devices s)"
    using assms by (auto simp: Pair_def split: option.splits if_splits)
  define r where "r = \<lparr>dr_ID = newID, dr_PersonID = pr_ID p, dr_Name = name, dr_Platform = platform,
    dr_TokenHash = hashSecret sha token, dr_CreatedAt = now, dr_LastSeenAt = None, dr_RevokedAt = None\<rparr>"
  define t0 where "t0 = s\<lparr>db_devices := db_devices s @ [r],
    db_invites := update_where (\<lambda>r. iv_CodeHash r = hashSecret sha code)
      (\<lambda>r. r\<lparr>iv_UsedAt := Some now, iv_DeviceID := Some newID\<rparr>) (db_invites s)\<rparr>"
  have eqs: "sd = \<lparr>sd_Device = device_of_row r, sd_Person = person_of_row p\<rparr>" "tok = token" "t = t0"
    using assms inv p fresh by (auto simp: Pair_def r_def t0_def device_of_row_def Let_def)
  note person = find_person_exists[OF p]
  have old: "dr_TokenHash x \<noteq> hashSecret sha token" "dr_ID x \<noteq> newID" if "x \<in> set (db_devices s)" for x
    using fresh that by (metis image_eqI)+
  have row: "dr_ID r = newID" "dr_PersonID r = pr_ID p" "dr_TokenHash r = hashSecret sha token" "dr_RevokedAt r = None"
    by (simp_all add: r_def)
  have same_persons: "find_person t0 = find_person s" "db_persons t0 = db_persons s"
    by (simp_all add: t0_def find_person_def fun_eq_iff)
  have "find (\<lambda>r. dr_TokenHash r = hashSecret sha token \<and> dr_RevokedAt r = None \<and> person_exists t0 (dr_PersonID r)) (db_devices t0) = Some r"
    using old person row by (auto simp: t0_def intro!: find_append_new)
  then have auth: "\<exists>u. DeviceByToken sha later tok t = Inr (sd, u)"
    using eqs p person row same_persons by (simp add: DeviceByToken_def Let_def)
  have "find (\<lambda>r. iv_CodeHash r = hashSecret sha code \<and> iv_UsedAt r = None \<and> iv_ExpiresAt r > later) (db_invites t0) = None"
    by (rule find_none) (auto simp: t0_def update_where_def)
  then have used: "Pair sha newID' token' later code name' platform' t = Inl ErrInvalidInvite"
    using eqs by (simp add: Pair_def)
  define u where "u = t0\<lparr>db_devices := update_where (\<lambda>r. dr_ID r = newID \<and> dr_RevokedAt r = None)
    (\<lambda>r. r\<lparr>dr_RevokedAt := Some later\<rparr>) (db_devices t0)\<rparr>"
  have "list_ex (\<lambda>r. dr_ID r = newID \<and> dr_RevokedAt r = None) (db_devices t0)"
    using row by (simp add: t0_def)
  then have rev: "RevokeDevice later newID t = Inr ((), u)" using eqs by (simp add: RevokeDevice_def u_def Let_def)
  have "find (\<lambda>r. dr_TokenHash r = hashSecret sha token \<and> dr_RevokedAt r = None \<and> person_exists u (dr_PersonID r)) (db_devices u) = None"
    using old row by (intro find_none) (auto simp: u_def t0_def update_where_def split: if_splits)
  then have "DeviceByToken sha later' tok u = Inl ErrUnauthorized" using eqs by (simp add: DeviceByToken_def Let_def)
  with rev have revoked: "\<exists>u. RevokeDevice later newID t = Inr ((), u) \<and> DeviceByToken sha later' tok u = Inl ErrUnauthorized"
    by blast
  have invite: "\<exists>r \<in> set (db_invites s). iv_CodeHash r = hashSecret sha code \<and> iv_UsedAt r = None \<and>
      now < iv_ExpiresAt r \<and> iv_PersonID r = p_ID (sd_Person sd)"
    using inv person eqs by (auto simp: find_Some_iff person_of_row_def)
  have "authentic (sd_Device sd) t"
    using eqs row person same_persons by (auto simp: authentic_def device_of_row_def t0_def)
  moreover have "dev_PersonID (sd_Device sd) = p_ID (sd_Person sd)" using eqs row by (simp add: device_of_row_def person_of_row_def)
  ultimately show ?thesis using invite auth used revoked by blast
qed

theorem Pair_token_witness:
  "\<not> isl (DeviceByToken demo_sha 9 ''t1'' db3) \<and>
   Pair demo_sha ''d2'' ''t2'' 9 ''c1'' ''pc'' ''linux'' db3 = Inl ErrInvalidInvite"
  using Pair_token[OF db3, of 9 "''d2''" "''t2''" "''pc''" "''linux''"] by (metis sum.disc(2))

section \<open>Sending a request again\<close>

lemma merge_account_nothing [simp]: "merge_account [] [] None r = r"
  by (cases "ar_PlanObservedAt r") (simp_all add: merge_account_def null_greatest_def)

text \<open>An account once seen is found again, unchanged, under the same ID.\<close>

lemma ensureAccount_again:
  assumes "ensureAccount newID p h hint plan planAt person s = Inr (i, t)"
    and "db_accounts t' = db_accounts t" "db_memberships t' = db_memberships t"
  shows "ensureAccount newID' p h [] [] planAt' person t' = Inr (i, t')"
proof -
  let ?m = "\<lambda>r. ar_Provider r = p \<and> ar_RefHash r = h"
  have keep: "?m (merge_account g pl a r) = ?m r" for g pl a r by (simp add: merge_account_def)
  obtain r where r: "find ?m (db_accounts t) = Some r" "ar_ID r = i"
    and mem: "list_ex (\<lambda>m. ms_AccountID m = i \<and> ms_PersonID m = person) (db_memberships t)"
  proof (cases "find ?m (db_accounts s)")
    case None
    then have "find ?m (db_accounts s @ [r]) = Some r" if "?m r" for r
      using that by (auto simp: find_None_iff intro!: find_append_new)
    with None assms(1) that show ?thesis by (auto simp: ensureAccount_def Let_def split: if_splits)
  next
    case (Some r)
    have "find ?m (update_where ?m (merge_account g pl a) (db_accounts s)) =
      Some (if ?m r then merge_account g pl a r else r)" for g pl a
      by (subst find_update_where) (use Some keep in simp_all)
    moreover have "ar_ID (merge_account g pl a r) = ar_ID r" for g pl a by (simp add: merge_account_def)
    ultimately show ?thesis using Some assms(1) that
      by (auto simp: ensureAccount_def Let_def split: if_splits)
  qed
  have "update_where ?m (merge_account [] [] None) (db_accounts t') = db_accounts t'" by (rule update_where_id) simp
  then have "t'\<lparr>db_accounts := update_where ?m (merge_account [] [] None) (db_accounts t')\<rparr> = t'" by simp
  with r mem assms(2,3) show ?thesis by (simp add: ensureAccount_def Let_def)
qed

text \<open>A row that has taken a request in takes it in once.\<close>

definition settled :: "db \<Rightarrow> device \<Rightarrow> string \<Rightarrow> sync_event \<Rightarrow> bool" where
  "settled s d i e \<longleftrightarrow> list_ex (\<lambda>u. ur_DedupeKey u = se_DedupeKey e) (db_usage s) \<and>
     (\<forall>u \<in> set (db_usage s). ur_DedupeKey u = se_DedupeKey e \<longrightarrow> \<not> upsert_applies s e (usage_row_of d i e) u)"

lemma not_applies_again: "\<not> upsert_applies s e x (upsert_usage x u)"
  by (auto simp: upsert_applies_def upsert_usage_def)

lemma save_event_settled:
  assumes "save_event d i e s = Inr (n, t)"
  shows "settled t d i e \<and> db_accounts t = db_accounts s \<and> db_memberships t = db_memberships s"
proof (cases "list_ex (\<lambda>u. ur_DedupeKey u = se_DedupeKey e) (db_usage s)")
  case True
  let ?x = "usage_row_of d i e"
  let ?a = "\<lambda>u. ur_DedupeKey u = se_DedupeKey e \<and> upsert_applies s e ?x u"
  have t: "t = s\<lparr>db_usage := update_where ?a (upsert_usage ?x) (db_usage s)\<rparr>"
    using assms True by (simp add: save_event_def Let_def)
  have same: "upsert_applies t e ?x u = upsert_applies s e ?x u" for u by (simp add: t upsert_applies_def)
  have key: "ur_DedupeKey (upsert_usage x u) = ur_DedupeKey u" for x u by (simp add: upsert_usage_def)
  have "\<forall>u \<in> set (db_usage t). ur_DedupeKey u = se_DedupeKey e \<longrightarrow> \<not> upsert_applies s e ?x u"
    unfolding t by (simp, rule ball_update_where) (simp add: not_applies_again)
  moreover have "list_ex (\<lambda>u. ur_DedupeKey u = se_DedupeKey e) (db_usage t)"
    using True by (simp add: t list_ex_update_where key)
  ultimately show ?thesis unfolding settled_def same by (simp add: t)
next
  case False
  with assms show ?thesis
    by (auto simp: save_event_def settled_def upsert_applies_def usage_row_of_def list_ex_iff Let_def split: if_splits)
qed

lemma settled_again: "settled s d i e \<Longrightarrow> save_event d i e s = Inr (0, s)"
proof -
  assume s: "settled s d i e"
  let ?x = "usage_row_of d i e"
  let ?a = "\<lambda>u. ur_DedupeKey u = se_DedupeKey e \<and> upsert_applies s e ?x u"
  have "\<not> list_ex ?a (db_usage s)" using s by (auto simp: settled_def list_ex_iff)
  moreover have "update_where ?a (upsert_usage ?x) (db_usage s) = db_usage s"
    by (rule update_where_id) (use s in \<open>auto simp: settled_def\<close>)
  ultimately show ?thesis using s by (simp add: save_event_def settled_def Let_def)
qed

lemma reclassify_settled:
  assumes "settled s d i e" "se_Gateway e = []"
  shows "settled (reclassify_event d e s) d i e"
    and "reclassify_event d e (reclassify_event d e s) = reclassify_event d e s"
proof -
  let ?s = "reclassify_event d e s" and ?x = "usage_row_of d i e"
  let ?f = "\<lambda>u. u\<lparr>ur_ThirdParty := (ur_ThirdParty u \<or> se_ThirdParty e),
    ur_Gateway := (if ur_Gateway u = [] then se_Gateway e else ur_Gateway u)\<rparr>"
  have same: "upsert_applies s e ?x (u\<lparr>ur_ThirdParty := b, ur_Gateway := g\<rparr>) = upsert_applies s e ?x u"
    "upsert_applies s e ?x (u\<lparr>ur_ThirdParty := b\<rparr>) = upsert_applies s e ?x u"
    "upsert_applies ?s e ?x u = upsert_applies s e ?x u" for u b g
    by (simp_all add: upsert_applies_def reclassify_event_def)
  have us: "db_usage ?s = update_where (\<lambda>u. ur_DedupeKey u = se_DedupeKey e \<and> ur_PersonID u = dev_PersonID d \<and>
      (ur_ThirdParty u \<noteq> (ur_ThirdParty u \<or> se_ThirdParty e) \<or> (ur_Gateway u = [] \<and> se_Gateway e \<noteq> []))) ?f (db_usage s)"
    by (simp add: reclassify_event_def)
  have "\<forall>u \<in> set (db_usage ?s). ur_DedupeKey u = se_DedupeKey e \<longrightarrow> \<not> upsert_applies ?s e ?x u"
    unfolding us by (rule ball_update_where) (use assms(1) in \<open>auto simp: settled_def same\<close>)
  moreover have "list_ex (\<lambda>u. ur_DedupeKey u = se_DedupeKey e) (db_usage ?s)"
    using assms(1) by (simp add: reclassify_event_def settled_def list_ex_update_where)
  ultimately show "settled ?s d i e" by (simp add: settled_def)
  show "reclassify_event d e (reclassify_event d e s) = reclassify_event d e s"
    using assms(2) by (auto simp: reclassify_event_def update_where_def intro!: arg_cong[where f = "\<lambda>us. s\<lparr>db_usage := us\<rparr>"])
qed

definition one_event :: "sync_event \<Rightarrow> sync_request" where
  "one_event e = \<lparr>rq_Version = Version, rq_Observations = [], rq_Events = [e], rq_Snapshots = [], rq_LimitEvents = []\<rparr>"

text \<open>
  Sending a request again changes nothing: once a batch with a request that went through no
  gateway is stored, the same batch sent later is accepted with a count of 0 and leaves the
  whole database as it is, whatever random IDs it draws.
\<close>

theorem Ingest_resend:
  assumes "Ingest newID d (one_event e) s = Inr (r, t)" and "se_Gateway e = []"
  shows "\<exists>n. Ingest newID' d (one_event e) t = Inr (\<lparr>rp_Accepted = 0, rp_Diverged = n\<rparr>, t)"
proof (cases "se_AccountRefHash e = [] \<or> se_DedupeKey e = []")
  case True
  then show ?thesis by (auto simp: Ingest_def one_event_def ingest_event_def Let_def)
next
  case False
  let ?p = "se_Provider e" and ?h = "se_AccountRefHash e" and ?z = zero_time
  from assms False obtain i s1 n s2 where
    ens: "ensureAccount (newID 0) ?p ?h [] [] ?z (dev_PersonID d) s = Inr (i, s1)" and
    sav: "save_event d i e s1 = Inr (n, s2)" and
    t: "t = (if se_ThirdParty e then reclassify_event d e s2 else s2)"
    by (auto simp: Ingest_def one_event_def ingest_event_def ensure_def Let_def split: sum.splits)
  note set = save_event_settled[OF sav]
  have st: "settled t d i e" and again: "(if se_ThirdParty e then reclassify_event d e t else t) = t"
    using set reclassify_settled[OF _ assms(2)] by (auto simp: t)
  have "db_accounts t = db_accounts s1" "db_memberships t = db_memberships s1"
    using set by (auto simp: t reclassify_event_def)
  from ensureAccount_again[OF ens this] have "ensureAccount (newID' 0) ?p ?h [] [] ?z (dev_PersonID d) t = Inr (i, t)" .
  then show ?thesis using False settled_again[OF st] again assms(2)
    by (simp add: Ingest_def one_event_def ingest_event_def ensure_def Let_def)
qed

theorem Ingest_resend_witness:
  "\<not> isl (Ingest demo_ids demo_device (one_event demo_event) db3) \<and>
   (\<exists>t n. db_usage t = [demo_usage] \<and>
     Ingest demo_ids demo_device (one_event demo_event) t = Inr (\<lparr>rp_Accepted = 0, rp_Diverged = n\<rparr>, t))"
proof -
  have ok: "\<not> isl (Ingest demo_ids demo_device (one_event demo_event) db3)"
    and use: "db_usage (run db3 (Ingest demo_ids demo_device (one_event demo_event) db3)) = [demo_usage]" by code_simp+
  from ok obtain r t where r: "Ingest demo_ids demo_device (one_event demo_event) db3 = Inr (r, t)"
    by (metis isl_def old.sum.exhaust prod.collapse)
  have "se_Gateway demo_event = []" by code_simp
  from Ingest_resend[OF r this] use show ?thesis using ok r by (auto simp: run_def)
qed

end
