(* ===== verification/ServerReports.thy ===== *)
theory ServerReports
  imports ServerRules Attribution
begin

text \<open>
  The reports of \<open>internal/server/storage/storage.go\<close>: the queries that sum requests per
  group, and the accounts devices are signed into. A \<open>GROUP BY\<close> gives its groups in the order
  of their last row, one of the orders the database may choose; its sums are exact (one that
  leaves \<open>int64\<close> fails in \<open>Scan\<close>, which is not modelled).
\<close>

section \<open>Grouping\<close>

definition grouped :: "('a \<Rightarrow> 'k) \<Rightarrow> 'a list \<Rightarrow> ('k \<times> 'a list) list" where
  "grouped key xs = map (\<lambda>k. (k, filter (\<lambda>x. key x = k) xs)) (remdups (map key xs))"

lemma grouped_keys: "map fst (grouped key xs) = remdups (map key xs)"
  by (simp add: grouped_def comp_def)

lemma grouped_rows: "(k, g) \<in> set (grouped key xs) \<longleftrightarrow> k \<in> key ` set xs \<and> g = filter (\<lambda>x. key x = k) xs"
  by (auto simp: grouped_def)

text \<open>What the groups hold together is what the rows hold, for any additive figure.\<close>

lemma sum_filter_keys:
  fixes f :: "'a \<Rightarrow> 'b::comm_monoid_add"
  assumes "finite A" "key ` set xs \<subseteq> A"
  shows "(\<Sum>k \<in> A. sum_list (map f (filter (\<lambda>x. key x = k) xs))) = sum_list (map f xs)"
  using assms(2)
proof (induction xs)
  case Nil
  then show ?case by simp
next
  case (Cons x xs)
  have "(\<Sum>k \<in> A. sum_list (map f (filter (\<lambda>x. key x = k) (x # xs)))) =
      (\<Sum>k \<in> A. (if key x = k then f x else 0) + sum_list (map f (filter (\<lambda>x. key x = k) xs)))"
    by (rule sum.cong) auto
  also have "\<dots> = f x + sum_list (map f xs)" using assms(1) Cons by (simp add: sum.distrib)
  finally show ?case by simp
qed

lemma sum_grouped:
  fixes f :: "'a \<Rightarrow> 'b::comm_monoid_add"
  shows "sum_list (map (\<lambda>(k, g). sum_list (map f g)) (grouped key xs)) = sum_list (map f xs)"
proof -
  have "sum_list (map (\<lambda>(k, g). sum_list (map f g)) (grouped key xs)) =
      (\<Sum>k \<in> key ` set xs. sum_list (map f (filter (\<lambda>x. key x = k) xs)))"
    by (simp add: grouped_def comp_def sum_list_distinct_conv_sum_set)
  then show ?thesis by (simp add: sum_filter_keys)
qed

lemma sum_grouped_rows:
  fixes f :: "'a \<Rightarrow> 'b::comm_monoid_add" and v :: "'k \<Rightarrow> 'a list \<Rightarrow> 'b"
  assumes "\<And>k g. (k, g) \<in> set (grouped key xs) \<Longrightarrow> v k g = sum_list (map f g)"
  shows "sum_list (map (\<lambda>(k, g). v k g) (grouped key xs)) = sum_list (map f xs)"
proof -
  have "map (\<lambda>(k, g). v k g) (grouped key xs) = map (\<lambda>(k, g). sum_list (map f g)) (grouped key xs)"
    using assms by auto
  then show ?thesis by (simp only: sum_grouped)
qed

definition token_sum :: "usage_row list \<Rightarrow> tokens" where
  "token_sum rows = sum_tokens (map ur_Tokens rows)"

definition ledger_tokens :: "usage_row \<Rightarrow> int" where
  "ledger_tokens r = tk_Input (ur_Tokens r) + tk_CachedInput (ur_Tokens r) + tk_CacheWrite (ur_Tokens r) + tk_Output (ur_Tokens r)"

section \<open>Accounts in use\<close>

record active_device =
  ac_AccountID :: string
  ac_DeviceID :: string
  ac_PersonID :: string
  ac_PersonName :: string
  ac_DeviceName :: string

type_synonym sighting = "observation_row \<times> device_row \<times> person_row \<times> account_row"

definition sightings :: "time \<Rightarrow> db \<Rightarrow> sighting list" where
  "sightings since s =
     concat (map (\<lambda>o'. concat (map (\<lambda>d. concat (map (\<lambda>p. map (\<lambda>a. (o', d, p, a))
           (filter (\<lambda>a. ar_ID a = or_AccountID o') (db_accounts s)))
         (filter (\<lambda>p. pr_ID p = dr_PersonID d) (db_persons s))))
       (filter (\<lambda>d. dr_ID d = or_DeviceID o' \<and> dr_RevokedAt d = None) (db_devices s))))
     (filter (\<lambda>o'. or_ObservedAt o' \<ge> since) (db_observations s)))"

definition sighting_key :: "sighting \<Rightarrow> string \<times> string \<times> string" where
  "sighting_key x = (case x of (o', d, p, a) \<Rightarrow> (or_DeviceID o', ar_Provider a, or_Source o'))"

definition sighting_time :: "sighting \<Rightarrow> time" where
  "sighting_time x = or_ObservedAt (fst x)"

definition key_before :: "(string \<Rightarrow> string \<Rightarrow> bool) \<Rightarrow> string \<times> string \<times> string \<Rightarrow> string \<times> string \<times> string \<Rightarrow> bool" where
  "key_before tlt a b =
     (case (a, b) of ((d, p, s), (e, q, t)) \<Rightarrow> tlt d e \<or> (d = e \<and> (tlt p q \<or> (p = q \<and> tlt s t))))"

text \<open>\<open>ORDER BY o.device_id, a.provider, o.source, o.observed_at DESC\<close>\<close>

definition sighting_before :: "(string \<Rightarrow> string \<Rightarrow> bool) \<Rightarrow> sighting \<Rightarrow> sighting \<Rightarrow> bool" where
  "sighting_before tlt x y \<longleftrightarrow> key_before tlt (sighting_key x) (sighting_key y) \<or>
     (sighting_key x = sighting_key y \<and> sighting_time x > sighting_time y)"

text \<open>\<open>DISTINCT ON\<close> keeps the first row of each run of rows with one key.\<close>

function distinct_on :: "('a \<Rightarrow> 'k) \<Rightarrow> 'a list \<Rightarrow> 'a list" where
  "distinct_on key [] = []"
| "distinct_on key (x # xs) = x # distinct_on key (dropWhile (\<lambda>y. key y = key x) xs)"
  by pat_completeness auto
termination by (relation "measure (length \<circ> snd)") (auto simp: le_imp_less_Suc length_dropWhile_le)

definition latest_sightings :: "(string \<Rightarrow> string \<Rightarrow> bool) \<Rightarrow> time \<Rightarrow> db \<Rightarrow> sighting list" where
  "latest_sightings tlt since s = distinct_on sighting_key (sort_by (sighting_before tlt) (sightings since s))"

definition ActiveDevices :: "(string \<Rightarrow> string \<Rightarrow> bool) \<Rightarrow> time \<Rightarrow> db \<Rightarrow> active_device list" where
  "ActiveDevices tlt since s =
     map (\<lambda>(o', d, p, a). \<lparr>ac_AccountID = or_AccountID o', ac_DeviceID = or_DeviceID o', ac_PersonID = dr_PersonID d,
            ac_PersonName = pr_DisplayName p, ac_DeviceName = dr_Name d\<rparr>) (latest_sightings tlt since s)"

section \<open>Sums per group\<close>

record usage_sum =
  us_PersonID :: string
  us_DeviceName :: string
  us_Model :: string
  us_Gateway :: string
  us_Tokens :: tokens
  us_Requests :: int

text \<open>The requests of an account within an instant and another, both included, with their devices.\<close>

definition account_requests :: "string \<Rightarrow> time \<Rightarrow> time \<Rightarrow> db \<Rightarrow> usage_row list" where
  "account_requests accountID start end s =
     filter (\<lambda>e. ur_AccountID e = accountID \<and> ur_OccurredAt e \<ge> start \<and> ur_OccurredAt e \<le> end) (db_usage s)"

definition Store_Usage :: "string \<Rightarrow> time \<Rightarrow> time \<Rightarrow> db \<Rightarrow> usage_sum list" where
  "Store_Usage accountID start end s =
     (let rows = filter (\<lambda>e. \<not> ur_ThirdParty e) (account_requests accountID start end s);
          joined = concat (map (\<lambda>e. map (\<lambda>d. (e, d)) (filter (\<lambda>d. dr_ID d = ur_DeviceID e) (db_devices s))) rows)
      in map (\<lambda>((person, name, model, gateway), g).
             \<lparr>us_PersonID = person, us_DeviceName = name, us_Model = model, us_Gateway = gateway,
              us_Tokens = token_sum (map fst g), us_Requests = int (length g)\<rparr>)
           (grouped (\<lambda>(e, d). (ur_PersonID e, dr_Name d, ur_Model e, ur_Gateway e)) joined))"

record timeline_row =
  tr_Bin :: int
  tr_PersonID :: string
  tr_Model :: string
  tr_ThirdParty :: bool
  tr_Gateway :: string
  tr_Tokens :: int

definition UsageTimeline :: "string \<Rightarrow> time \<Rightarrow> time \<Rightarrow> int \<Rightarrow> db \<Rightarrow> timeline_row list" where
  "UsageTimeline accountID start end binMinutes s =
     map (\<lambda>((bin, person, model, third, gateway), g).
           \<lparr>tr_Bin = bin, tr_PersonID = person, tr_Model = model, tr_ThirdParty = third, tr_Gateway = gateway,
            tr_Tokens = sum_list (map ledger_tokens g)\<rparr>)
       (grouped (\<lambda>e. ((ur_OccurredAt e - start) div (binMinutes * minute), ur_PersonID e, ur_Model e, ur_ThirdParty e, ur_Gateway e))
         (filter (\<lambda>e. ur_AccountID e = accountID \<and> ur_OccurredAt e \<ge> start \<and> ur_OccurredAt e < end) (db_usage s)))"

record third_party_row =
  th_Model :: string
  th_Gateway :: string
  th_Tokens :: tokens
  th_Requests :: int

definition ThirdPartyUsage :: "string \<Rightarrow> time \<Rightarrow> time \<Rightarrow> db \<Rightarrow> third_party_row list" where
  "ThirdPartyUsage accountID start end s =
     map (\<lambda>((model, gateway), g). \<lparr>th_Model = model, th_Gateway = gateway, th_Tokens = token_sum g, th_Requests = int (length g)\<rparr>)
       (grouped (\<lambda>e. (ur_Model e, ur_Gateway e)) (filter ur_ThirdParty (account_requests accountID start end s)))"

record person_usage =
  pg_Model :: string
  pg_Tokens :: tokens
  pg_Requests :: int

definition Store_PersonUsage :: "string \<Rightarrow> time \<Rightarrow> db \<Rightarrow> person_usage list" where
  "Store_PersonUsage personID since s =
     map (\<lambda>(model, g). \<lparr>pg_Model = model, pg_Tokens = token_sum g, pg_Requests = int (length g)\<rparr>)
       (grouped ur_Model (filter (\<lambda>e. ur_PersonID e = personID \<and> ur_OccurredAt e \<ge> since \<and> \<not> ur_ThirdParty e) (db_usage s)))"

record summary_row =
  sr_PersonID :: string
  sr_PersonName :: string
  sr_DeviceID :: string
  sr_AccountID :: string
  sr_Model :: string
  sr_Gateway :: string
  sr_ThirdParty :: bool
  sr_Tokens :: tokens
  sr_Requests :: int

definition UsageSummary :: "time \<Rightarrow> string \<Rightarrow> db \<Rightarrow> summary_row list" where
  "UsageSummary since personID s =
     (let rows = filter (\<lambda>e. ur_OccurredAt e \<ge> since \<and> (personID = [] \<or> ur_PersonID e = personID)) (db_usage s);
          joined = concat (map (\<lambda>e. map (\<lambda>p. (e, p)) (filter (\<lambda>p. pr_ID p = ur_PersonID e) (db_persons s))) rows)
      in map (\<lambda>((person, name, device, account, model, gateway, third), g).
             \<lparr>sr_PersonID = person, sr_PersonName = name, sr_DeviceID = device, sr_AccountID = account, sr_Model = model,
              sr_Gateway = gateway, sr_ThirdParty = third, sr_Tokens = token_sum (map fst g), sr_Requests = int (length g)\<rparr>)
           (grouped (\<lambda>(e, p). (ur_PersonID e, pr_DisplayName p, ur_DeviceID e, ur_AccountID e, ur_Model e, ur_Gateway e, ur_ThirdParty e))
             joined))"

section \<open>The latest sighting of each key\<close>

text \<open>The order of the database's collation, as the queries rely on it: a strict order in which two different texts are never tied.\<close>

locale collation =
  fixes tlt :: "string \<Rightarrow> string \<Rightarrow> bool"
  assumes irrefl: "\<not> tlt x x"
    and trans: "tlt x y \<Longrightarrow> tlt y z \<Longrightarrow> tlt x z"
    and linear: "x = y \<or> tlt x y \<or> tlt y x"
begin

lemma key_irrefl: "\<not> key_before tlt k k"
  using irrefl by (auto simp: key_before_def split: prod.splits)

lemma key_trans: "key_before tlt k l \<Longrightarrow> key_before tlt l m \<Longrightarrow> key_before tlt k m"
  using trans by (auto simp: key_before_def split: prod.splits)

lemma key_linear: "k = l \<or> key_before tlt k l \<or> key_before tlt l k"
  using linear by (auto simp: key_before_def split: prod.splits)

lemma sighting_weak: "strict_weak (sighting_before tlt)"
proof
  show "\<not> sighting_before tlt b a" if "sighting_before tlt a b" for a b
    using that key_irrefl key_trans unfolding sighting_before_def by (metis order.asym)
  show "\<not> sighting_before tlt c a" if "\<not> sighting_before tlt b a" "\<not> sighting_before tlt c b" for a b c
    using that key_irrefl key_trans key_linear unfolding sighting_before_def by (metis not_less_iff_gr_or_eq order.strict_trans)
qed

end

interpretation byte_order: collation "(<)"
  by unfold_locales auto

lemma dropWhile_other:
  assumes "sorted_wrt R (x # xs)"
    and "\<And>y z. y \<in> set xs \<Longrightarrow> z \<in> set xs \<Longrightarrow> R x y \<Longrightarrow> R y z \<Longrightarrow> key z = key x \<Longrightarrow> key y = key x"
  shows "set (dropWhile (\<lambda>y. key y = key x) xs) = {y \<in> set xs. key y \<noteq> key x}"
proof (cases "dropWhile (\<lambda>y. key y = key x) xs")
  case Nil
  then have "\<forall>y \<in> set xs. key y = key x" by (simp add: dropWhile_eq_Nil_conv)
  then show ?thesis unfolding Nil by auto
next
  case (Cons y ys)
  define tw where "tw = takeWhile (\<lambda>y. key y = key x) xs"
  have xs: "xs = tw @ y # ys" using takeWhile_dropWhile_id[of "\<lambda>y. key y = key x" xs] Cons by (simp add: tw_def)
  have tw: "\<forall>z \<in> set tw. key z = key x" by (auto simp: tw_def dest: set_takeWhileD)
  have y: "key y \<noteq> key x" using hd_dropWhile[of "\<lambda>y. key y = key x" xs] Cons by simp
  have R: "R x y" "\<forall>z \<in> set ys. R y z" using assms(1) by (simp_all add: xs sorted_wrt_append)
  have "key z \<noteq> key x" if "z \<in> set ys" for z
  proof -
    have "y \<in> set xs" "z \<in> set xs" "R y z" using that R by (simp_all add: xs)
    with assms(2)[of y z] R y show ?thesis by blast
  qed
  with y tw show ?thesis unfolding Cons by (auto simp: xs)
qed

lemma sorted_wrt_drop_while: "sorted_wrt R xs \<Longrightarrow> sorted_wrt R (dropWhile P xs)"
  by (induction xs) auto

lemma distinct_on_sorted:
  assumes "sorted_wrt R xs"
    and "\<And>x y z. x \<in> set xs \<Longrightarrow> y \<in> set xs \<Longrightarrow> z \<in> set xs \<Longrightarrow> R x y \<Longrightarrow> R y z \<Longrightarrow> key z = key x \<Longrightarrow> key y = key x"
  shows "distinct (map key (distinct_on key xs)) \<and> set (distinct_on key xs) \<subseteq> set xs \<and>
    key ` set (distinct_on key xs) = key ` set xs \<and>
    (\<forall>x \<in> set (distinct_on key xs). \<forall>y \<in> set xs. key y = key x \<longrightarrow> y = x \<or> R x y)"
  using assms
proof (induction key xs rule: distinct_on.induct)
  case (1 key)
  then show ?case by simp
next
  case (2 key x xs)
  let ?ds = "dropWhile (\<lambda>y. key y = key x) xs"
  have ds: "set ?ds = {y \<in> set xs. key y \<noteq> key x}"
  proof (rule dropWhile_other[OF 2(2)])
    show "key y = key x" if "y \<in> set xs" "z \<in> set xs" "R x y" "R y z" "key z = key x" for y z
      using 2(3)[of x y z] that by simp
  qed
  have "sorted_wrt R ?ds" using 2(2) by (simp add: sorted_wrt_drop_while)
  moreover have "key y = key x'" if "x' \<in> set ?ds" "y \<in> set ?ds" "z \<in> set ?ds" "R x' y" "R y z" "key z = key x'" for x' y z
    using 2(3)[of x' y z] that ds by auto
  ultimately have IH: "distinct (map key (distinct_on key ?ds)) \<and> set (distinct_on key ?ds) \<subseteq> set ?ds \<and>
    key ` set (distinct_on key ?ds) = key ` set ?ds \<and>
    (\<forall>x \<in> set (distinct_on key ?ds). \<forall>y \<in> set ?ds. key y = key x \<longrightarrow> y = x \<or> R x y)"
    by (rule 2(1))
  have other: "key x' \<noteq> key x" if "x' \<in> set (distinct_on key ?ds)" for x'
  proof -
    have "x' \<in> set ?ds" using IH that by blast
    then show ?thesis unfolding ds by simp
  qed
  then have "key x \<notin> key ` set (distinct_on key ?ds)" by (metis imageE)
  moreover have "key ` set (x # xs) = insert (key x) (key ` set ?ds)" using ds by auto
  moreover have "\<forall>y \<in> set xs. R x y" using 2(2) by simp
  moreover have late: "y = x' \<or> R x' y" if "x' \<in> set (distinct_on key ?ds)" "y \<in> set xs" "key y = key x'" for x' y
  proof -
    have "y \<in> set ?ds" using that(2,3) other[OF that(1)] unfolding ds by simp
    with IH that(1,3) show ?thesis by blast
  qed
  moreover have "\<forall>a \<in> set (x # distinct_on key ?ds). \<forall>b \<in> set (x # xs). key b = key a \<longrightarrow> b = a \<or> R a b"
  proof (intro ballI impI)
    fix a b assume ab: "a \<in> set (x # distinct_on key ?ds)" "b \<in> set (x # xs)" "key b = key a"
    show "b = a \<or> R a b"
    proof (cases "a = x")
      case True
      with ab(2) 2(2) show ?thesis by auto
    next
      case False
      with ab(1) have a: "a \<in> set (distinct_on key ?ds)" by simp
      with other[OF a] ab(2,3) have "b \<in> set xs" by auto
      with late[OF a] ab(3) show ?thesis by blast
    qed
  qed
  moreover have "set (x # distinct_on key ?ds) \<subseteq> set (x # xs)"
    using IH set_dropWhileD by fastforce
  moreover have "distinct (map key (x # distinct_on key ?ds))"
    using IH \<open>key x \<notin> key ` set (distinct_on key ?ds)\<close> by simp
  moreover have "key ` set (x # distinct_on key ?ds) = key ` set (x # xs)"
    using IH \<open>key ` set (x # xs) = insert (key x) (key ` set ?ds)\<close> by simp
  ultimately show ?case unfolding distinct_on.simps by (intro conjI)
qed

text \<open>
  The accounts in use are the latest sightings: per device, provider and app exactly one row,
  for every one of them that was seen in time on a device that is not revoked, and no later
  observation of the same device, provider and app is stored.
\<close>

theorem latest_sightings_correct:
  assumes "collation tlt"
  shows "distinct (map sighting_key (latest_sightings tlt since s)) \<and>
    set (latest_sightings tlt since s) \<subseteq> set (sightings since s) \<and>
    sighting_key ` set (latest_sightings tlt since s) = sighting_key ` set (sightings since s) \<and>
    (\<forall>x \<in> set (latest_sightings tlt since s). since \<le> sighting_time x \<and>
      (\<forall>y \<in> set (sightings since s). sighting_key y = sighting_key x \<longrightarrow> sighting_time y \<le> sighting_time x))"
proof -
  let ?lt = "sighting_before tlt"
  let ?R = "strict_weak.before ?lt"
  note weak = collation.sighting_weak[OF assms]
  have R: "?R x y \<longleftrightarrow> \<not> ?lt y x" for x y by (rule strict_weak.before_def[OF weak])
  have sorted: "sorted_wrt ?R (sort_by ?lt (sightings since s))" by (rule strict_weak.sorted_sort_by[OF weak])
  have convex: "sighting_key y = sighting_key x" if "?R x y" "?R y z" "sighting_key z = sighting_key x" for x y z
    using that collation.key_linear[OF assms] unfolding R sighting_before_def by metis
  define L where "L = sort_by ?lt (sightings since s)"
  have "distinct (map sighting_key (distinct_on sighting_key L)) \<and> set (distinct_on sighting_key L) \<subseteq> set L \<and>
    sighting_key ` set (distinct_on sighting_key L) = sighting_key ` set L \<and>
    (\<forall>x \<in> set (distinct_on sighting_key L). \<forall>y \<in> set L. sighting_key y = sighting_key x \<longrightarrow> y = x \<or> ?R x y)"
    by (rule distinct_on_sorted) (use sorted in \<open>simp add: L_def\<close>, erule (2) convex)
  moreover have "distinct_on sighting_key L = latest_sightings tlt since s" "set L = set (sightings since s)"
    by (simp_all add: L_def latest_sightings_def)
  ultimately have main: "distinct (map sighting_key (latest_sightings tlt since s)) \<and>
    set (latest_sightings tlt since s) \<subseteq> set (sightings since s) \<and>
    sighting_key ` set (latest_sightings tlt since s) = sighting_key ` set (sightings since s) \<and>
    (\<forall>x \<in> set (latest_sightings tlt since s). \<forall>y \<in> set (sightings since s).
      sighting_key y = sighting_key x \<longrightarrow> y = x \<or> ?R x y)"
    by simp
  have "since \<le> sighting_time x" if "x \<in> set (sightings since s)" for x
    using that by (auto simp: sightings_def sighting_time_def)
  moreover have "sighting_time y \<le> sighting_time x" if "sighting_key y = sighting_key x" "y = x \<or> ?R x y" for x y
    using that unfolding R sighting_before_def by auto
  ultimately show ?thesis using main by blast
qed

definition busy_db :: db where
  "busy_db = db4\<lparr>db_observations :=
     [\<lparr>or_DeviceID = ''d1'', or_AccountID = ''a'', or_Source = ''cli'', or_ObservedAt = 5\<rparr>,
      \<lparr>or_DeviceID = ''d1'', or_AccountID = ''a'', or_Source = ''cli'', or_ObservedAt = 9\<rparr>,
      \<lparr>or_DeviceID = ''d1'', or_AccountID = ''a'', or_Source = ''desktop'', or_ObservedAt = 7\<rparr>]\<rparr>"

theorem latest_sightings_correct_witness:
  "map sighting_time (latest_sightings (<) 5 busy_db) = [9, 7] \<and>
   distinct (map sighting_key (latest_sightings (<) 5 busy_db))"
proof
  show "map sighting_time (latest_sightings (<) 5 busy_db) = [9, 7]" by code_simp
  have "collation ((<) :: string \<Rightarrow> string \<Rightarrow> bool)" by (rule byte_order.collation_axioms)
  from latest_sightings_correct[OF this, of 5 busy_db]
  show "distinct (map sighting_key (latest_sightings (<) 5 busy_db))" by blast
qed

section \<open>Reports add up to the ledger\<close>

lemma filter_unique:
  assumes "distinct (map key xs)" "x \<in> set xs" "key x = k"
  shows "filter (\<lambda>y. key y = k) xs = [x]"
  using assms by (induction xs) (auto simp: filter_empty_conv image_iff)

lemma join_device:
  assumes "db_ok s" "e \<in> set (db_usage s)"
  shows "\<exists>d. filter (\<lambda>d. dr_ID d = ur_DeviceID e) (db_devices s) = [d]"
proof -
  obtain d where "d \<in> set (db_devices s)" "dr_ID d = ur_DeviceID e"
    using assms by (fastforce simp: db_ok_def usage_owned_def)
  moreover have "distinct (map dr_ID (db_devices s))" using assms by (simp add: db_ok_def usage_owned_def)
  ultimately show ?thesis using filter_unique[of dr_ID] by blast
qed

lemma map_fst_join:
  "(\<And>e. e \<in> set rows \<Longrightarrow> \<exists>d. f e = [d]) \<Longrightarrow> map fst (concat (map (\<lambda>e. map (\<lambda>d. (e, d)) (f e)) rows)) = rows"
proof (induction rows)
  case Nil
  then show ?case by simp
next
  case (Cons e rows)
  then obtain d where "f e = [d]" by auto
  with Cons show ?case by simp
qed

lemma Cost_token_sum: "(\<And>e. e \<in> set g \<Longrightarrow> ur_Model e = m) \<Longrightarrow>
    Cost m (token_sum g) = sum_list (map (\<lambda>e. Cost (ur_Model e) (ur_Tokens e)) g)"
  by (simp add: token_sum_def Cost_sum_tokens comp_def cong: map_cong)

lemma length_as_sum: "int (length g) = sum_list (map (\<lambda>_. 1) g)"
  by (simp add: sum_list_triv)

text \<open>
  C36. The reports add up to the ledger: in every database the operations can reach, the rows of
  an account's usage report hold exactly its own requests of the span and their exact cost, the
  third-party report holds exactly the other ones, and the chart's bins all its tokens. No
  request is counted twice or lost between the groups.
\<close>

theorem reports_add_up:
  assumes "server_step\<^sup>*\<^sup>* empty_db s"
  shows "let rows = account_requests a start end s; own = filter (\<lambda>e. \<not> ur_ThirdParty e) rows in
    sum_list (map us_Requests (Store_Usage a start end s)) = int (length own) \<and>
    sum_list (map (\<lambda>u. Cost (us_Model u) (us_Tokens u)) (Store_Usage a start end s)) =
      sum_list (map (\<lambda>e. Cost (ur_Model e) (ur_Tokens e)) own) \<and>
    sum_list (map th_Requests (ThirdPartyUsage a start end s)) = int (length rows) - int (length own) \<and>
    sum_list (map tr_Tokens (UsageTimeline a start end bin s)) =
      sum_list (map ledger_tokens (filter (\<lambda>e. ur_OccurredAt e < end) rows))"
proof -
  have ok: "db_ok s" using assms by (rule server.ok_reachable)
  define rows where "rows = account_requests a start end s"
  define own where "own = filter (\<lambda>e. \<not> ur_ThirdParty e) rows"
  define joined where "joined = concat (map (\<lambda>e. map (\<lambda>d. (e, d)) (filter (\<lambda>d. dr_ID d = ur_DeviceID e) (db_devices s))) own)"
  let ?key = "\<lambda>(e, d). (ur_PersonID e, dr_Name d, ur_Model e, ur_Gateway e)"
  have "set own \<subseteq> set (db_usage s)" by (auto simp: own_def rows_def account_requests_def)
  then have fst: "map fst joined = own" unfolding joined_def using join_device[OF ok] by (intro map_fst_join) blast
  have use: "map f (Store_Usage a start end s) = map (\<lambda>((p, n, m, gw), g). f \<lparr>us_PersonID = p, us_DeviceName = n,
      us_Model = m, us_Gateway = gw, us_Tokens = token_sum (map fst g), us_Requests = int (length g)\<rparr>) (grouped ?key joined)"
    for f :: "usage_sum \<Rightarrow> 'b"
    by (simp add: Store_Usage_def joined_def own_def rows_def Let_def comp_def case_prod_beta')
  have "sum_list (map us_Requests (Store_Usage a start end s)) = sum_list (map (\<lambda>_. 1) joined)"
    unfolding use by (rule sum_grouped_rows) (auto simp: length_as_sum split: prod.splits)
  moreover have "length joined = length own" using fst by (metis length_map)
  ultimately have 1: "sum_list (map us_Requests (Store_Usage a start end s)) = int (length own)"
    by (simp add: sum_list_triv)
  have "sum_list (map (\<lambda>u. Cost (us_Model u) (us_Tokens u)) (Store_Usage a start end s)) =
      sum_list (map (\<lambda>x. Cost (ur_Model (fst x)) (ur_Tokens (fst x))) joined)"
    unfolding use
  proof (rule sum_grouped_rows)
    fix k g assume "(k, g) \<in> set (grouped ?key joined)"
    then have g: "g = filter (\<lambda>x. ?key x = k) joined" by (simp add: grouped_rows)
    obtain p n m gw where k: "k = (p, n, m, gw)" by (cases k)
    have "Cost m (token_sum (map fst g)) = sum_list (map (\<lambda>e. Cost (ur_Model e) (ur_Tokens e)) (map fst g))"
      by (rule Cost_token_sum) (auto simp: g k)
    then show "(case k of (p, n, m, gw) \<Rightarrow> \<lambda>g. Cost (us_Model \<lparr>us_PersonID = p, us_DeviceName = n, us_Model = m,
        us_Gateway = gw, us_Tokens = token_sum (map fst g), us_Requests = int (length g)\<rparr>) (us_Tokens \<lparr>us_PersonID = p,
        us_DeviceName = n, us_Model = m, us_Gateway = gw, us_Tokens = token_sum (map fst g), us_Requests = int (length g)\<rparr>)) g =
      sum_list (map (\<lambda>x. Cost (ur_Model (fst x)) (ur_Tokens (fst x))) g)"
      by (simp add: k comp_def)
  qed
  also have "\<dots> = sum_list (map (\<lambda>e. Cost (ur_Model e) (ur_Tokens e)) own)"
    unfolding fst[symmetric] by (simp add: comp_def)
  finally have 2: "sum_list (map (\<lambda>u. Cost (us_Model u) (us_Tokens u)) (Store_Usage a start end s)) =
      sum_list (map (\<lambda>e. Cost (ur_Model e) (ur_Tokens e)) own)" .
  have "sum_list (map th_Requests (ThirdPartyUsage a start end s)) = sum_list (map (\<lambda>_. 1) (filter ur_ThirdParty rows))"
    unfolding ThirdPartyUsage_def rows_def[symmetric] map_map comp_def case_prod_beta'
    by (subst case_prod_beta'[symmetric], rule sum_grouped_rows) (simp add: length_as_sum)
  moreover have "length (filter ur_ThirdParty rows) + length own = length rows"
    unfolding own_def by (rule sum_length_filter_compl)
  ultimately have 3: "sum_list (map th_Requests (ThirdPartyUsage a start end s)) = int (length rows) - int (length own)"
    by (simp add: sum_list_triv)
  have 4: "sum_list (map tr_Tokens (UsageTimeline a start end bin s)) =
      sum_list (map ledger_tokens (filter (\<lambda>e. ur_OccurredAt e < end) rows))"
  proof -
    have span: "filter (\<lambda>e. ur_OccurredAt e < end) rows =
        filter (\<lambda>e. ur_AccountID e = a \<and> ur_OccurredAt e \<ge> start \<and> ur_OccurredAt e < end) (db_usage s)"
      by (auto simp: rows_def account_requests_def intro!: filter_cong)
    show ?thesis unfolding UsageTimeline_def span map_map comp_def case_prod_beta'
      by (subst case_prod_beta'[symmetric], rule sum_grouped_rows) simp
  qed
  from 1 2 3 4 show ?thesis by (simp add: rows_def own_def Let_def)
qed

theorem reports_add_up_witness:
  "sum_list (map us_Requests (Store_Usage ''a'' 0 9 db4)) = 1"
  using reports_add_up[OF db4_reachable, of "''a''" 0 9 1]
  by (simp add: Let_def) code_simp

end
