(* ===== verification/QueryUsage.thy ===== *)
theory QueryUsage
  imports ServerReports "HOL-Library.Word"
begin

text \<open>
  \<open>internal/server/query/usage.go\<close>: the usage reports of the console and of a member. The maps
  the report is built in are \<open>gomap\<close>s from the key to the line (the code keeps pointers to the
  lines, and nothing else refers to them); counters wrap at \<open>int64\<close>, costs are exact.
\<close>

section \<open>Periods\<close>

record period =
  pe_ID :: string
  pe_Hours :: int
  pe_Days :: int

definition Span :: "period \<Rightarrow> duration" where
  "Span p = wrap64 (pe_Hours p * hour + pe_Days p * 24 * hour)"

definition Periods :: "period list" where
  "Periods = [\<lparr>pe_ID = ''24h'', pe_Hours = 24, pe_Days = 0\<rparr>, \<lparr>pe_ID = ''7d'', pe_Hours = 0, pe_Days = 7\<rparr>,
     \<lparr>pe_ID = ''30d'', pe_Hours = 0, pe_Days = 30\<rparr>]"

definition PeriodByID :: "string \<Rightarrow> period" where
  "PeriodByID i = (case find (\<lambda>p. pe_ID p = i) Periods of Some p \<Rightarrow> p | None \<Rightarrow> last Periods)"

section \<open>Totals\<close>

record usage_line =
  ul_ID :: string
  ul_Name :: string
  ul_Provider :: string
  ul_Totals :: usage_totals

record model_line =
  ml_Model :: string
  ml_Gateway :: string
  ml_Totals :: usage_totals

record usage_report =
  re_Total :: usage_totals
  re_Members :: "usage_line list"
  re_Accounts :: "usage_line list"
  re_Models :: "model_line list"
  re_ThirdParty :: "model_line list"
  re_Devices :: "(string, usage_totals) gomap"
  re_DeviceLines :: "usage_line list"

definition addTotals :: "usage_totals \<Rightarrow> summary_row \<Rightarrow> f64 \<Rightarrow> usage_totals" where
  "addTotals u row cost =
     \<lparr>ut_Input = wrap64 (ut_Input u + tk_Input (sr_Tokens row)),
      ut_CachedInput = wrap64 (ut_CachedInput u + tk_CachedInput (sr_Tokens row)),
      ut_CacheWrite = wrap64 (ut_CacheWrite u + tk_CacheWrite (sr_Tokens row)),
      ut_Output = wrap64 (ut_Output u + tk_Output (sr_Tokens row)),
      ut_Requests = wrap64 (ut_Requests u + sr_Requests row),
      ut_CostUSD = ut_CostUSD u + cost\<rparr>"

text \<open>Adding to the line of a key, which is made when there is none.\<close>

definition named :: "string \<Rightarrow> string \<Rightarrow> summary_row \<Rightarrow> f64 \<Rightarrow> (string, usage_line) gomap \<Rightarrow> (string, usage_line) gomap" where
  "named i name row cost m =
     (let l = get_or \<lparr>ul_ID = i, ul_Name = name, ul_Provider = [], ul_Totals = zero_totals\<rparr> m i
      in put i (l\<lparr>ul_Totals := addTotals (ul_Totals l) row cost\<rparr>) m)"

definition line :: "string \<Rightarrow> string \<Rightarrow> string \<Rightarrow> summary_row \<Rightarrow> f64 \<Rightarrow> (string, model_line) gomap \<Rightarrow> (string, model_line) gomap" where
  "line key model gateway row cost m =
     (let l = get_or \<lparr>ml_Model = model, ml_Gateway = gateway, ml_Totals = zero_totals\<rparr> m key
      in put key (l\<lparr>ml_Totals := addTotals (ml_Totals l) row cost\<rparr>) m)"

definition modelKey :: "string \<Rightarrow> string \<Rightarrow> string" where
  "modelKey model gateway = gateway @ CHR 0x00 # model"

definition Tokens :: "usage_totals \<Rightarrow> int" where
  "Tokens u = wrap64 (ut_Input u + ut_CachedInput u + ut_CacheWrite u + ut_Output u)"

definition line_less :: "usage_line \<Rightarrow> usage_line \<Rightarrow> bool" where
  "line_less = desc_then_by (ut_CostUSD \<circ> ul_Totals) (\<lambda>a b. ul_Name a < ul_Name b)"

definition sortedLines :: "(string, usage_line) gomap \<Rightarrow> usage_line list" where
  "sortedLines m = sort_by line_less (map snd m)"

definition model_less :: "model_line \<Rightarrow> model_line \<Rightarrow> bool" where
  "model_less = desc_then_by (Tokens \<circ> ml_Totals) (then_by ml_Model (\<lambda>a b. ml_Gateway a < ml_Gateway b))"

definition sortedModels :: "(string, model_line) gomap \<Rightarrow> model_line list" where
  "sortedModels m = sort_by model_less (map snd m)"

section \<open>The report\<close>

record report_state =
  rs_Total :: usage_totals
  rs_Members :: "(string, usage_line) gomap"
  rs_Accounts :: "(string, usage_line) gomap"
  rs_Models :: "(string, model_line) gomap"
  rs_ThirdParty :: "(string, model_line) gomap"
  rs_Devices :: "(string, usage_totals) gomap"

definition report_row :: "summary_row \<Rightarrow> report_state \<Rightarrow> report_state" where
  "report_row row st =
     (let cost = Cost (sr_Model row) (sr_Tokens row); key = modelKey (sr_Model row) (sr_Gateway row) in
      if sr_ThirdParty row
      then st\<lparr>rs_ThirdParty := line key (sr_Model row) (sr_Gateway row) row 0 (rs_ThirdParty st)\<rparr>
      else st\<lparr>rs_Total := addTotals (rs_Total st) row cost,
              rs_Members := named (sr_PersonID row) (sr_PersonName row) row cost (rs_Members st),
              rs_Accounts := named (sr_AccountID row) [] row cost (rs_Accounts st),
              rs_Models := line key (sr_Model row) (sr_Gateway row) row cost (rs_Models st),
              rs_Devices := put (sr_DeviceID row) (addTotals (get_or zero_totals (rs_Devices st) (sr_DeviceID row)) row cost)
                (rs_Devices st)\<rparr>)"

definition name_account :: "account \<Rightarrow> (string, usage_line) gomap \<Rightarrow> (string, usage_line) gomap" where
  "name_account a m =
     (case map_of m (acc_ID a) of
        None \<Rightarrow> m
      | Some l \<Rightarrow> put (acc_ID a) (l\<lparr>ul_Name := acc_Label a, ul_Provider := acc_Provider a\<rparr>) m)"

definition usageSince :: "(string \<Rightarrow> string \<Rightarrow> bool) \<Rightarrow> time \<Rightarrow> string \<Rightarrow> db \<Rightarrow> usage_report" where
  "usageSince tlt since personID s =
     (let st = fold report_row (UsageSummary since personID s)
            \<lparr>rs_Total = zero_totals, rs_Members = [], rs_Accounts = [], rs_Models = [], rs_ThirdParty = [], rs_Devices = []\<rparr>;
          byAccount = fold name_account (Accounts tlt s) (rs_Accounts st)
      in \<lparr>re_Total = rs_Total st, re_Members = sortedLines (rs_Members st), re_Accounts = sortedLines byAccount,
          re_Models = sortedModels (rs_Models st), re_ThirdParty = sortedModels (rs_ThirdParty st),
          re_Devices = rs_Devices st, re_DeviceLines = []\<rparr>)"

definition Usage :: "(string \<Rightarrow> string \<Rightarrow> bool) \<Rightarrow> time \<Rightarrow> db \<Rightarrow> usage_report" where
  "Usage tlt since s = usageSince tlt since [] s"

definition UsageBy :: "(string \<Rightarrow> string \<Rightarrow> bool) \<Rightarrow> time \<Rightarrow> string \<Rightarrow> db \<Rightarrow> usage_report" where
  "UsageBy tlt since personID s =
     (let r = usageSince tlt since personID s;
          lines = fold (\<lambda>d m. case map_of (re_Devices r) (dev_ID (dl_Device d)) of
              None \<Rightarrow> m
            | Some t \<Rightarrow> put (dev_ID (dl_Device d)) \<lparr>ul_ID = dev_ID (dl_Device d), ul_Name = dev_Name (dl_Device d),
                ul_Provider = [], ul_Totals = t\<rparr> m) (Devices tlt s) []
      in r\<lparr>re_DeviceLines := sortedLines lines\<rparr>)"

definition MemberUsage ::
  "(string \<Rightarrow> string \<Rightarrow> bool) \<Rightarrow> string \<Rightarrow> string \<Rightarrow> period \<Rightarrow> time \<Rightarrow> db \<Rightarrow> store_error + member_usage" where
  "MemberUsage tlt viewerID personID period now s =
     (case Person personID s of
        Inl err \<Rightarrow> Inl err
      | Inr p \<Rightarrow>
          (let r = UsageBy tlt (now - Span period) personID s;
               model = (\<lambda>m. \<lparr>mt_Model = ml_Model m, mt_Gateway = ml_Gateway m, mt_Totals = ml_Totals m\<rparr>)
           in Inr \<lparr>mu_PersonID = p_ID p, mu_Name = p_DisplayName p, mu_IsYou = (p_ID p = viewerID),
                mu_Period = pe_ID period, mu_Total = re_Total r,
                mu_Accounts = map (\<lambda>a. \<lparr>au_ID = ul_ID a, au_Provider = ul_Provider a, au_Label = ul_Name a,
                  au_Totals = ul_Totals a\<rparr>) (re_Accounts r),
                mu_Models = map model (re_Models r),
                mu_ThirdParty = map model (re_ThirdParty r),
                mu_Devices = map (\<lambda>d. \<lparr>du_Name = ul_Name d, du_Totals = ul_Totals d\<rparr>) (re_DeviceLines r)\<rparr>))"

section \<open>The parts of a report add up\<close>

text \<open>A wrapping counter read as a 64-bit word turns wrapped sums into plain ones.\<close>

definition word64 :: "int \<Rightarrow> 64 word" where "word64 = word_of_int"

lemma sint_word64: "sint (word64 x) = wrap64 x"
  by (simp add: word64_def wrap64_def sint_sbintrunc' signed_take_bit_eq_take_bit_shift take_bit_eq_mod)

lemma word64_wrap [simp]: "word64 (wrap64 x) = word64 x"
  unfolding sint_word64[symmetric] by (simp add: word64_def)

lemma wrap64_eq_iff: "wrap64 x = wrap64 y \<longleftrightarrow> word64 x = word64 y"
  by (metis sint_word64 word64_wrap)

lemma word64_add: "word64 (a + b) = word64 a + word64 b"
  by (simp add: word64_def)

lemma word64_zero [simp]: "word64 0 = 0"
  by (simp add: word64_def)

lemma word64_sum: "word64 (sum_list (map f xs)) = sum_list (map (\<lambda>x. word64 (f x)) xs)"
  by (induction xs) (simp_all add: word64_add)

lemma sum_put:
  fixes f :: "'v \<Rightarrow> 'b::ab_group_add"
  assumes "wf_map m"
  shows "sum_list (map f (map snd (put k v m))) =
    sum_list (map f (map snd m)) - (case map_of m k of None \<Rightarrow> 0 | Some w \<Rightarrow> f w) + f v"
  using assms by (induction m) (auto simp: algebra_simps map_of_eq_None_iff split: option.splits)

text \<open>One figure of the totals, in the group its sums are exact in: what a row adds to it.\<close>

locale counter =
  fixes figure :: "usage_totals \<Rightarrow> 'b::ab_group_add"
    and part :: "summary_row \<Rightarrow> f64 \<Rightarrow> 'b"
  assumes zero: "figure zero_totals = 0"
    and add: "figure (addTotals u row c) = figure u + part row c"
begin

definition lines_sum :: "(string, usage_line) gomap \<Rightarrow> 'b" where
  "lines_sum m = sum_list (map (figure \<circ> ul_Totals) (map snd m))"

definition models_sum :: "(string, model_line) gomap \<Rightarrow> 'b" where
  "models_sum m = sum_list (map (figure \<circ> ml_Totals) (map snd m))"

lemma named_sum: "wf_map m \<Longrightarrow> lines_sum (named i n row c m) = lines_sum m + part row c"
  by (simp add: lines_sum_def named_def Let_def sum_put del: map_map)
    (auto simp: get_or_def add zero split: option.splits)

lemma line_sum: "wf_map m \<Longrightarrow> models_sum (line key md gw row c m) = models_sum m + part row c"
  by (simp add: models_sum_def line_def Let_def sum_put del: map_map)
    (auto simp: get_or_def add zero split: option.splits)

lemma device_sum:
  "wf_map m \<Longrightarrow> sum_list (map figure (map snd (put k (addTotals (get_or zero_totals m k) row c) m))) =
    sum_list (map figure (map snd m)) + part row c"
  by (simp add: sum_put del: map_map) (auto simp: get_or_def add zero split: option.splits)

definition own_sum :: "summary_row list \<Rightarrow> 'b" where
  "own_sum rows = sum_list (map (\<lambda>row. part row (Cost (sr_Model row) (sr_Tokens row))) (filter (\<lambda>row. \<not> sr_ThirdParty row) rows))"

lemma report_fold:
  assumes "wf_map (rs_Members st)" "wf_map (rs_Accounts st)" "wf_map (rs_Models st)" "wf_map (rs_Devices st)"
  shows "figure (rs_Total (fold report_row rows st)) = figure (rs_Total st) + own_sum rows \<and>
    lines_sum (rs_Members (fold report_row rows st)) = lines_sum (rs_Members st) + own_sum rows \<and>
    lines_sum (rs_Accounts (fold report_row rows st)) = lines_sum (rs_Accounts st) + own_sum rows \<and>
    models_sum (rs_Models (fold report_row rows st)) = models_sum (rs_Models st) + own_sum rows \<and>
    sum_list (map figure (map snd (rs_Devices (fold report_row rows st)))) =
      sum_list (map figure (map snd (rs_Devices st))) + own_sum rows"
  using assms
proof (induction rows arbitrary: st)
  case Nil
  then show ?case by (simp add: own_sum_def)
next
  case (Cons row rows)
  let ?st = "report_row row st"
  have wf: "wf_map (rs_Members ?st)" "wf_map (rs_Accounts ?st)" "wf_map (rs_Models ?st)" "wf_map (rs_Devices ?st)"
    using Cons.prems by (simp_all add: report_row_def named_def line_def Let_def)
  show ?case
    using Cons.IH[OF wf] Cons.prems
    by (simp add: report_row_def own_sum_def Let_def named_sum line_sum device_sum add add.assoc del: map_map)
qed

lemma name_account_sum: "wf_map m \<Longrightarrow> wf_map (name_account a m) \<and> lines_sum (name_account a m) = lines_sum m"
  by (auto simp: name_account_def lines_sum_def sum_put simp del: map_map split: option.split)

lemma name_accounts_sum: "wf_map m \<Longrightarrow> wf_map (fold name_account as m) \<and> lines_sum (fold name_account as m) = lines_sum m"
  by (induction as arbitrary: m) (simp_all add: name_account_sum)

lemma sortedLines_sum: "sum_list (map (figure \<circ> ul_Totals) (sortedLines m)) = lines_sum m"
  by (simp add: sortedLines_def lines_sum_def)

lemma sortedModels_sum: "sum_list (map (figure \<circ> ml_Totals) (sortedModels m)) = models_sum m"
  by (simp add: sortedModels_def models_sum_def)

text \<open>Every list of parts of a report has the total, which is what the rows have.\<close>

lemma report_sums:
  fixes tlt since p s
  defines "r \<equiv> usageSince tlt since p s"
  shows "figure (re_Total r) = own_sum (UsageSummary since p s) \<and>
    sum_list (map (figure \<circ> ul_Totals) (re_Members r)) = figure (re_Total r) \<and>
    sum_list (map (figure \<circ> ul_Totals) (re_Accounts r)) = figure (re_Total r) \<and>
    sum_list (map (figure \<circ> ml_Totals) (re_Models r)) = figure (re_Total r) \<and>
    sum_list (map (figure \<circ> snd) (re_Devices r)) = figure (re_Total r)"
proof -
  define st0 where "st0 = \<lparr>rs_Total = zero_totals, rs_Members = [], rs_Accounts = [], rs_Models = [], rs_ThirdParty = [], rs_Devices = []\<rparr>"
  define st where "st = fold report_row (UsageSummary since p s) st0"
  have wf: "wf_map (rs_Members st0)" "wf_map (rs_Accounts st0)" "wf_map (rs_Models st0)" "wf_map (rs_Devices st0)"
    by (simp_all add: st0_def)
  have "wf_map (rs_Accounts (fold report_row rows st'))" if "wf_map (rs_Accounts st')" for rows st'
    using that by (induction rows arbitrary: st') (simp_all add: report_row_def named_def Let_def)
  with wf have "wf_map (rs_Accounts st)" by (simp add: st_def)
  with report_fold[OF wf, of "UsageSummary since p s"] show ?thesis
    by (simp add: r_def usageSince_def Let_def flip: st0_def st_def
        add: sortedLines_sum sortedModels_sum name_accounts_sum)
      (simp add: st0_def lines_sum_def models_sum_def zero comp_def)
qed

end

interpretation cost_counter: counter ut_CostUSD "\<lambda>row c. c"
  by unfold_locales (simp_all add: zero_totals_def addTotals_def)

interpretation request_counter: counter "\<lambda>u. word64 (ut_Requests u)" "\<lambda>row c. word64 (sr_Requests row)"
  by unfold_locales (simp_all add: zero_totals_def addTotals_def word64_add)

interpretation input_counter: counter "\<lambda>u. word64 (ut_Input u)" "\<lambda>row c. word64 (tk_Input (sr_Tokens row))"
  by unfold_locales (simp_all add: zero_totals_def addTotals_def word64_add)

interpretation cached_counter: counter "\<lambda>u. word64 (ut_CachedInput u)" "\<lambda>row c. word64 (tk_CachedInput (sr_Tokens row))"
  by unfold_locales (simp_all add: zero_totals_def addTotals_def word64_add)

interpretation write_counter: counter "\<lambda>u. word64 (ut_CacheWrite u)" "\<lambda>row c. word64 (tk_CacheWrite (sr_Tokens row))"
  by unfold_locales (simp_all add: zero_totals_def addTotals_def word64_add)

interpretation output_counter: counter "\<lambda>u. word64 (ut_Output u)" "\<lambda>row c. word64 (tk_Output (sr_Tokens row))"
  by unfold_locales (simp_all add: zero_totals_def addTotals_def word64_add)

text \<open>The parts and the whole, counter by counter; the cost exactly and the counters as they wrap.\<close>

definition adds_up :: "usage_totals list \<Rightarrow> usage_totals \<Rightarrow> bool" where
  "adds_up parts whole \<longleftrightarrow>
     ut_CostUSD whole = sum_list (map ut_CostUSD parts) \<and>
     wrap64 (ut_Requests whole) = wrap64 (sum_list (map ut_Requests parts)) \<and>
     wrap64 (ut_Input whole) = wrap64 (sum_list (map ut_Input parts)) \<and>
     wrap64 (ut_CachedInput whole) = wrap64 (sum_list (map ut_CachedInput parts)) \<and>
     wrap64 (ut_CacheWrite whole) = wrap64 (sum_list (map ut_CacheWrite parts)) \<and>
     wrap64 (ut_Output whole) = wrap64 (sum_list (map ut_Output parts))"

definition totals_of_row :: "summary_row \<Rightarrow> usage_totals" where
  "totals_of_row row = \<lparr>ut_Input = tk_Input (sr_Tokens row), ut_CachedInput = tk_CachedInput (sr_Tokens row),
     ut_CacheWrite = tk_CacheWrite (sr_Tokens row), ut_Output = tk_Output (sr_Tokens row), ut_Requests = sr_Requests row,
     ut_CostUSD = Cost (sr_Model row) (sr_Tokens row)\<rparr>"

lemmas report_sums_all = cost_counter.report_sums request_counter.report_sums input_counter.report_sums
  cached_counter.report_sums write_counter.report_sums output_counter.report_sums

lemmas own_sums = cost_counter.own_sum_def request_counter.own_sum_def input_counter.own_sum_def
  cached_counter.own_sum_def write_counter.own_sum_def output_counter.own_sum_def

lemma third_party_cost:
  "(\<forall>l \<in> snd ` set (rs_ThirdParty st). ut_CostUSD (ml_Totals l) = 0) \<Longrightarrow>
   \<forall>l \<in> snd ` set (rs_ThirdParty (fold report_row rows st)). ut_CostUSD (ml_Totals l) = 0"
proof (induction rows arbitrary: st)
  case Nil
  then show ?case by simp
next
  case (Cons row rows)
  have put: "snd ` set (put k v m) \<subseteq> insert v (snd ` set m)" for k and v :: model_line and m
    by (induction m) auto
  have get: "ut_CostUSD (ml_Totals (get_or \<lparr>ml_Model = a, ml_Gateway = b, ml_Totals = zero_totals\<rparr> (rs_ThirdParty st) k)) = 0" for a b k
    using Cons.prems by (auto simp: get_or_def zero_totals_def image_iff dest!: map_of_SomeD split: option.splits)
  have "\<forall>l \<in> snd ` set (rs_ThirdParty (report_row row st)). ut_CostUSD (ml_Totals l) = 0"
  proof (cases "sr_ThirdParty row")
    case True
    define v where "v = (let l = get_or \<lparr>ml_Model = sr_Model row, ml_Gateway = sr_Gateway row, ml_Totals = zero_totals\<rparr>
      (rs_ThirdParty st) (modelKey (sr_Model row) (sr_Gateway row)) in l\<lparr>ml_Totals := addTotals (ml_Totals l) row 0\<rparr>)"
    have v: "ut_CostUSD (ml_Totals v) = 0" by (simp add: v_def Let_def addTotals_def get)
    have "rs_ThirdParty (report_row row st) = put (modelKey (sr_Model row) (sr_Gateway row)) v (rs_ThirdParty st)"
      using True by (simp add: report_row_def line_def v_def Let_def)
    then have "snd ` set (rs_ThirdParty (report_row row st)) \<subseteq> insert v (snd ` set (rs_ThirdParty st))" by (simp add: put)
    with v Cons.prems show ?thesis by blast
  next
    case False
    with Cons.prems show ?thesis by (simp add: report_row_def Let_def)
  qed
  from Cons.IH[OF this] show ?case by simp
qed

lemma sorted_by_cost: "sorted_wrt (\<lambda>a b. ut_CostUSD (ul_Totals b) \<le> ut_CostUSD (ul_Totals a)) (sortedLines m)"
proof -
  have weak: "strict_weak line_less" unfolding line_less_def
    by (rule strict_weak_desc_then_by) (rule strict_weak_key)
  have "sorted_wrt (strict_weak.before line_less) (sortedLines m)"
    unfolding sortedLines_def by (rule strict_weak.sorted_sort_by[OF weak])
  moreover have "ut_CostUSD (ul_Totals b) \<le> ut_CostUSD (ul_Totals a)" if "strict_weak.before line_less a b" for a b
    using that unfolding strict_weak.before_def[OF weak] by (auto simp: line_less_def desc_then_by_def split: if_splits)
  ultimately show ?thesis by (rule sorted_wrt_mono_rel[rotated])
qed

text \<open>
  A usage report adds up: its members, its accounts, its models and its devices each hold
  the total, cost by cost and counter by counter, and the total is what the summed rows of the
  quota's own models hold. Third-party models are listed apart at no cost, and members and
  accounts come most costly first.
\<close>

theorem usage_report_adds_up:
  "let r = usageSince tlt since p s in
     adds_up (map totals_of_row (filter (\<lambda>row. \<not> sr_ThirdParty row) (UsageSummary since p s))) (re_Total r) \<and>
     adds_up (map ul_Totals (re_Members r)) (re_Total r) \<and>
     adds_up (map ul_Totals (re_Accounts r)) (re_Total r) \<and>
     adds_up (map ml_Totals (re_Models r)) (re_Total r) \<and>
     adds_up (map snd (re_Devices r)) (re_Total r) \<and>
     list_all (\<lambda>l. ut_CostUSD (ml_Totals l) = 0) (re_ThirdParty r) \<and>
     sorted_wrt (\<lambda>a b. ut_CostUSD (ul_Totals b) \<le> ut_CostUSD (ul_Totals a)) (re_Members r) \<and>
     sorted_wrt (\<lambda>a b. ut_CostUSD (ul_Totals b) \<le> ut_CostUSD (ul_Totals a)) (re_Accounts r)"
proof -
  define r where "r = usageSince tlt since p s"
  note sums = report_sums_all[where tlt = tlt and since = since and p = p and s = s, folded r_def]
  have "adds_up (map totals_of_row (filter (\<lambda>row. \<not> sr_ThirdParty row) (UsageSummary since p s))) (re_Total r)"
    using sums by (simp add: adds_up_def own_sums wrap64_eq_iff word64_sum totals_of_row_def comp_def)
  moreover have "adds_up (map ul_Totals (re_Members r)) (re_Total r)" "adds_up (map ul_Totals (re_Accounts r)) (re_Total r)"
    "adds_up (map ml_Totals (re_Models r)) (re_Total r)" "adds_up (map snd (re_Devices r)) (re_Total r)"
    using sums by (simp_all add: adds_up_def wrap64_eq_iff word64_sum comp_def)
  moreover have "list_all (\<lambda>l. ut_CostUSD (ml_Totals l) = 0) (re_ThirdParty r)"
    using third_party_cost[of "\<lparr>rs_Total = zero_totals, rs_Members = [], rs_Accounts = [], rs_Models = [], rs_ThirdParty = [], rs_Devices = []\<rparr>"]
    by (auto simp: r_def usageSince_def Let_def sortedModels_def list_all_iff)
  moreover have "sorted_wrt (\<lambda>a b. ut_CostUSD (ul_Totals b) \<le> ut_CostUSD (ul_Totals a)) (re_Members r)"
    "sorted_wrt (\<lambda>a b. ut_CostUSD (ul_Totals b) \<le> ut_CostUSD (ul_Totals a)) (re_Accounts r)"
    using sorted_by_cost by (simp_all add: r_def usageSince_def Let_def)
  ultimately show ?thesis unfolding Let_def r_def by blast
qed

end
