(* ===== verification/QueryOverview.thy ===== *)
theory QueryOverview
  imports QueryUsage
begin

text \<open>
  \<open>internal/server/query/overview.go\<close>: what the desktop popup and the console show of every
  account - its quota windows, each member's allotment and estimated use, its chart, and who is
  signed in. The queries read one state of the database and, over it, cannot fail. A map that is
  iterated gives its entries in the order of the list; the sort that follows makes that order
  count only between entries it ties.
\<close>

definition snapshotLookback :: duration where "snapshotLookback = 8 * 24 * hour"
definition ActiveWindow :: duration where "ActiveWindow = 15 * minute"
definition resetStarted :: duration where "resetStarted = 2 * minute"

section \<open>People signed in\<close>

definition user_less :: "active_user \<Rightarrow> active_user \<Rightarrow> bool" where
  "user_less a b = (if av_IsYou a \<noteq> av_IsYou b then av_IsYou a else av_Name a < av_Name b)"

definition add_device :: "string \<Rightarrow> active_device \<Rightarrow> (string, active_user list) gomap \<Rightarrow> (string, active_user list) gomap" where
  "add_device viewer d byAccount =
     (let users = get_or [] byAccount (ac_AccountID d);
          users = (if list_ex (\<lambda>u. av_PersonID u = ac_PersonID d) users then users
                   else users @ [\<lparr>av_PersonID = ac_PersonID d, av_Name = ac_PersonName d,
                          av_IsYou = (ac_PersonID d = viewer), av_Devices = []\<rparr>]);
          i = length (takeWhile (\<lambda>u. av_PersonID u \<noteq> ac_PersonID d) users)
      in put (ac_AccountID d) (users[i := (users ! i)\<lparr>av_Devices := av_Devices (users ! i) @ [ac_DeviceName d]\<rparr>]) byAccount)"

text \<open>\<open>slices.Compact\<close> drops an element equal to the one before it.\<close>

definition tidy_user :: "active_user \<Rightarrow> active_user" where
  "tidy_user u = u\<lparr>av_Devices := remdups_adj (sort_by (<) (av_Devices u))\<rparr>"

definition groupActiveUsers :: "active_device list \<Rightarrow> string \<Rightarrow> (string, active_user list) gomap" where
  "groupActiveUsers devices viewer =
     map (\<lambda>(a, users). (a, sort_by user_less (map tidy_user users))) (fold (add_device viewer) devices [])"

definition usedByViewer :: "account_overview \<Rightarrow> bool" where
  "usedByViewer a = list_ex av_IsYou (ao_ActiveUsers a)"

section \<open>The order of the windows\<close>

definition bucketOrder :: "(bucket_key, int) gomap" where
  "bucketOrder = [(BucketFiveHour, 0), (BucketWeekly, 1), (FiveHourModelBucket ''gemini'', 2), (FiveHourModelBucket ''claude'', 3)]"

definition bucket_less :: "observed \<Rightarrow> observed \<Rightarrow> bool" where
  "bucket_less a b =
     (let oi = get_or 0 bucketOrder (od_Key a); iKnown = has_key bucketOrder (od_Key a);
          oj = get_or 0 bucketOrder (od_Key b); jKnown = has_key bucketOrder (od_Key b)
      in if iKnown \<noteq> jKnown then iKnown else if oi \<noteq> oj then oi < oj else od_Key a < od_Key b)"

definition sortedBuckets :: "(bucket_key, observed) gomap \<Rightarrow> observed list" where
  "sortedBuckets latest = sort_by bucket_less (map snd latest)"

section \<open>One window\<close>

record window_costs =
  wc_Costs :: "(string, f64) gomap"
  wc_Requests :: "(string, int) gomap"
  wc_Models :: "(string, model_usage) gomap"
  wc_ModelCosts :: "(string, f64) gomap"
  wc_PersonModelCosts :: "(string, (string, f64) gomap) gomap"
  wc_PersonDeviceCosts :: "(string, (string, f64) gomap) gomap"
  wc_TotalCost :: f64

definition no_costs :: window_costs where
  "no_costs = \<lparr>wc_Costs = [], wc_Requests = [], wc_Models = [], wc_ModelCosts = [], wc_PersonModelCosts = [],
     wc_PersonDeviceCosts = [], wc_TotalCost = 0\<rparr>"

definition count_row :: "usage_sum \<Rightarrow> window_costs \<Rightarrow> window_costs" where
  "count_row r c =
     (let cost = Cost (us_Model r) (us_Tokens r); key = modelKey (us_Model r) (us_Gateway r); t = us_Tokens r;
          m = get_or \<lparr>mo_Model = us_Model r, mo_Gateway = us_Gateway r, mo_Requests = 0, mo_Tokens = 0, mo_UsedPercent = 0\<rparr> (wc_Models c) key;
          m = m\<lparr>mo_Requests := wrap64 (mo_Requests m + us_Requests r),
                mo_Tokens := wrap64 (mo_Tokens m + (tk_Input t + tk_CachedInput t + tk_CacheWrite t + tk_Output t))\<rparr>
      in \<lparr>wc_Costs = bump (us_PersonID r) cost 0 (wc_Costs c),
          wc_Requests = put (us_PersonID r) (wrap64 (get_or 0 (wc_Requests c) (us_PersonID r) + us_Requests r)) (wc_Requests c),
          wc_Models = put key m (wc_Models c),
          wc_ModelCosts = bump key cost 0 (wc_ModelCosts c),
          wc_PersonModelCosts = put (us_PersonID r) (bump key cost 0 (get_or [] (wc_PersonModelCosts c) (us_PersonID r))) (wc_PersonModelCosts c),
          wc_PersonDeviceCosts = put (us_PersonID r) (bump (us_DeviceName r) cost 0 (get_or [] (wc_PersonDeviceCosts c) (us_PersonID r)))
            (wc_PersonDeviceCosts c),
          wc_TotalCost = wc_TotalCost c + cost\<rparr>)"

definition model_usage_less :: "model_usage \<Rightarrow> model_usage \<Rightarrow> bool" where
  "model_usage_less = desc_then_by mo_UsedPercent (then_by mo_Model (\<lambda>a b. mo_Gateway a < mo_Gateway b))"

definition device_less :: "member_device \<Rightarrow> member_device \<Rightarrow> bool" where
  "device_less = desc_then_by md_UsedPercent (\<lambda>a b. md_Name a < md_Name b)"

definition member_less :: "member_share \<Rightarrow> member_share \<Rightarrow> bool" where
  "member_less = desc_then_by mh_UsedPercent (\<lambda>a b. mh_Name a < mh_Name b)"

definition model_shares :: "f64 \<Rightarrow> window_costs \<Rightarrow> model_usage list" where
  "model_shares usedPercent c =
     sort_by model_usage_less
       (map (\<lambda>(key, m). if wc_TotalCost c > 0
               then m\<lparr>mo_UsedPercent := usedPercent * get_or 0 (wc_ModelCosts c) key / wc_TotalCost c\<rparr> else m) (wc_Models c))"

definition member_share_of ::
  "f64 \<Rightarrow> window_costs \<Rightarrow> model_usage list \<Rightarrow> (string, f64) gomap \<Rightarrow> (string, string) gomap \<Rightarrow> string \<Rightarrow> string \<times> share \<Rightarrow> member_share" where
  "member_share_of usedPercent c models weights names viewer ps =
     (let (person, s) = ps;
          byModel = get_or [] (wc_PersonModelCosts c) person;
          byDevice = get_or [] (wc_PersonDeviceCosts c) person;
          part = (\<lambda>x. usedPercent * x / wc_TotalCost c)
      in \<lparr>mh_PersonID = person, mh_Name = get_or [] names person, mh_IsYou = (person = viewer),
          mh_ShareWeight = get_or 0 weights person, mh_AllottedPercent = sh_AllottedPercent s,
          mh_UsedPercent = sh_UsedPercent s, mh_Requests = get_or 0 (wc_Requests c) person,
          mh_Models = map (\<lambda>m. \<lparr>mm_Model = mo_Model m, mm_Gateway = mo_Gateway m,
              mm_UsedPercent = part (get_or 0 byModel (modelKey (mo_Model m) (mo_Gateway m)))\<rparr>)
            (filter (\<lambda>m. get_or 0 byModel (modelKey (mo_Model m) (mo_Gateway m)) > 0 \<and> wc_TotalCost c > 0) models),
          mh_Devices = sort_by device_less (map (\<lambda>(name, x). \<lparr>md_Name = name, md_UsedPercent = part x\<rparr>)
            (filter (\<lambda>(name, x). x > 0 \<and> wc_TotalCost c > 0) byDevice))\<rparr>)"

definition bucketOverview :: "observed \<Rightarrow> time \<Rightarrow> member list \<Rightarrow> usage_sum list \<Rightarrow> string \<Rightarrow> bucket_overview" where
  "bucketOverview b now members rows viewer =
     (let reset = HasReset b now;
          used = (if reset then 0 else case bk_UsedPercent (od_Bucket b) of None \<Rightarrow> 0 | Some u \<Rightarrow> u);
          c = (if reset then no_costs else fold count_row rows no_costs);
          models = model_shares used c;
          weights = fold (\<lambda>m. put (mem_PersonID m) (mem_ShareWeight m)) members [];
          names = fold (\<lambda>m. put (mem_PersonID m) (mem_Name m)) members [];
          (shares, unattributed) = Apportion used (wc_Costs c) weights
      in \<lparr>bo_Key = od_Key b, bo_UsedPercent = used, bo_ResetsAt = bk_ResetsAt (od_Bucket b),
          bo_WindowMinutes = (case bk_WindowMinutes (od_Bucket b) of None \<Rightarrow> 0 | Some m \<Rightarrow> m),
          bo_ObservedAt = od_ObservedAt b, bo_Reset = reset, bo_UnattributedPercent = unattributed,
          bo_Members = sort_by member_less (map (member_share_of used c models weights names viewer) shares),
          bo_Models = models, bo_ThirdPartyModels = [], bo_Timeline = None\<rparr>)"

section \<open>Third-party models\<close>

definition third_party_less :: "model_usage \<Rightarrow> model_usage \<Rightarrow> bool" where
  "third_party_less = desc_then_by mo_Tokens (then_by mo_Model (\<lambda>a b. mo_Gateway a < mo_Gateway b))"

definition thirdPartyModels :: "string \<Rightarrow> time \<Rightarrow> time \<Rightarrow> db \<Rightarrow> model_usage list" where
  "thirdPartyModels accountID start end s =
     sort_by third_party_less
       (map (\<lambda>r. let t = th_Tokens r in
          \<lparr>mo_Model = th_Model r, mo_Gateway = th_Gateway r, mo_Requests = th_Requests r,
           mo_Tokens = wrap64 (tk_Input t + tk_CachedInput t + tk_CacheWrite t + tk_Output t), mo_UsedPercent = 0\<rparr>)
         (ThirdPartyUsage accountID start end s))"

section \<open>The chart\<close>

definition timelineBinMinutes :: "int \<Rightarrow> int" where
  "timelineBinMinutes windowMinutes =
     (if windowMinutes \<le> 6 * 60 then 1 else if windowMinutes \<le> 24 * 60 then 5 else 30)"

record past_reading =
  pst_Observed :: time
  pst_Resets :: time
  pst_Window :: duration

definition past_readings :: "snapshot list \<Rightarrow> bucket_key \<Rightarrow> past_reading list" where
  "past_readings snaps key =
     concat (map (\<lambda>sn. concat (map (\<lambda>b. case (bk_ResetsAt b, bk_WindowMinutes b) of
         (Some r, Some m) \<Rightarrow>
           (let window = wrap64 (m * minute) in
            if bk_Key b \<noteq> key \<or> time_sub r (sn_ObservedAt sn) > wrap64 (window - resetStarted) then []
            else [\<lparr>pst_Observed = sn_ObservedAt sn, pst_Resets = time_round r minute, pst_Window = window\<rparr>])
       | _ \<Rightarrow> []) (sn_Buckets sn))) snaps)"

definition against :: "past_reading list \<Rightarrow> duration \<Rightarrow> time \<Rightarrow> int" where
  "against readings merge at' =
     int (length (filter (\<lambda>r. pst_Observed r < at' \<and> time_sub (pst_Resets r) at' > merge \<and>
       pst_Resets r - pst_Window r < at') readings))"

fun merge_resets :: "duration \<Rightarrow> (time \<times> int) list \<Rightarrow> time list \<Rightarrow> int \<Rightarrow> time list" where
  "merge_resets merge [] out best = out"
| "merge_resets merge (c # cs) out best =
     (if out \<noteq> [] \<and> time_sub (fst c) (last out) < merge
      then if snd c \<ge> best then merge_resets merge cs (butlast out @ [fst c]) (snd c)
           else merge_resets merge cs out best
      else merge_resets merge cs (out @ [fst c]) (snd c))"

definition pastResets :: "snapshot list \<Rightarrow> bucket_key \<Rightarrow> time \<Rightarrow> time \<Rightarrow> duration \<Rightarrow> time list" where
  "pastResets snaps key start end merge =
     (let readings = past_readings snaps key;
          support = fold (\<lambda>r. bump (pst_Resets r) 1 0) (filter (\<lambda>r. pst_Resets r > start \<and> \<not> pst_Resets r > end) readings) [];
          kept = sort_by (\<lambda>a b. fst a < fst b) (filter (\<lambda>(at', n). n \<ge> against readings merge at') support)
      in merge_resets merge kept [] 0)"

definition abs_duration :: "duration \<Rightarrow> duration" where
  "abs_duration d = (if d \<ge> 0 then d else if d = min_duration then max_duration else - d)"

definition timeline_start :: "int \<Rightarrow> time \<Rightarrow> time" where
  "timeline_start window now =
     (let bin = timelineBinMinutes window; bins = wrap64 (window + bin - 1) sdiv bin; binDur = bin * minute
      in time_truncate now binDur + wrap64 (- (bins - 1) * binDur))"

definition window_start_reset :: "observed \<Rightarrow> int \<Rightarrow> time \<Rightarrow> duration \<Rightarrow> time list \<Rightarrow> time list" where
  "window_start_reset b window start merge resets =
     (case bk_ResetsAt (od_Bucket b) of
        None \<Rightarrow> resets
      | Some r \<Rightarrow>
          (let at' = time_round (r + wrap64 (- window * minute)) minute in
           if time_sub r (od_ObservedAt b) \<le> wrap64 (wrap64 (window * minute) - resetStarted) \<and> at' > start \<and>
              \<not> list_ex (\<lambda>x. abs_duration (time_sub x at') < merge) resets
           then sort_by (<) (resets @ [at']) else resets))"

definition Timeline :: "string \<Rightarrow> observed \<Rightarrow> snapshot list \<Rightarrow> time \<Rightarrow> db \<Rightarrow> timeline option" where
  "Timeline accountID b snaps now s =
     (case bk_WindowMinutes (od_Bucket b) of
        None \<Rightarrow> None
      | Some window \<Rightarrow>
          if window \<le> 0 then None
          else let bin = timelineBinMinutes window;
                   start = timeline_start window now;
                   rows = UsageTimeline accountID start now bin s;
                   merge = wrap64 (window * minute) sdiv 2;
                   resets = window_start_reset b window start merge (pastResets snaps (od_Key b) start now merge);
                   family = ModelFamily (od_Key b);
                   points = filter (\<lambda>r. family = [] \<or> (\<not> tr_ThirdParty r \<and> InFamily (tr_Model r) family)) rows
               in Some \<lparr>tl_Start = start, tl_BinMinutes = bin, tl_Bins = wrap64 (window + bin - 1) sdiv bin,
                    tl_Points = map (\<lambda>r. \<lparr>tp_Bin = tr_Bin r, tp_PersonID = tr_PersonID r, tp_Model = tr_Model r,
                      tp_ThirdParty = tr_ThirdParty r, tp_Gateway = tr_Gateway r, tp_Tokens = tr_Tokens r\<rparr>) points,
                    tl_Resets = resets\<rparr>)"

section \<open>The overview\<close>

definition recentUsage :: "string \<Rightarrow> member list \<Rightarrow> string \<Rightarrow> time \<Rightarrow> db \<Rightarrow> bucket_overview option" where
  "recentUsage accountID members viewer now s =
     (let b = \<lparr>od_Bucket = \<lparr>bk_Key = [], bk_UsedPercent = None, bk_ResetsAt = None, bk_WindowMinutes = Some FiveHourMinutes\<rparr>,
            od_ObservedAt = now\<rparr>;
          (start, end) = Window_of b now;
          bo = bucketOverview b now members (Store_Usage accountID start end s) viewer;
          bo = bo\<lparr>bo_ThirdPartyModels := thirdPartyModels accountID start end s\<rparr>
      in if bo_Models bo = [] \<and> bo_ThirdPartyModels bo = [] then None
         else Some (bo\<lparr>bo_Timeline := Timeline accountID b [] now s\<rparr>))"

definition usageTotals :: "person_usage list \<Rightarrow> usage_totals" where
  "usageTotals rows =
     fold (\<lambda>r u. \<lparr>ut_Input = wrap64 (ut_Input u + tk_Input (pg_Tokens r)),
         ut_CachedInput = wrap64 (ut_CachedInput u + tk_CachedInput (pg_Tokens r)),
         ut_CacheWrite = wrap64 (ut_CacheWrite u + tk_CacheWrite (pg_Tokens r)),
         ut_Output = wrap64 (ut_Output u + tk_Output (pg_Tokens r)),
         ut_Requests = wrap64 (ut_Requests u + pg_Requests r),
         ut_CostUSD = ut_CostUSD u + Cost (pg_Model r) (pg_Tokens r)\<rparr>) rows zero_totals"

definition bucket_of_account :: "string \<Rightarrow> member list \<Rightarrow> snapshot list \<Rightarrow> string \<Rightarrow> time \<Rightarrow> db \<Rightarrow> observed \<Rightarrow> bucket_overview" where
  "bucket_of_account accountID members snaps viewer now s b =
     (let (start, end) = Window_of b now;
          family = ModelFamily (od_Key b);
          rows = Store_Usage accountID start end s;
          rows = (if family \<noteq> [] then filter (\<lambda>r. InFamily (us_Model r) family) rows else rows);
          bo = bucketOverview b now members rows viewer;
          bo = bo\<lparr>bo_Timeline := Timeline accountID b snaps now s\<rparr>
      in if family = []
         then let (from', to') = (case bo_Timeline bo of None \<Rightarrow> (start, end) | Some chart \<Rightarrow> (tl_Start chart, now))
              in bo\<lparr>bo_ThirdPartyModels := thirdPartyModels accountID from' to' s\<rparr>
         else bo\<lparr>bo_ThirdPartyModels := []\<rparr>)"

text \<open>A member who left an account, or whom an admin set to weight 0, no longer sees it.\<close>

definition has_left :: "string \<Rightarrow> member list \<Rightarrow> bool" where
  "has_left viewer members = list_ex (\<lambda>m. mem_PersonID m = viewer \<and> mem_ShareWeight m = 0) members"

definition account_overview_of ::
  "(string \<Rightarrow> string \<Rightarrow> bool) \<Rightarrow> (string, active_user list) gomap \<Rightarrow> string \<Rightarrow> time \<Rightarrow> db \<Rightarrow> account \<Rightarrow> account_overview" where
  "account_overview_of tlt activeUsers viewer now s a =
     (let snaps = HistoricalSnapshots (acc_ID a) (now - snapshotLookback) now s;
          members = Members tlt (acc_ID a) s;
          buckets = map (bucket_of_account (acc_ID a) members snaps viewer now s) (sortedBuckets (Latest snaps))
      in \<lparr>ao_ID = acc_ID a, ao_Provider = acc_Provider a, ao_Label = acc_Label a, ao_PlanType = acc_PlanType a,
          ao_Buckets = buckets, ao_ActiveUsers = get_or [] activeUsers (acc_ID a),
          ao_Usage = (if buckets = [] then recentUsage (acc_ID a) members viewer now s else None)\<rparr>)"

definition Overview :: "(string \<Rightarrow> string \<Rightarrow> bool) \<Rightarrow> string \<Rightarrow> time \<Rightarrow> time \<Rightarrow> db \<Rightarrow> overview" where
  "Overview tlt viewer now today s =
     (let activeUsers = groupActiveUsers (ActiveDevices tlt (now - ActiveWindow) s) viewer;
          accounts = map (account_overview_of tlt activeUsers viewer now s)
            (filter (\<lambda>a. \<not> has_left viewer (Members tlt (acc_ID a) s)) (Accounts tlt s));
          you = (if viewer = [] then None
                 else Some \<lparr>pu_Today = usageTotals (Store_PersonUsage viewer today s),
                        pu_Last30Day = usageTotals (Store_PersonUsage viewer (now - 30 * 24 * hour) s)\<rparr>)
      in \<lparr>ov_GeneratedAt = now, ov_Accounts = sort_by (\<lambda>a b. usedByViewer a \<and> \<not> usedByViewer b) accounts,
          ov_You = you, ov_DashboardPublished = False\<rparr>)"

section \<open>A window adds up\<close>

abbreviation row_cost :: "usage_sum \<Rightarrow> f64" where
  "row_cost r \<equiv> Cost (us_Model r) (us_Tokens r)"

abbreviation row_key :: "usage_sum \<Rightarrow> string" where
  "row_key r \<equiv> modelKey (us_Model r) (us_Gateway r)"

lemma count_rows:
  "wc_Costs (fold count_row rows c) = fold (\<lambda>r. bump (us_PersonID r) (row_cost r) 0) rows (wc_Costs c)"
  "wc_ModelCosts (fold count_row rows c) = fold (\<lambda>r. bump (row_key r) (row_cost r) 0) rows (wc_ModelCosts c)"
  "wc_TotalCost (fold count_row rows c) = wc_TotalCost c + sum_list (map row_cost rows)"
  "wf_map (wc_Models c) \<Longrightarrow> wf_map (wc_Models (fold count_row rows c))"
  "fst ` set (wc_Models (fold count_row rows c)) = fst ` set (wc_Models c) \<union> row_key ` set rows"
  by (induction rows arbitrary: c) (simp_all add: count_row_def Let_def)

definition window_cost :: "usage_sum list \<Rightarrow> f64" where
  "window_cost rows = sum_list (map row_cost rows)"

lemma counted:
  fixes rows
  defines "c \<equiv> fold count_row rows no_costs"
  shows "wf_map (wc_Costs c)" "sum_list (map snd (wc_Costs c)) = window_cost rows"
    "wf_map (wc_ModelCosts c)" "sum_list (map snd (wc_ModelCosts c)) = window_cost rows"
    "wc_TotalCost c = window_cost rows" "wf_map (wc_Models c)"
    "fst ` set (wc_ModelCosts c) = fst ` set (wc_Models c)"
  unfolding c_def
  by (simp_all add: count_rows no_costs_def window_cost_def wf_map_bump_fold sum_values_bump_fold keys_bump_fold)

lemma wf_map_puts: "wf_map m \<Longrightarrow> wf_map (fold (\<lambda>x. put (k x) (v x)) xs m)"
  by (induction xs arbitrary: m) auto

lemma model_shares_sum:
  assumes "wf_map (wc_Models c)" "wf_map (wc_ModelCosts c)" "fst ` set (wc_ModelCosts c) = fst ` set (wc_Models c)"
    and "sum_list (map snd (wc_ModelCosts c)) = wc_TotalCost c" "0 < wc_TotalCost c"
  shows "sum_list (map mo_UsedPercent (model_shares u c)) = u"
proof -
  let ?t = "wc_TotalCost c" and ?mc = "wc_ModelCosts c"
  have "sum_list (map mo_UsedPercent (model_shares u c)) = sum_list (map (\<lambda>(k, m). u * get_or 0 ?mc k / ?t) (wc_Models c))"
    using assms(5) by (simp add: model_shares_def comp_def case_prod_beta')
  also have "\<dots> = (\<Sum>k \<in> fst ` set (wc_Models c). u * get_or 0 ?mc k / ?t)"
    by (rule sum_list_map_keys[OF assms(1)])
  also have "\<dots> = u * (\<Sum>k \<in> fst ` set (wc_Models c). get_or 0 ?mc k) / ?t"
    by (simp add: sum_divide_distrib sum_distrib_left)
  also have "(\<Sum>k \<in> fst ` set (wc_Models c). get_or 0 ?mc k) = ?t"
    using assms(4) by (subst sum_shares[OF assms(2)]) (simp_all add: assms(3))
  finally show ?thesis using assms(5) by simp
qed

text \<open>
  C37. A window of the overview adds up to what the provider reported: the members' estimated
  uses and the unattributed rest are its percentage, and so are the models' uses when the
  requests cost anything. A window that has reset since its last reading shows no use and no
  models at all.
\<close>

theorem bucketOverview_conserves:
  "let bo = bucketOverview b now members rows viewer in
     sum_list (map mh_UsedPercent (bo_Members bo)) + bo_UnattributedPercent bo = bo_UsedPercent bo \<and>
     bo_Reset bo = HasReset b now \<and>
     (if HasReset b now then bo_UsedPercent bo = 0 \<and> bo_Models bo = []
      else if 0 < window_cost rows
      then bo_UnattributedPercent bo = 0 \<and> sum_list (map mo_UsedPercent (bo_Models bo)) = bo_UsedPercent bo
      else bo_UsedPercent bo = (case bk_UsedPercent (od_Bucket b) of None \<Rightarrow> 0 | Some u \<Rightarrow> u))"
proof -
  define used where "used = (if HasReset b now then 0 else case bk_UsedPercent (od_Bucket b) of None \<Rightarrow> 0 | Some u \<Rightarrow> u)"
  define c where "c = (if HasReset b now then no_costs else fold count_row rows no_costs)"
  define weights where "weights = fold (\<lambda>m. put (mem_PersonID m) (mem_ShareWeight m)) members ([] :: (string, f64) gomap)"
  define names where "names = fold (\<lambda>m. put (mem_PersonID m) (mem_Name m)) members ([] :: (string, string) gomap)"
  define bo where "bo = bucketOverview b now members rows viewer"
  obtain shares rest where ap: "Apportion used (wc_Costs c) weights = (shares, rest)" by (cases "Apportion used (wc_Costs c) weights")
  have wf: "wf_map (wc_Costs c)" "wf_map weights"
    using counted[of rows] by (auto simp: c_def no_costs_def weights_def intro: wf_map_puts)
  have bo: "bo_Members bo = sort_by member_less (map (member_share_of used c (model_shares used c) weights names viewer) shares)"
    "bo_UnattributedPercent bo = rest" "bo_UsedPercent bo = used" "bo_Models bo = model_shares used c" "bo_Reset bo = HasReset b now"
    using ap by (simp_all add: bo_def bucketOverview_def Let_def used_def c_def weights_def names_def)
  from Apportion_totals[OF wf, of used] ap
  have tot: "sum_list (map (sh_UsedPercent \<circ> snd) shares) + rest = used"
    "rest = (if sum_list (map snd (wc_Costs c)) = 0 then used else 0)" by auto
  have "mh_UsedPercent (member_share_of used c ms weights names viewer ps) = sh_UsedPercent (snd ps)" for ms ps
    by (cases ps) (simp add: member_share_of_def Let_def)
  then have 1: "sum_list (map mh_UsedPercent (bo_Members bo)) + bo_UnattributedPercent bo = bo_UsedPercent bo"
    using tot(1) by (simp add: bo comp_def)
  have 2: "bo_UsedPercent bo = 0 \<and> bo_Models bo = []" if "HasReset b now"
    using that by (simp add: bo used_def c_def no_costs_def model_shares_def)
  have 3: "bo_UnattributedPercent bo = 0 \<and> sum_list (map mo_UsedPercent (bo_Models bo)) = bo_UsedPercent bo"
    if "\<not> HasReset b now" "0 < window_cost rows"
  proof -
    have c: "c = fold count_row rows no_costs" using that by (simp add: c_def)
    have "sum_list (map mo_UsedPercent (model_shares used c)) = used"
      unfolding c by (rule model_shares_sum) (use that counted[of rows] in simp_all)
    with tot(2) that counted(2)[of rows] show ?thesis by (simp add: bo c)
  qed
  from 1 2 3 show ?thesis by (simp add: bo(5) flip: bo_def) (simp add: bo(3) used_def)
qed

section \<open>The chart covers its window\<close>

lemma sdiv_div_nonneg: "0 \<le> (a::int) \<Longrightarrow> 0 < b \<Longrightarrow> a sdiv b = a div b"
  by (cases "a = 0") (simp_all add: signed_divide_int_def)

lemma div_below: "x < n * d \<Longrightarrow> 0 < d \<Longrightarrow> x div d < (n :: int)"
  by (metis div_mult_mod_eq mult_le_cancel_right_pos not_less pos_mod_sign add_increasing2)

lemma UsageTimeline_bin:
  "r \<in> set (UsageTimeline a start end bin s) \<Longrightarrow>
   \<exists>t. start \<le> t \<and> t < end \<and> tr_Bin r = (t - start) div (bin * minute)"
  by (auto simp: UsageTimeline_def grouped_rows)

lemma timelineBinMinutes_cases: "timelineBinMinutes w \<in> {1, 5, 30}"
  by (simp add: timelineBinMinutes_def)

text \<open>The bins cover the window, and hold now in the last one; 100 years of minutes stay far from wrapping.\<close>

lemma timeline_bin_count:
  fixes w bin bins
  assumes "0 < w" "w \<le> 52560000"
  defines "bin \<equiv> timelineBinMinutes w"
  defines "bins \<equiv> wrap64 (w + bin - 1) sdiv bin"
  shows "0 < bin" "0 < bins" "w \<le> bins * bin" "(bins - 1) * bin < w"
proof -
  have bin: "0 < bin" "bin \<le> 30" using timelineBinMinutes_cases[of w] by (auto simp: bin_def)
  have bins: "bins = (w + bin - 1) div bin"
    using assms(1,2) bin by (simp add: bins_def sdiv_div_nonneg)
  define q r where "q = (w + bin - 1) div bin" and "r = (w + bin - 1) mod bin"
  have r: "0 \<le> r" "r < bin" and q: "q * bin + r = w + bin - 1" using bin by (simp_all add: q_def r_def)
  have bq: "bins = q" by (simp add: bins q_def)
  show "0 < bin" by (rule bin(1))
  show ge: "w \<le> bins * bin" using r q by (simp add: bq)
  show lt: "(bins - 1) * bin < w" using r q by (simp add: bq algebra_simps)
  show pos: "0 < bins"
  proof (rule ccontr)
    assume "\<not> 0 < bins"
    then have "bins * bin \<le> 0" using bin(1) by (simp add: mult_nonpos_nonneg)
    with ge assms(1) show False by simp
  qed
qed

lemma timeline_start_exact:
  fixes w bin bins now
  assumes "0 < w" "w \<le> 52560000"
  defines "bin \<equiv> timelineBinMinutes w"
  defines "bins \<equiv> wrap64 (w + bin - 1) sdiv bin"
  shows "timeline_start w now = time_truncate now (bin * minute) - (bins - 1) * (bin * minute)"
proof -
  note count = timeline_bin_count[OF assms(1,2), folded bin_def, folded bins_def]
  define m where "m = (bins - 1) * bin"
  have m: "0 \<le> m" "m \<le> 52560000" using count assms(2) by (simp_all add: m_def)
  have eq: "- (bins - 1) * (bin * minute) = - (m * minute)" by (simp add: m_def algebra_simps)
  have "0 \<le> m * minute" using m(1) by (simp add: time_units)
  moreover have "m * minute \<le> 52560000 * minute" using m(2) by (intro mult_right_mono) (simp_all add: time_units)
  ultimately have "wrap64 (- (m * minute)) = - (m * minute)"
    by (intro wrap64_id) (simp_all add: time_units)
  then show ?thesis
    unfolding timeline_start_def Let_def bin_def[symmetric] bins_def[symmetric] eq by (simp add: m_def)
qed

lemma Timeline_Some:
  assumes "bk_WindowMinutes (od_Bucket b) = Some w" "0 < w"
  shows "\<exists>chart. Timeline a b snaps now s = Some chart \<and> tl_Start chart = timeline_start w now \<and>
    tl_BinMinutes chart = timelineBinMinutes w \<and>
    tl_Bins chart = wrap64 (w + timelineBinMinutes w - 1) sdiv timelineBinMinutes w \<and>
    tp_Bin ` set (tl_Points chart) \<subseteq> tr_Bin ` set (UsageTimeline a (timeline_start w now) now (timelineBinMinutes w) s)"
  using assms by (auto simp: Timeline_def Let_def image_iff)

text \<open>
  A window's chart has just enough bins for the window, now is in its last bin, and every
  point of it lies in one of its bins: no request is charted before the first bin or past the
  last one.
\<close>

theorem Timeline_bins:
  assumes "bk_WindowMinutes (od_Bucket b) = Some w" "0 < w" "w \<le> 52560000"
  shows "\<exists>chart. Timeline a b snaps now s = Some chart \<and>
    w \<le> tl_Bins chart * tl_BinMinutes chart \<and> (tl_Bins chart - 1) * tl_BinMinutes chart < w \<and>
    tl_Start chart + (tl_Bins chart - 1) * (tl_BinMinutes chart * minute) \<le> now \<and>
    now < tl_Start chart + tl_Bins chart * (tl_BinMinutes chart * minute) \<and>
    list_all (\<lambda>p. 0 \<le> tp_Bin p \<and> tp_Bin p < tl_Bins chart) (tl_Points chart)"
proof -
  define bin where "bin = timelineBinMinutes w"
  define bins where "bins = wrap64 (w + bin - 1) sdiv bin"
  define start where "start = timeline_start w now"
  note span = timeline_bin_count[OF assms(2,3), folded bin_def, folded bins_def]
  have exact: "start = time_truncate now (bin * minute) - (bins - 1) * (bin * minute)"
    unfolding start_def bins_def bin_def by (rule timeline_start_exact[OF assms(2,3)])
  have d: "0 < bin * minute" using span(1) by simp
  note near = time_truncate_bounds[OF d, of now]
  have now: "start + (bins - 1) * (bin * minute) \<le> now" "now < start + bins * (bin * minute)"
    using near by (simp_all add: exact algebra_simps)
  obtain chart where chart: "Timeline a b snaps now s = Some chart" "tl_Start chart = start"
      "tl_BinMinutes chart = bin" "tl_Bins chart = bins"
    and points: "tp_Bin ` set (tl_Points chart) \<subseteq> tr_Bin ` set (UsageTimeline a start now bin s)"
    using Timeline_Some[OF assms(1,2)] unfolding bin_def bins_def start_def by blast
  have "0 \<le> tp_Bin p \<and> tp_Bin p < bins" if "p \<in> set (tl_Points chart)" for p
  proof -
    have "tp_Bin p \<in> tr_Bin ` set (UsageTimeline a start now bin s)" using points that by auto
    then obtain r where r: "r \<in> set (UsageTimeline a start now bin s)" and eq: "tp_Bin p = tr_Bin r" by blast
    from UsageTimeline_bin[OF r] obtain t where t: "start \<le> t" "t < now" "tp_Bin p = (t - start) div (bin * minute)"
      unfolding eq by blast
    have "t - start < bins * (bin * minute)" using t(2) now(2) by simp
    with t d show ?thesis by (simp add: pos_imp_zdiv_nonneg_iff div_below)
  qed
  with chart span now show ?thesis by (auto simp: list_all_iff)
qed

theorem Timeline_bins_witness:
  "\<exists>chart. Timeline ''a'' \<lparr>od_Bucket = \<lparr>bk_Key = BucketFiveHour, bk_UsedPercent = Some 10, bk_ResetsAt = None,
      bk_WindowMinutes = Some 300\<rparr>, od_ObservedAt = hour\<rparr> [] (2 * hour) db4 = Some chart \<and> 300 \<le> tl_Bins chart * tl_BinMinutes chart"
proof -
  let ?b = "\<lparr>od_Bucket = \<lparr>bk_Key = BucketFiveHour, bk_UsedPercent = Some 10, bk_ResetsAt = None,
      bk_WindowMinutes = Some 300\<rparr>, od_ObservedAt = hour\<rparr> :: observed"
  have "bk_WindowMinutes (od_Bucket ?b) = Some 300" by simp
  from Timeline_bins[OF this, of "''a''" "[]" "2 * hour" db4] show ?thesis by auto
qed

section \<open>Past resets\<close>

lemma sorted_snoc_gap:
  fixes gap :: int
  assumes "sorted_wrt (\<lambda>a b. a + gap \<le> b) out" "out = [] \<or> last out + gap \<le> x" "\<forall>y \<in> set out. y < x"
  shows "sorted_wrt (\<lambda>a b. a + gap \<le> b) (out @ [x])"
proof (cases out rule: rev_cases)
  case Nil
  then show ?thesis by simp
next
  case (snoc ys y)
  with assms show ?thesis by (fastforce simp: sorted_wrt_append)
qed

lemma merge_resets_apart:
  assumes "min_duration < gap" "gap \<le> max_duration"
    and "sorted_wrt (\<lambda>a b. fst a < fst b) cs" "sorted_wrt (\<lambda>a b. a + gap \<le> b) out" "\<forall>x \<in> set out. \<forall>c \<in> set cs. x < fst c"
  shows "sorted_wrt (\<lambda>a b. a + gap \<le> b) (merge_resets gap cs out best) \<and>
    set (merge_resets gap cs out best) \<subseteq> set out \<union> fst ` set cs"
  using assms(3-5)
proof (induction cs arbitrary: out best)
  case Nil
  then show ?case by simp
next
  case (Cons c cs)
  show ?case
  proof (cases "out \<noteq> [] \<and> time_sub (fst c) (last out) < gap")
    case True
    then obtain ys y where out: "out = ys @ [y]" by (cases out rule: rev_cases) auto
    have "sorted_wrt (\<lambda>a b. a + gap \<le> b) (butlast out @ [fst c])"
      using Cons.prems by (auto simp: out sorted_wrt_append)
    moreover have "\<forall>x \<in> set (butlast out @ [fst c]). \<forall>d \<in> set cs. x < fst d"
      using Cons.prems by (auto simp: out)
    ultimately show ?thesis using Cons.IH[of "butlast out @ [fst c]" "snd c"] Cons.IH[of out best] Cons.prems True
      by (auto simp: out)
  next
    case False
    have "out = [] \<or> last out + gap \<le> fst c"
      using False time_sub_gt_iff[OF assms(1,2), of "fst c" "last out"] by auto
    then have "sorted_wrt (\<lambda>a b. a + gap \<le> b) (out @ [fst c])"
      using Cons.prems by (intro sorted_snoc_gap) auto
    moreover have "\<forall>x \<in> set (out @ [fst c]). \<forall>d \<in> set cs. x < fst d" using Cons.prems by auto
    ultimately show ?thesis using Cons.IH[of "out @ [fst c]" "snd c"] Cons.prems False by auto
  qed
qed

lemma past_support:
  "wf_map m \<Longrightarrow> wf_map (fold (\<lambda>r. bump (pst_Resets r) (1::int) 0) rs m) \<and>
   fst ` set (fold (\<lambda>r. bump (pst_Resets r) (1::int) 0) rs m) = fst ` set m \<union> pst_Resets ` set rs"
  by (simp add: wf_map_bump_fold keys_bump_fold)

lemma sorted_distinct_strict:
  "sorted_wrt (\<lambda>a b. fst a \<le> (fst b :: int)) ys \<Longrightarrow> distinct (map fst ys) \<Longrightarrow> sorted_wrt (\<lambda>a b. fst a < fst b) ys"
  by (induction ys) (auto simp: order_less_le)

lemma sorted_by_key_strict:
  assumes "distinct (map fst xs)"
  shows "sorted_wrt (\<lambda>a b. fst a < fst b) (sort_by (\<lambda>a b. fst a < (fst b :: int)) xs)"
proof (rule sorted_distinct_strict)
  show "sorted_wrt (\<lambda>a b. fst a \<le> fst b) (sort_by (\<lambda>a b. fst a < fst b) xs)" by (rule sorted_sort_by_key)
  have "mset (map fst (sort_by (\<lambda>a b. fst a < fst b) xs)) = mset (map fst xs)" by simp
  with assms show "distinct (map fst (sort_by (\<lambda>a b. fst a < fst b) xs))" using mset_eq_imp_distinct_iff by blast
qed

text \<open>
  The resets a chart marks are told apart: they come in order and at least the merging
  distance apart, inside the chart's span, and each is the reset time some reading of a running
  window of this bucket reported, to the minute, that at least as many readings support as
  speak against it.
\<close>

theorem pastResets_apart:
  assumes "min_duration < merge" "merge \<le> max_duration"
  shows "sorted_wrt (\<lambda>a b. a + merge \<le> b) (pastResets snaps key start end merge) \<and>
    list_all (\<lambda>t. start < t \<and> t \<le> end \<and>
      int (length (filter (\<lambda>r. pst_Resets r = t) (past_readings snaps key))) \<ge> max 1 (against (past_readings snaps key) merge t))
      (pastResets snaps key start end merge)"
proof -
  define rs where "rs = past_readings snaps key"
  define near where "near = filter (\<lambda>r. pst_Resets r > start \<and> \<not> pst_Resets r > end) rs"
  define support where "support = fold (\<lambda>r. bump (pst_Resets r) (1::int) 0) near []"
  define kept where "kept = filter (\<lambda>(t, n). n \<ge> against rs merge t) support"
  have wf: "wf_map support" and keys: "fst ` set support = pst_Resets ` set near"
    using past_support[of "[]" near] by (simp_all add: support_def)
  have count: "n = int (length (filter (\<lambda>r. pst_Resets r = t) near))" if "(t, n) \<in> set support" for t n
  proof -
    have "n = get_or 0 support t" using get_or_mem[OF wf that] by simp
    also have "\<dots> = sum_list (map (\<lambda>_. 1) (filter (\<lambda>r. pst_Resets r = t) near))"
      by (simp add: support_def get_or_bump_fold)
    finally show ?thesis by (simp add: sum_list_triv)
  qed
  have "distinct (map fst kept)" using wf by (simp add: kept_def distinct_map_filter)
  from merge_resets_apart[OF assms sorted_by_key_strict[OF this], of "[]" 0]
  have res: "sorted_wrt (\<lambda>a b. a + merge \<le> b) (pastResets snaps key start end merge)"
    "set (pastResets snaps key start end merge) \<subseteq> fst ` set kept"
    by (simp_all add: pastResets_def Let_def rs_def near_def support_def kept_def)
  have "start < t \<and> t \<le> end \<and> int (length (filter (\<lambda>r. pst_Resets r = t) rs)) \<ge> max 1 (against rs merge t)"
    if mem: "t \<in> fst ` set kept" for t
  proof -
    obtain n where "(t, n) \<in> set kept" using mem by force
    then have n: "(t, n) \<in> set support" "n \<ge> against rs merge t" by (simp_all add: kept_def)
    then have "t \<in> pst_Resets ` set near" using keys by force
    then obtain r where r: "r \<in> set near" "pst_Resets r = t" by blast
    then have t: "start < t" "t \<le> end" by (auto simp: near_def)
    have eq: "filter (\<lambda>r. pst_Resets r = t) near = filter (\<lambda>r. pst_Resets r = t) rs"
      using t by (auto simp: near_def intro!: filter_cong)
    have "filter (\<lambda>r. pst_Resets r = t) near \<noteq> []" using r by (auto simp: filter_empty_conv)
    then have "1 \<le> int (length (filter (\<lambda>r. pst_Resets r = t) rs))" unfolding eq by (cases "filter (\<lambda>r. pst_Resets r = t) rs") auto
    with n count[OF n(1)] t show ?thesis by (simp add: eq)
  qed
  with res show ?thesis by (auto simp: list_all_iff rs_def)
qed

definition two_resets :: "snapshot list" where
  "two_resets = [snap_at (90 * hour) SourceCodexRPC 10 (100 * hour), snap_at (200 * hour) SourceCodexRPC 20 (268 * hour)]"

theorem pastResets_apart_witness:
  "pastResets two_resets BucketWeekly 0 (300 * hour) (84 * hour) = [100 * hour, 268 * hour] \<and>
   sorted_wrt (\<lambda>a b. a + 84 * hour \<le> b) (pastResets two_resets BucketWeekly 0 (300 * hour) (84 * hour))"
proof
  show "pastResets two_resets BucketWeekly 0 (300 * hour) (84 * hour) = [100 * hour, 268 * hour]" by code_simp
  have "min_duration < 84 * hour" "84 * hour \<le> max_duration"
    by (simp_all add: min_duration_def max_duration_def time_units)
  from pastResets_apart[OF this, of two_resets BucketWeekly 0 "300 * hour"]
  show "sorted_wrt (\<lambda>a b. a + 84 * hour \<le> b) (pastResets two_resets BucketWeekly 0 (300 * hour) (84 * hour))" by blast
qed

section \<open>Who sees what\<close>

lemma sort_front:
  "sorted_wrt (\<lambda>a b. p b \<le> (p a :: bool)) (sort_by (\<lambda>a b. p a \<and> \<not> p b) xs)"
proof -
  have weak: "strict_weak (\<lambda>a b. p a \<and> \<not> p b)" by unfold_locales auto
  show ?thesis
    by (rule sorted_wrt_mono_rel[OF _ strict_weak.sorted_sort_by[OF weak, of xs]])
      (simp add: strict_weak.before_def[OF weak])
qed

text \<open>
  The overview shows a viewer exactly the accounts they have not left, each once, the ones
  they are signed in to first; only a viewer gets personal totals, and those are of their own
  official requests.
\<close>

theorem Overview_accounts:
  "let o' = Overview tlt viewer now today s in
     mset (map ao_ID (ov_Accounts o')) = mset (map acc_ID (filter (\<lambda>a. \<not> has_left viewer (Members tlt (acc_ID a) s)) (Accounts tlt s))) \<and>
     list_all (\<lambda>a. \<not> has_left viewer (Members tlt (ao_ID a) s)) (ov_Accounts o') \<and>
     sorted_wrt (\<lambda>a b. usedByViewer b \<le> usedByViewer a) (ov_Accounts o') \<and>
     ov_You o' = (if viewer = [] then None
       else Some \<lparr>pu_Today = usageTotals (Store_PersonUsage viewer today s),
              pu_Last30Day = usageTotals (Store_PersonUsage viewer (now - 30 * 24 * hour) s)\<rparr>)"
proof -
  define active where "active = groupActiveUsers (ActiveDevices tlt (now - ActiveWindow) s) viewer"
  define shown where "shown = filter (\<lambda>a. \<not> has_left viewer (Members tlt (acc_ID a) s)) (Accounts tlt s)"
  define accounts where "accounts = map (account_overview_of tlt active viewer now s) shown"
  have id: "ao_ID (account_overview_of tlt active viewer now s a) = acc_ID a" for a
    by (simp add: account_overview_of_def Let_def)
  have "map ao_ID accounts = map acc_ID shown" by (simp add: accounts_def id)
  then have "image_mset ao_ID (mset accounts) = mset (map acc_ID shown)" by (metis mset_map)
  moreover have "list_all (\<lambda>a. \<not> has_left viewer (Members tlt (ao_ID a) s)) accounts"
    by (auto simp: list_all_iff accounts_def shown_def id)
  ultimately show ?thesis
    using sort_front[of usedByViewer accounts]
    by (simp add: Overview_def Let_def list_all_iff flip: active_def shown_def accounts_def)
qed

text \<open>Once a member's weight on an account is set to 0 they count as having left it, and no one else does.\<close>

lemma SetShareWeight_leaves:
  assumes "SetShareWeight a p 0 s = Inr (u, t)" "person_exists s p"
  shows "has_left p (Members tlt a t)" "q \<noteq> p \<Longrightarrow> has_left q (Members tlt a t) = has_left q (Members tlt a s)"
proof -
  define match where "match = (\<lambda>m :: membership. ms_AccountID m = a \<and> ms_PersonID m = p)"
  obtain r where r: "r \<in> set (db_persons s)" "pr_ID r = p" using assms(2) by auto
  have persons: "db_persons t = db_persons s"
    using assms(1) by (auto simp: SetShareWeight_def Let_def split: if_splits)
  have left: "has_left q (Members tlt i s') \<longleftrightarrow>
      (\<exists>m \<in> set (db_memberships s'). ms_AccountID m = i \<and> ms_PersonID m = q \<and> ms_ShareWeight m = 0 \<and> person_exists s' q)" for q i s'
    by (simp add: has_left_def Members_def Let_def list_ex_iff) (auto simp: image_iff; metis)
  have ms: "set (db_memberships t) = (if list_ex match (db_memberships s)
      then (\<lambda>m. if match m then m\<lparr>ms_ShareWeight := 0\<rparr> else m) ` set (db_memberships s)
      else insert \<lparr>ms_AccountID = a, ms_PersonID = p, ms_ShareWeight = 0\<rparr> (set (db_memberships s)))"
    using assms(1) unfolding match_def
    by (auto simp: SetShareWeight_def Let_def update_where_def split: if_splits)
  have "\<exists>m \<in> set (db_memberships t). ms_AccountID m = a \<and> ms_PersonID m = p \<and> ms_ShareWeight m = 0"
  proof (cases "list_ex match (db_memberships s)")
    case True
    then obtain m where m: "m \<in> set (db_memberships s)" "match m" by (auto simp: list_ex_iff)
    then have "m\<lparr>ms_ShareWeight := 0\<rparr> \<in> set (db_memberships t)" using ms True by force
    with m(2) show ?thesis by (intro bexI[of _ "m\<lparr>ms_ShareWeight := 0\<rparr>"]) (auto simp: match_def)
  next
    case False
    with ms show ?thesis by auto
  qed
  then show "has_left p (Members tlt a t)" using r persons by (auto simp: left)
  have "(\<exists>m \<in> set (db_memberships t). ms_AccountID m = a \<and> ms_PersonID m = q \<and> ms_ShareWeight m = 0) \<longleftrightarrow>
      (\<exists>m \<in> set (db_memberships s). ms_AccountID m = a \<and> ms_PersonID m = q \<and> ms_ShareWeight m = 0)" if "q \<noteq> p" for q
  proof -
    let ?P = "\<lambda>m :: membership. ms_AccountID m = a \<and> ms_PersonID m = q \<and> ms_ShareWeight m = 0"
    have "?P (if match m then m\<lparr>ms_ShareWeight := 0\<rparr> else m) = ?P m" for m using that by (auto simp: match_def)
    moreover have "\<not> ?P \<lparr>ms_AccountID = a, ms_PersonID = p, ms_ShareWeight = 0\<rparr>" using that by simp
    ultimately show ?thesis unfolding ms by (cases "list_ex match (db_memberships s)") (simp_all only: if_True if_False bex_simps, blast)
  qed
  then show "q \<noteq> p \<Longrightarrow> has_left q (Members tlt a t) = has_left q (Members tlt a s)"
    unfolding left persons by blast
qed

end
