(* ===== verification/ServerPeople.thy ===== *)
theory ServerPeople
  imports ServerLedger
begin

text \<open>
  A second invariant of the server's database over the same steps: a person has one row, and a
  person is a member of an account once. The reports that list members rest on it.
\<close>

definition people_ok :: "db \<Rightarrow> bool" where
  "people_ok s \<longleftrightarrow> distinct (map pr_ID (db_persons s)) \<and>
     distinct (map (\<lambda>m. (ms_AccountID m, ms_PersonID m)) (db_memberships s))"

lemma people_ok_cong:
  "db_persons t = db_persons s \<Longrightarrow> db_memberships t = db_memberships s \<Longrightarrow> people_ok t = people_ok s"
  by (simp add: people_ok_def)

lemma people_ok_update [simp]:
  "people_ok (s\<lparr>db_observations := o'\<rparr>) = people_ok s" "people_ok (s\<lparr>db_usage := us\<rparr>) = people_ok s"
  "people_ok (s\<lparr>db_snapshots := qs\<rparr>) = people_ok s" "people_ok (s\<lparr>db_limits := ls\<rparr>) = people_ok s"
  by (simp_all add: people_ok_def)

lemma people_ok_filter:
  "db_persons t = filter P (db_persons s) \<Longrightarrow> db_memberships t = filter Q (db_memberships s) \<Longrightarrow> people_ok s \<Longrightarrow> people_ok t"
  by (simp add: people_ok_def distinct_map_filter)

lemma AddPerson_people: "AddPerson i now n s = Inr (p, t) \<Longrightarrow> people_ok s \<Longrightarrow> people_ok t"
  by (auto simp: AddPerson_def people_ok_def split: if_splits)

lemma DeletePerson_people: "DeletePerson i s = Inr (u, t) \<Longrightarrow> people_ok s \<Longrightarrow> people_ok t"
  by (rule people_ok_filter[where s = s and P = "\<lambda>r. pr_ID r \<noteq> i" and Q = "\<lambda>r. ms_PersonID r \<noteq> i"])
    (auto simp: DeletePerson_def Let_def split: if_splits)

lemma DeleteAccount_people: "DeleteAccount i s = Inr (u, t) \<Longrightarrow> people_ok s \<Longrightarrow> people_ok t"
  by (rule people_ok_filter[where s = s and P = "\<lambda>_. True" and Q = "\<lambda>r. ms_AccountID r \<noteq> i"])
    (auto simp: DeleteAccount_def Let_def split: if_splits)

lemma SetShareWeight_people: "SetShareWeight i j w s = Inr (u, t) \<Longrightarrow> people_ok s \<Longrightarrow> people_ok t"
  by (auto simp: SetShareWeight_def people_ok_def Let_def map_update_where list_ex_iff split: if_splits) blast+

lemma ensureAccount_people: "ensureAccount i p h hint plan at' person s = Inr (j, t) \<Longrightarrow> people_ok s \<Longrightarrow> people_ok t"
  by (auto simp: ensureAccount_def people_ok_def Let_def list_ex_iff map_update_where split: if_splits option.splits) blast+

lemma ensure_people: "ensure newID person p h hint plan at' st = Inr (j, st') \<Longrightarrow> people_ok (in_db st) \<Longrightarrow> people_ok (in_db st')"
  by (auto simp: ensure_def split: option.splits if_splits sum.splits intro: ensureAccount_people)

lemma ingest_observation_people:
  "ingest_observation newID d x st = Inr st' \<Longrightarrow> people_ok (in_db st) \<Longrightarrow> people_ok (in_db st')"
  by (auto simp: ingest_observation_def Let_def split: if_splits sum.splits) (metis ensure_people)+

lemma save_event_people: "save_event d i e s = Inr (n, t) \<Longrightarrow> people_ok t = people_ok s"
  by (rule people_ok_cong) (auto simp: save_event_def Let_def split: if_splits)

lemma move_reclassify_people [simp]:
  "people_ok (move_event d i e s) = people_ok s" "people_ok (reclassify_event d e s) = people_ok s"
  by (rule people_ok_cong; simp add: move_event_def reclassify_event_def)+

lemma ingest_event_people:
  "ingest_event newID d x st = Inr st' \<Longrightarrow> people_ok (in_db st) \<Longrightarrow> people_ok (in_db st')"
  by (auto simp: ingest_event_def Let_def save_event_people split: if_splits sum.splits) (metis ensure_people)+

lemma ingest_snapshot_people:
  "ingest_snapshot newID d x st = Inr st' \<Longrightarrow> people_ok (in_db st) \<Longrightarrow> people_ok (in_db st')"
  by (auto simp: ingest_snapshot_def Let_def split: if_splits sum.splits) (metis ensure_people)+

lemma ingest_limit_people:
  "ingest_limit newID d x st = Inr st' \<Longrightarrow> people_ok (in_db st) \<Longrightarrow> people_ok (in_db st')"
  by (auto simp: ingest_limit_def Let_def split: if_splits sum.splits) (metis ensure_people)+

lemma Ingest_people:
  assumes "Ingest newID d req s = Inr (resp, t)" "people_ok s" shows "people_ok t"
proof -
  let ?I = "\<lambda>st. people_ok (in_db st)"
  let ?st0 = "\<lparr>in_db = s, in_accounts = [], in_calls = 0, in_accepted = 0\<rparr>"
  obtain st1 st2 st3 st4 where
    f: "fold_tx (ingest_observation newID d) (rq_Observations req) ?st0 = Inr st1"
    "fold_tx (ingest_event newID d) (rq_Events req) st1 = Inr st2"
    "fold_tx (ingest_snapshot newID d) (rq_Snapshots req) st2 = Inr st3"
    "fold_tx (ingest_limit newID d) (rq_LimitEvents req) st3 = Inr st4" "t = in_db st4"
    using assms(1) by (auto simp: Ingest_def Let_def split: sum.splits)
  have "?I st1" using fold_tx_keeps[OF f(1), of ?I] ingest_observation_people assms(2) by simp
  then have "?I st2" using fold_tx_keeps[OF f(2), of ?I] ingest_event_people by blast
  then have "?I st3" using fold_tx_keeps[OF f(3), of ?I] ingest_snapshot_people by blast
  then show ?thesis unfolding f(5) using fold_tx_keeps[OF f(4), of ?I] ingest_limit_people by blast
qed

text \<open>The other operations leave both tables alone.\<close>

lemma other_people:
  "CreateInvite sha code now i ttl s = Inr (c, t) \<Longrightarrow> people_ok s \<Longrightarrow> people_ok t"
  "Pair sha i token now code name platform s = Inr (e, t) \<Longrightarrow> people_ok s \<Longrightarrow> people_ok t"
  "DeviceByToken sha now token s = Inr (sd, t) \<Longrightarrow> people_ok s \<Longrightarrow> people_ok t"
  "RevokeDevice now i s = Inr (u, t) \<Longrightarrow> people_ok s \<Longrightarrow> people_ok t"
  "SetAccountOrder ids s = Inr (u, t) \<Longrightarrow> people_ok s \<Longrightarrow> people_ok t"
  "SetAccountLabel i l s = Inr (u, t) \<Longrightarrow> people_ok s \<Longrightarrow> people_ok t"
  "SetPublicDashboard b s = Inr (u, t) \<Longrightarrow> people_ok s \<Longrightarrow> people_ok t"
  "SavePlanInterval i now v s = Inr (w, t) \<Longrightarrow> people_ok s \<Longrightarrow> people_ok t"
  "DeletePlanInterval i j s = Inr (u, t) \<Longrightarrow> people_ok s \<Longrightarrow> people_ok t"
  by (auto simp: CreateInvite_def Pair_def DeviceByToken_def RevokeDevice_def SetAccountOrder_def SetAccountLabel_def
      SetPublicDashboard_def SavePlanInterval_def store_interval_def DeletePlanInterval_def people_ok_def Let_def
      split: if_splits option.splits)

lemma server_step_people:
  assumes "people_ok s" "server_step s t" shows "people_ok t"
  using assms(2,1)
  by (cases rule: server_step.cases)
    (auto intro: AddPerson_people DeletePerson_people DeleteAccount_people SetShareWeight_people Ingest_people other_people)

interpretation people: kept server_step empty_db people_ok
  by unfold_locales (simp add: people_ok_def empty_db_def, fact server_step_people)

end
