(* ===== verification/Rolling.thy ===== *)
theory Rolling
  imports Quota
begin

text \<open>
  \<open>Rolling\<close> of \<open>internal/quota/capacity.go\<close>: the workload of a sliding window over an
  analysis period, computed by a sweep over the instants where the window gains or loses a
  request. The reference is \<open>demand_at\<close>, the weight of the requests in \<open>(t - window, t]\<close>.
  The guards against NaN and infinite weights have no counterpart, as weights are exact.
\<close>

section \<open>The code\<close>

record demand =
  dm_At :: time
  dm_Weight :: f64

record demand_span =
  sp_Start :: time
  sp_End :: time
  sp_Weight :: f64

record rolling_usage =
  ru_Peak :: f64
  ru_PeakAt :: time
  ru_P50 :: f64
  ru_P90 :: f64
  ru_P95 :: f64
  ru_P99 :: f64
  ru_Spans :: "demand_span list"

definition zero_rolling :: rolling_usage where
  "zero_rolling = \<lparr>ru_Peak = 0, ru_PeakAt = zero_time, ru_P50 = 0, ru_P90 = 0, ru_P95 = 0, ru_P99 = 0, ru_Spans = []\<rparr>"

type_synonym change = "time \<times> f64"

definition changes_of :: "time \<Rightarrow> time \<Rightarrow> duration \<Rightarrow> demand \<Rightarrow> change list" where
  "changes_of start end window e =
     (if dm_Weight e \<le> 0 then []
      else if dm_At e < end \<and> dm_At e + window > start
      then [(dm_At e, dm_Weight e), (dm_At e + window, - dm_Weight e)] else [])"

fun absorb :: "(time \<Rightarrow> bool) \<Rightarrow> change list \<Rightarrow> f64 \<Rightarrow> f64 \<times> change list" where
  "absorb p [] current = (current, [])"
| "absorb p ((t, w) # cs) current = (if p t then absorb p cs (current + w) else (current, (t, w) # cs))"

record sweep =
  sw_Spans :: "demand_span list"
  sw_last :: time
  sw_current :: f64
  sw_Peak :: f64
  sw_PeakAt :: time

lemma absorb_eq: "absorb p cs current =
    (current + sum_list (map snd (takeWhile (p \<circ> fst) cs)), dropWhile (p \<circ> fst) cs)"
  by (induction p cs current rule: absorb.induct) auto

function sweep_loop :: "time \<Rightarrow> change list \<Rightarrow> sweep \<Rightarrow> sweep" where
  "sweep_loop end [] s = s"
| "sweep_loop end ((tc, w) # cs) s =
     (if \<not> tc < end then s
      else let spans = (if tc > sw_last s
             then sw_Spans s @ [\<lparr>sp_Start = sw_last s, sp_End = tc, sp_Weight = sw_current s\<rparr>] else sw_Spans s);
           (current, rest) = absorb (\<lambda>t. t = tc) ((tc, w) # cs) (sw_current s);
           current = max 0 current
      in sweep_loop end rest \<lparr>sw_Spans = spans, sw_last = tc, sw_current = current,
           sw_Peak = (if current > sw_Peak s then current else sw_Peak s),
           sw_PeakAt = (if current > sw_Peak s then tc else sw_PeakAt s)\<rparr>)"
  by pat_completeness auto
termination
  by (relation "measure (\<lambda>(end, cs, s). length cs)") (auto simp: absorb_eq le_imp_less_Suc length_dropWhile_le)

fun percentile_loop :: "f64 \<Rightarrow> f64 \<Rightarrow> demand_span list \<Rightarrow> f64 option" where
  "percentile_loop threshold elapsed [] = None"
| "percentile_loop threshold elapsed (s # ss) =
     (let elapsed = elapsed + seconds_of (time_sub (sp_End s) (sp_Start s)) in
      if elapsed \<ge> threshold then Some (sp_Weight s) else percentile_loop threshold elapsed ss)"

definition percentile :: "f64 \<Rightarrow> demand_span list \<Rightarrow> f64 \<Rightarrow> f64" where
  "percentile totalSeconds ranked p =
     (if totalSeconds \<le> 0 then 0
      else case percentile_loop (totalSeconds * p) 0 ranked of
        Some w \<Rightarrow> w
      | None \<Rightarrow> if ranked \<noteq> [] then sp_Weight (last ranked) else 0)"

definition Rolling :: "demand list \<Rightarrow> time \<Rightarrow> time \<Rightarrow> duration \<Rightarrow> rolling_usage" where
  "Rolling events start end window =
     (if \<not> end > start \<or> window \<le> 0 then zero_rolling
      else let
        changes = sort_by (\<lambda>a b. fst a < fst b) (concat (map (changes_of start end window) events));
        (current, rest) = absorb (\<lambda>t. \<not> t > start) changes 0;
        current = max 0 current;
        s = sweep_loop end rest \<lparr>sw_Spans = [], sw_last = start, sw_current = current,
              sw_Peak = current, sw_PeakAt = start\<rparr>;
        spans = sw_Spans s @ [\<lparr>sp_Start = sw_last s, sp_End = end, sp_Weight = sw_current s\<rparr>];
        ranked = sort_by (\<lambda>a b. sp_Weight a < sp_Weight b) spans;
        total = seconds_of (time_sub end start)
      in \<lparr>ru_Peak = sw_Peak s, ru_PeakAt = sw_PeakAt s,
           ru_P50 = percentile total ranked (50 / 100), ru_P90 = percentile total ranked (90 / 100),
           ru_P95 = percentile total ranked (95 / 100), ru_P99 = percentile total ranked (99 / 100),
           ru_Spans = spans\<rparr>)"

section \<open>The reference\<close>

definition demand_at :: "demand list \<Rightarrow> duration \<Rightarrow> time \<Rightarrow> f64" where
  "demand_at events window t =
     sum_list (map dm_Weight (filter (\<lambda>e. 0 < dm_Weight e \<and> t - window < dm_At e \<and> dm_At e \<le> t) events))"

text \<open>The spans of a period follow one another without gap.\<close>

fun tiles :: "time \<Rightarrow> time \<Rightarrow> demand_span list \<Rightarrow> bool" where
  "tiles s e [] \<longleftrightarrow> s = e"
| "tiles s e (x # xs) \<longleftrightarrow> sp_Start x = s \<and> s < sp_End x \<and> tiles (sp_End x) e xs"

lemma tiles_snoc: "tiles s m xs \<Longrightarrow> sp_Start x = m \<Longrightarrow> m < sp_End x \<Longrightarrow> tiles s (sp_End x) (xs @ [x])"
  by (induction xs arbitrary: s) auto

lemma tiles_le: "tiles s e xs \<Longrightarrow> s \<le> e"
  by (induction xs arbitrary: s) force+

lemma tiles_mem: "tiles s e xs \<Longrightarrow> x \<in> set xs \<Longrightarrow> s \<le> sp_Start x \<and> sp_Start x < sp_End x \<and> sp_End x \<le> e"
  by (induction xs arbitrary: s) (fastforce dest: tiles_le)+

lemma tiles_cover: "tiles s e xs \<Longrightarrow> s \<le> t \<Longrightarrow> t < e \<Longrightarrow> \<exists>x \<in> set xs. sp_Start x \<le> t \<and> t < sp_End x"
  by (induction xs arbitrary: s) fastforce+

lemma tiles_sum: "tiles s e xs \<Longrightarrow> sum_list (map (\<lambda>x. sp_End x - sp_Start x) xs) = e - s"
  by (induction xs arbitrary: s) auto

section \<open>The sweep computes the reference\<close>

definition level :: "change list \<Rightarrow> time \<Rightarrow> f64" where
  "level cs t = sum_list (map snd (filter (\<lambda>c. fst c \<le> t) cs))"

lemma level_append [simp]: "level (xs @ ys) t = level xs t + level ys t"
  by (simp add: level_def)

lemma level_mset: "mset xs = mset ys \<Longrightarrow> level xs t = level ys t"
proof -
  assume eq: "mset xs = mset ys"
  have "sum_mset (mset (map snd (filter (\<lambda>c. fst c \<le> t) xs))) = sum_mset (mset (map snd (filter (\<lambda>c. fst c \<le> t) ys)))"
    by (simp only: mset_map mset_filter eq)
  then show ?thesis by (simp only: level_def sum_mset_sum_list)
qed

lemma level_none: "\<forall>c \<in> set cs. t < fst c \<Longrightarrow> level cs t = 0"
  by (simp add: level_def filter_empty_conv not_le[symmetric])

lemma level_all: "\<forall>c \<in> set cs. fst c \<le> t \<Longrightarrow> level cs t = sum_list (map snd cs)"
  by (simp add: level_def)

lemma level_changes_of:
  assumes "0 < window" "start \<le> t" "t < end"
  shows "level (changes_of start end window e) t =
    (if 0 < dm_Weight e \<and> t - window < dm_At e \<and> dm_At e \<le> t then dm_Weight e else 0)"
  using assms by (auto simp: changes_of_def level_def)

lemma level_changes:
  assumes "0 < window" "start \<le> t" "t < end"
  shows "level (concat (map (changes_of start end window) events)) t = demand_at events window t"
proof (induction events)
  case Nil
  then show ?case by (simp add: level_def demand_at_def)
next
  case (Cons e es)
  then show ?case using level_changes_of[OF assms, of e] by (simp add: demand_at_def)
qed

lemma demand_at_nonneg: "0 \<le> demand_at events window t"
  unfolding demand_at_def by (rule sum_list_nonneg) auto

text \<open>The invariant of the sweep, for a demand function D, with the changes still to come.\<close>

definition swept :: "(time \<Rightarrow> f64) \<Rightarrow> time \<Rightarrow> time \<Rightarrow> change list \<Rightarrow> sweep \<Rightarrow> bool" where
  "swept D start end cs s \<longleftrightarrow>
     tiles start (sw_last s) (sw_Spans s) \<and> sw_last s < end \<and>
     (\<forall>x \<in> set (sw_Spans s). \<forall>t. sp_Start x \<le> t \<and> t < sp_End x \<longrightarrow> D t = sp_Weight x) \<and>
     (\<forall>t. sw_last s \<le> t \<and> t < end \<longrightarrow> D t = sw_current s + level cs t) \<and>
     (\<forall>c \<in> set cs. sw_last s < fst c) \<and> sorted_wrt (\<lambda>a b. fst a \<le> fst b) cs \<and>
     start \<le> sw_PeakAt s \<and> sw_PeakAt s \<le> sw_last s \<and> D (sw_PeakAt s) = sw_Peak s \<and>
     (\<forall>t. start \<le> t \<and> t \<le> sw_last s \<longrightarrow> D t \<le> sw_Peak s) \<and>
     (\<forall>t. start \<le> t \<and> t < sw_PeakAt s \<longrightarrow> D t < sw_Peak s)"

lemma swept_last: "swept D start end cs s \<Longrightarrow> start \<le> sw_last s \<and> D (sw_last s) \<le> sw_Peak s"
proof -
  assume inv: "swept D start end cs s"
  then have "tiles start (sw_last s) (sw_Spans s)" by (simp add: swept_def)
  then have "start \<le> sw_last s" by (rule tiles_le)
  moreover have "\<forall>t. start \<le> t \<and> t \<le> sw_last s \<longrightarrow> D t \<le> sw_Peak s"
    using inv unfolding swept_def by blast
  ultimately show ?thesis by simp
qed

lemma swept_constant:
  assumes "swept D start end ((tc, w) # cs) s" "sw_last s \<le> t" "t < tc" "t < end"
  shows "D t = sw_current s"
proof -
  have "\<forall>c \<in> set ((tc, w) # cs). t < fst c"
    using assms(1,3) by (fastforce simp: swept_def)
  with assms show ?thesis by (simp add: swept_def level_none)
qed

lemma swept_step:
  assumes inv: "swept D start end ((tc, w) # cs) s" and tc: "tc < end" and nonneg: "\<And>t. 0 \<le> D t"
    and s': "s' = \<lparr>sw_Spans = sw_Spans s @ [\<lparr>sp_Start = sw_last s, sp_End = tc, sp_Weight = sw_current s\<rparr>],
       sw_last = tc, sw_current = max 0 current,
       sw_Peak = (if max 0 current > sw_Peak s then max 0 current else sw_Peak s),
       sw_PeakAt = (if max 0 current > sw_Peak s then tc else sw_PeakAt s)\<rparr>"
    and ab: "absorb (\<lambda>t. t = tc) ((tc, w) # cs) (sw_current s) = (current, rest)"
  shows "swept D start end rest s'"
proof -
  let ?cs = "(tc, w) # cs" and ?p = "(\<lambda>t. t = tc) \<circ> fst"
  have last: "sw_last s < tc" and sorted: "sorted_wrt (\<lambda>a b. fst a \<le> fst b) ?cs"
    using inv by (auto simp: swept_def)
  have split: "?cs = takeWhile ?p ?cs @ rest" "rest = dropWhile ?p ?cs"
    and current: "current = sw_current s + sum_list (map snd (takeWhile ?p ?cs))"
    using ab by (auto simp: absorb_eq)
  have grp: "\<forall>c \<in> set (takeWhile ?p ?cs). fst c = tc" by (auto dest: set_takeWhileD)
  have srt: "sorted_wrt (\<lambda>a b. fst a \<le> fst b) rest"
    using sorted split(1) by (metis sorted_wrt_append)
  have ge: "\<forall>c \<in> set ?cs. tc \<le> fst c" using sorted by auto
  have gt: "\<forall>c \<in> set rest. tc < fst c"
  proof (cases rest)
    case (Cons r rs)
    then have "\<not> ?p r" using split(2) by (metis dropWhile_eq_Cons_conv)
    moreover have "r \<in> set ?cs" using Cons split(1) by (metis Un_iff list.set_intros(1) set_append)
    ultimately have "tc < fst r" using ge by fastforce
    with Cons srt show ?thesis by auto
  qed simp
  have lv: "level ?cs t = sum_list (map snd (takeWhile ?p ?cs)) + level rest t" if "tc \<le> t" for t
    using level_append[of "takeWhile ?p ?cs" rest t] split(1) grp that by (simp add: level_all)
  have Dt: "D t = current + level rest t" if "tc \<le> t" "t < end" for t
    using inv lv[OF that(1)] that last current by (simp add: swept_def)
  have cur: "D tc = current" using Dt[of tc] tc level_none[of rest tc] gt by simp
  with nonneg[of tc] have "max 0 current = current" by simp
  note cons = swept_constant[OF inv]
  have Dlt: "D t \<le> sw_Peak s" if "start \<le> t" "t < tc" for t
  proof (cases "t \<le> sw_last s")
    case True
    with inv that show ?thesis by (simp add: swept_def)
  next
    case False
    then have "D t = D (sw_last s)" using cons that last tc by simp
    with swept_last[OF inv] show ?thesis by simp
  qed
  have tl: "tiles start tc (sw_Spans s @ [\<lparr>sp_Start = sw_last s, sp_End = tc, sp_Weight = sw_current s\<rparr>])"
    using tiles_snoc[of start "sw_last s" "sw_Spans s"
        "\<lparr>sp_Start = sw_last s, sp_End = tc, sp_Weight = sw_current s\<rparr>"] inv last
    by (simp add: swept_def)
  have st: "start \<le> sw_last s" using swept_last[OF inv] by simp
  have weights: "\<forall>x \<in> set (sw_Spans s @ [\<lparr>sp_Start = sw_last s, sp_End = tc, sp_Weight = sw_current s\<rparr>]).
      \<forall>t. sp_Start x \<le> t \<and> t < sp_End x \<longrightarrow> D t = sp_Weight x"
    using inv cons tc by (auto simp: swept_def)
  have pk: "start \<le> sw_PeakAt s" "sw_PeakAt s \<le> sw_last s" "D (sw_PeakAt s) = sw_Peak s"
    "\<And>t. start \<le> t \<Longrightarrow> t < sw_PeakAt s \<Longrightarrow> D t < sw_Peak s"
    using inv unfolding swept_def by blast+
  have s'_simps: "sw_Spans s' = sw_Spans s @ [\<lparr>sp_Start = sw_last s, sp_End = tc, sp_Weight = sw_current s\<rparr>]"
    "sw_last s' = tc" "sw_current s' = current"
    "sw_Peak s' = (if current > sw_Peak s then current else sw_Peak s)"
    "sw_PeakAt s' = (if current > sw_Peak s then tc else sw_PeakAt s)"
    unfolding s' \<open>max 0 current = current\<close> by simp_all
  have peak: "start \<le> sw_PeakAt s' \<and> sw_PeakAt s' \<le> tc \<and> D (sw_PeakAt s') = sw_Peak s'"
    unfolding s'_simps using pk cur st last by simp
  have below: "D t \<le> sw_Peak s'" if "start \<le> t" "t \<le> tc" for t
  proof (cases "t = tc")
    case True
    with cur show ?thesis unfolding s'_simps by simp
  next
    case False
    with Dlt[OF that(1)] that(2) show ?thesis unfolding s'_simps by simp
  qed
  have first: "D t < sw_Peak s'" if "start \<le> t" "t < sw_PeakAt s'" for t
  proof (cases "current > sw_Peak s")
    case True
    with that have "t < tc" unfolding s'_simps by simp
    from Dlt[OF that(1) this] True show ?thesis unfolding s'_simps by simp
  next
    case False
    with that pk(4) show ?thesis unfolding s'_simps by simp
  qed
  show ?thesis
    unfolding swept_def s'_simps(1,2,3) using tl tc weights Dt gt srt peak below first by blast
qed

lemma sweep_loop_swept:
  assumes "swept D start end cs s" "\<And>t. 0 \<le> D t"
  shows "\<exists>cs'. swept D start end cs' (sweep_loop end cs s) \<and> (\<forall>c \<in> set cs'. end \<le> fst c)"
  using assms(1)
proof (induction "end" cs s rule: sweep_loop.induct)
  case (1 e s)
  then show ?case by auto
next
  case (2 e tc w cs s)
  show ?case
  proof (cases "tc < e")
    case False
    have "\<forall>c \<in> set ((tc, w) # cs). e \<le> fst c"
      using 2(2) False by (fastforce simp: swept_def)
    with False 2(2) show ?thesis by (auto intro!: exI[of _ "(tc, w) # cs"])
  next
    case True
    obtain current rest where ab: "absorb (\<lambda>t. t = tc) ((tc, w) # cs) (sw_current s) = (current, rest)"
      by (cases "absorb (\<lambda>t. t = tc) ((tc, w) # cs) (sw_current s)") auto
    have last: "tc > sw_last s" using 2(2) by (simp add: swept_def)
    note step = swept_step[OF 2(2) True assms(2) refl ab]
    from 2(1)[of "sw_Spans s @ [\<lparr>sp_Start = sw_last s, sp_End = tc, sp_Weight = sw_current s\<rparr>]" "(current, rest)"
        current rest "max 0 current"] True last ab step
    show ?thesis by (simp add: Let_def del: absorb.simps)
  qed
qed

lemma swept_finish:
  assumes "swept D start end cs s" "\<forall>c \<in> set cs. end \<le> fst c"
  defines "spans \<equiv> sw_Spans s @ [\<lparr>sp_Start = sw_last s, sp_End = end, sp_Weight = sw_current s\<rparr>]"
  shows "tiles start end spans"
    "x \<in> set spans \<Longrightarrow> sp_Start x \<le> t \<Longrightarrow> t < sp_End x \<Longrightarrow> D t = sp_Weight x"
    "start \<le> t \<Longrightarrow> t < end \<Longrightarrow> D t \<le> sw_Peak s"
proof -
  have last: "D t = sw_current s" if "sw_last s \<le> t" "t < end" for t
  proof -
    have "\<forall>c \<in> set cs. t < fst c" using assms(2) that by auto
    with assms(1) that show ?thesis by (simp add: swept_def level_none)
  qed
  show "tiles start end spans"
    using tiles_snoc[of start "sw_last s" "sw_Spans s"
        "\<lparr>sp_Start = sw_last s, sp_End = end, sp_Weight = sw_current s\<rparr>"] assms(1)
    by (simp add: swept_def spans_def)
  show "x \<in> set spans \<Longrightarrow> sp_Start x \<le> t \<Longrightarrow> t < sp_End x \<Longrightarrow> D t = sp_Weight x"
    using assms(1) last by (auto simp: spans_def swept_def)
  show "D t \<le> sw_Peak s" if "start \<le> t" "t < end"
  proof (cases "t \<le> sw_last s")
    case True
    with assms(1) that show ?thesis by (simp add: swept_def)
  next
    case False
    then have "D t = D (sw_last s)" using last that by simp
    with swept_last[OF assms(1)] show ?thesis by simp
  qed
qed


lemma swept_init:
  assumes "start < end" "0 < window"
    and cs: "cs = sort_by (\<lambda>a b. fst a < fst b) (concat (map (changes_of start end window) events))"
    and ab: "absorb (\<lambda>t. \<not> t > start) cs 0 = (current, rest)"
  shows "swept (demand_at events window) start end rest
    \<lparr>sw_Spans = [], sw_last = start, sw_current = max 0 current, sw_Peak = max 0 current, sw_PeakAt = start\<rparr>"
proof -
  let ?D = "demand_at events window" and ?p = "(\<lambda>t. \<not> t > start) \<circ> fst"
  have sorted: "sorted_wrt (\<lambda>a b. fst a \<le> fst b) cs" unfolding cs by (rule sorted_sort_by_key)
  have split: "cs = takeWhile ?p cs @ rest" and rest: "rest = dropWhile ?p cs"
    and current: "current = sum_list (map snd (takeWhile ?p cs))"
    using ab by (auto simp: absorb_eq)
  have seen: "\<forall>c \<in> set (takeWhile ?p cs). fst c \<le> start" by (auto dest: set_takeWhileD)
  have srt: "sorted_wrt (\<lambda>a b. fst a \<le> fst b) rest" using sorted split by (metis sorted_wrt_append)
  have gt: "\<forall>c \<in> set rest. start < fst c"
  proof (cases rest)
    case (Cons r rs)
    then have "\<not> ?p r" using rest by (metis dropWhile_eq_Cons_conv)
    with Cons srt show ?thesis by auto
  qed simp
  have Dt: "?D t = current + level rest t" if "start \<le> t" "t < end" for t
  proof -
    have "?D t = level cs t"
      unfolding cs level_mset[OF mset_sort_by] by (rule level_changes[OF assms(2) that, symmetric])
    also have "\<dots> = level (takeWhile ?p cs) t + level rest t"
      using level_append[of "takeWhile ?p cs" rest t] split by simp
    also have "level (takeWhile ?p cs) t = current"
      unfolding current using seen that(1) by (intro level_all) auto
    finally show ?thesis .
  qed
  have "?D start = current" using Dt[of start] assms(1) level_none[of rest start] gt by simp
  with demand_at_nonneg[of events window start] have "max 0 current = current" by simp
  with Dt gt srt assms(1) \<open>?D start = current\<close> show ?thesis by (auto simp: swept_def)
qed

text \<open>What \<open>Rolling\<close> returns on a proper period and window, with the facts of the finished sweep.\<close>

lemma Rolling_result:
  assumes "start < end" "0 < window"
  obtains s where
    "ru_Spans (Rolling events start end window) =
       sw_Spans s @ [\<lparr>sp_Start = sw_last s, sp_End = end, sp_Weight = sw_current s\<rparr>]"
    "ru_Peak (Rolling events start end window) = sw_Peak s"
    "ru_PeakAt (Rolling events start end window) = sw_PeakAt s"
    "\<exists>cs. swept (demand_at events window) start end cs s \<and> (\<forall>c \<in> set cs. end \<le> fst c)"
proof -
  define cs where "cs = sort_by (\<lambda>a b. fst a < fst b) (concat (map (changes_of start end window) events))"
  obtain current rest where ab: "absorb (\<lambda>t. \<not> t > start) cs 0 = (current, rest)"
    by (cases "absorb (\<lambda>t. \<not> t > start) cs 0") auto
  define s where "s = sweep_loop end rest \<lparr>sw_Spans = [], sw_last = start, sw_current = max 0 current,
      sw_Peak = max 0 current, sw_PeakAt = start\<rparr>"
  have "\<exists>cs. swept (demand_at events window) start end cs s \<and> (\<forall>c \<in> set cs. end \<le> fst c)"
    unfolding s_def
    by (rule sweep_loop_swept[OF swept_init[OF assms cs_def ab] demand_at_nonneg])
  moreover have "ru_Spans (Rolling events start end window) =
       sw_Spans s @ [\<lparr>sp_Start = sw_last s, sp_End = end, sp_Weight = sw_current s\<rparr>]"
    "ru_Peak (Rolling events start end window) = sw_Peak s"
    "ru_PeakAt (Rolling events start end window) = sw_PeakAt s"
    using assms by (simp_all add: Rolling_def Let_def ab s_def flip: cs_def)
  ultimately show thesis using that by blast
qed

lemma rolling_spans:
  assumes "start < end" "0 < window"
  shows "tiles start end (ru_Spans (Rolling events start end window)) \<and>
    (\<forall>t. start \<le> t \<and> t < end \<longrightarrow>
      (\<exists>x \<in> set (ru_Spans (Rolling events start end window)). sp_Start x \<le> t \<and> t < sp_End x)) \<and>
    (\<forall>x \<in> set (ru_Spans (Rolling events start end window)). \<forall>t.
      sp_Start x \<le> t \<and> t < sp_End x \<longrightarrow> demand_at events window t = sp_Weight x)"
proof -
  from Rolling_result[OF assms, of events] obtain s cs where
    r: "ru_Spans (Rolling events start end window) =
       sw_Spans s @ [\<lparr>sp_Start = sw_last s, sp_End = end, sp_Weight = sw_current s\<rparr>]"
    and sw: "swept (demand_at events window) start end cs s" "\<forall>c \<in> set cs. end \<le> fst c"
    by metis
  from swept_finish(1,2)[OF sw] show ?thesis
    unfolding r using tiles_cover by blast
qed

lemma rolling_peak_facts:
  assumes "start < end" "0 < window" "r = Rolling events start end window"
  shows "start \<le> ru_PeakAt r \<and> ru_PeakAt r < end \<and> demand_at events window (ru_PeakAt r) = ru_Peak r \<and>
    (\<forall>t. start \<le> t \<and> t < end \<longrightarrow> demand_at events window t \<le> ru_Peak r) \<and>
    (\<forall>t. start \<le> t \<and> t < ru_PeakAt r \<longrightarrow> demand_at events window t < ru_Peak r)"
proof -
  from Rolling_result[OF assms(1,2), of events] obtain s cs where
    r: "ru_Peak r = sw_Peak s" "ru_PeakAt r = sw_PeakAt s"
    and sw: "swept (demand_at events window) start end cs s" "\<forall>c \<in> set cs. end \<le> fst c"
    unfolding assms(3) by metis
  have "start \<le> sw_PeakAt s" "sw_PeakAt s \<le> sw_last s" "sw_last s < end"
    "demand_at events window (sw_PeakAt s) = sw_Peak s"
    "\<forall>t. start \<le> t \<and> t < sw_PeakAt s \<longrightarrow> demand_at events window t < sw_Peak s"
    using sw(1) unfolding swept_def by blast+
  with swept_finish(3)[OF sw] show ?thesis unfolding r by simp
qed

text \<open>
  C35. The sweep is the sliding window: the spans tile the period from its start to its end,
  and at every instant of a span the weight of the requests in \<open>(t - window, t]\<close> is the span's
  weight. So the breakpoints, the order in which coinciding changes are applied and the
  requests before the period lose and add nothing.
\<close>

theorem Rolling_is_sliding_window:
  assumes "start < end" "0 < window"
  shows "tiles start end (ru_Spans (Rolling events start end window)) \<and>
    (\<forall>t. start \<le> t \<and> t < end \<longrightarrow>
      (\<exists>x \<in> set (ru_Spans (Rolling events start end window)). sp_Start x \<le> t \<and> t < sp_End x)) \<and>
    (\<forall>x \<in> set (ru_Spans (Rolling events start end window)). \<forall>t.
      sp_Start x \<le> t \<and> t < sp_End x \<longrightarrow> demand_at events window t = sp_Weight x)"
  using assms by (rule rolling_spans)

definition demo_events :: "demand list" where
  "demo_events = [\<lparr>dm_At = 0, dm_Weight = 3\<rparr>, \<lparr>dm_At = 12, dm_Weight = 4\<rparr>, \<lparr>dm_At = 15, dm_Weight = 2\<rparr>]"

lemma demo_spans: "ru_Spans (Rolling demo_events 5 30 10) =
    [\<lparr>sp_Start = 5, sp_End = 10, sp_Weight = 3\<rparr>, \<lparr>sp_Start = 10, sp_End = 12, sp_Weight = 0\<rparr>,
     \<lparr>sp_Start = 12, sp_End = 15, sp_Weight = 4\<rparr>, \<lparr>sp_Start = 15, sp_End = 22, sp_Weight = 6\<rparr>,
     \<lparr>sp_Start = 22, sp_End = 25, sp_Weight = 2\<rparr>, \<lparr>sp_Start = 25, sp_End = 30, sp_Weight = 0\<rparr>]"
  by (simp add: Rolling_def changes_of_def demo_events_def Let_def)

theorem Rolling_is_sliding_window_witness:
  "demand_at demo_events 10 20 = 6 \<and> demand_at demo_events 10 11 = 0"
proof -
  have w: "x \<in> set (ru_Spans (Rolling demo_events 5 30 10)) \<Longrightarrow> sp_Start x \<le> t \<and> t < sp_End x \<Longrightarrow>
      demand_at demo_events 10 t = sp_Weight x" for x t
    using Rolling_is_sliding_window[of 5 30 10 demo_events] by simp
  from w[of "\<lparr>sp_Start = 15, sp_End = 22, sp_Weight = 6\<rparr>" 20] w[of "\<lparr>sp_Start = 10, sp_End = 12, sp_Weight = 0\<rparr>" 11]
  show ?thesis by (simp add: demo_spans)
qed

text \<open>
  The peak is the largest sliding-window demand of the period, \<open>PeakAt\<close> an instant of the
  period where it is reached, and the first one.
\<close>

theorem Rolling_peak:
  assumes "start < end" "0 < window" "r = Rolling events start end window"
  shows "start \<le> ru_PeakAt r \<and> ru_PeakAt r < end \<and> demand_at events window (ru_PeakAt r) = ru_Peak r \<and>
    (\<forall>t. start \<le> t \<and> t < end \<longrightarrow> demand_at events window t \<le> ru_Peak r) \<and>
    (\<forall>t. start \<le> t \<and> t < ru_PeakAt r \<longrightarrow> demand_at events window t < ru_Peak r)"
  using assms by (rule rolling_peak_facts)

theorem Rolling_peak_witness:
  "ru_PeakAt (Rolling demo_events 5 30 10) < 30 \<and>
   demand_at demo_events 10 (ru_PeakAt (Rolling demo_events 5 30 10)) = 6"
proof -
  have "ru_Peak (Rolling demo_events 5 30 10) = 6"
    by (simp add: Rolling_def changes_of_def demo_events_def Let_def)
  with Rolling_peak[of 5 30 10 "Rolling demo_events 5 30 10" demo_events] show ?thesis by simp
qed

section \<open>Percentiles\<close>

text \<open>The time the period spent on spans whose weight satisfies a condition.\<close>

definition time_where :: "(f64 \<Rightarrow> bool) \<Rightarrow> demand_span list \<Rightarrow> f64" where
  "time_where P spans = sum_list (map (\<lambda>x. seconds_of (sp_End x - sp_Start x)) (filter (\<lambda>x. P (sp_Weight x)) spans))"

text \<open>w is the p-th percentile of the spans, weighted by time, of a total T.\<close>

definition is_percentile :: "demand_span list \<Rightarrow> f64 \<Rightarrow> f64 \<Rightarrow> f64 \<Rightarrow> bool" where
  "is_percentile spans T p w \<longleftrightarrow> w \<in> sp_Weight ` set spans \<and>
     p * T \<le> time_where (\<lambda>v. v \<le> w) spans \<and> time_where (\<lambda>v. v < w) spans < p * T"

definition proper_span :: "demand_span \<Rightarrow> bool" where
  "proper_span x \<longleftrightarrow> sp_Start x < sp_End x \<and> in_range (sp_End x) (sp_Start x)"

lemma proper_span_seconds:
  "proper_span x \<Longrightarrow> seconds_of (time_sub (sp_End x) (sp_Start x)) = seconds_of (sp_End x - sp_Start x) \<and>
    0 < seconds_of (sp_End x - sp_Start x)"
  by (simp add: proper_span_def seconds_of_def)

lemma time_where_nonneg: "list_all proper_span xs \<Longrightarrow> 0 \<le> time_where P xs"
  unfolding time_where_def
  by (rule sum_list_nonneg) (auto simp: list_all_iff dest!: proper_span_seconds intro: less_imp_le)

lemma time_where_mono:
  assumes "\<And>v. P v \<Longrightarrow> Q v" shows "list_all proper_span xs \<Longrightarrow> time_where P xs \<le> time_where Q xs"
proof (induction xs)
  case Nil
  then show ?case by (simp add: time_where_def)
next
  case (Cons x xs)
  then show ?case using assms[of "sp_Weight x"] proper_span_seconds[of x]
    by (auto simp: time_where_def)
qed

lemma time_where_append: "time_where P (xs @ ys) = time_where P xs + time_where P ys"
  by (simp add: time_where_def)

lemma time_where_mset: "mset xs = mset ys \<Longrightarrow> time_where P xs = time_where P ys"
  unfolding time_where_def by (metis (no_types, lifting) mset_filter mset_map sum_mset_sum_list)

lemma percentile_loop_split:
  assumes "list_all proper_span xs" "elapsed < threshold"
  shows "case percentile_loop threshold elapsed xs of
      None \<Rightarrow> elapsed + time_where (\<lambda>_. True) xs < threshold
    | Some w \<Rightarrow> \<exists>ys x zs. xs = ys @ x # zs \<and> w = sp_Weight x \<and>
        elapsed + time_where (\<lambda>_. True) ys < threshold \<and> threshold \<le> elapsed + time_where (\<lambda>_. True) (ys @ [x])"
  using assms
proof (induction xs arbitrary: elapsed)
  case Nil
  then show ?case by (simp add: time_where_def)
next
  case (Cons x xs)
  let ?e = "elapsed + seconds_of (time_sub (sp_End x) (sp_Start x))"
  have x: "?e = elapsed + time_where (\<lambda>_. True) [x]"
    using Cons.prems proper_span_seconds[of x] by (simp add: time_where_def)
  show ?case
  proof (cases "?e \<ge> threshold")
    case True
    have "x # xs = [] @ x # xs" by simp
    with True x Cons.prems(2) show ?thesis
      by (force simp: Let_def time_where_def intro: exI[of _ "[]"])
  next
    case False
    have loop: "percentile_loop threshold elapsed (x # xs) = percentile_loop threshold ?e xs"
      using False by (simp add: Let_def)
    have cons: "time_where (\<lambda>_. True) (x # us) = time_where (\<lambda>_. True) [x] + time_where (\<lambda>_. True) us" for us
      by (simp add: time_where_def)
    from Cons.IH[of ?e] Cons.prems False
    have IH: "case percentile_loop threshold ?e xs of
        None \<Rightarrow> ?e + time_where (\<lambda>_. True) xs < threshold
      | Some w \<Rightarrow> \<exists>ys x zs. xs = ys @ x # zs \<and> w = sp_Weight x \<and>
          ?e + time_where (\<lambda>_. True) ys < threshold \<and> threshold \<le> ?e + time_where (\<lambda>_. True) (ys @ [x])"
      by simp
    show ?thesis
    proof (cases "percentile_loop threshold ?e xs")
      case None
      with IH loop x cons[of xs] show ?thesis by (simp add: add.assoc)
    next
      case (Some w)
      with IH obtain ys y zs where "xs = ys @ y # zs" "w = sp_Weight y"
        "?e + time_where (\<lambda>_. True) ys < threshold" "threshold \<le> ?e + time_where (\<lambda>_. True) (ys @ [y])"
        by auto
      with x cons[of ys] cons[of "ys @ [y]"]
      have "x # xs = (x # ys) @ y # zs \<and> w = sp_Weight y \<and>
          elapsed + time_where (\<lambda>_. True) (x # ys) < threshold \<and>
          threshold \<le> elapsed + time_where (\<lambda>_. True) ((x # ys) @ [y])"
        by (simp add: add.assoc)
      then show ?thesis unfolding loop Some option.case by blast
    qed
  qed
qed

lemma percentile_correct:
  assumes "list_all proper_span spans" "T = time_where (\<lambda>_. True) spans" "0 < T" "0 < p" "p \<le> 1"
  shows "is_percentile spans T p (percentile T (sort_by (\<lambda>a b. sp_Weight a < sp_Weight b) spans) p)"
proof -
  let ?r = "sort_by (\<lambda>a b. sp_Weight a < sp_Weight b) spans"
  have sorted: "sorted_wrt (\<lambda>a b. sp_Weight a \<le> sp_Weight b) ?r" by (rule sorted_sort_by_key)
  have proper: "list_all proper_span ?r" using assms(1) by (simp add: list_all_iff)
  have tw: "time_where P ?r = time_where P spans" for P by (rule time_where_mset) simp
  have pT: "T * p \<le> T" "0 < T * p" using assms(3,4,5) by (simp_all add: mult_left_le)
  note split = percentile_loop_split[OF proper pT(2)]
  have "percentile_loop (T * p) 0 ?r \<noteq> None"
  proof
    assume "percentile_loop (T * p) 0 ?r = None"
    with split have "time_where (\<lambda>_. True) ?r < T * p" by simp
    with tw[of "\<lambda>_. True"] assms(2) pT(1) show False by linarith
  qed
  with split obtain ys x zs where r: "?r = ys @ x # zs"
    and loop: "percentile_loop (T * p) 0 ?r = Some (sp_Weight x)"
    and le: "time_where (\<lambda>_. True) ys < T * p" "T * p \<le> time_where (\<lambda>_. True) (ys @ [x])"
    by fastforce
  let ?w = "sp_Weight x"
  have ord: "\<forall>y \<in> set ys. sp_Weight y \<le> ?w" "\<forall>z \<in> set zs. ?w \<le> sp_Weight z"
    using sorted unfolding r by (auto simp: sorted_wrt_append)
  have "time_where (\<lambda>_. True) (ys @ [x]) = time_where (\<lambda>v. v \<le> ?w) (ys @ [x])"
    using ord(1) by (simp add: time_where_def)
  also have "\<dots> \<le> time_where (\<lambda>v. v \<le> ?w) ?r"
    using proper time_where_nonneg[of zs] unfolding r
    by (simp add: time_where_append[of _ "ys @ [x]" zs, simplified])
  finally have hi: "p * T \<le> time_where (\<lambda>v. v \<le> ?w) spans"
    using le(2) tw by (simp add: mult.commute)
  have "time_where (\<lambda>v. v < ?w) ?r = time_where (\<lambda>v. v < ?w) ys"
    using ord(2) unfolding r by (auto simp: time_where_def filter_empty_conv not_less[symmetric])
  also have "\<dots> \<le> time_where (\<lambda>_. True) ys"
    using proper unfolding r by (intro time_where_mono) simp_all
  finally have lo: "time_where (\<lambda>v. v < ?w) spans < p * T"
    using le(1) tw by (simp add: mult.commute)
  have "x \<in> set spans" using r by (metis in_set_conv_decomp set_sort_by)
  with hi lo loop assms(3) show ?thesis by (auto simp: is_percentile_def percentile_def)
qed

lemma is_percentile_mono:
  assumes "is_percentile spans T p w" "is_percentile spans T q v" "p \<le> q" "0 \<le> T" "list_all proper_span spans"
  shows "w \<le> v"
proof (rule ccontr)
  assume "\<not> w \<le> v"
  then have "time_where (\<lambda>u. u \<le> v) spans \<le> time_where (\<lambda>u. u < w) spans"
    by (intro time_where_mono) (use assms(5) in auto)
  moreover have "p * T \<le> q * T" using assms(3,4) by (rule mult_right_mono)
  ultimately show False using assms(1,2) by (simp add: is_percentile_def)
qed

text \<open>
  The percentiles are weighted by elapsed time: P50 is the least span weight such that
  the demand stayed at or below it for half of the period, and so on; they never decrease
  from P50 to P99 and never exceed the peak.
\<close>

theorem Rolling_percentiles:
  assumes "start < end" "0 < window" "in_range end start" "r = Rolling events start end window"
    "T = seconds_of (end - start)"
  shows "is_percentile (ru_Spans r) T (50 / 100) (ru_P50 r) \<and> is_percentile (ru_Spans r) T (90 / 100) (ru_P90 r) \<and>
    is_percentile (ru_Spans r) T (95 / 100) (ru_P95 r) \<and> is_percentile (ru_Spans r) T (99 / 100) (ru_P99 r) \<and>
    ru_P50 r \<le> ru_P90 r \<and> ru_P90 r \<le> ru_P95 r \<and> ru_P95 r \<le> ru_P99 r \<and> ru_P99 r \<le> ru_Peak r"
proof -
  let ?spans = "ru_Spans r" and ?ranked = "\<lambda>xs. sort_by (\<lambda>a b. sp_Weight a < sp_Weight b) xs"
  note sw = rolling_spans[OF assms(1,2), of events, folded assms(4)]
  have mem: "x \<in> set ?spans \<Longrightarrow> start \<le> sp_Start x \<and> sp_Start x < sp_End x \<and> sp_End x \<le> end" for x
    using sw tiles_mem by blast
  have proper: "list_all proper_span ?spans"
    using mem assms(3) by (fastforce simp: list_all_iff proper_span_def in_range_def min_duration_def)
  have T: "T = time_where (\<lambda>_. True) ?spans"
  proof -
    have "time_where (\<lambda>_. True) xs = seconds_of (sum_list (map (\<lambda>x. sp_End x - sp_Start x) xs))" for xs
      by (induction xs) (auto simp: time_where_def seconds_of_def add_divide_distrib)
    with tiles_sum sw show ?thesis unfolding assms(5) by metis
  qed
  have "0 < T" using assms(1,5) by (simp add: seconds_of_def)
  have P: "ru_P50 r = percentile T (?ranked ?spans) (50 / 100)" "ru_P90 r = percentile T (?ranked ?spans) (90 / 100)"
    "ru_P95 r = percentile T (?ranked ?spans) (95 / 100)" "ru_P99 r = percentile T (?ranked ?spans) (99 / 100)"
    using assms by (simp_all add: Rolling_def Let_def case_prod_beta')
  have pc: "is_percentile ?spans T p (percentile T (?ranked ?spans) p)" if "0 < p" "p \<le> 1" for p
    by (rule percentile_correct[OF proper T \<open>0 < T\<close> that])
  note mono = is_percentile_mono[OF pc pc _ less_imp_le[OF \<open>0 < T\<close>] proper]
  have "ru_P99 r \<le> ru_Peak r"
  proof -
    from pc[of "99 / 100"] obtain x where x: "x \<in> set ?spans" "sp_Weight x = ru_P99 r"
      unfolding P by (auto simp: is_percentile_def)
    then have "demand_at events window (sp_Start x) = ru_P99 r" using sw mem by fastforce
    moreover have "start \<le> sp_Start x" "sp_Start x < end" using mem[OF x(1)] by auto
    ultimately show ?thesis using rolling_peak_facts[OF assms(1,2,4)] by metis
  qed
  with pc mono show ?thesis unfolding P by simp
qed

theorem Rolling_percentiles_witness:
  "ru_P50 (Rolling demo_events 5 30 10) \<le> ru_P90 (Rolling demo_events 5 30 10) \<and>
   ru_P99 (Rolling demo_events 5 30 10) \<le> 6"
proof -
  have "in_range 30 5" by (simp add: in_range_def min_duration_def max_duration_def)
  moreover have "ru_Peak (Rolling demo_events 5 30 10) = 6"
    by (simp add: Rolling_def changes_of_def demo_events_def Let_def)
  ultimately show ?thesis
    using Rolling_percentiles[of 5 30 10 "Rolling demo_events 5 30 10" demo_events "seconds_of 25"] by simp
qed

end
