(* ===== verification/Windows.thy ===== *)
theory Windows
  imports Rolling GoStrings
begin

text \<open>
  The windows of \<open>internal/quota/capacity.go\<close>: readings grouped into limit windows and what a
  window's readings show of it. The specifications are the components of the relation of
  nearby reset times (\<open>near_resets\<close>), the sum of the weights in a period (\<open>weight_between\<close>)
  and the reading that gives a window's sample.
\<close>

section \<open>Plans\<close>

definition FiveHourSpan :: duration where "FiveHourSpan = FiveHourMinutes * minute"
definition WeeklySpan :: duration where "WeeklySpan = WeeklyMinutes * minute"

definition planMultiples :: "(string, f64) gomap" where
  "planMultiples = [(''pro'', 1), (''max 5x'', 5), (''max 20x'', 20)]"

definition KnownPlans :: "string list" where
  "KnownPlans = sort_by
     (\<lambda>a b. int_of (get_or 0 planMultiples a - get_or 0 planMultiples b) < 0) (map fst planMultiples)"

definition NormalizePlan :: "string \<Rightarrow> string" where
  "NormalizePlan plan = join (Fields (to_lower plan)) '' ''"

definition PlanMultiple :: "string \<Rightarrow> f64 \<times> bool" where
  "PlanMultiple plan =
     (case map_of planMultiples (NormalizePlan plan) of Some m \<Rightarrow> (m, True) | None \<Rightarrow> (0, False))"

section \<open>Readings and windows\<close>

record reading =
  rd_ObservedAt :: time
  rd_ResetsAt :: time
  rd_UsedPercent :: f64
  rd_SnapshotPlan :: string

definition ExcludedUnknownPlan :: string where "ExcludedUnknownPlan = ''unknown_plan''"
definition ExcludedPlanChanged :: string where "ExcludedPlanChanged = ''plan_changed''"
definition ExcludedNoSample :: string where "ExcludedNoSample = ''no_sample''"
definition ExcludedLowCost :: string where "ExcludedLowCost = ''low_cost''"

lemmas excluded_defs = ExcludedUnknownPlan_def ExcludedPlanChanged_def ExcludedNoSample_def ExcludedLowCost_def

definition minSampleUsed :: f64 where "minSampleUsed = 5"
definition MinSampleCost :: f64 where "MinSampleCost = 5"

record window =
  wd_Start :: time
  wd_ResetsAt :: time
  wd_Plan :: string
  wd_MaxUsed :: f64
  wd_MaxAt :: time
  wd_Saturated :: bool
  wd_FirstFull :: time
  wd_CostAtMax :: f64
  wd_Ratio :: f64
  wd_Excluded :: string

definition zero_window :: window where
  "zero_window = \<lparr>wd_Start = zero_time, wd_ResetsAt = zero_time, wd_Plan = [], wd_MaxUsed = 0,
     wd_MaxAt = zero_time, wd_Saturated = False, wd_FirstFull = zero_time, wd_CostAtMax = 0,
     wd_Ratio = 0, wd_Excluded = []\<rparr>"

definition resetSlack :: duration where "resetSlack = 2 * minute"

definition roundedReset :: "reading \<Rightarrow> time" where
  "roundedReset r = time_round (rd_ResetsAt r) minute"

definition group_step :: "reading \<Rightarrow> reading list list \<Rightarrow> reading list list" where
  "group_step r groups =
     (if groups \<noteq> [] \<and> time_sub (roundedReset r) (roundedReset (last (last groups))) \<le> resetSlack
      then butlast groups @ [last groups @ [r]] else groups @ [[r]])"

definition groupByReset :: "reading list \<Rightarrow> reading list list" where
  "groupByReset readings =
     (let sorted = sort_by (\<lambda>a b. roundedReset a < roundedReset b) readings;
          groups = fold group_step sorted []
      in map (sort_by (\<lambda>a b. rd_ObservedAt a < rd_ObservedAt b)) groups)"

definition resetOf :: "reading list \<Rightarrow> time" where
  "resetOf grp = roundedReset (last grp)"

fun sum_until :: "time \<Rightarrow> demand list \<Rightarrow> f64 \<Rightarrow> f64" where
  "sum_until t [] acc = acc"
| "sum_until t (d # ds) acc = (if \<not> dm_At d > t then sum_until t ds (acc + dm_Weight d) else acc)"

definition sumBetween :: "demand list \<Rightarrow> time \<Rightarrow> time \<Rightarrow> f64" where
  "sumBetween demand from to =
     (let i = sort_Search (length demand) (\<lambda>i. \<not> dm_At (demand ! i) < from)
      in sum_until to (drop i demand) 0)"

definition measure_reading :: "reading \<Rightarrow> window \<Rightarrow> window" where
  "measure_reading r w =
     (let w = (if wd_MaxAt w = zero_time \<or> rd_UsedPercent r > wd_MaxUsed w
               then w\<lparr>wd_MaxUsed := rd_UsedPercent r, wd_MaxAt := rd_ObservedAt r\<rparr> else w) in
      if rd_UsedPercent r \<ge> 100
      then (let w = w\<lparr>wd_Saturated := True\<rparr> in
            if wd_FirstFull w = zero_time then w\<lparr>wd_FirstFull := rd_ObservedAt r\<rparr> else w)
      else w)"

definition measure_window :: "window \<Rightarrow> reading list \<Rightarrow> demand list \<Rightarrow> window" where
  "measure_window w readings demand =
     (let w = fold measure_reading readings w;
          w = w\<lparr>wd_CostAtMax := sumBetween demand (wd_Start w) (wd_MaxAt w)\<rparr> in
      if wd_Excluded w \<noteq> [] then w
      else case find (\<lambda>r. rd_UsedPercent r \<ge> minSampleUsed \<and> rd_UsedPercent r < 100) (rev readings) of
        None \<Rightarrow> w\<lparr>wd_Excluded := ExcludedNoSample\<rparr>
      | Some sample \<Rightarrow>
          (let cost = sumBetween demand (wd_Start w) (rd_ObservedAt sample) in
           if cost < MinSampleCost then w\<lparr>wd_Excluded := ExcludedLowCost\<rparr>
           else w\<lparr>wd_Ratio := rd_UsedPercent sample / cost\<rparr>))"

definition open_five_hour :: "(time \<Rightarrow> string \<Rightarrow> string) \<Rightarrow> reading list \<Rightarrow> window" where
  "open_five_hour planAt grp =
     (let w = zero_window\<lparr>wd_ResetsAt := resetOf grp\<rparr>;
          w = w\<lparr>wd_Start := wd_ResetsAt w - FiveHourSpan\<rparr>;
          plan = planAt (wd_Start w) (rd_SnapshotPlan (hd grp));
          changed = list_ex (\<lambda>r. planAt (rd_ObservedAt r) (rd_SnapshotPlan r) \<noteq> plan) grp
      in if changed then w\<lparr>wd_Excluded := ExcludedPlanChanged\<rparr>
         else if plan = [] then w\<lparr>wd_Excluded := ExcludedUnknownPlan\<rparr>
         else w\<lparr>wd_Plan := plan\<rparr>)"

definition five_hour_window ::
  "(time \<Rightarrow> string \<Rightarrow> string) \<Rightarrow> demand list \<Rightarrow> reading list \<Rightarrow> window" where
  "five_hour_window planAt demand grp = measure_window (open_five_hour planAt grp) grp demand"

definition FiveHourWindows ::
  "reading list \<Rightarrow> (time \<Rightarrow> string \<Rightarrow> string) \<Rightarrow> demand list \<Rightarrow> window list" where
  "FiveHourWindows readings planAt demand = map (five_hour_window planAt demand) (groupByReset readings)"

record plan_span =
  ps_interval :: plan_interval
  ps_known :: bool
  ps_readings :: "reading list"

fun add_to_span :: "plan_interval \<Rightarrow> bool \<Rightarrow> reading \<Rightarrow> plan_span list \<Rightarrow> plan_span list" where
  "add_to_span i known r [] = [\<lparr>ps_interval = i, ps_known = known, ps_readings = [r]\<rparr>]"
| "add_to_span i known r (s # ss) =
     (if ps_known s = known \<and> pi_ID (ps_interval s) = pi_ID i
      then s\<lparr>ps_readings := ps_readings s @ [r]\<rparr> # ss
      else s # add_to_span i known r ss)"

definition span_step :: "plan_interval list \<Rightarrow> reading \<Rightarrow> plan_span list \<Rightarrow> plan_span list" where
  "span_step intervals r spans =
     (let (i, known) = IntervalAt intervals (rd_ObservedAt r) in add_to_span i known r spans)"

definition weekly_window :: "time \<Rightarrow> demand list \<Rightarrow> plan_span \<Rightarrow> window" where
  "weekly_window resets demand s =
     (let w = zero_window\<lparr>wd_ResetsAt := resets, wd_Start := resets - WeeklySpan\<rparr>;
          w = (if ps_known s
               then let w = w\<lparr>wd_Plan := NormalizePlan (pi_PlanType (ps_interval s))\<rparr> in
                    if pi_EffectiveAt (ps_interval s) > wd_Start w
                    then w\<lparr>wd_Start := pi_EffectiveAt (ps_interval s)\<rparr> else w
               else w\<lparr>wd_Excluded := ExcludedUnknownPlan\<rparr>)
      in measure_window w (ps_readings s) demand)"

definition WeeklyWindows :: "reading list \<Rightarrow> plan_interval list \<Rightarrow> demand list \<Rightarrow> window list" where
  "WeeklyWindows readings intervals demand =
     concat (map (\<lambda>grp. map (weekly_window (resetOf grp) demand) (fold (span_step intervals) grp []))
       (groupByReset readings))"

section \<open>Plans are compared in one form\<close>

lemma NormalizePlan_idem [simp]: "NormalizePlan (NormalizePlan p) = NormalizePlan p"
proof -
  have "Fields (join (Fields (to_lower p)) '' '') = Fields (to_lower p)"
    by (rule fields_join) (use fields_words in blast)
  moreover have "map to_lower (Fields (to_lower p)) = Fields (to_lower p)"
  proof -
    have "lower_char \<circ> lower_char = lower_char" by (simp add: fun_eq_iff)
    with fields_map_lower[of "to_lower p"] show ?thesis by (simp add: to_lower_def[abs_def])
  qed
  ultimately show ?thesis by (simp add: NormalizePlan_def to_lower_join)
qed

text \<open>
  A plan's normal form is its own normal form, so a plan compares equal to every spelling
  of it, and the plans with a published multiple are those whose normal form is known; the
  known plans are listed by rising multiple.
\<close>

theorem NormalizePlan_canonical:
  "NormalizePlan (NormalizePlan p) = NormalizePlan p \<and>
   PlanMultiple (NormalizePlan p) = PlanMultiple p \<and>
   (snd (PlanMultiple p) \<longleftrightarrow> NormalizePlan p \<in> set KnownPlans) \<and>
   map PlanMultiple KnownPlans = [(1, True), (5, True), (20, True)]"
proof -
  have "PlanMultiple (NormalizePlan p) = PlanMultiple p"
    by (simp add: PlanMultiple_def)
  moreover have "snd (PlanMultiple p) \<longleftrightarrow> NormalizePlan p \<in> set KnownPlans"
    by (auto simp: PlanMultiple_def KnownPlans_def planMultiples_def)
  moreover have "map PlanMultiple KnownPlans = [(1, True), (5, True), (20, True)]"
    by code_simp
  ultimately show ?thesis by simp
qed

section \<open>Groups of readings\<close>

text \<open>Two readings are linked when a chain of readings leads from one to the other in steps
  of at most the slack.\<close>

definition near_resets :: "reading list \<Rightarrow> (reading \<times> reading) set" where
  "near_resets rs = {(a, b). a \<in> set rs \<and> b \<in> set rs \<and> \<bar>roundedReset a - roundedReset b\<bar> \<le> resetSlack}"

definition apart :: "reading list \<Rightarrow> reading list \<Rightarrow> bool" where
  "apart g h \<longleftrightarrow> (\<forall>a \<in> set g. \<forall>b \<in> set h. roundedReset a + resetSlack < roundedReset b)"

definition stepwise :: "reading list \<Rightarrow> bool" where
  "stepwise = successively (\<lambda>a b. roundedReset a \<le> roundedReset b \<and> roundedReset b - roundedReset a \<le> resetSlack)"

lemma slack_sub: "time_sub t u \<le> resetSlack \<longleftrightarrow> t - u \<le> resetSlack"
  by (rule time_sub_le_iff) (simp_all add: resetSlack_def min_duration_def max_duration_def time_units)

definition grouped :: "reading list \<Rightarrow> reading list list \<Rightarrow> bool" where
  "grouped xs gs \<longleftrightarrow> concat gs = xs \<and> [] \<notin> set gs \<and> sorted_wrt apart gs \<and> (\<forall>g \<in> set gs. stepwise g)"

lemma group_step_grouped:
  assumes "grouped xs gs" "sorted_wrt (\<lambda>a b. roundedReset a \<le> roundedReset b) (xs @ [r])"
  shows "grouped (xs @ [r]) (group_step r gs)"
proof (cases "gs = []")
  case True
  with assms(1) show ?thesis by (simp add: grouped_def group_step_def stepwise_def)
next
  case False
  then obtain init g where gs: "gs = init @ [g]" by (metis rev_exhaust)
  have inv: "concat init @ g = xs" "[] \<notin> set init" "g \<noteq> []" "sorted_wrt apart init"
    "\<forall>h \<in> set init. apart h g" "\<forall>h \<in> set init. stepwise h" "stepwise g"
    using assms(1) unfolding grouped_def gs by (auto simp: sorted_wrt_append)
  have le: "\<forall>a \<in> set g. roundedReset a \<le> roundedReset r" "sorted_wrt (\<lambda>a b. roundedReset a \<le> roundedReset b) g"
    using assms(2) inv(1) by (auto simp: sorted_wrt_append)
  have far: "apart h [r]" if "h \<in> set init" for h
  proof -
    obtain b where "b \<in> set g" using inv(3) by (cases g) auto
    with that inv(5) le(1) show ?thesis unfolding apart_def by fastforce
  qed
  show ?thesis
  proof (cases "roundedReset r - roundedReset (last g) \<le> resetSlack")
    case True
    then have step: "group_step r gs = init @ [g @ [r]]"
      by (simp add: group_step_def gs slack_sub)
    have "stepwise (g @ [r])"
      using inv(3,7) le(1) True by (simp add: stepwise_def successively_append_iff)
    moreover have "\<forall>h \<in> set init. apart h (g @ [r])"
      using inv(5) far by (auto simp: apart_def)
    ultimately show ?thesis
      unfolding step grouped_def using inv by (auto simp: sorted_wrt_append)
  next
    case False
    then have step: "group_step r gs = init @ [g, [r]]"
      by (simp add: group_step_def gs slack_sub)
    have "apart g [r]"
      using last_sorted_max[OF le(2)] False by (fastforce simp: apart_def)
    moreover have "stepwise [r]" by (simp add: stepwise_def)
    ultimately show ?thesis
      unfolding step grouped_def using inv far by (auto simp: sorted_wrt_append)
  qed
qed

lemma group_fold_grouped:
  "sorted_wrt (\<lambda>a b. roundedReset a \<le> roundedReset b) xs \<Longrightarrow> grouped xs (fold group_step xs [])"
proof (induction xs rule: rev_induct)
  case Nil
  then show ?case by (simp add: grouped_def)
next
  case (snoc r xs)
  then have "grouped xs (fold group_step xs [])" by (simp add: sorted_wrt_append)
  from group_step_grouped[OF this snoc.prems] show ?case by simp
qed

lemma stepwise_linked:
  assumes "stepwise g" "set g \<subseteq> set rs" "a \<in> set g" "b \<in> set g"
  shows "(a, b) \<in> (near_resets rs)\<^sup>*"
proof -
  have sym: "sym ((near_resets rs)\<^sup>*)"
    by (rule sym_rtrancl) (auto simp: sym_def near_resets_def abs_minus_commute)
  have hd: "(hd g, c) \<in> (near_resets rs)\<^sup>*" if "c \<in> set g" for c
    using assms(1,2) that
  proof (induction g)
    case (Cons x g)
    show ?case
    proof (cases "c = x")
      case False
      then have c: "c \<in> set g" and "g \<noteq> []" using Cons.prems by auto
      then have "(x, hd g) \<in> near_resets rs"
        using Cons.prems by (cases g) (auto simp: stepwise_def near_resets_def)
      moreover have "stepwise g" using Cons.prems \<open>g \<noteq> []\<close> by (cases g) (auto simp: stepwise_def)
      ultimately show ?thesis
        using Cons.IH c Cons.prems(2) by (auto intro: converse_rtrancl_into_rtrancl)
    qed simp
  qed simp
  from hd[OF assms(3)] sym have "(a, hd g) \<in> (near_resets rs)\<^sup>*" by (meson symD)
  then show ?thesis using hd[OF assms(4)] by (rule rtrancl_trans)
qed

lemma same_group_near:
  assumes "grouped xs gs" "a \<in> set g" "g \<in> set gs" "b \<in> set xs" "\<bar>roundedReset a - roundedReset b\<bar> \<le> resetSlack"
  shows "b \<in> set g"
proof -
  have "b \<in> set (concat gs)" "sorted_wrt apart gs" using assms(1,4) by (auto simp: grouped_def)
  then obtain h where h: "h \<in> set gs" "b \<in> set h" by auto
  have "g = h \<or> apart g h \<or> apart h g"
    using \<open>sorted_wrt apart gs\<close> assms(3) h(1) by (induction gs) auto
  moreover have "\<not> apart g h" "\<not> apart h g"
    using assms(2,5) h(2) by (force simp: apart_def)+
  ultimately show ?thesis using h(2) by simp
qed

lemma groupByReset_grouped:
  "\<exists>gs. grouped (sort_by (\<lambda>a b. roundedReset a < roundedReset b) readings) gs \<and>
     groupByReset readings = map (sort_by (\<lambda>a b. rd_ObservedAt a < rd_ObservedAt b)) gs"
  using group_fold_grouped[OF sorted_sort_by_key] by (auto simp: groupByReset_def Let_def)

lemma mset_concat_sort: "mset (concat (map (sort_by lt) gs)) = mset (concat gs)"
  by (induction gs) auto

lemma group_nonempty: "g \<in> set (groupByReset readings) \<Longrightarrow> g \<noteq> []"
  using groupByReset_grouped[of readings] by (fastforce simp: grouped_def eq_commute[of "[]"])

lemma group_mem: "g \<in> set (groupByReset readings) \<Longrightarrow> r \<in> set g \<Longrightarrow> r \<in> set readings"
proof -
  assume g: "g \<in> set (groupByReset readings)" "r \<in> set g"
  obtain gs where gs: "grouped (sort_by (\<lambda>a b. roundedReset a < roundedReset b) readings) gs"
    "groupByReset readings = map (sort_by (\<lambda>a b. rd_ObservedAt a < rd_ObservedAt b)) gs"
    using groupByReset_grouped by blast
  from g gs(2) obtain h where "h \<in> set gs" "r \<in> set h" by auto
  then have "r \<in> set (concat gs)" by auto
  with gs(1) show ?thesis by (simp add: grouped_def)
qed

text \<open>
  Grouping loses and repeats no reading, every group is non-empty and oldest reading
  first, and two readings are in one group exactly when a chain of readings whose rounded reset
  times differ by at most two minutes from one to the next joins them.
\<close>

theorem groupByReset_components:
  "mset (concat (groupByReset readings)) = mset readings \<and>
   (\<forall>g \<in> set (groupByReset readings). g \<noteq> [] \<and> sorted_wrt (\<lambda>a b. rd_ObservedAt a \<le> rd_ObservedAt b) g) \<and>
   (\<forall>a \<in> set readings. \<forall>b \<in> set readings.
      (\<exists>g \<in> set (groupByReset readings). a \<in> set g \<and> b \<in> set g) \<longleftrightarrow> (a, b) \<in> (near_resets readings)\<^sup>*)"
proof -
  let ?xs = "sort_by (\<lambda>a b. roundedReset a < roundedReset b) readings"
  obtain gs where gs: "grouped ?xs gs"
    and eq: "groupByReset readings = map (sort_by (\<lambda>a b. rd_ObservedAt a < rd_ObservedAt b)) gs"
    using groupByReset_grouped by blast
  have con: "concat gs = ?xs" "[] \<notin> set gs" "\<forall>g \<in> set gs. stepwise g"
    using gs by (auto simp: grouped_def)
  then have sub: "g \<in> set gs \<Longrightarrow> set g \<subseteq> set readings" for g
    by (metis set_concat set_sort_by UN_upper)
  have "mset (concat (groupByReset readings)) = mset readings"
    unfolding eq mset_concat_sort con(1) by simp
  moreover have "\<forall>g \<in> set (groupByReset readings). g \<noteq> [] \<and> sorted_wrt (\<lambda>a b. rd_ObservedAt a \<le> rd_ObservedAt b) g"
    unfolding eq using con(2) by (auto simp: sorted_sort_by_key)
  moreover have "(\<exists>g \<in> set (groupByReset readings). a \<in> set g \<and> b \<in> set g) \<longleftrightarrow> (a, b) \<in> (near_resets readings)\<^sup>*"
    if ab: "a \<in> set readings" "b \<in> set readings" for a b
  proof -
    have "(\<exists>g \<in> set gs. a \<in> set g \<and> b \<in> set g) \<longleftrightarrow> (a, b) \<in> (near_resets readings)\<^sup>*"
    proof
      assume "\<exists>g \<in> set gs. a \<in> set g \<and> b \<in> set g"
      then show "(a, b) \<in> (near_resets readings)\<^sup>*" using stepwise_linked con(3) sub by blast
    next
      assume "(a, b) \<in> (near_resets readings)\<^sup>*"
      moreover obtain g where g: "g \<in> set gs" "a \<in> set g"
        using ab(1) con(1) by (metis set_sort_by in_set_conv_nth set_concat UN_iff)
      ultimately have "b \<in> set g"
        by (induction rule: rtrancl_induct)
          (auto simp: near_resets_def intro: same_group_near[OF gs])
      with g show "\<exists>g \<in> set gs. a \<in> set g \<and> b \<in> set g" by blast
    qed
    then show ?thesis unfolding eq by simp
  qed
  ultimately show ?thesis by blast
qed

definition demo_readings :: "reading list" where
  "demo_readings = map (\<lambda>(o', r, u). \<lparr>rd_ObservedAt = zero_time + o' * minute, rd_ResetsAt = zero_time + r * minute,
     rd_UsedPercent = u, rd_SnapshotPlan = ''pro''\<rparr>)
     [(20, 301, 40), (310, 601, 3), (10, 299, 10), (30, 300, 100)]"

theorem groupByReset_components_witness:
  "map (map rd_UsedPercent) (groupByReset demo_readings) = [[10, 40, 100], [3]] \<and>
   mset (concat (groupByReset demo_readings)) = mset demo_readings"
proof -
  have "map (map rd_UsedPercent) (groupByReset demo_readings) = [[10, 40, 100], [3]]"
    by code_simp
  with groupByReset_components[of demo_readings] show ?thesis by simp
qed

section \<open>What a window's readings show\<close>

definition weight_between :: "demand list \<Rightarrow> time \<Rightarrow> time \<Rightarrow> f64" where
  "weight_between demand from to = sum_list (map dm_Weight (filter (\<lambda>d. from \<le> dm_At d \<and> dm_At d \<le> to) demand))"

definition chronological :: "demand list \<Rightarrow> bool" where
  "chronological = sorted_wrt (\<lambda>a b. dm_At a \<le> dm_At b)"

lemma sum_until_eq: "sum_until t ds acc = acc + sum_list (map dm_Weight (takeWhile (\<lambda>d. dm_At d \<le> t) ds))"
  by (induction t ds acc rule: sum_until.induct) (auto simp: not_less)

lemma sumBetween_eq:
  assumes "chronological demand"
  shows "sumBetween demand from to = weight_between demand from to"
proof -
  have sorted: "sorted_wrt (\<lambda>a b. dm_At a \<le> dm_At b) demand" using assms by (simp add: chronological_def)
  then have "sorted_wrt (\<lambda>a b. dm_At a \<le> dm_At b) (filter (\<lambda>d. \<not> dm_At d < from) demand)"
    by (rule sorted_wrt_filter)
  from takeWhile_eq_filter_sorted[OF this, of "to"] drop_sort_Search[OF sorted, of "from"]
  show ?thesis
    by (simp add: sumBetween_def Let_def sum_until_eq weight_between_def not_less conj_commute)
qed

lemma measure_reading_fixed [simp]:
  "wd_Start (fold measure_reading rs w) = wd_Start w"
  "wd_ResetsAt (fold measure_reading rs w) = wd_ResetsAt w"
  "wd_Plan (fold measure_reading rs w) = wd_Plan w"
  "wd_Ratio (fold measure_reading rs w) = wd_Ratio w"
  "wd_Excluded (fold measure_reading rs w) = wd_Excluded w"
  by (induction rs arbitrary: w) (simp_all add: measure_reading_def Let_def)

text \<open>The highest use and when it was first read, and when the limit was first read as full.\<close>

definition first_highest :: "reading list \<Rightarrow> f64 \<Rightarrow> time \<Rightarrow> bool" where
  "first_highest rs u t \<longleftrightarrow> (\<exists>ys r zs. rs = ys @ r # zs \<and> u = rd_UsedPercent r \<and> t = rd_ObservedAt r \<and>
     (\<forall>y \<in> set ys. rd_UsedPercent y < u) \<and> (\<forall>z \<in> set zs. rd_UsedPercent z \<le> u))"

definition first_full :: "reading list \<Rightarrow> time" where
  "first_full rs = (case find (\<lambda>r. rd_UsedPercent r \<ge> 100) rs of Some r \<Rightarrow> rd_ObservedAt r | None \<Rightarrow> zero_time)"

definition fresh_window :: "window \<Rightarrow> bool" where
  "fresh_window w \<longleftrightarrow> wd_MaxAt w = zero_time \<and> wd_FirstFull w = zero_time \<and> \<not> wd_Saturated w \<and> wd_Ratio w = 0"

lemma measure_readings_max:
  assumes "rs \<noteq> []" "\<forall>r \<in> set rs. rd_ObservedAt r \<noteq> zero_time" "fresh_window w"
  shows "first_highest rs (wd_MaxUsed (fold measure_reading rs w)) (wd_MaxAt (fold measure_reading rs w))"
  using assms(1,2)
proof (induction rs rule: rev_nonempty_induct)
  case (single r)
  with assms(3) have "wd_MaxUsed (measure_reading r w) = rd_UsedPercent r"
    "wd_MaxAt (measure_reading r w) = rd_ObservedAt r"
    by (simp_all add: measure_reading_def fresh_window_def Let_def)
  then show ?case by (auto simp: first_highest_def intro!: exI[of _ "[]"])
next
  case (snoc r rs)
  define v where "v = fold measure_reading rs w"
  have "first_highest rs (wd_MaxUsed v) (wd_MaxAt v)" using snoc by (simp add: v_def)
  then obtain ys s zs where v: "rs = ys @ s # zs" "wd_MaxUsed v = rd_UsedPercent s" "wd_MaxAt v = rd_ObservedAt s"
    and le: "\<forall>y \<in> set ys. rd_UsedPercent y < rd_UsedPercent s" "\<forall>z \<in> set zs. rd_UsedPercent z \<le> rd_UsedPercent s"
    unfolding first_highest_def by auto
  have "wd_MaxAt v \<noteq> zero_time" using v(1,3) snoc.prems by auto
  then have step: "wd_MaxUsed (measure_reading r v) = (if rd_UsedPercent r > wd_MaxUsed v then rd_UsedPercent r else wd_MaxUsed v)"
    "wd_MaxAt (measure_reading r v) = (if rd_UsedPercent r > wd_MaxUsed v then rd_ObservedAt r else wd_MaxAt v)"
    by (simp_all add: measure_reading_def Let_def)
  show ?case
  proof (cases "rd_UsedPercent r > rd_UsedPercent s")
    case True
    then have "\<forall>y \<in> set rs. rd_UsedPercent y < rd_UsedPercent r" using v(1) le by auto
    with True show ?thesis
      unfolding first_highest_def using step v by (intro exI[of _ rs] exI[of _ r] exI[of _ "[]"]) (simp add: v_def)
  next
    case False
    with step v le show ?thesis
      unfolding first_highest_def by (intro exI[of _ ys] exI[of _ s] exI[of _ "zs @ [r]"]) (auto simp: v_def)
  qed
qed

lemma measure_readings_full:
  "wd_Saturated (fold measure_reading rs w) \<longleftrightarrow> wd_Saturated w \<or> (\<exists>r \<in> set rs. rd_UsedPercent r \<ge> 100)"
  by (induction rs arbitrary: w) (auto simp: measure_reading_def Let_def)

lemma measure_readings_first_full:
  assumes "\<forall>r \<in> set rs. rd_ObservedAt r \<noteq> zero_time"
  shows "wd_FirstFull (fold measure_reading rs w) = (if wd_FirstFull w = zero_time then first_full rs else wd_FirstFull w)"
  using assms by (induction rs arbitrary: w) (auto simp: measure_reading_def Let_def first_full_def)

text \<open>The reading that calibrates: the last one below 100% that is not near empty.\<close>

definition sample_of :: "reading list \<Rightarrow> reading option" where
  "sample_of rs = find (\<lambda>r. rd_UsedPercent r \<ge> minSampleUsed \<and> rd_UsedPercent r < 100) (rev rs)"

lemma measure_window_fixed [simp]:
  "wd_Start (measure_window w rs demand) = wd_Start w"
  "wd_ResetsAt (measure_window w rs demand) = wd_ResetsAt w"
  "wd_Plan (measure_window w rs demand) = wd_Plan w"
  "wd_MaxUsed (measure_window w rs demand) = wd_MaxUsed (fold measure_reading rs w)"
  "wd_MaxAt (measure_window w rs demand) = wd_MaxAt (fold measure_reading rs w)"
  "wd_Saturated (measure_window w rs demand) = wd_Saturated (fold measure_reading rs w)"
  "wd_FirstFull (measure_window w rs demand) = wd_FirstFull (fold measure_reading rs w)"
  "wd_CostAtMax (measure_window w rs demand) = sumBetween demand (wd_Start w) (wd_MaxAt (fold measure_reading rs w))"
  by (simp_all add: measure_window_def Let_def split: option.splits)

lemma measure_window_excluded:
  "wd_Excluded (measure_window w rs demand) =
     (if wd_Excluded w \<noteq> [] then wd_Excluded w
      else case sample_of rs of None \<Rightarrow> ExcludedNoSample
      | Some s \<Rightarrow> if sumBetween demand (wd_Start w) (rd_ObservedAt s) < MinSampleCost then ExcludedLowCost else [])"
  by (simp add: measure_window_def Let_def sample_of_def split: option.splits)

lemma measure_window_ratio:
  "wd_Ratio (measure_window w rs demand) =
     (if wd_Excluded (measure_window w rs demand) \<noteq> [] then wd_Ratio w
      else case sample_of rs of None \<Rightarrow> wd_Ratio w
      | Some s \<Rightarrow> rd_UsedPercent s / sumBetween demand (wd_Start w) (rd_ObservedAt s))"
  by (simp add: measure_window_def Let_def sample_of_def excluded_defs split: option.splits)

lemma sample_of_Some:
  assumes "sample_of rs = Some s"
  shows "\<exists>ys zs. rs = ys @ s # zs \<and> 5 \<le> rd_UsedPercent s \<and> rd_UsedPercent s < 100 \<and>
    (\<forall>z \<in> set zs. rd_UsedPercent z < 5 \<or> 100 \<le> rd_UsedPercent z)"
proof -
  from assms obtain i where i: "i < length (rev rs)" "s = rev rs ! i" "5 \<le> rd_UsedPercent s" "rd_UsedPercent s < 100"
    "\<forall>j < i. \<not> (5 \<le> rd_UsedPercent (rev rs ! j) \<and> rd_UsedPercent (rev rs ! j) < 100)"
    by (auto simp: sample_of_def find_Some_iff minSampleUsed_def)
  have "rs = rev (drop (Suc i) (rev rs)) @ s # rev (take i (rev rs))"
    using i(1,2) id_take_nth_drop[of i "rev rs"]
    by (metis rev_append rev_rev_ident rev.simps(2) append.assoc append_Cons append_Nil)
  moreover have "\<forall>z \<in> set (rev (take i (rev rs))). rd_UsedPercent z < 5 \<or> 100 \<le> rd_UsedPercent z"
    using i(1,5) by (fastforce simp: in_set_conv_nth not_le not_less)
  ultimately show ?thesis using i(3,4) by blast
qed

section \<open>Five-hour windows\<close>

lemma open_five_hour_fresh: "fresh_window (open_five_hour planAt g)"
  by (simp add: open_five_hour_def fresh_window_def Let_def zero_window_def)

lemma open_five_hour_span:
  "wd_ResetsAt (open_five_hour planAt g) = resetOf g"
  "wd_Start (open_five_hour planAt g) = resetOf g - FiveHourSpan"
  by (simp_all add: open_five_hour_def Let_def zero_window_def)

definition plan_at_start :: "(time \<Rightarrow> string \<Rightarrow> string) \<Rightarrow> reading list \<Rightarrow> string" where
  "plan_at_start planAt g = planAt (resetOf g - FiveHourSpan) (rd_SnapshotPlan (hd g))"

definition plan_changed :: "(time \<Rightarrow> string \<Rightarrow> string) \<Rightarrow> reading list \<Rightarrow> bool" where
  "plan_changed planAt g \<longleftrightarrow> (\<exists>r \<in> set g. planAt (rd_ObservedAt r) (rd_SnapshotPlan r) \<noteq> plan_at_start planAt g)"

lemma open_five_hour_plan:
  "wd_Plan (open_five_hour planAt g) = (if plan_changed planAt g then [] else plan_at_start planAt g)"
  "wd_Excluded (open_five_hour planAt g) =
     (if plan_changed planAt g then ExcludedPlanChanged
      else if plan_at_start planAt g = [] then ExcludedUnknownPlan else [])"
  by (auto simp: open_five_hour_def Let_def zero_window_def list_ex_iff plan_at_start_def plan_changed_def)

text \<open>
  A five-hour window ends at the reset its newest reading reports and starts five hours
  earlier; it states the highest use with the time it was first read, whether and when the
  limit was first read as full, and the demand recorded from its start to the highest use.
\<close>

theorem FiveHourWindows_measure:
  assumes "chronological demand" "\<forall>r \<in> set readings. rd_ObservedAt r \<noteq> zero_time"
    "w \<in> set (FiveHourWindows readings planAt demand)"
  shows "\<exists>g \<in> set (groupByReset readings).
    wd_ResetsAt w = roundedReset (last g) \<and> wd_Start w = wd_ResetsAt w - 5 * hour \<and>
    first_highest g (wd_MaxUsed w) (wd_MaxAt w) \<and>
    (wd_Saturated w \<longleftrightarrow> (\<exists>r \<in> set g. 100 \<le> rd_UsedPercent r)) \<and> wd_FirstFull w = first_full g \<and>
    wd_CostAtMax w = weight_between demand (wd_Start w) (wd_MaxAt w)"
proof -
  from assms(3) obtain g where g: "g \<in> set (groupByReset readings)" and w: "w = five_hour_window planAt demand g"
    by (auto simp: FiveHourWindows_def)
  have obs: "\<forall>r \<in> set g. rd_ObservedAt r \<noteq> zero_time" using group_mem[OF g] assms(2) by blast
  let ?v = "open_five_hour planAt g"
  have v: "w = measure_window ?v g demand" "fresh_window ?v"
    by (simp_all add: w five_hour_window_def open_five_hour_fresh)
  have "5 * hour = FiveHourSpan" by (simp add: FiveHourSpan_def FiveHourMinutes_def time_units)
  moreover have "first_highest g (wd_MaxUsed w) (wd_MaxAt w)"
    using measure_readings_max[OF group_nonempty[OF g] obs v(2)] by (simp add: v(1))
  moreover have "wd_Saturated w \<longleftrightarrow> (\<exists>r \<in> set g. 100 \<le> rd_UsedPercent r)" "wd_FirstFull w = first_full g"
    using v(2) by (auto simp: v(1) measure_readings_full measure_readings_first_full[OF obs] fresh_window_def)
  moreover have "wd_CostAtMax w = weight_between demand (wd_Start w) (wd_MaxAt w)"
    by (simp add: v(1) sumBetween_eq[OF assms(1)])
  ultimately show ?thesis
    using g open_five_hour_span[of planAt g] by (auto simp: v(1) resetOf_def)
qed

definition demo_demand :: "demand list" where
  "demo_demand = [\<lparr>dm_At = zero_time + 5 * minute, dm_Weight = 4\<rparr>, \<lparr>dm_At = zero_time + 15 * minute, dm_Weight = 6\<rparr>,
     \<lparr>dm_At = zero_time + 25 * minute, dm_Weight = 9\<rparr>]"

definition demo_window :: window where
  "demo_window = hd (FiveHourWindows demo_readings (\<lambda>_ p. p) demo_demand)"

lemma demo_window_mem: "demo_window \<in> set (FiveHourWindows demo_readings (\<lambda>_ p. p) demo_demand)"
  unfolding demo_window_def by (rule hd_in_set) code_simp

lemma demo_window_values: "wd_MaxUsed demo_window = 100 \<and> wd_Start demo_window = zero_time \<and> wd_Ratio demo_window = 4 \<and>
   wd_MaxAt demo_window = zero_time + 30 * minute \<and> wd_Excluded demo_window = [] \<and> wd_Plan demo_window = ''pro''"
  by code_simp

lemma demo_chronological: "chronological demo_demand"
  by (simp add: chronological_def demo_demand_def time_units)

lemma demo_observed: "\<forall>r \<in> set demo_readings. rd_ObservedAt r \<noteq> zero_time"
  by (simp add: demo_readings_def time_units)

theorem FiveHourWindows_measure_witness:
  "wd_CostAtMax demo_window = weight_between demo_demand zero_time (zero_time + 30 * minute)"
  using FiveHourWindows_measure[OF demo_chronological demo_observed demo_window_mem] demo_window_values by auto

text \<open>
  Why a five-hour window gives no sample, and what its sample is: the plan at its start
  and at every reading must be one known plan; the last reading from 5% to below 100% is the
  sample, its demand at least 5 dollars, and the ratio times that demand is the use it read.
\<close>

theorem FiveHourWindows_sample:
  assumes "chronological demand" "w \<in> set (FiveHourWindows readings planAt demand)"
  shows "\<exists>g \<in> set (groupByReset readings).
    let plan = plan_at_start planAt g;
        cost = (\<lambda>s. weight_between demand (wd_Start w) (rd_ObservedAt s))
    in wd_Start w = resetOf g - 5 * hour \<and>
      (if plan_changed planAt g
       then wd_Excluded w = ExcludedPlanChanged \<and> wd_Plan w = [] \<and> wd_Ratio w = 0
       else if plan = [] then wd_Excluded w = ExcludedUnknownPlan \<and> wd_Plan w = [] \<and> wd_Ratio w = 0
       else wd_Plan w = plan \<and>
         (case sample_of g of
            None \<Rightarrow> wd_Excluded w = ExcludedNoSample \<and> wd_Ratio w = 0
          | Some s \<Rightarrow> if cost s < 5 then wd_Excluded w = ExcludedLowCost \<and> wd_Ratio w = 0
              else wd_Excluded w = [] \<and> 0 < wd_Ratio w \<and> wd_Ratio w * cost s = rd_UsedPercent s))"
proof -
  from assms(2) obtain g where g: "g \<in> set (groupByReset readings)" and w: "w = five_hour_window planAt demand g"
    by (auto simp: FiveHourWindows_def)
  let ?v = "open_five_hour planAt g"
  have v: "w = measure_window ?v g demand" by (simp add: w five_hour_window_def)
  have st: "wd_Start w = resetOf g - FiveHourSpan" "wd_Plan w = wd_Plan ?v" "wd_Ratio ?v = 0"
    using open_five_hour_fresh[of planAt g] by (simp_all add: v open_five_hour_span fresh_window_def)
  note excluded = measure_window_excluded[of ?v g demand, folded v]
  note ratio = measure_window_ratio[of ?v g demand, folded v]
  have span: "5 * hour = FiveHourSpan" by (simp add: FiveHourSpan_def FiveHourMinutes_def time_units)
  note facts = excluded ratio open_five_hour_plan st span open_five_hour_span sumBetween_eq[OF assms(1)] Let_def MinSampleCost_def
  show ?thesis
  proof (cases "sample_of g")
    case None
    then show ?thesis by (intro bexI[OF _ g]) (simp add: facts excluded_defs)
  next
    case (Some s)
    then have "5 \<le> rd_UsedPercent s" using sample_of_Some by blast
    with Some show ?thesis by (intro bexI[OF _ g]) (simp add: facts excluded_defs)
  qed
qed

theorem FiveHourWindows_sample_witness:
  "wd_Excluded demo_window = [] \<and> wd_Ratio demo_window = 4 \<and>
   (\<exists>g \<in> set (groupByReset demo_readings). plan_at_start (\<lambda>_ p. p) g = ''pro'' \<and> \<not> plan_changed (\<lambda>_ p. p) g)"
  using FiveHourWindows_sample[OF demo_chronological demo_window_mem] demo_window_values
  by (auto simp: Let_def excluded_defs split: if_splits)

section \<open>Weekly windows\<close>

text \<open>The readings of a group by the interval they fall in.\<close>

definition span_key :: "plan_interval list \<Rightarrow> reading \<Rightarrow> bool \<times> string" where
  "span_key intervals r = (let (i, known) = IntervalAt intervals (rd_ObservedAt r) in (known, pi_ID i))"

definition key_of_span :: "plan_span \<Rightarrow> bool \<times> string" where
  "key_of_span s = (ps_known s, pi_ID (ps_interval s))"

lemma add_to_span_keys:
  "map key_of_span (add_to_span i known r ss) =
     (if (known, pi_ID i) \<in> set (map key_of_span ss) then map key_of_span ss
      else map key_of_span ss @ [(known, pi_ID i)])"
  by (induction ss) (auto simp: key_of_span_def)

definition spans_of :: "plan_interval list \<Rightarrow> reading list \<Rightarrow> plan_span list \<Rightarrow> bool" where
  "spans_of intervals rs ss \<longleftrightarrow> distinct (map key_of_span ss) \<and>
     (\<forall>r \<in> set rs. span_key intervals r \<in> set (map key_of_span ss)) \<and>
     (\<forall>s \<in> set ss. ps_readings s \<noteq> [] \<and> ps_readings s = filter (\<lambda>r. span_key intervals r = key_of_span s) rs \<and>
        IntervalAt intervals (rd_ObservedAt (hd (ps_readings s))) = (ps_interval s, ps_known s))"

lemma add_to_span_mem:
  assumes "s \<in> set (add_to_span i known r ss)" "distinct (map key_of_span ss)"
  shows "(s \<in> set ss \<and> key_of_span s \<noteq> (known, pi_ID i)) \<or>
    (\<exists>s' \<in> set ss. key_of_span s' = (known, pi_ID i) \<and> s = s'\<lparr>ps_readings := ps_readings s' @ [r]\<rparr>) \<or>
    ((known, pi_ID i) \<notin> set (map key_of_span ss) \<and> s = \<lparr>ps_interval = i, ps_known = known, ps_readings = [r]\<rparr>)"
  using assms
proof (induction ss)
  case Nil
  then show ?case by simp
next
  case (Cons x ss)
  show ?case
  proof (cases "key_of_span x = (known, pi_ID i)")
    case True
    then have "add_to_span i known r (x # ss) = x\<lparr>ps_readings := ps_readings x @ [r]\<rparr> # ss"
      by (simp add: key_of_span_def)
    with Cons.prems True show ?thesis by (auto simp: image_iff)
  next
    case False
    then have "add_to_span i known r (x # ss) = x # add_to_span i known r ss"
      by (auto simp: key_of_span_def)
    with Cons False show ?thesis by auto
  qed
qed

lemma span_step_spans:
  assumes "spans_of intervals rs ss"
  shows "spans_of intervals (rs @ [r]) (span_step intervals r ss)"
proof -
  obtain i known where ik: "IntervalAt intervals (rd_ObservedAt r) = (i, known)" by fastforce
  have key: "span_key intervals r = (known, pi_ID i)" and step: "span_step intervals r ss = add_to_span i known r ss"
    by (simp_all add: span_key_def span_step_def ik)
  note old = assms[unfolded spans_of_def]
  have dist: "distinct (map key_of_span ss)" using old by blast
  have new: "filter (\<lambda>r. span_key intervals r = (known, pi_ID i)) rs = []"
    if "(known, pi_ID i) \<notin> set (map key_of_span ss)"
  proof -
    have "\<forall>q \<in> set rs. span_key intervals q \<noteq> (known, pi_ID i)" using old that by metis
    then show ?thesis by (simp add: filter_empty_conv)
  qed
  have each: "ps_readings s \<noteq> [] \<and> ps_readings s = filter (\<lambda>r. span_key intervals r = key_of_span s) (rs @ [r]) \<and>
        IntervalAt intervals (rd_ObservedAt (hd (ps_readings s))) = (ps_interval s, ps_known s)"
    if "s \<in> set (add_to_span i known r ss)" for s
    using add_to_span_mem[OF that dist]
  proof (elim disjE)
    assume s: "s \<in> set ss \<and> key_of_span s \<noteq> (known, pi_ID i)"
    then show ?thesis using old key by fastforce
  next
    assume "\<exists>s' \<in> set ss. key_of_span s' = (known, pi_ID i) \<and> s = s'\<lparr>ps_readings := ps_readings s' @ [r]\<rparr>"
    then obtain s' where s': "s' \<in> set ss" "key_of_span s' = (known, pi_ID i)"
      "s = s'\<lparr>ps_readings := ps_readings s' @ [r]\<rparr>" by blast
    have "ps_readings s' \<noteq> []" "ps_readings s' = filter (\<lambda>r. span_key intervals r = key_of_span s') rs"
      "IntervalAt intervals (rd_ObservedAt (hd (ps_readings s'))) = (ps_interval s', ps_known s')"
      using old s'(1) by blast+
    with s'(2,3) key show ?thesis by (simp add: key_of_span_def)
  next
    assume "(known, pi_ID i) \<notin> set (map key_of_span ss) \<and> s = \<lparr>ps_interval = i, ps_known = known, ps_readings = [r]\<rparr>"
    with new key ik show ?thesis by (simp add: key_of_span_def)
  qed
  have "distinct (map key_of_span (add_to_span i known r ss))"
    "set (map key_of_span (add_to_span i known r ss)) = insert (known, pi_ID i) (set (map key_of_span ss))"
    unfolding add_to_span_keys using dist by auto
  moreover have "\<forall>q \<in> set rs. span_key intervals q \<in> set (map key_of_span ss)" using old by blast
  ultimately have "distinct (map key_of_span (add_to_span i known r ss)) \<and>
      (\<forall>q \<in> set (rs @ [r]). span_key intervals q \<in> set (map key_of_span (add_to_span i known r ss)))"
    using key by auto
  with each show ?thesis unfolding step spans_of_def by blast
qed

lemma span_fold_spans: "spans_of intervals rs (fold (span_step intervals) rs [])"
proof (induction rs rule: rev_induct)
  case Nil
  then show ?case by (simp add: spans_of_def)
next
  case (snoc r rs)
  from span_step_spans[OF this, of r] show ?case by simp
qed

definition open_weekly :: "time \<Rightarrow> plan_interval \<Rightarrow> bool \<Rightarrow> window" where
  "open_weekly resets i known = zero_window\<lparr>wd_ResetsAt := resets,
     wd_Start := if known then max (resets - WeeklySpan) (pi_EffectiveAt i) else resets - WeeklySpan,
     wd_Plan := if known then NormalizePlan (pi_PlanType i) else [],
     wd_Excluded := if known then [] else ExcludedUnknownPlan\<rparr>"

lemma weekly_window_measure:
  "weekly_window resets demand s = measure_window (open_weekly resets (ps_interval s) (ps_known s)) (ps_readings s) demand"
  by (simp add: weekly_window_def open_weekly_def zero_window_def Let_def max_def)

lemma open_weekly_fresh: "fresh_window (open_weekly resets i known)"
  by (simp add: open_weekly_def fresh_window_def zero_window_def)

lemma open_weekly_fields:
  "wd_ResetsAt (open_weekly resets i known) = resets"
  "wd_Start (open_weekly resets i known) = (if known then max (resets - WeeklySpan) (pi_EffectiveAt i) else resets - WeeklySpan)"
  "wd_Plan (open_weekly resets i known) = (if known then NormalizePlan (pi_PlanType i) else [])"
  "wd_Excluded (open_weekly resets i known) = (if known then [] else ExcludedUnknownPlan)"
  by (simp_all add: open_weekly_def zero_window_def)

lemma weekly_count: "length (fold (span_step intervals) g []) = card (span_key intervals ` set g)"
proof -
  note inv = span_fold_spans[of intervals g, unfolded spans_of_def]
  let ?ss = "fold (span_step intervals) g []"
  have "key_of_span s \<in> span_key intervals ` set g" if "s \<in> set ?ss" for s
  proof -
    have "filter (\<lambda>r. span_key intervals r = key_of_span s) g \<noteq> []" using inv that by metis
    then obtain r where "r \<in> set g" "span_key intervals r = key_of_span s" by (auto simp: filter_empty_conv)
    then show ?thesis by force
  qed
  with inv have "set (map key_of_span ?ss) = span_key intervals ` set g" by auto
  with inv show ?thesis by (metis distinct_card length_map)
qed

text \<open>
  A week's readings give one window for each plan interval they fall in (and one for
  those in none): it starts with the week or, if later, with the interval, carries the
  interval's plan, and its use is that of its own readings alone. Readings in no interval
  give a window without a sample.
\<close>

theorem WeeklyWindows_by_interval:
  assumes "chronological demand" "\<forall>r \<in> set readings. rd_ObservedAt r \<noteq> zero_time"
    "w \<in> set (WeeklyWindows readings intervals demand)"
  shows "(\<exists>g \<in> set (groupByReset readings). \<exists>r \<in> set g. \<exists>i known.
      let rs = filter (\<lambda>q. span_key intervals q = span_key intervals r) g in
      hd rs = r \<and> IntervalAt intervals (rd_ObservedAt r) = (i, known) \<and>
      wd_ResetsAt w = resetOf g \<and>
      (if known then wd_Start w = max (resetOf g - 168 * hour) (pi_EffectiveAt i) \<and> wd_Plan w = NormalizePlan (pi_PlanType i)
       else wd_Start w = resetOf g - 168 * hour \<and> wd_Plan w = [] \<and> wd_Excluded w = ExcludedUnknownPlan) \<and>
      first_highest rs (wd_MaxUsed w) (wd_MaxAt w) \<and>
      wd_CostAtMax w = weight_between demand (wd_Start w) (wd_MaxAt w)) \<and>
    length (WeeklyWindows readings intervals demand) =
      sum_list (map (\<lambda>g. card (span_key intervals ` set g)) (groupByReset readings))"
proof -
  from assms(3) obtain g s where g: "g \<in> set (groupByReset readings)" and s: "s \<in> set (fold (span_step intervals) g [])"
    and w: "w = weekly_window (resetOf g) demand s"
    by (auto simp: WeeklyWindows_def)
  define rs where "rs = ps_readings s"
  have inv: "rs \<noteq> []" "rs = filter (\<lambda>r. span_key intervals r = key_of_span s) g"
    "IntervalAt intervals (rd_ObservedAt (hd rs)) = (ps_interval s, ps_known s)"
    using span_fold_spans[of intervals g] s unfolding spans_of_def rs_def by blast+
  have key: "span_key intervals (hd rs) = key_of_span s"
    using inv(3) by (simp add: span_key_def key_of_span_def)
  have own: "filter (\<lambda>q. span_key intervals q = span_key intervals (hd rs)) g = rs"
    unfolding key by (rule inv(2)[symmetric])
  have hd: "hd rs \<in> set g" using inv(1,2) hd_in_set by fastforce
  have obs: "\<forall>r \<in> set rs. rd_ObservedAt r \<noteq> zero_time"
    using inv(2) group_mem[OF g] assms(2) by auto
  let ?v = "open_weekly (resetOf g) (ps_interval s) (ps_known s)"
  have wv: "w = measure_window ?v rs demand" by (simp add: w weekly_window_measure rs_def)
  have span: "168 * hour = WeeklySpan" by (simp add: WeeklySpan_def WeeklyMinutes_def time_units)
  have high: "first_highest rs (wd_MaxUsed w) (wd_MaxAt w)"
    using measure_readings_max[OF inv(1) obs open_weekly_fresh] by (simp add: wv)
  have rest: "wd_ResetsAt w = resetOf g" "wd_Start w = wd_Start ?v" "wd_Plan w = wd_Plan ?v"
    "wd_CostAtMax w = weight_between demand (wd_Start w) (wd_MaxAt w)"
    "\<not> ps_known s \<Longrightarrow> wd_Excluded w = ExcludedUnknownPlan"
    by (simp_all add: wv sumBetween_eq[OF assms(1)] open_weekly_fields measure_window_excluded excluded_defs)
  have "length (WeeklyWindows readings intervals demand) =
      sum_list (map (\<lambda>g. card (span_key intervals ` set g)) (groupByReset readings))"
    by (simp add: WeeklyWindows_def length_concat comp_def weekly_count)
  with g hd show ?thesis
    using inv(3) high rest open_weekly_fields[of "resetOf g" "ps_interval s" "ps_known s"]
    by (intro conjI bexI[of _ g] bexI[of _ "hd rs"] exI[of _ "ps_interval s"] exI[of _ "ps_known s"])
      (simp_all add: own span Let_def)
qed

definition demo_intervals :: "plan_interval list" where
  "demo_intervals = [zero_interval\<lparr>pi_ID := ''i1'', pi_PlanType := ''Max 5x'', pi_EffectiveAt := zero_time\<rparr>]"

definition demo_week :: window where
  "demo_week = hd (WeeklyWindows demo_readings demo_intervals demo_demand)"

theorem WeeklyWindows_by_interval_witness:
  "wd_Plan demo_week = ''max 5x'' \<and> wd_MaxUsed demo_week = 100 \<and>
   wd_CostAtMax demo_week = weight_between demo_demand (wd_Start demo_week) (wd_MaxAt demo_week) \<and>
   length (WeeklyWindows demo_readings demo_intervals demo_demand) = 2"
proof -
  have "WeeklyWindows demo_readings demo_intervals demo_demand \<noteq> []" by code_simp
  then have mem: "demo_week \<in> set (WeeklyWindows demo_readings demo_intervals demo_demand)"
    unfolding demo_week_def by (rule hd_in_set)
  have "wd_Plan demo_week = ''max 5x'' \<and> wd_MaxUsed demo_week = 100" by code_simp
  moreover have "sum_list (map (\<lambda>g. card (span_key demo_intervals ` set g)) (groupByReset demo_readings)) = 2"
    by code_simp
  ultimately show ?thesis
    using WeeklyWindows_by_interval[OF demo_chronological demo_observed mem] by (auto simp: Let_def)
qed

end
