(* ===== verification/Calibration.thy ===== *)
theory Calibration
  imports Windows
begin

text \<open>
  The rates of \<open>internal/quota/capacity.go\<close>: the windows that gave a sample summarized by
  plan, a plan's measured or derived rate and how a peak reads.
\<close>

section \<open>Calibration and rates\<close>

record calibration =
  cb_Samples :: int
  cb_Median :: f64
  cb_Min :: f64
  cb_Max :: f64

definition zero_calibration :: calibration where
  "zero_calibration = \<lparr>cb_Samples = 0, cb_Median = 0, cb_Min = 0, cb_Max = 0\<rparr>"

definition ratio_step :: "window \<Rightarrow> (string, f64 list) gomap \<Rightarrow> (string, f64 list) gomap" where
  "ratio_step w ratios =
     (if wd_Excluded w = [] \<and> wd_Ratio w > 0
      then put (wd_Plan w) (get_or [] ratios (wd_Plan w) @ [wd_Ratio w]) ratios else ratios)"

definition calibration_of :: "f64 list \<Rightarrow> calibration" where
  "calibration_of ratios =
     (let rs = sort_by (<) ratios;
          n = length rs;
          median = (if n mod 2 = 0 then (rs ! (n div 2 - 1) + rs ! (n div 2)) / 2 else rs ! (n div 2))
      in \<lparr>cb_Samples = int n, cb_Median = median, cb_Min = rs ! 0, cb_Max = rs ! (n - 1)\<rparr>)"

definition Calibrate :: "window list \<Rightarrow> (string, calibration) gomap" where
  "Calibrate windows = map (\<lambda>(plan, rs). (plan, calibration_of rs)) (fold ratio_step windows [])"

type_synonym basis = string

definition BasisMeasured :: basis where "BasisMeasured = ''measured''"
definition BasisDerived :: basis where "BasisDerived = ''derived''"
definition BasisInsufficient :: basis where "BasisInsufficient = ''insufficient''"

definition MinFiveHourSamples :: int where "MinFiveHourSamples = 2"
definition MinWeeklySamples :: int where "MinWeeklySamples = 1"

definition best_step ::
  "(string, calibration) gomap \<Rightarrow> string \<times> calibration \<Rightarrow> string \<Rightarrow> string" where
  "best_step cal pc best =
     (let (p, c) = pc; (m, known) = PlanMultiple p in
      if \<not> known then best
      else case map_of cal best of
        None \<Rightarrow> p
      | Some b \<Rightarrow>
          if cb_Samples c > cb_Samples b \<or> (cb_Samples c = cb_Samples b \<and> p < best) then p else best)"

definition FiveHourRate :: "string \<Rightarrow> (string, calibration) gomap \<Rightarrow> f64 \<times> basis" where
  "FiveHourRate plan0 cal =
     (let plan = NormalizePlan plan0; c = get_or zero_calibration cal plan in
      if cb_Samples c \<ge> MinFiveHourSamples then (cb_Median c, BasisMeasured)
      else let (target, ok) = PlanMultiple plan in
      if \<not> ok then (0, BasisInsufficient)
      else let best = fold (best_step cal) cal [] in
      case map_of cal best of
        None \<Rightarrow> (0, BasisInsufficient)
      | Some source \<Rightarrow> (cb_Median source * fst (PlanMultiple best) / target, BasisDerived))"

definition WeeklyRate :: "string \<Rightarrow> (string, calibration) gomap \<Rightarrow> f64 \<times> basis" where
  "WeeklyRate plan cal =
     (let c = get_or zero_calibration cal (NormalizePlan plan) in
      if cb_Samples c \<ge> MinWeeklySamples then (cb_Median c, BasisMeasured) else (0, BasisInsufficient))"

definition FitSafe :: string where "FitSafe = ''safe''"
definition FitBorderline :: string where "FitBorderline = ''borderline''"
definition FitOver :: string where "FitOver = ''over''"

definition BorderlinePercent :: f64 where "BorderlinePercent = 80"

definition Fit :: "f64 \<Rightarrow> string" where
  "Fit peakPercent =
     (if peakPercent > 100 then FitOver
      else if peakPercent \<ge> BorderlinePercent then FitBorderline else FitSafe)"

section \<open>A plan's samples\<close>

definition samples :: "string \<Rightarrow> window list \<Rightarrow> f64 list" where
  "samples plan ws = map wd_Ratio (filter (\<lambda>w. wd_Excluded w = [] \<and> 0 < wd_Ratio w \<and> wd_Plan w = plan) ws)"

lemma ratio_fold:
  "get_or [] (fold ratio_step ws m) plan = get_or [] m plan @ samples plan ws"
  by (induction ws arbitrary: m) (auto simp: ratio_step_def samples_def)

lemma ratio_fold_keys:
  "wf_map m \<Longrightarrow> wf_map (fold ratio_step ws m) \<and>
   fst ` set (fold ratio_step ws m) = fst ` set m \<union> {p. samples p ws \<noteq> []}"
proof (induction ws arbitrary: m)
  case Nil
  then show ?case by (simp add: samples_def)
next
  case (Cons w ws)
  have "wf_map (ratio_step w m)" using Cons.prems by (simp add: ratio_step_def)
  from Cons.IH[OF this] show ?case
    by (auto simp: ratio_step_def samples_def)
qed

lemma Calibrate_lookup:
  "map_of (Calibrate ws) p = (if samples p ws = [] then None else Some (calibration_of (samples p ws)))"
proof -
  let ?m = "fold ratio_step ws []"
  have keys: "wf_map ?m" "fst ` set ?m = {p. samples p ws \<noteq> []}"
    using ratio_fold_keys[of "[]" ws] by auto
  have val: "map_of ?m p = (if samples p ws = [] then None else Some (samples p ws))"
  proof (cases "map_of ?m p")
    case None
    then show ?thesis using keys(2) by (auto simp: map_of_eq_None_iff)
  next
    case (Some rs)
    then have "p \<in> fst ` set ?m" by (metis domI dom_map_of_conv_image_fst)
    with Some keys(2) ratio_fold[of ws "[]" p] show ?thesis by (simp add: get_or_def)
  qed
  show ?thesis by (simp add: Calibrate_def map_of_map val comp_def)
qed

lemma wf_map_Calibrate: "wf_map (Calibrate ws)"
  using ratio_fold_keys[of "[]" ws] by (simp add: Calibrate_def case_prod_beta' comp_def)

text \<open>The middle of a sorted list: at least half of the elements lie on each side.\<close>

lemma half_below:
  assumes "sorted_wrt (\<le>) rs" "k < length rs" "rs ! k \<le> (m::f64)"
  shows "k < length (filter (\<lambda>x. x \<le> m) rs)"
proof -
  have "\<forall>x \<in> set (take (Suc k) rs). x \<le> m"
  proof
    fix x assume "x \<in> set (take (Suc k) rs)"
    then obtain i where "i \<le> k" "x = rs ! i" using assms(2) by (auto simp: in_set_conv_nth intro: that less_Suc_eq_le[THEN iffD1])
    then have "x \<le> rs ! k" using assms(1,2) by (cases "i = k") (auto simp: sorted_wrt_iff_nth_less)
    with assms(3) show "x \<le> m" by simp
  qed
  then have "filter (\<lambda>x. x \<le> m) (take (Suc k) rs) = take (Suc k) rs" by (simp add: filter_id_conv)
  then have "filter (\<lambda>x. x \<le> m) rs = take (Suc k) rs @ filter (\<lambda>x. x \<le> m) (drop (Suc k) rs)"
    by (metis append_take_drop_id filter_append)
  with assms(2) show ?thesis by simp
qed

lemma half_above:
  assumes "sorted_wrt (\<le>) rs" "k < length rs" "(m::f64) \<le> rs ! k"
  shows "length rs - k \<le> length (filter (\<lambda>x. m \<le> x) rs)"
proof -
  have "\<forall>x \<in> set (drop k rs). m \<le> x"
  proof
    fix x assume "x \<in> set (drop k rs)"
    then obtain i where "i < length rs - k" "x = drop k rs ! i" by (auto simp: in_set_conv_nth)
    then have "k + i < length rs" "x = rs ! (k + i)" by auto
    then have "rs ! k \<le> x" using assms(1) by (cases "i = 0") (auto simp: sorted_wrt_iff_nth_less)
    with assms(3) show "m \<le> x" by simp
  qed
  then have "filter (\<lambda>x. m \<le> x) (drop k rs) = drop k rs" by (simp add: filter_id_conv)
  then have "filter (\<lambda>x. m \<le> x) rs = filter (\<lambda>x. m \<le> x) (take k rs) @ drop k rs"
    by (metis append_take_drop_id filter_append)
  then show ?thesis by simp
qed

definition median_of :: "f64 list \<Rightarrow> f64 \<Rightarrow> bool" where
  "median_of rs m \<longleftrightarrow> length rs \<le> 2 * length (filter (\<lambda>x. x \<le> m) rs) \<and>
     length rs \<le> 2 * length (filter (\<lambda>x. m \<le> x) rs)"

lemma sort_by_less_sorted: "sorted_wrt (\<le>) (sort_by (<) (xs :: 'a::linorder list))"
  using sorted_sort_by_key[of "\<lambda>x. x" xs] by simp

lemma filter_length_mset: "mset xs = mset ys \<Longrightarrow> length (filter P xs) = length (filter P ys)"
  by (metis mset_filter size_mset)

lemma calibration_of_order:
  assumes "ratios \<noteq> []" "c = calibration_of ratios"
  shows "cb_Min c \<in> set ratios \<and> cb_Max c \<in> set ratios \<and> (\<forall>x \<in> set ratios. cb_Min c \<le> x \<and> x \<le> cb_Max c) \<and>
    cb_Min c \<le> cb_Median c \<and> cb_Median c \<le> cb_Max c \<and> median_of ratios (cb_Median c)"
proof -
  define rs where "rs = sort_by (<) ratios"
  define n where "n = length rs"
  have len: "length ratios = n" by (simp add: n_def rs_def)
  have sorted: "sorted_wrt (\<le>) rs" unfolding rs_def by (rule sort_by_less_sorted)
  have le: "i \<le> j \<Longrightarrow> j < n \<Longrightarrow> rs ! i \<le> rs ! j" for i j
    using sorted by (cases "i = j") (auto simp: sorted_wrt_iff_nth_less n_def)
  have n: "0 < n" using assms(1) by (simp add: n_def rs_def)
  define m where "m = cb_Median c"
  have c: "cb_Min c = rs ! 0" "cb_Max c = rs ! (n - 1)"
    "m = (if n mod 2 = 0 then (rs ! (n div 2 - 1) + rs ! (n div 2)) / 2 else rs ! (n div 2))"
    by (simp_all add: assms(2) calibration_of_def Let_def rs_def n_def m_def)
  define a b where "a = (if n mod 2 = 0 then n div 2 - 1 else n div 2)" and "b = n div 2"
  have ab: "a \<le> b" "b < n" "n \<le> 2 * (a + 1)" "n \<le> 2 * (n - b)"
    using n unfolding a_def b_def by (auto split: if_splits)
  have mid: "rs ! a \<le> m" "m \<le> rs ! b"
    using le[OF ab(1,2)] unfolding c(3) a_def b_def by (auto split: if_splits)
  have "a < length (filter (\<lambda>x. x \<le> m) rs)" "n - b \<le> length (filter (\<lambda>x. m \<le> x) rs)"
    using half_below[OF sorted _ mid(1)] half_above[OF sorted _ mid(2)] ab by (simp_all add: n_def)
  with ab have "median_of rs m" by (simp add: median_of_def n_def[symmetric])
  then have "median_of ratios m"
    using filter_length_mset[of rs ratios] len by (simp add: median_of_def rs_def)
  moreover have "set rs = set ratios" by (simp add: rs_def)
  moreover have "rs ! 0 \<in> set rs" "rs ! (n - 1) \<in> set rs" using n by (simp_all add: n_def)
  moreover have "\<forall>x \<in> set rs. rs ! 0 \<le> x \<and> x \<le> rs ! (n - 1)"
  proof
    fix x assume "x \<in> set rs"
    then obtain i where "i < n" "x = rs ! i" by (auto simp: in_set_conv_nth n_def)
    then show "rs ! 0 \<le> x \<and> x \<le> rs ! (n - 1)" using le[of 0 i] le[of i "n - 1"] by simp
  qed
  moreover have "rs ! 0 \<le> m" "m \<le> rs ! (n - 1)"
    using mid le[of 0 a] le[of b "n - 1"] ab by linarith+
  ultimately show ?thesis by (simp add: c(1,2) m_def)
qed

text \<open>
  A plan is calibrated exactly when a window under it gave a sample. Its figures are the
  least, the greatest and a median of its positive samples, with at least half of the samples on
  each side of the median, and the order of the windows does not matter.
\<close>

theorem Calibrate_summary:
  assumes "mset ws' = mset ws"
  shows "(case map_of (Calibrate ws) p of
      None \<Rightarrow> samples p ws = []
    | Some c \<Rightarrow> cb_Samples c = int (length (samples p ws)) \<and> 0 < cb_Samples c \<and>
        0 < cb_Min c \<and> cb_Min c \<le> cb_Median c \<and> cb_Median c \<le> cb_Max c \<and>
        cb_Min c \<in> set (samples p ws) \<and> cb_Max c \<in> set (samples p ws) \<and>
        list_all (\<lambda>x. cb_Min c \<le> x \<and> x \<le> cb_Max c) (samples p ws) \<and>
        median_of (samples p ws) (cb_Median c)) \<and>
   map_of (Calibrate ws') = map_of (Calibrate ws)"
proof
  show "case map_of (Calibrate ws) p of
      None \<Rightarrow> samples p ws = []
    | Some c \<Rightarrow> cb_Samples c = int (length (samples p ws)) \<and> 0 < cb_Samples c \<and>
        0 < cb_Min c \<and> cb_Min c \<le> cb_Median c \<and> cb_Median c \<le> cb_Max c \<and>
        cb_Min c \<in> set (samples p ws) \<and> cb_Max c \<in> set (samples p ws) \<and>
        list_all (\<lambda>x. cb_Min c \<le> x \<and> x \<le> cb_Max c) (samples p ws) \<and>
        median_of (samples p ws) (cb_Median c)"
  proof (cases "samples p ws = []")
    case True
    then show ?thesis by (simp add: Calibrate_lookup)
  next
    case False
    have pos: "\<forall>x \<in> set (samples p ws). 0 < x" by (auto simp: samples_def)
    have "cb_Samples (calibration_of (samples p ws)) = int (length (samples p ws))"
      by (simp add: calibration_of_def Let_def)
    with False pos calibration_of_order[OF False refl] show ?thesis
      by (simp add: Calibrate_lookup list_all_iff)
  qed
  have "calibration_of (samples p ws') = calibration_of (samples p ws)" for p
  proof -
    have "mset (samples p ws') = mset (samples p ws)" using assms by (simp add: samples_def)
    then have "sort_by (<) (samples p ws') = sort_by (<) (samples p ws)"
      by (rule strict_weak.sort_by_cong_mset[OF strict_weak_key[of "\<lambda>x. x"]]) simp
    then show ?thesis by (simp add: calibration_of_def Let_def)
  qed
  moreover have "samples p ws' = [] \<longleftrightarrow> samples p ws = []" for p
    using mset_eq_setD[OF assms] by (simp add: samples_def filter_empty_conv)
  ultimately show "map_of (Calibrate ws') = map_of (Calibrate ws)"
    by (intro ext) (simp add: Calibrate_lookup)
qed

definition demo_sample :: "string \<Rightarrow> f64 \<Rightarrow> window" where
  "demo_sample plan r = zero_window\<lparr>wd_Plan := plan, wd_Ratio := r\<rparr>"

definition demo_samples :: "window list" where
  "demo_samples = [demo_sample ''pro'' 4, demo_sample ''max 5x'' 1, demo_sample ''pro'' 2, demo_sample ''pro'' 9]"

theorem Calibrate_summary_witness:
  "map_of (Calibrate (rev demo_samples)) = map_of (Calibrate demo_samples) \<and>
   map_of (Calibrate demo_samples) ''pro'' =
     Some \<lparr>cb_Samples = 3, cb_Median = 4, cb_Min = 2, cb_Max = 9\<rparr>"
proof -
  have "map_of (Calibrate demo_samples) ''pro'' =
     Some \<lparr>cb_Samples = 3, cb_Median = 4, cb_Min = 2, cb_Max = 9\<rparr>" by code_simp
  with Calibrate_summary[of "rev demo_samples" demo_samples] show ?thesis by simp
qed

section \<open>The plan a rate is derived from\<close>

text \<open>\<open>prefers cal p q\<close>: p has more samples than q, or as many and the lower name.\<close>

definition prefers :: "(string, calibration) gomap \<Rightarrow> string \<Rightarrow> string \<Rightarrow> bool" where
  "prefers cal p q \<longleftrightarrow>
     (let n = (\<lambda>x. cb_Samples (get_or zero_calibration cal x)) in n p > n q \<or> (n p = n q \<and> p \<le> q))"

abbreviation known_plan :: "string \<Rightarrow> bool" where
  "known_plan p \<equiv> snd (PlanMultiple p)"

lemma prefers_refl [simp]: "prefers cal p p"
  by (simp add: prefers_def)

lemma prefers_trans: "prefers cal p q \<Longrightarrow> prefers cal q r \<Longrightarrow> prefers cal p r"
  by (auto simp: prefers_def Let_def)

lemma prefers_antisym: "prefers cal p q \<Longrightarrow> prefers cal q p \<Longrightarrow> p = q"
  by (auto simp: prefers_def Let_def)

lemma best_step_cases:
  assumes "map_of cal p = Some c" "map_of cal [] = None" "best = [] \<or> map_of cal best \<noteq> None"
  shows "best_step cal (p, c) best = (if known_plan p \<and> (best = [] \<or> \<not> prefers cal best p) then p else best)"
proof (cases "map_of cal best")
  case None
  with assms(3) have "best = []" by blast
  with assms(2) show ?thesis by (simp add: best_step_def case_prod_beta' Let_def)
next
  case (Some b)
  then have "best \<noteq> []" using assms(2) by auto
  have n: "get_or zero_calibration cal best = b" "get_or zero_calibration cal p = c"
    using Some assms(1) by (simp_all add: get_or_def)
  have "prefers cal best p \<longleftrightarrow> \<not> (cb_Samples c > cb_Samples b \<or> (cb_Samples c = cb_Samples b \<and> p < best))"
    by (auto simp: prefers_def n)
  with Some \<open>best \<noteq> []\<close> show ?thesis by (auto simp: best_step_def case_prod_beta' Let_def)
qed

lemma best_fold:
  assumes "\<forall>(p, c) \<in> set xs. map_of cal p = Some c" "map_of cal [] = None"
    "best = [] \<or> (known_plan best \<and> map_of cal best \<noteq> None)" "b = fold (best_step cal) xs best"
  shows "(b = [] \<longleftrightarrow> best = [] \<and> (\<forall>p \<in> fst ` set xs. \<not> known_plan p)) \<and>
    (b \<noteq> [] \<longrightarrow> known_plan b \<and> (b = best \<or> b \<in> fst ` set xs) \<and>
      (\<forall>p \<in> insert best (fst ` set xs). p \<noteq> [] \<and> known_plan p \<longrightarrow> prefers cal b p))"
  using assms
proof (induction xs arbitrary: best)
  case Nil
  then show ?case by auto
next
  case (Cons pc xs)
  obtain p c where pc: "pc = (p, c)" by fastforce
  have p: "map_of cal p = Some c" "p \<noteq> []" using Cons.prems(1,2) pc by auto
  define nxt where "nxt = best_step cal (p, c) best"
  have "best = [] \<or> map_of cal best \<noteq> None" using Cons.prems(3) by blast
  note step = best_step_cases[OF p(1) Cons.prems(2) this]
  have nx: "nxt = (if known_plan p \<and> (best = [] \<or> \<not> prefers cal best p) then p else best)"
    unfolding nxt_def by (rule step)
  have ok: "nxt = [] \<or> (known_plan nxt \<and> map_of cal nxt \<noteq> None)"
    using Cons.prems(3) p nx by auto
  have up: "q \<noteq> [] \<and> known_plan q \<longrightarrow> prefers cal nxt q" if "q \<in> {best, p}" "nxt \<noteq> []" for q
    using that nx p(2) Cons.prems(3) by (auto simp: prefers_def Let_def split: if_splits)
  have b: "b = fold (best_step cal) xs nxt" using Cons.prems(4) by (simp add: pc nxt_def)
  from Cons.prems(1) have xs: "\<forall>(p, c) \<in> set xs. map_of cal p = Some c" by simp
  note IH = Cons.IH[OF xs Cons.prems(2) ok b]
  have empty: "nxt = [] \<longleftrightarrow> best = [] \<and> \<not> known_plan p" using nx p(2) by auto
  show ?case
  proof (cases "nxt = []")
    case True
    with IH empty show ?thesis by (simp add: pc)
  next
    case False
    with IH have b': "b \<noteq> []" "known_plan b" "b = nxt \<or> b \<in> fst ` set xs"
      "\<forall>q \<in> insert nxt (fst ` set xs). q \<noteq> [] \<and> known_plan q \<longrightarrow> prefers cal b q" by auto
    have "prefers cal b nxt" using b'(4) False ok by blast
    with up[OF _ False] have "\<forall>q \<in> {best, p}. q \<noteq> [] \<and> known_plan q \<longrightarrow> prefers cal b q"
      using prefers_trans by blast
    moreover have "nxt \<in> {best, p}" using nx by auto
    moreover have "\<not> (best = [] \<and> (\<forall>q \<in> fst ` set (pc # xs). \<not> known_plan q))"
      using False IH b'(1) by (auto simp: pc empty)
    ultimately show ?thesis using b' by (auto simp: pc)
  qed
qed

text \<open>The map's iteration order does not show: the best plan is the one all known plans yield to.\<close>

definition best_known :: "(string, calibration) gomap \<Rightarrow> string \<Rightarrow> bool" where
  "best_known cal b \<longleftrightarrow> b \<in> fst ` set cal \<and> known_plan b \<and> (\<forall>p \<in> fst ` set cal. known_plan p \<longrightarrow> prefers cal b p)"

lemma best_known_unique: "best_known cal b \<Longrightarrow> best_known cal b' \<Longrightarrow> b = b'"
  by (auto simp: best_known_def intro: prefers_antisym)

lemma best_fold_known:
  assumes "wf_map cal" "[] \<notin> fst ` set cal"
  shows "if \<exists>p \<in> fst ` set cal. known_plan p then best_known cal (fold (best_step cal) cal [])
    else map_of cal (fold (best_step cal) cal []) = None"
proof -
  have "\<forall>(p, c) \<in> set cal. map_of cal p = Some c" using assms(1) by auto
  moreover have none: "map_of cal [] = None" using assms(2) by (simp add: map_of_eq_None_iff)
  moreover define K where "K = fst ` set cal"
  moreover define b where "b = fold (best_step cal) cal []"
  ultimately have "(b = [] \<longleftrightarrow> (\<forall>p \<in> K. \<not> known_plan p)) \<and>
    (b \<noteq> [] \<longrightarrow> known_plan b \<and> (b = [] \<or> b \<in> K) \<and> (\<forall>p \<in> insert [] K. p \<noteq> [] \<and> known_plan p \<longrightarrow> prefers cal b p))"
    using best_fold[of cal cal "[]" b] by simp
  moreover have "[] \<notin> K" using assms(2) by (simp add: K_def)
  ultimately show ?thesis
    unfolding best_known_def K_def[symmetric] b_def[symmetric] using none by (cases "b = []") auto
qed

lemma FiveHourRate_cases:
  assumes "wf_map cal" "[] \<notin> fst ` set cal"
  shows "FiveHourRate plan cal =
    (let c = get_or zero_calibration cal (NormalizePlan plan) in
     if 2 \<le> cb_Samples c then (cb_Median c, BasisMeasured)
     else if known_plan plan \<and> (\<exists>p \<in> fst ` set cal. known_plan p)
     then (cb_Median (get_or zero_calibration cal (THE b. best_known cal b)) *
       fst (PlanMultiple (THE b. best_known cal b)) / fst (PlanMultiple plan), BasisDerived)
     else (0, BasisInsufficient))"
proof -
  define b where "b = fold (best_step cal) cal []"
  have norm: "PlanMultiple (NormalizePlan plan) = PlanMultiple plan" by (simp add: PlanMultiple_def)
  have rate: "FiveHourRate plan cal =
    (let c = get_or zero_calibration cal (NormalizePlan plan) in
     if 2 \<le> cb_Samples c then (cb_Median c, BasisMeasured)
     else if \<not> known_plan plan then (0, BasisInsufficient)
     else case map_of cal b of None \<Rightarrow> (0, BasisInsufficient)
       | Some source \<Rightarrow> (cb_Median source * fst (PlanMultiple b) / fst (PlanMultiple plan), BasisDerived))"
    unfolding b_def by (simp add: FiveHourRate_def Let_def norm case_prod_beta' MinFiveHourSamples_def)
  show ?thesis
  proof (cases "\<exists>p \<in> fst ` set cal. known_plan p")
    case True
    then have best: "best_known cal b" using best_fold_known[OF assms] unfolding b_def by simp
    then have the: "(THE b. best_known cal b) = b" using best_known_unique by blast
    obtain source where "map_of cal b = Some source"
      using best unfolding best_known_def by (metis domD dom_map_of_conv_image_fst)
    with True show ?thesis unfolding rate the by (simp add: Let_def get_or_def)
  next
    case False
    then have none: "map_of cal b = None" using best_fold_known[OF assms] unfolding b_def by (simp split: if_splits)
    from False have "\<not> (known_plan plan \<and> (\<exists>p \<in> fst ` set cal. known_plan p))" by blast
    then show ?thesis unfolding rate none Let_def by simp
  qed
qed

lemma same_map_lookup:
  assumes "wf_map m" "mset m' = mset m"
  shows "wf_map m'" "map_of m' = map_of m" "fst ` set m' = fst ` set m"
proof -
  have "mset (map fst m') = mset (map fst m)" using assms(2) by simp
  then show wf: "wf_map m'" using assms(1) mset_eq_imp_distinct_iff by blast
  have "set m' = set m" using assms(2) by (rule mset_eq_setD)
  with wf assms(1) show "map_of m' = map_of m" by (simp add: map_of_inject_set)
  from \<open>set m' = set m\<close> show "fst ` set m' = fst ` set m" by simp
qed

text \<open>
  A five-hour rate does not depend on the order in which the calibration map is
  iterated, although the loop over it keeps a running best plan: ties go to the lower name.
\<close>

theorem FiveHourRate_order_independent:
  assumes "wf_map cal" "[] \<notin> fst ` set cal" "mset cal' = mset cal"
  shows "FiveHourRate plan cal' = FiveHourRate plan cal"
proof -
  note same = same_map_lookup[OF assms(1,3)]
  have get: "get_or z cal' = get_or z cal" for z by (intro ext) (simp add: get_or_def same(2))
  have best: "best_known cal' = best_known cal"
    by (intro ext) (simp add: best_known_def prefers_def same(3) get)
  have "[] \<notin> fst ` set cal'" unfolding same(3) by (rule assms(2))
  from FiveHourRate_cases[OF same(1) this, of plan] show ?thesis
    unfolding FiveHourRate_cases[OF assms(1,2)] same(3) get best .
qed

definition demo_calibration :: "(string, calibration) gomap" where
  "demo_calibration = [(''pro'', \<lparr>cb_Samples = 3, cb_Median = 4, cb_Min = 2, cb_Max = 9\<rparr>),
     (''team'', \<lparr>cb_Samples = 8, cb_Median = 3, cb_Min = 3, cb_Max = 3\<rparr>),
     (''max 5x'', \<lparr>cb_Samples = 3, cb_Median = 1, cb_Min = 1, cb_Max = 1\<rparr>)]"

lemma demo_calibration_wf: "wf_map demo_calibration \<and> [] \<notin> fst ` set demo_calibration"
  by code_simp

theorem FiveHourRate_order_independent_witness:
  "FiveHourRate ''Max 20X'' (rev demo_calibration) = (1 / 4, BasisDerived)"
proof -
  have "FiveHourRate ''Max 20X'' demo_calibration = (1 / 4, BasisDerived)" by code_simp
  with FiveHourRate_order_independent[of demo_calibration "rev demo_calibration" "''Max 20X''"] demo_calibration_wf
  show ?thesis by simp
qed

text \<open>
  Where a rate comes from: a plan with two samples has its own median; any other plan
  with a published multiple has the median of the plan with the most samples among those with
  a published multiple, scaled by the ratio of the two multiples; and a plan has no rate when
  there is no such plan. Derived rates are in inverse proportion to the multiples.
\<close>

theorem FiveHourRate_basis:
  assumes "wf_map cal" "[] \<notin> fst ` set cal"
  shows "case FiveHourRate plan cal of (rate, basis) \<Rightarrow>
    (let own = get_or zero_calibration cal (NormalizePlan plan) in
     if 2 \<le> cb_Samples own then basis = BasisMeasured \<and> rate = cb_Median own
     else if snd (PlanMultiple plan) \<and> (\<exists>p \<in> fst ` set cal. snd (PlanMultiple p))
     then basis = BasisDerived \<and>
       (\<exists>b \<in> fst ` set cal. snd (PlanMultiple b) \<and>
          (\<forall>p \<in> fst ` set cal. snd (PlanMultiple p) \<longrightarrow> prefers cal b p) \<and>
          rate * fst (PlanMultiple plan) = cb_Median (get_or zero_calibration cal b) * fst (PlanMultiple b))
     else basis = BasisInsufficient \<and> rate = 0)"
proof (cases "\<exists>p \<in> fst ` set cal. known_plan p")
  case True
  then have best: "best_known cal (THE b. best_known cal b)"
    using best_fold_known[OF assms] best_known_unique theI' by (metis (no_types, lifting))
  have nz: "fst (PlanMultiple plan) \<noteq> 0" if "known_plan plan"
    using that by (auto simp: PlanMultiple_def planMultiples_def split: if_splits option.splits)
  obtain b where b: "b = (THE b. best_known cal b)" by blast
  have known: "b \<in> fst ` set cal" "known_plan b" "\<forall>p \<in> fst ` set cal. known_plan p \<longrightarrow> prefers cal b p"
    using best unfolding best_known_def b by blast+
  note rate = FiveHourRate_cases[OF assms, of plan, folded b]
  let ?own = "get_or zero_calibration cal (NormalizePlan plan)"
  consider "2 \<le> cb_Samples ?own" | "\<not> 2 \<le> cb_Samples ?own" "known_plan plan" | "\<not> 2 \<le> cb_Samples ?own" "\<not> known_plan plan"
    by blast
  then show ?thesis
  proof cases
    case 2
    with True have r: "FiveHourRate plan cal =
        (cb_Median (get_or zero_calibration cal b) * fst (PlanMultiple b) / fst (PlanMultiple plan), BasisDerived)"
      by (simp add: rate Let_def)
    have "cb_Median (get_or zero_calibration cal b) * fst (PlanMultiple b) / fst (PlanMultiple plan) * fst (PlanMultiple plan) =
        cb_Median (get_or zero_calibration cal b) * fst (PlanMultiple b)"
      using nz 2(2) by simp
    with known have "\<exists>b \<in> fst ` set cal. known_plan b \<and> (\<forall>p \<in> fst ` set cal. known_plan p \<longrightarrow> prefers cal b p) \<and>
        fst (FiveHourRate plan cal) * fst (PlanMultiple plan) = cb_Median (get_or zero_calibration cal b) * fst (PlanMultiple b)"
      unfolding r by (intro bexI[of _ b]) simp_all
    with 2 True r show ?thesis by (simp add: Let_def)
  qed (simp_all add: rate Let_def)
next
  case False
  then show ?thesis unfolding FiveHourRate_cases[OF assms] by (auto simp: Let_def)
qed

theorem FiveHourRate_basis_witness:
  "FiveHourRate ''Max 20X'' demo_calibration = (1 / 4, BasisDerived) \<and>
   (\<exists>b \<in> fst ` set demo_calibration. snd (PlanMultiple b) \<and>
     cb_Median (get_or zero_calibration demo_calibration b) * fst (PlanMultiple b) = 5)"
proof -
  define K where "K = fst ` set demo_calibration"
  have rate: "FiveHourRate ''Max 20X'' demo_calibration = (1 / 4, BasisDerived)" by code_simp
  have plan: "PlanMultiple ''Max 20X'' = (20, True)" by code_simp
  have few: "\<not> 2 \<le> cb_Samples (get_or zero_calibration demo_calibration (NormalizePlan ''Max 20X''))" by code_simp
  have "\<exists>p \<in> fst ` set demo_calibration. snd (PlanMultiple p)" by code_simp
  with FiveHourRate_basis[of demo_calibration "''Max 20X''"] demo_calibration_wf few
  have "\<exists>b \<in> K. snd (PlanMultiple b) \<and>
      1 / 4 * 20 = cb_Median (get_or zero_calibration demo_calibration b) * fst (PlanMultiple b)"
    unfolding rate prod.case Let_def plan K_def[symmetric] by auto
  with rate show ?thesis unfolding K_def[symmetric] by force
qed

end
