(* ===== verification/UseSeries.thy ===== *)
theory UseSeries
  imports Windows
begin

text \<open>
  The use series of \<open>internal/quota/capacity.go\<close>: \<open>ThinSeries\<close>, \<open>thinBy\<close> and \<open>clipSeries\<close>.
  A series is read as a step function, \<open>value_at\<close>: the use at an instant is that of the last
  point at or before it.
\<close>

section \<open>The code\<close>

record series_point =
  pt_At :: time
  pt_Percent :: f64

definition seriesMaxPoints :: nat where "seriesMaxPoints = 2000"

definition bucket_of :: "duration \<Rightarrow> series_point \<Rightarrow> int" where
  "bucket_of width p = pt_At p sdiv width"

definition peak_index :: "series_point list \<Rightarrow> nat" where
  "peak_index ps = fold (\<lambda>j peak. if pt_Percent (ps ! j) > pt_Percent (ps ! peak) then j else peak) [0..<length ps] 0"

function thinBy :: "duration \<Rightarrow> series_point list \<Rightarrow> series_point list" where
  "thinBy width [] = []"
| "thinBy width (p # ps) =
     (let b = bucket_of width p;
          run = p # takeWhile (\<lambda>q. bucket_of width q = b) ps;
          rest = dropWhile (\<lambda>q. bucket_of width q = b) ps;
          peak = peak_index run
      in (if peak \<noteq> length run - 1 then [run ! peak] else []) @ [last run] @ thinBy width rest)"
  by pat_completeness auto
termination
  by (relation "measure (\<lambda>(w, ps). length ps)") (auto simp: le_imp_less_Suc length_dropWhile_le)

definition ThinSeries :: "series_point list \<Rightarrow> series_point list" where
  "ThinSeries points0 =
     (let points = thinBy minute points0 in
      if length points > seriesMaxPoints
      then let span = time_sub (pt_At (points ! (length points - 1))) (pt_At (points ! 0))
           in thinBy (span sdiv (int seriesMaxPoints sdiv 2) + 1) points
      else points)"

definition clip_step ::
  "time \<Rightarrow> time \<Rightarrow> series_point \<Rightarrow> series_point list \<times> series_point option \<Rightarrow> series_point list \<times> series_point option" where
  "clip_step from to p acc =
     (let (out, before) = acc in
      if pt_At p < from then (out, Some p)
      else if pt_At p < to
      then ((case before of
              Some q \<Rightarrow> if pt_At p > from then out @ [\<lparr>pt_At = from, pt_Percent = pt_Percent q\<rparr>] else out
            | None \<Rightarrow> out) @ [p], None)
      else (out, before))"

definition clipSeries :: "series_point list \<Rightarrow> time \<Rightarrow> time \<Rightarrow> series_point list" where
  "clipSeries points from to =
     (let (out, before) = fold (clip_step from to) points ([], None) in
      case before of Some q \<Rightarrow> out @ [\<lparr>pt_At = from, pt_Percent = pt_Percent q\<rparr>] | None \<Rightarrow> out)"

section \<open>Series as step functions\<close>

definition in_time :: "series_point list \<Rightarrow> bool" where
  "in_time = sorted_wrt (\<lambda>p q. pt_At p \<le> pt_At q)"

definition value_at :: "series_point list \<Rightarrow> time \<Rightarrow> f64 option" where
  "value_at ps t = (case rev (filter (\<lambda>p. pt_At p \<le> t) ps) of [] \<Rightarrow> None | p # _ \<Rightarrow> Some (pt_Percent p))"

lemma value_at_append:
  "value_at (ps @ qs) t = (case value_at qs t of None \<Rightarrow> value_at ps t | Some v \<Rightarrow> Some v)"
  by (auto simp: value_at_def split: list.splits)

lemma value_at_Nil [simp]: "value_at [] t = None"
  by (simp add: value_at_def)

lemma value_at_single: "value_at [p] t = (if pt_At p \<le> t then Some (pt_Percent p) else None)"
  by (simp add: value_at_def)

lemma value_at_later: "\<forall>p \<in> set ps. t < pt_At p \<Longrightarrow> value_at ps t = None"
proof -
  assume "\<forall>p \<in> set ps. t < pt_At p"
  then have "filter (\<lambda>p. pt_At p \<le> t) ps = []" by (auto simp: filter_empty_conv)
  then show ?thesis by (simp add: value_at_def)
qed

text \<open>Clipping a chronological series: what is before, in and after the period.\<close>

lemma clip_before:
  assumes "\<forall>p \<in> set ps. pt_At p < from"
  shows "fold (clip_step from to) ps (out, before) =
    (out, if ps = [] then before else Some (last ps))"
  using assms by (induction ps arbitrary: before) (simp_all add: clip_step_def)

lemma clip_inside:
  assumes "\<forall>p \<in> set ps. from \<le> pt_At p \<and> pt_At p < to"
  shows "fold (clip_step from to) ps (out, before) =
    (if ps = [] then (out, before)
     else ((case before of
              Some q \<Rightarrow> if pt_At (hd ps) > from then out @ [\<lparr>pt_At = from, pt_Percent = pt_Percent q\<rparr>] else out
            | None \<Rightarrow> out) @ ps, None))"
  using assms
proof (induction ps arbitrary: out before)
  case Nil
  then show ?case by simp
next
  case (Cons p ps)
  have "\<not> pt_At p < from" using Cons.prems by simp
  with Cons show ?case by (auto simp: clip_step_def split: option.splits)
qed

lemma clip_after:
  assumes "\<forall>p \<in> set ps. from \<le> pt_At p \<and> to \<le> pt_At p"
  shows "fold (clip_step from to) ps acc = acc"
  using assms by (induction ps arbitrary: acc) (auto simp: clip_step_def)

lemma sorted_split3:
  assumes "in_time ps" "from \<le> to"
  obtains a b c where "ps = a @ b @ c" "\<forall>p \<in> set a. pt_At p < from"
    "\<forall>p \<in> set b. from \<le> pt_At p \<and> pt_At p < to" "\<forall>p \<in> set c. to \<le> pt_At p"
proof -
  have ge: "in_time xs \<Longrightarrow> \<forall>p \<in> set (dropWhile (\<lambda>p. pt_At p < t) xs). t \<le> pt_At p" for t xs
    by (induction xs) (auto simp: in_time_def)
  have sub: "in_time xs \<Longrightarrow> in_time (dropWhile P xs)" for P xs
    by (induction xs) (auto simp: in_time_def)
  define d where "d = dropWhile (\<lambda>p. pt_At p < from) ps"
  have "ps = takeWhile (\<lambda>p. pt_At p < from) ps @ takeWhile (\<lambda>p. pt_At p < to) d @ dropWhile (\<lambda>p. pt_At p < to) d"
    by (simp add: d_def)
  moreover have "\<forall>p \<in> set (takeWhile (\<lambda>p. pt_At p < from) ps). pt_At p < from"
    "\<forall>p \<in> set (takeWhile (\<lambda>p. pt_At p < to) d). pt_At p < to"
    by (auto dest: set_takeWhileD)
  moreover have "\<forall>p \<in> set d. from \<le> pt_At p" "in_time d"
    unfolding d_def by (rule ge[OF assms(1)], rule sub[OF assms(1)])
  moreover have "\<forall>p \<in> set (dropWhile (\<lambda>p. pt_At p < to) d). to \<le> pt_At p"
    by (rule ge[OF \<open>in_time d\<close>])
  moreover have "set (takeWhile (\<lambda>p. pt_At p < to) d) \<subseteq> set d" by (meson set_takeWhileD subsetI)
  ultimately show thesis by (intro that) blast+
qed

text \<open>
  Clipping a chronological series to a period keeps the use at every instant of the
  period, and every point of the result is in the period.
\<close>

theorem clipSeries_keeps_values:
  assumes "in_time points" "from < to"
  shows "(\<forall>t. from \<le> t \<and> t < to \<longrightarrow> value_at (clipSeries points from to) t = value_at points t) \<and>
    (\<forall>p \<in> set (clipSeries points from to). from \<le> pt_At p \<and> pt_At p < to) \<and>
    in_time (clipSeries points from to)"
proof -
  obtain a b c where ps: "points = a @ b @ c" and a: "\<forall>p \<in> set a. pt_At p < from"
    and b: "\<forall>p \<in> set b. from \<le> pt_At p \<and> pt_At p < to" and c: "\<forall>p \<in> set c. to \<le> pt_At p"
    using sorted_split3[OF assms(1)] assms(2) by (metis less_imp_le)
  have c': "\<forall>p \<in> set c. from \<le> pt_At p \<and> to \<le> pt_At p" using c assms(2) by auto
  define head where "head = (if a \<noteq> [] \<and> (b = [] \<or> pt_At (hd b) > from)
    then [\<lparr>pt_At = from, pt_Percent = pt_Percent (last a)\<rparr>] else [])"
  have clip: "clipSeries points from to = head @ b"
    unfolding clipSeries_def ps fold_append comp_apply clip_before[OF a] clip_inside[OF b] clip_after[OF c']
    by (simp add: head_def)
  have va: "value_at a t = (if a = [] then None else Some (pt_Percent (last a)))" if "from \<le> t" for t
  proof -
    have "filter (\<lambda>p. pt_At p \<le> t) a = a" using a that by (force simp: filter_id_conv)
    then show ?thesis by (cases a rule: rev_cases) (simp_all add: value_at_def)
  qed
  have "value_at (head @ b) t = value_at points t" if t: "from \<le> t" "t < to" for t
  proof -
    have "value_at c t = None" by (rule value_at_later) (use c t in force)
    moreover have "value_at head t = (if head = [] then None else value_at a t)"
      using t va by (simp add: head_def value_at_single)
    moreover have "value_at b t \<noteq> None" if "b \<noteq> []" "\<not> pt_At (hd b) > from"
    proof -
      have "hd b \<in> set (filter (\<lambda>p. pt_At p \<le> t) b)" using that t by (cases b) auto
      then have "filter (\<lambda>p. pt_At p \<le> t) b \<noteq> []" by (metis empty_iff list.set(1))
      then show ?thesis by (simp add: value_at_def split: list.splits)
    qed
    ultimately show ?thesis
      using va[OF t(1)] by (auto simp: ps value_at_append head_def split: option.splits if_splits)
  qed
  moreover have "in_time (head @ b)"
    using b assms(1) by (auto simp: in_time_def ps head_def sorted_wrt_append)
  ultimately show ?thesis using b assms(2) unfolding clip by (auto simp: head_def)
qed

definition demo_series :: "series_point list" where
  "demo_series = [\<lparr>pt_At = 1, pt_Percent = 30\<rparr>, \<lparr>pt_At = 4, pt_Percent = 70\<rparr>, \<lparr>pt_At = 9, pt_Percent = 0\<rparr>]"

theorem clipSeries_keeps_values_witness:
  "value_at (clipSeries demo_series 2 9) 3 = Some 30 \<and> length (clipSeries demo_series 2 9) = 2"
proof -
  have "in_time demo_series" by (simp add: in_time_def demo_series_def)
  moreover have "value_at demo_series 3 = Some 30 \<and> length (clipSeries demo_series 2 9) = 2" by code_simp
  ultimately show ?thesis using clipSeries_keeps_values[of demo_series 2 9] by simp
qed

section \<open>Thinning\<close>

lemma peak_index_upto:
  assumes "0 < n" "n \<le> length ps"
  shows "fold (\<lambda>j peak. if pt_Percent (ps ! j) > pt_Percent (ps ! peak) then j else peak) [0..<n] 0 < n \<and>
    (\<forall>i < n. pt_Percent (ps ! i) \<le>
       pt_Percent (ps ! fold (\<lambda>j peak. if pt_Percent (ps ! j) > pt_Percent (ps ! peak) then j else peak) [0..<n] 0))"
  using assms
proof (induction n)
  case 0
  then show ?case by simp
next
  case (Suc n)
  then show ?case by (cases "n = 0") (force simp: less_Suc_eq)+
qed

lemma peak_index_peak:
  assumes "ps \<noteq> []"
  shows "peak_index ps < length ps" "\<forall>p \<in> set ps. pt_Percent p \<le> pt_Percent (ps ! peak_index ps)"
proof -
  from assms peak_index_upto[of "length ps" ps] show "peak_index ps < length ps"
    "\<forall>p \<in> set ps. pt_Percent p \<le> pt_Percent (ps ! peak_index ps)"
    by (simp_all add: peak_index_def all_set_conv_all_nth)
qed

definition kept :: "series_point list \<Rightarrow> series_point list" where
  "kept run = (if peak_index run \<noteq> length run - 1 then [run ! peak_index run] else []) @ [last run]"

lemma kept_run:
  assumes "run \<noteq> []"
  shows "subseq (kept run) run" "length (kept run) \<le> 2" "kept run \<noteq> []" "last (kept run) = last run"
    "\<forall>p \<in> set run. \<exists>q \<in> set (kept run). pt_Percent p \<le> pt_Percent q"
proof -
  note peak = peak_index_peak[OF assms]
  have run: "run = butlast run @ [last run]" using assms by simp
  have at_last: "run ! (length run - 1) = last run" using assms by (simp add: last_conv_nth)
  show "subseq (kept run) run"
  proof (cases "peak_index run = length run - 1")
    case True
    have "subseq ([] @ [last run]) (butlast run @ [last run])" by (rule list_emb_append_mono) auto
    then show ?thesis using True run by (simp add: kept_def)
  next
    case False
    then have "peak_index run < length (butlast run)" using peak(1) by simp
    then have "run ! peak_index run \<in> set (butlast run)" by (metis nth_butlast nth_mem)
    then have "subseq ([run ! peak_index run] @ [last run]) (butlast run @ [last run])"
      by (intro list_emb_append_mono) (simp_all add: subseq_singleton_left)
    then show ?thesis using False run by (simp add: kept_def)
  qed
  show "length (kept run) \<le> 2" "kept run \<noteq> []" "last (kept run) = last run" by (simp_all add: kept_def)
  have "run ! peak_index run \<in> set (kept run)" using at_last by (auto simp: kept_def)
  with peak(2) show "\<forall>p \<in> set run. \<exists>q \<in> set (kept run). pt_Percent p \<le> pt_Percent q" by blast
qed

text \<open>A series of consecutive runs, each in one bucket.\<close>

definition run_of :: "duration \<Rightarrow> series_point \<Rightarrow> series_point list \<Rightarrow> series_point list" where
  "run_of width p ps = p # takeWhile (\<lambda>q. bucket_of width q = bucket_of width p) ps"

definition rest_of :: "duration \<Rightarrow> series_point \<Rightarrow> series_point list \<Rightarrow> series_point list" where
  "rest_of width p ps = dropWhile (\<lambda>q. bucket_of width q = bucket_of width p) ps"

lemma thinBy_run: "thinBy width (p # ps) = kept (run_of width p ps) @ thinBy width (rest_of width p ps)"
  by (simp add: kept_def run_of_def rest_of_def Let_def)

lemma run_rest: "run_of width p ps @ rest_of width p ps = p # ps"
  by (simp add: run_of_def rest_of_def)

lemma rest_shorter: "length (rest_of width p ps) < length (p # ps)"
  by (simp add: rest_of_def le_imp_less_Suc length_dropWhile_le)

declare thinBy.simps(2) [simp del]

lemma thinBy_keeps:
  "subseq (thinBy width ps) ps \<and> (ps \<noteq> [] \<longrightarrow> thinBy width ps \<noteq> [] \<and> last (thinBy width ps) = last ps) \<and>
   (\<forall>p \<in> set ps. \<exists>q \<in> set (thinBy width ps). pt_Percent p \<le> pt_Percent q)"
proof (induction ps rule: length_induct)
  case (1 ps)
  show ?case
  proof (cases ps)
    case (Cons p qs)
    define run rest where "run = run_of width p qs" and "rest = rest_of width p qs"
    have split: "ps = run @ rest" and thin: "thinBy width ps = kept run @ thinBy width rest"
      by (simp_all add: Cons run_def rest_def run_rest thinBy_run)
    have "run \<noteq> []" by (simp add: run_def run_of_def)
    note keep = kept_run[OF this]
    have "length rest < length ps" using rest_shorter by (simp add: Cons rest_def)
    then have IH: "subseq (thinBy width rest) rest"
      "rest \<noteq> [] \<longrightarrow> thinBy width rest \<noteq> [] \<and> last (thinBy width rest) = last rest"
      "\<forall>p \<in> set rest. \<exists>q \<in> set (thinBy width rest). pt_Percent p \<le> pt_Percent q"
      using "1.IH" by blast+
    have "subseq (kept run @ thinBy width rest) (run @ rest)" using keep(1) IH(1) by (rule list_emb_append_mono)
    then have "subseq (thinBy width ps) ps" by (simp only: thin flip: split)
    moreover have "thinBy width ps \<noteq> []" using keep(3) by (simp add: thin)
    moreover have "last (thinBy width ps) = last ps"
    proof -
      have "last (kept run @ thinBy width rest) = last (run @ rest)"
        using keep(3,4) IH(2) \<open>run \<noteq> []\<close> by (cases "rest = []") auto
      then show ?thesis by (simp only: thin flip: split)
    qed
    moreover have "\<forall>p \<in> set ps. \<exists>q \<in> set (thinBy width ps). pt_Percent p \<le> pt_Percent q"
    proof -
      have "\<forall>p \<in> set (run @ rest). \<exists>q \<in> set (kept run @ thinBy width rest). pt_Percent p \<le> pt_Percent q"
        using keep(5) IH(3) by fastforce
      then show ?thesis by (simp only: thin flip: split)
    qed
    ultimately show ?thesis by blast
  qed simp
qed

lemma sdiv_pos: "0 < (w::int) \<Longrightarrow> a sdiv w = (if 0 \<le> a then a div w else - ((- a) div w))"
  by (simp add: signed_divide_int_def sgn_if)

lemma bucket_mono: "0 < width \<Longrightarrow> pt_At p \<le> pt_At q \<Longrightarrow> bucket_of width p \<le> bucket_of width q"
  unfolding bucket_of_def
  by (auto simp: sdiv_pos zdiv_mono1 pos_imp_zdiv_nonneg_iff intro: order_trans[of _ 0])

lemma bucket_span:
  assumes "0 < width" "pt_At p \<le> pt_At q"
  shows "bucket_of width q - bucket_of width p \<le> (pt_At q - pt_At p) div width + 1"
proof -
  define a b where "a = pt_At p" and "b = pt_At q"
  have split: "x = width * (x div width) + x mod width" "0 \<le> x mod width" "x mod width < width" for x
    using assms(1) by simp_all
  have sum: "x div width + y div width \<le> (x + y) div width" for x y
    using assms(1) div_add1_eq[of x y width] split(2)[of x] split(2)[of y] by (simp add: pos_imp_zdiv_nonneg_iff)
  have diff: "y div width - x div width \<le> (y - x) div width + 1" for x y
  proof -
    have "(y - x) div width * width + width > y - x"
      using split(1)[of "y - x"] split(3)[of "y - x"] by (simp only: mult.commute[of width])
    moreover have "y = width * (y div width) + y mod width" "x = width * (x div width) + x mod width" by simp_all
    ultimately have "width * (y div width) - width * (x div width) < width * ((y - x) div width) + 2 * width"
      using split(2,3)[of y] split(2,3)[of x] by (simp only: mult.commute[of _ width])
    then have "width * (y div width - x div width) < width * ((y - x) div width + 2)"
      by (simp only: right_diff_distrib distrib_left mult.commute[of 2 width])
    then show ?thesis using assms(1) by (simp add: mult_less_cancel_left_pos)
  qed
  show ?thesis
  proof (cases "0 \<le> a")
    case True
    then show ?thesis using diff[of b a] assms by (simp add: bucket_of_def sdiv_pos a_def b_def)
  next
    case False
    then show ?thesis
      using diff[of "- a" "- b"] sum[of b "- a"] assms by (simp add: bucket_of_def sdiv_pos a_def b_def)
  qed
qed

lemma thinBy_length:
  assumes "0 < width" "in_time ps"
  shows "length (thinBy width ps) \<le> 2 * card (bucket_of width ` set ps)"
  using assms(2)
proof (induction ps rule: length_induct)
  case (1 ps)
  show ?case
  proof (cases ps)
    case (Cons p qs)
    define run rest where "run = run_of width p qs" and "rest = rest_of width p qs"
    have split: "ps = run @ rest" and thin: "thinBy width ps = kept run @ thinBy width rest"
      by (simp_all add: Cons run_def rest_def run_rest thinBy_run)
    have run: "run \<noteq> []" "bucket_of width ` set run = {bucket_of width p}"
      by (auto simp: run_def run_of_def dest: set_takeWhileD)
    have sorted: "in_time rest" using "1.prems" by (simp add: split in_time_def sorted_wrt_append)
    have "length rest < length ps" using rest_shorter by (simp add: Cons rest_def)
    with "1.IH" sorted have IH: "length (thinBy width rest) \<le> 2 * card (bucket_of width ` set rest)" by blast
    have "bucket_of width p \<notin> bucket_of width ` set rest"
    proof
      assume "bucket_of width p \<in> bucket_of width ` set rest"
      then obtain q where q: "q \<in> set rest" "bucket_of width q = bucket_of width p" by auto
      then obtain r rs where rest: "rest = r # rs" by (cases rest) auto
      then have "dropWhile (\<lambda>q. bucket_of width q = bucket_of width p) qs = r # rs"
        by (simp add: rest_def rest_of_def)
      then have ne: "bucket_of width r \<noteq> bucket_of width p"
        by (simp only: dropWhile_eq_Cons_conv simp_thms)
      have "pt_At p \<le> pt_At r" using "1.prems" rest by (auto simp: split run_def run_of_def in_time_def)
      moreover have "pt_At r \<le> pt_At q" using sorted q(1) by (auto simp: rest in_time_def)
      ultimately have "bucket_of width p \<le> bucket_of width r" "bucket_of width r \<le> bucket_of width q"
        using bucket_mono[OF assms(1)] by blast+
      with ne q(2) show False by simp
    qed
    then have "card (bucket_of width ` set ps) = Suc (card (bucket_of width ` set rest))"
      using run(2) by (simp add: split image_Un)
    with IH kept_run(2)[OF run(1)] show ?thesis by (simp add: thin)
  qed simp
qed

lemma bucket_count:
  assumes "0 < width" "in_time ps" "ps \<noteq> []"
  shows "int (card (bucket_of width ` set ps)) \<le> (pt_At (last ps) - pt_At (hd ps)) div width + 2"
proof -
  have "bucket_of width ` set ps \<subseteq> {bucket_of width (hd ps) .. bucket_of width (last ps)}"
  proof
    fix b assume "b \<in> bucket_of width ` set ps"
    then obtain q where q: "q \<in> set ps" "b = bucket_of width q" by auto
    have "pt_At (hd ps) \<le> pt_At q" "pt_At q \<le> pt_At (last ps)"
      using assms(2,3) q(1) last_sorted_max[of pt_At ps q] by (cases ps; auto simp: in_time_def)+
    with q(2) show "b \<in> {bucket_of width (hd ps) .. bucket_of width (last ps)}"
      by (auto intro: bucket_mono[OF assms(1)])
  qed
  then have "card (bucket_of width ` set ps) \<le> card {bucket_of width (hd ps) .. bucket_of width (last ps)}"
    by (intro card_mono) simp_all
  moreover have "pt_At (hd ps) \<le> pt_At (last ps)"
    using assms(2,3) by (cases ps) (auto simp: in_time_def)
  ultimately show ?thesis
    using bucket_span[OF assms(1), of "hd ps" "last ps"] bucket_mono[OF assms(1), of "hd ps" "last ps"] by simp
qed

lemma subseq_set: "subseq qs ps \<Longrightarrow> set qs \<subseteq> set ps"
  by (induction rule: list_emb.induct) auto

lemma subseq_in_time: "subseq qs ps \<Longrightarrow> in_time ps \<Longrightarrow> in_time qs"
proof (induction rule: list_emb.induct)
  case (list_emb_Cons2 x y xs ys)
  with subseq_set[of xs ys] show ?case by (auto simp: in_time_def)
qed (auto simp: in_time_def)

lemma subseq_bounds:
  assumes "subseq qs ps" "in_time ps" "qs \<noteq> []"
  shows "pt_At (hd ps) \<le> pt_At (hd qs)" "pt_At (last qs) \<le> pt_At (last ps)"
proof -
  have "set qs \<subseteq> set ps" using assms(1) by (rule subseq_set)
  then have mem: "hd qs \<in> set ps" "last qs \<in> set ps" using assms(3) by auto
  then show "pt_At (hd ps) \<le> pt_At (hd qs)" using assms(2) by (cases ps) (auto simp: in_time_def)
  show "pt_At (last qs) \<le> pt_At (last ps)"
    by (rule last_sorted_max[OF _ mem(2)]) (use assms(2) in \<open>simp add: in_time_def\<close>)
qed

lemma wide_bucket_length:
  assumes "in_time ps" "ps \<noteq> []" "in_range (pt_At (last ps)) (pt_At (hd ps))"
  shows "length (thinBy (time_sub (pt_At (last ps)) (pt_At (hd ps)) sdiv 1000 + 1) ps) \<le> 2002"
proof -
  define span where "span = pt_At (last ps) - pt_At (hd ps)"
  have "0 \<le> span" using assms(1,2) by (cases ps) (auto simp: span_def in_time_def)
  define width where "width = span div 1000 + 1"
  have eq: "time_sub (pt_At (last ps)) (pt_At (hd ps)) sdiv 1000 + 1 = width"
    using \<open>0 \<le> span\<close> by (simp add: assms(3) span_def[symmetric] width_def sdiv_pos)
  have "0 < width" using \<open>0 \<le> span\<close> by (simp add: width_def pos_imp_zdiv_nonneg_iff)
  have "span < 1000 * width" unfolding width_def by presburger
  then have "span < width * 1000" by (simp add: mult.commute)
  have "span div width < 1000"
  proof (rule ccontr)
    assume "\<not> span div width < 1000"
    then have "width * 1000 \<le> width * (span div width)" using \<open>0 < width\<close> by (intro mult_left_mono) simp_all
    also have "\<dots> \<le> span" using mult_div_mod_eq[of width span] pos_mod_sign[OF \<open>0 < width\<close>, of span] by linarith
    finally show False using \<open>span < width * 1000\<close> by simp
  qed
  with bucket_count[OF \<open>0 < width\<close> assms(1,2)] have "card (bucket_of width ` set ps) \<le> 1001"
    by (simp add: span_def[symmetric])
  with thinBy_length[OF \<open>0 < width\<close> assms(1)] show ?thesis unfolding eq by simp
qed

text \<open>
  Thinning a chronological series keeps points of it in order, among them the last one
  and one as high as any point, and leaves at most 2002 points: 1001 buckets of two.
\<close>

theorem ThinSeries_keeps_peak:
  assumes "in_time points" "points \<noteq> []" "in_range (pt_At (last points)) (pt_At (hd points))"
  shows "subseq (ThinSeries points) points \<and> last (ThinSeries points) = last points \<and>
    (\<forall>p \<in> set points. \<exists>q \<in> set (ThinSeries points). pt_Percent p \<le> pt_Percent q) \<and>
    length (ThinSeries points) \<le> 2002"
proof -
  define ms where "ms = thinBy minute points"
  have ms: "subseq ms points" "ms \<noteq> []" "last ms = last points"
    "\<forall>p \<in> set points. \<exists>q \<in> set ms. pt_Percent p \<le> pt_Percent q"
    using thinBy_keeps[of minute points] assms(2) unfolding ms_def by blast+
  show ?thesis
  proof (cases "length ms > 2000")
    case False
    then have "ThinSeries points = ms" by (simp add: ThinSeries_def Let_def ms_def[symmetric] seriesMaxPoints_def)
    with ms False show ?thesis by simp
  next
    case True
    have sorted: "in_time ms" using ms(1) assms(1) by (rule subseq_in_time)
    have ends: "pt_At (hd points) \<le> pt_At (hd ms)" "pt_At (hd ms) \<le> pt_At (last ms)"
      using subseq_bounds[OF ms(1) assms(1) ms(2)] sorted ms(2) by (cases ms; auto simp: in_time_def)+
    then have range: "in_range (pt_At (last ms)) (pt_At (hd ms))"
      using assms(3) by (simp add: in_range_def ms(3) min_duration_def)
    define width where "width = time_sub (pt_At (last ms)) (pt_At (hd ms)) sdiv 1000 + 1"
    have thin: "ThinSeries points = thinBy width ms"
      using True ms(2) by (simp add: ThinSeries_def Let_def ms_def[symmetric] seriesMaxPoints_def width_def
          last_conv_nth hd_conv_nth sdiv_pos)
    from thinBy_keeps[of width ms] ms(2) have tk: "subseq (thinBy width ms) ms" "last (thinBy width ms) = last ms"
      "\<forall>p \<in> set ms. \<exists>q \<in> set (thinBy width ms). pt_Percent p \<le> pt_Percent q" by blast+
    have "subseq (thinBy width ms) points" using tk(1) ms(1) by (rule subseq_order.order_trans)
    moreover have "\<forall>p \<in> set points. \<exists>q \<in> set (thinBy width ms). pt_Percent p \<le> pt_Percent q"
      using ms(4) tk(3) by (meson order_trans)
    moreover have "length (thinBy width ms) \<le> 2002"
      unfolding width_def by (rule wide_bucket_length[OF sorted ms(2) range])
    ultimately show ?thesis unfolding thin using tk(2) ms(3) by simp
  qed
qed

theorem ThinSeries_keeps_peak_witness:
  "subseq (ThinSeries demo_series) demo_series \<and> last (ThinSeries demo_series) = \<lparr>pt_At = 9, pt_Percent = 0\<rparr> \<and>
   length (ThinSeries demo_series) = 2"
proof -
  have "in_time demo_series" "demo_series \<noteq> []" "in_range (pt_At (last demo_series)) (pt_At (hd demo_series))"
    by (simp_all add: in_time_def demo_series_def in_range_def min_duration_def max_duration_def)
  moreover have "length (ThinSeries demo_series) = 2" by code_simp
  ultimately show ?thesis using ThinSeries_keeps_peak[of demo_series] by (simp add: demo_series_def)
qed

subsection \<open>The bound of 2000 points is passed\<close>

lemma thinBy_distinct:
  "sorted_wrt (\<lambda>p q. bucket_of width p < bucket_of width q) ps \<Longrightarrow> thinBy width ps = ps"
proof (induction ps)
  case (Cons p ps)
  have "takeWhile (\<lambda>q. bucket_of width q = bucket_of width p) ps = []"
    "dropWhile (\<lambda>q. bucket_of width q = bucket_of width p) ps = ps"
    using Cons.prems by (cases ps; auto)+
  with Cons show ?case by (simp add: thinBy_run run_of_def rest_of_def kept_def peak_index_def)
qed simp

definition pairs :: "(series_point \<times> series_point) list \<Rightarrow> series_point list" where
  "pairs xs = concat (map (\<lambda>(p, q). [p, q]) xs)"

lemma pairs_simps [simp]: "pairs [] = []" "pairs ((p, q) # xs) = p # q # pairs xs"
  by (simp_all add: pairs_def)

lemma thinBy_pairs:
  assumes "sorted_wrt (\<lambda>x y. bucket_of width (fst x) < bucket_of width (fst y)) xs"
    "\<forall>(p, q) \<in> set xs. bucket_of width q = bucket_of width p \<and> pt_Percent q < pt_Percent p"
  shows "thinBy width (pairs xs) = pairs xs"
  using assms
proof (induction xs)
  case (Cons x xs)
  obtain p q where x: "x = (p, q)" by fastforce
  have "takeWhile (\<lambda>r. bucket_of width r = bucket_of width p) (pairs xs) = []"
    "dropWhile (\<lambda>r. bucket_of width r = bucket_of width p) (pairs xs) = pairs xs"
    using Cons.prems(1) x by (cases xs; auto)+
  moreover have "bucket_of width q = bucket_of width p" "pt_Percent q < pt_Percent p" using Cons.prems(2) x by auto
  ultimately show ?case
    using Cons by (simp add: x thinBy_run run_of_def rest_of_def kept_def peak_index_def upt_rec)
qed simp

text \<open>Two points in each of 1001 buckets of three minutes, in minutes of their own.\<close>

definition crowded :: "nat \<Rightarrow> series_point \<times> series_point" where
  "crowded i =
     (let t = int i * (3 * minute);
          first = (if i = 0 then minute + 1000 else if i = 1000 then t else t + minute);
          second = (if i = 1000 then t + minute else t + 2 * minute)
      in (\<lparr>pt_At = first, pt_Percent = 2\<rparr>, \<lparr>pt_At = second, pt_Percent = 1\<rparr>))"

definition crowded_series :: "series_point list" where
  "crowded_series = pairs (map crowded [0..<1001])"

lemma crowded_bounds:
  assumes "i \<le> 1000"
  shows "int i * (3 * minute) \<le> pt_At (fst (crowded i))"
    "pt_At (fst (crowded i)) div minute < pt_At (snd (crowded i)) div minute"
    "pt_At (snd (crowded i)) < int i * (3 * minute) + 3 * minute"
    "pt_Percent (snd (crowded i)) < pt_Percent (fst (crowded i))"
proof -
  have "(int i * (3 * minute) + k * minute) div minute = 3 * int i + k" for k
  proof -
    have "int i * (3 * minute) + k * minute = minute * (3 * int i + k)" by (simp add: algebra_simps)
    then show ?thesis by (metis minute_pos less_irrefl nonzero_mult_div_cancel_left)
  qed
  from this[of 0] this[of 1] this[of 2] show "pt_At (fst (crowded i)) div minute < pt_At (snd (crowded i)) div minute"
    by (simp add: crowded_def Let_def) (simp add: time_units)
qed (simp_all add: crowded_def Let_def time_units)

lemma bucket_eqI:
  assumes "int i * width \<le> pt_At p" "pt_At p < int i * width + width" "0 < width"
  shows "bucket_of width p = int i"
proof -
  have "0 \<le> int i * width" using assms(3) by simp
  then have "0 \<le> pt_At p" using assms(1) by linarith
  moreover have "pt_At p div width = int i"
    using assms(1,2) by (intro int_div_pos_eq[where r = "pt_At p - int i * width"]) (simp_all add: mult.commute)
  ultimately show ?thesis using assms(3) by (simp add: bucket_of_def sdiv_pos)
qed

lemma pairs_hd: "hd (pairs (x # xs)) = fst x" and pairs_last: "last (pairs (xs @ [x])) = snd x"
  by (simp_all add: pairs_def case_prod_beta')

lemma crowded_minutes:
  assumes "n \<le> 1001"
  shows "sorted_wrt (\<lambda>p q. pt_At p div minute < pt_At q div minute) (pairs (map crowded [0..<n])) \<and>
    (\<forall>p \<in> set (pairs (map crowded [0..<n])). 0 \<le> pt_At p \<and> pt_At p div minute < 3 * int n)"
  using assms
proof (induction n)
  case (Suc n)
  have b: "int n * (3 * minute) \<le> pt_At (fst (crowded n))"
    "pt_At (fst (crowded n)) div minute < pt_At (snd (crowded n)) div minute"
    "pt_At (snd (crowded n)) < int n * (3 * minute) + 3 * minute"
    using crowded_bounds[of n] Suc.prems by simp_all
  have "3 * int n \<le> pt_At (fst (crowded n)) div minute"
    using b(1) zdiv_mono1[OF b(1) minute_pos] by (simp add: algebra_simps time_units)
  moreover have "pt_At (snd (crowded n)) div minute < 3 * int (Suc n)"
    using b(3) by (simp add: time_units algebra_simps)
  moreover have "0 \<le> pt_At (fst (crowded n))" using b(1) by (simp add: time_units)
  moreover have "0 \<le> pt_At (snd (crowded n))"
  proof -
    have "0 \<le> pt_At (fst (crowded n)) div minute"
      using calculation(3) by (simp add: pos_imp_zdiv_nonneg_iff)
    with b(2) have "0 \<le> pt_At (snd (crowded n)) div minute" by linarith
    then show ?thesis by (simp add: pos_imp_zdiv_nonneg_iff)
  qed
  moreover have "pairs (map crowded [0..<Suc n]) = pairs (map crowded [0..<n]) @ [fst (crowded n), snd (crowded n)]"
    by (simp add: pairs_def case_prod_beta')
  ultimately show ?case using Suc b(2) by (fastforce simp: sorted_wrt_append)
qed (simp add: pairs_def)

text \<open>
  A series can keep 2002 points, two more than \<open>seriesMaxPoints\<close>: the series of two points,
  the higher one first, in each of 1001 buckets is not thinned at all.
\<close>

theorem ThinSeries_passes_its_bound:
  "ThinSeries crowded_series = crowded_series \<and> length crowded_series = seriesMaxPoints + 2"
proof -
  let ?w = "3 * minute"
  have len: "length crowded_series = 2002"
    by (simp add: crowded_series_def pairs_def length_concat comp_def case_prod_beta' sum_list_triv)
  have "sorted_wrt (\<lambda>p q. bucket_of minute p < bucket_of minute q) crowded_series"
    using crowded_minutes[of 1001] unfolding crowded_series_def
    by (auto simp: bucket_of_def sdiv_pos elim!: sorted_wrt_mono_rel[rotated])
  then have minutes: "thinBy minute crowded_series = crowded_series" by (rule thinBy_distinct)
  have bucket: "bucket_of ?w (fst (crowded i)) = int i" "bucket_of ?w (snd (crowded i)) = int i" if "i \<le> 1000" for i
  proof -
    note b = crowded_bounds[OF that]
    have "pt_At (fst (crowded i)) < pt_At (snd (crowded i))"
      using b(2) zdiv_mono1[OF _ minute_pos] by (meson linorder_not_less)
    with b(1,3) show "bucket_of ?w (fst (crowded i)) = int i" "bucket_of ?w (snd (crowded i)) = int i"
      by (auto intro!: bucket_eqI)
  qed
  have wide: "thinBy ?w crowded_series = crowded_series"
    unfolding crowded_series_def
  proof (rule thinBy_pairs)
    show "sorted_wrt (\<lambda>x y. bucket_of ?w (fst x) < bucket_of ?w (fst y)) (map crowded [0..<1001])"
      by (auto simp: sorted_wrt_map bucket intro!: sorted_wrt_mono_rel[OF _ sorted_wrt_upt])
    show "\<forall>(p, q) \<in> set (map crowded [0..<1001]). bucket_of ?w q = bucket_of ?w p \<and> pt_Percent q < pt_Percent p"
      using bucket crowded_bounds(4) by (auto simp: case_prod_beta')
  qed
  have "[0..<1001] = 0 # [1..<1001]" "[0..<1001] = [0..<1000] @ [1000::nat]"
    using upt_conv_Cons[of 0 1001] upt_Suc_append[of 0 1000] by simp_all
  then have "map crowded [0..<1001] = crowded 0 # map crowded [1..<1001]"
    "map crowded [0..<1001] = map crowded [0..<1000] @ [crowded 1000]"
    by (metis list.map(2)) (metis \<open>[0..<1001] = [0..<1000] @ [1000]\<close> list.map map_append)
  then have "crowded_series = pairs (crowded 0 # map crowded [1..<1001])"
    "crowded_series = pairs (map crowded [0..<1000] @ [crowded 1000])"
    by (metis crowded_series_def)+
  then have "hd crowded_series = fst (crowded 0)" "last crowded_series = snd (crowded 1000)"
    by (metis pairs_hd, metis pairs_last)
  moreover have "crowded_series \<noteq> []" using len by auto
  ultimately have ends: "crowded_series ! 0 = fst (crowded 0)" "crowded_series ! (length crowded_series - 1) = snd (crowded 1000)"
    by (simp_all add: hd_conv_nth last_conv_nth)
  have "time_sub (pt_At (snd (crowded 1000))) (pt_At (fst (crowded 0))) sdiv 1000 + 1 = ?w"
    by (simp add: crowded_def Let_def time_sub_def min_duration_def max_duration_def time_units sdiv_pos)
  with wide minutes len ends show ?thesis
    by (simp add: ThinSeries_def Let_def seriesMaxPoints_def sdiv_pos)
qed

end
