(* ===== verification/Replay.thy ===== *)
theory Replay
  imports UseSeries
begin

text \<open>
  Session replays of \<open>internal/quota/capacity.go\<close>: \<open>ReplaySessionsSeries\<close> with its running
  state, \<open>SessionReplay.BlockedPercent\<close> and \<open>SessionReplay.Merge\<close>. The specification cuts the
  stream of requests into sessions first (\<open>sessions\<close>) and then measures every session alone;
  the one-pass replay is proved to compute it.
\<close>

section \<open>The code\<close>

record session_replay =
  sr_Windows :: int
  sr_HitWindows :: int
  sr_FirstHit :: time
  sr_PeakPercent :: f64
  sr_Total :: f64
  sr_Blocked :: f64

definition zero_replay :: session_replay where
  "zero_replay = \<lparr>sr_Windows = 0, sr_HitWindows = 0, sr_FirstHit = zero_time, sr_PeakPercent = 0,
     sr_Total = 0, sr_Blocked = 0\<rparr>"

definition BlockedPercent :: "session_replay \<Rightarrow> f64" where
  "BlockedPercent r = (if sr_Total r \<le> 0 then 0 else sr_Blocked r / sr_Total r * 100)"

definition Merge :: "session_replay \<Rightarrow> session_replay \<Rightarrow> session_replay" where
  "Merge r q =
     (let r = r\<lparr>sr_Windows := sr_Windows r + sr_Windows q\<rparr>;
          r = r\<lparr>sr_HitWindows := sr_HitWindows r + sr_HitWindows q\<rparr>;
          r = (if sr_FirstHit r = zero_time \<or> (sr_FirstHit q \<noteq> zero_time \<and> sr_FirstHit q < sr_FirstHit r)
               then r\<lparr>sr_FirstHit := sr_FirstHit q\<rparr> else r);
          r = r\<lparr>sr_PeakPercent := max (sr_PeakPercent r) (sr_PeakPercent q)\<rparr>;
          r = r\<lparr>sr_Total := sr_Total r + sr_Total q\<rparr>
      in r\<lparr>sr_Blocked := sr_Blocked r + sr_Blocked q\<rparr>)"

record replay_state =
  rs_r :: session_replay
  rs_series :: "series_point list"
  rs_end :: time
  rs_used :: f64
  rs_counted :: bool
  rs_hit :: bool

definition closeSession :: "f64 \<Rightarrow> replay_state \<Rightarrow> replay_state" where
  "closeSession capacity s =
     (if rs_counted s
      then s\<lparr>rs_r := (rs_r s)\<lparr>sr_PeakPercent := max (sr_PeakPercent (rs_r s)) (rs_used s / capacity * 100)\<rparr>,
             rs_series := rs_series s @ [\<lparr>pt_At = rs_end s, pt_Percent = 0\<rparr>]\<rparr>
      else s)"

definition open_session ::
  "f64 \<Rightarrow> duration \<Rightarrow> time \<Rightarrow> time \<Rightarrow> demand \<Rightarrow> replay_state \<Rightarrow> replay_state" where
  "open_session capacity window from to d s =
     (let s = closeSession capacity s;
          s = s\<lparr>rs_end := dm_At d + window, rs_used := 0, rs_hit := False,
                rs_counted := (\<not> dm_At d < from \<and> dm_At d < to)\<rparr>
      in if rs_counted s then s\<lparr>rs_r := (rs_r s)\<lparr>sr_Windows := sr_Windows (rs_r s) + 1\<rparr>\<rparr> else s)"

definition count_demand :: "f64 \<Rightarrow> demand \<Rightarrow> replay_state \<Rightarrow> replay_state" where
  "count_demand capacity d s =
     (let r = rs_r s;
          r = r\<lparr>sr_Total := sr_Total r + dm_Weight d\<rparr>;
          r = (if rs_hit s then r\<lparr>sr_Blocked := sr_Blocked r + dm_Weight d\<rparr> else r);
          used = rs_used s + dm_Weight d;
          s = s\<lparr>rs_r := r, rs_used := used,
                rs_series := rs_series s @ [\<lparr>pt_At = dm_At d, pt_Percent = used / capacity * 100\<rparr>]\<rparr>
      in if \<not> rs_hit s \<and> used > capacity
         then s\<lparr>rs_hit := True,
                rs_r := (let r = r\<lparr>sr_HitWindows := sr_HitWindows r + 1\<rparr> in
                         if sr_FirstHit r = zero_time then r\<lparr>sr_FirstHit := dm_At d\<rparr> else r)\<rparr>
         else s)"

definition replay_step ::
  "f64 \<Rightarrow> duration \<Rightarrow> time \<Rightarrow> time \<Rightarrow> demand \<Rightarrow> replay_state \<Rightarrow> replay_state" where
  "replay_step capacity window from to d s =
     (if dm_Weight d \<le> 0 then s
      else let s = (if rs_end s = zero_time \<or> \<not> dm_At d < rs_end s
                    then open_session capacity window from to d s else s)
           in if \<not> rs_counted s then s else count_demand capacity d s)"

definition initial_state :: replay_state where
  "initial_state = \<lparr>rs_r = zero_replay, rs_series = [], rs_end = zero_time, rs_used = 0,
     rs_counted = False, rs_hit = False\<rparr>"

definition ReplaySessionsSeries ::
  "demand list \<Rightarrow> f64 \<Rightarrow> duration \<Rightarrow> time \<Rightarrow> time \<Rightarrow> session_replay \<times> series_point list" where
  "ReplaySessionsSeries demand capacity window from to =
     (if capacity \<le> 0 then (zero_replay, [])
      else let stream = sort_by (\<lambda>a b. dm_At a < dm_At b) demand;
               s = closeSession capacity (fold (replay_step capacity window from to) stream initial_state)
           in (rs_r s, ThinSeries (clipSeries (rs_series s) from to)))"

definition ReplaySessions :: "demand list \<Rightarrow> f64 \<Rightarrow> duration \<Rightarrow> time \<Rightarrow> time \<Rightarrow> session_replay" where
  "ReplaySessions demand capacity window from to =
     fst (ReplaySessionsSeries demand capacity window from to)"

section \<open>The specification\<close>

text \<open>A session opens with a request and takes all requests within the window from it.\<close>

function sessions :: "duration \<Rightarrow> demand list \<Rightarrow> demand list list" where
  "sessions window [] = []"
| "sessions window (d # ds) =
     (d # takeWhile (\<lambda>e. dm_At e < dm_At d + window) ds) #
     sessions window (dropWhile (\<lambda>e. dm_At e < dm_At d + window) ds)"
  by pat_completeness auto
termination
  by (relation "measure (\<lambda>(w, ds). length ds)") (auto simp: le_imp_less_Suc length_dropWhile_le)

text \<open>Within a session: when the limit is hit, and the weight of what came after.\<close>

fun hits :: "f64 \<Rightarrow> f64 \<Rightarrow> demand list \<Rightarrow> time list" where
  "hits capacity used [] = []"
| "hits capacity used (d # ds) =
     (if used \<le> capacity \<and> capacity < used + dm_Weight d then [dm_At d] else []) @
     hits capacity (used + dm_Weight d) ds"

fun blocked :: "f64 \<Rightarrow> f64 \<Rightarrow> demand list \<Rightarrow> f64" where
  "blocked capacity used [] = 0"
| "blocked capacity used (d # ds) =
     (if capacity < used then dm_Weight d else 0) + blocked capacity (used + dm_Weight d) ds"

fun uses :: "f64 \<Rightarrow> f64 \<Rightarrow> demand list \<Rightarrow> series_point list" where
  "uses capacity used [] = []"
| "uses capacity used (d # ds) =
     \<lparr>pt_At = dm_At d, pt_Percent = (used + dm_Weight d) / capacity * 100\<rparr> # uses capacity (used + dm_Weight d) ds"

abbreviation weight_sum :: "demand list \<Rightarrow> f64" where
  "weight_sum ds \<equiv> sum_list (map dm_Weight ds)"

definition session_points :: "f64 \<Rightarrow> duration \<Rightarrow> demand list \<Rightarrow> series_point list" where
  "session_points capacity window ss = uses capacity 0 ss @ [\<lparr>pt_At = dm_At (hd ss) + window, pt_Percent = 0\<rparr>]"

text \<open>The sessions that open in the period.\<close>

definition counted_sessions :: "demand list \<Rightarrow> duration \<Rightarrow> time \<Rightarrow> time \<Rightarrow> demand list list" where
  "counted_sessions demand window from to =
     filter (\<lambda>ss. from \<le> dm_At (hd ss) \<and> dm_At (hd ss) < to)
       (sessions window (sort_by (\<lambda>a b. dm_At a < dm_At b) (filter (\<lambda>d. 0 < dm_Weight d) demand)))"

definition replay_of :: "f64 \<Rightarrow> demand list list \<Rightarrow> session_replay" where
  "replay_of capacity ss =
     \<lparr>sr_Windows = int (length ss),
      sr_HitWindows = int (length (concat (map (hits capacity 0) ss))),
      sr_FirstHit = (case concat (map (hits capacity 0) ss) of [] \<Rightarrow> zero_time | t # _ \<Rightarrow> t),
      sr_PeakPercent = fold (\<lambda>s m. max m (weight_sum s / capacity * 100)) ss 0,
      sr_Total = sum_list (map weight_sum ss),
      sr_Blocked = sum_list (map (blocked capacity 0) ss)\<rparr>"

section \<open>One session\<close>

definition first_of :: "time list \<Rightarrow> time" where
  "first_of ts = (case ts of [] \<Rightarrow> zero_time | t # _ \<Rightarrow> t)"

definition add_usage :: "f64 \<Rightarrow> f64 \<Rightarrow> demand list \<Rightarrow> session_replay \<Rightarrow> session_replay" where
  "add_usage capacity used ds r =
     r\<lparr>sr_HitWindows := sr_HitWindows r + int (length (hits capacity used ds)),
       sr_FirstHit := (if sr_FirstHit r = zero_time then first_of (hits capacity used ds) else sr_FirstHit r),
       sr_Total := sr_Total r + weight_sum ds,
       sr_Blocked := sr_Blocked r + blocked capacity used ds\<rparr>"

definition add_session :: "f64 \<Rightarrow> demand list \<Rightarrow> session_replay \<Rightarrow> session_replay" where
  "add_session capacity ss r =
     (add_usage capacity 0 ss (r\<lparr>sr_Windows := sr_Windows r + 1\<rparr>))
       \<lparr>sr_PeakPercent := max (sr_PeakPercent r) (weight_sum ss / capacity * 100)\<rparr>"

lemma count_demand_eq:
  assumes "rs_hit s \<longleftrightarrow> capacity < rs_used s" "0 < dm_Weight d"
  shows "count_demand capacity d s =
    s\<lparr>rs_r := add_usage capacity (rs_used s) [d] (rs_r s),
      rs_series := rs_series s @ uses capacity (rs_used s) [d],
      rs_used := rs_used s + dm_Weight d, rs_hit := (capacity < rs_used s + dm_Weight d)\<rparr>"
  using assms by (cases "capacity < rs_used s") (auto simp: count_demand_def add_usage_def first_of_def Let_def)

lemma add_usage_append:
  assumes "\<forall>d \<in> set (ds @ es). dm_At d \<noteq> zero_time"
  shows "add_usage capacity (used + weight_sum ds) es (add_usage capacity used ds r) = add_usage capacity used (ds @ es) r"
proof -
  have hits: "hits capacity u (ds @ es) = hits capacity u ds @ hits capacity (u + weight_sum ds) es" for u
    by (induction ds arbitrary: u) (simp_all add: add.assoc)
  have blocked: "blocked capacity u (ds @ es) = blocked capacity u ds + blocked capacity (u + weight_sum ds) es" for u
    by (induction ds arbitrary: u) (simp_all add: add.assoc)
  have mem: "set (hits capacity u ds) \<subseteq> dm_At ` set ds" for u
    by (induction ds arbitrary: u) auto
  then have nz: "first_of (hits capacity used ds) = zero_time \<longleftrightarrow> hits capacity used ds = []"
  proof (cases "hits capacity used ds")
    case (Cons t ts)
    then have "t \<in> dm_At ` set ds" using mem by (metis list.set_intros(1) subsetD)
    with Cons assms show ?thesis by (auto simp: first_of_def)
  qed (simp add: first_of_def)
  show ?thesis
    using nz by (auto simp: add_usage_def hits blocked first_of_def split: list.splits)
qed

lemma uses_append: "uses capacity u (ds @ es) = uses capacity u ds @ uses capacity (u + weight_sum ds) es"
  by (induction ds arbitrary: u) (simp_all add: add.assoc)

text \<open>Requests inside the running session.\<close>

definition stepped :: "f64 \<Rightarrow> demand list \<Rightarrow> replay_state \<Rightarrow> replay_state" where
  "stepped capacity ds s =
     s\<lparr>rs_r := add_usage capacity (rs_used s) ds (rs_r s), rs_series := rs_series s @ uses capacity (rs_used s) ds,
       rs_used := rs_used s + weight_sum ds, rs_hit := (capacity < rs_used s + weight_sum ds)\<rparr>"

lemma replay_inside:
  assumes "\<forall>d \<in> set ds. 0 < dm_Weight d \<and> dm_At d < rs_end s \<and> dm_At d \<noteq> zero_time" "rs_end s \<noteq> zero_time"
    "rs_hit s \<longleftrightarrow> capacity < rs_used s" "rs_counted s"
  shows "fold (replay_step capacity window from to) ds s = stepped capacity ds s"
  using assms(1)
proof (induction ds rule: rev_induct)
  case Nil
  have "add_usage capacity u [] r = r" for u r by (simp add: add_usage_def first_of_def)
  then show ?case using assms(3) by (simp add: stepped_def)
next
  case (snoc d ds)
  let ?t = "stepped capacity ds s"
  have t: "rs_end ?t = rs_end s" "rs_counted ?t = rs_counted s" "rs_hit ?t \<longleftrightarrow> capacity < rs_used ?t"
    "rs_used ?t = rs_used s + weight_sum ds" by (simp_all add: stepped_def)
  have "fold (replay_step capacity window from to) (ds @ [d]) s = replay_step capacity window from to d ?t"
    using snoc by simp
  also have "\<dots> = count_demand capacity d ?t"
    using snoc.prems assms(2,4) t by (simp add: replay_step_def Let_def not_le)
  also have "\<dots> = stepped capacity (ds @ [d]) s"
    using snoc.prems add_usage_append[of ds "[d]"]
    by (subst count_demand_eq[OF t(3)]) (simp_all add: stepped_def uses_append add.assoc)
  finally show ?case .
qed

lemma replay_uncounted:
  assumes "\<forall>d \<in> set ds. dm_At d < rs_end s" "rs_end s \<noteq> zero_time" "\<not> rs_counted s"
  shows "fold (replay_step capacity window from to) ds s = s"
  using assms by (induction ds) (simp_all add: replay_step_def Let_def)

text \<open>What a state amounts to once its running session is closed.\<close>

definition outcome :: "f64 \<Rightarrow> replay_state \<Rightarrow> session_replay \<times> series_point list" where
  "outcome capacity s = (rs_r (closeSession capacity s), rs_series (closeSession capacity s))"

lemma replay_session:
  assumes "0 < capacity" "\<forall>d \<in> set ss. 0 < dm_Weight d \<and> zero_time < dm_At d" "0 < window"
    "ss = d # es" "\<forall>e \<in> set es. dm_At e < dm_At d + window"
    "rs_end s = zero_time \<or> \<not> dm_At d < rs_end s"
    "t = fold (replay_step capacity window from to) ss s" "outcome capacity s = (r, ps)"
  shows "rs_end t = dm_At d + window"
    "outcome capacity t =
      (if from \<le> dm_At d \<and> dm_At d < to then (add_session capacity ss r, ps @ session_points capacity window ss) else (r, ps))"
proof -
  have d: "0 < dm_Weight d" "zero_time < dm_At d" using assms(2,4) by auto
  define o' where "o' = open_session capacity window from to d s"
  have end': "rs_end o' = dm_At d + window" "rs_end o' \<noteq> zero_time"
    using d(2) assms(3) by (simp_all add: o'_def open_session_def Let_def)
  have t: "t = fold (replay_step capacity window from to) es (if rs_counted o' then count_demand capacity d o' else o')"
    unfolding assms(7,4) using d(1) assms(6) by (simp add: replay_step_def o'_def Let_def not_le)
  have rp: "rs_r (closeSession capacity s) = r" "rs_series (closeSession capacity s) = ps"
    using assms(8) by (simp_all add: outcome_def)
  show "rs_end t = dm_At d + window"
    and "outcome capacity t =
      (if from \<le> dm_At d \<and> dm_At d < to then (add_session capacity ss r, ps @ session_points capacity window ss) else (r, ps))"
  proof (atomize (full), cases "from \<le> dm_At d \<and> dm_At d < to")
    case True
    then have op: "rs_counted o'" "rs_used o' = 0" "\<not> rs_hit o'" "rs_series o' = ps"
      "rs_r o' = r\<lparr>sr_Windows := sr_Windows r + 1\<rparr>"
      using rp by (simp_all add: o'_def open_session_def Let_def not_less)
    have hit: "rs_hit o' \<longleftrightarrow> capacity < rs_used o'" using op assms(1) by simp
    have c: "count_demand capacity d o' = stepped capacity [d] o'"
      using op(2) by (subst count_demand_eq[OF hit d(1)]) (simp add: stepped_def)
    have "t = fold (replay_step capacity window from to) es (stepped capacity [d] o')"
      using t op(1) c by simp
    also have "\<dots> = stepped capacity es (stepped capacity [d] o')"
      by (rule replay_inside) (use assms(2,4,5) end' op(1) in \<open>auto simp: stepped_def\<close>)
    also have "\<dots> = stepped capacity ss o'"
      using assms(2,4) add_usage_append[of "[d]" es capacity 0] op(2)
      by (fastforce simp: stepped_def add.assoc)
    finally have t': "t = stepped capacity ss o'" .
    show "rs_end t = dm_At d + window \<and> outcome capacity t =
      (if from \<le> dm_At d \<and> dm_At d < to then (add_session capacity ss r, ps @ session_points capacity window ss) else (r, ps))"
      using True op end' assms(4)
      by (simp add: t' stepped_def outcome_def closeSession_def add_session_def session_points_def add_usage_def)
  next
    case False
    then have op: "\<not> rs_counted o'" "rs_series o' = ps" "rs_r o' = r"
      using rp by (auto simp: o'_def open_session_def Let_def)
    have "t = o'" unfolding t using op(1) assms(5) end' by (simp add: replay_uncounted)
    with False op end' show "rs_end t = dm_At d + window \<and> outcome capacity t =
      (if from \<le> dm_At d \<and> dm_At d < to then (add_session capacity ss r, ps @ session_points capacity window ss) else (r, ps))"
      unfolding if_not_P[OF False] by (simp add: outcome_def closeSession_def)
  qed
qed

section \<open>The whole stream\<close>

lemma replay_stream:
  assumes "0 < capacity" "0 < window" "\<forall>d \<in> set ds. 0 < dm_Weight d \<and> zero_time < dm_At d"
    "rs_end s = zero_time \<or> ds = [] \<or> \<not> dm_At (hd ds) < rs_end s"
  shows "outcome capacity (fold (replay_step capacity window from to) ds s) =
    fold (\<lambda>ss (r, ps). (add_session capacity ss r, ps @ session_points capacity window ss))
      (filter (\<lambda>ss. from \<le> dm_At (hd ss) \<and> dm_At (hd ss) < to) (sessions window ds)) (outcome capacity s)"
  using assms(2-4)
proof (induction window ds arbitrary: s rule: sessions.induct)
  case (2 window d ds)
  define es where "es = takeWhile (\<lambda>e. dm_At e < dm_At d + window) ds"
  define rest where "rest = dropWhile (\<lambda>e. dm_At e < dm_At d + window) ds"
  define t where "t = fold (replay_step capacity window from to) (d # es) s"
  obtain r ps where rp: "outcome capacity s = (r, ps)" by fastforce
  have split: "d # ds = (d # es) @ rest" by (simp add: es_def rest_def)
  have es: "\<forall>e \<in> set es. dm_At e < dm_At d + window" by (auto simp: es_def dest: set_takeWhileD)
  have sub: "\<forall>x \<in> set (d # es) \<union> set rest. 0 < dm_Weight x \<and> zero_time < dm_At x"
    using "2.prems"(2) by (simp only: split set_append)
  have pre: "\<forall>x \<in> set (d # es). 0 < dm_Weight x \<and> zero_time < dm_At x"
    "rs_end s = zero_time \<or> \<not> dm_At d < rs_end s" using sub "2.prems"(3) by auto
  note step = replay_session[OF assms(1) pre(1) "2.prems"(1) refl es pre(2) t_def rp]
  have "rest = [] \<or> \<not> dm_At (hd rest) < rs_end t"
    using hd_dropWhile[of "\<lambda>e. dm_At e < dm_At d + window" ds] by (auto simp: rest_def step(1))
  with "2.IH"[folded rest_def, OF "2.prems"(1)] sub
  have "outcome capacity (fold (replay_step capacity window from to) rest t) =
    fold (\<lambda>ss (r, ps). (add_session capacity ss r, ps @ session_points capacity window ss))
      (filter (\<lambda>ss. from \<le> dm_At (hd ss) \<and> dm_At (hd ss) < to) (sessions window rest)) (outcome capacity t)"
    by auto
  moreover have "fold (replay_step capacity window from to) (d # ds) s = fold (replay_step capacity window from to) rest t"
    unfolding split fold_append t_def by simp
  ultimately show ?case using step(2) rp by (auto simp: es_def[symmetric] rest_def[symmetric])
qed simp

lemma hits_mem: "set (hits capacity u ds) \<subseteq> dm_At ` set ds"
  by (induction ds arbitrary: u) auto

lemma first_of_append: "first_of (ts @ us) = (if ts = [] then first_of us else first_of ts)"
  by (cases ts) (simp_all add: first_of_def)

lemma first_of_zero: "\<forall>t \<in> set ts. zero_time < t \<Longrightarrow> first_of ts = zero_time \<longleftrightarrow> ts = []"
  by (cases ts) (auto simp: first_of_def)

lemma replay_of_snoc:
  assumes "\<forall>s \<in> set ss. \<forall>d \<in> set s. zero_time < dm_At d"
  shows "replay_of capacity (ss @ [x]) = add_session capacity x (replay_of capacity ss)"
proof -
  let ?hs = "concat (map (hits capacity 0) ss)"
  have "\<forall>t \<in> set ?hs. zero_time < t" using hits_mem assms by fastforce
  then have "first_of ?hs = zero_time \<longleftrightarrow> ?hs = []" by (rule first_of_zero)
  then show ?thesis
    unfolding replay_of_def first_of_def[symmetric]
    by (auto simp: add_session_def add_usage_def first_of_append simp del: concat_eq_Nil_conv)
qed

lemma replay_of_fold:
  assumes "\<forall>s \<in> set ss. \<forall>d \<in> set s. zero_time < dm_At d"
  shows "fold (\<lambda>s (r, ps). (add_session capacity s r, ps @ session_points capacity window s)) ss (zero_replay, []) =
    (replay_of capacity ss, concat (map (session_points capacity window) ss))"
  using assms
proof (induction ss rule: rev_induct)
  case Nil
  then show ?case by (simp add: replay_of_def zero_replay_def)
next
  case (snoc s ss)
  then show ?case by (simp add: replay_of_snoc)
qed

lemma sessions_concat: "concat (sessions window ds) = ds"
  by (induction window ds rule: sessions.induct) simp_all

lemma sessions_mem: "ss \<in> set (sessions window ds) \<Longrightarrow> d \<in> set ss \<Longrightarrow> d \<in> set ds"
  by (metis UN_I sessions_concat set_concat)

lemma counted_session_mem:
  assumes "ss \<in> set (counted_sessions demand window from to)" "d \<in> set ss"
  shows "d \<in> set demand \<and> 0 < dm_Weight d"
  using assms sessions_mem by (fastforce simp: counted_sessions_def)

lemma replay_skips_weightless:
  "fold (replay_step capacity window from to) ds s =
   fold (replay_step capacity window from to) (filter (\<lambda>d. 0 < dm_Weight d) ds) s"
  by (induction ds arbitrary: s) (simp_all add: replay_step_def not_less)

lemma replay_series_eq:
  assumes "0 < capacity" "0 < window" "\<forall>d \<in> set demand. zero_time < dm_At d"
  shows "ReplaySessionsSeries demand capacity window from to =
    (replay_of capacity (counted_sessions demand window from to),
     ThinSeries (clipSeries (concat (map (session_points capacity window) (counted_sessions demand window from to))) from to))"
proof -
  let ?lt = "\<lambda>a b. dm_At a < dm_At b" and ?S = "counted_sessions demand window from to"
  let ?ds = "sort_by ?lt (filter (\<lambda>d. 0 < dm_Weight d) demand)"
  let ?s = "fold (replay_step capacity window from to) (sort_by ?lt demand) initial_state"
  have skip: "?s = fold (replay_step capacity window from to) ?ds initial_state"
    by (subst replay_skips_weightless) (simp only: strict_weak.filter_sort_by[OF strict_weak_key])
  have start: "outcome capacity initial_state = (zero_replay, [])" "rs_end initial_state = zero_time"
    by (simp_all add: outcome_def closeSession_def initial_state_def)
  have "\<forall>d \<in> set ?ds. 0 < dm_Weight d \<and> zero_time < dm_At d" using assms(3) by auto
  from replay_stream[OF assms(1,2) this disjI1[OF start(2)]]
  have "outcome capacity ?s = fold (\<lambda>ss (r, ps). (add_session capacity ss r, ps @ session_points capacity window ss))
      ?S (zero_replay, [])"
    unfolding skip start(1) counted_sessions_def .
  also have "\<dots> = (replay_of capacity ?S, concat (map (session_points capacity window) ?S))"
    by (rule replay_of_fold) (use counted_session_mem assms(3) in blast)
  finally show ?thesis
    using assms(1) by (simp add: ReplaySessionsSeries_def Let_def outcome_def)
qed

text \<open>
  The replay is that of its sessions: cutting the requests with weight, in time order,
  into sessions that open with the first request after the previous one ended and measuring
  the ones that open in the period gives the figures and the series the one pass computes.
\<close>

theorem ReplaySessionsSeries_refines:
  assumes "0 < capacity" "0 < window" "\<forall>d \<in> set demand. zero_time < dm_At d"
  shows "ReplaySessionsSeries demand capacity window from to =
    (replay_of capacity (counted_sessions demand window from to),
     ThinSeries (clipSeries (concat (map (session_points capacity window) (counted_sessions demand window from to))) from to)) \<and>
    mset (concat (sessions window (sort_by (\<lambda>a b. dm_At a < dm_At b) (filter (\<lambda>d. 0 < dm_Weight d) demand)))) =
      mset (filter (\<lambda>d. 0 < dm_Weight d) demand)"
  using replay_series_eq[OF assms] by (simp add: sessions_concat)

definition demo_stream :: "demand list" where
  "demo_stream = [\<lparr>dm_At = 0, dm_Weight = 3\<rparr>, \<lparr>dm_At = 4, dm_Weight = 8\<rparr>, \<lparr>dm_At = 7, dm_Weight = 2\<rparr>,
     \<lparr>dm_At = 12, dm_Weight = 5\<rparr>]"

lemma demo_stream_times: "\<forall>d \<in> set demo_stream. zero_time < dm_At d"
  by (simp add: demo_stream_def zero_time_def second_def)

theorem ReplaySessionsSeries_refines_witness:
  "fst (ReplaySessionsSeries demo_stream 10 10 0 20) =
     \<lparr>sr_Windows = 2, sr_HitWindows = 1, sr_FirstHit = 4, sr_PeakPercent = 130, sr_Total = 18, sr_Blocked = 2\<rparr>"
proof -
  have "replay_of 10 (counted_sessions demo_stream 10 0 20) =
     \<lparr>sr_Windows = 2, sr_HitWindows = 1, sr_FirstHit = 4, sr_PeakPercent = 130, sr_Total = 18, sr_Blocked = 2\<rparr>"
    by code_simp
  with ReplaySessionsSeries_refines[of 10 10 demo_stream 0 20] demo_stream_times show ?thesis by simp
qed

section \<open>What a replay's figures satisfy\<close>

lemma total_nonneg: "\<forall>d \<in> set ds. 0 < dm_Weight d \<Longrightarrow> 0 \<le> weight_sum ds"
  by (rule sum_list_nonneg) auto

lemma hits_once:
  assumes "\<forall>d \<in> set ds. 0 < dm_Weight d"
  shows "length (hits capacity u ds) = (if u \<le> capacity \<and> capacity < u + weight_sum ds then 1 else 0)"
  using assms
proof (induction ds arbitrary: u)
  case (Cons d ds)
  then have "0 < dm_Weight d" "0 \<le> weight_sum ds" using total_nonneg[of ds] by simp_all
  with Cons show ?case by (auto simp: add.assoc)
qed simp

lemma blocked_bounds:
  assumes "\<forall>d \<in> set ds. 0 < dm_Weight d"
  shows "0 \<le> blocked capacity u ds \<and> blocked capacity u ds \<le> weight_sum ds \<and>
    (u + weight_sum ds \<le> capacity \<longrightarrow> blocked capacity u ds = 0)"
  using assms
proof (induction ds arbitrary: u)
  case (Cons d ds)
  then have "0 < dm_Weight d" "0 \<le> weight_sum ds" using total_nonneg[of ds] by simp_all
  with Cons.IH[of "u + dm_Weight d"] Cons.prems show ?case by (auto simp: add.assoc)
qed simp

lemma fold_max_ge: "m \<le> fold (\<lambda>s m. max m (f s)) ss (m :: f64)"
  by (induction ss arbitrary: m) (auto intro: order_trans[OF max.cobounded1])

lemma fold_max_less: "x < fold (\<lambda>s m. max m (f s)) ss (m :: f64) \<longleftrightarrow> x < m \<or> (\<exists>s \<in> set ss. x < f s)"
  by (induction ss arbitrary: m) (auto simp: less_max_iff_disj)

lemma sum_list_if_one: "sum_list (map (\<lambda>x. if P x then 1 else 0) xs) = length (filter P xs)"
  by (induction xs) auto

lemma replay_of_figures:
  assumes "0 < capacity" "\<forall>s \<in> set ss. \<forall>d \<in> set s. 0 < dm_Weight d" "r = replay_of capacity ss"
  shows "sr_HitWindows r = int (length (filter (\<lambda>s. capacity < weight_sum s) ss))"
    "100 < sr_PeakPercent r \<longleftrightarrow> (\<exists>s \<in> set ss. capacity < weight_sum s)"
    "0 \<le> sr_Blocked r" "sr_Blocked r \<le> sr_Total r"
    "\<forall>s \<in> set ss. weight_sum s \<le> capacity \<Longrightarrow> sr_Blocked r = 0"
proof -
  have "length (concat (map (hits capacity 0) ss)) = sum_list (map (\<lambda>s. if capacity < weight_sum s then 1 else 0) ss)"
    using assms(1,2) by (simp add: length_concat comp_def hits_once cong: map_cong)
  then show "sr_HitWindows r = int (length (filter (\<lambda>s. capacity < weight_sum s) ss))"
    by (simp add: assms(3) replay_of_def sum_list_if_one)
  have "100 < x / capacity * 100 \<longleftrightarrow> capacity < x" for x
    using assms(1) by (simp add: pos_less_divide_eq)
  then show "100 < sr_PeakPercent r \<longleftrightarrow> (\<exists>s \<in> set ss. capacity < weight_sum s)"
    by (simp add: assms(3) replay_of_def fold_max_less)
  have b: "0 \<le> blocked capacity 0 s" "blocked capacity 0 s \<le> weight_sum s" "weight_sum s \<le> capacity \<Longrightarrow> blocked capacity 0 s = 0"
    if "s \<in> set ss" for s
    using blocked_bounds[of s capacity 0] assms(2) that by auto
  show "0 \<le> sr_Blocked r" unfolding assms(3) replay_of_def by (simp, rule sum_list_nonneg) (auto intro: b(1))
  show "sr_Blocked r \<le> sr_Total r" unfolding assms(3) replay_of_def by (simp, rule sum_list_mono) (auto intro: b(2))
  show "sr_Blocked r = 0" if "\<forall>s \<in> set ss. weight_sum s \<le> capacity"
    using that by (simp add: assms(3) replay_of_def b(3) cong: map_cong)
qed

text \<open>
  What a replay's figures mean: it counts a hit for exactly the sessions whose requests
  weigh more than the capacity, its peak passes 100% exactly when there is one, and the
  blocked weight is between none and all of the total, none where no session is hit; so the
  blocked share is a percentage.
\<close>

theorem ReplaySessions_figures:
  assumes "0 < capacity" "0 < window" "\<forall>d \<in> set demand. zero_time < dm_At d"
    "r = ReplaySessions demand capacity window from to" "ss = counted_sessions demand window from to"
  shows "sr_Windows r = int (length ss) \<and>
    sr_HitWindows r = int (length (filter (\<lambda>s. capacity < weight_sum s) ss)) \<and>
    (100 < sr_PeakPercent r \<longleftrightarrow> 0 < sr_HitWindows r) \<and>
    sr_Total r = sum_list (map weight_sum ss) \<and> 0 \<le> sr_Blocked r \<and> sr_Blocked r \<le> sr_Total r \<and>
    (sr_HitWindows r = 0 \<longrightarrow> sr_Blocked r = 0) \<and> 0 \<le> BlockedPercent r \<and> BlockedPercent r \<le> 100"
proof -
  have r: "r = replay_of capacity ss"
    using replay_series_eq[OF assms(1-3)] by (simp add: assms(4,5) ReplaySessions_def)
  have pos: "\<forall>s \<in> set ss. \<forall>d \<in> set s. 0 < dm_Weight d" using counted_session_mem assms(5) by blast
  note f = replay_of_figures[OF assms(1) pos r]
  have any: "0 < sr_HitWindows r \<longleftrightarrow> (\<exists>s \<in> set ss. capacity < weight_sum s)"
    unfolding f(1) by (simp add: filter_empty_conv)
  have "sr_HitWindows r = 0 \<Longrightarrow> \<forall>s \<in> set ss. weight_sum s \<le> capacity" using any by (auto simp: not_less)
  with f(5) have "sr_HitWindows r = 0 \<longrightarrow> sr_Blocked r = 0" by blast
  moreover have "BlockedPercent r \<le> 100" "0 \<le> BlockedPercent r"
    using f(3,4) by (auto simp: BlockedPercent_def pos_divide_le_eq)
  moreover have "sr_Windows r = int (length ss)" "sr_Total r = sum_list (map weight_sum ss)" by (simp_all add: r replay_of_def)
  ultimately show ?thesis using f(1-4) any by simp
qed

theorem ReplaySessions_figures_witness:
  "sr_Windows (ReplaySessions demo_stream 10 10 0 20) = 2 \<and> BlockedPercent (ReplaySessions demo_stream 10 10 0 20) \<le> 100"
proof -
  have "length (counted_sessions demo_stream 10 0 20) = 2" by code_simp
  with ReplaySessions_figures[of 10 10 demo_stream _ 0 20] demo_stream_times show ?thesis by simp
qed

definition earliest :: "time \<Rightarrow> time \<Rightarrow> time" where
  "earliest a b = (if a = zero_time \<or> (b \<noteq> zero_time \<and> b < a) then b else a)"

lemma earliest_comm: "earliest a b = earliest b a"
  and earliest_assoc: "earliest (earliest a b) c = earliest a (earliest b c)"
  and earliest_zero [simp]: "earliest zero_time a = a" "earliest a zero_time = a"
  by (auto simp: earliest_def)

lemma Merge_fields:
  "Merge r q =
     \<lparr>sr_Windows = sr_Windows r + sr_Windows q, sr_HitWindows = sr_HitWindows r + sr_HitWindows q,
      sr_FirstHit = earliest (sr_FirstHit r) (sr_FirstHit q),
      sr_PeakPercent = max (sr_PeakPercent r) (sr_PeakPercent q),
      sr_Total = sr_Total r + sr_Total q, sr_Blocked = sr_Blocked r + sr_Blocked q\<rparr>"
  by (simp add: Merge_def Let_def earliest_def)

text \<open>
  Merging replays of separate limits does not depend on their order or grouping, and an
  empty replay adds nothing.
\<close>

theorem Merge_commutative_monoid:
  assumes "0 \<le> sr_PeakPercent r"
  shows "Merge r q = Merge q r \<and> Merge (Merge r q) p = Merge r (Merge q p) \<and>
    Merge zero_replay r = r \<and> Merge r zero_replay = r"
  using assms by (simp add: Merge_fields earliest_comm[of "sr_FirstHit r"] earliest_assoc zero_replay_def ac_simps)

theorem Merge_commutative_monoid_witness:
  "Merge zero_replay (ReplaySessions demo_stream 10 10 0 20) = ReplaySessions demo_stream 10 10 0 20"
proof -
  have "0 \<le> sr_PeakPercent (ReplaySessions demo_stream 10 10 0 20)" by code_simp
  from Merge_commutative_monoid[OF this] show ?thesis by blast
qed

end
