(* ===== verification/Weekly.thy ===== *)
theory Weekly
  imports Replay
begin

text \<open>
  Weekly replays of \<open>internal/quota/capacity.go\<close>: \<open>ReplayWeeklySeries\<close>, which steps from
  reset to reset, and \<open>WorstWeekly\<close>. The specification gives every week's use as the weight of
  its requests and the hit as the first instant where the running use passes the capacity.
\<close>

section \<open>The code\<close>

record weekly_replay =
  wr_Start :: time
  wr_End :: time
  wr_PeakPercent :: f64
  wr_HitAt :: time

fun week_loop ::
  "f64 \<Rightarrow> time \<Rightarrow> demand list \<Rightarrow> f64 \<times> time \<times> series_point list \<Rightarrow> f64 \<times> time \<times> series_point list" where
  "week_loop capacity end [] st = st"
| "week_loop capacity end (d # ds) (used, hitAt, series) =
     (if dm_At d < end
      then let used = used + dm_Weight d;
               series = series @ [\<lparr>pt_At = dm_At d, pt_Percent = used / capacity * 100\<rparr>];
               hitAt = (if hitAt = zero_time \<and> used > capacity then dm_At d else hitAt)
           in week_loop capacity end ds (used, hitAt, series)
      else (used, hitAt, series))"

definition replay_week :: "demand list \<Rightarrow> f64 \<Rightarrow> time \<Rightarrow> weekly_replay \<times> series_point list" where
  "replay_week demand capacity end =
     (let start = end - WeeklySpan;
          i = sort_Search (length demand) (\<lambda>i. \<not> dm_At (demand ! i) < start);
          (used, hitAt, series) = week_loop capacity end (drop i demand) (0, zero_time, [\<lparr>pt_At = start, pt_Percent = 0\<rparr>])
      in (\<lparr>wr_Start = start, wr_End = end, wr_PeakPercent = used / capacity * 100, wr_HitAt = hitAt\<rparr>, series))"

lemma WeeklySpan_pos [simp]: "0 < WeeklySpan"
  by (simp add: WeeklySpan_def WeeklyMinutes_def)

function weeks_from ::
  "demand list \<Rightarrow> f64 \<Rightarrow> time \<Rightarrow> time \<Rightarrow> weekly_replay list \<times> series_point list \<Rightarrow> weekly_replay list \<times> series_point list" where
  "weeks_from demand capacity to end acc =
     (if end - WeeklySpan < to
      then let (w, points) = replay_week demand capacity end in
           weeks_from demand capacity to (end + WeeklySpan) (fst acc @ [w], snd acc @ points)
      else acc)"
  by pat_completeness auto
termination
  by (relation "measure (\<lambda>(d, c, to, end, acc). nat (to - (end - WeeklySpan)))") simp_all

declare weeks_from.simps [simp del]

definition first_reset :: "time \<Rightarrow> time \<Rightarrow> time" where
  "first_reset anchor from =
     (let steps = time_sub from anchor sdiv WeeklySpan;
          steps = (if time_sub from anchor smod WeeklySpan < 0 then steps - 1 else steps)
      in anchor + wrap64 ((steps + 1) * WeeklySpan))"

definition ReplayWeeklySeries ::
  "demand list \<Rightarrow> f64 \<Rightarrow> time \<Rightarrow> time \<Rightarrow> time \<Rightarrow> weekly_replay list \<times> series_point list" where
  "ReplayWeeklySeries demand capacity anchor from to =
     (if capacity \<le> 0 \<or> \<not> to > from then ([], [])
      else let (out, series) = weeks_from demand capacity to (first_reset anchor from) ([], [])
           in (out, ThinSeries (clipSeries series from to)))"

definition ReplayWeekly :: "demand list \<Rightarrow> f64 \<Rightarrow> time \<Rightarrow> time \<Rightarrow> time \<Rightarrow> weekly_replay list" where
  "ReplayWeekly demand capacity anchor from to = fst (ReplayWeeklySeries demand capacity anchor from to)"

text \<open>A nil slice is \<open>None\<close>; an index out of range panics, the outer \<open>None\<close> of the result.\<close>

definition worse_week :: "weekly_replay \<Rightarrow> weekly_replay \<Rightarrow> weekly_replay" where
  "worse_week x r =
     (let x = x\<lparr>wr_PeakPercent := max (wr_PeakPercent x) (wr_PeakPercent r)\<rparr> in
      if wr_HitAt x = zero_time \<or> (wr_HitAt r \<noteq> zero_time \<and> wr_HitAt r < wr_HitAt x)
      then x\<lparr>wr_HitAt := wr_HitAt r\<rparr> else x)"

fun worse_weeks :: "weekly_replay list \<Rightarrow> weekly_replay list \<Rightarrow> weekly_replay list option" where
  "worse_weeks [] rs = Some []"
| "worse_weeks (x # xs) [] = None"
| "worse_weeks (x # xs) (r # rs) = map_option ((#) (worse_week x r)) (worse_weeks xs rs)"

fun worst_loop ::
  "weekly_replay list option \<Rightarrow> weekly_replay list option list \<Rightarrow> weekly_replay list option option" where
  "worst_loop out [] = Some out"
| "worst_loop None (r # rs) = worst_loop r rs"
| "worst_loop (Some out) (r # rs) =
     (case worse_weeks out (case r of None \<Rightarrow> [] | Some weeks \<Rightarrow> weeks) of
        None \<Rightarrow> None
      | Some out \<Rightarrow> worst_loop (Some out) rs)"

definition WorstWeekly :: "weekly_replay list option list \<Rightarrow> weekly_replay list option option" where
  "WorstWeekly replays = worst_loop None replays"

section \<open>One week\<close>

lemma week_loop_eq:
  "week_loop capacity end ds (used, hitAt, series) =
     (used + weight_sum (takeWhile (\<lambda>d. dm_At d < end) ds),
      (if hitAt = zero_time then first_of (hits capacity used (takeWhile (\<lambda>d. dm_At d < end) ds)) else hitAt),
      series @ uses capacity used (takeWhile (\<lambda>d. dm_At d < end) ds))"
  if "\<forall>d \<in> set ds. zero_time < dm_At d \<and> 0 \<le> dm_Weight d" "hitAt = zero_time \<longrightarrow> used \<le> capacity"
  using that
proof (induction ds arbitrary: used hitAt series)
  case (Cons d ds)
  show ?case
  proof (cases "dm_At d < end")
    case True
    define hit' where "hit' = (if hitAt = zero_time \<and> capacity < used + dm_Weight d then dm_At d else hitAt)"
    have "hit' = zero_time \<longrightarrow> used + dm_Weight d \<le> capacity"
      using Cons.prems by (auto simp: hit'_def)
    from Cons.IH[OF _ this] Cons.prems True show ?thesis
      by (auto simp: hit'_def[symmetric] Let_def add.assoc first_of_append) (auto simp: hit'_def first_of_def)
  qed (simp add: first_of_def)
qed (simp add: first_of_def)

text \<open>The requests of a week.\<close>

definition week_demand :: "demand list \<Rightarrow> time \<Rightarrow> demand list" where
  "week_demand demand end = filter (\<lambda>d. end - WeeklySpan \<le> dm_At d \<and> dm_At d < end) demand"

lemma takeWhile_eq_filter_sorted_less:
  assumes "sorted_wrt (\<lambda>a b. f a \<le> (f b :: 'b::linorder)) xs"
  shows "takeWhile (\<lambda>x. f x < t) xs = filter (\<lambda>x. f x < t) xs"
  using assms
proof (induction xs)
  case (Cons x xs)
  then have "\<not> f x < t \<Longrightarrow> filter (\<lambda>x. f x < t) xs = []" by (force simp: filter_empty_conv)
  with Cons show ?case by auto
qed simp

lemma replay_week_eq:
  assumes "chronological demand" "\<forall>d \<in> set demand. zero_time < dm_At d \<and> 0 \<le> dm_Weight d" "0 < capacity"
  shows "replay_week demand capacity end =
    (\<lparr>wr_Start = end - WeeklySpan, wr_End = end,
       wr_PeakPercent = weight_sum (week_demand demand end) / capacity * 100,
       wr_HitAt = first_of (hits capacity 0 (week_demand demand end))\<rparr>,
     \<lparr>pt_At = end - WeeklySpan, pt_Percent = 0\<rparr> # uses capacity 0 (week_demand demand end))"
proof -
  have sorted: "sorted_wrt (\<lambda>a b. dm_At a \<le> dm_At b) demand" using assms(1) by (simp add: chronological_def)
  let ?ds = "filter (\<lambda>d. \<not> dm_At d < end - WeeklySpan) demand"
  have "sorted_wrt (\<lambda>a b. dm_At a \<le> dm_At b) ?ds" using sorted by (rule sorted_wrt_filter)
  from takeWhile_eq_filter_sorted_less[OF this, of "end"]
  have take: "takeWhile (\<lambda>d. dm_At d < end) ?ds = week_demand demand end"
    by (simp add: week_demand_def conj_commute not_less)
  have "\<forall>d \<in> set ?ds. zero_time < dm_At d \<and> 0 \<le> dm_Weight d" using assms(2) by simp
  from week_loop_eq[OF this, of zero_time 0 capacity "end"] assms(3) show ?thesis
    by (simp only: replay_week_def Let_def drop_sort_Search[OF sorted] take) (simp add: take)
qed

section \<open>The weeks of a period\<close>

lemma floor_steps:
  assumes "0 < (w::int)"
  shows "(if a smod w < 0 then a sdiv w - 1 else a sdiv w) = a div w"
proof (cases "0 \<le> a")
  case True
  then have "a smod w = a mod w" using assms by (simp add: signed_modulo_int_def sgn_if)
  moreover have "\<not> a mod w < 0" using assms by (simp add: not_less)
  ultimately show ?thesis using True assms by (simp add: sdiv_pos)
next
  case False
  have smod: "a smod w = - ((- a) mod w)" using False assms by (simp add: signed_modulo_int_def sgn_if)
  show ?thesis
    using False assms pos_mod_bound[OF assms, of a] pos_mod_sign[OF assms, of a]
    by (auto simp: smod sdiv_pos zdiv_zminus1_eq_if zmod_zminus1_eq_if)
qed

lemma first_reset_eq:
  assumes "\<bar>from - anchor\<bar> < 2 ^ 62"
  shows "first_reset anchor from = anchor + ((from - anchor) div WeeklySpan + 1) * WeeklySpan"
    "first_reset anchor from - WeeklySpan \<le> from" "from < first_reset anchor from"
proof -
  define a q where "a = from - anchor" and "q = (from - anchor) div WeeklySpan"
  have w: "WeeklySpan = 604800000000000" by (simp add: WeeklySpan_def WeeklyMinutes_def time_units)
  have a: "a = q * WeeklySpan + a mod WeeklySpan" "0 \<le> a mod WeeklySpan" "a mod WeeklySpan < WeeklySpan"
    by (simp_all add: a_def q_def)
  have "in_range from anchor"
    using assms by (auto simp: in_range_def min_duration_def max_duration_def abs_less_iff)
  then have sub: "time_sub from anchor = a" by (simp add: a_def)
  have "\<bar>(q + 1) * WeeklySpan\<bar> < 2 ^ 63"
    using assms a unfolding a_def[symmetric] w by (simp add: distrib_right)
  then have "wrap64 ((q + 1) * WeeklySpan) = (q + 1) * WeeklySpan" by (intro wrap64_id) auto
  then show eq: "first_reset anchor from = anchor + ((from - anchor) div WeeklySpan + 1) * WeeklySpan"
    using floor_steps[OF WeeklySpan_pos, of a] by (simp add: first_reset_def Let_def sub) (simp add: a_def q_def)
  show "first_reset anchor from - WeeklySpan \<le> from" "from < first_reset anchor from"
    using a unfolding eq q_def[symmetric] a_def distrib_right mult_1 by linarith+
qed

lemma weeks_from_eq:
  "\<exists>n. weeks_from demand capacity to end acc =
      (fst acc @ map (\<lambda>k. fst (replay_week demand capacity (end + int k * WeeklySpan))) [0..<n],
       snd acc @ concat (map (\<lambda>k. snd (replay_week demand capacity (end + int k * WeeklySpan))) [0..<n])) \<and>
    to \<le> end + int n * WeeklySpan - WeeklySpan \<and>
    (\<forall>k < n. end + int k * WeeklySpan - WeeklySpan < to)"
proof (induction demand capacity to "end" acc rule: weeks_from.induct)
  case (1 demand capacity to "end" acc)
  show ?case
  proof (cases "end - WeeklySpan < to")
    case False
    then have "weeks_from demand capacity to end acc = acc" by (subst weeks_from.simps) simp
    with False show ?thesis by (intro exI[of _ 0]) simp
  next
    case True
    obtain w points where wp: "replay_week demand capacity end = (w, points)" by fastforce
    have step: "weeks_from demand capacity to end acc =
        weeks_from demand capacity to (end + WeeklySpan) (fst acc @ [w], snd acc @ points)"
      using True by (subst weeks_from.simps) (simp add: wp)
    from "1.IH"[OF True wp[symmetric] refl] obtain n where
      n: "weeks_from demand capacity to (end + WeeklySpan) (fst acc @ [w], snd acc @ points) =
        (fst acc @ w # map (\<lambda>k. fst (replay_week demand capacity (end + WeeklySpan + int k * WeeklySpan))) [0..<n],
         snd acc @ points @ concat (map (\<lambda>k. snd (replay_week demand capacity (end + WeeklySpan + int k * WeeklySpan))) [0..<n]))"
      "to \<le> end + WeeklySpan + int n * WeeklySpan - WeeklySpan"
      "\<forall>k < n. end + WeeklySpan + int k * WeeklySpan - WeeklySpan < to"
      by auto
    have shift: "map f [0..<Suc n] = f 0 # map (\<lambda>k. f (Suc k)) [0..<n]" for f :: "nat \<Rightarrow> 'z"
      by (simp add: upt_conv_Cons map_Suc_upt[symmetric] comp_def del: upt_Suc)
    have suc: "end + int (Suc k) * WeeklySpan = end + WeeklySpan + int k * WeeklySpan" for k
      by (simp add: distrib_right)
    show ?thesis
    proof (intro exI[of _ "Suc n"] conjI)
      show "weeks_from demand capacity to end acc =
        (fst acc @ map (\<lambda>k. fst (replay_week demand capacity (end + int k * WeeklySpan))) [0..<Suc n],
         snd acc @ concat (map (\<lambda>k. snd (replay_week demand capacity (end + int k * WeeklySpan))) [0..<Suc n]))"
        unfolding step n(1) shift suc by (simp add: wp)
      show "to \<le> end + int (Suc n) * WeeklySpan - WeeklySpan" using n(2) by (simp add: distrib_right)
      show "\<forall>k < Suc n. end + int k * WeeklySpan - WeeklySpan < to"
        using n(3) True by (auto simp: less_Suc_eq_0_disj suc simp del: of_nat_Suc)
    qed
  qed
qed

lemma hits_empty_iff:
  assumes "\<forall>d \<in> set ds. 0 \<le> dm_Weight d" "u \<le> capacity"
  shows "hits capacity u ds = [] \<longleftrightarrow> u + weight_sum ds \<le> capacity"
  using assms
proof (induction ds arbitrary: u)
  case (Cons d ds)
  have "0 \<le> weight_sum ds" by (rule sum_list_nonneg) (use Cons.prems in auto)
  with Cons show ?case by (cases "u + dm_Weight d \<le> capacity") (auto simp: add.assoc)
qed simp

text \<open>
  The weeks of a weekly replay follow one another from reset to reset, whole weeks from
  the anchor, the first one containing the start of the period and the last one reaching its
  end; a week's peak is the weight of its requests in percent of the capacity, and it has a
  hit, the request that passes the capacity, exactly when the peak is above 100%.
\<close>

theorem ReplayWeekly_weeks:
  assumes "chronological demand" "\<forall>d \<in> set demand. zero_time < dm_At d \<and> 0 \<le> dm_Weight d" "0 < capacity"
    "from < to" "\<bar>from - anchor\<bar> < 2 ^ 62" "ws = ReplayWeekly demand capacity anchor from to"
  shows "ws \<noteq> [] \<and> (\<exists>k. wr_Start (hd ws) = anchor + k * WeeklySpan) \<and>
    wr_Start (hd ws) \<le> from \<and> from < wr_End (hd ws) \<and> wr_Start (last ws) < to \<and> to \<le> wr_End (last ws) \<and>
    (\<forall>i. Suc i < length ws \<longrightarrow> wr_Start (ws ! Suc i) = wr_End (ws ! i)) \<and>
    (\<forall>w \<in> set ws. wr_End w = wr_Start w + WeeklySpan \<and>
      wr_PeakPercent w = weight_sum (week_demand demand (wr_End w)) / capacity * 100 \<and>
      wr_HitAt w = first_of (hits capacity 0 (week_demand demand (wr_End w))) \<and>
      (wr_HitAt w = zero_time \<longleftrightarrow> wr_PeakPercent w \<le> 100))"
proof -
  define e where "e = first_reset anchor from"
  note e = first_reset_eq[OF assms(5), folded e_def]
  define week where "week = (\<lambda>k. fst (replay_week demand capacity (e + int k * WeeklySpan)))"
  obtain n where n: "fst (weeks_from demand capacity to e ([], [])) = map week [0..<n]"
    "to \<le> e + int n * WeeklySpan - WeeklySpan" "\<forall>k < n. e + int k * WeeklySpan - WeeklySpan < to"
    using weeks_from_eq[of demand capacity to e "([], [])"] unfolding week_def by auto
  have ws: "ws = map week [0..<n]"
    using assms(3,4) n(1) by (simp add: assms(6) ReplayWeekly_def ReplayWeeklySeries_def Let_def case_prod_beta' e_def)
  have week: "week k = \<lparr>wr_Start = e + int k * WeeklySpan - WeeklySpan, wr_End = e + int k * WeeklySpan,
       wr_PeakPercent = weight_sum (week_demand demand (e + int k * WeeklySpan)) / capacity * 100,
       wr_HitAt = first_of (hits capacity 0 (week_demand demand (e + int k * WeeklySpan)))\<rparr>" for k
    by (simp add: week_def replay_week_eq[OF assms(1-3)])
  have "0 < n"
    by (rule ccontr) (use n(2) e(2) assms(4) in simp)
  then have ends: "ws \<noteq> []" "hd ws = week 0" "last ws = week (n - 1)" and len: "length ws = n"
    by (simp_all add: ws hd_conv_nth last_conv_nth)
  have "\<exists>k. wr_Start (hd ws) = anchor + k * WeeklySpan"
    by (rule exI[of _ "(from - anchor) div WeeklySpan"]) (simp add: ends(2) week e(1) distrib_right)
  moreover have "wr_Start (hd ws) \<le> from" "from < wr_End (hd ws)" using e(2,3) by (simp_all add: ends(2) week)
  moreover have "wr_Start (last ws) < to" using n(3)[rule_format, of "n - 1"] \<open>0 < n\<close> by (simp add: ends(3) week)
  moreover have "to \<le> wr_End (last ws)"
    using n(2) \<open>0 < n\<close> by (simp add: ends(3) week of_nat_diff algebra_simps)
  moreover have "\<forall>i. Suc i < length ws \<longrightarrow> wr_Start (ws ! Suc i) = wr_End (ws ! i)"
    by (simp add: ws week distrib_right)
  moreover have "wr_HitAt w = zero_time \<longleftrightarrow> wr_PeakPercent w \<le> 100" if "w \<in> set ws" for w
  proof -
    from that obtain k where w: "w = week k" by (auto simp: ws)
    let ?ds = "week_demand demand (e + int k * WeeklySpan)"
    have "\<forall>d \<in> set ?ds. zero_time < dm_At d \<and> 0 \<le> dm_Weight d" using assms(2) by (simp add: week_demand_def)
    then have "first_of (hits capacity 0 ?ds) = zero_time \<longleftrightarrow> weight_sum ?ds \<le> capacity"
      using first_of_zero[of "hits capacity 0 ?ds"] hits_mem[of capacity 0 ?ds] hits_empty_iff[of ?ds 0 capacity] assms(3)
      by fastforce
    then show ?thesis using assms(3) by (simp add: w week pos_divide_le_eq)
  qed
  moreover have "wr_End w = wr_Start w + WeeklySpan \<and>
      wr_PeakPercent w = weight_sum (week_demand demand (wr_End w)) / capacity * 100 \<and>
      wr_HitAt w = first_of (hits capacity 0 (week_demand demand (wr_End w)))" if "w \<in> set ws" for w
    using that by (auto simp: ws week)
  ultimately show ?thesis using ends(1) by blast
qed

definition demo_weeks :: "weekly_replay list" where
  "demo_weeks = ReplayWeekly demo_stream 10 0 (- 1) 5"

theorem ReplayWeekly_weeks_witness:
  "map wr_PeakPercent demo_weeks = [0, 180] \<and> 5 \<le> wr_End (last demo_weeks)"
proof -
  have "map wr_PeakPercent demo_weeks = [0, 180]" by code_simp
  moreover have "chronological demo_stream" "\<forall>d \<in> set demo_stream. zero_time < dm_At d \<and> 0 \<le> dm_Weight d"
    by (simp_all add: chronological_def demo_stream_def zero_time_def second_def)
  ultimately show ?thesis using ReplayWeekly_weeks[of demo_stream 10 "- 1" 5 0 demo_weeks] by (auto simp: demo_weeks_def)
qed

section \<open>The worst of several limits\<close>

lemma worse_weeks_eq:
  "worse_weeks xs rs = (if length xs \<le> length rs then Some (map2 worse_week xs rs) else None)"
  by (induction xs rs rule: worse_weeks.induct) auto

lemma worst_loop_eq:
  "worst_loop (Some out) (map Some rs) =
     (if \<forall>r \<in> set rs. length out \<le> length r then Some (Some (fold (\<lambda>r o'. map2 worse_week o' r) rs out)) else None)"
  by (induction rs arbitrary: out) (auto simp: worse_weeks_eq)

lemma worst_fold_nth:
  assumes "\<forall>r \<in> set rs. length out \<le> length r"
  shows "length (fold (\<lambda>r o'. map2 worse_week o' r) rs out) = length out \<and>
    (\<forall>i < length out. fold (\<lambda>r o'. map2 worse_week o' r) rs out ! i = fold (\<lambda>r w. worse_week w (r ! i)) rs (out ! i))"
  using assms
proof (induction rs arbitrary: out)
  case (Cons r rs)
  then have "length (map2 worse_week out r) = length out" by simp
  with Cons.IH[of "map2 worse_week out r"] Cons.prems show ?case by auto
qed simp

lemma worse_week_fields:
  "wr_Start (worse_week x r) = wr_Start x" "wr_End (worse_week x r) = wr_End x"
  "wr_PeakPercent (worse_week x r) = max (wr_PeakPercent x) (wr_PeakPercent r)"
  "wr_HitAt (worse_week x r) = earliest (wr_HitAt x) (wr_HitAt r)"
  by (simp_all add: worse_week_def Let_def earliest_def)

lemma worst_week_fields:
  "wr_Start (fold (\<lambda>r w. worse_week w (r ! i)) rs w) = wr_Start w"
  "wr_End (fold (\<lambda>r w. worse_week w (r ! i)) rs w) = wr_End w"
  "wr_PeakPercent (fold (\<lambda>r w. worse_week w (r ! i)) rs w) = fold max (map (\<lambda>r. wr_PeakPercent (r ! i)) rs) (wr_PeakPercent w)"
  "wr_HitAt (fold (\<lambda>r w. worse_week w (r ! i)) rs w) = fold earliest (map (\<lambda>r. wr_HitAt (r ! i)) rs) (wr_HitAt w)"
  by (induction rs arbitrary: w) (simp_all add: worse_week_fields max.commute earliest_comm)

text \<open>
  Combining the replays of separate limits takes, week by week, the highest use and the
  earliest hit; it panics exactly when a later replay has fewer weeks than the first, which
  replays over the same period do not.
\<close>

theorem WorstWeekly_worst:
  "if \<exists>q \<in> set rs. length q < length r then WorstWeekly (Some r # map Some rs) = None
   else case WorstWeekly (Some r # map Some rs) of
     Some (Some out) \<Rightarrow> length out = length r \<and>
       (\<forall>i < length r. wr_Start (out ! i) = wr_Start (r ! i) \<and> wr_End (out ! i) = wr_End (r ! i) \<and>
          wr_PeakPercent (out ! i) = fold max (map (\<lambda>q. wr_PeakPercent (q ! i)) rs) (wr_PeakPercent (r ! i)) \<and>
          wr_HitAt (out ! i) = fold earliest (map (\<lambda>q. wr_HitAt (q ! i)) rs) (wr_HitAt (r ! i)))
   | _ \<Rightarrow> False"
proof (cases "\<exists>q \<in> set rs. length q < length r")
  case True
  then show ?thesis by (auto simp: WorstWeekly_def worst_loop_eq not_le)
next
  case False
  then have le: "\<forall>q \<in> set rs. length r \<le> length q" by (simp add: not_less)
  with worst_fold_nth[OF le] show ?thesis by (simp add: WorstWeekly_def worst_loop_eq worst_week_fields not_less)
qed

theorem WorstWeekly_worst_witness:
  "case WorstWeekly [Some demo_weeks, Some (map (\<lambda>w. w\<lparr>wr_PeakPercent := 90\<rparr>) demo_weeks)] of
     Some (Some out) \<Rightarrow> map wr_PeakPercent out = [90, 180] | _ \<Rightarrow> False"
proof -
  define qs where "qs = map (\<lambda>w. w\<lparr>wr_PeakPercent := 90\<rparr>) demo_weeks"
  have "map wr_PeakPercent demo_weeks = [0, 180]" by code_simp
  then obtain v w where d: "demo_weeks = [v, w]" "wr_PeakPercent v = 0" "wr_PeakPercent w = 180" by auto
  from WorstWeekly_worst[of "[qs]" demo_weeks] show ?thesis
    unfolding qs_def[symmetric]
    by (auto simp: d qs_def All_less_Suc2 less_Suc_eq split: option.splits intro!: nth_equalityI)
qed

end
