(* ===== verification/QueryCapacity.thy ===== *)
theory QueryCapacity
  imports QueryOverview ServerPeople Calibration Weekly
begin

text \<open>
  \<open>internal/server/query/capacity.go\<close>: an account's plan limits measured against its recorded
  demand, and that demand replayed under other plans. A nil slice of weeks is the empty list
  turned into \<open>None\<close> where \<open>quota.WorstWeekly\<close> tells them apart; its panic is the value \<open>None\<close>
  of the report. Reading an instant in RFC 3339 is the parameter \<open>parse\<close>.
\<close>

definition capacityLookback :: duration where "capacityLookback = 90 * 24 * hour"
definition PeriodCustom :: string where "PeriodCustom = ''custom''"

section \<open>Ranges\<close>

record span_range =
  rg_Period :: string
  rg_Start :: time
  rg_End :: time

definition PresetRange :: "period \<Rightarrow> time \<Rightarrow> span_range" where
  "PresetRange p now = \<lparr>rg_Period = pe_ID p, rg_Start = now - Span p, rg_End = now\<rparr>"

datatype range_error = ErrInvalidRange

definition RangeFromQuery ::
  "(string \<Rightarrow> time option) \<Rightarrow> (string, string) gomap \<Rightarrow> time \<Rightarrow> range_error + span_range" where
  "RangeFromQuery parse q now =
     (let rawFrom = get_or [] q ''from''; rawTo = get_or [] q ''to'' in
      if rawFrom = [] \<and> rawTo = [] then Inr (PresetRange (PeriodByID (get_or [] q ''period'')) now)
      else case (parse rawFrom, parse rawTo) of
        (Some f, Some t) \<Rightarrow>
          if \<not> f < t then Inl ErrInvalidRange
          else let t = (if t > now then now else t);
                   oldest = now - capacityLookback;
                   f = (if f < oldest then oldest else f)
               in if \<not> f < t then Inl ErrInvalidRange
                  else Inr \<lparr>rg_Period = PeriodCustom, rg_Start = f, rg_End = t\<rparr>
      | _ \<Rightarrow> Inl ErrInvalidRange)"

lemma PeriodByID_span: "0 < Span (PeriodByID i) \<and> Span (PeriodByID i) \<le> capacityLookback"
proof -
  have "PeriodByID i \<in> set Periods"
    by (auto simp: PeriodByID_def find_Some_iff Periods_def split: option.split)
  moreover have "list_all (\<lambda>p. 0 < Span p \<and> Span p \<le> capacityLookback) Periods" by code_simp
  ultimately show ?thesis by (auto simp: list_all_iff)
qed

text \<open>
  Whatever period the console asks for, the range the server computes is never empty, never
  ends in the future and never reaches further back than the ninety days the quota history keeps:
  a caller cannot make the capacity page scan the whole history.
\<close>

theorem RangeFromQuery_bounds:
  assumes "RangeFromQuery parse q now = Inr r"
  shows "rg_Start r < rg_End r \<and> rg_End r \<le> now \<and> now - capacityLookback \<le> rg_Start r"
  using assms
  using PeriodByID_span[of "get_or [] q ''period''"]
  by (auto simp: RangeFromQuery_def PresetRange_def Let_def split: if_splits option.splits)

lemma RangeFromQuery_bounds_witness:
  "\<exists>r. RangeFromQuery (\<lambda>x. Some (if x = ''then'' then 5 else 99)) [(''from'', ''then''), (''to'', ''later'')] 9 = Inr r \<and>
     rg_Start r < rg_End r \<and> rg_End r \<le> 9 \<and> 9 - capacityLookback \<le> rg_Start r"
proof -
  have "RangeFromQuery (\<lambda>x. Some (if x = ''then'' then 5 else 99)) [(''from'', ''then''), (''to'', ''later'')] 9 =
      Inr \<lparr>rg_Period = PeriodCustom, rg_Start = 5, rg_End = 9\<rparr>" by code_simp
  from RangeFromQuery_bounds[OF this] this show ?thesis by blast
qed

section \<open>Demand\<close>

record account_demand =
  da_all :: "demand list"
  da_byPerson :: "(string, demand list) gomap"
  da_tokens :: int
  da_cost :: f64
  da_requests :: int
  da_personTokens :: "(string, int) gomap"
  da_personCost :: "(string, f64) gomap"
  da_personRequests :: "(string, int) gomap"

definition no_demand :: account_demand where
  "no_demand = \<lparr>da_all = [], da_byPerson = [], da_tokens = 0, da_cost = 0, da_requests = 0,
     da_personTokens = [], da_personCost = [], da_personRequests = []\<rparr>"

definition count_event :: "time \<Rightarrow> time \<Rightarrow> demand_event \<Rightarrow> account_demand \<Rightarrow> account_demand" where
  "count_event start end e d =
     (if de_ThirdParty e then d
      else let cost = Cost (de_Model e) (de_Tokens e); p = de_PersonID e; t = de_Tokens e;
               tokens = wrap64 (tk_Input t + tk_CachedInput t + tk_CacheWrite t + tk_Output t);
               d = (if \<not> de_OccurredAt e < start \<and> de_OccurredAt e < end
                    then d\<lparr>da_tokens := wrap64 (da_tokens d + tokens), da_cost := da_cost d + cost,
                           da_requests := da_requests d + 1,
                           da_personTokens := put p (wrap64 (get_or 0 (da_personTokens d) p + tokens)) (da_personTokens d),
                           da_personCost := bump p cost 0 (da_personCost d),
                           da_personRequests := bump p 1 0 (da_personRequests d)\<rparr>
                    else d)
           in if cost > 0
              then let w = \<lparr>dm_At = de_OccurredAt e, dm_Weight = cost\<rparr>
                   in d\<lparr>da_all := da_all d @ [w], da_byPerson := put p (get_or [] (da_byPerson d) p @ [w]) (da_byPerson d)\<rparr>
              else d)"

definition newDemand :: "demand_event list \<Rightarrow> time \<Rightarrow> time \<Rightarrow> account_demand" where
  "newDemand events start end = fold (count_event start end) events no_demand"

section \<open>Readings\<close>

definition readings :: "snapshot list \<Rightarrow> bucket_key \<Rightarrow> duration \<Rightarrow> reading list" where
  "readings snaps key limit =
     concat (map (\<lambda>sn. if sn_Source sn = SourceClaudeStatusLine then []
       else concat (map (\<lambda>b. case (bk_UsedPercent b, bk_ResetsAt b, bk_WindowMinutes b) of
           (Some u, Some r, Some m) \<Rightarrow>
             if bk_Key b \<noteq> key \<or> time_sub r (sn_ObservedAt sn) > limit - resetStarted then []
             else [\<lparr>rd_ObservedAt = sn_ObservedAt sn, rd_ResetsAt = r, rd_UsedPercent = u, rd_SnapshotPlan = sn_PlanType sn\<rparr>]
         | _ \<Rightarrow> []) (sn_Buckets sn))) snaps)"

text \<open>\<open>math.Round\<close> takes a half away from zero.\<close>

definition math_round :: "f64 \<Rightarrow> f64" where
  "math_round x = (if x < 0 then - of_int \<lfloor>1/2 - x\<rfloor> else of_int \<lfloor>x + 1/2\<rfloor>)"

definition seriesDTO :: "series_point list \<Rightarrow> series_pairs" where
  "seriesDTO points = map (\<lambda>p. (of_int (unix_seconds (pt_At p)), math_round (pt_Percent p * 10) / 10)) points"

definition readingSeries :: "reading list \<Rightarrow> time \<Rightarrow> time \<Rightarrow> series_pairs" where
  "readingSeries rs start end =
     (let points = map (\<lambda>r. \<lparr>pt_At = rd_ObservedAt r, pt_Percent = rd_UsedPercent r\<rparr>)
            (filter (\<lambda>r. \<not> rd_ObservedAt r < start \<and> rd_ObservedAt r < end) rs)
      in seriesDTO (ThinSeries (sort_by (\<lambda>a b. pt_At a < pt_At b) points)))"

section \<open>What was measured\<close>

definition calibrationRows :: "bucket_key \<Rightarrow> (string, calibration) gomap \<Rightarrow> calibration_row list" where
  "calibrationRows key cal =
     sort_by (\<lambda>a b. cr_Plan a < cr_Plan b)
       (map (\<lambda>(plan, c). \<lparr>cr_Bucket = key, cr_Plan = plan, cr_Samples = cb_Samples c, cr_Rate = cb_Median c,
          cr_RateMin = cb_Min c, cr_RateMax = cb_Max c, cr_CapacityUSD = 100 / cb_Median c\<rparr>) cal)"

definition multiples :: "(string, calibration) gomap \<Rightarrow> (string, calibration) gomap \<Rightarrow> capacity_multiple list" where
  "multiples fiveHour weekly =
     (let (k5, b5) = FiveHourRate ''max 5x'' fiveHour;
          (k20, b20) = FiveHourRate ''max 20x'' fiveHour;
          (w5, c5) = WeeklyRate ''max 5x'' weekly;
          (w20, c20) = WeeklyRate ''max 20x'' weekly
      in (if b5 = BasisMeasured \<and> b20 = BasisMeasured
          then [\<lparr>mp_Bucket = BucketFiveHour, mp_Observed = k5 / k20,
                 mp_Official = fst (PlanMultiple ''max 20x'') / fst (PlanMultiple ''max 5x'')\<rparr>] else []) @
         (if c5 = BasisMeasured \<and> c20 = BasisMeasured
          then [\<lparr>mp_Bucket = BucketWeekly, mp_Observed = w5 / w20, mp_Official = 0\<rparr>] else []))"

definition inPeriod :: "window \<Rightarrow> time \<Rightarrow> time \<Rightarrow> bool" where
  "inPeriod w start end \<longleftrightarrow> wd_ResetsAt w > start \<and> wd_Start w < end"

definition observed_window_of :: "(string, calibration) gomap \<Rightarrow> limit_hit list \<Rightarrow> window \<Rightarrow> observed_window" where
  "observed_window_of cal limitHits w =
     \<lparr>ow_Start = wd_Start w, ow_ResetsAt = wd_ResetsAt w, ow_Plan = wd_Plan w, ow_MaxPercent = wd_MaxUsed w,
      ow_Saturated = wd_Saturated w,
      ow_FirstFull = (if wd_FirstFull w = zero_time then None else Some (wd_FirstFull w)),
      ow_CostUSD = wd_CostAtMax w,
      ow_PredictedPercent = (if wd_Plan w = [] then None
        else let (rate, basis) = FiveHourRate (wd_Plan w) cal
             in if basis = BasisMeasured then Some (wd_CostAtMax w * rate) else None),
      ow_Excluded = wd_Excluded w,
      ow_LimitHit = list_ex (\<lambda>h. lh_Kind h = LimitFiveHour \<and> \<not> lh_At h < wd_Start w \<and> lh_At h < wd_ResetsAt w) limitHits\<rparr>"

definition observedWindows ::
  "window list \<Rightarrow> (string, calibration) gomap \<Rightarrow> limit_hit list \<Rightarrow> time \<Rightarrow> time \<Rightarrow> observed_window list" where
  "observedWindows windows cal limitHits start end =
     rev (map (observed_window_of cal limitHits) (filter (\<lambda>w. inPeriod w start end) windows))"

definition row_of :: "bucket_key \<Rightarrow> string \<Rightarrow> (saturation_row \<Rightarrow> saturation_row) \<Rightarrow> (string, saturation_row) gomap \<Rightarrow> (string, saturation_row) gomap" where
  "row_of key plan f counts =
     put plan (f (get_or \<lparr>sat_Bucket = key, sat_Plan = plan, sat_Windows = 0, sat_Saturated = 0, sat_Hits = 0\<rparr> counts plan)) counts"

definition saturationRows ::
  "bucket_key \<Rightarrow> window list \<Rightarrow> limit_hit list \<Rightarrow> string \<Rightarrow> time \<Rightarrow> time \<Rightarrow> saturation_row list" where
  "saturationRows key windows limitHits kind start end =
     (let counts = fold (\<lambda>w. if inPeriod w start end
              then row_of key (wd_Plan w) (\<lambda>r. r\<lparr>sat_Windows := sat_Windows r + 1,
                     sat_Saturated := sat_Saturated r + (if wd_Saturated w then 1 else 0)\<rparr>) else id) windows [];
          counts = fold (\<lambda>h. if lh_Kind h = kind \<and> \<not> lh_At h < start
              then row_of key (lh_Plan h) (\<lambda>r. r\<lparr>sat_Hits := sat_Hits r + 1\<rparr>) else id) limitHits counts
      in sort_by (\<lambda>a b. sat_Plan a < sat_Plan b) (map snd counts))"

section \<open>Replays\<close>

record five_hour_part =
  fp_replay :: session_replay
  fp_series :: "series_point list"
  fp_rollingPeak :: f64
  fp_rollingP50 :: f64
  fp_rollingP95 :: f64

definition zero_part :: five_hour_part where
  "zero_part = \<lparr>fp_replay = zero_replay, fp_series = [], fp_rollingPeak = 0, fp_rollingP50 = 0, fp_rollingP95 = 0\<rparr>"

definition merge_part :: "five_hour_part \<Rightarrow> five_hour_part \<Rightarrow> five_hour_part" where
  "merge_part p q = \<lparr>fp_replay = Merge (fp_replay p) (fp_replay q), fp_series = [],
     fp_rollingPeak = max (fp_rollingPeak p) (fp_rollingPeak q), fp_rollingP50 = max (fp_rollingP50 p) (fp_rollingP50 q),
     fp_rollingP95 = max (fp_rollingP95 p) (fp_rollingP95 q)\<rparr>"

definition five_hour_result_of :: "five_hour_part \<Rightarrow> basis \<Rightarrow> f64 \<Rightarrow> five_hour_result" where
  "five_hour_result_of p basis rate =
     (if basis = BasisInsufficient
      then \<lparr>fh_Basis = basis, fh_CapacityUSD = 0, fh_Fit = [], fh_Windows = 0, fh_HitWindows = 0, fh_FirstHit = None,
            fh_PeakPercent = 0, fh_BlockedPercent = 0, fh_RollingPeakPercent = 0, fh_RollingP50Percent = 0,
            fh_RollingP95Percent = 0, fh_Series = []\<rparr>
      else let r = fp_replay p in
           \<lparr>fh_Basis = basis, fh_CapacityUSD = 100 / rate, fh_Fit = Fit (sr_PeakPercent r), fh_Windows = sr_Windows r,
            fh_HitWindows = sr_HitWindows r,
            fh_FirstHit = (if sr_FirstHit r = zero_time then None else Some (sr_FirstHit r)),
            fh_PeakPercent = sr_PeakPercent r, fh_BlockedPercent = BlockedPercent r,
            fh_RollingPeakPercent = fp_rollingPeak p, fh_RollingP50Percent = fp_rollingP50 p,
            fh_RollingP95Percent = fp_rollingP95 p, fh_Series = seriesDTO (fp_series p)\<rparr>)"

definition add_week :: "weekly_replay \<Rightarrow> weekly_result \<Rightarrow> weekly_result" where
  "add_week w res =
     res\<lparr>wk_HitWindows := wk_HitWindows res + (if wr_HitAt w = zero_time then 0 else 1),
         wk_PeakPercent := max (wk_PeakPercent res) (wr_PeakPercent w),
         wk_Windows := wk_Windows res @ [\<lparr>ww_Start = wr_Start w, ww_End = wr_End w, ww_PeakPercent = wr_PeakPercent w,
           ww_HitAt = (if wr_HitAt w = zero_time then None else Some (wr_HitAt w))\<rparr>]\<rparr>"

definition weeklyResult :: "basis \<Rightarrow> f64 \<Rightarrow> weekly_replay list \<Rightarrow> series_point list \<Rightarrow> weekly_result" where
  "weeklyResult basis rate weeks series =
     (let res = \<lparr>wk_Basis = basis, wk_CapacityUSD = 0, wk_Fit = [], wk_PeakPercent = 0, wk_HitWindows = 0,
            wk_Windows = [], wk_Series = seriesDTO series\<rparr> in
      if basis = BasisInsufficient then res
      else let res = fold add_week weeks (res\<lparr>wk_CapacityUSD := 100 / rate\<rparr>)
           in res\<lparr>wk_Fit := Fit (wk_PeakPercent res)\<rparr>)"

section \<open>The report\<close>

definition capacityScenarios :: "(string \<times> string \<times> bool) list" where
  "capacityScenarios = [(''shared_max5'', ''max 5x'', True), (''separate_max5'', ''max 5x'', False),
     (''shared_max20'', ''max 20x'', True)]"

definition planAt :: "plan_interval list \<Rightarrow> time \<Rightarrow> string \<Rightarrow> string" where
  "planAt plans t snapshotPlan =
     (let p = ResolvePlanAt plans t in if p \<noteq> [] then NormalizePlan p else NormalizePlan snapshotPlan)"

definition limit_hit_of :: "plan_interval list \<Rightarrow> stored_limit \<Rightarrow> limit_hit" where
  "limit_hit_of plans l =
     (let e = st_LimitEvent l in
      \<lparr>lh_At = le_OccurredAt e, lh_Kind = le_Kind e, lh_Evidence = le_Evidence e,
       lh_Plan = planAt plans (le_OccurredAt e) [], lh_Member = st_PersonName l\<rparr>)"

text \<open>The window's end that the latest weekly reading reports.\<close>

definition anchor_of :: "reading list \<Rightarrow> time" where
  "anchor_of rs =
     (case rs of [] \<Rightarrow> zero_time
      | r # rs \<Rightarrow> rd_ResetsAt (fold (\<lambda>x m. if rd_ObservedAt x > rd_ObservedAt m then x else m) rs r))"

record weekly_part =
  wp_replays :: "weekly_replay list"
  wp_series :: "series_point list"

definition replay_under ::
  "f64 \<times> basis \<Rightarrow> f64 \<times> basis \<Rightarrow> time \<Rightarrow> time \<Rightarrow> time \<Rightarrow> demand list \<Rightarrow> rolling_usage \<Rightarrow> five_hour_part \<times> weekly_part" where
  "replay_under five week anchor start end ds rolling =
     ((if snd five = BasisInsufficient then zero_part
       else let (sessions', series) = ReplaySessionsSeries ds (100 / fst five) FiveHourSpan start end
            in \<lparr>fp_replay = sessions', fp_series = series, fp_rollingPeak = ru_Peak rolling * fst five,
                fp_rollingP50 = ru_P50 rolling * fst five, fp_rollingP95 = ru_P95 rolling * fst five\<rparr>),
      (if snd week = BasisInsufficient then \<lparr>wp_replays = [], wp_series = []\<rparr>
       else let (weeks, series) = ReplayWeeklySeries ds (100 / fst week) anchor start end
            in \<lparr>wp_replays = weeks, wp_series = series\<rparr>))"

definition shared_scenario ::
  "f64 \<times> basis \<Rightarrow> f64 \<times> basis \<Rightarrow> (demand list \<Rightarrow> rolling_usage \<Rightarrow> five_hour_part \<times> weekly_part) \<Rightarrow>
   account_demand \<Rightarrow> rolling_usage \<Rightarrow> string \<Rightarrow> string \<Rightarrow> capacity_scenario" where
  "shared_scenario five week replay d rolling i plan =
     (let (part, weeks) = replay (da_all d) rolling in
      \<lparr>sc_ID = i, sc_Plan = plan, sc_Shared = True, sc_FiveHour = five_hour_result_of part (snd five) (fst five),
       sc_Weekly = weeklyResult (snd week) (fst week) (wp_replays weeks) (wp_series weeks), sc_Members = []\<rparr>)"

definition nil_slice :: "'a list \<Rightarrow> 'a list option" where
  "nil_slice xs = (if xs = [] then None else Some xs)"

definition separate_scenario ::
  "f64 \<times> basis \<Rightarrow> f64 \<times> basis \<Rightarrow> (demand list \<Rightarrow> rolling_usage \<Rightarrow> five_hour_part \<times> weekly_part) \<Rightarrow>
   account_demand \<Rightarrow> (string, rolling_usage) gomap \<Rightarrow> (string, string) gomap \<Rightarrow> string list \<Rightarrow> string \<Rightarrow> string \<Rightarrow>
   capacity_scenario option" where
  "separate_scenario five week replay d memberRolling names personIDs i plan =
     (let parts = map (\<lambda>p. (p, replay (get_or [] (da_byPerson d) p) (get_or zero_rolling memberRolling p))) personIDs;
          joint = fold (\<lambda>(p, part, weeks) t. merge_part t part) parts zero_part
      in case WorstWeekly (map (\<lambda>(p, part, weeks). nil_slice (wp_replays weeks)) parts) of
           None \<Rightarrow> None
         | Some worst \<Rightarrow> Some
             \<lparr>sc_ID = i, sc_Plan = plan, sc_Shared = False, sc_FiveHour = five_hour_result_of joint (snd five) (fst five),
              sc_Weekly = weeklyResult (snd week) (fst week) (case worst of None \<Rightarrow> [] | Some ws \<Rightarrow> ws) [],
              sc_Members = map (\<lambda>(p, part, weeks). \<lparr>sm_PersonID = p, sm_Name = get_or [] names p,
                sm_FiveHour = five_hour_result_of part (snd five) (fst five),
                sm_Weekly = weeklyResult (snd week) (fst week) (wp_replays weeks) (wp_series weeks)\<rparr>) parts\<rparr>)"

text \<open>A list of results that is there when every one is.\<close>

fun all_some :: "'a option list \<Rightarrow> 'a list option" where
  "all_some [] = Some []"
| "all_some (None # xs) = None"
| "all_some (Some x # xs) = map_option ((#) x) (all_some xs)"

definition person_ids :: "member list \<Rightarrow> account_demand \<Rightarrow> (string, string) gomap \<Rightarrow> string list" where
  "person_ids members d names =
     (let ids = map mem_PersonID members;
          ids = fold (\<lambda>i ids. if i \<in> set ids then ids else ids @ [i]) (map fst (da_personRequests d)) ids
      in sort_by (\<lambda>a b. get_or [] names a < get_or [] names b) ids)"

definition base_report ::
  "account \<Rightarrow> span_range \<Rightarrow> plan_interval list \<Rightarrow> account_demand \<Rightarrow> rolling_usage \<Rightarrow>
   (string, rolling_usage) gomap \<Rightarrow> (string, string) gomap \<Rightarrow> string list \<Rightarrow> capacity_report" where
  "base_report acc rg plans d rolling memberRolling names personIDs =
     \<lparr>rt_AccountID = acc_ID acc, rt_AccountLabel = acc_Label acc, rt_Provider = acc_Provider acc,
      rt_CurrentPlan = acc_PlanType acc, rt_Period = rg_Period rg, rt_Start = rg_Start rg, rt_End = rg_End rg, rt_Reason = [],
      rt_Demand = \<lparr>cd_Tokens = da_tokens d, cd_Requests = da_requests d, cd_CostUSD = da_cost d,
        cd_RollingPeak = ru_Peak rolling, cd_RollingPeakAt = ru_PeakAt rolling\<rparr>,
      rt_Members = sort_by (\<lambda>a b. cm_CostUSD a > cm_CostUSD b)
        (map (\<lambda>i. \<lparr>cm_PersonID = i, cm_Name = get_or [] names i, cm_Tokens = get_or 0 (da_personTokens d) i,
            cm_Requests = get_or 0 (da_personRequests d) i, cm_CostUSD = get_or 0 (da_personCost d) i,
            cm_RollingPeak = ru_Peak (get_or zero_rolling memberRolling i)\<rparr>) personIDs),
      rt_Plans = map (\<lambda>p. \<lparr>pd_ID = pi_ID p, pd_PlanType = pi_PlanType p, pd_EffectiveAt = pi_EffectiveAt p,
        pd_EndedAt = pi_EndedAt p, pd_Reason = pi_Reason p, pd_Source = pi_Source p, pd_Precision = pi_Precision p\<rparr>) plans,
      rt_Calibration = [], rt_Multiples = [], rt_Windows = [], rt_Saturation = [], rt_Scenarios = [], rt_Readings = [],
      rt_BorderlinePercent = int_of BorderlinePercent, rt_LimitHits = []\<rparr>"

definition scenarios_of ::
  "(string, calibration) gomap \<Rightarrow> (string, calibration) gomap \<Rightarrow> time \<Rightarrow> time \<Rightarrow> time \<Rightarrow> account_demand \<Rightarrow> rolling_usage \<Rightarrow>
   (string, rolling_usage) gomap \<Rightarrow> (string, string) gomap \<Rightarrow> string list \<Rightarrow> capacity_scenario option list" where
  "scenarios_of fiveHourCal weeklyCal anchor start end d rolling memberRolling names personIDs =
     map (\<lambda>(i, plan, shared).
       let five = FiveHourRate plan fiveHourCal; week = WeeklyRate plan weeklyCal;
           replay = replay_under five week anchor start end
       in if shared then Some (shared_scenario five week replay d rolling i plan)
          else separate_scenario five week replay d memberRolling names personIDs i plan) capacityScenarios"

definition AccountCapacity ::
  "(string \<Rightarrow> string \<Rightarrow> bool) \<Rightarrow> string \<Rightarrow> span_range \<Rightarrow> time \<Rightarrow> db \<Rightarrow> store_error + capacity_report option" where
  "AccountCapacity tlt accountID rg now s =
     (case Account accountID s of
        Inl err \<Rightarrow> Inl err
      | Inr acc \<Rightarrow>
         (let members = Members tlt accountID s;
              plans = PlanHistory accountID s;
              history = now - capacityLookback;
              start = rg_Start rg; end = rg_End rg;
              d = newDemand (AccountDemandEvents accountID (history - WeeklySpan) now s) start end;
              rolling = Rolling (da_all d) start end FiveHourSpan;
              names = fold (\<lambda>p. put (p_ID p) (p_DisplayName p)) (Persons s) [];
              personIDs = person_ids members d names;
              memberRolling = fold (\<lambda>i. put i (Rolling (get_or [] (da_byPerson d) i) start end FiveHourSpan)) personIDs [];
              report = base_report acc rg plans d rolling memberRolling names personIDs
          in if acc_Provider acc \<noteq> ProviderAnthropic
             then Inr (Some (report\<lparr>rt_Reason := CapacityReasonUnsupportedProvider\<rparr>))
             else let snaps = HistoricalSnapshots accountID history now s;
                      limitHits = map (limit_hit_of plans) (HistoricalLimitEvents accountID (start - FiveHourSpan) end s);
                      fiveHourReadings = readings snaps BucketFiveHour FiveHourSpan;
                      weeklyReadings = readings snaps BucketWeekly WeeklySpan;
                      fiveHour = FiveHourWindows fiveHourReadings (planAt plans) (da_all d);
                      weekly = WeeklyWindows weeklyReadings plans (da_all d);
                      fiveHourCal = Calibrate fiveHour; weeklyCal = Calibrate weekly;
                      scenarios = scenarios_of fiveHourCal weeklyCal (anchor_of weeklyReadings) start end d rolling
                        memberRolling names personIDs
                  in case all_some scenarios of
                       None \<Rightarrow> Inr None
                     | Some scs \<Rightarrow> Inr (Some (report
                         \<lparr>rt_LimitHits := filter (\<lambda>h. \<not> lh_At h < start) (rev limitHits),
                          rt_Readings := readingSeries fiveHourReadings start end,
                          rt_Calibration := calibrationRows BucketFiveHour fiveHourCal @ calibrationRows BucketWeekly weeklyCal,
                          rt_Multiples := multiples fiveHourCal weeklyCal,
                          rt_Windows := observedWindows fiveHour fiveHourCal limitHits start end,
                          rt_Saturation := saturationRows BucketFiveHour fiveHour limitHits LimitFiveHour start end @
                            saturationRows BucketWeekly weekly limitHits LimitWeekly start end,
                          rt_Scenarios := scs\<rparr>))))"

section \<open>The report always comes\<close>

text \<open>The weeks of a replay are told by the reset and the period alone, not by the demand.\<close>

lemma weeks_from_length:
  "length (fst acc) = length (fst acc') \<Longrightarrow>
   length (fst (weeks_from ds c to end acc)) = length (fst (weeks_from ds' c to end acc'))"
proof (induction ds c to "end" acc arbitrary: acc' rule: weeks_from.induct)
  case (1 ds c to "end" acc)
  obtain w points where wp: "replay_week ds c end = (w, points)" by (cases "replay_week ds c end")
  obtain w' points' where wp': "replay_week ds' c end = (w', points')" by (cases "replay_week ds' c end")
  show ?case
  proof (cases "end - WeeklySpan < to")
    case True
    have "length (fst (weeks_from ds c to (end + WeeklySpan) (fst acc @ [w], snd acc @ points))) =
        length (fst (weeks_from ds' c to (end + WeeklySpan) (fst acc' @ [w'], snd acc' @ points')))"
      using "1.IH"[OF True, of "(w, points)" w points "(fst acc' @ [w'], snd acc' @ points')"] "1.prems" wp by simp
    with True wp wp' show ?thesis by (subst (1 2) weeks_from.simps) simp
  next
    case False
    with "1.prems" show ?thesis by (subst (1 2) weeks_from.simps) simp
  qed
qed

lemma weekly_part_length:
  "length (wp_replays (snd (replay_under five week anchor start end ds rolling))) =
   length (wp_replays (snd (replay_under five week anchor start end ds' rolling')))"
  using weeks_from_length[of "([], [])" "([], [])" ds "100 / fst week" "end" "first_reset anchor start" ds']
  by (simp add: replay_under_def ReplayWeeklySeries_def case_prod_beta' Let_def)

lemma worst_loop_same_length:
  assumes "\<forall>r \<in> set rs. length (case r of None \<Rightarrow> [] | Some ws \<Rightarrow> ws) = n"
    and "case out of None \<Rightarrow> True | Some ws \<Rightarrow> length ws = n"
  shows "worst_loop out rs \<noteq> None"
  using assms
proof (induction out rs rule: worst_loop.induct)
  case (1 out)
  then show ?case by simp
next
  case (2 r rs)
  then show ?case by (auto split: option.splits)
next
  case (3 out r rs)
  then show ?case by (auto simp: worse_weeks_eq split: option.splits if_splits)
qed

lemma separate_scenario_Some:
  "separate_scenario five week (replay_under five week anchor start end) d m names ids i plan \<noteq> None"
proof -
  define parts where "parts = map (\<lambda>p. (p, replay_under five week anchor start end (get_or [] (da_byPerson d) p)
    (get_or zero_rolling m p))) ids"
  define n where "n = length (wp_replays (snd (replay_under five week anchor start end [] zero_rolling)))"
  have slice: "length (case nil_slice xs of None \<Rightarrow> [] | Some ws \<Rightarrow> ws) = length xs" for xs :: "weekly_replay list"
    by (simp add: nil_slice_def)
  have "length (wp_replays (snd (replay_under five week anchor start end ds ru))) = n" for ds ru
    unfolding n_def by (rule weekly_part_length)
  then have "\<forall>r \<in> set (map (\<lambda>(p, part, weeks). nil_slice (wp_replays weeks)) parts).
      length (case r of None \<Rightarrow> [] | Some ws \<Rightarrow> ws) = n"
    by (auto simp: parts_def slice case_prod_beta')
  then have "WorstWeekly (map (\<lambda>(p, part, weeks). nil_slice (wp_replays weeks)) parts) \<noteq> None"
    unfolding WorstWeekly_def using worst_loop_same_length[where out = None] by fastforce
  then show ?thesis by (auto simp: separate_scenario_def Let_def simp flip: parts_def)
qed

lemma all_some_iff: "all_some xs \<noteq> None \<longleftrightarrow> None \<notin> set xs"
  by (induction xs rule: all_some.induct) auto

lemma scenarios_of_Some:
  "\<exists>scs. all_some (scenarios_of fiveHourCal weeklyCal anchor start end d rolling m names ids) = Some scs \<and>
     map (\<lambda>sc. (sc_ID sc, sc_Plan sc, sc_Shared sc)) scs = capacityScenarios"
proof -
  have some: "\<exists>sc. separate_scenario five week (replay_under five week anchor start end) d m names ids i plan = Some sc \<and>
      sc_ID sc = i \<and> sc_Plan sc = plan \<and> \<not> sc_Shared sc" for five week anchor start "end" d m names ids i plan
    using separate_scenario_Some[of five week anchor start "end" d m names ids i plan]
    by (auto simp: separate_scenario_def Let_def split: option.splits)
  have shared: "sc_ID (shared_scenario five week rep d rolling i plan) = i \<and> sc_Plan (shared_scenario five week rep d rolling i plan) = plan \<and>
      sc_Shared (shared_scenario five week rep d rolling i plan)" for five week rep d rolling i plan
    by (simp add: shared_scenario_def case_prod_beta' Let_def)
  show ?thesis
    using some[of "FiveHourRate ''max 5x'' fiveHourCal" "WeeklyRate ''max 5x'' weeklyCal" anchor start "end" d m names ids
        "''separate_max5''" "''max 5x''"]
    by (auto simp: scenarios_of_def capacityScenarios_def shared Let_def)
qed

text \<open>
  C38. The capacity report of an account always comes: the only failure is an account that is not
  there, and comparing the members' separate replays week by week never runs past the end of
  one, because the weeks depend on the period and the last reset alone.
\<close>

theorem AccountCapacity_answers:
  "case AccountCapacity tlt accountID rg now s of
     Inl err \<Rightarrow> err = ErrNotFound \<and> \<not> account_exists s accountID
   | Inr None \<Rightarrow> False
   | Inr (Some r) \<Rightarrow> account_exists s accountID \<and> rt_AccountID r = accountID \<and>
       map (\<lambda>sc. (sc_ID sc, sc_Plan sc, sc_Shared sc)) (rt_Scenarios r) =
         (if rt_Provider r = ProviderAnthropic then capacityScenarios else [])"
proof (cases "Account accountID s")
  case (Inl err)
  then show ?thesis by (auto simp: AccountCapacity_def Account_def find_None_iff split: option.splits)
next
  case (Inr acc)
  then have acc: "account_exists s accountID" "acc_ID acc = accountID"
    by (auto simp: Account_def account_of_row_def find_Some_iff split: option.splits)
  have base: "rt_AccountID (base_report acc rg plans d ro m names ids) = accountID \<and>
      rt_Provider (base_report acc rg plans d ro m names ids) = acc_Provider acc \<and>
      rt_Scenarios (base_report acc rg plans d ro m names ids) = []" for plans d ro m names ids
    by (simp add: base_report_def acc(2))
  have scenarios: "map (\<lambda>sc. (sc_ID sc, sc_Plan sc, sc_Shared sc)) scs = capacityScenarios"
    if "all_some (scenarios_of f w an st en d ro m names ids) = Some scs" for f w an st en d ro m names ids scs
    using scenarios_of_Some[of f w an st en d ro m names ids] that by auto
  have some: "all_some (scenarios_of f w an st en d ro m names ids) \<noteq> None" for f w an st en d ro m names ids
    using scenarios_of_Some[of f w an st en d ro m names ids] by auto
  show ?thesis
    using acc by (auto simp: AccountCapacity_def Inr Let_def base some split: option.split dest: scenarios)
qed

section \<open>The members' demand\<close>

abbreviation in_report :: "time \<Rightarrow> time \<Rightarrow> demand_event \<Rightarrow> bool" where
  "in_report start end e \<equiv> \<not> de_ThirdParty e \<and> start \<le> de_OccurredAt e \<and> de_OccurredAt e < end"

abbreviation event_cost :: "demand_event \<Rightarrow> f64" where
  "event_cost e \<equiv> Cost (de_Model e) (de_Tokens e)"

lemma count_events:
  fixes es start stop d
  defines "own \<equiv> filter (in_report start stop) es"
  shows "da_cost (fold (count_event start stop) es d) = da_cost d + sum_list (map event_cost own)"
    "da_requests (fold (count_event start stop) es d) = da_requests d + int (length own)"
    "da_personCost (fold (count_event start stop) es d) =
       fold (\<lambda>e. bump (de_PersonID e) (event_cost e) 0) own (da_personCost d)"
    "da_personRequests (fold (count_event start stop) es d) =
       fold (\<lambda>e. bump (de_PersonID e) 1 0) own (da_personRequests d)"
  unfolding own_def
  by (induction es arbitrary: d) (simp_all add: count_event_def Let_def not_less)

lemma count_demand_list:
  "da_all (fold (count_event start end) es d) = da_all d @
     map (\<lambda>e. \<lparr>dm_At = de_OccurredAt e, dm_Weight = event_cost e\<rparr>) (filter (\<lambda>e. \<not> de_ThirdParty e \<and> 0 < event_cost e) es)"
  by (induction es arbitrary: d) (simp_all add: count_event_def Let_def)

lemma person_ids_mem:
  "set (fold (\<lambda>i ids. if i \<in> set ids then ids else ids @ [i]) xs ids) = set ids \<union> set xs \<and>
   (distinct ids \<longrightarrow> distinct (fold (\<lambda>i ids. if i \<in> set ids then ids else ids @ [i]) xs ids))"
  by (induction xs arbitrary: ids) auto

lemma person_ids:
  assumes "distinct (map mem_PersonID members)"
  shows "distinct (person_ids members d names)"
    "set (person_ids members d names) = mem_PersonID ` set members \<union> fst ` set (da_personRequests d)"
proof -
  let ?ids = "fold (\<lambda>i ids. if i \<in> set ids then ids else ids @ [i]) (map fst (da_personRequests d)) (map mem_PersonID members)"
  have "distinct ?ids" using person_ids_mem assms by blast
  moreover have "mset (person_ids members d names) = mset ?ids" by (simp add: person_ids_def Let_def)
  ultimately show "distinct (person_ids members d names)" using mset_eq_imp_distinct_iff by blast
  show "set (person_ids members d names) = mem_PersonID ` set members \<union> fst ` set (da_personRequests d)"
    using person_ids_mem[of "map fst (da_personRequests d)" "map mem_PersonID members"] by (simp add: person_ids_def Let_def)
qed

lemma Members_distinct:
  assumes "people_ok s" shows "distinct (map mem_PersonID (Members tlt a s))"
proof -
  define rows where "rows = filter (\<lambda>m. ms_AccountID m = a) (db_memberships s)"
  have rows: "distinct (map ms_PersonID rows)" and persons: "distinct (map pr_ID (db_persons s))"
    using assms unfolding people_ok_def rows_def by (auto simp: distinct_map inj_on_def)
  have one: "map pr_ID (filter (\<lambda>p. pr_ID p = i) (db_persons s)) = (if person_exists s i then [i] else [])" for i
  proof (cases "person_exists s i")
    case True
    then obtain p where "p \<in> set (db_persons s)" "pr_ID p = i" by auto
    with filter_unique[OF persons this] True show ?thesis by simp
  next
    case False
    then show ?thesis by (auto simp: filter_empty_conv)
  qed
  have eq: "map mem_PersonID (concat (map (\<lambda>m. map (\<lambda>p. \<lparr>mem_PersonID = pr_ID p, mem_Name = pr_DisplayName p,
      mem_ShareWeight = ms_ShareWeight m\<rparr>) (filter (\<lambda>p. pr_ID p = ms_PersonID m) (db_persons s))) ms)) =
    filter (person_exists s) (map ms_PersonID ms)" for ms
    by (induction ms) (simp_all add: comp_def one)
  have "distinct (map mem_PersonID (concat (map (\<lambda>m. map (\<lambda>p. \<lparr>mem_PersonID = pr_ID p, mem_Name = pr_DisplayName p,
      mem_ShareWeight = ms_ShareWeight m\<rparr>) (filter (\<lambda>p. pr_ID p = ms_PersonID m) (db_persons s))) rows)))"
    unfolding eq using rows by simp
  then show ?thesis unfolding Members_def Let_def rows_def[symmetric]
    by (metis (no_types, lifting) mset_map mset_sort_by mset_eq_imp_distinct_iff)
qed

text \<open>
  In every database the operations can reach, a capacity report's members add up to the
  account: their costs and requests are the account's demand of the period, which is exactly
  what its official requests of the period cost; no member is listed twice, and whoever used the
  account and has since left it still counts.
\<close>

theorem capacity_members_add_up:
  assumes "server_step\<^sup>*\<^sup>* empty_db s" "AccountCapacity tlt a rg now s = Inr (Some r)"
  shows "let own = filter (in_report (rg_Start rg) (rg_End rg)) (AccountDemandEvents a (now - capacityLookback - WeeklySpan) now s) in
    cd_CostUSD (rt_Demand r) = sum_list (map event_cost own) \<and>
    cd_Requests (rt_Demand r) = int (length own) \<and>
    sum_list (map cm_CostUSD (rt_Members r)) = cd_CostUSD (rt_Demand r) \<and>
    sum_list (map cm_Requests (rt_Members r)) = cd_Requests (rt_Demand r) \<and>
    distinct (map cm_PersonID (rt_Members r)) \<and> de_PersonID ` set own \<subseteq> cm_PersonID ` set (rt_Members r)"
proof -
  define events where "events = AccountDemandEvents a (now - capacityLookback - WeeklySpan) now s"
  define own where "own = filter (in_report (rg_Start rg) (rg_End rg)) events"
  define d where "d = newDemand events (rg_Start rg) (rg_End rg)"
  define names where "names = fold (\<lambda>p. put (p_ID p) (p_DisplayName p)) (Persons s) ([] :: (string, string) gomap)"
  define ids where "ids = person_ids (Members tlt a s) d names"
  obtain acc plans ro mr where r: "rt_Members r = rt_Members (base_report acc rg plans d ro mr names ids)"
      "rt_Demand r = rt_Demand (base_report acc rg plans d ro mr names ids)"
    using assms(2) unfolding AccountCapacity_def Let_def
    by (auto split: sum.splits if_splits option.splits simp flip: events_def d_def names_def ids_def)
  note tot = count_events[where es = events and start = "rg_Start rg" and stop = "rg_End rg" and d = no_demand, folded own_def newDemand_def d_def]
  have ids: "distinct ids" "de_PersonID ` set own \<subseteq> set ids" "fst ` set (da_personCost d) \<subseteq> set ids"
      "fst ` set (da_personRequests d) \<subseteq> set ids"
    using person_ids[OF Members_distinct[OF people.ok_reachable[OF assms(1)]], of tlt a d names]
    by (auto simp: ids_def tot no_demand_def keys_bump_fold)
  have wf: "wf_map (da_personCost d)" "wf_map (da_personRequests d)"
    by (simp_all add: tot no_demand_def wf_map_bump_fold)
  have "sum_list (map (\<lambda>i. get_or 0 (da_personCost d) i) ids) = sum_list (map snd (da_personCost d))"
    using sum_shares[OF wf(1) _ ids(3)] ids(1) by (simp add: sum_list_distinct_conv_sum_set)
  then have cost: "sum_list (map cm_CostUSD (rt_Members r)) = sum_list (map event_cost own)"
    by (simp add: r base_report_def comp_def) (simp add: tot no_demand_def sum_values_bump_fold)
  have "(\<Sum>i \<in> set ids. get_or 0 (da_personRequests d) i) = (\<Sum>i \<in> fst ` set (da_personRequests d). get_or 0 (da_personRequests d) i)"
    by (rule sum.mono_neutral_right) (use ids in \<open>auto simp: get_or_none\<close>)
  also have "\<dots> = sum_list (map snd (da_personRequests d))"
    using sum_list_map_keys[OF wf(2), of "\<lambda>k v. v" 0] by (simp add: case_prod_beta' comp_def)
  finally have req: "sum_list (map cm_Requests (rt_Members r)) = int (length own)"
    using ids(1) by (simp add: r base_report_def comp_def sum_list_distinct_conv_sum_set)
      (simp add: tot no_demand_def sum_values_bump_fold sum_list_triv)
  have "mset (map cm_PersonID (rt_Members r)) = mset ids"
    by (simp add: r base_report_def comp_def multiset.map_comp)
  then have "distinct (map cm_PersonID (rt_Members r))" "cm_PersonID ` set (rt_Members r) = set ids"
    using ids(1) by (metis mset_eq_imp_distinct_iff, metis mset_eq_setD set_map)
  moreover have "cd_CostUSD (rt_Demand r) = sum_list (map event_cost own)" "cd_Requests (rt_Demand r) = int (length own)"
    by (simp_all add: r base_report_def tot no_demand_def)
  ultimately show ?thesis using cost req ids(2) by (simp add: own_def events_def Let_def)
qed

lemma capacity_members_add_up_witness:
  "\<exists>r. AccountCapacity (<) ''a'' \<lparr>rg_Period = PeriodCustom, rg_Start = 0, rg_End = 9\<rparr> 9 db4 = Inr (Some r) \<and>
     sum_list (map cm_Requests (rt_Members r)) = 1 \<and> map cm_PersonID (rt_Members r) = [''p1'']"
proof -
  let ?rg = "\<lparr>rg_Period = PeriodCustom, rg_Start = 0, rg_End = 9 :: int\<rparr>"
  have "case AccountCapacity (<) ''a'' ?rg 9 db4 of Inr (Some r) \<Rightarrow> map cm_PersonID (rt_Members r) = [''p1''] | _ \<Rightarrow> False"
    by code_simp
  then obtain r where r: "AccountCapacity (<) ''a'' ?rg 9 db4 = Inr (Some r)" "map cm_PersonID (rt_Members r) = [''p1'']"
    by (auto split: sum.splits option.splits)
  have "length (filter (in_report 0 9) (AccountDemandEvents ''a'' (9 - capacityLookback - WeeklySpan) 9 db4)) = 1"
    by code_simp
  with capacity_members_add_up[OF db4_reachable r(1)] r show ?thesis by (auto simp: Let_def)
qed

end
