(* ===== verification/HttpApi.thy ===== *)
theory HttpApi
  imports QueryCapacity
begin

text \<open>
  \<open>internal/server/httpapi/httpapi.go\<close>: the API the desktop clients call. A request is its
  route, its \<open>Authorization\<close> header, its path and query values and its decoded JSON body (\<open>None\<close>
  when the body is not valid JSON or too long), a response its status and what its body encodes;
  \<open>serve\<close> is the router. What a request takes from outside (the clock of server and database,
  the random IDs and secrets, SHA-256, the collation, reading an RFC 3339 instant) is the record
  \<open>api_env\<close>. A panic, which closes the connection without a response, has status 0. Logging is
  not modelled.
\<close>

section \<open>Requests and responses\<close>

record pair_request =
  pq_Version :: int
  pq_Code :: string
  pq_DeviceName :: string
  pq_Platform :: string

record pair_response =
  pa_DeviceID :: string
  pa_PersonID :: string
  pa_PersonName :: string
  pa_Token :: string

record invite_response =
  ir_Code :: string
  ir_ExpiresAt :: time

datatype api_body =
    NoBody
  | ErrorBody string
  | PairBody pair_response
  | SyncBody sync_response
  | OverviewBody overview
  | InviteBody invite_response
  | UsageBody member_usage
  | CapacityBody capacity_report
  | EmptyBody

record api_response =
  as_Status :: int
  as_Body :: api_body

record api_env =
  en_sha :: "string \<Rightarrow> string"
  en_ids :: "nat \<Rightarrow> string"
  en_secret :: string
  en_now :: time
  en_tlt :: "string \<Rightarrow> string \<Rightarrow> bool"
  en_parse :: "string \<Rightarrow> time option"

datatype api_request =
    Healthz
  | JoinPage
  | PairDevice "pair_request option"
  | SyncBatch string "sync_request option"
  | ReadOverview string string
  | MakeInvite string
  | LeaveAccount string string
  | ReadCapacity string string "(string, string) gomap"
  | ReadUsage string string string

definition StatusOK :: int where "StatusOK = 200"
definition StatusNoContent :: int where "StatusNoContent = 204"
definition StatusBadRequest :: int where "StatusBadRequest = 400"
definition StatusUnauthorized :: int where "StatusUnauthorized = 401"
definition StatusForbidden :: int where "StatusForbidden = 403"
definition StatusNotFound :: int where "StatusNotFound = 404"
definition StatusUpgradeRequired :: int where "StatusUpgradeRequired = 426"
definition StatusInternalServerError :: int where "StatusInternalServerError = 500"

lemmas statuses = StatusOK_def StatusNoContent_def StatusBadRequest_def StatusUnauthorized_def StatusForbidden_def
  StatusNotFound_def StatusUpgradeRequired_def StatusInternalServerError_def

definition writeJSON :: "int \<Rightarrow> api_body \<Rightarrow> api_response" where
  "writeJSON status b = \<lparr>as_Status = status, as_Body = b\<rparr>"

definition writeError :: "int \<Rightarrow> string \<Rightarrow> api_response" where
  "writeError status msg = writeJSON status (ErrorBody msg)"

definition internalError :: api_response where
  "internalError = writeError StatusInternalServerError ''internal error''"

section \<open>What a batch may hold\<close>

definition maxFieldLen :: nat where "maxFieldLen = 512"
definition maxEventTokens :: int where "maxEventTokens = 2 ^ 31"
definition maxClockSkew :: duration where "maxClockSkew = 5 * minute"

definition tooLong :: "string list \<Rightarrow> bool" where
  "tooLong texts = list_ex (\<lambda>f. length f > maxFieldLen) texts"

definition bad_observation :: "sync_observation \<Rightarrow> bool" where
  "bad_observation o' = tooLong [so_Provider o', so_Source o', so_AccountRefHash o', so_Hint o', so_PlanType o']"

definition bad_event :: "sync_event \<Rightarrow> bool" where
  "bad_event e = (list_ex (\<lambda>n. n < 0 \<or> n > maxEventTokens)
       [se_Input e, se_CachedInput e, se_CacheWrite e, se_Output e, se_ReasoningOutput e] \<or>
     tooLong [se_DedupeKey e, se_AccountRefHash e, se_PreviousAccountRefHash e, se_Provider e, se_Product e,
       se_Originator e, se_SessionID e, se_Model e, se_Gateway e, se_RequestID e, se_ParentRequestID e, se_Effort e, se_Status e])"

definition bad_snapshot :: "sync_snapshot \<Rightarrow> bool" where
  "bad_snapshot q = tooLong [ss_AccountRefHash q, ss_PreviousAccountRefHash q, ss_AccountHint q, ss_PlanType q, ss_Provider q, ss_Source q]"

definition bad_limit :: "sync_limit \<Rightarrow> bool" where
  "bad_limit l = tooLong [sl_DedupeKey l, sl_AccountRefHash l, sl_Provider l, sl_SessionID l, sl_RequestID l, sl_Kind l, sl_Source l, sl_Evidence l]"

definition dropInvalid :: "sync_request \<Rightarrow> sync_request" where
  "dropInvalid req = req
     \<lparr>rq_Observations := filter (\<lambda>x. \<not> bad_observation x) (rq_Observations req),
      rq_Events := filter (\<lambda>x. \<not> bad_event x) (rq_Events req),
      rq_Snapshots := filter (\<lambda>x. \<not> bad_snapshot x) (rq_Snapshots req),
      rq_LimitEvents := filter (\<lambda>x. \<not> bad_limit x) (rq_LimitEvents req)\<rparr>"

definition clamp :: "time \<Rightarrow> time \<Rightarrow> time" where
  "clamp now t = (if time_sub t now > maxClockSkew then now else t)"

definition clampFuture :: "sync_request \<Rightarrow> time \<Rightarrow> sync_request" where
  "clampFuture req now = req
     \<lparr>rq_Observations := map (\<lambda>x. x\<lparr>so_ObservedAt := clamp now (so_ObservedAt x)\<rparr>) (rq_Observations req),
      rq_Events := map (\<lambda>x. x\<lparr>se_OccurredAt := clamp now (se_OccurredAt x)\<rparr>) (rq_Events req),
      rq_Snapshots := map (\<lambda>x. x\<lparr>ss_ObservedAt := clamp now (ss_ObservedAt x)\<rparr>) (rq_Snapshots req),
      rq_LimitEvents := map (\<lambda>x. x\<lparr>sl_OccurredAt := clamp now (sl_OccurredAt x),
        sl_ObservedAt := clamp now (sl_ObservedAt x)\<rparr>) (rq_LimitEvents req)\<rparr>"

text \<open>A client of version 1 knows no corrections.\<close>

definition without_corrections :: "sync_request \<Rightarrow> sync_request" where
  "without_corrections req = req
     \<lparr>rq_Events := map (\<lambda>x. x\<lparr>se_PreviousAccountRefHash := []\<rparr>) (rq_Events req),
      rq_Snapshots := map (\<lambda>x. x\<lparr>ss_PreviousAccountRefHash := []\<rparr>) (rq_Snapshots req)\<rparr>"

section \<open>Handlers\<close>

definition authed :: "api_env \<Rightarrow> string \<Rightarrow> (store_device \<Rightarrow> db \<Rightarrow> api_response \<times> db) \<Rightarrow> db \<Rightarrow> api_response \<times> db" where
  "authed env header handler s =
     (case cut_prefix header ''Bearer '' of
        None \<Rightarrow> (writeError StatusUnauthorized ''missing device token'', s)
      | Some token \<Rightarrow>
          if token = [] then (writeError StatusUnauthorized ''missing device token'', s)
          else case DeviceByToken (en_sha env) (en_now env) token s of
            Inl err \<Rightarrow> (if err = ErrUnauthorized then writeError StatusUnauthorized ''device token is invalid or revoked''
                        else internalError, s)
          | Inr (d, s) \<Rightarrow> handler d s)"

definition supported :: "int \<Rightarrow> bool" where
  "supported v \<longleftrightarrow> v = 1 \<or> v = Version"

definition pair_handler :: "api_env \<Rightarrow> pair_request option \<Rightarrow> db \<Rightarrow> api_response \<times> db" where
  "pair_handler env b s =
     (case b of
        None \<Rightarrow> (writeError StatusBadRequest ''invalid JSON body'', s)
      | Some req \<Rightarrow>
          if \<not> supported (pq_Version req)
          then (writeError StatusUpgradeRequired ''client protocol version is not supported; update ShareCodex'', s)
          else let name = trim_space (pq_DeviceName req) in
          if pq_Code req = [] \<or> name = [] \<or> length name > 100
          then (writeError StatusBadRequest ''code and device_name are required'', s)
          else case Pair (en_sha env) (en_ids env 0) (en_secret env) (en_now env) (trim_space (pq_Code req)) name (pq_Platform req) s of
            Inl err \<Rightarrow> (if err = ErrInvalidInvite then writeError StatusForbidden ''invite is invalid, expired or already used''
                        else internalError, s)
          | Inr ((d, token), s) \<Rightarrow>
              (writeJSON StatusOK (PairBody \<lparr>pa_DeviceID = dev_ID (sd_Device d), pa_PersonID = p_ID (sd_Person d),
                 pa_PersonName = p_DisplayName (sd_Person d), pa_Token = token\<rparr>), s))"

definition sync_handler :: "api_env \<Rightarrow> sync_request option \<Rightarrow> store_device \<Rightarrow> db \<Rightarrow> api_response \<times> db" where
  "sync_handler env b d s =
     (case b of
        None \<Rightarrow> (writeError StatusBadRequest ''invalid JSON body'', s)
      | Some req \<Rightarrow>
          if \<not> supported (rq_Version req)
          then (writeError StatusUpgradeRequired ''client protocol version is not supported; update ShareCodex'', s)
          else let req = (if rq_Version req = 1 then without_corrections req else req);
                   req = clampFuture (dropInvalid req) (en_now env)
               in case Ingest (en_ids env) (sd_Device d) req s of
                    Inl err \<Rightarrow> (internalError, s)
                  | Inr (res, s) \<Rightarrow> (writeJSON StatusOK (SyncBody res), s))"

definition startOfDay :: "(string \<Rightarrow> time option) \<Rightarrow> string \<Rightarrow> time \<Rightarrow> time" where
  "startOfDay parse raw now =
     (case parse raw of
        Some t \<Rightarrow> if \<not> t > now \<and> time_sub now t \<le> 24 * hour then t else time_truncate now (24 * hour)
      | None \<Rightarrow> time_truncate now (24 * hour))"

definition overview_handler :: "api_env \<Rightarrow> string \<Rightarrow> store_device \<Rightarrow> db \<Rightarrow> api_response \<times> db" where
  "overview_handler env today d s =
     (writeJSON StatusOK (OverviewBody ((Overview (en_tlt env) (dev_PersonID (sd_Device d)) (en_now env)
          (startOfDay (en_parse env) today (en_now env)) s)\<lparr>ov_DashboardPublished := PublicDashboard s\<rparr>)), s)"

definition memberUsage_handler :: "api_env \<Rightarrow> string \<Rightarrow> string \<Rightarrow> store_device \<Rightarrow> db \<Rightarrow> api_response \<times> db" where
  "memberUsage_handler env i periodID d s =
     (case MemberUsage (en_tlt env) (dev_PersonID (sd_Device d)) i (PeriodByID periodID) (en_now env) s of
        Inl err \<Rightarrow> (if err = ErrNotFound then writeError StatusNotFound ''member not found'' else internalError, s)
      | Inr u \<Rightarrow> (writeJSON StatusOK (UsageBody u), s))"

definition accountCapacity_handler ::
  "api_env \<Rightarrow> string \<Rightarrow> (string, string) gomap \<Rightarrow> store_device \<Rightarrow> db \<Rightarrow> api_response \<times> db" where
  "accountCapacity_handler env accountID q d s =
     (case RangeFromQuery (en_parse env) q (en_now env) of
        Inl _ \<Rightarrow> (writeError StatusBadRequest ''invalid range'', s)
      | Inr rg \<Rightarrow> (case Account accountID s of
          Inl err \<Rightarrow> (if err = ErrNotFound then writeError StatusNotFound ''account not found'' else internalError, s)
        | Inr _ \<Rightarrow>
            if list_ex (\<lambda>m. mem_PersonID m = dev_PersonID (sd_Device d) \<and> mem_ShareWeight m = 0) (Members (en_tlt env) accountID s)
            then (writeError StatusNotFound ''account not found'', s)
            else case AccountCapacity (en_tlt env) accountID rg (en_now env) s of
                Inl _ \<Rightarrow> (internalError, s)
              | Inr None \<Rightarrow> (\<lparr>as_Status = 0, as_Body = NoBody\<rparr>, s)
              | Inr (Some r) \<Rightarrow> (writeJSON StatusOK (CapacityBody r), s)))"

definition invite_handler :: "api_env \<Rightarrow> store_device \<Rightarrow> db \<Rightarrow> api_response \<times> db" where
  "invite_handler env d s =
     (case CreateInvite (en_sha env) (en_secret env) (en_now env) (dev_PersonID (sd_Device d)) InviteTTL s of
        Inl _ \<Rightarrow> (internalError, s)
      | Inr ((code, expires), s) \<Rightarrow> (writeJSON StatusOK (InviteBody \<lparr>ir_Code = code, ir_ExpiresAt = expires\<rparr>), s))"

definition leaveAccount_handler :: "string \<Rightarrow> store_device \<Rightarrow> db \<Rightarrow> api_response \<times> db" where
  "leaveAccount_handler i d s =
     (case Account i s of
        Inl err \<Rightarrow> (if err = ErrNotFound then writeError StatusNotFound ''not found'' else internalError, s)
      | Inr _ \<Rightarrow> (case SetShareWeight i (dev_PersonID (sd_Device d)) 0 s of
          Inl _ \<Rightarrow> (internalError, s)
        | Inr (_, s) \<Rightarrow> (writeJSON StatusOK EmptyBody, s)))"

definition serve :: "api_env \<Rightarrow> api_request \<Rightarrow> db \<Rightarrow> api_response \<times> db" where
  "serve env req s =
     (case req of
        Healthz \<Rightarrow> (\<lparr>as_Status = StatusNoContent, as_Body = NoBody\<rparr>, s)
      | JoinPage \<Rightarrow> (\<lparr>as_Status = StatusOK, as_Body = NoBody\<rparr>, s)
      | PairDevice b \<Rightarrow> pair_handler env b s
      | SyncBatch header b \<Rightarrow> authed env header (sync_handler env b) s
      | ReadOverview header today \<Rightarrow> authed env header (overview_handler env today) s
      | MakeInvite header \<Rightarrow> authed env header (invite_handler env) s
      | LeaveAccount header i \<Rightarrow> authed env header (leaveAccount_handler i) s
      | ReadCapacity header i q \<Rightarrow> authed env header (accountCapacity_handler env i q) s
      | ReadUsage header i periodID \<Rightarrow> authed env header (memberUsage_handler env i periodID) s)"

section \<open>The API does nothing but store operations\<close>

lemma DeviceByToken_device:
  assumes "DeviceByToken sha now token s = Inr (d, t)"
  shows "server_step s t" "authentic (sd_Device d) t" "db_usage t = db_usage s"
    "\<exists>r \<in> set (db_devices s). dr_TokenHash r = hashSecret sha token \<and> dr_RevokedAt r = None \<and>
       person_exists s (dr_PersonID r) \<and> sd_Device d = device_of_row r"
proof -
  show "server_step s t" using assms by (rule server_step.device_by_token)
  show row: "\<exists>r \<in> set (db_devices s). dr_TokenHash r = hashSecret sha token \<and> dr_RevokedAt r = None \<and>
       person_exists s (dr_PersonID r) \<and> sd_Device d = device_of_row r"
    using assms by (fastforce simp: DeviceByToken_def Let_def find_Some_iff split: option.splits dest: nth_mem)
  show "db_usage t = db_usage s"
    using assms by (auto simp: DeviceByToken_def Let_def split: option.splits)
  have seen: "device_of_row ` set (update_where p (dr_LastSeenAt_update f) rows) = device_of_row ` set rows" for p f rows
    by (rule image_update_where) (simp add: device_of_row_def)
  obtain p f where "db_devices t = update_where p (dr_LastSeenAt_update f) (db_devices s)"
    using assms by (auto simp: DeviceByToken_def Let_def split: option.splits)
  then have "device_of_row ` set (db_devices t) = device_of_row ` set (db_devices s)" by (simp only: seen)
  then show "authentic (sd_Device d) t" using row unfolding authentic_def by (metis (no_types, lifting) imageE image_eqI)
qed

lemma handlers_step:
  assumes "authentic (sd_Device d) s"
  shows "server_step\<^sup>*\<^sup>* s (snd (sync_handler env b d s))" "server_step\<^sup>*\<^sup>* s (snd (overview_handler env today d s))"
    "server_step\<^sup>*\<^sup>* s (snd (invite_handler env d s))" "server_step\<^sup>*\<^sup>* s (snd (leaveAccount_handler i d s))"
    "server_step\<^sup>*\<^sup>* s (snd (accountCapacity_handler env i q d s))"
    "server_step\<^sup>*\<^sup>* s (snd (memberUsage_handler env i p d s))"
proof -
  show "server_step\<^sup>*\<^sup>* s (snd (sync_handler env b d s))"
    by (auto simp: sync_handler_def Let_def split: option.split sum.split intro: r_into_rtranclp server_step.ingest[OF assms])
  show "server_step\<^sup>*\<^sup>* s (snd (invite_handler env d s))"
    by (auto simp: invite_handler_def split: sum.split intro: r_into_rtranclp server_step.create_invite)
  show "server_step\<^sup>*\<^sup>* s (snd (leaveAccount_handler i d s))"
    by (auto simp: leaveAccount_handler_def split: sum.split intro: r_into_rtranclp server_step.set_share_weight)
qed (auto simp: overview_handler_def accountCapacity_handler_def memberUsage_handler_def split: sum.split option.split)

lemma pair_handler_step: "server_step\<^sup>*\<^sup>* s (snd (pair_handler env b s))"
  by (auto simp: pair_handler_def Let_def split: option.split sum.split intro: r_into_rtranclp server_step.pair)

lemma authed_cases:
  obtains (refused) r where "authed env header handler s = (r, s)" "as_Status r \<noteq> StatusOK"
  | (known) token d t where "header = ''Bearer '' @ token" "DeviceByToken (en_sha env) (en_now env) token s = Inr (d, t)"
      "authed env header handler s = handler d t" "token \<noteq> []"
proof (cases "cut_prefix header ''Bearer ''")
  case None
  then show ?thesis using refused by (simp add: authed_def writeError_def writeJSON_def statuses)
next
  case (Some token)
  then have h: "header = ''Bearer '' @ token" by (rule cut_prefix_Some)
  show ?thesis
  proof (cases "token = []")
    case True
    with Some show ?thesis using refused by (simp add: authed_def writeError_def writeJSON_def statuses)
  next
    case False
    show ?thesis
    proof (cases "DeviceByToken (en_sha env) (en_now env) token s")
      case (Inl err)
      with Some False show ?thesis using refused
        by (auto simp: authed_def writeError_def writeJSON_def internalError_def statuses split: if_splits)
    next
      case (Inr r)
      with Some False h show ?thesis using known by (cases r) (simp add: authed_def)
    qed
  qed
qed

lemma authed_steps:
  assumes "\<And>d s. authentic (sd_Device d) s \<Longrightarrow> server_step\<^sup>*\<^sup>* s (snd (handler d s))"
  shows "server_step\<^sup>*\<^sup>* s (snd (authed env header handler s))"
proof (cases rule: authed_cases[of env header handler s])
  case (known token d t)
  note dev = DeviceByToken_device[OF known(2)]
  with assms[of d t] known(3) show ?thesis by (metis converse_rtranclp_into_rtranclp)
qed simp

text \<open>
  Whatever request arrives, the API changes the database by operations of the store alone,
  and syncs only for the device the token was issued to: so every database the API can reach is
  one the store's operations reach, with its unique requests, owned by the person of their
  device, and its plan intervals apart.
\<close>

theorem serve_is_store_steps:
  "server_step\<^sup>*\<^sup>* s (snd (serve env req s))"
  by (cases req) (auto simp: serve_def intro: authed_steps handlers_step pair_handler_step)

definition issued :: "api_env \<Rightarrow> string \<Rightarrow> db \<Rightarrow> bool" where
  "issued env token s = list_ex (\<lambda>r. dr_TokenHash r = hashSecret (en_sha env) token \<and> dr_RevokedAt r = None \<and>
     person_exists s (dr_PersonID r)) (db_devices s)"

fun header_of :: "api_request \<Rightarrow> string option" where
  "header_of Healthz = None"
| "header_of JoinPage = None"
| "header_of (PairDevice b) = None"
| "header_of (SyncBatch h b) = Some h"
| "header_of (ReadOverview h t) = Some h"
| "header_of (MakeInvite h) = Some h"
| "header_of (LeaveAccount h i) = Some h"
| "header_of (ReadCapacity h i q) = Some h"
| "header_of (ReadUsage h i p) = Some h"

lemma authed_refuses:
  assumes "\<And>token. h = ''Bearer '' @ token \<Longrightarrow> \<not> issued env token s"
  shows "as_Status (fst (authed env h handler s)) = StatusUnauthorized \<and> snd (authed env h handler s) = s"
proof (cases "cut_prefix h ''Bearer ''")
  case None
  then show ?thesis by (simp add: authed_def writeError_def writeJSON_def)
next
  case (Some token)
  then have h: "h = ''Bearer '' @ token" by (rule cut_prefix_Some)
  have "DeviceByToken (en_sha env) (en_now env) token s = Inl ErrUnauthorized"
  proof (cases "DeviceByToken (en_sha env) (en_now env) token s")
    case (Inl err)
    then show ?thesis by (auto simp: DeviceByToken_def Let_def split: option.splits)
  next
    case (Inr r)
    then obtain d t where "DeviceByToken (en_sha env) (en_now env) token s = Inr (d, t)" by (cases r) auto
    from DeviceByToken_device(4)[OF this] assms[OF h] show ?thesis by (auto simp: issued_def list_ex_iff)
  qed
  with Some show ?thesis by (simp add: authed_def writeError_def writeJSON_def)
qed

text \<open>
  C31. Without a token the server issued to a device, still valid and of a member who is still
  there, a request that needs one is refused with 401 and changes nothing.
\<close>

theorem api_requires_token:
  assumes "header_of req = Some h" "\<not> (\<exists>token. h = ''Bearer '' @ token \<and> issued env token s)"
  shows "as_Status (fst (serve env req s)) = StatusUnauthorized \<and> snd (serve env req s) = s"
  using assms(1) authed_refuses[of h env s] assms(2) by (cases req) (auto simp: serve_def)

definition demo_env :: api_env where
  "demo_env = \<lparr>en_sha = demo_sha, en_ids = demo_ids, en_secret = ''t9'', en_now = 9, en_tlt = (<), en_parse = (\<lambda>_. None)\<rparr>"

lemma api_requires_token_witness:
  "as_Status (fst (serve demo_env (MakeInvite ''Bearer t1'') db4)) = StatusOK \<and>
   as_Status (fst (serve demo_env (MakeInvite ''Bearer x'') db4)) = StatusUnauthorized"
proof
  show "as_Status (fst (serve demo_env (MakeInvite ''Bearer t1'') db4)) = StatusOK" by code_simp
  have "header_of (MakeInvite ''Bearer x'') = Some ''Bearer x''" by simp
  moreover have "\<not> issued demo_env ''x'' db4" by code_simp
  then have "\<not> (\<exists>token. ''Bearer x'' = ''Bearer '' @ token \<and> issued demo_env token db4)" by auto
  ultimately show "as_Status (fst (serve demo_env (MakeInvite ''Bearer x'') db4)) = StatusUnauthorized"
    using api_requires_token by blast
qed

section \<open>What a batch leaves in the ledger\<close>

lemma Ingest_usage_rows:
  assumes "Ingest newID d req s = Inr (resp, t)" "\<forall>u \<in> set (db_usage s). P u"
    and new: "\<And>e i. e \<in> set (rq_Events req) \<Longrightarrow> P (usage_row_of d i e)"
    and upsert: "\<And>e i u. e \<in> set (rq_Events req) \<Longrightarrow> P u \<Longrightarrow> P (upsert_usage (usage_row_of d i e) u)"
    and other: "\<And>u i m g b. P u \<Longrightarrow> P (u\<lparr>ur_AccountID := i, ur_Model := m, ur_Gateway := g, ur_ThirdParty := b\<rparr>)"
  shows "\<forall>u \<in> set (db_usage t). P u"
proof -
  let ?I = "\<lambda>st. \<forall>u \<in> set (db_usage (in_db st)). P u"
  have ens: "db_usage (in_db st') = db_usage (in_db st)" if "ensure newID p pr h hint plan at' st = Inr (i, st')" for p pr h hint plan at' st i st'
    using that by (auto simp: ensure_def ensureAccount_def Let_def split: option.splits sum.splits if_splits)
  have classify: "P (u\<lparr>ur_ThirdParty := b, ur_Gateway := g\<rparr>)" if "P u" for u b g
    using other[OF that, where i = "ur_AccountID u" and m = "ur_Model u" and g = g and b = b] by (cases u) simp
  obtain st1 st2 st3 st4 where
    f: "fold_tx (ingest_observation newID d) (rq_Observations req) \<lparr>in_db = s, in_accounts = [], in_calls = 0, in_accepted = 0\<rparr> = Inr st1"
    "fold_tx (ingest_event newID d) (rq_Events req) st1 = Inr st2"
    "fold_tx (ingest_snapshot newID d) (rq_Snapshots req) st2 = Inr st3"
    "fold_tx (ingest_limit newID d) (rq_LimitEvents req) st3 = Inr st4" "t = in_db st4"
    using assms(1) by (auto simp: Ingest_def Let_def split: sum.splits)
  have "?I st1" using f(1) by (rule fold_tx_keeps)
    (use assms(2) in \<open>auto simp: ingest_observation_def Let_def ens split: sum.splits if_splits\<close>)
  with f(2) have "?I st2"
  proof (rule fold_tx_keeps_mem)
    fix e st st' assume e: "e \<in> set (rq_Events req)" and st: "ingest_event newID d e st = Inr st'" "?I st"
    have save: "\<forall>u \<in> set (db_usage v). P u" if "save_event d i e w = Inr (n, v)" "\<forall>u \<in> set (db_usage w). P u" for i n v w
      using that new[OF e] upsert[OF e] by (auto simp: save_event_def Let_def set_update_where split: if_splits)
    have move: "\<forall>u \<in> set (db_usage (move_event d i e w)). P u" if "\<forall>u \<in> set (db_usage w). P u" for i w
      using that other by (auto simp: move_event_def set_update_where)
    have rec: "\<forall>u \<in> set (db_usage (reclassify_event d e w)). P u" if "\<forall>u \<in> set (db_usage w). P u" for w
      using that classify by (auto simp: reclassify_event_def set_update_where)
    show "?I st'"
    proof (cases "se_AccountRefHash e = [] \<or> se_DedupeKey e = []")
      case True
      then show ?thesis using st by (auto simp: ingest_event_def)
    next
      case False
      obtain i st2 where ens2: "ensure newID (dev_PersonID d) (se_Provider e) (se_AccountRefHash e) [] [] zero_time st = Inr (i, st2)"
        using st(1) False by (auto simp: ingest_event_def split: sum.splits)
      obtain n v where v: "save_event d i e (in_db st2) = Inr (n, v)"
        using st(1) False ens2 by (auto simp: ingest_event_def split: sum.splits)
      have "\<forall>u \<in> set (db_usage v). P u" using save[OF v] ens[OF ens2] st(2) by simp
      then have "\<forall>u \<in> set (db_usage (if se_Gateway e \<noteq> [] then move_event d i e v else v)). P u" using move by simp
      then have "\<forall>u \<in> set (db_usage (if se_ThirdParty e \<or> se_Gateway e \<noteq> []
          then reclassify_event d e (if se_Gateway e \<noteq> [] then move_event d i e v else v)
          else if se_Gateway e \<noteq> [] then move_event d i e v else v)). P u" using rec by simp
      moreover have "st' = st2\<lparr>in_db := (if se_ThirdParty e \<or> se_Gateway e \<noteq> []
          then reclassify_event d e (if se_Gateway e \<noteq> [] then move_event d i e v else v)
          else if se_Gateway e \<noteq> [] then move_event d i e v else v), in_accepted := in_accepted st2 + n\<rparr>"
        using st(1) False unfolding ingest_event_def by (simp add: ens2 v Let_def)
      ultimately show ?thesis by simp
    qed
  qed
  then have "?I st3" using fold_tx_keeps[OF f(3), where I = ?I]
    by (fastforce simp: ingest_snapshot_def Let_def ens split: sum.splits if_splits)
  then have "?I st4" using fold_tx_keeps[OF f(4), where I = ?I]
    by (fastforce simp: ingest_limit_def Let_def ens split: sum.splits if_splits)
  then show ?thesis by (simp add: f(5))
qed

definition bounded_row :: "usage_row \<Rightarrow> bool" where
  "bounded_row u = list_all (\<lambda>n. 0 \<le> n \<and> n \<le> maxEventTokens)
     [tk_Input (ur_Tokens u), tk_CachedInput (ur_Tokens u), tk_CacheWrite (ur_Tokens u), tk_Output (ur_Tokens u),
      tk_ReasoningOutput (ur_Tokens u)]"

definition dated_row :: "time \<Rightarrow> db \<Rightarrow> usage_row \<Rightarrow> bool" where
  "dated_row now s v \<longleftrightarrow> ur_OccurredAt v \<in> ur_OccurredAt ` set (db_usage s) \<or> time_sub (ur_OccurredAt v) now \<le> maxClockSkew"

lemma clamp_dated: "time_sub (clamp now t) now \<le> maxClockSkew"
  by (auto simp: clamp_def time_sub_def maxClockSkew_def time_units max_duration_def min_duration_def not_less)

lemma sync_handler_rows:
  assumes "\<forall>u \<in> set (db_usage s). bounded_row u"
  shows "\<forall>v \<in> set (db_usage (snd (sync_handler env b d s))). bounded_row v \<and> dated_row (en_now env) s v"
proof (cases "\<exists>r req t. Ingest (en_ids env) (sd_Device d) (clampFuture (dropInvalid req) (en_now env)) s = Inr (r, t) \<and>
    snd (sync_handler env b d s) = t")
  case False
  then have "snd (sync_handler env b d s) = s"
    by (fastforce simp: sync_handler_def Let_def split: option.splits sum.splits)
  with assms show ?thesis by (simp add: dated_row_def)
next
  case True
  then obtain r req t where t: "Ingest (en_ids env) (sd_Device d) (clampFuture (dropInvalid req) (en_now env)) s = Inr (r, t)"
      "snd (sync_handler env b d s) = t" by blast
  have e: "\<not> bad_event e" "time_sub (se_OccurredAt e) (en_now env) \<le> maxClockSkew"
    if "e \<in> set (rq_Events (clampFuture (dropInvalid req) (en_now env)))" for e
    using that clamp_dated by (auto simp: clampFuture_def dropInvalid_def bad_event_def)
  have "\<forall>v \<in> set (db_usage t). bounded_row v \<and> dated_row (en_now env) s v"
    using t(1)
  proof (rule Ingest_usage_rows)
    show "\<forall>u \<in> set (db_usage s). bounded_row u \<and> dated_row (en_now env) s u" using assms by (simp add: dated_row_def)
  next
    fix e i assume "e \<in> set (rq_Events (clampFuture (dropInvalid req) (en_now env)))"
    from e[OF this] show "bounded_row (usage_row_of (sd_Device d) i e) \<and> dated_row (en_now env) s (usage_row_of (sd_Device d) i e)"
      by (simp add: bounded_row_def dated_row_def usage_row_of_def bad_event_def not_less)
  next
    fix e i u assume "e \<in> set (rq_Events (clampFuture (dropInvalid req) (en_now env)))" "bounded_row u \<and> dated_row (en_now env) s u"
    with e[OF this(1)] show "bounded_row (upsert_usage (usage_row_of (sd_Device d) i e) u) \<and>
        dated_row (en_now env) s (upsert_usage (usage_row_of (sd_Device d) i e) u)"
      by (simp add: bounded_row_def dated_row_def usage_row_of_def upsert_usage_def bad_event_def not_less le_max_iff_disj)
  qed (simp add: bounded_row_def dated_row_def)
  with t(2) show ?thesis by simp
qed

lemma other_handlers_usage:
  "db_usage (snd (overview_handler env today d s)) = db_usage s" "db_usage (snd (invite_handler env d s)) = db_usage s"
  "db_usage (snd (leaveAccount_handler i d s)) = db_usage s" "db_usage (snd (accountCapacity_handler env i q d s)) = db_usage s"
  "db_usage (snd (memberUsage_handler env i p d s)) = db_usage s" "db_usage (snd (pair_handler env b s)) = db_usage s"
  by (auto simp: overview_handler_def invite_handler_def leaveAccount_handler_def accountCapacity_handler_def
      memberUsage_handler_def pair_handler_def CreateInvite_def SetShareWeight_def Pair_def Let_def split: sum.split option.split)

text \<open>
  C32. The API keeps the counts of every stored request between zero and 2^31, so sums over any
  ledger a server can hold stay far from overflow, and dates no request it stores more than five
  minutes ahead of its own clock.
\<close>

theorem serve_bounds_ledger:
  assumes "list_all bounded_row (db_usage s)"
  shows "list_all (\<lambda>v. bounded_row v \<and> dated_row (en_now env) s v) (db_usage (snd (serve env req s)))"
proof -
  have keep: ?thesis if "db_usage (snd (serve env req s)) = db_usage s"
    using assms by (simp add: that list_all_iff dated_row_def)
  have other: ?thesis if "serve env req s = authed env h handler s" "\<And>d t. db_usage (snd (handler d t)) = db_usage t" for h handler
  proof (cases rule: authed_cases[of env h handler s])
    case (refused r)
    with that(1) show ?thesis by (intro keep) simp
  next
    case (known token d t)
    with that DeviceByToken_device(3)[OF known(2)] show ?thesis by (intro keep) simp
  qed
  show ?thesis
  proof (cases req)
    case (SyncBatch h b)
    then show ?thesis
    proof (cases rule: authed_cases[of env h "sync_handler env b" s])
      case (refused r)
      with SyncBatch show ?thesis by (intro keep) (simp add: serve_def)
    next
      case (known token d t)
      note same = DeviceByToken_device(3)[OF known(2)]
      have "\<forall>v \<in> set (db_usage (snd (sync_handler env b d t))). bounded_row v \<and> dated_row (en_now env) t v"
        using assms by (intro sync_handler_rows) (simp add: same list_all_iff)
      then show ?thesis by (simp add: SyncBatch serve_def known(3) list_all_iff dated_row_def same)
    qed
  next
    case Healthz
    then show ?thesis by (intro keep) (simp add: serve_def)
  next
    case JoinPage
    then show ?thesis by (intro keep) (simp add: serve_def)
  next
    case (PairDevice b)
    then show ?thesis by (intro keep) (simp add: serve_def other_handlers_usage)
  qed (rule other, simp add: serve_def, simp add: other_handlers_usage)+
qed

lemma serve_bounds_ledger_witness:
  "\<exists>t. snd (serve demo_env (SyncBatch ''Bearer t1'' (Some (demo_request []))) db3) = t \<and> db_usage t \<noteq> [] \<and>
     list_all bounded_row (db_usage t)"
proof -
  let ?t = "snd (serve demo_env (SyncBatch ''Bearer t1'' (Some (demo_request []))) db3)"
  have "db_usage ?t \<noteq> []" "list_all bounded_row (db_usage db3)" by code_simp+
  with serve_bounds_ledger[OF this(2), of demo_env "SyncBatch ''Bearer t1'' (Some (demo_request []))"] show ?thesis
    by (auto simp: list_all_iff)
qed

section \<open>Leaving an account\<close>

lemma DeviceByToken_again:
  assumes "DeviceByToken sha now token s = Inr (d, s1)" "db_devices t = db_devices s1" "db_persons t = db_persons s1"
  shows "\<exists>t'. DeviceByToken sha now' token t = Inr (d, t') \<and> db_memberships t' = db_memberships t \<and>
    db_persons t' = db_persons t \<and> db_accounts t' = db_accounts t"
proof -
  let ?match = "\<lambda>r. dr_TokenHash r = hashSecret sha token \<and> dr_RevokedAt r = None \<and> person_exists s (dr_PersonID r)"
  obtain r p where r: "find ?match (db_devices s) = Some r" "find_person s (dr_PersonID r) = Some p"
    "d = \<lparr>sd_Device = device_of_row r, sd_Person = person_of_row p\<rparr>"
    "s1 = s\<lparr>db_devices := update_where ?match (\<lambda>r. r\<lparr>dr_LastSeenAt := Some now\<rparr>) (db_devices s)\<rparr>"
    using assms(1) by (auto simp: DeviceByToken_def Let_def split: option.splits)
  have persons: "db_persons t = db_persons s" using assms(3) r(4) by simp
  have "find ?match (db_devices t) = Some (r\<lparr>dr_LastSeenAt := Some now\<rparr>)"
    using r(1) by (simp add: assms(2) r(4) find_update_where) (auto simp: find_Some_iff)
  then show ?thesis using r(2,3) persons
    by (simp add: DeviceByToken_def Let_def find_person_def device_of_row_def)
qed

text \<open>
  Leaving works: once the API has answered a member's request to leave an account, no
  overview they ask for lists it, whatever the time, and its capacity report is not found for
  them; and it stays as visible as it was to everyone else.
\<close>

theorem leaving_hides_account:
  assumes "serve env (LeaveAccount h i) s = (r, t)" "as_Status r = StatusOK" "en_sha env' = en_sha env"
  shows "(case as_Body (fst (serve env' (ReadOverview h today) t)) of
       OverviewBody ov \<Rightarrow> list_all (\<lambda>ao. ao_ID ao \<noteq> i) (ov_Accounts ov) | _ \<Rightarrow> False) \<and>
     as_Status (fst (serve env' (ReadCapacity h i q) t)) =
       (case RangeFromQuery (en_parse env') q (en_now env') of Inl _ \<Rightarrow> StatusBadRequest | Inr _ \<Rightarrow> StatusNotFound) \<and>
     (\<exists>p. \<forall>v. v \<noteq> p \<longrightarrow> has_left v (Members tlt i t) = has_left v (Members tlt i s))"
proof -
  have leave: "authed env h (leaveAccount_handler i) s = (r, t)" using assms(1) by (simp add: serve_def)
  obtain token d s1 where d: "h = ''Bearer '' @ token" "DeviceByToken (en_sha env) (en_now env) token s = Inr (d, s1)"
      "leaveAccount_handler i d s1 = (r, t)" "token \<noteq> []"
    using leave assms(2) by (cases rule: authed_cases[of env h "leaveAccount_handler i" s]) auto
  define p where "p = dev_PersonID (sd_Device d)"
  obtain u a where set: "SetShareWeight i p 0 s1 = Inr (u, t)" "Account i s1 = Inr a"
    using d(3) assms(2) by (auto simp: leaveAccount_handler_def p_def writeError_def writeJSON_def internalError_def statuses
        split: sum.splits if_splits)
  have tables: "db_devices t = db_devices s1" "db_persons t = db_persons s1" "db_accounts t = db_accounts s1"
    using set(1) by (auto simp: SetShareWeight_def Let_def split: if_splits)
  have s1: "db_memberships s1 = db_memberships s" "db_persons s1 = db_persons s"
    using d(2) by (auto simp: DeviceByToken_def Let_def split: option.splits)
  have "person_exists s1 p" using DeviceByToken_device(4)[OF d(2)] s1(2) by (auto simp: p_def device_of_row_def)
  note hide = SetShareWeight_leaves[OF set(1) this]
  obtain t' where t': "DeviceByToken (en_sha env') (en_now env') token t = Inr (d, t')" "db_memberships t' = db_memberships t"
      "db_persons t' = db_persons t" "db_accounts t' = db_accounts t"
    using DeviceByToken_again[OF d(2) tables(1,2)] assms(3) by auto
  have run: "authed env' h handler t = handler d t'" for handler
    using cut_prefix_append[of "''Bearer ''" token] by (simp only: d(1)) (simp add: authed_def t'(1) d(4))
  have members: "Members tlt' i t' = Members tlt' i t" for tlt' by (simp add: Members_def t'(2,3))
  have left: "has_left p (Members tlt' i t')" for tlt' unfolding members by (rule hide(1))
  have "list_all (\<lambda>ao. ao_ID ao \<noteq> i) (ov_Accounts (Overview tlt' p now day t'))" for tlt' now day
    using left[of tlt'] by (auto simp: Overview_def Let_def list_all_iff account_overview_of_def)
  then have over: "case as_Body (fst (serve env' (ReadOverview h today) t)) of
       OverviewBody ov \<Rightarrow> list_all (\<lambda>ao. ao_ID ao \<noteq> i) (ov_Accounts ov) | _ \<Rightarrow> False"
    by (simp add: serve_def run overview_handler_def writeJSON_def flip: p_def)
  have "Account i t' = Inr a" using set(2) by (simp add: Account_def t'(4) tables(3))
  then have cap: "as_Status (fst (serve env' (ReadCapacity h i q) t)) =
       (case RangeFromQuery (en_parse env') q (en_now env') of Inl _ \<Rightarrow> StatusBadRequest | Inr _ \<Rightarrow> StatusNotFound)"
    using left[of "en_tlt env'"]
    by (auto simp: serve_def run accountCapacity_handler_def writeError_def writeJSON_def has_left_def p_def split: sum.splits)
  have "\<forall>v. v \<noteq> p \<longrightarrow> has_left v (Members tlt i t) = has_left v (Members tlt i s)"
    using hide(2) by (simp add: Members_def s1)
  with over cap show ?thesis by blast
qed

lemma leaving_hides_account_witness:
  "\<exists>t. snd (serve demo_env (LeaveAccount ''Bearer t1'' ''a'') db4) = t \<and>
     as_Status (fst (serve demo_env (ReadCapacity ''Bearer t1'' ''a'' []) db4)) = StatusOK \<and>
     as_Status (fst (serve demo_env (ReadCapacity ''Bearer t1'' ''a'' []) t)) = StatusNotFound"
proof -
  obtain r t where rt: "serve demo_env (LeaveAccount ''Bearer t1'' ''a'') db4 = (r, t)" by (cases "serve demo_env (LeaveAccount ''Bearer t1'' ''a'') db4")
  have "as_Status (fst (serve demo_env (LeaveAccount ''Bearer t1'' ''a'') db4)) = StatusOK" by code_simp
  then have "as_Status r = StatusOK" by (simp add: rt)
  moreover have "as_Status (fst (serve demo_env (ReadCapacity ''Bearer t1'' ''a'' []) db4)) = StatusOK"
    "\<not> isl (RangeFromQuery (en_parse demo_env) [] (en_now demo_env))" by code_simp+
  ultimately show ?thesis using leaving_hides_account[OF rt, of demo_env "''q''" "[]"] rt by (auto split: sum.splits)
qed

end
