(* ===== verification/ClientSync.thy ===== *)
theory ClientSync
  imports ClientStore HttpApi
begin

text \<open>
  \<open>internal/client/sync/client.go\<close> and \<open>internal/client/agent/syncing.go\<close>: how the outbox
  reaches the server. The network is the function \<open>transport\<close> from a request and the state of
  the world to a response, if one came back, and the next state: without a response the server may
  have handled the request or not. Its instance \<open>direct\<close> is the server's own router. Other
  goroutines of the agent are not modelled, so nothing is queued while an upload runs.
\<close>

section \<open>The HTTP client\<close>

datatype client_error =
    ErrRevoked
  | ErrUpgrade
  | ErrInvalidJoin
  | ErrServerTooOld
  | ErrForbiddenStatus
  | ErrNotFoundStatus
  | ErrUnreachable
  | ErrUndecodable
  | ErrServerStatus int "string option"
  | ErrNotJoined
  | ErrOutboxItem int

type_synonym 'w transport = "api_request \<Rightarrow> 'w \<Rightarrow> api_response option \<times> 'w"

text \<open>A response without an error message is told by its status line, here \<open>None\<close>.\<close>

definition error_of :: "api_response \<Rightarrow> client_error" where
  "error_of r =
     (if as_Status r = StatusUnauthorized then ErrRevoked
      else if as_Status r = StatusForbidden then ErrForbiddenStatus
      else if as_Status r = StatusNotFound then ErrNotFoundStatus
      else if as_Status r = StatusUpgradeRequired then ErrUpgrade
      else ErrServerStatus (as_Status r)
        (case as_Body r of ErrorBody msg \<Rightarrow> if msg = [] then None else Some msg | _ \<Rightarrow> None))"

definition do_call :: "(api_body \<Rightarrow> 'a option) \<Rightarrow> 'w transport \<Rightarrow> api_request \<Rightarrow> 'w \<Rightarrow> (client_error + 'a) \<times> 'w" where
  "do_call decode transport req w =
     (case transport req w of
        (None, w) \<Rightarrow> (Inl ErrUnreachable, w)
      | (Some r, w) \<Rightarrow>
          (if as_Status r = StatusOK then case decode (as_Body r) of Some x \<Rightarrow> Inr x | None \<Rightarrow> Inl ErrUndecodable
           else Inl (error_of r), w))"

definition bearer :: "string \<Rightarrow> string" where
  "bearer token = (if token = [] then [] else ''Bearer '' @ token)"

text \<open>A 404 from a route added later means the server is too old to have it.\<close>

definition too_old :: "(client_error + 'a) \<times> 'w \<Rightarrow> (client_error + 'a) \<times> 'w" where
  "too_old r = (case r of (Inl ErrNotFoundStatus, w) \<Rightarrow> (Inl ErrServerTooOld, w) | _ \<Rightarrow> r)"

definition Client_Pair :: "'w transport \<Rightarrow> string \<Rightarrow> string \<Rightarrow> string \<Rightarrow> 'w \<Rightarrow> (client_error + pair_response) \<times> 'w" where
  "Client_Pair transport code deviceName platform w =
     (case do_call (\<lambda>b. case b of PairBody p \<Rightarrow> Some p | _ \<Rightarrow> None) transport
        (PairDevice (Some \<lparr>pq_Version = Version, pq_Code = code, pq_DeviceName = deviceName, pq_Platform = platform\<rparr>)) w of
        (Inl ErrForbiddenStatus, w) \<Rightarrow> (Inl ErrInvalidJoin, w)
      | r \<Rightarrow> r)"

definition Client_Sync :: "'w transport \<Rightarrow> string \<Rightarrow> sync_request \<Rightarrow> 'w \<Rightarrow> (client_error + sync_response) \<times> 'w" where
  "Client_Sync transport token req =
     do_call (\<lambda>b. case b of SyncBody r \<Rightarrow> Some r | _ \<Rightarrow> None) transport (SyncBatch (bearer token) (Some (req\<lparr>rq_Version := Version\<rparr>)))"

definition Client_Overview :: "'w transport \<Rightarrow> string \<Rightarrow> string \<Rightarrow> 'w \<Rightarrow> (client_error + overview) \<times> 'w" where
  "Client_Overview transport token today =
     do_call (\<lambda>b. case b of OverviewBody v \<Rightarrow> Some v | _ \<Rightarrow> None) transport (ReadOverview (bearer token) today)"

definition Client_Invite :: "'w transport \<Rightarrow> string \<Rightarrow> 'w \<Rightarrow> (client_error + invite_response) \<times> 'w" where
  "Client_Invite transport token w =
     too_old (do_call (\<lambda>b. case b of InviteBody r \<Rightarrow> Some r | _ \<Rightarrow> None) transport (MakeInvite (bearer token)) w)"

definition Client_MemberUsage :: "'w transport \<Rightarrow> string \<Rightarrow> string \<Rightarrow> string \<Rightarrow> 'w \<Rightarrow> (client_error + member_usage) \<times> 'w" where
  "Client_MemberUsage transport token personID periodID w =
     too_old (do_call (\<lambda>b. case b of UsageBody u \<Rightarrow> Some u | _ \<Rightarrow> None) transport (ReadUsage (bearer token) personID periodID) w)"

definition Client_AccountCapacity ::
  "'w transport \<Rightarrow> string \<Rightarrow> string \<Rightarrow> string \<Rightarrow> string \<Rightarrow> string \<Rightarrow> 'w \<Rightarrow> (client_error + capacity_report) \<times> 'w" where
  "Client_AccountCapacity transport token accountID periodID from' to' w =
     (let q = [(''period'', periodID)];
          q = (if from' \<noteq> [] \<and> to' \<noteq> [] then put ''to'' to' (put ''from'' from' q) else q)
      in too_old (do_call (\<lambda>b. case b of CapacityBody r \<Rightarrow> Some r | _ \<Rightarrow> None) transport (ReadCapacity (bearer token) accountID q) w))"

definition Client_LeaveAccount :: "'w transport \<Rightarrow> string \<Rightarrow> string \<Rightarrow> 'w \<Rightarrow> (client_error + unit) \<times> 'w" where
  "Client_LeaveAccount transport token accountID w =
     too_old (do_call (\<lambda>b. case b of EmptyBody \<Rightarrow> Some () | _ \<Rightarrow> None) transport (LeaveAccount (bearer token) accountID) w)"

section \<open>Uploading the outbox\<close>

definition batchSize :: nat where "batchSize = 500"

text \<open>
  The item a row of the outbox adds to the batch; a payload of another kind than the row says
  counts as undecodable.
\<close>

definition add_item :: "outbox_item \<Rightarrow> sync_request \<Rightarrow> client_error + sync_request" where
  "add_item it req =
     (if ox_Kind it = KindObservation then
        (case ox_Payload it of PayloadObservation x \<Rightarrow> Inr (req\<lparr>rq_Observations := rq_Observations req @ [x]\<rparr>)
         | _ \<Rightarrow> Inl (ErrOutboxItem (ox_ID it)))
      else if ox_Kind it = KindEvent then
        (case ox_Payload it of PayloadEvent x \<Rightarrow> Inr (req\<lparr>rq_Events := rq_Events req @ [x]\<rparr>)
         | _ \<Rightarrow> Inl (ErrOutboxItem (ox_ID it)))
      else if ox_Kind it = KindSnapshot then
        (case ox_Payload it of PayloadSnapshot x \<Rightarrow> Inr (req\<lparr>rq_Snapshots := rq_Snapshots req @ [x]\<rparr>)
         | _ \<Rightarrow> Inl (ErrOutboxItem (ox_ID it)))
      else if ox_Kind it = KindLimitEvent then
        (case ox_Payload it of PayloadLimit x \<Rightarrow> Inr (req\<lparr>rq_LimitEvents := rq_LimitEvents req @ [x]\<rparr>)
         | _ \<Rightarrow> Inl (ErrOutboxItem (ox_ID it)))
      else Inl (ErrOutboxItem (ox_ID it)))"

definition empty_request :: sync_request where
  "empty_request = \<lparr>rq_Version = 0, rq_Observations = [], rq_Events = [], rq_Snapshots = [], rq_LimitEvents = []\<rparr>"

definition batchRequest :: "outbox_item list \<Rightarrow> client_error + sync_request" where
  "batchRequest items = fold_tx add_item items empty_request"

lemma PendingOutbox_last:
  assumes "PendingOutbox n s \<noteq> []" shows "last (PendingOutbox n s) \<in> set (ld_outbox s)"
proof -
  have "last (PendingOutbox n s) \<in> set (PendingOutbox n s)" using assms by simp
  then show ?thesis unfolding PendingOutbox_def by (metis in_set_takeD set_sort_by)
qed

lemma DeleteOutboxThrough_shorter:
  assumes "PendingOutbox n s \<noteq> []"
  shows "length (ld_outbox (DeleteOutboxThrough (ox_ID (last (PendingOutbox n s))) s)) < length (ld_outbox s)"
  using PendingOutbox_last[OF assms] by (auto simp: DeleteOutboxThrough_def intro!: length_filter_less)

function upload ::
  "(sync_request \<Rightarrow> 'w \<Rightarrow> (client_error + sync_response) \<times> 'w) \<Rightarrow> local_db \<Rightarrow> 'w \<Rightarrow> client_error option \<times> local_db \<times> 'w" where
  "upload sync s w =
     (let items = PendingOutbox batchSize s in
      if items = [] then (None, s, w)
      else case batchRequest items of
        Inl err \<Rightarrow> (Some err, s, w)
      | Inr req \<Rightarrow> (case sync req w of
          (Inl err, w) \<Rightarrow> (Some err, s, w)
        | (Inr res, w) \<Rightarrow> upload sync (DeleteOutboxThrough (ox_ID (last items)) s) w))"
  by pat_completeness auto
termination
  by (relation "measure (\<lambda>(sync, s, w). length (ld_outbox s))") (use DeleteOutboxThrough_shorter in auto)

declare upload.simps [simp del]

section \<open>The agent's sync state\<close>

record agent_state =
  ag_token :: "string option"
  ag_revoked :: bool
  ag_syncErr :: "client_error option"
  ag_overviewErr :: "client_error option"
  ag_lastSync :: "time option"
  ag_overview :: "overview option"

definition syncOnce ::
  "'w transport \<Rightarrow> string \<Rightarrow> time \<Rightarrow> agent_state \<Rightarrow> local_db \<Rightarrow> 'w \<Rightarrow> client_error option \<times> agent_state \<times> local_db \<times> 'w" where
  "syncOnce transport today now a s w =
     (case ag_token a of
        None \<Rightarrow> (None, a, s, w)
      | Some token \<Rightarrow>
          if ag_revoked a then (None, a, s, w)
          else let (uploadErr, s, w) = upload (Client_Sync transport token) s w;
                   (overviewErr, a, w) =
                     (if uploadErr = None
                      then case Client_Overview transport token today w of
                          (Inr v, w) \<Rightarrow> (None, a\<lparr>ag_overview := Some v\<rparr>, w)
                        | (Inl err, w) \<Rightarrow> (Some err, a, w)
                      else (None, a, w));
                   a = (case uploadErr of
                          Some ErrRevoked \<Rightarrow> a\<lparr>ag_revoked := True, ag_syncErr := uploadErr\<rparr>
                        | Some err \<Rightarrow> a\<lparr>ag_syncErr := uploadErr\<rparr>
                        | None \<Rightarrow> a\<lparr>ag_syncErr := None, ag_lastSync := Some now\<rparr>);
                   a = (case overviewErr of
                          Some err \<Rightarrow> a\<lparr>ag_overviewErr := overviewErr\<rparr>
                        | None \<Rightarrow> if uploadErr = None then a\<lparr>ag_overviewErr := None\<rparr> else a)
               in (uploadErr, a, s, w))"

text \<open>The wait before the next attempt of the sync loop.\<close>

definition syncInterval :: duration where "syncInterval = 30 * second"
definition maxSyncBackoff :: duration where "maxSyncBackoff = 10 * minute"

definition next_backoff :: "client_error option \<Rightarrow> duration \<Rightarrow> duration" where
  "next_backoff err backoff = (case err of Some _ \<Rightarrow> min (backoff * 2) maxSyncBackoff | None \<Rightarrow> syncInterval)"

section \<open>Calls of the user\<close>

text \<open>A call on behalf of the user needs a server that was joined and has not revoked the device.\<close>

definition with_client ::
  "agent_state \<Rightarrow> (string \<Rightarrow> 'w \<Rightarrow> (client_error + 'a) \<times> 'w) \<Rightarrow> 'w \<Rightarrow> (client_error + 'a) \<times> 'w" where
  "with_client a call w =
     (case ag_token a of
        None \<Rightarrow> (Inl ErrNotJoined, w)
      | Some token \<Rightarrow> if ag_revoked a then (Inl ErrRevoked, w) else call token w)"

definition Agent_LeaveAccount :: "'w transport \<Rightarrow> string \<Rightarrow> agent_state \<Rightarrow> 'w \<Rightarrow> client_error option \<times> agent_state \<times> 'w" where
  "Agent_LeaveAccount transport accountID a w =
     (case with_client a (\<lambda>token. Client_LeaveAccount transport token accountID) w of
        (Inl err, w) \<Rightarrow> (Some err, a, w)
      | (Inr _, w) \<Rightarrow> (None, a\<lparr>ag_overview := map_option (\<lambda>v. v\<lparr>ov_Accounts :=
            filter (\<lambda>ao. ao_ID ao \<noteq> accountID) (ov_Accounts v)\<rparr>) (ag_overview a)\<rparr>, w))"

section \<open>What an upload does\<close>

text \<open>The outbox is cut into batches, each one request; \<open>deliver\<close> sends them until one fails.\<close>

function chunks :: "nat \<Rightarrow> 'a list \<Rightarrow> 'a list list" where
  "chunks n xs = (if xs = [] \<or> n = 0 then [] else take n xs # chunks n (drop n xs))"
  by pat_completeness auto
termination by (relation "measure (\<lambda>(n, xs). length xs)") auto

declare chunks.simps [simp del]

definition request_of :: "outbox_item list \<Rightarrow> sync_request" where
  "request_of items = \<lparr>rq_Version = 0,
     rq_Observations = concat (map (\<lambda>i. case ox_Payload i of PayloadObservation x \<Rightarrow> [x] | _ \<Rightarrow> []) items),
     rq_Events = concat (map (\<lambda>i. case ox_Payload i of PayloadEvent x \<Rightarrow> [x] | _ \<Rightarrow> []) items),
     rq_Snapshots = concat (map (\<lambda>i. case ox_Payload i of PayloadSnapshot x \<Rightarrow> [x] | _ \<Rightarrow> []) items),
     rq_LimitEvents = concat (map (\<lambda>i. case ox_Payload i of PayloadLimit x \<Rightarrow> [x] | _ \<Rightarrow> []) items)\<rparr>"

fun deliver ::
  "(sync_request \<Rightarrow> 'w \<Rightarrow> (client_error + sync_response) \<times> 'w) \<Rightarrow> sync_request list \<Rightarrow> 'w \<Rightarrow> client_error option \<times> nat \<times> 'w" where
  "deliver sync [] w = (None, 0, w)"
| "deliver sync (r # rs) w =
     (case sync r w of
        (Inl err, w) \<Rightarrow> (Some err, 0, w)
      | (Inr _, w) \<Rightarrow> (let (err, n, w) = deliver sync rs w in (err, Suc n, w)))"

lemma kinds: "KindObservation \<noteq> KindEvent" "KindObservation \<noteq> KindSnapshot" "KindObservation \<noteq> KindLimitEvent"
  "KindEvent \<noteq> KindSnapshot" "KindEvent \<noteq> KindLimitEvent" "KindSnapshot \<noteq> KindLimitEvent"
  by (simp_all add: KindObservation_def KindEvent_def KindSnapshot_def KindLimitEvent_def)

lemma batchRequest_ok:
  assumes "\<forall>i \<in> set items. ox_Kind i = payload_kind (ox_Payload i)"
  shows "batchRequest items = Inr (request_of items)"
proof -
  have "fold_tx add_item items req = Inr (req
      \<lparr>rq_Observations := rq_Observations req @ rq_Observations (request_of items),
       rq_Events := rq_Events req @ rq_Events (request_of items),
       rq_Snapshots := rq_Snapshots req @ rq_Snapshots (request_of items),
       rq_LimitEvents := rq_LimitEvents req @ rq_LimitEvents (request_of items)\<rparr>)" for req
    using assms
  proof (induction items arbitrary: req)
    case Nil
    then show ?case by (simp add: request_of_def)
  next
    case (Cons i items)
    then show ?case
      by (cases "ox_Payload i") (simp_all add: add_item_def kinds kinds[symmetric] request_of_def)
  qed
  then show ?thesis by (simp add: batchRequest_def empty_request_def request_of_def)
qed

lemma outbox_sorted:
  assumes "outbox_ok s"
  shows "PendingOutbox n s = take n (ld_outbox s)"
    "take n (ld_outbox s) \<noteq> [] \<Longrightarrow>
       ld_outbox (DeleteOutboxThrough (ox_ID (last (take n (ld_outbox s)))) s) = drop n (ld_outbox s)"
proof -
  have sorted: "sorted_wrt (\<lambda>a b. ox_ID a < ox_ID b) (ld_outbox s)"
    using assms by (simp add: outbox_ok_def sorted_wrt_map)
  have weak: "sorted_wrt (\<lambda>a b. \<not> ox_ID b < ox_ID a) (ld_outbox s)"
    using sorted by (rule sorted_wrt_mono_rel[rotated]) auto
  have before: "strict_weak.before (\<lambda>a b. ox_ID a < ox_ID b) = (\<lambda>a b. \<not> ox_ID b < ox_ID a)"
    by (intro ext) (simp add: strict_weak.before_def[OF strict_weak_key[of ox_ID]])
  have "sort_by (\<lambda>a b. ox_ID a < ox_ID b) (ld_outbox s) = ld_outbox s"
    by (rule strict_weak.sort_by_sorted[OF strict_weak_key[of ox_ID]]) (unfold before, rule weak)
  then show "PendingOutbox n s = take n (ld_outbox s)" by (simp add: PendingOutbox_def)
  assume ne: "take n (ld_outbox s) \<noteq> []"
  have le: "\<forall>x \<in> set xs. ox_ID x \<le> ox_ID (last xs)" if "sorted_wrt (\<lambda>a b. ox_ID a < ox_ID b) xs" for xs
    using that by (induction xs) (auto simp: less_imp_le)
  have "\<forall>x \<in> set (take n (ld_outbox s)). ox_ID x \<le> ox_ID (last (take n (ld_outbox s)))"
    using sorted by (intro le sorted_wrt_take)
  moreover have "\<forall>x \<in> set (drop n (ld_outbox s)). \<not> ox_ID x \<le> ox_ID (last (take n (ld_outbox s)))"
    using sorted last_in_set[OF ne] sorted_wrt_append[of "\<lambda>a b. ox_ID a < ox_ID b" "take n (ld_outbox s)" "drop n (ld_outbox s)"]
    by (auto simp: not_le)
  ultimately have "filter (\<lambda>x. \<not> ox_ID x \<le> ox_ID (last (take n (ld_outbox s)))) (take n (ld_outbox s) @ drop n (ld_outbox s)) =
      drop n (ld_outbox s)" by (simp add: filter_id_conv del: append_take_drop_id)
  then show "ld_outbox (DeleteOutboxThrough (ox_ID (last (take n (ld_outbox s)))) s) = drop n (ld_outbox s)"
    by (simp add: DeleteOutboxThrough_def)
qed

lemma upload_batches:
  assumes "local_ok s"
  shows "upload sync s w = (let (err, n, w') = deliver sync (map request_of (chunks batchSize (ld_outbox s))) w
    in (err, s\<lparr>ld_outbox := drop (n * batchSize) (ld_outbox s)\<rparr>, w'))"
  using assms
proof (induction sync s w rule: upload.induct)
  case (1 sync s w)
  have box: "outbox_ok s" using "1.prems" by (simp add: local_ok_def)
  note pend = outbox_sorted[OF box, of batchSize]
  show ?case
  proof (cases "ld_outbox s = []")
    case True
    then show ?thesis by (simp add: upload.simps pend(1) chunks.simps Let_def)
  next
    case False
    then have ne: "take batchSize (ld_outbox s) \<noteq> []" by (simp add: batchSize_def)
    have req: "batchRequest (take batchSize (ld_outbox s)) = Inr (request_of (take batchSize (ld_outbox s)))"
      using box by (intro batchRequest_ok) (auto simp: outbox_ok_def dest: in_set_takeD)
    have chunk: "chunks batchSize (ld_outbox s) = take batchSize (ld_outbox s) # chunks batchSize (drop batchSize (ld_outbox s))"
      using False by (subst chunks.simps) (simp add: batchSize_def)
    obtain res w1 where sync: "sync (request_of (take batchSize (ld_outbox s))) w = (res, w1)"
      by (cases "sync (request_of (take batchSize (ld_outbox s))) w")
    show ?thesis
    proof (cases res)
      case (Inl err)
      with ne req chunk sync show ?thesis by (subst upload.simps) (simp add: pend(1) Let_def)
    next
      case (Inr r)
      let ?s' = "DeleteOutboxThrough (ox_ID (last (take batchSize (ld_outbox s)))) s"
      have "upload sync ?s' w1 = (let (err, n, w') = deliver sync (map request_of (chunks batchSize (ld_outbox ?s'))) w1
          in (err, ?s'\<lparr>ld_outbox := drop (n * batchSize) (ld_outbox ?s')\<rparr>, w'))"
        by (rule "1.IH"[of "take batchSize (ld_outbox s)" "request_of (take batchSize (ld_outbox s))" res w1 r])
          (use ne req sync Inr "1.prems" in \<open>simp_all add: pend(1) DeleteOutboxThrough_ok\<close>)
      moreover have "drop (n * batchSize) (drop batchSize (ld_outbox s)) = drop (Suc n * batchSize) (ld_outbox s)" for n
        by (simp add: add.commute)
      moreover have "?s'\<lparr>ld_outbox := xs\<rparr> = s\<lparr>ld_outbox := xs\<rparr>" for xs by (simp add: DeleteOutboxThrough_def)
      ultimately show ?thesis using ne req chunk sync Inr
        by (subst upload.simps) (simp add: pend Let_def case_prod_beta')
    qed
  qed
qed

text \<open>
  C5. An upload sends the outbox in batches of 500 in the order of its rows, one request each,
  until the outbox is empty or a request fails; then exactly the batches the server accepted are
  gone from the outbox, nothing else of the local database has changed, and the rest waits for
  the next attempt. It always ends, after at most as many requests as there are batches.
\<close>

theorem upload_refines:
  assumes "client_step\<^sup>*\<^sup>* empty_local s"
  shows "upload sync s w = (let (err, n, w') = deliver sync (map request_of (chunks batchSize (ld_outbox s))) w
    in (err, s\<lparr>ld_outbox := drop (n * batchSize) (ld_outbox s)\<rparr>, w'))"
  by (rule upload_batches) (rule local_db.ok_reachable[OF assms])

definition demo_local :: local_db where
  "demo_local = fst (IngestFile ''a.jsonl'' \<lparr>fs_Size = 9, fs_ModTime = 5\<rparr> demo_log [] [] empty_local)"

lemma demo_local_reachable: "client_step\<^sup>*\<^sup>* empty_local demo_local"
  unfolding demo_local_def by (intro r_into_rtranclp client_step.ingest_file)

lemma upload_refines_witness:
  "upload (\<lambda>req n. (Inr \<lparr>rp_Accepted = 0, rp_Diverged = 0\<rparr>, n + length (rq_Events req))) demo_local (0 :: nat) =
     (None, demo_local\<lparr>ld_outbox := []\<rparr>, 2)"
proof -
  have "deliver (\<lambda>req n. (Inr \<lparr>rp_Accepted = 0, rp_Diverged = 0\<rparr>, n + length (rq_Events req)))
      (map request_of (chunks batchSize (ld_outbox demo_local))) (0 :: nat) = (None, 1, 2)"
    "drop batchSize (ld_outbox demo_local) = []" by code_simp+
  then show ?thesis by (simp add: upload_refines[OF demo_local_reachable])
qed

section \<open>From the outbox to the server's ledger\<close>

text \<open>The world of an upload to the server itself: its database and the number of requests so far.\<close>

definition direct :: "(nat \<Rightarrow> api_env) \<Rightarrow> (db \<times> nat) transport" where
  "direct envs req w =
     (let (r, s) = serve (envs (snd w)) req (fst w) in (if as_Status r = 0 then None else Some r, s, snd w + 1))"

abbreviation request_keys :: "db \<Rightarrow> string set" where
  "request_keys s \<equiv> ur_DedupeKey ` set (db_usage s)"

definition nameless :: "sync_event \<Rightarrow> bool" where
  "nameless e \<longleftrightarrow> se_AccountRefHash e = [] \<or> se_DedupeKey e = []"

lemma save_event_keys:
  assumes "save_event d i e s = Inr (n, t)"
  shows "request_keys t = insert (se_DedupeKey e) (request_keys s)"
proof -
  have keys: "ur_DedupeKey ` set (update_where p (upsert_usage x) us) = ur_DedupeKey ` set us" for p x us
    by (rule image_update_where) (simp add: upsert_usage_def)
  show ?thesis
  proof (cases "list_ex (\<lambda>u. ur_DedupeKey u = se_DedupeKey e) (db_usage s)")
    case True
    then have "se_DedupeKey e \<in> request_keys s" unfolding list_ex_iff by (metis image_eqI)
    moreover have "request_keys t = request_keys s"
      using assms True by (simp add: save_event_def Let_def) (metis db.select_convs(7) db.surjective db.update_convs(7) keys)
    ultimately show ?thesis by auto
  next
    case False
    then have "t = s\<lparr>db_usage := db_usage s @ [usage_row_of d i e]\<rparr>"
      using assms by (simp add: save_event_def Let_def split: if_splits)
    then show ?thesis by (simp add: usage_row_of_def)
  qed
qed

lemma classify_keys: "request_keys (move_event d i e s) = request_keys s" "request_keys (reclassify_event d e s) = request_keys s"
  by (simp_all add: move_event_def reclassify_event_def image_update_where)

lemma ensure_usage: "ensure newID p pr h hint plan at' st = Inr (i, st') \<Longrightarrow> db_usage (in_db st') = db_usage (in_db st)"
  by (auto simp: ensure_def ensureAccount_def Let_def split: option.splits sum.splits if_splits)

lemma ingest_event_keys:
  assumes "ingest_event newID d e st = Inr st'"
  shows "request_keys (in_db st) \<subseteq> request_keys (in_db st')" "nameless e \<or> se_DedupeKey e \<in> request_keys (in_db st')"
proof -
  have "nameless e \<and> st' = st \<or> request_keys (in_db st') = insert (se_DedupeKey e) (request_keys (in_db st))"
  proof (cases "nameless e")
    case True
    then show ?thesis using assms by (auto simp: ingest_event_def nameless_def)
  next
    case False
    obtain i st2 where ens: "ensure newID (dev_PersonID d) (se_Provider e) (se_AccountRefHash e) [] [] zero_time st = Inr (i, st2)"
      using assms False by (auto simp: ingest_event_def nameless_def split: sum.splits)
    obtain n v where v: "save_event d i e (in_db st2) = Inr (n, v)"
      using assms False ens by (auto simp: ingest_event_def nameless_def split: sum.splits)
    let ?v1 = "if se_Gateway e \<noteq> [] then move_event d i e v else v"
    let ?v2 = "if se_ThirdParty e \<or> se_Gateway e \<noteq> [] then reclassify_event d e ?v1 else ?v1"
    have "request_keys ?v1 = request_keys v" by (simp only: classify_keys split: if_split) simp
    then have "request_keys ?v2 = request_keys v" by (simp only: classify_keys split: if_split) simp
    moreover have "in_db st' = ?v2"
      using assms False unfolding ingest_event_def nameless_def by (simp only: ens v Let_def sum.case prod.case) auto
    ultimately have "request_keys (in_db st') = request_keys v" by simp
    then show ?thesis using save_event_keys[OF v] by (simp add: ensure_usage[OF ens])
  qed
  then show "request_keys (in_db st) \<subseteq> request_keys (in_db st')" "nameless e \<or> se_DedupeKey e \<in> request_keys (in_db st')"
    by auto
qed

lemma ingest_events_keys:
  "fold_tx (ingest_event newID d) es st = Inr st' \<Longrightarrow> request_keys (in_db st) \<subseteq> request_keys (in_db st') \<and>
     (\<forall>e \<in> set es. nameless e \<or> se_DedupeKey e \<in> request_keys (in_db st'))"
proof (induction es arbitrary: st)
  case (Cons e es)
  then obtain st1 where st1: "ingest_event newID d e st = Inr st1" "fold_tx (ingest_event newID d) es st1 = Inr st'"
    by (auto split: sum.splits)
  note k = ingest_event_keys[OF st1(1)] and rest = Cons.IH[OF st1(2)]
  have "request_keys (in_db st) \<subseteq> request_keys (in_db st')" using k(1) rest by (meson order_trans)
  moreover have "nameless e \<or> se_DedupeKey e \<in> request_keys (in_db st')" using k(2) rest by (meson subsetD)
  ultimately show ?case using rest by simp
qed simp

lemma Ingest_keys:
  assumes "Ingest newID d req s = Inr (resp, t)"
  shows "request_keys s \<subseteq> request_keys t" "\<forall>e \<in> set (rq_Events req). nameless e \<or> se_DedupeKey e \<in> request_keys t"
proof -
  obtain st1 st2 st3 st4 where
    f: "fold_tx (ingest_observation newID d) (rq_Observations req) \<lparr>in_db = s, in_accounts = [], in_calls = 0, in_accepted = 0\<rparr> = Inr st1"
    "fold_tx (ingest_event newID d) (rq_Events req) st1 = Inr st2"
    "fold_tx (ingest_snapshot newID d) (rq_Snapshots req) st2 = Inr st3"
    "fold_tx (ingest_limit newID d) (rq_LimitEvents req) st3 = Inr st4" "t = in_db st4"
    using assms by (auto simp: Ingest_def Let_def split: sum.splits)
  have "db_usage (in_db st1) = db_usage s"
    using fold_tx_keeps[OF f(1), where I = "\<lambda>st. db_usage (in_db st) = db_usage s"]
    by (fastforce simp: ingest_observation_def Let_def ensure_usage split: sum.splits if_splits)
  moreover have "db_usage (in_db st3) = db_usage (in_db st2)"
    using fold_tx_keeps[OF f(3), where I = "\<lambda>st. db_usage (in_db st) = db_usage (in_db st2)"]
    by (fastforce simp: ingest_snapshot_def Let_def ensure_usage split: sum.splits if_splits)
  moreover have "db_usage (in_db st4) = db_usage (in_db st3)"
    using fold_tx_keeps[OF f(4), where I = "\<lambda>st. db_usage (in_db st) = db_usage (in_db st3)"]
    by (fastforce simp: ingest_limit_def Let_def ensure_usage split: sum.splits if_splits)
  ultimately show "request_keys s \<subseteq> request_keys t" "\<forall>e \<in> set (rq_Events req). nameless e \<or> se_DedupeKey e \<in> request_keys t"
    using ingest_events_keys[OF f(2)] by (simp_all add: f(5))
qed

lemma sync_call_keys:
  assumes "Client_Sync (direct envs) token req w = (Inr res, w')"
  shows "request_keys (fst w) \<subseteq> request_keys (fst w')"
    "\<forall>e \<in> set (rq_Events req). bad_event e \<or> nameless e \<or> se_DedupeKey e \<in> request_keys (fst w')"
proof -
  define env where "env = envs (snd w)"
  define body where "body = Some (req\<lparr>rq_Version := Version\<rparr>)"
  obtain r s where call: "serve env (SyncBatch (bearer token) body) (fst w) = (r, s)"
    by (cases "serve env (SyncBatch (bearer token) body) (fst w)")
  have ok: "as_Status r = StatusOK \<and> fst w' = s"
    using assms call
    by (auto simp: Client_Sync_def do_call_def direct_def env_def body_def split: if_splits)
  note rs = call ok[THEN conjunct1] ok[THEN conjunct2]
  obtain tok d s1 where d: "DeviceByToken (en_sha env) (en_now env) tok (fst w) = Inr (d, s1)" "sync_handler env body d s1 = (r, s)"
    using rs(1,2) by (cases rule: authed_cases[of env "bearer token" "sync_handler env body" "fst w"]) (auto simp: serve_def)
  define sent where "sent = clampFuture (dropInvalid (req\<lparr>rq_Version := Version\<rparr>)) (en_now env)"
  obtain resp where ing: "Ingest (en_ids env) (sd_Device d) sent s1 = Inr (resp, s)"
    using d(2) rs(2) by (auto simp: sync_handler_def body_def sent_def Let_def supported_def Version_def internalError_def
        writeError_def writeJSON_def statuses split: sum.splits)
  note keys = Ingest_keys[OF ing]
  show "request_keys (fst w) \<subseteq> request_keys (fst w')"
    using keys(1) DeviceByToken_device(3)[OF d(1)] by (simp add: rs(3))
  have "bad_event e \<or> nameless e \<or> se_DedupeKey e \<in> request_keys s" if "e \<in> set (rq_Events req)" for e
  proof (cases "bad_event e")
    case False
    then have "e\<lparr>se_OccurredAt := clamp (en_now env) (se_OccurredAt e)\<rparr> \<in> set (rq_Events sent)"
      using that by (auto simp: sent_def clampFuture_def dropInvalid_def)
    with keys(2) show ?thesis by (auto simp: nameless_def)
  qed simp
  then show "\<forall>e \<in> set (rq_Events req). bad_event e \<or> nameless e \<or> se_DedupeKey e \<in> request_keys (fst w')"
    by (simp add: rs(3))
qed

lemma deliver_keys:
  assumes "deliver (Client_Sync (direct envs) token) reqs w = (None, n, w')"
  shows "n = length reqs \<and> request_keys (fst w) \<subseteq> request_keys (fst w') \<and>
    (\<forall>r \<in> set reqs. \<forall>e \<in> set (rq_Events r). bad_event e \<or> nameless e \<or> se_DedupeKey e \<in> request_keys (fst w'))"
  using assms
proof (induction reqs arbitrary: w n)
  case (Cons r reqs)
  obtain res w1 m where w1: "Client_Sync (direct envs) token r w = (Inr res, w1)"
      "deliver (Client_Sync (direct envs) token) reqs w1 = (None, m, w')" "n = Suc m"
    using Cons.prems by (auto simp: Let_def case_prod_beta' prod_eq_iff split: sum.splits prod.splits)
  note rest = Cons.IH[OF w1(2)] and here = sync_call_keys[OF w1(1)]
  have "request_keys (fst w) \<subseteq> request_keys (fst w')" using here(1) rest by (meson order_trans)
  moreover have "\<forall>e \<in> set (rq_Events r). bad_event e \<or> nameless e \<or> se_DedupeKey e \<in> request_keys (fst w')"
    using here(2) rest by (meson subsetD)
  ultimately show ?case using rest by (simp add: w1(3))
qed simp

lemma chunks_Nil [simp]: "chunks n [] = []"
  by (simp add: chunks.simps)

lemma chunks_cover: "0 < n \<Longrightarrow> concat (chunks n xs) = xs"
proof (induction n xs rule: chunks.induct)
  case (1 n xs)
  then show ?case by (cases "xs = []") (simp_all add: chunks.simps[of n xs])
qed

lemma chunks_length: "0 < n \<Longrightarrow> length xs \<le> length (chunks n xs) * n"
proof (induction n xs rule: chunks.induct)
  case (1 n xs)
  then show ?case by (cases "xs = []") (simp_all add: chunks.simps[of n xs])
qed

lemma upload_reaches:
  assumes "local_ok s" "upload (Client_Sync (direct envs) token) s w = (None, s', w')"
  shows "ld_outbox s' = []" "request_keys (fst w) \<subseteq> request_keys (fst w')"
    "\<And>it e. it \<in> set (ld_outbox s) \<Longrightarrow> ox_Payload it = PayloadEvent e \<Longrightarrow> bad_event e \<or> nameless e \<or> se_DedupeKey e \<in> request_keys (fst w')"
proof -
  define reqs where "reqs = map request_of (chunks batchSize (ld_outbox s))"
  obtain err n v where del: "deliver (Client_Sync (direct envs) token) reqs w = (err, n, v)"
    by (cases "deliver (Client_Sync (direct envs) token) reqs w")
  with assms(2) have parts: "err = None" "v = w'" "s' = s\<lparr>ld_outbox := drop (n * batchSize) (ld_outbox s)\<rparr>"
    by (simp_all add: upload_batches[OF assms(1)] flip: reqs_def)
  note keys = deliver_keys[OF del[unfolded parts]]
  then show "request_keys (fst w) \<subseteq> request_keys (fst w')" by blast
  have "length (ld_outbox s) \<le> n * batchSize"
    using chunks_length[of batchSize "ld_outbox s"] keys by (simp add: reqs_def batchSize_def)
  then show "ld_outbox s' = []" by (simp add: parts(3))
  fix it e assume it: "it \<in> set (ld_outbox s)" "ox_Payload it = PayloadEvent e"
  have "it \<in> set (concat (chunks batchSize (ld_outbox s)))" using it(1) by (simp add: chunks_cover batchSize_def)
  then obtain items where "items \<in> set (chunks batchSize (ld_outbox s))" "it \<in> set items" by auto
  moreover from this it(2) have "e \<in> set (rq_Events (request_of items))" by (force simp: request_of_def)
  ultimately show "bad_event e \<or> nameless e \<or> se_DedupeKey e \<in> request_keys (fst w')" using keys by (force simp: reqs_def)
qed

lemma overview_keeps_usage:
  assumes "Client_Overview (direct envs) token today w = (r, w')" shows "db_usage (fst w') = db_usage (fst w)"
proof -
  obtain resp t where call: "serve (envs (snd w)) (ReadOverview (bearer token) today) (fst w) = (resp, t)" by fastforce
  then have w': "fst w' = t" using assms by (auto simp: Client_Overview_def do_call_def direct_def split: if_splits)
  have "db_usage t = db_usage (fst w)"
    using call by (cases rule: authed_cases[of "envs (snd w)" "bearer token" "overview_handler (envs (snd w)) today" "fst w"])
      (auto simp: serve_def overview_handler_def Let_def internalError_def writeError_def writeJSON_def
        dest!: DeviceByToken_device(3) split: sum.splits option.splits if_splits prod.splits)
  then show ?thesis by (simp add: w')
qed

text \<open>
  C4. A finished upload has delivered everything: when uploading to the server ends without an
  error, the outbox is empty and every request that was queued, but for one out of the range a
  real client can produce or without an account or key, is in the server's ledger under its key.
\<close>

theorem upload_delivers:
  assumes "client_step\<^sup>*\<^sup>* empty_local s" "upload (Client_Sync (direct envs) token) s w = (None, s', w')"
  shows "ld_outbox s' = [] \<and>
    list_all (\<lambda>it. case ox_Payload it of
      PayloadEvent e \<Rightarrow> bad_event e \<or> nameless e \<or> list_ex (\<lambda>u. ur_DedupeKey u = se_DedupeKey e) (db_usage (fst w'))
    | _ \<Rightarrow> True) (ld_outbox s)"
proof -
  note sent = upload_reaches[OF local_db.ok_reachable[OF assms(1)] assms(2)]
  then have "list_all (\<lambda>it. case ox_Payload it of
      PayloadEvent e \<Rightarrow> bad_event e \<or> nameless e \<or> list_ex (\<lambda>u. ur_DedupeKey u = se_DedupeKey e) (db_usage (fst w'))
    | _ \<Rightarrow> True) (ld_outbox s)"
    unfolding list_all_iff list_ex_iff by (auto split: payload.split) (metis imageE)
  then show ?thesis using sent(1) by blast
qed

lemma upload_delivers_witness:
  "\<exists>s' w'. upload (Client_Sync (direct (\<lambda>_. demo_env)) ''t1'') demo_local (db3, 0) = (None, s', w') \<and> ld_outbox s' = [] \<and>
     list_ex (\<lambda>u. ur_DedupeKey u = ''k1'') (db_usage (fst w'))"
proof -
  have "fst (upload (Client_Sync (direct (\<lambda>_. demo_env)) ''t1'') demo_local (db3, 0)) = None" by code_simp
  then obtain s' w' where up: "upload (Client_Sync (direct (\<lambda>_. demo_env)) ''t1'') demo_local (db3, 0) = (None, s', w')"
    by (metis prod.collapse)
  have "list_ex (\<lambda>it. case ox_Payload it of PayloadEvent e \<Rightarrow> \<not> bad_event e \<and> \<not> nameless e \<and> se_DedupeKey e = ''k1'' | _ \<Rightarrow> False)
      (ld_outbox demo_local)" by code_simp
  then obtain it where it: "it \<in> set (ld_outbox demo_local)" "case ox_Payload it of
      PayloadEvent e \<Rightarrow> \<not> bad_event e \<and> \<not> nameless e \<and> se_DedupeKey e = ''k1'' | _ \<Rightarrow> False"
    by (auto simp: list_ex_iff)
  then obtain e where e: "ox_Payload it = PayloadEvent e" "\<not> bad_event e" "\<not> nameless e" "se_DedupeKey e = ''k1''"
    by (cases "ox_Payload it") simp_all
  note both = upload_delivers[OF demo_local_reachable up]
  from both it(1) have "case ox_Payload it of PayloadEvent e \<Rightarrow>
      bad_event e \<or> nameless e \<or> list_ex (\<lambda>u. ur_DedupeKey u = se_DedupeKey e) (db_usage (fst w')) | _ \<Rightarrow> True"
    unfolding list_all_iff by blast
  with e have "list_ex (\<lambda>u. ur_DedupeKey u = ''k1'') (db_usage (fst w'))" by simp
  with both up show ?thesis by blast
qed

section \<open>A revoked device\<close>

text \<open>
  A revoked device stops: the first upload the server refuses leaves the outbox and the
  server as they are and marks the device revoked, and from then on it sends nothing.
\<close>

theorem revoked_device_stops:
  assumes "client_step\<^sup>*\<^sup>* empty_local s" "ld_outbox s \<noteq> []" "ag_token a = Some token" "\<not> ag_revoked a"
    "\<not> issued (envs n) token d"
  shows "\<exists>a'. syncOnce (direct envs) today now a s (d, n) = (Some ErrRevoked, a', s, (d, Suc n)) \<and> ag_revoked a' \<and>
    syncOnce (direct envs') today' now' a' s (d, Suc n) = (None, a', s, (d, Suc n))"
proof -
  obtain req reqs where reqs: "map request_of (chunks batchSize (ld_outbox s)) = req # reqs"
    using assms(2) by (subst (asm) chunks.simps) (simp add: batchSize_def)
  have "\<not> issued (envs n) tok d" if "bearer token = ''Bearer '' @ tok" for tok
    using that assms(5) by (auto simp: bearer_def split: if_splits)
  then have "as_Status (fst (authed (envs n) (bearer token) h d)) = StatusUnauthorized \<and> snd (authed (envs n) (bearer token) h d) = d" for h
    by (rule authed_refuses)
  then have "Client_Sync (direct envs) token req (d, n) = (Inl ErrRevoked, (d, Suc n))"
    by (simp add: Client_Sync_def do_call_def direct_def serve_def case_prod_beta' Let_def error_of_def statuses)
  then have up: "upload (Client_Sync (direct envs) token) s (d, n) = (Some ErrRevoked, s, (d, Suc n))"
    by (simp add: upload_batches[OF local_db.ok_reachable[OF assms(1)]] reqs)
  then show ?thesis using assms(3,4) by (simp add: syncOnce_def Let_def)
qed

definition demo_agent :: agent_state where
  "demo_agent = \<lparr>ag_token = Some ''t1'', ag_revoked = False, ag_syncErr = None, ag_overviewErr = None, ag_lastSync = None,
     ag_overview = None\<rparr>"

lemma revoked_device_stops_witness:
  "\<exists>a'. syncOnce (direct (\<lambda>_. demo_env)) [] 9 demo_agent demo_local (db2, 0) = (Some ErrRevoked, a', demo_local, (db2, Suc 0)) \<and> ag_revoked a'"
proof -
  have "ld_outbox demo_local \<noteq> []" "ag_token demo_agent = Some ''t1''" "\<not> ag_revoked demo_agent" "\<not> issued demo_env ''t1'' db2"
    by code_simp+
  from revoked_device_stops[OF demo_local_reachable this(1-3), where envs = "\<lambda>_. demo_env" and n = 0, OF this(4)] show ?thesis by blast
qed

text \<open>
  With nothing to upload, a refused overview is a failed refresh alone: the device does not
  learn that it was revoked.
\<close>

lemma idle_device_not_marked:
  assumes "client_step\<^sup>*\<^sup>* empty_local s" "ld_outbox s = []" "ag_token a = Some token" "\<not> ag_revoked a" "\<not> issued (envs n) token d"
  shows "\<exists>a'. syncOnce (direct envs) today now a s (d, n) = (None, a', s, (d, Suc n)) \<and> \<not> ag_revoked a' \<and>
    ag_overviewErr a' = Some ErrRevoked"
proof -
  have "\<not> issued (envs n) tok d" if "bearer token = ''Bearer '' @ tok" for tok
    using that assms(5) by (auto simp: bearer_def split: if_splits)
  then have "as_Status (fst (authed (envs n) (bearer token) h d)) = StatusUnauthorized \<and> snd (authed (envs n) (bearer token) h d) = d" for h
    by (rule authed_refuses)
  then have "Client_Overview (direct envs) token today (d, n) = (Inl ErrRevoked, (d, Suc n))"
    by (simp add: Client_Overview_def do_call_def direct_def serve_def case_prod_beta' Let_def error_of_def statuses)
  moreover have "upload (Client_Sync (direct envs) token) s (d, n) = (None, s, (d, n))"
    using assms(2) by (simp add: upload.simps PendingOutbox_def)
  ultimately show ?thesis using assms(3,4) by (simp add: syncOnce_def Let_def)
qed

end
