(* ===== verification/AgentLedger.thy ===== *)
theory AgentLedger
  imports AgentIngest
begin

text \<open>
  What the agent's ledger is a function of, and whose usage it holds: a rebuilt ledger depends
  on the logs and the sign-in timeline alone, and every request in any ledger the agent reaches
  has an account and is not from before its provider was first seen on the device.
\<close>

section \<open>A rebuilt ledger\<close>

definition same_ledger :: "agent \<Rightarrow> agent \<Rightarrow> bool" where
  "same_ledger a b \<longleftrightarrow> ledger_part (ag_Store a) = ledger_part (ag_Store b) \<and>
     ld_observations (ag_Store a) = ld_observations (ag_Store b) \<and> ag_Spool a = ag_Spool b"

lemma loadAccounts_cong: "ld_observations s = ld_observations s' \<Longrightarrow> loadAccounts p s = loadAccounts p s'"
proof -
  assume "ld_observations s = ld_observations s'"
  then have "Observations q src s = Observations q src s'" for q src by (simp add: Observations_def)
  then show ?thesis by (simp add: loadAccounts_def Let_def)
qed

lemma attribute_event_cong:
  assumes "ld_observations s = ld_observations s'"
  shows "attribute_event sha h p s ac = attribute_event sha h p s' ac"
  by (rule ext) (simp add: attribute_event_def Let_def loadAccounts_cong[OF assms])

lemma same_ledger_ingestFile:
  assumes "same_ledger a b"
  shows "rel_sum (=) (\<lambda>(a, _) (b, _). same_ledger a b) (ingestFile sha h p path st ac a) (ingestFile sha h p path st ac b)"
proof (cases "source_parse h p path")
  case None
  then show ?thesis by (simp add: ingestFile_def)
next
  case (Some res)
  have "ld_observations (ag_Store a) = ld_observations (ag_Store b)" using assms by (simp add: same_ledger_def)
  from attribute_event_cong[OF this, of sha h p ac] show ?thesis using Some assms
    by (simp add: ingestFile_def Let_def case_prod_beta' same_ledger_def ledger_part_def IngestFile_tables)
qed

lemma same_ledger_scan_files:
  assumes "same_ledger a b"
  shows "\<exists>err n1 a' n2 b'. scan_files sha h p current ac paths n a = (err, n1, a') \<and>
     scan_files sha h p current ac paths m b = (err, n2, b') \<and> same_ledger a' b'"
  using assms
proof (induction paths arbitrary: n m a b)
  case Nil
  then show ?case by simp
next
  case (Cons path paths)
  from same_ledger_ingestFile[OF Cons.prems, of sha h p path "state_at current path" ac]
  show ?case
  proof (cases rule: rel_sum.cases)
    case (1 e e')
    then show ?thesis using Cons.prems by simp
  next
    case (2 ak bk)
    then show ?thesis using Cons.IH by (cases ak; cases bk) simp
  qed
qed

lemma AddObservation_cong:
  "ld_observations s = ld_observations s' \<Longrightarrow> ld_observations (AddObservation ob s) = ld_observations (AddObservation ob s')"
  by (simp add: AddObservation_def Let_def)

lemma same_ledger_observe: assumes "same_ledger a b" shows "same_ledger (observe h p a) (observe h p b)"
proof -
  have "ld_observations (ag_Store (observe h p a)) = ld_observations (ag_Store (observe h p b))"
  proof (cases "ho_Observe h p")
    case (Seen ob snap)
    then show ?thesis using assms
      by (cases snap) (auto simp: observe_store same_ledger_def intro!: AddObservation_cong)
  qed (use assms in \<open>simp_all add: observe_store same_ledger_def\<close>)
  then show ?thesis using assms by (simp add: same_ledger_def observe_tables)
qed

lemma same_ledger_mark: "same_ledger a b \<Longrightarrow> same_ledger (mark_reviewed p a) (mark_reviewed p b)"
  by (simp add: same_ledger_def ledger_part_def mark_reviewed_def with_store_def MarkAttributionReviewed_def)

text \<open>With no file known, a scan reads every file, whether or not the attribution was reviewed.\<close>

lemma scan_paths_unknown: "scan_paths p [] current s = map fst current"
  by (simp add: scan_paths_def Changed_def has_key_def Let_def)

lemma same_ledger_scanSource:
  assumes "same_ledger a b"
  shows "\<exists>err n a' m b'. scanSource sha h p [] a = (err, n, a') \<and> scanSource sha h p [] b = (err, m, b') \<and> same_ledger a' b'"
proof -
  have ac: "loadAccounts q (ag_Store b) = loadAccounts q (ag_Store a)" for q
    using assms by (intro loadAccounts_cong) (simp add: same_ledger_def)
  show ?thesis
  proof (cases "pooled (loadAccounts p (ag_Store a))")
    case False
    then show ?thesis using assms ac by (simp add: scanSource_def)
  next
    case pooled: True
    show ?thesis
    proof (cases "ho_Listing h p")
      case None
      then show ?thesis using pooled assms ac by (simp add: scanSource_def)
    next
      case (Some current)
      define paths where "paths = map fst current"
      show ?thesis
      proof (cases "paths = []")
        case True
        then show ?thesis using Some pooled ac same_ledger_mark[OF assms]
          by (simp add: scanSource_def scan_paths_unknown flip: paths_def)
      next
        case False
        obtain c a1 b1 where re: "recheck h p [] paths (loadAccounts p (ag_Store a)) a = (c, a1)"
            "recheck h p [] paths (loadAccounts p (ag_Store b)) b = (c, b1)" and same: "same_ledger a1 b1"
        proof -
          have seen: "same_ledger (observe h p a) (observe h p b)" by (rule same_ledger_observe[OF assms])
          then have load: "loadAccounts p (ag_Store (observe h p b)) = loadAccounts p (ag_Store (observe h p a))"
            by (intro loadAccounts_cong) (simp add: same_ledger_def)
          show ?thesis
          proof (cases "recheck h p [] paths (loadAccounts p (ag_Store a)) a = (loadAccounts p (ag_Store a), a) \<and>
              recheck h p [] paths (loadAccounts p (ag_Store b)) b = (loadAccounts p (ag_Store a), b)")
            case True
            then show ?thesis using that assms by blast
          next
            case False
            then have "recheck h p [] paths (loadAccounts p (ag_Store a)) a = (loadAccounts p (ag_Store (observe h p a)), observe h p a)"
                "recheck h p [] paths (loadAccounts p (ag_Store b)) b = (loadAccounts p (ag_Store (observe h p a)), observe h p b)"
              using ac load by (auto simp: recheck_def Let_def split: if_splits)
            then show ?thesis using that seen by blast
          qed
        qed
        note pass = Some pooled ac False re
        show ?thesis
        proof (cases "loadDesktopSessions h c")
          case None
          then show ?thesis using pass same by (simp add: scanSource_def scan_paths_unknown flip: paths_def)
        next
          case (Some c')
          obtain err n1 a2 n2 b2 where "scan_files sha h p current c' paths 0 a1 = (err, n1, a2)"
            "scan_files sha h p current c' paths 0 b1 = (err, n2, b2)" "same_ledger a2 b2"
            using same_ledger_scan_files[OF same] by blast
          then show ?thesis using pass Some same_ledger_mark
            by (cases err) (simp_all add: scanSource_def scan_paths_unknown flip: paths_def)
        qed
      qed
    qed
  qed
qed

lemma same_ledger_rescan:
  assumes "same_ledger a b"
  shows "\<exists>err a' b'. rescan sha h [] ps a = (err, a') \<and> rescan sha h [] ps b = (err, b') \<and> same_ledger a' b'"
  using assms
proof (induction ps arbitrary: a b)
  case Nil
  then show ?case by simp
next
  case (Cons p ps)
  from same_ledger_scanSource[OF Cons.prems] obtain err n a1 m b1 where
    step: "scanSource sha h p [] a = (err, n, a1)" "scanSource sha h p [] b = (err, m, b1)" "same_ledger a1 b1" by blast
  then show ?case using Cons.IH by (cases err) simp_all
qed

lemma CorrectSnapshot_tables:
  "ledger_part (fst (CorrectSnapshot sn s)) = ledger_part s" "ld_observations (fst (CorrectSnapshot sn s)) = ld_observations s"
  by (simp_all add: CorrectSnapshot_def ledger_part_def Let_def split: list.split)

lemma ingest_spooled_tables:
  "ledger_part (fst (ingest_spooled sha ac ra sp acc)) = ledger_part (fst acc)"
  "ld_observations (fst (ingest_spooled sha ac ra sp acc)) = ld_observations (fst acc)"
proof -
  have add: "ledger_part (AddSnapshot sn s) = ledger_part s" for sn s by (simp add: ledger_part_def)
  show "ledger_part (fst (ingest_spooled sha ac ra sp acc)) = ledger_part (fst acc)"
    "ld_observations (fst (ingest_spooled sha ac ra sp acc)) = ld_observations (fst acc)"
    using CorrectSnapshot_tables add
    by (auto simp: ingest_spooled_def Let_def case_prod_beta' split: option.split)
qed

lemma ingestStatusLine_tables:
  "ingestStatusLine sha h a = (err, n, a') \<Longrightarrow>
     ledger_part (ag_Store a') = ledger_part (ag_Store a) \<and> ld_observations (ag_Store a') = ld_observations (ag_Store a)"
  by (auto simp: ingestStatusLine_def Let_def case_prod_beta' fold_tables[of ledger_part] fold_tables[of ld_observations]
      ingest_spooled_tables split: if_splits option.splits)

lemma ingestStatusLine_error:
  assumes "same_ledger a b" shows "fst (ingestStatusLine sha h a) = fst (ingestStatusLine sha h b)"
proof -
  have "loadAccounts ProviderAnthropic (ag_Store b) = loadAccounts ProviderAnthropic (ag_Store a)"
    using assms by (intro loadAccounts_cong) (simp add: same_ledger_def)
  then show ?thesis using assms
    by (simp add: ingestStatusLine_def Let_def case_prod_beta' same_ledger_def split: option.split)
qed

lemma fold_enqueue_tables:
  "ledger_part (fold (\<lambda>r. enqueue k (f r)) rs s) = ledger_part s"
  "ld_observations (fold (\<lambda>r. enqueue k (f r)) rs s) = ld_observations s"
  by (induction rs arbitrary: s) (simp_all add: ledger_part_def)

lemma requeue_tables:
  "ledger_part (requeueObservations s) = ledger_part s" "ld_observations (requeueObservations s) = ld_observations s"
  "ledger_part (requeueSnapshots s) = ledger_part s" "ld_observations (requeueSnapshots s) = ld_observations s"
  by (simp_all add: requeueObservations_def requeueSnapshots_def fold_enqueue_tables)

lemma ResetLedger_tables:
  "ledger_part (ResetLedger s) = ([], [], [])" "ld_observations (ResetLedger s) = ld_observations s"
  "KnownFiles (ResetLedger s) = []"
proof -
  show part: "ledger_part (ResetLedger s) = ([], [], [])" "ld_observations (ResetLedger s) = ld_observations s"
    by (simp_all add: ResetLedger_def requeue_tables) (simp add: ledger_part_def)
  show "KnownFiles (ResetLedger s) = []" using part(1) by (simp add: KnownFiles_def ledger_part_def)
qed

text \<open>
  C7. Rebuilding forgets what the ledger held: on one computer, two ledgers with the same
  sign-in timeline are rebuilt into the same files, requests and limit events, however they
  were attributed before, and fail with the same error if the logs cannot be read.
\<close>

theorem rebuildLedger_forgets:
  assumes "ld_observations (ag_Store a) = ld_observations (ag_Store b)" and "ag_Spool a = ag_Spool b"
    and "rebuildLedger sha h a = (err, n, a')" and "rebuildLedger sha h b = (err', n', b')"
  shows "err' = err \<and> n' = n \<and> ld_events (ag_Store b') = ld_events (ag_Store a') \<and>
    ld_limits (ag_Store b') = ld_limits (ag_Store a') \<and> ld_files (ag_Store b') = ld_files (ag_Store a')"
proof -
  define a0 b0 where "a0 = with_store ResetLedger a" and "b0 = with_store ResetLedger b"
  have "same_ledger a0 b0" using assms(1,2) by (simp add: same_ledger_def a0_def b0_def ResetLedger_tables)
  then obtain e a1 b1 where r: "rescan sha h [] sources a0 = (e, a1)" "rescan sha h [] sources b0 = (e, b1)" "same_ledger a1 b1"
    using same_ledger_rescan by blast
  have known: "KnownFiles (ag_Store a0) = []" "KnownFiles (ag_Store b0) = []"
    by (simp_all add: a0_def b0_def ResetLedger_tables)
  obtain e1 n1 a2 n2 b2 where sl: "ingestStatusLine sha h a1 = (e1, n1, a2)" "ingestStatusLine sha h b1 = (e1, n2, b2)"
    using ingestStatusLine_error[OF r(3), of sha h] by (metis fst_conv surj_pair)
  have part: "ledger_part (ag_Store b2) = ledger_part (ag_Store a2)" "ledger_part (ag_Store b1) = ledger_part (ag_Store a1)"
    using r(3) ingestStatusLine_tables[OF sl(1)] ingestStatusLine_tables[OF sl(2)] by (simp_all add: same_ledger_def)
  then have "EventCount (ag_Store b2) = EventCount (ag_Store a2)" by (simp add: EventCount_def ledger_part_def)
  moreover have "rebuildLedger sha h a = (case e of Some er \<Rightarrow> (Some er, 0, a1)
      | None \<Rightarrow> (case e1 of Some er \<Rightarrow> (Some er, 0, a2) | None \<Rightarrow> (None, EventCount (ag_Store a2), a2)))"
    "rebuildLedger sha h b = (case e of Some er \<Rightarrow> (Some er, 0, b1)
      | None \<Rightarrow> (case e1 of Some er \<Rightarrow> (Some er, 0, b2) | None \<Rightarrow> (None, EventCount (ag_Store b2), b2)))"
    using known r(1,2) sl by (simp_all add: rebuildLedger_def Let_def flip: a0_def b0_def split: option.split)
  ultimately show ?thesis using part assms(3,4) by (auto simp: ledger_part_def split: option.splits)
qed

section \<open>Whose usage the ledger holds\<close>

text \<open>
  A row of an account the device was seen to use, of a provider that had been seen by then. The account is
  one that an observation names, or, for Claude Desktop, whose sessions name organizations instead of sign-ins,
  the account of one of the organizations \<open>D\<close>.
\<close>

definition desktop_orgs :: "host \<Rightarrow> string list" where
  "desktop_orgs h = (case ho_Desktop h of None \<Rightarrow> [] | Some m \<Rightarrow> map snd m)"

definition seen_account :: "(string \<Rightarrow> string) \<Rightarrow> string set \<Rightarrow> local_observation list \<Rightarrow> string \<Rightarrow> bool" where
  "seen_account sha D obs ref \<longleftrightarrow>
     list_ex (\<lambda>x. lo_ref_hash x = ref) obs \<or> (\<exists>org \<in> D. ref = HashExternalRef sha ProviderAnthropic org)"

definition joined_row :: "(string \<Rightarrow> string) \<Rightarrow> string set \<Rightarrow> local_observation list \<Rightarrow> local_event \<Rightarrow> bool" where
  "joined_row sha D obs r \<longleftrightarrow> lv_account_ref_hash r \<noteq> [] \<and> seen_account sha D obs (lv_account_ref_hash r) \<and>
     list_ex (\<lambda>x. lo_provider x = lv_provider r \<and> lo_observed_at x \<le> lv_occurred_at r) obs"

definition joined :: "(string \<Rightarrow> string) \<Rightarrow> string set \<Rightarrow> local_db \<Rightarrow> bool" where
  "joined sha D s \<longleftrightarrow> list_all (joined_row sha D (ld_observations s)) (ld_events s)"

lemma joined_row_mono: "joined_row sha D obs r \<Longrightarrow> set obs \<subseteq> set obs' \<Longrightarrow> joined_row sha D obs' r"
  by (auto simp: joined_row_def seen_account_def list_ex_iff)

lemma joined_mono:
  "joined sha D s \<Longrightarrow> ld_events s' = ld_events s \<Longrightarrow> set (ld_observations s) \<subseteq> set (ld_observations s') \<Longrightarrow> joined sha D s'"
  by (auto simp: joined_def list_all_iff intro: joined_row_mono)

lemma unix_milli_of: "of_unix_milli m \<le> t \<Longrightarrow> m \<le> unix_milli t"
  by (simp add: unix_milli_def of_unix_milli_def)

lemma loadAccounts_simps [simp]:
  "ac_Provider (loadAccounts p s) = p" "ac_Cli (loadAccounts p s) = Observations p SourceCLI s"
  "ac_Desktop (loadAccounts p s) = []"
  by (simp_all add: loadAccounts_def Let_def split: list.split)

lemma loadAccounts_since:
  "ac_DesktopSeen (loadAccounts p s) \<Longrightarrow> \<exists>x \<in> set (ld_observations s). lo_provider x = p \<and> of_unix_milli (lo_observed_at x) = ac_Since (loadAccounts p s)"
proof -
  assume seen: "ac_DesktopSeen (loadAccounts p s)"
  let ?cli = "Observations p SourceCLI s"
  from seen obtain d ds where p: "p = ProviderAnthropic" and d: "Observations p SourceClaudeDesktop s = d # ds"
    by (auto simp: loadAccounts_def Let_def split: list.splits if_splits)
  have since: "ac_Since (loadAccounts p s) = ob_ObservedAt d \<or> (?cli \<noteq> [] \<and> ac_Since (loadAccounts p s) = ob_ObservedAt (hd ?cli))"
    using p d by (cases ?cli) (auto simp: loadAccounts_def Let_def first_seen_def)
  have row: "\<exists>x \<in> set (ld_observations s). lo_provider x = p \<and> of_unix_milli (lo_observed_at x) = ob_ObservedAt y"
    if "y \<in> set (Observations p src s)" for y src
    using that by (auto simp: Observations_set observation_of_def)
  have "d \<in> set (Observations p SourceClaudeDesktop s)" by (simp add: d)
  moreover have "?cli \<noteq> [] \<Longrightarrow> hd ?cli \<in> set ?cli" by simp
  ultimately show ?thesis using since row by metis
qed

text \<open>The accounts as loaded, with or without Claude Desktop's sessions.\<close>

definition loaded :: "string set \<Rightarrow> local_db \<Rightarrow> provider \<Rightarrow> accounts \<Rightarrow> bool" where
  "loaded D s p ac \<longleftrightarrow> (\<exists>m. ac = (loadAccounts p s)\<lparr>ac_Desktop := m\<rparr> \<and> snd ` set m \<subseteq> D \<and> (m = [] \<or> ac_DesktopSeen (loadAccounts p s)))"

lemma loaded_loadAccounts: "loaded D s p (loadAccounts p s)"
  unfolding loaded_def by (rule exI[of _ "[]"]) (simp add: loadAccounts_def Let_def split: list.split)

lemma loaded_sessions: "set (desktop_orgs h) \<subseteq> D \<Longrightarrow> loaded D s p ac \<Longrightarrow> loadDesktopSessions h ac = Some ac' \<Longrightarrow> loaded D s p ac'"
  by (auto simp: loaded_def loadDesktopSessions_def desktop_orgs_def split: if_splits)

lemma loaded_cong: "loaded D s p ac \<Longrightarrow> ld_observations s' = ld_observations s \<Longrightarrow> loaded D s' p ac"
  using loadAccounts_cong[of s s'] by (simp add: loaded_def)

lemma resolve_joined:
  assumes sha: "\<forall>x. sha x \<noteq> []" and ac: "loaded D s p ac" and r: "resolve sha ac sid entry t = Some ref"
  shows "ref \<noteq> [] \<and> seen_account sha D (ld_observations s) ref \<and> list_ex (\<lambda>x. lo_provider x = p \<and> lo_observed_at x \<le> unix_milli t) (ld_observations s)"
proof -
  obtain m where m: "ac = (loadAccounts p s)\<lparr>ac_Desktop := m\<rparr>" "snd ` set m \<subseteq> D" "m = [] \<or> ac_DesktopSeen (loadAccounts p s)"
    using ac by (auto simp: loaded_def)
  show ?thesis
  proof (cases "ac_Provider ac = ProviderAnthropic \<and> FromDesktop entry")
    case True
    with r m obtain org where org: "map_of m sid = Some org" "\<not> t < ac_Since (loadAccounts p s)" "ref = HashExternalRef sha ProviderAnthropic org"
      by (auto simp: resolve_def Let_def split: if_splits option.splits)
    then have "ac_DesktopSeen (loadAccounts p s)" using m(3) by auto
    from loadAccounts_since[OF this] obtain x where "x \<in> set (ld_observations s)" "lo_provider x = p"
      "of_unix_milli (lo_observed_at x) \<le> t" using org(2) by auto
    moreover have "org \<in> D" using m(2) org(1) by (force dest: map_of_SomeD)
    ultimately show ?thesis using unix_milli_of sha org(3) by (auto simp: list_ex_iff seen_account_def HashExternalRef_def)
  next
    case False
    with r m have found: "ResolveAt (Observations p SourceCLI s) p t = (ref, True)" "ref \<noteq> []"
      by (auto simp: resolve_def Let_def split: if_splits prod.splits)
    from ResolveAt_latest[of "Observations p SourceCLI s" p t] found(1)
    obtain x where "x \<in> set (Observations p SourceCLI s)" "ob_ObservedAt x \<le> t" "ob_ExternalRefHash x = ref" by auto
    then obtain y where "y \<in> set (ld_observations s)" "lo_provider y = p" "of_unix_milli (lo_observed_at y) \<le> t" "lo_ref_hash y = ref"
      by (auto simp: Observations_set observation_of_def)
    then show ?thesis using found(2) unix_milli_of by (auto simp: list_ex_iff seen_account_def)
  qed
qed

lemma attribute_event_joined:
  assumes sha: "\<forall>x. sha x \<noteq> []" and ac: "loaded D s p ac" and e: "attribute_event sha h p s ac e = Some e'"
  shows "joined_row sha D (ld_observations s) (event_row e')"
proof -
  define g where "g = check_gateway h e"
  show ?thesis
  proof (cases "ev_Provider g = p")
    case False
    then obtain ref where ref: "resolve sha (loadAccounts (ev_Provider g) s) [] [] (ev_OccurredAt g) = Some ref"
      "e' = g\<lparr>ev_AccountRefHash := ref\<rparr>"
      using e by (auto simp: attribute_event_def Let_def simp flip: g_def)
    from resolve_joined[OF sha loaded_loadAccounts ref(1)] show ?thesis by (simp add: joined_row_def event_row_def ref(2))
  next
    case True
    then obtain sid entry ref where ref: "resolve sha ac sid entry (ev_OccurredAt g) = Some ref"
      "ev_Provider e' = p" "ev_OccurredAt e' = ev_OccurredAt g" "ev_AccountRefHash e' = ref"
      using e by (auto simp: attribute_event_def Let_def simp flip: g_def split: if_splits)
    from resolve_joined[OF sha ac ref(1)] show ?thesis by (simp add: joined_row_def event_row_def ref)
  qed
qed

lemma upsert_event_joined:
  assumes "joined_row sha D obs x" "list_all (joined_row sha D obs) rows"
  shows "list_all (joined_row sha D obs) (fst (upsert_event x rows))"
proof -
  have "joined_row sha D obs (reread x u)" if "joined_row sha D obs u" for u
    using that assms(1) by (simp add: joined_row_def reread_def)
  then show ?thesis using assms by (auto simp: upsert_event_def Let_def list_all_iff set_update_where)
qed

lemma upsert_events_joined:
  assumes "\<forall>x \<in> set xs. joined_row sha D obs x" "list_all (joined_row sha D obs) rows"
  shows "list_all (joined_row sha D obs) (fold (\<lambda>x rows. fst (upsert_event x rows)) xs rows)"
  using assms by (induction xs arbitrary: rows) (simp_all add: upsert_event_joined)

lemma ingestFile_joined:
  assumes sha: "\<forall>x. sha x \<noteq> []" and ac: "loaded D (ag_Store a) p ac"
    and i: "ingestFile sha h p path st ac a = Inr (a', k)" and j: "joined sha D (ag_Store a)"
  shows "joined sha D (ag_Store a') \<and> ld_observations (ag_Store a') = ld_observations (ag_Store a)"
proof -
  obtain res where res: "source_parse h p path = Some res" using i by (auto simp: ingestFile_def split: option.splits)
  define es where "es = List.map_filter (attribute_event sha h p (ag_Store a) ac) (pl_Events res)"
  obtain ss ls where a': "ag_Store a' = fst (IngestFile path st es ss ls (ag_Store a))"
    using i by (auto simp: ingestFile_def res Let_def case_prod_beta' simp flip: es_def)
  have "\<forall>x \<in> set (map event_row es). joined_row sha D (ld_observations (ag_Store a)) x"
    using attribute_event_joined[OF sha ac] by (auto simp: es_def List.map_filter_def)
  then show ?thesis using j upsert_events_joined by (simp add: joined_def a' IngestFile_tables)
qed

lemma scan_files_joined:
  assumes sha: "\<forall>x. sha x \<noteq> []"
  shows "loaded D (ag_Store a) p ac \<Longrightarrow> joined sha D (ag_Store a) \<Longrightarrow>
    joined sha D (ag_Store (snd (snd (scan_files sha h p current ac paths n a))))"
proof (induction paths arbitrary: n a)
  case (Cons path paths)
  show ?case
  proof (cases "ingestFile sha h p path (state_at current path) ac a")
    case (Inl e)
    then show ?thesis using Cons.prems by simp
  next
    case (Inr ak)
    obtain a1 k where ak: "ak = (a1, k)" by (cases ak)
    from ingestFile_joined[OF sha Cons.prems(1) Inr[unfolded ak] Cons.prems(2)]
    have "joined sha D (ag_Store a1)" and "ld_observations (ag_Store a1) = ld_observations (ag_Store a)" by simp_all
    then show ?thesis using Cons.IH loaded_cong[OF Cons.prems(1)] Inr ak by simp
  qed
qed simp

lemma observe_joined: "joined sha D (ag_Store a) \<Longrightarrow> joined sha D (ag_Store (observe h p a))"
  using observe_tables(1)[of h p a] observe_tables(2)[of a h p]
  by (auto intro!: joined_mono[of sha D "ag_Store a"] simp: ledger_part_def)

lemma mark_joined: "joined sha D (ag_Store (mark_reviewed p a)) = joined sha D (ag_Store a)"
  by (simp add: mark_reviewed_def with_store_def MarkAttributionReviewed_def joined_def)

lemma scanSource_joined:
  assumes sha: "\<forall>x. sha x \<noteq> []" and D: "set (desktop_orgs h) \<subseteq> D" and j: "joined sha D (ag_Store a)"
  shows "joined sha D (ag_Store (snd (snd (scanSource sha h p known a))))"
proof (cases "pooled (loadAccounts p (ag_Store a))")
  case False
  then show ?thesis using j by (simp add: scanSource_def)
next
  case pooled: True
  show ?thesis
  proof (cases "ho_Listing h p")
    case None
    then show ?thesis using pooled j by (simp add: scanSource_def)
  next
    case (Some current)
    define paths where "paths = scan_paths p known current (ag_Store a)"
    obtain ac1 a1 where re: "recheck h p known paths (loadAccounts p (ag_Store a)) a = (ac1, a1)" by fastforce
    then have a1: "joined sha D (ag_Store a1)" "loaded D (ag_Store a1) p ac1"
      using j observe_joined loaded_loadAccounts by (auto simp: recheck_def Let_def split: if_splits)
    show ?thesis
    proof (cases "loadDesktopSessions h ac1")
      case None
      then show ?thesis using pooled Some re a1 j by (simp add: scanSource_def mark_joined flip: paths_def)
    next
      case sessions: (Some ac2)
      have "loaded D (ag_Store a1) p ac2" by (rule loaded_sessions[OF D a1(2) sessions])
      from scan_files_joined[OF sha this a1(1), where h = h and current = current and paths = paths and n = 0] show ?thesis
        using pooled Some re sessions j
        by (cases "scan_files sha h p current ac2 paths 0 a1" rule: prod_cases3)
          (auto simp: scanSource_def mark_joined simp flip: paths_def split: option.split)
    qed
  qed
qed

lemma ingestStatusLine_joined: "joined sha D (ag_Store a) \<Longrightarrow> joined sha D (ag_Store (snd (snd (ingestStatusLine sha h a))))"
  using ingestStatusLine_tables[of sha h a]
  by (cases "ingestStatusLine sha h a" rule: prod_cases3) (auto intro: joined_mono simp: ledger_part_def)

lemma scanAll_joined:
  assumes sha: "\<forall>x. sha x \<noteq> []" and D: "set (desktop_orgs h) \<subseteq> D" and j: "joined sha D (ag_Store a)" shows "joined sha D (ag_Store (scanAll sha h a))"
proof -
  have one: "joined sha D (ag_Store (scan_one sha h known p b))" if "joined sha D (ag_Store b)" for known p b
    using scanSource_joined[OF sha D that, of p known]
    by (cases "scanSource sha h p known b" rule: prod_cases3) (simp add: scan_one_def split: option.split)
  have "joined sha D (ag_Store (fold (scan_one sha h known) ps b))" if "joined sha D (ag_Store b)" for known ps b
    using that by (induction ps arbitrary: b) (simp_all add: one)
  from this[OF j, of "KnownFiles (ag_Store a)" sources] ingestStatusLine_joined[of sha D _ h] show ?thesis
    by (cases "ingestStatusLine sha h (fold (scan_one sha h (KnownFiles (ag_Store a))) sources a)" rule: prod_cases3)
      (fastforce simp: scanAll_def Let_def split: option.split)
qed

lemma rescan_joined:
  assumes sha: "\<forall>x. sha x \<noteq> []" and D: "set (desktop_orgs h) \<subseteq> D"
  shows "joined sha D (ag_Store a) \<Longrightarrow> joined sha D (ag_Store (snd (rescan sha h known ps a)))"
proof (induction ps arbitrary: a)
  case (Cons p ps)
  show ?case using scanSource_joined[OF sha D Cons.prems, of p known] Cons.IH
    by (cases "scanSource sha h p known a" rule: prod_cases3) (simp split: option.split)
qed simp

lemma rebuildLedger_joined:
  assumes sha: "\<forall>x. sha x \<noteq> []" and D: "set (desktop_orgs h) \<subseteq> D" shows "joined sha D (ag_Store (snd (snd (rebuildLedger sha h a))))"
proof -
  have "joined sha D (ResetLedger (ag_Store a))" using ResetLedger_tables(1)[of "ag_Store a"] by (simp add: joined_def ledger_part_def)
  then have r: "joined sha D (ag_Store (snd (rescan sha h [] sources (with_store ResetLedger a))))" by (intro rescan_joined[OF sha D]) simp
  show ?thesis using r ingestStatusLine_joined[OF r, of h]
    by (cases "rescan sha h [] sources (with_store ResetLedger a)"; cases "ingestStatusLine sha h (snd (rescan sha h [] sources (with_store ResetLedger a)))" rule: prod_cases3)
      (simp add: rebuildLedger_def ResetLedger_tables split: option.split)
qed

lemma observeAll_joined: "joined sha D (ag_Store a) \<Longrightarrow> joined sha D (ag_Store (observeAll h a))"
proof -
  have "joined sha D (ag_Store (observeDesktop h b))" if "joined sha D (ag_Store b)" for b
  proof -
    have "joined sha D (AddObservation ob (ag_Store b))" for ob
      by (rule joined_mono[OF that]) (simp_all add: AddObservation_grows)
    then show ?thesis using that by (simp add: observeDesktop_def Let_def case_prod_beta' split: option.split)
  qed
  then show "joined sha D (ag_Store a) \<Longrightarrow> joined sha D (ag_Store (observeAll h a))" by (simp add: observeAll_def observe_joined)
qed

section \<open>The agent's life\<close>

text \<open>What happens between the start of the agent and any later moment: passes over the logs,
  sign-ins observed, the ledger rebuilt, uploads accepted, limits probed, sign-ins kept and
  forgotten, and Claude Code's shim writing to the spool, each with the host as it is then.\<close>

inductive agent_step :: "(string \<Rightarrow> string) \<Rightarrow> agent \<Rightarrow> agent \<Rightarrow> bool" for sha where
  scan: "agent_step sha a (scanAll sha h a)"
| observed: "agent_step sha a (observeAll h a)"
| rebuilt: "agent_step sha a (snd (snd (rebuildLedger sha h a)))"
| uploaded: "agent_step sha a (with_store (DeleteOutboxThrough i) a)"
| probed: "agent_step sha a (with_store (AddSnapshot sn) a)"
| linked: "agent_step sha a (with_store (AddClaudeLogin l) a)"
| unlinked: "agent_step sha a (with_store (RemoveClaudeLogin r) a)"
| spooled: "agent_step sha a (a\<lparr>ag_Spool := fst (spool i now (ag_Spool a))\<rparr>)"

definition agent_start :: agent where
  "agent_start = \<lparr>ag_Store = empty_local, ag_Providers = map (\<lambda>p. (p, \<lparr>ps_Provider = p, ps_Status = StatusNotInstalled,
     ps_AccountHint = [], ps_PlanType = [], ps_LastSuccess = None, ps_Error = []\<rparr>)) sources, ag_Spool = []\<rparr>"

text \<open>
  Every one of them works on the database by its own operations alone, and a pass over the logs by those
  that never take anything out of the ledger or the outbox.
\<close>

abbreviation store_steps :: "agent \<Rightarrow> agent \<Rightarrow> bool" where
  "store_steps a b \<equiv> client_step\<^sup>*\<^sup>* (ag_Store a) (ag_Store b)"

inductive log_step :: "local_db \<Rightarrow> local_db \<Rightarrow> bool" where
  mark_reviewed: "log_step s (MarkAttributionReviewed s)"
| add_observation: "log_step s (AddObservation o' s)"
| ingest_file: "log_step s (fst (IngestFile path st es ss ls s))"
| add_snapshot: "log_step s (AddSnapshot sn s)"
| correct_snapshot: "log_step s (fst (CorrectSnapshot sn s))"

abbreviation log_steps :: "agent \<Rightarrow> agent \<Rightarrow> bool" where
  "log_steps a b \<equiv> log_step\<^sup>*\<^sup>* (ag_Store a) (ag_Store b)"

lemma log_client: "log_step s t \<Longrightarrow> client_step s t"
  by (induction rule: log_step.induct) (rule client_step.intros)+

lemma log_clients: "log_step\<^sup>*\<^sup>* s t \<Longrightarrow> client_step\<^sup>*\<^sup>* s t"
  by (rule rtranclp_mono[THEN predicate2D]) (auto intro: log_client)

lemma log_steps_observe: "log_steps a (observe h p a)"
proof (cases "ho_Observe h p")
  case (Seen ob snap)
  have "log_step\<^sup>*\<^sup>* (ag_Store a) (case snap of None \<Rightarrow> ag_Store a | Some sn \<Rightarrow> AddSnapshot sn (ag_Store a))"
    by (cases snap) (simp_all add: r_into_rtranclp log_step.add_snapshot)
  then show ?thesis unfolding observe_store Seen by (simp add: rtranclp.rtrancl_into_rtrancl log_step.add_observation)
qed (simp_all add: observe_store)

lemma log_steps_scan_files: "log_steps a (snd (snd (scan_files sha h p current ac paths n a)))"
proof (induction paths arbitrary: n a)
  case (Cons path paths)
  show ?case
  proof (cases "ingestFile sha h p path (state_at current path) ac a")
    case (Inr ak)
    obtain a1 k where ak: "ak = (a1, k)" by (cases ak)
    obtain es ss ls where "ag_Store a1 = fst (IngestFile path (state_at current path) es ss ls (ag_Store a))"
      using ingestFile_store Inr unfolding ak by blast
    then have "log_step (ag_Store a) (ag_Store a1)" by (simp add: log_step.ingest_file)
    then show ?thesis using Cons.IH[of a1 "n + k"] Inr ak by (simp add: converse_rtranclp_into_rtranclp)
  qed simp
qed simp

lemma log_steps_mark: "log_steps a b \<Longrightarrow> log_steps a (mark_reviewed p b)"
  by (simp add: mark_reviewed_def rtranclp.rtrancl_into_rtrancl log_step.mark_reviewed)

lemma log_steps_scanSource: "log_steps a (snd (snd (scanSource sha h p known a)))"
proof (cases "\<exists>current. pooled (loadAccounts p (ag_Store a)) \<and> ho_Listing h p = Some current")
  case False
  then show ?thesis by (cases "ho_Listing h p") (auto simp: scanSource_def Let_def)
next
  case True
  then obtain current where pc: "pooled (loadAccounts p (ag_Store a))" "ho_Listing h p = Some current" by blast
  define paths where "paths = scan_paths p known current (ag_Store a)"
  obtain ac1 a1 where re: "recheck h p known paths (loadAccounts p (ag_Store a)) a = (ac1, a1)" by fastforce
  then have a1: "log_steps a a1" using log_steps_observe by (auto simp: recheck_def Let_def split: if_splits)
  show ?thesis
  proof (cases "loadDesktopSessions h ac1")
    case None
    then show ?thesis using pc re a1 log_steps_mark by (simp add: scanSource_def flip: paths_def)
  next
    case (Some ac2)
    obtain err m b where sf: "scan_files sha h p current ac2 paths 0 a1 = (err, m, b)" by (rule prod_cases3)
    then have "log_steps a b" using log_steps_scan_files[of a1 sha h p current ac2 paths 0] a1 by simp
    then show ?thesis using pc re Some sf a1 log_steps_mark
      by (cases err) (simp_all add: scanSource_def flip: paths_def)
  qed
qed

lemma log_steps_fold:
  assumes "\<And>x acc. log_step\<^sup>*\<^sup>* (fst acc) (fst (f x acc))"
  shows "log_step\<^sup>*\<^sup>* (fst acc) (fst (fold f xs acc))"
proof (induction xs arbitrary: acc)
  case (Cons x xs)
  show ?case using rtranclp_trans[OF assms Cons.IH] by simp
qed simp

lemma log_steps_spooled: "log_step\<^sup>*\<^sup>* (fst acc) (fst (ingest_spooled sha ac ra sp acc))"
proof -
  have "log_step\<^sup>*\<^sup>* s (fst (CorrectSnapshot sn s))" "log_step\<^sup>*\<^sup>* s (AddSnapshot sn s)"
    "log_step\<^sup>*\<^sup>* s (AddSnapshot sn (fst (CorrectSnapshot sn s)))" for s sn
    by (auto intro: log_step.correct_snapshot log_step.add_snapshot rtranclp.rtrancl_into_rtrancl)
  then show ?thesis by (auto simp: ingest_spooled_def Let_def case_prod_beta' split: option.split)
qed

lemma log_steps_statusLine: "log_steps a (snd (snd (ingestStatusLine sha h a)))"
proof -
  have "log_step\<^sup>*\<^sup>* s (fst (fold (ingest_spooled sha ac ra) sps (s, n)))" for s ac ra sps n
    using log_steps_fold[where f = "ingest_spooled sha ac ra" and acc = "(s, n)" and xs = sps] log_steps_spooled by simp
  then show ?thesis by (auto simp: ingestStatusLine_def Let_def case_prod_beta' split: option.split)
qed

lemma log_steps_scanAll: "log_steps a (scanAll sha h a)"
proof -
  have one: "log_steps b (scan_one sha h known p b)" for known p b
    using log_steps_scanSource[of b sha h p known]
    by (cases "scanSource sha h p known b" rule: prod_cases3) (simp add: scan_one_def split: option.split)
  have all: "log_steps b (fold (scan_one sha h known) ps b)" for known ps b
  proof (induction ps arbitrary: b)
    case (Cons p ps)
    show ?case using rtranclp_trans[OF one Cons.IH] by simp
  qed simp
  define b where "b = fold (scan_one sha h (KnownFiles (ag_Store a))) sources a"
  obtain err n c where sl: "ingestStatusLine sha h b = (err, n, c)" by (rule prod_cases3)
  have "log_steps a b" unfolding b_def by (rule all)
  moreover have "log_steps b c" using log_steps_statusLine[of b sha h] sl by simp
  ultimately have "log_steps a c" by (rule rtranclp_trans)
  then show ?thesis using sl by (cases err) (simp_all add: scanAll_def flip: b_def)
qed

lemma log_steps_rescan: "log_steps a (snd (rescan sha h known ps a))"
proof (induction ps arbitrary: a)
  case (Cons p ps)
  obtain err n c where sc: "scanSource sha h p known a = (err, n, c)" by (rule prod_cases3)
  then have "log_steps a c" using log_steps_scanSource[of a sha h p known] by simp
  then show ?case using rtranclp_trans[OF _ Cons.IH[of c]] sc by (cases err) simp_all
qed simp

lemma log_steps_rebuild: "log_steps (with_store ResetLedger a) (snd (snd (rebuildLedger sha h a)))"
proof -
  define r where "r = with_store ResetLedger a"
  obtain e b where b: "rescan sha h (KnownFiles (ag_Store r)) sources r = (e, b)" by fastforce
  then have rb: "log_steps r b" using log_steps_rescan[of r sha h "KnownFiles (ag_Store r)" sources] by simp
  obtain e' n c where c: "ingestStatusLine sha h b = (e', n, c)" by (rule prod_cases3)
  then have "log_steps r c" using rb log_steps_statusLine[of b sha h] rtranclp_trans[OF rb] by fastforce
  then have "log_steps r (snd (snd (rebuildLedger sha h a)))"
    using b c rb by (cases e; cases e') (simp_all add: rebuildLedger_def flip: r_def)
  then show ?thesis by (simp add: r_def)
qed

lemma store_steps_rebuild: "store_steps a (snd (snd (rebuildLedger sha h a)))"
proof -
  have "client_step (ag_Store a) (ag_Store (with_store ResetLedger a))" by (simp add: client_step.reset_ledger)
  then show ?thesis using log_clients[OF log_steps_rebuild[of a sha h]] by (rule converse_rtranclp_into_rtranclp)
qed

lemma log_steps_observeAll: "log_steps a (observeAll h a)"
proof -
  have dsk: "log_steps b (observeDesktop h b)" for b
    by (auto simp: observeDesktop_def Let_def case_prod_beta' log_step.add_observation r_into_rtranclp split: option.split)
  show ?thesis unfolding observeAll_def
    by (meson dsk log_steps_observe rtranclp_trans)
qed

lemma agent_step_store: "agent_step sha a b \<Longrightarrow> store_steps a b"
proof (induction rule: agent_step.induct)
  case (uploaded a i)
  then show ?case by (simp add: client_step.delete_outbox r_into_rtranclp)
next
  case (probed a sn)
  then show ?case by (simp add: client_step.add_snapshot r_into_rtranclp)
next
  case (linked a l)
  then show ?case by (simp add: client_step.add_login r_into_rtranclp)
next
  case (unlinked a r)
  then show ?case by (simp add: client_step.remove_login r_into_rtranclp)
qed (simp_all add: log_clients log_steps_scanAll log_steps_observeAll store_steps_rebuild)

lemma agent_step_joined:
  assumes sha: "\<forall>x. sha x \<noteq> []" and step: "agent_step sha a b" and j: "joined sha UNIV (ag_Store a)"
  shows "joined sha UNIV (ag_Store b)"
  using step j
proof (induction rule: agent_step.induct)
  case (scan a h)
  then show ?case by (intro scanAll_joined[OF sha]) simp
next
  case (rebuilt a h)
  show ?case by (intro rebuildLedger_joined[OF sha]) simp
next
  case (observed a h)
  then show ?case by (rule observeAll_joined)
qed (auto simp: joined_def DeleteOutboxThrough_def AddClaudeLogin_def RemoveClaudeLogin_def)

definition agent_ok :: "(string \<Rightarrow> string) \<Rightarrow> string set \<Rightarrow> agent \<Rightarrow> bool" where
  "agent_ok sha D a \<longleftrightarrow> local_ok (ag_Store a) \<and> ((\<forall>x. sha x \<noteq> []) \<longrightarrow> joined sha D (ag_Store a))"

lemma agent_ok_start: "agent_ok sha D agent_start"
  by (simp add: agent_ok_def agent_start_def local_ok_empty) (simp add: joined_def empty_local_def)

interpretation agent: kept "agent_step sha" agent_start "agent_ok sha UNIV" for sha
proof
  show "agent_ok sha UNIV agent_start" by (rule agent_ok_start)
next
  fix a b assume ok: "agent_ok sha UNIV a" and step: "agent_step sha a b"
  have "local_ok (ag_Store b)" using local_db.ok_steps[OF agent_step_store[OF step]] ok by (simp add: agent_ok_def)
  then show "agent_ok sha UNIV b" using ok agent_step_joined step by (auto simp: agent_ok_def)
qed


section \<open>What a pass queues\<close>

text \<open>The requests queued under a key, and a ledger all of whose requests are queued.\<close>

definition queued_as :: "local_db \<Rightarrow> string \<Rightarrow> sync_event list" where
  "queued_as s key = filter (\<lambda>e. se_DedupeKey e = key)
     (concat (map (\<lambda>it. case ox_Payload it of PayloadEvent e \<Rightarrow> [e] | _ \<Rightarrow> []) (ld_outbox s)))"

definition all_queued :: "local_db \<Rightarrow> bool" where
  "all_queued s \<longleftrightarrow> list_all (\<lambda>r. queued_as s (lv_dedupe_key r) \<noteq> []) (ld_events s)"

lemma queued_events: "e \<in> set (concat (map (\<lambda>it. case ox_Payload it of PayloadEvent e \<Rightarrow> [e] | _ \<Rightarrow> []) its)) \<longleftrightarrow>
    (\<exists>it \<in> set its. ox_Payload it = PayloadEvent e)"
  by (induction its) (auto split: payload.split)

lemma queued_as_iff:
  "queued_as s key \<noteq> [] \<longleftrightarrow> (\<exists>it \<in> set (ld_outbox s). \<exists>e. ox_Payload it = PayloadEvent e \<and> se_DedupeKey e = key)"
  unfolding queued_as_def filter_empty_conv Ball_def queued_events by blast

lemma all_queued_grows:
  assumes "all_queued s" "set (ld_outbox s) \<subseteq> set (ld_outbox t)"
    and "\<And>r. r \<in> set (ld_events t) \<Longrightarrow> lv_dedupe_key r \<in> lv_dedupe_key ` set (ld_events s) \<or> queued_as t (lv_dedupe_key r) \<noteq> []"
  shows "all_queued t"
  unfolding all_queued_def list_all_iff
proof
  fix r assume "r \<in> set (ld_events t)"
  then consider u where "u \<in> set (ld_events s)" "lv_dedupe_key r = lv_dedupe_key u" | "queued_as t (lv_dedupe_key r) \<noteq> []"
    using assms(3) by (metis imageE)
  then show "queued_as t (lv_dedupe_key r) \<noteq> []"
    using assms(1,2) unfolding all_queued_def list_all_iff queued_as_iff by cases (metis subsetD)+
qed

lemma all_queued_enqueue: "all_queued s \<Longrightarrow> all_queued (enqueue k p s)"
  by (erule all_queued_grows) (auto simp: enqueue_def)

lemma all_queued_ignores [simp]:
  "all_queued (s\<lparr>ld_snapshots := a\<rparr>) = all_queued s" "all_queued (s\<lparr>ld_limits := b\<rparr>) = all_queued s"
  "all_queued (s\<lparr>ld_observations := c\<rparr>) = all_queued s" "all_queued (s\<lparr>ld_files := d\<rparr>) = all_queued s"
  "all_queued (s\<lparr>ld_reviewed := v\<rparr>) = all_queued s"
  by (simp_all add: all_queued_def queued_as_def)

lemma all_queued_fold:
  assumes "\<And>x acc. all_queued (fst acc) \<Longrightarrow> all_queued (fst (f x acc))"
  shows "all_queued (fst acc) \<Longrightarrow> all_queued (fst (fold f xs acc))"
  using assms by (induction xs arbitrary: acc) simp_all

lemma all_queued_event: assumes "all_queued (fst acc)" shows "all_queued (fst (ingest_local_event e acc))"
proof -
  obtain s n where acc: "acc = (s, n)" by (cases acc)
  obtain rows affected where up: "upsert_event (event_row e) (ld_events s) = (rows, affected)" by fastforce
  have "map lv_dedupe_key (update_where p (reread x) us) = map lv_dedupe_key us" for p x us
    by (rule map_update_where) (simp add: reread_def)
  then have "map lv_dedupe_key rows = map lv_dedupe_key (ld_events s) \<or> affected \<and> rows = ld_events s @ [event_row e]"
    using up by (auto simp: upsert_event_def Let_def split: if_splits)
  then have "lv_dedupe_key ` set rows = lv_dedupe_key ` set (ld_events s) \<or> affected \<and> rows = ld_events s @ [event_row e]"
    by (metis list.set_map)
  then have old: "lv_dedupe_key ` set rows \<subseteq> insert (ev_DedupeKey e) (lv_dedupe_key ` set (ld_events s))"
    "\<not> affected \<Longrightarrow> lv_dedupe_key ` set rows = lv_dedupe_key ` set (ld_events s)"
    by (auto simp: event_row_def)
  have key: "se_DedupeKey (event_payload e us) = ev_DedupeKey e" for us
    by (simp add: event_payload_def FromEvent_def Let_def split: option.split)
  show ?thesis
  proof (cases affected)
    case False
    then show ?thesis using assms old(2) by (auto simp: acc ingest_local_event_def up intro!: all_queued_grows[of s])
  next
    case True
    define t where "t = enqueue KindEvent (PayloadEvent (event_payload e (ld_events s))) (s\<lparr>ld_events := rows\<rparr>)"
    have outbox: "ld_outbox t = ld_outbox s @ [\<lparr>ox_ID = ld_sequence s + 1, ox_Kind = KindEvent, ox_Payload = PayloadEvent (event_payload e (ld_events s))\<rparr>]"
      "ld_events t = rows" by (simp_all add: t_def enqueue_def)
    have new: "queued_as t (ev_DedupeKey e) \<noteq> []" unfolding queued_as_iff outbox by (auto simp: key)
    have "all_queued s" "set (ld_outbox s) \<subseteq> set (ld_outbox t)" using assms by (auto simp: acc outbox)
    then have "all_queued t" using old(1) new by (elim all_queued_grows) (auto simp: outbox(2))
    then show ?thesis using True by (simp add: acc ingest_local_event_def up flip: t_def)
  qed
qed

lemma all_queued_rows: "all_queued s \<Longrightarrow> all_queued (fst (insertSnapshot sn s))" "all_queued s \<Longrightarrow> all_queued (fst (insertLimitEvent l s))"
  by (simp_all add: insertSnapshot_def insertLimitEvent_def Let_def all_queued_enqueue)

lemma all_queued_counted:
  "all_queued (fst acc) \<Longrightarrow> all_queued (fst (counted insertSnapshot x acc))" "all_queued (fst acc) \<Longrightarrow> all_queued (fst (counted insertLimitEvent l acc))"
  by (simp_all add: counted_def case_prod_beta' Let_def all_queued_rows)

lemma all_queued_step: "log_step s t \<Longrightarrow> all_queued s \<Longrightarrow> all_queued t"
proof (induction rule: log_step.induct)
  case (ingest_file s path st es ss ls)
  define a1 where "a1 = fold ingest_local_event es (s, 0::int)"
  define a2 where "a2 = fold (counted insertLimitEvent) ls (fold (counted insertSnapshot) ss a1)"
  have "all_queued (fst a1)" unfolding a1_def by (rule all_queued_fold[OF all_queued_event]) (simp_all add: ingest_file)
  then have "all_queued (fst a2)" unfolding a2_def by (intro all_queued_fold all_queued_counted)
  then show ?case by (simp add: IngestFile_def Let_def case_prod_beta' flip: a1_def a2_def)
qed (auto simp: CorrectSnapshot_def AddObservation_def MarkAttributionReviewed_def AddSnapshot_def Let_def all_queued_rows
    all_queued_enqueue split: list.split)

lemma all_queued_steps: "log_step\<^sup>*\<^sup>* s t \<Longrightarrow> all_queued s \<Longrightarrow> all_queued t"
  by (induction rule: rtranclp_induct) (auto intro: all_queued_step)

text \<open>A rebuilt ledger is queued from the first request to the last.\<close>

lemma rebuildLedger_queued: "all_queued (ag_Store (snd (snd (rebuildLedger sha h a))))"
proof (rule all_queued_steps[OF log_steps_rebuild[of a sha h]])
  have "ld_events (ResetLedger (ag_Store a)) = []" using ResetLedger_tables(1)[of "ag_Store a"] by (simp add: ledger_part_def)
  then show "all_queued (ag_Store (with_store ResetLedger a))" by (simp add: all_queued_def)
qed

section \<open>On a small computer\<close>

text \<open>Claude Code signed in at 10 ms, with one session file holding one response made at 20 ms.\<close>

definition demo_sha :: "string \<Rightarrow> string" where "demo_sha x = CHR ''#'' # x"

definition demo_host :: host where
  "demo_host = \<lparr>ho_Listing = (\<lambda>p. if p = ProviderAnthropic then Some [(''f'', \<lparr>fs_Size = 12, fs_ModTime = 5\<rparr>)] else Some []),
     ho_File = (\<lambda>_. Opened (assistantMarker @ [newline]) False),
     ho_ClaudeLine = (\<lambda>raw. Some ((demo_reply (int (length raw)))\<lparr>ln_Timestamp := of_unix_milli 20\<rparr>)),
     ho_CodexJson = demo_json, ho_AgyParse = (\<lambda>_. None),
     ho_Observe = (\<lambda>p. if p = ProviderAnthropic
        then Seen ((unknown_observation p (of_unix_milli 10))\<lparr>ob_ExternalRefHash := ''ref''\<rparr>) None else NotInstalled),
     ho_Desktop = Some [], ho_OpenCodex = (\<lambda>_. []), ho_Clock = (\<lambda>_. of_unix_milli 30), ho_Now = of_unix_milli 30,
     ho_ErrorText = (\<lambda>_. [])\<rparr>"

definition demo_joined :: agent where "demo_joined = observeAll demo_host agent_start"
definition demo_scanned :: agent where "demo_scanned = scanAll demo_sha demo_host demo_joined"


lemma scanSource_again_witness:
  "fst (snd (scanSource demo_sha demo_host ProviderAnthropic [] demo_joined)) = 1 \<and>
   (let a = snd (snd (scanSource demo_sha demo_host ProviderAnthropic [] demo_joined))
    in scanSource demo_sha demo_host ProviderAnthropic (KnownFiles (ag_Store a)) a = (None, 0, a))"
proof
  show "fst (snd (scanSource demo_sha demo_host ProviderAnthropic [] demo_joined)) = 1" by code_simp
  obtain err n a where first: "scanSource demo_sha demo_host ProviderAnthropic [] demo_joined = (err, n, a)" by (rule prod_cases3)
  have "fst (scanSource demo_sha demo_host ProviderAnthropic [] demo_joined) = None" by code_simp
  moreover have "KnownFiles (ag_Store demo_joined) = []" by code_simp
  ultimately have "scanSource demo_sha demo_host ProviderAnthropic (KnownFiles (ag_Store demo_joined)) demo_joined = (None, n, a)"
    using first by simp
  moreover have "ho_Listing demo_host ProviderAnthropic = Some [(''f'', \<lparr>fs_Size = 12, fs_ModTime = 5\<rparr>)]"
    by (simp add: demo_host_def)
  ultimately have "scanSource demo_sha demo_host ProviderAnthropic (KnownFiles (ag_Store a)) a = (None, 0, a)"
    by (rule scanSource_again) simp
  then show "let a = snd (snd (scanSource demo_sha demo_host ProviderAnthropic [] demo_joined))
      in scanSource demo_sha demo_host ProviderAnthropic (KnownFiles (ag_Store a)) a = (None, 0, a)"
    using first by simp
qed

lemma rebuildLedger_forgets_witness:
  "ld_events (ag_Store (snd (snd (rebuildLedger demo_sha demo_host demo_scanned)))) =
     ld_events (ag_Store (snd (snd (rebuildLedger demo_sha demo_host demo_joined)))) \<and>
   fst (rebuildLedger demo_sha demo_host demo_joined) = None \<and>
   map lv_output (ld_events (ag_Store (snd (snd (rebuildLedger demo_sha demo_host demo_joined))))) = [12]"
proof (intro conjI)
  obtain err n a where r: "rebuildLedger demo_sha demo_host demo_joined = (err, n, a)" by (rule prod_cases3)
  obtain err' n' b where r': "rebuildLedger demo_sha demo_host demo_scanned = (err', n', b)" by (rule prod_cases3)
  have "ld_observations (ag_Store demo_joined) = ld_observations (ag_Store demo_scanned)" by code_simp
  moreover have "ag_Spool demo_joined = ag_Spool demo_scanned" by code_simp
  ultimately show "ld_events (ag_Store (snd (snd (rebuildLedger demo_sha demo_host demo_scanned)))) =
     ld_events (ag_Store (snd (snd (rebuildLedger demo_sha demo_host demo_joined))))"
    using rebuildLedger_forgets[OF _ _ r r'] r r' by simp
qed code_simp+

end
