(* ===== verification/UsageProbe.thy ===== *)
theory UsageProbe
  imports Rollouts
begin

text \<open>
  Reading limits from the providers themselves: \<open>internal/provider/anthropic/oauthusage\<close>
  (\<open>oauthusage.go\<close>, \<open>login.go\<close>) and \<open>internal/provider/google/antigravity/quota.go\<close>. A request is a
  function of the state of the world beyond the network: it answers with a status and what its
  body decodes to, or not at all. Reading RFC 3339 is the parameter \<open>rfc3339\<close>.
\<close>

section \<open>Answers\<close>

datatype 'a http_answer = NoAnswer | Answer int string "'a option"

text \<open>The status, the \<open>Retry-After\<close> header and the decoded body (\<open>None\<close> when it does not decode).\<close>

datatype probe_error = ErrNoCredential | ErrRead | ErrLoginExpired | Throttled duration

definition StatusOK_http :: int where "StatusOK_http = 200"

definition defaultRetryAfter :: duration where "defaultRetryAfter = hour"

definition retryAfter :: "string \<Rightarrow> duration" where
  "retryAfter header = (case atoi (trim_space header) of
     Some s \<Rightarrow> if s > 0 then wrap64 (s * second) else defaultRetryAfter | None \<Rightarrow> defaultRetryAfter)"

section \<open>Anthropic's limits\<close>

record usage_window =
  uw_Utilization :: "f64 option"
  uw_ResetsAt :: string

record usage_limit =
  ul_Kind :: string
  ul_Percent :: "f64 option"
  ul_ResetsAt :: string
  ul_DisplayName :: "string option"

text \<open>\<open>ul_DisplayName\<close> is the name of the scope's model, none when either is missing.\<close>

record usage_body =
  ub_FiveHour :: "usage_window option"
  ub_SevenDay :: "usage_window option"
  ub_Limits :: "usage_limit list"

definition usage_bucket :: "(string \<Rightarrow> time option) \<Rightarrow> bucket_key \<Rightarrow> int \<Rightarrow> usage_window \<Rightarrow> bucket" where
  "usage_bucket rfc3339 key minutes w =
     \<lparr>bk_Key = key, bk_UsedPercent = uw_Utilization w, bk_ResetsAt = rfc3339 (uw_ResetsAt w), bk_WindowMinutes = Some minutes\<rparr>"

definition limit_bucket :: "(string \<Rightarrow> time option) \<Rightarrow> usage_limit \<Rightarrow> bucket option" where
  "limit_bucket rfc3339 l =
     (case ul_DisplayName l of
        None \<Rightarrow> None
      | Some name \<Rightarrow> if ul_Kind l \<noteq> ''weekly_scoped'' \<or> name = [] then None
          else Some (usage_bucket rfc3339 (WeeklyModelBucket name) WeeklyMinutes \<lparr>uw_Utilization = ul_Percent l, uw_ResetsAt = ul_ResetsAt l\<rparr>))"

definition usage_buckets :: "(string \<Rightarrow> time option) \<Rightarrow> usage_body \<Rightarrow> bucket list" where
  "usage_buckets rfc3339 u =
     (case ub_FiveHour u of None \<Rightarrow> [] | Some w \<Rightarrow> [usage_bucket rfc3339 BucketFiveHour FiveHourMinutes w]) @
     (case ub_SevenDay u of None \<Rightarrow> [] | Some w \<Rightarrow> [usage_bucket rfc3339 BucketWeekly WeeklyMinutes w]) @
     List.map_filter (limit_bucket rfc3339) (ub_Limits u)"

definition getUsage :: "(string \<Rightarrow> time option) \<Rightarrow> usage_body http_answer \<Rightarrow> probe_error + bucket list" where
  "getUsage rfc3339 a =
     (case a of
        NoAnswer \<Rightarrow> Inl ErrRead
      | Answer status header body \<Rightarrow>
          if status = 429 \<or> status = 403 then Inl (Throttled (retryAfter header))
          else if status \<noteq> StatusOK_http then Inl ErrRead
          else case body of None \<Rightarrow> Inl ErrRead | Some u \<Rightarrow> Inr (usage_buckets rfc3339 u))"

section \<open>Claude Code's own credential\<close>

record credential =
  cr_Token :: string
  cr_ExpiresAt :: time

text \<open>What reading the keychain or the file gives.\<close>

datatype raw_read = RawBytes string | RawMissing | RawError

definition readRaw :: "bool \<Rightarrow> raw_read \<Rightarrow> raw_read \<Rightarrow> raw_read" where
  "readRaw configDirSet keychain file =
     (if configDirSet then file else case keychain of RawMissing \<Rightarrow> file | r \<Rightarrow> r)"

text \<open>The decoded file: its access token and expiry in milliseconds, if it has the sign-in.\<close>

definition parseCredential :: "(string \<times> int) option option \<Rightarrow> probe_error + credential" where
  "parseCredential decoded =
     (case decoded of
        None \<Rightarrow> Inl ErrRead
      | Some None \<Rightarrow> Inl ErrNoCredential
      | Some (Some (access, expires)) \<Rightarrow>
          if access = [] then Inl ErrNoCredential
          else Inr \<lparr>cr_Token = access, cr_ExpiresAt = of_unix_milli expires\<rparr>)"

definition readCredential :: "(string \<Rightarrow> (string \<times> int) option option) \<Rightarrow> raw_read \<Rightarrow> probe_error + credential" where
  "readCredential decode raw =
     (case raw of RawMissing \<Rightarrow> Inl ErrNoCredential | RawError \<Rightarrow> Inl ErrRead | RawBytes b \<Rightarrow> parseCredential (decode b))"

definition expired :: "credential \<Rightarrow> time \<Rightarrow> bool" where
  "expired c now \<longleftrightarrow> cr_ExpiresAt c \<noteq> zero_time \<and> \<not> now < cr_ExpiresAt c"

text \<open>The buckets and the token they were read with; nothing to read is no buckets and no token.\<close>

definition Probe ::
  "(string \<Rightarrow> time option) \<Rightarrow> (string \<Rightarrow> 'w \<Rightarrow> usage_body http_answer \<times> 'w) \<Rightarrow> probe_error + credential \<Rightarrow> time \<Rightarrow> 'w \<Rightarrow>
   (probe_error + bucket list \<times> string) \<times> 'w" where
  "Probe rfc3339 usage read now w =
     (case read of
        Inl ErrNoCredential \<Rightarrow> (Inr ([], []), w)
      | Inl err \<Rightarrow> (Inl err, w)
      | Inr c \<Rightarrow>
          if expired c now then (Inr ([], []), w)
          else let (a, w) = usage (cr_Token c) w in
            (case getUsage rfc3339 a of Inl err \<Rightarrow> (Inl err, w) | Inr bs \<Rightarrow> (Inr (bs, cr_Token c), w)))"

section \<open>Plans\<close>

definition PlanWithTier :: "string \<Rightarrow> string \<Rightarrow> string" where
  "PlanWithTier plan tier =
     (if plan \<noteq> ''max'' then plan
      else case filter (\<lambda>t. has_suffix tier (''_max_'' @ t)) [''20x'', ''5x''] of
          [] \<Rightarrow> plan | t # _ \<Rightarrow> plan @ '' '' @ t)"

record profile_response =
  pr_Email :: string
  pr_HasClaudeMax :: bool
  pr_HasClaudePro :: bool
  pr_UUID :: string
  pr_OrganizationType :: string
  pr_RateLimitTier :: string

record profile =
  pf_OrgID :: string
  pf_Email :: string
  pf_PlanType :: string

definition planType :: "profile_response \<Rightarrow> string" where
  "planType pr =
     (if pr_HasClaudeMax pr then PlanWithTier ''max'' (pr_RateLimitTier pr)
      else if pr_HasClaudePro pr then ''pro''
      else case cut_prefix (pr_OrganizationType pr) ''claude_'' of Some r \<Rightarrow> r | None \<Rightarrow> pr_OrganizationType pr)"

definition fetchProfile :: "profile_response http_answer \<Rightarrow> profile option" where
  "fetchProfile a =
     (case a of
        Answer status _ (Some pr) \<Rightarrow>
          if status \<noteq> StatusOK_http \<or> (pr_UUID pr = [] \<and> pr_Email pr = []) then None
          else Some \<lparr>pf_OrgID = pr_UUID pr, pf_Email = pr_Email pr, pf_PlanType = planType pr\<rparr>
      | _ \<Rightarrow> None)"

section \<open>ShareCodex's own sign-ins\<close>

record oauth_tokens =
  ot_Access :: string
  ot_Refresh :: string
  ot_ExpiresAt :: time

record token_response =
  tr_AccessToken :: string
  tr_RefreshToken :: string
  tr_ExpiresIn :: int

text \<open>The body of an error is its code, of a success the tokens.\<close>

datatype token_body = TokenError string | TokenGrant token_response

definition requestTokens :: "token_body http_answer \<Rightarrow> string \<Rightarrow> time \<Rightarrow> probe_error + oauth_tokens" where
  "requestTokens a keepRefresh now =
     (case a of
        NoAnswer \<Rightarrow> Inl ErrRead
      | Answer status _ body \<Rightarrow>
          if status \<noteq> StatusOK_http
          then (case body of Some (TokenError code) \<Rightarrow> if code = ''invalid_grant'' then Inl ErrLoginExpired else Inl ErrRead
                | _ \<Rightarrow> Inl ErrRead)
          else case body of
              Some (TokenGrant tr) \<Rightarrow>
                if tr_AccessToken tr = [] then Inl ErrRead
                else Inr \<lparr>ot_Access = tr_AccessToken tr, ot_Refresh = or_else (tr_RefreshToken tr) keepRefresh,
                  ot_ExpiresAt = now + wrap64 ((if tr_ExpiresIn tr \<le> 0 then 3600 else tr_ExpiresIn tr) * second)\<rparr>
            | _ \<Rightarrow> Inl ErrRead)"

definition refreshMargin :: duration where "refreshMargin = 5 * minute"

record linked_usage =
  lu_Result :: "probe_error + bucket list"
  lu_Tokens :: oauth_tokens
  lu_Refreshed :: bool

definition no_oauth_tokens :: oauth_tokens where
  "no_oauth_tokens = \<lparr>ot_Access = [], ot_Refresh = [], ot_ExpiresAt = zero_time\<rparr>"

definition LinkedUsage ::
  "(string \<Rightarrow> time option) \<Rightarrow> (string \<Rightarrow> 'w \<Rightarrow> usage_body http_answer \<times> 'w) \<Rightarrow> (string \<Rightarrow> 'w \<Rightarrow> token_body http_answer \<times> 'w) \<Rightarrow>
   oauth_tokens \<Rightarrow> time \<Rightarrow> 'w \<Rightarrow> linked_usage \<times> 'w" where
  "LinkedUsage rfc3339 usage refresh t now w =
     (let read = (\<lambda>t refreshed w. let (a, w) = usage (ot_Access t) w in
            (\<lparr>lu_Result = getUsage rfc3339 a, lu_Tokens = t, lu_Refreshed = refreshed\<rparr>, w))
      in if now + refreshMargin < ot_ExpiresAt t then read t False w
         else let (a, w) = refresh (ot_Refresh t) w in
           (case requestTokens a (ot_Refresh t) now of
              Inl err \<Rightarrow> (\<lparr>lu_Result = Inl err, lu_Tokens = no_oauth_tokens, lu_Refreshed = False\<rparr>, w)
            | Inr t \<Rightarrow> read t True w))"

section \<open>Signing in by the browser\<close>

text \<open>
  A sign-in that waits for its code (\<open>lg_Codes\<close> is the channel of capacity one). \<open>query_code\<close> reads
  the \<open>code\<close> parameter of a URL, empty when the text is no URL or has none.
\<close>

record login =
  lg_Verifier :: string
  lg_State :: string
  lg_RedirectURI :: string
  lg_Codes :: "string option"

definition Submit :: "(string \<Rightarrow> string) \<Rightarrow> string \<Rightarrow> login \<Rightarrow> login" where
  "Submit query_code input l =
     (let input = trim_space input;
          input = or_else (query_code input) input
      in if input = [] then l
         else case lg_Codes l of None \<Rightarrow> l\<lparr>lg_Codes := Some input\<rparr> | Some _ \<Rightarrow> l)"

text \<open>The browser's redirect: its status, and what it hands over.\<close>

definition login_callback :: "(string \<Rightarrow> string) \<Rightarrow> string \<Rightarrow> string \<Rightarrow> login \<Rightarrow> int \<times> login" where
  "login_callback query_code state code l =
     (if state \<noteq> lg_State l \<or> code = [] then (400, l) else (200, Submit query_code code l))"

text \<open>The code the sign-in page shows is \<open>code#state\<close>; one of another sign-in is refused.\<close>

definition accept_code :: "string \<Rightarrow> string \<Rightarrow> string option" where
  "accept_code state code =
     (let (c, s, found) = cut_at code CHR ''#'' in
      if found then (if s \<noteq> [] \<and> s \<noteq> state then None else Some c) else Some code)"

datatype wait_error = WaitTimeout | WaitOtherSignIn | WaitTokens probe_error | WaitProfile

definition Wait ::
  "(string \<Rightarrow> login \<Rightarrow> 'w \<Rightarrow> token_body http_answer \<times> 'w) \<Rightarrow> (string \<Rightarrow> 'w \<Rightarrow> profile_response http_answer \<times> 'w) \<Rightarrow>
   login \<Rightarrow> time \<Rightarrow> 'w \<Rightarrow> (wait_error + oauth_tokens \<times> profile) \<times> 'w" where
  "Wait exchange profile l now w =
     (case lg_Codes l of
        None \<Rightarrow> (Inl WaitTimeout, w)
      | Some code \<Rightarrow>
          (case accept_code (lg_State l) code of
             None \<Rightarrow> (Inl WaitOtherSignIn, w)
           | Some c \<Rightarrow>
               (let (a, w) = exchange c l w in
                case requestTokens a [] now of
                  Inl err \<Rightarrow> (Inl (WaitTokens err), w)
                | Inr t \<Rightarrow>
                    (let (a, w) = profile (ot_Access t) w in
                     case fetchProfile a of None \<Rightarrow> (Inl WaitProfile, w) | Some p \<Rightarrow> (Inr (t, p), w)))))"

section \<open>Antigravity's pools\<close>

record model_quota =
  mq_RemainingFraction :: "f64 option"
  mq_ResetTime :: string

definition pools :: "string list" where "pools = [''gemini'', ''claude'']"

text \<open>The most used reading of a pool so far; the models come in the order of the map.\<close>

definition pool_step ::
  "(string \<Rightarrow> time option) \<Rightarrow> string \<Rightarrow> string \<times> model_quota option \<Rightarrow> (f64 \<times> time) option \<Rightarrow> (f64 \<times> time) option" where
  "pool_step rfc3339 family m best =
     (case snd m of
        None \<Rightarrow> best
      | Some q \<Rightarrow>
          (case mq_RemainingFraction q of
             None \<Rightarrow> best
           | Some left \<Rightarrow>
               if \<not> InFamily (fst m) family \<or> mq_ResetTime q = [] then best
               else case rfc3339 (mq_ResetTime q) of
                   None \<Rightarrow> best
                 | Some resets \<Rightarrow>
                     (let u = (1 - left) * 100 in
                      case best of None \<Rightarrow> Some (u, resets) | Some (used, _) \<Rightarrow> if u > used then Some (u, resets) else best)))"

definition pool_buckets :: "(string \<Rightarrow> time option) \<Rightarrow> (string, model_quota option) gomap \<Rightarrow> bucket list" where
  "pool_buckets rfc3339 models =
     List.map_filter (\<lambda>family. case fold (pool_step rfc3339 family) models None of
         None \<Rightarrow> None
       | Some (used, resets) \<Rightarrow> Some \<lparr>bk_Key = FiveHourModelBucket family, bk_UsedPercent = Some used,
           bk_ResetsAt = Some resets, bk_WindowMinutes = Some FiveHourMinutes\<rparr>) pools"

text \<open>agy's sign-in: an access token and its expiry, zero when it has none.\<close>

datatype quota_error = QuotaNotSignedIn | QuotaExpired | QuotaRead

definition agy_quota ::
  "(string \<Rightarrow> time option) \<Rightarrow> (string \<Rightarrow> 'w \<Rightarrow> (string, model_quota option) gomap http_answer \<times> 'w) \<Rightarrow>
   quota_error + credential \<Rightarrow> time \<Rightarrow> 'w \<Rightarrow> (quota_error + bucket list) \<times> 'w" where
  "agy_quota rfc3339 fetch cred now w =
     (case cred of
        Inl err \<Rightarrow> (Inl err, w)
      | Inr c \<Rightarrow>
          if cr_Token c = [] then (Inl QuotaNotSignedIn, w)
          else if expired c now then (Inl QuotaExpired, w)
          else let (a, w) = fetch (cr_Token c) w in
            (case a of
               Answer status _ (Some models) \<Rightarrow>
                 if status \<noteq> StatusOK_http then (Inl QuotaRead, w) else (Inr (pool_buckets rfc3339 models), w)
             | _ \<Rightarrow> (Inl QuotaRead, w)))"

section \<open>What the readings say\<close>

text \<open>A credential stored without an expiry is taken for one that expired in 1970: \<open>UnixMilli(0)\<close>
  is not the zero time.\<close>

lemma missing_expiry_expired:
  "access \<noteq> [] \<Longrightarrow> 0 \<le> now \<Longrightarrow> \<exists>c. parseCredential (Some (Some (access, 0))) = Inr c \<and> expired c now"
  by (simp add: parseCredential_def expired_def of_unix_milli_def zero_time_def second_def)

text \<open>A long enough wait overflows and is not waited for at all.\<close>

lemma retry_after_overflow: "retryAfter ''9223372037'' < 0"
proof -
  have "list_all is_digit ''9223372037''" by code_simp
  moreover have "trim_space ''9223372037'' = ''9223372037''" by code_simp
  moreover have "parse_nat ''9223372037'' = 9223372037" by (simp add: parse_nat_def digit_value_def)
  ultimately have "retryAfter ''9223372037'' = wrap64 (9223372037 * second)"
    by (simp add: retryAfter_def atoi_def has_prefix_def)
  then show ?thesis by (simp add: wrap64_def second_def)
qed

text \<open>Only the first code counts, a redirect of another sign-in hands over none, and a pasted code of
  another sign-in is refused before anything is asked.\<close>

lemma Submit_first: "lg_Codes l = Some c \<Longrightarrow> Submit query_code input l = l"
  by (simp add: Submit_def Let_def)

lemma login_callback_other: "state \<noteq> lg_State l \<Longrightarrow> login_callback query_code state code l = (400, l)"
  by (simp add: login_callback_def)

lemma Wait_other_sign_in:
  assumes "lg_Codes l = Some (c @ CHR ''#'' # s)" "CHR ''#'' \<notin> set c" "s \<noteq> []" "s \<noteq> lg_State l"
  shows "Wait exchange profile l now w = (Inl WaitOtherSignIn, w)"
  using assms cut_at_found[OF assms(2), of s] by (simp add: Wait_def accept_code_def)

text \<open>The two ways a sign-in is read: with the tokens as they are, or with renewed ones, which the
  caller is told to keep whatever the reading gave.\<close>

lemma LinkedUsage_current:
  "now + refreshMargin < ot_ExpiresAt t \<Longrightarrow>
   LinkedUsage rfc usage refresh t now w =
     (\<lparr>lu_Result = getUsage rfc (fst (usage (ot_Access t) w)), lu_Tokens = t, lu_Refreshed = False\<rparr>, snd (usage (ot_Access t) w))"
  by (simp add: LinkedUsage_def Let_def case_prod_beta')

lemma LinkedUsage_refused:
  "\<lbrakk>\<not> now + refreshMargin < ot_ExpiresAt t; refresh (ot_Refresh t) w = (a, w1); requestTokens a (ot_Refresh t) now = Inl err\<rbrakk> \<Longrightarrow>
   LinkedUsage rfc usage refresh t now w = (\<lparr>lu_Result = Inl err, lu_Tokens = no_oauth_tokens, lu_Refreshed = False\<rparr>, w1)"
  by (simp add: LinkedUsage_def Let_def case_prod_beta')

lemma LinkedUsage_renewed:
  "\<lbrakk>\<not> now + refreshMargin < ot_ExpiresAt t; refresh (ot_Refresh t) w = (a, w1); requestTokens a (ot_Refresh t) now = Inr t'\<rbrakk> \<Longrightarrow>
   LinkedUsage rfc usage refresh t now w =
     (\<lparr>lu_Result = getUsage rfc (fst (usage (ot_Access t') w1)), lu_Tokens = t', lu_Refreshed = True\<rparr>, snd (usage (ot_Access t') w1))"
  by (simp add: LinkedUsage_def Let_def case_prod_beta')

end
