(* ===== verification/AgentProbe.thy ===== *)
theory AgentProbe
  imports AgentLedger UsageProbe
begin

text \<open>
  \<open>internal/client/agent/usage.go\<close>: the limits the agent reads from Anthropic and Google, for the
  account the CLI is signed into and for the sign-ins kept by ShareCodex, whose tokens it renews.
  The network is a record of functions of the state of the world; the credential store is the map
  of the stored tokens (\<open>None\<close> for a value that does not decode).
\<close>

section \<open>State and network\<close>

record 'w network =
  nt_usage :: "string \<Rightarrow> 'w \<Rightarrow> usage_body http_answer \<times> 'w"
  nt_refresh :: "string \<Rightarrow> 'w \<Rightarrow> token_body http_answer \<times> 'w"
  nt_profile :: "string \<Rightarrow> 'w \<Rightarrow> profile_response http_answer \<times> 'w"
  nt_quota :: "string \<Rightarrow> 'w \<Rightarrow> (string, model_quota option) gomap http_answer \<times> 'w"

record prober =
  pb_Agent :: agent
  pb_RetryAt :: "(string, time) gomap"
  pb_Secrets :: "(string, oauth_tokens option) gomap"

definition on_store :: "(local_db \<Rightarrow> local_db) \<Rightarrow> prober \<Rightarrow> prober" where
  "on_store f pb = pb\<lparr>pb_Agent := with_store f (pb_Agent pb)\<rparr>"

definition usagePaused :: "time \<Rightarrow> string \<Rightarrow> prober \<Rightarrow> bool" where
  "usagePaused now key pb \<longleftrightarrow> now < get_or zero_time (pb_RetryAt pb) key"

definition pauseUsage :: "time \<Rightarrow> string \<Rightarrow> probe_error \<Rightarrow> prober \<Rightarrow> prober" where
  "pauseUsage now key err pb =
     (case err of Throttled d \<Rightarrow> pb\<lparr>pb_RetryAt := put key (now + d) (pb_RetryAt pb)\<rparr> | _ \<Rightarrow> pb)"

section \<open>Reading one account\<close>

definition usage_snapshot :: "provider \<Rightarrow> snapshot_source \<Rightarrow> string \<Rightarrow> string \<Rightarrow> string \<Rightarrow> time \<Rightarrow> bucket list \<Rightarrow> snapshot" where
  "usage_snapshot p src ref hint plan now bs =
     \<lparr>sn_AccountRefHash = ref, sn_AccountHint = hint, sn_PlanType = plan, sn_DeviceID = [], sn_Provider = p,
      sn_ObservedAt = now, sn_Source = src, sn_Buckets = bs\<rparr>"

definition currentPlan :: "'w network \<Rightarrow> string \<Rightarrow> 'w \<Rightarrow> string \<times> 'w" where
  "currentPlan net token w =
     (let (a, w) = nt_profile net token w in (case fetchProfile a of None \<Rightarrow> [] | Some p \<Rightarrow> pf_PlanType p, w))"

text \<open>The sign-in \<open>l\<close>; the tokens are kept as soon as they were renewed.\<close>

datatype login_error = LoginMissing | LoginUndecodable | LoginProbe probe_error

definition probeLogin ::
  "(string \<Rightarrow> time option) \<Rightarrow> 'w network \<Rightarrow> time \<Rightarrow> claude_login \<Rightarrow> prober \<Rightarrow> 'w \<Rightarrow> (login_error + bucket list) \<times> prober \<times> 'w" where
  "probeLogin rfc3339 net now l pb w =
     (case map_of (pb_Secrets pb) (cl_RefHash l) of
        None \<Rightarrow> (Inl LoginMissing, pb, w)
      | Some None \<Rightarrow> (Inl LoginUndecodable, pb, w)
      | Some (Some t) \<Rightarrow>
          (let (r, w) = LinkedUsage rfc3339 (nt_usage net) (nt_refresh net) t now w;
               pb = (if lu_Refreshed r then pb\<lparr>pb_Secrets := put (cl_RefHash l) (Some (lu_Tokens r)) (pb_Secrets pb)\<rparr> else pb)
           in case lu_Result r of
                Inl err \<Rightarrow> (Inl (LoginProbe err), pb, w)
              | Inr bs \<Rightarrow>
                  if bs = [] then (Inr [], pb, w)
                  else let (plan, w) = currentPlan net (ot_Access (lu_Tokens r)) w;
                           changed = plan \<noteq> [] \<and> plan \<noteq> cl_PlanType l;
                           l = (if changed then l\<lparr>cl_PlanType := plan\<rparr> else l);
                           pb = (if changed then on_store (AddClaudeLogin l) pb else pb);
                           pb = on_store (AddSnapshot (usage_snapshot ProviderAnthropic SourceClaudeOAuthUsage (cl_RefHash l)
                                  (cl_Hint l) (cl_PlanType l) now bs)) pb
                       in (Inr bs, pb, w)))"

text \<open>An account read for the CLI: the accounts as they are now, checked again after a minute.\<close>

definition current_accounts :: "host \<Rightarrow> provider \<Rightarrow> prober \<Rightarrow> accounts \<times> prober" where
  "current_accounts h p pb =
     (let ac = loadAccounts p (ag_Store (pb_Agent pb)) in
      if time_sub (ho_Now h) (lastObservedAt (ac_Cli ac)) > minute
      then let pb = pb\<lparr>pb_Agent := observe h p (pb_Agent pb)\<rparr> in (loadAccounts p (ag_Store (pb_Agent pb)), pb)
      else (ac, pb))"

definition probeClaudeCode ::
  "(string \<Rightarrow> string) \<Rightarrow> (string \<Rightarrow> time option) \<Rightarrow> host \<Rightarrow> 'w network \<Rightarrow> probe_error + credential \<Rightarrow> prober \<Rightarrow> 'w \<Rightarrow>
   string \<times> bool \<times> prober \<times> 'w" where
  "probeClaudeCode sha rfc3339 h net read pb w =
     (let now = ho_Now h; (ac, pb) = current_accounts h ProviderAnthropic pb in
      if \<not> pooled ac then ([], False, pb, w)
      else case resolve sha ac [] [] now of
          None \<Rightarrow> ([], False, pb, w)
        | Some ref \<Rightarrow>
            if usagePaused now (''cli:'' @ ref) pb then ([], False, pb, w)
            else (case Probe rfc3339 (nt_usage net) read now w of
                (Inl err, w) \<Rightarrow> ([], False, pauseUsage now (''cli:'' @ ref) err pb, w)
              | (Inr (bs, token), w) \<Rightarrow>
                  if bs = [] then ([], False, pb, w)
                  else let (plan, w) = currentPlan net token w
                       in (ref, True, on_store (AddSnapshot (usage_snapshot ProviderAnthropic SourceClaudeOAuthUsage ref [] plan now bs)) pb, w)))"

definition probeAntigravity ::
  "(string \<Rightarrow> string) \<Rightarrow> (string \<Rightarrow> time option) \<Rightarrow> host \<Rightarrow> 'w network \<Rightarrow> quota_error + credential \<Rightarrow> prober \<Rightarrow> 'w \<Rightarrow>
   bool \<times> prober \<times> 'w" where
  "probeAntigravity sha rfc3339 h net cred pb w =
     (let now = ho_Now h; (ac, pb) = current_accounts h ProviderGoogle pb in
      if \<not> pooled ac then (False, pb, w)
      else case resolve sha ac [] [] now of
          None \<Rightarrow> (False, pb, w)
        | Some ref \<Rightarrow>
            (case agy_quota rfc3339 (nt_quota net) cred now w of
                (Inl err, w) \<Rightarrow> (False, pb, w)
              | (Inr bs, w) \<Rightarrow>
                  if bs = [] then (False, pb, w)
                  else (True, on_store (AddSnapshot (usage_snapshot ProviderGoogle SourceAntigravity ref [] [] now bs)) pb, w)))"

section \<open>Every sign-in\<close>

definition probe_one ::
  "(string \<Rightarrow> time option) \<Rightarrow> 'w network \<Rightarrow> time \<Rightarrow> string \<Rightarrow> claude_login \<Rightarrow> bool \<times> prober \<times> 'w \<Rightarrow> bool \<times> prober \<times> 'w" where
  "probe_one rfc3339 net now covered l acc =
     (let (recorded, pb, w) = acc; key = ''login:'' @ cl_RefHash l in
      if cl_RefHash l = covered \<or> usagePaused now key pb then (recorded, pb, w)
      else case probeLogin rfc3339 net now l pb w of
          (Inl err, pb, w) \<Rightarrow> (recorded, (case err of LoginProbe e \<Rightarrow> pauseUsage now key e pb | _ \<Rightarrow> pb), w)
        | (Inr bs, pb, w) \<Rightarrow> (recorded \<or> bs \<noteq> [], pb, w))"

definition probeUsage ::
  "(string \<Rightarrow> string) \<Rightarrow> (string \<Rightarrow> time option) \<Rightarrow> host \<Rightarrow> 'w network \<Rightarrow> probe_error + credential \<Rightarrow> quota_error + credential \<Rightarrow>
   prober \<Rightarrow> 'w \<Rightarrow> bool \<times> prober \<times> 'w" where
  "probeUsage sha rfc3339 h net read cred pb w =
     (let (covered, recorded, pb, w) = probeClaudeCode sha rfc3339 h net read pb w;
          (antigravity, pb, w) = probeAntigravity sha rfc3339 h net cred pb w
      in fold (probe_one rfc3339 net (ho_Now h) covered) (ClaudeLogins (ag_Store (pb_Agent pb))) (antigravity \<or> recorded, pb, w))"

section \<open>Keeping and forgetting a sign-in\<close>

definition LinkClaude ::
  "(string \<Rightarrow> string) \<Rightarrow> (string \<Rightarrow> time option) \<Rightarrow> 'w network \<Rightarrow> time \<Rightarrow> oauth_tokens \<Rightarrow> profile \<Rightarrow> prober \<Rightarrow> 'w \<Rightarrow>
   claude_login \<times> (login_error + bucket list) \<times> prober \<times> 'w" where
  "LinkClaude sha rfc3339 net now tokens p pb w =
     (let l = \<lparr>cl_RefHash = HashExternalRef sha ProviderAnthropic (or_else (pf_OrgID p) (pf_Email p)),
               cl_Hint = MaskRef (or_else (pf_Email p) (pf_OrgID p)), cl_PlanType = pf_PlanType p\<rparr>;
          pb = pb\<lparr>pb_Secrets := put (cl_RefHash l) (Some tokens) (pb_Secrets pb)\<rparr>;
          pb = on_store (AddClaudeLogin l) pb
      in (l, probeLogin rfc3339 net now l pb w))"

definition UnlinkClaude :: "string \<Rightarrow> prober \<Rightarrow> bool \<times> prober" where
  "UnlinkClaude hint pb =
     (case find (\<lambda>l. cl_Hint l = hint) (ClaudeLogins (ag_Store (pb_Agent pb))) of
        None \<Rightarrow> (False, pb)
      | Some l \<Rightarrow> (True, on_store (RemoveClaudeLogin (cl_RefHash l))
                     (pb\<lparr>pb_Secrets := filter (\<lambda>m. fst m \<noteq> cl_RefHash l) (pb_Secrets pb)\<rparr>)))"

section \<open>No sign-in is lost\<close>

text \<open>
  What is relied on of the token endpoint (RFC 6749, sections 5.2, 6 and 10.4). \<open>issued w q\<close> says that the refresh
  token q was given out, \<open>current w q\<close> that it was not exchanged for another yet. A grant names a current token, the
  one sent or one never given out before; the one sent may be exchanged by it. A request answered with an error
  exchanged nothing. Of a request without such an answer (none came, or one that says neither) nothing is assumed of
  the token sent. No request exchanges another token than the one sent.
\<close>

definition error_answer :: "token_body http_answer \<Rightarrow> bool" where
  "error_answer a = (case a of Answer status _ (Some (TokenError _)) \<Rightarrow> 400 \<le> status \<and> status < 500 | _ \<Rightarrow> False)"

definition oauth_endpoint :: "'w network \<Rightarrow> ('w \<Rightarrow> string \<Rightarrow> bool) \<Rightarrow> ('w \<Rightarrow> string \<Rightarrow> bool) \<Rightarrow> bool" where
  "oauth_endpoint net current issued \<longleftrightarrow>
     (\<forall>r w now. issued w r \<longrightarrow> (case requestTokens (fst (nt_refresh net r w)) r now of
        Inl _ \<Rightarrow> error_answer (fst (nt_refresh net r w)) \<longrightarrow> current w r \<longrightarrow> current (snd (nt_refresh net r w)) r
      | Inr t \<Rightarrow> current (snd (nt_refresh net r w)) (ot_Refresh t) \<and> issued (snd (nt_refresh net r w)) (ot_Refresh t) \<and>
          (ot_Refresh t = r \<or> \<not> issued w (ot_Refresh t)))) \<and>
     (\<forall>r w q. current w q \<longrightarrow> q \<noteq> r \<longrightarrow> current (snd (nt_refresh net r w)) q) \<and>
     (\<forall>token w q. current w q \<longrightarrow> current (snd (nt_usage net token w)) q \<and> current (snd (nt_profile net token w)) q \<and>
        current (snd (nt_quota net token w)) q) \<and>
     (\<forall>token w q. issued w q \<longrightarrow> issued (snd (nt_refresh net token w)) q \<and> issued (snd (nt_usage net token w)) q \<and>
        issued (snd (nt_profile net token w)) q \<and> issued (snd (nt_quota net token w)) q)"

text \<open>The network with a record, beside it, of the refresh tokens whose renewal's answer was lost.\<close>

definition lost_answer :: "token_body http_answer \<Rightarrow> string \<Rightarrow> bool" where
  "lost_answer a r = (\<not> error_answer a \<and> (case requestTokens a r 0 of Inl _ \<Rightarrow> True | Inr _ \<Rightarrow> False))"

definition beside :: "('w \<Rightarrow> 'a \<times> 'w) \<Rightarrow> 'w \<times> 'l \<Rightarrow> 'a \<times> ('w \<times> 'l)" where
  "beside f wl = (let (a, w) = f (fst wl) in (a, (w, snd wl)))"

definition observed :: "'w network \<Rightarrow> ('w \<times> string list) network" where
  "observed net =
     \<lparr>nt_usage = (\<lambda>token. beside (nt_usage net token)),
      nt_refresh = (\<lambda>r wl. let (a, w) = nt_refresh net r (fst wl) in (a, (w, if lost_answer a r then r # snd wl else snd wl))),
      nt_profile = (\<lambda>token. beside (nt_profile net token)), nt_quota = (\<lambda>token. beside (nt_quota net token))\<rparr>"

text \<open>A token the provider gave out and still exchanges, unless the answer to its renewal was lost.\<close>

definition accepted :: "('w \<Rightarrow> string \<Rightarrow> bool) \<Rightarrow> ('w \<Rightarrow> string \<Rightarrow> bool) \<Rightarrow> 'w \<times> string list \<Rightarrow> string \<Rightarrow> bool" where
  "accepted current issued wl q \<longleftrightarrow> issued (fst wl) q \<and> (current (fst wl) q \<or> q \<in> set (snd wl))"

text \<open>
  What of it the probes need, as one property of the tokens \<open>live\<close>; \<open>rotates_observed\<close> derives it from the above
  for the accepted ones.
\<close>

definition rotates :: "'w network \<Rightarrow> ('w \<Rightarrow> string \<Rightarrow> bool) \<Rightarrow> bool" where
  "rotates net live \<longleftrightarrow>
     (\<forall>r w now. live w r \<longrightarrow> (case requestTokens (fst (nt_refresh net r w)) r now of
        Inl _ \<Rightarrow> live (snd (nt_refresh net r w)) r
      | Inr t \<Rightarrow> live (snd (nt_refresh net r w)) (ot_Refresh t) \<and> (ot_Refresh t = r \<or> \<not> live w (ot_Refresh t)))) \<and>
     (\<forall>r w q. live w q \<longrightarrow> q \<noteq> r \<longrightarrow> live (snd (nt_refresh net r w)) q) \<and>
     (\<forall>token w q. live w q \<longrightarrow> live (snd (nt_usage net token w)) q \<and> live (snd (nt_profile net token w)) q \<and>
        live (snd (nt_quota net token w)) q)"

lemma requestTokens_now:
  "requestTokens a r now = Inl err \<Longrightarrow> requestTokens a r now' = Inl err"
  "requestTokens a r now = Inr t \<Longrightarrow> \<exists>t'. requestTokens a r now' = Inr t' \<and> ot_Refresh t' = ot_Refresh t"
  by (auto simp: requestTokens_def split: http_answer.splits option.splits token_body.splits if_splits)

lemma oauth_endpoint_answer:
  assumes "oauth_endpoint net current issued" "issued w r" "nt_refresh net r w = (a, w1)"
  shows "case requestTokens a r now of Inl _ \<Rightarrow> error_answer a \<longrightarrow> current w r \<longrightarrow> current w1 r
    | Inr t \<Rightarrow> current w1 (ot_Refresh t) \<and> issued w1 (ot_Refresh t) \<and> (ot_Refresh t = r \<or> \<not> issued w (ot_Refresh t))"
proof -
  have "case requestTokens (fst (nt_refresh net r w)) r now of
      Inl _ \<Rightarrow> error_answer (fst (nt_refresh net r w)) \<longrightarrow> current w r \<longrightarrow> current (snd (nt_refresh net r w)) r
    | Inr t \<Rightarrow> current (snd (nt_refresh net r w)) (ot_Refresh t) \<and> issued (snd (nt_refresh net r w)) (ot_Refresh t) \<and>
        (ot_Refresh t = r \<or> \<not> issued w (ot_Refresh t))"
    using assms(1,2) unfolding oauth_endpoint_def by blast
  then show ?thesis unfolding assms(3) fst_conv snd_conv .
qed

lemma oauth_endpoint_keeps:
  assumes "oauth_endpoint net current issued" "nt_refresh net r w = (a, w1)"
  shows "current w q \<Longrightarrow> q \<noteq> r \<Longrightarrow> current w1 q" "issued w q \<Longrightarrow> issued w1 q"
proof -
  have "current w q \<longrightarrow> q \<noteq> r \<longrightarrow> current (snd (nt_refresh net r w)) q" "issued w q \<longrightarrow> issued (snd (nt_refresh net r w)) q"
    using assms(1) unfolding oauth_endpoint_def by blast+
  then show "current w q \<Longrightarrow> q \<noteq> r \<Longrightarrow> current w1 q" "issued w q \<Longrightarrow> issued w1 q" using assms(2) by simp_all
qed

lemma rotates_observed:
  assumes "oauth_endpoint net current issued" shows "rotates (observed net) (accepted current issued)"
  unfolding rotates_def
proof (intro conjI allI impI)
  fix r now and wl :: "'a \<times> string list"
  obtain w l where wl: "wl = (w, l)" by (cases wl)
  obtain a w1 where a: "nt_refresh net r w = (a, w1)" by fastforce
  assume "accepted current issued wl r"
  then have r: "issued w r" "current w r \<or> r \<in> set l" by (auto simp: accepted_def wl)
  have kept: "issued w1 r" by (rule oauth_endpoint_keeps(2)[OF assms a r(1)])
  note answer = oauth_endpoint_answer[OF assms r(1) a, of now]
  show "case requestTokens (fst (nt_refresh (observed net) r wl)) r now of
      Inl _ \<Rightarrow> accepted current issued (snd (nt_refresh (observed net) r wl)) r
    | Inr t \<Rightarrow> accepted current issued (snd (nt_refresh (observed net) r wl)) (ot_Refresh t) \<and>
        (ot_Refresh t = r \<or> \<not> accepted current issued wl (ot_Refresh t))"
  proof (cases "requestTokens a r now")
    case (Inl err)
    then show ?thesis using answer r kept requestTokens_now(1)[OF Inl, of 0]
      by (auto simp: observed_def wl a accepted_def lost_answer_def)
  next
    case (Inr t)
    then show ?thesis using answer by (auto simp: observed_def wl a accepted_def)
  qed
next
  fix r q and wl :: "'a \<times> string list"
  obtain a w1 where a: "nt_refresh net r (fst wl) = (a, w1)" by fastforce
  assume "accepted current issued wl q" "q \<noteq> r"
  then show "accepted current issued (snd (nt_refresh (observed net) r wl)) q"
    using oauth_endpoint_keeps[OF assms a] by (auto simp: observed_def a accepted_def)
next
  fix token q and wl :: "'a \<times> string list"
  assume q: "accepted current issued wl q"
  have calls: "current w q \<Longrightarrow> current (snd (nt_usage net token w)) q \<and> current (snd (nt_profile net token w)) q \<and> current (snd (nt_quota net token w)) q"
    "issued w q \<Longrightarrow> issued (snd (nt_usage net token w)) q \<and> issued (snd (nt_profile net token w)) q \<and> issued (snd (nt_quota net token w)) q" for w
    using assms unfolding oauth_endpoint_def by blast+
  show "accepted current issued (snd (nt_usage (observed net) token wl)) q"
    using q calls[of "fst wl"] by (auto simp: observed_def accepted_def beside_def case_prod_beta' Let_def)
  show "accepted current issued (snd (nt_profile (observed net) token wl)) q"
    using q calls[of "fst wl"] by (auto simp: observed_def accepted_def beside_def case_prod_beta' Let_def)
  show "accepted current issued (snd (nt_quota (observed net) token wl)) q"
    using q calls[of "fst wl"] by (auto simp: observed_def accepted_def beside_def case_prod_beta' Let_def)
qed

text \<open>The stored sign-ins \<open>K\<close> each have a live refresh token, no two the same one.\<close>

definition signed_in :: "(string, oauth_tokens option) gomap \<Rightarrow> string set" where
  "signed_in secrets = {k. \<exists>t. map_of secrets k = Some (Some t)}"

definition logins_live :: "('w \<Rightarrow> string \<Rightarrow> bool) \<Rightarrow> string set \<Rightarrow> (string, oauth_tokens option) gomap \<Rightarrow> 'w \<Rightarrow> bool" where
  "logins_live live K secrets w \<longleftrightarrow> signed_in secrets = K \<and>
     (\<forall>k t. map_of secrets k = Some (Some t) \<longrightarrow> live w (ot_Refresh t)) \<and>
     (\<forall>k k' t t'. map_of secrets k = Some (Some t) \<longrightarrow> map_of secrets k' = Some (Some t') \<longrightarrow> ot_Refresh t = ot_Refresh t' \<longrightarrow> k = k')"

lemma logins_live_world:
  "logins_live live K s w \<Longrightarrow> (\<And>q. live w q \<Longrightarrow> live w' q) \<Longrightarrow> logins_live live K s w'"
  by (auto simp: logins_live_def)

lemma logins_live_renew:
  assumes live: "logins_live live K s w" and t: "map_of s k = Some (Some t)" and t': "live w' (ot_Refresh t')"
    and rot: "ot_Refresh t' = ot_Refresh t \<or> \<not> live w (ot_Refresh t')"
    and keep: "\<And>q. live w q \<Longrightarrow> q \<noteq> ot_Refresh t \<Longrightarrow> live w' q"
  shows "logins_live live K (put k (Some t') s) w'"
proof -
  have other: "live w' (ot_Refresh u)" "ot_Refresh u \<noteq> ot_Refresh t'"
    if u: "map_of s j = Some (Some u)" and j: "j \<noteq> k" for j u
  proof -
    have "live w (ot_Refresh u)" "ot_Refresh u \<noteq> ot_Refresh t"
      using live t u j unfolding logins_live_def by blast+
    then show "live w' (ot_Refresh u)" "ot_Refresh u \<noteq> ot_Refresh t'" using keep rot by auto
  qed
  show ?thesis unfolding logins_live_def
  proof (intro conjI allI impI)
    show "signed_in (put k (Some t') s) = K" using live t by (auto simp: logins_live_def signed_in_def update_conv')
  next
    fix j u assume "map_of (put k (Some t') s) j = Some (Some u)"
    then show "live w' (ot_Refresh u)" using other(1) t' by (cases "j = k") (auto simp: update_conv')
  next
    fix j j' u u'
    assume u: "map_of (put k (Some t') s) j = Some (Some u)" "map_of (put k (Some t') s) j' = Some (Some u')"
      and same: "ot_Refresh u = ot_Refresh u'"
    show "j = j'"
    proof (rule ccontr)
      assume ne: "j \<noteq> j'"
      consider (a) "j = k" "j' \<noteq> k" | (b) "j \<noteq> k" "j' = k" | (c) "j \<noteq> k" "j' \<noteq> k" using ne by blast
      then show False
      proof cases
        case a then show False using u same other(2)[of j' u'] by (simp add: update_conv')
      next
        case b then show False using u same other(2)[of j u] by (simp add: update_conv')
      next
        case c
        then have "map_of s j = Some (Some u)" "map_of s j' = Some (Some u')" using u by (simp_all add: update_conv')
        then show False using live same ne unfolding logins_live_def by blast
      qed
    qed
  qed
qed

lemma rotates_calls:
  assumes "rotates net live"
  shows "live w q \<Longrightarrow> live (snd (nt_usage net token w)) q" "live w q \<Longrightarrow> live (snd (nt_profile net token w)) q"
    "live w q \<Longrightarrow> live (snd (nt_quota net token w)) q" "live w q \<Longrightarrow> q \<noteq> r \<Longrightarrow> live (snd (nt_refresh net r w)) q"
  using assms by (simp_all add: rotates_def)

lemma rotates_answer:
  assumes "rotates net live" "live w r" "nt_refresh net r w = (a, w1)"
  shows "requestTokens a r now = Inl err \<Longrightarrow> live w1 r"
    "requestTokens a r now = Inr t \<Longrightarrow> live w1 (ot_Refresh t) \<and> (ot_Refresh t = r \<or> \<not> live w (ot_Refresh t))"
proof -
  have "case requestTokens (fst (nt_refresh net r w)) r now of Inl _ \<Rightarrow> live (snd (nt_refresh net r w)) r
    | Inr t \<Rightarrow> live (snd (nt_refresh net r w)) (ot_Refresh t) \<and> (ot_Refresh t = r \<or> \<not> live w (ot_Refresh t))"
    using assms(1,2) unfolding rotates_def by blast
  then show "requestTokens a r now = Inl err \<Longrightarrow> live w1 r"
    "requestTokens a r now = Inr t \<Longrightarrow> live w1 (ot_Refresh t) \<and> (ot_Refresh t = r \<or> \<not> live w (ot_Refresh t))"
    using assms(3) by simp_all
qed

lemma logins_live_calls:
  assumes "rotates net live" "logins_live live K s w"
  shows "logins_live live K s (snd (nt_usage net token w))" "logins_live live K s (snd (nt_profile net token w))"
    "logins_live live K s (snd (nt_quota net token w))"
  using assms rotates_calls(1-3)[OF assms(1)] by (auto elim: logins_live_world)

lemma on_store_secrets [simp]: "pb_Secrets (on_store f pb) = pb_Secrets pb"
  by (simp add: on_store_def)

lemma pauseUsage_secrets [simp]: "pb_Secrets (pauseUsage now key e pb) = pb_Secrets pb"
  by (simp add: pauseUsage_def split: probe_error.split)

lemma currentPlan_world: "snd (currentPlan net token w) = snd (nt_profile net token w)"
  by (simp add: currentPlan_def case_prod_beta' Let_def)

lemma LinkedUsage_live:
  assumes rot: "rotates net live" and live: "logins_live live K s w" and t: "map_of s k = Some (Some t)"
    and r: "LinkedUsage rfc (nt_usage net) (nt_refresh net) t now w = (r, w')"
  shows "logins_live live K (if lu_Refreshed r then put k (Some (lu_Tokens r)) s else s) w'"
proof (cases "now + refreshMargin < ot_ExpiresAt t")
  case True
  then show ?thesis using r logins_live_calls(1)[OF rot live] by (auto simp: LinkedUsage_current)
next
  case False
  obtain a w1 where a: "nt_refresh net (ot_Refresh t) w = (a, w1)" by (cases "nt_refresh net (ot_Refresh t) w")
  have accepted: "live w (ot_Refresh t)" using live t by (auto simp: logins_live_def)
  have others: "live w1 q" if "live w q" "q \<noteq> ot_Refresh t" for q
    using rotates_calls(4)[OF rot that] a by simp
  show ?thesis
  proof (cases "requestTokens a (ot_Refresh t) now")
    case (Inl err)
    have "live w1 (ot_Refresh t)" by (rule rotates_answer(1)[OF rot accepted a Inl])
    then have "live w1 q" if "live w q" for q using others that by (cases "q = ot_Refresh t") auto
    then have "logins_live live K s w1" using logins_live_world[OF live] by blast
    then show ?thesis using r LinkedUsage_refused[of now t "nt_refresh net", OF False a Inl] by auto
  next
    case (Inr t')
    have "live w1 (ot_Refresh t')" "ot_Refresh t' = ot_Refresh t \<or> \<not> live w (ot_Refresh t')"
      using rotates_answer(2)[OF rot accepted a Inr] by simp_all
    then have "logins_live live K (put k (Some t') s) w1"
      using logins_live_renew[OF live t _ _ others] by blast
    then show ?thesis using r LinkedUsage_renewed[of now t "nt_refresh net", OF False a Inr] logins_live_calls(1)[OF rot] by auto
  qed
qed

lemma probeLogin_live:
  assumes rot: "rotates net live" and live: "logins_live live K (pb_Secrets pb) w"
    and r: "probeLogin rfc net now l pb w = (res, pb', w')"
  shows "logins_live live K (pb_Secrets pb') w'"
proof (cases "map_of (pb_Secrets pb) (cl_RefHash l)")
  case None
  with r live show ?thesis by (simp add: probeLogin_def)
next
  case (Some v)
  show ?thesis
  proof (cases v)
    case None
    with r live Some show ?thesis by (simp add: probeLogin_def)
  next
    case t: (Some t)
    obtain u w1 where u: "LinkedUsage rfc (nt_usage net) (nt_refresh net) t now w = (u, w1)"
      by (cases "LinkedUsage rfc (nt_usage net) (nt_refresh net) t now w")
    note kept = LinkedUsage_live[OF rot live Some[unfolded t] u]
    show ?thesis using r Some t u kept logins_live_calls(2)[OF rot kept]
      by (auto simp: probeLogin_def Let_def case_prod_beta' currentPlan_world split: sum.splits if_splits prod.splits)
  qed
qed

text \<open>The parts of a round of probes each keep it.\<close>

lemma current_accounts_secrets: "current_accounts h p pb = (ac, pb') \<Longrightarrow> pb_Secrets pb' = pb_Secrets pb"
  by (auto simp: current_accounts_def Let_def split: if_splits)

lemma Probe_live:
  assumes "rotates net live" "logins_live live K s w" "Probe rfc (nt_usage net) read now w = (r, w')"
  shows "logins_live live K s w'"
  using assms(3) assms(2) logins_live_calls(1)[OF assms(1,2)]
  by (auto simp: Probe_def Let_def case_prod_beta' split: sum.splits probe_error.splits if_splits)

lemma agy_quota_live:
  assumes "rotates net live" "logins_live live K s w" "agy_quota rfc (nt_quota net) cred now w = (r, w')"
  shows "logins_live live K s w'"
  using assms(3) assms(2) logins_live_calls(3)[OF assms(1,2)]
  by (auto simp: agy_quota_def Let_def case_prod_beta' split: sum.splits if_splits http_answer.splits option.splits)

lemma probeClaudeCode_live:
  assumes rot: "rotates net live" and live: "logins_live live K (pb_Secrets pb) w"
    and r: "probeClaudeCode sha rfc h net read pb w = (c, b, pb', w')"
  shows "logins_live live K (pb_Secrets pb') w'"
proof -
  obtain ac pb1 where ac: "current_accounts h ProviderAnthropic pb = (ac, pb1)" by force
  obtain u w1 where u: "Probe rfc (nt_usage net) read (ho_Now h) w = (u, w1)" by force
  have kept: "logins_live live K (pb_Secrets pb1) w" "logins_live live K (pb_Secrets pb1) w1"
    using live Probe_live[OF rot live u] current_accounts_secrets[OF ac] by simp_all
  show ?thesis using r ac u kept logins_live_calls(2)[OF rot kept(2)]
    by (auto simp: probeClaudeCode_def Let_def case_prod_beta' currentPlan_world split: sum.splits if_splits option.splits)
qed

lemma probeAntigravity_live:
  assumes rot: "rotates net live" and live: "logins_live live K (pb_Secrets pb) w"
    and r: "probeAntigravity sha rfc h net cred pb w = (b, pb', w')"
  shows "logins_live live K (pb_Secrets pb') w'"
proof -
  obtain ac pb1 where ac: "current_accounts h ProviderGoogle pb = (ac, pb1)" by force
  obtain u w1 where u: "agy_quota rfc (nt_quota net) cred (ho_Now h) w = (u, w1)" by force
  have "logins_live live K (pb_Secrets pb1) w" "logins_live live K (pb_Secrets pb1) w1"
    using live agy_quota_live[OF rot live u] current_accounts_secrets[OF ac] by simp_all
  then show ?thesis using r ac u
    by (auto simp: probeAntigravity_def Let_def case_prod_beta' split: sum.splits if_splits option.splits)
qed

lemma probe_one_live:
  assumes rot: "rotates net live" and live: "logins_live live K (pb_Secrets pb) w"
    and r: "probe_one rfc net now covered l (b, pb, w) = (b', pb', w')"
  shows "logins_live live K (pb_Secrets pb') w'"
proof -
  obtain res pb1 w1 where p: "probeLogin rfc net now l pb w = (res, pb1, w1)" by (metis prod_cases3)
  show ?thesis using r p live probeLogin_live[OF rot live p]
    by (auto simp: probe_one_def Let_def split: sum.splits if_splits login_error.splits)
qed

lemma probe_logins_live:
  assumes "rotates net live" "logins_live live K (pb_Secrets pb) w"
    and "fold (probe_one rfc net now covered) ls (b, pb, w) = (b', pb', w')"
  shows "logins_live live K (pb_Secrets pb') w'"
  using assms(2,3)
proof (induction ls arbitrary: b pb w)
  case Nil
  then show ?case by simp
next
  case (Cons l ls)
  obtain b1 pb1 w1 where one: "probe_one rfc net now covered l (b, pb, w) = (b1, pb1, w1)" by (metis prod_cases3)
  then show ?case using Cons.IH[of pb1 w1 b1] Cons.prems probe_one_live[OF assms(1) Cons.prems(1) one] by simp
qed

text \<open>Keeping the record changes nothing else.\<close>

lemma observed_calls:
  "nt_usage (observed net) token wl = (x, wl1) \<Longrightarrow> nt_usage net token (fst wl) = (x, fst wl1)"
  "nt_profile (observed net) token wl = (y, wl1) \<Longrightarrow> nt_profile net token (fst wl) = (y, fst wl1)"
  "nt_quota (observed net) token wl = (z, wl1) \<Longrightarrow> nt_quota net token (fst wl) = (z, fst wl1)"
  "nt_refresh (observed net) token wl = (a, wl1) \<Longrightarrow> nt_refresh net token (fst wl) = (a, fst wl1)"
  by (auto simp: observed_def beside_def Let_def split: prod.splits if_splits)

lemma LinkedUsage_observed:
  assumes "LinkedUsage rfc (nt_usage (observed net)) (nt_refresh (observed net)) t now wl = (r, wl')"
  shows "LinkedUsage rfc (nt_usage net) (nt_refresh net) t now (fst wl) = (r, fst wl')"
  using assms by (auto simp: LinkedUsage_def Let_def dest!: observed_calls split: prod.splits sum.splits if_splits)

lemma currentPlan_observed: "currentPlan (observed net) token wl = (plan, wl') \<Longrightarrow> currentPlan net token (fst wl) = (plan, fst wl')"
  by (auto simp: currentPlan_def dest!: observed_calls split: prod.splits)

lemma probeLogin_observed:
  assumes "probeLogin rfc (observed net) now l pb wl = (r, pb', wl')" shows "probeLogin rfc net now l pb (fst wl) = (r, pb', fst wl')"
  using assms by (auto simp: probeLogin_def Let_def dest!: LinkedUsage_observed currentPlan_observed
      split: option.splits prod.splits sum.splits if_splits)

lemma probe_one_observed:
  assumes "probe_one rfc (observed net) now covered l (b, pb, wl) = (b', pb', wl')"
  shows "probe_one rfc net now covered l (b, pb, fst wl) = (b', pb', fst wl')"
  using assms by (auto simp: probe_one_def Let_def dest!: probeLogin_observed split: prod.splits sum.splits if_splits)

lemma probe_logins_observed:
  "fold (probe_one rfc (observed net) now covered) ls (b, pb, wl) = (b', pb', wl') \<Longrightarrow>
   fold (probe_one rfc net now covered) ls (b, pb, fst wl) = (b', pb', fst wl')"
proof (induction ls arbitrary: b pb wl)
  case (Cons l ls)
  obtain b1 pb1 wl1 where one: "probe_one rfc (observed net) now covered l (b, pb, wl) = (b1, pb1, wl1)" by (metis prod_cases3)
  then show ?case using Cons.IH[of b1 pb1 wl1] Cons.prems probe_one_observed[OF one] by simp
qed simp

lemma probeClaudeCode_observed:
  assumes "probeClaudeCode sha rfc h (observed net) read pb wl = (c, b, pb', wl')"
  shows "probeClaudeCode sha rfc h net read pb (fst wl) = (c, b, pb', fst wl')"
proof -
  have "Probe rfc (nt_usage net) read now (fst wl) = (u, fst v)" if "Probe rfc (nt_usage (observed net)) read now wl = (u, v)" for now u v
    using that by (auto simp: Probe_def Let_def dest!: observed_calls split: prod.splits sum.splits probe_error.splits if_splits)
  then show ?thesis using assms
    by (auto simp: probeClaudeCode_def Let_def dest!: currentPlan_observed split: option.splits prod.splits sum.splits if_splits)
qed

lemma probeAntigravity_observed:
  assumes "probeAntigravity sha rfc h (observed net) cred pb wl = (b, pb', wl')"
  shows "probeAntigravity sha rfc h net cred pb (fst wl) = (b, pb', fst wl')"
proof -
  have "agy_quota rfc (nt_quota net) cred now (fst wl) = (u, fst v)" if "agy_quota rfc (nt_quota (observed net)) cred now wl = (u, v)" for now u v
    using that by (auto simp: agy_quota_def Let_def dest!: observed_calls split: prod.splits sum.splits if_splits http_answer.splits option.splits)
  then show ?thesis using assms
    by (auto simp: probeAntigravity_def Let_def split: option.splits prod.splits sum.splits if_splits)
qed

text \<open>
  C15. Renewing a sign-in spends its refresh token, and no round of probes throws a renewed one away: with every
  sign-in whose refresh token the provider still exchanges before the round, all are still stored after it, each
  with a token the provider still exchanges, unless the answer to that sign-in's own renewal was lost on the way;
  in particular the renewed token is kept when the usage read that follows the renewal fails.
\<close>

theorem probeUsage_keeps_logins:
  assumes "oauth_endpoint net current issued" and "logins_live (accepted current issued) K (pb_Secrets pb) (w, lost)"
    and "probeUsage sha rfc3339 h (observed net) read cred pb (w, lost) = (b, pb', (w', lost'))"
  shows "probeUsage sha rfc3339 h net read cred pb w = (b, pb', w') \<and>
    logins_live (accepted current issued) K (pb_Secrets pb') (w', lost')"
proof -
  note rot = rotates_observed[OF assms(1)]
  obtain c b1 pb1 w1 where claude: "probeClaudeCode sha rfc3339 h (observed net) read pb (w, lost) = (c, b1, pb1, w1)" by (metis prod_cases4)
  obtain b2 pb2 w2 where agy: "probeAntigravity sha rfc3339 h (observed net) cred pb1 w1 = (b2, pb2, w2)" by (metis prod_cases3)
  have logins: "fold (probe_one rfc3339 (observed net) (ho_Now h) c) (ClaudeLogins (ag_Store (pb_Agent pb2))) (b2 \<or> b1, pb2, w2) = (b, pb', (w', lost'))"
    using assms(3) claude agy by (simp add: probeUsage_def Let_def)
  have "probeUsage sha rfc3339 h net read cred pb w = (b, pb', w')"
    using probeClaudeCode_observed[OF claude] probeAntigravity_observed[OF agy] probe_logins_observed[OF logins] by (simp add: probeUsage_def)
  then show ?thesis
    using probe_logins_live[OF rot probeAntigravity_live[OF rot probeClaudeCode_live[OF rot assms(2) claude] agy] logins] by simp
qed

text \<open>
  A provider whose state is the tokens it exchanges and all it ever gave out. It is busy, and loses its answer
  to the renewal of \<open>s\<close>.
\<close>

definition busy_provider :: "(string list \<times> string list) network" where
  "busy_provider =
     \<lparr>nt_usage = (\<lambda>_ w. (Answer 500 [] None, w)),
      nt_refresh = (\<lambda>r (c, i). if r \<in> set c
        then (if r = ''s'' then NoAnswer else Answer 200 [] (Some (TokenGrant \<lparr>tr_AccessToken = ''a'', tr_RefreshToken = concat i @ ''x'', tr_ExpiresIn = 60\<rparr>)),
              ((concat i @ ''x'') # filter (\<lambda>q. q \<noteq> r) c, (concat i @ ''x'') # i))
        else (Answer 400 [] (Some (TokenError ''invalid_grant'')), (c, i))),
      nt_profile = (\<lambda>_ w. (NoAnswer, w)), nt_quota = (\<lambda>_ w. (NoAnswer, w))\<rparr>"

lemma concat_longer: "x \<in> set w \<Longrightarrow> length x \<le> length (concat w)"
  by (induction w) auto

lemma busy_provider_endpoint: "oauth_endpoint busy_provider (\<lambda>w q. q \<in> set (fst w)) (\<lambda>w q. q \<in> set (snd w))"
proof -
  have "concat i @ ''x'' \<notin> set i" for i :: "string list"
    using concat_longer[of "concat i @ ''x''" i] by auto
  then show ?thesis
    by (auto simp: oauth_endpoint_def busy_provider_def requestTokens_def error_answer_def StatusOK_http_def or_else_def)
qed

definition demo_prober :: prober where
  "demo_prober = \<lparr>pb_Agent = with_store (AddClaudeLogin \<lparr>cl_RefHash = ''h'', cl_Hint = ''a***'', cl_PlanType = ''pro''\<rparr>)
       (with_store (AddClaudeLogin \<lparr>cl_RefHash = ''g'', cl_Hint = ''b***'', cl_PlanType = ''pro''\<rparr>) demo_joined),
     pb_RetryAt = [], pb_Secrets = [(''h'', Some \<lparr>ot_Access = ''t'', ot_Refresh = ''r'', ot_ExpiresAt = 0\<rparr>),
       (''g'', Some \<lparr>ot_Access = ''u'', ot_Refresh = ''s'', ot_ExpiresAt = 0\<rparr>)]\<rparr>"

definition demo_round :: "bool \<times> prober \<times> (string list \<times> string list) \<times> string list" where
  "demo_round = probeUsage demo_sha (\<lambda>_. None) demo_host (observed busy_provider) (Inl ErrNoCredential) (Inl QuotaNotSignedIn)
     demo_prober ((([''r'', ''s''], [''r'', ''s'']), []))"

lemma probeUsage_keeps_logins_witness:
  "logins_live (accepted (\<lambda>w q. q \<in> set (fst w)) (\<lambda>w q. q \<in> set (snd w))) {''h'', ''g''} (pb_Secrets (fst (snd demo_round))) (snd (snd demo_round)) \<and>
   map_option (map_option ot_Refresh) (map_of (pb_Secrets (fst (snd demo_round))) ''h'') \<notin> {Some (Some ''r''), None} \<and>
   snd (snd (snd demo_round)) = [''s'']"
proof (intro conjI)
  have start: "logins_live (accepted (\<lambda>w q. q \<in> set (fst w)) (\<lambda>w q. q \<in> set (snd w))) {''h'', ''g''} (pb_Secrets demo_prober) (([''r'', ''s''], [''r'', ''s'']), [])"
    by (auto simp: logins_live_def demo_prober_def accepted_def signed_in_def split: if_splits)
  obtain b pb' w' lost' where r: "demo_round = (b, pb', (w', lost'))" by (metis prod_cases4)
  from probeUsage_keeps_logins[OF busy_provider_endpoint start r[unfolded demo_round_def]]
  show "logins_live (accepted (\<lambda>w q. q \<in> set (fst w)) (\<lambda>w q. q \<in> set (snd w))) {''h'', ''g''} (pb_Secrets (fst (snd demo_round))) (snd (snd demo_round))"
    by (simp add: r)
qed code_simp+

end
