(* ===== verification/ClaudeConfig.thy ===== *)
theory ClaudeConfig
  imports GoStrings
begin

text \<open>
  \<open>internal/provider/anthropic/config/config.go\<close> and \<open>internal/client/agent/statusline.go\<close>: installing
  ShareCodex's statusLine command in Claude Code's \<open>settings.json\<close> and putting back what was there.

  A JSON text is the syntax tree it denotes: \<open>json.Compact\<close> gives two texts the same bytes when
  their trees are equal (with strings escaped alike, as \<open>json.Marshal\<close> writes them), and \<open>encode\<close>
  writes the text of an object that \<open>decodeObject\<close> reads back. The files of the disk can be read
  and written.
\<close>

section \<open>JSON values\<close>

datatype json = JNull | JBool bool | JInt int | JNumber string | JString string
  | JArray "json list" | JObject "(string \<times> json) list"

text \<open>
  What \<open>Unmarshal\<close> puts in the one field of a struct: keys match in any case and the last one counts.
  \<open>conv\<close> is what a value makes of the field as it is: \<open>null\<close> leaves a string as it is and sets a pointer to
  nil, and a value of another type is an error at the end.
\<close>

fun field_of :: "string \<Rightarrow> (json \<Rightarrow> 'a \<Rightarrow> 'a option) \<Rightarrow> (string \<times> json) list \<Rightarrow> 'a \<Rightarrow> 'a option" where
  "field_of name conv [] cur = Some cur"
| "field_of name conv ((k, v) # ms) cur =
     (if to_lower k \<noteq> name then field_of name conv ms cur
      else case conv v cur of None \<Rightarrow> None | Some x \<Rightarrow> field_of name conv ms x)"

definition string_value :: "json \<Rightarrow> string \<Rightarrow> string option" where
  "string_value v cur = (case v of JNull \<Rightarrow> Some cur | JString s \<Rightarrow> Some s | _ \<Rightarrow> None)"

definition int_pointer :: "json \<Rightarrow> int option \<Rightarrow> int option option" where
  "int_pointer v cur = (case v of JNull \<Rightarrow> Some None | JInt i \<Rightarrow> Some (Some i) | _ \<Rightarrow> None)"

definition command_of :: "json \<Rightarrow> string option" where
  "command_of v = (case v of JNull \<Rightarrow> Some [] | JObject ms \<Rightarrow> field_of ''command'' string_value ms [] | _ \<Rightarrow> None)"

definition padding_of :: "json \<Rightarrow> int option" where
  "padding_of v = (case v of JObject ms \<Rightarrow>
     (case field_of ''padding'' int_pointer ms None of Some p \<Rightarrow> p | None \<Rightarrow> None) | _ \<Rightarrow> None)"

section \<open>The settings object\<close>

definition statusLineKey :: string where "statusLineKey = ''statusLine''"

type_synonym json_object = "(string \<times> json) list"

definition object_get :: "json_object \<Rightarrow> string \<Rightarrow> json option" where "object_get ob key = map_of ob key"

fun object_set :: "json_object \<Rightarrow> string \<Rightarrow> json option \<Rightarrow> json_object" where
  "object_set [] key v = (case v of None \<Rightarrow> [] | Some x \<Rightarrow> [(key, x)])"
| "object_set ((k, y) # ms) key v =
     (if k = key then (case v of None \<Rightarrow> ms | Some x \<Rightarrow> (k, x) # ms) else (k, y) # object_set ms key v)"

text \<open>What a settings file holds: nothing but white space, no JSON object, or an object.\<close>

datatype settings_text = Blank string | NotObject string | Members json_object

definition decodeObject :: "settings_text option \<Rightarrow> json_object option" where
  "decodeObject t = (case t of None \<Rightarrow> Some [] | Some (Blank _) \<Rightarrow> Some [] | Some (NotObject _) \<Rightarrow> None | Some (Members ob) \<Rightarrow> Some ob)"

section \<open>Plans\<close>

record change_plan =
  cp_Previous :: "json option"
  cp_Next :: "json option"
  cp_changed :: bool

definition ShimCommand :: "string \<Rightarrow> string" where
  "ShimCommand executable = [CHR 0x22] @ executable @ [CHR 0x22] @ '' statusline''"

definition PointsAt :: "json option \<Rightarrow> string \<Rightarrow> bool" where
  "PointsAt v executable = (case v of None \<Rightarrow> False | Some x \<Rightarrow> command_of x = Some (ShimCommand executable))"

definition IsShim :: "json option \<Rightarrow> bool" where
  "IsShim v = (case v of None \<Rightarrow> False | Some x \<Rightarrow> (case command_of x of None \<Rightarrow> False | Some c \<Rightarrow>
     has_suffix c '' statusline'' \<and> contains (to_lower c) ''sharecodex''))"

text \<open>\<open>json.Marshal\<close> writes the keys of a map in order.\<close>

definition shim_value :: "string \<Rightarrow> int option \<Rightarrow> json" where
  "shim_value command padding = JObject ([(''command'', JString command)] @
     (case padding of None \<Rightarrow> [] | Some p \<Rightarrow> [(''padding'', JInt p)]) @ [(''type'', JString ''command'')])"

definition PlanInstall :: "settings_text option \<Rightarrow> string \<Rightarrow> change_plan option" where
  "PlanInstall settings command = (case decodeObject settings of None \<Rightarrow> None | Some ob \<Rightarrow>
     (let prev = object_get ob statusLineKey;
          next' = shim_value command (case prev of None \<Rightarrow> None | Some p \<Rightarrow> padding_of p)
      in Some \<lparr>cp_Previous = prev, cp_Next = Some next', cp_changed = (prev \<noteq> Some next')\<rparr>))"

definition PlanRestore :: "settings_text option \<Rightarrow> json option \<Rightarrow> change_plan option" where
  "PlanRestore settings original = (case decodeObject settings of None \<Rightarrow> None | Some ob \<Rightarrow>
     (let prev = object_get ob statusLineKey in
      if prev = None \<or> \<not> IsShim prev then Some \<lparr>cp_Previous = prev, cp_Next = None, cp_changed = False\<rparr>
      else Some \<lparr>cp_Previous = prev, cp_Next = (if original = Some JNull then None else original), cp_changed = True\<rparr>))"

section \<open>The files and the saved statusLine\<close>

text \<open>The settings file, its backup, and the statusLine ShareCodex keeps in its own settings.\<close>

record claude_settings =
  cf_File :: "settings_text option"
  cf_Backup :: "settings_text option"
  cf_Saved :: "json option"

datatype config_error = ErrNotJSONObject | ErrSettingsChanged | ErrTranslocated

definition has_bytes :: "settings_text option \<Rightarrow> bool" where
  "has_bytes t = (case t of None \<Rightarrow> False | Some (Blank s) \<Rightarrow> s \<noteq> [] | Some _ \<Rightarrow> True)"

definition Apply :: "change_plan \<Rightarrow> claude_settings \<Rightarrow> config_error option \<times> claude_settings" where
  "Apply plan st =
     (if \<not> cp_changed plan then (None, st)
      else case decodeObject (cf_File st) of None \<Rightarrow> (Some ErrNotJSONObject, st) | Some ob \<Rightarrow>
        if object_get ob statusLineKey \<noteq> cp_Previous plan then (Some ErrSettingsChanged, st)
        else (None, st\<lparr>cf_File := Some (Members (object_set ob statusLineKey (cp_Next plan))),
               cf_Backup := (if has_bytes (cf_File st) \<and> cf_Backup st = None then cf_File st else cf_Backup st)\<rparr>))"

definition translocated :: "string \<Rightarrow> bool" where
  "translocated executable = contains executable ''/AppTranslocation/''"

definition InstallStatusLine :: "string \<Rightarrow> claude_settings \<Rightarrow> config_error option \<times> claude_settings" where
  "InstallStatusLine executable st =
     (if translocated executable then (Some ErrTranslocated, st)
      else case PlanInstall (cf_File st) (ShimCommand executable) of
          None \<Rightarrow> (Some ErrNotJSONObject, st)
        | Some plan \<Rightarrow>
            if \<not> cp_changed plan then (None, st)
            else let st = (if cf_Saved st = None \<and> \<not> IsShim (cp_Previous plan)
                           then st\<lparr>cf_Saved := Some (case cp_Previous plan of None \<Rightarrow> JNull | Some p \<Rightarrow> p)\<rparr> else st)
                 in Apply plan st)"

definition RestoreStatusLine :: "claude_settings \<Rightarrow> config_error option \<times> claude_settings" where
  "RestoreStatusLine st =
     (case PlanRestore (cf_File st) (cf_Saved st) of
        None \<Rightarrow> (Some ErrNotJSONObject, st)
      | Some plan \<Rightarrow> (case Apply plan st of
            (Some err, st) \<Rightarrow> (Some err, st)
          | (None, st) \<Rightarrow> (None, st\<lparr>cf_Saved := None\<rparr>)))"

text \<open>At start, a shim of another copy of the app is pointed at this one.\<close>

definition shim_elsewhere :: "string \<Rightarrow> settings_text option \<Rightarrow> bool" where
  "shim_elsewhere executable file \<longleftrightarrow>
     (case decodeObject file of None \<Rightarrow> False | Some ob \<Rightarrow>
        (let v = object_get ob statusLineKey in IsShim v \<and> \<not> PointsAt v executable))"

section \<open>Objects\<close>

lemma object_get_set: "object_get (object_set ob key (Some v)) k = (if k = key then Some v else object_get ob k)"
  by (induction ob key "Some v" rule: object_set.induct) (auto simp: object_get_def)

lemma object_get_set_other: "k \<noteq> key \<Longrightarrow> object_get (object_set ob key v) k = object_get ob k"
  by (induction ob key v rule: object_set.induct) (auto simp: object_get_def split: option.split)

lemma object_set_again: "object_set (object_set ob key (Some w)) key v = object_set ob key v"
  by (induction ob key "Some w" rule: object_set.induct) (auto split: option.split)

lemma object_set_same: "object_get ob key = Some v \<Longrightarrow> object_set ob key (Some v) = ob"
  by (induction ob key "Some v" rule: object_set.induct) (auto simp: object_get_def)

lemma object_set_none: "object_get ob key = None \<Longrightarrow> object_set ob key None = ob"
  by (induction ob key "None :: json option" rule: object_set.induct) (auto simp: object_get_def split: if_splits)

lemma object_set_others: "filter (\<lambda>m. fst m \<noteq> key) (object_set ob key v) = filter (\<lambda>m. fst m \<noteq> key) ob"
  by (induction ob key v rule: object_set.induct) (auto split: option.split)

section \<open>The shim\<close>

lemma command_of_shim [simp]: "command_of (shim_value c p) = Some c"
  by (cases p) (simp_all add: command_of_def shim_value_def string_value_def to_lower_def lower_char_def)

lemma padding_of_shim [simp]: "padding_of (shim_value c p) = p"
  by (cases p) (simp_all add: padding_of_def shim_value_def int_pointer_def to_lower_def lower_char_def)

text \<open>A path the app recognises as its own.\<close>

definition own_path :: "string \<Rightarrow> bool" where
  "own_path executable \<longleftrightarrow> contains (to_lower executable) ''sharecodex'' \<and> \<not> translocated executable"

lemma IsShim_shim: "own_path exe \<Longrightarrow> IsShim (Some (shim_value (ShimCommand exe) p))"
proof -
  assume "own_path exe"
  then obtain a b where "to_lower exe = a @ ''sharecodex'' @ b" by (auto simp: own_path_def contains_iff)
  then have "to_lower (ShimCommand exe) = (to_lower [CHR 0x22] @ a) @ ''sharecodex'' @ (b @ to_lower ([CHR 0x22] @ '' statusline''))"
    by (simp add: ShimCommand_def to_lower_def)
  then have "contains (to_lower (ShimCommand exe)) ''sharecodex''" unfolding contains_iff by blast
  moreover have "has_suffix (ShimCommand exe) '' statusline''"
    using has_suffix_append[of "[CHR 0x22] @ exe @ [CHR 0x22]" "'' statusline''"] by (simp add: ShimCommand_def)
  ultimately show ?thesis by (simp add: IsShim_def)
qed

text \<open>The states between the first install and the restore: the object is the original one with
  a shim for its statusLine, and what the original had is saved.\<close>

definition installed :: "json_object \<Rightarrow> claude_settings \<Rightarrow> bool" where
  "installed ob st \<longleftrightarrow> (\<exists>c p. cf_File st = Some (Members (object_set ob statusLineKey (Some (shim_value c p)))) \<and>
     IsShim (Some (shim_value c p)) \<and>
     cf_Saved st = Some (case object_get ob statusLineKey of None \<Rightarrow> JNull | Some v \<Rightarrow> v))"

lemma install_first:
  assumes "decodeObject (cf_File st) = Some ob" "cf_Saved st = None" "\<not> IsShim (object_get ob statusLineKey)" "own_path exe"
    and st': "InstallStatusLine exe st = (err, st')"
  shows "err = None \<and> installed ob st'"
proof -
  define v where "v = shim_value (ShimCommand exe) (case object_get ob statusLineKey of None \<Rightarrow> None | Some p \<Rightarrow> padding_of p)"
  have shim: "IsShim (Some v)" unfolding v_def by (rule IsShim_shim[OF assms(4)])
  then have "object_get ob statusLineKey \<noteq> Some v" using assms(3) by auto
  then have "err = None \<and> cf_File st' = Some (Members (object_set ob statusLineKey (Some v))) \<and>
      cf_Saved st' = Some (case object_get ob statusLineKey of None \<Rightarrow> JNull | Some v \<Rightarrow> v)"
    using assms(1,2,3,4) st'
    by (auto simp: InstallStatusLine_def PlanInstall_def Apply_def Let_def own_path_def v_def split: option.splits)
  then show ?thesis using shim unfolding installed_def v_def by blast
qed

lemma install_again:
  assumes "installed ob st" "own_path exe" "InstallStatusLine exe st = (err, st')"
  shows "err = None \<and> installed ob st'"
proof -
  obtain c p where f: "cf_File st = Some (Members (object_set ob statusLineKey (Some (shim_value c p))))"
    and shim: "IsShim (Some (shim_value c p))"
    and sv: "cf_Saved st = Some (case object_get ob statusLineKey of None \<Rightarrow> JNull | Some v \<Rightarrow> v)"
    using assms(1) by (auto simp: installed_def)
  have own: "\<not> translocated exe" using assms(2) by (simp add: own_path_def)
  show ?thesis
  proof (cases "c = ShimCommand exe")
    case True
    then have "err = None \<and> st' = st" using assms(3) own
      by (simp add: InstallStatusLine_def PlanInstall_def f decodeObject_def object_get_set Let_def)
    then show ?thesis using assms(1) by simp
  next
    case False
    then have "shim_value c p \<noteq> shim_value (ShimCommand exe) p" by (simp add: shim_value_def)
    then have "err = None \<and> cf_File st' = Some (Members (object_set ob statusLineKey (Some (shim_value (ShimCommand exe) p)))) \<and> cf_Saved st' = cf_Saved st"
      using assms(3) own
      by (auto simp: InstallStatusLine_def PlanInstall_def Apply_def f decodeObject_def object_get_set object_set_again Let_def sv)
    then show ?thesis using sv IsShim_shim[OF assms(2)] unfolding installed_def by metis
  qed
qed

text \<open>Every executable in turn installs itself.\<close>

primrec install_all :: "string list \<Rightarrow> claude_settings \<Rightarrow> claude_settings" where
  "install_all [] st = st"
| "install_all (exe # exes) st = install_all exes (snd (InstallStatusLine exe st))"

lemma install_all_installed: "installed ob st \<Longrightarrow> list_all own_path exes \<Longrightarrow> installed ob (install_all exes st)"
proof (induction exes arbitrary: st)
  case (Cons exe exes)
  then show ?case using install_again[of ob st exe] by (cases "InstallStatusLine exe st") simp
qed simp

text \<open>
  C25. Installing the statusLine, however often and from however many copies of the app, and then
  restoring it gives back the settings file the user had: every setting, in its order, with its
  value, and the statusLine that was there or none.
\<close>

theorem statusLine_roundtrip:
  assumes "cf_File st = Some (Members ob)" and "cf_Saved st = None"
    and "\<not> IsShim (object_get ob statusLineKey)" and "object_get ob statusLineKey \<noteq> Some JNull"
    and "list_all own_path (exe # exes)"
  shows "\<exists>st'. RestoreStatusLine (install_all (exe # exes) st) = (None, st') \<and>
    cf_File st' = Some (Members ob) \<and> cf_Saved st' = None"
proof -
  have "decodeObject (cf_File st) = Some ob" using assms(1) by (simp add: decodeObject_def)
  moreover have "own_path exe" using assms(5) by simp
  ultimately have "installed ob (snd (InstallStatusLine exe st))"
    using install_first[OF _ assms(2,3)] by (metis surjective_pairing)
  then have "installed ob (install_all (exe # exes) st)" using install_all_installed assms(5) by simp
  then obtain c p where f: "cf_File (install_all (exe # exes) st) = Some (Members (object_set ob statusLineKey (Some (shim_value c p))))"
    and shim: "IsShim (Some (shim_value c p))"
    and sv: "cf_Saved (install_all (exe # exes) st) = Some (case object_get ob statusLineKey of None \<Rightarrow> JNull | Some v \<Rightarrow> v)"
    by (auto simp: installed_def)
  have "object_set ob statusLineKey (case object_get ob statusLineKey of None \<Rightarrow> None | Some v \<Rightarrow> Some v) = ob"
    by (cases "object_get ob statusLineKey") (simp_all add: object_set_none object_set_same)
  then show ?thesis using assms(4) shim f sv
    by (cases "object_get ob statusLineKey")
      (auto simp: RestoreStatusLine_def PlanRestore_def Apply_def decodeObject_def object_get_set object_set_again Let_def)
qed

lemma statusLine_roundtrip_witness:
  "\<exists>st'. RestoreStatusLine (install_all [''/opt/ShareCodex'', ''/Applications/sharecodex'']
       \<lparr>cf_File = Some (Members [(''model'', JString ''opus''), (''statusLine'', JObject [(''command'', JString ''date'')])]),
        cf_Backup = None, cf_Saved = None\<rparr>) = (None, st') \<and>
    cf_File st' = Some (Members [(''model'', JString ''opus''), (''statusLine'', JObject [(''command'', JString ''date'')])]) \<and>
    cf_Saved st' = None"
  by (rule statusLine_roundtrip) (simp, simp, code_simp, code_simp, code_simp)

text \<open>
  The user's other settings are never touched: after any install or restore the file holds the
  same members but the statusLine, in the same order.
\<close>

lemma statusLine_alone:
  assumes "decodeObject (cf_File st) = Some ob"
  shows "\<exists>ob'. decodeObject (cf_File (snd (InstallStatusLine exe st))) = Some ob' \<and>
      filter (\<lambda>m. fst m \<noteq> statusLineKey) ob' = filter (\<lambda>m. fst m \<noteq> statusLineKey) ob"
    "\<exists>ob'. decodeObject (cf_File (snd (RestoreStatusLine st))) = Some ob' \<and>
      filter (\<lambda>m. fst m \<noteq> statusLineKey) ob' = filter (\<lambda>m. fst m \<noteq> statusLineKey) ob"
proof -
  have ap: "\<exists>ob'. decodeObject (cf_File (snd (Apply plan s))) = Some ob' \<and>
      filter (\<lambda>m. fst m \<noteq> statusLineKey) ob' = filter (\<lambda>m. fst m \<noteq> statusLineKey) ob"
    if "decodeObject (cf_File s) = Some ob" for plan s
    using that by (auto simp: Apply_def object_set_others decodeObject_def[of "Some (Members _)"])
  show "\<exists>ob'. decodeObject (cf_File (snd (InstallStatusLine exe st))) = Some ob' \<and>
      filter (\<lambda>m. fst m \<noteq> statusLineKey) ob' = filter (\<lambda>m. fst m \<noteq> statusLineKey) ob"
    using assms ap[of st] ap[of "st\<lparr>cf_Saved := x\<rparr>" for x]
    by (simp add: InstallStatusLine_def PlanInstall_def Let_def)
  show "\<exists>ob'. decodeObject (cf_File (snd (RestoreStatusLine st))) = Some ob' \<and>
      filter (\<lambda>m. fst m \<noteq> statusLineKey) ob' = filter (\<lambda>m. fst m \<noteq> statusLineKey) ob"
    using assms ap[of st]
    by (auto simp: RestoreStatusLine_def PlanRestore_def Let_def case_prod_beta' split: option.split)
qed

text \<open>
  A statusLine the user set after the first install does not survive a second one: what was saved
  at the first is kept, so a restore brings back the older one.
\<close>

lemma later_statusLine_lost:
  "let mine = JObject [(''command'', JString ''date'')]; newer = JObject [(''command'', JString ''uptime'')];
       st = install_all [''/opt/ShareCodex''] \<lparr>cf_File = Some (Members [(''statusLine'', mine)]), cf_Backup = None, cf_Saved = None\<rparr>;
       st = install_all [''/opt/ShareCodex''] (st\<lparr>cf_File := Some (Members [(''statusLine'', newer)])\<rparr>)
   in cf_File (snd (RestoreStatusLine st)) = Some (Members [(''statusLine'', mine)]) \<and>
      cf_Saved (snd (RestoreStatusLine st)) = None \<and> cf_Backup st = Some (Members [(''statusLine'', mine)])"
  by code_simp

end
