(* ===== verification/Preferences.thy ===== *)
theory Preferences
  imports AgentIngest ClaudeConfig
begin

text \<open>
  \<open>internal/client/settings/settings.go\<close>, \<open>internal/client/agent/window.go\<close> and what \<open>agent/statusline.go\<close>
  changes of the settings: the saved settings and the operations of the popup and the widgets on
  them. Memory and file are a pair; a file that cannot be written is not modelled.
\<close>

section \<open>Settings\<close>

record widget =
  wg_AccountID :: string
  wg_Placed :: bool
  wg_X :: int
  wg_Y :: int
  wg_Height :: int

record settings =
  se_ServerURL :: string
  se_DeviceID :: string
  se_DeviceName :: string
  se_PersonID :: string
  se_PersonName :: string
  se_StatusLine :: "json option"
  se_LaunchAtLogin :: bool
  se_PopupHeight :: int
  se_Language :: string
  se_FineChart :: bool
  se_AccountSort :: string
  se_AccountOrder :: "string list"
  se_ModelSort :: string
  se_Widgets :: "widget list"

definition no_settings :: settings where
  "no_settings = \<lparr>se_ServerURL = [], se_DeviceID = [], se_DeviceName = [], se_PersonID = [], se_PersonName = [],
     se_StatusLine = None, se_LaunchAtLogin = False, se_PopupHeight = 0, se_Language = [], se_FineChart = False,
     se_AccountSort = [], se_AccountOrder = [], se_ModelSort = [], se_Widgets = []\<rparr>"

definition Paired :: "settings \<Rightarrow> bool" where
  "Paired st \<longleftrightarrow> se_ServerURL st \<noteq> [] \<and> se_DeviceID st \<noteq> []"

text \<open>What reading the file gives, and what it then means: no file is the empty settings.\<close>

datatype settings_file = SettingsMissing | SettingsUnreadable | SettingsUndecodable | SettingsStored settings

definition Load :: "settings_file \<Rightarrow> settings option" where
  "Load f = (case f of SettingsMissing \<Rightarrow> Some no_settings | SettingsStored st \<Rightarrow> Some st | _ \<Rightarrow> None)"

section \<open>Preferences\<close>

record prefs =
  pf_Settings :: settings
  pf_File :: settings_file

text \<open>Every change is made in memory, then saved.\<close>

definition change_settings :: "(settings \<Rightarrow> settings) \<Rightarrow> prefs \<Rightarrow> prefs" where
  "change_settings f p = (let st = f (pf_Settings p) in p\<lparr>pf_Settings := st, pf_File := SettingsStored st\<rparr>)"

definition PopupHeight :: "prefs \<Rightarrow> int" where "PopupHeight p = se_PopupHeight (pf_Settings p)"

definition SetPopupHeight :: "int \<Rightarrow> prefs \<Rightarrow> prefs" where
  "SetPopupHeight height p = (if se_PopupHeight (pf_Settings p) = height then p
     else change_settings (\<lambda>st. st\<lparr>se_PopupHeight := height\<rparr>) p)"

definition SetFineChart :: "bool \<Rightarrow> prefs \<Rightarrow> prefs" where
  "SetFineChart enabled = change_settings (\<lambda>st. st\<lparr>se_FineChart := enabled\<rparr>)"

definition accountSorts :: "string list" where "accountSorts = ['''', ''five_hour'', ''weekly'', ''custom'']"
definition modelSorts :: "string list" where "modelSorts = ['''', ''tokens'']"
definition languages :: "string list" where "languages = [''en'', ''zh-TW'']"

text \<open>\<open>None\<close> is a value the popup does not have, which is refused.\<close>

definition SetAccountSort :: "string \<Rightarrow> prefs \<Rightarrow> prefs option" where
  "SetAccountSort order p = (if order \<notin> set accountSorts then None else Some (change_settings (\<lambda>st. st\<lparr>se_AccountSort := order\<rparr>) p))"

definition SetModelSort :: "string \<Rightarrow> prefs \<Rightarrow> prefs option" where
  "SetModelSort order p = (if order \<notin> set modelSorts then None else Some (change_settings (\<lambda>st. st\<lparr>se_ModelSort := order\<rparr>) p))"

definition SetLanguage :: "string \<Rightarrow> prefs \<Rightarrow> prefs option" where
  "SetLanguage lang p = (if lang \<notin> set languages then None else Some (change_settings (\<lambda>st. st\<lparr>se_Language := lang\<rparr>) p))"

definition SetAccountOrder :: "string list \<Rightarrow> prefs \<Rightarrow> prefs" where
  "SetAccountOrder ids = change_settings (\<lambda>st. st\<lparr>se_AccountSort := ''custom'', se_AccountOrder := ids\<rparr>)"

definition Language :: "settings \<Rightarrow> string" where
  "Language st = (case find (\<lambda>l. se_Language st = l) languages of Some l \<Rightarrow> l | None \<Rightarrow> hd languages)"

section \<open>Widgets\<close>

definition updateWidgets :: "(widget list \<Rightarrow> widget list) \<Rightarrow> prefs \<Rightarrow> prefs" where
  "updateWidgets f = change_settings (\<lambda>st. st\<lparr>se_Widgets := f (se_Widgets st)\<rparr>)"

definition PinAccount :: "string \<Rightarrow> prefs \<Rightarrow> prefs" where
  "PinAccount i = updateWidgets (\<lambda>ws. if \<exists>w \<in> set ws. wg_AccountID w = i then ws
     else ws @ [\<lparr>wg_AccountID = i, wg_Placed = False, wg_X = 0, wg_Y = 0, wg_Height = 0\<rparr>])"

definition UnpinAccount :: "string \<Rightarrow> prefs \<Rightarrow> prefs" where
  "UnpinAccount i = updateWidgets (filter (\<lambda>w. wg_AccountID w \<noteq> i))"

text \<open>The first widget of the account, if there is one.\<close>

fun set_widget :: "string \<Rightarrow> (widget \<Rightarrow> widget) \<Rightarrow> widget list \<Rightarrow> widget list" where
  "set_widget i f [] = []"
| "set_widget i f (w # ws) = (if wg_AccountID w = i then f w # ws else w # set_widget i f ws)"

definition SetWidgetPosition :: "string \<Rightarrow> int \<Rightarrow> int \<Rightarrow> prefs \<Rightarrow> prefs" where
  "SetWidgetPosition i x y = updateWidgets (set_widget i (\<lambda>w. w\<lparr>wg_Placed := True, wg_X := x, wg_Y := y\<rparr>))"

definition SetWidgetHeight :: "string \<Rightarrow> int \<Rightarrow> prefs \<Rightarrow> prefs" where
  "SetWidgetHeight i height = updateWidgets (set_widget i (\<lambda>w. w\<lparr>wg_Height := height\<rparr>))"

section \<open>The statusLine and the login item\<close>

text \<open>
  \<open>InstallStatusLine\<close> of \<open>ClaudeConfig\<close> with the agent's own settings: they are saved whenever the plan is not
  empty. A restore saves them when Claude Code's settings were put back.
\<close>

definition install_saves :: "string \<Rightarrow> settings_text option \<Rightarrow> bool" where
  "install_saves executable file \<longleftrightarrow> \<not> translocated executable \<and>
     (case PlanInstall file (ShimCommand executable) of None \<Rightarrow> False | Some plan \<Rightarrow> cp_changed plan)"

definition Agent_InstallStatusLine ::
  "string \<Rightarrow> settings_text option \<Rightarrow> settings_text option \<Rightarrow> prefs \<Rightarrow> config_error option \<times> claude_settings \<times> prefs" where
  "Agent_InstallStatusLine executable file backup p =
     (case InstallStatusLine executable \<lparr>cf_File = file, cf_Backup = backup, cf_Saved = se_StatusLine (pf_Settings p)\<rparr> of
        (err, cf) \<Rightarrow> (err, cf,
          if install_saves executable file then change_settings (\<lambda>st. st\<lparr>se_StatusLine := cf_Saved cf\<rparr>) p else p))"

definition Agent_RestoreStatusLine ::
  "settings_text option \<Rightarrow> settings_text option \<Rightarrow> prefs \<Rightarrow> config_error option \<times> claude_settings \<times> prefs" where
  "Agent_RestoreStatusLine file backup p =
     (case RestoreStatusLine \<lparr>cf_File = file, cf_Backup = backup, cf_Saved = se_StatusLine (pf_Settings p)\<rparr> of
        (err, cf) \<Rightarrow> (err, cf, if err = None then change_settings (\<lambda>st. st\<lparr>se_StatusLine := cf_Saved cf\<rparr>) p else p))"

text \<open>A system's way of running at login: what it answers, and the item it leaves.\<close>

datatype autostart_error = SystemctlFailed "string list" string | AutostartUnsupported

datatype launch_error = LaunchTranslocated | LaunchItem autostart_error

type_synonym 'o login_item = "string \<Rightarrow> bool \<Rightarrow> 'o \<Rightarrow> autostart_error option \<times> 'o"

definition SetLaunchAtLogin :: "'o login_item \<Rightarrow> string \<Rightarrow> bool \<Rightarrow> prefs \<Rightarrow> 'o \<Rightarrow> launch_error option \<times> prefs \<times> 'o" where
  "SetLaunchAtLogin item executable enabled p os =
     (if enabled \<and> translocated executable then (Some LaunchTranslocated, p, os)
      else case item executable enabled os of
          (Some err, os) \<Rightarrow> (Some (LaunchItem err), p, os)
        | (None, os) \<Rightarrow> (None, change_settings (\<lambda>st. st\<lparr>se_LaunchAtLogin := enabled\<rparr>) p, os))"

text \<open>At the start of the app the statusLine and the login item are pointed at this copy of it.\<close>

definition RepairInstalledPaths ::
  "'o login_item \<Rightarrow> string \<Rightarrow> settings_text option \<Rightarrow> settings_text option \<Rightarrow> prefs \<Rightarrow> 'o \<Rightarrow> claude_settings \<times> prefs \<times> 'o" where
  "RepairInstalledPaths item executable file backup p os =
     (let cf = \<lparr>cf_File = file, cf_Backup = backup, cf_Saved = se_StatusLine (pf_Settings p)\<rparr>
      in if translocated executable then (cf, p, os)
         else let (cf, p) = (if shim_elsewhere executable file then snd (Agent_InstallStatusLine executable file backup p) else (cf, p))
              in (cf, p, if se_LaunchAtLogin (pf_Settings p) then snd (item executable True os) else os))"

section \<open>What holds of the preferences\<close>

text \<open>
  Everything the user can do to the settings but joining and leaving, as one step. Claude Code's files are whatever they
  are by then, and of the login item only its answer matters to the settings.
\<close>

inductive pref_step :: "prefs \<Rightarrow> prefs \<Rightarrow> bool" where
  "pref_step p (SetPopupHeight height p)"
| "pref_step p (SetFineChart enabled p)"
| "SetAccountSort order p = Some p' \<Longrightarrow> pref_step p p'"
| "SetModelSort order p = Some p' \<Longrightarrow> pref_step p p'"
| "SetLanguage lang p = Some p' \<Longrightarrow> pref_step p p'"
| "pref_step p (SetAccountOrder ids p)"
| "pref_step p (PinAccount i p)"
| "pref_step p (UnpinAccount i p)"
| "pref_step p (SetWidgetPosition i x y p)"
| "pref_step p (SetWidgetHeight i height p)"
| "Agent_InstallStatusLine executable file backup p = (cerr, cf, p') \<Longrightarrow> pref_step p p'"
| "Agent_RestoreStatusLine file backup p = (cerr, cf, p') \<Longrightarrow> pref_step p p'"
| "SetLaunchAtLogin (\<lambda>_ _ os. (answer, os)) executable enabled p () = (lerr, p', ()) \<Longrightarrow> pref_step p p'"

lemma repair_pref_step: "RepairInstalledPaths item executable file backup p os = (cf, p', os') \<Longrightarrow> p' = p \<or> pref_step p p'"
  by (cases "Agent_InstallStatusLine executable file backup p" rule: prod_cases3)
    (auto simp: RepairInstalledPaths_def Let_def split: if_splits intro: pref_step.intros)

lemma launch_pref_step: "SetLaunchAtLogin item executable enabled p os = (err, p', os') \<Longrightarrow> pref_step p p'"
  by (cases "item executable enabled os", cases "fst (item executable enabled os)")
    (auto simp: SetLaunchAtLogin_def split: if_splits
      intro: pref_step.intros(13)[of None executable enabled] pref_step.intros(13)[of "Some _" executable enabled])

text \<open>
  The types of the settings: the enumerations hold values the popup has, an account is pinned at most
  once, and the file says what memory says.
\<close>

definition prefs_ok :: "prefs \<Rightarrow> bool" where
  "prefs_ok p \<longleftrightarrow>
     se_AccountSort (pf_Settings p) \<in> set accountSorts \<and> se_ModelSort (pf_Settings p) \<in> set modelSorts \<and>
     se_Language (pf_Settings p) \<in> insert [] (set languages) \<and> distinct (map wg_AccountID (se_Widgets (pf_Settings p))) \<and>
     Load (pf_File p) = Some (pf_Settings p)"

definition fresh_prefs :: prefs where "fresh_prefs = \<lparr>pf_Settings = no_settings, pf_File = SettingsMissing\<rparr>"

lemma change_settings_simps [simp]:
  "pf_Settings (change_settings f p) = f (pf_Settings p)" "Load (pf_File (change_settings f p)) = Some (f (pf_Settings p))"
  by (simp_all add: change_settings_def Let_def Load_def)

lemma set_widget_ids: "(\<And>w. wg_AccountID (f w) = wg_AccountID w) \<Longrightarrow> map wg_AccountID (set_widget i f ws) = map wg_AccountID ws"
  by (induction ws) auto

lemma set_widget_other: "(\<And>w. wg_AccountID (f w) = wg_AccountID w) \<Longrightarrow>
   filter (\<lambda>w. wg_AccountID w \<noteq> i) (set_widget i f ws) = filter (\<lambda>w. wg_AccountID w \<noteq> i) ws"
  by (induction ws) auto

lemmas pref_ops = SetPopupHeight_def SetFineChart_def SetAccountSort_def SetModelSort_def SetLanguage_def SetAccountOrder_def
  PinAccount_def UnpinAccount_def SetWidgetPosition_def SetWidgetHeight_def updateWidgets_def

lemmas item_ops = Agent_InstallStatusLine_def Agent_RestoreStatusLine_def SetLaunchAtLogin_def

lemma pref_step_ok: "pref_step p p' \<Longrightarrow> prefs_ok p \<Longrightarrow> prefs_ok p'"
proof (induction rule: pref_step.induct)
  case (8 p i)
  then show ?case by (simp add: prefs_ok_def pref_ops distinct_map_filter)
qed (auto simp: prefs_ok_def pref_ops item_ops set_widget_ids accountSorts_def split: if_splits prod.splits option.splits)

interpretation pref: kept pref_step fresh_prefs prefs_ok
  by unfold_locales
    (simp_all add: pref_step_ok, simp add: prefs_ok_def fresh_prefs_def no_settings_def accountSorts_def modelSorts_def Load_def)

text \<open>
  C24. Whatever the user does in the popup, the settings keep their types: the orders and the language saved
  are values the popup has, the language only empty as long as none was chosen, an account is pinned at
  most once, and the settings read back at the next start are the ones in memory.
\<close>

theorem settings_typed:
  assumes "pref_step\<^sup>*\<^sup>* fresh_prefs p"
  shows "se_AccountSort (pf_Settings p) \<in> set accountSorts \<and> se_ModelSort (pf_Settings p) \<in> set modelSorts \<and>
    se_Language (pf_Settings p) \<in> insert [] (set languages) \<and> Language (pf_Settings p) \<in> set languages \<and>
    distinct (map wg_AccountID (se_Widgets (pf_Settings p))) \<and> Load (pf_File p) = Some (pf_Settings p)"
  using pref.ok_reachable[OF assms] by (auto simp: prefs_ok_def Language_def languages_def)

lemma settings_typed_witness:
  "\<exists>p :: prefs. map wg_AccountID (se_Widgets (pf_Settings p)) = [''a''] \<and> se_Language (pf_Settings p) = ''zh-TW'' \<and>
    Language (pf_Settings p) \<in> set languages \<and> Load (pf_File p) = Some (pf_Settings p)"
proof -
  define p0 where "p0 = the (SetLanguage ''zh-TW'' fresh_prefs)"
  define p where "p = PinAccount ''a'' (PinAccount ''a'' p0)"
  have "SetLanguage ''zh-TW'' fresh_prefs = Some p0" by (simp add: p0_def SetLanguage_def languages_def)
  then have "pref_step fresh_prefs p0" by (rule pref_step.intros)
  then have "pref_step\<^sup>*\<^sup>* fresh_prefs p" unfolding p_def
    by (meson converse_rtranclp_into_rtranclp pref_step.intros(7) r_into_rtranclp)
  from settings_typed[OF this] have "Language (pf_Settings p) \<in> set languages \<and> Load (pf_File p) = Some (pf_Settings p)" by simp
  moreover have "map wg_AccountID (se_Widgets (pf_Settings p)) = [''a''] \<and> se_Language (pf_Settings p) = ''zh-TW''"
    unfolding p_def p0_def by code_simp
  ultimately show ?thesis by (intro exI[of _ p]) simp
qed

text \<open>Moving a widget changes no other, and a widget that is not pinned not at all.\<close>

lemma SetWidgetPosition_others:
  "filter (\<lambda>w. wg_AccountID w \<noteq> i) (se_Widgets (pf_Settings (SetWidgetPosition i x y p))) =
   filter (\<lambda>w. wg_AccountID w \<noteq> i) (se_Widgets (pf_Settings p))"
  by (simp add: pref_ops set_widget_other)

lemma Unpin_Pin: "list_all (\<lambda>w. wg_AccountID w \<noteq> i) (se_Widgets (pf_Settings p)) \<Longrightarrow>
   pf_Settings (UnpinAccount i (PinAccount i p)) = pf_Settings p"
  by (auto simp: pref_ops list_all_iff filter_id_conv)

end
