(* ===== verification/LocalAccounts.thy ===== *)
theory LocalAccounts
  imports AgentIngest Syncapi
begin

text \<open>
  \<open>internal/client/agent/state.go\<close>, \<open>localAccounts\<close>: this device's own quota readings per account, shown
  before a server is joined or while it cannot be reached. The maps of the function are association
  lists; its last step sorts, so their order shows only between accounts that compare equal.
\<close>

section \<open>Grouping the readings\<close>

record local_account =
  la_Provider :: provider
  la_Hint :: string
  la_PlanType :: string
  la_Buckets :: "bucket_overview list"
  la_Current :: bool

definition account_key :: "provider \<Rightarrow> string \<Rightarrow> string" where
  "account_key p ref = p @ '':'' @ ref"

definition snapshot_key :: "snapshot \<Rightarrow> string" where
  "snapshot_key s = account_key (sn_Provider s) (sn_AccountRefHash s)"

definition byAccount :: "snapshot list \<Rightarrow> (string, snapshot list) gomap" where
  "byAccount snaps = fold (\<lambda>s m. put (snapshot_key s) (get_or [] m (snapshot_key s) @ [s]) m) snaps []"

section \<open>Naming the accounts\<close>

definition no_observation :: observation where
  "no_observation = \<lparr>ob_DeviceID = [], ob_Provider = [], ob_Source = [], ob_ExternalRefHash = [], ob_Hint = [],
     ob_PlanType = [], ob_ObservedAt = zero_time\<rparr>"

definition timelines :: "(provider \<times> app_source) list" where
  "timelines = [(ProviderAnthropic, SourceCLI), (ProviderOpenAI, SourceCLI), (ProviderAnthropic, SourceClaudeDesktop)]"

text \<open>Desktop reports no email or plan, so its observations do not take the place of the CLI's.\<close>

definition note_hint :: "provider \<Rightarrow> observation \<Rightarrow> (string, observation) gomap \<Rightarrow> (string, observation) gomap" where
  "note_hint p ob hints =
     (let key = account_key p (ob_ExternalRefHash ob) in
      if map_of hints key = None \<or> ob_Hint ob \<noteq> [] then put key ob hints else hints)"

definition read_timeline ::
  "local_db \<Rightarrow> provider \<times> app_source \<Rightarrow> (string, observation) gomap \<times> string list \<Rightarrow> (string, observation) gomap \<times> string list" where
  "read_timeline s line acc =
     (let (p, src) = line; (hints, current) = acc; obs = Observations p src s
      in (fold (note_hint p) obs hints,
          if obs \<noteq> [] \<and> ob_ExternalRefHash (last obs) \<noteq> [] then account_key p (ob_ExternalRefHash (last obs)) # current else current))"

definition note_login :: "claude_login \<Rightarrow> (string, observation) gomap \<Rightarrow> (string, observation) gomap" where
  "note_login l hints =
     (let key = account_key ProviderAnthropic (cl_RefHash l) in
      if ob_Hint (get_or no_observation hints key) = []
      then put key (no_observation\<lparr>ob_Hint := cl_Hint l, ob_PlanType := cl_PlanType l\<rparr>) hints else hints)"

section \<open>The list\<close>

definition local_bucket :: "time \<Rightarrow> observed \<Rightarrow> bucket_overview" where
  "local_bucket now b =
     \<lparr>bo_Key = od_Key b,
      bo_UsedPercent = (if HasReset b now then 0 else case bk_UsedPercent (od_Bucket b) of Some u \<Rightarrow> u | None \<Rightarrow> 0),
      bo_ResetsAt = bk_ResetsAt (od_Bucket b),
      bo_WindowMinutes = (case bk_WindowMinutes (od_Bucket b) of Some m \<Rightarrow> m | None \<Rightarrow> 0),
      bo_ObservedAt = od_ObservedAt b, bo_Reset = HasReset b now, bo_UnattributedPercent = 0,
      bo_Members = [], bo_Models = [], bo_ThirdPartyModels = [], bo_Timeline = None\<rparr>"

definition local_account_of ::
  "time \<Rightarrow> (string, observation) gomap \<Rightarrow> string list \<Rightarrow> string \<times> snapshot list \<Rightarrow> local_account" where
  "local_account_of now hints current g =
     (let ob = get_or no_observation hints (fst g)
      in \<lparr>la_Provider = sn_Provider (hd (snd g)), la_Hint = ob_Hint ob, la_PlanType = ob_PlanType ob,
          la_Buckets = sort_by (\<lambda>a b. bo_WindowMinutes a < bo_WindowMinutes b) (map (local_bucket now \<circ> snd) (Latest (snd g))),
          la_Current = (fst g \<in> set current)\<rparr>)"

definition local_before :: "local_account \<Rightarrow> local_account \<Rightarrow> bool" where
  "local_before a b =
     (if la_Current a \<noteq> la_Current b then la_Current a
      else if la_Provider a \<noteq> la_Provider b then la_Provider a < la_Provider b
      else la_Hint a < la_Hint b)"

definition localAccounts :: "time \<Rightarrow> local_db \<Rightarrow> local_account list" where
  "localAccounts now s =
     (let (hints, current) = fold (read_timeline s) timelines ([], []);
          hints = fold note_login (ClaudeLogins s) hints
      in sort_by local_before (map (local_account_of now hints current)
           (byAccount (LatestSnapshots (now - 8 * 24 * hour) s))))"

section \<open>What the list says\<close>

interpretation local_order: strict_weak local_before
  by unfold_locales (auto simp: local_before_def split: if_splits)

interpretation by_minutes: strict_weak "\<lambda>a b :: bucket_overview. bo_WindowMinutes a < bo_WindowMinutes b"
  by (rule strict_weak_key)

text \<open>A group holds exactly the readings of its account, in their order.\<close>

lemma byAccount_groups:
  "wf_map (byAccount snaps) \<and> get_or [] (byAccount snaps) k = filter (\<lambda>s. snapshot_key s = k) snaps \<and>
   fst ` set (byAccount snaps) = snapshot_key ` set snaps"
proof (induction snaps rule: rev_induct)
  case (snoc s snaps)
  then show ?case by (auto simp: byAccount_def)
qed (simp add: byAccount_def)

text \<open>The accounts this device is signed into come first.\<close>

lemma current_before: "la_Current a \<Longrightarrow> \<not> la_Current b \<Longrightarrow> local_before a b"
  by (simp add: local_before_def)

lemma current_first:
  "filter la_Current (localAccounts now s) @ filter (\<lambda>a. \<not> la_Current a) (localAccounts now s) = localAccounts now s"
proof -
  have "sorted_wrt local_order.before ys \<Longrightarrow> filter la_Current ys @ filter (\<lambda>a. \<not> la_Current a) ys = ys" for ys
  proof (induction ys)
    case (Cons y ys)
    show ?case
    proof (cases "la_Current y")
      case False
      then have "\<not> la_Current z" if "z \<in> set ys" for z
        using Cons.prems that current_before[of z y] by (auto simp: local_order.before_def)
      then show ?thesis using False by (simp add: filter_id_conv filter_empty_conv)
    qed (use Cons in simp)
  qed simp
  then show ?thesis using local_order.sorted_sort_by by (simp add: localAccounts_def case_prod_beta' Let_def)
qed

text \<open>Every account with a reading of the last eight days is listed once, with its own readings.\<close>

lemma localAccounts_complete:
  "mset (localAccounts now s) =
     image_mset (local_account_of now (fold note_login (ClaudeLogins s) (fst (fold (read_timeline s) timelines ([], []))))
         (snd (fold (read_timeline s) timelines ([], []))))
       (mset (byAccount (LatestSnapshots (now - 8 * 24 * hour) s)))"
  by (simp add: localAccounts_def case_prod_beta' Let_def)

text \<open>
  The timelines of Google are not read: an account of Antigravity is listed without its name and
  plan, and not as one this device is signed into, whatever was observed.
\<close>

definition not_google :: "string \<Rightarrow> bool" where "not_google key \<longleftrightarrow> hd key \<noteq> CHR ''g''"

lemma not_google_key [simp]: "not_google (account_key ProviderAnthropic r)" "not_google (account_key ProviderOpenAI r)"
  by (simp_all add: not_google_def account_key_def ProviderAnthropic_def ProviderOpenAI_def)

lemma note_hint_keys:
  assumes "\<And>r. not_google (account_key p r)"
  shows "fst ` set hints \<subseteq> Collect not_google \<Longrightarrow> fst ` set (fold (note_hint p) obs hints) \<subseteq> Collect not_google"
proof (induction obs arbitrary: hints)
  case (Cons ob obs)
  have "fst ` set (note_hint p ob hints) \<subseteq> Collect not_google"
    using Cons.prems assms by (simp add: note_hint_def Let_def)
  then show ?case using Cons.IH by simp
qed simp

lemma note_login_keys: "fst ` set hints \<subseteq> Collect not_google \<Longrightarrow> fst ` set (fold note_login ls hints) \<subseteq> Collect not_google"
proof (induction ls arbitrary: hints)
  case (Cons l ls)
  have "fst ` set (note_login l hints) \<subseteq> Collect not_google"
    using Cons.prems by (simp add: note_login_def Let_def)
  then show ?case using Cons.IH by simp
qed simp

lemma timelines_not_google:
  "fst ` set (fst (fold (read_timeline s) timelines ([], []))) \<subseteq> Collect not_google"
  "\<forall>k \<in> set (snd (fold (read_timeline s) timelines ([], []))). not_google k"
proof -
  show "fst ` set (fst (fold (read_timeline s) timelines ([], []))) \<subseteq> Collect not_google"
    unfolding timelines_def by (simp add: read_timeline_def Let_def) (intro note_hint_keys; simp)
  show "\<forall>k \<in> set (snd (fold (read_timeline s) timelines ([], []))). not_google k"
    by (simp add: timelines_def read_timeline_def Let_def)
qed

lemma google_account_unnamed:
  assumes "a \<in> set (localAccounts now s)" "la_Provider a = ProviderGoogle"
  shows "\<not> la_Current a \<and> la_Hint a = [] \<and> la_PlanType a = []"
proof -
  let ?t = "fold (read_timeline s) timelines ([], [])"
  let ?hints = "fold note_login (ClaudeLogins s) (fst ?t)"
  let ?groups = "byAccount (LatestSnapshots (now - 8 * 24 * hour) s)"
  obtain g where g: "g \<in> set ?groups" and a: "a = local_account_of now ?hints (snd ?t) g"
    using assms(1) by (auto simp: localAccounts_def case_prod_beta' Let_def)
  have members: "snd g = filter (\<lambda>s. snapshot_key s = fst g) (LatestSnapshots (now - 8 * 24 * hour) s)" "snd g \<noteq> []"
  proof -
    have "map_of ?groups (fst g) = Some (snd g)"
      using g byAccount_groups by (simp add: map_of_eq_Some_iff)
    then show 1: "snd g = filter (\<lambda>s. snapshot_key s = fst g) (LatestSnapshots (now - 8 * 24 * hour) s)"
      using byAccount_groups[of "LatestSnapshots (now - 8 * 24 * hour) s" "fst g"] by (simp add: get_or_def)
    show "snd g \<noteq> []"
      using g byAccount_groups[of "LatestSnapshots (now - 8 * 24 * hour) s" "fst g"] by (force simp: 1 filter_empty_conv)
  qed
  have "snapshot_key (hd (snd g)) = fst g"
    using hd_in_set[OF members(2)] unfolding members(1) by simp
  then have "fst g = account_key ProviderGoogle (sn_AccountRefHash (hd (snd g)))"
    using assms(2) a by (simp add: local_account_of_def Let_def snapshot_key_def)
  then have google: "\<not> not_google (fst g)" by (simp add: not_google_def account_key_def ProviderGoogle_def)
  have "fst g \<notin> set (snd ?t)" using google timelines_not_google(2) by blast
  moreover have "map_of ?hints (fst g) = None"
    using google note_login_keys[OF timelines_not_google(1), of "ClaudeLogins s" s] by (force simp: map_of_eq_None_iff)
  ultimately show ?thesis using a by (simp add: local_account_of_def Let_def get_or_def no_observation_def)
qed

end
