(* ===== verification/SecretFiles.thy ===== *)
theory SecretFiles
  imports GoStrings
begin

text \<open>
  \<open>internal/client/secret/secret_file.go\<close>: on Linux the device token and every sign-in is a file of
  the data directory. The files are the map \<open>sf\<close> from paths to contents; every file of it can be
  read, written and removed.
\<close>

type_synonym secret_files = "(string, string) gomap"

datatype secret_error = ErrInvalidSecretID | ErrSecretNotFound

definition secretPath :: "string \<Rightarrow> string \<Rightarrow> string \<Rightarrow> string \<Rightarrow> secret_error + string" where
  "secretPath dir pre i post =
     (if i = [] \<or> CHR ''/'' \<in> set i \<or> CHR 0x5C \<in> set i \<or> i = ''.'' \<or> i = ''..'' then Inl ErrInvalidSecretID
      else Inr (dir @ ''/'' @ pre @ i @ post))"

definition tokenPath :: "string \<Rightarrow> string \<Rightarrow> secret_error + string" where
  "tokenPath dir deviceID = secretPath dir ''device-'' deviceID ''.token''"

definition claudeLoginPath :: "string \<Rightarrow> string \<Rightarrow> secret_error + string" where
  "claudeLoginPath dir refHash = secretPath dir ''claude-login-'' refHash ''.json''"

definition readSecret :: "string \<Rightarrow> secret_files \<Rightarrow> secret_error + string" where
  "readSecret p sf = (case map_of sf p of None \<Rightarrow> Inl ErrSecretNotFound | Some b \<Rightarrow> Inr (trim_space b))"

definition removeSecret :: "string \<Rightarrow> secret_files \<Rightarrow> secret_files" where
  "removeSecret p sf = filter (\<lambda>f. fst f \<noteq> p) sf"

definition SetToken :: "string \<Rightarrow> string \<Rightarrow> string \<Rightarrow> secret_files \<Rightarrow> secret_error option \<times> secret_files" where
  "SetToken dir deviceID token sf = (case tokenPath dir deviceID of Inl err \<Rightarrow> (Some err, sf) | Inr p \<Rightarrow> (None, put p token sf))"

definition Token :: "string \<Rightarrow> string \<Rightarrow> secret_files \<Rightarrow> secret_error + string" where
  "Token dir deviceID sf = (case tokenPath dir deviceID of Inl err \<Rightarrow> Inl err | Inr p \<Rightarrow> readSecret p sf)"

definition DeleteToken :: "string \<Rightarrow> string \<Rightarrow> secret_files \<Rightarrow> secret_error option \<times> secret_files" where
  "DeleteToken dir deviceID sf = (case tokenPath dir deviceID of Inl err \<Rightarrow> (Some err, sf) | Inr p \<Rightarrow> (None, removeSecret p sf))"

definition SetClaudeLogin :: "string \<Rightarrow> string \<Rightarrow> string \<Rightarrow> secret_files \<Rightarrow> secret_error option \<times> secret_files" where
  "SetClaudeLogin dir refHash v sf = (case claudeLoginPath dir refHash of Inl err \<Rightarrow> (Some err, sf) | Inr p \<Rightarrow> (None, put p v sf))"

definition ClaudeLogin :: "string \<Rightarrow> string \<Rightarrow> secret_files \<Rightarrow> secret_error + string" where
  "ClaudeLogin dir refHash sf = (case claudeLoginPath dir refHash of Inl err \<Rightarrow> Inl err | Inr p \<Rightarrow> readSecret p sf)"

definition DeleteClaudeLogin :: "string \<Rightarrow> string \<Rightarrow> secret_files \<Rightarrow> secret_error option \<times> secret_files" where
  "DeleteClaudeLogin dir refHash sf =
     (case claudeLoginPath dir refHash of Inl err \<Rightarrow> (Some err, sf) | Inr p \<Rightarrow> (None, removeSecret p sf))"

section \<open>One file per secret, inside the directory\<close>

text \<open>A path names one secret, and is a file of the directory itself.\<close>

lemma secretPath_Inr:
  "secretPath dir pre i post = Inr p \<longleftrightarrow> p = dir @ ''/'' @ pre @ i @ post \<and> i \<noteq> [] \<and> CHR ''/'' \<notin> set i \<and>
     CHR 0x5C \<notin> set i \<and> i \<noteq> ''.'' \<and> i \<noteq> ''..''"
  by (auto simp: secretPath_def)

lemma tokenPath_inj: "tokenPath dir i = Inr p \<Longrightarrow> tokenPath dir j = Inr p \<Longrightarrow> i = j"
  by (auto simp: tokenPath_def secretPath_Inr)

lemma claudeLoginPath_inj: "claudeLoginPath dir i = Inr p \<Longrightarrow> claudeLoginPath dir j = Inr p \<Longrightarrow> i = j"
  by (auto simp: claudeLoginPath_def secretPath_Inr)

lemma token_not_login: "tokenPath dir i = Inr p \<Longrightarrow> claudeLoginPath dir j \<noteq> Inr p"
  by (auto simp: tokenPath_def claudeLoginPath_def secretPath_Inr)

lemma secret_in_directory:
  "tokenPath dir i = Inr p \<or> claudeLoginPath dir i = Inr p \<Longrightarrow> \<exists>name. p = dir @ ''/'' @ name \<and> CHR ''/'' \<notin> set name \<and> name \<noteq> ''..''"
  by (auto simp: tokenPath_def claudeLoginPath_def secretPath_Inr)

lemma readSecret_put: "readSecret q (put p v sf) = (if q = p then Inr (trim_space v) else readSecret q sf)"
  by (simp add: readSecret_def update_conv')

lemma map_of_filter_key: "map_of (filter (\<lambda>f. fst f \<noteq> p) m) q = (if q = p then None else map_of m q)"
  by (induction m) auto

lemma readSecret_remove: "readSecret q (removeSecret p sf) = (if q = p then Inl ErrSecretNotFound else readSecret q sf)"
  by (simp add: readSecret_def removeSecret_def map_of_filter_key)

text \<open>What is stored is read back, but for white space around it, until it is stored again or deleted;
  the other secrets are not touched.\<close>

lemmas secret_ops = Token_def ClaudeLogin_def SetToken_def SetClaudeLogin_def DeleteToken_def DeleteClaudeLogin_def

lemma Token_after_SetToken:
  "SetToken dir i t sf = (None, sf') \<Longrightarrow> Token dir j sf' = (if j = i then Inr (trim_space t) else Token dir j sf)"
  by (auto simp: secret_ops readSecret_put dest: tokenPath_inj split: sum.splits)

lemma ClaudeLogin_after_SetClaudeLogin:
  "SetClaudeLogin dir i t sf = (None, sf') \<Longrightarrow> ClaudeLogin dir j sf' = (if j = i then Inr (trim_space t) else ClaudeLogin dir j sf)"
  by (auto simp: secret_ops readSecret_put dest: claudeLoginPath_inj split: sum.splits)

lemma ClaudeLogin_after_SetToken: "SetToken dir i t sf = (e, sf') \<Longrightarrow> ClaudeLogin dir j sf' = ClaudeLogin dir j sf"
  by (auto simp: secret_ops readSecret_put dest: token_not_login split: sum.splits)

lemma Token_after_SetClaudeLogin: "SetClaudeLogin dir i t sf = (e, sf') \<Longrightarrow> Token dir j sf' = Token dir j sf"
  by (auto simp: secret_ops readSecret_put dest: token_not_login split: sum.splits)

lemma Token_after_DeleteToken:
  "DeleteToken dir i sf = (None, sf') \<Longrightarrow> Token dir j sf' = (if j = i then Inl ErrSecretNotFound else Token dir j sf)"
  by (auto simp: secret_ops readSecret_remove dest: tokenPath_inj split: sum.splits)

lemma ClaudeLogin_after_DeleteToken: "DeleteToken dir i sf = (e, sf') \<Longrightarrow> ClaudeLogin dir j sf' = ClaudeLogin dir j sf"
  by (auto simp: secret_ops readSecret_remove dest: token_not_login split: sum.splits)

end
