(* ===== verification/UpdateCheck.thy ===== *)
theory UpdateCheck
  imports GoSort LogFiles UsageProbe
begin

text \<open>
  \<open>internal/client/update/update.go\<close>: comparing version numbers, and what the answer of the
  release page is made into.
\<close>

section \<open>Versions\<close>

fun split_on :: "char \<Rightarrow> string \<Rightarrow> string list" where
  "split_on c [] = [[]]"
| "split_on c (x # s) = (if x = c then [] # split_on c s
     else case split_on c s of [] \<Rightarrow> [[x]] | w # ws \<Rightarrow> (x # w) # ws)"

fun leading_numbers :: "string list \<Rightarrow> int list" where
  "leading_numbers [] = []"
| "leading_numbers (p # ps) = (case atoi p of None \<Rightarrow> [] | Some n \<Rightarrow> n # leading_numbers ps)"

definition parts :: "string \<Rightarrow> int list" where
  "parts v = (let v = (case cut_prefix v ''v'' of Some r \<Rightarrow> r | None \<Rightarrow> v);
                  v = fst (cut_at v CHR ''-'')
              in leading_numbers (split_on CHR ''.'' v))"

text \<open>The number at position \<open>i\<close>, zero beyond the end.\<close>

definition part_at :: "int list \<Rightarrow> nat \<Rightarrow> int" where
  "part_at a i = (if i < length a then a ! i else 0)"

function newer_from :: "nat \<Rightarrow> int list \<Rightarrow> int list \<Rightarrow> bool" where
  "newer_from i a b =
     (if i < max (length a) (length b)
      then (let x = part_at a i; y = part_at b i in if x \<noteq> y then x > y else newer_from (Suc i) a b)
      else False)"
  by pat_completeness auto
termination
  by (relation "measure (\<lambda>(i, a, b). max (length a) (length b) - i)") auto

declare newer_from.simps [simp del]

definition Newer :: "string \<Rightarrow> string \<Rightarrow> bool" where
  "Newer candidate current = newer_from 0 (parts candidate) (parts current)"

section \<open>The release page\<close>

record release_page =
  rp_TagName :: string
  rp_HTMLURL :: string

record release =
  re_Version :: string
  re_URL :: string

text \<open>An error is \<open>Inl\<close>, no news is \<open>Inr None\<close>. A dev build asks nothing.\<close>

definition Latest_release :: "('w \<Rightarrow> release_page http_answer \<times> 'w) \<Rightarrow> string \<Rightarrow> 'w \<Rightarrow> (unit + release option) \<times> 'w" where
  "Latest_release get current w =
     (if current = ''dev'' then (Inr None, w)
      else let (a, w) = get w in
        (case a of
           NoAnswer \<Rightarrow> Inl ()
         | Answer status _ body \<Rightarrow>
             if status = 404 then Inr None
             else if status \<noteq> StatusOK_http then Inl ()
             else case body of
                 None \<Rightarrow> Inl ()
               | Some p \<Rightarrow> if \<not> Newer (rp_TagName p) current then Inr None
                   else Inr (Some \<lparr>re_Version = (case cut_prefix (rp_TagName p) ''v'' of Some r \<Rightarrow> r | None \<Rightarrow> rp_TagName p),
                                   re_URL = rp_HTMLURL p\<rparr>), w))"

section \<open>An order of versions\<close>

text \<open>The loop finds the first position where the versions differ.\<close>

lemma newer_from_iff:
  "newer_from i a b \<longleftrightarrow> (\<exists>k \<ge> i. part_at a k > part_at b k \<and> (\<forall>j. i \<le> j \<longrightarrow> j < k \<longrightarrow> part_at a j = part_at b j))"
proof (induction i a b rule: newer_from.induct)
  case (1 i a b)
  show ?case
  proof (cases "i < max (length a) (length b)")
    case True
    show ?thesis
    proof (cases "part_at a i = part_at b i")
      case eq: True
      then have step: "newer_from i a b = newer_from (Suc i) a b" using True by (subst newer_from.simps) (simp add: Let_def)
      have "(\<exists>k \<ge> Suc i. part_at a k > part_at b k \<and> (\<forall>j. Suc i \<le> j \<longrightarrow> j < k \<longrightarrow> part_at a j = part_at b j)) \<longleftrightarrow>
            (\<exists>k \<ge> i. part_at a k > part_at b k \<and> (\<forall>j. i \<le> j \<longrightarrow> j < k \<longrightarrow> part_at a j = part_at b j))"
        using eq by (metis Suc_leD Suc_leI le_neq_implies_less less_irrefl)
      then show ?thesis using step 1 True eq by simp
    next
      case ne: False
      then have "newer_from i a b \<longleftrightarrow> part_at a i > part_at b i" using True by (subst newer_from.simps) (simp add: Let_def)
      also have "\<dots> \<longleftrightarrow> (\<exists>k \<ge> i. part_at a k > part_at b k \<and> (\<forall>j. i \<le> j \<longrightarrow> j < k \<longrightarrow> part_at a j = part_at b j))"
        using ne by (metis le_neq_implies_less order_refl leD)
      finally show ?thesis .
    qed
  next
    case False
    then have "part_at a k = part_at b k" if "k \<ge> i" for k using that by (auto simp: part_at_def)
    then show ?thesis using False by (subst newer_from.simps) auto
  qed
qed

lemma Newer_iff:
  "Newer a b \<longleftrightarrow> (\<exists>k. part_at (parts a) k > part_at (parts b) k \<and> (\<forall>j < k. part_at (parts a) j = part_at (parts b) j))"
  by (simp add: Newer_def newer_from_iff)

lemma Newer_asym: "Newer a b \<Longrightarrow> \<not> Newer b a"
  unfolding Newer_iff by (metis linorder_neqE_nat not_less_iff_gr_or_eq)

lemma Newer_trans_not:
  assumes "\<not> Newer b a" "\<not> Newer c b" shows "\<not> Newer c a"
proof
  let ?f = "\<lambda>v. part_at (parts v)"
  assume "Newer c a"
  then obtain i where i: "?f c i > ?f a i" "\<And>j. j < i \<Longrightarrow> ?f c j = ?f a j" by (auto simp: Newer_iff)
  define k where "k = (LEAST k. \<not> (?f a k = ?f b k \<and> ?f b k = ?f c k))"
  have ex: "\<not> (?f a i = ?f b i \<and> ?f b i = ?f c i)" using i(1) by auto
  then have k: "\<not> (?f a k = ?f b k \<and> ?f b k = ?f c k)" unfolding k_def by (rule LeastI)
  have below: "?f a j = ?f b j \<and> ?f b j = ?f c j" if "j < k" for j using not_less_Least that unfolding k_def by blast
  have "k \<le> i" using ex unfolding k_def by (rule Least_le)
  have "?f b k \<le> ?f a k" "?f c k \<le> ?f b k" using assms below unfolding Newer_iff by (metis not_less)+
  then show False using i k \<open>k \<le> i\<close> by (cases "k = i") (auto simp: order_le_less)
qed

interpretation newer: strict_weak Newer
  by unfold_locales (rule Newer_asym, assumption, rule Newer_trans_not, assumption+)

lemma Newer_irrefl: "\<not> Newer v v"
  using Newer_asym by blast

text \<open>What is offered is newer than what runs, and a build is not offered itself.\<close>

lemma Latest_release_newer:
  "fst (Latest_release get current w) = Inr (Some r) \<Longrightarrow>
   current \<noteq> ''dev'' \<and> (\<exists>tag. Newer tag current \<and> (re_Version r = tag \<or> tag = CHR ''v'' # re_Version r))"
  by (auto simp: Latest_release_def Let_def case_prod_beta' dest!: cut_prefix_Some
      split: if_splits http_answer.splits option.splits)

end
