(* ===== verification/Joining.thy ===== *)
theory Joining
  imports ClientSync AgentProbe Preferences LocalAccounts SecretFiles UpdateCheck
begin

text \<open>
  The rest of the agent's state: joining and leaving a server (\<open>ParseJoinLink\<close> of
  \<open>client/sync/client.go\<close>, \<open>Join\<close>, \<open>Leave\<close> and \<open>CreateInvite\<close> of \<open>agent/syncing.go\<close>), the start of the
  agent (\<open>New\<close> of \<open>agent.go\<close>), \<open>Resync\<close> and what the popup shows (\<open>State\<close>). The token lies in the
  files of \<open>SecretFiles\<close>. Parsing and printing URLs is package \<open>net/url\<close>, the record \<open>urls\<close>.
\<close>

section \<open>Join links\<close>

record url =
  ur_Scheme :: string
  ur_Host :: string
  ur_Path :: string
  ur_RawQuery :: string
  ur_Fragment :: string

record urls =
  us_Parse :: "string \<Rightarrow> url option"
  us_String :: "url \<Rightarrow> string"

definition PathJoin :: string where "PathJoin = ''/join/''"

definition trim_right :: "char \<Rightarrow> string \<Rightarrow> string" where
  "trim_right c s = rev (dropWhile (\<lambda>x. x = c) (rev s))"

text \<open>\<open>strings.Cut\<close> at the first occurrence of a separator that is not empty.\<close>

fun cut_string :: "string \<Rightarrow> string \<Rightarrow> (string \<times> string) option" where
  "cut_string sep [] = None"
| "cut_string sep (x # s) = (case cut_prefix (x # s) sep of
     Some r \<Rightarrow> Some ([], r)
   | None \<Rightarrow> map_option (\<lambda>(a, b). (x # a, b)) (cut_string sep s))"

definition ParseJoinLink :: "urls \<Rightarrow> string \<Rightarrow> (string \<times> string) option" where
  "ParseJoinLink U link =
     (case us_Parse U (trim_space link) of
        None \<Rightarrow> None
      | Some u \<Rightarrow>
          if (ur_Scheme u \<noteq> ''https'' \<and> ur_Scheme u \<noteq> ''http'') \<or> ur_Host u = [] then None
          else case cut_string PathJoin (ur_Path u) of
              None \<Rightarrow> None
            | Some (pre, code) \<Rightarrow>
                if code = [] \<or> CHR ''/'' \<in> set code then None
                else Some (trim_right CHR ''/'' (us_String U (u\<lparr>ur_Path := pre, ur_RawQuery := [], ur_Fragment := []\<rparr>)), code))"

section \<open>The agent\<close>

record shell =
  sh_Version :: string
  sh_Prefs :: prefs
  sh_Sync :: agent_state
  sh_Prober :: prober
  sh_Secrets :: secret_files
  sh_Update :: "release option"

abbreviation sh_Store :: "shell \<Rightarrow> local_db" where "sh_Store sh \<equiv> ag_Store (pb_Agent (sh_Prober sh))"

definition sync_start :: "string option \<Rightarrow> agent_state" where
  "sync_start token = \<lparr>ag_token = token, ag_revoked = False, ag_syncErr = None, ag_overviewErr = None, ag_lastSync = None, ag_overview = None\<rparr>"

text \<open>The client a start makes from what is on disk: none when the token cannot be read.\<close>

definition start_client :: "string \<Rightarrow> settings \<Rightarrow> secret_files \<Rightarrow> string option" where
  "start_client dir st sf =
     (if Paired st then (case Token dir (se_DeviceID st) sf of Inl _ \<Rightarrow> None | Inr token \<Rightarrow> Some token) else None)"

definition New_agent :: "string \<Rightarrow> string \<Rightarrow> settings_file \<Rightarrow> local_db \<Rightarrow> spool_dir \<Rightarrow> (string, oauth_tokens option) gomap \<Rightarrow> secret_files \<Rightarrow> shell option" where
  "New_agent dir version file s spooled logins sf =
     (case Load file of
        None \<Rightarrow> None
      | Some st \<Rightarrow> Some \<lparr>sh_Version = version, sh_Prefs = \<lparr>pf_Settings = st, pf_File = file\<rparr>,
          sh_Sync = sync_start (start_client dir st sf),
          sh_Prober = \<lparr>pb_Agent = agent_start\<lparr>ag_Store := s, ag_Spool := spooled\<rparr>, pb_RetryAt = [], pb_Secrets = logins\<rparr>,
          sh_Secrets = sf, sh_Update = None\<rparr>)"

section \<open>Joining and leaving\<close>

datatype join_error = JoinLink | JoinClient client_error | JoinToken secret_error | LeaveToken secret_error

definition device_name :: "string \<Rightarrow> string option \<Rightarrow> string" where
  "device_name goos hostname =
     (let n = (case hostname of None \<Rightarrow> goos | Some h \<Rightarrow> or_else h goos)
      in if has_suffix n ''.local'' then take (length n - 6) n else n)"

definition joined_settings :: "string \<Rightarrow> string \<Rightarrow> pair_response \<Rightarrow> settings \<Rightarrow> settings" where
  "joined_settings base deviceName r st =
     st\<lparr>se_ServerURL := base, se_DeviceID := pa_DeviceID r, se_DeviceName := deviceName, se_PersonID := pa_PersonID r,
        se_PersonName := pa_PersonName r\<rparr>"

definition Join ::
  "urls \<Rightarrow> string \<Rightarrow> string \<Rightarrow> string option \<Rightarrow> (string \<Rightarrow> 'w transport) \<Rightarrow> string \<Rightarrow> shell \<Rightarrow> 'w \<Rightarrow> join_error option \<times> shell \<times> 'w" where
  "Join U dir goos hostname transport link sh w =
     (case ParseJoinLink U link of
        None \<Rightarrow> (Some JoinLink, sh, w)
      | Some (base, code) \<Rightarrow>
          (case Client_Pair (transport base) code (device_name goos hostname) goos w of
             (Inl err, w) \<Rightarrow> (Some (JoinClient err), sh, w)
           | (Inr r, w) \<Rightarrow>
               (case SetToken dir (pa_DeviceID r) (pa_Token r) (sh_Secrets sh) of
                  (Some err, _) \<Rightarrow> (Some (JoinToken err), sh, w)
                | (None, sf) \<Rightarrow>
                    (let previous = se_DeviceID (pf_Settings (sh_Prefs sh));
                         sf = (if previous \<noteq> [] \<and> previous \<noteq> pa_DeviceID r then snd (DeleteToken dir previous sf) else sf)
                     in (None, sh\<lparr>sh_Prefs := change_settings (joined_settings base (device_name goos hostname) r) (sh_Prefs sh),
                                 sh_Sync := (sh_Sync sh)\<lparr>ag_token := Some (pa_Token r), ag_revoked := False, ag_syncErr := None,
                                   ag_overviewErr := None, ag_overview := None\<rparr>,
                                 sh_Secrets := sf\<rparr>, w)))))"

definition left_settings :: "settings \<Rightarrow> settings" where
  "left_settings st = st\<lparr>se_ServerURL := [], se_DeviceID := [], se_PersonID := [], se_PersonName := []\<rparr>"

definition Leave :: "string \<Rightarrow> shell \<Rightarrow> join_error option \<times> shell" where
  "Leave dir sh =
     (let deviceID = se_DeviceID (pf_Settings (sh_Prefs sh));
          sh = sh\<lparr>sh_Prefs := change_settings left_settings (sh_Prefs sh), sh_Sync := sync_start None\<rparr>
      in if deviceID = [] then (None, sh)
         else case DeleteToken dir deviceID (sh_Secrets sh) of
             (Some err, _) \<Rightarrow> (Some (LeaveToken err), sh)
           | (None, sf) \<Rightarrow> (None, sh\<lparr>sh_Secrets := sf\<rparr>))"

definition CreateInvite :: "'w transport \<Rightarrow> shell \<Rightarrow> 'w \<Rightarrow> (client_error + string \<times> time) \<times> 'w" where
  "CreateInvite transport sh w =
     (case with_client (sh_Sync sh) (Client_Invite transport) w of
        (Inl err, w) \<Rightarrow> (Inl err, w)
      | (Inr r, w) \<Rightarrow> (Inr (trim_right CHR ''/'' (se_ServerURL (pf_Settings (sh_Prefs sh))) @ PathJoin @ ir_Code r, ir_ExpiresAt r), w))"

section \<open>Rebuilding and uploading\<close>

datatype resync_error = ResyncNotJoined | ResyncScan scan_error | ResyncUpload client_error | ResyncSync client_error

record resync_stats =
  rt_Events :: int
  rt_Pending :: int

definition set_agent :: "agent \<Rightarrow> shell \<Rightarrow> shell" where
  "set_agent a sh = sh\<lparr>sh_Prober := (sh_Prober sh)\<lparr>pb_Agent := a\<rparr>\<rparr>"

definition set_store :: "local_db \<Rightarrow> shell \<Rightarrow> shell" where
  "set_store s sh = set_agent ((pb_Agent (sh_Prober sh))\<lparr>ag_Store := s\<rparr>) sh"

definition Resync ::
  "(string \<Rightarrow> string) \<Rightarrow> host \<Rightarrow> 'w transport \<Rightarrow> string \<Rightarrow> shell \<Rightarrow> 'w \<Rightarrow> resync_error option \<times> resync_stats \<times> shell \<times> 'w" where
  "Resync sha h transport today sh w =
     (case ag_token (sh_Sync sh) of
        None \<Rightarrow> (Some ResyncNotJoined, \<lparr>rt_Events = 0, rt_Pending = 0\<rparr>, sh, w)
      | Some token \<Rightarrow>
          (case rebuildLedger sha h (observeAll h (pb_Agent (sh_Prober sh))) of
             (Some err, n, a) \<Rightarrow> (Some (ResyncScan err), \<lparr>rt_Events = n, rt_Pending = 0\<rparr>, set_agent a sh, w)
           | (None, n, a) \<Rightarrow>
               (case upload (Client_Sync transport token) (ag_Store a) w of
                  (Some err, s, w) \<Rightarrow> (Some (ResyncUpload err), \<lparr>rt_Events = n, rt_Pending = 0\<rparr>, set_store s (set_agent a sh), w)
                | (None, s, w) \<Rightarrow>
                    (let stats = \<lparr>rt_Events = n, rt_Pending = OutboxLen s\<rparr>;
                         (err, st, s, w) = syncOnce transport today (ho_Now h) (sh_Sync sh) s w
                     in (map_option ResyncSync err, stats, (set_store s (set_agent a sh))\<lparr>sh_Sync := st\<rparr>, w)))))"

section \<open>What the popup shows\<close>

record popup_login =
  pl_Hint :: string
  pl_PlanType :: string

record popup =
  po_Version :: string
  po_Paired :: bool
  po_Revoked :: bool
  po_PersonID :: string
  po_PersonName :: string
  po_DeviceName :: string
  po_ServerURL :: string
  po_Providers :: "provider_state list"
  po_PendingUploads :: int
  po_LastSyncAt :: "time option"
  po_SyncError :: "client_error option"
  po_OverviewError :: "client_error option"
  po_Overview :: "overview option"
  po_Local :: "local_account list"
  po_StatusLineInstalled :: bool
  po_ClaudeLogins :: "popup_login list"
  po_LaunchAtLogin :: bool
  po_Language :: string
  po_FineChart :: bool
  po_AccountSort :: string
  po_AccountOrder :: "string list"
  po_ModelSort :: string
  po_Update :: "release option"
  po_Pinned :: "string list"

definition statusLineInstalled :: "settings_text option \<Rightarrow> bool" where
  "statusLineInstalled file =
     (case file of None \<Rightarrow> False | Some _ \<Rightarrow> (case PlanRestore file None of None \<Rightarrow> False | Some plan \<Rightarrow> cp_changed plan))"

definition State :: "settings_text option \<Rightarrow> time \<Rightarrow> shell \<Rightarrow> popup" where
  "State claude now sh =
     (let st = pf_Settings (sh_Prefs sh); s = sh_Store sh; y = sh_Sync sh in
      \<lparr>po_Version = sh_Version sh, po_Paired = Paired st, po_Revoked = ag_revoked y, po_PersonID = se_PersonID st,
       po_PersonName = se_PersonName st, po_DeviceName = se_DeviceName st, po_ServerURL = se_ServerURL st,
       po_Providers = map (\<lambda>p. the (map_of (ag_Providers (pb_Agent (sh_Prober sh))) p)) [ProviderAnthropic, ProviderOpenAI, ProviderGoogle],
       po_PendingUploads = OutboxLen s, po_LastSyncAt = ag_lastSync y, po_SyncError = ag_syncErr y,
       po_OverviewError = ag_overviewErr y, po_Overview = ag_overview y, po_Local = localAccounts now s,
       po_StatusLineInstalled = statusLineInstalled claude,
       po_ClaudeLogins = map (\<lambda>l. \<lparr>pl_Hint = cl_Hint l, pl_PlanType = cl_PlanType l\<rparr>) (ClaudeLogins s),
       po_LaunchAtLogin = se_LaunchAtLogin st, po_Language = Language st, po_FineChart = se_FineChart st,
       po_AccountSort = se_AccountSort st, po_AccountOrder = se_AccountOrder st, po_ModelSort = se_ModelSort st,
       po_Update = sh_Update sh, po_Pinned = map wg_AccountID (se_Widgets st)\<rparr>)"

section \<open>A restart resumes\<close>

lemma trim_space_idem [simp]: "trim_space (trim_space s) = trim_space s"
proof -
  have d: "dropWhile is_space (rev (dropWhile is_space (rev t))) = rev (dropWhile is_space (rev t))" if "dropWhile is_space t = t" for t
  proof (cases "dropWhile is_space (rev t)")
    case (Cons x xs)
    have "\<exists>p. t = rev (dropWhile is_space (rev t)) @ p"
      by (metis rev_append rev_rev_ident takeWhile_dropWhile_id)
    then obtain p where p: "t = rev (dropWhile is_space (rev t)) @ p" by blast
    then show ?thesis using that Cons
      by (metis append_is_Nil_conv dropWhile_eq_self_iff hd_append2 list.distinct(1) rev_is_Nil_conv)
  next
    case Nil
    show ?thesis unfolding Nil by simp
  qed
  have "dropWhile is_space (dropWhile is_space s) = dropWhile is_space s" by simp
  from d[OF this] show ?thesis by (simp add: trim_space_def)
qed

text \<open>
  What a user and the loops do that touches the settings, the token or the client, beside a world that
  goes on by itself: the changes of the settings are those of \<open>Preferences\<close>, with the statusLine and the login item.
\<close>

inductive shell_step :: "urls \<Rightarrow> string \<Rightarrow> (string \<Rightarrow> 'w transport) \<Rightarrow> shell \<times> 'w \<Rightarrow> shell \<times> 'w \<Rightarrow> bool" for U dir net where
  pref: "pref_step (sh_Prefs sh) p \<Longrightarrow> shell_step U dir net (sh, w) (sh\<lparr>sh_Prefs := p\<rparr>, w)"
| join: "Join U dir goos hostname net link sh w = (err, sh', w') \<Longrightarrow> shell_step U dir net (sh, w) (sh', w')"
| leave: "Leave dir sh = (err, sh') \<Longrightarrow> shell_step U dir net (sh, w) (sh', w)"
| sync: "syncOnce (net (se_ServerURL (pf_Settings (sh_Prefs sh)))) today now (sh_Sync sh) (sh_Store sh) w = (err, y, s, w') \<Longrightarrow>
   shell_step U dir net (sh, w) ((set_store s sh)\<lparr>sh_Sync := y\<rparr>, w')"
| resync: "Resync sha h (net (se_ServerURL (pf_Settings (sh_Prefs sh)))) today sh w = (rerr, stats, sh', w') \<Longrightarrow>
   shell_step U dir net (sh, w) (sh', w')"
| work: "shell_step U dir net (sh, w) (sh\<lparr>sh_Prober := pb\<rparr>, w')"

text \<open>Package url prints the scheme before the path: what is left without slashes at the end is not empty.\<close>

definition urls_print :: "urls \<Rightarrow> bool" where
  "urls_print U \<longleftrightarrow> (\<forall>u. ur_Scheme u \<noteq> [] \<longrightarrow> ur_Host u \<noteq> [] \<longrightarrow> trim_right CHR ''/'' (us_String U u) \<noteq> [])"

definition resumable :: "string \<Rightarrow> shell \<Rightarrow> bool" where
  "resumable dir sh \<longleftrightarrow> Load (pf_File (sh_Prefs sh)) = Some (pf_Settings (sh_Prefs sh)) \<and>
     start_client dir (pf_Settings (sh_Prefs sh)) (sh_Secrets sh) = map_option trim_space (ag_token (sh_Sync sh))"

lemma pref_step_keeps:
  assumes "pref_step p p'" "Load (pf_File p) = Some (pf_Settings p)"
  shows "Load (pf_File p') = Some (pf_Settings p')" "se_ServerURL (pf_Settings p') = se_ServerURL (pf_Settings p)"
    "se_DeviceID (pf_Settings p') = se_DeviceID (pf_Settings p)"
  using assms by (induction rule: pref_step.induct) (auto simp: pref_ops item_ops split: if_splits prod.splits option.splits)

lemma start_client_cong:
  "se_ServerURL st' = se_ServerURL st \<Longrightarrow> se_DeviceID st' = se_DeviceID st \<Longrightarrow> start_client dir st' sf = start_client dir st sf"
  by (simp add: start_client_def Paired_def)

lemma ParseJoinLink_base:
  assumes "urls_print U" "ParseJoinLink U link = Some (base, code)"
  shows "base \<noteq> []" "code \<noteq> []"
proof -
  obtain u pre where u: "ur_Scheme u = ''https'' \<or> ur_Scheme u = ''http''" "ur_Host u \<noteq> []" "code \<noteq> []"
    "base = trim_right CHR ''/'' (us_String U (u\<lparr>ur_Path := pre, ur_RawQuery := [], ur_Fragment := []\<rparr>))"
    using assms(2) by (fastforce simp: ParseJoinLink_def split: option.splits if_splits prod.splits)
  then show "base \<noteq> []" "code \<noteq> []" using assms(1) unfolding urls_print_def by auto
qed

lemma Join_resumable:
  assumes U: "urls_print U" and J: "Join U dir goos hostname transport link sh w = (err, sh', w')" and ok: "resumable dir sh"
  shows "resumable dir sh'"
proof (cases err)
  case (Some e)
  then have "sh' = sh" using J by (auto simp: Join_def Let_def split: option.splits prod.splits sum.splits)
  then show ?thesis using ok by simp
next
  case None
  then obtain base code r w1 sf where parsed: "ParseJoinLink U link = Some (base, code)"
    and stored: "SetToken dir (pa_DeviceID r) (pa_Token r) (sh_Secrets sh) = (None, sf)"
    and sh': "pf_Settings (sh_Prefs sh') = joined_settings base (device_name goos hostname) r (pf_Settings (sh_Prefs sh))"
      "Load (pf_File (sh_Prefs sh')) = Some (pf_Settings (sh_Prefs sh'))" "ag_token (sh_Sync sh') = Some (pa_Token r)"
      "sh_Secrets sh' = (let previous = se_DeviceID (pf_Settings (sh_Prefs sh)) in
         if previous \<noteq> [] \<and> previous \<noteq> pa_DeviceID r then snd (DeleteToken dir previous sf) else sf)"
    using J by (auto simp: Join_def Let_def split: option.splits prod.splits sum.splits)
  have "Token dir (pa_DeviceID r) (snd (DeleteToken dir q sf)) = Token dir (pa_DeviceID r) sf" if "q \<noteq> pa_DeviceID r" for q
    using that Token_after_DeleteToken[of dir q sf] by (cases "DeleteToken dir q sf") (auto simp: DeleteToken_def split: sum.splits)
  then have "Token dir (pa_DeviceID r) (sh_Secrets sh') = Inr (trim_space (pa_Token r))"
    using sh'(4) Token_after_SetToken[OF stored, of "pa_DeviceID r"] by (auto simp: Let_def)
  moreover have "pa_DeviceID r \<noteq> []" using stored by (auto simp: SetToken_def tokenPath_def secretPath_def)
  ultimately show ?thesis using sh' ParseJoinLink_base[OF U parsed]
    by (simp add: resumable_def start_client_def Paired_def joined_settings_def)
qed

lemma Leave_resumable: "Leave dir sh = (err, sh') \<Longrightarrow> resumable dir sh'"
  by (auto simp: Leave_def Let_def resumable_def start_client_def Paired_def left_settings_def sync_start_def
      split: if_splits option.splits prod.splits)

lemma syncOnce_token: "syncOnce transport today now y s w = (err, y', s', w') \<Longrightarrow> ag_token y' = ag_token y"
  by (auto simp: syncOnce_def Let_def split: option.splits if_splits prod.splits sum.splits client_error.splits)

lemma set_agent_simps [simp]:
  "sh_Prefs (set_agent a sh) = sh_Prefs sh" "sh_Secrets (set_agent a sh) = sh_Secrets sh" "sh_Sync (set_agent a sh) = sh_Sync sh"
  "sh_Prefs (set_store s sh) = sh_Prefs sh" "sh_Secrets (set_store s sh) = sh_Secrets sh" "sh_Sync (set_store s sh) = sh_Sync sh"
  "sh_Store (set_store s sh) = s" "sh_Store (set_agent a sh) = ag_Store a"
  by (simp_all add: set_agent_def set_store_def)

lemma Resync_keeps:
  assumes "Resync sha h transport today sh w = (err, stats, sh', w')"
  shows "sh_Prefs sh' = sh_Prefs sh" "sh_Secrets sh' = sh_Secrets sh" "ag_token (sh_Sync sh') = ag_token (sh_Sync sh)"
  using assms by (auto simp: Resync_def Let_def dest!: syncOnce_token split: option.splits prod.splits)

lemma shell_step_resumable:
  assumes "urls_print U" shows "shell_step U dir net x y \<Longrightarrow> resumable dir (fst x) \<Longrightarrow> resumable dir (fst y)"
proof (induction rule: shell_step.induct)
  case (pref sh p w)
  then show ?case using pref_step_keeps[OF pref(1)] start_client_cong[of "pf_Settings p" "pf_Settings (sh_Prefs sh)"]
    by (auto simp: resumable_def)
next
  case (resync sha h sh today w rerr stats sh' w')
  then show ?case using Resync_keeps[OF resync(1)] by (simp add: resumable_def)
next
  case (join goos hostname link sh w err sh' w')
  then show ?case using Join_resumable[OF assms join(1)] by simp
next
  case (leave sh err sh' w)
  then show ?case using Leave_resumable by simp
qed (auto simp: resumable_def dest: syncOnce_token)

text \<open>
  C13. A restart resumes where the agent stopped: after any sequence of joins, leaves, syncs, resyncs, changes of
  the settings, installs and restores of the statusLine and switches of the start at login, an agent started from what is on disk has the same settings, the same ledger and
  the same client, with the token but for white space around it.
\<close>

theorem restart_resumes:
  assumes "urls_print U" and "New_agent dir v file s spooled logins sf = Some sh0"
    and "(shell_step U dir net)\<^sup>*\<^sup>* (sh0, w0) (sh, w)"
  shows "\<exists>sh'. New_agent dir v' (pf_File (sh_Prefs sh)) (sh_Store sh) (ag_Spool (pb_Agent (sh_Prober sh)))
      (pb_Secrets (sh_Prober sh)) (sh_Secrets sh) = Some sh' \<and>
    pf_Settings (sh_Prefs sh') = pf_Settings (sh_Prefs sh) \<and> sh_Store sh' = sh_Store sh \<and>
    ag_token (sh_Sync sh') = map_option trim_space (ag_token (sh_Sync sh))"
proof -
  have "resumable dir sh0" using assms(2)
    by (auto simp: New_agent_def resumable_def sync_start_def start_client_def Token_def readSecret_def split: option.splits sum.splits if_splits)
  moreover have "resumable dir (fst x) \<Longrightarrow> resumable dir (fst y)" if "(shell_step U dir net)\<^sup>*\<^sup>* x y" for x y
    using that by (induction rule: rtranclp_induct) (auto intro: shell_step_resumable[OF assms(1)])
  ultimately have "resumable dir sh" using assms(3) by fastforce
  then show ?thesis by (simp add: New_agent_def resumable_def sync_start_def)
qed

definition demo_urls :: urls where
  "demo_urls = \<lparr>us_Parse = (\<lambda>_. Some \<lparr>ur_Scheme = ''https'', ur_Host = ''h'', ur_Path = ''/join/c'', ur_RawQuery = [], ur_Fragment = []\<rparr>),
     us_String = (\<lambda>_. ''https://h'')\<rparr>"

definition demo_net :: "string \<Rightarrow> unit transport" where
  "demo_net base req w = (Some \<lparr>as_Status = StatusOK_http,
     as_Body = PairBody \<lparr>pa_DeviceID = ''d1'', pa_PersonID = ''p1'', pa_PersonName = ''Ann'', pa_Token = ''tok''\<rparr>\<rparr>, w)"

definition demo_shell :: shell where
  "demo_shell = the (New_agent ''/data'' ''1'' SettingsMissing empty_local [] [] [])"

definition demo_joined_shell :: shell where
  "demo_joined_shell = fst (snd (Join demo_urls ''/data'' ''linux'' (Some ''box.local'') demo_net ''https://h/join/c'' demo_shell ()))"

lemma restart_resumes_witness:
  "\<exists>sh'. New_agent ''/data'' ''2'' (pf_File (sh_Prefs demo_joined_shell)) (sh_Store demo_joined_shell) (ag_Spool (pb_Agent (sh_Prober demo_joined_shell)))
      (pb_Secrets (sh_Prober demo_joined_shell)) (sh_Secrets demo_joined_shell) = Some sh' \<and> ag_token (sh_Sync sh') = Some ''tok'' \<and>
      se_DeviceName (pf_Settings (sh_Prefs sh')) = ''box''"
proof -
  have print: "urls_print demo_urls" by (simp add: urls_print_def demo_urls_def trim_right_def)
  have start: "New_agent ''/data'' ''1'' SettingsMissing empty_local [] [] [] = Some demo_shell"
    by (simp add: demo_shell_def New_agent_def Load_def)
  have "shell_step demo_urls ''/data'' demo_net (demo_shell, ()) (demo_joined_shell, ())"
    by (rule shell_step.join[where goos = "''linux''" and hostname = "Some ''box.local''" and link = "''https://h/join/c''"
          and err = "fst (Join demo_urls ''/data'' ''linux'' (Some ''box.local'') demo_net ''https://h/join/c'' demo_shell ())"])
      (simp add: demo_joined_shell_def prod_eq_iff)
  then have "(shell_step demo_urls ''/data'' demo_net)\<^sup>*\<^sup>* (demo_shell, ()) (demo_joined_shell, ())" by blast
  note again = restart_resumes[OF print start this, of "''2''"]
  have "ag_token (sh_Sync demo_joined_shell) = Some ''tok''" "se_DeviceName (pf_Settings (sh_Prefs demo_joined_shell)) = ''box''" "trim_space ''tok'' = ''tok''"
    by code_simp+
  then show ?thesis using again by auto
qed

section \<open>A rebuilt ledger is delivered\<close>

lemma upload_done: "upload sync s w = (err, s', w') \<Longrightarrow> ld_events s' = ld_events s \<and> (err = None \<longrightarrow> ld_outbox s' = [])"
proof (induction "length (ld_outbox s)" arbitrary: s w rule: less_induct)
  case less
  show ?case
  proof (cases "PendingOutbox batchSize s = []")
    case True
    then have "ld_outbox s = []" by (simp add: PendingOutbox_def batchSize_def)
    then show ?thesis using less(2) True by (subst (asm) upload.simps) simp
  next
    case pending: False
    show ?thesis
    proof (cases "batchRequest (PendingOutbox batchSize s)")
      case (Inl e)
      then show ?thesis using less(2) pending by (subst (asm) upload.simps) (auto simp: Let_def)
    next
      case (Inr req)
      obtain r w1 where r: "sync req w = (r, w1)" by force
      show ?thesis
      proof (cases r)
        case (Inl e)
        then show ?thesis using less(2) pending Inr r by (subst (asm) upload.simps) (auto simp: Let_def)
      next
        case ok: (Inr res)
        let ?s = "DeleteOutboxThrough (ox_ID (last (PendingOutbox batchSize s))) s"
        have "upload sync ?s w1 = (err, s', w')"
          using less(2) pending Inr r ok by (subst (asm) upload.simps) (simp add: Let_def)
        from less(1)[OF DeleteOutboxThrough_shorter[OF pending] this] show ?thesis by (simp add: DeleteOutboxThrough_def)
      qed
    qed
  qed
qed

lemma upload_nothing: "ld_outbox s = [] \<Longrightarrow> upload sync s w = (None, s, w)"
  by (subst upload.simps) (simp add: PendingOutbox_def)

lemma syncOnce_empty:
  assumes "syncOnce (direct envs) today now y s w = (err, y', s', w')" "ld_outbox s = []"
  shows "s' = s" "db_usage (fst w') = db_usage (fst w)"
proof -
  show "s' = s" using assms by (cases "ag_token y"; cases "ag_revoked y")
    (simp_all add: syncOnce_def upload_nothing case_prod_beta' Let_def)
  show "db_usage (fst w') = db_usage (fst w)"
  proof (cases "ag_token y = None \<or> ag_revoked y")
    case True
    then show ?thesis using assms(1) by (auto simp: syncOnce_def split: option.splits)
  next
    case False
    then obtain token where t: "ag_token y = Some token" "\<not> ag_revoked y" by auto
    obtain r v where call: "Client_Overview (direct envs) token today w = (r, v)" by (rule prod.exhaust)
    then have "w' = v" using assms t by (cases r) (simp_all add: syncOnce_def upload_nothing Let_def)
    then show ?thesis using overview_keeps_usage[OF call] by simp
  qed
qed

lemma queued_as_all: "list_all P (queued_as s k) \<longleftrightarrow>
    (\<forall>it \<in> set (ld_outbox s). \<forall>e. ox_Payload it = PayloadEvent e \<longrightarrow> se_DedupeKey e = k \<longrightarrow> P e)"
  unfolding queued_as_def list_all_iff set_filter using queued_events[of _ "ld_outbox s"] by auto

text \<open>
  C23. A resync that succeeds has delivered everything. After any life of the local database, and against the
  server's own router: the ledger is what reading the logs again gave, with as many requests as it says; every
  request of it was queued, and is in the server's ledger under its key by the end, unless all it was queued as
  is out of the range the server takes or without an account or a key; and nothing of it is left to upload.
\<close>

theorem Resync_delivers:
  assumes "client_step\<^sup>*\<^sup>* empty_local (sh_Store sh)" and "Resync sha h (direct envs) today sh w = (None, stats, sh', w')"
  shows "\<exists>n a. rebuildLedger sha h (observeAll h (pb_Agent (sh_Prober sh))) = (None, n, a) \<and> rt_Events stats = n \<and>
    ld_events (sh_Store sh') = ld_events (ag_Store a) \<and> rt_Events stats = EventCount (sh_Store sh') \<and>
    list_all (\<lambda>r. queued_as (ag_Store a) (lv_dedupe_key r) \<noteq> [] \<and>
      (list_all (\<lambda>e. bad_event e \<or> nameless e) (queued_as (ag_Store a) (lv_dedupe_key r)) \<or>
       list_ex (\<lambda>u. ur_DedupeKey u = lv_dedupe_key r) (db_usage (fst w')))) (ld_events (sh_Store sh')) \<and>
    ld_outbox (sh_Store sh') = [] \<and> rt_Pending stats = 0"
proof -
  define a0 where "a0 = observeAll h (pb_Agent (sh_Prober sh))"
  obtain token n a s w1 y where ledger: "rebuildLedger sha h a0 = (None, n, a)"
    and up: "upload (Client_Sync (direct envs) token) (ag_Store a) w = (None, s, w1)"
    and sync: "syncOnce (direct envs) today (ho_Now h) (sh_Sync sh) s w1 = (None, y, sh_Store sh', w')"
    and stats: "stats = \<lparr>rt_Events = n, rt_Pending = OutboxLen s\<rparr>"
    using assms(2) by (auto simp: Resync_def a0_def Let_def split: option.splits prod.splits)
  have "client_step\<^sup>*\<^sup>* (sh_Store sh) (ag_Store a0)" unfolding a0_def by (rule log_clients[OF log_steps_observeAll])
  moreover have "client_step\<^sup>*\<^sup>* (ag_Store a0) (ag_Store a)" using store_steps_rebuild[of a0 sha h] ledger by simp
  ultimately have "local_ok (ag_Store a)" using assms(1) by (meson local_db.ok_reachable rtranclp_trans)
  note reached = upload_reaches[OF this up]
  have "sh_Store sh' = s" and usage: "db_usage (fst w') = db_usage (fst w1)" using syncOnce_empty[OF sync reached(1)] by simp_all
  moreover have "ld_events s = ld_events (ag_Store a)" using upload_done[OF up] by simp
  moreover have "n = EventCount (ag_Store a)" using ledger by (auto simp: rebuildLedger_def Let_def split: prod.splits option.splits)
  moreover have "all_queued (ag_Store a)" using rebuildLedger_queued[of sha h a0] ledger by simp
  moreover have "list_all (\<lambda>e. bad_event e \<or> nameless e) (queued_as (ag_Store a) k) \<or>
      list_ex (\<lambda>u. ur_DedupeKey u = k) (db_usage (fst w1))" for k
    using reached(3) unfolding queued_as_all by (force simp: list_ex_iff)
  ultimately show ?thesis using ledger stats reached(1) unfolding all_queued_def list_all_iff a0_def
    by (auto simp: EventCount_def OutboxLen_def)
qed

definition demo_resync :: "resync_error option \<times> resync_stats \<times> shell \<times> (db \<times> nat)" where
  "demo_resync = Resync demo_sha demo_host (direct (\<lambda>_. HttpApi.demo_env)) [] (set_agent demo_scanned
     (demo_shell\<lparr>sh_Sync := sync_start (Some ''t1'')\<rparr>)) (db3, 0)"

lemma Resync_delivers_witness:
  "fst demo_resync = None \<and> rt_Events (fst (snd demo_resync)) = 1 \<and> ld_outbox (sh_Store (fst (snd (snd demo_resync)))) = [] \<and>
   map (\<lambda>r. list_ex (\<lambda>u. ur_DedupeKey u = lv_dedupe_key r) (db_usage (fst (snd (snd (snd demo_resync))))))
     (ld_events (sh_Store (fst (snd (snd demo_resync))))) = [True]"
proof -
  have ok: "fst demo_resync = None" and one: "rt_Events (fst (snd demo_resync)) = 1" by code_simp+
  have there: "map (\<lambda>r. list_ex (\<lambda>u. ur_DedupeKey u = lv_dedupe_key r) (db_usage (fst (snd (snd (snd demo_resync))))))
     (ld_events (sh_Store (fst (snd (snd demo_resync))))) = [True]" by code_simp
  have "store_steps agent_start demo_scanned" unfolding demo_scanned_def demo_joined_def
    by (rule rtranclp_trans[OF log_clients[OF log_steps_observeAll] log_clients[OF log_steps_scanAll]])
  then have life: "client_step\<^sup>*\<^sup>* empty_local (sh_Store (set_agent demo_scanned (demo_shell\<lparr>sh_Sync := sync_start (Some ''t1'')\<rparr>)))"
    by (simp add: agent_start_def)
  obtain stats sh' w' where "demo_resync = (None, stats, sh', w')" using ok by (metis prod.collapse)
  with Resync_delivers[OF life, of demo_sha demo_host "\<lambda>_. HttpApi.demo_env" "[]" "(db3, 0)" stats sh' w']
  show ?thesis using one there by (auto simp: demo_resync_def)
qed

end
