(* ===== verification/AgentLoops.thy ===== *)
theory AgentLoops
  imports Joining
begin

text \<open>
  The running agent (\<open>Run\<close>, \<open>Refresh\<close> and the loops of \<open>internal/client/agent/agent.go\<close>): five loops
  with a timer each, of which two can be kicked. What a loop does in one turn is one event, and the
  turns of the five loops interleave; a channel of capacity one is a flag. The host, the network and
  the answers a turn meets are the record \<open>outside\<close>.
\<close>

section \<open>Channels of capacity one\<close>

text \<open>\<open>kick\<close>: a channel that is full already keeps its one signal.\<close>

definition kick :: "bool \<Rightarrow> bool" where "kick full = (if full then full else True)"

section \<open>The loops\<close>

record 'w outside =
  os_RFC3339 :: "string \<Rightarrow> time option"
  os_Host :: host
  os_Network :: "'w network"
  os_Read :: "probe_error + credential"
  os_Cred :: "quota_error + credential"
  os_Transport :: "'w transport"
  os_Today :: string
  os_Release :: "'w \<Rightarrow> release_page http_answer \<times> 'w"

record 'w running =
  rn_Shell :: shell
  rn_World :: 'w
  rn_KickScan :: bool
  rn_KickSync :: bool
  rn_Backoff :: duration
  rn_NextSync :: time

definition scanInterval :: duration where "scanInterval = 15 * second"
definition identityInterval :: duration where "identityInterval = 5 * minute"
definition usageInterval :: duration where "usageInterval = 10 * minute"
definition updateInterval :: duration where "updateInterval = 24 * hour"

definition on_agent :: "(agent \<Rightarrow> agent) \<Rightarrow> 'w running \<Rightarrow> 'w running" where
  "on_agent f rn = rn\<lparr>rn_Shell := set_agent (f (pb_Agent (sh_Prober (rn_Shell rn)))) (rn_Shell rn)\<rparr>"

definition probe_turn :: "(string \<Rightarrow> string) \<Rightarrow> 'w outside \<Rightarrow> 'w running \<Rightarrow> 'w running" where
  "probe_turn sha os rn =
     (let (_, pb, w) = probeUsage sha (os_RFC3339 os) (os_Host os) (os_Network os) (os_Read os) (os_Cred os) (sh_Prober (rn_Shell rn)) (rn_World rn)
      in rn\<lparr>rn_Shell := (rn_Shell rn)\<lparr>sh_Prober := pb\<rparr>, rn_World := w\<rparr>)"

definition sync_turn :: "'w outside \<Rightarrow> 'w running \<Rightarrow> 'w running" where
  "sync_turn os rn =
     (let sh = rn_Shell rn;
          (err, y, s, w) = syncOnce (os_Transport os) (os_Today os) (ho_Now (os_Host os)) (sh_Sync sh) (sh_Store sh) (rn_World rn);
          backoff = next_backoff err (rn_Backoff rn)
      in rn\<lparr>rn_Shell := (set_store s sh)\<lparr>sh_Sync := y\<rparr>, rn_World := w, rn_Backoff := backoff, rn_NextSync := ho_Now (os_Host os) + backoff\<rparr>)"

definition update_turn :: "'w outside \<Rightarrow> 'w running \<Rightarrow> 'w running" where
  "update_turn os rn =
     (case Latest_release (os_Release os) (sh_Version (rn_Shell rn)) (rn_World rn) of
        (Inl _, w) \<Rightarrow> rn\<lparr>rn_World := w\<rparr>
      | (Inr rel, w) \<Rightarrow> rn\<lparr>rn_Shell := (rn_Shell rn)\<lparr>sh_Update := rel\<rparr>, rn_World := w\<rparr>)"

datatype loop_event = IdentityTick | UsageTick | UpdateTick | ScanTick | ScanKicked | SyncTimer | SyncKicked | Refreshes

fun loop_turn :: "(string \<Rightarrow> string) \<Rightarrow> 'w outside \<Rightarrow> loop_event \<Rightarrow> 'w running \<Rightarrow> 'w running" where
  "loop_turn sha os IdentityTick rn = on_agent (observeAll (os_Host os)) rn"
| "loop_turn sha os UsageTick rn = probe_turn sha os rn"
| "loop_turn sha os UpdateTick rn = update_turn os rn"
| "loop_turn sha os ScanTick rn = on_agent (scanAll sha (os_Host os)) rn"
| "loop_turn sha os ScanKicked rn =
     (if rn_KickScan rn
      then on_agent (scanAll sha (os_Host os)) (on_agent (observeAll (os_Host os)) (rn\<lparr>rn_KickScan := False\<rparr>)) else rn)"
| "loop_turn sha os SyncTimer rn = sync_turn os rn"
| "loop_turn sha os SyncKicked rn = (if rn_KickSync rn then sync_turn os (rn\<lparr>rn_KickSync := False\<rparr>) else rn)"
| "loop_turn sha os Refreshes rn = rn\<lparr>rn_KickScan := kick (rn_KickScan rn), rn_KickSync := kick (rn_KickSync rn)\<rparr>"

fun loop_turns :: "(string \<Rightarrow> string) \<Rightarrow> ('w outside \<times> loop_event) list \<Rightarrow> 'w running \<Rightarrow> 'w running" where
  "loop_turns sha [] rn = rn"
| "loop_turns sha ((os, e) # es) rn = loop_turns sha es (loop_turn sha os e rn)"

text \<open>\<open>Run\<close>: sign-ins are observed and usage probed before the first pass over the logs; then the loops.\<close>

definition Run_agent :: "(string \<Rightarrow> string) \<Rightarrow> 'w outside \<Rightarrow> ('w outside \<times> loop_event) list \<Rightarrow> shell \<Rightarrow> 'w \<Rightarrow> 'w running" where
  "Run_agent sha os es sh w =
     loop_turns sha es
       (on_agent (scanAll sha (os_Host os)) (probe_turn sha os (on_agent (observeAll (os_Host os))
          \<lparr>rn_Shell = sh, rn_World = w, rn_KickScan = False, rn_KickSync = False, rn_Backoff = syncInterval, rn_NextSync = ho_Now (os_Host os)\<rparr>)))"

section \<open>What the turns keep\<close>

abbreviation rn_Agent :: "'w running \<Rightarrow> agent" where "rn_Agent rn \<equiv> pb_Agent (sh_Prober (rn_Shell rn))"

lemma ok_store:
  "agent_ok sha D a \<Longrightarrow> client_step (ag_Store a) s \<Longrightarrow> (joined sha D (ag_Store a) \<Longrightarrow> joined sha D s) \<Longrightarrow> agent_ok sha D (a\<lparr>ag_Store := s\<rparr>)"
  using local_db.ok_step by (auto simp: agent_ok_def)

lemma ok_probe_ops:
  assumes "agent_ok sha D (pb_Agent pb)"
  shows "agent_ok sha D (pb_Agent (on_store (AddSnapshot sn) pb))" "agent_ok sha D (pb_Agent (on_store (AddClaudeLogin l) pb))"
  using assms ok_store[OF assms client_step.add_snapshot] ok_store[OF assms client_step.add_login]
  by (auto simp: on_store_def with_store_def joined_def AddClaudeLogin_def)

lemma ok_observe: "agent_ok sha D a \<Longrightarrow> agent_ok sha D (observe h p a)"
  using log_clients[OF log_steps_observe[of a h p]] local_db.ok_steps observe_joined[of sha D a h p] by (auto simp: agent_ok_def)

lemma ok_current: "agent_ok sha D (pb_Agent pb) \<Longrightarrow> current_accounts h p pb = (ac, pb') \<Longrightarrow> agent_ok sha D (pb_Agent pb')"
  by (auto simp: current_accounts_def Let_def ok_observe split: if_splits)

lemma ok_pause [simp]: "pb_Agent (pauseUsage now key err pb) = pb_Agent pb"
  by (simp add: pauseUsage_def split: probe_error.split)

lemma ok_probeLogin:
  "agent_ok sha D (pb_Agent pb) \<Longrightarrow> probeLogin rfc net now l pb w = (r, pb', w') \<Longrightarrow> agent_ok sha D (pb_Agent pb')"
  by (auto simp: probeLogin_def Let_def ok_probe_ops split: option.splits prod.splits sum.splits if_splits)

lemma ok_probe_one:
  "agent_ok sha D (pb_Agent (fst (snd acc))) \<Longrightarrow> agent_ok sha D (pb_Agent (fst (snd (probe_one rfc net now covered l acc))))"
  by (cases acc) (auto simp: probe_one_def Let_def dest: ok_probeLogin split: prod.splits sum.splits login_error.splits)

lemma ok_probes:
  "agent_ok sha D (pb_Agent (fst (snd acc))) \<Longrightarrow> agent_ok sha D (pb_Agent (fst (snd (fold (probe_one rfc net now covered) ls acc))))"
  by (induction ls arbitrary: acc) (simp_all add: ok_probe_one)

lemma ok_probeClaudeCode:
  "agent_ok sha D (pb_Agent pb) \<Longrightarrow> probeClaudeCode sha rfc h net read pb w = (c, r, pb', w') \<Longrightarrow> agent_ok sha D (pb_Agent pb')"
  by (auto simp: probeClaudeCode_def Let_def ok_probe_ops dest: ok_current split: option.splits prod.splits sum.splits if_splits)

lemma ok_probeAntigravity:
  "agent_ok sha D (pb_Agent pb) \<Longrightarrow> probeAntigravity sha rfc h net cred pb w = (r, pb', w') \<Longrightarrow> agent_ok sha D (pb_Agent pb')"
  by (auto simp: probeAntigravity_def Let_def ok_probe_ops dest: ok_current split: option.splits prod.splits sum.splits if_splits)

lemma ok_probeUsage:
  assumes "agent_ok sha D (pb_Agent pb)" "probeUsage sha rfc h net read cred pb w = (r, pb', w')"
  shows "agent_ok sha D (pb_Agent pb')"
proof -
  obtain c r1 pb1 w1 where one: "probeClaudeCode sha rfc h net read pb w = (c, r1, pb1, w1)" by (rule prod_cases4)
  obtain r2 pb2 w2 where two: "probeAntigravity sha rfc h net cred pb1 w1 = (r2, pb2, w2)" by (rule prod_cases3)
  have "agent_ok sha D (pb_Agent pb2)" using ok_probeAntigravity[OF ok_probeClaudeCode[OF assms(1) one] two] .
  then have "agent_ok sha D (pb_Agent (fst (snd (fold (probe_one rfc net (ho_Now h) c) (ClaudeLogins (ag_Store (pb_Agent pb2))) (r2 \<or> r1, pb2, w2)))))"
    by (intro ok_probes) simp
  then show ?thesis using assms(2) by (simp add: probeUsage_def one two)
qed

lemma upload_ok:
  "local_ok s \<Longrightarrow> upload sync s w = (err, s', w') \<Longrightarrow> local_ok s' \<and> (joined sha D s \<longrightarrow> joined sha D s')"
proof (induction sync s w arbitrary: err s' w' rule: upload.induct)
  case (1 sync s w)
  have del: "local_ok (DeleteOutboxThrough i s)" "joined sha D s \<longrightarrow> joined sha D (DeleteOutboxThrough i s)" for i
    using local_db.ok_step[OF "1.prems"(1) client_step.delete_outbox] by (auto simp: joined_def DeleteOutboxThrough_def)
  show ?case using "1.prems"(2) "1.IH"[OF refl] "1.prems"(1) del
    by (subst (asm) upload.simps) (fastforce simp: Let_def split: if_splits sum.splits prod.splits)
qed

lemma syncOnce_ok:
  "local_ok s \<Longrightarrow> syncOnce transport today now y s w = (err, y', s', w') \<Longrightarrow> local_ok s' \<and> (joined sha D s \<longrightarrow> joined sha D s')"
  by (auto simp: syncOnce_def Let_def dest: upload_ok split: option.splits if_splits prod.splits)

lemma on_agent_simps [simp]:
  "rn_Agent (on_agent f rn) = f (rn_Agent rn)" "rn_Backoff (on_agent f rn) = rn_Backoff rn" "rn_KickScan (on_agent f rn) = rn_KickScan rn"
  by (simp_all add: on_agent_def set_agent_def)

lemma probe_turn_ok: "agent_ok sha D (rn_Agent rn) \<Longrightarrow> agent_ok sha D (rn_Agent (probe_turn sha os rn))"
  by (auto simp: probe_turn_def Let_def dest: ok_probeUsage split: prod.splits)

lemma sync_turn_ok: "agent_ok sha D (rn_Agent rn) \<Longrightarrow> agent_ok sha D (rn_Agent (sync_turn os rn))"
  by (auto simp: sync_turn_def Let_def agent_ok_def set_store_def set_agent_def dest!: syncOnce_ok[rotated] split: prod.splits)

lemma update_turn_simps [simp]: "rn_Agent (update_turn os rn) = rn_Agent rn" "rn_Backoff (update_turn os rn) = rn_Backoff rn"
  by (auto simp: update_turn_def split: prod.split sum.split)

lemma scan_ok: "set (desktop_orgs h) \<subseteq> D \<Longrightarrow> agent_ok sha D a \<Longrightarrow> agent_ok sha D (scanAll sha h a)"
  using log_clients[OF log_steps_scanAll[of a sha h]] local_db.ok_steps scanAll_joined[of sha h D a] by (auto simp: agent_ok_def)

lemma observe_all_ok: "agent_ok sha D a \<Longrightarrow> agent_ok sha D (observeAll h a)"
  using log_clients[OF log_steps_observeAll[of a h]] local_db.ok_steps observeAll_joined[of sha D a h] by (auto simp: agent_ok_def)

lemma loop_turn_ok:
  "set (desktop_orgs (os_Host os)) \<subseteq> D \<Longrightarrow> agent_ok sha D (rn_Agent rn) \<Longrightarrow> agent_ok sha D (rn_Agent (loop_turn sha os e rn))"
  by (cases e) (simp_all add: scan_ok observe_all_ok probe_turn_ok sync_turn_ok)

text \<open>The organizations Claude Desktop names on the hosts a run meets.\<close>

definition met_orgs :: "'w outside list \<Rightarrow> string list" where
  "met_orgs oss = concat (map (\<lambda>os. desktop_orgs (os_Host os)) oss)"

lemma loop_turns_ok:
  "set (met_orgs (map fst es)) \<subseteq> D \<Longrightarrow> agent_ok sha D (rn_Agent rn) \<Longrightarrow> agent_ok sha D (rn_Agent (loop_turns sha es rn))"
  by (induction sha es rn rule: loop_turns.induct) (simp_all add: loop_turn_ok met_orgs_def)

section \<open>The wait between uploads\<close>

definition backoff_ok :: "duration \<Rightarrow> bool" where
  "backoff_ok d \<longleftrightarrow> syncInterval \<le> d \<and> d \<le> maxSyncBackoff"

lemma next_backoff_ok: "backoff_ok d \<Longrightarrow> backoff_ok (next_backoff err d)"
  by (auto simp: backoff_ok_def next_backoff_def syncInterval_def maxSyncBackoff_def minute_def second_def split: option.split)

lemma turn_backoff: "rn_Backoff (probe_turn sha os rn) = rn_Backoff rn" "\<exists>err. rn_Backoff (sync_turn os rn) = next_backoff err (rn_Backoff rn)"
  by (auto simp: probe_turn_def sync_turn_def Let_def split: prod.split)

lemma loop_turn_backoff: "backoff_ok (rn_Backoff rn) \<Longrightarrow> backoff_ok (rn_Backoff (loop_turn sha os e rn))"
proof (cases e)
  case SyncTimer
  assume "backoff_ok (rn_Backoff rn)"
  then show ?thesis using turn_backoff(2)[of os rn] next_backoff_ok SyncTimer by auto
next
  case SyncKicked
  assume "backoff_ok (rn_Backoff rn)"
  then show ?thesis using turn_backoff(2)[of os "rn\<lparr>rn_KickSync := False\<rparr>"] next_backoff_ok SyncKicked by auto
qed (simp_all add: turn_backoff(1))

lemma loop_turns_backoff: "backoff_ok (rn_Backoff rn) \<Longrightarrow> backoff_ok (rn_Backoff (loop_turns sha es rn))"
  by (induction sha es rn rule: loop_turns.induct) (simp_all add: loop_turn_backoff)

text \<open>After k failures in a row the wait is the interval doubled k times, up to the greatest one.\<close>

lemma backoff_doubles: "((next_backoff (Some err)) ^^ k) syncInterval = min (syncInterval * 2 ^ k) maxSyncBackoff"
  by (induction k) (auto simp: next_backoff_def syncInterval_def maxSyncBackoff_def minute_def second_def min_def)

text \<open>
  C17. However the loops of the agent interleave, with whatever they meet, from the first start on the
  ledger stays the one its operations promise: its keys are unique, its outbox is in order, and every
  request in it is of an account the device was seen to use (an observation names it, or Claude Desktop named
  its organization during the run) and of a provider that had been seen by the time of the request; and the
  wait between two uploads stays between thirty seconds and ten minutes.
\<close>

theorem running_agent_keeps_ledger:
  assumes "\<forall>x. sha x \<noteq> []" "New_agent dir version file empty_local [] logins sf = Some sh" "rn = Run_agent sha os es sh w"
  shows "local_ok (ag_Store (rn_Agent rn)) \<and> joined sha (set (met_orgs (os # map fst es))) (ag_Store (rn_Agent rn)) \<and>
    syncInterval \<le> rn_Backoff rn \<and> rn_Backoff rn \<le> maxSyncBackoff"
proof -
  have "pb_Agent (sh_Prober sh) = agent_start" using assms(2) by (auto simp: New_agent_def agent_start_def split: option.splits)
  then have "agent_ok sha (set (met_orgs (os # map fst es))) (pb_Agent (sh_Prober sh))" by (simp add: agent_ok_start)
  then have "agent_ok sha (set (met_orgs (os # map fst es))) (rn_Agent rn)" unfolding assms(3) Run_agent_def
    by (intro loop_turns_ok) (simp_all add: scan_ok probe_turn_ok observe_all_ok met_orgs_def)
  moreover have "backoff_ok (rn_Backoff rn)" unfolding assms(3) Run_agent_def
    by (intro loop_turns_backoff) (simp add: turn_backoff(1) backoff_ok_def syncInterval_def maxSyncBackoff_def minute_def second_def)
  ultimately show ?thesis using assms(1) by (simp add: agent_ok_def backoff_ok_def)
qed

text \<open>Claude Code signed in, with one log, and no network.\<close>

definition demo_outside :: "unit outside" where
  "demo_outside = \<lparr>os_RFC3339 = (\<lambda>_. None), os_Host = demo_host,
     os_Network = \<lparr>nt_usage = (\<lambda>_ w. (NoAnswer, w)), nt_refresh = (\<lambda>_ w. (NoAnswer, w)), nt_profile = (\<lambda>_ w. (NoAnswer, w)),
       nt_quota = (\<lambda>_ w. (NoAnswer, w))\<rparr>,
     os_Read = Inl ErrNoCredential, os_Cred = Inl QuotaNotSignedIn, os_Transport = (\<lambda>_ w. (None, w)), os_Today = [],
     os_Release = (\<lambda>w. (NoAnswer, w))\<rparr>"

definition demo_shell :: shell where "demo_shell = the (New_agent [] ''dev'' SettingsMissing empty_local [] [] [])"

definition demo_running :: "unit running" where
  "demo_running = Run_agent AgentLedger.demo_sha demo_outside [(demo_outside, Refreshes), (demo_outside, SyncTimer)] demo_shell ()"

lemma running_agent_keeps_ledger_witness:
  "length (ld_events (ag_Store (rn_Agent demo_running))) = 1 \<and> local_ok (ag_Store (rn_Agent demo_running)) \<and>
   joined AgentLedger.demo_sha {} (ag_Store (rn_Agent demo_running)) \<and> syncInterval \<le> rn_Backoff demo_running \<and> rn_Backoff demo_running \<le> maxSyncBackoff"
proof
  have new: "New_agent [] ''dev'' SettingsMissing empty_local [] [] [] = Some demo_shell"
    by (simp add: demo_shell_def New_agent_def Load_def)
  have sha: "\<forall>x. AgentLedger.demo_sha x \<noteq> []" by (simp add: AgentLedger.demo_sha_def)
  have "met_orgs (demo_outside # map fst [(demo_outside, Refreshes), (demo_outside, SyncTimer)]) = []" by code_simp
  then have none: "set (met_orgs (demo_outside # map fst [(demo_outside, Refreshes), (demo_outside, SyncTimer)])) = {}" by simp
  from running_agent_keeps_ledger[OF sha new demo_running_def, unfolded none]
  show "local_ok (ag_Store (rn_Agent demo_running)) \<and> joined AgentLedger.demo_sha {} (ag_Store (rn_Agent demo_running)) \<and>
    syncInterval \<le> rn_Backoff demo_running \<and> rn_Backoff demo_running \<le> maxSyncBackoff" .
  show "length (ld_events (ag_Store (rn_Agent demo_running))) = 1" by code_simp
qed

section \<open>Kicks\<close>

text \<open>A refresh is not forgotten: whatever else happens the kick stays until the scan loop takes it.\<close>

lemma kick_stays: "e \<noteq> ScanKicked \<Longrightarrow> rn_KickScan rn \<Longrightarrow> rn_KickScan (loop_turn sha os e rn)"
  by (cases e) (auto simp: kick_def probe_turn_def sync_turn_def update_turn_def Let_def split: prod.split sum.split)

lemma Refresh_kicks: "rn_KickScan (loop_turn sha os Refreshes rn)" "rn_KickSync (loop_turn sha os Refreshes rn)"
  by (simp_all add: kick_def)

text \<open>
  \<open>OnChange\<close> and \<open>emitChanges\<close> of \<open>internal/client/desktop/desktop.go\<close>: a change of the agent's state
  kicks a channel of capacity one; the emitter takes the signal, then reads the state and shows it.
\<close>

record emitter =
  em_Version :: nat
  em_Pending :: bool
  em_Taken :: bool
  em_Shown :: nat

datatype emit_event = Changes | Takes | Shows

fun emit_turn :: "emit_event \<Rightarrow> emitter \<Rightarrow> emitter" where
  "emit_turn Changes em = em\<lparr>em_Version := Suc (em_Version em), em_Pending := kick (em_Pending em)\<rparr>"
| "emit_turn Takes em = (if em_Pending em \<and> \<not> em_Taken em then em\<lparr>em_Pending := False, em_Taken := True\<rparr> else em)"
| "emit_turn Shows em = (if em_Taken em then em\<lparr>em_Shown := em_Version em, em_Taken := False\<rparr> else em)"

definition emitter_start :: emitter where
  "emitter_start = \<lparr>em_Version = 0, em_Pending = False, em_Taken = False, em_Shown = 0\<rparr>"

lemma emit_invariant:
  "let em = fold emit_turn es emitter_start in em_Shown em = em_Version em \<or> em_Pending em \<or> em_Taken em"
proof -
  have "em_Shown em = em_Version em \<or> em_Pending em \<or> em_Taken em \<Longrightarrow>
    let em = fold emit_turn es em in em_Shown em = em_Version em \<or> em_Pending em \<or> em_Taken em" for em
  proof (induction es arbitrary: em)
    case (Cons e es)
    then show ?case by (cases e) (auto simp: kick_def)
  qed simp
  then show ?thesis by (simp add: emitter_start_def)
qed

text \<open>
  C22. No change is lost: bursts of changes are shown as one, but whatever the order in which changes come and
  the emitter runs, once it has run twice more without a change in between it shows the latest state.
\<close>

theorem changes_are_shown:
  "em_Shown (fold emit_turn (es @ [Shows, Takes, Shows]) emitter_start) = em_Version (fold emit_turn es emitter_start)"
proof -
  define em where "em = fold emit_turn es emitter_start"
  have "em_Shown em = em_Version em \<or> em_Pending em \<or> em_Taken em" using emit_invariant[of es] by (simp add: em_def Let_def)
  then show ?thesis by (cases "em_Taken em"; cases "em_Pending em") (auto simp flip: em_def)
qed

end
