(* ===== verification/Utf8.thy ===== *)
theory Utf8
  imports GoPrelude
begin

text \<open>Texts of the program that are not ASCII, by their code points.\<close>

definition utf8 :: "nat list \<Rightarrow> string" where
  "utf8 = concat \<circ> map (\<lambda>n.
     if n < 0x80 then [char_of n]
     else if n < 0x800 then [char_of (0xC0 + n div 64), char_of (0x80 + n mod 64)]
     else [char_of (0xE0 + n div 4096), char_of (0x80 + n div 64 mod 64), char_of (0x80 + n mod 64)])"

text \<open>No byte of such a text is an ASCII character.\<close>

lemma char_of_high: "128 \<le> n \<Longrightarrow> n < 256 \<Longrightarrow> of_char c < (128 :: nat) \<Longrightarrow> char_of (n :: nat) \<noteq> c"
proof
  assume n: "128 \<le> n" "n < 256" "of_char c < (128 :: nat)" "char_of n = c"
  have "n mod 256 = of_char (char_of n :: char)" by simp
  also have "\<dots> = of_char c" unfolding n(4) ..
  finally show False using n(1-3) by simp
qed

lemma utf8_high: "list_all (\<lambda>n. 128 \<le> n \<and> n < 65536) ns \<Longrightarrow> of_char c < (128 :: nat) \<Longrightarrow> c \<notin> set (utf8 ns)"
  unfolding utf8_def comp_def
proof (induction ns)
  case (Cons n ns)
  have "192 + n div 64 < 256" if "n < 2048" using that by auto
  moreover have "224 + n div 4096 < 256" "128 + n div 64 mod 64 < 256" "128 + n mod 64 < 256" using Cons.prems by auto
  ultimately show ?case using Cons by (auto simp: char_of_high[symmetric] dest: sym split: if_splits)
qed simp

lemmas utf8_no_percent = utf8_high[where c = "CHR ''%''", simplified]

end
