(* ===== verification/Desktop.thy ===== *)
theory Desktop
  imports Joining Utf8
begin

text \<open>
  The desktop app (\<open>internal/client/desktop/desktop.go\<close>): the popup's height, the tray's labels and the
  widgets, one window for each pinned account. What happens to the windows is an event; a timer is a
  flag of its window, and its firing another event. A window has the size it was last given by the
  app or by the user, and reports it at some later time. Closing a window does not stop its timers: one that is
  running still fires, with whatever place or size the closed window then reports.
\<close>

section \<open>Windows\<close>

definition popupWidth :: int where "popupWidth = 380"
definition defaultPopupHeight :: int where "defaultPopupHeight = 560"
definition minPopupHeight :: int where "minPopupHeight = 360"
definition defaultWidgetHeight :: int where "defaultWidgetHeight = 420"
definition minWidgetHeight :: int where "minWidgetHeight = 120"
definition maxWidgetHeight :: int where "maxWidgetHeight = 1200"
definition fitSettle :: duration where "fitSettle = 500 * 1000000"

definition popup_height :: "prefs \<Rightarrow> int" where
  "popup_height p = (if PopupHeight p < minPopupHeight then defaultPopupHeight else PopupHeight p)"

record widget_window =
  ww_X :: int
  ww_Y :: int
  ww_Height :: int
  ww_Fitted :: int
  ww_FittedAt :: time
  ww_Sized :: bool
  ww_Settle :: bool
  ww_Resized :: bool

definition trayLabels :: "(string, string \<times> string) gomap" where
  "trayLabels = [(''en'', (''Refresh'', ''Quit ShareCodex'')),
     (''zh-TW'', (utf8 [0x91CD, 0x65B0, 0x6574, 0x7406], utf8 [0x7D50, 0x675F] @ '' ShareCodex''))]"

definition labelMenu :: "string \<Rightarrow> string \<times> string" where
  "labelMenu lang = (case map_of trayLabels lang of Some l \<Rightarrow> l | None \<Rightarrow> the (map_of trayLabels ''en''))"

text \<open>A timer of a window that was closed before it fired.\<close>

datatype late_timer = SavesPosition string | SavesHeight string

record desktop =
  dk_Prefs :: prefs
  dk_Widgets :: "(string, widget_window) gomap"
  dk_Late :: "late_timer list"
  dk_Quitting :: bool
  dk_Labels :: "string \<times> string"

text \<open>\<open>home\<close> is where the system puts a new window.\<close>

definition new_window :: "time \<Rightarrow> int \<times> int \<Rightarrow> widget \<Rightarrow> widget_window" where
  "new_window now home w =
     (let height = (if wg_Height w > 0 then wg_Height w else defaultWidgetHeight)
      in \<lparr>ww_X = (if wg_Placed w then wg_X w else fst home), ww_Y = (if wg_Placed w then wg_Y w else snd home),
          ww_Height = height, ww_Fitted = height, ww_FittedAt = now, ww_Sized = wg_Height w > 0, ww_Settle = False, ww_Resized = False\<rparr>)"

definition openWidget :: "time \<Rightarrow> int \<times> int \<Rightarrow> widget \<Rightarrow> desktop \<Rightarrow> desktop" where
  "openWidget now home w dk =
     (if has_key (dk_Widgets dk) (wg_AccountID w) then dk
      else dk\<lparr>dk_Widgets := put (wg_AccountID w) (new_window now home w) (dk_Widgets dk)\<rparr>)"

text \<open>\<open>Run\<close> opens the widgets of the accounts pinned.\<close>

definition Run_desktop :: "time \<Rightarrow> int \<times> int \<Rightarrow> prefs \<Rightarrow> desktop" where
  "Run_desktop now home p =
     fold (openWidget now home) (se_Widgets (pf_Settings p))
       \<lparr>dk_Prefs = p, dk_Widgets = [], dk_Late = [], dk_Quitting = False, dk_Labels = labelMenu (Language (pf_Settings p))\<rparr>"

section \<open>Events\<close>

text \<open>\<open>UserMoves\<close> and \<open>UserResizes\<close> are what the user does to a window, the rest what the code handles.\<close>

datatype window_event =
    UserMoves string int int
  | MoveSettles string
  | UserResizes string int
  | ResizeReported string
  | ResizeSettles string
  | LateMove string int int
  | LateResize string int
  | FitCard string int "int option"
  | WindowCloses string
  | Pins string
  | Unpins string
  | PopupHides int
  | ChoosesLanguage string
  | Quits

definition on_window :: "string \<Rightarrow> (widget_window \<Rightarrow> widget_window) \<Rightarrow> desktop \<Rightarrow> desktop" where
  "on_window i f dk = (case map_of (dk_Widgets dk) i of None \<Rightarrow> dk | Some w \<Rightarrow> dk\<lparr>dk_Widgets := put i (f w) (dk_Widgets dk)\<rparr>)"

definition on_prefs :: "(prefs \<Rightarrow> prefs) \<Rightarrow> desktop \<Rightarrow> desktop" where
  "on_prefs f dk = dk\<lparr>dk_Prefs := f (dk_Prefs dk)\<rparr>"

text \<open>A resize the app made itself, or one reported before its own resizes have settled, is not the user's.\<close>

definition resize_reported :: "time \<Rightarrow> widget_window \<Rightarrow> widget_window" where
  "resize_reported now w =
     (if \<not> ww_Sized w \<and> (ww_Height w = ww_Fitted w \<or> time_sub now (ww_FittedAt w) < fitSettle) then w
      else w\<lparr>ww_Sized := True, ww_Resized := True\<rparr>)"

definition fit_height :: "int \<Rightarrow> int option \<Rightarrow> int" where
  "fit_height height screen =
     (let limit = (case screen of Some h \<Rightarrow> if h > 0 then min maxWidgetHeight h else maxWidgetHeight | None \<Rightarrow> maxWidgetHeight)
      in max minWidgetHeight (min limit height))"

definition fit_card :: "time \<Rightarrow> int \<Rightarrow> int option \<Rightarrow> widget_window \<Rightarrow> widget_window" where
  "fit_card now height screen w =
     (if ww_Sized w then w
      else w\<lparr>ww_Fitted := fit_height height screen, ww_FittedAt := now, ww_Height := fit_height height screen\<rparr>)"

definition late_timers :: "string \<Rightarrow> widget_window \<Rightarrow> late_timer list" where
  "late_timers i w = (if ww_Settle w then [SavesPosition i] else []) @ (if ww_Resized w then [SavesHeight i] else [])"

definition window_closes :: "string \<Rightarrow> desktop \<Rightarrow> desktop" where
  "window_closes i dk =
     (case map_of (dk_Widgets dk) i of
        None \<Rightarrow> dk
      | Some w \<Rightarrow> let dk = dk\<lparr>dk_Widgets := filter (\<lambda>(k, _). k \<noteq> i) (dk_Widgets dk), dk_Late := dk_Late dk @ late_timers i w\<rparr>
           in if dk_Quitting dk then dk else on_prefs (UnpinAccount i) dk)"

text \<open>A timer that outlived its window saves what it reads, once.\<close>

definition late_fires :: "late_timer \<Rightarrow> (prefs \<Rightarrow> prefs) \<Rightarrow> desktop \<Rightarrow> desktop" where
  "late_fires t save dk = (if t \<in> set (dk_Late dk) then on_prefs save (dk\<lparr>dk_Late := remove1 t (dk_Late dk)\<rparr>) else dk)"

fun handle_event :: "time \<Rightarrow> int \<times> int \<Rightarrow> window_event \<Rightarrow> desktop \<Rightarrow> desktop" where
  "handle_event now home (UserMoves i x y) dk = on_window i (\<lambda>w. w\<lparr>ww_X := x, ww_Y := y, ww_Settle := True\<rparr>) dk"
| "handle_event now home (MoveSettles i) dk =
     (case map_of (dk_Widgets dk) i of
        Some w \<Rightarrow> if ww_Settle w then on_prefs (SetWidgetPosition i (ww_X w) (ww_Y w)) (on_window i (\<lambda>w. w\<lparr>ww_Settle := False\<rparr>) dk) else dk
      | None \<Rightarrow> dk)"
| "handle_event now home (UserResizes i h) dk = on_window i (\<lambda>w. w\<lparr>ww_Height := max minWidgetHeight h\<rparr>) dk"
| "handle_event now home (ResizeReported i) dk = on_window i (resize_reported now) dk"
| "handle_event now home (ResizeSettles i) dk =
     (case map_of (dk_Widgets dk) i of
        Some w \<Rightarrow> if ww_Resized w then on_prefs (SetWidgetHeight i (ww_Height w)) (on_window i (\<lambda>w. w\<lparr>ww_Resized := False\<rparr>) dk) else dk
      | None \<Rightarrow> dk)"
| "handle_event now home (LateMove i x y) dk = late_fires (SavesPosition i) (SetWidgetPosition i x y) dk"
| "handle_event now home (LateResize i h) dk = late_fires (SavesHeight i) (SetWidgetHeight i h) dk"
| "handle_event now home (FitCard i height screen) dk = on_window i (fit_card now height screen) dk"
| "handle_event now home (WindowCloses i) dk = window_closes i dk"
| "handle_event now home (Pins i) dk =
     openWidget now home \<lparr>wg_AccountID = i, wg_Placed = False, wg_X = 0, wg_Y = 0, wg_Height = 0\<rparr> (on_prefs (PinAccount i) dk)"
| "handle_event now home (Unpins i) dk =
     (if has_key (dk_Widgets dk) i then window_closes i dk else on_prefs (UnpinAccount i) dk)"
| "handle_event now home (PopupHides h) dk = on_prefs (SetPopupHeight h) dk"
| "handle_event now home (ChoosesLanguage lang) dk =
     (case SetLanguage lang (dk_Prefs dk) of
        None \<Rightarrow> dk | Some p \<Rightarrow> dk\<lparr>dk_Prefs := p, dk_Labels := labelMenu lang\<rparr>)"
| "handle_event now home Quits dk = dk\<lparr>dk_Quitting := True\<rparr>"

text \<open>A run of the app: events with the time and the place of each.\<close>

fun desktop_run :: "(time \<times> (int \<times> int) \<times> window_event) list \<Rightarrow> desktop \<Rightarrow> desktop" where
  "desktop_run [] dk = dk"
| "desktop_run ((now, home, e) # es) dk = desktop_run es (handle_event now home e dk)"

section \<open>What the page can open and copy\<close>

definition OpenDashboard :: "popup \<Rightarrow> string option" where
  "OpenDashboard st =
     (case po_Overview st of
        None \<Rightarrow> None
      | Some ov \<Rightarrow> if \<not> ov_DashboardPublished ov then None else Some (trim_right CHR ''/'' (po_ServerURL st) @ ''/dashboard''))"

definition OpenReleasePage :: "popup \<Rightarrow> string option" where
  "OpenReleasePage st = map_option re_URL (po_Update st)"

definition maxImageBytes :: nat where "maxImageBytes = 32 * 2 ^ 20"

text \<open>The image put on the clipboard, if it is one; decoding base64 is package \<open>encoding/base64\<close>.\<close>

definition CopyImage :: "(string \<Rightarrow> string option) \<Rightarrow> string \<Rightarrow> string option" where
  "CopyImage base64 pngBase64 =
     (case base64 pngBase64 of
        None \<Rightarrow> None
      | Some png \<Rightarrow> if png = [] \<or> length png > maxImageBytes then None else Some png)"

text \<open>A join link for another device, which is copied as well.\<close>

definition desktop_invite :: "'w transport \<Rightarrow> shell \<Rightarrow> string \<Rightarrow> 'w \<Rightarrow> (client_error + string \<times> time) \<times> string \<times> 'w" where
  "desktop_invite transport sh clipboard w =
     (case Joining.CreateInvite transport sh w of
        (Inl err, w) \<Rightarrow> (Inl err, clipboard, w)
      | (Inr (link, expires), w) \<Rightarrow> (Inr (link, expires), link, w))"

lemmas desktop_ops = Run_desktop_def openWidget_def new_window_def on_window_def on_prefs_def resize_reported_def fit_height_def fit_card_def
  window_closes_def late_timers_def late_fires_def has_key_def Let_def minWidgetHeight_def maxWidgetHeight_def defaultWidgetHeight_def fitSettle_def

section \<open>The windows are the pinned accounts\<close>

abbreviation pins :: "desktop \<Rightarrow> widget list" where "pins dk \<equiv> se_Widgets (pf_Settings (dk_Prefs dk))"

lemma map_of_filter_other: "map_of (filter (\<lambda>(k, _). k \<noteq> i) m) j = (if j = i then None else map_of m j)"
  by (induction m) auto

lemma has_key_Nil [simp]: "\<not> has_key [] j"
  by (simp add: has_key_def)

lemma has_key_put [simp]: "has_key (put i x m) j \<longleftrightarrow> i = j \<or> has_key m j"
  by (auto simp: has_key_def update_conv')

lemma windows_simps [simp]:
  "dk_Late (on_prefs f dk) = dk_Late dk" "dk_Late (on_window i g dk) = dk_Late dk" "dk_Late (openWidget now home w dk) = dk_Late dk"
  "dk_Widgets (on_prefs f dk) = dk_Widgets dk" "dk_Quitting (on_prefs f dk) = dk_Quitting dk" "dk_Prefs (on_prefs f dk) = f (dk_Prefs dk)"
  "dk_Prefs (on_window i g dk) = dk_Prefs dk" "dk_Quitting (on_window i g dk) = dk_Quitting dk"
  "has_key (dk_Widgets (on_window i g dk)) j = has_key (dk_Widgets dk) j"
  "dk_Prefs (openWidget now home w dk) = dk_Prefs dk" "dk_Quitting (openWidget now home w dk) = dk_Quitting dk"
  "has_key (dk_Widgets (openWidget now home w dk)) j = (j = wg_AccountID w \<or> has_key (dk_Widgets dk) j)"
  by (auto simp: on_prefs_def on_window_def openWidget_def has_key_def update_conv' split: option.splits)

definition pinned :: "desktop \<Rightarrow> string \<Rightarrow> bool" where
  "pinned dk i \<longleftrightarrow> i \<in> set (map wg_AccountID (pins dk))"

lemma pinned_prefs:
  "pinned (on_prefs (UnpinAccount i) dk) j = (j \<noteq> i \<and> pinned dk j)"
  "pinned (on_prefs (PinAccount i) dk) j = (j = i \<or> pinned dk j)"
  "pinned (on_prefs (SetWidgetPosition i x y) dk) j = pinned dk j"
  "pinned (on_prefs (SetWidgetHeight i h) dk) j = pinned dk j"
  "pinned (on_prefs (SetPopupHeight h) dk) j = pinned dk j"
proof -
  show "pinned (on_prefs (UnpinAccount i) dk) j = (j \<noteq> i \<and> pinned dk j)" "pinned (on_prefs (PinAccount i) dk) j = (j = i \<or> pinned dk j)"
    by (auto simp: pinned_def pref_ops)
qed (simp_all add: pinned_def pref_ops set_widget_ids del: set_map)

lemma pinned_cong: "pins dk = pins dk' \<Longrightarrow> pinned dk = pinned dk'"
  by (simp add: pinned_def fun_eq_iff)

definition windows_ok :: "desktop \<Rightarrow> bool" where
  "windows_ok dk \<longleftrightarrow> (\<not> dk_Quitting dk \<longrightarrow> has_key (dk_Widgets dk) = pinned dk)"

lemma closes_ok: "windows_ok dk \<Longrightarrow> windows_ok (window_closes i dk)"
  by (cases "map_of (dk_Widgets dk) i")
    (auto simp: windows_ok_def window_closes_def Let_def fun_eq_iff pinned_prefs has_key_def map_of_filter_other pinned_def pref_ops)

lemma pinned_labels [simp]:
  "pinned (dk\<lparr>dk_Labels := l\<rparr>) = pinned dk" "pinned (dk\<lparr>dk_Quitting := b\<rparr>) = pinned dk" "pinned (dk\<lparr>dk_Late := ts\<rparr>) = pinned dk" "pinned (on_window i g dk) = pinned dk"
  "pinned (openWidget now home w dk) = pinned dk"
  by (simp_all add: pinned_def fun_eq_iff)

lemma handle_event_ok: "windows_ok dk \<Longrightarrow> windows_ok (handle_event now home e dk)"
proof (cases e)
  case (ChoosesLanguage lang)
  assume "windows_ok dk"
  then show ?thesis unfolding ChoosesLanguage
    by (auto simp: windows_ok_def fun_eq_iff pinned_def pref_ops split: option.split)
next
  case (WindowCloses i)
  assume "windows_ok dk"
  then show ?thesis unfolding WindowCloses by (simp add: closes_ok)
next
  case (Unpins i)
  assume "windows_ok dk"
  then show ?thesis unfolding Unpins using closes_ok[of dk i] by (auto simp: windows_ok_def fun_eq_iff pinned_prefs)
qed (auto simp: windows_ok_def fun_eq_iff pinned_prefs late_fires_def split: option.split)

lemma fold_open:
  "dk_Prefs (fold (openWidget now home) ws dk) = dk_Prefs dk" "dk_Quitting (fold (openWidget now home) ws dk) = dk_Quitting dk"
  "has_key (dk_Widgets (fold (openWidget now home) ws dk)) j = (j \<in> set (map wg_AccountID ws) \<or> has_key (dk_Widgets dk) j)"
  by (induction ws arbitrary: dk) auto

lemma Run_ok: "windows_ok (Run_desktop now home p)" "dk_Prefs (Run_desktop now home p) = p"
  by (auto simp: windows_ok_def Run_desktop_def fold_open fun_eq_iff pinned_def)

lemma run_append: "desktop_run (es @ fs) dk = desktop_run fs (desktop_run es dk)"
  by (induction es arbitrary: dk) auto

lemma run_ok: "windows_ok dk \<Longrightarrow> windows_ok (desktop_run es dk)"
  by (induction es dk rule: desktop_run.induct) (simp_all add: handle_event_ok)

text \<open>Windows that close because the app ends.\<close>

definition closing :: "string list \<Rightarrow> (time \<times> (int \<times> int) \<times> window_event) list" where
  "closing ids = (0, (0, 0), Quits) # map (\<lambda>i. (0, (0, 0), WindowCloses i)) ids"

lemma closing_keeps: "dk_Prefs (desktop_run (closing ids) dk) = dk_Prefs dk"
proof -
  have "dk_Quitting dk \<Longrightarrow> dk_Prefs (desktop_run (map (\<lambda>i. (0, (0, 0), WindowCloses i)) ids) dk) = dk_Prefs dk" for dk
    by (induction ids arbitrary: dk) (auto simp: window_closes_def Let_def split: option.split)
  then show ?thesis by (simp add: closing_def)
qed

text \<open>
  C19. Widgets last: while the app runs the open widgets are exactly the pinned accounts, whatever the
  user and the page do and in whatever order timers fire, those of closed windows too; and quitting, which closes every
  window, leaves the pins, so that the next start opens the same widgets.
\<close>

theorem widgets_last:
  assumes "dk = desktop_run es (Run_desktop now home p)" "\<not> dk_Quitting dk"
  shows "has_key (dk_Widgets dk) = pinned dk \<and>
    has_key (dk_Widgets (Run_desktop later home' (dk_Prefs (desktop_run (closing ids) dk)))) = has_key (dk_Widgets dk)"
proof -
  have ok: "windows_ok dk" unfolding assms(1) using Run_ok(1) by (rule run_ok)
  have again: "has_key (dk_Widgets (Run_desktop later home' q)) i = (i \<in> set (map wg_AccountID (se_Widgets (pf_Settings q))))" for i q
    using Run_ok[of later home' q] by (auto simp: windows_ok_def pinned_def fun_eq_iff Run_desktop_def fold_open)
  show ?thesis using ok assms(2) by (auto simp: windows_ok_def closing_keeps again pinned_def fun_eq_iff)
qed

definition demo_widgets :: "(time \<times> (int \<times> int) \<times> window_event) list" where
  "demo_widgets = [(0, (10, 20), Pins ''a''), (1, (10, 20), Pins ''b''), (2, (0, 0), UserMoves ''b'' 5 7), (3, (0, 0), UserMoves ''a'' 1 2),
     (4, (0, 0), WindowCloses ''a''), (5, (0, 0), LateMove ''a'' 1 2), (6, (0, 0), MoveSettles ''b'')]"

lemma widgets_last_witness:
  "let dk = desktop_run demo_widgets (Run_desktop 0 (0, 0) fresh_prefs)
   in map fst (dk_Widgets dk) = [''b''] \<and> has_key (dk_Widgets dk) = pinned dk \<and>
      has_key (dk_Widgets (Run_desktop 9 (0, 0) (dk_Prefs (desktop_run (closing [''b'']) dk)))) = has_key (dk_Widgets dk)"
proof -
  have "\<not> dk_Quitting (desktop_run demo_widgets (Run_desktop 0 (0, 0) fresh_prefs))"
    "map fst (dk_Widgets (desktop_run demo_widgets (Run_desktop 0 (0, 0) fresh_prefs))) = [''b'']"
    by (simp_all add: demo_widgets_def fresh_prefs_def no_settings_def pref_ops change_settings_def desktop_ops)
  then show ?thesis using widgets_last[OF refl] by (simp add: Let_def)
qed

text \<open>A widget pinned again before the timer of its closed window fires is put where that one was.\<close>

lemma late_timer_places:
  "map wg_Placed (pins (desktop_run [(0, (0, 0), Pins ''a''), (1, (0, 0), UserMoves ''a'' 5 7), (2, (0, 0), WindowCloses ''a''),
     (3, (0, 0), Pins ''a''), (4, (0, 0), LateMove ''a'' 5 7)] (Run_desktop 0 (0, 0) fresh_prefs))) = [True]"
  by (simp add: fresh_prefs_def no_settings_def pref_ops change_settings_def desktop_ops)

section \<open>Only the user's size is kept\<close>

text \<open>A widget nobody resized has no saved height, and its window the height of its card.\<close>

definition unsized :: "string \<Rightarrow> desktop \<Rightarrow> bool" where
  "unsized i dk \<longleftrightarrow> list_all (\<lambda>w. wg_AccountID w = i \<longrightarrow> \<not> wg_Height w > 0) (pins dk) \<and> SavesHeight i \<notin> set (dk_Late dk) \<and>
     (\<forall>w. map_of (dk_Widgets dk) i = Some w \<longrightarrow> \<not> ww_Sized w \<and> \<not> ww_Resized w \<and> ww_Height w = ww_Fitted w)"

definition user_resize :: "string \<Rightarrow> window_event \<Rightarrow> bool" where
  "user_resize i e \<longleftrightarrow> (case e of UserResizes j _ \<Rightarrow> i = j | _ \<Rightarrow> False)"

lemma set_widget_all:
  "(\<And>w. P w \<Longrightarrow> P (f w)) \<Longrightarrow> list_all P ws \<Longrightarrow> list_all P (set_widget i f ws)"
  by (induction ws) auto

lemma set_widget_all_other:
  "(\<And>w. wg_AccountID w = i \<Longrightarrow> P (f w)) \<Longrightarrow> list_all P ws \<Longrightarrow> list_all P (set_widget i f ws)"
  by (induction ws) auto

lemma unsized_prefs:
  "unsized i dk \<Longrightarrow> unsized i (on_prefs (UnpinAccount j) dk)"
  "unsized i dk \<Longrightarrow> unsized i (on_prefs (PinAccount j) dk)"
  "unsized i dk \<Longrightarrow> unsized i (on_prefs (SetWidgetPosition j x y) dk)"
  "i \<noteq> j \<Longrightarrow> unsized i dk \<Longrightarrow> unsized i (on_prefs (SetWidgetHeight j h) dk)"
  "unsized i dk \<Longrightarrow> unsized i (on_prefs (SetPopupHeight h) dk)"
proof -
  show "unsized i dk \<Longrightarrow> unsized i (on_prefs (UnpinAccount j) dk)" "unsized i dk \<Longrightarrow> unsized i (on_prefs (PinAccount j) dk)"
    "unsized i dk \<Longrightarrow> unsized i (on_prefs (SetPopupHeight h) dk)"
    by (auto simp: unsized_def pref_ops list_all_iff)
  show "unsized i dk \<Longrightarrow> unsized i (on_prefs (SetWidgetPosition j x y) dk)" by (simp add: unsized_def pref_ops set_widget_all)
  show "i \<noteq> j \<Longrightarrow> unsized i dk \<Longrightarrow> unsized i (on_prefs (SetWidgetHeight j h) dk)" by (simp add: unsized_def pref_ops set_widget_all_other)
qed

lemma unsized_open:
  "unsized i dk \<Longrightarrow> (wg_AccountID w = i \<Longrightarrow> \<not> wg_Height w > 0) \<Longrightarrow> unsized i (openWidget now home w dk)"
  by (auto simp: unsized_def openWidget_def new_window_def Let_def update_conv')

lemma unsized_window:
  "unsized i dk \<Longrightarrow> (\<And>w. i = j \<Longrightarrow> \<not> ww_Sized w \<Longrightarrow> \<not> ww_Resized w \<Longrightarrow> ww_Height w = ww_Fitted w \<Longrightarrow>
     \<not> ww_Sized (f w) \<and> \<not> ww_Resized (f w) \<and> ww_Height (f w) = ww_Fitted (f w)) \<Longrightarrow> unsized i (on_window j f dk)"
  by (auto simp: unsized_def on_window_def update_conv' split: option.split)

lemma unsized_late: "unsized i dk \<Longrightarrow> unsized i (dk\<lparr>dk_Late := remove1 t (dk_Late dk)\<rparr>)"
  using notin_set_remove1 by (fastforce simp: unsized_def)

lemma unsized_closes: "unsized i dk \<Longrightarrow> unsized i (window_closes j dk)"
proof -
  assume u: "unsized i dk"
  show ?thesis
  proof (cases "map_of (dk_Widgets dk) j")
    case None
    then show ?thesis using u by (simp add: window_closes_def)
  next
    case (Some w)
    let ?dk = "dk\<lparr>dk_Widgets := filter (\<lambda>(k, _). k \<noteq> j) (dk_Widgets dk), dk_Late := dk_Late dk @ late_timers j w\<rparr>"
    have "unsized i ?dk" using u Some by (auto simp: unsized_def map_of_filter_other late_timers_def)
    then show ?thesis using Some unsized_prefs(1)[of i ?dk j] by (simp add: window_closes_def Let_def)
  qed
qed

lemma unsized_event: "unsized i dk \<Longrightarrow> \<not> user_resize i e \<Longrightarrow> unsized i (handle_event now home e dk)"
proof (induction now home e dk rule: handle_event.induct)
  case (2 now home j dk)
  then have "unsized i (on_window j (\<lambda>w. w\<lparr>ww_Settle := False\<rparr>) dk)" by (intro unsized_window) auto
  then show ?case using 2 by (auto intro: unsized_prefs split: option.split)
next
  case (5 now home j dk)
  then have "unsized i (on_window j (\<lambda>w. w\<lparr>ww_Resized := False\<rparr>) dk)" by (intro unsized_window) auto
  moreover have "i \<noteq> j" if "map_of (dk_Widgets dk) j = Some w" "ww_Resized w" for w using 5(1) that by (auto simp: unsized_def)
  ultimately show ?case using 5 by (auto intro: unsized_prefs split: option.split)
next
  case (6 now home j x y dk)
  then show ?case using unsized_prefs(3)[OF unsized_late] by (simp add: late_fires_def)
next
  case (7 now home j h dk)
  then have "i \<noteq> j" if "SavesHeight j \<in> set (dk_Late dk)" using that by (auto simp: unsized_def)
  then show ?case using 7 unsized_prefs(4)[OF _ unsized_late] by (simp add: late_fires_def)
next
  case (13 now home lang dk)
  then show ?case by (auto simp: unsized_def pref_ops split: option.split)
qed (auto simp: user_resize_def resize_reported_def fit_card_def intro!: unsized_window unsized_prefs unsized_open unsized_closes,
  auto simp: unsized_def)

text \<open>
  Only the user's own resizing is kept: as long as the user does not resize a widget, no order of its
  card being fitted, of reports of those resizes and of timers firing ever saves a height for it.
\<close>

theorem fitting_is_not_resizing:
  assumes "list_all (\<lambda>w. wg_AccountID w = i \<longrightarrow> \<not> wg_Height w > 0) (se_Widgets (pf_Settings p))"
    and "list_all (\<lambda>(_, _, e). \<not> user_resize i e) es"
  shows "list_all (\<lambda>w. wg_AccountID w = i \<longrightarrow> \<not> wg_Height w > 0) (pins (desktop_run es (Run_desktop now home p)))"
proof -
  have open_all: "list_all (\<lambda>w. wg_AccountID w = i \<longrightarrow> \<not> wg_Height w > 0) ws \<Longrightarrow> unsized i dk \<Longrightarrow>
      unsized i (fold (openWidget now home) ws dk)" for ws dk
    by (induction ws arbitrary: dk) (auto intro: unsized_open)
  have "unsized i (Run_desktop now home p)"
    unfolding Run_desktop_def by (rule open_all) (use assms(1) in \<open>simp_all add: unsized_def\<close>)
  moreover have "unsized i dk \<Longrightarrow> unsized i (desktop_run es dk)" for dk
    using assms(2) by (induction es dk rule: desktop_run.induct) (simp_all add: unsized_event)
  ultimately have "unsized i (desktop_run es (Run_desktop now home p))" by blast
  then show ?thesis unfolding unsized_def by blast
qed

definition demo_fits :: "(time \<times> (int \<times> int) \<times> window_event) list" where
  "demo_fits = [(0, (0, 0), Pins ''a''), (1, (0, 0), FitCard ''a'' 300 (Some 900)), (2, (0, 0), FitCard ''a'' 2000 (Some 900)),
     (3000000000, (0, 0), ResizeReported ''a''), (4000000000, (0, 0), ResizeSettles ''a'')]"

lemma fitting_is_not_resizing_witness:
  "let dk = desktop_run demo_fits (Run_desktop 0 (0, 0) fresh_prefs)
   in map (ww_Height \<circ> snd) (dk_Widgets dk) = [900] \<and> list_all (\<lambda>w. wg_AccountID w = ''a'' \<longrightarrow> \<not> wg_Height w > 0) (pins dk)"
proof -
  have "list_all (\<lambda>(_, _, e). \<not> user_resize ''a'' e) demo_fits"
    "list_all (\<lambda>w. wg_AccountID w = ''a'' \<longrightarrow> \<not> wg_Height w > 0) (se_Widgets (pf_Settings fresh_prefs))"
    "map (ww_Height \<circ> snd) (dk_Widgets (desktop_run demo_fits (Run_desktop 0 (0, 0) fresh_prefs))) = [900]"
    by (simp_all add: demo_fits_def user_resize_def fresh_prefs_def no_settings_def pref_ops change_settings_def desktop_ops)
  then show ?thesis using fitting_is_not_resizing[of "''a''" fresh_prefs demo_fits 0 "(0, 0)"] by (simp add: Let_def)
qed

text \<open>Once sized, a widget keeps the user's height, and one fitted lies within its bounds.\<close>

lemma sized_keeps: "ww_Sized w \<Longrightarrow> fit_card now height screen w = w"
  by (simp add: fit_card_def)

lemma fit_height_bounds: "minWidgetHeight \<le> fit_height height screen \<and> fit_height height screen \<le> maxWidgetHeight"
  by (auto simp: fit_height_def Let_def minWidgetHeight_def maxWidgetHeight_def split: option.split)

lemma popup_height_bounds: "minPopupHeight \<le> popup_height p"
  by (simp add: popup_height_def minPopupHeight_def defaultPopupHeight_def)

text \<open>The page has no way to open another address than the server's own dashboard.\<close>

lemma OpenDashboard_here: "OpenDashboard st = Some u \<Longrightarrow> u = trim_right CHR ''/'' (po_ServerURL st) @ ''/dashboard''"
  by (auto simp: OpenDashboard_def split: option.splits if_splits)

end
