(* ===== verification/Escapes.thy ===== *)
theory Escapes
  imports GoStrings
begin

text \<open>
  Escaping a text character by character and reading it back: the contract of \<open>strings.NewReplacer\<close>
  over single characters, which the login items (\<open>internal/client/autostart\<close>) and the markup of the
  admin console (\<open>internal/server/admin/admin.go\<close>) share.
\<close>

definition escape :: "(char \<Rightarrow> string) \<Rightarrow> string \<Rightarrow> string" where
  "escape esc s = concat (map esc s)"

text \<open>Reading characters until one that cannot be read; every character takes some of the text.\<close>

fun read_chars :: "nat \<Rightarrow> (string \<Rightarrow> (char \<times> string) option) \<Rightarrow> string \<Rightarrow> string \<times> string" where
  "read_chars 0 dec s = ([], s)"
| "read_chars (Suc n) dec s = (case dec s of None \<Rightarrow> ([], s) | Some (c, r) \<Rightarrow> (case read_chars n dec r of (cs, r) \<Rightarrow> (c # cs, r)))"

definition unescape :: "(string \<Rightarrow> (char \<times> string) option) \<Rightarrow> string \<Rightarrow> string \<times> string" where
  "unescape dec s = read_chars (length s) dec s"

locale escaping =
  fixes esc :: "char \<Rightarrow> string"
    and dec :: "string \<Rightarrow> (char \<times> string) option"
    and safe :: "char \<Rightarrow> bool"
  assumes dec_esc: "safe c \<Longrightarrow> dec (esc c @ r) = Some (c, r)"
    and esc_some: "esc c \<noteq> []"
begin

lemma length_escape: "length s \<le> length (escape esc s)"
proof (induction s)
  case (Cons c s)
  then show ?case using esc_some[of c] by (cases "esc c") (auto simp: escape_def)
qed simp

lemma read_escape:
  "list_all safe s \<Longrightarrow> dec stop = None \<Longrightarrow> length s \<le> n \<Longrightarrow> read_chars n dec (escape esc s @ stop) = (s, stop)"
proof (induction s arbitrary: n)
  case Nil
  then show ?case by (cases n) (simp_all add: escape_def)
next
  case (Cons c s)
  then obtain m where "n = Suc m" by (cases n) auto
  then show ?case using Cons dec_esc[of c "escape esc s @ stop"] by (simp add: escape_def)
qed

lemma unescape_escape: "list_all safe s \<Longrightarrow> dec stop = None \<Longrightarrow> unescape dec (escape esc s @ stop) = (s, stop)"
  unfolding unescape_def using length_escape[of s] by (intro read_escape) auto

lemma escape_inj: "list_all safe s \<Longrightarrow> list_all safe t \<Longrightarrow> dec [] = None \<Longrightarrow> escape esc s = escape esc t \<Longrightarrow> s = t"
  using unescape_escape[of s "[]"] unescape_escape[of t "[]"] by simp

end

section \<open>Entities\<close>

text \<open>A character with an entity is written as it; \<open>&\<close> has one.\<close>

definition entity_esc :: "(char \<times> string) list \<Rightarrow> char \<Rightarrow> string" where
  "entity_esc es c = (case map_of es c of Some e \<Rightarrow> e | None \<Rightarrow> [c])"

definition entity_dec :: "(char \<times> string) list \<Rightarrow> string \<Rightarrow> (char \<times> string) option" where
  "entity_dec es s =
     (case s of
        [] \<Rightarrow> None
      | c # r \<Rightarrow>
          if c = CHR ''&'' then (case find (\<lambda>(_, e). has_prefix s e) es of Some (x, e) \<Rightarrow> Some (x, drop (length e) s) | None \<Rightarrow> None)
          else if c \<in> set (map fst es) then None
          else Some (c, r))"

text \<open>The entities are those of a markup language: all start with \<open>&\<close>, and none is the start of another.\<close>

definition entities :: "(char \<times> string) list \<Rightarrow> bool" where
  "entities es \<longleftrightarrow> distinct (map fst es) \<and> CHR ''&'' \<in> set (map fst es) \<and>
     list_all (\<lambda>(_, e). has_prefix e ''&'') es \<and>
     list_all (\<lambda>(x, e). list_all (\<lambda>(y, f). take (min (length e) (length f)) e = take (min (length e) (length f)) f \<longrightarrow> x = y) es) es"

lemma has_prefix_take:
  assumes "has_prefix (e @ r) f" shows "take (min (length e) (length f)) e = take (min (length e) (length f)) f"
proof -
  have "take (min (length e) (length f)) f = take (min (length e) (length f)) (take (length f) (e @ r))"
    using assms by (simp add: has_prefix_def)
  then show ?thesis by (simp add: take_take min_def)
qed

lemma find_only: "x \<in> set xs \<Longrightarrow> P x \<Longrightarrow> (\<And>y. y \<in> set xs \<Longrightarrow> P y \<Longrightarrow> y = x) \<Longrightarrow> find P xs = Some x"
proof (induction xs)
  case (Cons y ys)
  show ?case
  proof (cases "P y")
    case True
    then have "y = x" by (intro Cons.prems(3)) simp
    then show ?thesis using True by simp
  next
    case False
    then have "x \<in> set ys" using Cons.prems(1,2) by auto
    then have "find P ys = Some x" by (rule Cons.IH[OF _ Cons.prems(2)]) (rule Cons.prems(3), simp_all)
    then show ?thesis using False by simp
  qed
qed simp

lemma entity_dec_esc:
  assumes "entities es" shows "entity_dec es (entity_esc es c @ r) = Some (c, r)"
proof (cases "map_of es c")
  case None
  then have "c \<noteq> CHR ''&''" "c \<notin> set (map fst es)" using assms by (auto simp: entities_def map_of_eq_None_iff)
  then show ?thesis using None by (simp add: entity_dec_def entity_esc_def)
next
  case (Some e)
  then have e: "(c, e) \<in> set es" by (rule map_of_SomeD)
  have amp: "has_prefix e ''&''" using assms e unfolding entities_def list_all_iff by auto
  then obtain e' where e': "e = CHR ''&'' # e'" by (auto simp: has_prefix_iff)
  have unique: "x = c" if "(x, f) \<in> set es" "has_prefix (e @ r) f" for x f
    using assms e that(1) has_prefix_take[OF that(2)] unfolding entities_def list_all_iff by fastforce
  have "find (\<lambda>(_, f). has_prefix (e @ r) f) es = Some (c, e)"
  proof (rule find_only)
    fix p assume p: "p \<in> set es" "case p of (_, f) \<Rightarrow> has_prefix (e @ r) f"
    obtain x f where xf: "p = (x, f)" by (cases p)
    then have "x = c" using unique p by simp
    moreover have "distinct (map fst es)" using assms unfolding entities_def by blast
    ultimately show "p = (c, e)" using e p(1) xf by (auto dest: eq_key_imp_eq_value)
  qed (use e in simp_all)
  then show ?thesis using Some e' by (simp add: entity_dec_def entity_esc_def)
qed

lemma entity_escaping: "entities es \<Longrightarrow> escaping (entity_esc es) (entity_dec es) (\<lambda>_. True)"
proof (rule escaping.intro)
  fix c assume "entities es"
  then have "(c, e) \<in> set es \<Longrightarrow> has_prefix e ''&''" for e unfolding entities_def list_all_iff by auto
  then have "map_of es c \<noteq> Some []" by (force simp: has_prefix_def dest: map_of_SomeD)
  then show "entity_esc es c \<noteq> []" by (auto simp: entity_esc_def split: option.split)
qed (rule entity_dec_esc)

text \<open>No character with an entity other than \<open>&\<close> is left, as long as no entity holds one.\<close>

lemma escape_clean:
  assumes "c \<in> set (map fst es)" "\<And>x e. (x, e) \<in> set es \<Longrightarrow> c \<notin> set e"
  shows "c \<notin> set (escape (entity_esc es) s)"
  using assms by (auto simp: escape_def entity_esc_def map_of_eq_None_iff dest!: map_of_SomeD split: option.splits)

end
