(* ===== verification/Autostart.thy ===== *)
theory Autostart
  imports Escapes Preferences
begin

text \<open>
  Running at login: \<open>internal/client/autostart\<close> for its three systems. The login item is a systemd unit, a
  LaunchAgent or a value of the Run key, each at a fixed place, \<open>None\<close> when there is none. Running
  \<open>systemctl\<close> is the parameter \<open>ctl\<close> over a world \<open>'w\<close>: \<open>Some\<close> output is a failure. The file of an
  item can be written and removed.
\<close>

section \<open>The systemd unit\<close>

definition unitName :: string where "unitName = ''sharecodex.service''"

definition environment :: "string list" where
  "environment = [''PATH'', ''SHARECODEX_HOME'', ''CLAUDE_CONFIG_DIR'', ''CODEX_HOME'']"

definition unit_esc :: "char \<Rightarrow> string" where
  "unit_esc c = (if c = CHR 0x5C then [CHR 0x5C, CHR 0x5C] else if c = CHR 0x22 then [CHR 0x5C, CHR 0x22]
     else if c = CHR ''%'' then ''%%'' else [c])"

definition unit_quote :: "string \<Rightarrow> string" where
  "unit_quote s = [CHR 0x22] @ escape unit_esc s @ [CHR 0x22]"

definition text_lines :: "string list \<Rightarrow> string" where
  "text_lines ls = concat (map (\<lambda>l. l @ [CHR 0x0A]) ls)"

definition unit_lines :: "string \<Rightarrow> (string, string) gomap \<Rightarrow> string list" where
  "unit_lines executable env =
     [''[Unit]'', ''Description=ShareCodex agent'', ''After=network-online.target'', [], ''[Service]'',
      ''ExecStart='' @ unit_quote executable @ '' agent''] @
     concat (map (\<lambda>name. case map_of env name of
        None \<Rightarrow> [] | Some v \<Rightarrow> [''Environment='' @ unit_quote (name @ ''='' @ v)]) environment) @
     [''Restart=on-failure'', ''RestartSec=30'', [], ''[Install]'', ''WantedBy=default.target'']"

definition systemd_unit :: "string \<Rightarrow> (string, string) gomap \<Rightarrow> string" where
  "systemd_unit executable env = text_lines (unit_lines executable env)"

section \<open>The login items\<close>

text \<open>Calls of \<open>systemctl --user\<close> one after another, up to the first that fails.\<close>

fun systemctl :: "(string list \<Rightarrow> 'w \<Rightarrow> string option \<times> 'w) \<Rightarrow> string list list \<Rightarrow> 'w \<Rightarrow> autostart_error option \<times> 'w" where
  "systemctl ctl [] w = (None, w)"
| "systemctl ctl (args # rest) w =
     (case ctl (''--user'' # args) w of
        (Some out, w) \<Rightarrow> (Some (SystemctlFailed args (trim_space out)), w)
      | (None, w) \<Rightarrow> systemctl ctl rest w)"

definition unit_env :: "(string \<Rightarrow> string) \<Rightarrow> (string, string) gomap" where
  "unit_env getenv = concat (map (\<lambda>name. if getenv name \<noteq> [] then [(name, getenv name)] else []) environment)"

definition linux_Set ::
  "(string list \<Rightarrow> 'w \<Rightarrow> string option \<times> 'w) \<Rightarrow> (string \<Rightarrow> string) \<Rightarrow> string \<Rightarrow> bool \<Rightarrow>
   string option \<times> 'w \<Rightarrow> autostart_error option \<times> string option \<times> 'w" where
  "linux_Set ctl getenv executable enabled item =
     (case item of (file, w) \<Rightarrow>
        if \<not> enabled then
          (if file = None then (None, file, w)
           else case systemctl ctl [[''disable'', ''--now'', unitName]] w of
               (Some err, w) \<Rightarrow> (Some err, file, w)
             | (None, w) \<Rightarrow> (case systemctl ctl [[''daemon-reload'']] w of (err, w) \<Rightarrow> (err, None, w)))
        else case systemctl ctl [[''daemon-reload''], [''enable'', unitName], [''restart'', unitName]] w of
            (err, w) \<Rightarrow> (err, Some (systemd_unit executable (unit_env getenv)), w))"

definition plist_label :: string where "plist_label = ''io.github.koukeneko.sharecodex''"

definition xml_entities :: "(char \<times> string) list" where
  "xml_entities = [(CHR ''&'', ''&amp;''), (CHR ''<'', ''&lt;''), (CHR ''>'', ''&gt;'')]"

definition xmlEscape :: "string \<Rightarrow> string" where
  "xmlEscape s = escape (entity_esc xml_entities) s"

definition dq :: string where "dq = [CHR 0x22]"

definition plist_text :: "string \<Rightarrow> string" where
  "plist_text executable = text_lines
     [''<?xml version='' @ dq @ ''1.0'' @ dq @ '' encoding='' @ dq @ ''UTF-8'' @ dq @ ''?>'',
      ''<!DOCTYPE plist PUBLIC '' @ dq @ ''-//Apple//DTD PLIST 1.0//EN'' @ dq @ '' '' @ dq @
        ''http://www.apple.com/DTDs/PropertyList-1.0.dtd'' @ dq @ ''>'',
      ''<plist version='' @ dq @ ''1.0'' @ dq @ ''>'',
      ''<dict>'',
      ''    <key>Label</key>'',
      ''    <string>'' @ plist_label @ ''</string>'',
      ''    <key>ProgramArguments</key>'',
      ''    <array>'',
      ''        <string>'' @ xmlEscape executable @ ''</string>'',
      ''    </array>'',
      ''    <key>RunAtLoad</key>'',
      ''    <true/>'',
      ''</dict>'',
      ''</plist>'']"

definition darwin_Set :: "string \<Rightarrow> bool \<Rightarrow> string option \<Rightarrow> autostart_error option \<times> string option" where
  "darwin_Set executable enabled file = (None, if enabled then Some (plist_text executable) else None)"

definition windows_Set :: "string \<Rightarrow> bool \<Rightarrow> string option \<Rightarrow> autostart_error option \<times> string option" where
  "windows_Set executable enabled run = (None, if enabled then Some (dq @ executable @ dq) else None)"

definition other_Set :: "string \<Rightarrow> bool \<Rightarrow> 'o \<Rightarrow> autostart_error option \<times> 'o" where
  "other_Set executable enabled item = (Some AutostartUnsupported, item)"

section \<open>What the system reads\<close>

text \<open>
  What is relied on of systemd (\<open>systemd.syntax(7)\<close>, \<open>systemd.unit(5)\<close>). \<open>read section key text\<close> is the first word of each
  assignment to the key in that section of a unit, \<open>val key line\<close> of one line. Lines are ended by a line feed; one that
  ends in a backslash goes on in the next. A quoted word may hold any text, which is UTF-8 without control characters:
  a backslash and a quote as C escapes, a percent sign doubled, as one alone starts a specifier, any other character as itself.
\<close>

definition continuation :: "nat \<Rightarrow> bool" where "continuation b \<longleftrightarrow> 0x80 \<le> b \<and> b \<le> 0xBF"

text \<open>The bytes of one character.\<close>

definition utf8_char :: "nat list \<Rightarrow> bool" where
  "utf8_char bs =
     (case bs of
        [a] \<Rightarrow> 0x20 \<le> a \<and> a < 0x7F
      | [a, b] \<Rightarrow> 0xC2 \<le> a \<and> a \<le> 0xDF \<and> continuation b
      | [a, b, c] \<Rightarrow> 0xE0 \<le> a \<and> a \<le> 0xEF \<and> continuation b \<and> continuation c \<and> (a \<noteq> 0xE0 \<or> 0xA0 \<le> b) \<and> (a \<noteq> 0xED \<or> b < 0xA0)
      | [a, b, c, d] \<Rightarrow> 0xF0 \<le> a \<and> a \<le> 0xF4 \<and> continuation b \<and> continuation c \<and> continuation d \<and>
          (a \<noteq> 0xF0 \<or> 0x90 \<le> b) \<and> (a \<noteq> 0xF4 \<or> b < 0x90)
      | _ \<Rightarrow> False)"

definition unit_text :: "string \<Rightarrow> bool" where
  "unit_text s \<longleftrightarrow> (\<exists>cs. list_all (\<lambda>c. utf8_char (map of_char c)) cs \<and> s = concat cs)"

definition printable :: "char \<Rightarrow> bool" where
  "printable c \<longleftrightarrow> 32 \<le> (of_char c :: nat) \<and> (of_char c :: nat) \<noteq> 127"

definition plain_line :: "string \<Rightarrow> bool" where
  "plain_line l \<longleftrightarrow> unit_text l \<and> (l = [] \<or> last l \<noteq> CHR 0x5C)"

definition written :: "char \<Rightarrow> string \<Rightarrow> bool" where
  "written c w \<longleftrightarrow> (c = CHR 0x5C \<and> w = [CHR 0x5C, CHR 0x5C]) \<or> (c = CHR 0x22 \<and> w = [CHR 0x5C, CHR 0x22]) \<or>
     (c = CHR ''%'' \<and> w = ''%%'') \<or> (printable c \<and> c \<notin> {CHR 0x5C, CHR 0x22, CHR ''%''} \<and> w = [c])"

definition header :: "string \<Rightarrow> string" where "header section_name = ''['' @ section_name @ '']''"

definition systemd_reader :: "(string \<Rightarrow> string \<Rightarrow> string \<Rightarrow> string list) \<Rightarrow> (string \<Rightarrow> string \<Rightarrow> string list) \<Rightarrow> bool" where
  "systemd_reader read val \<longleftrightarrow>
     (\<forall>key name pre ls post. list_all plain_line (pre @ header name # ls @ post) \<longrightarrow> header name \<notin> set pre \<longrightarrow>
        list_all (\<lambda>l. \<not> has_prefix l ''['') ls \<longrightarrow> header name \<notin> set post \<longrightarrow> (post = [] \<or> has_prefix (hd post) ''['') \<longrightarrow>
        read name key (text_lines (pre @ header name # ls @ post)) = concat (map (val key) ls)) \<and>
     (\<forall>key l. \<not> has_prefix l key \<longrightarrow> val key l = []) \<and>
     (\<forall>key cs ws rest. unit_text cs \<longrightarrow> list_all2 written cs ws \<longrightarrow> (rest = [] \<or> has_prefix rest '' '') \<longrightarrow>
        val key (key @ ''='' @ dq @ concat ws @ dq @ rest) = [cs])"

lemma unit_text_append: "unit_text s \<Longrightarrow> unit_text t \<Longrightarrow> unit_text (s @ t)"
  unfolding unit_text_def by (metis concat_append list_all_append)

lemma unit_text_ascii: assumes "list_all (\<lambda>c. 32 \<le> (of_char c :: nat) \<and> (of_char c :: nat) < 127) s" shows "unit_text s"
  unfolding unit_text_def
proof (intro exI conjI)
  show "list_all (\<lambda>c. utf8_char (map of_char c)) (map (\<lambda>c. [c]) s)"
    using assms by (simp add: list_all_iff utf8_char_def)
qed simp

lemma utf8_char_cases:
  assumes "utf8_char bs" obtains (ascii) a where "bs = [a]" "32 \<le> a" "a < 127" | (high) "list_all (\<lambda>b. 128 \<le> b) bs"
proof (cases bs rule: remdups_adj.cases)
  case 1
  then show ?thesis using assms by (simp add: utf8_char_def)
next
  case (2 a)
  then show ?thesis using assms ascii by (simp add: utf8_char_def)
next
  case (3 a b r)
  then have "list_all (\<lambda>b. 128 \<le> b) bs" using assms by (auto simp: utf8_char_def continuation_def split: list.splits)
  then show ?thesis by (rule high)
qed

lemma unit_text_printable: assumes "unit_text s" shows "list_all printable s"
proof -
  obtain cs where cs: "list_all (\<lambda>c. utf8_char (map of_char c)) cs" "s = concat cs" using assms by (auto simp: unit_text_def)
  have "list_all printable c" if "utf8_char (map of_char c)" for c
    using that by (cases rule: utf8_char_cases) (auto simp: list_all_iff printable_def)
  then show ?thesis using cs by (auto simp: list_all_iff)
qed

lemma unit_text_escape: assumes "unit_text s" shows "unit_text (escape unit_esc s)"
proof -
  obtain cs where cs: "list_all (\<lambda>c. utf8_char (map of_char c)) cs" "s = concat cs" using assms by (auto simp: unit_text_def)
  have one: "unit_text (escape unit_esc c)" if c: "utf8_char (map of_char c)" for c
    using c
  proof (cases rule: utf8_char_cases)
    case (ascii a)
    then show ?thesis by (auto simp: escape_def unit_esc_def intro!: unit_text_ascii)
  next
    case high
    then have "list_all (\<lambda>x. unit_esc x = [x]) c" by (auto simp: list_all_iff unit_esc_def)
    then have "escape unit_esc c = c" by (induction c) (simp_all add: escape_def)
    moreover have "unit_text c" unfolding unit_text_def by (rule exI[of _ "[c]"]) (simp add: c)
    ultimately show ?thesis by simp
  qed
  have "unit_text (escape unit_esc (concat cs))" using cs(1)
  proof (induction cs)
    case Nil
    show ?case by (rule unit_text_ascii) (simp add: escape_def)
  next
    case (Cons c cs)
    then show ?case using unit_text_append[OF one] by (simp add: escape_def)
  qed
  then show ?thesis by (simp add: cs(2))
qed

lemma printable_simps [simp]: "printable CHR 0x5C" "printable CHR 0x22" "printable CHR ''%''"
  by (simp_all add: printable_def)

lemma written_esc: "printable c \<Longrightarrow> written c (unit_esc c)"
  by (auto simp: written_def unit_esc_def)

lemma written_all: assumes "unit_text s" shows "list_all2 written s (map unit_esc s)"
  using unit_text_printable[OF assms] by (induction s) (simp_all add: written_esc)

lemma quote_plain: "unit_text s \<Longrightarrow> unit_text (unit_quote s)"
  unfolding unit_quote_def using unit_text_ascii[of "[CHR 0x22]"] by (intro unit_text_append unit_text_escape) simp_all

lemma val_quoted:
  assumes "systemd_reader read val" "unit_text s" "rest = [] \<or> has_prefix rest '' ''"
  shows "val key (key @ ''='' @ unit_quote s @ rest) = [s]"
proof -
  have "val key (key @ ''='' @ dq @ concat (map unit_esc s) @ dq @ rest) = [s]"
    using assms written_all[OF assms(2)] unfolding systemd_reader_def by blast
  then show ?thesis by (simp add: unit_quote_def escape_def dq_def)
qed

lemma read_section:
  assumes "systemd_reader read val" "list_all plain_line (pre @ header name # ls @ post)" "header name \<notin> set pre"
    "list_all (\<lambda>l. \<not> has_prefix l ''['') ls" "header name \<notin> set post" "post = [] \<or> has_prefix (hd post) ''[''"
  shows "read name key (text_lines (pre @ header name # ls @ post)) = concat (map (val key) ls)"
  using assms unfolding systemd_reader_def by blast

lemma val_other: "systemd_reader read val \<Longrightarrow> \<not> has_prefix l key \<Longrightarrow> val key l = []"
  unfolding systemd_reader_def by blast

text \<open>The lines of a unit with the environment set.\<close>

definition env_values :: "(string, string) gomap \<Rightarrow> string list" where
  "env_values env = concat (map (\<lambda>name. case map_of env name of None \<Rightarrow> [] | Some v \<Rightarrow> [name @ ''='' @ v]) environment)"

lemma env_lines:
  "concat (map (\<lambda>name. case map_of env name of None \<Rightarrow> [] | Some v \<Rightarrow> [''Environment='' @ unit_quote (name @ ''='' @ v)]) environment) =
   map (\<lambda>v. ''Environment='' @ unit_quote v) (env_values env)"
proof -
  have "concat (map (\<lambda>name. case map_of env name of None \<Rightarrow> [] | Some v \<Rightarrow> [''Environment='' @ unit_quote (name @ ''='' @ v)]) ns) =
     map (\<lambda>v. ''Environment='' @ unit_quote v) (concat (map (\<lambda>name. case map_of env name of None \<Rightarrow> [] | Some v \<Rightarrow> [name @ ''='' @ v]) ns))" for ns
    by (induction ns) (auto split: option.split)
  then show ?thesis unfolding env_values_def .
qed

text \<open>The unit in three parts: what comes before the service, the service, and the rest.\<close>

definition service_lines :: "string \<Rightarrow> (string, string) gomap \<Rightarrow> string list" where
  "service_lines executable env =
     (''ExecStart='' @ unit_quote executable @ '' agent'') # map (\<lambda>v. ''Environment='' @ unit_quote v) (env_values env) @
     [''Restart=on-failure'', ''RestartSec=30'', []]"

lemma unit_parts:
  "unit_lines executable env =
     [''[Unit]'', ''Description=ShareCodex agent'', ''After=network-online.target'', []] @
     header ''Service'' # service_lines executable env @ [''[Install]'', ''WantedBy=default.target'']"
  unfolding unit_lines_def env_lines service_lines_def header_def by simp

lemma plain_quoted: "unit_text k \<Longrightarrow> unit_text s \<Longrightarrow> plain_line (k @ unit_quote s)"
  using unit_text_append[OF _ quote_plain[of s], of k] by (simp add: plain_line_def) (simp add: unit_quote_def)

lemma env_values_printable:
  assumes "list_all (\<lambda>(_, v). unit_text v) env" shows "list_all unit_text (env_values env)"
proof -
  have v: "unit_text v" if "map_of env name = Some v" for name v
    using assms that by (auto simp: list_all_iff dest: map_of_SomeD)
  have eq: "unit_text ''=''" by (rule unit_text_ascii) code_simp
  have "list_all unit_text (concat (map (\<lambda>name. case map_of env name of None \<Rightarrow> [] | Some v \<Rightarrow> [name @ ''='' @ v]) ns))"
    if "list_all unit_text ns" for ns
    using that by (induction ns) (use v unit_text_append[OF _ unit_text_append[OF eq]] in \<open>auto split: option.split\<close>)
  moreover have "list_all unit_text environment" by (simp add: environment_def) (intro conjI unit_text_ascii; simp)
  ultimately show ?thesis unfolding env_values_def by blast
qed

lemma unit_read:
  assumes "systemd_reader read val" "unit_text executable" "list_all (\<lambda>(_, v). unit_text v) env"
  shows "read ''Service'' key (systemd_unit executable env) = concat (map (val key) (service_lines executable env))"
proof -
  let ?pre = "[''[Unit]'', ''Description=ShareCodex agent'', ''After=network-online.target'', []]"
  let ?post = "[''[Install]'', ''WantedBy=default.target'']"
  have exec: "plain_line (''ExecStart='' @ unit_quote executable @ '' agent'')"
    unfolding plain_line_def
    using unit_text_append[OF unit_text_ascii[of "''ExecStart=''"] unit_text_append[OF quote_plain[OF assms(2)] unit_text_ascii[of "'' agent''"]]]
    by simp
  have key: "unit_text ''Environment=''" by (rule unit_text_ascii) code_simp
  have envs: "list_all plain_line (map (\<lambda>v. ''Environment='' @ unit_quote v) (env_values env))"
    unfolding list.pred_map comp_def
    by (rule list.pred_mono_strong[OF env_values_printable[OF assms(3)]]) (rule plain_quoted[OF key])
  have rest: "list_all plain_line ?pre" "list_all plain_line ?post" "plain_line (header ''Service'')"
    "list_all plain_line [''Restart=on-failure'', ''RestartSec=30'', []]"
    by (simp_all add: plain_line_def header_def) (intro conjI unit_text_ascii; simp)+
  have "list_all plain_line (?pre @ header ''Service'' # service_lines executable env @ ?post)"
    using exec envs rest unfolding service_lines_def by (simp only: list_all_append list.pred_inject append_Cons)
  moreover have "header ''Service'' \<notin> set ?pre" "header ''Service'' \<notin> set ?post" "?post = [] \<or> has_prefix (hd ?post) ''[''"
    by (simp_all add: header_def has_prefix_def)
  moreover have "list_all (\<lambda>l. \<not> has_prefix l ''['') (service_lines executable env)"
    by (simp add: service_lines_def has_prefix_def list_all_iff)
  ultimately show ?thesis unfolding systemd_unit_def unit_parts by (intro read_section[OF assms(1)])
qed

text \<open>
  C21. systemd starts what was asked for: whatever text the path of the program and the values of the
  environment are, quotes, backslashes, percent signs and spaces in it, the first word of \<open>ExecStart\<close> in the
  service section of the unit is that path and the \<open>Environment\<close> assignments are those variables, as systemd reads a
  unit. Control characters are left out: a line break in one of them does break the unit, \<open>unit_line_break\<close>.
\<close>

theorem unit_reads_back:
  assumes "systemd_reader read val" "unit_text executable" "list_all (\<lambda>(_, v). unit_text v) env"
  shows "read ''Service'' ''ExecStart'' (systemd_unit executable env) = [executable] \<and>
    read ''Service'' ''Environment'' (systemd_unit executable env) = env_values env"
proof -
  have none: "val ''ExecStart'' (''Environment='' @ unit_quote v) = []" for v
    using val_other[OF assms(1)] by (simp add: has_prefix_def)
  have fixed: "concat (map (val ''ExecStart'') [''Restart=on-failure'', ''RestartSec=30'', []]) = []"
    "concat (map (val ''Environment'') [''Restart=on-failure'', ''RestartSec=30'', []]) = []"
    using val_other[OF assms(1)] by (simp_all add: has_prefix_def)
  have exec: "val ''ExecStart'' (''ExecStart='' @ unit_quote executable @ '' agent'') = [executable]"
    "val ''Environment'' (''ExecStart='' @ unit_quote executable @ '' agent'') = []"
    using val_quoted[OF assms(1,2), of "'' agent''" "''ExecStart''"] val_other[OF assms(1)] by (simp_all add: has_prefix_def)
  have vars: "concat (map (val ''Environment'') (map (\<lambda>v. ''Environment='' @ unit_quote v) vs)) = vs" if "list_all unit_text vs" for vs
    using that val_quoted[OF assms(1), of _ "[]" "''Environment''"] by (induction vs) simp_all
  have others: "concat (map (val ''ExecStart'') (map (\<lambda>v. ''Environment='' @ unit_quote v) vs)) = []" for vs
    by (induction vs) (simp_all only: list.map concat.simps none append_Nil)
  have split: "concat (map g (service_lines executable env)) = g (''ExecStart='' @ unit_quote executable @ '' agent'') @
      concat (map g (map (\<lambda>v. ''Environment='' @ unit_quote v) (env_values env))) @ concat (map g [''Restart=on-failure'', ''RestartSec=30'', []])"
    for g :: "string \<Rightarrow> string list" by (simp add: service_lines_def)
  show ?thesis unfolding unit_read[OF assms] split exec fixed others vars[OF env_values_printable[OF assms(3)]] by simp
qed

text \<open>A reader as documented: the lines of a section, and of each the quoted word, character by character.\<close>

definition unit_dec :: "string \<Rightarrow> (char \<times> string) option" where
  "unit_dec s =
     (case s of
        [] \<Rightarrow> None
      | c # r \<Rightarrow>
          if c = CHR 0x22 then None
          else if c = CHR 0x5C \<or> c = CHR ''%'' then
            (case r of
               [] \<Rightarrow> None
             | e # r' \<Rightarrow> if (c = CHR 0x5C \<and> (e = CHR 0x5C \<or> e = CHR 0x22)) \<or> (c = CHR ''%'' \<and> e = CHR ''%'') then Some (e, r') else None)
          else Some (c, r))"

interpretation unit_values: escaping unit_esc unit_dec "\<lambda>_. True"
  by unfold_locales (auto simp: unit_esc_def unit_dec_def)

lemma xml_entities_ok: "entities xml_entities"
  by code_simp

interpretation xml_values: escaping "entity_esc xml_entities" "entity_dec xml_entities" "\<lambda>_. True"
  using entity_escaping[OF xml_entities_ok] .

fun lines_of :: "string \<Rightarrow> string list" where
  "lines_of [] = []"
| "lines_of (c # s) = (if c = CHR 0x0A then [] # lines_of s else case lines_of s of [] \<Rightarrow> [[c]] | l # ls \<Rightarrow> (c # l) # ls)"

definition unit_word :: "string \<Rightarrow> string \<Rightarrow> string list" where
  "unit_word key l = (if has_prefix l (key @ ''='' @ dq) then [fst (unescape unit_dec (drop (length key + 2) l))] else [])"

definition unit_reader :: "string \<Rightarrow> string \<Rightarrow> string \<Rightarrow> string list" where
  "unit_reader name key text =
     concat (map (unit_word key) (takeWhile (\<lambda>l. \<not> has_prefix l ''['') (tl (dropWhile (\<lambda>l. l \<noteq> header name) (lines_of text)))))"

lemma lines_of_line: "CHR 0x0A \<notin> set l \<Longrightarrow> lines_of (l @ CHR 0x0A # s) = l # lines_of s"
  by (induction l) auto

lemma lines_of_text: "list_all plain_line ls \<Longrightarrow> lines_of (text_lines ls) = ls"
proof (induction ls)
  case (Cons l ls)
  then have "CHR 0x0A \<notin> set l" using unit_text_printable[of l] by (auto simp: plain_line_def printable_def list_all_iff)
  then show ?case using Cons by (simp add: text_lines_def lines_of_line)
qed (simp add: text_lines_def)

lemma written_escape: "list_all2 written cs ws \<Longrightarrow> concat ws = escape unit_esc cs"
  by (induction rule: list_all2_induct) (auto simp: written_def unit_esc_def escape_def)

lemma unquote: "unescape unit_dec (escape unit_esc s @ CHR 0x22 # r) = (s, CHR 0x22 # r)"
  by (rule unit_values.unescape_escape) (simp_all add: list_all_iff unit_dec_def)

lemma has_prefix_left: assumes "has_prefix l (a @ b)" shows "has_prefix l a"
proof -
  have "take (length a) (take (length (a @ b)) l) = take (length a) (a @ b)" using assms by (simp only: has_prefix_def)
  then show ?thesis by (simp add: has_prefix_def)
qed

lemma unit_reader_ok: "systemd_reader unit_reader unit_word"
  unfolding systemd_reader_def
proof (intro conjI allI impI)
  fix key name pre ls post
  assume plain: "list_all plain_line (pre @ header name # ls @ post)" and pre: "header name \<notin> set pre"
    and ls: "list_all (\<lambda>l. \<not> has_prefix l ''['') ls" and post: "post = [] \<or> has_prefix (hd post) ''[''"
  have "dropWhile (\<lambda>l. l \<noteq> header name) (pre @ header name # ls @ post) = header name # ls @ post"
    using pre by (induction pre) auto
  moreover have "takeWhile (\<lambda>l. \<not> has_prefix l ''['') (ls @ post) = ls" using ls post by (cases post) (auto simp: list_all_iff)
  ultimately show "unit_reader name key (text_lines (pre @ header name # ls @ post)) = concat (map (unit_word key) ls)"
    by (simp add: unit_reader_def lines_of_text[OF plain])
next
  fix key l :: string
  assume "\<not> has_prefix l key"
  then have "\<not> has_prefix l (key @ ''='' @ dq)" using has_prefix_left by blast
  then show "unit_word key l = []" by (simp add: unit_word_def)
next
  fix key rest :: string and cs ws
  assume "list_all2 written cs ws"
  then show "unit_word key (key @ ''='' @ dq @ concat ws @ dq @ rest) = [cs]"
    by (simp add: unit_word_def written_escape has_prefix_def dq_def unquote)
qed

text \<open>A line break is written as it is, and what follows it is a line of its own.\<close>

lemma unit_line_break:
  "unit_reader ''Service'' ''ExecStart'' (systemd_unit (''/opt/a'' @ [CHR 0x0A] @ ''ExecStart='' @ dq @ ''/tmp/b'') []) \<noteq>
     [''/opt/a'' @ [CHR 0x0A] @ ''ExecStart='' @ dq @ ''/tmp/b'']"
  by code_simp

text \<open>The unit the repository tests.\<close>

definition demo_env :: "(string, string) gomap" where
  "demo_env = [(''PATH'', ''/usr/bin:/home/a/100%'' @ dq @ ''x'' @ dq), (''CODEX_HOME'', ''/home/a/.codex'')]"

lemma unit_reads_back_witness:
  "unit_reader ''Service'' ''ExecStart'' (systemd_unit ''/home/a b/sharecodex'' demo_env) = [''/home/a b/sharecodex''] \<and>
   unit_reader ''Service'' ''Environment'' (systemd_unit ''/home/a b/sharecodex'' demo_env) =
     [''PATH=/usr/bin:/home/a/100%'' @ dq @ ''x'' @ dq, ''CODEX_HOME=/home/a/.codex'']"
proof -
  have "env_values demo_env = [''PATH=/usr/bin:/home/a/100%'' @ dq @ ''x'' @ dq, ''CODEX_HOME=/home/a/.codex'']" by code_simp
  moreover have "unit_text ''/home/a b/sharecodex''" "list_all (\<lambda>(_, v). unit_text v) demo_env"
    by (simp_all add: demo_env_def dq_def) (intro conjI unit_text_ascii; simp)+
  ultimately show ?thesis using unit_reads_back[OF unit_reader_ok, of "''/home/a b/sharecodex''" demo_env] by simp
qed

text \<open>The LaunchAgent names the program whatever its path holds: no character of it opens a tag, and it reads back.\<close>

lemma xmlEscape_reads_back: "unescape (entity_dec xml_entities) (xmlEscape s @ CHR ''<'' # r) = (s, CHR ''<'' # r)"
  unfolding xmlEscape_def by (rule xml_values.unescape_escape) (simp_all add: list_all_iff entity_dec_def xml_entities_def)

lemma xmlEscape_no_tag: "CHR ''<'' \<notin> set (xmlEscape s)" "CHR ''>'' \<notin> set (xmlEscape s)"
  unfolding xmlEscape_def by (rule escape_clean; auto simp: xml_entities_def)+

section \<open>The setting and the item agree\<close>

text \<open>A contract of a login item: what a call that works leaves depends on what was asked alone.\<close>

locale login_items =
  fixes item :: "'o login_item" and installed :: "'o \<Rightarrow> string option" and entry :: "string \<Rightarrow> string"
  assumes item_on: "item executable True os = (None, os') \<Longrightarrow> installed os' = Some (entry executable)"
    and item_off: "item executable False os = (None, os') \<Longrightarrow> installed os' = None"
begin

lemma SetLaunchAtLogin_agrees:
  "SetLaunchAtLogin item executable enabled p os = (None, p', os') \<Longrightarrow>
     installed os' = (if enabled then Some (entry executable) else None) \<and> se_LaunchAtLogin (pf_Settings p') = enabled \<and> \<not> (enabled \<and> translocated executable)"
  by (auto simp: SetLaunchAtLogin_def change_settings_def Let_def item_on item_off split: if_splits prod.splits option.splits)

lemma Repair_points_here:
  assumes "RepairInstalledPaths item executable file backup p os = (cf, p', os')" "\<not> translocated executable"
    and "se_LaunchAtLogin (pf_Settings p)" "fst (item executable True os) = None"
  shows "installed os' = Some (entry executable)"
proof -
  obtain err cf1 p1 where i: "Agent_InstallStatusLine executable file backup p = (err, cf1, p1)" by (rule prod_cases3)
  then have "se_LaunchAtLogin (pf_Settings p1) = se_LaunchAtLogin (pf_Settings p)"
    by (auto simp: Agent_InstallStatusLine_def split: prod.splits if_splits)
  then have "os' = snd (item executable True os)" using assms(1-3) i by (auto simp: RepairInstalledPaths_def Let_def split: if_splits)
  then show ?thesis using item_on[of executable os os'] assms(4) by (simp add: prod_eq_iff)
qed

end

interpretation systemd: login_items "linux_Set ctl getenv" fst "\<lambda>executable. systemd_unit executable (unit_env getenv)"
  by unfold_locales (auto simp: linux_Set_def split: prod.splits if_splits option.splits)

interpretation launch_agent: login_items darwin_Set id plist_text
  by unfold_locales (auto simp: darwin_Set_def)

interpretation run_key: login_items windows_Set id "\<lambda>executable. dq @ executable @ dq"
  by unfold_locales (auto simp: windows_Set_def)

end
