(* ===== verification/PageService.thy ===== *)
theory PageService
  imports Desktop Autostart
begin

text \<open>
  What the popup's page can call: the exported methods of \<open>Service\<close> in \<open>internal/client/desktop/desktop.go\<close>.
  The settings of the windows' \<open>desktop\<close> and those of the agent are the same ones, kept in the agent.
\<close>

section \<open>The app\<close>

record 'o app =
  ap_Shell :: shell
  ap_Desktop :: desktop
  ap_Kicked :: bool
  ap_Claude :: "settings_text option"
  ap_Backup :: "settings_text option"
  ap_Item :: 'o
  ap_Opened :: "string list"
  ap_Clipboard :: string
  ap_Image :: "string option"

text \<open>The system around a call; \<open>pe_SignIn\<close> is a sign-in just started and \<open>pe_OpenURL\<close> whether the browser opens.
  \<open>pe_Base64\<close> is package \<open>encoding/base64\<close>, and \<open>pe_CopyImage\<close> whether the temporary file could be written and copied from.\<close>

record ('w, 'o) page_env =
  pe_Now :: time
  pe_Home :: "int \<times> int"
  pe_Screen :: "int option"
  pe_Dir :: string
  pe_GOOS :: string
  pe_Hostname :: "string option"
  pe_URLs :: urls
  pe_Transport :: "string \<Rightarrow> 'w transport"
  pe_Item :: "'o login_item"
  pe_Executable :: string
  pe_Host :: host
  pe_Today :: string
  pe_Sha :: "string \<Rightarrow> string"
  pe_RFC3339 :: "string \<Rightarrow> time option"
  pe_Network :: "'w network"
  pe_SignInURL :: string
  pe_OpenURL :: "string \<Rightarrow> bool"
  pe_Base64 :: "string \<Rightarrow> string option"
  pe_CopyImage :: "string \<Rightarrow> bool"
  pe_Wait :: "'w \<Rightarrow> (wait_error + oauth_tokens \<times> profile) \<times> 'w"

definition app_prefs :: "(prefs \<Rightarrow> prefs) \<Rightarrow> 'o app \<Rightarrow> 'o app" where
  "app_prefs f a = a\<lparr>ap_Shell := (ap_Shell a)\<lparr>sh_Prefs := f (sh_Prefs (ap_Shell a))\<rparr>\<rparr>"

definition app_window :: "time \<Rightarrow> int \<times> int \<Rightarrow> window_event \<Rightarrow> 'o app \<Rightarrow> 'o app" where
  "app_window now home e a =
     (let dk = handle_event now home e ((ap_Desktop a)\<lparr>dk_Prefs := sh_Prefs (ap_Shell a)\<rparr>)
      in (app_prefs (\<lambda>_. dk_Prefs dk) a)\<lparr>ap_Desktop := dk\<rparr>)"

definition app_state :: "('w, 'o) page_env \<Rightarrow> 'o app \<Rightarrow> popup" where
  "app_state E a = State (ap_Claude a) (pe_Now E) (ap_Shell a)"

definition app_transport :: "('w, 'o) page_env \<Rightarrow> 'o app \<Rightarrow> 'w transport" where
  "app_transport E a = pe_Transport E (se_ServerURL (pf_Settings (sh_Prefs (ap_Shell a))))"

section \<open>Calls\<close>

datatype page_call =
    GetState | DoJoin string | DoInvite | DoLeave | DoLeaveAccount string | DoRefresh | DoResync | DoInstallStatusLine
  | DoRestoreStatusLine | DoSignIn | DoSignOut string | DoLaunchAtLogin bool | DoOpenDashboard | DoOpenRelease
  | GetMemberUsage string string | GetCapacity string string string string | DoFineChart bool | DoAccountSort string
  | DoModelSort string | DoAccountOrder "string list" | DoLanguage string | DoPin string | DoUnpin string
  | DoWidgetHeight string int | DoCopyImage string | DoQuit

datatype page_error =
    PageJoin join_error | PageClient client_error | PageResync resync_error | PageConfig config_error | PageWait wait_error
  | PageLogin login_error | PageNoLogin | PageLaunch launch_error | PageUnpublished | PageBrowser | PageChoice | PageImage | PageCopy

datatype page_answer =
    Done | Failed page_error | GaveState popup | GaveInvite string time | GaveUsage member_usage | GaveCapacity capacity_report

definition answer_of :: "page_error option \<Rightarrow> page_answer" where
  "answer_of err = (case err of None \<Rightarrow> Done | Some e \<Rightarrow> Failed e)"

definition app_capture ::
  "(settings_text option \<Rightarrow> settings_text option \<Rightarrow> prefs \<Rightarrow> config_error option \<times> claude_settings \<times> prefs) \<Rightarrow> 'o app \<Rightarrow> page_answer \<times> 'o app" where
  "app_capture f a =
     (case f (ap_Claude a) (ap_Backup a) (sh_Prefs (ap_Shell a)) of
        (err, cf, p) \<Rightarrow> (answer_of (map_option PageConfig err), (app_prefs (\<lambda>_. p) a)\<lparr>ap_Claude := cf_File cf, ap_Backup := cf_Backup cf\<rparr>))"

definition app_choice :: "(prefs \<Rightarrow> prefs option) \<Rightarrow> 'o app \<Rightarrow> page_answer \<times> 'o app" where
  "app_choice f a =
     (case f (sh_Prefs (ap_Shell a)) of None \<Rightarrow> (Failed PageChoice, a) | Some p \<Rightarrow> (Done, app_prefs (\<lambda>_. p) a))"

definition open_url :: "('w, 'o) page_env \<Rightarrow> string \<Rightarrow> 'o app \<Rightarrow> page_answer \<times> 'o app" where
  "open_url E url a = (if pe_OpenURL E url then (Done, a\<lparr>ap_Opened := ap_Opened a @ [url]\<rparr>) else (Failed PageBrowser, a))"

definition SignInClaude :: "('w, 'o) page_env \<Rightarrow> 'o app \<Rightarrow> 'w \<Rightarrow> page_answer \<times> 'o app \<times> 'w" where
  "SignInClaude E a w =
     (case open_url E (pe_SignInURL E) a of
        (Failed e, a) \<Rightarrow> (Failed e, a, w)
      | (_, a) \<Rightarrow>
          (case pe_Wait E w of
             (Inl err, w) \<Rightarrow> (Failed (PageWait err), a, w)
           | (Inr (tokens, p), w) \<Rightarrow>
               (case LinkClaude (pe_Sha E) (pe_RFC3339 E) (pe_Network E) (pe_Now E) tokens p (sh_Prober (ap_Shell a)) w of
                  (_, r, pb, w) \<Rightarrow>
                    (case r of Inl err \<Rightarrow> Failed (PageLogin err) | Inr _ \<Rightarrow> Done, a\<lparr>ap_Shell := (ap_Shell a)\<lparr>sh_Prober := pb\<rparr>\<rparr>, w))))"

fun page_serve :: "('w, 'o) page_env \<Rightarrow> page_call \<Rightarrow> 'o app \<Rightarrow> 'w \<Rightarrow> page_answer \<times> 'o app \<times> 'w" where
  "page_serve E GetState a w = (GaveState (app_state E a), a, w)"
| "page_serve E (DoJoin link) a w =
     (case Join (pe_URLs E) (pe_Dir E) (pe_GOOS E) (pe_Hostname E) (pe_Transport E) link (ap_Shell a) w of
        (err, sh, w) \<Rightarrow> (answer_of (map_option PageJoin err), a\<lparr>ap_Shell := sh\<rparr>, w))"
| "page_serve E DoInvite a w =
     (case desktop_invite (app_transport E a) (ap_Shell a) (ap_Clipboard a) w of
        (Inl err, clip, w) \<Rightarrow> (Failed (PageClient err), a\<lparr>ap_Clipboard := clip\<rparr>, w)
      | (Inr (link, expires), clip, w) \<Rightarrow> (GaveInvite link expires, a\<lparr>ap_Clipboard := clip\<rparr>, w))"
| "page_serve E DoLeave a w =
     (case Leave (pe_Dir E) (ap_Shell a) of (err, sh) \<Rightarrow> (answer_of (map_option PageJoin err), a\<lparr>ap_Shell := sh\<rparr>, w))"
| "page_serve E (DoLeaveAccount i) a w =
     (case Agent_LeaveAccount (app_transport E a) i (sh_Sync (ap_Shell a)) w of
        (err, y, w) \<Rightarrow> (answer_of (map_option PageClient err), a\<lparr>ap_Shell := (ap_Shell a)\<lparr>sh_Sync := y\<rparr>\<rparr>, w))"
| "page_serve E DoRefresh a w = (Done, a\<lparr>ap_Kicked := True\<rparr>, w)"
| "page_serve E DoResync a w =
     (case Resync (pe_Sha E) (pe_Host E) (app_transport E a) (pe_Today E) (ap_Shell a) w of
        (err, _, sh, w) \<Rightarrow> (answer_of (map_option PageResync err), a\<lparr>ap_Shell := sh\<rparr>, w))"
| "page_serve E DoInstallStatusLine a w = (case app_capture (Agent_InstallStatusLine (pe_Executable E)) a of (r, a) \<Rightarrow> (r, a, w))"
| "page_serve E DoRestoreStatusLine a w = (case app_capture Agent_RestoreStatusLine a of (r, a) \<Rightarrow> (r, a, w))"
| "page_serve E DoSignIn a w = SignInClaude E a w"
| "page_serve E (DoSignOut hint) a w =
     (case UnlinkClaude hint (sh_Prober (ap_Shell a)) of
        (found, pb) \<Rightarrow> (if found then Done else Failed PageNoLogin, a\<lparr>ap_Shell := (ap_Shell a)\<lparr>sh_Prober := pb\<rparr>\<rparr>, w))"
| "page_serve E (DoLaunchAtLogin enabled) a w =
     (case SetLaunchAtLogin (pe_Item E) (pe_Executable E) enabled (sh_Prefs (ap_Shell a)) (ap_Item a) of
        (err, p, item) \<Rightarrow> (answer_of (map_option PageLaunch err), (app_prefs (\<lambda>_. p) a)\<lparr>ap_Item := item\<rparr>, w))"
| "page_serve E DoOpenDashboard a w =
     (case OpenDashboard (app_state E a) of
        None \<Rightarrow> (Failed PageUnpublished, a, w) | Some url \<Rightarrow> (case open_url E url a of (r, a) \<Rightarrow> (r, a, w)))"
| "page_serve E DoOpenRelease a w =
     (case OpenReleasePage (app_state E a) of
        None \<Rightarrow> (Done, a, w) | Some url \<Rightarrow> (case open_url E url a of (r, a) \<Rightarrow> (r, a, w)))"
| "page_serve E (GetMemberUsage i period) a w =
     (case with_client (sh_Sync (ap_Shell a)) (\<lambda>token. Client_MemberUsage (app_transport E a) token i period) w of
        (Inl err, w) \<Rightarrow> (Failed (PageClient err), a, w) | (Inr u, w) \<Rightarrow> (GaveUsage u, a, w))"
| "page_serve E (GetCapacity i period from' to') a w =
     (case with_client (sh_Sync (ap_Shell a)) (\<lambda>token. Client_AccountCapacity (app_transport E a) token i period from' to') w of
        (Inl err, w) \<Rightarrow> (Failed (PageClient err), a, w) | (Inr r, w) \<Rightarrow> (GaveCapacity r, a, w))"
| "page_serve E (DoFineChart enabled) a w = (Done, app_prefs (SetFineChart enabled) a, w)"
| "page_serve E (DoAccountSort order) a w = (case app_choice (SetAccountSort order) a of (r, a) \<Rightarrow> (r, a, w))"
| "page_serve E (DoModelSort order) a w = (case app_choice (SetModelSort order) a of (r, a) \<Rightarrow> (r, a, w))"
| "page_serve E (DoAccountOrder ids) a w = (Done, app_prefs (Preferences.SetAccountOrder ids) a, w)"
| "page_serve E (DoLanguage lang) a w =
     (if SetLanguage lang (sh_Prefs (ap_Shell a)) = None then (Failed PageChoice, a, w)
      else (Done, app_window (pe_Now E) (pe_Home E) (ChoosesLanguage lang) a, w))"
| "page_serve E (DoPin i) a w = (Done, app_window (pe_Now E) (pe_Home E) (Pins i) a, w)"
| "page_serve E (DoUnpin i) a w = (Done, app_window (pe_Now E) (pe_Home E) (Unpins i) a, w)"
| "page_serve E (DoWidgetHeight i h) a w = (Done, app_window (pe_Now E) (pe_Home E) (FitCard i h (pe_Screen E)) a, w)"
| "page_serve E (DoCopyImage pngBase64) a w =
     (case CopyImage (pe_Base64 E) pngBase64 of
        None \<Rightarrow> (Failed PageImage, a, w)
      | Some png \<Rightarrow> if pe_CopyImage E png then (Done, a\<lparr>ap_Image := Some png\<rparr>, w) else (Failed PageCopy, a, w))"
| "page_serve E DoQuit a w = (Done, app_window (pe_Now E) (pe_Home E) Quits a, w)"

section \<open>What a page cannot do\<close>

text \<open>The windows are the pinned accounts, and the settings the app has in memory those on disk.\<close>

definition app_ok :: "'o app \<Rightarrow> bool" where
  "app_ok a \<longleftrightarrow> windows_ok ((ap_Desktop a)\<lparr>dk_Prefs := sh_Prefs (ap_Shell a)\<rparr>)"

text \<open>The pages the app may open.\<close>

definition allowed_url :: "('w, 'o) page_env \<Rightarrow> 'o app \<Rightarrow> string \<Rightarrow> bool" where
  "allowed_url E a url \<longleftrightarrow> url = pe_SignInURL E \<or>
     (case ag_overview (sh_Sync (ap_Shell a)) of
        Some ov \<Rightarrow> ov_DashboardPublished ov \<and> url = trim_right CHR ''/'' (se_ServerURL (pf_Settings (sh_Prefs (ap_Shell a)))) @ ''/dashboard''
      | None \<Rightarrow> False) \<or>
     (case sh_Update (ap_Shell a) of Some rel \<Rightarrow> url = re_URL rel | None \<Rightarrow> False)"

abbreviation app_pins :: "'o app \<Rightarrow> widget list" where "app_pins a \<equiv> se_Widgets (pf_Settings (sh_Prefs (ap_Shell a)))"

lemma app_ok_same: "app_ok a \<Longrightarrow> ap_Desktop a' = ap_Desktop a \<Longrightarrow> app_pins a' = app_pins a \<Longrightarrow> app_ok a'"
  by (simp add: app_ok_def windows_ok_def pinned_def fun_eq_iff)

lemma app_window_ok: "app_ok a \<Longrightarrow> app_ok (app_window now home e a)"
  using handle_event_ok[of "(ap_Desktop a)\<lparr>dk_Prefs := sh_Prefs (ap_Shell a)\<rparr>" now home e] by (simp add: app_ok_def app_window_def app_prefs_def Let_def)

lemma app_window_simps [simp]: "ap_Opened (app_window now home e a) = ap_Opened a"
  by (simp add: app_window_def app_prefs_def Let_def)

text \<open>A call that leaves windows, pins and pages alone, or opens one page that is allowed.\<close>

definition confined :: "('w, 'o) page_env \<Rightarrow> 'o app \<Rightarrow> 'o app \<Rightarrow> bool" where
  "confined E a a' \<longleftrightarrow> (app_ok a \<longrightarrow> app_ok a') \<and> (\<exists>urls. ap_Opened a' = ap_Opened a @ urls \<and> list_all (allowed_url E a) urls)"

lemma confinedI: "ap_Desktop a' = ap_Desktop a \<Longrightarrow> app_pins a' = app_pins a \<Longrightarrow> ap_Opened a' = ap_Opened a \<Longrightarrow> confined E a a'"
  using app_ok_same by (fastforce simp: confined_def)

lemma confined_window: "confined E a (app_window now home e a)"
  by (simp add: confined_def app_window_ok)

lemma confined_open:
  assumes "allowed_url E a url" "ap_Desktop a' = ap_Desktop a" "app_pins a' = app_pins a" "ap_Opened a' = ap_Opened (snd (open_url E url a))"
  shows "confined E a a'"
  using assms app_ok_same[of a a'] by (auto simp: confined_def open_url_def)

lemma confined_prefs: "(\<And>p. se_Widgets (pf_Settings (f p)) = se_Widgets (pf_Settings p)) \<Longrightarrow> confined E a (app_prefs f a)"
  by (rule confinedI) (simp_all add: app_prefs_def)

lemma open_url_simps [simp]:
  "ap_Desktop (snd (open_url E url a)) = ap_Desktop a" "ap_Shell (snd (open_url E url a)) = ap_Shell a"
  by (simp_all add: open_url_def)

lemma Join_pins: "Join U dir goos host net link sh w = (err, sh', w') \<Longrightarrow> se_Widgets (pf_Settings (sh_Prefs sh')) = se_Widgets (pf_Settings (sh_Prefs sh))"
  by (auto simp: Join_def Let_def change_settings_def joined_settings_def split: option.splits prod.splits sum.splits)

lemma Leave_pins: "Leave dir sh = (err, sh') \<Longrightarrow> se_Widgets (pf_Settings (sh_Prefs sh')) = se_Widgets (pf_Settings (sh_Prefs sh))"
  by (auto simp: Leave_def Let_def change_settings_def left_settings_def split: if_splits option.splits prod.splits)

lemma SetLaunch_pins: "SetLaunchAtLogin item exe b p os = (err, p', os') \<Longrightarrow> se_Widgets (pf_Settings p') = se_Widgets (pf_Settings p)"
  by (auto simp: SetLaunchAtLogin_def Let_def change_settings_def split: if_splits prod.splits option.splits)

lemma capture_confined:
  assumes "\<And>file backup p err cf p'. f file backup p = (err, cf, p') \<Longrightarrow> se_Widgets (pf_Settings p') = se_Widgets (pf_Settings p)"
  shows "confined E a (snd (app_capture f a))"
  using assms by (intro confinedI) (auto simp: app_capture_def app_prefs_def split: prod.split)

lemma statusLine_pins:
  "Agent_InstallStatusLine exe file backup p = (err, cf, p') \<Longrightarrow> se_Widgets (pf_Settings p') = se_Widgets (pf_Settings p)"
  "Agent_RestoreStatusLine file backup p = (err, cf, p') \<Longrightarrow> se_Widgets (pf_Settings p') = se_Widgets (pf_Settings p)"
  by (auto simp: Agent_InstallStatusLine_def Agent_RestoreStatusLine_def split: prod.splits if_splits)

lemma choice_confined:
  "(\<And>p p'. f p = Some p' \<Longrightarrow> se_Widgets (pf_Settings p') = se_Widgets (pf_Settings p)) \<Longrightarrow> confined E a (snd (app_choice f a))"
  by (rule confinedI) (auto simp: app_choice_def app_prefs_def split: option.split)

lemma SignIn_confined: "confined E a (fst (snd (SignInClaude E a w)))"
  by (rule confined_open[of E a "pe_SignInURL E"])
    (auto simp: allowed_url_def SignInClaude_def open_url_def split: prod.split sum.split page_answer.split)

lemma release_confined: "OpenReleasePage (app_state E a) = Some url \<Longrightarrow> confined E a (snd (open_url E url a))"
  by (rule confined_open[of E a url]) (auto simp: allowed_url_def OpenReleasePage_def app_state_def State_def Let_def)

lemma dashboard_confined: "OpenDashboard (app_state E a) = Some url \<Longrightarrow> confined E a (snd (open_url E url a))"
  by (rule confined_open[of E a url])
    (auto simp: allowed_url_def OpenDashboard_def app_state_def State_def Let_def split: option.splits if_splits)

lemmas pin_ops = SetFineChart_def SetAccountSort_def SetModelSort_def Preferences.SetAccountOrder_def change_settings_def

lemma page_serve_confined: "confined E a (fst (snd (page_serve E pc a w)))"
proof (cases pc)
  case (DoJoin link)
  then show ?thesis by (auto intro!: confinedI dest: Join_pins split: prod.split)
next
  case DoLeave
  then show ?thesis by (auto intro!: confinedI dest: Leave_pins split: prod.split)
next
  case DoResync
  then show ?thesis by (auto intro!: confinedI dest: Resync_keeps(1) split: prod.split)
next
  case DoInstallStatusLine
  then show ?thesis using capture_confined[OF statusLine_pins(1)] by (simp add: case_prod_unfold)
next
  case DoRestoreStatusLine
  then show ?thesis using capture_confined[OF statusLine_pins(2)] by (simp add: case_prod_unfold)
next
  case DoSignIn
  then show ?thesis using SignIn_confined by simp
next
  case (DoLaunchAtLogin enabled)
  then show ?thesis by (auto intro!: confinedI dest: SetLaunch_pins simp: app_prefs_def split: prod.split)
next
  case DoOpenDashboard
  then show ?thesis using dashboard_confined[of E a] confinedI[of a a E] by (auto simp: case_prod_unfold split: option.split)
next
  case DoOpenRelease
  then show ?thesis using release_confined[of E a] confinedI[of a a E] by (auto simp: case_prod_unfold split: option.split)
next
  case (DoAccountSort order)
  have "confined E a (snd (app_choice (SetAccountSort order) a))" by (rule choice_confined) (auto simp: pin_ops Let_def split: if_splits)
  then show ?thesis using DoAccountSort by (simp add: case_prod_unfold)
next
  case (DoModelSort order)
  have "confined E a (snd (app_choice (SetModelSort order) a))" by (rule choice_confined) (auto simp: pin_ops Let_def split: if_splits)
  then show ?thesis using DoModelSort by (simp add: case_prod_unfold)
next
  case (DoLanguage lang)
  then show ?thesis using confinedI[of a a E] by (simp add: confined_window)
qed (auto intro!: confinedI confined_window simp: app_prefs_def pin_ops Let_def split: prod.split sum.split option.split)

text \<open>Calls one after another.\<close>

fun page_run :: "(('w, 'o) page_env \<times> page_call) list \<Rightarrow> 'o app \<Rightarrow> 'w \<Rightarrow> 'o app \<times> 'w" where
  "page_run [] a w = (a, w)"
| "page_run ((E, pc) # calls) a w = (case page_serve E pc a w of (_, a, w) \<Rightarrow> page_run calls a w)"

lemma page_run_append: "page_run (xs @ ys) a w = (case page_run xs a w of (a, w) \<Rightarrow> page_run ys a w)"
  by (induction xs a w rule: page_run.induct) (auto split: prod.split)

lemma page_run_ok: "app_ok a \<Longrightarrow> app_ok (fst (page_run calls a w))"
proof (induction calls a w rule: page_run.induct)
  case (2 E pc calls a w)
  obtain r a' w' where step: "page_serve E pc a w = (r, a', w')" by (rule prod_cases3)
  then have "app_ok a'" using page_serve_confined[of E a pc w] "2.prems" by (simp add: confined_def)
  then show ?case using "2.IH" step by simp
qed simp

text \<open>
  C20. The page is confined: whatever it calls in whatever order, the app opens no page but the sign-in it
  started, the dashboard of its own server once published, and the release it was told of; and the open
  widgets stay the pinned accounts.
\<close>

theorem page_is_confined:
  assumes "app_ok a0" "page_run before a0 w0 = (a, w)" "page_serve E pc a w = (r, a', w')"
  shows "app_ok a' \<and> (\<exists>urls. ap_Opened a' = ap_Opened a @ urls \<and> list_all (allowed_url E a) urls)"
  using page_run_ok[OF assms(1), of before w0] page_serve_confined[of E a pc w] assms(2,3) by (simp add: confined_def)

text \<open>An app that is not joined, whose page pins an account and asks for the dashboard and a newer release.\<close>

definition demo_app :: "unit app" where
  "demo_app = \<lparr>ap_Shell = demo_shell\<lparr>sh_Update := Some \<lparr>re_Version = ''v2'', re_URL = ''https://example.org/v2''\<rparr>\<rparr>,
     ap_Desktop = Run_desktop 0 (0, 0) (sh_Prefs demo_shell), ap_Kicked = False, ap_Claude = None, ap_Backup = None, ap_Item = (),
     ap_Opened = [], ap_Clipboard = [], ap_Image = None\<rparr>"

definition demo_page :: "(unit, unit) page_env" where
  "demo_page = \<lparr>pe_Now = 0, pe_Home = (0, 0), pe_Screen = None, pe_Dir = [], pe_GOOS = [], pe_Hostname = None, pe_URLs = demo_urls,
     pe_Transport = demo_net, pe_Item = other_Set, pe_Executable = [], pe_Host = demo_host, pe_Today = [], pe_Sha = (\<lambda>x. x), pe_RFC3339 = (\<lambda>_. None),
     pe_Network = \<lparr>nt_usage = (\<lambda>_ w. (NoAnswer, w)), nt_refresh = (\<lambda>_ w. (NoAnswer, w)), nt_profile = (\<lambda>_ w. (NoAnswer, w)),
       nt_quota = (\<lambda>_ w. (NoAnswer, w))\<rparr>,
     pe_SignInURL = ''https://claude.ai/'', pe_OpenURL = (\<lambda>_. True), pe_Base64 = Some, pe_CopyImage = (\<lambda>_. True), pe_Wait = (\<lambda>w. (Inl WaitTimeout, w))\<rparr>"

lemma page_is_confined_witness:
  "ap_Opened (fst (snd (page_serve demo_page DoOpenRelease demo_app ()))) = [''https://example.org/v2''] \<and>
   list_all (allowed_url demo_page demo_app) [''https://example.org/v2'']"
proof -
  have "windows_ok (Run_desktop 0 (0, 0) (sh_Prefs demo_shell))" "dk_Prefs (Run_desktop 0 (0, 0) (sh_Prefs demo_shell)) = sh_Prefs demo_shell"
    using Run_ok by blast+
  moreover have "d\<lparr>dk_Prefs := dk_Prefs d\<rparr> = d" for d :: desktop by simp
  ultimately have start: "app_ok demo_app" unfolding app_ok_def demo_app_def by (simp, metis)
  obtain r a w where step: "page_serve demo_page DoOpenRelease demo_app () = (r, a, w)" by (rule prod_cases3)
  from page_is_confined[OF start page_run.simps(1) this] obtain urls where "ap_Opened a = ap_Opened demo_app @ urls" "list_all (allowed_url demo_page demo_app) urls"
    by blast
  moreover have "ap_Opened demo_app = []" by (simp add: demo_app_def)
  moreover have "ap_Opened (fst (snd (page_serve demo_page DoOpenRelease demo_app ()))) = [''https://example.org/v2'']"
    by (simp add: demo_app_def demo_page_def OpenReleasePage_def app_state_def State_def Let_def open_url_def)
  ultimately show ?thesis using step by simp
qed

end
