(* ===== verification/AdminFormat.thy ===== *)
theory AdminFormat
  imports Quota LogFiles
begin

text \<open>
  How the admin console writes figures and names (\<open>internal/server/admin\<close>: the template functions of
  \<open>admin.go\<close>, \<open>bucketName\<close>, \<open>modelName\<close> and \<open>niceTop\<close> of \<open>view.go\<close>). The dictionary of the page's
  language is the argument \<open>t\<close>, a map from keys to texts.
\<close>

section \<open>Numbers\<close>

text \<open>\<open>strconv.FormatFloat(v, 'f', d, 64)\<close> rounds halves to even, \<open>math.Round\<close> away from zero.\<close>

definition round_even :: "f64 \<Rightarrow> int" where
  "round_even x = (let f = \<lfloor>x\<rfloor>; r = x - of_int f in if r < 1 / 2 then f else if r > 1 / 2 then f + 1 else if even f then f else f + 1)"

definition round_away :: "f64 \<Rightarrow> int" where
  "round_away x = (if x < 0 then - \<lfloor>- x + 1 / 2\<rfloor> else \<lfloor>x + 1 / 2\<rfloor>)"

definition pad_zeros :: "nat \<Rightarrow> string \<Rightarrow> string" where
  "pad_zeros n s = replicate (n - length s) CHR ''0'' @ s"

definition format_fixed :: "f64 \<Rightarrow> nat \<Rightarrow> string" where
  "format_fixed v d =
     (let s = pad_zeros (Suc d) (decimal (round_even (\<bar>v\<bar> * 10 ^ d))); w = length s - d
      in (if v < 0 then ''-'' else []) @ take w s @ (if d = 0 then [] else CHR ''.'' # drop w s))"

definition percent :: "f64 \<Rightarrow> string" where
  "percent v = (if 0 < v \<and> v < 1 then ''<1%'' else decimal (round_away v) @ ''%'')"

definition compactTokens :: "int \<Rightarrow> string" where
  "compactTokens n =
     (if n \<ge> 1000000000 then format_fixed (of_int n / 1000000000) 1 @ ''B''
      else if n \<ge> 1000000 then format_fixed (of_int n / 1000000) 1 @ ''M''
      else if n \<ge> 1000 then format_fixed (of_int n / 1000) 1 @ ''K''
      else decimal n)"

definition width :: "f64 \<Rightarrow> string" where
  "width v = format_fixed (max 0 (min 100 v)) 2 @ ''%''"

text \<open>Commas between the thousands, from the right.\<close>

function add_commas :: "string \<Rightarrow> int \<Rightarrow> string" where
  "add_commas s i = (if i > 0 then add_commas (take (nat i) s @ '','' @ drop (nat i) s) (i - 3) else s)"
  by pat_completeness auto
termination by (relation "measure (\<lambda>(s, i). nat i)") auto

declare add_commas.simps [simp del]

definition usd :: "f64 \<Rightarrow> string" where
  "usd v =
     (let digits = (if v < 100 then 2 else 0);
          (s, frac, found) = cut_at (format_fixed v digits) CHR ''.'';
          s = add_commas s (int (length s) - 3)
      in ''US$'' @ (if frac \<noteq> [] then s @ ''.'' @ frac else s))"

text \<open>The top of an axis: 1, 2 or 5 times a power of ten.\<close>

function pow10_below :: "int \<Rightarrow> int" where
  "pow10_below n = (if n < 10 then 1 else 10 * pow10_below (n div 10))"
  by pat_completeness auto
termination by (relation "measure nat") auto

declare pow10_below.simps [simp del]

definition niceTop :: "int \<Rightarrow> int" where
  "niceTop peak =
     (if peak \<le> 0 then 1
      else let step = pow10_below peak in
        case filter (\<lambda>k. wrap64 (k * step) \<ge> peak) [1, 2, 5, 10] of k # _ \<Rightarrow> wrap64 (k * step) | [] \<Rightarrow> wrap64 (10 * step))"

section \<open>Names\<close>

definition providerName :: "string \<Rightarrow> string" where
  "providerName p = (if p = ''anthropic'' then ''Claude'' else if p = ''openai'' then ''Codex''
     else if p = ''google'' then ''Antigravity'' else p)"

definition upper_char :: "char \<Rightarrow> char" where
  "upper_char c = (if CHR ''a'' \<le> c \<and> c \<le> CHR ''z'' then char_of (of_char c - 32 :: nat) else c)"

definition capitalise :: "string \<Rightarrow> string" where
  "capitalise s = map upper_char (take 1 s) @ drop 1 s"

function fields_by :: "(char \<Rightarrow> bool) \<Rightarrow> string \<Rightarrow> string list" where
  "fields_by sep s =
     (let t = dropWhile sep s in
      if t = [] then [] else takeWhile (\<lambda>c. \<not> sep c) t # fields_by sep (dropWhile (\<lambda>c. \<not> sep c) t))"
  by pat_completeness auto
termination
proof (relation "measure (\<lambda>(sep, s). length s)", goal_cases)
  case 1
  then show ?case by simp
next
  case (2 sep s t)
  obtain c cs where t: "t = c # cs" using 2(2) by (meson neq_Nil_conv)
  then have "\<not> sep c" using 2(1) by (metis dropWhile_eq_Cons_conv)
  then have "length (dropWhile (\<lambda>c. \<not> sep c) t) \<le> length cs" using t by (simp add: length_dropWhile_le)
  moreover have "length t \<le> length s" using 2(1) by (simp add: length_dropWhile_le)
  ultimately show ?case using t by simp
qed

declare fields_by.simps [simp del]

definition code_key :: "string \<Rightarrow> string \<Rightarrow> string" where
  "code_key pre code = pre @ concat (map capitalise (fields_by (\<lambda>c. c = CHR ''_'' \<or> c = CHR ''-'') code))"

definition codeText :: "(string, string) gomap \<Rightarrow> string \<Rightarrow> string \<Rightarrow> string" where
  "codeText t pre code = (case map_of t (code_key pre code) of Some text \<Rightarrow> text | None \<Rightarrow> code)"

text \<open>A text of the dictionary with its verb filled in.\<close>

fun fill :: "string \<Rightarrow> string \<Rightarrow> string" where
  "fill [] arg = []"
| "fill (c # s) arg = (if c = CHR ''%'' \<and> has_prefix s ''d'' then arg @ drop 1 s else c # fill s arg)"

definition middot :: string where "middot = [CHR '' '', CHR 0xC2, CHR 0xB7, CHR '' '']"

definition bucketName :: "string \<Rightarrow> int \<Rightarrow> (string, string) gomap \<Rightarrow> string" where
  "bucketName key minutes t =
     (let text = get_or [] t in
      if key = BucketFiveHour then text ''fiveHour''
      else if key = BucketWeekly then text ''weekly''
      else if ModelFamily key \<noteq> []
      then (if has_prefix key BucketFiveHour then text ''fiveHour'' else text ''weekly'') @ middot @ capitalise (ModelFamily key)
      else if minutes > 0 \<and> minutes mod 1440 = 0 then fill (text ''days'') (decimal (minutes div 1440))
      else if minutes > 0 \<and> minutes mod 60 = 0 then fill (text ''hours'') (decimal (minutes div 60))
      else fill (text ''minutes'') (decimal minutes))"

text \<open>The first \<open>--\<close> with something before and after it.\<close>

fun split_dashes :: "string \<Rightarrow> string \<Rightarrow> (string \<times> string) option" where
  "split_dashes pre [] = None"
| "split_dashes pre (c # s) =
     (if pre \<noteq> [] \<and> has_prefix (c # s) ''--'' \<and> drop 1 s \<noteq> [] then Some (pre, drop 1 s) else split_dashes (pre @ [c]) s)"

text \<open>The two patterns of routed models; the dot of a pattern matches no line break.\<close>

definition openCodexClaudeModel :: "string \<Rightarrow> (string \<times> string) option" where
  "openCodexClaudeModel i =
     (let rest = (case cut_prefix i ''ocx-claude-'' of Some r \<Rightarrow> Some r | None \<Rightarrow> cut_prefix i ''claude-ocx-'')
      in case rest of None \<Rightarrow> None | Some r \<Rightarrow> if newline \<in> set r then None else split_dashes [] r)"

definition openCodexCodexModel :: "string \<Rightarrow> (string \<times> string) option" where
  "openCodexCodexModel i =
     (let (service, model, found) = cut_at i CHR ''/'' in
      if found \<and> service \<noteq> [] \<and> model \<noteq> [] \<and> newline \<notin> set model then Some (service, model) else None)"

definition gatewayTags :: "(string, string \<times> string) gomap" where
  "gatewayTags = [(GatewayOpenCodex, (''OCX'', ''OpenCodex'')), (GatewayOllama, (''Ollama'', ''Ollama''))]"

text \<open>The name, the tag of the gateway and the title.\<close>

definition modelName :: "string \<Rightarrow> string \<Rightarrow> string \<times> string \<times> string" where
  "modelName i gateway =
     (let m = (case openCodexClaudeModel i of Some m \<Rightarrow> Some m
                 | None \<Rightarrow> if gateway = GatewayOpenCodex then openCodexCodexModel i else None);
          gateway = (if m \<noteq> None then GatewayOpenCodex else gateway)
      in case map_of gatewayTags gateway of
          None \<Rightarrow> (i, [], i)
        | Some (tag, name) \<Rightarrow>
            (case m of None \<Rightarrow> (i, tag, name @ middot @ i)
             | Some (service, model) \<Rightarrow> (model, tag, name @ middot @ service @ middot @ i)))"

section \<open>What holds of them\<close>

lemma add_commas_digits: "filter (\<lambda>c. c \<noteq> CHR '','') (add_commas s i) = filter (\<lambda>c. c \<noteq> CHR '','') s"
proof (induction s i rule: add_commas.induct)
  case (1 s i)
  have "filter P (take (nat i) s @ '','' @ drop (nat i) s) = filter P s" if "\<not> P CHR '',''" for P
    using that by (metis append_Cons append_Nil append_take_drop_id filter.simps(2) filter_append)
  then show ?case using 1 by (subst add_commas.simps) simp
qed

lemma pow10_below: "0 < n \<Longrightarrow> 0 < pow10_below n \<and> pow10_below n \<le> n \<and> n < 10 * pow10_below n"
proof (induction n rule: pow10_below.induct)
  case (1 n)
  show ?case
  proof (cases "n < 10")
    case False
    then have "0 < n div 10" by simp
    then have "0 < pow10_below (n div 10) \<and> pow10_below (n div 10) \<le> n div 10 \<and> n div 10 < 10 * pow10_below (n div 10)"
      using 1 False by blast
    then show ?thesis using False by (subst (1 2 3) pow10_below.simps) auto
  qed (use 1 in \<open>simp add: pow10_below.simps\<close>)
qed

text \<open>The axis reaches the peak, and is less than two and a half times as high.\<close>

lemma niceTop_covers:
  assumes "0 < peak" "peak \<le> 10 ^ 17"
  shows "peak \<le> niceTop peak \<and> 2 * niceTop peak < 5 * peak + 1"
proof -
  have p: "0 < pow10_below peak" "pow10_below peak \<le> peak" "peak < 10 * pow10_below peak" using pow10_below assms(1) by auto
  have w: "wrap64 (k * pow10_below peak) = k * pow10_below peak" if "0 \<le> k" "k \<le> 10" for k
  proof -
    have "k * pow10_below peak \<le> 10 * 10 ^ 17" using that p assms(2) by (intro mult_mono) auto
    moreover have "0 \<le> k * pow10_below peak" using that p by simp
    ultimately show ?thesis by (intro wrap64_id) simp_all
  qed
  show ?thesis using p w[of 1] by (auto simp: niceTop_def Let_def w assms not_le)
qed

text \<open>A routed model is read back: the service and the model it was listed with.\<close>

lemma openCodexCodexModel_read:
  assumes "service \<noteq> []" "CHR ''/'' \<notin> set service" "model \<noteq> []" "newline \<notin> set model"
    and "openCodexClaudeModel (service @ CHR ''/'' # model) = None"
  shows "modelName (service @ CHR ''/'' # model) GatewayOpenCodex =
    (model, ''OCX'', ''OpenCodex'' @ middot @ service @ middot @ service @ CHR ''/'' # model)"
  using assms cut_at_found[of "CHR ''/''" service model]
  by (simp add: modelName_def openCodexCodexModel_def gatewayTags_def)

end
