(* ===== verification/AdminChart.thy ===== *)
theory AdminChart
  imports AdminFormat ServerStore
begin

text \<open>
  \<open>newChart\<close> of \<open>internal/server/admin/view.go\<close>: the chart of a timeline, a line per model over about
  sixty points, as amounts and as running totals. Positions are percentages of the width. The
  JSON of the bars is the record it encodes.
\<close>

section \<open>Series\<close>

definition chartWidth :: f64 where "chartWidth = 1000"
definition chartHeight :: f64 where "chartHeight = 100"
definition chartPoints :: int where "chartPoints = 60"
definition modelSlots :: int where "modelSlots = 4"

definition slotFor :: "int \<Rightarrow> string" where
  "slotFor rank = (if rank < modelSlots then decimal (rank + 1) else ''o'')"

definition modelKey :: "string \<Rightarrow> string \<Rightarrow> string" where
  "modelKey model gateway = gateway @ [CHR 0x00] @ model"

record chart_series =
  cs_Model :: string
  cs_Gateway :: string
  cs_Third :: bool
  cs_Rank :: int
  cs_PerBin :: "int list"

definition series_key :: "bool \<Rightarrow> string \<Rightarrow> string \<Rightarrow> string" where
  "series_key third model gateway = FormatBool third @ [CHR 0x00] @ modelKey model gateway"

abbreviation cs_Key :: "chart_series \<Rightarrow> string" where
  "cs_Key s \<equiv> series_key (cs_Third s) (cs_Model s) (cs_Gateway s)"

abbreviation tp_Key :: "timeline_point \<Rightarrow> string" where
  "tp_Key p \<equiv> series_key (tp_ThirdParty p) (tp_Model p) (tp_Gateway p)"

text \<open>\<open>slices.Index\<close>, and the length of the legend when the model is not in it.\<close>

definition legend_rank :: "string list \<Rightarrow> string \<Rightarrow> int" where
  "legend_rank legend key = int (length (takeWhile (\<lambda>k. k \<noteq> key) legend))"

definition new_series :: "string list \<Rightarrow> string list \<Rightarrow> nat \<Rightarrow> timeline_point \<Rightarrow> chart_series" where
  "new_series quotaKeys thirdKeys lastBin p =
     \<lparr>cs_Model = tp_Model p, cs_Gateway = tp_Gateway p, cs_Third = tp_ThirdParty p,
      cs_Rank = legend_rank (if tp_ThirdParty p then thirdKeys else quotaKeys) (modelKey (tp_Model p) (tp_Gateway p)),
      cs_PerBin = replicate (Suc lastBin) 0\<rparr>"

definition add_tokens :: "timeline_point \<Rightarrow> chart_series \<Rightarrow> chart_series" where
  "add_tokens p s =
     (let b = nat (tp_Bin p) in s\<lparr>cs_PerBin := (cs_PerBin s)[b := wrap64 (cs_PerBin s ! b + tp_Tokens p)]\<rparr>)"

definition add_point :: "string list \<Rightarrow> string list \<Rightarrow> nat \<Rightarrow> timeline_point \<Rightarrow> chart_series list \<Rightarrow> chart_series list" where
  "add_point quotaKeys thirdKeys lastBin p ss =
     (if tp_Bin p < 0 \<or> tp_Bin p > int lastBin then ss
      else let ss = (if \<exists>s \<in> set ss. cs_Key s = tp_Key p then ss else ss @ [new_series quotaKeys thirdKeys lastBin p])
           in map (\<lambda>s. if cs_Key s = tp_Key p then add_tokens p s else s) ss)"

definition series_before :: "chart_series \<Rightarrow> chart_series \<Rightarrow> bool" where
  "series_before a b = (if cs_Third a \<noteq> cs_Third b then \<not> cs_Third a else cs_Rank a < cs_Rank b)"

definition chart_series_of :: "string list \<Rightarrow> string list \<Rightarrow> nat \<Rightarrow> timeline_point list \<Rightarrow> chart_series list" where
  "chart_series_of quotaKeys thirdKeys lastBin ps = sort_by series_before (fold (add_point quotaKeys thirdKeys lastBin) ps [])"

section \<open>Points\<close>

definition quot :: "int \<Rightarrow> int \<Rightarrow> int" where
  "quot a b = (if a < 0 then - ((- a) div b) else a div b)"

text \<open>The point \<open>p\<close> covers the bins from \<open>point_from\<close> up to, and without, \<open>point_end\<close>.\<close>

definition point_from :: "nat \<Rightarrow> nat \<Rightarrow> nat" where "point_from grp p = p * grp"
definition point_end :: "nat \<Rightarrow> nat \<Rightarrow> nat \<Rightarrow> nat" where "point_end grp lastBin p = min (Suc p * grp) (Suc lastBin)"

definition sum64 :: "int list \<Rightarrow> int" where
  "sum64 xs = fold (\<lambda>v total. wrap64 (total + v)) xs 0"

definition amounts :: "nat \<Rightarrow> nat \<Rightarrow> int list \<Rightarrow> int list" where
  "amounts grp lastBin perBin =
     map (\<lambda>p. sum64 (take (point_end grp lastBin p - point_from grp p) (drop (point_from grp p) perBin)))
       [0..<Suc (lastBin div grp)]"

text \<open>The running total, from zero again at a bin where a window reset.\<close>

fun running :: "int list \<Rightarrow> int \<Rightarrow> int \<Rightarrow> int list \<Rightarrow> int list" where
  "running resets bin acc [] = []"
| "running resets bin acc (v # vs) =
     (let acc = wrap64 ((if bin \<in> set resets then 0 else acc) + v) in acc # running resets (bin + 1) acc vs)"

definition totals :: "nat \<Rightarrow> nat \<Rightarrow> int list \<Rightarrow> int list \<Rightarrow> int list" where
  "totals grp lastBin resets perBin =
     map (\<lambda>p. running resets 0 0 perBin ! (point_end grp lastBin p - 1)) [0..<Suc (lastBin div grp)]"

section \<open>The chart\<close>

record chart_line =
  li_Path :: string
  li_Slot :: string
  li_Dashed :: bool

record chart_tip_row =
  tr_Tokens :: string
  tr_Name :: string
  tr_Via :: string
  tr_Slot :: string
  tr_Dashed :: bool

record chart_point =
  ct_X :: f64
  ct_W :: f64
  ct_Mid :: f64
  ct_At :: time
  ct_Until :: "time option"
  ct_Rows :: "chart_tip_row list"

record chart_mode =
  cm_Lines :: "chart_line list"
  cm_Top :: int
  cm_Points :: "chart_point list"

record chart_mark =
  mk_X :: f64
  mk_At :: time

record bar_series =
  bs_Slot :: string
  bs_Dashed :: bool
  bs_Name :: string
  bs_Via :: string
  bs_PerBin :: "int list"

record chart_bars =
  cb_Start :: time
  cb_BinMs :: int
  cb_Bins :: int
  cb_Last :: int
  cb_Days :: bool
  cb_Series :: "bar_series list"

record chart_view =
  cv_Amount :: chart_mode
  cv_Cumulative :: chart_mode
  cv_Resets :: "chart_mark list"
  cv_Ticks :: "time list"
  cv_TickFormat :: string
  cv_TimeFormat :: string
  cv_Bars :: chart_bars

text \<open>The scale of a chart: bins across, bins per point, the last bin up to now.\<close>

record chart_scale =
  sl_Start :: time
  sl_Bin :: duration
  sl_Bins :: int
  sl_Group :: nat
  sl_Last :: nat
  sl_Now :: time

definition chart_x :: "chart_scale \<Rightarrow> f64 \<Rightarrow> f64" where
  "chart_x sl bin = bin / of_int (sl_Bins sl) * 100"

definition chart_at :: "chart_scale \<Rightarrow> nat \<Rightarrow> time" where
  "chart_at sl bin = min (sl_Start sl + wrap64 (int bin * sl_Bin sl)) (sl_Now sl)"

definition chart_px :: "chart_scale \<Rightarrow> bool \<Rightarrow> nat \<Rightarrow> f64" where
  "chart_px sl cumulative p =
     (let f = point_from (sl_Group sl) p; e = point_end (sl_Group sl) (sl_Last sl) p
      in if cumulative then chart_x sl (of_nat e) else chart_x sl (of_nat (f + e) / 2))"

definition chart_y :: "int \<Rightarrow> int \<Rightarrow> f64" where
  "chart_y tp v = chartHeight - of_int v / of_int (max tp 1) * (chartHeight - 4) - 1"

definition line_of :: "chart_scale \<Rightarrow> bool \<Rightarrow> int \<Rightarrow> chart_series \<times> int list \<Rightarrow> chart_line" where
  "line_of sl cumulative tp sv =
     \<lparr>li_Path = concat (map (\<lambda>(p, v). (if p = 0 then ''M'' else ''L'') @ format_fixed (chart_px sl cumulative p * chartWidth / 100) 1 @ '','' @
        format_fixed (chart_y tp v) 1) (enumerate 0 (snd sv))),
      li_Slot = slotFor (cs_Rank (fst sv)), li_Dashed = cs_Third (fst sv)\<rparr>"

definition tip_row :: "nat \<Rightarrow> chart_series \<times> int list \<Rightarrow> chart_tip_row list" where
  "tip_row p sv =
     (let v = snd sv ! p; (name, via, title) = modelName (cs_Model (fst sv)) (cs_Gateway (fst sv))
      in if v > 0 then [\<lparr>tr_Tokens = compactTokens v, tr_Name = name, tr_Via = via, tr_Slot = slotFor (cs_Rank (fst sv)),
           tr_Dashed = cs_Third (fst sv)\<rparr>] else [])"

definition point_of :: "chart_scale \<Rightarrow> bool \<Rightarrow> (chart_series \<times> int list) list \<Rightarrow> nat \<Rightarrow> chart_point" where
  "point_of sl cumulative values p =
     (let f = point_from (sl_Group sl) p; e = point_end (sl_Group sl) (sl_Last sl) p;
          start = chart_at sl f; until = chart_at sl e
      in \<lparr>ct_X = chart_x sl (of_nat f), ct_W = chart_x sl (of_nat (e - f)), ct_Mid = chart_px sl cumulative p,
          ct_At = (if cumulative then until else start),
          ct_Until = (if \<not> cumulative \<and> time_sub until start > sl_Bin sl then Some until else None),
          ct_Rows = concat (map (tip_row p) values)\<rparr>)"

definition chart_mode_of :: "chart_scale \<Rightarrow> bool \<Rightarrow> (chart_series \<times> int list) list \<Rightarrow> chart_mode" where
  "chart_mode_of sl cumulative values =
     (let peak = fold (\<lambda>(s, vs) peak. fold max vs peak) values 0;
          tp = (if peak > 0 then niceTop peak else 0)
      in \<lparr>cm_Lines = map (line_of sl cumulative tp) values, cm_Top = tp,
          cm_Points = map (point_of sl cumulative values) [0..<Suc (sl_Last sl div sl_Group sl)]\<rparr>)"

definition bars_of :: "chart_series \<Rightarrow> bar_series" where
  "bars_of s = (let (name, via, title) = modelName (cs_Model s) (cs_Gateway s)
     in \<lparr>bs_Slot = slotFor (cs_Rank s), bs_Dashed = cs_Third s, bs_Name = name, bs_Via = via, bs_PerBin = cs_PerBin s\<rparr>)"

definition newChart :: "timeline \<Rightarrow> string list \<Rightarrow> string list \<Rightarrow> time \<Rightarrow> chart_view option" where
  "newChart tline quotaKeys thirdKeys now =
     (let binDur = wrap64 (tl_BinMinutes tline * minute); start = tl_Start tline in
      if tl_Bins tline \<le> 0 \<or> binDur \<le> 0 then None
      else let lastBin = nat (min (tl_Bins tline - 1) (max 0 (quot (time_sub now start) binDur)));
               grp = nat (max 1 (quot (tl_Bins tline + chartPoints - 1) chartPoints));
               sl = \<lparr>sl_Start = start, sl_Bin = binDur, sl_Bins = tl_Bins tline, sl_Group = grp, sl_Last = lastBin, sl_Now = now\<rparr>;
               resetBins = map (\<lambda>r. quot (time_sub r start) binDur) (tl_Resets tline);
               ss = chart_series_of quotaKeys thirdKeys lastBin (tl_Points tline);
               span = wrap64 (tl_Bins tline * binDur);
               days = tl_Bins tline * tl_BinMinutes tline > 1440
           in Some \<lparr>cv_Amount = chart_mode_of sl False (map (\<lambda>s. (s, amounts grp lastBin (cs_PerBin s))) ss),
                cv_Cumulative = chart_mode_of sl True (map (\<lambda>s. (s, totals grp lastBin resetBins (cs_PerBin s))) ss),
                cv_Resets = map (\<lambda>r. \<lparr>mk_X = of_int (time_sub r start) / of_int span * 100, mk_At = r\<rparr>) (tl_Resets tline),
                cv_Ticks = [start, start + quot span 2, start + span],
                cv_TickFormat = (if days then ''day'' else ''clock''), cv_TimeFormat = (if days then ''dayclock'' else ''clock''),
                cv_Bars = \<lparr>cb_Start = start, cb_BinMs = quot binDur 1000000, cb_Bins = tl_Bins tline, cb_Last = int lastBin, cb_Days = days,
                  cb_Series = map bars_of ss\<rparr>\<rparr>)"

section \<open>A chart shows what was used\<close>

interpretation by_series: strict_weak series_before
  by unfold_locales (auto simp: series_before_def split: if_splits)

lemma sum64_wrap: "sum64 xs = wrap64 (sum_list xs)"
proof (induction xs rule: rev_induct)
  case (snoc x xs)
  then show ?case by (simp add: sum64_def wrap64_add_left)
qed (simp add: sum64_def)

lemma sum_list_change:
  fixes xs :: "int list"
  shows "i < length xs \<Longrightarrow> sum_list (xs[i := y]) = sum_list xs - xs ! i + y"
  by (induction xs arbitrary: i) (auto split: nat.split)

text \<open>Each series holds, summed over its bins, the tokens of its points up to now.\<close>

definition own_points :: "nat \<Rightarrow> string \<Rightarrow> timeline_point list \<Rightarrow> timeline_point list" where
  "own_points lastBin key = filter (\<lambda>p. 0 \<le> tp_Bin p \<and> tp_Bin p \<le> int lastBin \<and> tp_Key p = key)"

definition series_ok :: "nat \<Rightarrow> timeline_point list \<Rightarrow> chart_series \<Rightarrow> bool" where
  "series_ok lastBin ps s \<longleftrightarrow> length (cs_PerBin s) = Suc lastBin \<and>
     wrap64 (sum_list (cs_PerBin s)) = wrap64 (sum_list (map tp_Tokens (own_points lastBin (cs_Key s) ps)))"

lemma add_tokens_simps [simp]:
  "cs_Third (add_tokens p s) = cs_Third s" "cs_Model (add_tokens p s) = cs_Model s" "cs_Gateway (add_tokens p s) = cs_Gateway s"
  "cs_Rank (add_tokens p s) = cs_Rank s" "length (cs_PerBin (add_tokens p s)) = length (cs_PerBin s)"
  by (simp_all add: add_tokens_def Let_def)

lemma add_tokens_sum:
  assumes "0 \<le> tp_Bin p" "tp_Bin p \<le> int lastBin" "length (cs_PerBin s) = Suc lastBin"
  shows "wrap64 (sum_list (cs_PerBin (add_tokens p s))) = wrap64 (sum_list (cs_PerBin s) + tp_Tokens p)"
proof -
  let ?b = "nat (tp_Bin p)"
  have "?b < length (cs_PerBin s)" using assms by linarith
  then have "sum_list (cs_PerBin (add_tokens p s)) =
      sum_list (cs_PerBin s) - cs_PerBin s ! ?b + wrap64 (cs_PerBin s ! ?b + tp_Tokens p)"
    by (simp add: add_tokens_def Let_def sum_list_change)
  then show ?thesis by (simp add: wrap64_push)
qed

lemma add_point_ok:
  assumes "\<forall>s \<in> set ss. series_ok lastBin ps s" "\<forall>p \<in> set ps. 0 \<le> tp_Bin p \<and> tp_Bin p \<le> int lastBin \<longrightarrow> tp_Key p \<in> cs_Key ` set ss"
  shows "\<forall>s \<in> set (add_point qk tk lastBin p ss). series_ok lastBin (ps @ [p]) s"
proof (cases "tp_Bin p < 0 \<or> tp_Bin p > int lastBin")
  case True
  then show ?thesis using assms(1) by (auto simp: add_point_def series_ok_def own_points_def)
next
  case False
  have fresh: "series_ok lastBin ps (new_series qk tk lastBin p)" if "tp_Key p \<notin> cs_Key ` set ss"
  proof -
    have "own_points lastBin (tp_Key p) ps = []" using assms(2) that unfolding own_points_def filter_empty_conv by metis
    then show ?thesis by (simp add: series_ok_def new_series_def sum_list_replicate)
  qed
  let ?ss = "if \<exists>s \<in> set ss. cs_Key s = tp_Key p then ss else ss @ [new_series qk tk lastBin p]"
  have all: "\<forall>s \<in> set ?ss. series_ok lastBin ps s"
  proof (cases "\<exists>s \<in> set ss. cs_Key s = tp_Key p")
    case False
    then have "tp_Key p \<notin> cs_Key ` set ss" by (metis (no_types, lifting) imageE)
    then show ?thesis using False fresh assms(1) by simp
  qed (use assms(1) in simp)
  have "series_ok lastBin (ps @ [p]) (if cs_Key s = tp_Key p then add_tokens p s else s)" if "s \<in> set ?ss" for s
  proof -
    have s: "series_ok lastBin ps s" using all that by blast
    show ?thesis
    proof (cases "cs_Key s = tp_Key p")
      case True
      have "wrap64 (sum_list (cs_PerBin (add_tokens p s))) = wrap64 (wrap64 (sum_list (cs_PerBin s)) + tp_Tokens p)"
        using add_tokens_sum[of p lastBin s] False s unfolding series_ok_def by (metis leI wrap64_add_left)
      also have "\<dots> = wrap64 (sum_list (map tp_Tokens (own_points lastBin (cs_Key s) ps)) + tp_Tokens p)"
        using s unfolding series_ok_def by (metis wrap64_add_left)
      finally show ?thesis using s True False by (simp add: series_ok_def own_points_def)
    next
      case other: False
      then have "own_points lastBin (cs_Key s) (ps @ [p]) = own_points lastBin (cs_Key s) ps" by (auto simp: own_points_def)
      then show ?thesis using s other by (simp add: series_ok_def)
    qed
  qed
  moreover have "add_point qk tk lastBin p ss = map (\<lambda>s. if cs_Key s = tp_Key p then add_tokens p s else s) ?ss"
    unfolding add_point_def Let_def using False by (simp only: if_False)
  ultimately show ?thesis by (simp only: set_map ball_simps) blast
qed

lemma add_point_keys:
  "cs_Key ` set (add_point qk tk lastBin p ss) =
   (if 0 \<le> tp_Bin p \<and> tp_Bin p \<le> int lastBin then insert (tp_Key p) (cs_Key ` set ss) else cs_Key ` set ss)"
  "distinct (map cs_Key ss) \<Longrightarrow> distinct (map cs_Key (add_point qk tk lastBin p ss))"
proof -
  have keys: "map cs_Key (map (\<lambda>s. if cs_Key s = tp_Key p then add_tokens p s else s) ss) = map cs_Key ss" for ss
    by simp
  have new: "cs_Key (new_series qk tk lastBin p) = tp_Key p" by (simp add: new_series_def)
  let ?ss = "if \<exists>s \<in> set ss. cs_Key s = tp_Key p then ss else ss @ [new_series qk tk lastBin p]"
  have ap: "map cs_Key (add_point qk tk lastBin p ss) =
      (if 0 \<le> tp_Bin p \<and> tp_Bin p \<le> int lastBin then map cs_Key ?ss else map cs_Key ss)"
    unfolding add_point_def Let_def using keys by simp
  then have "cs_Key ` set (add_point qk tk lastBin p ss) =
      (if 0 \<le> tp_Bin p \<and> tp_Bin p \<le> int lastBin then cs_Key ` set ?ss else cs_Key ` set ss)"
    by (metis (no_types, lifting) list.set_map)
  then show "cs_Key ` set (add_point qk tk lastBin p ss) =
      (if 0 \<le> tp_Bin p \<and> tp_Bin p \<le> int lastBin then insert (tp_Key p) (cs_Key ` set ss) else cs_Key ` set ss)"
    using new by (cases "\<exists>s \<in> set ss. cs_Key s = tp_Key p") (simp_all, metis (no_types, lifting) image_eqI insert_absorb)
  show "distinct (map cs_Key ss) \<Longrightarrow> distinct (map cs_Key (add_point qk tk lastBin p ss))"
    using ap new by (cases "\<exists>s \<in> set ss. cs_Key s = tp_Key p") (simp_all, metis (no_types, lifting) imageE)
qed

lemma chart_series_ok:
  fixes qk tk :: "string list" and lastBin :: nat
  defines "added \<equiv> \<lambda>ps. fold (add_point qk tk lastBin) ps []"
  shows "distinct (map cs_Key (added ps)) \<and> cs_Key ` set (added ps) = tp_Key ` {p \<in> set ps. 0 \<le> tp_Bin p \<and> tp_Bin p \<le> int lastBin} \<and>
    (\<forall>s \<in> set (added ps). series_ok lastBin ps s)"
proof (induction ps rule: rev_induct)
  case (snoc p ps)
  have step: "added (ps @ [p]) = add_point qk tk lastBin p (added ps)" by (simp add: added_def)
  have "\<forall>q \<in> set ps. 0 \<le> tp_Bin q \<and> tp_Bin q \<le> int lastBin \<longrightarrow> tp_Key q \<in> cs_Key ` set (added ps)" using snoc by auto
  then have "\<forall>s \<in> set (added (ps @ [p])). series_ok lastBin (ps @ [p]) s"
    unfolding step by (rule add_point_ok[rotated]) (use snoc in simp)
  moreover have "cs_Key ` set (added (ps @ [p])) = tp_Key ` {q \<in> set (ps @ [p]). 0 \<le> tp_Bin q \<and> tp_Bin q \<le> int lastBin}"
    unfolding step add_point_keys(1) using snoc by (auto split: if_splits)
  moreover have "distinct (map cs_Key (added (ps @ [p])))" unfolding step by (rule add_point_keys(2)) (use snoc in simp)
  ultimately show ?case by simp
qed (simp add: added_def)

text \<open>The points cut the bins: their spans follow each other and cover all of them.\<close>

lemma spans_cover:
  assumes "0 < grp" "length xs = Suc lastBin" "k \<le> Suc (lastBin div grp)"
  shows "concat (map (\<lambda>p. take (point_end grp lastBin p - point_from grp p) (drop (point_from grp p) xs)) [0..<k]) =
    take (min (k * grp) (Suc lastBin)) xs"
  using assms(3)
proof (induction k)
  case (Suc k)
  then have "k * grp \<le> lastBin" using assms(1) by (metis Suc_le_mono div_times_less_eq_dividend le_trans mult_le_mono1)
  then have from': "min (k * grp) (Suc lastBin) = point_from grp k" by (simp add: point_from_def)
  have "point_from grp k \<le> point_end grp lastBin k" using \<open>k * grp \<le> lastBin\<close> by (simp add: point_from_def point_end_def)
  then have "take (point_from grp k) xs @ take (point_end grp lastBin k - point_from grp k) (drop (point_from grp k) xs) =
      take (point_end grp lastBin k) xs"
    by (metis le_add_diff_inverse take_add)
  then show ?case using Suc from' by (simp add: point_end_def)
qed simp

lemma sum64_concat: "sum64 (map sum64 xss) = sum64 (concat xss)"
proof -
  have "wrap64 (sum_list (map (\<lambda>xs. wrap64 (sum_list xs)) xss)) = wrap64 (sum_list (concat xss))" for xss :: "int list list"
  proof (induction xss)
    case (Cons xs xss)
    have "wrap64 (wrap64 (sum_list xs) + sum_list (map (\<lambda>xs. wrap64 (sum_list xs)) xss)) =
        wrap64 (sum_list xs + wrap64 (sum_list (map (\<lambda>xs. wrap64 (sum_list xs)) xss)))"
      by (simp add: wrap64_add_left wrap64_add_right)
    then show ?case by (simp add: Cons wrap64_add_right)
  qed simp
  moreover have "sum64 = (\<lambda>xs. wrap64 (sum_list xs))" using sum64_wrap by blast
  ultimately show ?thesis by (metis (no_types, lifting) sum64_wrap)
qed

lemma amounts_sum:
  assumes "0 < grp" "length xs = Suc lastBin"
  shows "sum64 (amounts grp lastBin xs) = sum64 xs"
proof -
  have "amounts grp lastBin xs = map sum64 (map (\<lambda>p. take (point_end grp lastBin p - point_from grp p) (drop (point_from grp p) xs))
      [0..<Suc (lastBin div grp)])" by (simp add: amounts_def)
  then have "sum64 (amounts grp lastBin xs) = sum64 (take (min (Suc (lastBin div grp) * grp) (Suc lastBin)) xs)"
    using spans_cover[OF assms, of "Suc (lastBin div grp)"] by (simp only: sum64_concat)
  moreover have "Suc lastBin \<le> Suc (lastBin div grp) * grp"
    using assms(1) by (metis Suc_leI dividend_less_div_times mult_Suc add.commute)
  ultimately show ?thesis using assms(2) by (simp add: min_absorb2)
qed

text \<open>
  C30. A chart shows exactly what was used: its series are the models of the points up to now, each once,
  the quota's before the third parties' in the order of their legends, and the amounts of a series
  add up to the tokens of its points, however the bins are grouped.
\<close>

theorem chart_conserves:
  assumes "0 < grp"
  shows "let ss = chart_series_of quotaKeys thirdKeys lastBin ps in
    distinct (map cs_Key ss) \<and> cs_Key ` set ss = tp_Key ` {p \<in> set ps. 0 \<le> tp_Bin p \<and> tp_Bin p \<le> int lastBin} \<and>
    sorted_wrt (\<lambda>a b. \<not> series_before b a) ss \<and>
    (\<forall>s \<in> set ss. sum64 (amounts grp lastBin (cs_PerBin s)) = sum64 (map tp_Tokens (own_points lastBin (cs_Key s) ps)))"
proof -
  define ss where "ss = chart_series_of quotaKeys thirdKeys lastBin ps"
  note ok = chart_series_ok[of quotaKeys thirdKeys lastBin ps]
  have "mset (map cs_Key ss) = mset (map cs_Key (fold (add_point quotaKeys thirdKeys lastBin) ps []))"
    by (simp add: ss_def chart_series_of_def)
  then have "distinct (map cs_Key ss)" using ok by (metis mset_eq_imp_distinct_iff)
  moreover have "sorted_wrt (\<lambda>a b. \<not> series_before b a) ss"
    using by_series.sorted_sort_by[unfolded by_series.before_def[abs_def]] by (simp add: ss_def chart_series_of_def)
  moreover have "set ss = set (fold (add_point quotaKeys thirdKeys lastBin) ps [])" by (simp add: ss_def chart_series_of_def)
  ultimately show ?thesis using ok amounts_sum[OF assms] by (auto simp: series_ok_def sum64_wrap simp flip: ss_def)
qed

text \<open>Two models over four bins, the last of which has not happened yet.\<close>

definition demo_points :: "timeline_point list" where
  "demo_points = [\<lparr>tp_Bin = 0, tp_PersonID = [], tp_Model = ''a'', tp_ThirdParty = True, tp_Gateway = ''g'', tp_Tokens = 5\<rparr>,
     \<lparr>tp_Bin = 2, tp_PersonID = [], tp_Model = ''m'', tp_ThirdParty = False, tp_Gateway = [], tp_Tokens = 7\<rparr>,
     \<lparr>tp_Bin = 1, tp_PersonID = [], tp_Model = ''m'', tp_ThirdParty = False, tp_Gateway = [], tp_Tokens = 4\<rparr>,
     \<lparr>tp_Bin = 3, tp_PersonID = [], tp_Model = ''m'', tp_ThirdParty = False, tp_Gateway = [], tp_Tokens = 100\<rparr>]"

lemma chart_conserves_witness:
  "map (\<lambda>s. (cs_Model s, amounts 2 2 (cs_PerBin s))) (chart_series_of [modelKey ''m'' []] [] 2 demo_points) = [(''m'', [4, 7]), (''a'', [5, 0])] \<and>
   list_all (\<lambda>s. sum64 (amounts 2 2 (cs_PerBin s)) = sum64 (map tp_Tokens (own_points 2 (cs_Key s) demo_points)))
     (chart_series_of [modelKey ''m'' []] [] 2 demo_points)"
proof
  show "list_all (\<lambda>s. sum64 (amounts 2 2 (cs_PerBin s)) = sum64 (map tp_Tokens (own_points 2 (cs_Key s) demo_points)))
     (chart_series_of [modelKey ''m'' []] [] 2 demo_points)"
    using chart_conserves[of 2 "[modelKey ''m'' []]" "[]" 2 demo_points] by (simp add: list_all_iff Let_def)
qed code_simp

section \<open>Running totals\<close>

text \<open>The last bin, up to \<open>k\<close>, where a window reset; the first bin when none did.\<close>

fun last_reset :: "int list \<Rightarrow> nat \<Rightarrow> nat" where
  "last_reset resets 0 = 0"
| "last_reset resets (Suc k) = (if int (Suc k) \<in> set resets then Suc k else last_reset resets k)"

lemma last_reset_le: "last_reset resets k \<le> k"
  by (induction k) auto

lemma running_snoc:
  "running resets bin acc (xs @ [v]) =
     running resets bin acc xs @ [wrap64 ((if bin + int (length xs) \<in> set resets then 0
        else if xs = [] then acc else last (running resets bin acc xs)) + v)]"
proof (induction xs arbitrary: bin acc)
  case (Cons x xs)
  show ?case
  proof (cases "xs = []")
    case False
    then have "running resets b a xs \<noteq> []" for b a by (cases xs) (simp_all add: Let_def)
    then show ?thesis using False Cons[of "bin + 1"] by (simp add: Let_def add.assoc)
  qed (simp add: Let_def)
qed simp

lemma length_running [simp]: "length (running resets bin acc xs) = length xs"
  by (induction xs arbitrary: bin acc) (simp_all add: Let_def)

lemma running_since:
  "k < length xs \<Longrightarrow> running resets 0 0 xs ! k = sum64 (drop (last_reset resets k) (take (Suc k) xs))"
proof (induction xs arbitrary: k rule: rev_induct)
  case (snoc v xs)
  show ?case
  proof (cases "k < length xs")
    case True
    then show ?thesis using snoc.IH[of k] by (simp add: running_snoc nth_append)
  next
    case False
    then have k: "k = length xs" using snoc.prems by simp
    show ?thesis
    proof (cases k)
      case 0
      then show ?thesis using k by (simp add: sum64_def)
    next
      case (Suc j)
      then have last: "last (running resets 0 0 xs) = sum64 (drop (last_reset resets j) xs)"
        using snoc.IH[of j] k by (simp add: last_conv_nth flip: length_0_conv)
      show ?thesis
      proof (cases "int k \<in> set resets")
        case True
        moreover have "last_reset resets k = length xs" using True Suc k by simp
        ultimately show ?thesis using k by (simp add: running_snoc nth_append sum64_def)
      next
        case no: False
        have "last_reset resets j \<le> length xs" using last_reset_le[of resets j] k Suc by simp
        moreover have "last_reset resets k = last_reset resets j" using no Suc by simp
        moreover have "xs \<noteq> []" using k Suc by auto
        moreover have "sum64 (ys @ [v]) = wrap64 (sum64 ys + v)" for ys by (simp add: sum64_def)
        ultimately show ?thesis using k no last by (simp add: running_snoc nth_append)
      qed
    qed
  qed
qed simp

lemma totals_since:
  assumes "0 < grp" "length perBin = Suc lastBin" "p \<le> lastBin div grp"
  shows "totals grp lastBin resets perBin ! p =
    (let e = point_end grp lastBin p - 1 in sum64 (drop (last_reset resets e) (take (Suc e) perBin)))"
proof -
  have "point_end grp lastBin p - 1 < length perBin" using assms by (auto simp: point_end_def)
  then show ?thesis using assms running_since by (simp add: totals_def Let_def nth_append del: upt_Suc)
qed

end
