(* ===== verification/CapacityChart.thy ===== *)
theory CapacityChart
  imports AdminChart Calibration
begin

text \<open>
  \<open>internal/server/admin/capacitychart.go\<close>: the charts of a capacity report, a step line for each
  limit replayed. A report covers a span that is not empty; of an empty one the code divides by zero.
\<close>

section \<open>The chart\<close>

record capacity_line =
  ca_Name :: string
  ca_Slot :: string
  ca_Path :: string
  ca_Points :: series_pairs

record capacity_band =
  cb_X :: f64
  cb_W :: f64
  cb_Plan :: string
  cb_Shade :: bool

record capacity_chart =
  cc_Title :: string
  cc_Bucket :: string
  cc_Lines :: "capacity_line list"
  cc_Actual :: string
  cc_Limits :: "chart_mark list"
  cc_Plans :: "capacity_band list"
  cc_Y100 :: f64
  cc_Y80 :: f64
  cc_YZero :: f64
  cc_Borderline :: int
  cc_Top :: int
  cc_Points :: "chart_point list"
  cc_Ticks :: "time list"
  cc_TickFormat :: string
  cc_TimeFormat :: string
  cc_start :: int
  cc_end :: int

definition capacityHoverSlices :: nat where "capacityHoverSlices = 60"

definition cap_x :: "capacity_chart \<Rightarrow> f64 \<Rightarrow> f64" where
  "cap_x c t = min 100 (max 0 ((t - of_int (cc_start c)) / of_int (cc_end c - cc_start c) * 100))"

definition cap_y :: "capacity_chart \<Rightarrow> f64 \<Rightarrow> f64" where
  "cap_y c used = chartHeight - used / of_int (cc_Top c) * (chartHeight - 4) - 1"

definition stepPath :: "capacity_chart \<Rightarrow> series_pairs \<Rightarrow> string" where
  "stepPath c ps = concat (map (\<lambda>(i, p).
     (let x = format_fixed (cap_x c (fst p) * chartWidth / 100) 1; y = format_fixed (cap_y c (snd p)) 1
      in if i = 0 then ''M'' @ x @ '','' @ y else ''H'' @ x @ ''V'' @ y)) (enumerate 0 ps))"

text \<open>The spans of the plans within the period, only where it saw more than one.\<close>

definition band_of :: "capacity_chart \<Rightarrow> time \<Rightarrow> time \<Rightarrow> plan_interval_dto \<Rightarrow> capacity_band list" where
  "band_of c start stop p =
     (let f = max (pd_EffectiveAt p) start;
          t = min (case pd_EndedAt p of Some t \<Rightarrow> t | None \<Rightarrow> stop) stop;
          x = cap_x c (of_int (unix_seconds f))
      in if t > f then [\<lparr>cb_X = x, cb_W = cap_x c (of_int (unix_seconds t)) - x, cb_Plan = pd_PlanType p, cb_Shade = False\<rparr>] else [])"

definition bands :: "capacity_chart \<Rightarrow> plan_interval_dto list \<Rightarrow> time \<Rightarrow> time \<Rightarrow> capacity_band list" where
  "bands c plans start stop =
     (let bs = concat (map (band_of c start stop) plans)
      in if length bs < 2 then []
         else map (\<lambda>(i, b). b\<lparr>cb_Shade := odd i\<rparr>) (enumerate 0 (sort_by (\<lambda>a b. cb_X a < cb_X b) bs)))"

text \<open>The most use a step series held in a span: the use it starts with, and the changes within.\<close>

definition stepMax :: "series_pairs \<Rightarrow> f64 \<Rightarrow> f64 \<Rightarrow> f64" where
  "stepMax ps f t =
     (let i = sort_Search (length ps) (\<lambda>i. fst (ps ! i) > f)
      in fold (\<lambda>p most. max most (snd p)) (takeWhile (\<lambda>p. fst p < t) (drop i ps)) (if i > 0 then snd (ps ! (i - 1)) else 0))"

definition readingMax :: "series_pairs \<Rightarrow> f64 \<Rightarrow> f64 \<Rightarrow> f64 option" where
  "readingMax ps f t =
     (let i = sort_Search (length ps) (\<lambda>i. fst (ps ! i) \<ge> f); here = takeWhile (\<lambda>p. fst p < t) (drop i ps)
      in if here = [] then None else Some (fold (\<lambda>p most. max most (snd p)) here 0))"

definition slice_width :: "capacity_chart \<Rightarrow> f64" where
  "slice_width c = of_int (cc_end c - cc_start c) / of_nat capacityHoverSlices"

definition slice_from :: "capacity_chart \<Rightarrow> nat \<Rightarrow> f64" where
  "slice_from c i = of_int (cc_start c) + of_nat i * slice_width c"

definition hover_point :: "capacity_chart \<Rightarrow> (string, string) gomap \<Rightarrow> series_pairs \<Rightarrow> nat \<Rightarrow> chart_point" where
  "hover_point c t readings i =
     (let f = slice_from c i; e = f + slice_width c; x = of_nat i * 100 / of_nat capacityHoverSlices; w = 100 / of_nat capacityHoverSlices
      in \<lparr>ct_X = x, ct_W = w, ct_Mid = x + w / 2, ct_At = int_of f * second, ct_Until = None,
          ct_Rows = concat (map (\<lambda>l. let v = stepMax (ca_Points l) f e in
              if v > 0 then [\<lparr>tr_Tokens = percent v, tr_Name = ca_Name l, tr_Via = [], tr_Slot = ca_Slot l, tr_Dashed = False\<rparr>] else []) (cc_Lines c)) @
            (case readingMax readings f e of None \<Rightarrow> []
             | Some v \<Rightarrow> [\<lparr>tr_Tokens = percent v, tr_Name = get_or [] t ''actual'', tr_Via = [], tr_Slot = ''x'', tr_Dashed = False\<rparr>])\<rparr>)"

definition newCapacityChart ::
  "capacity_report \<Rightarrow> (string, string) gomap \<Rightarrow> string \<Rightarrow> string \<Rightarrow> capacity_line list \<Rightarrow> capacity_chart" where
  "newCapacityChart r t bucket title ls =
     (let len = time_sub (rt_End r) (rt_Start r); days = len > 24 * hour; five = (bucket = ''fiveHour'');
          peak = fold (\<lambda>l. fold (\<lambda>p peak. max peak (snd p)) (ca_Points l)) ls 0;
          readings = (if five then rt_Readings r else []);
          kind = (if five then LimitFiveHour else LimitWeekly);
          c = \<lparr>cc_Title = title, cc_Bucket = bucket, cc_Lines = ls, cc_Actual = [], cc_Limits = [], cc_Plans = [],
               cc_Y100 = 0, cc_Y80 = 0, cc_YZero = 0, cc_Borderline = rt_BorderlinePercent r, cc_Top = max 100 (\<lceil>peak / 10\<rceil> * 10), cc_Points = [],
               cc_Ticks = [rt_Start r, rt_Start r + quot len 2, rt_End r],
               cc_TickFormat = (if days then ''day'' else ''clock''), cc_TimeFormat = (if days then ''dayclock'' else ''clock''),
               cc_start = unix_seconds (rt_Start r), cc_end = unix_seconds (rt_End r)\<rparr>;
          c = c\<lparr>cc_Y100 := cap_y c 100, cc_Y80 := cap_y c (of_int (rt_BorderlinePercent r)), cc_YZero := cap_y c 0,
                cc_Lines := map (\<lambda>l. l\<lparr>ca_Path := stepPath c (ca_Points l)\<rparr>) ls,
                cc_Actual := concat (map (\<lambda>p. ''M'' @ format_fixed (cap_x c (fst p) * chartWidth / 100) 1 @ '','' @
                  format_fixed (cap_y c (snd p)) 1 @ ''h0'') readings),
                cc_Limits := map (\<lambda>h. \<lparr>mk_X = cap_x c (of_int (unix_seconds (lh_At h))), mk_At = lh_At h\<rparr>)
                  (filter (\<lambda>h. lh_Kind h = kind \<and> \<not> lh_At h < rt_Start r \<and> lh_At h < rt_End r) (rt_LimitHits r)),
                cc_Plans := bands c (rt_Plans r) (rt_Start r) (rt_End r)\<rparr>
      in c\<lparr>cc_Points := map (hover_point c t readings) [0..<capacityHoverSlices]\<rparr>)"

definition scenario_line :: "string \<Rightarrow> string \<Rightarrow> string \<Rightarrow> five_hour_result \<Rightarrow> weekly_result \<Rightarrow> capacity_line list" where
  "scenario_line bucket name slot five week =
     (let (series, basis) = (if bucket = ''weekly'' then (wk_Series week, wk_Basis week) else (fh_Series five, fh_Basis five))
      in if basis \<noteq> BasisInsufficient then [\<lparr>ca_Name = name, ca_Slot = slot, ca_Path = [], ca_Points = series\<rparr>] else [])"

definition scenario_lines :: "(string, string) gomap \<Rightarrow> string \<Rightarrow> capacity_scenario \<Rightarrow> capacity_line list" where
  "scenario_lines t bucket sc =
     (if sc_Shared sc then scenario_line bucket (get_or [] t ''predicted'') ''a'' (sc_FiveHour sc) (sc_Weekly sc) else []) @
     concat (map (\<lambda>(i, m). scenario_line bucket (sm_Name m) (slotFor (int i)) (sm_FiveHour m) (sm_Weekly m)) (enumerate 0 (sc_Members sc)))"

definition newCapacityCharts :: "capacity_report \<Rightarrow> (string, string) gomap \<Rightarrow> string \<Rightarrow> capacity_chart list" where
  "newCapacityCharts r t bucket =
     concat (map (\<lambda>sc. let ls = scenario_lines t bucket sc in
       if ls \<noteq> [] then [newCapacityChart r t bucket (codeText t ''scenario'' (sc_ID sc)) ls] else []) (rt_Scenarios r))"

section \<open>The tips show the peak\<close>

lemma drop_search:
  assumes "sorted_wrt (\<lambda>a b. P a \<longrightarrow> P b) xs"
  shows "drop (sort_Search (length xs) (\<lambda>i. P (xs ! i))) xs = filter P xs"
    "take (sort_Search (length xs) (\<lambda>i. P (xs ! i))) xs = filter (\<lambda>x. \<not> P x) xs"
proof -
  let ?n = "sort_Search (length xs) (\<lambda>i. P (xs ! i))"
  have mono: "k \<le> l \<Longrightarrow> l < length xs \<Longrightarrow> P (xs ! k) \<Longrightarrow> P (xs ! l)" for k l
    using sorted_wrt_nth_less[OF assms, of k l] by (cases "k = l") simp_all
  note least = sort_Search_least[of "length xs" "\<lambda>i. P (xs ! i)", OF mono]
  have low: "\<not> P x" if x: "x \<in> set (take ?n xs)" for x
  proof -
    obtain k where "k < ?n" "x = xs ! k" using x unfolding in_set_conv_nth by (metis length_take min_less_iff_conj nth_take)
    then show ?thesis using least(2) by simp
  qed
  have high: "P x" if x: "x \<in> set (drop ?n xs)" for x
  proof -
    obtain k where "k < length (drop ?n xs)" "x = drop ?n xs ! k" using x unfolding in_set_conv_nth by blast
    then have k: "?n + k < length xs" "x = xs ! (?n + k)" by (simp_all add: least(1))
    have "P (xs ! (?n + k))" by (rule least(3)) (simp_all add: k(1))
    then show ?thesis using k(2) by simp
  qed
  have parts: "filter P (take ?n xs) = []" "filter P (drop ?n xs) = drop ?n xs"
    "filter (\<lambda>x. \<not> P x) (take ?n xs) = take ?n xs" "filter (\<lambda>x. \<not> P x) (drop ?n xs) = []"
    unfolding filter_empty_conv filter_id_conv using low high by blast+
  have "filter P (take ?n xs @ drop ?n xs) = drop ?n xs" unfolding filter_append parts by simp
  then show "drop ?n xs = filter P xs" by (simp only: append_take_drop_id)
  have "filter (\<lambda>x. \<not> P x) (take ?n xs @ drop ?n xs) = take ?n xs" unfolding filter_append parts by simp
  then show "take ?n xs = filter (\<lambda>x. \<not> P x) xs" by (simp only: append_take_drop_id)
qed

lemma takeWhile_sorted_times:
  fixes ps :: series_pairs
  shows "sorted_wrt (\<lambda>a b. fst a \<le> fst b) ps \<Longrightarrow> takeWhile (\<lambda>p. fst p < t) ps = filter (\<lambda>p. fst p < t) ps"
proof (induction ps)
  case (Cons p ps)
  show ?case
  proof (cases "fst p < t")
    case False
    then have "\<not> fst q < t" if "q \<in> set ps" for q using Cons.prems that by auto
    then have "filter (\<lambda>p. fst p < t) ps = []" by (simp add: filter_empty_conv)
    then show ?thesis using False by simp
  qed (use Cons in simp)
qed simp

lemma fold_max_values:
  fixes ps :: series_pairs
  shows "fold (\<lambda>p most. max most (snd p)) ps m = Max (insert m (snd ` set ps))"
proof (induction ps arbitrary: m)
  case (Cons p ps)
  have "Max (insert (max m (snd p)) (snd ` set ps)) = Max (insert m (insert (snd p) (snd ` set ps)))"
    by (cases "set ps = {}") (simp_all add: max.assoc)
  then show ?case using Cons by simp
qed simp

text \<open>The use of a step series at an instant.\<close>

definition step_at :: "series_pairs \<Rightarrow> f64 \<Rightarrow> f64" where
  "step_at ps t = (let past = filter (\<lambda>p. \<not> fst p > t) ps in if past = [] then 0 else snd (last past))"

lemma stepMax_eq:
  assumes "sorted_wrt (\<lambda>a b. fst a \<le> fst b) ps"
  shows "stepMax ps f t = Max (insert (step_at ps f) (snd ` {p \<in> set ps. f < fst p \<and> fst p < t}))"
proof -
  let ?i = "sort_Search (length ps) (\<lambda>i. fst (ps ! i) > f)"
  have mono: "sorted_wrt (\<lambda>a b. fst a > f \<longrightarrow> fst b > f) ps"
    using assms by (rule sorted_wrt_mono_rel[rotated]) auto
  note cut = drop_search[of "\<lambda>p. fst p > f", OF mono]
  have low: "(if ?i > 0 then snd (ps ! (?i - 1)) else 0) = step_at ps f"
  proof (cases "?i > 0")
    case True
    have "?i \<le> length ps" by (rule sort_Search_least(1)) (use assms mono in \<open>metis sorted_wrt_nth_less order_le_less\<close>)
    then have "length (take ?i ps) = ?i" by simp
    then have "take ?i ps \<noteq> []" using True by (metis length_greater_0_conv)
    moreover from this have "last (take ?i ps) = ps ! (?i - 1)"
      using True \<open>length (take ?i ps) = ?i\<close> by (simp add: last_conv_nth)
    ultimately have "last (take ?i ps) = ps ! (?i - 1)" "take ?i ps \<noteq> []" by blast+
    then show ?thesis using True cut(2) by (simp add: step_at_def Let_def)
  next
    case False
    then show ?thesis using cut(2) by (simp add: step_at_def Let_def)
  qed
  have "sorted_wrt (\<lambda>a b. fst a \<le> fst b) (filter (\<lambda>p. fst p > f) ps)" using assms by (rule sorted_wrt_filter)
  then have "takeWhile (\<lambda>p. fst p < t) (drop ?i ps) = filter (\<lambda>p. fst p < t) (filter (\<lambda>p. fst p > f) ps)"
    using cut(1) takeWhile_sorted_times by metis
  then have "stepMax ps f t = Max (insert (step_at ps f) (snd ` set (filter (\<lambda>p. fst p < t) (filter (\<lambda>p. fst p > f) ps))))"
    unfolding stepMax_def Let_def low fold_max_values by simp
  moreover have "set (filter (\<lambda>p. fst p < t) (filter (\<lambda>p. fst p > f) ps)) = {p \<in> set ps. f < fst p \<and> fst p < t}" by auto
  ultimately show ?thesis by simp
qed

lemma slice_of:
  assumes "cc_start c < cc_end c" "of_int (cc_start c) \<le> t" "t < of_int (cc_end c)"
  shows "\<exists>i < capacityHoverSlices. slice_from c i \<le> t \<and> t < slice_from c i + slice_width c"
proof -
  let ?w = "slice_width c"
  have w: "0 < ?w" using assms(1) by (simp add: slice_width_def capacityHoverSlices_def)
  define i where "i = nat \<lfloor>(t - of_int (cc_start c)) / ?w\<rfloor>"
  have "0 \<le> (t - of_int (cc_start c)) / ?w" using assms(2) w by simp
  then have "(of_nat i :: f64) = of_int \<lfloor>(t - of_int (cc_start c)) / ?w\<rfloor>" unfolding i_def by (simp add: of_nat_nat)
  then have i: "of_nat i \<le> (t - of_int (cc_start c)) / ?w" "(t - of_int (cc_start c)) / ?w < of_nat i + 1"
    using floor_correct[of "(t - of_int (cc_start c)) / ?w"] by simp_all
  have "t - of_int (cc_start c) < of_nat capacityHoverSlices * ?w"
    using assms(1,3) by (simp add: slice_width_def capacityHoverSlices_def)
  then have "(t - of_int (cc_start c)) / ?w < of_nat capacityHoverSlices" using w by (simp add: pos_divide_less_eq)
  then have "i < capacityHoverSlices" using i(1) by (metis le_less_trans of_nat_less_iff)
  moreover have "slice_from c i \<le> t" using i(1) w by (simp add: slice_from_def pos_le_divide_eq algebra_simps)
  moreover have "t < slice_from c i + ?w" using i(2) w by (simp add: slice_from_def pos_divide_less_eq algebra_simps)
  ultimately show ?thesis by blast
qed

text \<open>Every change of a line within the period is under a tip that shows at least its use, when changes are at different times.\<close>

lemma tips_show_changes:
  assumes "cc_start c < cc_end c" "sorted_wrt (\<lambda>a b. fst a < fst b) ps" "p \<in> set ps"
    "of_int (cc_start c) \<le> fst p" "fst p < of_int (cc_end c)"
  shows "\<exists>i < capacityHoverSlices. snd p \<le> stepMax ps (slice_from c i) (slice_from c i + slice_width c)"
proof -
  obtain i where i: "i < capacityHoverSlices" "slice_from c i \<le> fst p" "fst p < slice_from c i + slice_width c"
    using slice_of[OF assms(1,4,5)] by blast
  have sorted: "sorted_wrt (\<lambda>a b. fst a \<le> fst b) ps" using assms(2) by (rule sorted_wrt_mono_rel[rotated]) auto
  have "snd p \<in> insert (step_at ps (slice_from c i)) (snd ` {q \<in> set ps. slice_from c i < fst q \<and> fst q < slice_from c i + slice_width c})"
  proof (cases "slice_from c i < fst p")
    case True
    then show ?thesis using i assms(3) by blast
  next
    case False
    then have eq: "fst p = slice_from c i" using i by simp
    obtain ps1 ps2 where ps: "ps = ps1 @ p # ps2" using assms(3) by (meson split_list)
    then have "filter (\<lambda>q. \<not> fst q > slice_from c i) ps = ps1 @ [p]"
      using assms(2) eq by (auto simp: sorted_wrt_append filter_id_conv filter_empty_conv)
    then show ?thesis by (simp add: step_at_def)
  qed
  then have "snd p \<le> stepMax ps (slice_from c i) (slice_from c i + slice_width c)"
    unfolding stepMax_eq[OF sorted] by (intro Max_ge) auto
  then show ?thesis using i(1) by blast
qed

text \<open>The axis reaches over every line.\<close>

lemma fold_peak_ge:
  fixes ls :: "capacity_line list"
  shows "(\<forall>l \<in> set ls. \<forall>p \<in> set (ca_Points l). snd p \<le> fold (\<lambda>l. fold (\<lambda>p peak. max peak (snd p)) (ca_Points l)) ls m) \<and>
    m \<le> fold (\<lambda>l. fold (\<lambda>p peak. max peak (snd p)) (ca_Points l)) ls m"
proof (induction ls arbitrary: m)
  case (Cons l ls)
  have "m \<le> fold (\<lambda>p peak. max peak (snd p)) (ca_Points l) m" "\<forall>p \<in> set (ca_Points l). snd p \<le> fold (\<lambda>p peak. max peak (snd p)) (ca_Points l) m"
    by (auto simp: fold_max_values)
  then show ?case using Cons[of "fold (\<lambda>p peak. max peak (snd p)) (ca_Points l) m"] by (auto intro: order_trans)
qed simp

lemma chart_top_covers:
  assumes "l \<in> set ls" "p \<in> set (ca_Points l)"
  shows "snd p \<le> of_int (cc_Top (newCapacityChart r t bucket title ls))"
proof -
  let ?peak = "fold (\<lambda>l. fold (\<lambda>p peak. max peak (snd p)) (ca_Points l)) ls 0"
  have top: "cc_Top (newCapacityChart r t bucket title ls) = max 100 (\<lceil>?peak / 10\<rceil> * 10)"
    by (simp add: newCapacityChart_def Let_def)
  have "snd p \<le> ?peak" using fold_peak_ge[of ls 0] assms by blast
  also have "?peak \<le> of_int (\<lceil>?peak / 10\<rceil> * 10)" using le_of_int_ceiling[of "?peak / 10"] unfolding of_int_mult by linarith
  also have "\<dots> \<le> of_int (cc_Top (newCapacityChart r t bucket title ls))" unfolding top by simp
  finally show ?thesis .
qed

end
