(* ===== verification/AdminViews.thy ===== *)
theory AdminViews
  imports AdminChart QueryOverview
begin

text \<open>
  The account cards of \<open>internal/server/admin/view.go\<close>, which the console's overview and the public
  dashboard share. \<open>t\<close> is the dictionary of the page's language.
\<close>

section \<open>Cards\<close>

record segment =
  sg_Width :: f64
  sg_Slot :: string

record member_view =
  mv_Share :: member_share
  mv_Over :: bool
  mv_Segments :: "segment list"

record model_view =
  wv_Usage :: model_usage
  wv_Name :: string
  wv_Via :: string
  wv_Title :: string
  wv_Slot :: string
  wv_Bar :: f64

record bucket_view =
  bv_Name :: string
  bv_NoQuota :: bool
  bv_Expired :: bool
  bv_UsedPercent :: f64
  bv_Tone :: string
  bv_ResetsAt :: "time option"
  bv_ObservedAt :: time
  bv_Members :: "member_view list"
  bv_Unattributed :: f64
  bv_Models :: "model_view list"
  bv_ThirdParty :: "model_view list"
  bv_Chart :: "chart_view option"

record account_view =
  aw_Provider :: string
  aw_Label :: string
  aw_PlanType :: string
  aw_FiveHour :: f64
  aw_Weekly :: f64
  aw_Hint :: string
  aw_ActiveUsers :: "active_user list"
  aw_Buckets :: "bucket_view list"

definition newModelView :: "model_usage \<Rightarrow> string \<Rightarrow> f64 \<Rightarrow> model_view" where
  "newModelView m slot bar =
     (let (name, via, title) = modelName (mo_Model m) (mo_Gateway m)
      in \<lparr>wv_Usage = m, wv_Name = name, wv_Via = via, wv_Title = title, wv_Slot = slot, wv_Bar = bar\<rparr>)"

abbreviation mo_Key :: "model_usage \<Rightarrow> string" where
  "mo_Key m \<equiv> AdminChart.modelKey (mo_Model m) (mo_Gateway m)"

definition tone :: "f64 \<Rightarrow> string" where
  "tone used = (if used \<ge> 90 then ''danger'' else if used \<ge> 70 then ''warn'' else [])"

text \<open>The colours of the quota's models; the last place of a model listed twice counts.\<close>

definition model_slots :: "model_usage list \<Rightarrow> (string, string) gomap" where
  "model_slots ms = fold (\<lambda>(i, m). put (mo_Key m) (slotFor (int i))) (enumerate 0 ms) []"

definition third_bar :: "int \<Rightarrow> f64 \<Rightarrow> int \<Rightarrow> model_usage \<Rightarrow> f64" where
  "third_bar quotaTokens quotaPercent thirdTokens m =
     (if quotaTokens > 0 \<and> quotaPercent > 0 then of_int (mo_Tokens m) / of_int quotaTokens * quotaPercent
      else if thirdTokens > 0 then of_int (mo_Tokens m) / of_int thirdTokens * 100
      else 0)"

definition member_view_of :: "(string, string) gomap \<Rightarrow> member_share \<Rightarrow> member_view" where
  "member_view_of slots m =
     \<lparr>mv_Share = m, mv_Over = (mh_UsedPercent m > mh_AllottedPercent m + 1 / 2),
      mv_Segments = map (\<lambda>mm. \<lparr>sg_Width = mm_UsedPercent mm,
          sg_Slot = (case map_of slots (AdminChart.modelKey (mm_Model mm) (mm_Gateway mm)) of Some slot \<Rightarrow> slot | None \<Rightarrow> ''o'')\<rparr>)
        (mh_Models m)\<rparr>"

definition newBucketView :: "bucket_overview \<Rightarrow> time \<Rightarrow> (string, string) gomap \<Rightarrow> bucket_view" where
  "newBucketView b now t =
     (let models = bo_Models b; third = bo_ThirdPartyModels b; slots = model_slots models;
          quotaTokens = sum64 (map mo_Tokens models); quotaPercent = sum_list (map mo_UsedPercent models);
          thirdTokens = sum64 (map mo_Tokens third)
      in \<lparr>bv_Name = bucketName (bo_Key b) (bo_WindowMinutes b) t, bv_NoQuota = False,
          bv_Expired = (bo_Reset b \<or> (case bo_ResetsAt b of Some r \<Rightarrow> \<not> r > now | None \<Rightarrow> False)),
          bv_UsedPercent = bo_UsedPercent b, bv_Tone = tone (bo_UsedPercent b), bv_ResetsAt = bo_ResetsAt b,
          bv_ObservedAt = bo_ObservedAt b, bv_Members = map (member_view_of slots) (bo_Members b),
          bv_Unattributed = bo_UnattributedPercent b,
          bv_Models = map (\<lambda>(i, m). newModelView m (slotFor (int i)) (mo_UsedPercent m)) (enumerate 0 models),
          bv_ThirdParty = map (\<lambda>(i, m). newModelView m (slotFor (int i)) (third_bar quotaTokens quotaPercent thirdTokens m)) (enumerate 0 third),
          bv_Chart = (case bo_Timeline b of None \<Rightarrow> None | Some tline \<Rightarrow> newChart tline (map mo_Key models) (map mo_Key third) now)\<rparr>)"

definition share_bar :: "int \<Rightarrow> model_view \<Rightarrow> model_view" where
  "share_bar allTokens m =
     (if allTokens > 0 then m\<lparr>wv_Bar := of_int (mo_Tokens (wv_Usage m)) / of_int allTokens * 100\<rparr> else m)"

definition recentView :: "bucket_overview \<Rightarrow> time \<Rightarrow> (string, string) gomap \<Rightarrow> bucket_view" where
  "recentView b now t =
     (let bv = newBucketView b now t;
          allTokens = sum64 (map (mo_Tokens \<circ> wv_Usage) (bv_Models bv @ bv_ThirdParty bv))
      in bv\<lparr>bv_Name := get_or [] t ''noQuota'', bv_NoQuota := True,
            bv_Models := map (share_bar allTokens) (bv_Models bv), bv_ThirdParty := map (share_bar allTokens) (bv_ThirdParty bv)\<rparr>)"

text \<open>The use of the last window under a key that has not reset, -1 without one.\<close>

definition window_use :: "bucket_key \<Rightarrow> (bucket_overview \<times> bucket_view) list \<Rightarrow> f64" where
  "window_use key bs = fold (\<lambda>(b, bv) used. if \<not> bv_Expired bv \<and> bo_Key b = key then bo_UsedPercent b else used) bs (- 1)"

definition account_view_of :: "(string, string) gomap \<Rightarrow> time \<Rightarrow> (string, string) gomap \<Rightarrow> account_overview \<Rightarrow> account_view" where
  "account_view_of hints now t a =
     (let bs = map (\<lambda>b. (b, newBucketView b now t)) (ao_Buckets a)
      in \<lparr>aw_Provider = ao_Provider a, aw_Label = ao_Label a, aw_PlanType = ao_PlanType a,
          aw_FiveHour = window_use BucketFiveHour bs, aw_Weekly = window_use BucketWeekly bs,
          aw_Hint = get_or [] hints (ao_ID a), aw_ActiveUsers = ao_ActiveUsers a,
          aw_Buckets = map snd bs @ (if ao_Buckets a = [] then (case ao_Usage a of Some u \<Rightarrow> [recentView u now t] | None \<Rightarrow> []) else [])\<rparr>)"

definition accountViews :: "overview \<Rightarrow> (string, string) gomap \<Rightarrow> time \<Rightarrow> (string, string) gomap \<Rightarrow> account_view list" where
  "accountViews ov hints now t = map (account_view_of hints now t) (ov_Accounts ov)"

section \<open>What the cards say\<close>

text \<open>Without quota readings the bars of all models together make up the whole, when anything was used.\<close>

lemma sum_shares_100:
  fixes xs :: "'a list" and f :: "'a \<Rightarrow> int"
  assumes "n = sum_list (map f xs)" "0 < n"
  shows "sum_list (map (\<lambda>x. of_int (f x) / of_int n * 100) xs) = (100 :: f64)"
proof -
  have "sum_list (map (\<lambda>x. of_int (f x) / of_int n * 100) xs) = of_int (sum_list (map f xs)) / of_int n * (100 :: f64)"
    by (induction xs) (simp_all add: field_simps add_divide_distrib)
  then show ?thesis using assms by simp
qed

lemma view_usage:
  "map wv_Usage (bv_Models (newBucketView b now t)) = bo_Models b"
  "map wv_Usage (bv_ThirdParty (newBucketView b now t)) = bo_ThirdPartyModels b"
  by (simp_all add: newBucketView_def Let_def newModelView_def case_prod_unfold comp_def)

lemma recentView_bars:
  assumes "n = sum_list (map mo_Tokens (bo_Models b @ bo_ThirdPartyModels b))" "0 < n" "n < 2 ^ 63"
  shows "sum_list (map wv_Bar (bv_Models (recentView b now t) @ bv_ThirdParty (recentView b now t))) = 100"
proof -
  let ?ms = "bv_Models (newBucketView b now t) @ bv_ThirdParty (newBucketView b now t)"
  have tokens: "map (mo_Tokens \<circ> wv_Usage) ?ms = map mo_Tokens (bo_Models b @ bo_ThirdPartyModels b)"
    by (simp add: view_usage flip: map_map)
  then have n: "n = sum_list (map (mo_Tokens \<circ> wv_Usage) ?ms)" using assms(1) by simp
  then have "sum64 (map (mo_Tokens \<circ> wv_Usage) ?ms) = n" using assms(2,3) by (simp only: sum64_wrap) (simp add: wrap64_id)
  then have "map wv_Bar (bv_Models (recentView b now t) @ bv_ThirdParty (recentView b now t)) =
      map (\<lambda>m. of_int ((mo_Tokens \<circ> wv_Usage) m) / of_int n * 100) ?ms"
    using assms(2) by (simp add: recentView_def Let_def share_bar_def)
  then show ?thesis using sum_shares_100[OF n assms(2)] by simp
qed

text \<open>Cards made without hints show none.\<close>

lemma card_hints: "map aw_Hint (accountViews ov [] now t) = map (\<lambda>_. []) (ov_Accounts ov)"
  by (simp add: accountViews_def account_view_of_def Let_def comp_def)

end
