(* ===== verification/AdminDictionary.thy ===== *)
theory AdminDictionary
  imports AdminFormat Calibration Transcripts QueryCapacity Utf8
begin

text \<open>
  The languages of the admin console (\<open>internal/server/admin/i18n.go\<close>): the dictionaries and the choice
  of one. A text that is not ASCII is written by its code points, which \<open>utf8\<close> encodes.
\<close>

section \<open>Texts\<close>

definition english :: "(string, string) gomap" where
  "english =
    [(''appTitle'', ''ShareCodex Admin''),
     (''navOverview'', ''Overview''),
     (''navPeople'', ''Members''),
     (''navAccounts'', ''Accounts''),
     (''navDevices'', ''Devices''),
     (''logout'', ''Sign out''),
     (''login'', ''Sign in''),
     (''loginTitle'', ''Admin sign-in''),
     (''password'', ''Admin password''),
     (''wrongPassword'', ''Wrong password''),
     (''noAccounts'', ''No accounts yet''),
     (''noQuota'', ''No quota data yet''),
     (''reset'', ''Reset''),
     (''resetsAt'', ''Resets %s''),
     (''member'', ''Member''),
     (''allMembers'', ''All members''),
     (''estimatedUsage'', ''Estimated usage''),
     (''allotted'', ''Allotted''),
     (''overAllotment'', ''Over allotment''),
     (''unattributed'', ''Unattributed''),
     (''model'', ''Model''),
     (''requests'', ''Requests''),
     (''tokens'', ''Tokens''),
     (''inviteTitle'', ''Join link for %s''),
     (''inviteNote'', ''Single use, valid until %s. It can'' @ [CHR 0x27] @ ''t be shown again after you leave this page.''),
     (''name'', ''Name''),
     (''addPerson'', ''Add member''),
     (''devices'', ''Devices''),
     (''createInvite'', ''Create join link''),
     (''noPeople'', ''No members''),
     (''nameRequired'', ''Enter a name''),
     (''nameTooLong'', ''Names can be at most 50 characters''),
     (''nameTaken'', ''A member with this name already exists''),
     (''accountName'', ''Account name''),
     (''rename'', ''Rename''),
     (''weight'', ''Weight''),
     (''weightFor'', ''Weight for %s''),
     (''notAllotted'', ''Not allotted''),
     (''addMember'', ''Add member'' @ utf8 [0x2026]),
     (''newMemberWeight'', ''Weight for the new member''),
     (''saveShares'', ''Save shares''),
     (''labelLength'', ''Names must be 1 to 50 characters''),
     (''weightRange'', ''Weights must be numbers from 0 to 100''),
     (''personNotFound'', ''That member no longer exists''),
     (''device'', ''Device''),
     (''platform'', ''System''),
     (''lastSeen'', ''Last seen''),
     (''revoked'', ''Revoked''),
     (''revoke'', ''Revoke''),
     (''revokeConfirm'', ''Revoke this device? It can no longer sync; usage it already uploaded is kept.''),
     (''noDevices'', ''No devices''),
     (''fiveHour'', ''5 hours''),
     (''weekly'', ''Weekly''),
     (''days'', ''%d days''),
     (''hours'', ''%d hours''),
     (''minutes'', ''%d min''),
     (''language'', ''Language''),
     (''navUsage'', ''Usage''),
     (''navSettings'', ''Settings''),
     (''dashboard'', ''Dashboard''),
     (''inUse'', ''In use''),
     (''updatedAt'', ''Updated %s''),
     (''thirdPartyModels'', ''Third-party models''),
     (''totalTokens'', ''Total tokens''),
     (''input'', ''Input''),
     (''cachedShare'', ''%s cached''),
     (''output'', ''Output''),
     (''estCost'', ''Cost '' @ utf8 [0x00B7] @ '' est.''),
     (''usageOverTime'', ''Tokens over time''),
     (''online'', ''Online''),
     (''signedInTo'', ''Signed in to''),
     (''account'', ''Account''),
     (''noUsage'', ''No usage''),
     (''publicDashboard'', ''Public dashboard''),
     (''publish'', ''Publish''),
     (''publicNote'', ''Anyone with the address can see each account'' @ [CHR 0x27] @ ''s quota, members'' @ [CHR 0x27] @ '' names and estimated usage. Email addresses and device names are not shown.''),
     (''save'', ''Save''),
     (''published'', ''Published''),
     (''notPublished'', ''Not published''),
     (''preview'', ''Preview''),
     (''previewNote'', ''Preview. Only signed-in admins can see this page until it is published.''),
     (''last30Days'', ''30 days''),
     (''models'', ''Models''),
     (''accountN'', ''Account %d''),
     (''cumulative'', ''Cumulative''),
     (''delete'', ''Delete''),
     (''sortBy'', ''Sort''),
     (''sortCustom'', ''Custom''),
     (''reorder'', ''Reorder''),
     (''planHistory'', ''Plan history''),
     (''addPlanInterval'', ''Add plan interval''),
     (''effectiveAt'', ''Effective at''),
     (''endedAt'', ''Ended at''),
     (''reason'', ''Reason''),
     (''precision'', ''Precision''),
     (''savePlan'', ''Save plan''),
     (''deletePlanConfirm'', ''Delete this plan interval?''),
     (''capacity'', ''Capacity''),
     (''rollingPeak'', ''Peak rolling 5h''),
     (''scenarios'', ''Scenarios''),
     (''plan'', ''Plan''),
     (''limit'', ''Limit''),
     (''samples'', ''Samples''),
     (''rate'', ''% / US$''),
     (''range'', ''Range''),
     (''capacityColumn'', ''Capacity''),
     (''observedMultiple'', ''Observed''),
     (''officialMultiple'', ''Official''),
     (''calibration'', ''Calibration''),
     (''observedWindows'', ''5-hour windows''),
     (''start'', ''Start''),
     (''end'', ''End''),
     (''apply'', ''Apply''),
     (''rangeInvalid'', ''Enter a valid range''),
     (''actual'', ''Actual''),
     (''predicted'', ''Predicted''),
     (''atLimit'', ''Reached 100%''),
     (''unknownPlan'', ''Unknown''),
     (''saturation'', ''Windows at 100%''),
     (''windows'', ''Windows''),
     (''scenario'', ''Scenario''),
     (''limitHits'', ''Limit hits''),
     (''firstHit'', ''First hit''),
     (''peak'', ''Peak''),
     (''blocked'', ''Blocked''),
     (''formula'', ''Formula''),
     (''formulaCapacity'', ''Capacity = 100 '' @ utf8 [0x00F7] @ '' rate (% / US$). Peak = demand '' @ utf8 [0x00F7] @ '' capacity.''),
     (''replayNote'', ''Recorded demand stops where the provider refused work, so a replay can understate what was needed.''),
     (''basisMeasured'', ''Measured''),
     (''basisDerived'', ''Derived''),
     (''basisInsufficient'', ''Insufficient data''),
     (''fitSafe'', ''Safe''),
     (''fitBorderline'', ''Borderline''),
     (''fitOver'', ''Over''),
     (''loggedAt'', ''Time''),
     (''loggedLimits'', ''Logged limits''),
     (''limitLogged'', ''Limit logged''),
     (''limitKind5h'', ''5-hour limit''),
     (''limitKindWeekly'', ''Weekly limit''),
     (''limitKindModelSpecific'', ''Model limit''),
     (''limitKindOverload'', ''Overload''),
     (''limitKindProvider429'', ''Gateway throttle''),
     (''limitKindAuth'', ''Authentication''),
     (''limitKindUnknown'', ''Unknown''),
     (''limitEvidenceFiveHour'', ''5-hour''),
     (''limitEvidenceSevenDay'', ''7-day''),
     (''limitEvidenceSessionLimit'', ''Session limit''),
     (''limitEvidenceWeeklyLimit'', ''Weekly limit''),
     (''limitEvidenceExtraUsage'', ''Extra usage''),
     (''limitEvidenceGateway'', ''Gateway''),
     (''limitEvidenceOverloaded'', ''Overloaded''),
     (''limitEvidenceAuth'', ''Authentication''),
     (''excludedUnknownPlan'', ''Unknown plan''),
     (''excludedPlanChanged'', ''Plan changed''),
     (''excludedNoSample'', ''No usable reading''),
     (''excludedLowCost'', ''Too little demand''),
     (''reasonUnsupportedProvider'', ''Only Claude plans are modelled''),
     (''scenarioSharedMax5'', ''Shared Max 5x''),
     (''scenarioSeparateMax5'', ''Separate Max 5x''),
     (''scenarioSharedMax20'', ''Shared Max 20x''),
     (''precisionConfirmed'', ''Confirmed''),
     (''precisionInferred'', ''Inferred''),
     (''planRequired'', ''Enter a plan''),
     (''planTimeInvalid'', ''Enter a valid time''),
     (''planEndInvalid'', ''The end must be after the start''),
     (''planOverlap'', ''This interval overlaps an existing one''),
     (''deleteAccountConfirm'', ''Delete this account? Its usage and quota history are deleted too. A device still signed in to it adds it again on its next sync.''),
     (''deletePersonConfirm'', ''Delete this member? Their devices can no longer sync, and the usage they uploaded is deleted.'')]"

definition chinese :: "(string, string) gomap" where
  "chinese =
    [(''appTitle'', ''ShareCodex '' @ utf8 [0x7BA1, 0x7406]),
     (''navOverview'', utf8 [0x7E3D, 0x89BD]),
     (''navPeople'', utf8 [0x6210, 0x54E1]),
     (''navAccounts'', utf8 [0x5E33, 0x865F]),
     (''navDevices'', utf8 [0x88DD, 0x7F6E]),
     (''logout'', utf8 [0x767B, 0x51FA]),
     (''login'', utf8 [0x767B, 0x5165]),
     (''loginTitle'', utf8 [0x7BA1, 0x7406, 0x767B, 0x5165]),
     (''password'', utf8 [0x7BA1, 0x7406, 0x5BC6, 0x78BC]),
     (''wrongPassword'', utf8 [0x5BC6, 0x78BC, 0x932F, 0x8AA4]),
     (''noAccounts'', utf8 [0x5C1A, 0x7121, 0x5E33, 0x865F]),
     (''noQuota'', utf8 [0x5C1A, 0x7121, 0x984D, 0x5EA6, 0x8CC7, 0x6599]),
     (''reset'', utf8 [0x5DF2, 0x91CD, 0x7F6E]),
     (''resetsAt'', ''%s '' @ utf8 [0x91CD, 0x7F6E]),
     (''member'', utf8 [0x6210, 0x54E1]),
     (''allMembers'', utf8 [0x6240, 0x6709, 0x6210, 0x54E1]),
     (''estimatedUsage'', utf8 [0x4F30, 0x8A08, 0x7528, 0x91CF]),
     (''allotted'', utf8 [0x5206, 0x914D]),
     (''overAllotment'', utf8 [0x8D85, 0x51FA, 0x5206, 0x914D]),
     (''unattributed'', utf8 [0x672A, 0x6B78, 0x5C6C]),
     (''model'', utf8 [0x6A21, 0x578B]),
     (''requests'', utf8 [0x8ACB, 0x6C42]),
     (''tokens'', ''Tokens''),
     (''inviteTitle'', ''%s '' @ utf8 [0x7684, 0x52A0, 0x5165, 0x9023, 0x7D50]),
     (''inviteNote'', utf8 [0x53EA, 0x80FD, 0x4F7F, 0x7528, 0x4E00, 0x6B21, 0xFF0C] @ ''%s '' @ utf8 [0x524D, 0x6709, 0x6548, 0x3002, 0x95DC, 0x9589, 0x6B64, 0x9801, 0x5F8C, 0x7121, 0x6CD5, 0x518D, 0x6B21, 0x986F, 0x793A, 0x3002]),
     (''name'', utf8 [0x540D, 0x7A31]),
     (''addPerson'', utf8 [0x65B0, 0x589E, 0x6210, 0x54E1]),
     (''devices'', utf8 [0x88DD, 0x7F6E]),
     (''createInvite'', utf8 [0x7522, 0x751F, 0x52A0, 0x5165, 0x9023, 0x7D50]),
     (''noPeople'', utf8 [0x6C92, 0x6709, 0x6210, 0x54E1]),
     (''nameRequired'', utf8 [0x8ACB, 0x8F38, 0x5165, 0x540D, 0x7A31]),
     (''nameTooLong'', utf8 [0x540D, 0x7A31, 0x4E0D, 0x53EF, 0x8D85, 0x904E] @ '' 50 '' @ utf8 [0x5B57]),
     (''nameTaken'', utf8 [0x5DF2, 0x6709, 0x540C, 0x540D, 0x6210, 0x54E1]),
     (''accountName'', utf8 [0x5E33, 0x865F, 0x540D, 0x7A31]),
     (''rename'', utf8 [0x91CD, 0x65B0, 0x547D, 0x540D]),
     (''weight'', utf8 [0x6B0A, 0x91CD]),
     (''weightFor'', ''%s '' @ utf8 [0x7684, 0x6B0A, 0x91CD]),
     (''notAllotted'', utf8 [0x4E0D, 0x5206, 0x914D]),
     (''addMember'', utf8 [0x52A0, 0x5165, 0x6210, 0x54E1, 0x2026]),
     (''newMemberWeight'', utf8 [0x65B0, 0x6210, 0x54E1, 0x7684, 0x6B0A, 0x91CD]),
     (''saveShares'', utf8 [0x5132, 0x5B58, 0x5206, 0x914D]),
     (''labelLength'', utf8 [0x540D, 0x7A31, 0x9700, 0x70BA] @ '' 1 '' @ utf8 [0x5230] @ '' 50 '' @ utf8 [0x5B57]),
     (''weightRange'', utf8 [0x6B0A, 0x91CD, 0x9700, 0x70BA] @ '' 0 '' @ utf8 [0x5230] @ '' 100 '' @ utf8 [0x7684, 0x6578, 0x5B57]),
     (''personNotFound'', utf8 [0x627E, 0x4E0D, 0x5230, 0x8A72, 0x6210, 0x54E1]),
     (''device'', utf8 [0x88DD, 0x7F6E]),
     (''platform'', utf8 [0x7CFB, 0x7D71]),
     (''lastSeen'', utf8 [0x6700, 0x5F8C, 0x9023, 0x7DDA]),
     (''revoked'', utf8 [0x5DF2, 0x64A4, 0x92B7]),
     (''revoke'', utf8 [0x64A4, 0x92B7]),
     (''revokeConfirm'', utf8 [0x64A4, 0x92B7, 0x9019, 0x53F0, 0x88DD, 0x7F6E, 0xFF1F, 0x8A72, 0x88DD, 0x7F6E, 0x5C07, 0x7121, 0x6CD5, 0x518D, 0x540C, 0x6B65, 0xFF0C, 0x5DF2, 0x4E0A, 0x50B3, 0x7684, 0x7D00, 0x9304, 0x6703, 0x4FDD, 0x7559, 0x3002]),
     (''noDevices'', utf8 [0x6C92, 0x6709, 0x88DD, 0x7F6E]),
     (''fiveHour'', ''5 '' @ utf8 [0x5C0F, 0x6642]),
     (''weekly'', utf8 [0x6BCF, 0x9031]),
     (''days'', ''%d '' @ utf8 [0x5929]),
     (''hours'', ''%d '' @ utf8 [0x5C0F, 0x6642]),
     (''minutes'', ''%d '' @ utf8 [0x5206, 0x9418]),
     (''language'', utf8 [0x8A9E, 0x8A00]),
     (''navUsage'', utf8 [0x7528, 0x91CF]),
     (''navSettings'', utf8 [0x8A2D, 0x5B9A]),
     (''dashboard'', utf8 [0x5100, 0x8868, 0x677F]),
     (''inUse'', utf8 [0x4F7F, 0x7528, 0x4E2D]),
     (''updatedAt'', ''%s '' @ utf8 [0x66F4, 0x65B0]),
     (''thirdPartyModels'', utf8 [0x7B2C, 0x4E09, 0x65B9, 0x6A21, 0x578B]),
     (''totalTokens'', utf8 [0x7E3D] @ '' tokens''),
     (''input'', utf8 [0x8F38, 0x5165]),
     (''cachedShare'', utf8 [0x5FEB, 0x53D6] @ '' %s''),
     (''output'', utf8 [0x8F38, 0x51FA]),
     (''estCost'', utf8 [0x4F30, 0x8A08, 0x8CBB, 0x7528]),
     (''usageOverTime'', ''Tokens '' @ utf8 [0x7528, 0x91CF, 0x8DA8, 0x52E2]),
     (''online'', utf8 [0x9023, 0x7DDA, 0x4E2D]),
     (''signedInTo'', utf8 [0x767B, 0x5165, 0x5E33, 0x865F]),
     (''account'', utf8 [0x5E33, 0x865F]),
     (''noUsage'', utf8 [0x6C92, 0x6709, 0x7528, 0x91CF]),
     (''publicDashboard'', utf8 [0x516C, 0x958B, 0x5100, 0x8868, 0x677F]),
     (''publish'', utf8 [0x516C, 0x958B]),
     (''publicNote'', utf8 [0x4EFB, 0x4F55, 0x77E5, 0x9053, 0x7DB2, 0x5740, 0x7684, 0x4EBA, 0x90FD, 0x80FD, 0x770B, 0x5230, 0x5404, 0x5E33, 0x865F, 0x7684, 0x984D, 0x5EA6, 0x3001, 0x6210, 0x54E1, 0x540D, 0x7A31, 0x8207, 0x4F30, 0x8A08, 0x7528, 0x91CF, 0xFF0C, 0x4E0D, 0x6703, 0x986F, 0x793A, 0x96FB, 0x5B50, 0x90F5, 0x4EF6, 0x8207, 0x88DD, 0x7F6E, 0x540D, 0x7A31, 0x3002]),
     (''save'', utf8 [0x5132, 0x5B58]),
     (''published'', utf8 [0x5DF2, 0x516C, 0x958B]),
     (''notPublished'', utf8 [0x672A, 0x516C, 0x958B]),
     (''preview'', utf8 [0x9810, 0x89BD]),
     (''previewNote'', utf8 [0x9810, 0x89BD, 0x3002, 0x516C, 0x958B, 0x524D, 0x53EA, 0x6709, 0x5DF2, 0x767B, 0x5165, 0x7684, 0x7BA1, 0x7406, 0x54E1, 0x80FD, 0x770B, 0x5230, 0x6B64, 0x9801, 0x3002]),
     (''last30Days'', ''30 '' @ utf8 [0x5929]),
     (''models'', utf8 [0x6A21, 0x578B]),
     (''accountN'', utf8 [0x5E33, 0x865F] @ '' %d''),
     (''cumulative'', utf8 [0x7D2F, 0x7A4D]),
     (''delete'', utf8 [0x522A, 0x9664]),
     (''sortBy'', utf8 [0x6392, 0x5E8F]),
     (''sortCustom'', utf8 [0x81EA, 0x8A02]),
     (''reorder'', utf8 [0x8ABF, 0x6574, 0x9806, 0x5E8F]),
     (''planHistory'', utf8 [0x65B9, 0x6848, 0x6B77, 0x53F2]),
     (''addPlanInterval'', utf8 [0x65B0, 0x589E, 0x65B9, 0x6848, 0x5340, 0x9593]),
     (''effectiveAt'', utf8 [0x751F, 0x6548, 0x6642, 0x9593]),
     (''endedAt'', utf8 [0x7D50, 0x675F, 0x6642, 0x9593]),
     (''reason'', utf8 [0x539F, 0x56E0]),
     (''precision'', utf8 [0x7CBE, 0x78BA, 0x5EA6]),
     (''savePlan'', utf8 [0x5132, 0x5B58, 0x65B9, 0x6848]),
     (''deletePlanConfirm'', utf8 [0x522A, 0x9664, 0x6B64, 0x65B9, 0x6848, 0x5340, 0x9593, 0xFF1F]),
     (''capacity'', utf8 [0x5BB9, 0x91CF, 0x6A21, 0x64EC]),
     (''rollingPeak'', ''5 '' @ utf8 [0x5C0F, 0x6642, 0x6EFE, 0x52D5, 0x5C16, 0x5CF0]),
     (''scenarios'', utf8 [0x60C5, 0x5883, 0x6A21, 0x64EC]),
     (''plan'', utf8 [0x65B9, 0x6848]),
     (''limit'', utf8 [0x9650, 0x984D]),
     (''samples'', utf8 [0x6A23, 0x672C]),
     (''rate'', ''% / US$''),
     (''range'', utf8 [0x7BC4, 0x570D]),
     (''capacityColumn'', utf8 [0x5BB9, 0x91CF]),
     (''observedMultiple'', utf8 [0x5BE6, 0x6E2C]),
     (''officialMultiple'', utf8 [0x5B98, 0x65B9]),
     (''calibration'', utf8 [0x6821, 0x6E96]),
     (''observedWindows'', ''5 '' @ utf8 [0x5C0F, 0x6642, 0x8996, 0x7A97]),
     (''start'', utf8 [0x958B, 0x59CB]),
     (''end'', utf8 [0x7D50, 0x675F]),
     (''apply'', utf8 [0x5957, 0x7528]),
     (''rangeInvalid'', utf8 [0x8ACB, 0x8F38, 0x5165, 0x6709, 0x6548, 0x7BC4, 0x570D]),
     (''actual'', utf8 [0x5BE6, 0x969B]),
     (''predicted'', utf8 [0x9810, 0x6E2C]),
     (''atLimit'', utf8 [0x9054] @ '' 100%''),
     (''unknownPlan'', utf8 [0x4E0D, 0x660E]),
     (''saturation'', utf8 [0x9054] @ '' 100% '' @ utf8 [0x7684, 0x8996, 0x7A97]),
     (''windows'', utf8 [0x8996, 0x7A97]),
     (''scenario'', utf8 [0x60C5, 0x5883]),
     (''limitHits'', utf8 [0x89F8, 0x53CA, 0x4E0A, 0x9650]),
     (''firstHit'', utf8 [0x9996, 0x6B21, 0x89F8, 0x53CA]),
     (''peak'', utf8 [0x5C16, 0x5CF0]),
     (''blocked'', utf8 [0x53D7, 0x963B]),
     (''formula'', utf8 [0x7B97, 0x5F0F]),
     (''formulaCapacity'', utf8 [0x5BB9, 0x91CF] @ '' = 100 '' @ utf8 [0x00F7] @ '' '' @ utf8 [0x6BD4, 0x7387, 0xFF08] @ ''% / US$'' @ utf8 [0xFF09, 0x3002, 0x5C16, 0x5CF0] @ '' = '' @ utf8 [0x7528, 0x91CF] @ '' '' @ utf8 [0x00F7] @ '' '' @ utf8 [0x5BB9, 0x91CF, 0x3002]),
     (''replayNote'', utf8 [0x7D00, 0x9304, 0x7684, 0x7528, 0x91CF, 0x5728, 0x4F9B, 0x61C9, 0x5546, 0x62D2, 0x7D55, 0x8ACB, 0x6C42, 0x8655, 0x4E2D, 0x65B7, 0xFF0C, 0x91CD, 0x64AD, 0x7D50, 0x679C, 0x53EF, 0x80FD, 0x4F4E, 0x4F30, 0x5BE6, 0x969B, 0x9700, 0x6C42, 0x3002]),
     (''basisMeasured'', utf8 [0x5BE6, 0x6E2C]),
     (''basisDerived'', utf8 [0x63A8, 0x7B97]),
     (''basisInsufficient'', utf8 [0x8CC7, 0x6599, 0x4E0D, 0x8DB3]),
     (''fitSafe'', utf8 [0x5B89, 0x5168]),
     (''fitBorderline'', utf8 [0x81E8, 0x754C]),
     (''fitOver'', utf8 [0x8D85, 0x51FA]),
     (''loggedAt'', utf8 [0x6642, 0x9593]),
     (''loggedLimits'', utf8 [0x5DF2, 0x8A18, 0x9304, 0x4E0A, 0x9650]),
     (''limitLogged'', utf8 [0x5DF2, 0x8A18, 0x9304, 0x4E0A, 0x9650]),
     (''limitKind5h'', ''5 '' @ utf8 [0x5C0F, 0x6642, 0x4E0A, 0x9650]),
     (''limitKindWeekly'', utf8 [0x6BCF, 0x9031, 0x4E0A, 0x9650]),
     (''limitKindModelSpecific'', utf8 [0x6A21, 0x578B, 0x4E0A, 0x9650]),
     (''limitKindOverload'', utf8 [0x904E, 0x8F09]),
     (''limitKindProvider429'', utf8 [0x9598, 0x9053, 0x7BC0, 0x6D41]),
     (''limitKindAuth'', utf8 [0x9A57, 0x8B49]),
     (''limitKindUnknown'', utf8 [0x4E0D, 0x660E]),
     (''limitEvidenceFiveHour'', ''5 '' @ utf8 [0x5C0F, 0x6642]),
     (''limitEvidenceSevenDay'', ''7 '' @ utf8 [0x65E5]),
     (''limitEvidenceSessionLimit'', utf8 [0x5DE5, 0x4F5C, 0x968E, 0x6BB5, 0x4E0A, 0x9650]),
     (''limitEvidenceWeeklyLimit'', utf8 [0x6BCF, 0x9031, 0x4E0A, 0x9650]),
     (''limitEvidenceExtraUsage'', utf8 [0x984D, 0x5916, 0x7528, 0x91CF]),
     (''limitEvidenceGateway'', utf8 [0x9598, 0x9053]),
     (''limitEvidenceOverloaded'', utf8 [0x904E, 0x8F09]),
     (''limitEvidenceAuth'', utf8 [0x9A57, 0x8B49]),
     (''excludedUnknownPlan'', utf8 [0x65B9, 0x6848, 0x4E0D, 0x660E]),
     (''excludedPlanChanged'', utf8 [0x65B9, 0x6848, 0x8B8A, 0x66F4]),
     (''excludedNoSample'', utf8 [0x7121, 0x53EF, 0x7528, 0x8B80, 0x6578]),
     (''excludedLowCost'', utf8 [0x7528, 0x91CF, 0x904E, 0x5C11]),
     (''reasonUnsupportedProvider'', utf8 [0x50C5, 0x652F, 0x63F4] @ '' Claude '' @ utf8 [0x65B9, 0x6848]),
     (''scenarioSharedMax5'', utf8 [0x5171, 0x7528] @ '' Max 5x''),
     (''scenarioSeparateMax5'', utf8 [0x500B, 0x5225] @ '' Max 5x''),
     (''scenarioSharedMax20'', utf8 [0x5171, 0x7528] @ '' Max 20x''),
     (''precisionConfirmed'', utf8 [0x5DF2, 0x78BA, 0x8A8D]),
     (''precisionInferred'', utf8 [0x63A8, 0x5B9A]),
     (''planRequired'', utf8 [0x8ACB, 0x8F38, 0x5165, 0x65B9, 0x6848]),
     (''planTimeInvalid'', utf8 [0x8ACB, 0x8F38, 0x5165, 0x6709, 0x6548, 0x6642, 0x9593]),
     (''planEndInvalid'', utf8 [0x7D50, 0x675F, 0x6642, 0x9593, 0x9700, 0x665A, 0x65BC, 0x751F, 0x6548, 0x6642, 0x9593]),
     (''planOverlap'', utf8 [0x8207, 0x65E2, 0x6709, 0x5340, 0x9593, 0x91CD, 0x758A]),
     (''deleteAccountConfirm'', utf8 [0x522A, 0x9664, 0x9019, 0x500B, 0x5E33, 0x865F, 0xFF1F, 0x5B83, 0x7684, 0x7528, 0x91CF, 0x8207, 0x984D, 0x5EA6, 0x7D00, 0x9304, 0x6703, 0x4E00, 0x4F75, 0x522A, 0x9664, 0x3002, 0x4ECD, 0x767B, 0x5165, 0x6B64, 0x5E33, 0x865F, 0x7684, 0x88DD, 0x7F6E, 0x4E0B, 0x6B21, 0x540C, 0x6B65, 0x6642, 0x6703, 0x518D, 0x52A0, 0x56DE, 0x4F86, 0x3002]),
     (''deletePersonConfirm'', utf8 [0x522A, 0x9664, 0x9019, 0x4F4D, 0x6210, 0x54E1, 0xFF1F, 0x5176, 0x88DD, 0x7F6E, 0x5C07, 0x7121, 0x6CD5, 0x518D, 0x540C, 0x6B65, 0xFF0C, 0x5DF2, 0x4E0A, 0x50B3, 0x7684, 0x7528, 0x91CF, 0x6703, 0x4E00, 0x4F75, 0x522A, 0x9664, 0x3002])]"

definition dictionaries :: "(string, (string, string) gomap) gomap" where
  "dictionaries = [(''en'', english), (''zh-TW'', chinese)]"

definition langCookie :: string where "langCookie = ''sharecodex_lang''"
definition defaultLang :: string where "defaultLang = ''en''"

text \<open>The language of a request that carries the first cookie of the name, if any.\<close>

definition requestLang :: "string option \<Rightarrow> string" where
  "requestLang cookie =
     (case cookie of None \<Rightarrow> defaultLang
      | Some v \<Rightarrow> if map_of dictionaries v \<noteq> None then v else defaultLang)"

definition dictionary :: "string \<Rightarrow> (string, string) gomap" where
  "dictionary lang = get_or [] dictionaries lang"

section \<open>Both languages say the same\<close>

text \<open>The verbs of a format, in order.\<close>

fun verbs :: "string \<Rightarrow> char list" where
  "verbs [] = []"
| "verbs (c # s) = (if c = CHR ''%'' \<and> s \<noteq> [] \<and> (hd s = CHR ''s'' \<or> hd s = CHR ''d'') then hd s # verbs s else verbs s)"

lemma verbs_no_percent: "CHR ''%'' \<notin> set p \<Longrightarrow> verbs (p @ s) = verbs s"
  by (induction p) auto

lemma verbs_utf8 [simp]:
  "list_all (\<lambda>n. 128 \<le> n \<and> n < 65536) ns \<Longrightarrow> verbs (utf8 ns @ s) = verbs s"
  "list_all (\<lambda>n. 128 \<le> n \<and> n < 65536) ns \<Longrightarrow> verbs (utf8 ns) = []"
  using verbs_no_percent[OF utf8_no_percent, of ns s] verbs_no_percent[OF utf8_no_percent, of ns "[]"] by simp_all

lemma requestLang_known: "requestLang cookie \<in> {''en'', ''zh-TW''}"
  by (auto simp: requestLang_def defaultLang_def dictionaries_def split: option.splits if_splits)

lemma dictionaries_same_keys: "map fst chinese = map fst english"
  by (simp add: english_def chinese_def)

lemma dictionaries_same_verbs: "map (verbs \<circ> snd) chinese = map (verbs \<circ> snd) english"
  by (simp add: english_def chinese_def)

text \<open>The codes of a report that the page translates: every kind of each, but the evidence of limits Anthropic may add.\<close>

definition report_codes :: "(string \<times> string) list" where
  "report_codes =
     map (\<lambda>code. (''basis'', code)) [BasisMeasured, BasisDerived, BasisInsufficient] @
     map (\<lambda>code. (''fit'', code)) [FitSafe, FitBorderline, FitOver] @
     map (\<lambda>code. (''excluded'', code)) [ExcludedUnknownPlan, ExcludedPlanChanged, ExcludedNoSample, ExcludedLowCost] @
     map (\<lambda>code. (''limitKind'', code)) [LimitFiveHour, LimitWeekly, LimitModelSpecific, LimitOverload, LimitProvider429, LimitAuth, LimitUnknown] @
     map (\<lambda>code. (''limitEvidence'', code)) [''five_hour'', ''seven_day'', ''session_limit'', ''weekly_limit'', ''extra_usage'', ''gateway'', ''overloaded'', ''auth''] @
     map (\<lambda>code. (''precision'', code)) [PrecisionConfirmed, PrecisionInferred] @
     map (\<lambda>code. (''reason'', code)) [CapacityReasonUnsupportedProvider] @
     map (\<lambda>sc. (''scenario'', fst sc)) capacityScenarios"

lemma report_keys:
  "map (\<lambda>(pre, code). code_key pre code) report_codes =
     [''basisMeasured'', ''basisDerived'', ''basisInsufficient'', ''fitSafe'', ''fitBorderline'', ''fitOver'',
      ''excludedUnknownPlan'', ''excludedPlanChanged'', ''excludedNoSample'', ''excludedLowCost'',
      ''limitKind5h'', ''limitKindWeekly'', ''limitKindModelSpecific'', ''limitKindOverload'', ''limitKindProvider429'',
      ''limitKindAuth'', ''limitKindUnknown'', ''limitEvidenceFiveHour'', ''limitEvidenceSevenDay'',
      ''limitEvidenceSessionLimit'', ''limitEvidenceWeeklyLimit'', ''limitEvidenceExtraUsage'', ''limitEvidenceGateway'',
      ''limitEvidenceOverloaded'', ''limitEvidenceAuth'', ''precisionConfirmed'', ''precisionInferred'',
      ''reasonUnsupportedProvider'', ''scenarioSharedMax5'', ''scenarioSeparateMax5'', ''scenarioSharedMax20'']"
  by code_simp

lemma report_keys_known: "set (map (\<lambda>(pre, code). code_key pre code) report_codes) \<subseteq> set (map fst english)"
  unfolding report_keys by (simp add: english_def)

text \<open>
  The dictionaries agree: whatever language a request asks for, its dictionary has the keys of the English
  one, each text takes the arguments the English one takes, and every code of a report has a text.
\<close>

theorem dictionaries_agree:
  "let t = dictionary (requestLang cookie) in
     map fst t = map fst english \<and> map (verbs \<circ> snd) t = map (verbs \<circ> snd) english \<and>
     list_all (\<lambda>(pre, code). has_key t (code_key pre code)) report_codes"
proof -
  have "dictionary (requestLang cookie) \<in> {english, chinese}"
    using requestLang_known[of cookie] by (auto simp: dictionary_def dictionaries_def get_or_def)
  then have keys: "map fst (dictionary (requestLang cookie)) = map fst english"
    and verbs: "map (verbs \<circ> snd) (dictionary (requestLang cookie)) = map (verbs \<circ> snd) english"
    using dictionaries_same_keys dictionaries_same_verbs by auto
  have "has_key (dictionary (requestLang cookie)) k" if "k \<in> set (map fst english)" for k
    using that unfolding keys[symmetric] by (simp add: has_key_def map_of_eq_None_iff)
  then have "list_all (\<lambda>(pre, code). has_key (dictionary (requestLang cookie)) (code_key pre code)) report_codes"
    using report_keys_known by (force simp: list_all_iff)
  then show ?thesis using keys verbs by (simp add: Let_def)
qed

end
