(* ===== verification/AdminConsole.thy ===== *)
theory AdminConsole
  imports AdminViews AdminDictionary HttpApi
begin

text \<open>
  The admin console and the public dashboard (\<open>internal/server/admin/admin.go\<close>, \<open>dashboard.go\<close> and the
  handlers of \<open>i18n.go\<close>). A request is its route with what the handler reads of it, the session cookies it
  carries, its language cookie and what tells its origin; a response its status, the cookies it sets and
  a redirect, a page or a plain text. A page is the data its template gets. The clock, random IDs
  and secrets and the collation are the record \<open>api_env\<close> of the API, read once for a request; reading a
  number is \<open>ae_Float\<close>, \<open>None\<close> for what is not a finite one. Headers that do not vary and logging are left out.
\<close>

section \<open>Requests and responses\<close>

record admin_env =
  ae_Api :: api_env
  ae_Float :: "string \<Rightarrow> f64 option"

abbreviation ae_Now :: "admin_env \<Rightarrow> time" where "ae_Now E \<equiv> en_now (ae_Api E)"
abbreviation ae_tlt :: "admin_env \<Rightarrow> string \<Rightarrow> string \<Rightarrow> bool" where "ae_tlt E \<equiv> en_tlt (ae_Api E)"

text \<open>A posted form: whether \<open>ParseForm\<close> fails, and the values read of it.\<close>

record form =
  fm_Bad :: bool
  fm_Values :: "(string, string list) gomap"

definition PostFormValue :: "form \<Rightarrow> string \<Rightarrow> string" where
  "PostFormValue f key = (case get_or [] (fm_Values f) key of [] \<Rightarrow> [] | v # _ \<Rightarrow> v)"

type_synonym url_query = "(string, string) gomap"

datatype admin_request =
    SetLang string string
  | LoginPage
  | Login form
  | Logout
  | OverviewPage
  | PeoplePage
  | PostPerson form
  | PostInvite string
  | PostDeletePerson string
  | AccountsPage
  | PostLabel string form
  | PostShares string form
  | PlansPage string
  | PostPlan string form
  | PostDeletePlan string string
  | CapacityPage string url_query
  | PostDeleteAccount string
  | PostOrder form
  | DevicesPage
  | PostRevoke string
  | UsagePage url_query
  | SettingsPage
  | PostSettings form
  | Root
  | Dashboard
  | DashboardUsage url_query
  | DashboardCapacity url_query
  | Manifest
  | Icon string

record admin_call =
  aq_Request :: admin_request
  aq_Sessions :: "string list"
  aq_Lang :: "string option"
  aq_SecFetchSite :: string
  aq_Origin :: string
  aq_OriginIsHost :: bool

record set_cookie =
  ck_Name :: string
  ck_Value :: string
  ck_Path :: string
  ck_MaxAge :: int
  ck_HttpOnly :: bool
  ck_Secure :: bool
  ck_SameSite :: string

record invite_view =
  in_Person :: string
  in_Link :: string
  in_Expires :: time

record person_row_view =
  pv_Person :: person
  pv_ActiveDevices :: int
  pv_LastSeenAt :: "time option"
  pv_Month :: usage_totals

record member_row =
  mw_PersonID :: string
  mw_Name :: string
  mw_Weight :: f64
  mw_AllottedPercent :: f64

record account_row_view =
  ax_ID :: string
  ax_Provider :: string
  ax_Label :: string
  ax_Hint :: string
  ax_PlanType :: string
  ax_Members :: "member_row list"
  ax_Others :: "person list"

record plan_form =
  pm_Plan :: string
  pm_Precision :: string
  pm_Reason :: string
  pm_EffectiveLocal :: string
  pm_EndedLocal :: string

record device_row_view =
  dx_Device :: device_listing
  dx_Online :: bool
  dx_SignedIn :: "string list"
  dx_Month :: usage_totals

record usage_data =
  ud_Path :: string
  ud_Period :: string
  ud_Report :: usage_report
  ud_Member :: "person option"
  ud_ShowDevices :: bool

record public_data =
  pb_GeneratedAt :: time
  pb_Preview :: bool

datatype page_data =
    NoData
  | OverviewData "account_view list" usage_totals usage_totals
  | PeopleData "person_row_view list" "invite_view option"
  | AccountsData "account_row_view list"
  | PlansData account "plan_interval list" "string list" plan_form
  | CapacityData capacity_report
  | DevicesData "device_row_view list"
  | UsageData usage_data
  | SettingsData bool string
  | DashboardData public_data "account_view list"
  | DashboardUsageData public_data usage_data
  | DashboardCapacityData public_data string "(string \<times> string) list" "(string \<times> capacity_report) option"

record page =
  pg_Name :: string
  pg_Title :: string
  pg_Error :: string
  pg_Authed :: bool
  pg_Public :: bool
  pg_Lang :: string
  pg_Here :: string
  pg_Version :: string
  pg_Data :: page_data

datatype admin_body = RedirectTo string | Page page | PlainText string | ManifestJSON | IconFile string | Dropped

record admin_response =
  ap_Status :: int
  ap_Cookies :: "set_cookie list"
  ap_Body :: admin_body

definition StatusSeeOther :: int where "StatusSeeOther = 303"
definition StatusUnprocessableEntity :: int where "StatusUnprocessableEntity = 422"

definition redirect :: "string \<Rightarrow> admin_response" where
  "redirect path = \<lparr>ap_Status = StatusSeeOther, ap_Cookies = [], ap_Body = RedirectTo path\<rparr>"

definition http_error :: "int \<Rightarrow> string \<Rightarrow> admin_response" where
  "http_error status msg = \<lparr>ap_Status = status, ap_Cookies = [], ap_Body = PlainText msg\<rparr>"

definition not_found :: admin_response where "not_found = http_error StatusNotFound ''404 page not found''"
definition fail :: admin_response where "fail = http_error StatusInternalServerError ''Internal server error''"

text \<open>A panic, which closes the connection.\<close>

definition dropped :: admin_response where "dropped = \<lparr>ap_Status = 0, ap_Cookies = [], ap_Body = Dropped\<rparr>"

section \<open>The console\<close>

definition MinPasswordLength :: nat where "MinPasswordLength = 12"
definition sessionCookie :: string where "sessionCookie = ''sharecodex_admin''"
definition sessionTTL :: duration where "sessionTTL = 12 * hour"
definition dashboardPath :: string where "dashboardPath = ''/dashboard''"
definition dashboardUsagePath :: string where "dashboardUsagePath = ''/dashboard/usage''"
definition dashboardCapacityPath :: string where "dashboardCapacityPath = ''/dashboard/capacity''"
definition dashboardTTL :: duration where "dashboardTTL = 30 * second"

type_synonym 'a ttl_cache = "(string, time \<times> 'a) gomap"

record console =
  co_password :: string
  co_publicURL :: string
  co_version :: string
  co_sessions :: "(string, time) gomap"
  co_overview :: "overview ttl_cache"
  co_usage :: "usage_report ttl_cache"
  co_capacity :: "capacity_report ttl_cache"

datatype config_refused = PasswordTooShort | NoPublicURL

definition New_console :: "(string \<Rightarrow> string) \<Rightarrow> string \<Rightarrow> string \<Rightarrow> string \<Rightarrow> config_refused + console" where
  "New_console sha password publicURL version =
     (if length password < MinPasswordLength then Inl PasswordTooShort
      else if publicURL = [] then Inl NoPublicURL
      else Inr \<lparr>co_password = sha password, co_publicURL = rev (dropWhile (\<lambda>c. c = CHR ''/'') (rev publicURL)), co_version = version,
        co_sessions = [], co_overview = [], co_usage = [], co_capacity = []\<rparr>)"

type_synonym handled = "admin_response \<times> console \<times> db"

definition navPaths :: "(string, string) gomap" where
  "navPaths = [(''overview'', ''/admin/''), (''usage'', ''/admin/usage''), (''people'', ''/admin/people''),
     (''accounts'', ''/admin/accounts''), (''devices'', ''/admin/devices''), (''settings'', ''/admin/settings''),
     (''dashboard'', dashboardPath), (''dashboardUsage'', dashboardUsagePath), (''dashboardCapacity'', dashboardCapacityPath)]"

text \<open>\<open>render\<close>: title and error are keys of the dictionary, the texts of which the page shows.\<close>

record page_spec =
  ps_Title :: string
  ps_Nav :: string
  ps_Error :: string
  ps_Authed :: bool
  ps_Public :: bool

definition render :: "console \<Rightarrow> admin_call \<Rightarrow> string \<Rightarrow> int \<Rightarrow> page_spec \<Rightarrow> page_data \<Rightarrow> admin_response" where
  "render c q name status p d =
     (let lang = requestLang (aq_Lang q); t = dictionary lang
      in \<lparr>ap_Status = status, ap_Cookies = [], ap_Body = Page
           \<lparr>pg_Name = name, pg_Title = get_or [] t (ps_Title p), pg_Error = (if ps_Error p \<noteq> [] then get_or [] t (ps_Error p) else []),
            pg_Authed = ps_Authed p, pg_Public = ps_Public p, pg_Lang = lang,
            pg_Here = get_or ''/admin/login'' navPaths (ps_Nav p), pg_Version = co_version c, pg_Data = d\<rparr>\<rparr>)"

definition login_spec :: "string \<Rightarrow> page_spec" where
  "login_spec err = \<lparr>ps_Title = ''login'', ps_Nav = [], ps_Error = err, ps_Authed = False, ps_Public = False\<rparr>"

definition admin_spec :: "string \<Rightarrow> string \<Rightarrow> string \<Rightarrow> page_spec" where
  "admin_spec title nav err = \<lparr>ps_Title = title, ps_Nav = nav, ps_Error = err, ps_Authed = True, ps_Public = False\<rparr>"

definition public_spec :: "string \<Rightarrow> string \<Rightarrow> string \<Rightarrow> page_spec" where
  "public_spec title nav err = \<lparr>ps_Title = title, ps_Nav = nav, ps_Error = err, ps_Authed = False, ps_Public = True\<rparr>"

section \<open>Sessions\<close>

definition validSession :: "time \<Rightarrow> string \<Rightarrow> (string, time) gomap \<Rightarrow> bool \<times> (string, time) gomap" where
  "validSession now i live =
     (case map_of live i of
        None \<Rightarrow> (False, live)
      | Some expires \<Rightarrow> if now > expires then (False, filter (\<lambda>(k, _). k \<noteq> i) live) else (True, live))"

fun signedIn :: "time \<Rightarrow> string list \<Rightarrow> (string, time) gomap \<Rightarrow> bool \<times> (string, time) gomap" where
  "signedIn now [] live = (False, live)"
| "signedIn now (i # ids) live =
     (case validSession now i live of (ok, live) \<Rightarrow> if ok then (True, live) else signedIn now ids live)"

definition admin_authed :: "admin_env \<Rightarrow> admin_call \<Rightarrow> (console \<Rightarrow> db \<Rightarrow> handled) \<Rightarrow> console \<Rightarrow> db \<Rightarrow> handled" where
  "admin_authed E q handler c s =
     (case signedIn (ae_Now E) (aq_Sessions q) (co_sessions c) of (ok, live) \<Rightarrow>
        let c = c\<lparr>co_sessions := live\<rparr> in if ok then handler c s else (redirect ''/admin/login'', c, s))"

definition session_cookie_cleared :: "string \<Rightarrow> set_cookie" where
  "session_cookie_cleared path =
     \<lparr>ck_Name = sessionCookie, ck_Value = [], ck_Path = path, ck_MaxAge = - 1, ck_HttpOnly = False, ck_Secure = False, ck_SameSite = []\<rparr>"

definition secure_site :: "console \<Rightarrow> bool" where
  "secure_site c = has_prefix (co_publicURL c) ''https://''"

definition login_handler :: "admin_env \<Rightarrow> admin_call \<Rightarrow> form \<Rightarrow> console \<Rightarrow> db \<Rightarrow> handled" where
  "login_handler E q f c s =
     (if en_sha (ae_Api E) (PostFormValue f ''password'') \<noteq> co_password c
      then (render c q ''login'' StatusUnauthorized (login_spec ''wrongPassword'') NoData, c, s)
      else let i = en_secret (ae_Api E); now = ae_Now E in
        ((redirect ''/admin/'')\<lparr>ap_Cookies := [session_cookie_cleared ''/admin'',
            \<lparr>ck_Name = sessionCookie, ck_Value = i, ck_Path = ''/'', ck_MaxAge = sessionTTL div second, ck_HttpOnly = True,
             ck_Secure = secure_site c, ck_SameSite = ''Strict''\<rparr>]\<rparr>,
         c\<lparr>co_sessions := put i (now + sessionTTL) (filter (\<lambda>(_, expires). \<not> now > expires) (co_sessions c))\<rparr>, s))"

definition logout_handler :: "admin_call \<Rightarrow> console \<Rightarrow> db \<Rightarrow> handled" where
  "logout_handler q c s =
     ((redirect ''/admin/login'')\<lparr>ap_Cookies := [session_cookie_cleared ''/admin'', session_cookie_cleared ''/'']\<rparr>,
      c\<lparr>co_sessions := filter (\<lambda>(k, _). k \<notin> set (aq_Sessions q)) (co_sessions c)\<rparr>, s)"

section \<open>Languages\<close>

definition lang_destination :: "string \<Rightarrow> string" where
  "lang_destination next' =
     (if next' \<noteq> dashboardPath \<and> next' \<noteq> dashboardUsagePath \<and>
         (\<not> has_prefix next' ''/admin/'' \<or> has_prefix next' ''//'' \<or> contains next' [CHR 0x5C])
      then ''/admin/'' else next')"

definition setLang :: "string \<Rightarrow> string \<Rightarrow> console \<Rightarrow> db \<Rightarrow> handled" where
  "setLang lang next' c s =
     (if map_of dictionaries lang = None then (not_found, c, s)
      else ((redirect (lang_destination next'))\<lparr>ap_Cookies :=
          [\<lparr>ck_Name = langCookie, ck_Value = [], ck_Path = ''/admin'', ck_MaxAge = - 1, ck_HttpOnly = False, ck_Secure = False, ck_SameSite = []\<rparr>,
           \<lparr>ck_Name = langCookie, ck_Value = lang, ck_Path = ''/'', ck_MaxAge = 365 * 24 * hour div second, ck_HttpOnly = True,
            ck_Secure = secure_site c, ck_SameSite = ''Lax''\<rparr>]\<rparr>, c, s))"

section \<open>People\<close>

definition account_hints :: "admin_env \<Rightarrow> db \<Rightarrow> (string, string) gomap" where
  "account_hints E s = fold (\<lambda>a. put (acc_ID a) (acc_Hint a)) (Accounts (ae_tlt E) s) []"

definition overview_page :: "admin_env \<Rightarrow> admin_call \<Rightarrow> console \<Rightarrow> db \<Rightarrow> handled" where
  "overview_page E q c s =
     (let now = ae_Now E; ov = Overview (ae_tlt E) [] now now s; t = dictionary (requestLang (aq_Lang q))
      in (render c q ''overview'' StatusOK (admin_spec ''navOverview'' ''overview'' [])
            (OverviewData (accountViews ov (account_hints E s) now t)
               (re_Total (Usage (ae_tlt E) (now - 24 * hour) s)) (re_Total (Usage (ae_tlt E) (now - 30 * 24 * hour) s))), c, s))"

definition later_seen :: "time option \<Rightarrow> time option \<Rightarrow> time option" where
  "later_seen new old =
     (case new of None \<Rightarrow> old | Some t \<Rightarrow> (case old of None \<Rightarrow> Some t | Some u \<Rightarrow> if t > u then Some t else Some u))"

definition peopleData :: "admin_env \<Rightarrow> db \<Rightarrow> person_row_view list" where
  "peopleData E s =
     (let devices = Devices (ae_tlt E) s;
          report = Usage (ae_tlt E) (ae_Now E - 30 * 24 * hour) s;
          month = fold (\<lambda>m. put (ul_ID m) (ul_Totals m)) (re_Members report) [];
          own = (\<lambda>i. filter (\<lambda>d. dev_PersonID (dl_Device d) = i) devices)
      in map (\<lambda>p. \<lparr>pv_Person = p,
             pv_ActiveDevices = int (length (filter (\<lambda>d. dl_RevokedAt d = None) (own (p_ID p)))),
             pv_LastSeenAt = fold (\<lambda>d. later_seen (dl_LastSeenAt d)) (own (p_ID p)) None,
             pv_Month = get_or zero_totals month (p_ID p)\<rparr>) (Persons s))"

definition people_page :: "admin_env \<Rightarrow> admin_call \<Rightarrow> int \<Rightarrow> string \<Rightarrow> invite_view option \<Rightarrow> console \<Rightarrow> db \<Rightarrow> handled" where
  "people_page E q status err link c s =
     (render c q ''people'' status (admin_spec ''navPeople'' ''people'' err) (PeopleData (peopleData E s) link), c, s)"

text \<open>\<open>len([]rune(s))\<close>: the characters of a UTF-8 text, each byte of a wrong sequence counted alone.\<close>

definition rune_size :: "nat list \<Rightarrow> nat" where
  "rune_size bs =
     (let cont = (\<lambda>i lo hi. i < length bs \<and> lo \<le> bs ! i \<and> bs ! i \<le> hi); b = hd bs in
      if 0xC2 \<le> b \<and> b \<le> 0xDF \<and> cont 1 0x80 0xBF then 2
      else if 0xE0 \<le> b \<and> b \<le> 0xEF \<and> cont 1 (if b = 0xE0 then 0xA0 else 0x80) (if b = 0xED then 0x9F else 0xBF) \<and> cont 2 0x80 0xBF then 3
      else if 0xF0 \<le> b \<and> b \<le> 0xF4 \<and> cont 1 (if b = 0xF0 then 0x90 else 0x80) (if b = 0xF4 then 0x8F else 0xBF) \<and>
          cont 2 0x80 0xBF \<and> cont 3 0x80 0xBF then 4
      else 1)"

lemma rune_size_pos: "0 < rune_size bs"
  by (simp add: rune_size_def Let_def)

function runes :: "nat list \<Rightarrow> nat" where
  "runes bs = (if bs = [] then 0 else Suc (runes (drop (rune_size bs) bs)))"
  by pat_completeness auto
termination by (relation "measure length") (use rune_size_pos in auto)

declare runes.simps [simp del]

definition rune_count :: "string \<Rightarrow> nat" where
  "rune_count s = runes (map of_char s)"

definition name_error :: "string \<Rightarrow> string" where
  "name_error name = (if name = [] then ''nameRequired'' else if rune_count name > 50 then ''nameTooLong'' else [])"

definition addPerson :: "admin_env \<Rightarrow> admin_call \<Rightarrow> form \<Rightarrow> console \<Rightarrow> db \<Rightarrow> handled" where
  "addPerson E q f c s =
     (let name = trim_space (PostFormValue f ''name''); err = name_error name;
          refuse = (\<lambda>err. people_page E q StatusUnprocessableEntity err None c s)
      in if err \<noteq> [] then refuse err
         else case AddPerson (en_ids (ae_Api E) 0) (ae_Now E) name s of
             Inl e \<Rightarrow> if e = ErrDuplicate then refuse ''nameTaken'' else (fail, c, s)
           | Inr (_, s) \<Rightarrow> (redirect ''/admin/people'', c, s))"

definition invite_person :: "admin_env \<Rightarrow> admin_call \<Rightarrow> string \<Rightarrow> console \<Rightarrow> db \<Rightarrow> handled" where
  "invite_person E q i c s =
     (case Person i s of
        Inl e \<Rightarrow> (if e = ErrNotFound then not_found else fail, c, s)
      | Inr p \<Rightarrow>
          (case CreateInvite (en_sha (ae_Api E)) (en_secret (ae_Api E)) (ae_Now E) (p_ID p) InviteTTL s of
             Inl _ \<Rightarrow> (fail, c, s)
           | Inr ((code, expires), s) \<Rightarrow>
               people_page E q StatusOK [] (Some \<lparr>in_Person = p_DisplayName p, in_Link = co_publicURL c @ ''/join/'' @ code, in_Expires = expires\<rparr>) c s))"

definition deletePerson :: "string \<Rightarrow> console \<Rightarrow> db \<Rightarrow> handled" where
  "deletePerson i c s =
     (case DeletePerson i s of
        Inl e \<Rightarrow> (if e = ErrNotFound then redirect ''/admin/people'' else fail, c, s)
      | Inr (_, s) \<Rightarrow> (redirect ''/admin/people'', c, s))"

section \<open>Accounts\<close>

definition account_row_of :: "admin_env \<Rightarrow> db \<Rightarrow> account \<Rightarrow> account_row_view" where
  "account_row_of E s a =
     (let members = Members (ae_tlt E) (acc_ID a) s; total' = sum_list (map mem_ShareWeight members)
      in \<lparr>ax_ID = acc_ID a, ax_Provider = acc_Provider a, ax_Label = acc_Label a, ax_Hint = acc_Hint a, ax_PlanType = acc_PlanType a,
          ax_Members = map (\<lambda>m. \<lparr>mw_PersonID = mem_PersonID m, mw_Name = mem_Name m, mw_Weight = mem_ShareWeight m,
              mw_AllottedPercent = (if total' > 0 then mem_ShareWeight m / total' * 100 else 0)\<rparr>) members,
          ax_Others = filter (\<lambda>p. p_ID p \<notin> set (map mem_PersonID members)) (Persons s)\<rparr>)"

definition renderAccounts :: "admin_env \<Rightarrow> admin_call \<Rightarrow> int \<Rightarrow> string \<Rightarrow> console \<Rightarrow> db \<Rightarrow> handled" where
  "renderAccounts E q status err c s =
     (render c q ''accounts'' status (admin_spec ''navAccounts'' ''accounts'' err)
        (AccountsData (map (account_row_of E s) (Accounts (ae_tlt E) s))), c, s)"

definition setLabel :: "admin_env \<Rightarrow> admin_call \<Rightarrow> string \<Rightarrow> form \<Rightarrow> console \<Rightarrow> db \<Rightarrow> handled" where
  "setLabel E q i f c s =
     (let label = trim_space (PostFormValue f ''label'') in
      if label = [] \<or> rune_count label > 50 then renderAccounts E q StatusUnprocessableEntity ''labelLength'' c s
      else case Account i s of
          Inl e \<Rightarrow> (if e = ErrNotFound then not_found else fail, c, s)
        | Inr a \<Rightarrow> (case SetAccountLabel (acc_ID a) label s of
              Inl _ \<Rightarrow> (fail, c, s)
            | Inr (_, s) \<Rightarrow> (redirect ''/admin/accounts'', c, s)))"

definition parseWeight :: "admin_env \<Rightarrow> string \<Rightarrow> f64 option" where
  "parseWeight E v = (case ae_Float E (trim_space v) of None \<Rightarrow> None | Some w \<Rightarrow> if w < 0 \<or> w > 100 then None else Some w)"

text \<open>The weights of the form, \<open>None\<close> when one of them is not a weight.\<close>

fun form_weights :: "admin_env \<Rightarrow> (string, string list) gomap \<Rightarrow> (string, f64) gomap \<Rightarrow> (string, f64) gomap option" where
  "form_weights E [] ws = Some ws"
| "form_weights E ((key, vals) # fs) ws =
     (case (cut_prefix key ''weight.'', vals) of
        (Some personID, v # _) \<Rightarrow> (case parseWeight E v of None \<Rightarrow> None | Some w \<Rightarrow> form_weights E fs (put personID w ws))
      | _ \<Rightarrow> form_weights E fs ws)"

text \<open>Weights are saved one by one, in the order of the member IDs, up to the first that fails.\<close>

fun save_weights :: "string \<Rightarrow> (string \<times> f64) list \<Rightarrow> db \<Rightarrow> bool \<times> db" where
  "save_weights i [] s = (True, s)"
| "save_weights i ((personID, w) # ws) s =
     (case SetShareWeight i personID w s of Inl _ \<Rightarrow> (False, s) | Inr (_, s) \<Rightarrow> save_weights i ws s)"

definition setShares :: "admin_env \<Rightarrow> admin_call \<Rightarrow> string \<Rightarrow> form \<Rightarrow> console \<Rightarrow> db \<Rightarrow> handled" where
  "setShares E q i f c s =
     (if fm_Bad f then (http_error StatusBadRequest ''Malformed form'', c, s)
      else case Account i s of
          Inl e \<Rightarrow> (if e = ErrNotFound then not_found else fail, c, s)
        | Inr a \<Rightarrow>
            (let refuse = (\<lambda>err. renderAccounts E q StatusUnprocessableEntity err c s);
                 save = (\<lambda>ws. case save_weights (acc_ID a) (sort_by (\<lambda>x y. fst x < fst y) ws) s of
                     (ok, s) \<Rightarrow> (if ok then redirect ''/admin/accounts'' else fail, c, s));
                 add = PostFormValue f ''add_person''
             in case form_weights E (fm_Values f) [] of
                 None \<Rightarrow> refuse ''weightRange''
               | Some ws \<Rightarrow>
                   if add = [] then save ws
                   else case parseWeight E (PostFormValue f ''add_weight'') of
                       None \<Rightarrow> refuse ''weightRange''
                     | Some w \<Rightarrow> (case Person add s of Inl _ \<Rightarrow> refuse ''personNotFound'' | Inr _ \<Rightarrow> save (put add w ws))))"

definition ordered_ids :: "string list \<Rightarrow> string list \<Rightarrow> string list" where
  "ordered_ids known posted = fold (\<lambda>i ids. if i \<notin> set ids \<and> i \<in> set known then ids @ [i] else ids) posted []"

definition setAccountOrder :: "admin_env \<Rightarrow> form \<Rightarrow> console \<Rightarrow> db \<Rightarrow> handled" where
  "setAccountOrder E f c s =
     (if fm_Bad f then (http_error StatusBadRequest ''Malformed form'', c, s)
      else case ServerStore.SetAccountOrder (ordered_ids (map acc_ID (Accounts (ae_tlt E) s)) (get_or [] (fm_Values f) ''id'')) s of
          Inl _ \<Rightarrow> (fail, c, s)
        | Inr (_, s) \<Rightarrow> (redirect ''/admin/accounts'', c, s))"

definition deleteAccount :: "string \<Rightarrow> console \<Rightarrow> db \<Rightarrow> handled" where
  "deleteAccount i c s =
     (case DeleteAccount i s of
        Inl e \<Rightarrow> (if e = ErrNotFound then redirect ''/admin/accounts'' else fail, c, s)
      | Inr (_, s) \<Rightarrow> (redirect ''/admin/accounts'', c, s))"

section \<open>Plans\<close>

definition renderPlans :: "admin_call \<Rightarrow> string \<Rightarrow> int \<Rightarrow> string \<Rightarrow> plan_form \<Rightarrow> console \<Rightarrow> db \<Rightarrow> handled" where
  "renderPlans q i status err form c s =
     (case Account i s of
        Inl e \<Rightarrow> (if e = ErrNotFound then not_found else fail, c, s)
      | Inr a \<Rightarrow> (render c q ''plans'' status (admin_spec ''planHistory'' ''accounts'' err)
          (PlansData a (PlanHistory i s) (if acc_Provider a = ProviderAnthropic then KnownPlans else []) form), c, s))"

definition accountPlans :: "admin_call \<Rightarrow> string \<Rightarrow> console \<Rightarrow> db \<Rightarrow> handled" where
  "accountPlans q i = renderPlans q i StatusOK []
     \<lparr>pm_Plan = [], pm_Precision = PrecisionConfirmed, pm_Reason = [], pm_EffectiveLocal = [], pm_EndedLocal = []\<rparr>"

definition plan_form_of :: "form \<Rightarrow> plan_form" where
  "plan_form_of f =
     (let v = (\<lambda>key. trim_space (PostFormValue f key))
      in \<lparr>pm_Plan = v ''plan_type'', pm_Precision = (if v ''precision'' = [] then PrecisionConfirmed else v ''precision''),
          pm_Reason = v ''reason'', pm_EffectiveLocal = PostFormValue f ''effective_local'', pm_EndedLocal = PostFormValue f ''ended_local''\<rparr>)"

text \<open>The times of the form, \<open>None\<close> when one of them is not an RFC 3339 time.\<close>

definition plan_times :: "admin_env \<Rightarrow> form \<Rightarrow> (time \<times> time option) option" where
  "plan_times E f =
     (let v = (\<lambda>key. trim_space (PostFormValue f key)); parse = en_parse (ae_Api E)
      in case parse (v ''effective_at'') of
          None \<Rightarrow> None
        | Some eff \<Rightarrow>
            if v ''ended_at'' = [] then Some (eff, None)
            else case parse (v ''ended_at'') of None \<Rightarrow> None | Some ended \<Rightarrow> Some (eff, Some ended))"

definition plan_input :: "string \<Rightarrow> form \<Rightarrow> time \<Rightarrow> time option \<Rightarrow> plan_interval" where
  "plan_input i f eff ended =
     (let form = plan_form_of f
      in \<lparr>pi_ID = trim_space (PostFormValue f ''interval_id''), pi_AccountID = i, pi_PlanType = pm_Plan form, pi_EffectiveAt = eff,
          pi_EndedAt = ended, pi_Reason = pm_Reason form, pi_Source = ''admin'', pi_Precision = pm_Precision form, pi_CreatedAt = zero_time\<rparr>)"

definition saveAccountPlan :: "admin_env \<Rightarrow> admin_call \<Rightarrow> string \<Rightarrow> form \<Rightarrow> console \<Rightarrow> db \<Rightarrow> handled" where
  "saveAccountPlan E q i f c s =
     (let invalid = (\<lambda>err. renderPlans q i StatusUnprocessableEntity err (plan_form_of f) c s) in
      if fm_Bad f then (http_error StatusBadRequest ''Malformed form'', c, s)
      else case Account i s of
          Inl e \<Rightarrow> (if e = ErrNotFound then not_found else fail, c, s)
        | Inr _ \<Rightarrow>
            if pm_Plan (plan_form_of f) = [] then invalid ''planRequired''
            else case plan_times E f of
                None \<Rightarrow> invalid ''planTimeInvalid''
              | Some (eff, ended) \<Rightarrow>
                  (case SavePlanInterval (en_ids (ae_Api E) 0) (ae_Now E) (plan_input i f eff ended) s of
                     Inr (_, s) \<Rightarrow> (redirect (''/admin/accounts/'' @ i @ ''/plans''), c, s)
                   | Inl e \<Rightarrow>
                       if e = ErrPlanIntervalOverlap then invalid ''planOverlap''
                       else if e = ErrInvalidPlanInterval then invalid ''planEndInvalid''
                       else (if e = ErrNotFound then not_found else fail, c, s)))"

definition deleteAccountPlan :: "string \<Rightarrow> string \<Rightarrow> console \<Rightarrow> db \<Rightarrow> handled" where
  "deleteAccountPlan i p c s =
     (let there = redirect (''/admin/accounts/'' @ i @ ''/plans'')
      in case DeletePlanInterval i p s of Inl _ \<Rightarrow> (there, c, s) | Inr (_, s) \<Rightarrow> (there, c, s))"

section \<open>Capacity, devices and usage\<close>

definition periodOf :: "url_query \<Rightarrow> period" where
  "periodOf query = PeriodByID (get_or [] query ''period'')"

text \<open>The range a page asks for, or the preset with the reason.\<close>

definition requested_range :: "admin_env \<Rightarrow> url_query \<Rightarrow> span_range \<times> string" where
  "requested_range E query =
     (case RangeFromQuery (en_parse (ae_Api E)) query (ae_Now E) of
        Inr rg \<Rightarrow> (rg, [])
      | Inl _ \<Rightarrow> (PresetRange (periodOf query) (ae_Now E), ''rangeInvalid''))"

definition capacity_page :: "admin_env \<Rightarrow> admin_call \<Rightarrow> string \<Rightarrow> url_query \<Rightarrow> console \<Rightarrow> db \<Rightarrow> handled" where
  "capacity_page E q i query c s =
     (let (rg, notice) = requested_range E query in
      case AccountCapacity (ae_tlt E) i rg (ae_Now E) s of
        Inl e \<Rightarrow> (if e = ErrNotFound then not_found else fail, c, s)
      | Inr None \<Rightarrow> (dropped, c, s)
      | Inr (Some r) \<Rightarrow> (render c q ''capacity'' StatusOK (admin_spec ''capacity'' ''accounts'' notice) (CapacityData r), c, s))"

definition device_row_of :: "admin_env \<Rightarrow> (string, string list) gomap \<Rightarrow> (string, usage_totals) gomap \<Rightarrow> device_listing \<Rightarrow> device_row_view" where
  "device_row_of E signedIn' month d =
     \<lparr>dx_Device = d,
      dx_Online = (dl_RevokedAt d = None \<and> (case dl_LastSeenAt d of None \<Rightarrow> False | Some t \<Rightarrow> time_sub (ae_Now E) t \<le> ActiveWindow)),
      dx_SignedIn = remdups_adj (sort_by (<) (get_or [] signedIn' (dev_ID (dl_Device d)))),
      dx_Month = get_or zero_totals month (dev_ID (dl_Device d))\<rparr>"

definition devices_page :: "admin_env \<Rightarrow> admin_call \<Rightarrow> console \<Rightarrow> db \<Rightarrow> handled" where
  "devices_page E q c s =
     (let names = fold (\<lambda>a. put (acc_ID a) (providerName (acc_Provider a) @ middot @ acc_Label a)) (Accounts (ae_tlt E) s) [];
          signedIn' = fold (\<lambda>a m. put (ac_DeviceID a) (get_or [] m (ac_DeviceID a) @ [get_or [] names (ac_AccountID a)]) m)
            (ActiveDevices (ae_tlt E) (ae_Now E - ActiveWindow) s) [];
          report = Usage (ae_tlt E) (ae_Now E - 30 * 24 * hour) s
      in (render c q ''devices'' StatusOK (admin_spec ''navDevices'' ''devices'' [])
            (DevicesData (map (device_row_of E signedIn' (re_Devices report)) (Devices (ae_tlt E) s))), c, s))"

definition revoke_device :: "admin_env \<Rightarrow> string \<Rightarrow> console \<Rightarrow> db \<Rightarrow> handled" where
  "revoke_device E i c s =
     (case RevokeDevice (ae_Now E) i s of
        Inl e \<Rightarrow> (if e = ErrNotFound then redirect ''/admin/devices'' else fail, c, s)
      | Inr (_, s) \<Rightarrow> (redirect ''/admin/devices'', c, s))"

text \<open>The member a usage page asks for, \<open>None\<close> for everyone; or the answer that ends the request.\<close>

definition requestedMember :: "url_query \<Rightarrow> db \<Rightarrow> admin_response + person option" where
  "requestedMember query s =
     (let i = get_or [] query ''member'' in
      if i = [] then Inr None
      else case Person i s of Inl e \<Rightarrow> Inl (if e = ErrNotFound then not_found else fail) | Inr p \<Rightarrow> Inr (Some p))"

definition usageReport :: "admin_env \<Rightarrow> person option \<Rightarrow> time \<Rightarrow> db \<Rightarrow> usage_report" where
  "usageReport E member since s =
     (case member of Some p \<Rightarrow> UsageBy (ae_tlt E) since (p_ID p) s | None \<Rightarrow> Usage (ae_tlt E) since s)"

definition usage_page :: "admin_env \<Rightarrow> admin_call \<Rightarrow> url_query \<Rightarrow> console \<Rightarrow> db \<Rightarrow> handled" where
  "usage_page E q query c s =
     (case requestedMember query s of
        Inl r \<Rightarrow> (r, c, s)
      | Inr member \<Rightarrow>
          (let period = periodOf query
           in (render c q ''usage'' StatusOK (admin_spec ''navUsage'' ''usage'' [])
                (UsageData \<lparr>ud_Path = ''/admin/usage'', ud_Period = pe_ID period,
                   ud_Report = usageReport E member (ae_Now E - Span period) s, ud_Member = member, ud_ShowDevices = True\<rparr>), c, s)))"

section \<open>The public dashboard\<close>

text \<open>\<open>ttlCache.get\<close>: the value kept, or the one built and kept; a failure keeps nothing.\<close>

definition cache_get :: "time \<Rightarrow> string \<Rightarrow> 'e + 'a \<Rightarrow> 'a ttl_cache \<Rightarrow> ('e + 'a) \<times> 'a ttl_cache" where
  "cache_get now key built c =
     (let build = (case built of Inl e \<Rightarrow> (Inl e, c) | Inr v \<Rightarrow> (Inr v, put key (now, v) c))
      in case map_of c key of
          Some (at', v) \<Rightarrow> if time_sub now at' < dashboardTTL then (Inr v, c) else build
        | None \<Rightarrow> build)"

definition publicOverview :: "admin_env \<Rightarrow> db \<Rightarrow> overview" where
  "publicOverview E s =
     (let ov = Overview (ae_tlt E) [] (ae_Now E) (ae_Now E) s; hints = account_hints E s
      in ov\<lparr>ov_Accounts := map (\<lambda>a. if ao_Label a = get_or [] hints (ao_ID a) \<or> IsMasked (ao_Label a) then a\<lparr>ao_Label := []\<rparr> else a)
            (ov_Accounts ov)\<rparr>)"

fun public_names :: "(string, string) gomap \<Rightarrow> int \<Rightarrow> account_overview list \<Rightarrow> (string, string) gomap \<Rightarrow> (string, string) gomap" where
  "public_names t n [] names = names"
| "public_names t n (a # as) names =
     (if ao_Label a = [] then public_names t (n + 1) as (put (ao_ID a) (fill (get_or [] t ''accountN'') (decimal (n + 1))) names)
      else public_names t n as (put (ao_ID a) (ao_Label a) names))"

definition publicView ::
  "admin_env \<Rightarrow> admin_call \<Rightarrow> (overview \<Rightarrow> (string, string) gomap \<Rightarrow> public_data \<Rightarrow> console \<Rightarrow> handled) \<Rightarrow> console \<Rightarrow> db \<Rightarrow> handled" where
  "publicView E q show' c s =
     (let on = PublicDashboard s;
          (ok, live) = (if on then (True, co_sessions c) else signedIn (ae_Now E) (aq_Sessions q) (co_sessions c));
          c = c\<lparr>co_sessions := live\<rparr>
      in if \<not> ok then (not_found, c, s)
         else case cache_get (ae_Now E) [] (Inr (publicOverview E s) :: unit + overview) (co_overview c) of
             (Inl _, _) \<Rightarrow> (fail, c, s)
           | (Inr ov, cached) \<Rightarrow>
               show' ov (public_names (dictionary (requestLang (aq_Lang q))) 0 (ov_Accounts ov) [])
                 \<lparr>pb_GeneratedAt = ov_GeneratedAt ov, pb_Preview = (\<not> on)\<rparr> (c\<lparr>co_overview := cached\<rparr>))"

definition show_dashboard ::
  "admin_env \<Rightarrow> admin_call \<Rightarrow> db \<Rightarrow> overview \<Rightarrow> (string, string) gomap \<Rightarrow> public_data \<Rightarrow> console \<Rightarrow> handled" where
  "show_dashboard E q s ov names pd c =
     (let views = accountViews ov [] (ae_Now E) (dictionary (requestLang (aq_Lang q)))
      in (render c q ''dashboard'' StatusOK (public_spec ''dashboard'' ''dashboard'' [])
            (DashboardData pd (map (\<lambda>(a, v). v\<lparr>aw_Label := get_or [] names (ao_ID a)\<rparr>) (zip (ov_Accounts ov) views))), c, s))"

definition dashboard_page :: "admin_env \<Rightarrow> admin_call \<Rightarrow> console \<Rightarrow> db \<Rightarrow> handled" where
  "dashboard_page E q c s = publicView E q (show_dashboard E q s) c s"

definition public_usage :: "(string, string) gomap \<Rightarrow> usage_report \<Rightarrow> usage_report" where
  "public_usage names r = r\<lparr>re_Accounts := map (\<lambda>a. a\<lparr>ul_Name := get_or [] names (ul_ID a)\<rparr>) (re_Accounts r)\<rparr>"

definition show_usage ::
  "admin_env \<Rightarrow> admin_call \<Rightarrow> url_query \<Rightarrow> db \<Rightarrow> overview \<Rightarrow> (string, string) gomap \<Rightarrow> public_data \<Rightarrow> console \<Rightarrow> handled" where
  "show_usage E q query s ov names pd c =
     (case requestedMember query s of
        Inl r \<Rightarrow> (r, c, s)
      | Inr member \<Rightarrow>
          (let period = periodOf query;
               key = pe_ID period @ (case member of None \<Rightarrow> [] | Some p \<Rightarrow> ''/'' @ p_ID p);
               (report, cached) = cache_get (ae_Now E) key (Inr (usageReport E member (ae_Now E - Span period) s) :: unit + usage_report) (co_usage c)
           in case report of
               Inl _ \<Rightarrow> (fail, c, s)
             | Inr r \<Rightarrow> (render c q ''dashboardusage'' StatusOK (public_spec ''navUsage'' ''dashboardUsage'' [])
                 (DashboardUsageData pd \<lparr>ud_Path = dashboardUsagePath, ud_Period = pe_ID period, ud_Report = public_usage names r,
                    ud_Member = member, ud_ShowDevices = False\<rparr>), c\<lparr>co_usage := cached\<rparr>, s)))"

definition dashboardUsage_page :: "admin_env \<Rightarrow> admin_call \<Rightarrow> url_query \<Rightarrow> console \<Rightarrow> db \<Rightarrow> handled" where
  "dashboardUsage_page E q query c s = publicView E q (show_usage E q query s) c s"

definition publicCapacity :: "string \<Rightarrow> capacity_report \<Rightarrow> capacity_report" where
  "publicCapacity name r =
     r\<lparr>rt_AccountLabel := name, rt_Plans := map (\<lambda>p. p\<lparr>pd_Reason := [], pd_Source := []\<rparr>) (rt_Plans r)\<rparr>"

definition built_capacity :: "store_error + capacity_report option \<Rightarrow> store_error option + capacity_report" where
  "built_capacity r = (case r of Inl e \<Rightarrow> Inl (Some e) | Inr None \<Rightarrow> Inl None | Inr (Some r) \<Rightarrow> Inr r)"

text \<open>The report of the account under its public name: the presets come from the cache, a custom range is built to the minute.\<close>

definition public_report ::
  "admin_env \<Rightarrow> string \<Rightarrow> span_range \<Rightarrow> console \<Rightarrow> db \<Rightarrow> (store_error option + capacity_report) \<times> console" where
  "public_report E i rg c s =
     (if rg_Period rg = PeriodCustom
      then (built_capacity (AccountCapacity (ae_tlt E) i
              (rg\<lparr>rg_Start := time_truncate (rg_Start rg) minute, rg_End := time_truncate (rg_End rg) minute\<rparr>) (ae_Now E) s), c)
      else case cache_get (ae_Now E) (i @ ''/'' @ rg_Period rg) (built_capacity (AccountCapacity (ae_tlt E) i rg (ae_Now E) s)) (co_capacity c) of
          (r, cached) \<Rightarrow> (r, c\<lparr>co_capacity := cached\<rparr>))"

text \<open>Without an account asked for, the first of the one provider with scenarios.\<close>

definition capacity_account :: "url_query \<Rightarrow> overview \<Rightarrow> string" where
  "capacity_account query ov =
     (let asked = get_or [] query ''account'' in
      if asked \<noteq> [] then asked
      else case find (\<lambda>a. ao_Provider a = ProviderAnthropic) (ov_Accounts ov) of None \<Rightarrow> [] | Some a \<Rightarrow> ao_ID a)"

definition show_capacity ::
  "admin_env \<Rightarrow> admin_call \<Rightarrow> url_query \<Rightarrow> db \<Rightarrow> overview \<Rightarrow> (string, string) gomap \<Rightarrow> public_data \<Rightarrow> console \<Rightarrow> handled" where
  "show_capacity E q query s ov names pd c =
     (let (rg, notice) = requested_range E query; i = capacity_account query ov;
          data = DashboardCapacityData pd (rg_Period rg) (map (\<lambda>a. (ao_ID a, get_or [] names (ao_ID a))) (ov_Accounts ov));
          page = (\<lambda>c report. render c q ''dashboardcapacity'' StatusOK (public_spec ''capacity'' ''dashboardCapacity'' notice) (data report))
      in if get_or [] query ''account'' \<noteq> [] \<and> i \<notin> set (map ao_ID (ov_Accounts ov)) then (not_found, c, s)
         else if i = [] then (page c None, c, s)
         else let (report, c) = public_report E i rg c s in
           (case report of Inl (Some _) \<Rightarrow> fail | Inl None \<Rightarrow> dropped | Inr r \<Rightarrow> page c (Some (i, publicCapacity (get_or [] names i) r)), c, s))"

definition dashboardCapacity_page :: "admin_env \<Rightarrow> admin_call \<Rightarrow> url_query \<Rightarrow> console \<Rightarrow> db \<Rightarrow> handled" where
  "dashboardCapacity_page E q query c s = publicView E q (show_capacity E q query s) c s"

definition root_page :: "console \<Rightarrow> db \<Rightarrow> handled" where
  "root_page c s = (redirect (if PublicDashboard s then dashboardPath else ''/admin/''), c, s)"

definition icons :: "string list" where
  "icons = [''apple-touch-icon.png'', ''icon-192.png'', ''icon-512.png'', ''icon-maskable-512.png'']"

definition icon_file :: "string \<Rightarrow> console \<Rightarrow> db \<Rightarrow> handled" where
  "icon_file name c s = (if name \<in> set icons then \<lparr>ap_Status = StatusOK, ap_Cookies = [], ap_Body = IconFile name\<rparr> else not_found, c, s)"

definition settings_page :: "admin_call \<Rightarrow> console \<Rightarrow> db \<Rightarrow> handled" where
  "settings_page q c s =
     (render c q ''settings'' StatusOK (admin_spec ''navSettings'' ''settings'' [])
        (SettingsData (PublicDashboard s) (co_publicURL c @ dashboardPath)), c, s)"

definition saveSettings :: "form \<Rightarrow> console \<Rightarrow> db \<Rightarrow> handled" where
  "saveSettings f c s =
     (case SetPublicDashboard (PostFormValue f ''public_dashboard'' = ''on'') s of
        Inl _ \<Rightarrow> (fail, c, s)
      | Inr (_, s) \<Rightarrow> (redirect ''/admin/settings'', c, s))"

section \<open>The router\<close>

text \<open>The routes that take a signed-in admin, and the rest; requests that change something are posted.\<close>

definition admin_route :: "admin_env \<Rightarrow> admin_call \<Rightarrow> (console \<Rightarrow> db \<Rightarrow> handled) option" where
  "admin_route E q =
     (case aq_Request q of
        OverviewPage \<Rightarrow> Some (overview_page E q)
      | PeoplePage \<Rightarrow> Some (people_page E q StatusOK [] None)
      | PostPerson f \<Rightarrow> Some (addPerson E q f)
      | PostInvite i \<Rightarrow> Some (invite_person E q i)
      | PostDeletePerson i \<Rightarrow> Some (deletePerson i)
      | AccountsPage \<Rightarrow> Some (renderAccounts E q StatusOK [])
      | PostLabel i f \<Rightarrow> Some (setLabel E q i f)
      | PostShares i f \<Rightarrow> Some (setShares E q i f)
      | PlansPage i \<Rightarrow> Some (accountPlans q i)
      | PostPlan i f \<Rightarrow> Some (saveAccountPlan E q i f)
      | PostDeletePlan i p \<Rightarrow> Some (deleteAccountPlan i p)
      | CapacityPage i query \<Rightarrow> Some (capacity_page E q i query)
      | PostDeleteAccount i \<Rightarrow> Some (deleteAccount i)
      | PostOrder f \<Rightarrow> Some (setAccountOrder E f)
      | DevicesPage \<Rightarrow> Some (devices_page E q)
      | PostRevoke i \<Rightarrow> Some (revoke_device E i)
      | UsagePage query \<Rightarrow> Some (usage_page E q query)
      | SettingsPage \<Rightarrow> Some (settings_page q)
      | PostSettings f \<Rightarrow> Some (saveSettings f)
      | _ \<Rightarrow> None)"

definition open_route :: "admin_env \<Rightarrow> admin_call \<Rightarrow> console \<Rightarrow> db \<Rightarrow> handled" where
  "open_route E q c s =
     (case aq_Request q of
        SetLang lang next' \<Rightarrow> setLang lang next' c s
      | LoginPage \<Rightarrow> (render c q ''login'' StatusOK (login_spec []) NoData, c, s)
      | Login f \<Rightarrow> login_handler E q f c s
      | Logout \<Rightarrow> logout_handler q c s
      | Root \<Rightarrow> root_page c s
      | Dashboard \<Rightarrow> dashboard_page E q c s
      | DashboardUsage query \<Rightarrow> dashboardUsage_page E q query c s
      | DashboardCapacity query \<Rightarrow> dashboardCapacity_page E q query c s
      | Manifest \<Rightarrow> (\<lparr>ap_Status = StatusOK, ap_Cookies = [], ap_Body = ManifestJSON\<rparr>, c, s)
      | Icon name \<Rightarrow> icon_file name c s
      | _ \<Rightarrow> (not_found, c, s))"

definition posted :: "admin_request \<Rightarrow> bool" where
  "posted r = (case r of
       Login _ \<Rightarrow> True | Logout \<Rightarrow> True | PostPerson _ \<Rightarrow> True | PostInvite _ \<Rightarrow> True | PostDeletePerson _ \<Rightarrow> True
     | PostLabel _ _ \<Rightarrow> True | PostShares _ _ \<Rightarrow> True | PostPlan _ _ \<Rightarrow> True | PostDeletePlan _ _ \<Rightarrow> True
     | PostDeleteAccount _ \<Rightarrow> True | PostOrder _ \<Rightarrow> True | PostRevoke _ \<Rightarrow> True | PostSettings _ \<Rightarrow> True | _ \<Rightarrow> False)"

text \<open>What \<open>http.CrossOriginProtection\<close> refuses: a post a browser marks as from another site, or, unmarked, whose origin is another host.\<close>

definition cross_site :: "admin_call \<Rightarrow> bool" where
  "cross_site q \<longleftrightarrow> posted (aq_Request q) \<and>
     (if aq_SecFetchSite q = [] then aq_Origin q \<noteq> [] \<and> \<not> aq_OriginIsHost q
      else aq_SecFetchSite q \<noteq> ''same-origin'' \<and> aq_SecFetchSite q \<noteq> ''none'')"

definition admin_serve :: "admin_env \<Rightarrow> admin_call \<Rightarrow> console \<Rightarrow> db \<Rightarrow> handled" where
  "admin_serve E q c s =
     (if cross_site q
      then (http_error StatusForbidden (if aq_SecFetchSite q = []
              then ''cross-origin request detected, and/or browser is out of date: Sec-Fetch-Site is missing, and Origin does not match Host''
              else ''cross-origin request detected from Sec-Fetch-Site header''), c, s)
      else case admin_route E q of Some handler \<Rightarrow> admin_authed E q handler c s | None \<Rightarrow> open_route E q c s)"

end
