(* ===== verification/AdminRules.thy ===== *)
theory AdminRules
  imports AdminConsole ServerLedger
begin

text \<open>What the console guarantees: who may do what, that it does nothing but store operations, and what it publishes.\<close>

section \<open>The console does nothing but store operations\<close>

definition store_only :: "(console \<Rightarrow> db \<Rightarrow> handled) \<Rightarrow> bool" where
  "store_only h \<longleftrightarrow> (\<forall>c s. fst (snd (h c s)) = c \<and> server_step\<^sup>*\<^sup>* s (snd (snd (h c s))))"

definition read_only :: "(console \<Rightarrow> db \<Rightarrow> handled) \<Rightarrow> bool" where
  "read_only h \<longleftrightarrow> (\<forall>c s. snd (h c s) = (c, s))"

lemma read_store_only: "read_only h \<Longrightarrow> store_only h"
  by (simp add: read_only_def store_only_def)

lemma pages_read_only:
  "read_only (overview_page E q)" "read_only (people_page E q status err link)" "read_only (renderAccounts E q status err)"
  "read_only (renderPlans q i status err form)" "read_only (capacity_page E q i query)" "read_only (devices_page E q)"
  "read_only (usage_page E q query)" "read_only (settings_page q)"
  by (simp_all add: read_only_def overview_page_def people_page_def renderAccounts_def renderPlans_def capacity_page_def
      devices_page_def usage_page_def settings_page_def Let_def case_prod_unfold split: sum.split option.split)

lemmas read_onlyD = pages_read_only[unfolded read_only_def, rule_format]

lemma save_weights_steps: "server_step\<^sup>*\<^sup>* s (snd (save_weights i ws s))"
proof (induction i ws s rule: save_weights.induct)
  case (2 i personID w ws s)
  then show ?case
    by (auto split: sum.split intro: converse_rtranclp_into_rtranclp server_step.set_share_weight)
qed simp

lemma store_onlyI:
  assumes "\<And>c s. fst (snd (h c s)) = c" "\<And>c s. snd (snd (h c s)) = s \<or> server_step s (snd (snd (h c s)))"
  shows "store_only h"
  using assms unfolding store_only_def by (metis r_into_rtranclp rtranclp.rtrancl_refl)

lemma addPerson_store_only: "store_only (addPerson E q f)"
  by (rule store_onlyI; auto simp: addPerson_def Let_def read_onlyD split: sum.split option.split prod.split intro: server_step.add_person)

lemma invite_person_store_only: "store_only (invite_person E q i)"
  by (rule store_onlyI; auto simp: invite_person_def Let_def read_onlyD split: sum.split option.split prod.split intro: server_step.create_invite)

lemma deletePerson_store_only: "store_only (deletePerson i)"
  by (rule store_onlyI; auto simp: deletePerson_def Let_def read_onlyD split: sum.split option.split prod.split intro: server_step.delete_person)

lemma setLabel_store_only: "store_only (setLabel E q i f)"
  by (rule store_onlyI; auto simp: setLabel_def Let_def read_onlyD split: sum.split option.split prod.split intro: server_step.set_account_label)

lemma setAccountOrder_store_only: "store_only (setAccountOrder E f)"
  by (rule store_onlyI; auto simp: setAccountOrder_def Let_def read_onlyD split: sum.split option.split prod.split intro: server_step.set_account_order)

lemma deleteAccount_store_only: "store_only (deleteAccount i)"
  by (rule store_onlyI; auto simp: deleteAccount_def Let_def read_onlyD split: sum.split option.split prod.split intro: server_step.delete_account)

lemma saveAccountPlan_store_only: "store_only (saveAccountPlan E q i f)"
  by (rule store_onlyI; auto simp: saveAccountPlan_def Let_def read_onlyD split: sum.split option.split prod.split intro: server_step.save_plan_interval)

lemma deleteAccountPlan_store_only: "store_only (deleteAccountPlan i p)"
  by (rule store_onlyI; auto simp: deleteAccountPlan_def Let_def read_onlyD split: sum.split option.split prod.split intro: server_step.delete_plan_interval)

lemma revoke_device_store_only: "store_only (revoke_device E i)"
  by (rule store_onlyI; auto simp: revoke_device_def Let_def read_onlyD split: sum.split option.split prod.split intro: server_step.revoke_device)

lemma saveSettings_store_only: "store_only (saveSettings f)"
  by (rule store_onlyI; auto simp: saveSettings_def Let_def read_onlyD split: sum.split option.split prod.split intro: server_step.set_public_dashboard)

lemmas posts_store_only = addPerson_store_only invite_person_store_only deletePerson_store_only setLabel_store_only setAccountOrder_store_only deleteAccount_store_only saveAccountPlan_store_only deleteAccountPlan_store_only revoke_device_store_only saveSettings_store_only

lemma setShares_store_only: "store_only (setShares E q i f)"
proof -
  have saved: "server_step\<^sup>*\<^sup>* s t" if "save_weights j ws s = (ok, t)" for j ws s ok t
    using save_weights_steps[of s j ws] that by simp
  show ?thesis
    by (auto simp: store_only_def setShares_def Let_def read_onlyD split: sum.split option.split prod.split intro: saved)
qed

lemma admin_route_store_only: "admin_route E q = Some h \<Longrightarrow> store_only h"
  by (auto simp: admin_route_def accountPlans_def split: admin_request.splits
      intro: posts_store_only setShares_store_only read_store_only pages_read_only)

lemma admin_route_get: "admin_route E q = Some h \<Longrightarrow> \<not> posted (aq_Request q) \<Longrightarrow> read_only h"
  by (auto simp: admin_route_def posted_def accountPlans_def split: admin_request.splits intro: pages_read_only)

lemma publicView_store:
  assumes "\<And>ov names pd c. snd (snd (show' ov names pd c)) = s"
  shows "snd (snd (publicView E q show' c s)) = s"
  using assms by (simp add: publicView_def Let_def case_prod_unfold split: sum.split)

lemma open_route_store: "snd (snd (open_route E q c s)) = s"
  by (cases "aq_Request q")
    (simp_all add: open_route_def setLang_def login_handler_def logout_handler_def root_page_def icon_file_def dashboard_page_def
      dashboardUsage_page_def dashboardCapacity_page_def publicView_store show_dashboard_def show_usage_def show_capacity_def
      Let_def case_prod_unfold split: sum.split)

lemma admin_serve_steps: "server_step\<^sup>*\<^sup>* s (snd (snd (admin_serve E q c s)))"
proof (cases "cross_site q")
  case False
  show ?thesis
  proof (cases "admin_route E q")
    case None
    then show ?thesis using False open_route_store[of E q c s] by (simp add: admin_serve_def)
  next
    case (Some h)
    have "server_step\<^sup>*\<^sup>* s (snd (snd (admin_authed E q h c s)))"
      using admin_route_store_only[OF Some] by (simp add: admin_authed_def store_only_def Let_def case_prod_unfold)
    then show ?thesis using False Some by (simp add: admin_serve_def)
  qed
qed (simp add: admin_serve_def)

lemma admin_serve_get:
  assumes "\<not> posted (aq_Request q) \<or> cross_site q \<or> admin_route E q = None"
  shows "snd (snd (admin_serve E q c s)) = s"
proof (cases "cross_site q \<or> admin_route E q = None")
  case True
  then show ?thesis using open_route_store[of E q c s] by (auto simp: admin_serve_def)
next
  case False
  then obtain h where h: "admin_route E q = Some h" by blast
  moreover have "\<not> posted (aq_Request q)" using False assms h by (cases "posted (aq_Request q)") simp_all
  ultimately have "read_only h" by (rule admin_route_get)
  then have "snd (snd (admin_authed E q h c s)) = s"
    by (simp add: admin_authed_def read_only_def Let_def case_prod_unfold)
  then show ?thesis using False h by (simp add: admin_serve_def)
qed

text \<open>
  C12. Whatever request arrives, the console and the dashboard change the database by operations of the
  store alone, and only a request that is posted from the site itself to the console changes anything.
\<close>

theorem admin_serve_is_store_steps:
  "case admin_serve E q c s of (r, c', s') \<Rightarrow>
     server_step\<^sup>*\<^sup>* s s' \<and> (s' = s \<or> (posted (aq_Request q) \<and> \<not> cross_site q \<and> admin_route E q \<noteq> None))"
  using admin_serve_steps[of s E q c] admin_serve_get[of q E c s]
  by (cases "posted (aq_Request q) \<and> \<not> cross_site q \<and> admin_route E q \<noteq> None") (auto split: prod.split)

section \<open>Sessions\<close>

definition live :: "time \<Rightarrow> (string, time) gomap \<Rightarrow> string \<Rightarrow> bool" where
  "live now m i \<longleftrightarrow> (\<exists>expires. map_of m i = Some expires \<and> \<not> now > expires)"

lemma map_of_removed: "map_of (filter (\<lambda>(k, _). k \<noteq> i) m) j = (if j = i then None else map_of m j)"
  by (induction m) auto

lemma signedIn_live: "fst (signedIn now ids m) \<longleftrightarrow> (\<exists>i \<in> set ids. live now m i)"
proof (induction ids arbitrary: m)
  case (Cons i ids)
  show ?case
  proof (cases "map_of m i")
    case None
    then show ?thesis using Cons by (simp add: validSession_def live_def)
  next
    case (Some expires)
    show ?thesis
    proof (cases "now > expires")
      case True
      have "live now (filter (\<lambda>(k, _). k \<noteq> i) m) j = live now m j" for j
        using Some True by (auto simp: live_def map_of_removed)
      then show ?thesis using Cons Some True by (auto simp: validSession_def live_def)
    next
      case False
      then show ?thesis using Some by (auto simp: validSession_def live_def)
    qed
  qed
qed simp

lemma signedIn_subset: "set (snd (signedIn now ids m)) \<subseteq> set m"
proof (induction ids arbitrary: m)
  case (Cons i ids)
  have "set (filter (\<lambda>(k, _). k \<noteq> i) m) \<subseteq> set m" by auto
  then show ?case using Cons[of m] Cons[of "filter (\<lambda>(k, _). k \<noteq> i) m"]
    by (auto simp: validSession_def split: option.split)
qed simp

text \<open>
  The site: the console, the database, and the sessions it has given, each with its time and the password
  it was given for. A step is a request, or an operation of the store by the API.
\<close>

type_synonym site = "console \<times> db \<times> (string \<times> time \<times> string) list"

definition granted :: "admin_env \<Rightarrow> admin_call \<Rightarrow> console \<Rightarrow> (string \<times> time \<times> string) list" where
  "granted E q c =
     (case aq_Request q of
        Login f \<Rightarrow> if \<not> cross_site q \<and> en_sha (ae_Api E) (PostFormValue f ''password'') = co_password c
          then [(en_secret (ae_Api E), ae_Now E, PostFormValue f ''password'')] else []
      | _ \<Rightarrow> [])"

inductive site_step :: "(string \<Rightarrow> string) \<Rightarrow> site \<Rightarrow> site \<Rightarrow> bool" for sha where
  request: "en_sha (ae_Api E) = sha \<Longrightarrow> admin_serve E q c s = (r, c', s') \<Longrightarrow> site_step sha (c, s, given) (c', s', granted E q c @ given)"
| api: "server_step s s' \<Longrightarrow> site_step sha (c, s, given) (c, s', given)"

text \<open>Every session was given for a password that hashes like the console's, and lasts twelve hours from then.\<close>

definition sessions_given :: "(string \<Rightarrow> string) \<Rightarrow> console \<Rightarrow> (string \<times> time \<times> string) list \<Rightarrow> bool" where
  "sessions_given sha c given \<longleftrightarrow>
     (\<forall>(i, expires) \<in> set (co_sessions c). \<exists>t p. (i, t, p) \<in> set given \<and> expires = t + sessionTTL) \<and>
     (\<forall>(i, t, p) \<in> set given. sha p = co_password c)"

text \<open>The labels kept for the public are not masked e-mail addresses.\<close>

definition unmasked :: "overview \<Rightarrow> bool" where
  "unmasked ov \<longleftrightarrow> (\<forall>a \<in> set (ov_Accounts ov). \<not> IsMasked (ao_Label a))"

definition site_ok :: "(string \<Rightarrow> string) \<Rightarrow> string \<Rightarrow> site \<Rightarrow> bool" where
  "site_ok sha password x = (case x of (c, s, given) \<Rightarrow>
     sessions_given sha c given \<and> co_password c = sha password \<and> (\<forall>(k, t, ov) \<in> set (co_overview c). unmasked ov) \<and> db_ok s)"

lemma IsMasked_Nil [simp]: "\<not> IsMasked []"
  by (simp add: IsMasked_def cut_at_def has_suffix_def Let_def)

lemma publicOverview_unmasked: "unmasked (publicOverview E s)"
  by (auto simp: unmasked_def publicOverview_def Let_def)

lemma set_put_subset: "set (put k v m) \<subseteq> insert (k, v) (set m)"
  by (induction m) auto

lemma cache_get_value:
  assumes "cache_get now key (Inr v) c = (r, c')"
  shows "r = Inr v \<or> (\<exists>t w. (key, t, w) \<in> set c \<and> r = Inr w)" "set c' \<subseteq> insert (key, now, v) (set c)"
  using assms set_put_subset[of key "(now, v)" c]
  by (auto simp: cache_get_def Let_def split: option.splits prod.splits if_splits dest: map_of_SomeD)

lemma publicView_cases:
  obtains (hidden) m where "publicView E q show' c s = (not_found, c\<lparr>co_sessions := m\<rparr>, s)" "set m \<subseteq> set (co_sessions c)"
      "\<not> PublicDashboard s" "\<not> (\<exists>i \<in> set (aq_Sessions q). live (ae_Now E) (co_sessions c) i)"
  | (shown) m cached ov where
      "publicView E q show' c s = show' ov (public_names (dictionary (requestLang (aq_Lang q))) 0 (ov_Accounts ov) [])
         \<lparr>pb_GeneratedAt = ov_GeneratedAt ov, pb_Preview = (\<not> PublicDashboard s)\<rparr> (c\<lparr>co_sessions := m, co_overview := cached\<rparr>)"
      "set m \<subseteq> set (co_sessions c)" "set cached \<subseteq> insert ([], ae_Now E, publicOverview E s) (set (co_overview c))"
      "ov = publicOverview E s \<or> (\<exists>t. ([], t, ov) \<in> set (co_overview c))"
      "PublicDashboard s \<or> (\<exists>i \<in> set (aq_Sessions q). live (ae_Now E) (co_sessions c) i)"
proof -
  define p where "p = (if PublicDashboard s then (True, co_sessions c) else signedIn (ae_Now E) (aq_Sessions q) (co_sessions c))"
  have m: "set (snd p) \<subseteq> set (co_sessions c)" using signedIn_subset by (simp add: p_def)
  have ok: "fst p \<longleftrightarrow> PublicDashboard s \<or> (\<exists>i \<in> set (aq_Sessions q). live (ae_Now E) (co_sessions c) i)"
    by (simp add: p_def signedIn_live)
  obtain r cached where got: "cache_get (ae_Now E) [] (Inr (publicOverview E s) :: unit + overview) (co_overview c) = (r, cached)" by fastforce
  note kept = cache_get_value[OF got]
  then obtain ov where ov: "r = Inr ov" "ov = publicOverview E s \<or> (\<exists>t. ([], t, ov) \<in> set (co_overview c))" by blast
  show thesis
  proof (cases "fst p")
    case True
    have "publicView E q show' c s = show' ov (public_names (dictionary (requestLang (aq_Lang q))) 0 (ov_Accounts ov) [])
         \<lparr>pb_GeneratedAt = ov_GeneratedAt ov, pb_Preview = (\<not> PublicDashboard s)\<rparr> (c\<lparr>co_sessions := snd p, co_overview := cached\<rparr>)"
      using True got ov(1) by (simp add: publicView_def Let_def case_prod_unfold flip: p_def)
    then show ?thesis using shown m kept(2) ov(2) ok True by blast
  next
    case False
    have "publicView E q show' c s = (not_found, c\<lparr>co_sessions := snd p\<rparr>, s)"
      using False by (simp add: publicView_def Let_def case_prod_unfold flip: p_def)
    then show ?thesis using hidden m ok False by blast
  qed
qed

text \<open>What a request does to the sessions and to the overview kept for the public.\<close>

definition console_grown :: "admin_env \<Rightarrow> admin_call \<Rightarrow> console \<Rightarrow> db \<Rightarrow> console \<Rightarrow> bool" where
  "console_grown E q c s c' \<longleftrightarrow>
     set (co_sessions c') \<subseteq> set (co_sessions c) \<union> (\<lambda>(i, t, p). (i, t + sessionTTL)) ` set (granted E q c) \<and>
     set (co_overview c') \<subseteq> insert ([], ae_Now E, publicOverview E s) (set (co_overview c)) \<and> co_password c' = co_password c"

lemma grown_same: "console_grown E q c s c"
  by (auto simp: console_grown_def)

lemma grown_public:
  assumes "\<And>ov names pd c. co_sessions (fst (snd (show' ov names pd c))) = co_sessions c"
    "\<And>ov names pd c. co_overview (fst (snd (show' ov names pd c))) = co_overview c"
    "\<And>ov names pd c. co_password (fst (snd (show' ov names pd c))) = co_password c"
  shows "console_grown E q c s (fst (snd (publicView E q show' c s)))"
proof (cases rule: publicView_cases[of E q show' c s])
  case (hidden m)
  then show ?thesis by (auto simp: console_grown_def)
next
  case (shown m cached ov)
  then show ?thesis using assms by (auto simp: console_grown_def)
qed

lemma public_report_console:
  "co_sessions (snd (public_report E i rg c s)) = co_sessions c" "co_overview (snd (public_report E i rg c s)) = co_overview c"
  "co_password (snd (public_report E i rg c s)) = co_password c"
  by (simp_all add: public_report_def case_prod_unfold)

lemma show_capacity_console:
  "fst (snd (show_capacity E q query s ov names pd c)) = c \<or>
   fst (snd (show_capacity E q query s ov names pd c)) = snd (public_report E (capacity_account query ov) (fst (requested_range E query)) c s)"
  by (simp add: show_capacity_def Let_def case_prod_unfold)

lemma grown_dashboard: "console_grown E q c s (fst (snd (dashboard_page E q c s)))"
  unfolding dashboard_page_def by (rule grown_public) (simp_all add: show_dashboard_def Let_def)

lemma grown_dashboardUsage: "console_grown E q c s (fst (snd (dashboardUsage_page E q query c s)))"
  unfolding dashboardUsage_page_def
  by (rule grown_public) (simp_all add: show_usage_def Let_def case_prod_unfold split: sum.split)

lemma grown_dashboardCapacity: "console_grown E q c s (fst (snd (dashboardCapacity_page E q query c s)))"
  unfolding dashboardCapacity_page_def
  by (rule grown_public) (metis show_capacity_console public_report_console)+

lemmas grown_dashboards = grown_dashboard grown_dashboardUsage grown_dashboardCapacity

lemma login_grown:
  assumes "aq_Request q = Login f" "\<not> cross_site q"
  shows "console_grown E q c s (fst (snd (login_handler E q f c s)))"
  using assms set_put_subset[of "en_secret (ae_Api E)" "ae_Now E + sessionTTL" "filter (\<lambda>(_, expires). \<not> ae_Now E > expires) (co_sessions c)"]
  by (auto simp: console_grown_def login_handler_def granted_def Let_def)

lemma open_route_grown: "\<not> cross_site q \<Longrightarrow> console_grown E q c s (fst (snd (open_route E q c s)))"
  using grown_dashboards login_grown[of q _ E c s] grown_same[of E q c s]
  by (cases "aq_Request q")
    (simp_all add: open_route_def setLang_def root_page_def icon_file_def, auto simp: logout_handler_def console_grown_def)

lemma admin_serve_grown: "console_grown E q c s (fst (snd (admin_serve E q c s)))"
proof (cases "cross_site q")
  case True
  then show ?thesis using grown_same by (simp add: admin_serve_def)
next
  case False
  show ?thesis
  proof (cases "admin_route E q")
    case None
    then show ?thesis using open_route_grown[OF False] False by (simp add: admin_serve_def)
  next
    case (Some h)
    have "fst (snd (h c' s)) = c'" for c' using admin_route_store_only[OF Some] by (simp add: store_only_def)
    then have "console_grown E q c s (fst (snd (admin_authed E q h c s)))"
      using signedIn_subset[of "ae_Now E" "aq_Sessions q" "co_sessions c"]
      by (auto simp: admin_authed_def Let_def case_prod_unfold console_grown_def)
    then show ?thesis using Some False by (simp add: admin_serve_def)
  qed
qed

lemma server_steps_ok: "server_step\<^sup>*\<^sup>* s t \<Longrightarrow> db_ok s \<Longrightarrow> db_ok t"
  by (rule server.ok_steps)

lemma granted_password: "(i, t, p) \<in> set (granted E q c) \<Longrightarrow> en_sha (ae_Api E) p = co_password c"
  by (auto simp: granted_def split: admin_request.splits if_splits)

lemma site_step_ok:
  assumes "site_ok sha password x" "site_step sha x y"
  shows "site_ok sha password y"
  using assms(2)
proof (cases rule: site_step.cases)
  case (request E q c s r c' s' given)
  then have grown: "console_grown E q c s c'" and db: "server_step\<^sup>*\<^sup>* s s'"
    using admin_serve_grown[of E q c s] admin_serve_steps[of s E q c] by auto
  have old: "sessions_given sha c given" "co_password c = sha password" "\<forall>(k, t, ov) \<in> set (co_overview c). unmasked ov" "db_ok s"
    using assms(1) request(1) by (auto simp: site_ok_def)
  have same: "co_password c' = co_password c" using grown by (simp add: console_grown_def)
  have "\<exists>t p. (i, t, p) \<in> set (granted E q c @ given) \<and> expires = t + sessionTTL" if e: "(i, expires) \<in> set (co_sessions c')" for i expires
  proof -
    have "(i, expires) \<in> set (co_sessions c) \<or> (i, expires) \<in> (\<lambda>(i, t, p). (i, t + sessionTTL)) ` set (granted E q c)"
      using grown e unfolding console_grown_def by blast
    then show ?thesis using old(1) unfolding sessions_given_def by force
  qed
  moreover have "sha p = co_password c" if "(i, t, p) \<in> set (granted E q c @ given)" for i t p
    using that old(1) granted_password[of i t p E q c] request(3) unfolding sessions_given_def by auto
  ultimately have "sessions_given sha c' (granted E q c @ given)" unfolding sessions_given_def same by blast
  moreover have "unmasked ov" if e: "(k, t, ov) \<in> set (co_overview c')" for k t ov
  proof -
    have "(k, t, ov) = ([], ae_Now E, publicOverview E s) \<or> (k, t, ov) \<in> set (co_overview c)"
      using grown e unfolding console_grown_def by blast
    then show ?thesis using old(3) publicOverview_unmasked by auto
  qed
  moreover have "db_ok s'" using db old(4) by (rule server_steps_ok)
  ultimately show ?thesis using request(2) old(2) same by (auto simp: site_ok_def)
next
  case (api s s' c given)
  then show ?thesis using assms(1) server_step_ok by (auto simp: site_ok_def)
qed

lemma New_console_ok: "New_console sha password url version = Inr c \<Longrightarrow> site_ok sha password (c, empty_db, [])"
  by (auto simp: New_console_def site_ok_def sessions_given_def db_ok_empty split: if_splits)

lemma site_reachable:
  assumes "New_console sha password url version = Inr c0" "(site_step sha)\<^sup>*\<^sup>* (c0, empty_db, []) x"
  shows "site_ok sha password x"
  using assms(2) by (induction rule: rtranclp_induct) (use New_console_ok[OF assms(1)] site_step_ok in blast)+

lemma admin_authed_refused:
  assumes "\<not> (\<exists>i \<in> set (aq_Sessions q). live (ae_Now E) (co_sessions c) i)"
  shows "\<exists>c'. admin_authed E q h c s = (redirect ''/admin/login'', c', s)"
proof -
  have "\<not> fst (signedIn (ae_Now E) (aq_Sessions q) (co_sessions c))" using assms signedIn_live by blast
  then show ?thesis by (simp add: admin_authed_def Let_def case_prod_unfold)
qed

text \<open>
  C10. The console is the admin's alone: in every state the site reaches, a request for a page or an
  operation of the console that carries no session given for the admin password within the last
  twelve hours is sent to the sign-in page, or refused as cross-site, and changes nothing.
\<close>

theorem admin_needs_login:
  assumes "New_console sha password url version = Inr c0" "(site_step sha)\<^sup>*\<^sup>* (c0, empty_db, []) (c, s, given)"
    and "admin_route E q = Some h"
    and "\<And>i t p. (i, t, p) \<in> set given \<Longrightarrow> i \<in> set (aq_Sessions q) \<Longrightarrow> sha p = sha password \<Longrightarrow> ae_Now E > t + sessionTTL"
  shows "case admin_serve E q c s of (r, c', s') \<Rightarrow>
    s' = s \<and> (if cross_site q then ap_Status r = StatusForbidden else r = redirect ''/admin/login'')"
proof -
  have "site_ok sha password (c, s, given)" using site_reachable[OF assms(1,2)] .
  then have ok: "sessions_given sha c given" "co_password c = sha password" by (auto simp: site_ok_def)
  have "\<not> live (ae_Now E) (co_sessions c) i" if i: "i \<in> set (aq_Sessions q)" for i
  proof
    assume "live (ae_Now E) (co_sessions c) i"
    then obtain expires where "(i, expires) \<in> set (co_sessions c)" "\<not> ae_Now E > expires"
      by (auto simp: live_def dest: map_of_SomeD)
    then show False using ok i assms(4) unfolding sessions_given_def by fastforce
  qed
  then obtain c' where "admin_authed E q h c s = (redirect ''/admin/login'', c', s)"
    using admin_authed_refused[of q E c h s] by blast
  then show ?thesis using assms(3) by (simp add: admin_serve_def http_error_def)
qed

text \<open>A sign-in at noon, and the dashboard published with it an hour and thirteen hours later.\<close>

definition demo_admin_env :: "time \<Rightarrow> admin_env" where
  "demo_admin_env now = \<lparr>ae_Api = \<lparr>en_sha = (\<lambda>x. ''#'' @ x), en_ids = (\<lambda>n. decimal (int n)), en_secret = ''s1'', en_now = now, en_tlt = (<),
     en_parse = (\<lambda>_. None)\<rparr>, ae_Float = (\<lambda>_. None)\<rparr>"

definition demo_call :: "admin_request \<Rightarrow> string list \<Rightarrow> admin_call" where
  "demo_call r cookies = \<lparr>aq_Request = r, aq_Sessions = cookies, aq_Lang = None, aq_SecFetchSite = ''same-origin'', aq_Origin = [], aq_OriginIsHost = False\<rparr>"

definition demo_login :: admin_call where
  "demo_login = demo_call (Login \<lparr>fm_Bad = False, fm_Values = [(''password'', [''correct horse''])]\<rparr>) []"

definition demo_publish :: admin_call where
  "demo_publish = demo_call (PostSettings \<lparr>fm_Bad = False, fm_Values = [(''public_dashboard'', [''on''])]\<rparr>) [''s1'']"

definition demo_console :: console where
  "demo_console = \<lparr>co_password = ''#correct horse'', co_publicURL = ''https://example.org'', co_version = ''1'', co_sessions = [],
     co_overview = [], co_usage = [], co_capacity = []\<rparr>"

definition demo_signed_in :: "console \<times> db" where
  "demo_signed_in = snd (admin_serve (demo_admin_env 0) demo_login demo_console empty_db)"

lemma demo_session: "snd (admin_serve (demo_admin_env (1 * hour)) demo_publish (fst demo_signed_in) (snd demo_signed_in)) =
    (fst demo_signed_in, empty_db\<lparr>db_settings := [(''public_dashboard'', ''true'')]\<rparr>)"
  by code_simp

lemma admin_needs_login_witness:
  "case admin_serve (demo_admin_env (13 * hour)) demo_publish (fst demo_signed_in) (snd demo_signed_in) of (r, c', s') \<Rightarrow>
     s' = snd demo_signed_in \<and> r = redirect ''/admin/login''"
proof -
  have new: "New_console (\<lambda>x. ''#'' @ x) ''correct horse'' ''https://example.org/'' ''1'' = Inr demo_console" by code_simp
  have given: "granted (demo_admin_env 0) demo_login demo_console = [(''s1'', 0, ''correct horse'')]" by code_simp
  have "site_step (\<lambda>x. ''#'' @ x) (demo_console, empty_db, [])
      (fst demo_signed_in, snd demo_signed_in, granted (demo_admin_env 0) demo_login demo_console @ [])"
    by (rule site_step.request[where r = "fst (admin_serve (demo_admin_env 0) demo_login demo_console empty_db)"])
      (simp_all add: demo_admin_env_def demo_signed_in_def)
  then have reach: "(site_step (\<lambda>x. ''#'' @ x))\<^sup>*\<^sup>* (demo_console, empty_db, []) (fst demo_signed_in, snd demo_signed_in, [(''s1'', 0, ''correct horse'')])"
    unfolding given by simp
  have route: "admin_route (demo_admin_env (13 * hour)) demo_publish =
      Some (saveSettings \<lparr>fm_Bad = False, fm_Values = [(''public_dashboard'', [''on''])]\<rparr>)"
    by (simp add: admin_route_def demo_publish_def demo_call_def)
  have late: "ae_Now (demo_admin_env (13 * hour)) > (0 :: time) + sessionTTL" by code_simp
  have "\<not> cross_site demo_publish" by code_simp
  then show ?thesis
    using admin_needs_login[OF new reach route] late by simp
qed

section \<open>What the dashboard publishes\<close>

lemma not_masked_long: "6 \<le> length s \<Longrightarrow> CHR ''@'' \<notin> set (take 6 s) \<Longrightarrow> \<not> IsMasked s"
proof
  assume s: "6 \<le> length s" "CHR ''@'' \<notin> set (take 6 s)" "IsMasked s"
  have "takeWhile (\<lambda>x. x \<noteq> CHR ''@'') s = take 6 s @ takeWhile (\<lambda>x. x \<noteq> CHR ''@'') (drop 6 s)"
    using takeWhile_append2[of "take 6 s" "\<lambda>x. x \<noteq> CHR ''@''" "drop 6 s"] s(2) by auto
  then have "6 \<le> length (fst (cut_at s CHR ''@''))" using s(1) by (simp add: cut_at_fst)
  then show False using s(3) by (simp add: IsMasked_def Let_def)
qed

lemma accountN_texts:
  "\<exists>p. get_or [] (dictionary (requestLang cookie)) ''accountN'' = p @ '' %d'' \<and> 6 \<le> length p \<and> CHR ''@'' \<notin> set p \<and> CHR ''%'' \<notin> set p"
proof -
  have "dictionary (requestLang cookie) = english \<or> dictionary (requestLang cookie) = chinese"
    using requestLang_known[of cookie] by (auto simp: dictionary_def dictionaries_def get_or_def)
  then show ?thesis
  proof
    assume d: "dictionary (requestLang cookie) = english"
    have "get_or [] english ''accountN'' = ''Account'' @ '' %d''" by (simp add: english_def get_or_def)
    then show ?thesis unfolding d by (intro exI[of _ "''Account''"]) simp
  next
    assume d: "dictionary (requestLang cookie) = chinese"
    have "get_or [] chinese ''accountN'' = utf8 [0x5E33, 0x865F] @ '' %d''" by (simp add: chinese_def get_or_def)
    moreover have "length (utf8 [0x5E33, 0x865F]) = 6" by (simp add: utf8_def)
    moreover have "CHR ''@'' \<notin> set (utf8 [0x5E33, 0x865F])" "CHR ''%'' \<notin> set (utf8 [0x5E33, 0x865F])" by (simp_all add: utf8_high)
    ultimately show ?thesis unfolding d by (intro exI[of _ "utf8 [0x5E33, 0x865F]"]) simp
  qed
qed

lemma fill_append: "CHR ''%'' \<notin> set p \<Longrightarrow> fill (p @ s) arg = p @ fill s arg"
  by (induction p) auto

lemma account_number_unmasked: "\<not> IsMasked (fill (get_or [] (dictionary (requestLang cookie)) ''accountN'') n)"
proof -
  obtain p where p: "get_or [] (dictionary (requestLang cookie)) ''accountN'' = p @ '' %d''" "6 \<le> length p" "CHR ''@'' \<notin> set p" "CHR ''%'' \<notin> set p"
    using accountN_texts by blast
  have "CHR ''@'' \<notin> set (take 6 p)" using p(3) by (meson in_set_takeD)
  then show ?thesis unfolding p(1) fill_append[OF p(4)] using p(2) by (intro not_masked_long) simp_all
qed

lemma public_names_unmasked:
  assumes "\<forall>a \<in> set as. \<not> IsMasked (ao_Label a)" "\<forall>(k, n) \<in> set names. \<not> IsMasked n"
  shows "\<forall>(k, n) \<in> set (public_names (dictionary (requestLang cookie)) i as names). \<not> IsMasked n"
  using assms
proof (induction as arbitrary: i names)
  case (Cons a as)
  have put: "\<forall>(k, n) \<in> set (put k v names). \<not> IsMasked n" if "\<not> IsMasked v" for k v
    using set_put_subset[of k v names] that Cons.prems(2) by auto
  show ?case
  proof (cases "ao_Label a = []")
    case True
    show ?thesis unfolding public_names.simps if_P[OF True]
      by (rule Cons.IH[OF _ put[OF account_number_unmasked]]) (use Cons.prems(1) in simp)
  next
    case False
    show ?thesis unfolding public_names.simps if_not_P[OF False]
      by (rule Cons.IH[OF _ put]) (use Cons.prems(1) in simp_all)
  qed
qed simp

lemma get_or_unmasked: "\<forall>(k, n) \<in> set names. \<not> IsMasked n \<Longrightarrow> \<not> IsMasked (get_or [] names k)"
  by (auto simp: get_or_def split: option.split dest!: map_of_SomeD)

text \<open>What a page of the dashboard may show: no hint, no masked e-mail address, no note of the admin, no list of devices.\<close>

definition publishable :: "page_data \<Rightarrow> bool" where
  "publishable d = (case d of
       DashboardData pd views \<Rightarrow> list_all (\<lambda>v. aw_Hint v = [] \<and> \<not> IsMasked (aw_Label v)) views
     | DashboardUsageData pd u \<Rightarrow> list_all (\<lambda>a. \<not> IsMasked (ul_Name a)) (re_Accounts (ud_Report u)) \<and> \<not> ud_ShowDevices u
     | DashboardCapacityData pd p accounts report \<Rightarrow> list_all (\<lambda>(i, name). \<not> IsMasked name) accounts \<and>
         (case report of None \<Rightarrow> True
          | Some (i, r) \<Rightarrow> \<not> IsMasked (rt_AccountLabel r) \<and> list_all (\<lambda>p. pd_Reason p = [] \<and> pd_Source p = []) (rt_Plans r))
     | _ \<Rightarrow> False)"

definition publishes :: "admin_response \<Rightarrow> bool" where
  "publishes r = (case ap_Body r of Page p \<Rightarrow> publishable (pg_Data p) | _ \<Rightarrow> True)"

lemma render_publishes: "publishes (render c q name status spec d) = publishable d"
  by (simp add: publishes_def render_def Let_def)

lemma errors_publish: "publishes not_found" "publishes fail" "publishes dropped"
  by (simp_all add: publishes_def not_found_def fail_def dropped_def http_error_def)

lemma show_dashboard_publishes:
  assumes "\<And>k. \<not> IsMasked (get_or [] names k)"
  shows "publishes (fst (show_dashboard E q s ov names pd c))"
  using assms
  by (auto simp: show_dashboard_def Let_def render_publishes publishable_def list_all_iff accountViews_def account_view_of_def
      get_or_def dest!: set_zip_rightD)

lemma show_usage_publishes:
  assumes "\<And>k. \<not> IsMasked (get_or [] names k)"
  shows "publishes (fst (show_usage E q query s ov names pd c))"
proof -
  have "publishes r" if "requestedMember query s = Inl r" for r
    using that errors_publish by (auto simp: requestedMember_def Let_def split: if_splits sum.splits)
  then show ?thesis using assms
    by (auto simp: show_usage_def Let_def render_publishes publishable_def list_all_iff public_usage_def case_prod_unfold errors_publish
        split: sum.split)
qed

lemma show_capacity_publishes:
  assumes "\<And>k. \<not> IsMasked (get_or [] names k)"
  shows "publishes (fst (show_capacity E q query s ov names pd c))"
  using assms
  by (auto simp: show_capacity_def Let_def render_publishes publishable_def list_all_iff publicCapacity_def case_prod_unfold errors_publish
      split: sum.split option.split)

lemma public_route:
  assumes "aq_Request q \<in> {Dashboard, DashboardUsage query, DashboardCapacity query}"
  obtains show' where "admin_serve E q c s = publicView E q show' c s"
    "\<And>names ov pd c. (\<And>k. \<not> IsMasked (get_or [] names k)) \<Longrightarrow> publishes (fst (show' ov names pd c))"
proof -
  have plain: "\<not> cross_site q" "admin_route E q = None" using assms by (auto simp: cross_site_def posted_def admin_route_def)
  from assms consider "aq_Request q = Dashboard" | "aq_Request q = DashboardUsage query" | "aq_Request q = DashboardCapacity query" by blast
  then show thesis
  proof cases
    case 1
    then have "admin_serve E q c s = publicView E q (show_dashboard E q s) c s"
      using plain by (simp add: admin_serve_def open_route_def dashboard_page_def)
    then show ?thesis using show_dashboard_publishes by (rule that)
  next
    case 2
    then have "admin_serve E q c s = publicView E q (show_usage E q query s) c s"
      using plain by (simp add: admin_serve_def open_route_def dashboardUsage_page_def)
    then show ?thesis using show_usage_publishes by (rule that)
  next
    case 3
    then have "admin_serve E q c s = publicView E q (show_capacity E q query s) c s"
      using plain by (simp add: admin_serve_def open_route_def dashboardCapacity_page_def)
    then show ?thesis using show_capacity_publishes by (rule that)
  qed
qed

text \<open>
  C11. The dashboard publishes what it may: in every state the site reaches, a page of it exists for a
  visitor only once it is published, and to anyone it shows no hint of an account, no masked e-mail
  address as a name, no reason or source of a plan and no list of devices, even from what it keeps
  of an earlier overview.
\<close>

theorem dashboard_publishes:
  assumes "New_console sha password url version = Inr c0" "(site_step sha)\<^sup>*\<^sup>* (c0, empty_db, []) (c, s, given)"
    and "aq_Request q \<in> {Dashboard, DashboardUsage query, DashboardCapacity query}"
  shows "publishes (fst (admin_serve E q c s)) \<and>
    (\<not> PublicDashboard s \<and> list_all (\<lambda>i. \<not> live (ae_Now E) (co_sessions c) i) (aq_Sessions q) \<longrightarrow> fst (admin_serve E q c s) = not_found)"
proof -
  have kept: "\<forall>(k, t, ov) \<in> set (co_overview c). unmasked ov" using site_reachable[OF assms(1,2)] by (simp add: site_ok_def)
  obtain show' where show': "admin_serve E q c s = publicView E q show' c s"
    "\<And>names ov pd c. (\<And>k. \<not> IsMasked (get_or [] names k)) \<Longrightarrow> publishes (fst (show' ov names pd c))"
    using public_route[OF assms(3)] by blast
  show ?thesis
  proof (cases rule: publicView_cases[of E q show' c s])
    case (hidden m)
    then show ?thesis using show'(1) errors_publish by simp
  next
    case (shown m cached ov)
    have "unmasked ov" using shown(4) kept publicOverview_unmasked by auto
    then have "\<forall>(k, n) \<in> set (public_names (dictionary (requestLang (aq_Lang q))) 0 (ov_Accounts ov) []). \<not> IsMasked n"
      by (intro public_names_unmasked) (auto simp: unmasked_def)
    then have "\<And>k. \<not> IsMasked (get_or [] (public_names (dictionary (requestLang (aq_Lang q))) 0 (ov_Accounts ov) []) k)"
      by (rule get_or_unmasked)
    then have "publishes (fst (admin_serve E q c s))" unfolding show'(1) shown(1) by (rule show'(2))
    then show ?thesis using shown(5) by (auto simp: list_all_iff)
  qed
qed

text \<open>A visitor of a site that is published and has no accounts yet, and of one that is not published.\<close>

definition demo_published :: db where
  "demo_published = empty_db\<lparr>db_settings := [(''public_dashboard'', ''true'')]\<rparr>"

lemma dashboard_publishes_witness:
  "publishes (fst (admin_serve (demo_admin_env 0) (demo_call Dashboard []) demo_console demo_published)) \<and>
   fst (admin_serve (demo_admin_env 0) (demo_call Dashboard []) demo_console empty_db) = not_found"
proof -
  have new: "New_console (\<lambda>x. ''#'' @ x) ''correct horse'' ''https://example.org/'' ''1'' = Inr demo_console" by code_simp
  have "SetPublicDashboard True empty_db = Inr ((), demo_published)" by code_simp
  then have "server_step empty_db demo_published" by (rule server_step.set_public_dashboard)
  then have "(site_step (\<lambda>x. ''#'' @ x))\<^sup>*\<^sup>* (demo_console, empty_db, []) (demo_console, demo_published, [])"
    by (intro r_into_rtranclp site_step.api)
  moreover have "aq_Request (demo_call Dashboard []) = Dashboard" "aq_Sessions (demo_call Dashboard []) = []" by (simp_all add: demo_call_def)
  moreover have "\<not> PublicDashboard empty_db" by code_simp
  ultimately show ?thesis
    using dashboard_publishes[OF new, of demo_console demo_published "[]" "demo_call Dashboard []" "[]" "demo_admin_env 0"]
      dashboard_publishes[OF new, of demo_console empty_db "[]" "demo_call Dashboard []" "[]" "demo_admin_env 0"] by simp
qed

section \<open>Smaller laws\<close>

text \<open>Within thirty seconds a kept value is neither built again nor changed.\<close>

lemma cache_builds_once:
  assumes "cache_get now key (Inr v) c = (r, c')" "0 \<le> later - now" "later - now < dashboardTTL"
    and "\<And>t w. map_of c key = Some (t, w) \<Longrightarrow> \<not> time_sub now t < dashboardTTL"
  shows "cache_get later key built c' = (Inr v, c')"
proof -
  have c': "c' = put key (now, v) c" using assms(1,4) by (auto simp: cache_get_def Let_def split: option.splits prod.splits if_splits)
  have "time_sub later now < dashboardTTL" using assms(2,3) by (simp add: time_sub_def dashboardTTL_def min_duration_def max_duration_def second_def)
  then show ?thesis unfolding c' by (simp add: cache_get_def update_conv')
qed

text \<open>The order saved is of accounts there are, each once.\<close>

lemma ordered_ids_known: "distinct (ordered_ids known posted') \<and> set (ordered_ids known posted') = set posted' \<inter> set known"
proof (induction posted' rule: rev_induct)
  case (snoc i ids)
  then show ?case by (auto simp: ordered_ids_def)
qed (simp add: ordered_ids_def)

text \<open>A language switch leads to a page of the site, and never to another host.\<close>

lemma lang_destination_cases:
  "has_prefix (lang_destination next') ''/admin/'' \<or> lang_destination next' \<in> {dashboardPath, dashboardUsagePath}"
  unfolding lang_destination_def by (auto simp: has_prefix_def)

lemma lang_destination_local: "has_prefix (lang_destination next') ''/'' \<and> \<not> has_prefix (lang_destination next') ''//''"
proof -
  have "\<exists>c r. lang_destination next' = CHR ''/'' # c # r \<and> c \<noteq> CHR ''/''"
    using lang_destination_cases[of next'] by (auto simp: has_prefix_iff dashboardPath_def dashboardUsagePath_def)
  then show ?thesis by (auto simp: has_prefix_iff)
qed

text \<open>The capacity page of the dashboard is not among them, so a switch there leads to the console.\<close>

lemma lang_leaves_capacity: "lang_destination dashboardCapacityPath = ''/admin/''"
  by code_simp

lemma SetAccountOrder_positions:
  "setAccountOrder E f c s = (r, c', s') \<Longrightarrow> \<not> fm_Bad f \<Longrightarrow> r = redirect ''/admin/accounts'' \<and>
    (\<exists>ids. distinct ids \<and> set ids \<subseteq> ar_ID ` set (db_accounts s) \<and> ServerStore.SetAccountOrder ids s = Inr ((), s'))"
  using ordered_ids_known[of "map acc_ID (Accounts (ae_tlt E) s)" "get_or [] (fm_Values f) ''id''"]
  by (auto simp: setAccountOrder_def ServerStore.SetAccountOrder_def Let_def Accounts_def account_of_row_def image_image intro!: exI)

end
