(* ===== verification/ServerMain.thy ===== *)
theory ServerMain
  imports AdminRules
begin

text \<open>
  The server as a whole (\<open>cmd/sharecodex-server/main.go\<close>): its configuration from the environment, the
  router in front of the console and the API, and the two serving one database. Paths are clean, as
  \<open>http.ServeMux\<close> makes them first; signals and timeouts are left out.
\<close>

section \<open>Configuration\<close>

datatype run_refused = NoDatabaseURL | ConsoleConfig config_refused

definition listen_addr :: "(string \<Rightarrow> string) \<Rightarrow> string" where
  "listen_addr getenv = (let addr = getenv ''LISTEN_ADDR'' in if addr = [] then '':8080'' else addr)"

definition run_server :: "(string \<Rightarrow> string) \<Rightarrow> string \<Rightarrow> (string \<Rightarrow> string) \<Rightarrow> run_refused + console \<times> string" where
  "run_server sha version getenv =
     (if getenv ''DATABASE_URL'' = [] then Inl NoDatabaseURL
      else case New_console sha (getenv ''ADMIN_PASSWORD'') (getenv ''PUBLIC_URL'') version of
          Inl err \<Rightarrow> Inl (ConsoleConfig err)
        | Inr c \<Rightarrow> Inr (c, listen_addr getenv))"

section \<open>The router\<close>

datatype mux_target = ServeConsole | RedirectTo string | ServeAPI

definition one_segment :: "string \<Rightarrow> string \<Rightarrow> bool" where
  "one_segment path pre = (case cut_prefix path pre of None \<Rightarrow> False | Some r \<Rightarrow> r \<noteq> [] \<and> CHR ''/'' \<notin> set r)"

definition server_mux :: "string \<Rightarrow> string \<Rightarrow> mux_target" where
  "server_mux verb path =
     (if has_prefix path ''/admin/'' then ServeConsole
      else if path = ''/admin'' then RedirectTo ''/admin/''
      else if (verb = ''GET'' \<or> verb = ''HEAD'') \<and>
        (path \<in> set [''/dashboard'', ''/dashboard/usage'', ''/dashboard/capacity'', ''/manifest.webmanifest'', ''/''] \<or>
         one_segment path ''/lang/'' \<or> one_segment path ''/icons/'') then ServeConsole
      else ServeAPI)"

section \<open>Serving\<close>

text \<open>A request for one side or the other, as each reads it.\<close>

datatype server_request = ConsoleCall admin_env admin_call | ApiCall api_env api_request

datatype server_answer = ConsoleAnswer admin_response | ApiAnswer api_response

fun server_serve :: "server_request \<Rightarrow> console \<Rightarrow> db \<Rightarrow> server_answer \<times> console \<times> db" where
  "server_serve (ConsoleCall E q) c s = (case admin_serve E q c s of (r, c, s) \<Rightarrow> (ConsoleAnswer r, c, s))"
| "server_serve (ApiCall env req) c s = (case serve env req s of (r, s) \<Rightarrow> (ApiAnswer r, c, s))"

fun server_run :: "server_request list \<Rightarrow> console \<times> db \<Rightarrow> console \<times> db" where
  "server_run [] x = x"
| "server_run (req # reqs) (c, s) = (case server_serve req c s of (_, c, s) \<Rightarrow> server_run reqs (c, s))"

section \<open>What no request loses\<close>

text \<open>The two forms of the console that delete a ledger.\<close>

fun deletes :: "server_request \<Rightarrow> bool" where
  "deletes (ConsoleCall E q) = (case aq_Request q of PostDeletePerson _ \<Rightarrow> True | PostDeleteAccount _ \<Rightarrow> True | _ \<Rightarrow> False)"
| "deletes (ApiCall env req) = False"

definition keeps_usage :: "(console \<Rightarrow> db \<Rightarrow> handled) \<Rightarrow> bool" where
  "keeps_usage h \<longleftrightarrow> (\<forall>c s. db_usage (snd (snd (h c s))) = db_usage s)"

lemma read_only_keeps: "read_only h \<Longrightarrow> keeps_usage h"
  by (simp add: read_only_def keeps_usage_def)

lemma store_interval_usage: "store_interval i now v s = Inr (w, t) \<Longrightarrow> db_usage t = db_usage s"
  by (auto simp: store_interval_def Let_def split: if_splits option.splits sum.splits)

lemma ops_keep_usage:
  "AddPerson i now name s = Inr (p, t) \<Longrightarrow> db_usage t = db_usage s"
  "CreateInvite sha code now i ttl s = Inr (c, t) \<Longrightarrow> db_usage t = db_usage s"
  "RevokeDevice now i s = Inr (u, t) \<Longrightarrow> db_usage t = db_usage s"
  "ServerStore.SetAccountOrder ids s = Inr (u, t) \<Longrightarrow> db_usage t = db_usage s"
  "SetAccountLabel i l s = Inr (u, t) \<Longrightarrow> db_usage t = db_usage s"
  "SetShareWeight i j x s = Inr (u, t) \<Longrightarrow> db_usage t = db_usage s"
  "SetPublicDashboard b s = Inr (u, t) \<Longrightarrow> db_usage t = db_usage s"
  "DeletePlanInterval i j s = Inr (u, t) \<Longrightarrow> db_usage t = db_usage s"
  by (auto simp: AddPerson_def CreateInvite_def RevokeDevice_def ServerStore.SetAccountOrder_def SetAccountLabel_def SetShareWeight_def
      SetPublicDashboard_def DeletePlanInterval_def Let_def split: if_splits option.splits sum.splits)

lemma SavePlanInterval_usage: "SavePlanInterval i now v s = Inr (w, t) \<Longrightarrow> db_usage t = db_usage s"
  by (auto simp: SavePlanInterval_def Let_def dest: store_interval_usage split: if_splits option.splits)

lemmas usage_ops = ops_keep_usage SavePlanInterval_usage

lemma keeps_usageI: "(\<And>c s. db_usage (snd (snd (h c s))) = db_usage s) \<Longrightarrow> keeps_usage h"
  by (simp add: keeps_usage_def)

lemma addPerson_usage: "keeps_usage (addPerson E q f)"
  by (rule keeps_usageI) (auto simp: addPerson_def Let_def read_onlyD dest: usage_ops split: sum.split option.split prod.split)

lemma invite_person_usage: "keeps_usage (invite_person E q i)"
  by (rule keeps_usageI) (auto simp: invite_person_def Let_def read_onlyD dest: usage_ops split: sum.split option.split prod.split)

lemma setLabel_usage: "keeps_usage (setLabel E q i f)"
  by (rule keeps_usageI) (auto simp: setLabel_def Let_def read_onlyD dest: usage_ops split: sum.split option.split prod.split)

lemma setAccountOrder_usage: "keeps_usage (setAccountOrder E f)"
  by (rule keeps_usageI) (auto simp: setAccountOrder_def Let_def read_onlyD dest: usage_ops split: sum.split option.split prod.split)

lemma saveAccountPlan_usage: "keeps_usage (saveAccountPlan E q i f)"
  by (rule keeps_usageI) (auto simp: saveAccountPlan_def Let_def read_onlyD dest: usage_ops split: sum.split option.split prod.split)

lemma deleteAccountPlan_usage: "keeps_usage (deleteAccountPlan i p)"
  by (rule keeps_usageI) (auto simp: deleteAccountPlan_def Let_def read_onlyD dest: usage_ops split: sum.split option.split prod.split)

lemma revoke_device_usage: "keeps_usage (revoke_device E i)"
  by (rule keeps_usageI) (auto simp: revoke_device_def Let_def read_onlyD dest: usage_ops split: sum.split option.split prod.split)

lemma saveSettings_usage: "keeps_usage (saveSettings f)"
  by (rule keeps_usageI) (auto simp: saveSettings_def Let_def read_onlyD dest: usage_ops split: sum.split option.split prod.split)

lemma save_weights_usage: "db_usage (snd (save_weights i ws s)) = db_usage s"
proof (induction i ws s rule: save_weights.induct)
  case (2 i personID w ws s)
  then show ?case by (auto dest: usage_ops split: sum.split)
qed simp

lemma setShares_usage: "keeps_usage (setShares E q i f)"
proof (rule keeps_usageI)
  fix c s
  have saved: "db_usage t = db_usage s" if "save_weights j ws s = (ok, t)" for j ws ok t
    using save_weights_usage[of j ws s] that by simp
  show "db_usage (snd (snd (setShares E q i f c s))) = db_usage s"
    by (auto simp: setShares_def Let_def read_onlyD split: sum.split option.split prod.split intro: saved)
qed

lemmas handlers_usage = addPerson_usage invite_person_usage setLabel_usage setAccountOrder_usage saveAccountPlan_usage deleteAccountPlan_usage
  revoke_device_usage saveSettings_usage setShares_usage

lemma admin_route_usage: "admin_route E q = Some h \<Longrightarrow> \<not> deletes (ConsoleCall E q) \<Longrightarrow> keeps_usage h"
  by (auto simp: admin_route_def accountPlans_def split: admin_request.splits intro: handlers_usage read_only_keeps pages_read_only)

lemma admin_serve_usage: "\<not> deletes (ConsoleCall E q) \<Longrightarrow> db_usage (snd (snd (admin_serve E q c s))) = db_usage s"
  using admin_route_usage[of E q] open_route_store[of E q c s]
  by (auto simp: admin_serve_def admin_authed_def keeps_usage_def Let_def case_prod_unfold split: option.split)

text \<open>A row that is still there: of the same request, device and person, with no fewer tokens put out.\<close>

definition still_there :: "db \<Rightarrow> usage_row \<Rightarrow> bool" where
  "still_there s u \<longleftrightarrow> list_ex (\<lambda>v. identity_of v = identity_of u \<and> tk_Output (ur_Tokens u) \<le> tk_Output (ur_Tokens v)) (db_usage s)"

lemma still_there_same: "db_usage t = db_usage s \<Longrightarrow> u \<in> set (db_usage s) \<Longrightarrow> still_there t u"
  by (auto simp: still_there_def list_ex_iff)

lemma sync_handler_usage:
  assumes "db_ok s" "authentic (sd_Device d) s" "u \<in> set (db_usage s)"
  shows "still_there (snd (sync_handler env b d s)) u"
proof -
  have "still_there t u" if "Ingest newID (sd_Device d) req s = Inr (resp, t)" for newID req resp t
    using Ingest_batch[OF that assms(1,2)] assms(3) by (fastforce simp: batch_ok_def grown_def row_grown_def still_there_def list_ex_iff)
  then show ?thesis using still_there_same[OF refl assms(3)] by (auto simp: sync_handler_def Let_def split: option.split sum.split)
qed

lemma authed_usage:
  assumes "\<And>d t. db_ok t \<Longrightarrow> authentic (sd_Device d) t \<Longrightarrow> u \<in> set (db_usage t) \<Longrightarrow> still_there (snd (handler d t)) u"
    and "db_ok s" "u \<in> set (db_usage s)"
  shows "still_there (snd (authed env h handler s)) u"
proof (cases rule: authed_cases[of env h handler s])
  case (refused r)
  then show ?thesis using still_there_same[OF refl assms(3)] by simp
next
  case (known token d t)
  note dev = DeviceByToken_device[OF known(2)]
  have "db_ok t" using server_steps_ok[of s t] dev(1) assms(2) by blast
  then show ?thesis using assms(1)[of t d] dev(2,3) assms(3) known(3) by simp
qed

lemma serve_usage:
  assumes "db_ok s" "u \<in> set (db_usage s)" shows "still_there (snd (serve env req s)) u"
proof (cases req)
  case (SyncBatch h b)
  then show ?thesis using authed_usage[OF sync_handler_usage assms] by (simp add: serve_def)
next
  case (PairDevice b)
  then show ?thesis using still_there_same[OF other_handlers_usage(6) assms(2)] by (simp add: serve_def)
next
  case (ReadOverview h today)
  then show ?thesis using authed_usage[OF still_there_same[OF other_handlers_usage(1)] assms] by (simp add: serve_def)
next
  case (MakeInvite h)
  then show ?thesis using authed_usage[OF still_there_same[OF other_handlers_usage(2)] assms] by (simp add: serve_def)
next
  case (LeaveAccount h i)
  then show ?thesis using authed_usage[OF still_there_same[OF other_handlers_usage(3)] assms] by (simp add: serve_def)
next
  case (ReadCapacity h i q)
  then show ?thesis using authed_usage[OF still_there_same[OF other_handlers_usage(4)] assms] by (simp add: serve_def)
next
  case (ReadUsage h i p)
  then show ?thesis using authed_usage[OF still_there_same[OF other_handlers_usage(5)] assms] by (simp add: serve_def)
qed (use still_there_same[OF refl assms(2)] in \<open>simp_all add: serve_def\<close>)

lemma serve_steps: "server_step\<^sup>*\<^sup>* s (snd (serve env req s))"
  by (cases req) (auto simp: serve_def intro: authed_steps handlers_step pair_handler_step)

lemma server_serve_ok: "db_ok s \<Longrightarrow> db_ok (snd (snd (server_serve req c s)))"
proof (cases req)
  case (ConsoleCall E q)
  assume "db_ok s"
  then show ?thesis using server_steps_ok[OF admin_serve_steps[of s E q c]] by (simp add: ConsoleCall case_prod_unfold)
next
  case (ApiCall env r)
  assume "db_ok s"
  then show ?thesis using server_steps_ok[OF serve_steps[of s env r]] by (simp add: ApiCall case_prod_unfold)
qed

lemma server_run_ok: "db_ok s \<Longrightarrow> db_ok (snd (server_run reqs (c, s)))"
proof (induction reqs arbitrary: c s)
  case (Cons req reqs)
  obtain r c' s' where step: "server_serve req c s = (r, c', s')" by (rule prod_cases3)
  then have "db_ok s'" using server_serve_ok[of s req c] Cons.prems by simp
  then show ?case using Cons.IH step by simp
qed simp

lemma server_serve_usage: "db_ok s \<Longrightarrow> u \<in> set (db_usage s) \<Longrightarrow> \<not> deletes req \<Longrightarrow> still_there (snd (snd (server_serve req c s))) u"
proof (cases req)
  case (ConsoleCall E q)
  assume "u \<in> set (db_usage s)" "\<not> deletes req"
  then show ?thesis using still_there_same[OF admin_serve_usage] by (simp add: ConsoleCall case_prod_unfold)
next
  case (ApiCall env r)
  assume "db_ok s" "u \<in> set (db_usage s)"
  then show ?thesis using serve_usage by (simp add: ApiCall case_prod_unfold)
qed

lemma server_run_usage:
  "db_ok s \<Longrightarrow> still_there s u \<Longrightarrow> \<not> list_ex deletes reqs \<Longrightarrow> still_there (snd (server_run reqs (c, s))) u"
proof (induction reqs arbitrary: c s)
  case (Cons req reqs)
  obtain v where v: "v \<in> set (db_usage s)" "identity_of v = identity_of u" "tk_Output (ur_Tokens u) \<le> tk_Output (ur_Tokens v)"
    using Cons.prems(2) by (auto simp: still_there_def list_ex_iff)
  then have "still_there (snd (snd (server_serve req c s))) v" using server_serve_usage Cons.prems(1,3) by simp
  then have "still_there (snd (snd (server_serve req c s))) u" using v(2,3) by (auto simp: still_there_def list_ex_iff)
  moreover obtain r c' s' where step: "server_serve req c s = (r, c', s')" by (rule prod_cases3)
  moreover have "db_ok s'" using step server_serve_ok[of s req c] Cons.prems(1) by simp
  ultimately show ?case using Cons.IH Cons.prems(3) by simp
qed simp

lemma server_run_steps: "server_step\<^sup>*\<^sup>* s (snd (server_run reqs (c, s)))"
proof (induction reqs arbitrary: c s)
  case (Cons req reqs)
  obtain r c' s' where step: "server_serve req c s = (r, c', s')" by (rule prod_cases3)
  have "server_step\<^sup>*\<^sup>* s s'"
    using step admin_serve_steps[of s] serve_steps[of s] by (cases req) (auto split: prod.splits, (metis snd_conv)+)
  then show ?case using Cons.IH[of s' c'] step by simp
qed simp

text \<open>
  C3. Nothing but a deletion loses a request: in every database the server reaches, whatever the console
  and the API serve from then on short of the two forms that delete a person or an account, every request
  of the ledger stays, with its device and person and no fewer output tokens.
\<close>

theorem only_deletions_lose_requests:
  assumes "server_step\<^sup>*\<^sup>* empty_db s" "list_ex (\<lambda>v. v = u) (db_usage s)"
    and "\<not> list_ex deletes later" "server_run later (c, s) = (c', s')"
  shows "still_there s' u"
proof -
  have "db_ok s" using server_steps_ok[OF assms(1) db_ok_empty] .
  moreover have "still_there s u" using assms(2) by (auto simp: still_there_def list_ex_iff)
  ultimately show ?thesis using server_run_usage[of s u later c] assms(3,4) by simp
qed

text \<open>The dashboard is published, then the device syncs again.\<close>

definition demo_later :: "server_request list" where
  "demo_later = [ConsoleCall (demo_admin_env 6) demo_login, ConsoleCall (demo_admin_env 6) demo_publish,
     ApiCall demo_env (SyncBatch ''Bearer t1'' (Some (demo_request [])))]"

lemma only_deletions_lose_requests_witness:
  "still_there (snd (server_run demo_later (demo_console, db4))) demo_usage"
proof -
  obtain c' s' where later: "server_run demo_later (demo_console, db4) = (c', s')" by fastforce
  have "\<not> list_ex deletes demo_later" by (simp add: demo_later_def demo_publish_def demo_login_def demo_call_def)
  moreover have "list_ex (\<lambda>v. v = demo_usage) (db_usage db4)" by (simp add: db4_usage)
  ultimately show ?thesis using only_deletions_lose_requests[OF db4_reachable _ _ later] later by simp
qed

end
