(* ===== verification/AdminMarkup.thy ===== *)
theory AdminMarkup
  imports Escapes AdminConsole AdminChart QueryUsage
begin

text \<open>
  The markup the console's templates get from \<open>internal/server/admin/admin.go\<close>: the tags of the
  capacity page, times, and translated formats with arguments that may be markup; and the figures the
  template functions derive. \<open>template.HTMLEscapeString\<close> writes the five characters of HTML as
  entities and a zero byte as U+FFFD. Writing a time in a layout is the parameter \<open>fmt\<close>.
\<close>

section \<open>Figures\<close>

definition tokensOf :: "usage_totals \<Rightarrow> string" where
  "tokensOf u = compactTokens (Tokens u)"

definition inputOf :: "usage_totals \<Rightarrow> string" where
  "inputOf u = compactTokens (wrap64 (wrap64 (ut_Input u + ut_CachedInput u) + ut_CacheWrite u))"

definition cachedOf :: "usage_totals \<Rightarrow> f64" where
  "cachedOf u =
     (let inp = wrap64 (wrap64 (ut_Input u + ut_CachedInput u) + ut_CacheWrite u)
      in if inp > 0 then of_int (ut_CachedInput u) / of_int inp * 100 else 0)"

definition svgX :: "f64 \<Rightarrow> string" where
  "svgX pct = format_fixed (pct * chartWidth / 100) 1"

section \<open>The dashboard as an app\<close>

text \<open>What \<open>ManifestJSON\<close> encodes.\<close>

record manifest_icon =
  mi_Src :: string
  mi_Sizes :: string
  mi_Type :: string
  mi_Purpose :: string

record manifest =
  mf_Name :: string
  mf_ShortName :: string
  mf_StartURL :: string
  mf_Scope :: string
  mf_Display :: string
  mf_BackgroundColor :: string
  mf_ThemeColor :: string
  mf_Icons :: "manifest_icon list"

definition dashboard_manifest :: manifest where
  "dashboard_manifest = \<lparr>mf_Name = ''ShareCodex'', mf_ShortName = ''ShareCodex'', mf_StartURL = dashboardPath, mf_Scope = ''/'',
     mf_Display = ''standalone'', mf_BackgroundColor = ''#0c0c0d'', mf_ThemeColor = ''#0c0c0d'',
     mf_Icons =
       [\<lparr>mi_Src = ''/icons/icon-192.png'', mi_Sizes = ''192x192'', mi_Type = ''image/png'', mi_Purpose = []\<rparr>,
        \<lparr>mi_Src = ''/icons/icon-512.png'', mi_Sizes = ''512x512'', mi_Type = ''image/png'', mi_Purpose = []\<rparr>,
        \<lparr>mi_Src = ''/icons/icon-maskable-512.png'', mi_Sizes = ''512x512'', mi_Type = ''image/png'', mi_Purpose = ''maskable''\<rparr>]\<rparr>"

section \<open>Markup\<close>

definition html_entities :: "(char \<times> string) list" where
  "html_entities = [(CHR ''&'', ''&amp;''), (CHR ''<'', ''&lt;''), (CHR ''>'', ''&gt;''), (CHR 0x22, ''&#34;''), (CHR 0x27, ''&#39;'')]"

definition replacement_char :: string where "replacement_char = utf8 [0xFFFD]"

definition html_esc :: "char \<Rightarrow> string" where
  "html_esc c = (if c = CHR 0x00 then replacement_char else entity_esc html_entities c)"

definition HTMLEscapeString :: "string \<Rightarrow> string" where
  "HTMLEscapeString s = escape html_esc s"

definition basis_tones :: "(string, string) gomap" where
  "basis_tones = [(BasisDerived, '' warn''), (BasisInsufficient, '' off'')]"

definition fit_tones :: "(string, string) gomap" where
  "fit_tones = [(FitBorderline, '' warn''), (FitOver, '' danger'')]"

definition html_tag :: "string \<Rightarrow> string \<Rightarrow> string" where
  "html_tag cls text = ''<span class='' @ [CHR 0x22] @ ''tag'' @ cls @ [CHR 0x22] @ ''>'' @ HTMLEscapeString text @ ''</span>''"

definition basisTag :: "(string, string) gomap \<Rightarrow> string \<Rightarrow> string" where
  "basisTag t basis = html_tag (get_or [] basis_tones basis) (codeText t ''basis'' basis)"

definition fitTag :: "(string, string) gomap \<Rightarrow> string \<Rightarrow> string" where
  "fitTag t fit = html_tag (get_or [] fit_tones fit) (codeText t ''fit'' fit)"

record scenario_row =
  sw_Name :: string
  sw_Member :: bool
  sw_Five :: five_hour_result
  sw_Week :: weekly_result

definition newScenarioRow :: "string \<Rightarrow> bool \<Rightarrow> five_hour_result \<Rightarrow> weekly_result \<Rightarrow> scenario_row" where
  "newScenarioRow name member five week = \<lparr>sw_Name = name, sw_Member = member, sw_Five = five, sw_Week = week\<rparr>"

definition timeFormats :: "(string, string) gomap" where
  "timeFormats = [(''datetime'', ''2006-01-02 15:04''), (''clock'', ''15:04''), (''day'', ''1/2''), (''dayclock'', ''1/2 15:04'')]"

definition layoutRFC3339 :: string where "layoutRFC3339 = ''2006-01-02T15:04:05Z07:00''"

record time_format =
  tf_UTC :: "string \<Rightarrow> time \<Rightarrow> string"
  tf_Local :: "string \<Rightarrow> time \<Rightarrow> string"

definition timeHTML :: "time_format \<Rightarrow> time option \<Rightarrow> string \<Rightarrow> string" where
  "timeHTML fmt t format =
     (case t of
        None \<Rightarrow> utf8 [0x2014]
      | Some v \<Rightarrow>
          (let q = [CHR 0x22]; instant = tf_UTC fmt layoutRFC3339 v
           in ''<time datetime='' @ q @ instant @ q @ '' data-dt='' @ q @ instant @ q @ '' data-f='' @ q @ format @ q @ ''>'' @
              tf_Local fmt (get_or [] timeFormats format) v @ ''</time>''))"

text \<open>
  \<open>fmt.Sprintf\<close> for the verbs of the dictionaries, \<open>%s\<close> and \<open>%d\<close>, with an argument for each; a verb
  without one says so, and arguments left over are not shown here.
\<close>

fun sprintf :: "string \<Rightarrow> string list \<Rightarrow> string" where
  "sprintf [] args = []"
| "sprintf [c] args = [c]"
| "sprintf (c # v # s) args =
     (if c \<noteq> CHR ''%'' then c # sprintf (v # s) args
      else if v = CHR ''%'' then CHR ''%'' # sprintf s args
      else case args of
          [] \<Rightarrow> ''%!'' @ [v] @ ''(MISSING)'' @ sprintf s []
        | a # args \<Rightarrow> a @ sprintf s args)"

datatype html_arg = Markup string | Plain string

fun html_of :: "html_arg \<Rightarrow> string" where
  "html_of (Markup h) = h"
| "html_of (Plain s) = HTMLEscapeString s"

definition tfHTML :: "string \<Rightarrow> html_arg list \<Rightarrow> string" where
  "tfHTML format args = sprintf (HTMLEscapeString format) (map html_of args)"

section \<open>No text becomes markup\<close>

definition special :: "char list" where "special = [CHR ''<'', CHR ''>'', CHR 0x22, CHR 0x27]"

lemma html_entities_ok: "entities html_entities"
  by code_simp

interpretation html_values: escaping html_esc "entity_dec html_entities" "\<lambda>c. c \<noteq> CHR 0x00"
proof (rule escaping.intro)
  fix c r assume "c \<noteq> CHR 0x00"
  then show "entity_dec html_entities (html_esc c @ r) = Some (c, r)" by (simp add: html_esc_def entity_dec_esc[OF html_entities_ok])
next
  fix c show "html_esc c \<noteq> []"
    using escaping.esc_some[OF entity_escaping[OF html_entities_ok], of c] by (simp add: html_esc_def replacement_char_def utf8_def)
qed

lemma special_ascii: "c \<in> set special \<Longrightarrow> of_char c < (128 :: nat)"
  by (auto simp: special_def)

lemma special_entities: "list_all (\<lambda>(x, e). list_all (\<lambda>c. c \<notin> set e) special) html_entities" "list_all (\<lambda>c. c \<in> set (map fst html_entities)) special"
  by code_simp+

lemma html_esc_plain:
  assumes c: "c \<in> set special" shows "c \<notin> set (html_esc d)"
proof (cases "d = CHR 0x00")
  case True
  then show ?thesis using utf8_high[OF _ special_ascii[OF c], of "[0xFFFD]"] by (simp add: html_esc_def replacement_char_def)
next
  case False
  have "c \<notin> set (escape (entity_esc html_entities) [d])"
    using c special_entities unfolding list_all_iff by (intro escape_clean) auto
  then show ?thesis using False by (simp add: html_esc_def escape_def)
qed

lemma escaped_plain: "filter (\<lambda>c. c \<in> set special) (HTMLEscapeString s) = []"
  using html_esc_plain by (auto simp: HTMLEscapeString_def escape_def filter_empty_conv)

lemma unescape_HTML: "list_all (\<lambda>c. c \<noteq> CHR 0x00) s \<Longrightarrow> unescape (entity_dec html_entities) (HTMLEscapeString s @ CHR ''<'' # r) = (s, CHR ''<'' # r)"
  unfolding HTMLEscapeString_def by (rule html_values.unescape_escape) (simp_all add: entity_dec_def html_entities_def)

abbreviation specials :: "string \<Rightarrow> string" where "specials s \<equiv> filter (\<lambda>c. c \<in> set special) s"

lemma not_special: "list_all (\<lambda>c. c \<notin> set special) ''%!(MISSING)''" "CHR ''%'' \<notin> set special"
  by code_simp+

lemma sprintf_specials:
  "specials f = [] \<Longrightarrow> \<exists>k. specials (sprintf f args) = concat (map specials (take k args))"
proof (induction f args rule: sprintf.induct)
  case (3 c v s args)
  show ?case
  proof (cases "c = CHR ''%'' \<and> v \<noteq> CHR ''%''")
    case False
    then show ?thesis using 3 not_special(2) by (cases "c = CHR ''%''") (auto split: if_splits)
  next
    case verb: True
    have plain: "v \<notin> set special" "specials s = []" using 3(5) by (auto split: if_splits)
    show ?thesis
    proof (cases args)
      case Nil
      then have "specials (sprintf s []) = []" using 3(3) verb plain(2) by auto
      then show ?thesis using Nil verb plain(1) not_special(1) by simp
    next
      case (Cons a rest)
      then obtain k where "specials (sprintf s rest) = concat (map specials (take k rest))" using 3(4) verb plain(2) by auto
      then show ?thesis using Cons verb by (intro exI[of _ "Suc k"]) simp
    qed
  qed
next
  case (1 args)
  show ?case by (rule exI[of _ 0]) simp
next
  case (2 c args)
  then show ?case by (intro exI[of _ 0]) (simp split: if_splits)
qed

lemma specials_html_of: "specials (html_of a) = (case a of Markup h \<Rightarrow> specials h | Plain _ \<Rightarrow> [])"
  by (cases a) (simp_all add: escaped_plain)

text \<open>
  No text becomes markup: of the characters HTML gives a meaning, a translated format with its
  arguments holds exactly those of the arguments that are markup, and a tag of the capacity page those of
  its own element, whatever names, codes and dictionaries hold.
\<close>

theorem texts_stay_texts:
  "(\<exists>k. specials (tfHTML format args) = concat (map (\<lambda>a. case a of Markup h \<Rightarrow> specials h | Plain _ \<Rightarrow> []) (take k args))) \<and>
   specials (basisTag t basis) = specials (html_tag [] []) \<and> specials (fitTag t fit) = specials (html_tag [] [])"
proof (intro conjI)
  obtain k where "specials (tfHTML format args) = concat (map specials (take k (map html_of args)))"
    using sprintf_specials[OF escaped_plain[of format]] unfolding tfHTML_def by blast
  then show "\<exists>k. specials (tfHTML format args) = concat (map (\<lambda>a. case a of Markup h \<Rightarrow> specials h | Plain _ \<Rightarrow> []) (take k args))"
    by (auto simp: take_map comp_def specials_html_of)
  have tones: "specials (get_or [] basis_tones basis) = []" "specials (get_or [] fit_tones fit) = []"
    by (simp_all add: get_or_def basis_tones_def fit_tones_def special_def)
  show "specials (basisTag t basis) = specials (html_tag [] [])" "specials (fitTag t fit) = specials (html_tag [] [])"
    by (simp_all add: basisTag_def fitTag_def html_tag_def tones escaped_plain)
qed

end
