(* ===== verification/ScanReport.thy ===== *)
theory ScanReport
  imports AgentLedger
begin

text \<open>
  \<open>sharecodex scan\<close> (\<open>scan.go\<close> at the root, with \<open>List\<close> of \<open>internal/scan/scan.go\<close>): daily totals of
  every local log, straight from the files. The files of a provider come in the order in which Go
  visits a map, which differs from run to run: it is the parameter \<open>visit\<close>, \<open>None\<close> where the listing
  fails. Writing a date in the local zone is the parameter \<open>date\<close>.
\<close>

section \<open>Listing\<close>

text \<open>The calls \<open>filepath.WalkDir\<close> makes for a root, as long as none of them returns an error.\<close>

datatype 'a walk_answer = WalkMissing | WalkFailed string | Walked 'a

record walk_entry =
  we_Name :: string
  we_IsDir :: bool
  we_Info :: "file_state walk_answer"

definition walk_fn :: "string \<Rightarrow> walk_entry walk_answer \<Rightarrow> (string, file_state) gomap \<Rightarrow> string + (string, file_state) gomap" where
  "walk_fn path a files =
     (case a of
        WalkMissing \<Rightarrow> Inr files
      | WalkFailed err \<Rightarrow> Inl err
      | Walked d \<Rightarrow>
          if we_IsDir d \<or> \<not> has_suffix (we_Name d) ''.jsonl'' then Inr files
          else (case we_Info d of
              WalkMissing \<Rightarrow> Inr files
            | WalkFailed err \<Rightarrow> Inl err
            | Walked info \<Rightarrow> Inr (put path info files)))"

fun walk_root :: "(string \<times> walk_entry walk_answer) list \<Rightarrow> (string, file_state) gomap \<Rightarrow> string + (string, file_state) gomap" where
  "walk_root [] files = Inr files"
| "walk_root ((path, a) # es) files = (case walk_fn path a files of Inl err \<Rightarrow> Inl err | Inr files \<Rightarrow> walk_root es files)"

fun scan_List :: "(string \<times> walk_entry walk_answer) list list \<Rightarrow> (string, file_state) gomap \<Rightarrow> string + (string, file_state) gomap" where
  "scan_List [] files = Inr files"
| "scan_List (tree # trees) files = (case walk_root tree files of Inl err \<Rightarrow> Inl err | Inr files \<Rightarrow> scan_List trees files)"

section \<open>All events\<close>

datatype report_error = ListFailed provider | ParseFailed string

definition log_events :: "host \<Rightarrow> provider \<Rightarrow> string \<Rightarrow> event list option" where
  "log_events h p path = map_option pl_Events (source_parse h p path)"

fun parse_each :: "(string \<Rightarrow> event list option) \<Rightarrow> (event list \<Rightarrow> 'a \<Rightarrow> 'a) \<Rightarrow> string list \<Rightarrow> 'a \<Rightarrow> report_error + 'a" where
  "parse_each parse add [] acc = Inr acc"
| "parse_each parse add (path # paths) acc =
     (case parse path of None \<Rightarrow> Inl (ParseFailed path) | Some es \<Rightarrow> parse_each parse add paths (add es acc))"

text \<open>Resumed sessions copy earlier messages into a new transcript file.\<close>

definition add_copy :: "event \<Rightarrow> event list \<times> (string, nat) gomap \<Rightarrow> event list \<times> (string, nat) gomap" where
  "add_copy e st =
     (case st of (es, index) \<Rightarrow>
        case map_of index (ev_DedupeKey e) of
          None \<Rightarrow> (es @ [e], put (ev_DedupeKey e) (length es) index)
        | Some i \<Rightarrow> (es[i := raise_output (tk_Output (ev_Tokens e)) (es ! i)], index))"

definition parse_source ::
  "host \<Rightarrow> (provider \<Rightarrow> string list option) \<Rightarrow> provider \<Rightarrow> (event list \<Rightarrow> 'a \<Rightarrow> 'a) \<Rightarrow> 'a \<Rightarrow> report_error + 'a" where
  "parse_source h visit p add acc =
     (case visit p of None \<Rightarrow> Inl (ListFailed p) | Some paths \<Rightarrow> parse_each (log_events h p) add paths acc)"

definition parseAll :: "host \<Rightarrow> (provider \<Rightarrow> string list option) \<Rightarrow> report_error + event list" where
  "parseAll h visit =
     (case parse_source h visit ProviderOpenAI (\<lambda>new es. es @ new) [] of
        Inl err \<Rightarrow> Inl err
      | Inr es \<Rightarrow>
          (case parse_source h visit ProviderAnthropic (fold add_copy) (es, []) of
             Inl err \<Rightarrow> Inl err
           | Inr (es, _) \<Rightarrow> parse_source h visit ProviderGoogle (\<lambda>new es. es @ new) es))"

section \<open>Daily rows\<close>

record daily_row =
  dy_Product :: string
  dy_Date :: string
  dy_Model :: string
  dy_Tokens :: tokens
  dy_Events :: int

type_synonym day_key = "string \<times> string \<times> string"

definition day_key :: "(time \<Rightarrow> string) \<Rightarrow> event \<Rightarrow> day_key" where
  "day_key date e = (ev_Product e, date (ev_OccurredAt e), ev_Model e)"

definition new_row :: "day_key \<Rightarrow> daily_row" where
  "new_row k = (case k of (p, d, m) \<Rightarrow> \<lparr>dy_Product = p, dy_Date = d, dy_Model = m, dy_Tokens = zero_tokens, dy_Events = 0\<rparr>)"

definition count_daily :: "event \<Rightarrow> daily_row \<Rightarrow> daily_row" where
  "count_daily e r = r\<lparr>dy_Tokens := Tokens_Add (dy_Tokens r) (ev_Tokens e), dy_Events := dy_Events r + 1\<rparr>"

definition add_event :: "(time \<Rightarrow> string) \<Rightarrow> event \<Rightarrow> (day_key, daily_row) gomap \<Rightarrow> (day_key, daily_row) gomap" where
  "add_event date e rows =
     (let k = day_key date e; r = (case map_of rows k of Some r \<Rightarrow> r | None \<Rightarrow> new_row k) in put k (count_daily e r) rows)"

definition row_before :: "daily_row \<Rightarrow> daily_row \<Rightarrow> bool" where
  "row_before a b =
     (if dy_Date a \<noteq> dy_Date b then dy_Date a < dy_Date b
      else if dy_Product a \<noteq> dy_Product b then dy_Product a < dy_Product b
      else dy_Model a < dy_Model b)"

definition daily_rows :: "(time \<Rightarrow> string) \<Rightarrow> event list \<Rightarrow> daily_row list" where
  "daily_rows date es = sort_by row_before (map snd (fold (add_event date) es []))"

datatype report = AsJSON "daily_row list" | AsTable "string list list"

definition table_header :: "string list" where
  "table_header = [''date'', ''product'', ''model'', ''input'', ''cached'', ''cache write'', ''output'', ''requests'']"

definition table_row :: "daily_row \<Rightarrow> string list" where
  "table_row r = [dy_Date r, dy_Product r, dy_Model r, decimal (tk_Input (dy_Tokens r)), decimal (tk_CachedInput (dy_Tokens r)),
     decimal (tk_CacheWrite (dy_Tokens r)), decimal (tk_Output (dy_Tokens r)), decimal (dy_Events r)]"

definition runScan :: "(time \<Rightarrow> string) \<Rightarrow> host \<Rightarrow> (provider \<Rightarrow> string list option) \<Rightarrow> bool \<Rightarrow> report_error + report" where
  "runScan date h visit asJSON =
     (case parseAll h visit of
        Inl err \<Rightarrow> Inl err
      | Inr es \<Rightarrow> Inr (if asJSON then AsJSON (daily_rows date es) else AsTable (table_header # map table_row (daily_rows date es))))"

section \<open>A row for each day\<close>

definition events_at :: "(time \<Rightarrow> string) \<Rightarrow> day_key \<Rightarrow> event list \<Rightarrow> event list" where
  "events_at date k es = filter (\<lambda>e. day_key date e = k) es"

definition daily_row_of :: "(time \<Rightarrow> string) \<Rightarrow> event list \<Rightarrow> day_key \<Rightarrow> daily_row" where
  "daily_row_of date es k = fold count_daily (events_at date k es) (new_row k)"

definition key_of_row :: "daily_row \<Rightarrow> day_key" where
  "key_of_row r = (dy_Product r, dy_Date r, dy_Model r)"

lemma rows_settled:
  "wf_map (fold (add_event date) es []) \<and>
   map_of (fold (add_event date) es []) = (\<lambda>k. if k \<in> day_key date ` set es then Some (daily_row_of date es k) else None)"
proof (induction es rule: rev_induct)
  case (snoc e es)
  let ?m = "fold (add_event date) es []" and ?k = "day_key date e"
  have wf: "wf_map ?m" and at: "map_of ?m = (\<lambda>k. if k \<in> day_key date ` set es then Some (daily_row_of date es k) else None)"
    using snoc by blast+
  have "?k \<notin> day_key date ` set es \<Longrightarrow> events_at date ?k es = []" by (auto simp: events_at_def filter_empty_conv image_iff)
  then have "(case map_of ?m ?k of Some r \<Rightarrow> r | None \<Rightarrow> new_row ?k) = daily_row_of date es ?k" unfolding at by (simp add: daily_row_of_def)
  then have step: "fold (add_event date) (es @ [e]) [] = put ?k (count_daily e (daily_row_of date es ?k)) ?m" by (simp add: add_event_def Let_def)
  have "daily_row_of date (es @ [e]) k = (if k = ?k then count_daily e (daily_row_of date es ?k) else daily_row_of date es k)" for k
    by (simp add: daily_row_of_def events_at_def)
  then show ?case unfolding step using wf at by (auto simp: fun_eq_iff update_conv')
qed simp

lemma Tokens_Add_swap: "Tokens_Add (Tokens_Add t a) b = Tokens_Add (Tokens_Add t b) a"
  by (simp add: Tokens_Add_def wrap64_push ac_simps)

lemma count_daily_swap: "count_daily a \<circ> count_daily b = count_daily b \<circ> count_daily a"
  using Tokens_Add_swap by (simp add: fun_eq_iff count_daily_def)

lemma count_fields:
  "dy_Product (fold count_daily es r) = dy_Product r" "dy_Date (fold count_daily es r) = dy_Date r" "dy_Model (fold count_daily es r) = dy_Model r"
  "dy_Tokens (fold count_daily es r) = fold (\<lambda>e t. Tokens_Add t (ev_Tokens e)) es (dy_Tokens r)" "dy_Events (fold count_daily es r) = dy_Events r + int (length es)"
  by (induction es arbitrary: r) (simp_all add: count_daily_def)

lemma key_daily_row_of [simp]: "key_of_row (daily_row_of date es k) = k"
  by (cases k) (simp add: key_of_row_def daily_row_of_def count_fields new_row_def)

lemma daily_row_of_mset: "mset es = mset es' \<Longrightarrow> daily_row_of date es k = daily_row_of date es' k"
  unfolding daily_row_of_def events_at_def
  by (rule fold_multiset_equiv[THEN fun_cong]) (simp_all add: count_daily_swap)

text \<open>The rows before they are sorted are, in some order, one for each key.\<close>

lemma rows_mset:
  "mset (map snd (fold (add_event date) es [])) = image_mset (daily_row_of date es) (mset_set (day_key date ` set es))"
proof -
  let ?m = "fold (add_event date) es []"
  have wf: "wf_map ?m" and at: "map_of ?m = (\<lambda>k. if k \<in> day_key date ` set es then Some (daily_row_of date es k) else None)"
    using rows_settled[of date es] by blast+
  have keys: "fst ` set ?m = day_key date ` set es"
    unfolding dom_map_of_conv_image_fst[symmetric] at by (auto simp: dom_def split: if_splits)
  have "snd x = daily_row_of date es (fst x)" if "x \<in> set ?m" for x
  proof -
    have "map_of ?m (fst x) = Some (snd x)" using wf that by (simp add: map_of_is_SomeI)
    then show ?thesis unfolding at by (simp split: if_splits)
  qed
  then have "map snd ?m = map (daily_row_of date es) (map fst ?m)" by (simp add: comp_def)
  then have "mset (map snd ?m) = image_mset (daily_row_of date es) (mset (map fst ?m))" by (metis mset_map)
  then show ?thesis using mset_set_set[OF wf] by (simp only: keys set_map)
qed

interpretation day_order: strict_weak row_before
  by unfold_locales (auto simp: row_before_def split: if_splits)

lemma rows_apart:
  assumes "\<not> row_before a b" "\<not> row_before b a" shows "key_of_row a = key_of_row b"
  using assms by (auto simp: row_before_def key_of_row_def split: if_splits)

lemma daily_rows_mset: "mset (daily_rows date es) = image_mset (daily_row_of date es) (mset_set (day_key date ` set es))"
  by (simp add: daily_rows_def flip: rows_mset)

lemma daily_rows_set: "set (daily_rows date es) = daily_row_of date es ` day_key date ` set es"
  using arg_cong[OF daily_rows_mset, of set_mset date es] by simp

text \<open>The same events in another order make the same report.\<close>

lemma daily_rows_order: "mset es = mset es' \<Longrightarrow> daily_rows date es = daily_rows date es'"
proof -
  assume m: "mset es = mset es'"
  then have "daily_row_of date es = daily_row_of date es'" "set es = set es'"
    using mset_eq_setD by (auto simp only: fun_eq_iff intro: daily_row_of_mset)
  then have same: "mset (map snd (fold (add_event date) es [])) = mset (map snd (fold (add_event date) es' []))"
    by (simp only: rows_mset)
  let ?m = "fold (add_event date) es []"
  have "set (map snd ?m) = daily_row_of date es ` day_key date ` set es"
    using arg_cong[OF rows_mset, of set_mset date es] by simp
  then have "a = b" if "a \<in> set (map snd ?m)" "b \<in> set (map snd ?m)" "\<not> row_before a b" "\<not> row_before b a" for a b
    using that rows_apart[of a b] by auto
  then show ?thesis unfolding daily_rows_def using day_order.sort_by_cong_mset[OF same] by blast
qed

lemma sorted_wrt_by_key:
  "sorted_wrt R xs \<Longrightarrow> distinct (map f xs) \<Longrightarrow> (\<And>a b. R a b \<Longrightarrow> f a \<noteq> f b \<Longrightarrow> S a b) \<Longrightarrow> sorted_wrt S xs"
  by (induction xs) auto

text \<open>
  The report adds up: its rows are in order, one for each day, product and model of an event, and each
  has the tokens and the number of exactly its own events.
\<close>

theorem daily_rows_add_up:
  "sorted_wrt row_before (daily_rows date es) \<and> mset (map key_of_row (daily_rows date es)) = mset_set (day_key date ` set es) \<and>
   list_all (\<lambda>r. dy_Tokens r = all_tokens (events_at date (key_of_row r) es) \<and>
     dy_Events r = int (length (events_at date (key_of_row r) es))) (daily_rows date es)"
proof -
  have keys: "mset (map key_of_row (daily_rows date es)) = mset_set (day_key date ` set es)"
    by (simp add: daily_rows_mset image_mset.compositionality comp_def)
  obtain ks where "distinct ks" "set ks = day_key date ` set es" by (metis finite_distinct_list finite_imageI finite_set)
  then have "mset (map key_of_row (daily_rows date es)) = mset ks" using keys mset_set_set by metis
  with \<open>distinct ks\<close> have "distinct (map key_of_row (daily_rows date es))" using mset_eq_imp_distinct_iff by blast
  moreover have "sorted_wrt (\<lambda>a b. \<not> row_before b a) (daily_rows date es)"
    using day_order.sorted_sort_by by (simp add: daily_rows_def day_order.before_def[abs_def])
  ultimately have "sorted_wrt row_before (daily_rows date es)"
    using sorted_wrt_by_key[of "\<lambda>a b. \<not> row_before b a" "daily_rows date es" key_of_row row_before] rows_apart by blast
  moreover have "list_all (\<lambda>r. dy_Tokens r = all_tokens (events_at date (key_of_row r) es) \<and>
     dy_Events r = int (length (events_at date (key_of_row r) es))) (daily_rows date es)"
    by (auto simp: list_all_iff daily_rows_set) (simp_all add: daily_row_of_def count_fields all_tokens_def new_row_def split: prod.split)
  ultimately show ?thesis using keys by blast
qed

section \<open>The files in any order\<close>

text \<open>The events of all files of a provider, one file after another.\<close>

definition file_events :: "(string \<Rightarrow> event list option) \<Rightarrow> string list \<Rightarrow> event list" where
  "file_events parse paths = concat (map (\<lambda>p. case parse p of None \<Rightarrow> [] | Some es \<Rightarrow> es) paths)"

lemma parse_each_events:
  assumes "\<And>xs ys acc. add (xs @ ys) acc = add ys (add xs acc)" "\<And>acc. add [] acc = acc"
  shows "parse_each parse add paths acc = Inr r \<longleftrightarrow> list_all (\<lambda>p. parse p \<noteq> None) paths \<and> r = add (file_events parse paths) acc"
  by (induction paths arbitrary: acc) (auto simp: file_events_def assms split: option.split)

lemma file_events_sum: "mset (file_events parse paths) = (\<Sum>p\<in>#mset paths. mset (case parse p of None \<Rightarrow> [] | Some es \<Rightarrow> es))"
  by (induction paths) (simp_all add: file_events_def)

lemma file_events_mset: "mset paths = mset paths' \<Longrightarrow> mset (file_events parse paths) = mset (file_events parse paths')"
  by (simp add: file_events_sum)

text \<open>What the copies of the requests in some transcripts come to.\<close>

definition merged :: "event list \<Rightarrow> string \<Rightarrow> event" where
  "merged es k = (let qs = filter (\<lambda>e. ev_DedupeKey e = k) es in with_output (Max ((tk_Output \<circ> ev_Tokens) ` set qs)) (hd qs))"

definition copies_agree :: "event list \<Rightarrow> bool" where
  "copies_agree es \<longleftrightarrow> list_all (\<lambda>a. list_all (\<lambda>b. ev_DedupeKey a = ev_DedupeKey b \<longrightarrow> with_output 0 a = with_output 0 b) es) es"

lemma with_output_own: "with_output (tk_Output (ev_Tokens e)) e = e"
  by (simp add: with_output_def)

lemma merged_other: "ev_DedupeKey e \<noteq> k \<Longrightarrow> merged (es @ [e]) k = merged es k"
  by (simp add: merged_def)

lemma merged_new: "k \<notin> ev_DedupeKey ` set es \<Longrightarrow> ev_DedupeKey e = k \<Longrightarrow> merged (es @ [e]) k = e"
proof -
  assume k: "k \<notin> ev_DedupeKey ` set es" "ev_DedupeKey e = k"
  then have "filter (\<lambda>e. ev_DedupeKey e = k) es = []" by (auto simp: filter_empty_conv image_iff)
  with k show ?thesis by (simp add: merged_def with_output_own)
qed

lemma merged_again:
  assumes "k \<in> ev_DedupeKey ` set es" "ev_DedupeKey e = k"
  shows "merged (es @ [e]) k = raise_output (tk_Output (ev_Tokens e)) (merged es k)"
proof -
  define qs where "qs = filter (\<lambda>e. ev_DedupeKey e = k) es"
  have "qs \<noteq> []" using assms(1) by (auto simp: qs_def filter_empty_conv)
  then have "Max ((tk_Output \<circ> ev_Tokens) ` set (qs @ [e])) = max (Max ((tk_Output \<circ> ev_Tokens) ` set qs)) (tk_Output (ev_Tokens e))"
    and "hd (qs @ [e]) = hd qs" by (simp_all add: max.commute)
  moreover have "filter (\<lambda>e. ev_DedupeKey e = k) (es @ [e]) = qs @ [e]" using assms(2) by (simp add: qs_def)
  ultimately show ?thesis by (simp add: merged_def Let_def flip: qs_def)
qed

lemma copies_settled:
  "fst (fold add_copy es (base, [])) = base @ map (merged es) (firsts (map ev_DedupeKey es)) \<and>
   (\<forall>k i. map_of (snd (fold add_copy es (base, []))) k = Some i \<longleftrightarrow>
      length base \<le> i \<and> i < length base + length (firsts (map ev_DedupeKey es)) \<and> firsts (map ev_DedupeKey es) ! (i - length base) = k)"
proof (induction es rule: rev_induct)
  case (snoc e es)
  let ?k = "ev_DedupeKey e"
  define ks where "ks = firsts (map ev_DedupeKey es)"
  obtain out index where st: "fold add_copy es (base, []) = (out, index)" by fastforce
  have out: "out = base @ map (merged es) ks"
    and index: "\<And>k i. map_of index k = Some i \<longleftrightarrow> length base \<le> i \<and> i < length base + length ks \<and> ks ! (i - length base) = k"
    using snoc by (simp_all add: st ks_def)
  have ks: "distinct ks" "set ks = ev_DedupeKey ` set es" by (simp_all add: ks_def)
  have others: "map (merged (es @ [e])) ls = map (merged es) ls" if "?k \<notin> set ls" for ls
    using that by (intro map_cong refl merged_other) auto
  show ?case
  proof (cases "map_of index ?k")
    case None
    then have new: "?k \<notin> set ks" using index[of ?k] by (metis add_diff_cancel_left' in_set_conv_nth le_add1 nat_add_left_cancel_less option.distinct(1))
    then have "fold add_copy (es @ [e]) (base, []) = (out @ [e], put ?k (length out) index)" using None by (simp add: st add_copy_def)
    moreover have "firsts (map ev_DedupeKey (es @ [e])) = ks @ [?k]" using new ks(2) by (simp add: ks_def image_iff)
    moreover have "merged (es @ [e]) ?k = e" using new ks(2) by (intro merged_new) auto
    ultimately show ?thesis using others[OF new] new index out
      by (auto simp: update_conv' nth_append less_Suc_eq in_set_conv_nth split: if_splits)
  next
    case (Some i)
    then obtain j where i: "i = length base + j" "j < length ks" "ks ! j = ?k" using index[of ?k i] by (metis add_diff_cancel_left' le_Suc_ex nat_add_left_cancel_less)
    have old: "?k \<in> ev_DedupeKey ` set es" using i ks(2) nth_mem by metis
    have "map (merged (es @ [e])) ks = (map (merged es) ks)[j := merged (es @ [e]) ?k]"
    proof (rule nth_equalityI)
      fix l assume "l < length (map (merged (es @ [e])) ks)"
      show "map (merged (es @ [e])) ks ! l = (map (merged es) ks)[j := merged (es @ [e]) ?k] ! l"
      proof (cases "l = j")
        case False
        then have "ks ! l \<noteq> ?k" using i \<open>l < _\<close> ks(1) nth_eq_iff_index_eq by (metis length_map)
        then show ?thesis using False \<open>l < _\<close> by (simp add: merged_other)
      qed (use i in simp)
    qed simp
    moreover have "fold add_copy (es @ [e]) (base, []) = (out[i := raise_output (tk_Output (ev_Tokens e)) (out ! i)], index)"
      using Some by (simp add: st add_copy_def)
    moreover have "firsts (map ev_DedupeKey (es @ [e])) = ks" using old by (simp add: ks_def image_iff)
    ultimately show ?thesis using index i out merged_again[OF old refl] by (simp add: nth_append list_update_append)
  qed
qed simp

lemma merged_order:
  assumes "copies_agree es" "mset es = mset es'" "k \<in> ev_DedupeKey ` set es"
  shows "merged es k = merged es' k"
proof -
  let ?qs = "filter (\<lambda>e. ev_DedupeKey e = k) es" and ?qs' = "filter (\<lambda>e. ev_DedupeKey e = k) es'"
  have same: "set ?qs = set ?qs'" using mset_eq_setD[OF assms(2)] by simp
  have "?qs \<noteq> []" using assms(3) by (auto simp: filter_empty_conv)
  moreover have "?qs' \<noteq> []" using calculation same by (metis set_empty)
  ultimately have hds: "hd ?qs \<in> set ?qs" "hd ?qs' \<in> set ?qs" using same hd_in_set by (metis, metis)
  then have "with_output 0 (hd ?qs) = with_output 0 (hd ?qs')" using assms(1) by (auto simp: copies_agree_def list_all_iff)
  then have "with_output m (with_output 0 (hd ?qs)) = with_output m (with_output 0 (hd ?qs'))" for m by simp
  then show ?thesis unfolding merged_def Let_def same by (simp add: with_output_def)
qed

lemma merged_events_order:
  assumes "copies_agree es" "mset es = mset es'" "mset base = mset base'"
  shows "mset (fst (fold add_copy es (base, []))) = mset (fst (fold add_copy es' (base', [])))"
proof -
  have keys: "ev_DedupeKey ` set es = ev_DedupeKey ` set es'" using mset_eq_setD[OF assms(2)] by simp
  have "mset (firsts (map ev_DedupeKey es)) = mset (firsts (map ev_DedupeKey es'))"
    by (subst set_eq_iff_mset_eq_distinct[symmetric]) (simp_all add: keys)
  then have "image_mset (merged es) (mset (firsts (map ev_DedupeKey es))) = image_mset (merged es) (mset (firsts (map ev_DedupeKey es')))"
    by simp
  also have "\<dots> = image_mset (merged es') (mset (firsts (map ev_DedupeKey es')))"
    using merged_order[OF assms(1,2)] keys by (intro image_mset_cong) auto
  finally show ?thesis using copies_settled[of es base] copies_settled[of es' base'] assms(3) by simp
qed

text \<open>
  C29. The report does not depend on the order in which Go visits the maps of files: as long as the copies
  of a request in several transcripts differ at most in their output, any other order of the files of each
  provider prints the same report.
\<close>

theorem scan_any_order:
  assumes "\<And>p. map_option mset (visit p) = map_option mset (visit' p)"
    and "visit ProviderAnthropic = Some paths" "copies_agree (file_events (log_events h ProviderAnthropic) paths)"
    and "runScan date h visit asJSON = Inr r"
  shows "runScan date h visit' asJSON = Inr r"
proof -
  let ?ev = "\<lambda>p. file_events (log_events h p)"
  note app = parse_each_events[of "\<lambda>new es. es @ new", simplified] and copy = parse_each_events[of "fold add_copy", simplified]
  have same: "visit' p = Some b \<and> mset a = mset b \<and> set a = set b \<and> mset (?ev p a) = mset (?ev p b)"
    if "visit p = Some a" "b = the (visit' p)" for p a b
    using assms(1)[of p] that by (cases "visit' p") (auto dest: mset_eq_setD file_events_mset)
  obtain es where es: "parseAll h visit = Inr es"
    and r: "r = (if asJSON then AsJSON (daily_rows date es) else AsTable (table_header # map table_row (daily_rows date es)))"
    using assms(4) by (auto simp: runScan_def split: sum.splits)
  obtain codex google where v: "visit ProviderOpenAI = Some codex" "visit ProviderGoogle = Some google"
    using es by (auto simp: parseAll_def parse_source_def split: option.splits sum.splits)
  have ok: "list_all (\<lambda>p. log_events h ProviderOpenAI p \<noteq> None) codex" "list_all (\<lambda>p. log_events h ProviderAnthropic p \<noteq> None) paths"
      "list_all (\<lambda>p. log_events h ProviderGoogle p \<noteq> None) google"
    and es': "es = fst (fold add_copy (?ev ProviderAnthropic paths) (?ev ProviderOpenAI codex, [])) @ ?ev ProviderGoogle google"
    using es by (auto simp: parseAll_def parse_source_def v assms(2) app copy split: sum.splits prod.splits)
  obtain codex' paths' google' where defs: "codex' = the (visit' ProviderOpenAI)" "paths' = the (visit' ProviderAnthropic)" "google' = the (visit' ProviderGoogle)"
    by blast
  note c = same[OF v(1) defs(1)] and a = same[OF assms(2) defs(2)] and g = same[OF v(2) defs(3)]
  have v': "visit' ProviderOpenAI = Some codex'" "visit' ProviderAnthropic = Some paths'" "visit' ProviderGoogle = Some google'"
    using c a g by blast+
  define es2 where "es2 = fst (fold add_copy (?ev ProviderAnthropic paths') (?ev ProviderOpenAI codex', [])) @ ?ev ProviderGoogle google'"
  have "parse_each (log_events h ProviderOpenAI) (\<lambda>new es. es @ new) codex' [] = Inr (?ev ProviderOpenAI codex')"
    using app c ok(1) by (simp add: list_all_iff)
  moreover have "parse_each (log_events h ProviderAnthropic) (fold add_copy) paths' acc = Inr (fold add_copy (?ev ProviderAnthropic paths') acc)" for acc
    using copy a ok(2) by (simp add: list_all_iff)
  moreover have "parse_each (log_events h ProviderGoogle) (\<lambda>new es. es @ new) google' acc = Inr (acc @ ?ev ProviderGoogle google')" for acc
    using app g ok(3) by (simp add: list_all_iff)
  ultimately have "parseAll h visit' = Inr es2"
    by (simp add: parseAll_def parse_source_def v' es2_def split: prod.split)
  moreover have "mset es = mset es2"
    using merged_events_order[OF assms(3)] c a g by (simp add: es' es2_def)
  ultimately show ?thesis using daily_rows_order[of es es2] r by (simp add: runScan_def)
qed

text \<open>Two transcripts with copies of one response, the later of which has more output.\<close>

definition scan_host :: host where
  "scan_host = demo_host\<lparr>ho_File := (\<lambda>p. Opened (assistantMarker @ (if p = ''g'' then '' '' else []) @ [newline]) False)\<rparr>"

definition visit_of :: "string list \<Rightarrow> provider \<Rightarrow> string list option" where
  "visit_of paths p = (if p = ProviderAnthropic then Some paths else Some [])"

lemma scan_any_order_witness:
  "runScan (\<lambda>_. ''2026-01-02'') scan_host (visit_of [''g'', ''f'']) True = runScan (\<lambda>_. ''2026-01-02'') scan_host (visit_of [''f'', ''g'']) True \<and>
   (case runScan (\<lambda>_. ''2026-01-02'') scan_host (visit_of [''f'', ''g'']) True of
      Inr (AsJSON [r]) \<Rightarrow> dy_Events r = 1 \<and> tk_Output (dy_Tokens r) = 13 | _ \<Rightarrow> False)"
proof -
  have run: "case runScan (\<lambda>_. ''2026-01-02'') scan_host (visit_of [''f'', ''g'']) True of
      Inr (AsJSON [r]) \<Rightarrow> dy_Events r = 1 \<and> tk_Output (dy_Tokens r) = 13 | _ \<Rightarrow> False" by code_simp
  then obtain r where r: "runScan (\<lambda>_. ''2026-01-02'') scan_host (visit_of [''f'', ''g'']) True = Inr r" by (auto split: sum.splits)
  have "copies_agree (file_events (log_events scan_host ProviderAnthropic) [''f'', ''g''])" by code_simp
  moreover have "visit_of [''f'', ''g''] ProviderAnthropic = Some [''f'', ''g'']" by (simp add: visit_of_def)
  moreover have "map_option mset (visit_of [''f'', ''g''] p) = map_option mset (visit_of [''g'', ''f''] p)" for p
    by (simp add: visit_of_def)
  ultimately show ?thesis using scan_any_order[of "visit_of [''f'', ''g'']" "visit_of [''g'', ''f'']", OF _ _ _ r] r run by simp
qed

text \<open>Whatever a walk meets, only files that end in \<open>.jsonl\<close> are listed.\<close>

lemma walk_root_only:
  "walk_root es files = Inr files' \<Longrightarrow> p \<in> fst ` set files' \<Longrightarrow>
     p \<in> fst ` set files \<or> (\<exists>d. (p, Walked d) \<in> set es \<and> \<not> we_IsDir d \<and> has_suffix (we_Name d) ''.jsonl'')"
proof (induction es files rule: walk_root.induct)
  case (2 path a es files)
  obtain fs where fn: "walk_fn path a files = Inr fs" and rest: "walk_root es fs = Inr files'" using "2.prems"(1) by (auto split: sum.splits)
  have "p \<in> fst ` set fs \<Longrightarrow> p \<in> fst ` set files \<or> (\<exists>d. p = path \<and> a = Walked d \<and> \<not> we_IsDir d \<and> has_suffix (we_Name d) ''.jsonl'')"
    using fn unfolding walk_fn_def by (simp split: walk_answer.splits if_splits) (metis insertE keys_put)
  then show ?case using "2.IH"[OF fn rest "2.prems"(2)] by auto
qed simp

end
