(* ===== verification/AtomicFile.thy ===== *)
theory AtomicFile
  imports GoStrings
begin

text \<open>
  \<open>internal/atomicfile/atomicfile.go\<close>, with which the client writes its settings, its statusLine spool, its
  secrets, Claude Code's settings and its login item. A disk is a map from paths to contents and modes.
  A writer goes through the system calls of \<open>Write\<close> one at a time; each may break, and writers of
  several processes interleave. A crash is a writer that takes no further step. \<open>CreateTemp\<close> draws a
  random name; the model lets no two writers draw the same one.
\<close>

section \<open>Writers\<close>

type_synonym disk = "(string, string \<times> nat) gomap"

datatype stage = MkdirAll | CreateTemp | WriteTemp | ChmodTemp | CloseTemp | RenameTemp | RemoveTemp bool | Returned bool

record writer =
  wr_Path :: string
  wr_Data :: string
  wr_Perm :: nat
  wr_Tmp :: "string option"
  wr_Stage :: stage

definition Write_file :: "string \<Rightarrow> string \<Rightarrow> nat \<Rightarrow> writer" where
  "Write_file path data perm = \<lparr>wr_Path = path, wr_Data = data, wr_Perm = perm, wr_Tmp = None, wr_Stage = MkdirAll\<rparr>"

text \<open>\<open>filepath.Dir\<close> and the name of a path with a directory; \<open>CreateTemp(dir, ".tmp-*")\<close> ends in a number.\<close>

definition file_dir :: "string \<Rightarrow> string" where
  "file_dir p = rev (tl (dropWhile (\<lambda>c. c \<noteq> CHR ''/'') (rev p)))"

definition file_name :: "string \<Rightarrow> string" where
  "file_name p = rev (takeWhile (\<lambda>c. c \<noteq> CHR ''/'') (rev p))"

definition temp_path :: "string \<Rightarrow> string \<Rightarrow> string" where
  "temp_path path number = file_dir path @ ''/.tmp-'' @ number"

definition tempPerm :: nat where "tempPerm = 384"  \<comment> \<open>0600\<close>

text \<open>A call that works, or one that breaks; a write that breaks has written some bytes.\<close>

datatype outcome = Works | Breaks nat

text \<open>One system call of \<open>Write\<close>; the stages \<open>RemoveTemp\<close> and \<open>Returned\<close> carry whether the file was written.\<close>

definition on_temp :: "(string \<Rightarrow> disk \<Rightarrow> disk) \<Rightarrow> writer \<Rightarrow> disk \<Rightarrow> disk" where
  "on_temp f w d = (case wr_Tmp w of None \<Rightarrow> d | Some tmp \<Rightarrow> f tmp d)"

definition rename_file :: "string \<Rightarrow> string \<Rightarrow> disk \<Rightarrow> disk" where
  "rename_file p q d = (case map_of d p of None \<Rightarrow> d | Some f \<Rightarrow> put q f (AList.delete p d))"

definition Write_call :: "string \<Rightarrow> outcome \<Rightarrow> writer \<Rightarrow> disk \<Rightarrow> writer \<times> disk" where
  "Write_call number oc w d =
     (let goto = (\<lambda>st. w\<lparr>wr_Stage := st\<rparr>); ok = (oc = Works); giveUp = (\<lambda>d. (goto (RemoveTemp False), d))
      in case wr_Stage w of
          MkdirAll \<Rightarrow> (goto (if ok then CreateTemp else Returned False), d)
        | CreateTemp \<Rightarrow>
            if ok then ((goto WriteTemp)\<lparr>wr_Tmp := Some (temp_path (wr_Path w) number)\<rparr>, put (temp_path (wr_Path w) number) ([], tempPerm) d)
            else (goto (Returned False), d)
        | WriteTemp \<Rightarrow>
            (case oc of
               Works \<Rightarrow> (goto ChmodTemp, on_temp (\<lambda>tmp. put tmp (wr_Data w, tempPerm)) w d)
             | Breaks n \<Rightarrow> giveUp (on_temp (\<lambda>tmp. put tmp (take n (wr_Data w), tempPerm)) w d))
        | ChmodTemp \<Rightarrow>
            if ok then (goto CloseTemp, on_temp (\<lambda>tmp. put tmp (wr_Data w, wr_Perm w)) w d) else giveUp d
        | CloseTemp \<Rightarrow> if ok then (goto RenameTemp, d) else giveUp d
        | RenameTemp \<Rightarrow> if ok then (goto (RemoveTemp True), on_temp (\<lambda>tmp. rename_file tmp (wr_Path w)) w d) else giveUp d
        | RemoveTemp done' \<Rightarrow> (goto (Returned done'), if ok then on_temp AList.delete w d else d)
        | Returned done' \<Rightarrow> (w, d))"

text \<open>The calls one after another, with the outcome of each.\<close>

fun Write_run :: "string \<Rightarrow> outcome list \<Rightarrow> writer \<Rightarrow> disk \<Rightarrow> writer \<times> disk" where
  "Write_run number [] w d = (w, d)"
| "Write_run number (oc # ocs) w d = (case Write_call number oc w d of (w, d) \<Rightarrow> Write_run number ocs w d)"

section \<open>Interleaved writers\<close>

definition is_temp :: "string \<Rightarrow> bool" where
  "is_temp p = has_prefix (file_name p) ''.tmp-''"

definition digits :: "string \<Rightarrow> bool" where
  "digits s = list_all (\<lambda>c. c \<in> set ''0123456789'') s"

inductive disk_step :: "disk \<times> writer list \<Rightarrow> disk \<times> writer list \<Rightarrow> bool" where
  start: "\<not> is_temp path \<Longrightarrow> disk_step (d, ws) (d, Write_file path data perm # ws)"
| call: "i < length ws \<Longrightarrow> digits number \<Longrightarrow> Write_call number oc (ws ! i) d = (w, d') \<Longrightarrow>
    (wr_Stage (ws ! i) = CreateTemp \<Longrightarrow> map_of d (temp_path (wr_Path (ws ! i)) number) = None \<and>
       Some (temp_path (wr_Path (ws ! i)) number) \<notin> wr_Tmp ` set ws) \<Longrightarrow>
    disk_step (d, ws) (d', ws[i := w])"

inductive_cases disk_stepE: "disk_step (d, ws) (d', ws')"

text \<open>What a reader of the program's own files can see.\<close>

definition visible :: "disk \<Rightarrow> string \<Rightarrow> (string \<times> nat) option" where
  "visible d p = (if is_temp p then None else map_of d p)"

lemma takeWhile_no_slash: "CHR ''/'' \<notin> set s \<Longrightarrow> takeWhile (\<lambda>c. c \<noteq> CHR ''/'') (s @ CHR ''/'' # r) = s"
  by (induction s) auto

lemma temp_is_temp: "digits number \<Longrightarrow> is_temp (temp_path p number)"
proof -
  assume "digits number"
  then have "CHR ''/'' \<notin> set (rev number @ rev ''.tmp-'')" by (auto simp: digits_def list_all_iff)
  then have "file_name (temp_path p number) = ''.tmp-'' @ number"
    using takeWhile_no_slash[of "rev number @ rev ''.tmp-''" "rev (file_dir p)"] by (simp add: file_name_def temp_path_def)
  then show ?thesis by (simp add: is_temp_def has_prefix_def)
qed

text \<open>What each unfinished writer has put under its own name.\<close>

definition temp_state :: "writer \<Rightarrow> disk \<Rightarrow> bool" where
  "temp_state w d =
     (case (wr_Stage w, wr_Tmp w) of
        (MkdirAll, tmp) \<Rightarrow> tmp = None
      | (CreateTemp, tmp) \<Rightarrow> tmp = None
      | (WriteTemp, Some tmp) \<Rightarrow> is_temp tmp
      | (ChmodTemp, Some tmp) \<Rightarrow> is_temp tmp \<and> map_of d tmp = Some (wr_Data w, tempPerm)
      | (CloseTemp, Some tmp) \<Rightarrow> is_temp tmp \<and> map_of d tmp = Some (wr_Data w, wr_Perm w)
      | (RenameTemp, Some tmp) \<Rightarrow> is_temp tmp \<and> map_of d tmp = Some (wr_Data w, wr_Perm w)
      | (RemoveTemp _, Some tmp) \<Rightarrow> is_temp tmp
      | (Returned _, tmp) \<Rightarrow> (\<forall>t. tmp = Some t \<longrightarrow> is_temp t)
      | _ \<Rightarrow> False)"

definition disk_ok :: "disk \<times> writer list \<Rightarrow> bool" where
  "disk_ok s = (case s of (d, ws) \<Rightarrow> (\<forall>w \<in> set ws. temp_state w d \<and> \<not> is_temp (wr_Path w)) \<and>
     (\<forall>i < length ws. \<forall>j < length ws. i \<noteq> j \<longrightarrow> wr_Tmp (ws ! i) \<noteq> None \<longrightarrow> wr_Tmp (ws ! i) \<noteq> wr_Tmp (ws ! j)))"


section \<open>Readers never see a partial write\<close>

lemma call_temp:
  assumes "Write_call number oc w d = (w', d')" "temp_state w d" "\<not> is_temp (wr_Path w)" "digits number"
  shows "temp_state w' d'" "wr_Path w' = wr_Path w" "wr_Data w' = wr_Data w" "wr_Perm w' = wr_Perm w"
    "wr_Tmp w' = (if wr_Stage w = CreateTemp \<and> oc = Works then Some (temp_path (wr_Path w) number) else wr_Tmp w)"
  using assms temp_is_temp[of number "wr_Path w"]
  by (auto simp: Write_call_def Let_def temp_state_def on_temp_def update_conv' split: stage.splits option.splits if_splits outcome.splits)

lemma call_files:
  assumes "Write_call number oc w d = (w', d')" "temp_state w d" "\<not> is_temp (wr_Path w)" "digits number"
  shows "visible d' = (if wr_Stage w = RenameTemp \<and> oc = Works then (visible d)(wr_Path w \<mapsto> (wr_Data w, wr_Perm w)) else visible d)"
  using assms temp_is_temp[of number "wr_Path w"]
  by (cases "wr_Stage w") (auto simp: Write_call_def Let_def temp_state_def on_temp_def rename_file_def visible_def fun_eq_iff update_conv'
      delete_conv' split: option.splits if_splits outcome.splits)

lemma call_other_temps:
  assumes "Write_call number oc w d = (w', d')" "temp_state w d" "\<not> is_temp (wr_Path w)" "is_temp p" "wr_Tmp w' \<noteq> Some p"
  shows "map_of d' p = map_of d p"
  using assms
  by (cases "wr_Stage w") (auto simp: Write_call_def Let_def temp_state_def on_temp_def rename_file_def update_conv'
      delete_conv' split: option.splits if_splits outcome.splits)

lemma temp_state_frame:
  assumes "temp_state w d" "\<And>t. wr_Tmp w = Some t \<Longrightarrow> is_temp t \<Longrightarrow> map_of d' t = map_of d t"
  shows "temp_state w d'"
  using assms by (auto simp: temp_state_def split: stage.splits option.splits)

lemma disk_ok_step: "disk_step s s' \<Longrightarrow> disk_ok s \<Longrightarrow> disk_ok s'"
proof (induction rule: disk_step.induct)
  case (start path d ws data perm)
  then show ?case
    by (auto simp: disk_ok_def temp_state_def Write_file_def nth_Cons split: nat.splits)
next
  case (call i ws number oc d w d')
  have w: "temp_state (ws ! i) d" "\<not> is_temp (wr_Path (ws ! i))"
    and apart: "\<And>j k. j < length ws \<Longrightarrow> k < length ws \<Longrightarrow> j \<noteq> k \<Longrightarrow> wr_Tmp (ws ! j) \<noteq> None \<Longrightarrow> wr_Tmp (ws ! j) \<noteq> wr_Tmp (ws ! k)"
    using call.prems call.hyps(1) by (auto simp: disk_ok_def)
  note new = call_temp[OF call.hyps(3) w call.hyps(2)]
  have tmp: "wr_Tmp w \<noteq> wr_Tmp (ws ! j)" if "j < length ws" "j \<noteq> i" "wr_Tmp w \<noteq> None" for j
  proof (cases "wr_Stage (ws ! i) = CreateTemp \<and> oc = Works")
    case True
    then have "wr_Tmp w \<notin> wr_Tmp ` set ws" using call.hyps(4) new(5) by simp
    then show ?thesis using that(1) by (metis image_eqI nth_mem)
  next
    case False
    then have "wr_Tmp w = wr_Tmp (ws ! i)" using new(5) by (simp only: if_False)
    then show ?thesis using apart[of i j] that call.hyps(1) by simp
  qed
  have frame: "temp_state (ws ! j) d'" if "j < length ws" "j \<noteq> i" for j
  proof (rule temp_state_frame)
    show "temp_state (ws ! j) d" using call.prems that(1) by (auto simp: disk_ok_def)
    fix t assume "wr_Tmp (ws ! j) = Some t" "is_temp t"
    moreover have "wr_Tmp w \<noteq> Some t" using tmp[OF that] \<open>wr_Tmp (ws ! j) = Some t\<close> by auto
    ultimately show "map_of d' t = map_of d t" using call_other_temps[OF call.hyps(3) w] by blast
  qed
  have paths: "\<not> is_temp (wr_Path (ws ! j))" if "j < length ws" for j using call.prems that by (auto simp: disk_ok_def)
  have "temp_state x d' \<and> \<not> is_temp (wr_Path x)" if x: "x \<in> set (ws[i := w])" for x
  proof -
    obtain j where j: "j < length ws" "x = ws[i := w] ! j" using x by (metis in_set_conv_nth length_list_update)
    show ?thesis
    proof (cases "j = i")
      case True
      then show ?thesis using j new(1,2) w(2) by simp
    next
      case False
      then have "x = ws ! j" using j(2) by simp
      then show ?thesis using j(1) False frame[of j] paths by simp
    qed
  qed
  moreover have "wr_Tmp (ws[i := w] ! j) \<noteq> wr_Tmp (ws[i := w] ! k)"
    if "j < length ws" "k < length ws" "j \<noteq> k" "wr_Tmp (ws[i := w] ! j) \<noteq> None" for j k
  proof (cases "j = i \<or> k = i")
    case True
    then show ?thesis using that tmp[of j] tmp[of k] by (cases "j = i") (auto simp: nth_list_update)
  next
    case False
    then show ?thesis using that apart[of j k] by simp
  qed
  ultimately show ?case by (simp add: disk_ok_def)
qed

lemma disk_reachable: "disk_step\<^sup>*\<^sup>* (d0, []) s \<Longrightarrow> disk_ok s"
proof (induction rule: rtranclp_induct)
  case base
  then show ?case by (simp add: disk_ok_def)
qed (rule disk_ok_step)

text \<open>
  C18. A write is atomic: however the system calls of any number of writers interleave, wherever they
  break and wherever a process is killed, each step leaves every file of the program as it was, or
  replaces one by the complete content a writer was given for it.
\<close>

theorem Write_is_atomic:
  assumes "disk_step\<^sup>*\<^sup>* (d0, []) (d, ws)" "disk_step (d, ws) (d', ws')"
  shows "visible d' = visible d \<or>
    list_ex (\<lambda>w. wr_Stage w = RenameTemp \<and> visible d' = (visible d)(wr_Path w \<mapsto> (wr_Data w, wr_Perm w))) ws"
  using assms(2)
proof (cases rule: disk_step.cases)
  case (call i number oc w)
  have "temp_state (ws ! i) d" "\<not> is_temp (wr_Path (ws ! i))" using disk_reachable[OF assms(1)] call(2) by (auto simp: disk_ok_def)
  then have "visible d' = (if wr_Stage (ws ! i) = RenameTemp \<and> oc = Works
      then (visible d)(wr_Path (ws ! i) \<mapsto> (wr_Data (ws ! i), wr_Perm (ws ! i))) else visible d)"
    using call_files call(3,4) by blast
  then show ?thesis using call(2) by (auto simp: list_ex_iff split: if_splits)
qed simp

text \<open>One writer alone.\<close>

definition fresh_temp :: "string \<Rightarrow> writer \<Rightarrow> disk \<Rightarrow> bool" where
  "fresh_temp number w d \<longleftrightarrow> (wr_Stage w = MkdirAll \<or> wr_Stage w = CreateTemp \<longrightarrow>
     wr_Tmp w = None \<and> map_of d (temp_path (wr_Path w) number) = None)"

lemma single_run: "digits number \<Longrightarrow> fresh_temp number w d \<Longrightarrow>
  disk_step\<^sup>*\<^sup>* (d, [w]) (snd (Write_run number ocs w d), [fst (Write_run number ocs w d)])"
proof (induction ocs arbitrary: w d)
  case (Cons oc ocs)
  obtain w' d' where r: "Write_call number oc w d = (w', d')" by fastforce
  have "disk_step (d, [w]) (d', [w'])"
    using disk_step.call[of 0 "[w]" number oc d w' d'] r Cons.prems by (auto simp: fresh_temp_def)
  moreover have "fresh_temp number w' d'"
    using r Cons.prems(2) by (auto simp: Write_call_def Let_def fresh_temp_def split: stage.splits outcome.splits if_splits)
  ultimately show ?case using Cons.IH[OF Cons.prems(1), of w' d'] r by (simp add: converse_rtranclp_into_rtranclp)
qed simp

definition demo_write :: "nat \<Rightarrow> writer \<times> disk" where
  "demo_write n = Write_run ''7'' (replicate n Works) (Write_file ''/home/settings.json'' ''{1}'' 384) [(''/home/settings.json'', (''{}'', 384))]"

lemma Write_is_atomic_witness:
  "let w = fst (demo_write 5); d = snd (demo_write 5); d' = snd (demo_write 6)
   in visible d ''/home/settings.json'' = Some (''{}'', 384) \<and> visible d' ''/home/settings.json'' = Some (''{1}'', 384) \<and>
      (visible d' = visible d \<or> list_ex (\<lambda>w. wr_Stage w = RenameTemp \<and> visible d' = (visible d)(wr_Path w \<mapsto> (wr_Data w, wr_Perm w))) [w])"
proof -
  let ?p = "''/home/settings.json''" and ?d = "[(''/home/settings.json'', (''{}'', 384 :: nat))]"
  let ?w = "Write_file ?p ''{1}'' 384"
  have seven: "digits ''7''" by code_simp
  have "disk_step (?d, []) (?d, [?w])" by (rule disk_step.start) code_simp
  moreover have "fresh_temp ''7'' ?w ?d" by code_simp
  ultimately have reach: "disk_step\<^sup>*\<^sup>* (?d, []) (snd (demo_write 5), [fst (demo_write 5)])"
    unfolding demo_write_def by (rule converse_rtranclp_into_rtranclp[OF _ single_run[OF seven]])
  have call: "Write_call ''7'' Works (fst (demo_write 5)) (snd (demo_write 5)) = (fst (demo_write 6), snd (demo_write 6))" by code_simp
  have "wr_Stage (fst (demo_write 5)) = RenameTemp" by code_simp
  then have "disk_step (snd (demo_write 5), [fst (demo_write 5)]) (snd (demo_write 6), [fst (demo_write 6)])"
    using disk_step.call[of 0 "[fst (demo_write 5)]" "''7''" Works "snd (demo_write 5)", OF _ seven] call by simp
  moreover have "visible (snd (demo_write 5)) ?p = Some (''{}'', 384)" "visible (snd (demo_write 6)) ?p = Some (''{1}'', 384)" by code_simp+
  ultimately show ?thesis unfolding Let_def using Write_is_atomic[OF reach] by blast
qed

text \<open>When no call breaks the content is there and nothing else has changed.\<close>

lemma Write_succeeds:
  assumes "\<not> is_temp p" "digits number" "map_of d (temp_path p number) = None"
  shows "case Write_run number (replicate 7 Works) (Write_file p data perm) d of (w, d') \<Rightarrow>
    wr_Stage w = Returned True \<and> map_of d' = (map_of d)(p \<mapsto> (data, perm))"
proof -
  have "p \<noteq> temp_path p number" using assms(1,2) temp_is_temp by metis
  then show ?thesis using assms(3)
    by (simp add: Write_call_def Let_def Write_file_def on_temp_def rename_file_def update_conv' delete_conv' fun_eq_iff eval_nat_numeral)
qed

end
