(* ===== verification/Places.thy ===== *)
theory Places
  imports AgentIngest AtomicFile
begin

text \<open>
  Where the client finds things: its own files (\<open>client/settings\<close>), those of Claude Code, Codex,
  Antigravity, OpenCodex and Claude Desktop (\<open>internal/provider\<close>) and their programs (\<open>LookPath\<close>); and the
  sessions of Claude Desktop (\<open>provider/anthropic/desktop/desktop.go\<close>). The environment is the record
  \<open>place\<close>; \<open>None\<close> is an error of \<open>os.UserHomeDir\<close> or \<open>os.UserConfigDir\<close>. The answers of
  \<open>filepath.Glob\<close> are arguments.
\<close>

section \<open>Directories\<close>

record place =
  hm_Getenv :: "string \<Rightarrow> string"
  hm_Home :: "string option"
  hm_Config :: "string option"
  hm_Sep :: string
  hm_Windows :: bool

text \<open>\<open>filepath.Join\<close> of elements that are clean already.\<close>

definition path_join :: "string \<Rightarrow> string list \<Rightarrow> string" where
  "path_join sep elems = join (filter (\<lambda>p. p \<noteq> []) elems) sep"

definition under :: "place \<Rightarrow> string option \<Rightarrow> string list \<Rightarrow> string option" where
  "under hm base elems = map_option (\<lambda>b. path_join (hm_Sep hm) (b # elems)) base"

definition settings_Dir :: "place \<Rightarrow> string option" where
  "settings_Dir hm = (if hm_Getenv hm ''SHARECODEX_HOME'' \<noteq> [] then Some (hm_Getenv hm ''SHARECODEX_HOME'') else under hm (hm_Config hm) [''ShareCodex''])"

definition settings_path :: "place \<Rightarrow> string option" where
  "settings_path hm = under hm (settings_Dir hm) [''settings.json'']"

fun split_on :: "char \<Rightarrow> string \<Rightarrow> string list" where
  "split_on c [] = [[]]"
| "split_on c (x # s) = (if x = c then [] # split_on c s else case split_on c s of [] \<Rightarrow> [[x]] | w # ws \<Rightarrow> (x # w) # ws)"

definition ConfigDir :: "place \<Rightarrow> string option" where
  "ConfigDir hm =
     (let env = hm_Getenv hm ''CLAUDE_CONFIG_DIR''
      in if env \<noteq> [] then Some (trim_space (fst (cut_at env CHR '',''))) else under hm (hm_Home hm) [''.claude''])"

definition SettingsPath :: "place \<Rightarrow> string option" where
  "SettingsPath hm = under hm (ConfigDir hm) [''settings.json'']"

definition credentialPath :: "place \<Rightarrow> string option" where
  "credentialPath hm = under hm (ConfigDir hm) [''.credentials.json'']"

definition transcript_dirs :: "place \<Rightarrow> string list" where
  "transcript_dirs hm =
     (let env = hm_Getenv hm ''CLAUDE_CONFIG_DIR''
      in if env \<noteq> [] then filter (\<lambda>d. d \<noteq> []) (map trim_space (split_on CHR '','' env))
         else case hm_Home hm of
             None \<Rightarrow> []
           | Some home \<Rightarrow> [path_join (hm_Sep hm) [home, ''.claude''], path_join (hm_Sep hm) [home, ''.config'', ''claude'']])"

definition transcript_Roots :: "place \<Rightarrow> string list" where
  "transcript_Roots hm = map (\<lambda>d. path_join (hm_Sep hm) [d, ''projects'']) (transcript_dirs hm)"

definition rollout_Roots :: "place \<Rightarrow> string list" where
  "rollout_Roots hm =
     (let env = hm_Getenv hm ''CODEX_HOME'';
          home = (if env \<noteq> [] then Some env else under hm (hm_Home hm) [''.codex''])
      in case home of
          None \<Rightarrow> []
        | Some h \<Rightarrow> [path_join (hm_Sep hm) [h, ''sessions''], path_join (hm_Sep hm) [h, ''archived_sessions'']])"

definition geminiDir :: "place \<Rightarrow> string option" where
  "geminiDir hm = under hm (hm_Home hm) [''.gemini'']"

definition antigravity_Roots :: "place \<Rightarrow> string list" where
  "antigravity_Roots hm =
     (case geminiDir hm of None \<Rightarrow> [] | Some dir \<Rightarrow> [path_join (hm_Sep hm) [dir, ''antigravity-cli'', ''conversations'']])"

definition opencodex_Path :: "place \<Rightarrow> string option" where
  "opencodex_Path hm = under hm (hm_Home hm) [''.opencodex'', ''usage.jsonl'']"

definition desktop_Dir :: "place \<Rightarrow> string option" where
  "desktop_Dir hm = under hm (hm_Config hm) [''Claude'']"

definition SpoolDir :: "place \<Rightarrow> string \<Rightarrow> string" where
  "SpoolDir hm dir = path_join (hm_Sep hm) [dir, ''claude-statusline'']"

section \<open>Programs\<close>

definition candidates :: "place \<Rightarrow> string \<Rightarrow> string list" where
  "candidates hm name =
     (let home = (case hm_Home hm of None \<Rightarrow> [] | Some h \<Rightarrow> h); at' = path_join (hm_Sep hm)
      in if hm_Windows hm
         then [at' [home, ''.local'', ''bin'', name @ ''.exe''], at' [hm_Getenv hm ''APPDATA'', ''npm'', name @ ''.cmd''],
               at' [home, ''.bun'', ''bin'', name @ ''.exe'']]
         else [at' [home, ''.local'', ''bin'', name], at' [home, ''.claude'', ''local'', name], at' [home, ''.bun'', ''bin'', name],
               at' [home, ''.npm-global'', ''bin'', name], ''/opt/homebrew/bin/'' @ name, ''/usr/local/bin/'' @ name])"

text \<open>\<open>on_path\<close> is \<open>exec.LookPath\<close>, \<open>is_file\<close> what \<open>os.Stat\<close> says.\<close>

definition LookPath :: "place \<Rightarrow> (string \<Rightarrow> string option) \<Rightarrow> (string \<Rightarrow> bool) \<Rightarrow> string \<Rightarrow> string option" where
  "LookPath hm on_path is_file name =
     (case on_path name of Some p \<Rightarrow> Some p | None \<Rightarrow> find is_file (candidates hm name))"

text \<open>Asking Claude Code who is signed in; \<open>output\<close> is what a program prints, \<open>None\<close> when it fails.\<close>

definition Claude_Observe ::
  "(string \<Rightarrow> string) \<Rightarrow> place \<Rightarrow> (string \<Rightarrow> string option) \<Rightarrow> (string \<Rightarrow> bool) \<Rightarrow> (string list \<Rightarrow> string option) \<Rightarrow> (string \<Rightarrow> auth_status option) \<Rightarrow>
   time \<Rightarrow> observation option" where
  "Claude_Observe sha hm on_path is_file output decode now =
     (case LookPath hm on_path is_file ''claude'' of
        None \<Rightarrow> None
      | Some bin \<Rightarrow>
          (case output [bin, ''auth'', ''status'', ''--json''] of
             None \<Rightarrow> None
           | Some out \<Rightarrow> parse_identity sha (decode out) now))"

section \<open>Antigravity's files\<close>

text \<open>\<open>read\<close> is \<open>os.ReadFile\<close>, \<open>None\<close> for an error.\<close>

definition projectID :: "place \<Rightarrow> (string \<Rightarrow> string option) \<Rightarrow> string" where
  "projectID hm read =
     (case under hm (geminiDir hm) [''antigravity-cli'', ''cache'', ''default_project_id.txt''] of
        None \<Rightarrow> []
      | Some p \<Rightarrow> (case read p of None \<Rightarrow> [] | Some b \<Rightarrow> trim_space b))"

text \<open>The keyring package's encoding of a value is undone; \<open>base64\<close> decodes, \<open>None\<close> for what is not base64.\<close>

definition keyringPrefix :: string where "keyringPrefix = ''go-keyring-base64:''"

definition decodeKeyring :: "(string \<Rightarrow> string option) \<Rightarrow> string \<Rightarrow> string" where
  "decodeKeyring base64 raw =
     (let raw = trim_space raw in
      case cut_prefix raw keyringPrefix of
        None \<Rightarrow> raw
      | Some encoded \<Rightarrow> (case base64 encoded of None \<Rightarrow> raw | Some b \<Rightarrow> b))"

section \<open>Claude Desktop's sessions\<close>

text \<open>\<open>glob\<close> is \<open>filepath.Glob\<close>, \<open>None\<close> for an error.\<close>

definition CoworkRoots :: "place \<Rightarrow> (string \<Rightarrow> string list option) \<Rightarrow> string \<Rightarrow> string list" where
  "CoworkRoots hm glob dir =
     (case glob (path_join (hm_Sep hm) [dir, ''local-agent-mode-sessions'', ''*'', ''*'', ''local_*'', ''.claude'', ''projects'']) of
        None \<Rightarrow> [] | Some roots \<Rightarrow> roots)"

definition claudeRoots :: "place \<Rightarrow> (string \<Rightarrow> string list option) \<Rightarrow> string list" where
  "claudeRoots hm glob = transcript_Roots hm @ (case desktop_Dir hm of None \<Rightarrow> [] | Some dir \<Rightarrow> CoworkRoots hm glob dir)"

text \<open>What reading a metadata file gives: the session it names, empty when it does not parse or names none.\<close>

datatype metadata_file = MetadataMissing | MetadataFailed | MetadataNames string

fun code_sessions :: "(string \<times> metadata_file) list \<Rightarrow> (string, string) gomap \<Rightarrow> (string, string) gomap option" where
  "code_sessions [] out = Some out"
| "code_sessions ((p, f) # fs) out =
     (case f of
        MetadataMissing \<Rightarrow> code_sessions fs out
      | MetadataFailed \<Rightarrow> None
      | MetadataNames i \<Rightarrow> code_sessions fs (if i = [] then out else put i (file_name (file_dir p)) out))"

definition trim_suffix :: "string \<Rightarrow> string \<Rightarrow> string" where
  "trim_suffix s suf = (if has_suffix s suf then take (length s - length suf) s else s)"

definition cowork_org :: "string \<Rightarrow> string" where
  "cowork_org r = file_name (file_dir (file_dir (file_dir r)))"

definition cowork_sessions :: "(string \<times> string list) list \<Rightarrow> (string, string) gomap \<Rightarrow> (string, string) gomap" where
  "cowork_sessions roots out =
     fold (\<lambda>(r, transcripts). fold (\<lambda>p. put (trim_suffix (file_name p) ''.jsonl'') (cowork_org r)) transcripts) roots out"

definition Sessions :: "(string \<times> metadata_file) list \<Rightarrow> (string \<times> string list) list \<Rightarrow> (string, string) gomap option" where
  "Sessions code roots = map_option (cowork_sessions roots) (code_sessions code [])"

section \<open>One Claude Code\<close>

lemma split_on_cut: "split_on c s = fst (cut_at s c) # (if c \<in> set s then split_on c (fst (snd (cut_at s c))) else [])"
proof (induction s)
  case (Cons x s)
  show ?case
  proof (cases "x = c")
    case True
    then show ?thesis using cut_at_found[of c "[]" s] by simp
  next
    case False
    show ?thesis
    proof (cases "c \<in> set s")
      case True
      then obtain a b where s: "s = a @ c # b" "c \<notin> set a" by (meson split_list_first)
      then show ?thesis using Cons False cut_at_found[of c a b] cut_at_found[of c "x # a" b] by simp
    next
      case other: False
      then show ?thesis using Cons False cut_at_none[of c s] cut_at_none[of c "x # s"] by simp
    qed
  qed
qed (simp add: cut_at_def)

text \<open>
  What is changed and what is read are of one Claude Code: the directory whose settings the client edits is
  the first one whose transcripts it reads, unless the first of several in \<open>CLAUDE_CONFIG_DIR\<close> is blank.
\<close>

theorem ConfigDir_first_root:
  assumes "ConfigDir hm = Some dir" "dir \<noteq> []"
  shows "\<exists>rest. transcript_Roots hm = path_join (hm_Sep hm) [dir, ''projects''] # rest"
proof (cases "hm_Getenv hm ''CLAUDE_CONFIG_DIR'' = []")
  case True
  then show ?thesis using assms by (auto simp: ConfigDir_def transcript_Roots_def transcript_dirs_def under_def Let_def)
next
  case False
  let ?env = "hm_Getenv hm ''CLAUDE_CONFIG_DIR''"
  have "dir = trim_space (fst (cut_at ?env CHR '',''))" using assms(1) False by (simp add: ConfigDir_def Let_def)
  then show ?thesis using assms(2) False split_on_cut[of "CHR '',''" ?env]
    by (simp add: transcript_Roots_def transcript_dirs_def Let_def)
qed

lemma ConfigDir_first_root_witness:
  "\<exists>rest. transcript_Roots \<lparr>hm_Getenv = (\<lambda>_. '' /a , /b''), hm_Home = None, hm_Config = None, hm_Sep = ''/'', hm_Windows = False\<rparr> = ''/a/projects'' # rest"
proof -
  let ?hm = "\<lparr>hm_Getenv = (\<lambda>_. '' /a , /b''), hm_Home = None, hm_Config = None, hm_Sep = ''/'', hm_Windows = False\<rparr>"
  have "ConfigDir ?hm = Some ''/a''" by code_simp
  from ConfigDir_first_root[OF this] show ?thesis by (simp add: path_join_def)
qed

text \<open>A blank first directory makes the client edit \<open>settings.json\<close> where it happens to run, and read another's transcripts.\<close>

lemma blank_config_dir:
  "SettingsPath \<lparr>hm_Getenv = (\<lambda>_. '',/b''), hm_Home = Some ''/h'', hm_Config = None, hm_Sep = ''/'', hm_Windows = False\<rparr> = Some ''settings.json'' \<and>
   transcript_Roots \<lparr>hm_Getenv = (\<lambda>_. '',/b''), hm_Home = Some ''/h'', hm_Config = None, hm_Sep = ''/'', hm_Windows = False\<rparr> = [''/b/projects'']"
  by code_simp

section \<open>A session's organization\<close>

lemma code_sessions_org:
  "code_sessions code out = Some m \<Longrightarrow> map_of m i = Some org \<Longrightarrow>
     map_of out i = Some org \<or> (\<exists>p. (p, MetadataNames i) \<in> set code \<and> i \<noteq> [] \<and> org = file_name (file_dir p))"
  by (induction code out rule: code_sessions.induct) (auto simp: update_conv' split: metadata_file.splits if_splits)

lemma cowork_transcripts_org:
  "map_of (fold (\<lambda>p. put (trim_suffix (file_name p) ''.jsonl'') org') ts out) i = Some org \<Longrightarrow>
     map_of out i = Some org \<or> (\<exists>p \<in> set ts. i = trim_suffix (file_name p) ''.jsonl'' \<and> org = org')"
  by (induction ts arbitrary: out) (fastforce simp: update_conv' split: if_splits)+

lemma cowork_sessions_org:
  "map_of (cowork_sessions roots out) i = Some org \<Longrightarrow>
     map_of out i = Some org \<or> (\<exists>(r, ts) \<in> set roots. \<exists>p \<in> set ts. i = trim_suffix (file_name p) ''.jsonl'' \<and> org = cowork_org r)"
proof (induction roots arbitrary: out)
  case (Cons x roots)
  obtain r ts where x: "x = (r, ts)" by fastforce
  then show ?case using Cons.IH[of "fold (\<lambda>p. put (trim_suffix (file_name p) ''.jsonl'') (cowork_org r)) ts out"] Cons.prems
      cowork_transcripts_org[of "cowork_org r" ts out i org] by (fastforce simp: cowork_sessions_def)
qed (simp add: cowork_sessions_def)

text \<open>
  A session is only ever filed under the folder it was found in: an organization the map gives for a session
  is that of a metadata file naming the session, or of a Cowork folder with a transcript of that name.
\<close>

theorem Sessions_filed:
  assumes "Sessions code roots = Some m" "map_of m i = Some org"
  shows "(\<exists>p. (p, MetadataNames i) \<in> set code \<and> i \<noteq> [] \<and> org = file_name (file_dir p)) \<or>
    (\<exists>(r, ts) \<in> set roots. \<exists>p \<in> set ts. i = trim_suffix (file_name p) ''.jsonl'' \<and> org = cowork_org r)"
  using assms cowork_sessions_org[of roots _ i org] code_sessions_org[of code "[]" _ i org] by (fastforce simp: Sessions_def)

end
