(* ===== verification/CommandLine.thy ===== *)
theory CommandLine
  imports Joining Autostart ScanReport AdminFormat Places
begin

text \<open>
  The commands of the client (\<open>main.go\<close>). Each starts an agent from what is on disk, uses it and ends: the
  disk is the record \<open>machine\<close>, the rest of the system the record \<open>host_system\<close>. What a command prints
  on standard output is its list of lines. Waiting for the browser in \<open>claude-login\<close> is \<open>login.Wait\<close>,
  whose answer is an argument.
\<close>

section \<open>Arguments\<close>

datatype command =
    RunDesktop | RunStatusLine | RunScan "string list" | RunAgent | RunStatus | RunResync | RunClaudeLogin
  | RunClaudeLogout string | RunInvite | RunToggle string bool | RunJoin string | ShowUsage

fun parse_command :: "string list \<Rightarrow> command" where
  "parse_command [] = RunDesktop"
| "parse_command (c # args) =
     (if c = ''statusline'' then RunStatusLine
      else if c = ''scan'' then RunScan args
      else if c = ''agent'' then RunAgent
      else if c = ''status'' then RunStatus
      else if c = ''resync'' then RunResync
      else if c = ''claude-login'' then RunClaudeLogin
      else if c = ''claude-logout'' then (case args of [hint] \<Rightarrow> RunClaudeLogout hint | _ \<Rightarrow> ShowUsage)
      else if c = ''invite'' then RunInvite
      else if c = ''autostart'' \<or> c = ''statusline-capture''
      then (case args of [v] \<Rightarrow> if v = ''on'' \<or> v = ''off'' then RunToggle c (v = ''on'') else ShowUsage | _ \<Rightarrow> ShowUsage)
      else if c = ''join'' then (case args of [link] \<Rightarrow> RunJoin link | _ \<Rightarrow> ShowUsage)
      else ShowUsage)"

section \<open>The machine\<close>

record 'o machine =
  mc_Settings :: settings_file
  mc_Store :: local_db
  mc_Spool :: spool_dir
  mc_Logins :: "(string, oauth_tokens option) gomap"
  mc_Secrets :: secret_files
  mc_Claude :: "settings_text option"
  mc_Backup :: "settings_text option"
  mc_Item :: 'o

record ('w, 'o) host_system =
  sy_Dir :: string
  sy_Version :: string
  sy_GOOS :: string
  sy_Hostname :: "string option"
  sy_URLs :: urls
  sy_Transport :: "string \<Rightarrow> 'w transport"
  sy_Item :: "'o login_item"
  sy_Executable :: "string option"
  sy_Resolve :: "string \<Rightarrow> string option"
  sy_Exists :: "string \<Rightarrow> bool"
  sy_User :: "string option"
  sy_Host :: host
  sy_Today :: string
  sy_Sha :: "string \<Rightarrow> string"
  sy_LocalTime :: "time \<Rightarrow> string"

datatype command_error =
    StartFailed | JoinFailed join_error | InviteFailed client_error | LoginFailed login_error | NoSuchLogin
  | ResyncFailed resync_error | ExecutableUnknown | AutostartFailed launch_error | CaptureFailed config_error

definition newAgent :: "('w, 'o) host_system \<Rightarrow> 'o machine \<Rightarrow> shell option" where
  "newAgent sy m = New_agent (sy_Dir sy) (sy_Version sy) (mc_Settings m) (mc_Store m) (mc_Spool m) (mc_Logins m) (mc_Secrets m)"

text \<open>What an agent that ends leaves on disk.\<close>

definition on_disk :: "shell \<Rightarrow> 'o machine \<Rightarrow> 'o machine" where
  "on_disk sh m = m\<lparr>mc_Settings := pf_File (sh_Prefs sh), mc_Store := sh_Store sh, mc_Spool := ag_Spool (pb_Agent (sh_Prober sh)),
     mc_Logins := pb_Secrets (sh_Prober sh), mc_Secrets := sh_Secrets sh\<rparr>"

definition state_of :: "('w, 'o) host_system \<Rightarrow> 'o machine \<Rightarrow> shell \<Rightarrow> popup" where
  "state_of sy m sh = State (mc_Claude m) (ho_Now (sy_Host sy)) sh"

section \<open>The program's own path\<close>

definition homebrewFormula :: string where "homebrewFormula = ''sharecodex-cli''"

definition homebrewOptPath :: "string \<Rightarrow> string \<Rightarrow> string option" where
  "homebrewOptPath sep exe =
     (case cut_string (sep @ ''Cellar'' @ sep @ homebrewFormula @ sep) exe of
        None \<Rightarrow> None
      | Some (pre, rest) \<Rightarrow>
          (case cut_string sep rest of
             None \<Rightarrow> None
           | Some (_, inVersion) \<Rightarrow> Some (path_join sep [pre, ''opt'', homebrewFormula, inVersion])))"

definition separator :: "('w, 'o) host_system \<Rightarrow> string" where
  "separator sy = (if sy_GOOS sy = ''windows'' then [CHR 0x5C] else ''/'')"

definition executable :: "('w, 'o) host_system \<Rightarrow> string option" where
  "executable sy =
     (case sy_Executable sy of
        None \<Rightarrow> None
      | Some exe \<Rightarrow>
          (let exe = (if sy_GOOS sy \<noteq> ''windows'' then (case sy_Resolve sy exe of Some resolved \<Rightarrow> resolved | None \<Rightarrow> exe) else exe)
           in Some (case homebrewOptPath (separator sy) exe of
                Some opt \<Rightarrow> if sy_Exists sy opt then opt else exe
              | None \<Rightarrow> exe)))"

definition lingering :: "('w, 'o) host_system \<Rightarrow> bool" where
  "lingering sy = (case sy_User sy of None \<Rightarrow> False | Some u \<Rightarrow> sy_Exists sy (''/var/lib/systemd/linger/'' @ u))"

section \<open>Joining and inviting\<close>

type_synonym ('w, 'o) done_command = "command_error option \<times> string list \<times> 'o machine \<times> 'w"

definition joined_line :: "popup \<Rightarrow> string" where
  "joined_line st = ''Joined '' @ po_ServerURL st @ '' as '' @ po_PersonName st @ '' ('' @ po_DeviceName st @ '')''"

definition runJoin :: "('w, 'o) host_system \<Rightarrow> string \<Rightarrow> 'o machine \<Rightarrow> 'w \<Rightarrow> ('w, 'o) done_command" where
  "runJoin sy link m w =
     (case newAgent sy m of
        None \<Rightarrow> (Some StartFailed, [], m, w)
      | Some sh \<Rightarrow>
          (case Join (sy_URLs sy) (sy_Dir sy) (sy_GOOS sy) (sy_Hostname sy) (sy_Transport sy) link sh w of
             (Some err, sh, w) \<Rightarrow> (Some (JoinFailed err), [], on_disk sh m, w)
           | (None, sh, w) \<Rightarrow>
               (let st = state_of sy m sh; out = [joined_line st]
                in if sy_GOOS sy = ''linux'' \<and> po_LaunchAtLogin st
                   then (case executable sy of
                           None \<Rightarrow> (Some ExecutableUnknown, out, on_disk sh m, w)
                         | Some exe \<Rightarrow>
                             (case SetLaunchAtLogin (sy_Item sy) exe True (sh_Prefs sh) (mc_Item m) of
                                (err, p, item) \<Rightarrow> (map_option AutostartFailed err, out, (on_disk (sh\<lparr>sh_Prefs := p\<rparr>) m)\<lparr>mc_Item := item\<rparr>, w)))
                   else (None, out, on_disk sh m, w))))"

definition runInvite :: "('w, 'o) host_system \<Rightarrow> 'o machine \<Rightarrow> 'w \<Rightarrow> ('w, 'o) done_command" where
  "runInvite sy m w =
     (case newAgent sy m of
        None \<Rightarrow> (Some StartFailed, [], m, w)
      | Some sh \<Rightarrow>
          (case Joining.CreateInvite (sy_Transport sy (se_ServerURL (pf_Settings (sh_Prefs sh)))) sh w of
             (Inl err, w) \<Rightarrow> (Some (InviteFailed err), [], on_disk sh m, w)
           | (Inr (link, expires), w) \<Rightarrow>
               (None, [link, ''Single use, valid until '' @ sy_LocalTime sy expires @ ''. Run `sharecodex join` with it on the other device.''],
                on_disk sh m, w)))"

section \<open>Status\<close>

definition onOff :: "bool \<Rightarrow> string" where "onOff b = (if b then ''on'' else ''off'')"

definition login_line :: "nat \<times> claude_login \<Rightarrow> string" where
  "login_line il = (case il of (i, l) \<Rightarrow>
     (if i > 0 then ''                   '' else ''Claude sign-ins:   '') @ '' '' @ cl_Hint l @ '' ('' @ cl_PlanType l @ '')'')"

definition status_lines :: "popup \<Rightarrow> claude_login list \<Rightarrow> string list" where
  "status_lines st logins =
     (if \<not> po_Paired st
      then [''Not joined. Run `sharecodex join LINK` with a join link from the server'' @ [CHR 0x27] @ ''s admin or another of your devices.'']
      else [''Server:  '' @ po_ServerURL st, ''Member:  '' @ po_PersonName st, ''Device:  '' @ po_DeviceName st]) @
     [''Pending uploads:    '' @ decimal (po_PendingUploads st), ''statusLine capture: '' @ onOff (po_StatusLineInstalled st),
      ''Autostart:          '' @ onOff (po_LaunchAtLogin st)] @
     map login_line (enumerate 0 logins)"

definition runStatus :: "('w, 'o) host_system \<Rightarrow> 'o machine \<Rightarrow> 'w \<Rightarrow> ('w, 'o) done_command" where
  "runStatus sy m w =
     (case newAgent sy m of
        None \<Rightarrow> (Some StartFailed, [], m, w)
      | Some sh \<Rightarrow> (None, status_lines (state_of sy m sh) (ClaudeLogins (sh_Store sh)), on_disk sh m, w))"

section \<open>Claude sign-ins\<close>

text \<open>\<open>%-9s\<close> and \<open>%.0f%%\<close>.\<close>

definition pad_right :: "nat \<Rightarrow> string \<Rightarrow> string" where
  "pad_right n s = s @ replicate (n - length s) CHR '' ''"

definition bucket_lines :: "bucket list \<Rightarrow> string list" where
  "bucket_lines bs = concat (map (\<lambda>b. case bk_UsedPercent b of
     None \<Rightarrow> [] | Some used \<Rightarrow> [''  '' @ pad_right 9 (bk_Key b) @ '' '' @ format_fixed used 0 @ ''%'']) bs)"

text \<open>After \<open>login.Wait\<close> gave tokens and a profile; a sign-in whose quota cannot be read is kept.\<close>

definition runClaudeLogin ::
  "('w, 'o) host_system \<Rightarrow> (string \<Rightarrow> time option) \<Rightarrow> 'w network \<Rightarrow> oauth_tokens \<Rightarrow> profile \<Rightarrow> 'o machine \<Rightarrow> 'w \<Rightarrow> ('w, 'o) done_command" where
  "runClaudeLogin sy rfc3339 net tokens p m w =
     (case newAgent sy m of
        None \<Rightarrow> (Some StartFailed, [], m, w)
      | Some sh \<Rightarrow>
          (case LinkClaude (sy_Sha sy) rfc3339 net (ho_Now (sy_Host sy)) tokens p (sh_Prober sh) w of
             (l, Inl err, pb, w) \<Rightarrow> (Some (LoginFailed err), [], on_disk (sh\<lparr>sh_Prober := pb\<rparr>) m, w)
           | (l, Inr bs, pb, w) \<Rightarrow>
               (None, (''Signed in: '' @ cl_Hint l @ '' ('' @ cl_PlanType l @ '')'') # bucket_lines bs, on_disk (sh\<lparr>sh_Prober := pb\<rparr>) m, w)))"

definition runClaudeLogout :: "('w, 'o) host_system \<Rightarrow> string \<Rightarrow> 'o machine \<Rightarrow> 'w \<Rightarrow> ('w, 'o) done_command" where
  "runClaudeLogout sy hint m w =
     (case newAgent sy m of
        None \<Rightarrow> (Some StartFailed, [], m, w)
      | Some sh \<Rightarrow>
          (case UnlinkClaude hint (sh_Prober sh) of
             (False, pb) \<Rightarrow> (Some NoSuchLogin, [], on_disk (sh\<lparr>sh_Prober := pb\<rparr>) m, w)
           | (True, pb) \<Rightarrow> (None, [''Signed out: '' @ hint], on_disk (sh\<lparr>sh_Prober := pb\<rparr>) m, w)))"

definition openBrowser :: "string \<Rightarrow> string \<Rightarrow> string list option" where
  "openBrowser goos url =
     (if goos = ''darwin'' then Some [''open'', url]
      else if goos = ''windows'' then Some [''rundll32'', ''url.dll,FileProtocolHandler'', url]
      else None)"

section \<open>Resync and the switches\<close>

definition runResync :: "('w, 'o) host_system \<Rightarrow> 'o machine \<Rightarrow> 'w \<Rightarrow> ('w, 'o) done_command" where
  "runResync sy m w =
     (case newAgent sy m of
        None \<Rightarrow> (Some StartFailed, [], m, w)
      | Some sh \<Rightarrow>
          (let st = state_of sy m sh;
               out = (if po_Paired st then [''Re-reading logs for '' @ po_PersonName st @ '' ('' @ po_DeviceName st @
                        ''). Quit ShareCodex first; two processes must not share its database.''] else [])
           in case Resync (sy_Sha sy) (sy_Host sy) (sy_Transport sy (po_ServerURL st)) (sy_Today sy) sh w of
               (Some err, _, sh, w) \<Rightarrow> (Some (ResyncFailed err), out, on_disk sh m, w)
             | (None, stats, sh, w) \<Rightarrow>
                 (None, out @ [''Events re-read: '' @ decimal (rt_Events stats), ''Uploaded:       '' @ decimal (rt_Pending stats) @ '' pending''],
                  on_disk sh m, w)))"

text \<open>The agent's statusLine operations, on its settings and on Claude Code's file.\<close>

definition capture ::
  "(settings_text option \<Rightarrow> settings_text option \<Rightarrow> prefs \<Rightarrow> config_error option \<times> claude_settings \<times> prefs) \<Rightarrow> prefs \<Rightarrow> 'o machine \<Rightarrow>
   config_error option \<times> 'o machine" where
  "capture f p m =
     (case f (mc_Claude m) (mc_Backup m) p of
        (err, cf, p) \<Rightarrow> (err, m\<lparr>mc_Settings := pf_File p, mc_Claude := cf_File cf, mc_Backup := cf_Backup cf\<rparr>))"

definition runToggle :: "('w, 'o) host_system \<Rightarrow> string \<Rightarrow> bool \<Rightarrow> 'o machine \<Rightarrow> 'w \<Rightarrow> ('w, 'o) done_command" where
  "runToggle sy setting enabled m w =
     (case newAgent sy m of
        None \<Rightarrow> (Some StartFailed, [], m, w)
      | Some sh \<Rightarrow>
          (case executable sy of
             None \<Rightarrow> (Some ExecutableUnknown, [], on_disk sh m, w)
           | Some exe \<Rightarrow>
               (let m = on_disk sh m;
                    (err, m) =
                      (if setting = ''autostart''
                       then case SetLaunchAtLogin (sy_Item sy) exe enabled (sh_Prefs sh) (mc_Item m) of
                           (err, p, item) \<Rightarrow> (map_option AutostartFailed err, m\<lparr>mc_Settings := pf_File p, mc_Item := item\<rparr>)
                       else case capture (if enabled then Agent_InstallStatusLine exe else Agent_RestoreStatusLine) (sh_Prefs sh) m of
                           (err, m) \<Rightarrow> (map_option CaptureFailed err, m))
                in case err of
                    Some e \<Rightarrow> (Some e, [], m, w)
                  | None \<Rightarrow>
                      (None, (setting @ '': '' @ onOff enabled) #
                         (if setting = ''autostart'' \<and> enabled \<and> sy_GOOS sy = ''linux'' \<and> \<not> lingering sy
                          then [''The agent stops when you log out. To keep it running, run `loginctl enable-linger`.''] else []),
                       m, w))))"

section \<open>The statusLine shim\<close>

text \<open>The user's own command, saved when the shim was installed.\<close>

definition chainCommand :: "settings \<Rightarrow> string" where
  "chainCommand st =
     (case se_StatusLine st of None \<Rightarrow> [] | Some original \<Rightarrow> (case command_of original of Some c \<Rightarrow> c | None \<Rightarrow> []))"

section \<open>A path that survives an upgrade\<close>

lemma cut_string_first:
  assumes "sep \<noteq> []" "\<not> contains (pre @ butlast sep) sep"
  shows "cut_string sep (pre @ sep @ rest) = Some (pre, rest)"
  using assms(2)
proof (induction pre)
  case Nil
  obtain x s where "sep = x # s" using assms(1) by (cases sep) auto
  then show ?case by (simp add: cut_prefix_def has_prefix_def)
next
  case (Cons c pre)
  have "\<not> has_prefix (c # pre @ sep @ rest) sep"
  proof
    assume "has_prefix (c # pre @ sep @ rest) sep"
    then have "take (length sep) ((c # pre @ butlast sep) @ last sep # rest) = sep"
      using assms(1) append_butlast_last_id[of sep] by (metis append_Cons append_assoc append_Nil has_prefix_def)
    moreover have "length sep \<le> length (c # pre @ butlast sep)" using assms(1) by (cases sep) auto
    ultimately have "sep = take (length sep) (c # pre @ butlast sep)" by (subst (asm) take_append) simp
    then have "\<exists>b. (c # pre) @ butlast sep = [] @ sep @ b" by (metis append_Cons append_Nil append_take_drop_id)
    then show False using Cons.prems unfolding contains_iff by metis
  qed
  moreover have "\<not> contains (pre @ butlast sep) sep"
  proof
    assume "contains (pre @ butlast sep) sep"
    then obtain a b where "pre @ butlast sep = a @ sep @ b" unfolding contains_iff by blast
    then have "(c # pre) @ butlast sep = (c # a) @ sep @ b" by simp
    then show False using Cons.prems unfolding contains_iff by metis
  qed
  ultimately show ?case using Cons.IH by (simp add: cut_prefix_def)
qed

lemma contains_single: "contains s [c] \<longleftrightarrow> c \<in> set s"
  unfolding contains_iff by (metis append_Cons append_Nil in_set_conv_decomp)

text \<open>
  What the login item and the statusLine hook are pointed at survives \<open>brew upgrade\<close>: the program of any
  version of the formula, wherever Homebrew is installed, names itself by the one path that every later
  version is linked at.
\<close>

theorem executable_survives_upgrade:
  assumes "sy_GOOS sy \<noteq> ''windows''" "sy_Executable sy = Some start" "sy_Resolve sy start = Some exe"
    and "exe = pre @ ''/Cellar/sharecodex-cli/'' @ version @ ''/'' @ inVersion"
    and "pre \<noteq> []" "inVersion \<noteq> []" "\<not> contains (pre @ ''/Cellar/sharecodex-cli'') ''/Cellar/sharecodex-cli/''" "CHR ''/'' \<notin> set version"
    and "sy_Exists sy (pre @ ''/opt/sharecodex-cli/'' @ inVersion)"
  shows "executable sy = Some (pre @ ''/opt/sharecodex-cli/'' @ inVersion)"
proof -
  have "cut_string ''/Cellar/sharecodex-cli/'' exe = Some (pre, version @ ''/'' @ inVersion)"
    unfolding assms(4) by (rule cut_string_first) (use assms(7) in simp_all)
  moreover have "cut_string ''/'' (version @ ''/'' @ inVersion) = Some (version, inVersion)"
    by (rule cut_string_first) (use assms(8) contains_single in simp_all)
  ultimately have "homebrewOptPath ''/'' exe = Some (pre @ ''/opt/sharecodex-cli/'' @ inVersion)"
    using assms(5,6) by (simp add: homebrewOptPath_def homebrewFormula_def path_join_def)
  then show ?thesis using assms(1,2,3,9) by (simp add: executable_def separator_def Let_def)
qed

section \<open>A join is remembered\<close>

lemma SetLaunch_keeps:
  assumes "SetLaunchAtLogin item exe b p os = (err, p', os')" "Load (pf_File p) = Some (pf_Settings p)"
  shows "Load (pf_File p') = Some (pf_Settings p')" "se_ServerURL (pf_Settings p') = se_ServerURL (pf_Settings p)"
    "se_DeviceID (pf_Settings p') = se_DeviceID (pf_Settings p)" "se_PersonName (pf_Settings p') = se_PersonName (pf_Settings p)"
    "se_DeviceName (pf_Settings p') = se_DeviceName (pf_Settings p)"
  using assms by (auto simp: SetLaunchAtLogin_def change_settings_def Let_def Load_def split: if_splits prod.splits option.splits)

text \<open>
  C14. A join is remembered: what \<open>join\<close> prints when it succeeds is what \<open>status\<close>, a program of its own, reads
  back from the disk afterwards, and the device is joined to that server.
\<close>

theorem join_is_remembered:
  assumes "urls_print (sy_URLs sy)" "runJoin sy link m w = (None, out, m', w')"
  shows "\<exists>server member device rest. out = [''Joined '' @ server @ '' as '' @ member @ '' ('' @ device @ '')''] \<and> server \<noteq> [] \<and>
    fst (runStatus sy m' w') = None \<and>
    fst (snd (runStatus sy m' w')) = [''Server:  '' @ server, ''Member:  '' @ member, ''Device:  '' @ device] @ rest"
proof -
  obtain sh where sh: "newAgent sy m = Some sh" using assms(2) by (auto simp: runJoin_def split: option.splits)
  obtain err sh1 w1 where J: "Join (sy_URLs sy) (sy_Dir sy) (sy_GOOS sy) (sy_Hostname sy) (sy_Transport sy) link sh w = (err, sh1, w1)"
    by (rule prod_cases3)
  have none: "err = None" using assms(2) by (cases err) (auto simp: runJoin_def sh J)
  define st where "st = pf_Settings (sh_Prefs sh1)"
  have joined: "Paired st" "Load (pf_File (sh_Prefs sh1)) = Some st"
  proof -
    obtain base code r sf where "ParseJoinLink (sy_URLs sy) link = Some (base, code)"
      and "SetToken (sy_Dir sy) (pa_DeviceID r) (pa_Token r) (sh_Secrets sh) = (None, sf)"
      and st': "st = joined_settings base (device_name (sy_GOOS sy) (sy_Hostname sy)) r (pf_Settings (sh_Prefs sh))"
      and "Load (pf_File (sh_Prefs sh1)) = Some st"
      using J none by (auto simp: st_def Join_def Let_def change_settings_def Load_def split: option.splits prod.splits sum.splits)
    moreover have "base \<noteq> []" using ParseJoinLink_base[OF assms(1)] calculation(1) by blast
    moreover have "pa_DeviceID r \<noteq> []" using calculation(2) by (auto simp: SetToken_def tokenPath_def secretPath_def)
    ultimately show "Paired st" "Load (pf_File (sh_Prefs sh1)) = Some st" by (simp_all add: Paired_def joined_settings_def)
  qed
  have run: "(if sy_GOOS sy = ''linux'' \<and> po_LaunchAtLogin (state_of sy m sh1)
      then (case executable sy of None \<Rightarrow> (Some ExecutableUnknown, [joined_line (state_of sy m sh1)], on_disk sh1 m, w1)
        | Some exe \<Rightarrow> (case SetLaunchAtLogin (sy_Item sy) exe True (sh_Prefs sh1) (mc_Item m) of
            (err, p, item) \<Rightarrow> (map_option AutostartFailed err, [joined_line (state_of sy m sh1)], (on_disk (sh1\<lparr>sh_Prefs := p\<rparr>) m)\<lparr>mc_Item := item\<rparr>, w1)))
      else (None, [joined_line (state_of sy m sh1)], on_disk sh1 m, w1)) = (None, out, m', w')"
    using assms(2) by (simp add: runJoin_def sh J none Let_def)
  then have out: "out = [joined_line (state_of sy m sh1)]" by (auto split: if_splits option.splits prod.splits)
  have "\<exists>st'. Load (mc_Settings m') = Some st' \<and> se_ServerURL st' = se_ServerURL st \<and> se_DeviceID st' = se_DeviceID st \<and>
      se_PersonName st' = se_PersonName st \<and> se_DeviceName st' = se_DeviceName st"
  proof (cases "sy_GOOS sy = ''linux'' \<and> po_LaunchAtLogin (state_of sy m sh1)")
    case True
    then obtain exe p item where "SetLaunchAtLogin (sy_Item sy) exe True (sh_Prefs sh1) (mc_Item m) = (None, p, item)" "mc_Settings m' = pf_File p"
      using run by (auto simp: on_disk_def split: if_splits option.splits prod.splits)
    then show ?thesis using SetLaunch_keeps[of "sy_Item sy" exe True "sh_Prefs sh1"] joined(2) by (auto simp: st_def)
  next
    case False
    then have "mc_Settings m' = pf_File (sh_Prefs sh1)" using run by (auto simp: on_disk_def)
    then show ?thesis using joined(2) by simp
  qed
  then obtain st' where st': "Load (mc_Settings m') = Some st'" "se_ServerURL st' = se_ServerURL st" "se_DeviceID st' = se_DeviceID st"
    "se_PersonName st' = se_PersonName st" "se_DeviceName st' = se_DeviceName st" by blast
  then obtain sh2 where "newAgent sy m' = Some sh2" "pf_Settings (sh_Prefs sh2) = st'" by (auto simp: newAgent_def New_agent_def)
  then show ?thesis using joined(1) st' out
    by (auto simp: runStatus_def status_lines_def state_of_def State_def Let_def Paired_def joined_line_def st_def)
qed

text \<open>Homebrew for Linux, and the join the other demonstrations make.\<close>

definition brew_system :: "string \<Rightarrow> (unit, string option) host_system" where
  "brew_system version = \<lparr>sy_Dir = ''/data'', sy_Version = ''dev'', sy_GOOS = ''linux'', sy_Hostname = Some ''box'', sy_URLs = demo_urls,
     sy_Transport = demo_net, sy_Item = darwin_Set, sy_Executable = Some ''/brew/bin/sharecodex'',
     sy_Resolve = (\<lambda>_. Some (''/brew'' @ ''/Cellar/sharecodex-cli/'' @ version @ ''/'' @ ''bin/sharecodex'')),
     sy_Exists = (\<lambda>_. True), sy_User = None, sy_Host = demo_host, sy_Today = [], sy_Sha = AgentLedger.demo_sha, sy_LocalTime = (\<lambda>_. [])\<rparr>"

lemma executable_survives_upgrade_witness:
  "executable (brew_system ''1.9.0'') = Some ''/brew/opt/sharecodex-cli/bin/sharecodex'' \<and>
   executable (brew_system ''1.10.2'') = Some ''/brew/opt/sharecodex-cli/bin/sharecodex''"
proof -
  have "\<not> contains (''/brew'' @ ''/Cellar/sharecodex-cli'') ''/Cellar/sharecodex-cli/''" by code_simp
  then have "executable (brew_system v) = Some (''/brew'' @ ''/opt/sharecodex-cli/'' @ ''bin/sharecodex'')" if "CHR ''/'' \<notin> set v" for v
    using that by (intro executable_survives_upgrade[where version = v and pre = "''/brew''" and inVersion = "''bin/sharecodex''"])
      (simp_all add: brew_system_def)
  from this[of "''1.9.0''"] this[of "''1.10.2''"] show ?thesis by simp
qed

definition new_machine :: "string option machine" where
  "new_machine = \<lparr>mc_Settings = SettingsMissing, mc_Store = empty_local, mc_Spool = [], mc_Logins = [], mc_Secrets = [],
     mc_Claude = None, mc_Backup = None, mc_Item = None\<rparr>"

lemma join_is_remembered_witness:
  "case runJoin (brew_system ''1'') ''https://h/join/c'' new_machine () of (err, out, m, w) \<Rightarrow>
     err = None \<and> out = [''Joined https://h as Ann (box)''] \<and>
     (case runStatus (brew_system ''1'') m w of (err', out', m', w') \<Rightarrow> err' = None \<and>
        list_ex (\<lambda>l. has_prefix l ''Server:  '') out' \<and> out' ! 2 = ''Device:  box'')"
proof -
  let ?run = "runJoin (brew_system ''1'') ''https://h/join/c'' new_machine ()"
  have print: "urls_print (sy_URLs (brew_system ''1''))" by (simp add: urls_print_def demo_urls_def trim_right_def brew_system_def)
  obtain err out m w where run: "?run = (err, out, m, w)" by (rule prod_cases4)
  have "fst ?run = None" "fst (snd ?run) = [''Joined https://h as Ann (box)'']" by code_simp+
  then have ran: "err = None" "out = [''Joined https://h as Ann (box)'']" using run by simp_all
  have dev: "fst (snd (runStatus (brew_system ''1'') (fst (snd (snd ?run))) ())) ! 2 = ''Device:  box''" by code_simp
  from join_is_remembered[OF print run[unfolded ran(1)]] obtain server rest where
    "fst (runStatus (brew_system ''1'') m w) = None" "fst (snd (runStatus (brew_system ''1'') m w)) = (''Server:  '' @ server) # rest" by auto
  then show ?thesis using run ran dev by (auto simp: has_prefix_def split: prod.split)
qed

end
