(* ===== verification/StatusShim.thy ===== *)
theory StatusShim
  imports CommandLine
begin

text \<open>
  The statusLine command (\<open>runStatusLine\<close> of \<open>main.go\<close>, \<open>Run\<close> of \<open>statusline.go\<close>), which Claude Code runs on
  every refresh: it spools the limits and then runs the command the user had before. What Claude Code
  passes is the argument \<open>raw\<close>, \<open>None\<close> when it cannot be read, and \<open>decode\<close> its JSON. Running a program with
  an input is the parameter \<open>start\<close> over the world.
\<close>

section \<open>The shim\<close>

definition shell_command :: "string \<Rightarrow> string \<Rightarrow> string list" where
  "shell_command goos command = (if goos = ''windows'' then [''cmd'', ''/C'', command] else [''/bin/sh'', ''-c'', command])"

definition shim_Run ::
  "string \<Rightarrow> ('r \<Rightarrow> spool_input option) \<Rightarrow> (string list \<Rightarrow> 'r \<Rightarrow> 'w \<Rightarrow> 'w) \<Rightarrow> 'r option \<Rightarrow> time \<Rightarrow> string \<Rightarrow> spool_dir \<Rightarrow> 'w \<Rightarrow> spool_dir \<times> 'w" where
  "shim_Run goos decode start raw now chain dir w =
     (case raw of
        None \<Rightarrow> (dir, w)
      | Some r \<Rightarrow> (fst (spool (decode r) now dir), if chain \<noteq> [] then start (shell_command goos chain) r w else w))"

text \<open>Without the directory of ShareCodex nothing is run; with settings that cannot be read, the limits are spooled all the same.\<close>

definition runStatusLine ::
  "place \<Rightarrow> string \<Rightarrow> ('r \<Rightarrow> spool_input option) \<Rightarrow> (string list \<Rightarrow> 'r \<Rightarrow> 'w \<Rightarrow> 'w) \<Rightarrow> 'r option \<Rightarrow> time \<Rightarrow> 'o machine \<Rightarrow> 'w \<Rightarrow> 'o machine \<times> 'w" where
  "runStatusLine hm goos decode start raw now m w =
     (case settings_Dir hm of
        None \<Rightarrow> (m, w)
      | Some _ \<Rightarrow>
          (let st = (case Load (mc_Settings m) of None \<Rightarrow> no_settings | Some st \<Rightarrow> st)
           in case shim_Run goos decode start raw now (chainCommand st) (mc_Spool m) w of (dir, w) \<Rightarrow> (m\<lparr>mc_Spool := dir\<rparr>, w)))"

section \<open>The user's status bar keeps working\<close>

lemma capture_saves:
  assumes "decodeObject (mc_Claude m) = Some ob" "object_get ob statusLineKey = Some v" "\<not> IsShim (Some v)"
    and "se_StatusLine (pf_Settings p) = None" "own_path exe"
  shows "\<exists>m'. capture (Agent_InstallStatusLine exe) p m = (None, m') \<and> mc_Spool m' = mc_Spool m \<and>
     mc_Settings m' = SettingsStored ((pf_Settings p)\<lparr>se_StatusLine := Some v\<rparr>)"
proof -
  define cf where "cf = \<lparr>cf_File = mc_Claude m, cf_Backup = mc_Backup m, cf_Saved = se_StatusLine (pf_Settings p)\<rparr>"
  obtain err cf' where c: "InstallStatusLine exe cf = (err, cf')" by (rule prod.exhaust)
  then have "err = None" "installed ob cf'"
    using install_first[OF _ _ _ assms(5) c, of ob] assms(1-4) by (auto simp: cf_def)
  then have "cf_Saved cf' = Some v" using assms(2) by (auto simp: installed_def)
  moreover have "install_saves exe (mc_Claude m)"
  proof -
    obtain plan where "PlanInstall (mc_Claude m) (ShimCommand exe) = Some plan" "cp_changed plan"
      using c \<open>cf_Saved cf' = Some v\<close> assms(4,5)
      by (auto simp: InstallStatusLine_def cf_def own_path_def split: option.splits if_splits)
    then show ?thesis using assms(5) by (simp add: install_saves_def own_path_def)
  qed
  ultimately show ?thesis using c \<open>err = None\<close>
    by (simp add: capture_def Agent_InstallStatusLine_def cf_def change_settings_def Let_def)
qed

text \<open>
  C26. Capturing the statusLine does not take the user's own one away: after \<open>statusline-capture on\<close>, each run of the
  shim that gets an input runs the command the user had configured, with that very input, whatever becomes
  of the limits in it, and spools the limits.
\<close>

theorem status_bar_keeps_working:
  assumes "Load (mc_Settings m) = Some st" "se_StatusLine st = None"
    and "decodeObject (mc_Claude m) = Some ob" "object_get ob statusLineKey = Some v" "\<not> IsShim (Some v)"
    and "command_of v = Some command" "command \<noteq> []" "executable sy = Some exe" "own_path exe" "settings_Dir hm = Some dir"
    and "runToggle sy ''statusline-capture'' True m w = (err, out, m', w')"
  shows "err = None \<and> runStatusLine hm goos decode start (Some r) now m' v' =
     (m'\<lparr>mc_Spool := fst (spool (decode r) now (mc_Spool m))\<rparr>, start (shell_command goos command) r v')"
proof -
  define sh where "sh = the (newAgent sy m)"
  have sh: "newAgent sy m = Some sh" "pf_Settings (sh_Prefs sh) = st" "mc_Claude (on_disk sh m) = mc_Claude m" "mc_Spool (on_disk sh m) = mc_Spool m"
    using assms(1) by (simp_all add: sh_def newAgent_def New_agent_def on_disk_def)
  obtain m1 where c: "capture (Agent_InstallStatusLine exe) (sh_Prefs sh) (on_disk sh m) = (None, m1)" "mc_Spool m1 = mc_Spool m"
    "mc_Settings m1 = SettingsStored (st\<lparr>se_StatusLine := Some v\<rparr>)"
    using capture_saves[of "on_disk sh m" ob v "sh_Prefs sh" exe] assms sh by auto
  then have "err = None" "m' = m1" using assms(8,11) by (auto simp: runToggle_def sh Let_def)
  moreover have "chainCommand (st\<lparr>se_StatusLine := Some v\<rparr>) = command" using assms(6) by (simp add: chainCommand_def)
  ultimately show ?thesis using c assms(7,10) by (simp add: runStatusLine_def shim_Run_def Load_def)
qed

text \<open>A clock in the status bar; the world is the list of what was started.\<close>

definition clock_machine :: "string option machine" where
  "clock_machine = new_machine\<lparr>mc_Claude := Some (Members [(''statusLine'', JObject [(''command'', JString ''date'')])])\<rparr>"

definition some_place :: place where
  "some_place = \<lparr>hm_Getenv = (\<lambda>_. []), hm_Home = Some ''/home/ann'', hm_Config = Some ''/home/ann/.config'', hm_Sep = ''/'', hm_Windows = False\<rparr>"

definition clock_input :: "string \<Rightarrow> spool_input option" where
  "clock_input r = (if r = [] then None else Some \<lparr>si_SessionID = r,
     si_RateLimits = Some \<lparr>sl_FiveHour = Some \<lparr>lr_UsedPercentage = 50, lr_ResetsAt = 9\<rparr>, sl_SevenDay = None\<rparr>\<rparr>)"

lemma status_bar_keeps_working_witness:
  "case runToggle (brew_system ''1'') ''statusline-capture'' True clock_machine () of (err, out, m, w) \<Rightarrow> err = None \<and>
     snd (runStatusLine some_place ''linux'' clock_input (\<lambda>argv r ran. ran @ [(argv, r)]) (Some []) 1 m []) = [([''/bin/sh'', ''-c'', ''date''], [])] \<and>
     map fst (mc_Spool (fst (runStatusLine some_place ''linux'' clock_input (\<lambda>argv r ran. ran @ [(argv, r)]) (Some ''s'') 1 m []))) = [''s.json'']"
proof -
  let ?run = "runToggle (brew_system ''1'') ''statusline-capture'' True clock_machine ()"
  obtain err out m w where run: "?run = (err, out, m, w)" by (rule prod_cases4)
  have exe: "executable (brew_system ''1'') = Some ''/brew/opt/sharecodex-cli/bin/sharecodex''" by code_simp
  have own: "own_path ''/brew/opt/sharecodex-cli/bin/sharecodex''" unfolding own_path_def by code_simp
  have shim: "\<not> IsShim (Some (JObject [(''command'', JString ''date'')]))" by code_simp
  have "err = None \<and> runStatusLine some_place ''linux'' clock_input (\<lambda>argv r ran. ran @ [(argv, r)]) (Some r) 1 m [] =
     (m\<lparr>mc_Spool := fst (spool (clock_input r) 1 [])\<rparr>, [([''/bin/sh'', ''-c'', ''date''], r)])" for r
    using status_bar_keeps_working[OF _ _ _ _ shim _ _ exe own _ run, where st = no_settings and command = "''date''" and hm = some_place and goos = "''linux''"
        and ob = "[(''statusLine'', JObject [(''command'', JString ''date'')])]" and decode = clock_input and start = "\<lambda>argv r ran. ran @ [(argv, r)]"
        and r = r and now = 1 and v' = "[]"]
    by (simp add: clock_machine_def new_machine_def Load_def no_settings_def decodeObject_def object_get_def statusLineKey_def
        command_of_def string_value_def to_lower_def lower_char_def settings_Dir_def some_place_def under_def shell_command_def)
  then show ?thesis by (simp add: run clock_input_def spool_def spool_name_def)
qed

end
