(* ===== verification/BrowserLogin.thy ===== *)
theory BrowserLogin
  imports CommandLine
begin

text \<open>
  Signing a Claude account in by the browser: \<open>StartLogin\<close> of \<open>oauthusage/login.go\<close> and the command
  \<open>claude-login\<close> around it (\<open>runClaudeLogin\<close> of \<open>main.go\<close>). What reaches the waiting command is a
  list of events, in their order: requests to its loopback port, which any page of the browser can send, and the line the
  user types. Encoding a query is the parameter \<open>encode\<close> (\<open>url.Values.Encode\<close>), \<open>challenge\<close> the base64
  of a SHA-256 digest; the port and the random strings are \<open>None\<close> where getting them fails.
\<close>

section \<open>Starting a sign-in\<close>

definition oauth_clientID :: string where "oauth_clientID = ''9d1c250a-e61b-44d9-88ed-5944d1962f5e''"

definition authorizeURL :: string where "authorizeURL = ''https://claude.ai/oauth/authorize''"

definition oauth_scopes :: string where "oauth_scopes = ''user:profile user:inference''"

definition StartLogin ::
  "((string, string) gomap \<Rightarrow> string) \<Rightarrow> (string \<Rightarrow> string) \<Rightarrow> int option \<Rightarrow> string option \<Rightarrow> string option \<Rightarrow> (login \<times> string) option" where
  "StartLogin encode challenge port verifier state =
     (case port of None \<Rightarrow> None | Some n \<Rightarrow> case verifier of None \<Rightarrow> None | Some v \<Rightarrow> case state of None \<Rightarrow> None | Some s \<Rightarrow>
        (let redirect = ''http://localhost:'' @ decimal n @ ''/callback''
         in Some (\<lparr>lg_Verifier = v, lg_State = s, lg_RedirectURI = redirect, lg_Codes = None\<rparr>,
              authorizeURL @ ''?'' @ encode [(''code'', ''true''), (''client_id'', oauth_clientID), (''response_type'', ''code''),
                (''redirect_uri'', redirect), (''scope'', oauth_scopes), (''code_challenge'', challenge v),
                (''code_challenge_method'', ''S256''), (''state'', s)])))"

text \<open>An event is a request to the callback with its \<open>state\<close> and \<open>code\<close>, or the line typed.\<close>

datatype login_event = Redirected string string | Typed string

definition on_event :: "(string \<Rightarrow> string) \<Rightarrow> login_event \<Rightarrow> login \<Rightarrow> login" where
  "on_event query_code ev l =
     (case ev of
        Redirected state code \<Rightarrow> snd (login_callback query_code state code l)
      | Typed input \<Rightarrow> if input = [] then l else Submit query_code input l)"

section \<open>The command\<close>

datatype sign_in_error = SignInStart | SignInWait wait_error | SignInLink command_error

definition page_lines :: "string \<Rightarrow> string list" where
  "page_lines url = [''Open this page and approve the sign-in:'', [], ''  '' @ url, [],
     ''If the browser is on another machine, paste the code the page shows here and press Enter.'']"

text \<open>\<open>events\<close> is what happens before a code is taken, or until the time is up.\<close>

definition browser_login ::
  "('w, 'o) host_system \<Rightarrow> (string \<Rightarrow> time option) \<Rightarrow> 'w network \<Rightarrow> (string \<Rightarrow> login \<Rightarrow> 'w \<Rightarrow> token_body http_answer \<times> 'w) \<Rightarrow>
   (string \<Rightarrow> string) \<Rightarrow> (login \<times> string) option \<Rightarrow> login_event list \<Rightarrow> 'o machine \<Rightarrow> 'w \<Rightarrow>
   sign_in_error option \<times> string list \<times> 'o machine \<times> 'w" where
  "browser_login sy rfc3339 net exchange query_code started events m w =
     (case newAgent sy m of
        None \<Rightarrow> (Some (SignInLink StartFailed), [], m, w)
      | Some sh \<Rightarrow>
          (case started of
             None \<Rightarrow> (Some SignInStart, [], on_disk sh m, w)
           | Some (l, url) \<Rightarrow>
               (case Wait exchange (nt_profile net) (fold (on_event query_code) events l) (ho_Now (sy_Host sy)) w of
                  (Inl err, w) \<Rightarrow> (Some (SignInWait err), page_lines url, on_disk sh m, w)
                | (Inr (tokens, p), w) \<Rightarrow>
                    (case runClaudeLogin sy rfc3339 net tokens p m w of
                       (err, out, m, w) \<Rightarrow> (map_option SignInLink err, page_lines url @ out, m, w)))))"

section \<open>Which code is taken\<close>

text \<open>What one event hands over to a sign-in with this state.\<close>

definition submitted :: "(string \<Rightarrow> string) \<Rightarrow> string \<Rightarrow> string option" where
  "submitted query_code input =
     (let input = trim_space input; input = or_else (query_code input) input in if input = [] then None else Some input)"

definition hands_over :: "(string \<Rightarrow> string) \<Rightarrow> string \<Rightarrow> login_event \<Rightarrow> string option" where
  "hands_over query_code state ev =
     (case ev of
        Redirected s code \<Rightarrow> if s \<noteq> state \<or> code = [] then None else submitted query_code code
      | Typed input \<Rightarrow> if input = [] then None else submitted query_code input)"

lemma on_event_codes:
  "on_event query_code ev l = l\<lparr>lg_Codes := (case lg_Codes l of Some c \<Rightarrow> Some c | None \<Rightarrow> hands_over query_code (lg_State l) ev)\<rparr>"
  by (simp add: on_event_def login_callback_def Submit_def hands_over_def submitted_def Let_def split: login_event.split option.split)

text \<open>The first code handed over is kept.\<close>

lemma fold_on_event:
  "fold (on_event query_code) events l = l\<lparr>lg_Codes :=
     (case lg_Codes l of Some c \<Rightarrow> Some c | None \<Rightarrow> (case List.map_filter (hands_over query_code (lg_State l)) events of [] \<Rightarrow> None | c # _ \<Rightarrow> Some c))\<rparr>"
  by (induction events arbitrary: l) (simp_all add: on_event_codes List.map_filter_simps split: option.split)

lemma map_filter_filter:
  "(\<And>x. x \<in> set xs \<Longrightarrow> \<not> P x \<Longrightarrow> f x = None) \<Longrightarrow> List.map_filter f (filter P xs) = List.map_filter f xs"
  by (induction xs) (simp_all add: List.map_filter_simps split: option.split)

text \<open>What only the sign-in page that was opened, or the user at the keyboard, can send.\<close>

definition of_sign_in :: "string \<Rightarrow> login_event \<Rightarrow> bool" where
  "of_sign_in state ev = (case ev of Redirected s _ \<Rightarrow> s = state | Typed _ \<Rightarrow> True)"

lemma foreign_hands_over: "\<not> of_sign_in state ev \<Longrightarrow> hands_over query_code state ev = None"
  by (auto simp: of_sign_in_def hands_over_def split: login_event.splits)

lemma fold_foreign: "fold (on_event query_code) (filter (of_sign_in (lg_State l)) events) l = fold (on_event query_code) events l"
proof -
  have "List.map_filter (hands_over query_code (lg_State l)) (filter (of_sign_in (lg_State l)) events) =
      List.map_filter (hands_over query_code (lg_State l)) events"
    by (rule map_filter_filter) (rule foreign_hands_over)
  then show ?thesis by (simp only: fold_on_event)
qed

text \<open>
  C16. No page of the browser can sign ShareCodex in to an account of its choosing: requests to the
  loopback port that do not carry the secret state of the sign-in change nothing, whatever code they bring
  and whenever they come, and when nothing else arrives, no request is sent and no account is linked.
\<close>

theorem foreign_redirects_ignored:
  assumes "StartLogin encode challenge port verifier (Some state) = Some (l, url)" "newAgent sy m = Some sh"
  shows "browser_login sy rfc3339 net exchange query_code (Some (l, url)) events m w =
      browser_login sy rfc3339 net exchange query_code (Some (l, url)) (filter (of_sign_in state) events) m w \<and>
    (filter (of_sign_in state) events = [] \<longrightarrow>
      browser_login sy rfc3339 net exchange query_code (Some (l, url)) events m w = (Some (SignInWait WaitTimeout), page_lines url, on_disk sh m, w))"
proof -
  have l: "lg_State l = state" "lg_Codes l = None"
    using assms(1) by (auto simp: StartLogin_def Let_def split: option.splits)
  have same: "fold (on_event query_code) (filter (of_sign_in state) events) l = fold (on_event query_code) events l"
    using fold_foreign[of query_code l events] l(1) by simp
  have "Wait exchange profile l now w = (Inl WaitTimeout, w)" for profile now by (simp add: Wait_def l(2))
  then show ?thesis using same assms(2) by (auto simp: browser_login_def)
qed

text \<open>A page sends a code of its own before the real one comes; the world is the list of the codes exchanged.\<close>

definition silent_network :: "string list network" where
  "silent_network = \<lparr>nt_usage = (\<lambda>_ w. (NoAnswer, w)), nt_refresh = (\<lambda>_ w. (NoAnswer, w)), nt_profile = (\<lambda>_ w. (NoAnswer, w)),
     nt_quota = (\<lambda>_ w. (NoAnswer, w))\<rparr>"

definition login_system :: "(string list, string option) host_system" where
  "login_system = \<lparr>sy_Dir = ''/data'', sy_Version = ''dev'', sy_GOOS = ''linux'', sy_Hostname = None, sy_URLs = demo_urls,
     sy_Transport = (\<lambda>_ _ w. (None, w)), sy_Item = darwin_Set, sy_Executable = None, sy_Resolve = Some, sy_Exists = (\<lambda>_. True), sy_User = None,
     sy_Host = demo_host, sy_Today = [], sy_Sha = AgentLedger.demo_sha, sy_LocalTime = (\<lambda>_. [])\<rparr>"

lemma foreign_redirects_ignored_witness:
  "case StartLogin (\<lambda>_. []) (\<lambda>_. []) (Some 4000) (Some ''v'') (Some ''s1'') of None \<Rightarrow> False | Some started \<Rightarrow>
     (let run = (\<lambda>events. browser_login login_system (\<lambda>_. None) silent_network (\<lambda>c l w. (NoAnswer, w @ [c])) (\<lambda>_. []) (Some started) events new_machine []) in
        snd (snd (snd (run [Redirected ''s2'' ''evil'', Redirected ''s1'' ''good'']))) = [''good''] \<and>
        fst (run [Redirected ''s2'' ''evil'']) = Some (SignInWait WaitTimeout) \<and> snd (snd (snd (run [Redirected ''s2'' ''evil'']))) = [])"
proof -
  define run where "run = (\<lambda>started events. browser_login login_system (\<lambda>_. None) silent_network (\<lambda>c l w. (NoAnswer, w @ [c])) (\<lambda>_. []) (Some started) events new_machine [])"
  obtain l url where s: "StartLogin (\<lambda>_. []) (\<lambda>_. []) (Some 4000) (Some ''v'') (Some ''s1'') = Some (l, url)" by (simp add: StartLogin_def Let_def)
  obtain sh where sh: "newAgent login_system new_machine = Some sh" by (simp add: newAgent_def New_agent_def new_machine_def Load_def)
  have 1: "run (l, url) events = run (l, url) (filter (of_sign_in ''s1'') events)"
    and 2: "filter (of_sign_in ''s1'') events = [] \<Longrightarrow> run (l, url) events = (Some (SignInWait WaitTimeout), page_lines url, on_disk sh new_machine, [])" for events
    unfolding run_def using foreign_redirects_ignored[OF s sh] by blast+
  have "l = \<lparr>lg_Verifier = ''v'', lg_State = ''s1'', lg_RedirectURI = lg_RedirectURI l, lg_Codes = None\<rparr>"
    using s by (auto simp: StartLogin_def Let_def)
  then have l: "lg_State l = ''s1''" "lg_Codes l = None" by (metis login.select_convs)+
  have "cut_at ''good'' CHR ''#'' = (''good'', [], False)" by code_simp
  moreover have "trim_space ''good'' = ''good''" by code_simp
  ultimately have "snd (snd (snd (run (l, url) [Redirected ''s1'' ''good'']))) = [''good'']"
    using l sh by (simp add: run_def browser_login_def fold_on_event hands_over_def submitted_def or_else_def List.map_filter_simps
      Wait_def accept_code_def requestTokens_def)
  then have 3: "snd (snd (snd (run (l, url) [Redirected ''s2'' ''evil'', Redirected ''s1'' ''good'']))) = [''good'']"
    using 1[of "[Redirected ''s2'' ''evil'', Redirected ''s1'' ''good'']"] by (simp add: of_sign_in_def)
  have 4: "run (l, url) [Redirected ''s2'' ''evil''] = (Some (SignInWait WaitTimeout), page_lines url, on_disk sh new_machine, [])"
    by (rule 2) (simp add: of_sign_in_def)
  show ?thesis using 3 4 unfolding run_def s option.case Let_def by simp
qed

end
