(* ===== verification/Keyring.thy ===== *)
theory Keyring
  imports SecretFiles
begin

text \<open>
  Secrets on macOS and Windows (\<open>internal/client/secret/secret_keyring.go\<close>), and the contract they share with the
  files of Linux. The package \<open>go-keyring\<close> is the record \<open>keyring\<close> of its operations on a world; what it documents
  is \<open>keyring_laws\<close>.
\<close>

section \<open>The contract of a secret store\<close>

text \<open>A sequence of operations, and what each did: \<open>None\<close> is success.\<close>

datatype secret_op = StoreSecret string string | DropSecret string

primrec secret_run ::
  "(string \<Rightarrow> string \<Rightarrow> 'w \<Rightarrow> 'e option \<times> 'w) \<Rightarrow> (string \<Rightarrow> 'w \<Rightarrow> 'e option \<times> 'w) \<Rightarrow> secret_op list \<Rightarrow> 'w \<Rightarrow> 'e option list \<times> 'w" where
  "secret_run store drop' [] w = ([], w)"
| "secret_run store drop' (op # ops) w =
     (let (e, w) = (case op of StoreSecret i v \<Rightarrow> store i v w | DropSecret i \<Rightarrow> drop' i w);
          (es, w) = secret_run store drop' ops w
      in (e # es, w))"

text \<open>What an operation that succeeded makes of one secret, \<open>None\<close> when it is not there.\<close>

definition secret_effect :: "(string \<Rightarrow> string) \<Rightarrow> string \<Rightarrow> secret_op \<times> bool \<Rightarrow> string option \<Rightarrow> string option" where
  "secret_effect kept_as j done cur =
     (case done of (op, ok) \<Rightarrow> if \<not> ok then cur else case op of
        StoreSecret i v \<Rightarrow> if i = j then Some (kept_as v) else cur
      | DropSecret i \<Rightarrow> if i = j then None else cur)"

definition readable :: "'e + string \<Rightarrow> string option" where
  "readable r = (case r of Inl _ \<Rightarrow> None | Inr v \<Rightarrow> Some v)"

locale secret_store =
  fixes store :: "string \<Rightarrow> string \<Rightarrow> 'w \<Rightarrow> 'e option \<times> 'w"
    and fetch :: "string \<Rightarrow> 'w \<Rightarrow> 'e + string"
    and discard :: "string \<Rightarrow> 'w \<Rightarrow> 'e option \<times> 'w"
    and kept_as :: "string \<Rightarrow> string"
  assumes stored: "store i v w = (None, w') \<Longrightarrow> readable (fetch j w') = (if j = i then Some (kept_as v) else readable (fetch j w))"
    and discarded: "discard i w = (None, w') \<Longrightarrow> readable (fetch j w') = (if j = i then None else readable (fetch j w))"
    and not_stored: "store i v w = (Some e, w') \<Longrightarrow> readable (fetch j w') = readable (fetch j w)"
    and not_discarded: "discard i w = (Some e, w') \<Longrightarrow> readable (fetch j w') = readable (fetch j w)"
begin

lemma effect:
  "(case op of StoreSecret i v \<Rightarrow> store i v w | DropSecret i \<Rightarrow> discard i w) = (e, w') \<Longrightarrow>
    readable (fetch j w') = secret_effect kept_as j (op, e = None) (readable (fetch j w))"
  using stored discarded not_stored not_discarded
  by (cases op; cases e) (auto simp: secret_effect_def)

text \<open>A secret is what the last operation on it that succeeded left.\<close>

lemma history:
  "secret_run store discard ops w = (es, w') \<Longrightarrow>
    readable (fetch j w') = fold (secret_effect kept_as j) (zip ops (map (\<lambda>e. e = None) es)) (readable (fetch j w))"
  by (induction ops arbitrary: es w) (auto simp: Let_def effect split: prod.splits)

end

interpretation token_files: secret_store "SetToken dir" "Token dir" "DeleteToken dir" trim_space for dir
  by unfold_locales
    (auto simp: Token_after_SetToken Token_after_DeleteToken readable_def SetToken_def DeleteToken_def split: sum.splits)

lemma ClaudeLogin_after_DeleteClaudeLogin:
  "DeleteClaudeLogin dir i sf = (None, sf') \<Longrightarrow> ClaudeLogin dir j sf' = (if j = i then Inl ErrSecretNotFound else ClaudeLogin dir j sf)"
  by (auto simp: secret_ops readSecret_remove dest: claudeLoginPath_inj split: sum.splits)

interpretation login_files: secret_store "SetClaudeLogin dir" "ClaudeLogin dir" "DeleteClaudeLogin dir" trim_space for dir
  by unfold_locales
    (auto simp: ClaudeLogin_after_SetClaudeLogin ClaudeLogin_after_DeleteClaudeLogin readable_def SetClaudeLogin_def DeleteClaudeLogin_def
      split: sum.splits)

section \<open>The keyring\<close>

datatype keyring_error = KeyringNotFound | KeyringFailed

record 'w keyring =
  kr_Set :: "string \<Rightarrow> string \<Rightarrow> string \<Rightarrow> 'w \<Rightarrow> keyring_error option \<times> 'w"
  kr_Get :: "string \<Rightarrow> string \<Rightarrow> 'w \<Rightarrow> keyring_error + string"
  kr_Delete :: "string \<Rightarrow> string \<Rightarrow> 'w \<Rightarrow> keyring_error option \<times> 'w"

definition keyring_service :: string where "keyring_service = ''ShareCodex''"

text \<open>The package's \<open>ErrNotFound\<close> becomes that of \<open>secret\<close>; deleting what is not there succeeds.\<close>

datatype stored_error = StoredNotFound | StoredFailed keyring_error

definition keyring_read :: "'w keyring \<Rightarrow> string \<Rightarrow> 'w \<Rightarrow> stored_error + string" where
  "keyring_read kr key w = (case kr_Get kr keyring_service key w of
     Inl KeyringNotFound \<Rightarrow> Inl StoredNotFound | Inl e \<Rightarrow> Inl (StoredFailed e) | Inr v \<Rightarrow> Inr v)"

definition keyring_write :: "'w keyring \<Rightarrow> string \<Rightarrow> string \<Rightarrow> 'w \<Rightarrow> stored_error option \<times> 'w" where
  "keyring_write kr key v w = map_prod (map_option StoredFailed) id (kr_Set kr keyring_service key v w)"

definition keyring_drop :: "'w keyring \<Rightarrow> string \<Rightarrow> 'w \<Rightarrow> stored_error option \<times> 'w" where
  "keyring_drop kr key w = (case kr_Delete kr keyring_service key w of
     (Some KeyringNotFound, w) \<Rightarrow> (None, w) | (e, w) \<Rightarrow> (map_option StoredFailed e, w))"

definition Keyring_SetToken :: "'w keyring \<Rightarrow> string \<Rightarrow> string \<Rightarrow> 'w \<Rightarrow> stored_error option \<times> 'w" where
  "Keyring_SetToken kr deviceID token w = keyring_write kr deviceID token w"

definition Keyring_Token :: "'w keyring \<Rightarrow> string \<Rightarrow> 'w \<Rightarrow> stored_error + string" where
  "Keyring_Token kr deviceID w = keyring_read kr deviceID w"

definition Keyring_DeleteToken :: "'w keyring \<Rightarrow> string \<Rightarrow> 'w \<Rightarrow> stored_error option \<times> 'w" where
  "Keyring_DeleteToken kr deviceID w = keyring_drop kr deviceID w"

definition claudeLoginKey :: "string \<Rightarrow> string" where "claudeLoginKey refHash = ''claude-login:'' @ refHash"

definition Keyring_SetClaudeLogin :: "'w keyring \<Rightarrow> string \<Rightarrow> string \<Rightarrow> 'w \<Rightarrow> stored_error option \<times> 'w" where
  "Keyring_SetClaudeLogin kr refHash v w = keyring_write kr (claudeLoginKey refHash) v w"

definition Keyring_ClaudeLogin :: "'w keyring \<Rightarrow> string \<Rightarrow> 'w \<Rightarrow> stored_error + string" where
  "Keyring_ClaudeLogin kr refHash w = keyring_read kr (claudeLoginKey refHash) w"

definition Keyring_DeleteClaudeLogin :: "'w keyring \<Rightarrow> string \<Rightarrow> 'w \<Rightarrow> stored_error option \<times> 'w" where
  "Keyring_DeleteClaudeLogin kr refHash w = keyring_drop kr (claudeLoginKey refHash) w"

section \<open>The keyring is a secret store\<close>

text \<open>What the package documents: a value set is got until it is set again or deleted, others are untouched,
  what is not there is not found, and an operation that fails changes nothing.\<close>

definition keyring_laws :: "'w keyring \<Rightarrow> bool" where
  "keyring_laws kr \<longleftrightarrow>
     (\<forall>s u v w w' t x. kr_Set kr s u v w = (None, w') \<longrightarrow> kr_Get kr t x w' = (if (t, x) = (s, u) then Inr v else kr_Get kr t x w)) \<and>
     (\<forall>s u w w' t x. kr_Delete kr s u w = (None, w') \<longrightarrow> kr_Get kr t x w' = (if (t, x) = (s, u) then Inl KeyringNotFound else kr_Get kr t x w)) \<and>
     (\<forall>s u w w'. kr_Delete kr s u w = (Some KeyringNotFound, w') \<longrightarrow> kr_Get kr s u w = Inl KeyringNotFound) \<and>
     (\<forall>s u v w w' e. kr_Set kr s u v w = (Some e, w') \<longrightarrow> w' = w) \<and>
     (\<forall>s u w w' e. kr_Delete kr s u w = (Some e, w') \<longrightarrow> w' = w)"

lemma keyring_lawsD:
  assumes "keyring_laws kr"
  shows "kr_Set kr s u v w = (None, w') \<Longrightarrow> kr_Get kr t x w' = (if (t, x) = (s, u) then Inr v else kr_Get kr t x w)"
    and "kr_Delete kr s u w = (None, w') \<Longrightarrow> kr_Get kr t x w' = (if (t, x) = (s, u) then Inl KeyringNotFound else kr_Get kr t x w)"
    and "kr_Delete kr s u w = (Some KeyringNotFound, w') \<Longrightarrow> kr_Get kr s u w = Inl KeyringNotFound"
    and "kr_Set kr s u v w = (Some err, w') \<Longrightarrow> w' = w"
    and "kr_Delete kr s u w = (Some err, w') \<Longrightarrow> w' = w"
proof -
  note laws = assms[unfolded keyring_laws_def]
  show "kr_Set kr s u v w = (None, w') \<Longrightarrow> kr_Get kr t x w' = (if (t, x) = (s, u) then Inr v else kr_Get kr t x w)"
    by (rule laws[THEN conjunct1, rule_format])
  show "kr_Delete kr s u w = (None, w') \<Longrightarrow> kr_Get kr t x w' = (if (t, x) = (s, u) then Inl KeyringNotFound else kr_Get kr t x w)"
    by (rule laws[THEN conjunct2, THEN conjunct1, rule_format])
  show "kr_Delete kr s u w = (Some KeyringNotFound, w') \<Longrightarrow> kr_Get kr s u w = Inl KeyringNotFound"
    by (rule laws[THEN conjunct2, THEN conjunct2, THEN conjunct1, rule_format])
  show "kr_Set kr s u v w = (Some err, w') \<Longrightarrow> w' = w"
    by (rule laws[THEN conjunct2, THEN conjunct2, THEN conjunct2, THEN conjunct1, rule_format])
  show "kr_Delete kr s u w = (Some err, w') \<Longrightarrow> w' = w"
    by (rule laws[THEN conjunct2, THEN conjunct2, THEN conjunct2, THEN conjunct2, rule_format])
qed

lemma keyring_written:
  assumes "keyring_laws kr" "keyring_write kr key v w = (e, w')"
  shows "keyring_read kr k w' = (if e = None \<and> k = key then Inr v else keyring_read kr k w)"
proof -
  obtain e0 where s: "kr_Set kr keyring_service key v w = (e0, w')" "e = map_option StoredFailed e0"
    using assms(2) by (cases "kr_Set kr keyring_service key v w") (simp add: keyring_write_def)
  show ?thesis
    using s keyring_lawsD(1)[OF assms(1), of keyring_service key v w w'] keyring_lawsD(4)[OF assms(1), of keyring_service key v w _ w']
    by (cases e0) (auto simp: keyring_read_def)
qed

lemma keyring_dropped:
  assumes "keyring_laws kr" "keyring_drop kr key w = (e, w')"
  shows "keyring_read kr k w' = (if e = None \<and> k = key then Inl StoredNotFound else keyring_read kr k w)"
proof -
  obtain e0 where s: "kr_Delete kr keyring_service key w = (e0, w')" "e = (if e0 = Some KeyringNotFound then None else map_option StoredFailed e0)"
    using assms(2) by (auto simp: keyring_drop_def split: prod.splits option.splits keyring_error.splits)
  show ?thesis
  proof (cases e0)
    case None
    then show ?thesis using s keyring_lawsD(2)[OF assms(1)] by (auto simp: keyring_read_def)
  next
    case (Some err)
    then have "w' = w" using s(1) keyring_lawsD(5)[OF assms(1)] by blast
    then show ?thesis using Some s keyring_lawsD(3)[OF assms(1)] by (auto simp: keyring_read_def)
  qed
qed

lemma claudeLoginKey_inj [simp]: "claudeLoginKey i = claudeLoginKey j \<longleftrightarrow> i = j"
  by (simp add: claudeLoginKey_def)

lemma token_keyring: "keyring_laws kr \<Longrightarrow> secret_store (Keyring_SetToken kr) (Keyring_Token kr) (Keyring_DeleteToken kr) id"
  by unfold_locales (auto simp: Keyring_SetToken_def Keyring_Token_def Keyring_DeleteToken_def keyring_written keyring_dropped readable_def)

lemma login_keyring:
  "keyring_laws kr \<Longrightarrow> secret_store (Keyring_SetClaudeLogin kr) (Keyring_ClaudeLogin kr) (Keyring_DeleteClaudeLogin kr) id"
  by unfold_locales
    (auto simp: Keyring_SetClaudeLogin_def Keyring_ClaudeLogin_def Keyring_DeleteClaudeLogin_def keyring_written keyring_dropped readable_def)

text \<open>The token of a device is no sign-in, as no device is named like the key of one.\<close>

lemma keyring_apart:
  assumes "keyring_laws kr" "\<not> has_prefix i ''claude-login:''" "Keyring_SetClaudeLogin kr h v w = (e, w')"
  shows "Keyring_Token kr i w' = Keyring_Token kr i w"
  using keyring_written[OF assms(1) assms(3)[unfolded Keyring_SetClaudeLogin_def], of i] assms(2)
  by (auto simp: Keyring_Token_def claudeLoginKey_def has_prefix_def)

section \<open>Alike on every system\<close>

lemma effects_alike:
  "list_all (\<lambda>op. case op of StoreSecret i v \<Rightarrow> trim_space v = v | DropSecret i \<Rightarrow> True) ops \<Longrightarrow>
    fold (secret_effect trim_space j) (zip ops oks) cur = fold (secret_effect id j) (zip ops oks) cur"
proof (induction ops arbitrary: oks cur)
  case (Cons op ops)
  then show ?case by (cases oks; cases op) (simp_all add: secret_effect_def)
qed simp

text \<open>
  The agent sees no difference between the systems: the same operations on device tokens, starting from
  stores that answer alike and succeeding alike, leave a directory of files and a keyring with the same tokens.
  Tokens have no white space around them.
\<close>

theorem tokens_alike:
  assumes "keyring_laws kr" "list_all (\<lambda>op. case op of StoreSecret i v \<Rightarrow> trim_space v = v | DropSecret i \<Rightarrow> True) ops"
    and "secret_run (SetToken dir) (DeleteToken dir) ops sf = (es, sf')"
    and "secret_run (Keyring_SetToken kr) (Keyring_DeleteToken kr) ops w = (es', w')"
    and "map (\<lambda>e. e = None) es = map (\<lambda>e. e = None) es'" "readable (Token dir i sf) = readable (Keyring_Token kr i w)"
  shows "readable (Token dir i sf') = readable (Keyring_Token kr i w')"
  using token_files.history[OF assms(3), of i] secret_store.history[OF token_keyring[OF assms(1)] assms(4), of i] assms(5,6)
    effects_alike[OF assms(2)] by simp

text \<open>A keyring in memory, and a token that is replaced.\<close>

definition memory_keyring :: "(string \<times> string, string) gomap keyring" where
  "memory_keyring = \<lparr>kr_Set = (\<lambda>s u v m. (None, put (s, u) v m)),
     kr_Get = (\<lambda>s u m. case map_of m (s, u) of None \<Rightarrow> Inl KeyringNotFound | Some v \<Rightarrow> Inr v),
     kr_Delete = (\<lambda>s u m. if map_of m (s, u) = None then (Some KeyringNotFound, m) else (None, filter (\<lambda>b. fst b \<noteq> (s, u)) m))\<rparr>"

lemma memory_keyring_laws: "keyring_laws memory_keyring"
  by (auto simp: keyring_laws_def memory_keyring_def update_conv' map_of_filter_key split: if_splits option.split)

lemma tokens_alike_witness:
  "case secret_run (Keyring_SetToken memory_keyring) (Keyring_DeleteToken memory_keyring)
      [StoreSecret ''d'' ''old'', StoreSecret ''d'' ''new'', DropSecret ''e''] [] of (es, w) \<Rightarrow>
    readable (Keyring_Token memory_keyring ''d'' w) = readable (Token ''/data''
      ''d'' (snd (secret_run (SetToken ''/data'') (DeleteToken ''/data'') [StoreSecret ''d'' ''old'', StoreSecret ''d'' ''new'', DropSecret ''e''] [])))"
proof -
  let ?ops = "[StoreSecret ''d'' ''old'', StoreSecret ''d'' ''new'', DropSecret ''e'']"
  obtain es sf where f: "secret_run (SetToken ''/data'') (DeleteToken ''/data'') ?ops [] = (es, sf)" by (rule prod.exhaust)
  obtain es' w where k: "secret_run (Keyring_SetToken memory_keyring) (Keyring_DeleteToken memory_keyring) ?ops [] = (es', w)" by (rule prod.exhaust)
  have "map (\<lambda>e. e = None) (fst (secret_run (SetToken ''/data'') (DeleteToken ''/data'') ?ops [])) = [True, True, True]"
    "map (\<lambda>e. e = None) (fst (secret_run (Keyring_SetToken memory_keyring) (Keyring_DeleteToken memory_keyring) ?ops [])) = [True, True, True]"
    by code_simp+
  then have oks: "map (\<lambda>e. e = None) es = map (\<lambda>e. e = None) es'" using f k by simp
  have "list_all (\<lambda>op. case op of StoreSecret i v \<Rightarrow> trim_space v = v | DropSecret i \<Rightarrow> True) ?ops"
    "readable (Token ''/data'' ''d'' []) = readable (Keyring_Token memory_keyring ''d'' [])" by code_simp+
  from tokens_alike[OF memory_keyring_laws this(1) f k oks this(2)] show ?thesis by (simp only: f k prod.case snd_conv)
qed

end
