(* ===== verification/Spec2Isabelle.thy ===== *)
theory Spec2Isabelle
  imports Attribution Antigravity AgentLoops PageService CapacityChart ServerMain AdminMarkup StatusShim BrowserLogin Keyring
begin

text \<open>
  ShareCodex: a verification development.

  The program. People share subscriptions to coding agents (Claude, ChatGPT, Google AI). On each
  computer a client (\<open>src/internal/client\<close>) reads the logs of Claude Code, Codex and Antigravity,
  finds which account each request drew on from a timeline of observed sign-ins, keeps a local
  ledger in SQLite and uploads it through an outbox. A server (\<open>src/internal/server\<close>) merges the
  ledgers in PostgreSQL, and answers with overviews: how much of each quota window is left, who
  used it, and what the account could carry. Both share the domain packages \<open>account\<close>, \<open>usage\<close>,
  \<open>quota\<close>, \<open>attribution\<close> and the wire format \<open>syncapi\<close>. A request so passes through: a parser of the
  log, the agent's attribution, the local database, the sync client, the HTTP API, the server's
  ingest, and the reports.

  How it is modelled. A Go struct is a record, an enumeration of strings the strings, an error a
  value of a sum or option type, a map an association list with distinct keys (\<open>gomap\<close>) whose
  order no theorem fixes, a database a record of tables (lists of rows) and a statement a function
  of it, a transaction their composition, abandoned as a whole at the first error. \<open>int64\<close> counters
  are \<open>int\<close> with \<open>wrap64\<close> written where sums can leave the range; instants and durations are
  nanoseconds as \<open>int\<close>, \<open>Sub\<close> saturating; \<open>float64\<close> is the rational it denotes with exact
  arithmetic, so rounding, infinities and NaN are outside the model.

  Theories, in the order they build on each other.
  \<^item> \<open>GoPrelude\<close>, \<open>GoSort\<close>, \<open>GoStrings\<close>: numbers, time, maps, \<open>sort.Slice\<close> (locale \<open>strict_weak\<close>),
    \<open>sort.Search\<close>, and package strings, with the lemmas every component shares. \<open>SqlTables\<close>: updates
    and transactions over tables, and the locale \<open>kept\<close> of invariants of a step relation.
  \<^item> \<open>Accounts\<close> (\<open>account\<close>, \<open>identity\<close>), \<open>Ledger\<close> (\<open>usage\<close>), \<open>Attribution\<close> (\<open>attribution.Apportion\<close>):
    sign-in and plan timelines, token counters, the split of a window over its members.
  \<^item> \<open>Quota\<close> (\<open>quota.go\<close>); \<open>Rolling\<close>, \<open>Windows\<close>, \<open>Calibration\<close>, \<open>UseSeries\<close>, \<open>Replay\<close>, \<open>Weekly\<close>
    (\<open>capacity.go\<close>): the current reading of each bucket; sliding-window demand by a sweep, quota
    windows measured and calibrated, series thinned and clipped, and past demand replayed under
    another plan.
  \<^item> \<open>Syncapi\<close> (\<open>syncapi.go\<close>): wire records and their conversions.
  \<^item> \<open>ServerStore\<close>, \<open>ServerIngest\<close>, \<open>ServerPeople\<close>, \<open>ServerLedger\<close>, \<open>ServerRules\<close>, \<open>ServerReports\<close>
    (\<open>server/storage/storage.go\<close>): the tables with their keys, references and cascades; every
    operation; the step relation of the store and the invariants of every database it reaches;
    what one sync batch may change; and the queries reports are made of.
  \<^item> \<open>QueryUsage\<close>, \<open>QueryOverview\<close>, \<open>QueryCapacity\<close> (\<open>server/query\<close>): usage reports, the overview
    and the capacity report, with the laws that their parts add up.
  \<^item> \<open>HttpApi\<close> (\<open>server/httpapi/httpapi.go\<close>): every route; requests change the database only by
    operations of the store, for the device of a valid token, within the bounds checked on entry.
  \<^item> \<open>ClientStore\<close> (\<open>client/storage/storage.go\<close>), \<open>ClientSync\<close> (\<open>client/sync/client.go\<close>,
    \<open>agent/syncing.go\<close>): the local ledger with its outbox, and the upload that empties it; composed
    with \<open>HttpApi\<close> they give that what is queued on a computer arrives in the server's ledger.
  \<^item> \<open>LogFiles\<close>, \<open>Transcripts\<close>, \<open>Rollouts\<close>, \<open>OpenCodexLog\<close>, \<open>StatusLine\<close>, \<open>Observers\<close> (\<open>provider\<close>):
    reading append-only logs, the parsers of Claude Code's and Codex's files, the gateway's
    log, the spool of limits, and what the sign-in checks tell.
  \<^item> \<open>AgentIngest\<close>, \<open>AgentLedger\<close> (\<open>agent/ingest.go\<close>, \<open>observe.go\<close>, \<open>resync.go\<close>): the scan that
    attributes and stores requests, and what follows for the local ledger: scans are idempotent,
    a rebuild depends on the logs and the sign-in timeline alone and is queued from the first
    request to the last, and nothing from before the device joined is stored.
  \<^item> \<open>Antigravity\<close> (\<open>google/antigravity/antigravity.go\<close>): conversation databases, whose messages are
    walked field by field. \<open>UsageProbe\<close>, \<open>AgentProbe\<close> (\<open>oauthusage\<close>, \<open>antigravity/quota.go\<close>,
    \<open>agent/usage.go\<close>): limits read from the providers, and sign-ins renewed, of which none is lost but by
    an answer of the token endpoint lost on the way.
    \<open>ClaudeConfig\<close> (\<open>anthropic/config\<close>, \<open>agent/statusline.go\<close>): Claude Code's settings edited and put back.
  \<^item> \<open>SecretFiles\<close>, \<open>Keyring\<close> (\<open>client/secret\<close>): secrets in files on Linux and in the keyring elsewhere, one
    contract. \<open>AtomicFile\<close> (\<open>internal/atomicfile\<close>): files written so that a
    crash or a second writer leaves the old contents or the new. \<open>Places\<close>: where the files of the
    client and of the providers are. \<open>Escapes\<close>, \<open>Utf8\<close>: escaping read back, and texts by code points.
    \<open>Autostart\<close> (\<open>client/autostart\<close>): the login item of each system. \<open>UpdateCheck\<close> (\<open>client/update\<close>).
  \<^item> \<open>Preferences\<close> (\<open>settings.go\<close>, \<open>agent/window.go\<close>, \<open>agent/statusline.go\<close>), \<open>LocalAccounts\<close>, \<open>Joining\<close> (\<open>agent/state.go\<close>,
    \<open>syncing.go\<close>, \<open>resync.go\<close>, \<open>New\<close> of \<open>agent.go\<close>): settings, joining and leaving a server, and what
    the popup shows. \<open>AgentLoops\<close> (\<open>agent.go\<close>): the loops of the running agent.
  \<^item> \<open>Desktop\<close>, \<open>PageService\<close> (\<open>client/desktop/desktop.go\<close>): popup, tray and widgets, and what the
    popup's page may call. \<open>ScanReport\<close>, \<open>CommandLine\<close>, \<open>StatusShim\<close>, \<open>BrowserLogin\<close>
    (\<open>scan.go\<close>, \<open>main.go\<close>, \<open>statusline.go\<close>, \<open>oauthusage/login.go\<close>): the commands, with the statusLine shim and
    the sign-in by the browser.
  \<^item> \<open>AdminFormat\<close>, \<open>AdminChart\<close>, \<open>AdminViews\<close>, \<open>CapacityChart\<close>, \<open>AdminDictionary\<close>, \<open>AdminConsole\<close>,
    \<open>AdminRules\<close>, \<open>AdminMarkup\<close> (\<open>server/admin\<close>): the console and the public dashboard: figures, charts
    and markup, the two languages, the handlers behind their sessions, and what they may change or
    publish. \<open>ServerMain\<close> (\<open>cmd/sharecodex-server/main.go\<close>): the console and the API behind one router,
    serving one database.

  Interfaces are locales. \<open>strict_weak\<close> is the comparison handed to a sort, interpreted for each order
  the program sorts by; \<open>kept\<close> a property every step keeps, interpreted for the server's database (once
  more for its people), the client's database, the agent and the settings; \<open>counter\<close> a total of a usage
  report, interpreted for cost and each count; \<open>collation\<close> the database's order of names; \<open>escaping\<close>
  a table of escapes that is read back, interpreted for systemd units, XML and HTML; \<open>secret_store\<close> what
  a store of secrets promises, interpreted for both kinds of files and shown of the keyring; and
  \<open>login_items\<close> the three systems' ways of running at login.

  State machines are inductive relations, with invariants by rule induction: \<open>server_step\<close>,
  \<open>client_step\<close>, \<open>agent_step\<close>, \<open>pref_step\<close>, \<open>shell_step\<close> (joining and leaving), \<open>site_step\<close> (console
  and API over one database) and \<open>disk_step\<close> (the system calls of interleaved writers). What
  runs on events is a function of the event: \<open>loop_turn\<close> for the agent's loops, \<open>handle_event\<close> and
  \<open>emit_turn\<close> for the desktop app, \<open>page_serve\<close> for its page, \<open>server_serve\<close> for the server.

  Termination. Loops over lists are structural. \<open>upload\<close> terminates as each round shortens the
  outbox; \<open>thinBy\<close>, the replays, the week loops and the loops over texts by measures proved with
  them. \<open>walk_fields\<close>, over lengths that come from outside, is a \<open>partial_function\<close> and proved to
  return. The one panic of the modelled code, indexing replays of different lengths in
  \<open>WorstWeekly\<close>, is the value \<open>None\<close>, and the capacity report is proved never to reach it. No
  fuel is used.

  Parameters stand for what is not under \<open>src/\<close>: SHA-256 (\<open>sha\<close>; the hex digest is never empty),
  random IDs and codes, the decoding of JSON (a decoded value, or \<open>None\<close> for an error), the database's
  collation of names, reading and writing times, \<open>net/url\<close> (\<open>urls\<close>), \<open>protowire\<close> (\<open>wire\<close>), \<open>go-keyring\<close> (\<open>keyring\<close>), the
  HTTP transport, the providers' endpoints (\<open>network\<close>, whose token endpoint keeps to RFC 6749 as
  \<open>oauth_endpoint\<close> says), the clock, \<open>systemctl\<close> and the reading of units (\<open>systemd_reader\<close>), and the files, processes
  and sign-ins of the computer (the records \<open>host\<close>, \<open>outside\<close>, \<open>place\<close>, \<open>host_system\<close>,
  \<open>page_env\<close> and \<open>admin_env\<close>). SQL is modelled by what its statements say; PostgreSQL and SQLite
  are trusted to execute them. A failing disk is modelled in \<open>AtomicFile\<close> alone. Case mapping and
  white space are those of ASCII.

  Not modelled: the HTML templates and the page's scripts; the calls that make windows, tray and
  menus and reach the clipboard, the start of the desktop app with them (\<open>desktop.go\<close> at the root), and
  the helpers that start processes; listeners, timeouts and
  signals; opening the databases and their migrations; and the wait after a wrong password. They are
  calls to the operating system or to libraries, or text without logic.
\<close>

end
